(* ===== verification/Prelude.thy ===== *)
theory Prelude
  imports Main "HOL-Library.Multiset"
begin

section \<open>Shared notions of the game-server model\<close>

text \<open>
  What every component uses: Go's fixed-width integers as integers with the wrap-around
  written out, Go's truncating division, the row-major double loop that paints and scans
  rectangles, indexing of row-major arrays, and the interface of an index that is painted
  first come, first served (the territory index and the safe-zone index are its providers).
\<close>

named_theorems go_arith
  \<open>range facts and identities of the wrapped integers, for simp add: go_arith\<close>

subsection \<open>Errors as values\<close>

abbreviation Err :: "'e \<Rightarrow> 'e + 'a" where "Err \<equiv> Inl"
abbreviation Ok :: "'a \<Rightarrow> 'e + 'a" where "Ok \<equiv> Inr"

text \<open>
  A Go function that only returns an error is an option of its error type, None being nil.
  A loop that returns the first error its body finds:
\<close>

fun first_err :: "('a \<Rightarrow> 'e option) \<Rightarrow> 'a list \<Rightarrow> 'e option" where
  "first_err f [] = None"
| "first_err f (x # xs) = (case f x of Some e \<Rightarrow> Some e | None \<Rightarrow> first_err f xs)"

lemma first_err_None_iff: "first_err f xs = None \<longleftrightarrow> (\<forall>x \<in> set xs. f x = None)"
  by (induction xs) (auto split: option.splits)

lemma first_err_SomeD: "first_err f xs = Some e \<Longrightarrow> \<exists>x \<in> set xs. f x = Some e"
  by (induction xs) (auto split: option.splits)

subsection \<open>Fixed-width integers\<close>

text \<open>
  Go's int32 and int64 wrap in two's complement, uint16 and uint32 modulo their width. A
  value of these types is an integer in range; every arithmetic step of the code whose
  result might leave the range is wrapped by the conversion of its type.
\<close>

definition i32 :: "int \<Rightarrow> int" where
  "i32 x = (x + 2147483648) mod 4294967296 - 2147483648"

definition i64 :: "int \<Rightarrow> int" where
  "i64 x = (x + 9223372036854775808) mod 18446744073709551616 - 9223372036854775808"

definition u16 :: "int \<Rightarrow> int" where
  "u16 x = x mod 65536"

definition u32 :: "int \<Rightarrow> int" where
  "u32 x = x mod 4294967296"

definition is_i32 :: "int \<Rightarrow> bool" where
  "is_i32 x \<longleftrightarrow> - 2147483648 \<le> x \<and> x \<le> 2147483647"

definition is_i64 :: "int \<Rightarrow> bool" where
  "is_i64 x \<longleftrightarrow> - 9223372036854775808 \<le> x \<and> x \<le> 9223372036854775807"

lemma i32_id [go_arith]: "- 2147483648 \<le> x \<Longrightarrow> x \<le> 2147483647 \<Longrightarrow> i32 x = x"
  by (simp add: i32_def)

lemma i64_id [go_arith]:
  "- 9223372036854775808 \<le> x \<Longrightarrow> x \<le> 9223372036854775807 \<Longrightarrow> i64 x = x"
  by (simp add: i64_def)

lemma u16_id [go_arith]: "0 \<le> x \<Longrightarrow> x \<le> 65535 \<Longrightarrow> u16 x = x"
  by (simp add: u16_def)

lemma u32_id [go_arith]: "0 \<le> x \<Longrightarrow> x \<le> 4294967295 \<Longrightarrow> u32 x = x"
  by (simp add: u32_def)

lemma is_i32_i32 [simp]: "is_i32 (i32 x)"
  by (simp add: is_i32_def i32_def)

lemma is_i64_i64 [simp]: "is_i64 (i64 x)"
  by (simp add: is_i64_def i64_def)

lemma i32_is_i32 [simp]: "is_i32 x \<Longrightarrow> i32 x = x"
  by (simp add: is_i32_def i32_id)

lemma i64_is_i64 [simp]: "is_i64 x \<Longrightarrow> i64 x = x"
  by (simp add: is_i64_def i64_id)

text \<open>Go's integer division truncates towards zero; the divisor is never zero where it is used.\<close>

definition go_div :: "int \<Rightarrow> int \<Rightarrow> int" where
  "go_div a b = sgn a * sgn b * (\<bar>a\<bar> div \<bar>b\<bar>)"

definition go_rem :: "int \<Rightarrow> int \<Rightarrow> int" where
  "go_rem a b = a - b * go_div a b"

lemma go_div_nonneg [go_arith]: "0 \<le> a \<Longrightarrow> 0 < b \<Longrightarrow> go_div a b = a div b"
  by (cases "a = 0") (simp_all add: go_div_def)

lemma go_rem_nonneg [go_arith]: "0 \<le> a \<Longrightarrow> 0 < b \<Longrightarrow> go_rem a b = a mod b"
  by (simp add: go_rem_def go_div_nonneg minus_mult_div_eq_mod)

lemma div_mult_bounds:
  fixes a k :: int
  assumes "0 < k"
  shows "a div k * k \<le> a" and "a < (a div k + 1) * k"
proof -
  have e: "a div k * k + a mod k = a" by (rule div_mult_mod_eq)
  have m: "0 \<le> a mod k" "a mod k < k" using assms by simp_all
  show "a div k * k \<le> a" using e m by linarith
  have "(a div k + 1) * k = a div k * k + k" by (simp add: distrib_right)
  then show "a < (a div k + 1) * k" using e m by linarith
qed

lemma le_div_iff:
  fixes a c k :: int
  assumes "0 < k"
  shows "c \<le> a div k \<longleftrightarrow> c * k \<le> a"
proof
  assume "c \<le> a div k"
  then have "c * k \<le> a div k * k" using assms by simp
  with div_mult_bounds[OF assms, of a] show "c * k \<le> a" by linarith
next
  assume c: "c * k \<le> a"
  show "c \<le> a div k"
  proof (rule ccontr)
    assume "\<not> c \<le> a div k"
    then have "(a div k + 1) * k \<le> c * k" using assms by simp
    with div_mult_bounds[OF assms, of a] c show False by linarith
  qed
qed

lemma div_eq_iff:
  fixes a c k :: int
  assumes "0 < k"
  shows "a div k = c \<longleftrightarrow> c * k \<le> a \<and> a < (c + 1) * k"
  using le_div_iff[OF assms, of c a] le_div_iff[OF assms, of "c + 1" a] by linarith

text \<open>The quotients of an interval are an interval.\<close>

lemma div_range_iff:
  fixes k :: int
  assumes "0 < k" "a \<le> a'"
  shows "a div k \<le> c \<and> c \<le> a' div k \<longleftrightarrow> (\<exists>x. a \<le> x \<and> x \<le> a' \<and> x div k = c)"
proof
  assume c: "a div k \<le> c \<and> c \<le> a' div k"
  show "\<exists>x. a \<le> x \<and> x \<le> a' \<and> x div k = c"
  proof (cases "a div k = c")
    case True
    then show ?thesis using assms(2) by auto
  next
    case False
    with c have "\<not> c \<le> a div k" by simp
    with c have "a \<le> c * k \<and> c * k \<le> a'" by (simp add: le_div_iff[OF assms(1)])
    then show ?thesis using assms(1) by (intro exI[of _ "c * k"]) simp
  qed
next
  assume "\<exists>x. a \<le> x \<and> x \<le> a' \<and> x div k = c"
  then show "a div k \<le> c \<and> c \<le> a' div k" using assms(1) by (auto intro: zdiv_mono1)
qed

subsection \<open>Row-major scans\<close>

text \<open>
  The loop for y := minY; y <= maxY; y++ with an inner loop over x: the list of the visited
  (x, y) in order. The bounds are those of rectangles inside a world or one tile around it,
  so the loop variables never reach the end of int32.
\<close>

definition scan :: "int \<Rightarrow> int \<Rightarrow> int \<Rightarrow> int \<Rightarrow> (int \<times> int) list" where
  "scan minX minY maxX maxY = concat (map (\<lambda>y. map (\<lambda>x. (x, y)) [minX..maxX]) [minY..maxY])"

lemma set_scan [simp]:
  "set (scan a b c d) = {(x, y). a \<le> x \<and> x \<le> c \<and> b \<le> y \<and> y \<le> d}"
  by (auto simp: scan_def)

lemma in_scan_iff [simp]:
  "(x, y) \<in> set (scan a b c d) \<longleftrightarrow> a \<le> x \<and> x \<le> c \<and> b \<le> y \<and> y \<le> d"
  by simp

definition row_major_less :: "int \<times> int \<Rightarrow> int \<times> int \<Rightarrow> bool" where
  "row_major_less p q \<longleftrightarrow> snd p < snd q \<or> (snd p = snd q \<and> fst p < fst q)"

lemma row_major_less_irrefl [simp]: "\<not> row_major_less p p"
  by (simp add: row_major_less_def)

lemma sorted_wrt_row: "sorted_wrt row_major_less (map (\<lambda>x. (x, y)) [a..c])"
proof -
  have "sorted_wrt (<) [a..c]"
    by (induction a c rule: upto.induct) (subst upto.simps, auto)
  then show ?thesis
    by (auto simp: sorted_wrt_map row_major_less_def elim!: sorted_wrt_mono_rel[rotated])
qed

lemma sorted_wrt_scan: "sorted_wrt row_major_less (scan a b c d)"
proof -
  have "sorted_wrt row_major_less (concat (map (\<lambda>y. map (\<lambda>x. (x, y)) [a..c]) ys))"
    if "sorted_wrt (<) ys" for ys :: "int list"
    using that
    by (induction ys)
       (auto simp: sorted_wrt_append sorted_wrt_row, auto simp: row_major_less_def)
  moreover have "sorted_wrt (<) [b..d]"
    by (induction b d rule: upto.induct) (subst upto.simps, auto)
  ultimately show ?thesis by (simp add: scan_def)
qed

lemma sorted_wrt_irrefl_distinct:
  assumes "sorted_wrt r xs" and "\<And>x. \<not> r x x"
  shows "distinct xs"
  using assms by (induction xs) auto

lemma distinct_scan [simp]: "distinct (scan a b c d)"
  by (rule sorted_wrt_irrefl_distinct [OF sorted_wrt_scan]) simp

subsection \<open>Row-major arrays\<close>

text \<open>The position y*width + x of a tile in a row-major slice.\<close>

definition row_idx :: "int \<Rightarrow> int \<Rightarrow> int \<Rightarrow> nat" where
  "row_idx width x y = nat (y * width + x)"

lemma row_idx_inj:
  assumes "0 \<le> x" "x < w" "0 \<le> x'" "x' < w" "0 \<le> y" "0 \<le> y'"
    and "row_idx w x y = row_idx w x' y'"
  shows "x = x' \<and> y = y'"
proof -
  from assms have w: "0 < w" by simp
  from assms(1,5) w have "0 \<le> y * w + x" by simp
  moreover from assms(3,6) w have "0 \<le> y' * w + x'" by simp
  ultimately have eq: "y * w + x = y' * w + x'"
    using assms(7) by (simp add: row_idx_def)
  have "(y * w + x) div w = y" "(y' * w + x') div w = y'"
    using assms w by simp_all
  with eq have "y = y'" by simp
  with eq show ?thesis by simp
qed

lemma row_idx_less:
  assumes "0 \<le> x" "x < w" "0 \<le> y" "y < h"
  shows "row_idx w x y < nat (w * h)"
proof -
  have "y * w + x < (y + 1) * w"
    using assms by (simp add: distrib_right)
  also have "\<dots> \<le> h * w"
    using assms by (intro mult_right_mono) auto
  finally show ?thesis
    using assms by (simp add: row_idx_def mult.commute nat_less_iff)
qed

lemma row_idx_surj:
  assumes "i < nat (w * h)" and "0 < w"
  shows "\<exists>x y. 0 \<le> x \<and> x < w \<and> 0 \<le> y \<and> y < h \<and> i = row_idx w x y"
proof (intro exI conjI)
  let ?x = "int i mod w" and ?y = "int i div w"
  from assms(2) show "0 \<le> ?x" "?x < w" "0 \<le> ?y" by (simp_all add: pos_imp_zdiv_nonneg_iff)
  from assms have "int i < h * w" by (simp add: zless_nat_eq_int_zless mult.commute)
  show "?y < h"
  proof (rule ccontr)
    assume "\<not> ?y < h"
    then have "h * w \<le> ?y * w" using assms(2) by (intro mult_right_mono) auto
    also have "\<dots> \<le> int i" using assms(2)
      by (metis div_mult_mod_eq le_add_same_cancel1 pos_mod_sign)
    finally show False using \<open>int i < h * w\<close> by simp
  qed
  show "i = row_idx w ?x ?y" by (simp add: row_idx_def)
qed

lemma nth_list_update_if: "j < length xs \<Longrightarrow> xs[i := v] ! j = (if i = j then v else xs ! j)"
  by (cases "i = j") simp_all

subsection \<open>The grid interfaces\<close>

text \<open>
  movement.CostGrid and pathfinding.Grid, the views of the world that the polyline builder
  and the path search declare: which tiles can be walked on and what entering one costs.
  The laws are what those clients rely on; the world is the provider.
\<close>

locale cost_grid =
  fixes walkable :: "int \<Rightarrow> int \<Rightarrow> bool"
    and cost :: "int \<Rightarrow> int \<Rightarrow> int"
    and max_cost :: int
  assumes cost_pos: "walkable x y \<Longrightarrow> 0 < cost x y"
    and cost_le_max: "cost x y \<le> max_cost"

locale path_grid = cost_grid +
  fixes width :: int
    and height :: int
    and min_cost :: int
  assumes walkable_in_grid: "walkable x y \<Longrightarrow> 0 \<le> x \<and> x < width \<and> 0 \<le> y \<and> y < height"
    and min_cost_pos: "0 < min_cost"
    and min_cost_le: "walkable x y \<Longrightarrow> min_cost \<le> cost x y"

subsection \<open>Searching lists\<close>

lemma find_append: "find P (xs @ ys) = (case find P xs of None \<Rightarrow> find P ys | Some x \<Rightarrow> Some x)"
  by (induction xs) auto

lemma find_SomeD: "find P xs = Some x \<Longrightarrow> x \<in> set xs \<and> P x"
  by (auto simp: find_Some_iff)

lemma mult_pos_ge_1: "0 < a \<Longrightarrow> 0 < b \<Longrightarrow> 1 \<le> a * (b :: int)"
  using mult_pos_pos[of a b] by linarith

lemma nat_int_minus_1 [simp]: "nat (int n - 1) = n - 1"
  by arith

lemma filter_prefix:
  assumes "r < length xs" "\<And>j. j \<le> r \<Longrightarrow> P (xs ! j)"
    and "\<And>j. r < j \<Longrightarrow> j < length xs \<Longrightarrow> \<not> P (xs ! j)"
  shows "filter P xs = take (Suc r) xs"
proof -
  have "filter P (take (Suc r) xs) = take (Suc r) xs"
    using assms(1,2) by (auto simp: filter_id_conv in_set_conv_nth)
  moreover have "filter P (drop (Suc r) xs) = []"
    using assms(1,3) by (auto simp: filter_empty_conv in_set_conv_nth)
  ultimately show ?thesis
    using filter_append[of P "take (Suc r) xs" "drop (Suc r) xs"] by simp
qed

lemma find_NoneD: "find P xs = None \<Longrightarrow> x \<in> set xs \<Longrightarrow> \<not> P x"
  by (auto simp: find_None_iff)

end
