(* ===== verification/World.thy ===== *)
theory World
  imports Prelude "HOL-Library.Word"
begin

section \<open>Tiles, terrain, the world and its chunks\<close>

text \<open>
  Models internal/game/world/tile.go and world.go. A tile is a record of two int32
  coordinates; a terrain is a byte; a world keeps the immutable terrain bytes and the
  occupation layer in row-major order. The mutex of the occupation layer has no counterpart:
  an operation on it is one step of the model. Proved: New accepts exactly the well-formed
  worlds, SetBlocked changes exactly the tiles of its rectangle, a walkable tile has a cost
  of at least the minimum the path search assumes, chunk numbers are unique, a chunk's copy
  holds the bytes of its tiles, and the chunks in a radius are the Chebyshev ball, in order.
\<close>

type_synonym int32 = int
type_synonym int64 = int
type_synonym byte = "8 word"

subsection \<open>Tiles (tile.go)\<close>

record tile =
  tX :: int32
  tY :: int32

abbreviation mk_tile :: "int32 \<Rightarrow> int32 \<Rightarrow> tile" where
  "mk_tile x y \<equiv> \<lparr>tX = x, tY = y\<rparr>"

lemma tile_eta [simp]: "mk_tile (tX t) (tY t) = t"
  by simp

definition abs32 :: "int32 \<Rightarrow> int32" where
  "abs32 v = (if v < 0 then i32 (- v) else v)"

definition IsAdjacent :: "tile \<Rightarrow> tile \<Rightarrow> bool" where
  "IsAdjacent t o' =
     (let dx = abs32 (i32 (tX t - tX o')); dy = abs32 (i32 (tY t - tY o'))
      in dx \<le> 1 \<and> dy \<le> 1 \<and> (dx \<noteq> 0 \<or> dy \<noteq> 0))"

definition IsDiagonalTo :: "tile \<Rightarrow> tile \<Rightarrow> bool" where
  "IsDiagonalTo t o' \<longleftrightarrow> tX t \<noteq> tX o' \<and> tY t \<noteq> tY o'"

subsection \<open>Terrain (tile.go)\<close>

definition Grassland :: byte where "Grassland = 0"
definition Forest :: byte where "Forest = 1"
definition Hill :: byte where "Hill = 2"
definition Mountain :: byte where "Mountain = 3"
definition Water :: byte where "Water = 4"
definition Road :: byte where "Road = 5"

lemmas terrain_defs = Grassland_def Forest_def Hill_def Mountain_def Water_def Road_def

definition terrainCount :: nat where "terrainCount = 6"

definition Valid_terrain :: "byte \<Rightarrow> bool" where
  "Valid_terrain t \<longleftrightarrow> unat t < terrainCount"

definition terrainWalkable :: "bool list" where
  "terrainWalkable = [True, True, True, False, False, True]"

definition terrainCostUnits :: "int list" where
  "terrainCostUnits = [10, 16, 18, 0, 0, 6]"

definition CostBase :: int32 where "CostBase = 10"

definition Walkable :: "byte \<Rightarrow> bool" where
  "Walkable t \<longleftrightarrow> Valid_terrain t \<and> terrainWalkable ! unat t"

definition CostUnits :: "byte \<Rightarrow> int32" where
  "CostUnits t = (if Valid_terrain t then terrainCostUnits ! unat t else 0)"

fun min_cost_loop :: "nat list \<Rightarrow> int32 \<Rightarrow> int32" where
  "min_cost_loop [] m = m"
| "min_cost_loop (i # is) m =
     (if \<not> terrainWalkable ! i then min_cost_loop is m
      else let c = terrainCostUnits ! i
           in min_cost_loop is (if m = 0 \<or> c < m then c else m))"

definition computeMinTerrainCost :: int32 where
  "computeMinTerrainCost = min_cost_loop [0..<terrainCount] 0"

definition MinTerrainCostUnits :: int32 where
  "MinTerrainCostUnits = computeMinTerrainCost"

lemma upt_terrainCount: "[0..<terrainCount] = [0, 1, 2, 3, 4, 5]"
  by (simp add: terrainCount_def upt_conv_Cons)

lemma MinTerrainCostUnits_6 [simp]: "MinTerrainCostUnits = 6"
  by (simp add: MinTerrainCostUnits_def computeMinTerrainCost_def upt_terrainCount
      terrainWalkable_def terrainCostUnits_def)

lemma less_6_cases: "n < 6 \<Longrightarrow> n = 0 \<or> n = 1 \<or> n = 2 \<or> n = 3 \<or> n = 4 \<or> n = (5 :: nat)"
  by arith

lemma Walkable_cost: "Walkable t \<Longrightarrow> MinTerrainCostUnits \<le> CostUnits t \<and> CostUnits t \<le> 18"
  by (auto simp: Walkable_def CostUnits_def Valid_terrain_def terrainCount_def
      terrainWalkable_def terrainCostUnits_def dest!: less_6_cases)

lemma unat_eq_of_nat: "unat t = n \<Longrightarrow> t = of_nat n"
  by auto

lemma Walkable_cases:
  "Walkable t \<longleftrightarrow> t = Grassland \<or> t = Forest \<or> t = Hill \<or> t = Road"
proof -
  have "t = Grassland \<or> t = Forest \<or> t = Hill \<or> t = Road"
    if "unat t = 0 \<or> unat t = 1 \<or> unat t = 2 \<or> unat t = 5"
    using that by (auto simp: terrain_defs dest!: unat_eq_of_nat)
  moreover have "unat t = 0 \<or> unat t = 1 \<or> unat t = 2 \<or> unat t = 5" if "Walkable t"
    using that by (auto simp: Walkable_def Valid_terrain_def terrainCount_def
        terrainWalkable_def dest!: less_6_cases)
  ultimately show ?thesis
    by (auto simp: Walkable_def Valid_terrain_def terrainCount_def terrainWalkable_def terrain_defs)
qed

lemma Walkable_consts [simp]:
  "Walkable Grassland" "Walkable Forest" "Walkable Hill" "Walkable Road"
  "\<not> Walkable Mountain" "\<not> Walkable Water"
  by (simp_all add: Walkable_cases) (simp_all add: terrain_defs)

lemma Valid_consts [simp]:
  "Valid_terrain Grassland" "Valid_terrain Forest" "Valid_terrain Hill" "Valid_terrain Road"
  "Valid_terrain Mountain" "Valid_terrain Water"
  by (simp_all add: Valid_terrain_def terrainCount_def terrain_defs)

subsection \<open>The world (world.go)\<close>

record world =
  w_width :: int32
  w_height :: int32
  w_chunkSize :: int32
  w_seed :: "64 word"
  w_terrain :: "byte list"
  w_blocked :: "bool list"

datatype world_error =
  BadDimensions | BadChunkSize | BadTerrainLength | BadTerrainByte nat | ErrOutOfBounds

fun first_invalid :: "nat \<Rightarrow> byte list \<Rightarrow> nat option" where
  "first_invalid i [] = None"
| "first_invalid i (b # bs) = (if Valid_terrain b then first_invalid (Suc i) bs else Some i)"

definition New_world ::
  "int32 \<Rightarrow> int32 \<Rightarrow> int32 \<Rightarrow> 64 word \<Rightarrow> byte list \<Rightarrow> world_error + world" where
  "New_world width height chunkSize seed terrain =
     (if width \<le> 0 \<or> height \<le> 0 then Err BadDimensions
      else if chunkSize \<le> 0 \<or> go_rem width chunkSize \<noteq> 0 \<or> go_rem height chunkSize \<noteq> 0
      then Err BadChunkSize
      else if int (length terrain) \<noteq> width * height then Err BadTerrainLength
      else case first_invalid 0 terrain of
        Some i \<Rightarrow> Err (BadTerrainByte i)
      | None \<Rightarrow> Ok \<lparr>w_width = width, w_height = height, w_chunkSize = chunkSize, w_seed = seed,
          w_terrain = terrain, w_blocked = replicate (nat (width * height)) False\<rparr>)"

definition ChunksPerRow :: "world \<Rightarrow> int32" where
  "ChunksPerRow w = go_div (w_width w) (w_chunkSize w)"

definition ChunksPerColumn :: "world \<Rightarrow> int32" where
  "ChunksPerColumn w = go_div (w_height w) (w_chunkSize w)"

definition InBounds :: "world \<Rightarrow> int32 \<Rightarrow> int32 \<Rightarrow> bool" where
  "InBounds w x y \<longleftrightarrow> 0 \<le> x \<and> 0 \<le> y \<and> x < w_width w \<and> y < w_height w"

definition TileInBounds :: "world \<Rightarrow> tile \<Rightarrow> bool" where
  "TileInBounds w t = InBounds w (tX t) (tY t)"

definition index :: "world \<Rightarrow> int32 \<Rightarrow> int32 \<Rightarrow> nat" where
  "index w x y = row_idx (w_width w) x y"

definition TerrainAt :: "world \<Rightarrow> int32 \<Rightarrow> int32 \<Rightarrow> byte" where
  "TerrainAt w x y = (if \<not> InBounds w x y then Water else w_terrain w ! index w x y)"

definition IsBlocked :: "world \<Rightarrow> int32 \<Rightarrow> int32 \<Rightarrow> bool" where
  "IsBlocked w x y = (if \<not> InBounds w x y then True else w_blocked w ! index w x y)"

definition IsWalkable :: "world \<Rightarrow> int32 \<Rightarrow> int32 \<Rightarrow> bool" where
  "IsWalkable w x y =
     (if \<not> InBounds w x y then False
      else if \<not> Walkable (w_terrain w ! index w x y) then False
      else \<not> w_blocked w ! index w x y)"

definition MoveCostUnits :: "world \<Rightarrow> int32 \<Rightarrow> int32 \<Rightarrow> int32" where
  "MoveCostUnits w x y =
     (if \<not> IsWalkable w x y then 0 else CostUnits (w_terrain w ! index w x y))"

definition MinMoveCostUnits :: "world \<Rightarrow> int32" where
  "MinMoveCostUnits w = MinTerrainCostUnits"

definition set_blocked_tile :: "bool \<Rightarrow> int \<times> int \<Rightarrow> world \<Rightarrow> world" where
  "set_blocked_tile b p w =
     (if \<not> InBounds w (fst p) (snd p) then w
      else w\<lparr>w_blocked := (w_blocked w)[index w (fst p) (snd p) := b]\<rparr>)"

definition SetBlocked :: "world \<Rightarrow> int32 \<Rightarrow> int32 \<Rightarrow> int32 \<Rightarrow> int32 \<Rightarrow> bool \<Rightarrow> world" where
  "SetBlocked w minX minY maxX maxY b = fold (set_blocked_tile b) (scan minX minY maxX maxY) w"

subsection \<open>Chunks (world.go)\<close>

record chunk_coord =
  CX :: int32
  CY :: int32

definition ChunkOf :: "world \<Rightarrow> int32 \<Rightarrow> int32 \<Rightarrow> int32 \<times> int32" where
  "ChunkOf w x y = (go_div x (w_chunkSize w), go_div y (w_chunkSize w))"

definition ChunkIndex :: "world \<Rightarrow> int32 \<Rightarrow> int32 \<Rightarrow> int" where
  "ChunkIndex w cx cy = u32 (u32 (u32 cy * u32 (ChunksPerRow w)) + u32 cx)"

definition ChunkTerrain :: "world \<Rightarrow> int32 \<Rightarrow> int32 \<Rightarrow> world_error + byte list" where
  "ChunkTerrain w cx cy =
     (if cx < 0 \<or> cy < 0 \<or> ChunksPerRow w \<le> cx \<or> ChunksPerColumn w \<le> cy then Err ErrOutOfBounds
      else let size = nat (w_chunkSize w);
               baseX = i32 (cx * w_chunkSize w); baseY = i32 (cy * w_chunkSize w)
           in Ok (concat (map (\<lambda>row.
                let src = index w baseX (i32 (baseY + int row))
                in take size (drop src (w_terrain w))) [0..<size])))"

definition clamp32 :: "int32 \<Rightarrow> int32 \<Rightarrow> int32 \<Rightarrow> int32" where
  "clamp32 v lo hi = (if v < lo then lo else if hi < v then hi else v)"

definition ChunksInRadius :: "world \<Rightarrow> tile \<Rightarrow> int32 \<Rightarrow> chunk_coord list" where
  "ChunksInRadius w center radius =
     (let (ccx, ccy) = ChunkOf w (clamp32 (tX center) 0 (w_width w - 1))
                                 (clamp32 (tY center) 0 (w_height w - 1));
          minCX = max 0 (i32 (ccx - radius));
          maxCX = min (ChunksPerRow w - 1) (i32 (ccx + radius));
          minCY = max 0 (i32 (ccy - radius));
          maxCY = min (ChunksPerColumn w - 1) (i32 (ccy + radius))
      in map (\<lambda>(cx, cy). \<lparr>CX = cx, CY = cy\<rparr>) (scan minCX minCY maxCX maxCY))"

subsection \<open>Well-formed worlds\<close>

text \<open>What New establishes and every operation keeps. The sides are int32 values.\<close>

definition wf_world :: "world \<Rightarrow> bool" where
  "wf_world w \<longleftrightarrow> 0 < w_width w \<and> w_width w \<le> 2147483647 \<and>
     0 < w_height w \<and> w_height w \<le> 2147483647 \<and> 0 < w_chunkSize w \<and>
     w_width w mod w_chunkSize w = 0 \<and> w_height w mod w_chunkSize w = 0 \<and>
     length (w_terrain w) = nat (w_width w * w_height w) \<and>
     length (w_blocked w) = nat (w_width w * w_height w) \<and>
     (\<forall>b \<in> set (w_terrain w). Valid_terrain b)"

lemma wf_world_dims: "wf_world w \<Longrightarrow> 0 < w_width w \<and> 0 < w_height w"
  by (simp add: wf_world_def)

lemma first_invalid_None: "first_invalid i bs = None \<longleftrightarrow> (\<forall>b \<in> set bs. Valid_terrain b)"
  by (induction bs arbitrary: i) auto

lemma first_invalid_Some:
  "first_invalid i bs = Some k \<Longrightarrow>
    i \<le> k \<and> k - i < length bs \<and> \<not> Valid_terrain (bs ! (k - i)) \<and> (\<forall>j < k - i. Valid_terrain (bs ! j))"
proof (induction bs arbitrary: i)
  case (Cons b bs)
  show ?case
  proof (cases "Valid_terrain b")
    case True
    with Cons.prems have "first_invalid (Suc i) bs = Some k" by simp
    from Cons.IH[OF this] True show ?thesis
      by (auto simp: nth_Cons Suc_diff_le[symmetric] less_Suc_eq_0_disj split: nat.splits)
         (metis Suc_diff_Suc Suc_le_lessD nat.inject)+
  qed (use Cons.prems in auto)
qed simp

subsection \<open>Construction\<close>

text \<open>
  World.New succeeds exactly when the sides are positive, the chunk side is positive and
  divides both, the terrain has one byte per tile and every byte is a terrain; the world it
  returns is well formed, holds its arguments and has no occupied tile.
\<close>

theorem New_world_Ok_iff:
  assumes "is_i32 width" "is_i32 height"
  shows "New_world width height chunkSize seed terrain = Ok w \<longleftrightarrow>
    0 < width \<and> 0 < height \<and> 0 < chunkSize \<and> width mod chunkSize = 0 \<and> height mod chunkSize = 0 \<and>
    int (length terrain) = width * height \<and> (\<forall>b \<in> set terrain. Valid_terrain b) \<and>
    w = \<lparr>w_width = width, w_height = height, w_chunkSize = chunkSize, w_seed = seed,
         w_terrain = terrain, w_blocked = replicate (nat (width * height)) False\<rparr> \<and> wf_world w"
  (is "?l \<longleftrightarrow> ?r")
proof
  assume ?l
  then show ?r using assms
    by (auto simp: New_world_def go_arith first_invalid_None wf_world_def is_i32_def
        split: if_splits option.splits)
next
  assume ?r
  then show ?l
    by (simp add: New_world_def go_arith first_invalid_None[THEN iffD2])
qed

theorem New_world_Ok_iff_witness:
  "New_world 2 2 1 7 [Grassland, Forest, Water, Road] =
     Ok \<lparr>w_width = 2, w_height = 2, w_chunkSize = 1, w_seed = 7,
         w_terrain = [Grassland, Forest, Water, Road], w_blocked = replicate 4 False\<rparr>"
proof -
  have "is_i32 2" by (simp add: is_i32_def)
  from New_world_Ok_iff[OF this this, of 1 7 "[Grassland, Forest, Water, Road]"]
  show ?thesis by (auto simp: wf_world_def numeral_eq_Suc)
qed

lemma InBounds_index_less: "wf_world w \<Longrightarrow> InBounds w x y \<Longrightarrow> index w x y < length (w_terrain w)"
  by (auto simp: wf_world_def InBounds_def index_def intro!: row_idx_less)

lemma InBounds_index_less_blocked:
  "wf_world w \<Longrightarrow> InBounds w x y \<Longrightarrow> index w x y < length (w_blocked w)"
  by (auto simp: wf_world_def InBounds_def index_def intro!: row_idx_less)

lemma index_inj:
  "InBounds w x y \<Longrightarrow> InBounds w x' y' \<Longrightarrow> index w x y = index w x' y' \<Longrightarrow> x = x' \<and> y = y'"
  unfolding InBounds_def index_def by (rule row_idx_inj [where w = "w_width w"]) auto

subsection \<open>The occupation layer\<close>

lemma set_blocked_tile_sel [simp]:
  "w_width (set_blocked_tile b p w) = w_width w" "w_height (set_blocked_tile b p w) = w_height w"
  "w_chunkSize (set_blocked_tile b p w) = w_chunkSize w" "w_terrain (set_blocked_tile b p w) = w_terrain w"
  "w_seed (set_blocked_tile b p w) = w_seed w"
  "length (w_blocked (set_blocked_tile b p w)) = length (w_blocked w)"
  by (simp_all add: set_blocked_tile_def)

lemma fold_set_blocked_sel [simp]:
  "w_width (fold (set_blocked_tile b) ps w) = w_width w"
  "w_height (fold (set_blocked_tile b) ps w) = w_height w"
  "w_chunkSize (fold (set_blocked_tile b) ps w) = w_chunkSize w"
  "w_terrain (fold (set_blocked_tile b) ps w) = w_terrain w"
  "w_seed (fold (set_blocked_tile b) ps w) = w_seed w"
  "length (w_blocked (fold (set_blocked_tile b) ps w)) = length (w_blocked w)"
  by (induction ps arbitrary: w) simp_all

lemma SetBlocked_sel [simp]:
  "w_width (SetBlocked w a b c d v) = w_width w" "w_height (SetBlocked w a b c d v) = w_height w"
  "w_chunkSize (SetBlocked w a b c d v) = w_chunkSize w"
  "w_terrain (SetBlocked w a b c d v) = w_terrain w" "w_seed (SetBlocked w a b c d v) = w_seed w"
  "length (w_blocked (SetBlocked w a b c d v)) = length (w_blocked w)"
  by (simp_all add: SetBlocked_def)

lemma InBounds_SetBlocked [simp]: "InBounds (SetBlocked w a b c d v) = InBounds w"
  by (simp add: InBounds_def fun_eq_iff)

lemma TerrainAt_SetBlocked [simp]: "TerrainAt (SetBlocked w a b c d v) = TerrainAt w"
  by (simp add: TerrainAt_def index_def fun_eq_iff)

lemma wf_SetBlocked [simp]: "wf_world (SetBlocked w a b c d v) = wf_world w"
  by (simp add: wf_world_def)

lemma IsBlocked_set_blocked_tile:
  assumes "wf_world w" "InBounds w x y"
  shows "IsBlocked (set_blocked_tile b p w) x y = (if p = (x, y) then b else IsBlocked w x y)"
proof (cases "InBounds w (fst p) (snd p)")
  case True
  have "index w (fst p) (snd p) = index w x y \<longleftrightarrow> p = (x, y)"
    using index_inj[OF True assms(2)] by (cases p) auto
  with True assms InBounds_index_less_blocked[OF assms(1) True] show ?thesis
    by (auto simp: IsBlocked_def set_blocked_tile_def InBounds_def index_def nth_list_update)
next
  case False
  with assms show ?thesis by (auto simp: set_blocked_tile_def)
qed

lemma IsBlocked_fold_set_blocked:
  assumes "wf_world w" "InBounds w x y"
  shows "IsBlocked (fold (set_blocked_tile b) ps w) x y = (if (x, y) \<in> set ps then b else IsBlocked w x y)"
  using assms
proof (induction ps arbitrary: w)
  case (Cons p ps)
  have "wf_world (set_blocked_tile b p w)" "InBounds (set_blocked_tile b p w) x y"
    using Cons.prems by (simp_all add: wf_world_def InBounds_def)
  from Cons.IH[OF this] Cons.prems show ?case by (auto simp: IsBlocked_set_blocked_tile)
qed simp

text \<open>
  SetBlocked is a point-wise update of the occupation layer: inside the world exactly
  the tiles of the inclusive rectangle take the new value, every other tile keeps its own,
  outside the world everything stays occupied, and the terrain is not touched.
\<close>

theorem SetBlocked_exact:
  assumes "wf_world w"
  shows "IsBlocked (SetBlocked w minX minY maxX maxY b) x y =
      (if \<not> InBounds w x y then True
       else if minX \<le> x \<and> x \<le> maxX \<and> minY \<le> y \<and> y \<le> maxY then b else IsBlocked w x y)
    \<and> TerrainAt (SetBlocked w minX minY maxX maxY b) x y = TerrainAt w x y
    \<and> wf_world (SetBlocked w minX minY maxX maxY b)"
  using assms IsBlocked_fold_set_blocked[OF assms, of x y b "scan minX minY maxX maxY"]
  by (auto simp: IsBlocked_def SetBlocked_def[symmetric])

text \<open>A meadow of 3 by 3 tiles, the world of the closed instances.\<close>

definition meadow :: world where
  "meadow = \<lparr>w_width = 3, w_height = 3, w_chunkSize = 3, w_seed = 0,
     w_terrain = replicate 9 Grassland, w_blocked = replicate 9 False\<rparr>"

lemma meadow_walkable: "0 \<le> x \<Longrightarrow> x < 3 \<Longrightarrow> 0 \<le> y \<Longrightarrow> y < 3 \<Longrightarrow> IsWalkable meadow x y"
proof -
  assume a: "0 \<le> x" "x < 3" "0 \<le> y" "y < 3"
  then have "row_idx 3 x y < 9" using row_idx_less[of x 3 y 3] by simp
  with a show ?thesis by (simp add: meadow_def IsWalkable_def InBounds_def index_def)
qed

lemma wf_meadow: "wf_world meadow"
  by (simp add: wf_world_def meadow_def)

theorem SetBlocked_exact_witness:
  "IsBlocked (SetBlocked meadow 1 1 2 2 True) 2 1 \<and> \<not> IsBlocked (SetBlocked meadow 1 1 2 2 True) 0 1"
proof -
  have "\<not> IsBlocked meadow 0 1" "InBounds meadow 0 1" "InBounds meadow 2 1"
    using meadow_walkable[of 0 1] meadow_walkable[of 2 1] by (simp_all add: IsWalkable_def IsBlocked_def split: if_splits)
  with SetBlocked_exact[OF wf_meadow, of 1 1 2 2 True 2 1] SetBlocked_exact[OF wf_meadow, of 1 1 2 2 True 0 1]
  show ?thesis by simp
qed

subsection \<open>The world is a grid\<close>

lemma IsWalkable_InBounds: "IsWalkable w x y \<Longrightarrow> InBounds w x y"
  by (simp add: IsWalkable_def split: if_splits)

lemma IsWalkable_iff:
  "IsWalkable w x y \<longleftrightarrow> InBounds w x y \<and> Walkable (TerrainAt w x y) \<and> \<not> IsBlocked w x y"
  by (auto simp: IsWalkable_def TerrainAt_def IsBlocked_def)

lemma MoveCostUnits_walkable:
  "IsWalkable w x y \<Longrightarrow> MoveCostUnits w x y = CostUnits (TerrainAt w x y)"
  by (auto simp: MoveCostUnits_def IsWalkable_def TerrainAt_def split: if_splits)

lemma MoveCostUnits_bounds:
  "MoveCostUnits w x y \<le> 18" "IsWalkable w x y \<Longrightarrow> MinMoveCostUnits w \<le> MoveCostUnits w x y"
proof -
  show "IsWalkable w x y \<Longrightarrow> MinMoveCostUnits w \<le> MoveCostUnits w x y"
    using Walkable_cost by (auto simp: MinMoveCostUnits_def MoveCostUnits_walkable IsWalkable_iff)
  show "MoveCostUnits w x y \<le> 18"
    using Walkable_cost[of "TerrainAt w x y"]
    by (cases "IsWalkable w x y") (simp add: MoveCostUnits_walkable IsWalkable_iff, simp add: MoveCostUnits_def)
qed

interpretation world_grid:
  path_grid "IsWalkable w" "MoveCostUnits w" 18 "w_width w" "w_height w" "MinMoveCostUnits w" for w
proof unfold_locales
  show "0 < MoveCostUnits w x y" if "IsWalkable w x y" for x y
    using MoveCostUnits_bounds(2)[OF that] by (simp add: MinMoveCostUnits_def)
  show "MoveCostUnits w x y \<le> 18" for x y by (rule MoveCostUnits_bounds)
  show "0 \<le> x \<and> x < w_width w \<and> 0 \<le> y \<and> y < w_height w" if "IsWalkable w x y" for x y
    using IsWalkable_InBounds[OF that] by (simp add: InBounds_def)
  show "0 < MinMoveCostUnits w" by (simp add: MinMoveCostUnits_def)
  show "MinMoveCostUnits w \<le> MoveCostUnits w x y" if "IsWalkable w x y" for x y
    by (rule MoveCostUnits_bounds(2)[OF that])
qed

subsection \<open>Chunks\<close>

lemma ChunksPer_eq:
  assumes "wf_world w"
  shows "ChunksPerRow w = w_width w div w_chunkSize w" "ChunksPerColumn w = w_height w div w_chunkSize w"
    "ChunksPerRow w * w_chunkSize w = w_width w" "ChunksPerColumn w * w_chunkSize w = w_height w"
proof -
  show r: "ChunksPerRow w = w_width w div w_chunkSize w"
    using assms by (simp add: ChunksPerRow_def wf_world_def go_arith)
  show c: "ChunksPerColumn w = w_height w div w_chunkSize w"
    using assms by (simp add: ChunksPerColumn_def wf_world_def go_arith)
  show "ChunksPerRow w * w_chunkSize w = w_width w" "ChunksPerColumn w * w_chunkSize w = w_height w"
    using assms by (simp_all add: r c wf_world_def dvd_eq_mod_eq_0)
qed

definition chunk_in_world :: "world \<Rightarrow> int \<Rightarrow> int \<Rightarrow> bool" where
  "chunk_in_world w cx cy \<longleftrightarrow> 0 \<le> cx \<and> cx < ChunksPerRow w \<and> 0 \<le> cy \<and> cy < ChunksPerColumn w"

lemma chunk_in_worldD:
  assumes wf: "wf_world w" and c: "chunk_in_world w cx cy" and o': "0 \<le> i" "i < w_chunkSize w" "0 \<le> j" "j < w_chunkSize w"
  shows "InBounds w (cx * w_chunkSize w + i) (cy * w_chunkSize w + j)"
proof -
  have "cx * w_chunkSize w + i < (cx + 1) * w_chunkSize w" using o' by (simp add: distrib_right)
  also have "\<dots> \<le> ChunksPerRow w * w_chunkSize w"
    using c o' by (intro mult_right_mono) (auto simp: chunk_in_world_def)
  finally have x: "cx * w_chunkSize w + i < w_width w" using ChunksPer_eq[OF wf] by simp
  have "cy * w_chunkSize w + j < (cy + 1) * w_chunkSize w" using o' by (simp add: distrib_right)
  also have "\<dots> \<le> ChunksPerColumn w * w_chunkSize w"
    using c o' by (intro mult_right_mono) (auto simp: chunk_in_world_def)
  finally have y: "cy * w_chunkSize w + j < w_height w" using ChunksPer_eq[OF wf] by simp
  from x y c o' show ?thesis by (simp add: InBounds_def chunk_in_world_def)
qed

lemma ChunkIndex_eq:
  assumes wf: "wf_world w" and n: "ChunksPerRow w * ChunksPerColumn w \<le> 4294967296"
    and c: "chunk_in_world w cx cy"
  shows "ChunkIndex w cx cy = cy * ChunksPerRow w + cx"
proof -
  have pos: "0 < ChunksPerRow w" "0 < ChunksPerColumn w" "0 \<le> cx" "0 \<le> cy"
    using c by (auto simp: chunk_in_world_def)
  have "cy * ChunksPerRow w + cx < (cy + 1) * ChunksPerRow w"
    using c by (simp add: chunk_in_world_def distrib_right)
  also have "\<dots> \<le> ChunksPerColumn w * ChunksPerRow w"
    using c pos by (intro mult_right_mono) (auto simp: chunk_in_world_def)
  finally have b: "cy * ChunksPerRow w + cx < 4294967296" using n by (simp add: mult.commute)
  moreover have "ChunkIndex w cx cy = (cy * ChunksPerRow w + cx) mod 4294967296"
    by (simp add: ChunkIndex_def u32_def mod_simps)
  moreover have "0 \<le> cy * ChunksPerRow w" using pos by simp
  ultimately show ?thesis using pos by simp
qed

text \<open>
  the uint32 number of a chunk identifies it: two chunks of a world of at most 2^32
  chunks with the same ChunkIndex are the same chunk.
\<close>

theorem ChunkIndex_unique:
  assumes "wf_world w" and "ChunksPerRow w * ChunksPerColumn w \<le> 4294967296"
    and "chunk_in_world w cx cy" and "chunk_in_world w cx' cy'"
    and "ChunkIndex w cx cy = ChunkIndex w cx' cy'"
  shows "cx = cx' \<and> cy = cy'"
proof -
  have "cy * ChunksPerRow w + cx = cy' * ChunksPerRow w + cx'"
    using assms by (simp add: ChunkIndex_eq)
  then have "row_idx (ChunksPerRow w) cx cy = row_idx (ChunksPerRow w) cx' cy'"
    by (simp add: row_idx_def)
  then show ?thesis using assms(3,4) row_idx_inj[of cx "ChunksPerRow w" cx' cy cy']
    by (auto simp: chunk_in_world_def)
qed

lemma ChunkTerrain_row:
  assumes wf: "wf_world w" and c: "chunk_in_world w cx cy" and r: "r < nat (w_chunkSize w)"
  defines "sz \<equiv> nat (w_chunkSize w)"
  shows "take sz (drop (index w (i32 (cx * w_chunkSize w)) (i32 (i32 (cy * w_chunkSize w) + int r))) (w_terrain w))
     = map (\<lambda>k. TerrainAt w (cx * w_chunkSize w + int k) (cy * w_chunkSize w + int r)) [0..<sz]"
    (is "take sz (drop ?src _) = _")
proof -
  let ?x = "cx * w_chunkSize w" and ?y = "cy * w_chunkSize w + int r"
  have s: "0 < w_chunkSize w" using wf by (simp add: wf_world_def)
  have inb: "InBounds w (?x + int k) ?y" if "k < sz" for k
    using chunk_in_worldD[OF wf c, of "int k" "int r"] that r by (simp add: sz_def)
  have i0: "InBounds w (?x + int 0) ?y" and i1: "InBounds w (?x + int (sz - 1)) ?y"
    using s inb[of 0] inb[of "sz - 1"] by (simp_all add: sz_def)
  have wd: "w_width w \<le> 2147483647" "w_height w \<le> 2147483647" using wf by (simp_all add: wf_world_def)
  from i0 wd have "i32 ?x = ?x" by (intro i32_id) (auto simp: InBounds_def)
  moreover have "0 \<le> cy * w_chunkSize w" using c s by (simp add: chunk_in_world_def)
  with i0 wd have "i32 (cy * w_chunkSize w) = cy * w_chunkSize w" "i32 ?y = ?y"
    by (auto simp: InBounds_def intro!: i32_id)
  ultimately have src: "?src = index w ?x ?y" by simp
  have "0 \<le> ?y * w_width w + ?x" using i0 wf by (simp add: InBounds_def wf_world_def)
  then have nx: "index w (?x + int k) ?y = ?src + k" for k
    unfolding src by (simp add: index_def row_idx_def add.assoc[symmetric] nat_add_distrib)
  have len: "?src + sz \<le> length (w_terrain w)"
    using InBounds_index_less[OF wf i1] nx[of "sz - 1"] s by (simp add: sz_def)
  show ?thesis
  proof (rule nth_equalityI)
    show "length (take sz (drop ?src (w_terrain w))) =
      length (map (\<lambda>k. TerrainAt w (?x + int k) ?y) [0..<sz])" using len by simp
    fix k assume "k < length (take sz (drop ?src (w_terrain w)))"
    then have k: "k < sz" by simp
    from inb[OF k] nx[of k] len k
    show "take sz (drop ?src (w_terrain w)) ! k = map (\<lambda>k. TerrainAt w (?x + int k) ?y) [0..<sz] ! k"
      by (simp add: TerrainAt_def)
  qed
qed

text \<open>
  ChunkTerrain returns, for a chunk of the world, its bytes row by row, each the
  terrain of its tile, and the out-of-bounds error for any other coordinates.
\<close>

theorem ChunkTerrain_spec:
  assumes wf: "wf_world w"
  shows "ChunkTerrain w cx cy =
    (if chunk_in_world w cx cy
     then Ok (concat (map (\<lambda>r. map (\<lambda>k.
            TerrainAt w (cx * w_chunkSize w + int k) (cy * w_chunkSize w + int r))
          [0..<nat (w_chunkSize w)]) [0..<nat (w_chunkSize w)]))
     else Err ErrOutOfBounds)"
proof (cases "chunk_in_world w cx cy")
  case True
  with ChunkTerrain_row[OF wf True] show ?thesis
    by (auto simp: ChunkTerrain_def Let_def chunk_in_world_def intro!: arg_cong[where f = concat] map_cong)
next
  case False
  then show ?thesis by (auto simp: ChunkTerrain_def chunk_in_world_def)
qed

text \<open>
  the interest area of a tile: ChunksInRadius lists, without repetition and in
  row-major order, exactly the chunks of the world at Chebyshev distance at most the radius
  from the chunk of the tile, clamped into the world.
\<close>

theorem ChunksInRadius_ball:
  assumes wf: "wf_world w" and r: "0 \<le> radius" "radius + w_width w \<le> 2147483647"
      "radius + w_height w \<le> 2147483647"
    and c: "ccx = clamp32 (tX center) 0 (w_width w - 1) div w_chunkSize w"
      "ccy = clamp32 (tY center) 0 (w_height w - 1) div w_chunkSize w"
  shows "set (ChunksInRadius w center radius) =
      {\<lparr>CX = cx, CY = cy\<rparr> |cx cy. chunk_in_world w cx cy \<and> \<bar>cx - ccx\<bar> \<le> radius \<and> \<bar>cy - ccy\<bar> \<le> radius}
    \<and> sorted_wrt (\<lambda>a b. CY a < CY b \<or> CY a = CY b \<and> CX a < CX b) (ChunksInRadius w center radius)"
proof -
  have pos: "0 < w_width w" "0 < w_height w" "0 < w_chunkSize w" using wf by (simp_all add: wf_world_def)
  have "0 \<le> clamp32 v 0 (n - 1) div w_chunkSize w \<and> clamp32 v 0 (n - 1) div w_chunkSize w < n"
    if "0 < n" for v n
    using that pos zdiv_mono2[of "clamp32 v 0 (n - 1)" 1 "w_chunkSize w"]
    by (auto simp: clamp32_def pos_imp_zdiv_nonneg_iff split: if_splits)
  with pos c have b: "0 \<le> ccx" "ccx < w_width w" "0 \<le> ccy" "ccy < w_height w" by auto
  have co: "ChunkOf w (clamp32 (tX center) 0 (w_width w - 1)) (clamp32 (tY center) 0 (w_height w - 1)) = (ccx, ccy)"
    using pos c by (auto simp: ChunkOf_def clamp32_def go_arith)
  have eq: "ChunksInRadius w center radius = map (\<lambda>(cx, cy). \<lparr>CX = cx, CY = cy\<rparr>)
      (scan (max 0 (ccx - radius)) (max 0 (ccy - radius))
            (min (ChunksPerRow w - 1) (ccx + radius)) (min (ChunksPerColumn w - 1) (ccy + radius)))"
    using b r by (simp add: ChunksInRadius_def co i32_id)
  show ?thesis
  proof
    show "set (ChunksInRadius w center radius) =
      {\<lparr>CX = cx, CY = cy\<rparr> |cx cy. chunk_in_world w cx cy \<and> \<bar>cx - ccx\<bar> \<le> radius \<and> \<bar>cy - ccy\<bar> \<le> radius}"
      unfolding eq by (auto simp: chunk_in_world_def image_iff; force)
    show "sorted_wrt (\<lambda>a b. CY a < CY b \<or> CY a = CY b \<and> CX a < CX b) (ChunksInRadius w center radius)"
      unfolding eq sorted_wrt_map
      by (rule sorted_wrt_mono_rel[OF _ sorted_wrt_scan]) (auto simp: row_major_less_def)
  qed
qed

theorem ChunksInRadius_ball_witness:
  "set (ChunksInRadius meadow (mk_tile 1 7) 2) = {\<lparr>CX = 0, CY = 0\<rparr>}"
proof -
  have "chunk_in_world meadow cx cy \<longleftrightarrow> cx = 0 \<and> cy = 0" for cx cy
    by (auto simp: chunk_in_world_def ChunksPer_eq[OF wf_meadow]) (auto simp: meadow_def)
  with ChunksInRadius_ball[OF wf_meadow, of 2 0 "mk_tile 1 7" 0] show ?thesis
    by (auto simp: meadow_def clamp32_def)
qed

end
