(* ===== verification/Generator.thy ===== *)
theory Generator
  imports World
begin

unbundle bit_operations_syntax

section \<open>Deterministic world generation\<close>

text \<open>
  Models internal/game/world/generator.go: the splitmix64 mixer on 64-bit words, the lattice
  and the smoothed bilinear noise in int64 fixed point (arithmetic shifts are floor
  divisions), the classification of a tile from its elevation and moisture, and the roads.
  Proved: the generated terrain has one valid byte per tile, so World.New accepts it, and
  the roads only replace passable terrain: mountains and water are those of the noise.
\<close>

definition splitmix64 :: "64 word \<Rightarrow> 64 word" where
  "splitmix64 x0 =
     (let x = x0 + 0x9E3779B97F4A7C15;
          z = x;
          z = (z XOR drop_bit 30 z) * 0xBF58476D1CE4E5B9;
          z = (z XOR drop_bit 27 z) * 0x94D049BB133111EB
      in z XOR drop_bit 31 z)"

definition latticeValue :: "64 word \<Rightarrow> int32 \<Rightarrow> int32 \<Rightarrow> int" where
  "latticeValue seed gx gy =
     (let h = splitmix64 (seed XOR (word_of_int (u32 gx) * 0x9E3779B97F4A7C15)
                               XOR (word_of_int (u32 gy) * 0xC2B2AE3D27D4EB4F))
      in u16 (uint (drop_bit 48 h)))"

definition smoothstepFixed :: "int64 \<Rightarrow> int64 \<Rightarrow> int64" where
  "smoothstepFixed num den =
     (if den \<le> 0 then 0
      else let t = go_div (i64 (num * 65536)) den;
               t2 = i64 (t * t) div 65536;
               t3 = i64 (t2 * t) div 65536
           in i64 (3 * t2 - 2 * t3))"

definition octave_value :: "64 word \<Rightarrow> int32 \<Rightarrow> int32 \<Rightarrow> int32 \<Rightarrow> int32 \<Rightarrow> int64" where
  "octave_value seed cellW cellH x y =
     (let gy = go_div y cellH; fy = go_rem y cellH; ty = smoothstepFixed fy cellH;
          gx = go_div x cellW; fx = go_rem x cellW; tx = smoothstepFixed fx cellW;
          v00 = latticeValue seed gx gy;
          v10 = latticeValue seed (i32 (gx + 1)) gy;
          v01 = latticeValue seed gx (i32 (gy + 1));
          v11 = latticeValue seed (i32 (gx + 1)) (i32 (gy + 1));
          top = i64 (v00 + i64 ((v10 - v00) * tx) div 65536);
          bot = i64 (v01 + i64 ((v11 - v01) * tx) div 65536)
      in i64 (top + i64 ((bot - top) * ty) div 65536))"

definition addOctave ::
  "int64 list \<Rightarrow> int32 \<Rightarrow> int32 \<Rightarrow> int32 \<Rightarrow> 64 word \<Rightarrow> int64 \<Rightarrow> int64 list" where
  "addOctave acc width height cells0 seed weight =
     (let cells = (if cells0 < 1 then 1 else cells0);
          cellW = (let c = go_div width cells in if c < 1 then 1 else c);
          cellH = (let c = go_div height cells in if c < 1 then 1 else c)
      in fold (\<lambda>(x, y) a. let i = row_idx width x y
                in a[i := i64 (a ! i + i64 (octave_value seed cellW cellH x y * weight))])
           (scan 0 0 (width - 1) (height - 1)) acc)"

fun octaves_loop ::
  "nat \<Rightarrow> nat \<Rightarrow> int32 \<Rightarrow> int32 \<Rightarrow> 64 word \<Rightarrow> int32 \<Rightarrow> int64 \<Rightarrow> int64 list \<Rightarrow> int64 \<Rightarrow> int64 list \<times> int64" where
  "octaves_loop 0 k width height seed cells weight acc tot = (acc, tot)"
| "octaves_loop (Suc n) k width height seed cells weight acc tot =
     (let octaveSeed = seed XOR (of_nat (k + 1) * 0xD1B54A32D192ED03);
          acc' = addOctave acc width height cells octaveSeed weight;
          tot' = i64 (tot + weight);
          weight' = go_div weight 2
      in octaves_loop n (k + 1) width height seed (i32 (cells * 2))
           (if weight' = 0 then 1 else weight') acc' tot')"

definition clamp_u16 :: "int64 \<Rightarrow> int" where
  "clamp_u16 v = (let n = (if v < 0 then 0 else v) in if 65535 < n then 65535 else n)"

definition valueNoise2D :: "int32 \<Rightarrow> int32 \<Rightarrow> 64 word \<Rightarrow> int32 \<Rightarrow> nat \<Rightarrow> int list" where
  "valueNoise2D width height seed baseCells octaves =
     (let (acc, tot) = octaves_loop octaves 0 width height seed baseCells (2 ^ octaves)
                            (replicate (nat (width * height)) 0) 0
      in map (\<lambda>v. clamp_u16 (go_div v tot)) acc)"

definition classify :: "int \<Rightarrow> int \<Rightarrow> byte" where
  "classify e m =
     (if 58000 < e then Mountain else if 48000 < e then Hill else if e < 12000 then Water
      else if 42000 < m then Forest else Grassland)"

definition paintRoad :: "byte list \<Rightarrow> int32 \<Rightarrow> int32 \<Rightarrow> int32 \<Rightarrow> int32 \<Rightarrow> byte list" where
  "paintRoad terrain width height x y =
     (if x < 0 \<or> y < 0 \<or> width \<le> x \<or> height \<le> y then terrain
      else let i = row_idx width x y
           in if Walkable (terrain ! i) then terrain[i := Road] else terrain)"

definition carve_road :: "int32 \<Rightarrow> int32 \<Rightarrow> 64 word \<Rightarrow> nat \<Rightarrow> byte list \<Rightarrow> byte list" where
  "carve_road width height seed r terrain =
     (let h = splitmix64 (seed XOR (of_nat (r + 1) * 0x2545F4914F6CDD1D));
          jitter = uint (drop_bit 32 h mod 3)
      in if r mod 2 = 0
         then let y = i32 (uint (h mod word_of_int height))
              in fold (\<lambda>x t. paintRoad t width height x (i32 (y + jitter - 1))) [0..width - 1] terrain
         else let x = i32 (uint (h mod word_of_int width))
              in fold (\<lambda>y t. paintRoad t width height (i32 (x + jitter - 1)) y) [0..height - 1] terrain)"

definition carveRoads :: "byte list \<Rightarrow> int32 \<Rightarrow> int32 \<Rightarrow> 64 word \<Rightarrow> byte list" where
  "carveRoads terrain width height seed = fold (carve_road width height seed) [0..<4] terrain"

definition base_terrain :: "int32 \<Rightarrow> int32 \<Rightarrow> 64 word \<Rightarrow> byte list" where
  "base_terrain width height seed =
     (let elevation = valueNoise2D width height (seed XOR 0xA24BAED4963EE407) 6 4;
          moisture = valueNoise2D width height (seed XOR 0x9E3779B97F4A7C15) 4 3
      in fold (\<lambda>(x, y) t. let i = row_idx width x y
                in t[i := classify (elevation ! i) (moisture ! i)])
           (scan 0 0 (width - 1) (height - 1)) (replicate (nat (width * height)) 0))"

definition Generate :: "int32 \<Rightarrow> int32 \<Rightarrow> 64 word \<Rightarrow> byte list" where
  "Generate width height seed = carveRoads (base_terrain width height seed) width height seed"

subsection \<open>Every byte is a terrain\<close>

definition valid_bytes :: "byte list \<Rightarrow> bool" where
  "valid_bytes t \<longleftrightarrow> (\<forall>b \<in> set t. Valid_terrain b)"

lemma Valid_classify [simp]: "Valid_terrain (classify e m)"
  by (simp add: classify_def)

lemma valid_bytes_update [intro]:
  "valid_bytes t \<Longrightarrow> Valid_terrain b \<Longrightarrow> valid_bytes (t[i := b])"
  by (auto simp: valid_bytes_def dest: set_update_subset_insert[THEN subsetD])

lemma fold_update_valid:
  assumes "valid_bytes t" and "\<And>p. Valid_terrain (f p)"
  shows "valid_bytes (fold (\<lambda>p t. t[g p := f p]) ps t) \<and> length (fold (\<lambda>p t. t[g p := f p]) ps t) = length t"
  using assms(1)
  by (induction ps arbitrary: t) (auto simp: assms(2) valid_bytes_update)

lemma base_terrain_valid:
  "valid_bytes (base_terrain width height seed)"
  "length (base_terrain width height seed) = nat (width * height)"
proof -
  let ?e = "valueNoise2D width height (seed XOR 0xA24BAED4963EE407) 6 4"
  let ?m = "valueNoise2D width height (seed XOR 0x9E3779B97F4A7C15) 4 3"
  let ?g = "\<lambda>p. row_idx width (fst p) (snd p)"
  have eq: "base_terrain width height seed =
     fold (\<lambda>p t. t[?g p := classify (?e ! ?g p) (?m ! ?g p)])
       (scan 0 0 (width - 1) (height - 1)) (replicate (nat (width * height)) 0)"
    by (simp add: base_terrain_def Let_def split_def)
  have z: "valid_bytes (replicate (nat (width * height)) 0)"
    by (auto simp: valid_bytes_def Valid_terrain_def terrainCount_def)
  from fold_update_valid[OF z, of "\<lambda>p. classify (?e ! ?g p) (?m ! ?g p)"]
  show "valid_bytes (base_terrain width height seed)"
    "length (base_terrain width height seed) = nat (width * height)"
    unfolding eq by simp_all
qed

subsection \<open>Roads only replace passable terrain\<close>

text \<open>One terrain is another with some passable tiles turned into road.\<close>

definition paved :: "byte list \<Rightarrow> byte list \<Rightarrow> bool" where
  "paved t t' \<longleftrightarrow> length t' = length t \<and>
     (\<forall>i < length t. t' ! i = t ! i \<or> (Walkable (t ! i) \<and> t' ! i = Road))"

lemma paved_refl [simp]: "paved t t"
  by (simp add: paved_def)

lemma paved_trans [trans]: "paved a b \<Longrightarrow> paved b c \<Longrightarrow> paved a c"
  unfolding paved_def by (metis Walkable_consts(4))

lemma paved_paintRoad: "paved t (paintRoad t width height x y)"
  by (auto simp: paved_def paintRoad_def Let_def nth_list_update_if split: if_splits)

lemma paved_fold: "(\<And>p t. paved t (f p t)) \<Longrightarrow> paved t (fold f ps t)"
  by (induction ps arbitrary: t) (auto intro: paved_trans)

lemma paved_carve: "paved t (carve_road width height seed r t)"
  by (auto simp: carve_road_def Let_def intro!: paved_fold paved_paintRoad)

lemma paved_Generate: "paved (base_terrain width height seed) (Generate width height seed)"
  unfolding Generate_def carveRoads_def by (rule paved_fold) (rule paved_carve)

lemma paved_valid: "paved t t' \<Longrightarrow> valid_bytes t \<Longrightarrow> valid_bytes t'"
  unfolding paved_def valid_bytes_def by (metis Valid_consts(4) in_set_conv_nth)

text \<open>
  world generation is total and its output is a world: for positive sides and a chunk
  side that divides them, World.New accepts the generated bytes; and the roads never bridge
  water nor tunnel a mountain: a tile is impassable after the roads exactly when the noise
  made it so, and every other tile keeps its terrain or is a road.
\<close>

theorem Generate_New:
  assumes dims: "0 < width" "0 < height" "is_i32 width" "is_i32 height"
    and chunk: "0 < chunkSize" "width mod chunkSize = 0" "height mod chunkSize = 0"
  shows "(\<exists>w. New_world width height chunkSize seed (Generate width height seed) = Ok w \<and> wf_world w)
    \<and> (\<forall>i < nat (width * height). Walkable (Generate width height seed ! i) = Walkable (base_terrain width height seed ! i)
         \<and> (Generate width height seed ! i = base_terrain width height seed ! i \<or> Generate width height seed ! i = Road))"
proof
  note pv = paved_Generate[of width height seed]
  note bt = base_terrain_valid[of width height seed]
  have len: "length (Generate width height seed) = nat (width * height)"
    using pv bt by (simp add: paved_def)
  have val: "valid_bytes (Generate width height seed)"
    using pv bt by (blast intro: paved_valid)
  let ?w = "\<lparr>w_width = width, w_height = height, w_chunkSize = chunkSize, w_seed = seed,
     w_terrain = Generate width height seed, w_blocked = replicate (nat (width * height)) False\<rparr>"
  have wf: "wf_world ?w"
    using dims chunk len val by (simp add: wf_world_def is_i32_def valid_bytes_def)
  have "New_world width height chunkSize seed (Generate width height seed) = Ok ?w"
    using New_world_Ok_iff[OF dims(3,4), of chunkSize seed "Generate width height seed" ?w]
      dims chunk len val wf by (simp add: valid_bytes_def)
  with wf show "\<exists>w. New_world width height chunkSize seed (Generate width height seed) = Ok w \<and> wf_world w"
    by blast
  show "\<forall>i < nat (width * height). Walkable (Generate width height seed ! i) = Walkable (base_terrain width height seed ! i)
         \<and> (Generate width height seed ! i = base_terrain width height seed ! i \<or> Generate width height seed ! i = Road)"
    using pv bt unfolding paved_def by (metis Walkable_consts(4))
qed

theorem Generate_New_witness:
  "\<exists>w. New_world 4 2 2 99 (Generate 4 2 99) = Ok w \<and> wf_world w"
proof -
  have "is_i32 4" "is_i32 2" by (simp_all add: is_i32_def)
  from Generate_New[OF _ _ this, of 2 99] show ?thesis by simp
qed

end
