(* ===== verification/Movement.thy ===== *)
theory Movement
  imports World
begin

section \<open>Timed polylines and movements\<close>

text \<open>
  Models internal/domain/movement/path.go and movement.go. A movement is stored once, as the
  list of its tiles with the millisecond each is reached; the position is a pure function of
  that list and the clock. A grid is given by its two functions (which tiles can be walked
  on, what entering one costs), the methods of CostGrid. Proved: the binary search of
  PositionAt returns the last waypoint already reached; a step takes the rounded time and is
  never instantaneous; BuildTimedPath turns exactly the contiguous walkable routes into
  polylines that Validate accepts; Validate decides the stored invariants; and a movement has
  arrived exactly from its arrival time on.
\<close>

datatype movement_error =
  ErrEmptyPath | ErrBadBaseMs | ErrPathNotContiguous | ErrPathNotMonotonic
| ErrPathNotWalkable | ErrInvalidOrigin | ErrPathCutsCorner

record waypoint =
  wX :: int32
  wY :: int32
  wTMs :: int64

type_synonym timed_path = "waypoint list"

definition Tile_of :: "waypoint \<Rightarrow> tile" where
  "Tile_of w = \<lparr>tX = wX w, tY = wY w\<rparr>"

definition DurationMs :: "timed_path \<Rightarrow> int64" where
  "DurationMs p = (if length p = 0 then 0 else wTMs (p ! (length p - 1)))"

text \<open>Origin and Destination index the slice: on an empty polyline they panic (None).\<close>

definition Origin :: "timed_path \<Rightarrow> tile option" where
  "Origin p = (if p = [] then None else Some (Tile_of (p ! 0)))"

definition Destination :: "timed_path \<Rightarrow> tile option" where
  "Destination p = (if p = [] then None else Some (Tile_of (p ! (length p - 1))))"

function bsearch :: "timed_path \<Rightarrow> int64 \<Rightarrow> nat \<Rightarrow> nat \<Rightarrow> nat" where
  "bsearch p elapsedMs lo hi =
     (if lo < hi then
        let mid = (lo + hi + 1) div 2
        in if wTMs (p ! mid) \<le> elapsedMs then bsearch p elapsedMs mid hi
           else bsearch p elapsedMs lo (mid - 1)
      else lo)"
  by pat_completeness auto
termination
  by (relation "measure (\<lambda>(p, e, lo, hi). hi - lo)") auto

declare bsearch.simps [simp del]

definition PositionAt :: "timed_path \<Rightarrow> int64 \<Rightarrow> tile" where
  "PositionAt p elapsedMs =
     (if length p = 0 then \<lparr>tX = 0, tY = 0\<rparr>
      else if elapsedMs \<le> 0 then Tile_of (p ! 0)
      else if wTMs (p ! (length p - 1)) \<le> elapsedMs then Tile_of (p ! (length p - 1))
      else Tile_of (p ! bsearch p elapsedMs 0 (length p - 1)))"

definition IndexAt :: "timed_path \<Rightarrow> int64 \<Rightarrow> int" where
  "IndexAt p elapsedMs =
     (if length p = 0 then - 1
      else if elapsedMs \<le> 0 then 0
      else if wTMs (p ! (length p - 1)) \<le> elapsedMs then int (length p) - 1
      else int (bsearch p elapsedMs 0 (length p - 1)))"

subsection \<open>Building a polyline\<close>

definition sqrt2Num :: int64 where "sqrt2Num = 1414214"
definition sqrt2Den :: int64 where "sqrt2Den = 1000000"

definition StepDurationMs :: "int64 \<Rightarrow> int32 \<Rightarrow> bool \<Rightarrow> int64" where
  "StepDurationMs baseMsPerTile costUnits diagonal =
     (if costUnits \<le> 0 then 0
      else let base = CostBase;
               ms = go_div (i64 (i64 (baseMsPerTile * costUnits) + go_div base 2)) base;
               ms = (if diagonal
                     then go_div (i64 (i64 (ms * sqrt2Num) + go_div sqrt2Den 2)) sqrt2Den
                     else ms)
           in if ms < 1 then 1 else ms)"

fun build_loop ::
  "(int32 \<Rightarrow> int32 \<Rightarrow> bool) \<Rightarrow> (int32 \<Rightarrow> int32 \<Rightarrow> int32) \<Rightarrow> int64 \<Rightarrow> tile \<Rightarrow> tile list \<Rightarrow> int64
     \<Rightarrow> movement_error + timed_path" where
  "build_loop walkable cost base prev [] acc = Ok []"
| "build_loop walkable cost base prev (cur # rest) acc =
     (if \<not> IsAdjacent prev cur then Err ErrPathNotContiguous
      else if \<not> walkable (tX cur) (tY cur) then Err ErrPathNotWalkable
      else let units = cost (tX cur) (tY cur);
               acc' = i64 (acc + StepDurationMs base units (IsDiagonalTo prev cur))
           in case build_loop walkable cost base cur rest acc' of
                Err e \<Rightarrow> Err e
              | Ok p \<Rightarrow> Ok (\<lparr>wX = tX cur, wY = tY cur, wTMs = acc'\<rparr> # p))"

definition BuildTimedPath ::
  "tile list \<Rightarrow> (int32 \<Rightarrow> int32 \<Rightarrow> bool) \<Rightarrow> (int32 \<Rightarrow> int32 \<Rightarrow> int32) \<Rightarrow> int64
     \<Rightarrow> movement_error + timed_path" where
  "BuildTimedPath tiles walkable cost baseMsPerTile =
     (case tiles of
        [] \<Rightarrow> Err ErrEmptyPath
      | t # rest \<Rightarrow>
          if baseMsPerTile \<le> 0 then Err ErrBadBaseMs
          else case build_loop walkable cost baseMsPerTile t rest 0 of
                 Err e \<Rightarrow> Err e
               | Ok p \<Rightarrow> Ok (\<lparr>wX = tX t, wY = tY t, wTMs = 0\<rparr> # p))"

subsection \<open>Checking a stored polyline\<close>

text \<open>The grid is an option: Validate and checkCorner accept a nil grid and then skip its checks.\<close>

definition checkCorner ::
  "timed_path \<Rightarrow> nat \<Rightarrow> (int32 \<Rightarrow> int32 \<Rightarrow> bool) option \<Rightarrow> movement_error option" where
  "checkCorner p i grid =
     (case grid of
        None \<Rightarrow> None
      | Some walkable \<Rightarrow>
          let prev = p ! (i - 1); cur = p ! i
          in if wX prev = wX cur \<or> wY prev = wY cur then None
             else if \<not> walkable (wX prev) (wY cur) \<or> \<not> walkable (wX cur) (wY prev)
             then Some ErrPathCutsCorner
             else None)"

definition validate_at ::
  "timed_path \<Rightarrow> (int32 \<Rightarrow> int32 \<Rightarrow> bool) option \<Rightarrow> nat \<Rightarrow> movement_error option" where
  "validate_at p grid i =
     (if (case grid of None \<Rightarrow> False | Some walkable \<Rightarrow> \<not> walkable (wX (p ! i)) (wY (p ! i)))
      then Some ErrPathNotWalkable
      else if i = 0 then None
      else if wTMs (p ! i) \<le> wTMs (p ! (i - 1)) then Some ErrPathNotMonotonic
      else if \<not> IsAdjacent (Tile_of (p ! (i - 1))) (Tile_of (p ! i)) then Some ErrPathNotContiguous
      else checkCorner p i grid)"

definition Validate_path ::
  "timed_path \<Rightarrow> (int32 \<Rightarrow> int32 \<Rightarrow> bool) option \<Rightarrow> movement_error option" where
  "Validate_path p grid =
     (if length p = 0 then Some ErrEmptyPath
      else if wTMs (p ! 0) \<noteq> 0 then Some ErrInvalidOrigin
      else first_err (validate_at p grid) [0..<length p])"

definition ValidateFrom ::
  "timed_path \<Rightarrow> int \<Rightarrow> (int32 \<Rightarrow> int32 \<Rightarrow> bool) \<Rightarrow> movement_error option" where
  "ValidateFrom p from0 walkable =
     (let start = nat (if from0 < 0 then 0 else from0)
      in first_err (\<lambda>i.
           if \<not> walkable (wX (p ! i)) (wY (p ! i)) then Some ErrPathNotWalkable
           else if i = start then None
           else checkCorner p i (Some walkable)) [start..<length p])"

subsection \<open>Movements (movement.go)\<close>

datatype move_status = MoveActive | MoveCompleted | MoveCancelled | MoveFailed

datatype cancel_reason =
  ReasonReplaced | ReasonCancelledByPlayer | ReasonPathBlocked | ReasonUnitDead | ReasonServer

record movement =
  m_ID :: int64
  m_UnitID :: int64
  m_Path :: timed_path
  m_Target :: tile
  m_StartTimeMs :: int64
  m_ArrivalTimeMs :: int64
  m_Status :: move_status

definition New_movement :: "int64 \<Rightarrow> timed_path \<Rightarrow> tile \<Rightarrow> int64 \<Rightarrow> movement" where
  "New_movement unitID path target startTimeMs =
     \<lparr>m_ID = 0, m_UnitID = unitID, m_Path = path, m_Target = target, m_StartTimeMs = startTimeMs,
      m_ArrivalTimeMs = i64 (startTimeMs + DurationMs path), m_Status = MoveActive\<rparr>"

definition movement_PositionAt :: "movement \<Rightarrow> int64 \<Rightarrow> tile" where
  "movement_PositionAt m nowMs = PositionAt (m_Path m) (i64 (nowMs - m_StartTimeMs m))"

definition HasArrived :: "movement \<Rightarrow> int64 \<Rightarrow> bool" where
  "HasArrived m nowMs \<longleftrightarrow> m_ArrivalTimeMs m \<le> nowMs"

definition RemainingMs :: "movement \<Rightarrow> int64 \<Rightarrow> int64" where
  "RemainingMs m nowMs = (let r = i64 (m_ArrivalTimeMs m - nowMs) in if 0 < r then r else 0)"

definition movement_Destination :: "movement \<Rightarrow> tile option" where
  "movement_Destination m = Destination (m_Path m)"

subsection \<open>The position is the last waypoint reached\<close>

definition increasing :: "timed_path \<Rightarrow> bool" where
  "increasing p \<longleftrightarrow> (\<forall>i j. i < j \<longrightarrow> j < length p \<longrightarrow> wTMs (p ! i) < wTMs (p ! j))"

lemma increasing_le:
  "increasing p \<Longrightarrow> i \<le> j \<Longrightarrow> j < length p \<Longrightarrow> wTMs (p ! i) \<le> wTMs (p ! j)"
  unfolding increasing_def by (cases "i = j") (auto intro: less_imp_le)

lemma increasing_stepwise:
  assumes "\<And>i. 0 < i \<Longrightarrow> i < length p \<Longrightarrow> wTMs (p ! (i - 1)) < wTMs (p ! i)"
  shows "increasing p"
  unfolding increasing_def
proof (intro allI impI)
  fix i j assume "i < j" "j < length p"
  then show "wTMs (p ! i) < wTMs (p ! j)"
  proof (induction j)
    case (Suc j)
    have "wTMs (p ! j) < wTMs (p ! Suc j)" using assms[of "Suc j"] Suc.prems by simp
    with Suc show ?case by (cases "i = j") auto
  qed simp
qed

lemma bsearch_spec:
  assumes "increasing p" "lo \<le> hi" "hi < length p" "wTMs (p ! lo) \<le> e"
    and "\<And>j. hi < j \<Longrightarrow> j < length p \<Longrightarrow> e < wTMs (p ! j)"
  shows "bsearch p e lo hi < length p \<and> wTMs (p ! bsearch p e lo hi) \<le> e \<and>
    (\<forall>j. bsearch p e lo hi < j \<longrightarrow> j < length p \<longrightarrow> e < wTMs (p ! j))"
  using assms
proof (induction p e lo hi rule: bsearch.induct)
  case (1 p e lo hi)
  let ?mid = "(lo + hi + 1) div 2"
  show ?case
  proof (cases "lo < hi")
    case False
    with "1.prems" show ?thesis by (simp add: bsearch.simps[of p e lo hi] bsearch.simps[of p e hi hi])
  next
    case True
    then have m: "lo < ?mid" "?mid \<le> hi" by auto
    show ?thesis
    proof (cases "wTMs (p ! ?mid) \<le> e")
      case t: True
      from "1.IH"(1)[OF True refl t] "1.prems" m t True show ?thesis
        by (simp add: bsearch.simps[of p e lo hi] Let_def)
    next
      case f: False
      have "e < wTMs (p ! j)" if "?mid - 1 < j" "j < length p" for j
      proof -
        from that(1) have "?mid \<le> j" by simp
        from increasing_le[OF "1.prems"(1) this that(2)] f show ?thesis by simp
      qed
      with "1.IH"(2)[OF True refl f] "1.prems" m f True show ?thesis
        by (simp add: bsearch.simps[of p e lo hi] Let_def)
    qed
  qed
qed

lemma reached_prefix:
  assumes "increasing p" "r < length p" "wTMs (p ! r) \<le> e"
    and "\<And>j. r < j \<Longrightarrow> j < length p \<Longrightarrow> e < wTMs (p ! j)"
  shows "filter (\<lambda>w. wTMs w \<le> e) p = take (Suc r) p"
proof (rule filter_prefix)
  show "wTMs (p ! j) \<le> e" if "j \<le> r" for j
    using increasing_le[OF assms(1) that assms(2)] assms(3) by simp
  show "\<not> wTMs (p ! j) \<le> e" if "r < j" "j < length p" for j
    using assms(4)[OF that] by simp
qed (rule assms(2))

lemma IndexAt_spec:
  assumes "increasing p" "p \<noteq> []" "wTMs (p ! 0) = 0"
  shows "0 \<le> IndexAt p t \<and> nat (IndexAt p t) < length p \<and> wTMs (p ! nat (IndexAt p t)) \<le> max 0 t \<and>
    (\<forall>j. nat (IndexAt p t) < j \<longrightarrow> j < length p \<longrightarrow> max 0 t < wTMs (p ! j))"
proof -
  have pos: "0 < wTMs (p ! j)" if "0 < j" "j < length p" for j
    using assms(1,3) that unfolding increasing_def by metis
  consider "t \<le> 0" | "0 < t" "wTMs (p ! (length p - 1)) \<le> t" | "0 < t" "t < wTMs (p ! (length p - 1))"
    by linarith
  then show ?thesis
  proof cases
    case 1
    then show ?thesis using assms pos by (auto simp: IndexAt_def)
  next
    case 2
    then show ?thesis using assms by (auto simp: IndexAt_def)
  next
    case 3
    have "bsearch p t 0 (length p - 1) < length p \<and> wTMs (p ! bsearch p t 0 (length p - 1)) \<le> t \<and>
      (\<forall>j. bsearch p t 0 (length p - 1) < j \<longrightarrow> j < length p \<longrightarrow> t < wTMs (p ! j))"
      using 3 assms by (intro bsearch_spec) auto
    then show ?thesis using 3 assms by (auto simp: IndexAt_def)
  qed
qed

lemma PositionAt_IndexAt: "p \<noteq> [] \<Longrightarrow> PositionAt p t = Tile_of (p ! nat (IndexAt p t))"
  by (auto simp: PositionAt_def IndexAt_def)

text \<open>
  C28: the binary search computes the rule of ADR-011: on a polyline that starts at 0 with
  increasing times, the position after t milliseconds is the last waypoint whose time is at
  most t (before the start, the origin), and IndexAt is that waypoint's index.
\<close>

theorem PositionAt_last_reached:
  assumes "increasing p" "p \<noteq> []" "wTMs (p ! 0) = 0"
  shows "PositionAt p t = Tile_of (last (filter (\<lambda>w. wTMs w \<le> max 0 t) p))
    \<and> IndexAt p t = int (length (filter (\<lambda>w. wTMs w \<le> max 0 t) p)) - 1"
proof -
  note spec = IndexAt_spec[OF assms, of t]
  have f: "filter (\<lambda>w. wTMs w \<le> max 0 t) p = take (Suc (nat (IndexAt p t))) p"
    by (rule reached_prefix[OF assms(1)]) (use spec in auto)
  show ?thesis unfolding f using spec
    by (simp add: PositionAt_IndexAt[OF assms(2)] take_Suc_conv_app_nth)
qed

theorem PositionAt_last_reached_witness:
  "PositionAt [\<lparr>wX = 1, wY = 1, wTMs = 0\<rparr>, \<lparr>wX = 2, wY = 1, wTMs = 600\<rparr>, \<lparr>wX = 3, wY = 2, wTMs = 1449\<rparr>] 1448
     = \<lparr>tX = 2, tY = 1\<rparr>"
proof -
  let ?p = "[\<lparr>wX = 1, wY = 1, wTMs = 0\<rparr>, \<lparr>wX = 2, wY = 1, wTMs = 600\<rparr>, \<lparr>wX = 3, wY = 2, wTMs = 1449\<rparr>]"
  have "increasing ?p"
    by (rule increasing_stepwise) (auto simp: less_Suc_eq numeral_eq_Suc nth_Cons')
  from PositionAt_last_reached[OF this, of 1448] show ?thesis by (simp add: Tile_of_def)
qed

subsection \<open>Step durations\<close>

text \<open>The rounded quotient (n + d/2) / d is the nearest integer, ties up.\<close>

lemma round_div_nearest:
  fixes n d :: int
  assumes "0 < d"
  shows "2 * \<bar>d * ((2 * n + d) div (2 * d)) - n\<bar> \<le> d"
proof -
  define q r where "q = (2 * n + d) div (2 * d)" and "r = (2 * n + d) mod (2 * d)"
  have "2 * n + d = 2 * d * q + r" by (simp add: q_def r_def)
  moreover have "0 \<le> r" "r < 2 * d" using assms by (simp_all add: r_def)
  ultimately show ?thesis unfolding q_def[symmetric] by (auto simp: abs_if mult.assoc)
qed

definition step_ms :: "int64 \<Rightarrow> int32 \<Rightarrow> bool \<Rightarrow> int64" where
  "step_ms base units diagonal =
     (let ms = (base * units + 5) div 10
      in max 1 (if diagonal then (ms * 1414214 + 500000) div 1000000 else ms))"

text \<open>Where nothing overflows, StepDurationMs is the rounded product, at least 1.\<close>

lemma StepDurationMs_eq:
  assumes "0 < base" "0 < units" "base * units \<le> 2 ^ 40"
  shows "StepDurationMs base units diagonal = step_ms base units diagonal"
proof -
  let ?n = "base * units"
  have n: "1 \<le> ?n" "?n \<le> 1099511627776" using assms by (simp_all add: mult_pos_ge_1)
  have "i64 (i64 ?n + go_div 10 2) = ?n + 5"
    using n by (simp add: i64_id go_arith)
  moreover define ms where "ms = (?n + 5) div 10"
  moreover have ms: "0 \<le> ms" "ms \<le> 1099511627776" using n by (simp_all add: ms_def)
  moreover have "i64 (i64 (ms * 1414214) + 500000) = ms * 1414214 + 500000"
    using ms by (simp add: i64_id)
  ultimately show ?thesis
    using assms n by (simp add: StepDurationMs_def step_ms_def CostBase_def sqrt2Num_def sqrt2Den_def
        go_arith Let_def max_def)
qed

lemma step_ms_bounds:
  assumes "0 < base" "0 < units"
  shows "1 \<le> step_ms base units d" "step_ms base units d \<le> 2 * (base * units)"
proof -
  have n: "1 \<le> base * units" using assms by (simp add: mult_pos_ge_1)
  show "1 \<le> step_ms base units d" by (simp add: step_ms_def Let_def)
  have "(base * units + 5) div 10 \<le> base * units" using n by linarith
  then show "step_ms base units d \<le> 2 * (base * units)" using n by (auto simp: step_ms_def Let_def max_def)
qed

text \<open>
  a step is never instantaneous and its time is rounded, not truncated: an orthogonal
  step is within half a millisecond of baseMs * cost / 10 (or is the 1 ms minimum), and a
  diagonal one is the orthogonal time times 1.414214, rounded again.
\<close>

theorem StepDurationMs_rounds:
  assumes "0 < base" "0 < units" "base * units \<le> 2 ^ 40"
  shows "1 \<le> StepDurationMs base units d
    \<and> (StepDurationMs base units False = 1 \<or> 2 * \<bar>10 * StepDurationMs base units False - base * units\<bar> \<le> 10)
    \<and> (StepDurationMs base units True = 1 \<or> (\<exists>ms. 2 * \<bar>10 * ms - base * units\<bar> \<le> 10 \<and>
          2 * \<bar>1000000 * StepDurationMs base units True - ms * 1414214\<bar> \<le> 1000000))"
proof -
  define ms where "ms = (base * units + 5) div 10"
  have r: "2 * \<bar>10 * ms - base * units\<bar> \<le> 10"
    using round_div_nearest[of 10 "base * units"]
    by (simp add: ms_def)
  moreover have "2 * \<bar>1000000 * ((ms * 1414214 + 500000) div 1000000) - ms * 1414214\<bar> \<le> 1000000"
    using round_div_nearest[of 1000000 "ms * 1414214"] by simp
  ultimately show ?thesis
    unfolding StepDurationMs_eq[OF assms] step_ms_def Let_def ms_def[symmetric]
    by (auto simp: max_def)
qed

theorem StepDurationMs_rounds_witness:
  "StepDurationMs 600 16 True = 1358 \<and> StepDurationMs 600 16 False = 960 \<and> 1 \<le> StepDurationMs 600 16 True"
  using StepDurationMs_rounds[of 600 16 True]
  by (simp add: StepDurationMs_eq step_ms_def)

subsection \<open>The builder produces what the validator accepts\<close>

text \<open>A route that does not cut a corner: both orthogonal neighbours of a diagonal step are walkable.\<close>

fun corner_free :: "(int32 \<Rightarrow> int32 \<Rightarrow> bool) \<Rightarrow> tile list \<Rightarrow> bool" where
  "corner_free walkable (a # b # ts) \<longleftrightarrow>
     (IsDiagonalTo a b \<longrightarrow> walkable (tX a) (tY b) \<and> walkable (tX b) (tY a)) \<and> corner_free walkable (b # ts)"
| "corner_free walkable ts \<longleftrightarrow> True"

fun contiguous :: "tile list \<Rightarrow> bool" where
  "contiguous (a # b # ts) \<longleftrightarrow> IsAdjacent a b \<and> contiguous (b # ts)"
| "contiguous ts \<longleftrightarrow> True"

lemma Tile_of_waypoint [simp]: "Tile_of \<lparr>wX = tX t, wY = tY t, wTMs = k\<rparr> = t"
  by (simp add: Tile_of_def)

lemma tX_Tile_of [simp]: "tX (Tile_of w) = wX w" "tY (Tile_of w) = wY w"
  by (simp_all add: Tile_of_def)

lemma build_loop_tiles:
  "build_loop W C base prev ts acc = Ok p \<Longrightarrow>
    map Tile_of p = ts \<and> contiguous (prev # ts) \<and> (\<forall>t \<in> set ts. W (tX t) (tY t))"
  by (induction ts arbitrary: prev acc p) (auto split: if_splits sum.splits simp: Let_def)

lemma build_loop_Ok:
  "contiguous (prev # ts) \<Longrightarrow> \<forall>t \<in> set ts. W (tX t) (tY t) \<Longrightarrow> \<exists>p. build_loop W C base prev ts acc = Ok p"
proof (induction ts arbitrary: prev acc)
  case (Cons t ts)
  from Cons.IH[of t "i64 (acc + StepDurationMs base (C (tX t) (tY t)) (IsDiagonalTo prev t))"] Cons.prems
  obtain p where "build_loop W C base t ts (i64 (acc + StepDurationMs base (C (tX t) (tY t)) (IsDiagonalTo prev t))) = Ok p"
    by auto
  with Cons.prems show ?case by (simp add: Let_def)
qed simp

text \<open>
  BuildTimedPath fails exactly on an empty route, a pace that is not positive, a step
  between tiles that are not neighbours or a tile after the origin that is not walkable.
\<close>

theorem BuildTimedPath_Ok_iff:
  "(\<exists>p. BuildTimedPath tiles W C base = Ok p) \<longleftrightarrow>
    tiles \<noteq> [] \<and> 0 < base \<and> contiguous tiles \<and> (\<forall>t \<in> set (tl tiles). W (tX t) (tY t))"
  (is "?l \<longleftrightarrow> ?r")
proof
  assume ?l
  then show ?r by (cases tiles) (auto simp: BuildTimedPath_def split: if_splits sum.splits dest: build_loop_tiles)
next
  assume r: ?r
  then obtain t ts where ts: "tiles = t # ts" by (cases tiles) auto
  with r build_loop_Ok[of t ts W C base 0] obtain p where "build_loop W C base t ts 0 = Ok p" by auto
  with r ts show ?l by (simp add: BuildTimedPath_def)
qed

text \<open>Validity of a polyline, step by step from its head.\<close>

fun steps_ok :: "(int32 \<Rightarrow> int32 \<Rightarrow> bool) \<Rightarrow> waypoint \<Rightarrow> timed_path \<Rightarrow> bool" where
  "steps_ok W prev [] \<longleftrightarrow> True"
| "steps_ok W prev (w # ws) \<longleftrightarrow> W (wX w) (wY w) \<and> wTMs prev < wTMs w \<and> IsAdjacent (Tile_of prev) (Tile_of w)
     \<and> (IsDiagonalTo (Tile_of prev) (Tile_of w) \<longrightarrow> W (wX prev) (wY w) \<and> W (wX w) (wY prev)) \<and> steps_ok W w ws"

lemma steps_ok_nth:
  "steps_ok W prev ws \<longleftrightarrow> (\<forall>i < length ws. let a = (prev # ws) ! i; b = ws ! i in
     W (wX b) (wY b) \<and> wTMs a < wTMs b \<and> IsAdjacent (Tile_of a) (Tile_of b)
     \<and> (IsDiagonalTo (Tile_of a) (Tile_of b) \<longrightarrow> W (wX a) (wY b) \<and> W (wX b) (wY a)))"
  by (induction ws arbitrary: prev) (auto simp: All_less_Suc2 Let_def)

lemma checkCorner_None_iff:
  "checkCorner p i (Some W) = None \<longleftrightarrow>
    (IsDiagonalTo (Tile_of (p ! (i - 1))) (Tile_of (p ! i)) \<longrightarrow>
       W (wX (p ! (i - 1))) (wY (p ! i)) \<and> W (wX (p ! i)) (wY (p ! (i - 1))))"
  by (auto simp: checkCorner_def IsDiagonalTo_def Let_def)

text \<open>
  Validate accepts exactly the polylines that satisfy the stored invariants: not empty,
  starting at time 0, every tile walkable, times strictly increasing, consecutive tiles
  adjacent, and no diagonal step past an impassable orthogonal tile.
\<close>

theorem Validate_path_iff:
  "Validate_path p (Some W) = None \<longleftrightarrow>
    (\<exists>w ws. p = w # ws \<and> wTMs w = 0 \<and> W (wX w) (wY w) \<and> steps_ok W w ws)"
proof (cases p)
  case (Cons w ws)
  have "first_err (validate_at p (Some W)) [0..<length p] = None \<longleftrightarrow>
      (\<forall>i < length p. validate_at p (Some W) i = None)"
    unfolding first_err_None_iff by auto
  also have "(\<forall>i < length p. validate_at p (Some W) i = None) \<longleftrightarrow> W (wX w) (wY w) \<and>
     (\<forall>i < length ws. validate_at p (Some W) (Suc i) = None)"
    by (auto simp: Cons All_less_Suc2 validate_at_def)
  also have "\<dots> \<longleftrightarrow> W (wX w) (wY w) \<and> steps_ok W w ws"
    by (auto simp: Cons steps_ok_nth validate_at_def checkCorner_None_iff Let_def)
  finally show ?thesis
    by (simp add: Cons Validate_path_def del: upt_Suc)
qed (simp add: Validate_path_def)

context cost_grid
begin

lemma build_loop_steps_ok:
  assumes "build_loop walkable cost base prev ts acc = Ok p"
    and "0 < base" "base * max_cost \<le> 2 ^ 40" "0 \<le> acc"
    and "acc + int (length ts) * (2 * (base * max_cost)) \<le> 4611686018427387904"
    and "corner_free walkable (prev # ts)"
  shows "steps_ok walkable \<lparr>wX = tX prev, wY = tY prev, wTMs = acc\<rparr> p"
  using assms
proof (induction ts arbitrary: prev acc p)
  case (Cons t ts)
  let ?c = "cost (tX t) (tY t)" and ?d = "IsDiagonalTo prev t"
  let ?acc = "acc + step_ms base ?c ?d"
  from Cons.prems(1) have adj: "IsAdjacent prev t" and wt: "walkable (tX t) (tY t)"
    by (auto split: if_splits)
  have c: "0 < ?c" "base * ?c \<le> base * max_cost"
    using cost_pos[OF wt] cost_le_max Cons.prems(2) by simp_all
  have sd: "StepDurationMs base ?c ?d = step_ms base ?c ?d"
    by (rule StepDurationMs_eq) (use c Cons.prems(2,3) in linarith)+
  have b: "1 \<le> step_ms base ?c ?d" "step_ms base ?c ?d \<le> 2 * (base * max_cost)"
    using step_ms_bounds[OF Cons.prems(2) c(1), of ?d] c(2) by linarith+
  have nn: "0 \<le> base * max_cost" using c Cons.prems(2) by (smt (verit) mult_pos_pos)
  have acc': "?acc + int (length ts) * (2 * (base * max_cost)) \<le> 4611686018427387904"
    using Cons.prems(5) b by (simp add: distrib_right)
  have nn2: "0 \<le> int (length ts) * (2 * (base * max_cost))" using nn by simp
  have i: "i64 ?acc = ?acc" using b Cons.prems(4) acc' nn2 by (intro i64_id) linarith+
  from Cons.prems(1) adj wt sd i obtain q where
    q: "build_loop walkable cost base t ts ?acc = Ok q" "p = \<lparr>wX = tX t, wY = tY t, wTMs = ?acc\<rparr> # q"
    by (auto simp: Let_def split: sum.splits)
  from Cons.IH[OF q(1) Cons.prems(2,3) _ acc'] Cons.prems(4,6) b
  have "steps_ok walkable \<lparr>wX = tX t, wY = tY t, wTMs = ?acc\<rparr> q" by simp
  with q(2) adj wt b Cons.prems(6) show ?case by simp
qed simp

lemma BuildTimedPath_valid:
  assumes "tiles \<noteq> []" "contiguous tiles" "\<forall>t \<in> set tiles. walkable (tX t) (tY t)" "corner_free walkable tiles"
    and "0 < base" "base * max_cost \<le> 2 ^ 40" "int (length tiles) * (2 * (base * max_cost)) \<le> 4611686018427387904"
  shows "\<exists>p. BuildTimedPath tiles walkable cost base = Ok p \<and> map Tile_of p = tiles
    \<and> Validate_path p (Some walkable) = None"
proof -
  obtain t ts where ts: "tiles = t # ts" using assms(1) by (cases tiles) auto
  obtain p where p: "build_loop walkable cost base t ts 0 = Ok p"
    using build_loop_Ok[of t ts walkable cost base 0] assms(2,3) ts by auto
  let ?w = "\<lparr>wX = tX t, wY = tY t, wTMs = 0\<rparr>"
  have "BuildTimedPath tiles walkable cost base = Ok (?w # p)"
    using p ts assms(5) by (simp add: BuildTimedPath_def)
  moreover have "map Tile_of (?w # p) = tiles" using build_loop_tiles[OF p] ts by simp
  moreover have nn: "0 \<le> base * max_cost"
    using assms(3,5) ts cost_pos[of "tX t" "tY t"] cost_le_max[of "tX t" "tY t"] by simp
  have "steps_ok walkable ?w p"
  proof (rule build_loop_steps_ok[OF p assms(5,6)])
    show "0 + int (length ts) * (2 * (base * max_cost)) \<le> 4611686018427387904"
      using assms(7) nn unfolding ts by (simp only: length_Cons of_nat_Suc distrib_right)
    show "corner_free walkable (t # ts)" using assms(4) ts by simp
  qed simp_all
  then have "Validate_path (?w # p) (Some walkable) = None"
    using assms(3) ts unfolding Validate_path_iff by simp
  ultimately show ?thesis by blast
qed

end

text \<open>
  C40: a route of walkable, adjacent tiles that cuts no corner becomes, over any world and any
  pace within range, a polyline through the same tiles that Validate accepts on that world:
  a movement written by the server is never rejected when it is read back.
\<close>

theorem BuildTimedPath_validates:
  assumes "tiles \<noteq> []" "contiguous tiles" "\<forall>t \<in> set tiles. IsWalkable w (tX t) (tY t)"
    and "corner_free (IsWalkable w) tiles"
    and "0 < base" "base \<le> 1000000000" "length tiles \<le> 10000000"
  shows "\<exists>p. BuildTimedPath tiles (IsWalkable w) (MoveCostUnits w) base = Ok p \<and> map Tile_of p = tiles
    \<and> Validate_path p (Some (IsWalkable w)) = None"
proof (rule world_grid.BuildTimedPath_valid[OF assms(1-5)])
  show "base * 18 \<le> 2 ^ 40" using assms(6) by simp
  have "int (length tiles) * (2 * (base * 18)) \<le> 10000000 * (2 * (1000000000 * 18))"
    using assms(5,6,7) by (intro mult_mono) auto
  then show "int (length tiles) * (2 * (base * 18)) \<le> 4611686018427387904" by simp
qed

theorem BuildTimedPath_validates_witness:
  "\<exists>p. BuildTimedPath [mk_tile 0 0, mk_tile 1 1, mk_tile 2 1] (IsWalkable meadow) (MoveCostUnits meadow) 600 = Ok p
    \<and> map Tile_of p = [mk_tile 0 0, mk_tile 1 1, mk_tile 2 1]
    \<and> Validate_path p (Some (IsWalkable meadow)) = None"
  by (rule BuildTimedPath_validates)
     (simp_all add: meadow_walkable IsAdjacent_def IsDiagonalTo_def abs32_def go_arith)

theorem BuildTimedPath_Ok_iff_witness:
  "\<exists>p. BuildTimedPath [mk_tile 5 5, mk_tile 5 6] (\<lambda>x y. True) (\<lambda>x y. 10) 600 = Ok p"
  unfolding BuildTimedPath_Ok_iff by (simp add: IsAdjacent_def abs32_def go_arith)

subsection \<open>Re-checking a movement under way\<close>

text \<open>
  ValidateFrom looks only at what is left: from waypoint k on, every tile must be walkable
  on the present map and every later diagonal step must clear its corners. A polyline that
  Validate accepts passes it from any waypoint.
\<close>

theorem ValidateFrom_iff:
  "(ValidateFrom p (int k) W = None \<longleftrightarrow>
     (\<forall>i. k \<le> i \<and> i < length p \<longrightarrow> W (wX (p ! i)) (wY (p ! i))) \<and>
     (\<forall>i. k < i \<and> i < length p \<longrightarrow> checkCorner p i (Some W) = None))
   \<and> (Validate_path p (Some W) = None \<longrightarrow> ValidateFrom p (int k) W = None)"
proof
  show iff: "ValidateFrom p (int k) W = None \<longleftrightarrow>
     (\<forall>i. k \<le> i \<and> i < length p \<longrightarrow> W (wX (p ! i)) (wY (p ! i))) \<and>
     (\<forall>i. k < i \<and> i < length p \<longrightarrow> checkCorner p i (Some W) = None)"
    by (auto simp: ValidateFrom_def first_err_None_iff Let_def split: if_splits)
  show "Validate_path p (Some W) = None \<longrightarrow> ValidateFrom p (int k) W = None"
  proof
    assume "Validate_path p (Some W) = None"
    then have "\<forall>i < length p. validate_at p (Some W) i = None"
      by (auto simp: Validate_path_def first_err_None_iff split: if_splits)
    then show "ValidateFrom p (int k) W = None"
      unfolding iff by (auto simp: validate_at_def split: if_splits)
  qed
qed

theorem ValidateFrom_iff_witness:
  "ValidateFrom [\<lparr>wX = 0, wY = 0, wTMs = 0\<rparr>, \<lparr>wX = 1, wY = 1, wTMs = 849\<rparr>] (int 1) (\<lambda>x y. x = 1 \<and> y = 1) = None
   \<and> ValidateFrom [\<lparr>wX = 0, wY = 0, wTMs = 0\<rparr>, \<lparr>wX = 1, wY = 1, wTMs = 849\<rparr>] (int 0) (\<lambda>x y. x = 1 \<and> y = 1) \<noteq> None"
  using ValidateFrom_iff[of "[\<lparr>wX = 0, wY = 0, wTMs = 0\<rparr>, \<lparr>wX = 1, wY = 1, wTMs = 849\<rparr>]" 1 "\<lambda>x y. x = 1 \<and> y = 1"]
    ValidateFrom_iff[of "[\<lparr>wX = 0, wY = 0, wTMs = 0\<rparr>, \<lparr>wX = 1, wY = 1, wTMs = 849\<rparr>]" 0 "\<lambda>x y. x = 1 \<and> y = 1"]
  by (auto simp: less_Suc_eq)

subsection \<open>Arrival\<close>

text \<open>
  a movement made from a checked polyline has arrived exactly from its start plus the
  time of its last waypoint on; from then on its position is its destination and nothing
  remains; before that, after the start, it is on an earlier waypoint and the rest is positive.
\<close>

theorem movement_arrival:
  assumes p: "increasing path" "path \<noteq> []" "wTMs (path ! 0) = 0"
    and r: "0 \<le> start" "0 \<le> now" "start \<le> 2 ^ 61" "now \<le> 2 ^ 61" "DurationMs path \<le> 2 ^ 61"
    and m: "m = New_movement unitID path target start"
  shows "HasArrived m now = (start + DurationMs path \<le> now)
    \<and> (HasArrived m now \<longrightarrow> Some (movement_PositionAt m now) = movement_Destination m \<and> RemainingMs m now = 0)
    \<and> (\<not> HasArrived m now \<and> start \<le> now \<longrightarrow>
         (\<exists>i. i < length path - 1 \<and> movement_PositionAt m now = Tile_of (path ! i)) \<and>
         RemainingMs m now = start + DurationMs path - now \<and> 0 < RemainingMs m now)"
proof -
  let ?d = "DurationMs path" and ?n = "length path - 1"
  have d: "?d = wTMs (path ! ?n)" using p by (simp add: DurationMs_def)
  have d0: "0 \<le> ?d" using increasing_le[OF p(1), of 0 ?n] p d by simp
  have sel: "m_ArrivalTimeMs m = start + ?d" "m_Path m = path" "m_StartTimeMs m = start"
    using r d0 by (simp_all add: m New_movement_def i64_id)
  have el: "i64 (now - start) = now - start" "i64 (start + ?d - now) = start + ?d - now"
    using r d0 by (simp_all add: i64_id)
  have arr: "HasArrived m now = (start + ?d \<le> now)" by (simp add: HasArrived_def sel)
  note spec = IndexAt_spec[OF p, of "now - start"]
  have pos: "movement_PositionAt m now = Tile_of (path ! nat (IndexAt path (now - start)))"
    by (simp add: movement_PositionAt_def sel el PositionAt_IndexAt[OF p(2)])
  show ?thesis
  proof (cases "start + ?d \<le> now")
    case True
    have "\<not> nat (IndexAt path (now - start)) < ?n"
    proof
      assume "nat (IndexAt path (now - start)) < ?n"
      with spec p have "max 0 (now - start) < wTMs (path ! ?n)" by auto
      with True d0 show False unfolding d by simp
    qed
    with spec have "nat (IndexAt path (now - start)) = ?n" by linarith
    with True show ?thesis
      by (simp add: arr pos movement_Destination_def Destination_def sel p RemainingMs_def el)
  next
    case False
    have "nat (IndexAt path (now - start)) < ?n" if "start \<le> now"
    proof -
      have "nat (IndexAt path (now - start)) \<noteq> ?n"
        using spec False that unfolding d by auto
      with spec show ?thesis by linarith
    qed
    with False show ?thesis
      by (auto simp: arr pos sel RemainingMs_def el)
  qed
qed

theorem movement_arrival_witness:
  "HasArrived (New_movement 7 [\<lparr>wX = 1, wY = 1, wTMs = 0\<rparr>, \<lparr>wX = 2, wY = 1, wTMs = 600\<rparr>] (mk_tile 2 1) 1000) 1600"
proof -
  let ?p = "[\<lparr>wX = 1, wY = 1, wTMs = 0\<rparr>, \<lparr>wX = 2, wY = 1, wTMs = 600\<rparr>]"
  have "increasing ?p" by (rule increasing_stepwise) (auto simp: less_Suc_eq)
  from movement_arrival[OF this, of 1000 1600 _ 7 "mk_tile 2 1"] show ?thesis by (simp add: DurationMs_def)
qed

end
