(* ===== verification/Node_Heap.thy ===== *)
theory Node_Heap
  imports World
begin

section \<open>The open list of the path search: a binary heap of nodes\<close>

text \<open>
  Models the node, its total order and the array heap of internal/pathfinding/astar.go. The
  interface the search relies on, a priority queue over a multiset of nodes, is the locale
  prio_queue; the heap is its provider. Proved: push and pop keep the heap invariant and the
  multiset of nodes, and pop returns a least node.
\<close>

record node =
  n_idx :: int32
  n_f :: int32
  n_h :: int32
  n_x :: int32
  n_y :: int32

definition node_less :: "node \<Rightarrow> node \<Rightarrow> bool" where
  "node_less a b =
     (if n_f a \<noteq> n_f b then n_f a < n_f b
      else if n_h a \<noteq> n_h b then n_h a < n_h b
      else if n_y a \<noteq> n_y b then n_y a < n_y b
      else n_x a < n_x b)"

type_synonym node_heap = "node list"

definition swap :: "nat \<Rightarrow> nat \<Rightarrow> 'a list \<Rightarrow> 'a list" where
  "swap i j xs = xs[i := xs ! j, j := xs ! i]"

function sift_up :: "node_heap \<Rightarrow> nat \<Rightarrow> node_heap" where
  "sift_up h i =
     (if 0 < i then
        let parent = (i - 1) div 2
        in if \<not> node_less (h ! i) (h ! parent) then h
           else sift_up (swap i parent h) parent
      else h)"
  by pat_completeness auto
termination
  by (relation "measure (\<lambda>(h, i). i)") auto

definition smallest_of :: "node_heap \<Rightarrow> nat \<Rightarrow> nat \<Rightarrow> nat" where
  "smallest_of h i n =
     (let l = 2 * i + 1; r = 2 * i + 2;
          smallest = (if l < n \<and> node_less (h ! l) (h ! i) then l else i)
      in if r < n \<and> node_less (h ! r) (h ! smallest) then r else smallest)"

lemma smallest_of_bounds: "smallest_of h i n \<noteq> i \<Longrightarrow> i < smallest_of h i n \<and> smallest_of h i n < n"
  by (auto simp: smallest_of_def Let_def split: if_splits)

function sift_down :: "node_heap \<Rightarrow> nat \<Rightarrow> nat \<Rightarrow> node_heap" where
  "sift_down h i n =
     (let smallest = smallest_of h i n
      in if smallest = i then h else sift_down (swap i smallest h) smallest n)"
  by pat_completeness auto
termination
proof (relation "measure (\<lambda>(h, i, n). n - i)")
  show "((swap i x h, x, n), h, i, n) \<in> measure (\<lambda>(h, i, n). n - i)"
    if "x = smallest_of h i n" "x \<noteq> i" for h i n x
    using smallest_of_bounds[of h i n] that by auto
qed simp

declare sift_up.simps [simp del] sift_down.simps [simp del]

definition heap_push :: "node \<Rightarrow> node_heap \<Rightarrow> node_heap" where
  "heap_push n h = sift_up (h @ [n]) (length h)"

text \<open>On an empty heap the code's pop indexes out of range: None.\<close>

definition heap_pop :: "node_heap \<Rightarrow> (node \<times> node_heap) option" where
  "heap_pop h =
     (if h = [] then None
      else let top = h ! 0; l = length h - 1
           in Some (top, sift_down (take l (h[0 := h ! l])) 0 l))"

subsection \<open>The interface of the search\<close>

locale prio_queue =
  fixes empty_q :: "'q"
    and push :: "'a \<Rightarrow> 'q \<Rightarrow> 'q"
    and pop :: "'q \<Rightarrow> ('a \<times> 'q) option"
    and lt :: "'a \<Rightarrow> 'a \<Rightarrow> bool"
    and elems :: "'q \<Rightarrow> 'a multiset"
    and invar :: "'q \<Rightarrow> bool"
  assumes invar_empty: "invar empty_q"
    and elems_empty: "elems empty_q = {#}"
    and invar_push: "invar q \<Longrightarrow> invar (push x q)"
    and elems_push: "invar q \<Longrightarrow> elems (push x q) = add_mset x (elems q)"
    and pop_None: "invar q \<Longrightarrow> pop q = None \<longleftrightarrow> elems q = {#}"
    and pop_Some: "invar q \<Longrightarrow> pop q = Some (x, q') \<Longrightarrow>
      invar q' \<and> elems q = add_mset x (elems q') \<and> (\<forall>y \<in># elems q. \<not> lt y x)"
begin

lemma pop_SomeE:
  assumes "invar q" "pop q = Some (x, q')"
  obtains "invar q'" "elems q = add_mset x (elems q')" "\<And>y. y \<in># elems q \<Longrightarrow> \<not> lt y x"
  using pop_Some[OF assms] by blast

lemma push_all:
  assumes "invar q"
  shows "invar (fold push xs q) \<and> elems (fold push xs q) = elems q + mset xs"
  using assms by (induction xs arbitrary: q) (auto simp: invar_push elems_push)

lemma pop_exists: "invar q \<Longrightarrow> elems q \<noteq> {#} \<Longrightarrow> \<exists>x q'. pop q = Some (x, q')"
  using pop_None by (cases "pop q") auto

end

subsection \<open>The order is total up to the index\<close>

lemma node_less_irrefl [simp]: "\<not> node_less a a"
  by (simp add: node_less_def)

lemma node_less_asym: "node_less a b \<Longrightarrow> \<not> node_less b a"
  by (auto simp: node_less_def split: if_splits)

lemma node_le_trans: "\<not> node_less b a \<Longrightarrow> \<not> node_less c b \<Longrightarrow> \<not> node_less c a"
  by (auto simp: node_less_def split: if_splits)

lemma node_less_f: "\<not> node_less b a \<Longrightarrow> n_f a \<le> n_f b"
  by (auto simp: node_less_def split: if_splits)

subsection \<open>The heap invariant\<close>

definition par :: "nat \<Rightarrow> nat" where "par i = (i - 1) div 2"

definition heap_ok :: "node_heap \<Rightarrow> bool" where
  "heap_ok h \<longleftrightarrow> (\<forall>j. 0 < j \<longrightarrow> j < length h \<longrightarrow> \<not> node_less (h ! j) (h ! par j))"

definition up_ok :: "node_heap \<Rightarrow> nat \<Rightarrow> bool" where
  "up_ok h i \<longleftrightarrow> i < length h \<and>
     (\<forall>j. 0 < j \<longrightarrow> j < length h \<longrightarrow> j \<noteq> i \<longrightarrow> \<not> node_less (h ! j) (h ! par j)) \<and>
     (\<forall>j. 0 < j \<longrightarrow> j < length h \<longrightarrow> par j = i \<longrightarrow> 0 < i \<longrightarrow> \<not> node_less (h ! j) (h ! par i))"

definition down_ok :: "node_heap \<Rightarrow> nat \<Rightarrow> bool" where
  "down_ok h i \<longleftrightarrow>
     (\<forall>j. 0 < j \<longrightarrow> j < length h \<longrightarrow> par j \<noteq> i \<longrightarrow> \<not> node_less (h ! j) (h ! par j)) \<and>
     (\<forall>j. 0 < j \<longrightarrow> j < length h \<longrightarrow> par j = i \<longrightarrow> 0 < i \<longrightarrow> \<not> node_less (h ! j) (h ! par i))"

lemma par_less: "0 < j \<Longrightarrow> par j < j"
  by (auto simp: par_def)

lemma par_children: "0 < j \<Longrightarrow> par j = i \<longleftrightarrow> j = 2 * i + 1 \<or> j = 2 * i + 2"
  unfolding par_def by presburger

lemma length_swap [simp]: "length (swap i j h) = length h"
  by (simp add: swap_def)

lemma nth_swap: "i < length h \<Longrightarrow> j < length h \<Longrightarrow> k < length h \<Longrightarrow>
    swap i j h ! k = (if k = i then h ! j else if k = j then h ! i else h ! k)"
  by (auto simp: swap_def nth_list_update)

lemma mset_swap' [simp]: "i < length h \<Longrightarrow> j < length h \<Longrightarrow> mset (swap i j h) = mset h"
  by (simp add: swap_def mset_swap)

lemma up_ok_swap:
  assumes ok: "up_ok h i" and i: "0 < i" and l: "node_less (h ! i) (h ! par i)"
  shows "up_ok (swap i (par i) h) (par i)"
proof -
  have il: "i < length h" and pl: "par i < length h"
    using ok par_less[OF i] by (auto simp: up_ok_def)
  have ord: "\<not> node_less (h ! j) (h ! par j)" if "0 < j" "j < length h" "j \<noteq> i" for j
    using ok that by (auto simp: up_ok_def)
  have gp: "\<not> node_less (h ! j) (h ! par i)" if "0 < j" "j < length h" "par j = i" for j
    using ok that i by (auto simp: up_ok_def)
  note nth = nth_swap[OF il pl]
  have A: "\<not> node_less (swap i (par i) h ! j) (swap i (par i) h ! par j)"
    if j: "0 < j" "j < length h" "j \<noteq> par i" for j
  proof -
    have pj: "par j < length h" "par j \<noteq> j" using par_less[OF j(1)] j(2) by auto
    consider "j = i" | "j \<noteq> i" "par j = i" | "j \<noteq> i" "par j = par i" | "j \<noteq> i" "par j \<noteq> i" "par j \<noteq> par i"
      by blast
    then show ?thesis
    proof cases
      case 1
      with l pj show ?thesis by (simp add: nth il pl node_less_asym)
    next
      case 2
      with gp[OF j(1,2)] j pj show ?thesis by (simp add: nth pl)
    next
      case 3
      have "\<not> node_less (h ! j) (h ! i)"
        using ord[OF j(1,2) 3(1)] l 3(2) node_le_trans node_less_asym by metis
      with 3 j pj par_less[OF i] show ?thesis by (simp add: nth pl)
    next
      case 4
      with ord[OF j(1,2)] j pj show ?thesis by (simp add: nth)
    qed
  qed
  have B: "\<not> node_less (swap i (par i) h ! j) (swap i (par i) h ! par (par i))"
    if j: "0 < j" "j < length h" "par j = par i" "0 < par i" for j
  proof -
    have pp: "par (par i) < length h" "par (par i) \<noteq> par i" "par (par i) \<noteq> i"
      using par_less[OF j(4)] par_less[OF i] il by auto
    have top: "\<not> node_less (h ! par i) (h ! par (par i))" using ord[of "par i"] j(4) pl par_less[OF i] by auto
    have "j \<noteq> par i" using par_less[OF j(1)] j(3) by auto
    show ?thesis
    proof (cases "j = i")
      case True
      with top pp il show ?thesis by (simp add: nth)
    next
      case False
      with node_le_trans[OF top] ord[OF j(1,2) False] j pp \<open>j \<noteq> par i\<close> show ?thesis by (simp add: nth)
    qed
  qed
  from A B pl show ?thesis by (auto simp: up_ok_def)
qed

lemma sift_up_ok: "up_ok h i \<Longrightarrow> heap_ok (sift_up h i) \<and> mset (sift_up h i) = mset h"
proof (induction h i rule: sift_up.induct)
  case (1 h i)
  have il: "i < length h" using "1.prems" by (simp add: up_ok_def)
  show ?case
  proof (cases "0 < i \<and> node_less (h ! i) (h ! par i)")
    case True
    then have i: "0 < i" and l: "node_less (h ! i) (h ! ((i - 1) div 2))" by (auto simp: par_def)
    from up_ok_swap[OF "1.prems" i] True have "up_ok (swap i (par i) h) (par i)" by blast
    with "1.IH"[OF i refl] l have "heap_ok (sift_up (swap i (par i) h) (par i))
        \<and> mset (sift_up (swap i (par i) h) (par i)) = mset (swap i (par i) h)"
      by (simp add: par_def)
    moreover have "sift_up h i = sift_up (swap i (par i) h) (par i)"
      using i l by (subst sift_up.simps) (simp add: par_def Let_def)
    ultimately show ?thesis using il par_less[OF i] by simp
  next
    case False
    then have "sift_up h i = h" by (subst sift_up.simps) (auto simp: par_def)
    moreover have "heap_ok h" unfolding heap_ok_def
    proof (intro allI impI)
      fix j assume "0 < j" "j < length h"
      with "1.prems" False show "\<not> node_less (h ! j) (h ! par j)"
        by (cases "j = i") (auto simp: up_ok_def)
    qed
    ultimately show ?thesis by simp
  qed
qed

lemma push_ok:
  assumes "heap_ok h"
  shows "heap_ok (heap_push n h) \<and> mset (heap_push n h) = add_mset n (mset h)"
proof -
  have "up_ok (h @ [n]) (length h)"
    unfolding up_ok_def
  proof (intro conjI allI impI)
    fix j assume j: "0 < j" "j < length (h @ [n])" "j \<noteq> length h"
    then have "par j < length h" using par_less[of j] by simp
    with assms j show "\<not> node_less ((h @ [n]) ! j) ((h @ [n]) ! par j)"
      by (auto simp: heap_ok_def nth_append)
  next
    fix j assume "0 < j" "j < length (h @ [n])" "par j = length h"
    then show "\<not> node_less ((h @ [n]) ! j) ((h @ [n]) ! par (length h))" using par_less[of j] by simp
  qed simp
  from sift_up_ok[OF this] show ?thesis by (simp add: heap_push_def)
qed

lemma smallest_of_least:
  assumes "smallest_of h i n = s"
  shows "\<not> node_less (h ! i) (h ! s)"
    and "2 * i + 1 < n \<Longrightarrow> \<not> node_less (h ! (2 * i + 1)) (h ! s)"
    and "2 * i + 2 < n \<Longrightarrow> \<not> node_less (h ! (2 * i + 2)) (h ! s)"
    and "s = i \<or> (s < n \<and> (s = 2 * i + 1 \<or> s = 2 * i + 2))"
    and "s \<noteq> i \<Longrightarrow> node_less (h ! s) (h ! i)"
proof -
  define m where "m = (if 2 * i + 1 < n \<and> node_less (h ! (2 * i + 1)) (h ! i) then 2 * i + 1 else i)"
  have s: "s = (if 2 * i + 2 < n \<and> node_less (h ! (2 * i + 2)) (h ! m) then 2 * i + 2 else m)"
    using assms unfolding smallest_of_def m_def Let_def by (rule sym)
  have mi: "\<not> node_less (h ! i) (h ! m)"
    and ml: "2 * i + 1 < n \<Longrightarrow> \<not> node_less (h ! (2 * i + 1)) (h ! m)"
    by (simp_all add: m_def node_less_asym)
  have sm: "\<not> node_less (h ! m) (h ! s)"
    by (simp add: s node_less_asym)
  show "\<not> node_less (h ! i) (h ! s)" by (rule node_le_trans[OF sm mi])
  show "\<not> node_less (h ! (2 * i + 1)) (h ! s)" if "2 * i + 1 < n"
    by (rule node_le_trans[OF sm ml[OF that]])
  show "\<not> node_less (h ! (2 * i + 2)) (h ! s)" if "2 * i + 2 < n"
    using that by (simp add: s)
  show "s = i \<or> (s < n \<and> (s = 2 * i + 1 \<or> s = 2 * i + 2))"
    by (simp add: s m_def)
  show "node_less (h ! s) (h ! i)" if "s \<noteq> i"
  proof (cases "s = m")
    case True
    with that show ?thesis by (simp add: m_def split: if_splits)
  next
    case False
    then have "node_less (h ! s) (h ! m)" by (simp add: s split: if_splits)
    with mi show ?thesis using node_le_trans by blast
  qed
qed

lemma down_ok_swap:
  assumes ok: "down_ok h i" and s: "smallest_of h i (length h) = s" and ne: "s \<noteq> i"
    and il: "i < length h"
  shows "down_ok (swap i s h) s"
proof -
  note least = smallest_of_least[OF s]
  have sl: "s < length h" and si: "s = 2 * i + 1 \<or> s = 2 * i + 2" using least(4) ne by auto
  have ps: "par s = i" and s0: "0 < s" using si par_children[of s i] by auto
  note nth = nth_swap[OF il sl]
  have ord: "\<not> node_less (h ! j) (h ! par j)" if "0 < j" "j < length h" "par j \<noteq> i" for j
    using ok that by (auto simp: down_ok_def)
  have gp: "\<not> node_less (h ! j) (h ! par i)" if "0 < j" "j < length h" "par j = i" "0 < i" for j
    using ok that by (auto simp: down_ok_def)
  have sib: "\<not> node_less (h ! j) (h ! s)" if "0 < j" "j < length h" "par j = i" for j
    using least(2,3) that par_children[of j i] by auto
  have A: "\<not> node_less (swap i s h ! j) (swap i s h ! par j)"
    if j: "0 < j" "j < length h" "par j \<noteq> s" for j
  proof -
    have pj: "par j < length h" "par j \<noteq> j" using par_less[OF j(1)] j(2) by auto
    consider "j = s" | "j = i" | "j \<noteq> s" "j \<noteq> i" "par j = i" | "j \<noteq> s" "j \<noteq> i" "par j \<noteq> i"
      by blast
    then show ?thesis
    proof cases
      case 1
      with least(1) ps il sl ne show ?thesis by (simp add: nth)
    next
      case 2
      with gp[OF s0 sl ps] j pj il sl show ?thesis by (simp add: nth)
    next
      case 3
      with sib[OF j(1,2)] j pj il show ?thesis by (simp add: nth)
    next
      case 4
      with ord[OF j(1,2)] j pj show ?thesis by (simp add: nth)
    qed
  qed
  have B: "\<not> node_less (swap i s h ! j) (swap i s h ! par s)"
    if j: "0 < j" "j < length h" "par j = s" for j
  proof -
    have "s < j" using par_less[OF j(1)] j(3) by simp
    moreover have "i < s" using si by auto
    ultimately have "j \<noteq> i" "j \<noteq> s" by auto
    with ord[OF j(1,2)] j ps ne il sl show ?thesis by (simp add: nth)
  qed
  from A B show ?thesis by (auto simp: down_ok_def)
qed

lemma sift_down_ok:
  "down_ok h i \<Longrightarrow> i < length h \<Longrightarrow> n = length h \<Longrightarrow>
   heap_ok (sift_down h i n) \<and> mset (sift_down h i n) = mset h"
proof (induction h i n rule: sift_down.induct)
  case (1 h i n)
  define s where "s = smallest_of h i n"
  have s: "smallest_of h i (length h) = s" using "1.prems"(3) by (simp add: s_def)
  show ?case
  proof (cases "s = i")
    case True
    then have "sift_down h i n = h" by (subst sift_down.simps) (simp add: s_def)
    moreover have "heap_ok h" unfolding heap_ok_def
    proof (intro allI impI)
      fix j assume j: "0 < j" "j < length h"
      show "\<not> node_less (h ! j) (h ! par j)"
      proof (cases "par j = i")
        case True
        then have "j = 2 * i + 1 \<or> j = 2 * i + 2" using par_children[OF j(1)] by blast
        with j(2) smallest_of_least(2,3)[OF s] True \<open>s = i\<close> show ?thesis by metis
      next
        case False
        with "1.prems"(1) j show ?thesis by (simp add: down_ok_def)
      qed
    qed
    ultimately show ?thesis by simp
  next
    case False
    have sl: "s < length h" using smallest_of_least(4)[OF s] False by auto
    have "sift_down h i n = sift_down (swap i s h) s n"
      using False by (subst sift_down.simps) (simp add: s_def Let_def)
    moreover have "heap_ok (sift_down (swap i s h) s n)
        \<and> mset (sift_down (swap i s h) s n) = mset (swap i s h)"
      by (rule "1.IH") (use False sl "1.prems" down_ok_swap[OF "1.prems"(1) s False] in \<open>auto simp: s_def\<close>)
    ultimately show ?thesis using "1.prems"(2) sl by simp
  qed
qed

lemma heap_root_least: "heap_ok h \<Longrightarrow> j < length h \<Longrightarrow> \<not> node_less (h ! j) (h ! 0)"
proof (induction j rule: less_induct)
  case (less j)
  show ?case
  proof (cases "j = 0")
    case False
    with less have "\<not> node_less (h ! par j) (h ! 0)" "\<not> node_less (h ! j) (h ! par j)"
      using par_less[of j] by (auto simp: heap_ok_def)
    then show ?thesis using node_le_trans by blast
  qed simp
qed

lemma mset_pop_body:
  assumes "h \<noteq> []"
  shows "mset h = add_mset (h ! 0) (mset (take (length h - 1) (h[0 := h ! (length h - 1)])))"
proof (cases h)
  case (Cons a t)
  show ?thesis
  proof (cases t rule: rev_cases)
    case (snoc t' z)
    with Cons show ?thesis by (simp add: take_Cons' nth_append)
  qed (simp add: Cons)
qed (use assms in simp)

lemma pop_ok:
  assumes ok: "heap_ok h" and pop: "heap_pop h = Some (t, h')"
  shows "heap_ok h' \<and> mset h = add_mset t (mset h') \<and> (\<forall>y \<in># mset h. \<not> node_less y t)"
proof -
  from pop have ne: "h \<noteq> []" and t: "t = h ! 0" by (auto simp: heap_pop_def Let_def split: if_splits)
  define l where "l = length h - 1"
  define g where "g = take l (h[0 := h ! l])"
  have h': "h' = sift_down g 0 l" using pop ne by (simp add: heap_pop_def Let_def l_def g_def)
  have gl: "length g = l" by (simp add: g_def l_def)
  have g_nth: "g ! j = (if j = 0 then h ! l else h ! j)" if "j < l" for j
    using that ne by (cases j) (auto simp: g_def l_def)
  have least: "\<forall>y \<in># mset h. \<not> node_less y t"
    using heap_root_least[OF ok] by (auto simp: t in_set_conv_nth)
  have "heap_ok h' \<and> mset h' = mset g"
  proof (cases "l = 0")
    case True
    then have "g = []" using gl by simp
    moreover have "smallest_of [] 0 0 = 0" by (simp add: smallest_of_def)
    then have "sift_down [] 0 0 = []" by (subst sift_down.simps) simp
    ultimately show ?thesis using True by (simp add: h' heap_ok_def)
  next
    case False
    have "down_ok g 0" unfolding down_ok_def
    proof (intro conjI allI impI)
      fix j assume j: "0 < j" "j < length g" "par j \<noteq> 0"
      with ok show "\<not> node_less (g ! j) (g ! par j)"
        using par_less[OF j(1)] by (auto simp: g_nth gl heap_ok_def l_def)
    qed simp
    from sift_down_ok[OF this] False gl show ?thesis by (simp add: h')
  qed
  with least mset_pop_body[OF ne] show ?thesis by (simp add: t g_def l_def)
qed

interpretation node_heap: prio_queue "[] :: node_heap" heap_push heap_pop node_less mset heap_ok
proof
  show "heap_ok []" by (simp add: heap_ok_def)
  show "heap_ok q \<Longrightarrow> heap_pop q = None \<longleftrightarrow> mset q = {#}" for q
    by (simp add: heap_pop_def Let_def)
  show "heap_ok q \<Longrightarrow> heap_pop q = Some (x, q') \<Longrightarrow>
      heap_ok q' \<and> mset q = add_mset x (mset q') \<and> (\<forall>y \<in># mset q. \<not> node_less y x)" for q x q'
    by (rule pop_ok)
qed (auto simp: push_ok)

end
