(* ===== verification/Pathfinding.thy ===== *)
theory Pathfinding
  imports Node_Heap Movement
begin

section \<open>The path search\<close>

text \<open>
  Models internal/pathfinding/pathfinding.go and astar.go: A* over the eight neighbours with
  the octile heuristic, on a workspace that is reused between queries and told apart by
  generation numbers. The grid is the record of the methods of the interface Grid; the world
  is its provider. Costs are int32 with their wrap-around. The search always ends: an
  iteration either shortens the heap or uses up one of the maxNodes expansions.
\<close>

datatype path_error =
  ErrPathNotFound | ErrTargetOutOfBounds | ErrTargetNotWalkable | ErrOriginNotWalkable
| ErrPathTooLong | ErrContext

record grid =
  gr_Width :: int32
  gr_Height :: int32
  gr_InBounds :: "int32 \<Rightarrow> int32 \<Rightarrow> bool"
  gr_IsWalkable :: "int32 \<Rightarrow> int32 \<Rightarrow> bool"
  gr_MoveCostUnits :: "int32 \<Rightarrow> int32 \<Rightarrow> int32"
  gr_MinMoveCostUnits :: int32

record path_options =
  po_MaxNodes :: int
  po_MaxDistance :: int32

definition costScaleOrtho :: int32 where "costScaleOrtho = 1000"
definition costScaleDiag :: int32 where "costScaleDiag = 1414"

record astar =
  a_defaultMaxNodes :: int
  a_defaultMaxDistance :: int32

definition NewAStar :: "int \<Rightarrow> int32 \<Rightarrow> astar" where
  "NewAStar maxNodes maxDistance =
     \<lparr>a_defaultMaxNodes = (if maxNodes \<le> 0 then 50000 else maxNodes),
      a_defaultMaxDistance = (if maxDistance \<le> 0 then 256 else maxDistance)\<rparr>"

definition neighbors :: "(int32 \<times> int32) list" where
  "neighbors = [(0, -1), (1, 0), (0, 1), (-1, 0), (1, -1), (1, 1), (-1, 1), (-1, -1)]"

definition heuristic :: "tile \<Rightarrow> tile \<Rightarrow> int32 \<Rightarrow> int32" where
  "heuristic from0 to minCostUnits =
     (let dx = World.abs32 (i32 (tX to - tX from0)); dy = World.abs32 (i32 (tY to - tY from0));
          diag = (if dx < dy then dx else dy);
          straight = i32 (i32 (dx + dy) - i32 (2 * diag))
      in i32 (i32 (i32 (minCostUnits * costScaleOrtho) * straight)
            + i32 (i32 (minCostUnits * costScaleDiag) * diag)))"

definition chebyshev :: "tile \<Rightarrow> tile \<Rightarrow> int32" where
  "chebyshev a b =
     (let dx = World.abs32 (i32 (tX a - tX b)); dy = World.abs32 (i32 (tY a - tY b))
      in if dy < dx then dx else dy)"

subsection \<open>The workspace\<close>

text \<open>
  The four slices share their length and capacity: a list holds the backing array up to the
  capacity, ws_len is the length of the present reslicing.
\<close>

record workspace =
  ws_generation :: int
  ws_len :: nat
  ws_stamp :: "int list"
  ws_gScore :: "int32 list"
  ws_cameFrom :: "int32 list"
  ws_closed :: "int list"
  ws_heap :: node_heap

definition new_workspace :: workspace where
  "new_workspace = \<lparr>ws_generation = 0, ws_len = 0, ws_stamp = [], ws_gScore = [], ws_cameFrom = [],
     ws_closed = [], ws_heap = []\<rparr>"

definition reset :: "nat \<Rightarrow> workspace \<Rightarrow> workspace" where
  "reset n ws0 =
     (let ws1 = (if length (ws_stamp ws0) < n
                 then ws0\<lparr>ws_stamp := replicate n 0, ws_gScore := replicate n 0,
                        ws_cameFrom := replicate n 0, ws_closed := replicate n 0, ws_generation := 0\<rparr>
                 else ws0);
          ws2 = ws1\<lparr>ws_len := n, ws_generation := u32 (ws_generation ws1 + 1)\<rparr>;
          ws3 = (if ws_generation ws2 = 0
                 then ws2\<lparr>ws_stamp := replicate n 0 @ drop n (ws_stamp ws2),
                        ws_closed := replicate n 0 @ drop n (ws_closed ws2), ws_generation := 1\<rparr>
                 else ws2)
      in ws3\<lparr>ws_heap := []\<rparr>)"

definition setG :: "int32 \<Rightarrow> int32 \<Rightarrow> workspace \<Rightarrow> workspace" where
  "setG idx v ws = ws\<lparr>ws_stamp := (ws_stamp ws)[nat idx := ws_generation ws],
                     ws_gScore := (ws_gScore ws)[nat idx := v]\<rparr>"

definition g_of :: "workspace \<Rightarrow> int32 \<Rightarrow> int32" where
  "g_of ws idx = ws_gScore ws ! nat idx"

definition gIfSet :: "workspace \<Rightarrow> int32 \<Rightarrow> int32 option" where
  "gIfSet ws idx = (if ws_stamp ws ! nat idx \<noteq> ws_generation ws then None
                    else Some (ws_gScore ws ! nat idx))"

definition setFrom :: "int32 \<Rightarrow> int32 \<Rightarrow> workspace \<Rightarrow> workspace" where
  "setFrom idx src ws = ws\<lparr>ws_cameFrom := (ws_cameFrom ws)[nat idx := src]\<rparr>"

definition close :: "int32 \<Rightarrow> workspace \<Rightarrow> workspace" where
  "close idx ws = ws\<lparr>ws_closed := (ws_closed ws)[nat idx := ws_generation ws]\<rparr>"

definition isClosed :: "workspace \<Rightarrow> int32 \<Rightarrow> bool" where
  "isClosed ws idx \<longleftrightarrow> ws_closed ws ! nat idx = ws_generation ws"

definition ws_push :: "node \<Rightarrow> workspace \<Rightarrow> workspace" where
  "ws_push n ws = ws\<lparr>ws_heap := heap_push n (ws_heap ws)\<rparr>"

definition ws_pop :: "workspace \<Rightarrow> (node \<times> workspace) option" where
  "ws_pop ws = (case heap_pop (ws_heap ws) of None \<Rightarrow> None
                | Some (n, h) \<Rightarrow> Some (n, ws\<lparr>ws_heap := h\<rparr>))"

text \<open>The walk back over cameFrom; None when it never meets the start.\<close>

partial_function (option) walk_back ::
  "workspace \<Rightarrow> int32 \<Rightarrow> int32 \<Rightarrow> int32 \<Rightarrow> tile list option" where
  "walk_back ws startIdx width idx =
     (let t = \<lparr>tX = go_rem idx width, tY = go_div idx width\<rparr>
      in if idx = startIdx then Some [t]
         else Option.bind (walk_back ws startIdx width (ws_cameFrom ws ! nat idx)) (\<lambda>ts. Some (t # ts)))"

declare walk_back.simps [code]

definition reconstruct :: "workspace \<Rightarrow> int32 \<Rightarrow> int32 \<Rightarrow> int32 \<Rightarrow> tile list option" where
  "reconstruct ws startIdx goalIdx width = map_option rev (walk_back ws startIdx width goalIdx)"

subsection \<open>The search\<close>

definition relax ::
  "grid \<Rightarrow> tile \<Rightarrow> int32 \<Rightarrow> node \<Rightarrow> int32 \<Rightarrow> int32 \<times> int32 \<Rightarrow> workspace \<Rightarrow> workspace" where
  "relax grid to minCost cur curG d ws =
     (let nx = i32 (n_x cur + fst d); ny = i32 (n_y cur + snd d)
      in if nx < 0 \<or> ny < 0 \<or> gr_Width grid \<le> nx \<or> gr_Height grid \<le> ny then ws
      else let nIdx = i32 (i32 (ny * gr_Width grid) + nx)
      in if isClosed ws nIdx then ws
      else if \<not> gr_IsWalkable grid nx ny then ws
      else let diagonal = (fst d \<noteq> 0 \<and> snd d \<noteq> 0)
      in if diagonal \<and> (\<not> gr_IsWalkable grid (i32 (n_x cur + fst d)) (n_y cur)
                        \<or> \<not> gr_IsWalkable grid (n_x cur) (i32 (n_y cur + snd d))) then ws
      else let units = gr_MoveCostUnits grid nx ny
      in if units \<le> 0 then ws
      else let step = (if diagonal then i32 (units * costScaleDiag) else i32 (units * costScaleOrtho));
               tentative = i32 (curG + step)
      in if (case gIfSet ws nIdx of None \<Rightarrow> False | Some known \<Rightarrow> known \<le> tentative) then ws
      else let h = heuristic \<lparr>tX = nx, tY = ny\<rparr> to minCost
      in ws_push \<lparr>n_idx = nIdx, n_f = i32 (tentative + h), n_h = h, n_x = nx, n_y = ny\<rparr>
           (setFrom nIdx (n_idx cur) (setG nIdx tentative ws)))"

definition expand :: "grid \<Rightarrow> tile \<Rightarrow> int32 \<Rightarrow> node \<Rightarrow> workspace \<Rightarrow> workspace" where
  "expand grid to minCost cur ws =
     fold (relax grid to minCost cur (g_of ws (n_idx cur))) neighbors ws"

text \<open>
  The loop. The argument cancelled says, for each iteration, whether the context is done when
  it is asked in that iteration. The result is None when reconstruct does not return.
\<close>

lemma length_sift_down [simp]: "length (sift_down h i n) = length h"
proof (induction h i n rule: sift_down.induct)
  case (1 h i n)
  then show ?case by (subst sift_down.simps) (auto simp: Let_def)
qed

lemma ws_pop_length: "ws_pop ws = Some (n, ws') \<Longrightarrow> length (ws_heap ws') < length (ws_heap ws)"
  by (auto simp: ws_pop_def heap_pop_def Let_def split: if_splits)

function search ::
  "grid \<Rightarrow> tile \<Rightarrow> int \<Rightarrow> int32 \<Rightarrow> int32 \<Rightarrow> int32 \<Rightarrow> (nat \<Rightarrow> bool) \<Rightarrow> nat \<Rightarrow> int \<Rightarrow> workspace
     \<Rightarrow> (path_error + tile list) option \<times> workspace" where
  "search grid to maxNodes minCost startIdx goalIdx cancelled iter expanded ws =
     (case ws_pop ws of
        None \<Rightarrow> (Some (Err ErrPathNotFound), ws)
      | Some (cur, ws1) \<Rightarrow>
          if expanded mod 512 = 0 \<and> cancelled iter then (Some (Err ErrContext), ws)
          else if isClosed ws1 (n_idx cur)
          then search grid to maxNodes minCost startIdx goalIdx cancelled (Suc iter) expanded ws1
          else let ws2 = close (n_idx cur) ws1
          in if n_idx cur = goalIdx
             then (map_option Inr (reconstruct ws2 startIdx goalIdx (gr_Width grid)), ws2)
          else if maxNodes < expanded + 1 then (Some (Err ErrPathTooLong), ws2)
          else search grid to maxNodes minCost startIdx goalIdx cancelled (Suc iter) (expanded + 1)
                 (expand grid to minCost cur ws2))"
  by pat_completeness auto
termination
  by (relation "(\<lambda>(g, t, m, c, s, e, k, i, x, ws). nat (m - x)) <*mlex*>
        measure (\<lambda>(g, t, m, c, s, e, k, i, x, ws). length (ws_heap ws))")
     (auto simp: wf_mlex mlex_prod_def ws_pop_length)

declare search.simps [simp del]

definition FindPath ::
  "(nat \<Rightarrow> bool) \<Rightarrow> astar \<Rightarrow> grid \<Rightarrow> tile \<Rightarrow> tile \<Rightarrow> path_options \<Rightarrow> workspace
     \<Rightarrow> (path_error + tile list) option \<times> workspace" where
  "FindPath cancelled a grid from0 to opts ws =
     (let maxNodes = (if po_MaxNodes opts \<le> 0 then a_defaultMaxNodes a else po_MaxNodes opts);
          maxDistance = (if po_MaxDistance opts \<le> 0 then a_defaultMaxDistance a else po_MaxDistance opts)
      in if \<not> gr_InBounds grid (tX to) (tY to) then (Some (Err ErrTargetOutOfBounds), ws)
      else if \<not> gr_InBounds grid (tX from0) (tY from0) then (Some (Err ErrTargetOutOfBounds), ws)
      else if \<not> gr_IsWalkable grid (tX from0) (tY from0) then (Some (Err ErrOriginNotWalkable), ws)
      else if \<not> gr_IsWalkable grid (tX to) (tY to) then (Some (Err ErrTargetNotWalkable), ws)
      else if maxDistance < chebyshev from0 to then (Some (Err ErrPathTooLong), ws)
      else if from0 = to then (Some (Ok [from0]), ws)
      else let width = gr_Width grid; height = gr_Height grid;
               ws1 = reset (nat (width * height)) ws;
               minCost = (if gr_MinMoveCostUnits grid \<le> 0 then 1 else gr_MinMoveCostUnits grid);
               startIdx = i32 (i32 (tY from0 * width) + tX from0);
               goalIdx = i32 (i32 (tY to * width) + tX to);
               h = heuristic from0 to minCost;
               ws2 = ws_push \<lparr>n_idx = startIdx, n_f = h, n_h = h, n_x = tX from0, n_y = tY from0\<rparr>
                       (setFrom startIdx (-1) (setG startIdx 0 ws1))
           in search grid to maxNodes minCost startIdx goalIdx cancelled 0 0 ws2)"

definition Grid_of :: "world \<Rightarrow> grid" where
  "Grid_of w = \<lparr>gr_Width = w_width w, gr_Height = w_height w, gr_InBounds = InBounds w,
     gr_IsWalkable = IsWalkable w, gr_MoveCostUnits = MoveCostUnits w,
     gr_MinMoveCostUnits = MinMoveCostUnits w\<rparr>"

subsection \<open>The workspace as three partial maps\<close>

text \<open>Within the room of n entries the arrays behave as maps keyed by the index.\<close>

definition ws_room :: "int \<Rightarrow> workspace \<Rightarrow> bool" where
  "ws_room n ws \<longleftrightarrow> n \<le> int (length (ws_stamp ws)) \<and> n \<le> int (length (ws_gScore ws)) \<and>
     n \<le> int (length (ws_cameFrom ws)) \<and> n \<le> int (length (ws_closed ws))"

definition cameFrom :: "workspace \<Rightarrow> int32 \<Rightarrow> int32" where
  "cameFrom ws i = ws_cameFrom ws ! nat i"

lemma ws_room_ops [simp]:
  "ws_room n (setG i v ws) = ws_room n ws" "ws_room n (setFrom i v ws) = ws_room n ws"
  "ws_room n (close i ws) = ws_room n ws" "ws_room n (ws_push x ws) = ws_room n ws"
  "ws_room n (ws\<lparr>ws_heap := h\<rparr>) = ws_room n ws"
  by (simp_all add: ws_room_def setG_def setFrom_def close_def ws_push_def)

lemma ws_heap_ops [simp]:
  "ws_heap (setG i v ws) = ws_heap ws" "ws_heap (setFrom i v ws) = ws_heap ws"
  "ws_heap (close i ws) = ws_heap ws" "ws_heap (ws_push x ws) = heap_push x (ws_heap ws)"
  by (simp_all add: setG_def setFrom_def close_def ws_push_def)

lemma gIfSet_ops [simp]:
  "gIfSet (setFrom i v ws) j = gIfSet ws j" "gIfSet (close i ws) j = gIfSet ws j"
  "gIfSet (ws_push x ws) j = gIfSet ws j" "gIfSet (ws\<lparr>ws_heap := h\<rparr>) j = gIfSet ws j"
  by (simp_all add: gIfSet_def setFrom_def close_def ws_push_def)

lemma gIfSet_setG:
  "ws_room n ws \<Longrightarrow> 0 \<le> i \<Longrightarrow> i < n \<Longrightarrow> 0 \<le> j \<Longrightarrow> j < n \<Longrightarrow>
    gIfSet (setG i v ws) j = (if i = j then Some v else gIfSet ws j)"
  by (auto simp: gIfSet_def setG_def ws_room_def nth_list_update_if)

lemma isClosed_ops [simp]:
  "isClosed (setG i v ws) j = isClosed ws j" "isClosed (setFrom i v ws) j = isClosed ws j"
  "isClosed (ws_push x ws) j = isClosed ws j" "isClosed (ws\<lparr>ws_heap := h\<rparr>) j = isClosed ws j"
  by (simp_all add: isClosed_def setFrom_def setG_def ws_push_def)

lemma isClosed_close:
  "ws_room n ws \<Longrightarrow> 0 \<le> i \<Longrightarrow> i < n \<Longrightarrow> 0 \<le> j \<Longrightarrow> j < n \<Longrightarrow>
    isClosed (close i ws) j = (i = j \<or> isClosed ws j)"
  by (auto simp: isClosed_def close_def ws_room_def nth_list_update_if split: if_splits)

lemma cameFrom_ops [simp]:
  "cameFrom (setG i v ws) j = cameFrom ws j" "cameFrom (close i ws) j = cameFrom ws j"
  "cameFrom (ws_push x ws) j = cameFrom ws j" "cameFrom (ws\<lparr>ws_heap := h\<rparr>) j = cameFrom ws j"
  by (simp_all add: cameFrom_def setG_def close_def ws_push_def)

lemma cameFrom_setFrom:
  "ws_room n ws \<Longrightarrow> 0 \<le> i \<Longrightarrow> i < n \<Longrightarrow> 0 \<le> j \<Longrightarrow> j < n \<Longrightarrow>
    cameFrom (setFrom i v ws) j = (if i = j then v else cameFrom ws j)"
  by (auto simp: cameFrom_def setFrom_def ws_room_def nth_list_update_if)

lemma g_of_gIfSet: "gIfSet ws i = Some v \<Longrightarrow> g_of ws i = v"
  by (auto simp: gIfSet_def g_of_def split: if_splits)

lemma ws_pop_cases:
  assumes "heap_ok (ws_heap ws)"
  shows "case ws_pop ws of
      None \<Rightarrow> ws_heap ws = []
    | Some (c, ws1) \<Rightarrow> \<exists>h. ws1 = ws\<lparr>ws_heap := h\<rparr> \<and> heap_ok h \<and>
        mset (ws_heap ws) = add_mset c (mset h) \<and> (\<forall>y \<in> set (ws_heap ws). \<not> node_less y c)"
  using node_heap.pop_Some[OF assms] node_heap.pop_None[OF assms]
  by (auto simp: ws_pop_def split: option.splits)

text \<open>
  What the pool guarantees: the marks of a workspace are of its present generation or an
  earlier one. A reset for n tiles then leaves none of the n entries visited or closed. (When the
  generation wraps around, only the resliced part is cleared: a workspace whose capacity is
  that of the query keeps the guarantee for ever, which is the case of a server of one world.)
\<close>

definition ws_ok :: "nat \<Rightarrow> workspace \<Rightarrow> bool" where
  "ws_ok n ws \<longleftrightarrow> 0 \<le> ws_generation ws \<and> ws_generation ws \<le> 4294967295 \<and>
     (length (ws_stamp ws) = 0 \<or> length (ws_stamp ws) = n) \<and>
     length (ws_gScore ws) = length (ws_stamp ws) \<and> length (ws_cameFrom ws) = length (ws_stamp ws) \<and>
     length (ws_closed ws) = length (ws_stamp ws) \<and>
     (\<forall>s \<in> set (ws_stamp ws). 0 \<le> s \<and> s \<le> ws_generation ws) \<and>
     (\<forall>s \<in> set (ws_closed ws). 0 \<le> s \<and> s \<le> ws_generation ws)"

lemma ws_ok_new [simp]: "ws_ok n new_workspace"
  by (simp add: ws_ok_def new_workspace_def)

lemma ws_ok_reset:
  assumes "ws_ok n ws"
  shows "ws_ok n (reset n ws)" and "ws_room (int n) (reset n ws)" and "ws_heap (reset n ws) = []"
    and "0 \<le> i \<Longrightarrow> i < int n \<Longrightarrow> gIfSet (reset n ws) i = None \<and> \<not> isClosed (reset n ws) i"
    and "0 < ws_generation (reset n ws)"
proof -
  define w1 where "w1 = (if length (ws_stamp ws) < n
      then ws\<lparr>ws_stamp := replicate n 0, ws_gScore := replicate n 0,
             ws_cameFrom := replicate n 0, ws_closed := replicate n 0, ws_generation := 0\<rparr> else ws)"
  define g where "g = u32 (ws_generation w1 + 1)"
  have w1: "length (ws_stamp w1) = n" "length (ws_gScore w1) = n" "length (ws_cameFrom w1) = n"
    "length (ws_closed w1) = n" "0 \<le> ws_generation w1" "ws_generation w1 \<le> 4294967295"
    "\<forall>s \<in> set (ws_stamp w1). 0 \<le> s \<and> s \<le> ws_generation w1"
    "\<forall>s \<in> set (ws_closed w1). 0 \<le> s \<and> s \<le> ws_generation w1"
    using assms by (auto simp: w1_def ws_ok_def)
  have g: "g = (if ws_generation w1 = 4294967295 then 0 else ws_generation w1 + 1)"
    using w1(5,6) by (auto simp: g_def u32_def)
  have r: "reset n ws = (if g = 0
      then w1\<lparr>ws_len := n, ws_generation := 1, ws_heap := [], ws_stamp := replicate n 0, ws_closed := replicate n 0\<rparr>
      else w1\<lparr>ws_len := n, ws_generation := g, ws_heap := []\<rparr>)"
    unfolding reset_def Let_def w1_def[symmetric] by (simp add: g_def w1)
  show "ws_ok n (reset n ws)"
  proof (cases "g = 0")
    case False
    then have "g = ws_generation w1 + 1" using g by (auto split: if_splits)
    moreover have "ws_generation w1 + 1 \<le> 4294967295"
      using g w1(6) False by (auto split: if_splits)
    ultimately show ?thesis using w1 False by (auto simp: r ws_ok_def)
  qed (use w1 in \<open>simp add: r ws_ok_def\<close>)
  show "ws_room (int n) (reset n ws)" using w1 by (simp add: r ws_room_def)
  show "ws_heap (reset n ws) = []" by (simp add: r)
  show "0 < ws_generation (reset n ws)" using w1 g by (simp add: r)
  show "gIfSet (reset n ws) i = None \<and> \<not> isClosed (reset n ws) i" if i: "0 \<le> i" "i < int n"
  proof (cases "g = 0")
    case True
    with i show ?thesis by (simp add: r gIfSet_def isClosed_def nat_less_iff)
  next
    case False
    have k: "nat i < n" using i by linarith
    have "ws_stamp w1 ! nat i \<le> ws_generation w1" using w1(7) nth_mem[of "nat i" "ws_stamp w1"] k w1(1) by auto
    moreover have "ws_closed w1 ! nat i \<le> ws_generation w1"
      using w1(8) nth_mem[of "nat i" "ws_closed w1"] k w1(4) by auto
    moreover have "g = ws_generation w1 + 1" using False g by (auto split: if_splits)
    ultimately show ?thesis using False by (simp add: r gIfSet_def isClosed_def)
  qed
qed

lemma ws_ok_ops:
  assumes "ws_ok n ws" "0 < ws_generation ws"
  shows "ws_ok n (setG i v ws)" "ws_ok n (setFrom i v ws)" "ws_ok n (close i ws)" "ws_ok n (ws_push x ws)"
    "ws_ok n (ws\<lparr>ws_heap := h\<rparr>)"
  using assms by (auto simp: ws_ok_def setG_def setFrom_def close_def ws_push_def
      dest!: set_update_subset_insert[THEN subsetD])

subsection \<open>Routes\<close>

abbreviation wk :: "(int32 \<Rightarrow> int32 \<Rightarrow> bool) \<Rightarrow> tile \<Rightarrow> bool" where
  "wk W t \<equiv> W (tX t) (tY t)"

definition legal :: "(int32 \<Rightarrow> int32 \<Rightarrow> bool) \<Rightarrow> tile \<Rightarrow> tile \<Rightarrow> bool" where
  "legal W p q \<longleftrightarrow> wk W p \<and> wk W q \<and> IsAdjacent p q \<and>
     (IsDiagonalTo p q \<longrightarrow> W (tX p) (tY q) \<and> W (tX q) (tY p))"

definition step_cost :: "(int32 \<Rightarrow> int32 \<Rightarrow> int32) \<Rightarrow> tile \<Rightarrow> tile \<Rightarrow> int" where
  "step_cost C p q = C (tX q) (tY q) * (if IsDiagonalTo p q then costScaleDiag else costScaleOrtho)"

text \<open>A route is what the search promises: walkable tiles, each next to the previous, no corner cut.\<close>

definition route :: "(int32 \<Rightarrow> int32 \<Rightarrow> bool) \<Rightarrow> tile list \<Rightarrow> bool" where
  "route W ts \<longleftrightarrow> ts \<noteq> [] \<and> contiguous ts \<and> corner_free W ts \<and> (\<forall>t \<in> set ts. wk W t)"

fun route_cost :: "(int32 \<Rightarrow> int32 \<Rightarrow> int32) \<Rightarrow> tile list \<Rightarrow> int" where
  "route_cost C (a # b # ts) = step_cost C a b + route_cost C (b # ts)"
| "route_cost C ts = 0"

lemma route_single [simp]: "route W [t] = wk W t"
  by (simp add: route_def)

lemma route_Cons2: "route W (a # b # ts) \<longleftrightarrow> legal W a b \<and> route W (b # ts)"
  by (auto simp: route_def legal_def)

lemma route_snoc: "ts \<noteq> [] \<Longrightarrow> route W (ts @ [q]) \<longleftrightarrow> route W ts \<and> legal W (last ts) q"
proof (induction ts)
  case (Cons a ts)
  then show ?case by (cases ts) (auto simp: route_Cons2, auto simp: legal_def)
qed simp

lemma route_cost_snoc: "ts \<noteq> [] \<Longrightarrow> route_cost C (ts @ [q]) = route_cost C ts + step_cost C (last ts) q"
proof (induction ts)
  case (Cons a ts)
  then show ?case by (cases ts) auto
qed simp

text \<open>Position of a tile in the arrays of the workspace.\<close>

definition ix :: "int32 \<Rightarrow> tile \<Rightarrow> int32" where
  "ix width t = tY t * width + tX t"

abbreviation node_tile :: "node \<Rightarrow> tile" where
  "node_tile c \<equiv> \<lparr>tX = n_x c, tY = n_y c\<rparr>"

definition shift :: "tile \<Rightarrow> int32 \<times> int32 \<Rightarrow> tile" where
  "shift t d = \<lparr>tX = tX t + fst d, tY = tY t + snd d\<rparr>"

lemma shift_sel [simp]: "tX (shift t d) = tX t + fst d" "tY (shift t d) = tY t + snd d"
  by (simp_all add: shift_def)

definition open_node :: "int32 \<Rightarrow> tile \<Rightarrow> int32 \<Rightarrow> tile \<Rightarrow> int32 \<Rightarrow> node" where
  "open_node width to mc q g = \<lparr>n_idx = ix width q, n_f = i32 (g + heuristic q to mc), n_h = heuristic q to mc,
     n_x = tX q, n_y = tY q\<rparr>"

definition reach_tile :: "int32 \<Rightarrow> tile \<Rightarrow> int32 \<Rightarrow> node \<Rightarrow> tile \<Rightarrow> int32 \<Rightarrow> workspace \<Rightarrow> workspace" where
  "reach_tile width to mc cur q g ws =
     ws_push (open_node width to mc q g) (setFrom (ix width q) (n_idx cur) (setG (ix width q) g ws))"

lemma set_neighbors: "set neighbors = {d. \<bar>fst d\<bar> \<le> 1 \<and> \<bar>snd d\<bar> \<le> 1 \<and> (fst d \<noteq> 0 \<or> snd d \<noteq> 0)}"
proof
  show "set neighbors \<subseteq> {d. \<bar>fst d\<bar> \<le> 1 \<and> \<bar>snd d\<bar> \<le> 1 \<and> (fst d \<noteq> 0 \<or> snd d \<noteq> 0)}"
    by (auto simp: neighbors_def)
  show "{d. \<bar>fst d\<bar> \<le> 1 \<and> \<bar>snd d\<bar> \<le> 1 \<and> (fst d \<noteq> 0 \<or> snd d \<noteq> 0)} \<subseteq> set neighbors"
  proof
    fix d :: "int \<times> int"
    assume d: "d \<in> {d. \<bar>fst d\<bar> \<le> 1 \<and> \<bar>snd d\<bar> \<le> 1 \<and> (fst d \<noteq> 0 \<or> snd d \<noteq> 0)}"
    then have "fst d = -1 \<or> fst d = 0 \<or> fst d = 1" "snd d = -1 \<or> snd d = 0 \<or> snd d = 1" by auto
    with d show "d \<in> set neighbors" by (cases d) (auto simp: neighbors_def)
  qed
qed

definition grid_view ::
  "int32 \<Rightarrow> int32 \<Rightarrow> (int32 \<Rightarrow> int32 \<Rightarrow> bool) \<Rightarrow> (int32 \<Rightarrow> int32 \<Rightarrow> int32) \<Rightarrow> int32 \<Rightarrow> grid" where
  "grid_view width height walkable cost mc =
     \<lparr>gr_Width = width, gr_Height = height,
      gr_InBounds = (\<lambda>x y. 0 \<le> x \<and> 0 \<le> y \<and> x < width \<and> y < height),
      gr_IsWalkable = walkable, gr_MoveCostUnits = cost, gr_MinMoveCostUnits = mc\<rparr>"

lemma Grid_of_view:
  "Grid_of w = grid_view (w_width w) (w_height w) (IsWalkable w) (MoveCostUnits w) (MinMoveCostUnits w)"
  by (auto simp: Grid_of_def grid_view_def InBounds_def fun_eq_iff)

definition fits :: "int32 \<Rightarrow> int32 \<Rightarrow> bool" where
  "fits width height \<longleftrightarrow> 0 < width \<and> 0 < height \<and> width * height \<le> 2147483647"

context path_grid
begin

lemma fits_dims: "fits width height \<Longrightarrow> width \<le> 2147483647 \<and> height \<le> 2147483647"
proof -
  assume "fits width height"
  then have *: "0 < width" "0 < height" "width * height \<le> 2147483647" by (simp_all add: fits_def)
  have "width * 1 \<le> width * height" "1 * height \<le> width * height"
    using * by (intro mult_mono; simp)+
  then show ?thesis using *(3) by linarith
qed

lemma ix_bounds:
  assumes "fits width height" "wk walkable p"
  shows "0 \<le> ix width p" "ix width p < width * height" "0 \<le> tY p * width" "tY p * width \<le> 2147483647"
proof -
  from walkable_in_grid[OF assms(2)] have p: "0 \<le> tX p" "tX p < width" "0 \<le> tY p" "tY p < height" by auto
  from p row_idx_less[OF this] show "0 \<le> ix width p" "ix width p < width * height"
    by (simp_all add: ix_def row_idx_def zless_nat_conj)
  show "0 \<le> tY p * width" using p by simp
  from p have "tY p * width \<le> height * width" by (intro mult_right_mono) auto
  also have "\<dots> \<le> 2147483647" using assms(1) by (simp add: fits_def mult.commute)
  finally show "tY p * width \<le> 2147483647" .
qed

lemma ix_inj:
  assumes "wk walkable p" "wk walkable q" "ix width p = ix width q"
  shows "p = q"
proof -
  from walkable_in_grid[OF assms(1)] walkable_in_grid[OF assms(2)] assms(3)
  have "tX p = tX q \<and> tY p = tY q"
    by (intro row_idx_inj[where w = width]) (auto simp: ix_def row_idx_def)
  then show ?thesis by simp
qed

lemma ix_code:
  assumes "fits width height" "wk walkable p"
  shows "i32 (i32 (tY p * width) + tX p) = ix width p"
  using ix_bounds[OF assms] assms(1) by (simp add: i32_id ix_def fits_def)

lemma ix_div_rem:
  assumes "wk walkable p"
  shows "go_rem (ix width p) width = tX p" "go_div (ix width p) width = tY p"
proof -
  from walkable_in_grid[OF assms] have p: "0 \<le> tX p" "tX p < width" "0 \<le> tY p" by auto
  then have "0 \<le> ix width p" "0 < width" by (simp_all add: ix_def)
  then show "go_rem (ix width p) width = tX p" "go_div (ix width p) width = tY p"
    using p by (simp_all add: go_rem_nonneg go_div_nonneg, simp_all add: ix_def)
qed

lemma adjacent_neighbors:
  assumes "fits width height" "wk walkable p" "wk walkable q"
  shows "IsAdjacent p q \<longleftrightarrow> (tX q - tX p, tY q - tY p) \<in> set neighbors"
proof -
  from walkable_in_grid[OF assms(2)] walkable_in_grid[OF assms(3)] fits_dims[OF assms(1)]
  have i: "i32 (tX p - tX q) = tX p - tX q" "i32 (tY p - tY q) = tY p - tY q"
    "World.abs32 (tX p - tX q) = \<bar>tX p - tX q\<bar>" "World.abs32 (tY p - tY q) = \<bar>tY p - tY q\<bar>"
    by (auto simp: World.abs32_def go_arith)
  have "IsAdjacent p q \<longleftrightarrow> \<bar>tX p - tX q\<bar> \<le> 1 \<and> \<bar>tY p - tY q\<bar> \<le> 1 \<and> (tX p \<noteq> tX q \<or> tY p \<noteq> tY q)"
    unfolding IsAdjacent_def Let_def i by auto
  also have "\<dots> \<longleftrightarrow> (tX q - tX p, tY q - tY p) \<in> set neighbors"
    unfolding set_neighbors by simp linarith
  finally show ?thesis .
qed

lemma relax_eq:
  assumes fit: "fits width height" and c: "wk walkable (node_tile cur)" and d: "d \<in> set neighbors"
    and q: "q = shift (node_tile cur) d" and tent: "tent = i32 (curG + i32 (step_cost cost (node_tile cur) q))"
  shows "relax (grid_view width height walkable cost min_cost) to mc cur curG d ws =
    (if legal walkable (node_tile cur) q \<and> \<not> isClosed ws (ix width q) \<and>
        \<not> (\<exists>k. gIfSet ws (ix width q) = Some k \<and> k \<le> tent)
     then reach_tile width to mc cur q tent ws else ws)"
proof -
  from walkable_in_grid[OF c] fits_dims[OF fit] d
  have i: "i32 (n_x cur + fst d) = tX q" "i32 (n_y cur + snd d) = tY q"
    unfolding q neighbors_def by (auto simp: go_arith)
  have diag: "(fst d \<noteq> 0 \<and> snd d \<noteq> 0) = IsDiagonalTo (node_tile cur) q"
    by (auto simp: IsDiagonalTo_def q)
  have dd: "d = (tX q - tX (node_tile cur), tY q - tY (node_tile cur))" by (simp add: q)
  show ?thesis
  proof (cases "wk walkable q")
    case False
    then show ?thesis unfolding relax_def by (auto simp: Let_def i legal_def grid_view_def)
  next
    case True
    have adj: "IsAdjacent (node_tile cur) q" using adjacent_neighbors[OF fit c True] d dd by simp
    have b: "\<not> (tX q < 0 \<or> tY q < 0 \<or> width \<le> tX q \<or> height \<le> tY q)"
      using walkable_in_grid[OF True] by auto
    have u: "\<not> cost (tX q) (tY q) \<le> 0" using cost_pos[OF True] by simp
    have lg: "legal walkable (node_tile cur) q \<longleftrightarrow>
      \<not> (IsDiagonalTo (node_tile cur) q \<and> (\<not> walkable (tX q) (n_y cur) \<or> \<not> walkable (n_x cur) (tY q)))"
      using True c adj by (auto simp: legal_def)
    have eta: "mk_tile (tX q) (tY q) = q" by simp
    have kn: "(case gIfSet ws (ix width q) of None \<Rightarrow> False | Some known \<Rightarrow> known \<le> tent) =
      (\<exists>k. gIfSet ws (ix width q) = Some k \<and> k \<le> tent)" by (simp split: option.split)
    show ?thesis
    proof (cases "IsDiagonalTo (node_tile cur) q")
      case d: True
      then have t: "i32 (curG + i32 (cost (tX q) (tY q) * costScaleDiag)) = tent"
        by (simp add: tent step_cost_def)
      note kn' = kn[folded t]
      show ?thesis unfolding relax_def Let_def i diag grid_view_def grid.simps
        using True b u lg by (auto simp add: d eta kn' ix_code[OF fit True] reach_tile_def open_node_def t)
    next
      case d: False
      then have t: "i32 (curG + i32 (cost (tX q) (tY q) * costScaleOrtho)) = tent"
        by (simp add: tent step_cost_def)
      note kn' = kn[folded t]
      show ?thesis unfolding relax_def Let_def i diag grid_view_def grid.simps
        using True b u lg by (auto simp add: d eta kn' ix_code[OF fit True] reach_tile_def open_node_def t)
    qed
  qed
qed

end

subsection \<open>The invariant of the search\<close>

text \<open>
  traced: following cameFrom from p leads back to s through closed tiles. The invariant: every
  heap entry is a visited walkable tile; a visited tile that is not closed is in the heap; a
  closed tile is visited and so are its legal successors, those in E excepted; every visited
  tile is traced; and the start is closed as soon as anything is.
\<close>

inductive traced ::
  "(int32 \<Rightarrow> int32 \<Rightarrow> bool) \<Rightarrow> int32 \<Rightarrow> tile \<Rightarrow> workspace \<Rightarrow> tile \<Rightarrow> tile list \<Rightarrow> bool"
  for W width s ws where
  traced_start: "wk W s \<Longrightarrow> traced W width s ws s [s]"
| traced_step: "traced W width s ws u ts \<Longrightarrow> isClosed ws (ix width u) \<Longrightarrow> legal W u p \<Longrightarrow>
    cameFrom ws (ix width p) = ix width u \<Longrightarrow> p \<noteq> s \<Longrightarrow> traced W width s ws p (ts @ [p])"

lemma traced_route: "traced W width s ws p ts \<Longrightarrow> route W ts \<and> hd ts = s \<and> last ts = p"
proof (induction rule: traced.induct)
  case (traced_step u ts p)
  then have "ts \<noteq> []" by (auto simp: route_def)
  with traced_step show ?case by (simp add: route_snoc)
qed simp

lemma traced_mono:
  assumes "traced W width s ws p ts"
    and "\<And>u. wk W u \<Longrightarrow> isClosed ws (ix width u) \<Longrightarrow>
      isClosed ws' (ix width u) \<and> cameFrom ws' (ix width u) = cameFrom ws (ix width u)"
    and "cameFrom ws' (ix width p) = cameFrom ws (ix width p)"
  shows "traced W width s ws' p ts"
  using assms(1,3)
proof (induction rule: traced.induct)
  case (traced_step u ts p)
  have "wk W u" using traced_step.hyps(3) by (simp add: legal_def)
  with assms(2)[of u] traced_step show ?case by (auto intro: traced.traced_step)
qed (auto intro: traced.intros)

definition heap_inv :: "(int32 \<Rightarrow> int32 \<Rightarrow> bool) \<Rightarrow> int32 \<Rightarrow> workspace \<Rightarrow> bool" where
  "heap_inv W width ws \<longleftrightarrow> heap_ok (ws_heap ws) \<and>
     (\<forall>c \<in> set (ws_heap ws). wk W (node_tile c) \<and> n_idx c = ix width (node_tile c) \<and> gIfSet ws (n_idx c) \<noteq> None)"

definition frontier_inv :: "(int32 \<Rightarrow> int32 \<Rightarrow> bool) \<Rightarrow> int32 \<Rightarrow> workspace \<Rightarrow> bool" where
  "frontier_inv W width ws \<longleftrightarrow>
     (\<forall>p. wk W p \<longrightarrow> gIfSet ws (ix width p) \<noteq> None \<longrightarrow> \<not> isClosed ws (ix width p) \<longrightarrow>
        (\<exists>c \<in> set (ws_heap ws). node_tile c = p))"

definition closed_inv :: "(int32 \<Rightarrow> int32 \<Rightarrow> bool) \<Rightarrow> int32 \<Rightarrow> (tile \<times> tile) set \<Rightarrow> workspace \<Rightarrow> bool" where
  "closed_inv W width E ws \<longleftrightarrow>
     (\<forall>p. wk W p \<longrightarrow> isClosed ws (ix width p) \<longrightarrow> gIfSet ws (ix width p) \<noteq> None) \<and>
     (\<forall>p q. isClosed ws (ix width p) \<longrightarrow> legal W p q \<longrightarrow> (p, q) \<notin> E \<longrightarrow> gIfSet ws (ix width q) \<noteq> None)"

definition trace_inv :: "(int32 \<Rightarrow> int32 \<Rightarrow> bool) \<Rightarrow> int32 \<Rightarrow> tile \<Rightarrow> workspace \<Rightarrow> bool" where
  "trace_inv W width s ws \<longleftrightarrow> gIfSet ws (ix width s) \<noteq> None \<and>
     (\<forall>p. wk W p \<longrightarrow> gIfSet ws (ix width p) \<noteq> None \<longrightarrow> (\<exists>ts. traced W width s ws p ts)) \<and>
     (isClosed ws (ix width s) \<or>
       (\<forall>p. wk W p \<longrightarrow> \<not> isClosed ws (ix width p)) \<and> (\<forall>c \<in> set (ws_heap ws). node_tile c = s))"

definition search_inv ::
  "(int32 \<Rightarrow> int32 \<Rightarrow> bool) \<Rightarrow> int32 \<Rightarrow> int32 \<Rightarrow> tile \<Rightarrow> (tile \<times> tile) set \<Rightarrow> workspace \<Rightarrow> bool" where
  "search_inv W width height s E ws \<longleftrightarrow> ws_room (width * height) ws \<and> heap_inv W width ws \<and>
     frontier_inv W width ws \<and> closed_inv W width E ws \<and> trace_inv W width s ws"

lemma set_heap_push: "heap_ok h \<Longrightarrow> set (heap_push n h) = insert n (set h)"
  using push_ok[of h n] by (metis set_mset_add_mset_insert set_mset_mset)

context path_grid
begin

lemma traced_walk_back:
  "traced walkable width s ws p ts \<Longrightarrow>
    wk walkable p \<and> walk_back ws (ix width s) width (ix width p) = Some (rev ts)"
proof (induction rule: traced.induct)
  case traced_start
  then show ?case by (subst walk_back.simps) (simp add: ix_div_rem)
next
  case (traced_step u ts p)
  have p: "wk walkable p" "wk walkable s"
    using traced_step.hyps(3) traced_route[OF traced_step.hyps(1)] by (auto simp: legal_def route_def)
  then have "ix width p \<noteq> ix width s" using ix_inj traced_step.hyps(5) by blast
  with traced_step p show ?case
    by (subst walk_back.simps) (simp add: ix_div_rem cameFrom_def[symmetric])
qed

text \<open>What reaching the tile q from cur changes.\<close>

lemma reach_tile_view:
  assumes "fits width height" "ws_room (width * height) ws" "wk walkable q" "wk walkable p"
  shows "gIfSet (reach_tile width to mc cur q g ws) (ix width p) = (if p = q then Some g else gIfSet ws (ix width p))"
    and "isClosed (reach_tile width to mc cur q g ws) (ix width p) = isClosed ws (ix width p)"
    and "cameFrom (reach_tile width to mc cur q g ws) (ix width p) =
      (if p = q then n_idx cur else cameFrom ws (ix width p))"
proof -
  have eq: "ix width q = ix width p \<longleftrightarrow> p = q" using ix_inj assms(3,4) by blast
  note b = ix_bounds[OF assms(1,3)] ix_bounds[OF assms(1,4)]
  show "gIfSet (reach_tile width to mc cur q g ws) (ix width p) = (if p = q then Some g else gIfSet ws (ix width p))"
    using gIfSet_setG[OF assms(2), of "ix width q" "ix width p" g] b by (simp add: reach_tile_def eq)
  show "isClosed (reach_tile width to mc cur q g ws) (ix width p) = isClosed ws (ix width p)"
    by (simp add: reach_tile_def)
  have r: "ws_room (width * height) (setG (ix width q) g ws)" using assms(2) by simp
  show "cameFrom (reach_tile width to mc cur q g ws) (ix width p) =
      (if p = q then n_idx cur else cameFrom ws (ix width p))"
    using cameFrom_setFrom[OF r, of "ix width q" "ix width p" "n_idx cur"] b by (simp add: reach_tile_def eq)
qed

lemma reach_tile_inv:
  assumes inv: "search_inv walkable width height s E ws" and fit: "fits width height"
    and cur: "n_idx cur = ix width c" "isClosed ws (ix width c)" and sc: "isClosed ws (ix width s)"
    and lg: "legal walkable c q" and q: "\<not> isClosed ws (ix width q)" and s: "wk walkable s"
  shows "search_inv walkable width height s (E - {(c, q)}) (reach_tile width to mc cur q g ws)"
proof -
  let ?ws = "reach_tile width to mc cur q g ws"
  have room: "ws_room (width * height) ws" and hp: "heap_inv walkable width ws"
    and fr: "frontier_inv walkable width ws" and cl: "closed_inv walkable width E ws"
    and tr: "trace_inv walkable width s ws" using inv by (auto simp: search_inv_def)
  have wq: "wk walkable q" and wc: "wk walkable c" using lg by (auto simp: legal_def)
  note view = reach_tile_view[OF fit room wq]
  have heap: "ws_heap ?ws = heap_push (open_node width to mc q g) (ws_heap ws)" by (simp add: reach_tile_def)
  have ok: "heap_ok (ws_heap ws)" using hp by (simp add: heap_inv_def)
  have node: "node_tile (open_node width to mc q g) = q" "n_idx (open_node width to mc q g) = ix width q"
    "n_x (open_node width to mc q g) = tX q" "n_y (open_node width to mc q g) = tY q"
    by (simp_all add: open_node_def)
  have "heap_inv walkable width ?ws"
    using hp wq push_ok[OF ok] by (auto simp: heap_inv_def heap set_heap_push[OF ok] node view)
  moreover have "frontier_inv walkable width ?ws"
    unfolding frontier_inv_def
  proof (intro allI impI)
    fix p assume p: "wk walkable p" "gIfSet ?ws (ix width p) \<noteq> None" "\<not> isClosed ?ws (ix width p)"
    show "\<exists>c \<in> set (ws_heap ?ws). node_tile c = p"
    proof (cases "p = q")
      case False
      with fr p show ?thesis by (auto simp: frontier_inv_def view heap set_heap_push[OF ok])
    qed (use node in \<open>auto simp: heap set_heap_push[OF ok]\<close>)
  qed
  moreover have "closed_inv walkable width (E - {(c, q)}) ?ws"
    using cl by (auto simp: closed_inv_def view legal_def)
  moreover have "trace_inv walkable width s ?ws"
  proof -
    have keep: "traced walkable width s ?ws p ts"
      if "traced walkable width s ws p ts" "wk walkable p" "p \<noteq> q" for p ts
      by (rule traced_mono[OF that(1)]) (use that q in \<open>auto simp: view\<close>)
    obtain ts where ts: "traced walkable width s ws c ts"
      using tr cl cur(2) wc by (auto simp: trace_inv_def closed_inv_def)
    have "c \<noteq> q" "s \<noteq> q" using cur(2) q sc by auto
    have "traced walkable width s ?ws q (ts @ [q])"
      by (rule traced_step[OF keep[OF ts wc \<open>c \<noteq> q\<close>]]) (use lg cur \<open>s \<noteq> q\<close> wc wq in \<open>auto simp: view\<close>)
    moreover have "\<exists>ts. traced walkable width s ?ws p ts"
      if "wk walkable p" "p \<noteq> q" "gIfSet ws (ix width p) \<noteq> None" for p
      using keep that tr unfolding trace_inv_def by blast
    ultimately have "\<exists>ts. traced walkable width s ?ws p ts"
      if "wk walkable p" "gIfSet ?ws (ix width p) \<noteq> None" for p
      using that by (cases "p = q") (auto simp: view)
    with tr sc s show ?thesis by (auto simp: trace_inv_def view)
  qed
  ultimately show ?thesis using room by (simp add: search_inv_def reach_tile_def)
qed

lemma set_diff_insert: "A - {x} - f ` B = A - insert x (f ` B)"
  by blast

lemma search_inv_subset:
  assumes "search_inv walkable width height s E ws"
    and "\<And>p q. (p, q) \<in> E \<Longrightarrow> (p, q) \<notin> E' \<Longrightarrow> legal walkable p q \<Longrightarrow> gIfSet ws (ix width q) \<noteq> None"
  shows "search_inv walkable width height s E' ws"
  using assms by (fastforce simp: search_inv_def closed_inv_def)

lemma relax_inv:
  assumes inv: "search_inv walkable width height s E ws" and fit: "fits width height"
    and cur: "n_idx cur = ix width (node_tile cur)" "wk walkable (node_tile cur)"
    and d: "d \<in> set neighbors" and cc: "isClosed ws (n_idx cur)" and sc: "isClosed ws (ix width s)" and s: "wk walkable s"
    and ws': "ws' = relax (grid_view width height walkable cost min_cost) to mc cur curG d ws"
  shows "search_inv walkable width height s (E - {(node_tile cur, shift (node_tile cur) d)}) ws'
    \<and> (\<forall>p. wk walkable p \<longrightarrow> isClosed ws' (ix width p) = isClosed ws (ix width p))"
proof -
  let ?c = "node_tile cur" and ?q = "shift (node_tile cur) d"
  define tent where "tent = i32 (curG + i32 (step_cost cost ?c ?q))"
  note eq = relax_eq[OF fit cur(2) d refl tent_def, of to mc ws, folded ws']
  show ?thesis
  proof (cases "legal walkable ?c ?q \<and> \<not> isClosed ws (ix width ?q) \<and>
        \<not> (\<exists>k. gIfSet ws (ix width ?q) = Some k \<and> k \<le> tent)")
    case True
    then have "wk walkable ?q" by (simp add: legal_def)
    moreover have "ws_room (width * height) ws" using inv by (simp add: search_inv_def)
    ultimately show ?thesis using True cur cc
      by (simp add: eq reach_tile_view[OF fit] reach_tile_inv[OF inv fit cur(1) _ sc _ _ s])
  next
    case False
    have "gIfSet ws (ix width ?q) \<noteq> None" if "legal walkable ?c ?q"
      using False that inv by (auto simp: search_inv_def closed_inv_def legal_def)
    with False search_inv_subset[OF inv, of "E - {(?c, ?q)}"] show ?thesis by (auto simp: eq)
  qed
qed

lemma fold_relax_inv:
  assumes "search_inv walkable width height s E ws" "fits width height"
    and "n_idx cur = ix width (node_tile cur)" "wk walkable (node_tile cur)"
    and "set ds \<subseteq> set neighbors" "isClosed ws (n_idx cur)" "isClosed ws (ix width s)" "wk walkable s"
    and "ws' = fold (relax (grid_view width height walkable cost min_cost) to mc cur curG) ds ws"
  shows "search_inv walkable width height s (E - (\<lambda>d. (node_tile cur, shift (node_tile cur) d)) ` set ds) ws'
    \<and> (\<forall>p. wk walkable p \<longrightarrow> isClosed ws' (ix width p) = isClosed ws (ix width p))"
  using assms
proof (induction ds arbitrary: E ws)
  case (Cons d ds)
  define ws1 where "ws1 = relax (grid_view width height walkable cost min_cost) to mc cur curG d ws"
  have r: "search_inv walkable width height s (E - {(node_tile cur, shift (node_tile cur) d)}) ws1"
    "\<forall>p. wk walkable p \<longrightarrow> isClosed ws1 (ix width p) = isClosed ws (ix width p)"
    using relax_inv[OF Cons.prems(1-4) _ Cons.prems(6-8) ws1_def] Cons.prems(5) by auto
  have "isClosed ws1 (n_idx cur)" "isClosed ws1 (ix width s)" using r(2) Cons.prems(3,4,6,7,8) by auto
  from Cons.IH[OF r(1) Cons.prems(2-4) _ this Cons.prems(8)] Cons.prems(5,9) r(2) show ?case
    by (simp add: ws1_def[symmetric] set_diff_insert)
qed simp

lemma expand_inv:
  assumes inv: "search_inv walkable width height s ({node_tile cur} \<times> UNIV) ws" and fit: "fits width height"
    and cur: "n_idx cur = ix width (node_tile cur)" "wk walkable (node_tile cur)"
    and cl: "isClosed ws (n_idx cur)" "isClosed ws (ix width s)" and s: "wk walkable s"
    and ws': "ws' = expand (grid_view width height walkable cost min_cost) to mc cur ws"
  shows "search_inv walkable width height s {} ws'
    \<and> (\<forall>p. wk walkable p \<longrightarrow> isClosed ws' (ix width p) = isClosed ws (ix width p))"
proof -
  let ?c = "node_tile cur"
  from fold_relax_inv[OF inv fit cur _ cl s ws'[unfolded expand_def]]
  have f: "search_inv walkable width height s ({?c} \<times> UNIV - (\<lambda>d. (?c, shift ?c d)) ` set neighbors) ws'"
    "\<forall>p. wk walkable p \<longrightarrow> isClosed ws' (ix width p) = isClosed ws (ix width p)" by auto
  have "(?c, q) \<in> (\<lambda>d. (?c, shift ?c d)) ` set neighbors" if "legal walkable ?c q" for q
  proof -
    have "(tX q - n_x cur, tY q - n_y cur) \<in> set neighbors"
      using adjacent_neighbors[OF fit, of ?c q] that by (simp add: legal_def)
    moreover have "q = shift ?c (tX q - n_x cur, tY q - n_y cur)" by (simp add: shift_def)
    ultimately show ?thesis by (metis image_eqI)
  qed
  with f search_inv_subset[OF f(1), of "{}"] show ?thesis by blast
qed

text \<open>Taking a node out of the heap, and closing it.\<close>

lemma pop_closed_inv:
  assumes inv: "search_inv walkable width height s {} ws" and pop: "ws_pop ws = Some (cur, ws1)"
    and cl: "isClosed ws1 (n_idx cur)"
  shows "search_inv walkable width height s {} ws1"
proof -
  from inv have ok: "heap_ok (ws_heap ws)" by (simp add: search_inv_def heap_inv_def)
  from ws_pop_cases[OF ok] pop obtain h where h: "ws1 = ws\<lparr>ws_heap := h\<rparr>" "heap_ok h"
    "mset (ws_heap ws) = add_mset cur (mset h)" by auto
  have set: "set (ws_heap ws) = insert cur (set h)" using h(3) by (metis set_mset_add_mset_insert set_mset_mset)
  have ci: "n_idx cur = ix width (node_tile cur)" using inv by (auto simp: search_inv_def heap_inv_def set)
  have tr: "traced walkable width s ws1 p ts" if "traced walkable width s ws p ts" for p ts
    by (rule traced_mono[OF that]) (simp_all add: h)
  show ?thesis unfolding search_inv_def
  proof (intro conjI)
    show "frontier_inv walkable width ws1"
      using inv cl ci by (fastforce simp: search_inv_def frontier_inv_def h set)
    show "trace_inv walkable width s ws1"
      using inv tr cl ci by (fastforce simp: search_inv_def trace_inv_def h set)
  qed (use inv in \<open>auto simp: search_inv_def heap_inv_def closed_inv_def h set\<close>)
qed

lemma pop_close_inv:
  assumes inv: "search_inv walkable width height s {} ws" and pop: "ws_pop ws = Some (cur, ws1)"
    and fit: "fits width height" and s: "wk walkable s"
  shows "search_inv walkable width height s ({node_tile cur} \<times> UNIV) (close (n_idx cur) ws1)"
    and "isClosed (close (n_idx cur) ws1) (ix width s)"
    and "n_idx cur = ix width (node_tile cur)" and "wk walkable (node_tile cur)"
    and "wk walkable p \<Longrightarrow> isClosed (close (n_idx cur) ws1) (ix width p) = (p = node_tile cur \<or> isClosed ws (ix width p))"
proof -
  let ?ws = "close (n_idx cur) ws1" and ?c = "node_tile cur"
  from inv have ok: "heap_ok (ws_heap ws)" and room: "ws_room (width * height) ws"
    by (simp_all add: search_inv_def heap_inv_def)
  from ws_pop_cases[OF ok] pop obtain h where h: "ws1 = ws\<lparr>ws_heap := h\<rparr>" "heap_ok h"
    "mset (ws_heap ws) = add_mset cur (mset h)" by auto
  have set: "set (ws_heap ws) = insert cur (set h)" using h(3) by (metis set_mset_add_mset_insert set_mset_mset)
  show ci: "n_idx cur = ix width ?c" and cw: "wk walkable ?c"
    using inv by (auto simp: search_inv_def heap_inv_def set)
  have cs: "gIfSet ws (ix width ?c) \<noteq> None" using inv ci by (auto simp: search_inv_def heap_inv_def set)
  have cl: "isClosed ?ws (ix width p) = (p = ?c \<or> isClosed ws (ix width p))" if "wk walkable p" for p
  proof -
    have "ws_room (width * height) ws1" using room by (simp add: h)
    from isClosed_close[OF this, of "n_idx cur" "ix width p"] ix_bounds[OF fit cw] ix_bounds[OF fit that] ci
    have "isClosed ?ws (ix width p) = (ix width ?c = ix width p \<or> isClosed ws (ix width p))" by (simp add: h)
    with ix_inj[OF cw that] show ?thesis by auto
  qed
  then show "isClosed ?ws (ix width p) = (p = ?c \<or> isClosed ws (ix width p))" if "wk walkable p" using that .
  show sc: "isClosed ?ws (ix width s)"
    using inv cl[OF s] by (auto simp: search_inv_def trace_inv_def set)
  have tr: "traced walkable width s ?ws p ts" if "traced walkable width s ws p ts" for p ts
    by (rule traced_mono[OF that]) (use cl in \<open>simp_all add: h\<close>)
  have view: "gIfSet ws1 i = gIfSet ws i" "ws_heap ws1 = h" for i by (simp_all add: h)
  show "search_inv walkable width height s ({?c} \<times> UNIV) ?ws" unfolding search_inv_def
  proof (intro conjI)
    show "ws_room (width * height) ?ws" using room by (simp add: h)
    show "heap_inv walkable width ?ws"
      using inv h(2) by (auto simp: search_inv_def heap_inv_def view set)
    show "frontier_inv walkable width ?ws"
      using inv by (fastforce simp: search_inv_def frontier_inv_def view cl set)
    show "closed_inv walkable width ({?c} \<times> UNIV) ?ws"
      using inv cs by (auto simp: search_inv_def closed_inv_def view cl legal_def)
    show "trace_inv walkable width s ?ws"
      using inv tr sc by (fastforce simp: search_inv_def trace_inv_def view)
  qed
qed

text \<open>With an empty heap the closed tiles are closed under legal steps.\<close>

lemma exhausted_route:
  assumes inv: "search_inv walkable width height s {} ws" and e: "ws_heap ws = []"
  shows "route walkable ts \<Longrightarrow> hd ts = s \<Longrightarrow> isClosed ws (ix width (last ts))"
proof (induction ts rule: rev_induct)
  case (snoc q ts)
  have vis: "isClosed ws (ix width p)" if "wk walkable p" "gIfSet ws (ix width p) \<noteq> None" for p
    using inv e that by (auto simp: search_inv_def frontier_inv_def)
  show ?case
  proof (cases "ts = []")
    case True
    with snoc.prems inv vis[of q] show ?thesis by (auto simp: search_inv_def trace_inv_def)
  next
    case False
    with snoc have "isClosed ws (ix width (last ts))" "legal walkable (last ts) q" by (simp_all add: route_snoc)
    with inv vis[of q] show ?thesis by (auto simp: search_inv_def closed_inv_def legal_def)
  qed
qed (simp add: route_def)

definition search_post :: "tile \<Rightarrow> tile \<Rightarrow> (path_error + tile list) option \<Rightarrow> bool" where
  "search_post s to r \<longleftrightarrow> (case r of
     None \<Rightarrow> False
   | Some (Inl e) \<Rightarrow> e \<in> {ErrPathNotFound, ErrPathTooLong, ErrContext} \<and>
       (e = ErrPathNotFound \<longrightarrow> \<not> (\<exists>ts. route walkable ts \<and> hd ts = s \<and> last ts = to))
   | Some (Inr ts) \<Rightarrow> route walkable ts \<and> hd ts = s \<and> last ts = to)"

lemma search_correct:
  assumes "grid = grid_view width height walkable cost min_cost" "startIdx = ix width s" "goalIdx = ix width to"
    and "search_inv walkable width height s {} ws" "\<not> isClosed ws goalIdx"
    and "fits width height" "wk walkable s" "wk walkable to"
  shows "search_post s to (fst (search grid to maxNodes mc startIdx goalIdx cancelled iter expanded ws))"
  using assms
proof (induction grid to maxNodes mc startIdx goalIdx cancelled iter expanded ws rule: search.induct)
  case (1 grid to maxNodes mc startIdx goalIdx cancelled iter expanded ws)
  note eqs = "1.prems"(1-3) and inv = "1.prems"(4) and ng = "1.prems"(5) and rest = "1.prems"(6-8)
  show ?case
  proof (cases "ws_pop ws")
    case None
    have "ws_heap ws = []" using None ws_pop_cases[of ws] inv by (simp add: search_inv_def heap_inv_def)
    from exhausted_route[OF inv this] ng eqs have "\<not> (\<exists>ts. route walkable ts \<and> hd ts = s \<and> last ts = to)" by blast
    with None show ?thesis by (subst search.simps) (simp add: search_post_def)
  next
    case (Some p)
    obtain cur ws1 where p: "ws_pop ws = Some (cur, ws1)" using Some by (cases p) auto
    have ws1: "isClosed ws1 i = isClosed ws i" for i
      using ws_pop_cases[of ws] inv p by (auto simp: search_inv_def heap_inv_def)
    consider (ctx) "expanded mod 512 = 0 \<and> cancelled iter"
      | (stale) "\<not> (expanded mod 512 = 0 \<and> cancelled iter)" "isClosed ws1 (n_idx cur)"
      | (new) "\<not> (expanded mod 512 = 0 \<and> cancelled iter)" "\<not> isClosed ws1 (n_idx cur)" by blast
    then show ?thesis
    proof cases
      case ctx
      then show ?thesis by (subst search.simps) (simp add: p search_post_def)
    next
      case stale
      have "search_post s to (fst (search grid to maxNodes mc startIdx goalIdx cancelled (Suc iter) expanded ws1))"
        by (rule "1.IH"(1)[OF p refl stale]) (use pop_closed_inv[OF inv p stale(2)] ng ws1 rest eqs in auto)
      then show ?thesis using stale by (subst search.simps) (auto simp: p)
    next
      case new
      let ?ws2 = "close (n_idx cur) ws1"
      note c = pop_close_inv[OF inv p rest(1,2)]
      show ?thesis
      proof (cases "n_idx cur = goalIdx")
        case True
        then have "node_tile cur = to" using ix_inj[OF c(4) rest(3)] c(3) eqs by simp
        then have "isClosed ?ws2 (ix width to)" using c(5)[OF rest(3)] by simp
        then obtain ts where ts: "traced walkable width s ?ws2 to ts"
          using c(1) rest(3) by (auto simp: search_inv_def trace_inv_def closed_inv_def)
        from traced_walk_back[OF this] eqs
        have "reconstruct ?ws2 startIdx goalIdx width = Some ts" by (simp add: reconstruct_def)
        moreover have "search grid to maxNodes mc startIdx goalIdx cancelled iter expanded ws =
            (map_option Inr (reconstruct ?ws2 startIdx goalIdx (gr_Width grid)), ?ws2)"
          using new True by (subst search.simps) (auto simp: p Let_def)
        ultimately show ?thesis using traced_route[OF ts] eqs by (simp add: search_post_def grid_view_def)
      next
        case ng': False
        show ?thesis
        proof (cases "maxNodes < expanded + 1")
          case True
          with new ng' show ?thesis by (subst search.simps) (simp add: p search_post_def)
        next
          case False
          let ?ws3 = "expand grid to mc cur ?ws2"
          have "isClosed ?ws2 (n_idx cur)" using c(3,4,5) by auto
          note ex = expand_inv[OF c(1) rest(1) c(3,4) this c(2) rest(2), of ?ws3 to mc, unfolded eqs(1), OF refl]
          have "\<not> isClosed ?ws2 goalIdx" using c(3) c(5)[OF rest(3)] ng ng' eqs ws_pop_cases[of ws] inv p
            by (auto simp: search_inv_def heap_inv_def)
          then have "search_post s to (fst (search grid to maxNodes mc startIdx goalIdx cancelled (Suc iter) (expanded + 1) ?ws3))"
            by (intro "1.IH"(2)[OF p refl new refl ng' False]) (use ex rest eqs in auto)
          then show ?thesis using new ng' False by (subst search.simps) (auto simp: p Let_def)
        qed
      qed
    qed
  qed
qed

text \<open>The initial workspace of a query.\<close>

lemma init_inv:
  assumes fit: "fits width height" and s: "wk walkable s" and ws: "ws_ok (nat (width * height)) ws"
    and n: "n_idx n = ix width s" "node_tile n = s"
  shows "search_inv walkable width height s {}
      (ws_push n (setFrom (ix width s) k (setG (ix width s) 0 (reset (nat (width * height)) ws))))"
    and "wk walkable p \<Longrightarrow> \<not> isClosed (ws_push n (setFrom (ix width s) k (setG (ix width s) 0 (reset (nat (width * height)) ws)))) (ix width p)"
proof -
  let ?r = "reset (nat (width * height)) ws"
  define i where "i = ws_push n (setFrom (ix width s) k (setG (ix width s) 0 ?r))"
  note r = ws_ok_reset[OF ws]
  have wh: "int (nat (width * height)) = width * height" using fit by (simp add: fits_def)
  have room: "ws_room (width * height) ?r" using r(2) wh by simp
  have fresh: "gIfSet ?r (ix width p) = None" "\<not> isClosed ?r (ix width p)" if "wk walkable p" for p
    using r(4)[of "ix width p"] ix_bounds[OF fit that] wh by auto
  have g: "gIfSet i (ix width p) = (if p = s then Some 0 else None)" if "wk walkable p" for p
    using gIfSet_setG[OF room, of "ix width s" "ix width p" 0] ix_bounds[OF fit s] ix_bounds[OF fit that]
      ix_inj[OF s that] fresh(1)[OF that] by (auto simp: i_def)
  have cl: "\<not> isClosed i (ix width p)" if "wk walkable p" for p using fresh(2)[OF that] by (simp add: i_def)
  have ok: "heap_ok ([] :: node_heap)" by (simp add: heap_ok_def)
  have hp: "set (ws_heap i) = {n}" "heap_ok (ws_heap i)"
    using set_heap_push[OF ok] push_ok[OF ok, of n] by (simp_all add: i_def r(3) heap_ok_def)
  have tr: "traced walkable width s i s [s]" by (rule traced_start) (rule s)
  have "search_inv walkable width height s {} i"
    unfolding search_inv_def
  proof (intro conjI)
    show "ws_room (width * height) i" using room by (simp add: i_def)
    show "heap_inv walkable width i" using hp n s g by (simp add: heap_inv_def)
    show "frontier_inv walkable width i" using hp n g by (auto simp: frontier_inv_def split: if_splits)
    show "closed_inv walkable width {} i" using cl by (auto simp: closed_inv_def legal_def)
    show "trace_inv walkable width s i"
      unfolding trace_inv_def using g[OF s] g tr cl hp n by (auto split: if_splits)
  qed
  then show "search_inv walkable width height s {}
      (ws_push n (setFrom (ix width s) k (setG (ix width s) 0 ?r)))" by (simp add: i_def)
  show "\<not> isClosed (ws_push n (setFrom (ix width s) k (setG (ix width s) 0 ?r))) (ix width p)"
    if "wk walkable p" using cl[OF that] by (simp add: i_def)
qed

end

subsection \<open>What a query returns on a world\<close>

lemma world_fits:
  "wf_world w \<Longrightarrow> w_width w * w_height w \<le> 2147483647 \<Longrightarrow> fits (w_width w) (w_height w)"
  by (simp add: fits_def wf_world_def)

lemma FindPath_search:
  assumes wf: "wf_world w" and small: "w_width w * w_height w \<le> 2147483647"
    and ws: "ws_ok (nat (w_width w * w_height w)) ws"
    and r: "FindPath cancelled a (Grid_of w) from0 to opts ws = (r, ws')"
  shows "(\<exists>e. r = Some (Err e) \<and> e \<noteq> ErrPathNotFound \<and>
      (IsWalkable w (tX from0) (tY from0) \<and> IsWalkable w (tX to) (tY to) \<longrightarrow> e = ErrPathTooLong)) \<or>
    (IsWalkable w (tX from0) (tY from0) \<and> IsWalkable w (tX to) (tY to) \<and>
     world_grid.search_post w from0 to r)"
proof -
  let ?W = "IsWalkable w" and ?n = "nat (w_width w * w_height w)"
  consider (err) e where "r = Some (Err e)" "e \<noteq> ErrPathNotFound" "wk ?W from0 \<and> wk ?W to \<longrightarrow> e = ErrPathTooLong"
    | (same) "wk ?W from0" "wk ?W to" "from0 = to" "r = Some (Ok [from0])"
    | (run) "wk ?W from0" "wk ?W to" "from0 \<noteq> to" "\<exists>maxNodes mc startIdx goalIdx n.
        startIdx = i32 (i32 (tY from0 * w_width w) + tX from0) \<and> goalIdx = i32 (i32 (tY to * w_width w) + tX to) \<and>
        n_idx n = startIdx \<and> node_tile n = from0 \<and>
        r = fst (search (Grid_of w) to maxNodes mc startIdx goalIdx cancelled 0 0
          (ws_push n (setFrom startIdx (-1) (setG startIdx 0 (reset ?n ws)))))"
  proof (cases "InBounds w (tX to) (tY to) \<and> InBounds w (tX from0) (tY from0) \<and> wk ?W from0 \<and> wk ?W to \<and>
      chebyshev from0 to \<le> (if po_MaxDistance opts \<le> 0 then a_defaultMaxDistance a else po_MaxDistance opts) \<and> from0 \<noteq> to")
    case True
    then show ?thesis using r run
      by (simp add: FindPath_def Grid_of_def Let_def del: split_paired_Ex) (metis fst_conv node.select_convs(1,4,5) tile_eta)
  next
    case False
    then show ?thesis using r err same IsWalkable_InBounds[of w]
      by (auto simp: FindPath_def Grid_of_def Let_def split: if_splits)
  qed
  then show ?thesis
  proof cases
    case err
    then show ?thesis by blast
  next
    case same
    then show ?thesis by (simp add: world_grid.search_post_def)
  next
    case run
    then obtain maxNodes mc startIdx goalIdx n where
      i: "startIdx = ix (w_width w) from0" "goalIdx = ix (w_width w) to"
      and n: "n_idx n = ix (w_width w) from0" "node_tile n = from0" and
      e: "r = fst (search (Grid_of w) to maxNodes mc startIdx goalIdx cancelled 0 0
          (ws_push n (setFrom startIdx (-1) (setG startIdx 0 (reset ?n ws)))))"
      using world_grid.ix_code[OF world_fits[OF wf small]] by auto
    note init = world_grid.init_inv[OF world_fits[OF wf small] run(1) ws n, where k = "-1", folded i]
    have "world_grid.search_post w from0 to r"
      unfolding e
      by (rule world_grid.search_correct[OF Grid_of_view i(1) _ init(1)])
         (use i init(2) run world_fits[OF wf small] in auto)
    with run show ?thesis by blast
  qed
qed

text \<open>
  C1: a route that FindPath returns starts at the origin, ends at the target, only uses
  walkable tiles, moves to a neighbour at each step and cuts no corner, whatever the costs,
  the limits, the cancellation and the earlier queries of the workspace.
\<close>

theorem FindPath_route:
  assumes "wf_world w" "w_width w * w_height w \<le> 2147483647"
    and "ws_ok (nat (w_width w * w_height w)) ws"
    and "fst (FindPath cancelled a (Grid_of w) from0 to opts ws) = Some (Ok ts)"
  shows "route (IsWalkable w) ts \<and> hd ts = from0 \<and> last ts = to"
  using FindPath_search[OF assms(1-3) prod.collapse[symmetric], of cancelled a from0 to opts] assms(4)
  by (auto simp: world_grid.search_post_def)

text \<open>
  C15: the search is complete: when FindPath says that there is no route, no sequence of legal
  steps leads from the origin to the target.
\<close>

theorem FindPath_not_found:
  assumes "wf_world w" "w_width w * w_height w \<le> 2147483647"
    and "ws_ok (nat (w_width w * w_height w)) ws"
    and "fst (FindPath cancelled a (Grid_of w) from0 to opts ws) = Some (Err ErrPathNotFound)"
  shows "\<not> (\<exists>ts. route (IsWalkable w) ts \<and> hd ts = from0 \<and> last ts = to)"
  using FindPath_search[OF assms(1-3) prod.collapse[symmetric], of cancelled a from0 to opts] assms(4)
  by (auto simp: world_grid.search_post_def)

subsection \<open>The workspace goes back to the pool as it came\<close>

definition ws_live :: "nat \<Rightarrow> workspace \<Rightarrow> bool" where
  "ws_live n ws \<longleftrightarrow> ws_ok n ws \<and> 0 < ws_generation ws"

lemma ws_live_ops [simp]:
  assumes "ws_live n ws"
  shows "ws_live n (setG i v ws)" "ws_live n (setFrom i v ws)" "ws_live n (close i ws)" "ws_live n (ws_push x ws)"
    "ws_live n (ws\<lparr>ws_heap := h\<rparr>)"
proof -
  have g: "ws_generation (setG i v ws) = ws_generation ws" "ws_generation (setFrom i v ws) = ws_generation ws"
    "ws_generation (close i ws) = ws_generation ws" "ws_generation (ws_push x ws) = ws_generation ws"
    by (simp_all add: setG_def setFrom_def close_def ws_push_def)
  with assms ws_ok_ops[of n ws] show "ws_live n (setG i v ws)" "ws_live n (setFrom i v ws)"
    "ws_live n (close i ws)" "ws_live n (ws_push x ws)" "ws_live n (ws\<lparr>ws_heap := h\<rparr>)"
    by (simp_all add: ws_live_def)
qed

lemma ws_live_pop: "ws_pop ws = Some (c, ws1) \<Longrightarrow> ws_live n ws \<Longrightarrow> ws_live n ws1"
  by (auto simp: ws_pop_def split: option.splits)

lemma ws_live_relax: "ws_live n ws \<Longrightarrow> ws_live n (relax grid to mc cur g d ws)"
  by (simp add: relax_def Let_def)

lemma ws_live_expand:
  assumes "ws_live n ws"
  shows "ws_live n (expand grid to mc cur ws)"
proof -
  have "ws_live n (fold (relax grid to mc cur g) ds ws)" for g ds
    using assms by (induction ds arbitrary: ws) (auto intro: ws_live_relax)
  then show ?thesis by (simp add: expand_def)
qed

lemma ws_live_search:
  "ws_live n ws \<Longrightarrow> ws_live n (snd (search grid to maxNodes mc s g cancelled iter expanded ws))"
proof (induction grid to maxNodes mc s g cancelled iter expanded ws rule: search.induct)
  case (1 grid to maxNodes mc s g cancelled iter expanded ws)
  show ?case
  proof (cases "ws_pop ws")
    case None
    with 1 show ?thesis by (subst search.simps) simp
  next
    case (Some p)
    obtain cur ws1 where p: "ws_pop ws = Some (cur, ws1)" using Some by (cases p) auto
    note l = ws_live_pop[OF p "1.prems"]
    show ?thesis
      using "1.IH"(1)[OF p refl _ _ l] "1.IH"(2)[OF p refl _ _ refl _ _ ws_live_expand[OF ws_live_ops(3)[OF l]]] "1.prems" l
      by (subst search.simps) (auto simp: p Let_def)
  qed
qed

text \<open>
  C16: every query returns, a route or an error, and gives the pool back a workspace as good as
  the one it took, so the guarantee of the other properties holds for every later query of it.
\<close>

theorem FindPath_returns:
  assumes "wf_world w" "w_width w * w_height w \<le> 2147483647"
    and "ws_ok (nat (w_width w * w_height w)) ws"
  shows "\<exists>r ws'. FindPath cancelled a (Grid_of w) from0 to opts ws = (Some r, ws')
    \<and> ws_ok (nat (w_width w * w_height w)) ws'"
proof -
  let ?n = "nat (w_width w * w_height w)"
  obtain r ws' where rw: "FindPath cancelled a (Grid_of w) from0 to opts ws = (r, ws')" by (metis surj_pair)
  have "r \<noteq> None" using FindPath_search[OF assms rw] by (auto simp: world_grid.search_post_def split: option.splits)
  have "ws_live ?n (reset ?n ws)" using ws_ok_reset(1,5)[OF assms(3)] by (simp add: ws_live_def)
  then have "ws_ok ?n (snd (search (Grid_of w) to m c s g cancelled 0 0
      (ws_push n (setFrom s (-1) (setG s 0 (reset ?n ws))))))" for m c s g n
    using ws_live_search[of ?n] by (simp add: ws_live_def[of _ "snd _"])
  then have "ws_ok ?n (snd (FindPath cancelled a (Grid_of w) from0 to opts ws))"
    using assms(3) by (simp add: FindPath_def Grid_of_def Let_def)
  with rw \<open>r \<noteq> None\<close> show ?thesis by auto
qed

text \<open>
  the error of FindPath tells what is wrong with the request, in this order: a tile outside
  the world, an origin that is not walkable, a target that is not walkable.
\<close>

theorem FindPath_guards:
  assumes "wf_world w" "w_width w * w_height w \<le> 2147483647"
    and "ws_ok (nat (w_width w * w_height w)) ws"
    and r: "fst (FindPath cancelled a (Grid_of w) from0 to opts ws) = r"
  shows "(r = Some (Err ErrTargetOutOfBounds) \<longleftrightarrow> \<not> (TileInBounds w to \<and> TileInBounds w from0))
    \<and> (r = Some (Err ErrOriginNotWalkable) \<longleftrightarrow>
         TileInBounds w to \<and> TileInBounds w from0 \<and> \<not> IsWalkable w (tX from0) (tY from0))
    \<and> (r = Some (Err ErrTargetNotWalkable) \<longleftrightarrow>
         TileInBounds w to \<and> IsWalkable w (tX from0) (tY from0) \<and> \<not> IsWalkable w (tX to) (tY to))"
proof (cases "IsWalkable w (tX from0) (tY from0) \<and> IsWalkable w (tX to) (tY to)")
  case False
  then have "r = Some (Err (if \<not> (TileInBounds w to \<and> TileInBounds w from0) then ErrTargetOutOfBounds
      else if \<not> IsWalkable w (tX from0) (tY from0) then ErrOriginNotWalkable else ErrTargetNotWalkable))"
    unfolding r[symmetric] FindPath_def Grid_of_def Let_def TileInBounds_def grid.simps by auto
  with False IsWalkable_InBounds[of w] show ?thesis by (auto simp: TileInBounds_def)
next
  case True
  with FindPath_search[OF assms(1-3) prod.collapse[symmetric], of cancelled a from0 to opts]
  have "r \<noteq> Some (Err ErrTargetOutOfBounds)" "r \<noteq> Some (Err ErrOriginNotWalkable)" "r \<noteq> Some (Err ErrTargetNotWalkable)"
    unfolding r by (auto simp: world_grid.search_post_def)
  with True IsWalkable_InBounds[of w] show ?thesis by (auto simp: TileInBounds_def)
qed

text \<open>
  C17: a found route becomes a movement: at any pace within range, the polyline built from it
  runs over the same tiles and passes the check of stored polylines on the same world.
\<close>

theorem FindPath_moves:
  assumes "wf_world w" "w_width w * w_height w \<le> 2147483647"
    and "ws_ok (nat (w_width w * w_height w)) ws"
    and "fst (FindPath cancelled a (Grid_of w) from0 to opts ws) = Some (Ok ts)"
    and "0 < base" "base \<le> 1000000000" "length ts \<le> 10000000"
  shows "\<exists>p. BuildTimedPath ts (IsWalkable w) (MoveCostUnits w) base = Ok p \<and> Origin p = Some from0
    \<and> Destination p = Some to \<and> Validate_path p (Some (IsWalkable w)) = None"
proof -
  from FindPath_search[OF assms(1-3) prod.collapse[symmetric], of cancelled a from0 to opts] assms(4)
  have r: "route (IsWalkable w) ts" "hd ts = from0" "last ts = to" by (auto simp: world_grid.search_post_def)
  have "base * 18 \<le> 2 ^ 40" using assms(6) by simp
  moreover have "int (length ts) * (2 * (base * 18)) \<le> 10000000 * (2 * (1000000000 * 18))"
    using assms(5,6,7) by (intro mult_mono) auto
  ultimately obtain p where p: "BuildTimedPath ts (IsWalkable w) (MoveCostUnits w) base = Ok p" "map Tile_of p = ts"
    "Validate_path p (Some (IsWalkable w)) = None"
    using world_grid.BuildTimedPath_valid[of ts w base] r(1) assms(5) by (auto simp: route_def)
  have ne: "p \<noteq> []" "ts \<noteq> []" using p(2) r(1) by (auto simp: route_def)
  have "Origin p = Some from0" using p(2) r(2) ne by (cases p) (auto simp: Origin_def)
  moreover have "Destination p = Some to" using p(2) r(3) ne by (auto simp: Destination_def last_conv_nth)
  ultimately show ?thesis using p by blast
qed

subsection \<open>Queries on small worlds\<close>

definition no_limits :: path_options where
  "no_limits = \<lparr>po_MaxNodes = 0, po_MaxDistance = 0\<rparr>"

text \<open>Two meadows with water between them.\<close>

definition moat :: world where
  "moat = \<lparr>w_width = 3, w_height = 1, w_chunkSize = 1, w_seed = 0,
     w_terrain = [Grassland, Water, Grassland], w_blocked = replicate 3 False\<rparr>"

lemma wf_moat: "wf_world moat"
  by (simp add: wf_world_def moat_def)

lemma meadow_query:
  "fst (FindPath (\<lambda>_. False) (NewAStar 0 0) (Grid_of meadow) (mk_tile 0 0) (mk_tile 2 1) no_limits new_workspace) =
     Some (Ok [mk_tile 0 0, mk_tile 1 0, mk_tile 2 1])"
  by code_simp

lemma moat_query:
  "fst (FindPath (\<lambda>_. False) (NewAStar 0 0) (Grid_of moat) (mk_tile 0 0) (mk_tile 2 0) no_limits new_workspace) =
     Some (Err ErrPathNotFound)"
  by code_simp

lemma small_moat [simp]: "w_width moat * w_height moat \<le> 2147483647" "nat (w_width moat * w_height moat) = 3"
  by (simp_all add: moat_def)

lemma small_meadow [simp]: "w_width meadow * w_height meadow \<le> 2147483647" "nat (w_width meadow * w_height meadow) = 9"
  by (simp_all add: meadow_def)

theorem FindPath_route_witness:
  "route (IsWalkable meadow) [mk_tile 0 0, mk_tile 1 0, mk_tile 2 1]"
  using FindPath_route[OF wf_meadow _ _ meadow_query] by simp

theorem FindPath_not_found_witness:
  "\<not> (\<exists>ts. route (IsWalkable moat) ts \<and> hd ts = mk_tile 0 0 \<and> last ts = mk_tile 2 0)"
  by (rule FindPath_not_found[OF wf_moat _ _ moat_query]) simp_all

theorem FindPath_returns_witness:
  "\<exists>r ws'. FindPath (\<lambda>_. True) (NewAStar 1 1) (Grid_of moat) (mk_tile 0 0) (mk_tile 2 0) no_limits new_workspace = (Some r, ws')
    \<and> ws_ok (nat (w_width moat * w_height moat)) ws'"
  by (rule FindPath_returns[OF wf_moat]) simp_all

theorem FindPath_guards_witness:
  "fst (FindPath (\<lambda>_. False) (NewAStar 0 0) (Grid_of moat) (mk_tile 0 0) (mk_tile 1 0) no_limits new_workspace) =
     Some (Err ErrTargetNotWalkable)"
proof -
  have "TileInBounds moat (mk_tile 1 0)" "IsWalkable moat 0 0" "\<not> IsWalkable moat 1 0" by code_simp+
  with FindPath_guards[OF wf_moat _ _ refl, of new_workspace "\<lambda>_. False" "NewAStar 0 0" "mk_tile 0 0" "mk_tile 1 0" no_limits]
  show ?thesis by simp
qed

theorem FindPath_moves_witness:
  "\<exists>p. BuildTimedPath [mk_tile 0 0, mk_tile 1 0, mk_tile 2 1] (IsWalkable meadow) (MoveCostUnits meadow) 600 = Ok p
    \<and> Origin p = Some (mk_tile 0 0) \<and> Destination p = Some (mk_tile 2 1) \<and> Validate_path p (Some (IsWalkable meadow)) = None"
  by (rule FindPath_moves[OF wf_meadow _ _ meadow_query]) simp_all

text \<open>
  The wrap-around of the generation clears the resliced part only: a workspace of two entries
  whose generation wraps during a query of one keeps the mark of the second entry, and the
  next query of two entries takes it for visited. Queries of one size are not affected.
\<close>

lemma reset_wrap_keeps_stale:
  "gIfSet (reset 2 (reset 1 \<lparr>ws_generation = 4294967295, ws_len = 1, ws_stamp = [0, 2], ws_gScore = [0, 7],
     ws_cameFrom = [0, 0], ws_closed = [0, 2], ws_heap = []\<rparr>)) 1 = Some 7"
  by code_simp

end
