(* ===== verification/Path_Optimal.thy ===== *)
theory Path_Optimal
  imports Pathfinding
begin

section \<open>The route found is a cheapest one\<close>

text \<open>
  The heuristic of internal/pathfinding/astar.go never overestimates, and is consistent along
  legal steps, because it weighs the octile distance with the least terrain cost and because
  1000 <= 1414 <= 2000. While the limits keep the costs inside int32, a tile is therefore
  closed with the cost of a cheapest route, and the route FindPath returns is one.
\<close>

definition octile :: "int \<Rightarrow> int \<Rightarrow> int" where
  "octile dx dy = 1000 * (dx + dy - 2 * min dx dy) + 1414 * min dx dy"

definition est :: "tile \<Rightarrow> int \<Rightarrow> tile \<Rightarrow> int" where
  "est to mc p = mc * octile \<bar>tX to - tX p\<bar> \<bar>tY to - tY p\<bar>"

lemma octile_bounds: "0 \<le> dx \<Longrightarrow> 0 \<le> dy \<Longrightarrow> 0 \<le> octile dx dy \<and> octile dx dy \<le> 1414 * (dx + dy)"
  by (auto simp: octile_def min_def)

lemma octile_ortho: "\<bar>dx' - dx\<bar> + \<bar>dy' - dy\<bar> \<le> 1 \<Longrightarrow> octile dx dy \<le> 1000 + octile dx' dy'"
  by (auto simp: octile_def min_def)

lemma octile_diag: "\<bar>dx' - dx\<bar> \<le> 1 \<Longrightarrow> \<bar>dy' - dy\<bar> \<le> 1 \<Longrightarrow> octile dx dy \<le> 1414 + octile dx' dy'"
  by (auto simp: octile_def min_def)

definition opt_inv ::
  "(int32 \<Rightarrow> int32 \<Rightarrow> bool) \<Rightarrow> (int32 \<Rightarrow> int32 \<Rightarrow> int32) \<Rightarrow> int32 \<Rightarrow> (tile \<Rightarrow> int) \<Rightarrow> tile
     \<Rightarrow> (tile \<times> tile) set \<Rightarrow> int \<Rightarrow> workspace \<Rightarrow> bool" where
  "opt_inv W C width hh s E K ws \<longleftrightarrow>
     gIfSet ws (ix width s) = Some 0 \<and>
     (\<forall>c \<in> set (ws_heap ws). \<forall>g. gIfSet ws (n_idx c) = Some g \<longrightarrow> g + hh (node_tile c) \<le> n_f c) \<and>
     (\<forall>p g. wk W p \<longrightarrow> gIfSet ws (ix width p) = Some g \<longrightarrow> \<not> isClosed ws (ix width p) \<longrightarrow>
        (\<exists>c \<in> set (ws_heap ws). node_tile c = p \<and> n_f c = g + hh p)) \<and>
     (\<forall>p q g. isClosed ws (ix width p) \<longrightarrow> legal W p q \<longrightarrow> (p, q) \<notin> E \<longrightarrow> gIfSet ws (ix width p) = Some g \<longrightarrow>
        (\<exists>k. gIfSet ws (ix width q) = Some k \<and> k \<le> g + step_cost C p q)) \<and>
     (\<forall>p g. wk W p \<longrightarrow> gIfSet ws (ix width p) = Some g \<longrightarrow> 0 \<le> g \<and> g \<le> K) \<and>
     (\<forall>p g. wk W p \<longrightarrow> gIfSet ws (ix width p) = Some g \<longrightarrow> p \<noteq> s \<longrightarrow>
        (\<exists>u k. wk W u \<and> isClosed ws (ix width u) \<and> gIfSet ws (ix width u) = Some k \<and>
           cameFrom ws (ix width p) = ix width u \<and> g = k + step_cost C u p)) \<and>
     (\<forall>p g ts. wk W p \<longrightarrow> isClosed ws (ix width p) \<longrightarrow> gIfSet ws (ix width p) = Some g \<longrightarrow>
        route W ts \<longrightarrow> hd ts = s \<longrightarrow> last ts = p \<longrightarrow> g \<le> route_cost C ts)"

lemma opt_invD:
  assumes "opt_inv W C width hh s E K ws"
  shows "gIfSet ws (ix width s) = Some 0"
    and "c \<in> set (ws_heap ws) \<Longrightarrow> gIfSet ws (n_idx c) = Some g \<Longrightarrow> g + hh (node_tile c) \<le> n_f c"
    and "wk W p \<Longrightarrow> gIfSet ws (ix width p) = Some g \<Longrightarrow> \<not> isClosed ws (ix width p) \<Longrightarrow>
        \<exists>c \<in> set (ws_heap ws). node_tile c = p \<and> n_f c = g + hh p"
    and "isClosed ws (ix width p) \<Longrightarrow> legal W p q \<Longrightarrow> (p, q) \<notin> E \<Longrightarrow> gIfSet ws (ix width p) = Some g \<Longrightarrow>
        \<exists>k. gIfSet ws (ix width q) = Some k \<and> k \<le> g + step_cost C p q"
    and "wk W p \<Longrightarrow> gIfSet ws (ix width p) = Some g \<Longrightarrow> 0 \<le> g \<and> g \<le> K"
    and "wk W p \<Longrightarrow> gIfSet ws (ix width p) = Some g \<Longrightarrow> p \<noteq> s \<Longrightarrow>
        \<exists>u k. wk W u \<and> isClosed ws (ix width u) \<and> gIfSet ws (ix width u) = Some k \<and>
           cameFrom ws (ix width p) = ix width u \<and> g = k + step_cost C u p"
    and "wk W p \<Longrightarrow> isClosed ws (ix width p) \<Longrightarrow> gIfSet ws (ix width p) = Some g \<Longrightarrow>
        route W ts \<Longrightarrow> hd ts = s \<Longrightarrow> last ts = p \<Longrightarrow> g \<le> route_cost C ts"
  using assms unfolding opt_inv_def by metis+

context path_grid
begin

abbreviation inv :: "(tile \<Rightarrow> int) \<Rightarrow> tile \<Rightarrow> (tile \<times> tile) set \<Rightarrow> int \<Rightarrow> workspace \<Rightarrow> bool" where
  "inv hh s E K ws \<equiv> opt_inv walkable cost width hh s E K ws"

definition room_for :: "int \<Rightarrow> bool" where
  "room_for K \<longleftrightarrow> K + min_cost * 1414 * (width + height) \<le> 2147483647"

lemma est_bounds:
  assumes "wk walkable p" "wk walkable to"
  shows "0 \<le> est to min_cost p" "est to min_cost p \<le> min_cost * 1414 * (width + height)"
proof -
  note b = walkable_in_grid[OF assms(1)] walkable_in_grid[OF assms(2)]
  let ?dx = "\<bar>tX to - tX p\<bar>" and ?dy = "\<bar>tY to - tY p\<bar>"
  have "?dx + ?dy \<le> width + height" using b by linarith
  then have o: "0 \<le> octile ?dx ?dy" "octile ?dx ?dy \<le> 1414 * (width + height)"
    using octile_bounds[of ?dx ?dy] by auto
  show "0 \<le> est to min_cost p" using o(1) min_cost_pos by (simp add: est_def)
  have "min_cost * octile ?dx ?dy \<le> min_cost * (1414 * (width + height))"
    using o(2) min_cost_pos by (intro mult_left_mono) auto
  then show "est to min_cost p \<le> min_cost * 1414 * (width + height)" by (simp only: est_def mult.assoc)
qed

lemma heuristic_est:
  assumes p: "wk walkable p" "wk walkable to" and fit: "fits width height" and r: "room_for 0"
  shows "heuristic p to min_cost = est to min_cost p"
proof -
  note b = walkable_in_grid[OF p(1)] walkable_in_grid[OF p(2)]
  define dx dy where "dx = \<bar>tX to - tX p\<bar>" and "dy = \<bar>tY to - tY p\<bar>"
  define m st where "m = min dx dy" and "st = dx + dy - 2 * m"
  have "width + height \<le> min_cost * 1414 * (width + height)"
    using min_cost_pos b by (intro mult_right_mono[of 1 _ "width + height", simplified]) auto
  then have wh: "width + height \<le> 2147483647" using r by (simp add: room_for_def)
  have d: "0 \<le> dx" "0 \<le> dy" "dx < width" "dy < height" using b by (auto simp: dx_def dy_def)
  then have m: "0 \<le> m" "0 \<le> st" "2 * m \<le> dx + dy" by (auto simp: m_def st_def)
  have mc: "min_cost * 1000 \<le> min_cost * 1414 * (width + height)" "min_cost * 1414 \<le> min_cost * 1414 * (width + height)"
  proof -
    have "min_cost * 1414 * 1 \<le> min_cost * 1414 * (width + height)" using min_cost_pos b by (intro mult_left_mono) auto
    then show "min_cost * 1414 \<le> min_cost * 1414 * (width + height)" by simp
    with min_cost_pos show "min_cost * 1000 \<le> min_cost * 1414 * (width + height)" by linarith
  qed
  have tot: "min_cost * 1000 * st + min_cost * 1414 * m = est to min_cost p"
    by (simp add: est_def octile_def dx_def[symmetric] dy_def[symmetric] m_def[symmetric] st_def algebra_simps)
  have nn: "0 \<le> min_cost * 1000 * st" "0 \<le> min_cost * 1414 * m" using m min_cost_pos by simp_all
  have le: "min_cost * 1000 * st \<le> 2147483647" "min_cost * 1414 * m \<le> 2147483647" "est to min_cost p \<le> 2147483647"
    using tot nn est_bounds[OF p] r unfolding room_for_def by linarith+
  have i: "i32 (tX to - tX p) = tX to - tX p" "i32 (tY to - tY p) = tY to - tY p"
    using b wh by (simp_all add: i32_id)
  have ab: "World.abs32 (tX to - tX p) = dx" "World.abs32 (tY to - tY p) = dy"
    using b wh by (auto simp: World.abs32_def dx_def dy_def i32_id)
  have dd: "(if dx < dy then dx else dy) = m" by (simp add: m_def)
  have "i32 (dx + dy) = dx + dy" "i32 (2 * m) = 2 * m" "i32 (dx + dy - 2 * m) = st"
    using d m wh by (simp_all add: i32_id st_def)
  moreover have "i32 (min_cost * costScaleOrtho) = min_cost * 1000" "i32 (min_cost * costScaleDiag) = min_cost * 1414"
    unfolding costScaleOrtho_def costScaleDiag_def
    by (rule i32_id; use mc r min_cost_pos in \<open>unfold room_for_def, linarith\<close>)+
  moreover have "i32 (min_cost * 1000 * st) = min_cost * 1000 * st" "i32 (min_cost * 1414 * m) = min_cost * 1414 * m"
    "i32 (min_cost * 1000 * st + min_cost * 1414 * m) = est to min_cost p"
    using nn le tot est_bounds(1)[OF p] by (simp_all add: i32_id)
  ultimately show ?thesis unfolding heuristic_def Let_def i ab dd by simp
qed

text \<open>The estimate is consistent along legal steps.\<close>

lemma est_step:
  assumes fit: "fits width height" and l: "legal walkable p q"
  shows "est to min_cost p \<le> step_cost cost p q + est to min_cost q"
proof -
  from l have w: "wk walkable p" "wk walkable q" and a: "IsAdjacent p q" by (auto simp: legal_def)
  have nb: "\<bar>tX q - tX p\<bar> \<le> 1" "\<bar>tY q - tY p\<bar> \<le> 1"
    using adjacent_neighbors[OF fit w] a set_neighbors by auto
  define sc where "sc = (if IsDiagonalTo p q then 1414 else 1000 :: int)"
  have "octile \<bar>tX to - tX p\<bar> \<bar>tY to - tY p\<bar> \<le> sc + octile \<bar>tX to - tX q\<bar> \<bar>tY to - tY q\<bar>"
  proof (cases "IsDiagonalTo p q")
    case True
    then show ?thesis using nb by (simp add: sc_def) (rule octile_diag; linarith)
  next
    case False
    then have "\<bar>\<bar>tX to - tX q\<bar> - \<bar>tX to - tX p\<bar>\<bar> + \<bar>\<bar>tY to - tY q\<bar> - \<bar>tY to - tY p\<bar>\<bar> \<le> 1"
      using nb unfolding IsDiagonalTo_def by arith
    from octile_ortho[OF this] False show ?thesis by (simp add: sc_def)
  qed
  then have "est to min_cost p \<le> min_cost * (sc + octile \<bar>tX to - tX q\<bar> \<bar>tY to - tY q\<bar>)"
    using min_cost_pos by (simp add: est_def)
  also have "\<dots> = min_cost * sc + est to min_cost q" by (simp add: est_def distrib_left)
  also have "min_cost * sc \<le> cost (tX q) (tY q) * sc"
    using min_cost_le[OF w(2)] by (intro mult_right_mono) (auto simp: sc_def)
  finally show ?thesis
    by (simp add: step_cost_def sc_def costScaleDiag_def costScaleOrtho_def split: if_splits)
qed

lemma step_cost_bounds:
  assumes "legal walkable p q"
  shows "0 < step_cost cost p q" "step_cost cost p q \<le> 1414 * max_cost"
proof -
  have c: "0 < cost (tX q) (tY q)" "cost (tX q) (tY q) \<le> max_cost"
    using assms cost_pos cost_le_max by (auto simp: legal_def)
  then show "0 < step_cost cost p q" "step_cost cost p q \<le> 1414 * max_cost"
    by (simp_all add: step_cost_def costScaleDiag_def costScaleOrtho_def)
qed

text \<open>
  On every route from the start to an open tile lies an open tile whose estimated total is at
  most that of the route; so the tile that is popped has the cost of a cheapest route.
\<close>

lemma open_on_route:
  assumes opt: "inv hh s {} K ws" and sinv: "search_inv walkable width height s {} ws"
    and mono: "\<And>p q. legal walkable p q \<Longrightarrow> hh p \<le> step_cost cost p q + hh q"
  shows "route walkable ts \<Longrightarrow> hd ts = s \<Longrightarrow> isClosed ws (ix width (last ts)) \<or>
    (\<exists>v g. wk walkable v \<and> \<not> isClosed ws (ix width v) \<and> gIfSet ws (ix width v) = Some g \<and>
       g + hh v \<le> route_cost cost ts + hh (last ts))"
proof (induction ts rule: rev_induct)
  case (snoc q ts)
  show ?case
  proof (cases "ts = []")
    case True
    with snoc.prems opt_invD(1)[OF opt] show ?thesis by fastforce
  next
    case False
    let ?u = "last ts"
    from False snoc.prems have lg: "legal walkable ?u q" and r: "route walkable ts" "hd ts = s"
      by (simp_all add: route_snoc)
    have cost: "route_cost cost (ts @ [q]) = route_cost cost ts + step_cost cost ?u q"
      using False by (rule route_cost_snoc)
    have wu: "wk walkable ?u" "wk walkable q" using lg by (auto simp: legal_def)
    show ?thesis
    proof (cases "isClosed ws (ix width ?u)")
      case True
      then obtain g where g: "gIfSet ws (ix width ?u) = Some g"
        using sinv wu by (auto simp: search_inv_def closed_inv_def)
      from opt_invD(4)[OF opt True lg _ g] obtain k where k: "gIfSet ws (ix width q) = Some k"
        "k \<le> g + step_cost cost ?u q" by auto
      with opt_invD(7)[OF opt wu(1) True g r refl] cost wu show ?thesis by fastforce
    next
      case False
      with snoc.IH[OF r] mono[OF lg] cost show ?thesis by fastforce
    qed
  qed
qed (simp add: route_def)

lemma popped_cheapest:
  assumes opt: "inv hh s {} K ws" and sinv: "search_inv walkable width height s {} ws"
    and mono: "\<And>p q. legal walkable p q \<Longrightarrow> hh p \<le> step_cost cost p q + hh q"
    and pop: "ws_pop ws = Some (cur, ws1)" and nc: "\<not> isClosed ws (n_idx cur)" and g: "gIfSet ws (n_idx cur) = Some g"
    and ts: "route walkable ts" "hd ts = s" "last ts = node_tile cur"
  shows "g \<le> route_cost cost ts"
proof -
  from sinv have ok: "heap_ok (ws_heap ws)" by (simp add: search_inv_def heap_inv_def)
  from ws_pop_cases[OF ok] pop have mem: "cur \<in> set (ws_heap ws)"
    and least: "\<And>y. y \<in> set (ws_heap ws) \<Longrightarrow> \<not> node_less y cur"
    by (auto dest: arg_cong[where f = set_mset])
  have ci: "n_idx cur = ix width (node_tile cur)" using sinv mem by (auto simp: search_inv_def heap_inv_def)
  from open_on_route[OF opt sinv mono ts(1,2)] ts(3) nc ci obtain v k where v: "wk walkable v"
    "\<not> isClosed ws (ix width v)" "gIfSet ws (ix width v) = Some k" "k + hh v \<le> route_cost cost ts + hh (node_tile cur)"
    by auto
  from opt_invD(3)[OF opt v(1,3,2)] obtain c where c: "c \<in> set (ws_heap ws)" "n_f c = k + hh v" by auto
  have "g + hh (node_tile cur) \<le> n_f cur" by (rule opt_invD(2)[OF opt mem g])
  also have "\<dots> \<le> n_f c" by (rule node_less_f[OF least[OF c(1)]])
  finally show ?thesis using c(2) v(4) by simp
qed

text \<open>Reaching a tile with the cost of the closed tile it is reached from.\<close>

lemma reach_tile_opt:
  assumes opt: "inv hh s E K ws" and sinv: "search_inv walkable width height s E' ws" and fit: "fits width height"
    and cur: "n_idx cur = ix width c" "isClosed ws (ix width c)" "gIfSet ws (ix width c) = Some g"
    and lg: "legal walkable c q" and q: "\<not> isClosed ws (ix width q)" and s: "wk walkable s" "isClosed ws (ix width s)"
    and old: "\<And>k. gIfSet ws (ix width q) = Some k \<Longrightarrow> t < k"
    and t: "t = g + step_cost cost c q" "0 \<le> t" "t \<le> K"
    and f: "n_f (open_node width to mc q t) = t + hh q"
  shows "inv hh s (E - {(c, q)}) K (reach_tile width to mc cur q t ws)"
proof -
  let ?ws = "reach_tile width to mc cur q t ws"
  have room: "ws_room (width * height) ws" and ok: "heap_ok (ws_heap ws)"
    and hp: "heap_inv walkable width ws" using sinv unfolding search_inv_def heap_inv_def by blast+
  have wq: "wk walkable q" and wc: "wk walkable c" using lg by (auto simp: legal_def)
  note view = reach_tile_view[OF fit room wq]
  have heap: "set (ws_heap ?ws) = insert (open_node width to mc q t) (set (ws_heap ws))"
    by (simp add: reach_tile_def set_heap_push[OF ok])
  have node: "node_tile (open_node width to mc q t) = q" "n_idx (open_node width to mc q t) = ix width q"
    by (simp_all add: open_node_def)
  have sq: "s \<noteq> q" "c \<noteq> q" using s q cur(2) by auto
  show ?thesis
    unfolding opt_inv_def
  proof (intro conjI allI ballI impI)
    show "gIfSet ?ws (ix width s) = Some 0" using opt_invD(1)[OF opt] view(1)[OF s(1)] sq by simp
  next
    fix n k assume n: "n \<in> set (ws_heap ?ws)" "gIfSet ?ws (n_idx n) = Some k"
    show "k + hh (node_tile n) \<le> n_f n"
    proof (cases "n = open_node width to mc q t")
      case True
      with n(2) view(1)[OF wq] node f show ?thesis by auto
    next
      case False
      with n have mem: "n \<in> set (ws_heap ws)" by (simp add: heap)
      with hp have w: "wk walkable (node_tile n)" "n_idx n = ix width (node_tile n)" "gIfSet ws (n_idx n) \<noteq> None"
        by (auto simp: heap_inv_def)
      then obtain k' where k': "gIfSet ws (n_idx n) = Some k'" by auto
      have "k \<le> k'" using n(2) k' view(1)[OF w(1)] w(2) old[of k'] by (auto split: if_splits)
      with opt_invD(2)[OF opt mem k'] show ?thesis by simp
    qed
  next
    fix p k assume p: "wk walkable p" "gIfSet ?ws (ix width p) = Some k" "\<not> isClosed ?ws (ix width p)"
    show "\<exists>n \<in> set (ws_heap ?ws). node_tile n = p \<and> n_f n = k + hh p"
    proof (cases "p = q")
      case True
      with p(2) view(1)[OF p(1)] have "k = t" by simp
      then show ?thesis
        by (intro bexI[of _ "open_node width to mc q t"]) (use True node f heap in simp_all)
    next
      case False
      with p view[OF p(1)] opt_invD(3)[OF opt p(1)] show ?thesis by (auto simp: heap)
    qed
  next
    fix p q' k assume h: "isClosed ?ws (ix width p)" "legal walkable p q'" "(p, q') \<notin> E - {(c, q)}" "gIfSet ?ws (ix width p) = Some k"
    have w: "wk walkable p" "wk walkable q'" using h(2) by (auto simp: legal_def)
    have p: "isClosed ws (ix width p)" "p \<noteq> q" using h(1) q view(2)[OF w(1)] by auto
    then have p3: "gIfSet ws (ix width p) = Some k" using h(4) view(1)[OF w(1)] by simp
    show "\<exists>j. gIfSet ?ws (ix width q') = Some j \<and> j \<le> k + step_cost cost p q'"
    proof (cases "(p, q') = (c, q)")
      case True
      with p3 cur t view(1)[OF w(2)] show ?thesis by simp
    next
      case False
      with h(3) have "(p, q') \<notin> E" by auto
      from opt_invD(4)[OF opt p(1) h(2) this p3] obtain j where j: "gIfSet ws (ix width q') = Some j"
        "j \<le> k + step_cost cost p q'" by auto
      with view(1)[OF w(2)] old[of j] show ?thesis by (cases "q' = q") auto
    qed
  next
    fix p k assume p: "wk walkable p" "gIfSet ?ws (ix width p) = Some k"
    with view(1)[OF p(1)] opt_invD(5)[OF opt p(1), of k] t show "0 \<le> k" "k \<le> K" by (auto split: if_splits)
  next
    fix p k assume p: "wk walkable p" "gIfSet ?ws (ix width p) = Some k" "p \<noteq> s"
    show "\<exists>u j. wk walkable u \<and> isClosed ?ws (ix width u) \<and> gIfSet ?ws (ix width u) = Some j \<and>
           cameFrom ?ws (ix width p) = ix width u \<and> k = j + step_cost cost u p"
    proof (cases "p = q")
      case True
      with p view[OF p(1)] view[OF wc] cur sq t wc show ?thesis by auto
    next
      case False
      with p view[OF p(1)] opt_invD(6)[OF opt p(1) _ p(3), of k] obtain u j where u: "wk walkable u"
        "isClosed ws (ix width u)" "gIfSet ws (ix width u) = Some j" "cameFrom ws (ix width p) = ix width u"
        "k = j + step_cost cost u p" by auto
      moreover have "u \<noteq> q" using u(2) q by auto
      ultimately show ?thesis using view[OF u(1)] view[OF p(1)] False by auto
    qed
  next
    fix p k ts assume p: "wk walkable p" "isClosed ?ws (ix width p)" "gIfSet ?ws (ix width p) = Some k"
      "route walkable ts" "hd ts = s" "last ts = p"
    have "p \<noteq> q" using p(2) q view(2)[OF p(1)] by auto
    with p view[OF p(1)] show "k \<le> route_cost cost ts" using opt_invD(7)[OF opt p(1) _ _ p(4-6), of k] by simp
  qed
qed

lemma opt_subset:
  assumes "inv hh s E K ws" "K \<le> K'"
    and "\<And>p q g. (p, q) \<in> E \<Longrightarrow> (p, q) \<notin> E' \<Longrightarrow> isClosed ws (ix width p) \<Longrightarrow> legal walkable p q \<Longrightarrow>
      gIfSet ws (ix width p) = Some g \<Longrightarrow> \<exists>k. gIfSet ws (ix width q) = Some k \<and> k \<le> g + step_cost cost p q"
  shows "inv hh s E' K' ws"
  unfolding opt_inv_def
proof (intro conjI allI ballI impI)
  fix p q g assume "isClosed ws (ix width p)" "legal walkable p q" "(p, q) \<notin> E'" "gIfSet ws (ix width p) = Some g"
  then show "\<exists>k. gIfSet ws (ix width q) = Some k \<and> k \<le> g + step_cost cost p q"
    using opt_invD(4)[OF assms(1)] assms(3) by blast
next
  fix p g assume "wk walkable p" "gIfSet ws (ix width p) = Some g"
  with opt_invD(5)[OF assms(1)] assms(2) show "0 \<le> g" "g \<le> K'" by force+
qed (use opt_invD[OF assms(1)] in blast)+

lemma traced_cost:
  assumes opt: "inv hh s E K ws"
  shows "traced walkable width s ws p ts \<Longrightarrow> gIfSet ws (ix width p) = Some g \<Longrightarrow> g = route_cost cost ts"
proof (induction arbitrary: g rule: traced.induct)
  case traced_start
  then show ?case using opt_invD(1)[OF opt] by simp
next
  case (traced_step u ts p)
  have w: "wk walkable p" "wk walkable u" using traced_step.hyps(3) by (auto simp: legal_def)
  from opt_invD(6)[OF opt w(1) traced_step.prems traced_step.hyps(5)] obtain u' k where u': "wk walkable u'"
    "gIfSet ws (ix width u') = Some k" "cameFrom ws (ix width p) = ix width u'" "g = k + step_cost cost u' p" by blast
  have "u' = u" using ix_inj[OF u'(1) w(2)] u'(3) traced_step.hyps(4) by simp
  moreover from traced_route[OF traced_step.hyps(1)] have "ts \<noteq> []" "last ts = u" by (auto simp: route_def)
  ultimately show ?case using traced_step.IH[of k] u' by (simp add: route_cost_snoc)
qed

definition within :: "int \<Rightarrow> tile \<Rightarrow> bool" where
  "within K to \<longleftrightarrow> fits width height \<and> wk walkable to \<and> room_for K"

lemma relax_opt:
  assumes opt: "inv (est to min_cost) s E K ws" and sinv: "search_inv walkable width height s E ws"
    and win: "within K to"
    and cur: "n_idx cur = ix width (node_tile cur)" "wk walkable (node_tile cur)" "isClosed ws (n_idx cur)"
    and g: "gIfSet ws (n_idx cur) = Some g" "g + 1414 * max_cost \<le> K"
    and d: "d \<in> set neighbors" and s: "wk walkable s" "isClosed ws (ix width s)"
    and ws': "ws' = relax (grid_view width height walkable cost min_cost) to min_cost cur g d ws"
  shows "inv (est to min_cost) s (E - {(node_tile cur, shift (node_tile cur) d)}) K ws' \<and> gIfSet ws' (n_idx cur) = Some g"
proof -
  let ?c = "node_tile cur" and ?q = "shift (node_tile cur) d"
  have fit: "fits width height" and to: "wk walkable to" and r: "room_for K" using win by (auto simp: within_def)
  define t where "t = i32 (g + i32 (step_cost cost ?c ?q))"
  note eq = relax_eq[OF fit cur(2) d refl t_def, of to min_cost ws, folded ws']
  have g0: "0 \<le> g" using opt_invD(5)[OF opt cur(2)] g(1) cur(1) by auto
  have H: "0 \<le> min_cost * 1414 * (width + height)" using est_bounds[OF cur(2) to] by linarith
  have t: "t = g + step_cost cost ?c ?q" "0 \<le> t" "t \<le> K" if "legal walkable ?c ?q"
  proof -
    note b = step_cost_bounds[OF that]
    have "i32 (step_cost cost ?c ?q) = step_cost cost ?c ?q" "i32 (g + step_cost cost ?c ?q) = g + step_cost cost ?c ?q"
      by (rule i32_id; use b g0 g(2) r H in \<open>unfold room_for_def, linarith\<close>)+
    then show "t = g + step_cost cost ?c ?q" "0 \<le> t" "t \<le> K" using b g0 g(2) by (simp_all add: t_def)
  qed
  show ?thesis
  proof (cases "legal walkable ?c ?q \<and> \<not> isClosed ws (ix width ?q) \<and>
        \<not> (\<exists>k. gIfSet ws (ix width ?q) = Some k \<and> k \<le> t)")
    case True
    then have lg: "legal walkable ?c ?q" and nq: "\<not> isClosed ws (ix width ?q)"
      and old: "\<And>k. gIfSet ws (ix width ?q) = Some k \<Longrightarrow> t < k" by force+
    have wq: "wk walkable ?q" using lg by (simp add: legal_def)
    have h: "heuristic ?q to min_cost = est to min_cost ?q"
      using heuristic_est[OF wq to fit] r g0 g(2) t(2,3)[OF lg] by (simp add: room_for_def)
    have "i32 (t + est to min_cost ?q) = t + est to min_cost ?q"
      using est_bounds[OF wq to] t[OF lg] r unfolding room_for_def by (intro i32_id) linarith+
    then have f: "n_f (open_node width to min_cost ?q t) = t + est to min_cost ?q"
      by (simp add: open_node_def h)
    have "inv (est to min_cost) s (E - {(?c, ?q)}) K (reach_tile width to min_cost cur ?q t ws)"
      by (rule reach_tile_opt[OF opt sinv fit cur(1) _ _ lg nq s old t[OF lg] f]) (use cur g in simp_all)
    moreover have "gIfSet (reach_tile width to min_cost cur ?q t ws) (n_idx cur) = Some g"
      using reach_tile_view(1)[OF fit _ wq cur(2)] sinv cur g nq by (auto simp: search_inv_def)
    ultimately show ?thesis using True by (simp add: eq)
  next
    case False
    have "\<exists>k. gIfSet ws (ix width ?q) = Some k \<and> k \<le> g + step_cost cost ?c ?q" if lg: "legal walkable ?c ?q"
    proof (cases "isClosed ws (ix width ?q)")
      case True
      have wq: "wk walkable ?q" using lg by (simp add: legal_def)
      with True obtain k where k: "gIfSet ws (ix width ?q) = Some k"
        using sinv unfolding search_inv_def closed_inv_def by blast
      obtain ts where ts: "traced walkable width s ws ?c ts"
        using sinv cur g(1) unfolding search_inv_def trace_inv_def by fastforce
      have gc: "gIfSet ws (ix width ?c) = Some g" using g(1) cur(1) by simp
      note rt = traced_route[OF ts] and tc = traced_cost[OF opt ts gc]
      have ne: "ts \<noteq> []" using rt by (auto simp: route_def)
      have "route walkable (ts @ [?q])" "hd (ts @ [?q]) = s" using rt lg ne by (simp_all add: route_snoc)
      from opt_invD(7)[OF opt wq True k this] have "k \<le> route_cost cost (ts @ [?q])" by simp
      then show ?thesis using k rt tc by (simp add: route_cost_snoc[OF ne])
    next
      case nc: False
      with False lg t(1)[OF lg] show ?thesis by auto
    qed
    then have "inv (est to min_cost) s (E - {(?c, ?q)}) K ws"
      by (intro opt_subset[OF opt]) (use g cur in auto)
    with False g show ?thesis by (auto simp: eq)
  qed
qed

lemma fold_relax_opt:
  assumes "inv (est to min_cost) s E K ws" "search_inv walkable width height s E ws" "within K to"
    and "n_idx cur = ix width (node_tile cur)" "wk walkable (node_tile cur)" "isClosed ws (n_idx cur)"
    and "gIfSet ws (n_idx cur) = Some g" "g + 1414 * max_cost \<le> K"
    and "set ds \<subseteq> set neighbors" "wk walkable s" "isClosed ws (ix width s)"
    and "ws' = fold (relax (grid_view width height walkable cost min_cost) to min_cost cur g) ds ws"
  shows "inv (est to min_cost) s (E - (\<lambda>d. (node_tile cur, shift (node_tile cur) d)) ` set ds) K ws'"
  using assms
proof (induction ds arbitrary: E ws)
  case (Cons d ds)
  have fit: "fits width height" using Cons.prems(3) by (simp add: within_def)
  have d: "d \<in> set neighbors" using Cons.prems(9) by simp
  define ws1 where "ws1 = relax (grid_view width height walkable cost min_cost) to min_cost cur g d ws"
  note r = relax_inv[OF Cons.prems(2) fit Cons.prems(4,5) d Cons.prems(6,11,10) ws1_def]
  note o' = relax_opt[OF Cons.prems(1-8) d Cons.prems(10,11) ws1_def]
  have cl: "isClosed ws1 (n_idx cur)" "isClosed ws1 (ix width s)" using r Cons.prems(4,5,6,10,11) by auto
  from Cons.IH[OF conjunct1[OF o'] conjunct1[OF r] Cons.prems(3-5) cl(1) conjunct2[OF o'] Cons.prems(8) _ Cons.prems(10) cl(2)]
    Cons.prems(9,12) show ?case
    by (simp add: ws1_def[symmetric] set_diff_insert)
qed simp

lemma expand_opt:
  assumes opt: "inv (est to min_cost) s ({node_tile cur} \<times> UNIV) K ws"
    and sinv: "search_inv walkable width height s ({node_tile cur} \<times> UNIV) ws" and win: "within (K + 1414 * max_cost) to"
    and cur: "n_idx cur = ix width (node_tile cur)" "wk walkable (node_tile cur)" "isClosed ws (n_idx cur)"
    and s: "wk walkable s" "isClosed ws (ix width s)"
    and ws': "ws' = expand (grid_view width height walkable cost min_cost) to min_cost cur ws"
  shows "inv (est to min_cost) s {} (K + 1414 * max_cost) ws'"
proof -
  let ?c = "node_tile cur" and ?K = "K + 1414 * max_cost"
  have fit: "fits width height" using win by (simp add: within_def)
  have mx: "0 \<le> max_cost" using cost_pos[OF cur(2)] cost_le_max[of "n_x cur" "n_y cur"] by simp
  obtain g where g: "gIfSet ws (n_idx cur) = Some g"
    using sinv cur unfolding search_inv_def closed_inv_def by fastforce
  then have "g \<le> K" using opt_invD(5)[OF opt cur(2)] cur(1) by auto
  then have gK: "g + 1414 * max_cost \<le> ?K" by simp
  have opt': "inv (est to min_cost) s ({?c} \<times> UNIV) ?K ws" by (rule opt_subset[OF opt]) (use mx in auto)
  have f: "inv (est to min_cost) s ({?c} \<times> UNIV - (\<lambda>d. (?c, shift ?c d)) ` set neighbors) ?K ws'"
    by (rule fold_relax_opt[OF opt' sinv win cur g gK _ s]) (simp_all add: ws' expand_def g_of_gIfSet[OF g])
  have "(?c, q) \<in> (\<lambda>d. (?c, shift ?c d)) ` set neighbors" if "legal walkable ?c q" for q
  proof -
    have "(tX q - n_x cur, tY q - n_y cur) \<in> set neighbors"
      using adjacent_neighbors[OF fit, of ?c q] that by (simp add: legal_def)
    moreover have "q = shift ?c (tX q - n_x cur, tY q - n_y cur)" by (simp add: shift_def)
    ultimately show ?thesis by (metis image_eqI)
  qed
  then show ?thesis by (intro opt_subset[OF f]) auto
qed

lemma pop_closed_opt:
  assumes opt: "inv hh s {} K ws" and sinv: "search_inv walkable width height s {} ws"
    and pop: "ws_pop ws = Some (cur, ws1)" and cl: "isClosed ws1 (n_idx cur)"
  shows "inv hh s {} K ws1"
proof -
  from sinv have ok: "heap_ok (ws_heap ws)" by (simp add: search_inv_def heap_inv_def)
  from ws_pop_cases[OF ok] pop obtain h where h: "ws1 = ws\<lparr>ws_heap := h\<rparr>"
    "mset (ws_heap ws) = add_mset cur (mset h)" by auto
  have set: "set (ws_heap ws) = insert cur (set h)" using h(2) by (metis set_mset_add_mset_insert set_mset_mset)
  have ci: "n_idx cur = ix width (node_tile cur)" using sinv by (auto simp: search_inv_def heap_inv_def set)
  have v: "gIfSet ws1 i = gIfSet ws i" "isClosed ws1 i = isClosed ws i" "cameFrom ws1 i = cameFrom ws i" for i
    by (simp_all add: h)
  show ?thesis unfolding opt_inv_def v
  proof (intro conjI allI ballI impI)
    fix p g assume p: "wk walkable p" "gIfSet ws (ix width p) = Some g" "\<not> isClosed ws (ix width p)"
    from opt_invD(3)[OF opt p] obtain c where c: "c \<in> set (ws_heap ws)" "node_tile c = p" "n_f c = g + hh p" by auto
    have "c \<noteq> cur" using c(2) p(3) cl ci v by auto
    with c show "\<exists>c \<in> set (ws_heap ws1). node_tile c = p \<and> n_f c = g + hh p" by (auto simp: set h)
  next
    fix c g assume "c \<in> set (ws_heap ws1)" "gIfSet ws (n_idx c) = Some g"
    then show "g + hh (node_tile c) \<le> n_f c" using opt_invD(2)[OF opt] by (simp add: set h)
  next
    fix p q g assume "isClosed ws (ix width p)" "legal walkable p q" "gIfSet ws (ix width p) = Some g"
    then show "\<exists>k. gIfSet ws (ix width q) = Some k \<and> k \<le> g + step_cost cost p q" using opt_invD(4)[OF opt] by blast
  next
    fix p g assume "wk walkable p" "gIfSet ws (ix width p) = Some g"
    then show "0 \<le> g" "g \<le> K" using opt_invD(5)[OF opt] by blast+
  qed (use opt_invD[OF opt] in blast)+
qed

lemma pop_close_opt:
  assumes opt: "inv hh s {} K ws" and sinv: "search_inv walkable width height s {} ws"
    and mono: "\<And>p q. legal walkable p q \<Longrightarrow> hh p \<le> step_cost cost p q + hh q"
    and pop: "ws_pop ws = Some (cur, ws1)" and nc: "\<not> isClosed ws1 (n_idx cur)"
    and fit: "fits width height" and s: "wk walkable s"
  shows "inv hh s ({node_tile cur} \<times> UNIV) K (close (n_idx cur) ws1)"
proof -
  let ?ws = "close (n_idx cur) ws1" and ?c = "node_tile cur"
  from sinv have ok: "heap_ok (ws_heap ws)" by (simp add: search_inv_def heap_inv_def)
  from ws_pop_cases[OF ok] pop obtain h where h: "ws1 = ws\<lparr>ws_heap := h\<rparr>"
    "mset (ws_heap ws) = add_mset cur (mset h)" by auto
  have set: "set (ws_heap ws) = insert cur (set h)" using h(2) by (metis set_mset_add_mset_insert set_mset_mset)
  note c = pop_close_inv[OF sinv pop fit s]
  have nc': "\<not> isClosed ws (n_idx cur)" using nc by (simp add: h)
  have v: "gIfSet ?ws i = gIfSet ws i" "cameFrom ?ws i = cameFrom ws i" "ws_heap ?ws = h" for i
    by (simp_all add: h)
  show ?thesis unfolding opt_inv_def v
  proof (intro conjI allI ballI impI)
    show "gIfSet ws (ix width s) = Some 0" by (rule opt_invD(1)[OF opt])
  next
    fix n g assume "n \<in> set h" "gIfSet ws (n_idx n) = Some g"
    then show "g + hh (node_tile n) \<le> n_f n" using opt_invD(2)[OF opt] by (simp add: set)
  next
    fix p g assume p: "wk walkable p" "gIfSet ws (ix width p) = Some g" "\<not> isClosed ?ws (ix width p)"
    then have "\<not> isClosed ws (ix width p)" "p \<noteq> ?c" using c(5) by auto
    with opt_invD(3)[OF opt p(1,2)] show "\<exists>c \<in> set h. node_tile c = p \<and> n_f c = g + hh p" by (auto simp: set)
  next
    fix p q g assume p: "isClosed ?ws (ix width p)" "legal walkable p q" "(p, q) \<notin> {?c} \<times> UNIV" "gIfSet ws (ix width p) = Some g"
    then have "isClosed ws (ix width p)" using c(5)[of p] by (auto simp: legal_def)
    with opt_invD(4)[OF opt this p(2) _ p(4)] show "\<exists>k. gIfSet ws (ix width q) = Some k \<and> k \<le> g + step_cost cost p q" by simp
  next
    fix p g assume "wk walkable p" "gIfSet ws (ix width p) = Some g"
    then show "0 \<le> g" "g \<le> K" using opt_invD(5)[OF opt] by blast+
  next
    fix p g assume "wk walkable p" "gIfSet ws (ix width p) = Some g" "p \<noteq> s"
    from opt_invD(6)[OF opt this] show "\<exists>u k. wk walkable u \<and> isClosed ?ws (ix width u) \<and> gIfSet ws (ix width u) = Some k \<and>
        cameFrom ws (ix width p) = ix width u \<and> g = k + step_cost cost u p" using c(5) by blast
  next
    fix p g ts assume p: "wk walkable p" "isClosed ?ws (ix width p)" "gIfSet ws (ix width p) = Some g"
      "route walkable ts" "hd ts = s" "last ts = p"
    show "g \<le> route_cost cost ts"
    proof (cases "p = ?c")
      case True
      with popped_cheapest[OF opt sinv mono pop nc' _ p(4,5)] p(3,6) c(3) show ?thesis by simp
    next
      case False
      with p c(5)[OF p(1)] opt_invD(7)[OF opt p(1) _ p(3-6)] show ?thesis by simp
    qed
  qed
qed

lemma search_cheapest:
  assumes "grid = grid_view width height walkable cost min_cost" "startIdx = ix width s" "goalIdx = ix width to"
    and "search_inv walkable width height s {} ws" "\<not> isClosed ws goalIdx" "mc = min_cost"
    and "within (maxNodes * (1414 * max_cost)) to" "wk walkable s"
    and "inv (est to min_cost) s {} (expanded * (1414 * max_cost)) ws"
    and "fst (search grid to maxNodes mc startIdx goalIdx cancelled iter expanded ws) = Some (Ok ts)"
    and "route walkable ts'" "hd ts' = s" "last ts' = to"
  shows "route_cost cost ts \<le> route_cost cost ts'"
  using assms
proof (induction grid to maxNodes mc startIdx goalIdx cancelled iter expanded ws rule: search.induct)
  case (1 grid to maxNodes mc startIdx goalIdx cancelled iter expanded ws)
  note eqs = "1.prems"(1-3) and sinv = "1.prems"(4) and ng = "1.prems"(5) and mc = "1.prems"(6)
    and win = "1.prems"(7) and s = "1.prems"(8) and opt = "1.prems"(9) and res = "1.prems"(10) and alt = "1.prems"(11-13)
  have fit: "fits width height" and to: "wk walkable to" using win by (auto simp: within_def)
  show ?case
  proof (cases "ws_pop ws")
    case None
    with res show ?thesis by (subst (asm) search.simps) simp
  next
    case (Some p)
    obtain cur ws1 where p: "ws_pop ws = Some (cur, ws1)" using Some by (cases p) auto
    have nctx: "\<not> (expanded mod 512 = 0 \<and> cancelled iter)"
      using res p by (subst (asm) search.simps) (auto split: if_splits)
    have ws1: "isClosed ws1 i = isClosed ws i" for i
      using ws_pop_cases[of ws] sinv p by (auto simp: search_inv_def heap_inv_def)
    show ?thesis
    proof (cases "isClosed ws1 (n_idx cur)")
      case True
      have r1: "fst (search grid to maxNodes mc startIdx goalIdx cancelled (Suc iter) expanded ws1) = Some (Ok ts)"
        using res nctx True by (subst (asm) search.simps) (auto simp: p split: if_splits)
      have n1: "\<not> isClosed ws1 goalIdx" using ng ws1 by simp
      show ?thesis
        by (rule "1.IH"(1)[OF p refl nctx True eqs pop_closed_inv[OF sinv p True] n1 mc win s
              pop_closed_opt[OF opt sinv p True] r1 alt])
    next
      case nc: False
      let ?ws2 = "close (n_idx cur) ws1"
      note c = pop_close_inv[OF sinv p fit s]
      have o2: "inv (est to min_cost) s ({node_tile cur} \<times> UNIV) (expanded * (1414 * max_cost)) ?ws2"
        by (rule pop_close_opt[OF opt sinv est_step[OF fit] p nc fit s])
      show ?thesis
      proof (cases "n_idx cur = goalIdx")
        case True
        then have "node_tile cur = to" using ix_inj[OF c(4) to] c(3) eqs by simp
        then have cl: "isClosed ?ws2 (ix width to)" using c(5)[OF to] by simp
        have "gIfSet ?ws2 (ix width to) \<noteq> None"
          using c(1) to cl unfolding search_inv_def closed_inv_def by simp
        moreover from this have "\<exists>us. traced walkable width s ?ws2 to us"
          using c(1) to unfolding search_inv_def trace_inv_def by simp
        ultimately obtain g us where g: "gIfSet ?ws2 (ix width to) = Some g"
          and us: "traced walkable width s ?ws2 to us" by auto
        have "reconstruct ?ws2 startIdx goalIdx width = Some us"
          using traced_walk_back[OF us] eqs by (simp add: reconstruct_def)
        then have "us = ts"
          using res nctx nc True eqs(1) by (subst (asm) search.simps) (auto simp: p Let_def grid_view_def split: if_splits)
        with traced_cost[OF o2 us g] opt_invD(7)[OF o2 to cl g alt] show ?thesis by simp
      next
        case ng': False
        have more: "expanded + 1 \<le> maxNodes"
          using res nctx nc ng' by (subst (asm) search.simps) (auto simp: p Let_def split: if_splits)
        let ?ws3 = "expand grid to mc cur ?ws2"
        have cc: "isClosed ?ws2 (n_idx cur)" using c(3,4,5) by auto
        have K: "expanded * (1414 * max_cost) + 1414 * max_cost = (expanded + 1) * (1414 * max_cost)"
          by (simp add: distrib_right)
        have "0 \<le> max_cost" using cost_pos[OF s] cost_le_max[of "tX s" "tY s"] by simp
        then have "(expanded + 1) * (1414 * max_cost) \<le> maxNodes * (1414 * max_cost)"
          using more by (intro mult_right_mono) auto
        then have w: "within (expanded * (1414 * max_cost) + 1414 * max_cost) to"
          using win unfolding K within_def room_for_def by simp
        have ws3: "?ws3 = expand (grid_view width height walkable cost min_cost) to min_cost cur ?ws2" by (simp add: eqs mc)
        note ex = expand_inv[OF c(1) fit c(3,4) cc c(2) s ws3]
        note o3 = expand_opt[OF o2 c(1) w c(3,4) cc s c(2) ws3, unfolded K]
        have "\<not> isClosed ?ws2 goalIdx"
          using c(3) c(5)[OF to] ng ng' eqs ws1 by auto
        then have n3: "\<not> isClosed ?ws3 goalIdx" using ex to eqs by auto
        have "fst (search grid to maxNodes mc startIdx goalIdx cancelled (Suc iter) (expanded + 1) ?ws3) = Some (Ok ts)"
          using res nctx nc ng' more by (subst (asm) search.simps) (auto simp: p Let_def split: if_splits)
        then show ?thesis
          using "1.IH"(2)[OF p refl nctx nc refl ng' _ eqs conjunct1[OF ex] n3 mc win s o3 _ alt] more by simp
      qed
    qed
  qed
qed

lemma route_cost_nonneg: "route walkable us \<Longrightarrow> 0 \<le> route_cost cost us"
proof (induction us)
  case (Cons a us)
  show ?case
  proof (cases us)
    case (Cons b vs)
    with Cons.prems Cons.IH step_cost_bounds(1)[of a b] show ?thesis by (simp add: route_Cons2)
  qed simp
qed simp

lemma init_opt:
  assumes fit: "fits width height" and s: "wk walkable s" and ws: "ws_ok (nat (width * height)) ws"
    and n: "n_idx n = ix width s" "node_tile n = s" "n_f n = hh s"
  shows "inv hh s {} 0 (ws_push n (setFrom (ix width s) k (setG (ix width s) 0 (reset (nat (width * height)) ws))))"
proof -
  let ?r = "reset (nat (width * height)) ws"
  define i where "i = ws_push n (setFrom (ix width s) k (setG (ix width s) 0 ?r))"
  note r = ws_ok_reset[OF ws]
  have wh: "int (nat (width * height)) = width * height" using fit by (simp add: fits_def)
  have room: "ws_room (width * height) ?r" using r(2) wh by simp
  have fresh: "gIfSet ?r (ix width p) = None" "\<not> isClosed ?r (ix width p)" if "wk walkable p" for p
    using r(4)[of "ix width p"] ix_bounds[OF fit that] wh by auto
  have g: "gIfSet i (ix width p) = (if p = s then Some 0 else None)" if "wk walkable p" for p
    using gIfSet_setG[OF room, of "ix width s" "ix width p" 0] ix_bounds[OF fit s] ix_bounds[OF fit that]
      ix_inj[OF s that] fresh(1)[OF that] by (auto simp: i_def)
  have cl: "\<not> isClosed i (ix width p)" if "wk walkable p" for p using fresh(2)[OF that] by (simp add: i_def)
  have hp: "set (ws_heap i) = {n}"
    using set_heap_push[of "[]"] by (simp add: i_def r(3) heap_ok_def)
  have "inv hh s {} 0 i" unfolding opt_inv_def
  proof (intro conjI allI ballI impI)
    show "gIfSet i (ix width s) = Some 0" using g[OF s] by simp
  next
    fix c k assume "c \<in> set (ws_heap i)" "gIfSet i (n_idx c) = Some k"
    with hp n g[OF s] show "k + hh (node_tile c) \<le> n_f c" by simp
  next
    fix p k assume "wk walkable p" "gIfSet i (ix width p) = Some k"
    with g[of p] hp n show "\<exists>c \<in> set (ws_heap i). node_tile c = p \<and> n_f c = k + hh p" by (auto split: if_splits)
  next
    fix p k assume p: "wk walkable p" "gIfSet i (ix width p) = Some k"
    with g[of p] show "0 \<le> k" "k \<le> 0" by (auto split: if_splits)
    assume "p \<noteq> s"
    with p g[of p] show "\<exists>u k'. wk walkable u \<and> isClosed i (ix width u) \<and> gIfSet i (ix width u) = Some k' \<and>
        cameFrom i (ix width p) = ix width u \<and> k = k' + step_cost cost u p" by simp
  qed (use cl in \<open>auto simp: legal_def\<close>)
  then show ?thesis by (simp add: i_def)
qed

end

text \<open>
  C2: while maxNodes expansions of the dearest diagonal step, plus the largest estimate, stay
  below 2^31 (84,000 nodes on a 1024 x 1024 world; the default is 50,000), the route found
  costs no more than any other legal route between the two tiles.
\<close>

theorem FindPath_cheapest:
  assumes wf: "wf_world w" "w_width w * w_height w \<le> 2147483647"
    and ws: "ws_ok (nat (w_width w * w_height w)) ws"
    and res: "fst (FindPath cancelled a (Grid_of w) from0 to opts ws) = Some (Ok ts)"
    and a: "a = NewAStar nodes dist"
    and lim: "(if po_MaxNodes opts \<le> 0 then a_defaultMaxNodes a else po_MaxNodes opts) * (1414 * 18)
      + MinMoveCostUnits w * 1414 * (w_width w + w_height w) \<le> 2147483647"
    and alt: "route (IsWalkable w) ts'" "hd ts' = from0" "last ts' = to"
  shows "route_cost (MoveCostUnits w) ts \<le> route_cost (MoveCostUnits w) ts'"
proof -
  let ?W = "IsWalkable w" and ?n = "nat (w_width w * w_height w)" and ?mc = "MinMoveCostUnits w"
  define maxNodes where "maxNodes = (if po_MaxNodes opts \<le> 0 then a_defaultMaxNodes a else po_MaxNodes opts)"
  have ne: "ts' \<noteq> []" and "hd ts' \<in> set ts'" "last ts' \<in> set ts'" using alt(1) by (auto simp: route_def)
  then have wk: "wk ?W from0" "wk ?W to" using alt by (auto simp: route_def)
  note fit = world_fits[OF wf]
  note ix = world_grid.ix_code[OF fit wk(1)] world_grid.ix_code[OF fit wk(2)]
  have pos: "0 < ?mc" "0 < w_width w" "0 < w_height w" using wf by (simp_all add: MinMoveCostUnits_def wf_world_def)
  show ?thesis
  proof (cases "from0 = to")
    case True
    have "ts = [from0]" using res True by (auto simp: FindPath_def Let_def split: if_splits)
    then show ?thesis using world_grid.route_cost_nonneg[OF alt(1)] by simp
  next
    case False
    define h where "h = heuristic from0 to ?mc"
    define n where "n = \<lparr>n_idx = ix (w_width w) from0, n_f = h, n_h = h, n_x = tX from0, n_y = tY from0\<rparr>"
    define ws0 where "ws0 = ws_push n (setFrom (ix (w_width w) from0) (-1) (setG (ix (w_width w) from0) 0 (reset ?n ws)))"
    have r: "fst (search (Grid_of w) to maxNodes ?mc (ix (w_width w) from0) (ix (w_width w) to) cancelled 0 0 ws0) = Some (Ok ts)"
      using res False pos ix wk
      unfolding ws0_def n_def h_def maxNodes_def FindPath_def Let_def Grid_of_def grid.simps
      by (simp split: if_splits)
    have H: "0 \<le> ?mc * 1414 * (w_width w + w_height w)" using pos by simp
    have "0 \<le> maxNodes" by (simp add: maxNodes_def a NewAStar_def)
    note nn = this
    have nt: "n_idx n = ix (w_width w) from0" "node_tile n = from0" by (simp_all add: n_def)
    have r0: "world_grid.room_for w 0" using lim nn by (simp add: world_grid.room_for_def maxNodes_def)
    have nf: "n_f n = est to ?mc from0"
      using world_grid.heuristic_est[OF wk fit r0] by (simp add: n_def h_def)
    note i = world_grid.init_inv[OF fit wk(1) ws nt, where k = "-1", folded ws0_def]
    note o' = world_grid.init_opt[where hh = "est to ?mc" and k = "-1", OF fit wk(1) ws nt nf, folded ws0_def]
    have win: "world_grid.within w (maxNodes * (1414 * 18)) to"
      using lim fit wk by (simp add: world_grid.within_def world_grid.room_for_def maxNodes_def)
    show ?thesis
      by (rule world_grid.search_cheapest[OF Grid_of_view refl refl i(1) i(2)[OF wk(2)] refl win wk(1) _ r alt])
        (use o' in simp)
  qed
qed

theorem FindPath_cheapest_witness:
  "route_cost (MoveCostUnits meadow) [mk_tile 0 0, mk_tile 1 0, mk_tile 2 1]
    \<le> route_cost (MoveCostUnits meadow) [mk_tile 0 0, mk_tile 0 1, mk_tile 1 1, mk_tile 2 1]"
proof (rule FindPath_cheapest[OF wf_meadow _ _ meadow_query refl])
  show "route (IsWalkable meadow) [mk_tile 0 0, mk_tile 0 1, mk_tile 1 1, mk_tile 2 1]"
    by (simp add: route_def meadow_walkable IsAdjacent_def IsDiagonalTo_def World.abs32_def go_arith)
qed (simp_all add: NewAStar_def no_limits_def MinMoveCostUnits_def meadow_def)

end
