(* ===== verification/Economy.thy ===== *)
theory Economy
  imports World
begin

section \<open>Resources, costs and the stocks of a city\<close>

text \<open>
  Models internal/domain/economy/economy.go and internal/domain/deposit/deposit.go: the closed
  catalogue of resources, costs in several resources, the stock of a city with its debit and
  credit, and what is left of the resource of a tile. Proved: a debit is all or nothing and
  never goes below zero; a cost that Costs.CanAfford accepts can be debited line by line in
  any order of its lines; a load takes from a tile exactly what it carries away.
\<close>

subsection \<open>Resources and costs (economy.go)\<close>

type_synonym resource = string

definition ResourceWood :: resource where "ResourceWood = ''WOOD''"
definition ResourceStone :: resource where "ResourceStone = ''STONE''"

definition Valid_resource :: "resource \<Rightarrow> bool" where
  "Valid_resource r \<longleftrightarrow> r = ResourceWood \<or> r = ResourceStone"

definition Resources :: "resource list" where
  "Resources = [ResourceWood, ResourceStone]"

record cost =
  k_Resource :: resource
  k_Amount :: int64

type_synonym costs = "cost list"

datatype economy_error = ErrInsufficientResources | ErrInvalidAmount

fun validate_costs_loop :: "resource set \<Rightarrow> costs \<Rightarrow> economy_error option" where
  "validate_costs_loop seen [] = None"
| "validate_costs_loop seen (c # cs) =
     (if \<not> Valid_resource (k_Resource c) \<or> k_Amount c < 0 \<or> k_Resource c \<in> seen then Some ErrInvalidAmount
      else validate_costs_loop (insert (k_Resource c) seen) cs)"

definition Validate_costs :: "costs \<Rightarrow> economy_error option" where
  "Validate_costs cs = validate_costs_loop {} cs"

record stock =
  s_Resource :: resource
  s_Amount :: int64
  s_Version :: int64

definition NewStock :: "resource \<Rightarrow> stock" where
  "NewStock r = \<lparr>s_Resource = r, s_Amount = 0, s_Version = 0\<rparr>"

definition CanAfford :: "stock \<Rightarrow> cost \<Rightarrow> bool" where
  "CanAfford s c \<longleftrightarrow> k_Resource c = s_Resource s \<and> 0 \<le> k_Amount c \<and> k_Amount c \<le> s_Amount s"

definition CanAfford_costs :: "costs \<Rightarrow> (resource \<Rightarrow> stock option) \<Rightarrow> bool" where
  "CanAfford_costs cs stock_of =
     (if Validate_costs cs \<noteq> None then False
      else list_all (\<lambda>c. case stock_of (k_Resource c) of None \<Rightarrow> False | Some s \<Rightarrow> CanAfford s c) cs)"

definition Debit :: "stock \<Rightarrow> cost \<Rightarrow> economy_error + stock" where
  "Debit s c =
     (if k_Resource c \<noteq> s_Resource s \<or> k_Amount c < 0 then Err ErrInvalidAmount
      else if s_Amount s < k_Amount c then Err ErrInsufficientResources
      else Ok (s\<lparr>s_Amount := i64 (s_Amount s - k_Amount c), s_Version := i64 (s_Version s + 1)\<rparr>))"

definition Credit :: "stock \<Rightarrow> int64 \<Rightarrow> economy_error + stock" where
  "Credit s n =
     (if n < 0 then Err ErrInvalidAmount
      else Ok (s\<lparr>s_Amount := i64 (s_Amount s + n), s_Version := i64 (s_Version s + 1)\<rparr>))"

definition wf_stock :: "stock \<Rightarrow> bool" where
  "wf_stock s \<longleftrightarrow> 0 \<le> s_Amount s \<and> s_Amount s \<le> 2 ^ 62 \<and> 0 \<le> s_Version s \<and> s_Version s \<le> 2 ^ 62"

lemma Debit_Ok:
  assumes "wf_stock s" "CanAfford s c"
  shows "Debit s c = Ok (s\<lparr>s_Amount := s_Amount s - k_Amount c, s_Version := s_Version s + 1\<rparr>)"
  using assms by (simp add: Debit_def CanAfford_def wf_stock_def i64_id)

lemma Debit_cases: "(\<exists>s'. Debit s c = Ok s') \<longleftrightarrow> CanAfford s c"
  by (auto simp: Debit_def CanAfford_def)

lemma Credit_Ok:
  assumes "wf_stock s" "0 \<le> n" "n \<le> 2 ^ 61"
  shows "Credit s n = Ok (s\<lparr>s_Amount := s_Amount s + n, s_Version := s_Version s + 1\<rparr>)"
  using assms by (simp add: Credit_def wf_stock_def i64_id)

text \<open>
  a debit succeeds exactly when the stock covers the cost, in which case the amount falls
  by the cost, stays non-negative and the version grows; crediting the cost back restores the
  amount, at a yet higher version. A refused debit names the reason.
\<close>

theorem Debit_exact:
  assumes "wf_stock s"
  shows "case Debit s c of
      Ok s' \<Rightarrow> CanAfford s c \<and> s_Amount s' = s_Amount s - k_Amount c \<and> 0 \<le> s_Amount s'
        \<and> s_Version s' = s_Version s + 1
        \<and> (\<exists>s''. Credit s' (k_Amount c) = Ok s'' \<and> s_Amount s'' = s_Amount s \<and> s_Version s < s_Version s'')
    | Err e \<Rightarrow> \<not> CanAfford s c \<and> (e = ErrInsufficientResources \<longleftrightarrow>
        k_Resource c = s_Resource s \<and> 0 \<le> k_Amount c \<and> s_Amount s < k_Amount c)"
proof (cases "CanAfford s c")
  case True
  with assms have "i64 (s_Amount s) = s_Amount s" "i64 (s_Version s + 1 + 1) = s_Version s + 2"
    by (simp_all add: wf_stock_def i64_id)
  with assms True Debit_Ok[OF assms True] show ?thesis
    by (auto simp: CanAfford_def Credit_def)
next
  case False
  then show ?thesis by (auto simp: Debit_def CanAfford_def)
qed

theorem Debit_exact_witness:
  "Debit \<lparr>s_Resource = ResourceWood, s_Amount = 50, s_Version = 3\<rparr> \<lparr>k_Resource = ResourceWood, k_Amount = 30\<rparr> =
     Ok \<lparr>s_Resource = ResourceWood, s_Amount = 20, s_Version = 4\<rparr>"
proof -
  let ?s = "\<lparr>s_Resource = ResourceWood, s_Amount = 50, s_Version = 3\<rparr>"
  have "wf_stock ?s" by (simp add: wf_stock_def)
  from Debit_exact[OF this, of "\<lparr>k_Resource = ResourceWood, k_Amount = 30\<rparr>"] show ?thesis
    by (simp add: Debit_def i64_id)
qed

lemma validate_costs_loop_None:
  "validate_costs_loop seen cs = None \<longleftrightarrow>
    (\<forall>c \<in> set cs. Valid_resource (k_Resource c) \<and> 0 \<le> k_Amount c \<and> k_Resource c \<notin> seen) \<and>
    distinct (map k_Resource cs)"
proof (induction cs arbitrary: seen)
  case (Cons c cs)
  have "(\<forall>d \<in> set cs. k_Resource d \<noteq> k_Resource c) \<longleftrightarrow> k_Resource c \<notin> k_Resource ` set cs"
    by (metis image_iff)
  with Cons show ?case by auto
qed simp

lemma Validate_costs_None:
  "Validate_costs cs = None \<longleftrightarrow>
    (\<forall>c \<in> set cs. Valid_resource (k_Resource c) \<and> 0 \<le> k_Amount c) \<and> distinct (map k_Resource cs)"
  by (simp add: Validate_costs_def validate_costs_loop_None)

text \<open>
  What a whole cost does to the stocks of a city: its lines debited one after the other. This is the
  specification of the loop of handleAdvanceEra (advance.go), which runs after CanAfford; the loop
  itself, with the deposits not flushed, the deltas and the way back, is reserve_costs of
  City_Economy.thy, where it is proved to leave the same stocks (reserve_costs_debit_lines).
\<close>

fun debit_lines :: "costs \<Rightarrow> (resource \<Rightarrow> stock option) \<Rightarrow> economy_error + (resource \<Rightarrow> stock option)" where
  "debit_lines [] m = Ok m"
| "debit_lines (c # cs) m =
     (case m (k_Resource c) of
        None \<Rightarrow> Err ErrInvalidAmount
      | Some s \<Rightarrow> (case Debit s c of Err e \<Rightarrow> Err e | Ok s' \<Rightarrow> debit_lines cs (m(k_Resource c \<mapsto> s'))))"

lemma debit_lines_Ok:
  assumes "distinct (map k_Resource cs)"
    and "\<And>c. c \<in> set cs \<Longrightarrow> \<exists>s. m (k_Resource c) = Some s \<and> wf_stock s \<and> CanAfford s c"
  shows "\<exists>m'. debit_lines cs m = Ok m' \<and> (\<forall>r. r \<notin> k_Resource ` set cs \<longrightarrow> m' r = m r) \<and>
    (\<forall>c \<in> set cs. \<forall>s. m (k_Resource c) = Some s \<longrightarrow>
       m' (k_Resource c) = Some (s\<lparr>s_Amount := s_Amount s - k_Amount c, s_Version := s_Version s + 1\<rparr>))"
  using assms
proof (induction cs arbitrary: m)
  case (Cons c cs)
  obtain s where s: "m (k_Resource c) = Some s" "wf_stock s" "CanAfford s c" using Cons.prems(2)[of c] by auto
  let ?m = "m(k_Resource c \<mapsto> s\<lparr>s_Amount := s_Amount s - k_Amount c, s_Version := s_Version s + 1\<rparr>)"
  have ne: "k_Resource d \<noteq> k_Resource c" if "d \<in> set cs" for d
    using Cons.prems(1) imageI[OF that, of k_Resource] by auto
  have "\<exists>s. ?m (k_Resource d) = Some s \<and> wf_stock s \<and> CanAfford s d" if "d \<in> set cs" for d
    using Cons.prems(2)[of d] ne[OF that] that by auto
  from Cons.IH[OF _ this] Cons.prems(1) obtain m' where m': "debit_lines cs ?m = Ok m'"
    "\<And>r. r \<notin> k_Resource ` set cs \<Longrightarrow> m' r = ?m r"
    "\<And>d s. d \<in> set cs \<Longrightarrow> ?m (k_Resource d) = Some s \<Longrightarrow>
       m' (k_Resource d) = Some (s\<lparr>s_Amount := s_Amount s - k_Amount d, s_Version := s_Version s + 1\<rparr>)" by fastforce
  have "k_Resource c \<notin> k_Resource ` set cs" using Cons.prems(1) by simp
  then show ?case using m' s Debit_Ok[OF s(2,3)] ne by (auto simp: image_iff)
qed simp

lemma CanAfford_costs_debit:
  assumes "CanAfford_costs cs m" and "\<forall>s \<in> ran m. wf_stock s"
  shows "\<exists>m'. debit_lines cs m = Ok m' \<and> (\<forall>r. r \<notin> k_Resource ` set cs \<longrightarrow> m' r = m r) \<and>
    (\<forall>c \<in> set cs. \<exists>s s'. m (k_Resource c) = Some s \<and> m' (k_Resource c) = Some s' \<and>
       s_Amount s' = s_Amount s - k_Amount c \<and> 0 \<le> s_Amount s' \<and> s_Version s' = s_Version s + 1)"
proof -
  have c: "distinct (map k_Resource cs)" using assms(1) by (simp add: CanAfford_costs_def Validate_costs_None split: if_splits)
  have a: "\<exists>s. m (k_Resource c) = Some s \<and> wf_stock s \<and> CanAfford s c" if "c \<in> set cs" for c
  proof -
    from assms(1) that obtain s where "m (k_Resource c) = Some s" "CanAfford s c"
      by (fastforce simp: CanAfford_costs_def list_all_iff split: if_splits option.splits)
    with assms(2) show ?thesis by (auto intro: ranI)
  qed
  from debit_lines_Ok[OF c a] obtain m' where m': "debit_lines cs m = Ok m'"
    "\<forall>r. r \<notin> k_Resource ` set cs \<longrightarrow> m' r = m r"
    "\<forall>c \<in> set cs. \<forall>s. m (k_Resource c) = Some s \<longrightarrow>
       m' (k_Resource c) = Some (s\<lparr>s_Amount := s_Amount s - k_Amount c, s_Version := s_Version s + 1\<rparr>)" by blast
  have "\<exists>s s'. m (k_Resource c) = Some s \<and> m' (k_Resource c) = Some s' \<and>
       s_Amount s' = s_Amount s - k_Amount c \<and> 0 \<le> s_Amount s' \<and> s_Version s' = s_Version s + 1" if "c \<in> set cs" for c
    using a[OF that] m'(3) that by (fastforce simp: CanAfford_def)
  with m' show ?thesis by blast
qed

text \<open>
  C38: a cost that Costs.CanAfford accepts is debited whole: every line succeeds, each stock it
  names falls by exactly its line, stays non-negative, and no other stock changes.
\<close>

theorem CanAfford_debits_all:
  assumes "CanAfford_costs cs m" and "\<forall>s \<in> ran m. wf_stock s"
  shows "\<exists>m'. debit_lines cs m = Ok m' \<and> (\<forall>r. r \<notin> k_Resource ` set cs \<longrightarrow> m' r = m r) \<and>
    (\<forall>c \<in> set cs. \<exists>s s'. m (k_Resource c) = Some s \<and> m' (k_Resource c) = Some s' \<and>
       s_Amount s' = s_Amount s - k_Amount c \<and> 0 \<le> s_Amount s' \<and> s_Version s' = s_Version s + 1)"
  by (rule CanAfford_costs_debit[OF assms])

theorem CanAfford_debits_all_witness:
  "\<exists>m'. debit_lines [\<lparr>k_Resource = ResourceWood, k_Amount = 30\<rparr>, \<lparr>k_Resource = ResourceStone, k_Amount = 20\<rparr>]
      [ResourceWood \<mapsto> \<lparr>s_Resource = ResourceWood, s_Amount = 50, s_Version = 3\<rparr>,
       ResourceStone \<mapsto> \<lparr>s_Resource = ResourceStone, s_Amount = 20, s_Version = 1\<rparr>] = Ok m'"
proof -
  let ?m = "[ResourceWood \<mapsto> \<lparr>s_Resource = ResourceWood, s_Amount = 50, s_Version = 3\<rparr>,
       ResourceStone \<mapsto> \<lparr>s_Resource = ResourceStone, s_Amount = 20, s_Version = 1\<rparr>]"
  let ?cs = "[\<lparr>k_Resource = ResourceWood, k_Amount = 30\<rparr>, \<lparr>k_Resource = ResourceStone, k_Amount = 20\<rparr>]"
  have "CanAfford_costs ?cs ?m"
    by (simp add: CanAfford_costs_def Validate_costs_def Valid_resource_def CanAfford_def ResourceWood_def ResourceStone_def)
  moreover have "\<forall>s \<in> ran ?m. wf_stock s" by (auto simp: wf_stock_def ran_def split: if_splits)
  ultimately show ?thesis using CanAfford_debits_all by blast
qed

subsection \<open>What a tile has left (deposit.go)\<close>

record layer =
  l_Name :: string
  l_Terrain :: byte
  l_Resource :: resource
  l_Capacity :: int32
  l_RegrowAfterMs :: int64
  l_SearchRadius :: int32
  l_SearchAttempts :: int

definition dayMs :: int64 where "dayMs = 24 * 60 * 60 * 1000"

definition Forest_layer :: layer where
  "Forest_layer = \<lparr>l_Name = ''forest'', l_Terrain = Forest, l_Resource = ResourceWood, l_Capacity = 100,
     l_RegrowAfterMs = dayMs, l_SearchRadius = 6, l_SearchAttempts = 8\<rparr>"

definition Hill_layer :: layer where
  "Hill_layer = \<lparr>l_Name = ''hill'', l_Terrain = Hill, l_Resource = ResourceStone, l_Capacity = 100,
     l_RegrowAfterMs = dayMs, l_SearchRadius = 6, l_SearchAttempts = 8\<rparr>"

definition FoundingForestTiles :: nat where "FoundingForestTiles = 10"

definition Layers :: "layer list" where "Layers = [Forest_layer, Hill_layer]"

definition ForTerrain :: "byte \<Rightarrow> layer option" where
  "ForTerrain t = find (\<lambda>l. l_Terrain l = t) Layers"

definition ForResource :: "resource \<Rightarrow> layer option" where
  "ForResource r = find (\<lambda>l. l_Resource l = r) Layers"

record dep_state =
  d_Remaining :: int32
  d_RegrowsAtMs :: int64

definition Regrown :: "dep_state \<Rightarrow> int64 \<Rightarrow> bool" where
  "Regrown s nowMs \<longleftrightarrow> d_RegrowsAtMs s \<le> nowMs"

definition RemainingAt :: "layer \<Rightarrow> dep_state \<Rightarrow> int64 \<Rightarrow> int32" where
  "RemainingAt l s nowMs = (if Regrown s nowMs then l_Capacity l else d_Remaining s)"

definition Take :: "layer \<Rightarrow> int32 \<Rightarrow> int32 \<Rightarrow> int64 \<Rightarrow> int32 \<times> dep_state" where
  "Take l remaining carry atMs =
     (let taken = min (max carry 0) (max remaining 0)
      in (taken, \<lparr>d_Remaining = i32 (remaining - taken), d_RegrowsAtMs = i64 (atMs + l_RegrowAfterMs l)\<rparr>))"

definition Validate_deposit :: "layer \<Rightarrow> dep_state \<Rightarrow> bool" where
  "Validate_deposit l s \<longleftrightarrow> \<not> (d_Remaining s < 0 \<or> l_Capacity l < d_Remaining s)"

lemma ForTerrain_eq:
  "ForTerrain t = (if t = Forest then Some Forest_layer else if t = Hill then Some Hill_layer else None)"
  by (simp add: ForTerrain_def Layers_def Forest_layer_def Hill_layer_def eq_commute[of _ t])

text \<open>
  a load on a tile with a valid entry takes what the tile loses, never more than it carries
  nor than there is, and leaves a valid entry: nothing is created or destroyed
  (INV-ECON-007 and INV-ECON-008). The tile counts as full again exactly from the instant of the
  load plus the layer's regrowth time on.
\<close>

theorem Take_conserves:
  assumes "l \<in> set Layers" "Validate_deposit l s" "0 \<le> carry" "0 \<le> atMs" "atMs \<le> 2 ^ 62"
    and "Take l (RemainingAt l s atMs) carry atMs = (taken, after)"
  shows "taken + d_Remaining after = RemainingAt l s atMs \<and> 0 \<le> taken \<and> taken \<le> carry
    \<and> Validate_deposit l after \<and> (taken < carry \<longrightarrow> d_Remaining after = 0)
    \<and> (\<forall>now. RemainingAt l after now = (if atMs + dayMs \<le> now then l_Capacity l else d_Remaining after))"
proof -
  have cap: "l_Capacity l = 100" "l_RegrowAfterMs l = dayMs"
    using assms(1) by (auto simp: Layers_def Forest_layer_def Hill_layer_def)
  have r: "0 \<le> RemainingAt l s atMs" "RemainingAt l s atMs \<le> 100"
    using assms(2) cap by (auto simp: RemainingAt_def Validate_deposit_def)
  have i: "i64 (atMs + dayMs) = atMs + dayMs" using assms(4,5) by (simp add: dayMs_def i64_id)
  have t: "taken = min carry (RemainingAt l s atMs)" "after = \<lparr>d_Remaining = i32 (RemainingAt l s atMs - taken), d_RegrowsAtMs = atMs + dayMs\<rparr>"
    using assms(3,6) r by (auto simp: Take_def Let_def cap i)
  have "i32 (RemainingAt l s atMs - taken) = RemainingAt l s atMs - taken" using r assms(3) t(1) by (simp add: i32_id)
  then have a: "d_Remaining after = RemainingAt l s atMs - taken" "d_RegrowsAtMs after = atMs + dayMs" using t by simp_all
  have "RemainingAt l after now = (if atMs + dayMs \<le> now then l_Capacity l else d_Remaining after)" for now
    by (simp add: RemainingAt_def[of l after] Regrown_def a(2))
  moreover have "Validate_deposit l after" using a(1) t(1) r assms(3) by (auto simp: Validate_deposit_def cap)
  ultimately show ?thesis using a(1) t(1) r assms(3) by auto
qed

theorem Take_conserves_witness:
  "Take Forest_layer (RemainingAt Forest_layer \<lparr>d_Remaining = 4, d_RegrowsAtMs = 9000\<rparr> 1000) 10 1000 =
     (4, \<lparr>d_Remaining = 0, d_RegrowsAtMs = 86401000\<rparr>)"
proof -
  let ?s = "\<lparr>d_Remaining = 4, d_RegrowsAtMs = 9000\<rparr>"
  obtain t a where ta: "Take Forest_layer (RemainingAt Forest_layer ?s 1000) 10 1000 = (t, a)" by fastforce
  have "Forest_layer \<in> set Layers" "Validate_deposit Forest_layer ?s"
    by (simp_all add: Layers_def Validate_deposit_def Forest_layer_def)
  from Take_conserves[OF this _ _ _ ta] ta show ?thesis
    by (auto simp: RemainingAt_def Regrown_def Take_def Forest_layer_def dayMs_def i64_id i32_id)
qed

end
