(* ===== verification/City.thy ===== *)
theory City
  imports World
begin

section \<open>Cities: presence, protection and the urban zone\<close>

text \<open>
  Models internal/domain/city/city.go. Instants and durations are integers of nanoseconds; a
  nil *time.Time is None. Proved: the presence automaton allows exactly the four transitions of
  INV-CITY-004 besides staying, every transition the server derives is one of them, a
  protection ends when it should, and the spawn ring lies just outside the urban zone.
\<close>

type_synonym uuid = "128 word"
type_synonym instant = int
type_synonym duration = int

datatype presence_state = PresenceOnline | PresenceOfflinePending | PresenceProtected | PresenceOther string

definition Valid_presence :: "presence_state \<Rightarrow> bool" where
  "Valid_presence p = (case p of PresenceOther _ \<Rightarrow> False | _ \<Rightarrow> True)"

type_synonym era = string

definition EraStone :: era where "EraStone = ''STONE_AGE''"
definition EraBronze :: era where "EraBronze = ''BRONZE_AGE''"
definition EraIron :: era where "EraIron = ''IRON_AGE''"
definition EraCastle :: era where "EraCastle = ''CASTLE_AGE''"

record era_definition =
  e_Code :: era
  e_Name :: string
  e_Ordinal :: int32
  e_PopulationCap :: int32

record city =
  c_ID :: int64
  c_OwnerPlayerID :: uuid
  c_Name :: string
  c_CenterX :: int32
  c_CenterY :: int32
  c_Era :: era
  c_Population :: int32
  c_PopulationLimit :: int32
  c_PresenceState :: presence_state
  c_Civilization :: string
  c_LastOnlineAt :: "instant option"
  c_LastOfflineAt :: "instant option"
  c_ProtectionUntil :: "instant option"
  c_Version :: int32

definition Center :: "city \<Rightarrow> tile" where
  "Center c = mk_tile (c_CenterX c) (c_CenterY c)"

definition HasPopulationRoom :: "city \<Rightarrow> int32 \<Rightarrow> bool" where
  "HasPopulationRoom c n \<longleftrightarrow> i32 (c_Population c + n) \<le> c_PopulationLimit c"

definition IsProtected :: "city \<Rightarrow> bool" where
  "IsProtected c \<longleftrightarrow> c_PresenceState c = PresenceProtected"

definition ProtectedAt :: "city \<Rightarrow> instant \<Rightarrow> bool" where
  "ProtectedAt c now =
     (if \<not> IsProtected c then False
      else case c_ProtectionUntil c of None \<Rightarrow> True | Some u \<Rightarrow> now < u)"

definition ProtectionEndsAt :: "instant option \<Rightarrow> duration \<Rightarrow> duration \<Rightarrow> instant option" where
  "ProtectionEndsAt lastOfflineAt cooldown mx =
     (case lastOfflineAt of
        None \<Rightarrow> None
      | Some t \<Rightarrow> if mx \<le> 0 then None else Some (t + (cooldown + mx)))"

datatype city_error = ErrNotFound_city | ErrProtected | ErrPopulationLimit | ErrInvalidTransition_city

definition CanTransition :: "presence_state \<Rightarrow> presence_state \<Rightarrow> bool" where
  "CanTransition src dst =
     (if \<not> Valid_presence src \<or> \<not> Valid_presence dst then False
      else if src = dst then True
      else case src of
          PresenceOnline \<Rightarrow> dst = PresenceOfflinePending
        | PresenceOfflinePending \<Rightarrow> dst = PresenceProtected \<or> dst = PresenceOnline
        | PresenceProtected \<Rightarrow> dst = PresenceOnline
        | PresenceOther _ \<Rightarrow> False)"

definition NextStateOnDisconnect :: "presence_state \<Rightarrow> presence_state" where
  "NextStateOnDisconnect current = (if current = PresenceOnline then PresenceOfflinePending else current)"

definition ShouldEngageProtection ::
  "presence_state \<Rightarrow> instant option \<Rightarrow> duration \<Rightarrow> instant \<Rightarrow> bool" where
  "ShouldEngageProtection state lastOfflineAt cooldown now =
     (case lastOfflineAt of
        None \<Rightarrow> False
      | Some t \<Rightarrow> if state \<noteq> PresenceOfflinePending then False else \<not> now < t + cooldown)"

subsection \<open>The urban zone\<close>

definition UrbanRadius :: int32 where "UrbanRadius = 1"

definition UrbanBounds :: "city \<Rightarrow> int32 \<times> int32 \<times> int32 \<times> int32" where
  "UrbanBounds c = (i32 (c_CenterX c - UrbanRadius), i32 (c_CenterY c - UrbanRadius),
                    i32 (c_CenterX c + UrbanRadius), i32 (c_CenterY c + UrbanRadius))"

definition Occupies :: "city \<Rightarrow> int32 \<Rightarrow> int32 \<Rightarrow> bool" where
  "Occupies c x y =
     (let (minX, minY, maxX, maxY) = UrbanBounds c
      in minX \<le> x \<and> x \<le> maxX \<and> minY \<le> y \<and> y \<le> maxY)"

definition SpawnRadius :: int32 where "SpawnRadius = 2"

definition spawnOffsets :: "tile list" where
  "spawnOffsets =
     [mk_tile SpawnRadius 0, mk_tile (- SpawnRadius) 0,
      mk_tile 0 SpawnRadius, mk_tile 0 (- SpawnRadius),
      mk_tile SpawnRadius SpawnRadius, mk_tile (- SpawnRadius) (- SpawnRadius),
      mk_tile SpawnRadius (- SpawnRadius), mk_tile (- SpawnRadius) SpawnRadius]"

definition SpawnTilesAround :: "tile \<Rightarrow> tile list" where
  "SpawnTilesAround center =
     map (\<lambda>off. mk_tile (i32 (tX center + tX off)) (i32 (tY center + tY off))) spawnOffsets"

definition FirstSpawnTile :: "city \<Rightarrow> (int32 \<Rightarrow> int32 \<Rightarrow> bool) \<Rightarrow> tile option" where
  "FirstSpawnTile c free = find (\<lambda>t. free (tX t) (tY t)) (SpawnTilesAround (Center c))"

definition IsAdjacent_city :: "city \<Rightarrow> int32 \<Rightarrow> int32 \<Rightarrow> bool" where
  "IsAdjacent_city c x y =
     (if Occupies c x y then False
      else let (minX, minY, maxX, maxY) = UrbanBounds c
           in i32 (minX - 1) \<le> x \<and> x \<le> i32 (maxX + 1) \<and> i32 (minY - 1) \<le> y \<and> y \<le> i32 (maxY + 1))"

subsection \<open>The presence automaton\<close>

lemma CanTransition_disconnect: "Valid_presence s \<Longrightarrow> CanTransition s (NextStateOnDisconnect s)"
  by (auto simp: CanTransition_def NextStateOnDisconnect_def Valid_presence_def split: presence_state.splits)

lemma CanTransition_engage: "ShouldEngageProtection s t cd now \<Longrightarrow> CanTransition s PresenceProtected"
  by (auto simp: ShouldEngageProtection_def CanTransition_def Valid_presence_def split: option.splits if_splits)

text \<open>
  the presence automaton is the table of INV-CITY-004 besides staying put, for the three
  known states only, so a city never goes from ONLINE to PROTECTED in one transition. The
  states the server derives, on a disconnection and when the cooldown is over, follow it.
\<close>

theorem CanTransition_table:
  "(CanTransition src dst \<longleftrightarrow> Valid_presence src \<and>
    (src = dst \<or> (src, dst) \<in> {(PresenceOnline, PresenceOfflinePending), (PresenceOfflinePending, PresenceProtected),
       (PresenceOfflinePending, PresenceOnline), (PresenceProtected, PresenceOnline)}))
   \<and> (Valid_presence src \<longrightarrow> CanTransition src (NextStateOnDisconnect src))
   \<and> (ShouldEngageProtection src off cooldown now \<longrightarrow> CanTransition src PresenceProtected)"
proof (intro conjI impI)
  show "CanTransition src dst \<longleftrightarrow> Valid_presence src \<and>
    (src = dst \<or> (src, dst) \<in> {(PresenceOnline, PresenceOfflinePending), (PresenceOfflinePending, PresenceProtected),
       (PresenceOfflinePending, PresenceOnline), (PresenceProtected, PresenceOnline)})"
    by (cases src; cases dst) (auto simp: CanTransition_def Valid_presence_def)
qed (simp_all add: CanTransition_disconnect CanTransition_engage)

theorem CanTransition_table_witness:
  "CanTransition PresenceOfflinePending PresenceProtected \<and> \<not> CanTransition PresenceOnline PresenceProtected"
  using CanTransition_table[of PresenceOfflinePending PresenceProtected "Some 0" 5 9]
    CanTransition_table[of PresenceOnline PresenceProtected None 0 0]
  by (simp add: ShouldEngageProtection_def Valid_presence_def)

text \<open>
  a city whose protection is engaged when its cooldown is over, with the end of protection
  computed from the same disconnection, is protected from then on exactly until the cooldown
  plus the cap, and without end when there is no cap.
\<close>

theorem protection_window:
  assumes "ShouldEngageProtection (c_PresenceState c) (c_LastOfflineAt c) cooldown t0" "t0 \<le> now"
    and "c' = c\<lparr>c_PresenceState := PresenceProtected,
                c_ProtectionUntil := ProtectionEndsAt (c_LastOfflineAt c) cooldown mx\<rparr>"
  shows "CanTransition (c_PresenceState c) (c_PresenceState c') \<and> (\<exists>off. c_LastOfflineAt c = Some off \<and> off + cooldown \<le> now \<and>
    (ProtectedAt c' now \<longleftrightarrow> mx \<le> 0 \<or> now < off + cooldown + mx))"
  using assms CanTransition_engage[OF assms(1)]
  by (auto simp: ShouldEngageProtection_def ProtectedAt_def IsProtected_def ProtectionEndsAt_def
      split: option.splits if_splits)

subsection \<open>The urban zone and the ring around it\<close>

definition inner_city :: "city \<Rightarrow> bool" where
  "inner_city c \<longleftrightarrow> - 2147483600 \<le> c_CenterX c \<and> c_CenterX c \<le> 2147483600 \<and>
     - 2147483600 \<le> c_CenterY c \<and> c_CenterY c \<le> 2147483600"

lemma UrbanBounds_eq:
  "inner_city c \<Longrightarrow> UrbanBounds c = (c_CenterX c - 1, c_CenterY c - 1, c_CenterX c + 1, c_CenterY c + 1)"
  by (simp add: UrbanBounds_def UrbanRadius_def inner_city_def i32_id)

lemma Occupies_iff:
  "inner_city c \<Longrightarrow> Occupies c x y \<longleftrightarrow> \<bar>x - c_CenterX c\<bar> \<le> 1 \<and> \<bar>y - c_CenterY c\<bar> \<le> 1"
  by (auto simp: Occupies_def UrbanBounds_eq)

lemma IsAdjacent_city_iff:
  assumes "inner_city c"
  shows "IsAdjacent_city c x y \<longleftrightarrow> max \<bar>x - c_CenterX c\<bar> \<bar>y - c_CenterY c\<bar> = 2"
proof -
  have i: "i32 (c_CenterX c - 1 - 1) = c_CenterX c - 2" "i32 (c_CenterX c + 1 + 1) = c_CenterX c + 2"
    "i32 (c_CenterY c - 1 - 1) = c_CenterY c - 2" "i32 (c_CenterY c + 1 + 1) = c_CenterY c + 2"
    using assms by (simp_all add: inner_city_def i32_id)
  have "IsAdjacent_city c x y \<longleftrightarrow> \<not> (\<bar>x - c_CenterX c\<bar> \<le> 1 \<and> \<bar>y - c_CenterY c\<bar> \<le> 1) \<and>
      c_CenterX c - 2 \<le> x \<and> x \<le> c_CenterX c + 2 \<and> c_CenterY c - 2 \<le> y \<and> y \<le> c_CenterY c + 2"
    unfolding IsAdjacent_city_def UrbanBounds_eq[OF assms] Let_def prod.case i Occupies_iff[OF assms] by simp
  then show ?thesis by arith
qed

lemma SpawnTiles_adjacent:
  assumes "inner_city c" "t \<in> set (SpawnTilesAround (Center c))"
  shows "IsAdjacent_city c (tX t) (tY t)"
proof -
  from assms(2) obtain off where off: "off \<in> set spawnOffsets"
    "t = mk_tile (i32 (c_CenterX c + tX off)) (i32 (c_CenterY c + tY off))"
    by (auto simp: SpawnTilesAround_def Center_def)
  have b: "\<bar>tX off\<bar> \<le> 2" "\<bar>tY off\<bar> \<le> 2" "max \<bar>tX off\<bar> \<bar>tY off\<bar> = 2"
    using off(1) by (auto simp: spawnOffsets_def SpawnRadius_def)
  then have "i32 (c_CenterX c + tX off) = c_CenterX c + tX off" "i32 (c_CenterY c + tY off) = c_CenterY c + tY off"
    using assms(1) by (auto simp: inner_city_def i32_id)
  with off b(3) show ?thesis by (simp add: IsAdjacent_city_iff[OF assms(1)])
qed

text \<open>
  FirstSpawnTile returns a free tile that touches the urban zone without being in it, the
  first in the fixed order; it returns none exactly when none of the eight is free.
\<close>

theorem FirstSpawnTile_spec:
  assumes "inner_city c"
  shows "case FirstSpawnTile c free of
      Some t \<Rightarrow> free (tX t) (tY t) \<and> IsAdjacent_city c (tX t) (tY t) \<and> \<not> Occupies c (tX t) (tY t) \<and>
        (\<exists>i < 8. SpawnTilesAround (Center c) ! i = t \<and>
          (\<forall>j < i. \<not> free (tX (SpawnTilesAround (Center c) ! j)) (tY (SpawnTilesAround (Center c) ! j))))
    | None \<Rightarrow> \<forall>t \<in> set (SpawnTilesAround (Center c)). \<not> free (tX t) (tY t)"
proof -
  have len: "length (SpawnTilesAround (Center c)) = 8" by (simp add: SpawnTilesAround_def spawnOffsets_def)
  show ?thesis
  proof (cases "FirstSpawnTile c free")
    case None
    then have "find (\<lambda>t. free (tX t) (tY t)) (SpawnTilesAround (Center c)) = None" by (simp add: FirstSpawnTile_def)
    with None show ?thesis by (auto dest: find_NoneD)
  next
    case (Some t)
    then obtain i where i: "i < 8" "SpawnTilesAround (Center c) ! i = t" "free (tX t) (tY t)"
      "\<forall>j < i. \<not> free (tX (SpawnTilesAround (Center c) ! j)) (tY (SpawnTilesAround (Center c) ! j))"
      unfolding FirstSpawnTile_def find_Some_iff len by auto
    then have "t \<in> set (SpawnTilesAround (Center c))" using len nth_mem by metis
    from SpawnTiles_adjacent[OF assms this] Some i show ?thesis
      by (auto simp: IsAdjacent_city_def split: if_splits)
  qed
qed

definition sample_city :: city where
  "sample_city = \<lparr>c_ID = 1, c_OwnerPlayerID = 7, c_Name = ''A'', c_CenterX = 10, c_CenterY = 10, c_Era = EraStone,
     c_Population = 3, c_PopulationLimit = 20, c_PresenceState = PresenceOfflinePending, c_Civilization = ''BYZANTINES'',
     c_LastOnlineAt = Some 0, c_LastOfflineAt = Some 100, c_ProtectionUntil = None, c_Version = 1\<rparr>"

theorem protection_window_witness:
  "ProtectedAt (sample_city\<lparr>c_PresenceState := PresenceProtected, c_ProtectionUntil := ProtectionEndsAt (Some 100) 50 1000\<rparr>) 1149
   \<and> \<not> ProtectedAt (sample_city\<lparr>c_PresenceState := PresenceProtected, c_ProtectionUntil := ProtectionEndsAt (Some 100) 50 1000\<rparr>) 1150"
  using protection_window[of sample_city 50 150 1149 _ 1000] protection_window[of sample_city 50 150 1150 _ 1000]
  by (simp add: sample_city_def ShouldEngageProtection_def)

theorem FirstSpawnTile_spec_witness:
  "FirstSpawnTile sample_city (\<lambda>x y. y = 12) = Some (mk_tile 10 12) \<and> \<not> Occupies sample_city 10 12"
proof -
  have "inner_city sample_city" by (simp add: inner_city_def sample_city_def)
  from FirstSpawnTile_spec[OF this, of "\<lambda>x y. y = 12"] show ?thesis
    by (simp add: FirstSpawnTile_def SpawnTilesAround_def spawnOffsets_def SpawnRadius_def Center_def sample_city_def i32_id)
qed

end
