(* ===== verification/Units.thy ===== *)
theory Units
  imports City Economy
begin

section \<open>Units and their gathering tasks\<close>

text \<open>
  Models internal/domain/unit/unit.go and internal/domain/task/task.go: the unit catalogue, the
  guards every command applies to a unit, and the state machine of a gathering task. Proved: a
  task that starts and steps by the machine is valid at every moment, only carries while it
  walks back, and delivers in total what it loaded, less what it carries.
\<close>

subsection \<open>Units (unit.go)\<close>

datatype unit_status =
  StatusIdle | StatusMoving | StatusGarrisoned | StatusHidden | StatusWorking | StatusAttacking
| StatusClaiming | StatusDead | StatusOther string

definition Valid_unit_status :: "unit_status \<Rightarrow> bool" where
  "Valid_unit_status s = (case s of StatusOther _ \<Rightarrow> False | _ \<Rightarrow> True)"

type_synonym unit_type = string

definition TypeVillager :: unit_type where "TypeVillager = ''VILLAGER''"
definition TypeWarrior :: unit_type where "TypeWarrior = ''WARRIOR''"

record unit_def =
  ud_Type :: unit_type
  ud_MaxHP :: int32
  ud_BaseMsPerTile :: int64
  ud_PopulationCost :: int32
  ud_TrainCost :: cost
  ud_TrainMs :: int64
  ud_GatherWorkMs :: int64
  ud_GatherCarry :: int32
  ud_AttackDamage :: int32
  ud_AttackIntervalMs :: int64
  ud_AttackRange :: int32
  ud_LootCarry :: int32

definition CanTrain_def :: "unit_def \<Rightarrow> bool" where
  "CanTrain_def d \<longleftrightarrow> 0 < ud_TrainMs d \<and> 0 < k_Amount (ud_TrainCost d)"

definition CanGather_def :: "unit_def \<Rightarrow> bool" where
  "CanGather_def d \<longleftrightarrow> 0 < ud_GatherWorkMs d \<and> 0 < ud_GatherCarry d"

definition CanAttack_def :: "unit_def \<Rightarrow> bool" where
  "CanAttack_def d \<longleftrightarrow> 0 < ud_AttackDamage d \<and> 0 < ud_AttackIntervalMs d \<and> 0 < ud_AttackRange d"

definition unit_catalog :: "unit_type \<rightharpoonup> unit_def" where
  "unit_catalog =
     [TypeVillager \<mapsto> \<lparr>ud_Type = TypeVillager, ud_MaxHP = 40, ud_BaseMsPerTile = 600, ud_PopulationCost = 1,
        ud_TrainCost = \<lparr>k_Resource = ResourceWood, k_Amount = 50\<rparr>, ud_TrainMs = 20000,
        ud_GatherWorkMs = 10000, ud_GatherCarry = 10,
        ud_AttackDamage = 0, ud_AttackIntervalMs = 0, ud_AttackRange = 0, ud_LootCarry = 0\<rparr>,
      TypeWarrior \<mapsto> \<lparr>ud_Type = TypeWarrior, ud_MaxHP = 60, ud_BaseMsPerTile = 600, ud_PopulationCost = 1,
        ud_TrainCost = \<lparr>k_Resource = ResourceWood, k_Amount = 60\<rparr>, ud_TrainMs = 25000,
        ud_GatherWorkMs = 0, ud_GatherCarry = 0,
        ud_AttackDamage = 8, ud_AttackIntervalMs = 1500, ud_AttackRange = 1, ud_LootCarry = 20\<rparr>]"

datatype unit_error =
  ErrUnknownType | ErrNotOwned | ErrDead | ErrGarrisoned | ErrNotMovable | ErrNotFound_unit
| ErrPopulation | ErrInvalidType

definition Lookup_unit :: "unit_type \<Rightarrow> unit_error + unit_def" where
  "Lookup_unit t = (case unit_catalog t of None \<Rightarrow> Err ErrUnknownType | Some d \<Rightarrow> Ok d)"

record unit_rec =
  u_ID :: int64
  u_PlayerID :: uuid
  u_CityID :: "int64 option"
  u_Type :: unit_type
  u_X :: int32
  u_Y :: int32
  u_HP :: int32
  u_MaxHP :: int32
  u_Status :: unit_status
  u_Loot :: int32

definition unit_Tile :: "unit_rec \<Rightarrow> tile" where
  "unit_Tile u = mk_tile (u_X u) (u_Y u)"

definition SetTile :: "tile \<Rightarrow> unit_rec \<Rightarrow> unit_rec" where
  "SetTile t u = u\<lparr>u_X := tX t, u_Y := tY t\<rparr>"

definition IsAlive :: "unit_rec \<Rightarrow> bool" where
  "IsAlive u \<longleftrightarrow> u_Status u \<noteq> StatusDead \<and> 0 < u_HP u"

definition EnsureOwnedBy :: "unit_rec \<Rightarrow> uuid \<Rightarrow> unit_error option" where
  "EnsureOwnedBy u playerID = (if u_PlayerID u \<noteq> playerID then Some ErrNotOwned else None)"

definition EnsureCanMove :: "unit_rec \<Rightarrow> unit_error option" where
  "EnsureCanMove u =
     (case u_Status u of
        StatusIdle \<Rightarrow> None
      | StatusMoving \<Rightarrow> None
      | StatusWorking \<Rightarrow> None
      | StatusAttacking \<Rightarrow> None
      | StatusClaiming \<Rightarrow> None
      | StatusDead \<Rightarrow> Some ErrDead
      | StatusGarrisoned \<Rightarrow> Some ErrGarrisoned
      | StatusHidden \<Rightarrow> None
      | StatusOther _ \<Rightarrow> Some ErrNotMovable)"

subsection \<open>Gathering tasks (task.go)\<close>

type_synonym task_kind = string

definition KindGatherWood :: task_kind where "KindGatherWood = ''GATHER_WOOD''"
definition KindGatherStone :: task_kind where "KindGatherStone = ''GATHER_STONE''"

definition Valid_kind :: "task_kind \<Rightarrow> bool" where
  "Valid_kind k \<longleftrightarrow> k = KindGatherWood \<or> k = KindGatherStone"

definition Layer_of_kind :: "task_kind \<Rightarrow> layer option" where
  "Layer_of_kind k =
     (if k = KindGatherWood then Some Forest_layer else if k = KindGatherStone then Some Hill_layer else None)"

definition KindFor :: "layer \<Rightarrow> task_kind" where
  "KindFor l = (if l_Terrain l = l_Terrain Hill_layer then KindGatherStone else KindGatherWood)"

datatype phase = PhaseToResource | PhaseWorking | PhaseToDeposit | PhaseOther string

definition Valid_phase :: "phase \<Rightarrow> bool" where
  "Valid_phase p \<longleftrightarrow> p = PhaseToResource \<or> p = PhaseWorking \<or> p = PhaseToDeposit"

definition IsLeg :: "phase \<Rightarrow> bool" where
  "IsLeg p \<longleftrightarrow> p = PhaseToResource \<or> p = PhaseToDeposit"

datatype end_reason =
  EndCancelled | EndOwnerAbsent | EndReplaced | EndNoPath | EndForestDepleted | EndHillDepleted

definition EndDepleted :: "layer \<Rightarrow> end_reason" where
  "EndDepleted l = (if l_Terrain l = l_Terrain Hill_layer then EndHillDepleted else EndForestDepleted)"

datatype task_error =
  ErrNotOwned_task | ErrNotGatherer | ErrOutOfBounds_task | ErrNotResource | ErrBadTransition | ErrInvalidTask
| ErrUnit unit_error

record gtask =
  t_UnitID :: int64
  t_Kind :: task_kind
  t_Target :: tile
  t_Phase :: phase
  t_PhaseUntilMs :: int64
  t_Carrying :: int32
  t_TripsDone :: int32

definition NewGatherOf :: "int64 \<Rightarrow> task_kind \<Rightarrow> tile \<Rightarrow> gtask" where
  "NewGatherOf unitID kind target =
     \<lparr>t_UnitID = unitID, t_Kind = kind, t_Target = target, t_Phase = PhaseToResource,
      t_PhaseUntilMs = 0, t_Carrying = 0, t_TripsDone = 0\<rparr>"

definition NewGather :: "int64 \<Rightarrow> tile \<Rightarrow> gtask" where
  "NewGather unitID target = NewGatherOf unitID KindGatherWood target"

definition StartWork :: "int64 \<Rightarrow> int64 \<Rightarrow> gtask \<Rightarrow> task_error + gtask" where
  "StartWork arrivedAtMs workMs t =
     (if t_Phase t \<noteq> PhaseToResource then Err ErrBadTransition
      else if workMs \<le> 0 then Err ErrInvalidTask
      else Ok (t\<lparr>t_Phase := PhaseWorking, t_PhaseUntilMs := i64 (arrivedAtMs + workMs)\<rparr>))"

definition Due_task :: "gtask \<Rightarrow> int64 \<Rightarrow> bool" where
  "Due_task t nowMs \<longleftrightarrow> t_Phase t = PhaseWorking \<and> t_PhaseUntilMs t \<le> nowMs"

definition FinishWork :: "int32 \<Rightarrow> gtask \<Rightarrow> task_error + gtask" where
  "FinishWork carry t =
     (if t_Phase t \<noteq> PhaseWorking then Err ErrBadTransition
      else if carry \<le> 0 then Err ErrInvalidTask
      else Ok (t\<lparr>t_Phase := PhaseToDeposit, t_PhaseUntilMs := 0, t_Carrying := carry\<rparr>))"

definition Retarget :: "tile \<Rightarrow> gtask \<Rightarrow> task_error + gtask" where
  "Retarget target t =
     (if t_Phase t \<noteq> PhaseToResource \<and> t_Phase t \<noteq> PhaseWorking then Err ErrBadTransition
      else Ok (t\<lparr>t_Target := target, t_Phase := PhaseToResource, t_PhaseUntilMs := 0\<rparr>))"

definition ReturnToDeposit :: "gtask \<Rightarrow> task_error + gtask" where
  "ReturnToDeposit t =
     (if t_Phase t \<noteq> PhaseToResource \<and> t_Phase t \<noteq> PhaseWorking then Err ErrBadTransition
      else Ok (t\<lparr>t_Phase := PhaseToDeposit, t_PhaseUntilMs := 0\<rparr>))"

definition Deposit :: "gtask \<Rightarrow> task_error + gtask \<times> int32" where
  "Deposit t =
     (if t_Phase t \<noteq> PhaseToDeposit then Err ErrBadTransition
      else Ok (t\<lparr>t_Phase := PhaseToResource, t_Carrying := 0, t_TripsDone := i32 (t_TripsDone t + 1)\<rparr>,
               t_Carrying t))"

definition Validate_task :: "gtask \<Rightarrow> task_error option" where
  "Validate_task t =
     (if \<not> Valid_kind (t_Kind t) then Some ErrInvalidTask
      else if \<not> Valid_phase (t_Phase t) then Some ErrInvalidTask
      else if (t_Phase t = PhaseWorking) \<noteq> (0 < t_PhaseUntilMs t) then Some ErrInvalidTask
      else if t_Carrying t < 0 \<or> t_TripsDone t < 0 then Some ErrInvalidTask
      else None)"

definition CanGather :: "unit_rec \<Rightarrow> uuid \<Rightarrow> task_error option" where
  "CanGather u requester =
     (if u_PlayerID u \<noteq> requester then Some ErrNotOwned_task
      else case Lookup_unit (u_Type u) of
        Err e \<Rightarrow> Some (ErrUnit e)
      | Ok d \<Rightarrow>
          if \<not> CanGather_def d then Some ErrNotGatherer
          else if \<not> IsAlive u then Some (ErrUnit ErrDead)
          else map_option ErrUnit (EnsureCanMove u))"

definition ValidTarget ::
  "(int32 \<Rightarrow> int32 \<Rightarrow> bool) \<Rightarrow> (int32 \<Rightarrow> int32 \<Rightarrow> byte) \<Rightarrow> tile \<Rightarrow> task_error + layer" where
  "ValidTarget inBounds terrainAt target =
     (if \<not> inBounds (tX target) (tY target) then Err ErrOutOfBounds_task
      else case ForTerrain (terrainAt (tX target) (tY target)) of
        None \<Rightarrow> Err ErrNotResource
      | Some l \<Rightarrow> Ok l)"

subsection \<open>Who may gather where\<close>

text \<open>
  unit.gather is admitted exactly for the owner's own living villager in a state that can
  move, on a tile of the world whose terrain gives a resource, and the task made from the
  layer found spends that same layer.
\<close>

theorem gather_admitted:
  "(CanGather u requester = None \<longleftrightarrow>
      u_PlayerID u = requester \<and> u_Type u = TypeVillager \<and> 0 < u_HP u \<and>
      u_Status u \<in> {StatusIdle, StatusMoving, StatusWorking, StatusAttacking, StatusClaiming, StatusHidden})
   \<and> ((\<exists>l. ValidTarget (InBounds w) (TerrainAt w) target = Ok l \<and> Layer_of_kind (KindFor l) = Some l) \<longleftrightarrow>
      InBounds w (tX target) (tY target) \<and> TerrainAt w (tX target) (tY target) \<in> {Forest, Hill})"
proof
  have v: "CanGather_def (the (unit_catalog TypeVillager))" "\<not> CanGather_def (the (unit_catalog TypeWarrior))"
    by (simp_all add: unit_catalog_def CanGather_def_def TypeVillager_def TypeWarrior_def)
  have k: "unit_catalog (u_Type u) \<noteq> None \<longleftrightarrow> u_Type u = TypeVillager \<or> u_Type u = TypeWarrior"
    by (auto simp: unit_catalog_def)
  show "CanGather u requester = None \<longleftrightarrow>
      u_PlayerID u = requester \<and> u_Type u = TypeVillager \<and> 0 < u_HP u \<and>
      u_Status u \<in> {StatusIdle, StatusMoving, StatusWorking, StatusAttacking, StatusClaiming, StatusHidden}"
    using v k by (auto simp: CanGather_def Lookup_unit_def IsAlive_def EnsureCanMove_def
        split: option.splits if_splits unit_status.splits)
  show "(\<exists>l. ValidTarget (InBounds w) (TerrainAt w) target = Ok l \<and> Layer_of_kind (KindFor l) = Some l) \<longleftrightarrow>
      InBounds w (tX target) (tY target) \<and> TerrainAt w (tX target) (tY target) \<in> {Forest, Hill}"
    by (auto simp: ValidTarget_def ForTerrain_eq Layer_of_kind_def KindFor_def Forest_layer_def Hill_layer_def
        KindGatherWood_def KindGatherStone_def terrain_defs split: if_splits)
qed

subsection \<open>Runs of the state machine\<close>

text \<open>
  A run of a gathering task: the loads it has taken and what it has delivered, both summed.
  The premises are those of the callers: instants and durations within the epoch, loads that
  are int32 values, fewer trips than the counter holds.
\<close>

inductive gather_run :: "gtask \<Rightarrow> int \<Rightarrow> int \<Rightarrow> bool" where
  run_new: "Valid_kind kind \<Longrightarrow> gather_run (NewGatherOf unitID kind target) 0 0"
| run_start: "gather_run t ld dl \<Longrightarrow> 0 \<le> arrived \<Longrightarrow> arrived \<le> 2 ^ 62 \<Longrightarrow> work \<le> 2 ^ 61 \<Longrightarrow>
    StartWork arrived work t = Ok t' \<Longrightarrow> gather_run t' ld dl"
| run_finish: "gather_run t ld dl \<Longrightarrow> FinishWork carry t = Ok t' \<Longrightarrow> gather_run t' (ld + carry) dl"
| run_retarget: "gather_run t ld dl \<Longrightarrow> Retarget tile t = Ok t' \<Longrightarrow> gather_run t' ld dl"
| run_return: "gather_run t ld dl \<Longrightarrow> ReturnToDeposit t = Ok t' \<Longrightarrow> gather_run t' ld dl"
| run_deposit: "gather_run t ld dl \<Longrightarrow> t_TripsDone t < 2147483647 \<Longrightarrow> Deposit t = Ok (t', delivered) \<Longrightarrow>
    gather_run t' ld (dl + delivered)"

text \<open>
  C35: whatever the order of arrivals, loads, retargets and deposits, a task is valid at every
  moment (the checks made on rows read from the database never reject what the machine wrote),
  carries something only on its way to the deposit, and has delivered exactly what it loaded
  except for what it carries.
\<close>

theorem gather_run_conserves:
  assumes "gather_run t ld dl"
  shows "Validate_task t = None \<and> ld = dl + t_Carrying t \<and> (t_Carrying t \<noteq> 0 \<longrightarrow> t_Phase t = PhaseToDeposit)
    \<and> 0 \<le> dl"
  using assms
proof (induction rule: gather_run.induct)
  case (run_start t ld dl arrived work t')
  then have "0 < work" "t_Carrying t = 0" "t_Phase t = PhaseToResource" by (auto simp: StartWork_def split: if_splits)
  moreover from this run_start have "i64 (arrived + work) = arrived + work" by (simp add: i64_id)
  ultimately show ?case using run_start by (auto simp: StartWork_def Validate_task_def Valid_phase_def split: if_splits)
next
  case (run_deposit t ld dl t' delivered)
  then have "t_TripsDone t \<ge> 0" by (auto simp: Validate_task_def split: if_splits)
  then have "i32 (t_TripsDone t + 1) = t_TripsDone t + 1" using run_deposit by (simp add: i32_id)
  with run_deposit show ?case
    by (auto simp: Deposit_def Validate_task_def Valid_phase_def split: if_splits)
next
  case (run_new kind unitID target)
  then show ?case by (simp add: NewGatherOf_def Validate_task_def Valid_phase_def)
next
  case (run_finish t ld dl carry t')
  then have "t_Phase t = PhaseWorking" "0 < carry"
    "t' = t\<lparr>t_Phase := PhaseToDeposit, t_PhaseUntilMs := 0, t_Carrying := carry\<rparr>"
    by (simp_all add: FinishWork_def split: if_splits)
  with run_finish.IH show ?case by (simp add: Validate_task_def Valid_phase_def split: if_splits)
next
  case (run_retarget t ld dl tile t')
  then have "t_Phase t \<noteq> PhaseToDeposit" "t' = t\<lparr>t_Target := tile, t_Phase := PhaseToResource, t_PhaseUntilMs := 0\<rparr>"
    by (auto simp: Retarget_def split: if_splits)
  with run_retarget.IH show ?case by (simp add: Validate_task_def Valid_phase_def split: if_splits)
next
  case (run_return t ld dl t')
  then have "t' = t\<lparr>t_Phase := PhaseToDeposit, t_PhaseUntilMs := 0\<rparr>"
    by (simp add: ReturnToDeposit_def split: if_splits)
  with run_return.IH show ?case by (simp add: Validate_task_def Valid_phase_def split: if_splits)
qed

theorem gather_run_conserves_witness:
  "\<exists>t. gather_run t 10 0 \<and> t_Carrying t = 10 \<and> Validate_task t = None \<and> t_Phase t = PhaseToDeposit"
proof -
  let ?t0 = "NewGatherOf 5 KindGatherWood (mk_tile 3 4)"
  let ?t1 = "?t0\<lparr>t_Phase := PhaseWorking, t_PhaseUntilMs := 11000\<rparr>"
  let ?t2 = "?t1\<lparr>t_Phase := PhaseToDeposit, t_PhaseUntilMs := 0, t_Carrying := 10\<rparr>"
  have r0: "gather_run ?t0 0 0" by (rule run_new) (simp add: Valid_kind_def)
  have r1: "gather_run ?t1 0 0"
    by (rule run_start[OF r0, of 1000 10000]) (simp_all add: StartWork_def NewGatherOf_def i64_id)
  have "gather_run ?t2 (0 + 10) 0"
    by (rule run_finish[OF r1, of 10]) (simp add: FinishWork_def NewGatherOf_def)
  then have "gather_run ?t2 10 0" by simp
  from gather_run_conserves[OF this] this show ?thesis by (intro exI[of _ ?t2]) (simp add: NewGatherOf_def)
qed

end
