(* ===== verification/Orders.thy ===== *)
theory Orders
  imports Units
begin

section \<open>Buildings, training and era advances\<close>

text \<open>
  Models internal/domain/building/building.go, internal/domain/production/production.go and
  internal/domain/advance/advance.go: the guards of the three orders that spend a city's stock,
  in the order the code answers, and the life of a building. Proved: an admitted order can be
  paid, so the debit that follows never fails; and the population bonus of the buildings is
  gained once per house completed and lost once per completed house destroyed.
\<close>

subsection \<open>Buildings (building.go)\<close>

type_synonym building_type = string

definition TypeHouse :: building_type where "TypeHouse = ''HOUSE''"

datatype building_status =
  StatusUnderConstruction | StatusComplete | StatusDestroyed | BuildingStatusOther string

definition Valid_building_status :: "building_status \<Rightarrow> bool" where
  "Valid_building_status s \<longleftrightarrow> s = StatusUnderConstruction \<or> s = StatusComplete \<or> s = StatusDestroyed"

record building_def =
  bd_Type :: building_type
  bd_Cost :: cost
  bd_BuildMs :: int64
  bd_PopulationBonus :: int32
  bd_MaxHP :: int32

definition building_catalog :: "building_type \<rightharpoonup> building_def" where
  "building_catalog =
     [TypeHouse \<mapsto> \<lparr>bd_Type = TypeHouse, bd_Cost = \<lparr>k_Resource = ResourceWood, k_Amount = 30\<rparr>,
        bd_BuildMs = 15000, bd_PopulationBonus = 5, bd_MaxHP = 150\<rparr>]"

datatype order_error =
  ErrUnknownType_building | ErrCityNotFound | ErrInvalidSite | ErrAlreadyDone | ErrInvalidBuilding
| ErrCityBusy | ErrNotTrainable | ErrUnavailable | ErrInvalid_advance
| ErrOfUnit unit_error | ErrOfEconomy economy_error | ErrOfCity city_error

definition Lookup_building :: "building_type \<Rightarrow> order_error + building_def" where
  "Lookup_building t = (case building_catalog t of None \<Rightarrow> Err ErrUnknownType_building | Some d \<Rightarrow> Ok d)"

record building =
  b_ID :: int64
  b_CityID :: int64
  b_Type :: building_type
  b_X :: int32
  b_Y :: int32
  b_Status :: building_status
  b_CompletesAtMs :: int64

definition building_Tile :: "building \<Rightarrow> tile" where
  "building_Tile b = mk_tile (b_X b) (b_Y b)"

definition IsComplete :: "building \<Rightarrow> bool" where
  "IsComplete b \<longleftrightarrow> b_Status b = StatusComplete"

definition Due_building :: "building \<Rightarrow> int64 \<Rightarrow> bool" where
  "Due_building b nowMs \<longleftrightarrow> b_Status b = StatusUnderConstruction \<and> b_CompletesAtMs b \<le> nowMs"

definition Complete :: "building \<Rightarrow> order_error + building" where
  "Complete b =
     (if b_Status b \<noteq> StatusUnderConstruction then Err ErrAlreadyDone
      else Ok (b\<lparr>b_Status := StatusComplete\<rparr>))"

definition IsStanding :: "building \<Rightarrow> bool" where
  "IsStanding b \<longleftrightarrow> b_Status b \<noteq> StatusDestroyed"

definition Destroy :: "building \<Rightarrow> order_error + building \<times> bool" where
  "Destroy b =
     (if b_Status b = StatusDestroyed then Err ErrInvalidBuilding
      else Ok (b\<lparr>b_Status := StatusDestroyed\<rparr>, b_Status b = StatusComplete))"

definition Validate_building :: "building \<Rightarrow> order_error option" where
  "Validate_building b =
     (case Lookup_building (b_Type b) of
        Err e \<Rightarrow> Some e
      | Ok _ \<Rightarrow> if \<not> Valid_building_status (b_Status b) then Some ErrInvalidBuilding else None)"

text \<open>A nil city is None, a nil occupied function too.\<close>

definition CanPlace :: "city option \<Rightarrow> tile \<Rightarrow> (tile \<Rightarrow> bool) option \<Rightarrow> order_error option" where
  "CanPlace co t occupied =
     (case co of
        None \<Rightarrow> Some ErrCityNotFound
      | Some c \<Rightarrow>
          if \<not> Occupies c (tX t) (tY t) then Some ErrInvalidSite
          else if t = Center c then Some ErrInvalidSite
          else if (case occupied of None \<Rightarrow> False | Some f \<Rightarrow> f t) then Some ErrInvalidSite
          else None)"

definition CanBuild ::
  "city option \<Rightarrow> uuid \<Rightarrow> building_type \<Rightarrow> tile \<Rightarrow> (tile \<Rightarrow> bool) option \<Rightarrow> stock option
     \<Rightarrow> order_error + building_def" where
  "CanBuild co requester t tile occupied stock =
     (case co of
        None \<Rightarrow> Err ErrCityNotFound
      | Some c \<Rightarrow>
          if c_OwnerPlayerID c \<noteq> requester then Err ErrCityNotFound
          else case Lookup_building t of
            Err e \<Rightarrow> Err e
          | Ok def \<Rightarrow> (case CanPlace co tile occupied of
              Some e \<Rightarrow> Err e
            | None \<Rightarrow> (case stock of
                None \<Rightarrow> Err (ErrOfEconomy ErrInsufficientResources)
              | Some s \<Rightarrow> if \<not> CanAfford s (bd_Cost def) then Err (ErrOfEconomy ErrInsufficientResources)
                          else Ok def)))"

fun population_bonus_loop :: "building list \<Rightarrow> int32 \<Rightarrow> int32" where
  "population_bonus_loop [] bonus = bonus"
| "population_bonus_loop (b # bs) bonus =
     (if \<not> IsComplete b then population_bonus_loop bs bonus
      else case Lookup_building (b_Type b) of
        Ok def \<Rightarrow> population_bonus_loop bs (i32 (bonus + bd_PopulationBonus def))
      | Err _ \<Rightarrow> population_bonus_loop bs bonus)"

definition PopulationBonus :: "building list \<Rightarrow> int32" where
  "PopulationBonus bs = population_bonus_loop bs 0"

definition PopulationLimit :: "int32 \<Rightarrow> building list \<Rightarrow> int32 \<Rightarrow> int32" where
  "PopulationLimit eraCap bs territoryBonus = i32 (i32 (eraCap + PopulationBonus bs) + territoryBonus)"

subsection \<open>Training (production.go)\<close>

record production =
  p_CityID :: int64
  p_UnitType :: unit_type
  p_CompletesAtMs :: int64
  p_RequestID :: string
  p_UnitID :: int64

definition InProgress :: "production \<Rightarrow> bool" where
  "InProgress p \<longleftrightarrow> p_UnitID p = 0"

definition Due_production :: "production \<Rightarrow> int64 \<Rightarrow> bool" where
  "Due_production p nowMs \<longleftrightarrow> InProgress p \<and> p_CompletesAtMs p \<le> nowMs"

definition CanTrain ::
  "city option \<Rightarrow> uuid \<Rightarrow> unit_type \<Rightarrow> bool \<Rightarrow> stock option \<Rightarrow> order_error + unit_def" where
  "CanTrain co requester t busy stock =
     (case co of
        None \<Rightarrow> Err ErrCityNotFound
      | Some c \<Rightarrow>
          if c_OwnerPlayerID c \<noteq> requester then Err ErrCityNotFound
          else case Lookup_unit t of
            Err e \<Rightarrow> Err (ErrOfUnit e)
          | Ok def \<Rightarrow>
              if \<not> CanTrain_def def then Err ErrNotTrainable
              else if busy then Err ErrCityBusy
              else if \<not> HasPopulationRoom c (ud_PopulationCost def) then Err (ErrOfCity ErrPopulationLimit)
              else case stock of
                None \<Rightarrow> Err (ErrOfEconomy ErrInsufficientResources)
              | Some s \<Rightarrow> if \<not> CanAfford s (ud_TrainCost def) then Err (ErrOfEconomy ErrInsufficientResources)
                          else Ok def)"

subsection \<open>Era advances (advance.go)\<close>

record era_step =
  es_From :: era
  es_To :: era
  es_Costs :: costs
  es_DurationMs :: int64

definition advance_catalog :: "era \<rightharpoonup> era_step" where
  "advance_catalog =
     [EraStone \<mapsto> \<lparr>es_From = EraStone, es_To = EraBronze,
        es_Costs = [\<lparr>k_Resource = ResourceWood, k_Amount = 400\<rparr>, \<lparr>k_Resource = ResourceStone, k_Amount = 200\<rparr>],
        es_DurationMs = 90000\<rparr>]"

definition Next_step :: "era \<Rightarrow> era_step option" where
  "Next_step src = advance_catalog src"

record advance =
  a_CityID :: int64
  a_From :: era
  a_To :: era
  a_CompletesAtMs :: int64
  a_RequestID :: string

definition Due_advance :: "advance \<Rightarrow> int64 \<Rightarrow> bool" where
  "Due_advance a nowMs \<longleftrightarrow> a_CompletesAtMs a \<le> nowMs"

definition Validate_advance :: "advance \<Rightarrow> order_error option" where
  "Validate_advance a =
     (case advance_catalog (a_From a) of
        None \<Rightarrow> Some ErrInvalid_advance
      | Some s \<Rightarrow> if es_To s \<noteq> a_To a then Some ErrInvalid_advance else None)"

definition CanAdvance ::
  "city option \<Rightarrow> uuid \<Rightarrow> bool \<Rightarrow> (resource \<Rightarrow> stock option) \<Rightarrow> order_error + era_step" where
  "CanAdvance co requester busy stock_of =
     (case co of
        None \<Rightarrow> Err ErrCityNotFound
      | Some c \<Rightarrow>
          if c_OwnerPlayerID c \<noteq> requester then Err ErrCityNotFound
          else case Next_step (c_Era c) of
            None \<Rightarrow> Err ErrUnavailable
          | Some step \<Rightarrow>
              if busy then Err ErrCityBusy
              else if \<not> CanAfford_costs (es_Costs step) stock_of
              then Err (ErrOfEconomy ErrInsufficientResources)
              else Ok step)"

subsection \<open>An admitted order can be paid\<close>

text \<open>
  C39: the three guards protect their debits: an order to build, to train or to advance that is
  admitted comes from the owner of the city and can be paid from the stocks it was checked
  against, so the debit that follows succeeds and leaves no stock below zero; and an admitted
  advance is a step that Validate accepts when it is read back.
\<close>

theorem admitted_orders_payable:
  assumes "\<forall>s \<in> ran m. wf_stock s"
  shows "(CanBuild (Some c) p bt t occ (m ResourceWood) = Ok bd \<longrightarrow>
      c_OwnerPlayerID c = p \<and> Occupies c (tX t) (tY t) \<and> t \<noteq> Center c \<and>
      (\<exists>s s'. m ResourceWood = Some s \<and> Debit s (bd_Cost bd) = Ok s' \<and> 0 \<le> s_Amount s'))
   \<and> (CanTrain (Some c) p ut busy (m ResourceWood) = Ok ud \<longrightarrow>
      c_OwnerPlayerID c = p \<and> \<not> busy \<and> i32 (c_Population c + ud_PopulationCost ud) \<le> c_PopulationLimit c \<and>
      (\<exists>s s'. m ResourceWood = Some s \<and> Debit s (ud_TrainCost ud) = Ok s' \<and> 0 \<le> s_Amount s'))
   \<and> (CanAdvance (Some c) p busy m = Ok step \<longrightarrow>
      c_OwnerPlayerID c = p \<and> \<not> busy \<and> (\<exists>m'. debit_lines (es_Costs step) m = Ok m') \<and>
      Validate_advance \<lparr>a_CityID = c_ID c, a_From = c_Era c, a_To = es_To step, a_CompletesAtMs = done_at, a_RequestID = rid\<rparr> = None)"
proof (intro conjI impI)
  have pay: "\<exists>s'. Debit s k = Ok s' \<and> 0 \<le> s_Amount s'" if "m r = Some s" "CanAfford s k" for r s k
  proof -
    have "wf_stock s" using assms that(1) by (auto intro: ranI)
    from Debit_Ok[OF this that(2)] that(2) show ?thesis by (auto simp: CanAfford_def)
  qed
  { assume "CanBuild (Some c) p bt t occ (m ResourceWood) = Ok bd"
    then obtain s where b: "c_OwnerPlayerID c = p" "CanPlace (Some c) t occ = None" "m ResourceWood = Some s"
      "CanAfford s (bd_Cost bd)" by (auto simp: CanBuild_def split: if_splits sum.splits option.splits)
    from b(1) show "c_OwnerPlayerID c = p" .
    from b(2) show "Occupies c (tX t) (tY t)" "t \<noteq> Center c" by (auto simp: CanPlace_def split: if_splits)
    from pay[OF b(3,4)] b(3) show "\<exists>s s'. m ResourceWood = Some s \<and> Debit s (bd_Cost bd) = Ok s' \<and> 0 \<le> s_Amount s'"
      by blast }
  { assume "CanTrain (Some c) p ut busy (m ResourceWood) = Ok ud"
    then obtain s where b: "c_OwnerPlayerID c = p" "\<not> busy" "HasPopulationRoom c (ud_PopulationCost ud)"
      "m ResourceWood = Some s" "CanAfford s (ud_TrainCost ud)"
      by (auto simp: CanTrain_def split: if_splits sum.splits option.splits)
    from b(1,2) show "c_OwnerPlayerID c = p" "\<not> busy" by auto
    from b(3) show "i32 (c_Population c + ud_PopulationCost ud) \<le> c_PopulationLimit c" by (simp add: HasPopulationRoom_def)
    from pay[OF b(4,5)] b(4) show "\<exists>s s'. m ResourceWood = Some s \<and> Debit s (ud_TrainCost ud) = Ok s' \<and> 0 \<le> s_Amount s'"
      by blast }
  { assume "CanAdvance (Some c) p busy m = Ok step"
    then have b: "c_OwnerPlayerID c = p" "\<not> busy" "advance_catalog (c_Era c) = Some step" "CanAfford_costs (es_Costs step) m"
      by (auto simp: CanAdvance_def Next_step_def split: if_splits option.splits)
    from b(1,2) show "c_OwnerPlayerID c = p" "\<not> busy" by auto
    show "\<exists>m'. debit_lines (es_Costs step) m = Ok m'" using CanAfford_costs_debit[OF b(4) assms] by blast
    show "Validate_advance \<lparr>a_CityID = c_ID c, a_From = c_Era c, a_To = es_To step, a_CompletesAtMs = done_at, a_RequestID = rid\<rparr> = None"
      using b(3) by (simp add: Validate_advance_def) }
qed

theorem admitted_orders_payable_witness:
  "\<exists>s'. Debit \<lparr>s_Resource = ResourceWood, s_Amount = 70, s_Version = 3\<rparr> \<lparr>k_Resource = ResourceWood, k_Amount = 50\<rparr> = Ok s'"
proof -
  let ?m = "[ResourceWood \<mapsto> \<lparr>s_Resource = ResourceWood, s_Amount = 70, s_Version = 3\<rparr>]"
  have wf: "\<forall>s \<in> ran ?m. wf_stock s" by (simp add: wf_stock_def)
  have "CanTrain (Some sample_city) 7 TypeVillager False (?m ResourceWood) = Ok (the (unit_catalog TypeVillager))"
    by (simp add: CanTrain_def Lookup_unit_def unit_catalog_def CanTrain_def_def HasPopulationRoom_def CanAfford_def
        sample_city_def TypeVillager_def TypeWarrior_def ResourceWood_def i32_id)
  with admitted_orders_payable[OF wf, of sample_city 7 TypeHouse "mk_tile 9 9" None _ TypeVillager False
      "the (unit_catalog TypeVillager)" _ 0 "[]"]
  obtain s s' where "?m ResourceWood = Some s" "Debit s (ud_TrainCost (the (unit_catalog TypeVillager))) = Ok s'"
    by blast
  then show ?thesis by (auto simp: unit_catalog_def TypeVillager_def TypeWarrior_def)
qed

subsection \<open>The population bonus\<close>

lemma bonus_range: "Lookup_building t = Ok d \<Longrightarrow> bd_PopulationBonus d = 5"
  by (auto simp: Lookup_building_def building_catalog_def split: option.splits if_splits)

definition counts :: "building \<Rightarrow> bool" where
  "counts b \<longleftrightarrow> IsComplete b \<and> building_catalog (b_Type b) \<noteq> None"

lemma population_bonus_loop_count:
  "0 \<le> n \<Longrightarrow> n + 5 * int (length (filter counts bs)) \<le> 2147483647 \<Longrightarrow>
    population_bonus_loop bs n = n + 5 * int (length (filter counts bs))"
proof (induction bs arbitrary: n)
  case (Cons b bs)
  show ?case
  proof (cases "counts b")
    case True
    then obtain d where d: "Lookup_building (b_Type b) = Ok d"
      by (auto simp: counts_def Lookup_building_def)
    have "i32 (n + 5) = n + 5" using Cons.prems True by (simp add: i32_id)
    with Cons True d bonus_range[OF d] show ?thesis by (simp add: counts_def)
  next
    case False
    then have "population_bonus_loop (b # bs) n = population_bonus_loop bs n"
      by (auto simp: counts_def Lookup_building_def split: option.splits)
    with Cons False show ?thesis by simp
  qed
qed simp

text \<open>
  INV-ECON-004: the bonus of a list of fewer than 400 million buildings is five per completed
  house. Completing a house under construction adds its five, once: it cannot be completed
  again. Destroying a building takes the five away exactly when it reports that it was
  complete, once: it cannot be destroyed again nor completed after.
\<close>

theorem bonus_once:
  assumes "length (pre @ b # post) < 400000000" "b_Type b = TypeHouse"
  shows "PopulationBonus (pre @ b # post) = 5 * int (length (filter counts (pre @ b # post)))
    \<and> (case Complete b of
         Ok b' \<Rightarrow> PopulationBonus (pre @ b' # post) = PopulationBonus (pre @ b # post) + 5 \<and> Complete b' = Err ErrAlreadyDone
       | Err _ \<Rightarrow> b_Status b \<noteq> StatusUnderConstruction)
    \<and> (case Destroy b of
         Ok (b', wasComplete) \<Rightarrow>
           PopulationBonus (pre @ b' # post) = PopulationBonus (pre @ b # post) - (if wasComplete then 5 else 0) \<and>
           \<not> IsStanding b' \<and> Destroy b' = Err ErrInvalidBuilding \<and> Complete b' = Err ErrAlreadyDone
       | Err _ \<Rightarrow> \<not> IsStanding b)"
proof -
  have eq: "PopulationBonus bs = 5 * int (length (filter counts bs))" if "length bs < 400000000" for bs
    unfolding PopulationBonus_def
    by (subst population_bonus_loop_count) (use that length_filter_le[of counts bs] in linarith)+
  have len: "length (pre @ b' # post) < 400000000" for b' using assms(1) by simp
  have c: "counts b' \<longleftrightarrow> b_Status b' = StatusComplete" if "b_Type b' = TypeHouse" for b'
    using that by (simp add: counts_def IsComplete_def building_catalog_def)
  show ?thesis
    unfolding eq[OF len]
    using assms(2) by (auto simp: Complete_def Destroy_def IsStanding_def c)
qed

theorem bonus_once_witness:
  "PopulationBonus [\<lparr>b_ID = 1, b_CityID = 1, b_Type = TypeHouse, b_X = 9, b_Y = 9, b_Status = StatusComplete, b_CompletesAtMs = 0\<rparr>] = 5"
  using bonus_once[of "[]" "\<lparr>b_ID = 1, b_CityID = 1, b_Type = TypeHouse, b_X = 9, b_Y = 9, b_Status = StatusComplete, b_CompletesAtMs = 0\<rparr>" "[]"]
  by (simp add: counts_def IsComplete_def building_catalog_def)

end
