(* ===== verification/Diplomacy.thy ===== *)
theory Diplomacy
  imports Units "HOL-Library.List_Lexorder" "HOL-Library.Char_ord"
begin

section \<open>Treaties and garrisons\<close>

text \<open>
  Models internal/domain/diplomacy/treaty.go and internal/domain/garrison/garrison.go. The text
  of a UUID (google/uuid, String) is the parameter ustr: the code relies on different
  identifiers having different texts and on Go's byte order of strings. Proved: the state
  machine of a treaty keeps its row valid and never leaves a final state; the canonical pair
  does not depend on the order of its arguments, so a treaty binds both directions; peace and
  trade end for good at the instant EndsAt names; entering a garrison needs exactly what the
  rules say; and the tile a unit leaves by is the least free one of the ring.
\<close>

datatype treaty_error =
  ErrTransicionInvalida | ErrTratadoInvalido | ErrNoEsParte | ErrNoPuede | ErrTipoNoProponible

datatype treaty_type = TypeNonAggression | TypeAlliance | TypeTrade | TreatyTypeOther string

definition Valid_treaty_type :: "treaty_type \<Rightarrow> bool" where
  "Valid_treaty_type t = (case t of TreatyTypeOther _ \<Rightarrow> False | _ \<Rightarrow> True)"

datatype treaty_status =
  StatusProposed | StatusActive | StatusExpired | StatusBroken | StatusRejected | StatusWithdrawn
| TreatyStatusOther string

definition Valid_treaty_status :: "treaty_status \<Rightarrow> bool" where
  "Valid_treaty_status s = (case s of TreatyStatusOther _ \<Rightarrow> False | _ \<Rightarrow> True)"

definition transicionesPermitidas :: "treaty_status \<Rightarrow> treaty_status set" where
  "transicionesPermitidas s =
     (case s of
        StatusProposed \<Rightarrow> {StatusActive, StatusRejected, StatusWithdrawn, StatusExpired}
      | StatusActive \<Rightarrow> {StatusExpired, StatusBroken}
      | _ \<Rightarrow> {})"

definition Proposable :: "treaty_type \<Rightarrow> bool" where
  "Proposable t = Valid_treaty_type t"

definition Rank :: "treaty_type \<Rightarrow> int" where
  "Rank t = (case t of TypeTrade \<Rightarrow> 1 | TypeNonAggression \<Rightarrow> 2 | TypeAlliance \<Rightarrow> 3 | TreatyTypeOther _ \<Rightarrow> 0)"

definition Supersedes :: "treaty_type \<Rightarrow> treaty_type \<Rightarrow> bool" where
  "Supersedes t current \<longleftrightarrow> 0 < Rank t \<and> 0 < Rank current \<and> Rank current < Rank t"

definition GrantsGarrison :: "treaty_type \<Rightarrow> bool" where
  "GrantsGarrison t \<longleftrightarrow> t = TypeAlliance"

record treaty =
  ty_ID :: int64
  ty_PlayerA :: uuid
  ty_PlayerB :: uuid
  ty_Type :: treaty_type
  ty_Status :: treaty_status
  ty_AllowsGarrison :: bool
  ty_ProposedAt :: instant
  ty_AcceptedAt :: "instant option"
  ty_ExpiresAt :: "instant option"
  ty_BrokenAt :: "instant option"
  ty_ProposedBy :: "uuid option"
  ty_RequestID :: string
  ty_BreakEffectiveAt :: "instant option"
  ty_ClosedAt :: "instant option"

definition CanonicalPair :: "(uuid \<Rightarrow> string) \<Rightarrow> uuid \<Rightarrow> uuid \<Rightarrow> uuid \<times> uuid" where
  "CanonicalPair ustr x y = (if ustr y < ustr x then (y, x) else (x, y))"

definition Involves :: "(uuid \<Rightarrow> string) \<Rightarrow> treaty \<Rightarrow> uuid \<Rightarrow> uuid \<Rightarrow> bool" where
  "Involves ustr t x y = (let (a, b) = CanonicalPair ustr x y in ty_PlayerA t = a \<and> ty_PlayerB t = b)"

definition HasParty :: "treaty \<Rightarrow> uuid \<Rightarrow> bool" where
  "HasParty t p \<longleftrightarrow> ty_PlayerA t = p \<or> ty_PlayerB t = p"

definition Other :: "treaty \<Rightarrow> uuid \<Rightarrow> uuid" where
  "Other t p = (if ty_PlayerA t = p then ty_PlayerB t else ty_PlayerA t)"

definition EndsAt :: "treaty \<Rightarrow> (instant \<times> treaty_status) option" where
  "EndsAt t =
     (let cur = (case ty_BreakEffectiveAt t of None \<Rightarrow> None | Some b \<Rightarrow> Some (b, StatusBroken))
      in case ty_ExpiresAt t of
           None \<Rightarrow> cur
         | Some e \<Rightarrow> (case cur of
             None \<Rightarrow> Some (e, StatusExpired)
           | Some (fin, _) \<Rightarrow> if e < fin then Some (e, StatusExpired) else cur))"

definition endedAt :: "treaty \<Rightarrow> instant \<Rightarrow> bool" where
  "endedAt t now = (case EndsAt t of None \<Rightarrow> False | Some (fin, _) \<Rightarrow> \<not> now < fin)"

definition GivesPeaceAt :: "treaty \<Rightarrow> instant \<Rightarrow> bool" where
  "GivesPeaceAt t now =
     (if ty_Status t \<noteq> StatusActive \<or> (ty_Type t \<noteq> TypeNonAggression \<and> ty_Type t \<noteq> TypeAlliance) then False
      else \<not> endedAt t now)"

definition AllowsTradeAt :: "treaty \<Rightarrow> instant \<Rightarrow> bool" where
  "AllowsTradeAt t now =
     (if ty_Status t \<noteq> StatusActive \<or> Rank (ty_Type t) = 0 then False else \<not> endedAt t now)"

definition CanRespond :: "treaty \<Rightarrow> uuid \<Rightarrow> treaty_error option" where
  "CanRespond t p =
     (if \<not> HasParty t p then Some ErrNoEsParte
      else if ty_Status t \<noteq> StatusProposed \<or> ty_ProposedBy t = None \<or> ty_ProposedBy t = Some p then Some ErrNoPuede
      else None)"

definition CanWithdraw :: "treaty \<Rightarrow> uuid \<Rightarrow> treaty_error option" where
  "CanWithdraw t p =
     (if \<not> HasParty t p then Some ErrNoEsParte
      else if ty_Status t \<noteq> StatusProposed \<or> ty_ProposedBy t = None \<or> ty_ProposedBy t \<noteq> Some p then Some ErrNoPuede
      else None)"

definition CanBreak :: "treaty \<Rightarrow> uuid \<Rightarrow> treaty_error option" where
  "CanBreak t p =
     (if \<not> HasParty t p then Some ErrNoEsParte
      else if ty_Status t \<noteq> StatusActive \<or> ty_BreakEffectiveAt t \<noteq> None then Some ErrNoPuede
      else None)"

definition AuthorizesGarrison :: "treaty \<Rightarrow> bool" where
  "AuthorizesGarrison t \<longleftrightarrow> ty_Status t = StatusActive \<and> ty_AllowsGarrison t"

definition HasExpired :: "treaty \<Rightarrow> instant \<Rightarrow> bool" where
  "HasExpired t now =
     (case ty_ExpiresAt t of
        None \<Rightarrow> False
      | Some e \<Rightarrow> if ty_Status t \<noteq> StatusActive then False else \<not> now < e)"

definition CanTransitionTo :: "treaty \<Rightarrow> treaty_status \<Rightarrow> bool" where
  "CanTransitionTo t next = (next \<in> transicionesPermitidas (ty_Status t))"

definition TransitionTo :: "treaty \<Rightarrow> treaty_status \<Rightarrow> instant \<Rightarrow> treaty_error + treaty" where
  "TransitionTo t next at =
     (if \<not> Valid_treaty_status next then Err ErrTratadoInvalido
      else if \<not> CanTransitionTo t next then Err ErrTransicionInvalida
      else let t' = t\<lparr>ty_Status := next\<rparr>
           in Ok (case next of
                StatusActive \<Rightarrow> t'\<lparr>ty_AcceptedAt := Some at\<rparr>
              | StatusBroken \<Rightarrow> t'\<lparr>ty_BrokenAt := Some at\<rparr>
              | StatusRejected \<Rightarrow> t'\<lparr>ty_ClosedAt := Some at\<rparr>
              | StatusWithdrawn \<Rightarrow> t'\<lparr>ty_ClosedAt := Some at\<rparr>
              | StatusExpired \<Rightarrow> (if ty_AcceptedAt t = None then t'\<lparr>ty_ClosedAt := Some at\<rparr> else t')
              | _ \<Rightarrow> t'))"

definition Validate_treaty :: "(uuid \<Rightarrow> string) \<Rightarrow> treaty \<Rightarrow> treaty_error option" where
  "Validate_treaty ustr t =
     (if \<not> Valid_treaty_type (ty_Type t) then Some ErrTratadoInvalido
      else if \<not> Valid_treaty_status (ty_Status t) then Some ErrTratadoInvalido
      else if ty_PlayerA t = ty_PlayerB t then Some ErrTratadoInvalido
      else if ustr (ty_PlayerB t) < ustr (ty_PlayerA t) then Some ErrTratadoInvalido
      else if ty_Status t = StatusActive \<and> ty_AcceptedAt t = None then Some ErrTratadoInvalido
      else if ty_Status t = StatusBroken \<and> ty_BrokenAt t = None then Some ErrTratadoInvalido
      else if (case ty_ProposedBy t of None \<Rightarrow> False | Some p \<Rightarrow> \<not> HasParty t p) then Some ErrTratadoInvalido
      else None)"

definition FindAuthorizing :: "(uuid \<Rightarrow> string) \<Rightarrow> treaty list \<Rightarrow> uuid \<Rightarrow> uuid \<Rightarrow> treaty option" where
  "FindAuthorizing ustr treaties x y = find (\<lambda>t. Involves ustr t x y \<and> AuthorizesGarrison t) treaties"

subsection \<open>Garrisons (garrison.go)\<close>

datatype garrison_error =
  GErrNotOwned | GErrDead | GErrAlreadyGarrisoned | GErrNotIdle | GErrCityNotFound | GErrNotAdjacent
| GErrTreatyRequired | GErrNoReentryTile

definition CanEnter ::
  "(uuid \<Rightarrow> string) \<Rightarrow> unit_rec option \<Rightarrow> city option \<Rightarrow> uuid \<Rightarrow> treaty list \<Rightarrow> garrison_error option" where
  "CanEnter ustr uo co requester treaties =
     (case uo of
        None \<Rightarrow> Some GErrCityNotFound
      | Some u \<Rightarrow>
          if u_PlayerID u \<noteq> requester then Some GErrNotOwned
          else case u_Status u of
            StatusIdle \<Rightarrow>
              (if \<not> IsAlive u then Some GErrDead
               else case co of
                 None \<Rightarrow> Some GErrCityNotFound
               | Some c \<Rightarrow>
                   if \<not> IsAdjacent_city c (u_X u) (u_Y u) then Some GErrNotAdjacent
                   else if c_OwnerPlayerID c = u_PlayerID u then None
                   else if FindAuthorizing ustr treaties (u_PlayerID u) (c_OwnerPlayerID c) = None
                   then Some GErrTreatyRequired
                   else None)
          | StatusDead \<Rightarrow> Some GErrDead
          | StatusGarrisoned \<Rightarrow> Some GErrAlreadyGarrisoned
          | _ \<Rightarrow> Some GErrNotIdle)"

definition CanLeave :: "unit_rec option \<Rightarrow> uuid \<Rightarrow> garrison_error option" where
  "CanLeave uo requester =
     (case uo of
        None \<Rightarrow> Some GErrCityNotFound
      | Some u \<Rightarrow>
          if u_PlayerID u \<noteq> requester then Some GErrNotOwned
          else if u_Status u \<noteq> StatusGarrisoned then Some GErrNotIdle
          else None)"

text \<open>
  The candidates, in the order of the double loop, then sorted by (y, x): sort.Slice on a list
  without equal keys is the sorted list, here sort_key on (y, x).
\<close>

definition reentry_candidates ::
  "world \<Rightarrow> city \<Rightarrow> (int32 \<Rightarrow> int32 \<Rightarrow> bool) option \<Rightarrow> (int \<times> int) list" where
  "reentry_candidates w c occupied =
     (let (minX, minY, maxX, maxY) = UrbanBounds c
      in filter (\<lambda>(x, y).
           \<not> (minX \<le> x \<and> x \<le> maxX \<and> minY \<le> y \<and> y \<le> maxY) \<and>
           \<not> (\<not> InBounds w x y \<or> \<not> IsWalkable w x y) \<and>
           \<not> (case occupied of None \<Rightarrow> False | Some f \<Rightarrow> f x y))
         (scan (i32 (minX - 1)) (i32 (minY - 1)) (i32 (maxX + 1)) (i32 (maxY + 1))))"

fun insert_yx :: "int \<times> int \<Rightarrow> (int \<times> int) list \<Rightarrow> (int \<times> int) list" where
  "insert_yx p [] = [p]"
| "insert_yx p (q # qs) = (if row_major_less q p then q # insert_yx p qs else p # q # qs)"

definition sort_yx :: "(int \<times> int) list \<Rightarrow> (int \<times> int) list" where
  "sort_yx ps = foldr insert_yx ps []"

definition ReentryTile ::
  "world option \<Rightarrow> city option \<Rightarrow> (int32 \<Rightarrow> int32 \<Rightarrow> bool) option \<Rightarrow> garrison_error + tile" where
  "ReentryTile wo co occupied =
     (case (wo, co) of
        (Some w, Some c) \<Rightarrow>
          (let candidatos = reentry_candidates w c occupied
           in if candidatos = [] then Err GErrNoReentryTile
              else let (x, y) = sort_yx candidatos ! 0 in Ok (mk_tile x y))
      | _ \<Rightarrow> Err GErrCityNotFound)"

subsection \<open>The state machine of a treaty\<close>

text \<open>
  A run of a treaty from its offer, which has no instant but the one it was proposed at (the row
  that Propose builds): transitions, and the notice of a break (the simulation sets the end of the
  notice while CanBreak allows it). The index is the history: the states visited, the latest first,
  each with the instant it was reached at.
\<close>

inductive treaty_run :: "treaty \<Rightarrow> (treaty_status \<times> instant) list \<Rightarrow> bool" where
  run_offer: "ty_Status t = StatusProposed \<Longrightarrow> ty_AcceptedAt t = None \<Longrightarrow> ty_BrokenAt t = None \<Longrightarrow>
    ty_ClosedAt t = None \<Longrightarrow> treaty_run t [(StatusProposed, ty_ProposedAt t)]"
| run_transition: "treaty_run t hs \<Longrightarrow> TransitionTo t next at = Ok t' \<Longrightarrow> treaty_run t' ((next, at) # hs)"
| run_notice: "treaty_run t hs \<Longrightarrow> CanBreak t p = None \<Longrightarrow> treaty_run (t\<lparr>ty_BreakEffectiveAt := Some at\<rparr>) hs"

lemma TransitionTo_Ok:
  "TransitionTo t next at = Ok t' \<Longrightarrow>
    (ty_Status t = StatusProposed \<and> next \<in> {StatusActive, StatusRejected, StatusWithdrawn, StatusExpired} \<or>
     ty_Status t = StatusActive \<and> next \<in> {StatusExpired, StatusBroken}) \<and>
    ty_Status t' = next \<and> ty_Type t' = ty_Type t \<and> ty_PlayerA t' = ty_PlayerA t \<and> ty_PlayerB t' = ty_PlayerB t \<and>
    ty_ProposedBy t' = ty_ProposedBy t \<and> ty_ExpiresAt t' = ty_ExpiresAt t \<and> ty_ProposedAt t' = ty_ProposedAt t \<and>
    ty_AcceptedAt t' = (if next = StatusActive then Some at else ty_AcceptedAt t) \<and>
    ty_BrokenAt t' = (if next = StatusBroken then Some at else ty_BrokenAt t) \<and>
    ty_ClosedAt t' = (if next \<in> {StatusRejected, StatusWithdrawn} \<or> next = StatusExpired \<and> ty_AcceptedAt t = None
      then Some at else ty_ClosedAt t)"
proof -
  assume ok: "TransitionTo t next at = Ok t'"
  then have "next \<in> transicionesPermitidas (ty_Status t)"
    by (simp add: TransitionTo_def CanTransitionTo_def split: if_splits)
  then have c: "ty_Status t = StatusProposed \<and> next \<in> {StatusActive, StatusRejected, StatusWithdrawn, StatusExpired} \<or>
     ty_Status t = StatusActive \<and> next \<in> {StatusExpired, StatusBroken}"
    by (cases "ty_Status t") (simp_all add: transicionesPermitidas_def)
  with ok show ?thesis
    by (cases "next") (simp_all add: TransitionTo_def Let_def split: if_splits, auto)
qed

lemma Validate_treaty_None:
  "Validate_treaty ustr t = None \<longleftrightarrow> Valid_treaty_type (ty_Type t) \<and> Valid_treaty_status (ty_Status t) \<and>
     ty_PlayerA t \<noteq> ty_PlayerB t \<and> \<not> ustr (ty_PlayerB t) < ustr (ty_PlayerA t) \<and>
     (ty_Status t = StatusActive \<longrightarrow> ty_AcceptedAt t \<noteq> None) \<and> (ty_Status t = StatusBroken \<longrightarrow> ty_BrokenAt t \<noteq> None) \<and>
     (\<forall>p. ty_ProposedBy t = Some p \<longrightarrow> HasParty t p)"
  unfolding Validate_treaty_def by (cases "ty_ProposedBy t") simp_all

lemma TransitionTo_Validate:
  "TransitionTo t next at = Ok t' \<Longrightarrow> Validate_treaty ustr t = None \<Longrightarrow> Validate_treaty ustr t' = None"
proof -
  assume ok: "TransitionTo t next at = Ok t'" and v: "Validate_treaty ustr t = None"
  note t = TransitionTo_Ok[OF ok]
  have "Valid_treaty_status next" using t by (auto simp: Valid_treaty_status_def)
  moreover note t2 = t[THEN conjunct2]
  moreover have "HasParty t' p = HasParty t p" for p using t2 by (simp add: HasParty_def)
  ultimately show ?thesis using v unfolding Validate_treaty_None by simp
qed

definition treaty_histories :: "treaty_status list set" where
  "treaty_histories = {[StatusProposed], [StatusRejected, StatusProposed], [StatusWithdrawn, StatusProposed],
     [StatusExpired, StatusProposed], [StatusActive, StatusProposed],
     [StatusExpired, StatusActive, StatusProposed], [StatusBroken, StatusActive, StatusProposed]}"

text \<open>The instant that closes an offer that was never accepted: the last one of its history.\<close>

definition closed_at :: "(treaty_status \<times> instant) list \<Rightarrow> instant option" where
  "closed_at hs = (if StatusActive \<in> set (map fst hs) \<or> fst (hd hs) = StatusProposed then None else Some (snd (hd hs)))"

text \<open>
  C29: a treaty that starts as an offer goes through at most three states, of which at most one
  is ACTIVE and the last, when it is final, stays: the run (latest state first) is the offer, the
  offer closed (rejected, withdrawn or expired), or accepted and then perhaps expired or
  broken. Its instants are exactly those of the run: it was proposed when the offer was made,
  accepted when it became ACTIVE, broken when it became BROKEN, and closed when an offer that was
  never accepted was rejected, withdrawn or expired; an instant whose state was not visited is
  absent, and in particular an accepted treaty that expires gets no closing instant. Every
  transition keeps the row valid.
\<close>

theorem treaty_run_states:
  assumes "treaty_run t hs"
  shows "ty_Status t = fst (hd hs) \<and> map fst hs \<in> treaty_histories
    \<and> Some (ty_ProposedAt t) = map_of hs StatusProposed \<and> ty_AcceptedAt t = map_of hs StatusActive
    \<and> ty_BrokenAt t = map_of hs StatusBroken \<and> ty_ClosedAt t = closed_at hs
    \<and> (\<forall>next at t' ustr. TransitionTo t next at = Ok t' \<and> Validate_treaty ustr t = None \<longrightarrow> Validate_treaty ustr t' = None)"
proof -
  have "ty_Status t = fst (hd hs) \<and> map fst hs \<in> treaty_histories \<and> Some (ty_ProposedAt t) = map_of hs StatusProposed
    \<and> ty_AcceptedAt t = map_of hs StatusActive \<and> ty_BrokenAt t = map_of hs StatusBroken \<and> ty_ClosedAt t = closed_at hs"
    using assms
  proof (induction rule: treaty_run.induct)
    case (run_transition t hs nx at t')
    note ok = TransitionTo_Ok[OF run_transition.hyps(2)]
    from run_transition.IH have shape: "ty_Status t = fst (hd hs)" "map fst hs \<in> treaty_histories"
      "Some (ty_ProposedAt t) = map_of hs StatusProposed" "ty_AcceptedAt t = map_of hs StatusActive"
      "ty_BrokenAt t = map_of hs StatusBroken" "ty_ClosedAt t = closed_at hs" by auto
    have from_open: "(\<exists>a. hs = [(StatusProposed, a)]) \<and> nx \<in> {StatusActive, StatusRejected, StatusWithdrawn, StatusExpired}
      \<or> (\<exists>a b. hs = [(StatusActive, b), (StatusProposed, a)]) \<and> nx \<in> {StatusExpired, StatusBroken}"
      using ok[THEN conjunct1] shape(1,2) unfolding treaty_histories_def
      by (elim conjE insertE emptyE disjE) (auto simp: map_eq_Cons_conv)
    then show ?case using ok[THEN conjunct2] shape
      by (elim disjE conjE exE insertE emptyE) (simp_all add: treaty_histories_def closed_at_def)
  qed (simp_all add: treaty_histories_def closed_at_def)
  with TransitionTo_Validate show ?thesis by blast
qed

subsection \<open>The canonical pair\<close>

lemma CanonicalPair_commute: "inj ustr \<Longrightarrow> CanonicalPair ustr x y = CanonicalPair ustr y x"
  by (auto simp: CanonicalPair_def dest: injD)

text \<open>
  while different identifiers have different texts, the canonical pair does not depend on
  the order of the players; a valid treaty involves exactly its two parties, in either order,
  and the first treaty of a list that authorises a garrison is the same for both.
\<close>

theorem treaty_both_ways:
  assumes "inj ustr"
  shows "Involves ustr t x y = Involves ustr t y x
    \<and> FindAuthorizing ustr ts x y = FindAuthorizing ustr ts y x
    \<and> (Validate_treaty ustr t = None \<longrightarrow>
        (Involves ustr t x y \<longleftrightarrow> {x, y} = {ty_PlayerA t, ty_PlayerB t} \<and> HasParty t x \<and> y = Other t x))"
proof (intro conjI impI)
  have i: "Involves ustr t x y = Involves ustr t y x" for t
    by (simp add: Involves_def CanonicalPair_commute[OF assms, of x y])
  then show "Involves ustr t x y = Involves ustr t y x" .
  show "FindAuthorizing ustr ts x y = FindAuthorizing ustr ts y x" by (simp add: FindAuthorizing_def i)
  assume v: "Validate_treaty ustr t = None"
  then have "ty_PlayerA t \<noteq> ty_PlayerB t" "\<not> ustr (ty_PlayerB t) < ustr (ty_PlayerA t)"
    by (auto simp: Validate_treaty_def split: if_splits)
  then show "Involves ustr t x y \<longleftrightarrow> {x, y} = {ty_PlayerA t, ty_PlayerB t} \<and> HasParty t x \<and> y = Other t x"
    using assms by (auto simp: Involves_def CanonicalPair_def HasParty_def Other_def doubleton_eq_iff not_less
        dest: injD order_antisym)
qed

subsection \<open>What a treaty gives, and until when\<close>

text \<open>
  peace implies trade, both need an active treaty, both last exactly until the earlier of
  the end of a notice and the expiry, that instant excluded, and then never come back; during
  the notice they go on. While it is in force a treaty can only be replaced by one of a higher
  rank.
\<close>

theorem treaty_in_force:
  "(GivesPeaceAt t now \<longrightarrow> AllowsTradeAt t now)
   \<and> (AllowsTradeAt t now \<longleftrightarrow> ty_Status t = StatusActive \<and> Valid_treaty_type (ty_Type t) \<and>
        (\<forall>e. ty_ExpiresAt t = Some e \<longrightarrow> now < e) \<and> (\<forall>b. ty_BreakEffectiveAt t = Some b \<longrightarrow> now < b))
   \<and> (AllowsTradeAt t later \<and> now \<le> later \<longrightarrow> AllowsTradeAt t now)
   \<and> (Supersedes u (ty_Type t) \<longrightarrow> \<not> Supersedes (ty_Type t) u \<and> u \<noteq> ty_Type t \<and> u \<noteq> TypeTrade)"
  by (auto simp: GivesPeaceAt_def AllowsTradeAt_def endedAt_def EndsAt_def Rank_def Valid_treaty_type_def Supersedes_def
      split: option.splits treaty_type.splits if_splits)

subsection \<open>Entering and leaving a garrison\<close>

text \<open>
  a unit enters a city exactly when its owner asks, it is idle and alive and touches the
  urban zone, and the city is its owner's or some active treaty between the two owners allows
  garrisons. A unit that is in a garrison cannot enter, and is the only one that can leave.
\<close>

theorem garrison_gate:
  "(CanEnter ustr (Some u) (Some c) requester treaties = None \<longleftrightarrow>
     u_PlayerID u = requester \<and> u_Status u = StatusIdle \<and> 0 < u_HP u \<and> IsAdjacent_city c (u_X u) (u_Y u) \<and>
     (c_OwnerPlayerID c = u_PlayerID u \<or>
      (\<exists>t \<in> set treaties. Involves ustr t (u_PlayerID u) (c_OwnerPlayerID c) \<and> ty_Status t = StatusActive \<and> ty_AllowsGarrison t)))
   \<and> (CanLeave (Some u) requester = None \<longleftrightarrow> u_PlayerID u = requester \<and> u_Status u = StatusGarrisoned)"
proof
  have f: "FindAuthorizing ustr treaties x y = None \<longleftrightarrow>
      \<not> (\<exists>t \<in> set treaties. Involves ustr t x y \<and> ty_Status t = StatusActive \<and> ty_AllowsGarrison t)" for x y
    by (auto simp: FindAuthorizing_def find_None_iff AuthorizesGarrison_def)
  show "CanEnter ustr (Some u) (Some c) requester treaties = None \<longleftrightarrow>
     u_PlayerID u = requester \<and> u_Status u = StatusIdle \<and> 0 < u_HP u \<and> IsAdjacent_city c (u_X u) (u_Y u) \<and>
     (c_OwnerPlayerID c = u_PlayerID u \<or>
      (\<exists>t \<in> set treaties. Involves ustr t (u_PlayerID u) (c_OwnerPlayerID c) \<and> ty_Status t = StatusActive \<and> ty_AllowsGarrison t))"
    unfolding CanEnter_def f by (cases "u_Status u") (auto simp: IsAlive_def)
  show "CanLeave (Some u) requester = None \<longleftrightarrow> u_PlayerID u = requester \<and> u_Status u = StatusGarrisoned"
    by (simp add: CanLeave_def)
qed

lemma sort_yx_sorted: "sorted_wrt row_major_less ps \<Longrightarrow> sort_yx ps = ps"
proof (induction ps)
  case (Cons p ps)
  have "insert_yx p ps = p # ps"
    using Cons.prems by (cases ps) (auto simp: row_major_less_def)
  with Cons show ?case by (simp add: sort_yx_def)
qed (simp add: sort_yx_def)

lemma reentry_candidates_set:
  assumes "inner_city c"
  shows "set (reentry_candidates w c occ) =
    {(x, y). IsAdjacent_city c x y \<and> IsWalkable w x y \<and> \<not> (case occ of None \<Rightarrow> False | Some f \<Rightarrow> f x y)}"
proof -
  have i: "i32 (c_CenterX c - 1 - 1) = c_CenterX c - 2" "i32 (c_CenterX c + 1 + 1) = c_CenterX c + 2"
    "i32 (c_CenterY c - 1 - 1) = c_CenterY c - 2" "i32 (c_CenterY c + 1 + 1) = c_CenterY c + 2"
    using assms by (simp_all add: inner_city_def i32_id)
  show ?thesis
    unfolding reentry_candidates_def UrbanBounds_eq[OF assms] Let_def prod.case i set_filter set_scan
      IsAdjacent_city_def Occupies_def
    using IsWalkable_InBounds[of w] by auto
qed

text \<open>
  a unit leaves a garrison by the least tile, by (y, x), of those around the urban zone that
  can be walked on and are free, and the exit is only refused when there is none. (The sort
  changes nothing: the loop already visits the ring in that order.)
\<close>

theorem ReentryTile_least:
  assumes "inner_city c"
  shows "case ReentryTile (Some w) (Some c) (Some occ) of
      Ok t \<Rightarrow> IsAdjacent_city c (tX t) (tY t) \<and> IsWalkable w (tX t) (tY t) \<and> \<not> occ (tX t) (tY t) \<and>
        (\<forall>x y. IsAdjacent_city c x y \<and> IsWalkable w x y \<and> \<not> occ x y \<longrightarrow>
           (tX t, tY t) = (x, y) \<or> row_major_less (tX t, tY t) (x, y))
    | Err e \<Rightarrow> e = GErrNoReentryTile \<and> \<not> (\<exists>x y. IsAdjacent_city c x y \<and> IsWalkable w x y \<and> \<not> occ x y)"
proof -
  let ?ps = "reentry_candidates w c (Some occ)"
  have set: "(x, y) \<in> set ?ps \<longleftrightarrow> IsAdjacent_city c x y \<and> IsWalkable w x y \<and> \<not> occ x y" for x y
    by (simp add: reentry_candidates_set[OF assms])
  have "sorted_wrt row_major_less ?ps"
    by (auto simp: reentry_candidates_def Let_def split: prod.split intro!: sorted_wrt_filter sorted_wrt_scan)
  note srt = this sort_yx_sorted[OF this]
  show ?thesis
  proof (cases ?ps)
    case Nil
    have "\<not> (IsAdjacent_city c x y \<and> IsWalkable w x y \<and> \<not> occ x y)" for x y
      using set[of x y] by (simp add: Nil)
    with Nil show ?thesis by (auto simp: ReentryTile_def)
  next
    case (Cons p ps)
    obtain x0 y0 where p: "p = (x0, y0)" by (cases p)
    have r: "ReentryTile (Some w) (Some c) (Some occ) = Ok (mk_tile x0 y0)"
      using srt(2) Cons p by (simp add: ReentryTile_def)
    have "(x0, y0) = (x, y) \<or> row_major_less (x0, y0) (x, y)" if "(x, y) \<in> set ?ps" for x y
      using srt(1) that Cons p by auto
    with r set p Cons set[of x0 y0] show ?thesis by simp
  qed
qed

theorem ReentryTile_least_witness:
  "ReentryTile (Some meadow) (Some (sample_city\<lparr>c_CenterX := - 1, c_CenterY := 1\<rparr>)) (Some (\<lambda>x y. y = 0)) = Ok (mk_tile 1 1)"
proof -
  let ?c = "sample_city\<lparr>c_CenterX := - 1, c_CenterY := 1\<rparr>"
  have i: "inner_city ?c" by (simp add: inner_city_def sample_city_def)
  have adj: "IsAdjacent_city ?c 1 1" by (simp add: IsAdjacent_city_iff[OF i])
  note spec = ReentryTile_least[OF i, of meadow "\<lambda>x y. y = 0"]
  have "IsAdjacent_city ?c 1 1 \<and> IsWalkable meadow 1 1 \<and> (1 :: int) \<noteq> 0" using adj meadow_walkable[of 1 1] by simp
  then obtain t where t: "ReentryTile (Some meadow) (Some ?c) (Some (\<lambda>x y. y = 0)) = Ok t"
    using spec by (cases "ReentryTile (Some meadow) (Some ?c) (Some (\<lambda>x y. y = 0))") (force, blast)
  with spec adj meadow_walkable[of 1 1] have "(tX t, tY t) = (1, 1) \<or> row_major_less (tX t, tY t) (1, 1)"
    "IsAdjacent_city ?c (tX t) (tY t)" "IsWalkable meadow (tX t) (tY t)" "tY t \<noteq> 0" by auto
  moreover have "0 \<le> tX t" "0 \<le> tY t"
    using calculation(3) IsWalkable_InBounds[of meadow] by (auto simp: InBounds_def)
  moreover have "max \<bar>tX t + 1\<bar> \<bar>tY t - 1\<bar> = 2" using calculation(2) by (simp add: IsAdjacent_city_iff[OF i])
  ultimately have "tX t = 1" "tY t = 1" by (auto simp: row_major_less_def)
  then have "t = mk_tile 1 1" by simp
  with t show ?thesis by simp
qed

subsection \<open>Witnesses\<close>

definition sample_treaty :: treaty where
  "sample_treaty = \<lparr>ty_ID = 1, ty_PlayerA = 1, ty_PlayerB = 2, ty_Type = TypeAlliance, ty_Status = StatusProposed,
     ty_AllowsGarrison = True, ty_ProposedAt = 0, ty_AcceptedAt = None, ty_ExpiresAt = Some 500, ty_BrokenAt = None,
     ty_ProposedBy = Some 1, ty_RequestID = ''r'', ty_BreakEffectiveAt = None, ty_ClosedAt = None\<rparr>"

theorem treaty_run_states_witness:
  "treaty_run (sample_treaty\<lparr>ty_Status := StatusActive, ty_AcceptedAt := Some 10, ty_BreakEffectiveAt := Some 90\<rparr>)
      [(StatusActive, 10), (StatusProposed, 0)]
    \<and> ty_ClosedAt (sample_treaty\<lparr>ty_Status := StatusActive, ty_AcceptedAt := Some 10, ty_BreakEffectiveAt := Some 90\<rparr>) = None"
proof -
  let ?a = "sample_treaty\<lparr>ty_Status := StatusActive, ty_AcceptedAt := Some 10\<rparr>"
  have "treaty_run sample_treaty [(StatusProposed, ty_ProposedAt sample_treaty)]"
    by (rule run_offer) (simp_all add: sample_treaty_def)
  then have "treaty_run sample_treaty [(StatusProposed, 0)]" by (simp add: sample_treaty_def)
  then have "treaty_run ?a [(StatusActive, 10), (StatusProposed, 0)]"
    by (rule run_transition) (simp add: TransitionTo_def CanTransitionTo_def transicionesPermitidas_def
        Valid_treaty_status_def Let_def sample_treaty_def)
  then have "treaty_run (?a\<lparr>ty_BreakEffectiveAt := Some 90\<rparr>) [(StatusActive, 10), (StatusProposed, 0)]"
    by (rule run_notice[where p = 2]) (simp add: CanBreak_def HasParty_def sample_treaty_def)
  with treaty_run_states[OF this] show ?thesis by (simp add: closed_at_def)
qed

text \<open>The 128 bits, one character each: a concrete text for which the hypothesis holds.\<close>

definition bits_text :: "uuid \<Rightarrow> string" where
  "bits_text x = map (\<lambda>i. if bit x i then CHR ''1'' else CHR ''0'') (rev [0..<128])"

lemma inj_bits_text: "inj bits_text"
proof (rule injI)
  fix x y :: uuid assume "bits_text x = bits_text y"
  then have "\<forall>i < 128. bit x i = bit y i" by (auto simp: bits_text_def split: if_splits)
  then show "x = y" by (auto intro!: bit_eqI simp: bit_imp_le_length)
qed

theorem treaty_both_ways_witness:
  "Involves bits_text sample_treaty 2 1 = Involves bits_text sample_treaty 1 2"
  using treaty_both_ways[OF inj_bits_text] by blast

theorem treaty_in_force_witness:
  "AllowsTradeAt (sample_treaty\<lparr>ty_Status := StatusActive\<rparr>) 499 \<and> \<not> AllowsTradeAt (sample_treaty\<lparr>ty_Status := StatusActive\<rparr>) 500"
  using treaty_in_force[of "sample_treaty\<lparr>ty_Status := StatusActive\<rparr>" 499]
    treaty_in_force[of "sample_treaty\<lparr>ty_Status := StatusActive\<rparr>" 500]
  by (simp add: sample_treaty_def Valid_treaty_type_def)

end
