(* ===== verification/Trade.thy ===== *)
theory Trade
  imports Economy City "HOL-Library.List_Lexorder" "HOL-Library.Char_ord" "HOL-Library.Product_Lexorder"
begin

section \<open>Trade offers\<close>

text \<open>
  Models internal/domain/trade/trade.go: the lines of an offer, who may answer or withdraw it,
  its closing, and the legs of an accepted deal. Proved: an offer closes once, from PROPOSED;
  and the legs of a deal move resources without creating or destroying any, one leg per city
  and resource, in a fixed order.
\<close>

definition MaxAmount :: int64 where "MaxAmount = 1000000"

datatype trade_error = ErrOfertaInvalida | TErrNoEsParte | TErrNoPuede | TErrTransicionInvalida

datatype offer_status =
  OfferProposed | OfferAccepted | OfferRejected | OfferWithdrawn | OfferExpired | OfferOther string

definition Valid_offer_status :: "offer_status \<Rightarrow> bool" where
  "Valid_offer_status s = (case s of OfferOther _ \<Rightarrow> False | _ \<Rightarrow> True)"

definition Statuses :: "offer_status list" where
  "Statuses = [OfferProposed, OfferAccepted, OfferRejected, OfferWithdrawn, OfferExpired]"

record offer =
  o_ID :: int64
  o_Proposer :: uuid
  o_Target :: uuid
  o_ProposerCity :: int64
  o_TargetCity :: int64
  o_Give :: costs
  o_Want :: costs
  o_Status :: offer_status
  o_RequestID :: string
  o_AcceptedRequestID :: string
  o_CreatedAt :: instant
  o_ExpiresAt :: instant
  o_ClosedAt :: "instant option"

fun validate_lines_loop :: "resource set \<Rightarrow> costs \<Rightarrow> trade_error + resource set" where
  "validate_lines_loop seen [] = Ok seen"
| "validate_lines_loop seen (l # ls) =
     (if \<not> Valid_resource (k_Resource l) then Err ErrOfertaInvalida
      else if k_Amount l < 1 \<or> MaxAmount < k_Amount l then Err ErrOfertaInvalida
      else if k_Resource l \<in> seen then Err ErrOfertaInvalida
      else validate_lines_loop (insert (k_Resource l) seen) ls)"

definition ValidateLines :: "costs \<Rightarrow> costs \<Rightarrow> trade_error option" where
  "ValidateLines give want =
     (if give = [] \<or> want = [] then Some ErrOfertaInvalida
      else case validate_lines_loop {} give of
        Err e \<Rightarrow> Some e
      | Ok seen \<Rightarrow> (case validate_lines_loop seen want of Err e \<Rightarrow> Some e | Ok _ \<Rightarrow> None))"

definition HasParty_offer :: "offer \<Rightarrow> uuid \<Rightarrow> bool" where
  "HasParty_offer f p \<longleftrightarrow> o_Proposer f = p \<or> o_Target f = p"

definition Other_offer :: "offer \<Rightarrow> uuid \<Rightarrow> uuid" where
  "Other_offer f p = (if o_Proposer f = p then o_Target f else o_Proposer f)"

definition Involves_offer :: "offer \<Rightarrow> uuid \<Rightarrow> uuid \<Rightarrow> bool" where
  "Involves_offer f x y \<longleftrightarrow> (o_Proposer f = x \<and> o_Target f = y) \<or> (o_Proposer f = y \<and> o_Target f = x)"

definition CanRespond_offer :: "offer \<Rightarrow> uuid \<Rightarrow> trade_error option" where
  "CanRespond_offer f p =
     (if \<not> HasParty_offer f p then Some TErrNoEsParte
      else if o_Status f \<noteq> OfferProposed \<or> o_Target f \<noteq> p then Some TErrNoPuede
      else None)"

definition CanWithdraw_offer :: "offer \<Rightarrow> uuid \<Rightarrow> trade_error option" where
  "CanWithdraw_offer f p =
     (if \<not> HasParty_offer f p then Some TErrNoEsParte
      else if o_Status f \<noteq> OfferProposed \<or> o_Proposer f \<noteq> p then Some TErrNoPuede
      else None)"

definition ExpiredAt :: "offer \<Rightarrow> instant \<Rightarrow> bool" where
  "ExpiredAt f now \<longleftrightarrow> o_Status f = OfferProposed \<and> \<not> now < o_ExpiresAt f"

definition TransitionTo_offer :: "offer \<Rightarrow> offer_status \<Rightarrow> instant \<Rightarrow> trade_error + offer" where
  "TransitionTo_offer f next at =
     (if o_Status f \<noteq> OfferProposed \<or> \<not> Valid_offer_status next \<or> next = OfferProposed
      then Err TErrTransicionInvalida
      else Ok (f\<lparr>o_Status := next, o_ClosedAt := Some at\<rparr>))"

definition For :: "offer \<Rightarrow> uuid \<Rightarrow> costs \<times> costs" where
  "For f viewer = (if viewer = o_Proposer f then (o_Give f, o_Want f) else (o_Want f, o_Give f))"

record leg =
  g_CityID :: int64
  g_Resource :: resource
  g_Pays :: int64
  g_Gets :: int64

definition give_legs :: "offer \<Rightarrow> cost \<Rightarrow> leg list" where
  "give_legs f l =
     [\<lparr>g_CityID = o_ProposerCity f, g_Resource = k_Resource l, g_Pays = k_Amount l, g_Gets = 0\<rparr>,
      \<lparr>g_CityID = o_TargetCity f, g_Resource = k_Resource l, g_Pays = 0, g_Gets = k_Amount l\<rparr>]"

definition want_legs :: "offer \<Rightarrow> cost \<Rightarrow> leg list" where
  "want_legs f l =
     [\<lparr>g_CityID = o_TargetCity f, g_Resource = k_Resource l, g_Pays = k_Amount l, g_Gets = 0\<rparr>,
      \<lparr>g_CityID = o_ProposerCity f, g_Resource = k_Resource l, g_Pays = 0, g_Gets = k_Amount l\<rparr>]"

text \<open>sort.Slice by city and resource; the keys of the legs of a valid offer are distinct.\<close>

definition Legs :: "offer \<Rightarrow> leg list" where
  "Legs f = sort_key (\<lambda>g. (g_CityID g, g_Resource g))
     (concat (map (give_legs f) (o_Give f)) @ concat (map (want_legs f) (o_Want f)))"

subsection \<open>Valid lines\<close>

lemma validate_lines_loop_Ok:
  "validate_lines_loop seen ls = Ok s' \<longleftrightarrow>
    (\<forall>l \<in> set ls. Valid_resource (k_Resource l) \<and> 1 \<le> k_Amount l \<and> k_Amount l \<le> MaxAmount) \<and>
    distinct (map k_Resource ls) \<and> (\<forall>l \<in> set ls. k_Resource l \<notin> seen) \<and> s' = seen \<union> k_Resource ` set ls"
proof (induction ls arbitrary: seen)
  case (Cons l ls)
  have "(\<forall>d \<in> set ls. k_Resource d \<noteq> k_Resource l) \<longleftrightarrow> k_Resource l \<notin> k_Resource ` set ls"
    by (metis image_iff)
  with Cons show ?case by (auto simp: not_less)
qed auto

lemma image_disjoint: "(\<forall>b \<in> B. f b \<notin> f ` A) \<longleftrightarrow> f ` A \<inter> f ` B = {}"
  unfolding disjoint_iff by (metis imageE imageI)

lemma ValidateLines_None:
  "ValidateLines give want = None \<longleftrightarrow> give \<noteq> [] \<and> want \<noteq> [] \<and>
    (\<forall>l \<in> set (give @ want). Valid_resource (k_Resource l) \<and> 1 \<le> k_Amount l \<and> k_Amount l \<le> MaxAmount) \<and>
    distinct (map k_Resource (give @ want))"
proof -
  have "ValidateLines give want = None \<longleftrightarrow> give \<noteq> [] \<and> want \<noteq> [] \<and>
      (\<exists>s s'. validate_lines_loop {} give = Ok s \<and> validate_lines_loop s want = Ok s')"
    unfolding ValidateLines_def by (simp split: sum.split)
  also have "\<dots> \<longleftrightarrow> give \<noteq> [] \<and> want \<noteq> [] \<and>
      (\<forall>l \<in> set give. Valid_resource (k_Resource l) \<and> 1 \<le> k_Amount l \<and> k_Amount l \<le> MaxAmount) \<and>
      (\<forall>l \<in> set want. Valid_resource (k_Resource l) \<and> 1 \<le> k_Amount l \<and> k_Amount l \<le> MaxAmount) \<and>
      distinct (map k_Resource give) \<and> distinct (map k_Resource want) \<and>
      (\<forall>l \<in> set want. k_Resource l \<notin> k_Resource ` set give)"
    unfolding validate_lines_loop_Ok by (simp add: conj_ac)
  also have "(\<forall>l \<in> set want. k_Resource l \<notin> k_Resource ` set give) \<longleftrightarrow>
      k_Resource ` set give \<inter> k_Resource ` set want = {}"
    by (rule image_disjoint)
  finally show ?thesis by (simp add: ball_Un conj_ac)
qed

subsection \<open>The life of an offer\<close>

text \<open>
  an offer closes exactly once: only from PROPOSED, to one of the four final states, with
  its closing instant; afterwards nobody can answer or withdraw it and it never expires. While it
  is pending, the target alone may answer and the proposer alone may withdraw.
\<close>

theorem offer_closes_once:
  "(case TransitionTo_offer f next at of
      Ok f' \<Rightarrow> o_Status f = OfferProposed \<and> next \<in> {OfferAccepted, OfferRejected, OfferWithdrawn, OfferExpired} \<and>
        o_Status f' = next \<and> o_ClosedAt f' = Some at \<and> Legs f' = Legs f \<and>
        TransitionTo_offer f' any later = Err TErrTransicionInvalida \<and>
        CanRespond_offer f' p \<noteq> None \<and> CanWithdraw_offer f' p \<noteq> None \<and> \<not> ExpiredAt f' later
    | Err e \<Rightarrow> o_Status f \<noteq> OfferProposed \<or> next \<notin> {OfferAccepted, OfferRejected, OfferWithdrawn, OfferExpired})
   \<and> (CanRespond_offer f p = None \<longleftrightarrow> o_Status f = OfferProposed \<and> p = o_Target f)
   \<and> (CanWithdraw_offer f p = None \<longleftrightarrow> o_Status f = OfferProposed \<and> p = o_Proposer f)"
  by (cases "next") (auto simp: TransitionTo_offer_def Valid_offer_status_def CanRespond_offer_def CanWithdraw_offer_def
      ExpiredAt_def HasParty_offer_def Legs_def give_legs_def[abs_def] want_legs_def[abs_def])

subsection \<open>The legs of a deal\<close>

definition pays :: "int64 \<Rightarrow> resource \<Rightarrow> leg list \<Rightarrow> int" where
  "pays c r ls = (\<Sum>g \<leftarrow> ls. if g_CityID g = c \<and> g_Resource g = r then g_Pays g else 0)"

definition gets :: "int64 \<Rightarrow> resource \<Rightarrow> leg list \<Rightarrow> int" where
  "gets c r ls = (\<Sum>g \<leftarrow> ls. if g_CityID g = c \<and> g_Resource g = r then g_Gets g else 0)"

definition amount_of :: "resource \<Rightarrow> costs \<Rightarrow> int" where
  "amount_of r cs = (\<Sum>c \<leftarrow> cs. if k_Resource c = r then k_Amount c else 0)"

lemma sum_list_sort_key: "sum_list (map f (sort_key k xs)) = sum_list (map (f :: _ \<Rightarrow> int) xs)"
  by (metis mset_map mset_sort sum_mset_sum_list)

lemma pays_gets_append:
  "pays c r (xs @ ys) = pays c r xs + pays c r ys" "gets c r (xs @ ys) = gets c r xs + gets c r ys"
  by (simp_all add: pays_def gets_def)

lemma legs_of_lines:
  assumes "o_ProposerCity f \<noteq> o_TargetCity f"
  shows "pays c r (concat (map (give_legs f) ls)) = (if c = o_ProposerCity f then amount_of r ls else 0)"
    "gets c r (concat (map (give_legs f) ls)) = (if c = o_TargetCity f then amount_of r ls else 0)"
    "pays c r (concat (map (want_legs f) ls)) = (if c = o_TargetCity f then amount_of r ls else 0)"
    "gets c r (concat (map (want_legs f) ls)) = (if c = o_ProposerCity f then amount_of r ls else 0)"
  using assms
  by (induction ls) (auto simp: pays_def gets_def amount_of_def give_legs_def want_legs_def)

lemma Legs_keys:
  "mset (map (\<lambda>g. (g_CityID g, g_Resource g)) (Legs f)) =
    (\<Sum>l \<in># mset (o_Give f @ o_Want f). {#(o_ProposerCity f, k_Resource l), (o_TargetCity f, k_Resource l)#})"
proof -
  have "mset (map (\<lambda>g. (g_CityID g, g_Resource g)) (concat (map (give_legs f) ls))) =
      (\<Sum>l \<in># mset ls. {#(o_ProposerCity f, k_Resource l), (o_TargetCity f, k_Resource l)#})" for ls
    by (induction ls) (simp_all add: give_legs_def add_mset_commute)
  moreover have "mset (map (\<lambda>g. (g_CityID g, g_Resource g)) (concat (map (want_legs f) ls))) =
      (\<Sum>l \<in># mset ls. {#(o_ProposerCity f, k_Resource l), (o_TargetCity f, k_Resource l)#})" for ls
    by (induction ls) (simp_all add: want_legs_def add_mset_commute)
  ultimately show ?thesis by (simp add: Legs_def)
qed

text \<open>
  INV-TRADE-001: in the deal of a valid offer between two cities, what each city pays of a
  resource is what the other one gets of it, namely what the lines say; so no unit of any
  resource is created or lost. The legs come in increasing order of city and resource, at most
  one for each, and every leg either pays or gets, never both.
\<close>

theorem Legs_conserve:
  assumes "ValidateLines (o_Give f) (o_Want f) = None" "o_ProposerCity f \<noteq> o_TargetCity f"
  shows "pays (o_ProposerCity f) r (Legs f) = amount_of r (o_Give f)
    \<and> gets (o_TargetCity f) r (Legs f) = amount_of r (o_Give f)
    \<and> pays (o_TargetCity f) r (Legs f) = amount_of r (o_Want f)
    \<and> gets (o_ProposerCity f) r (Legs f) = amount_of r (o_Want f)
    \<and> (\<Sum>g \<leftarrow> Legs f. g_Pays g) = (\<Sum>g \<leftarrow> Legs f. g_Gets g)
    \<and> sorted_wrt (<) (map (\<lambda>g. (g_CityID g, g_Resource g)) (Legs f))
    \<and> (\<forall>g \<in> set (Legs f). (g_Pays g = 0) \<noteq> (g_Gets g = 0) \<and> 0 \<le> g_Pays g \<and> 0 \<le> g_Gets g)"
proof -
  let ?raw = "concat (map (give_legs f) (o_Give f)) @ concat (map (want_legs f) (o_Want f))"
  let ?key = "\<lambda>g. (g_CityID g, g_Resource g)"
  have p: "pays c r (Legs f) = pays c r ?raw" "gets c r (Legs f) = gets c r ?raw" for c
    by (simp_all only: pays_def gets_def Legs_def sum_list_sort_key)
  have v: "\<forall>l \<in> set (o_Give f @ o_Want f). 1 \<le> k_Amount l" "distinct (map k_Resource (o_Give f @ o_Want f))"
    using assms(1) by (auto simp: ValidateLines_None)
  have total: "(\<Sum>g \<leftarrow> ?raw. g_Pays g) = (\<Sum>g \<leftarrow> ?raw. g_Gets g)"
  proof -
    have "(\<Sum>g \<leftarrow> concat (map (give_legs f) ls). g_Pays g) = (\<Sum>g \<leftarrow> concat (map (give_legs f) ls). g_Gets g)"
      "(\<Sum>g \<leftarrow> concat (map (want_legs f) ls). g_Pays g) = (\<Sum>g \<leftarrow> concat (map (want_legs f) ls). g_Gets g)" for ls
      by (induction ls) (simp_all add: give_legs_def want_legs_def)
    then show ?thesis by simp
  qed
  have dist: "distinct (map ?key (Legs f))"
  proof -
    have "distinct (concat (map (\<lambda>l. [(o_ProposerCity f, k_Resource l), (o_TargetCity f, k_Resource l)]) ls))"
      if "distinct (map k_Resource ls)" for ls
      using that assms(2) by (induction ls) (auto simp: image_iff)
    moreover have "mset (concat (map (\<lambda>l. [(o_ProposerCity f, k_Resource l), (o_TargetCity f, k_Resource l)]) ls)) =
        (\<Sum>l \<in># mset ls. {#(o_ProposerCity f, k_Resource l), (o_TargetCity f, k_Resource l)#})" for ls
      by (induction ls) simp_all
    ultimately have k: "distinct (concat (map (\<lambda>l. [(o_ProposerCity f, k_Resource l), (o_TargetCity f, k_Resource l)])
          (o_Give f @ o_Want f)))"
      and e: "mset (concat (map (\<lambda>l. [(o_ProposerCity f, k_Resource l), (o_TargetCity f, k_Resource l)])
          (o_Give f @ o_Want f))) = mset (map ?key (Legs f))"
      using v(2) unfolding Legs_keys by blast+
    from mset_eq_imp_distinct_iff[OF e] k show ?thesis by blast
  qed
  have "sorted (map ?key (Legs f))" by (simp add: Legs_def)
  then have "sorted_wrt (<) (map ?key (Legs f))" using dist by (simp add: strict_sorted_iff)
  moreover have "(g_Pays g = 0) \<noteq> (g_Gets g = 0) \<and> 0 \<le> g_Pays g \<and> 0 \<le> g_Gets g" if "g \<in> set (Legs f)" for g
  proof -
    from that obtain l where l: "l \<in> set (o_Give f @ o_Want f)" "g \<in> set (give_legs f l) \<or> g \<in> set (want_legs f l)"
      by (auto simp: Legs_def)
    from v(1) l(1) have "1 \<le> k_Amount l" by blast
    with l(2) show ?thesis by (auto simp: give_legs_def want_legs_def)
  qed
  moreover have "(\<Sum>g \<leftarrow> Legs f. g_Pays g) = (\<Sum>g \<leftarrow> Legs f. g_Gets g)"
    using total by (simp only: Legs_def sum_list_sort_key)
  ultimately show ?thesis
    using assms(2) by (simp add: p pays_gets_append legs_of_lines[OF assms(2)])
qed

definition sample_offer :: offer where
  "sample_offer = \<lparr>o_ID = 1, o_Proposer = 1, o_Target = 2, o_ProposerCity = 20, o_TargetCity = 10,
     o_Give = [\<lparr>k_Resource = ResourceWood, k_Amount = 40\<rparr>], o_Want = [\<lparr>k_Resource = ResourceStone, k_Amount = 15\<rparr>],
     o_Status = OfferProposed, o_RequestID = ''r'', o_AcceptedRequestID = '''', o_CreatedAt = 0, o_ExpiresAt = 100,
     o_ClosedAt = None\<rparr>"

theorem Legs_conserve_witness:
  "pays 20 ResourceWood (Legs sample_offer) = 40 \<and> gets 10 ResourceWood (Legs sample_offer) = 40"
proof -
  have "ValidateLines (o_Give sample_offer) (o_Want sample_offer) = None"
    by (simp add: ValidateLines_None sample_offer_def Valid_resource_def MaxAmount_def ResourceWood_def ResourceStone_def)
  from Legs_conserve[OF this, of ResourceWood] show ?thesis
    by (simp add: sample_offer_def amount_of_def)
qed

theorem offer_closes_once_witness:
  "\<exists>f'. TransitionTo_offer sample_offer OfferAccepted 5 = Ok f' \<and> o_ClosedAt f' = Some 5 \<and>
     TransitionTo_offer f' OfferRejected 6 = Err TErrTransicionInvalida \<and> CanRespond_offer sample_offer 2 = None"
proof -
  have s: "o_Status sample_offer = OfferProposed" "o_Target sample_offer = 2" by (simp_all add: sample_offer_def)
  show ?thesis
    using offer_closes_once[of sample_offer OfferAccepted 5 OfferRejected 6 2]
    by (cases "TransitionTo_offer sample_offer OfferAccepted 5") (simp_all add: s)
qed

end
