(* ===== verification/Painting.thy ===== *)
theory Painting
  imports World "HOL-Library.Product_Lexorder"
begin

section \<open>Indices painted first come, first served\<close>

text \<open>
  The territory index and the safe-zone index are built the same way (territory.go, BuildSet and
  ordenarSolapamientos; safezone.go, BuildIndex and ordenarSolapes): members in ascending order of
  id paint their tiles, a tile that is taken is not painted again, and for the member that keeps it
  and each one that comes to it later the pair is recorded, with the first such tile and their number
  (two members that both come late to a tile are not recorded as a pair there). Here are that inner step, its
  effect as a function of the sequence of writes, and the interface painted_index that the two
  indices provide: the member found at a tile is the one of least id among those covering it.
\<close>

record overlap =
  ov_Kept :: int64
  ov_Discarded :: int64
  ov_X :: int32
  ov_Y :: int32
  ov_Tiles :: int

type_synonym conflicts = "((int64 \<times> int64) \<times> overlap) list"

fun bump :: "int64 \<times> int64 \<Rightarrow> overlap \<Rightarrow> conflicts \<Rightarrow> conflicts" where
  "bump key ov [] = [(key, ov)]"
| "bump key ov ((k, c) # cs) =
     (if k = key then (k, c\<lparr>ov_Tiles := ov_Tiles c + 1\<rparr>) # cs else (k, c) # bump key ov cs)"

definition paint_tile ::
  "int32 \<Rightarrow> int64 \<times> int \<times> int \<Rightarrow> int list \<times> conflicts \<Rightarrow> int list \<times> conflicts" where
  "paint_tile width wr st =
     (case (wr, st) of ((ident, x, y), (tiles, conf)) \<Rightarrow>
        let pos = row_idx width x y; previo = tiles ! pos
        in if previo \<noteq> 0
           then (tiles, bump (previo, ident)
                   \<lparr>ov_Kept = previo, ov_Discarded = ident, ov_X = x, ov_Y = y, ov_Tiles = 1\<rparr> conf)
           else (tiles[pos := ident], conf))"

definition ordenarSolapamientos :: "conflicts \<Rightarrow> overlap list" where
  "ordenarSolapamientos conf = sort_key (\<lambda>v. (ov_Kept v, ov_Discarded v)) (map snd conf)"

subsection \<open>What a sequence of writes leaves\<close>

definition tile_owner :: "int32 \<Rightarrow> (int64 \<times> int \<times> int) list \<Rightarrow> nat \<Rightarrow> int64" where
  "tile_owner width ws p =
     (case find (\<lambda>(ident, x, y). row_idx width x y = p) ws of None \<Rightarrow> 0 | Some (ident, _) \<Rightarrow> ident)"

text \<open>The tiles that k keeps from d, in the order of the writes.\<close>

definition hit_at :: "int32 \<Rightarrow> (int64 \<times> int \<times> int) list \<Rightarrow> int64 \<Rightarrow> int64 \<Rightarrow> nat \<Rightarrow> (int \<times> int) list" where
  "hit_at width ws k d j = (case ws ! j of (d', x, y) \<Rightarrow>
     if d' = d \<and> k \<noteq> 0 \<and> tile_owner width (take j ws) (row_idx width x y) = k then [(x, y)] else [])"

definition tile_hits :: "int32 \<Rightarrow> (int64 \<times> int \<times> int) list \<Rightarrow> int64 \<Rightarrow> int64 \<Rightarrow> (int \<times> int) list" where
  "tile_hits width ws k d = concat (map (hit_at width ws k d) [0..<length ws])"

lemma hits_Nil [simp]: "tile_hits width [] k d = []"
  by (simp add: tile_hits_def)

lemma hits_snoc:
  "tile_hits width (ws @ [(d', x, y)]) k d = tile_hits width ws k d @
     (if d' = d \<and> k \<noteq> 0 \<and> tile_owner width ws (row_idx width x y) = k then [(x, y)] else [])"
proof -
  have "map (hit_at width (ws @ [(d', x, y)]) k d) [0..<length ws] = map (hit_at width ws k d) [0..<length ws]"
    by (rule map_cong) (simp_all add: hit_at_def nth_append)
  then have "tile_hits width (ws @ [(d', x, y)]) k d = tile_hits width ws k d @ hit_at width (ws @ [(d', x, y)]) k d (length ws)"
    by (simp add: tile_hits_def del: map_eq_conv)
  then show ?thesis by (simp add: hit_at_def)
qed

lemma owner_snoc:
  assumes "\<forall>(i, _) \<in> set ws. i \<noteq> 0"
  shows "tile_owner width (ws @ [(d, x, y)]) p =
    (if tile_owner width ws p \<noteq> 0 then tile_owner width ws p else if row_idx width x y = p then d else 0)"
proof (cases "find (\<lambda>(ident, x, y). row_idx width x y = p) ws")
  case (Some w)
  then have "w \<in> set ws" by (blast dest: find_SomeD)
  with Some assms show ?thesis by (auto simp: tile_owner_def find_append split: option.splits)
qed (auto simp: tile_owner_def find_append)

lemma owner_append:
  "tile_owner width (xs @ ys) p = (case find (\<lambda>(ident, x, y). row_idx width x y = p) xs of
     None \<Rightarrow> tile_owner width ys p | Some (ident, _) \<Rightarrow> ident)"
  by (auto simp: tile_owner_def find_append split: option.splits)

text \<open>Members that paint their tiles one after the other: a position is the first one's that paints it.\<close>

lemma owner_concat:
  assumes "\<And>m. m \<in> set ms \<Longrightarrow> \<forall>(i, _) \<in> set (g m). i = ident m"
    and "\<And>m. m \<in> set ms \<Longrightarrow> (\<exists>(i, x, y) \<in> set (g m). row_idx width x y = p) = cov m"
  shows "tile_owner width (concat (map g ms)) p = (case find cov ms of None \<Rightarrow> 0 | Some m \<Rightarrow> ident m)"
  using assms
proof (induction ms)
  case (Cons m ms)
  show ?case
  proof (cases "cov m")
    case True
    with Cons.prems(2)[of m] have "find (\<lambda>(i, x, y). row_idx width x y = p) (g m) \<noteq> None"
      by (auto simp: find_None_iff)
    then obtain i x y where f: "find (\<lambda>(i, x, y). row_idx width x y = p) (g m) = Some (i, x, y)" by auto
    then have "(i, x, y) \<in> set (g m)" by (auto dest: find_SomeD)
    with Cons.prems(1)[of m] have "i = ident m" by auto
    with f True show ?thesis by (simp add: owner_append)
  next
    case False
    with Cons.prems(2)[of m] have "find (\<lambda>(i, x, y). row_idx width x y = p) (g m) = None"
      by (auto simp: find_None_iff)
    with False Cons show ?thesis by (simp add: owner_append)
  qed
qed (simp add: tile_owner_def)

definition recorded :: "(int64 \<Rightarrow> int64 \<Rightarrow> (int \<times> int) list) \<Rightarrow> conflicts \<Rightarrow> bool" where
  "recorded h conf \<longleftrightarrow> distinct (map fst conf) \<and>
     (\<forall>k d. map_of conf (k, d) = (case h k d of [] \<Rightarrow> None
        | (x, y) # r \<Rightarrow> Some \<lparr>ov_Kept = k, ov_Discarded = d, ov_X = x, ov_Y = y, ov_Tiles = int (Suc (length r))\<rparr>))"

lemma map_of_bump:
  "map_of (bump key ov cs) k' =
    (if k' = key then Some (case map_of cs key of None \<Rightarrow> ov | Some c \<Rightarrow> c\<lparr>ov_Tiles := ov_Tiles c + 1\<rparr>)
     else map_of cs k')"
  by (induction cs) auto

lemma fst_bump: "set (map fst (bump key ov cs)) = insert key (set (map fst cs))"
  by (induction key ov cs rule: bump.induct) auto

lemma distinct_bump: "distinct (map fst cs) \<Longrightarrow> distinct (map fst (bump key ov cs))"
proof (induction key ov cs rule: bump.induct)
  case (2 key ov k c cs)
  then show ?case using fst_bump[of key ov cs] by auto
qed simp

lemma recorded_bump:
  assumes "recorded h conf"
    and "\<And>k d. h' k d = h k d @ (if k = prev \<and> d = i then [(x, y)] else [])"
  shows "recorded h' (bump (prev, i) \<lparr>ov_Kept = prev, ov_Discarded = i, ov_X = x, ov_Y = y, ov_Tiles = 1\<rparr> conf)"
  unfolding recorded_def
proof (intro conjI allI)
  show "distinct (map fst (bump (prev, i) \<lparr>ov_Kept = prev, ov_Discarded = i, ov_X = x, ov_Y = y, ov_Tiles = 1\<rparr> conf))"
    using assms(1) by (intro distinct_bump) (simp add: recorded_def)
  fix k d
  have m: "map_of conf (k, d) = (case h k d of [] \<Rightarrow> None
      | (x, y) # r \<Rightarrow> Some \<lparr>ov_Kept = k, ov_Discarded = d, ov_X = x, ov_Y = y, ov_Tiles = int (Suc (length r))\<rparr>)" for k d
    using assms(1) by (simp add: recorded_def)
  show "map_of (bump (prev, i) \<lparr>ov_Kept = prev, ov_Discarded = i, ov_X = x, ov_Y = y, ov_Tiles = 1\<rparr> conf) (k, d) =
      (case h' k d of [] \<Rightarrow> None
      | (x, y) # r \<Rightarrow> Some \<lparr>ov_Kept = k, ov_Discarded = d, ov_X = x, ov_Y = y, ov_Tiles = int (Suc (length r))\<rparr>)"
  proof (cases "k = prev \<and> d = i")
    case True
    then show ?thesis
      by (cases "h prev i") (auto simp: map_of_bump m assms(2) split: prod.splits)
  next
    case False
    then show ?thesis by (auto simp: map_of_bump m assms(2))
  qed
qed

lemma paint_writes:
  assumes "\<forall>(i, x, y) \<in> set ws. i \<noteq> 0 \<and> row_idx width x y < n"
    and "fold (paint_tile width) ws (replicate n 0, []) = (tiles, conf)"
  shows "length tiles = n \<and> (\<forall>p < n. tiles ! p = tile_owner width ws p) \<and> recorded (tile_hits width ws) conf"
  using assms
proof (induction ws arbitrary: tiles conf rule: rev_induct)
  case Nil
  then show ?case by (auto simp: tile_owner_def recorded_def)
next
  case (snoc w ws)
  obtain i x y where w: "w = (i, x, y)" by (cases w)
  obtain tiles0 conf0 where p: "fold (paint_tile width) ws (replicate n 0, []) = (tiles0, conf0)" by fastforce
  have IH: "length tiles0 = n" "\<forall>p < n. tiles0 ! p = tile_owner width ws p" "recorded (tile_hits width ws) conf0"
    using snoc.IH[OF _ p] snoc.prems(1) by auto
  have i: "i \<noteq> 0" "row_idx width x y < n" using snoc.prems(1) w by auto
  have nz: "\<forall>(i, _) \<in> set ws. i \<noteq> 0" using snoc.prems(1) by auto
  define pos where "pos = row_idx width x y"
  have step: "paint_tile width (i, x, y) (tiles0, conf0) = (tiles, conf)" using snoc.prems(2) p w by simp
  show ?case
  proof (cases "tiles0 ! pos = 0")
    case True
    then have t: "tiles = tiles0[pos := i]" "conf = conf0"
      using step by (auto simp: paint_tile_def pos_def Let_def)
    have o0: "tile_owner width ws pos = 0" using True IH(2) i(2) by (simp add: pos_def)
    have "tiles ! p = tile_owner width (ws @ [w]) p" if "p < n" for p
      using that IH(1,2) i o0 by (auto simp: t w owner_snoc[OF nz] pos_def nth_list_update_if)
    moreover have "tile_hits width (ws @ [w]) k d = tile_hits width ws k d" for k d
      using o0 by (auto simp: w hits_snoc pos_def)
    then have "tile_hits width (ws @ [w]) = tile_hits width ws" by (intro ext) simp
    ultimately show ?thesis using IH t by simp
  next
    case False
    then have t: "tiles = tiles0" "conf = bump (tiles0 ! pos, i) \<lparr>ov_Kept = tiles0 ! pos, ov_Discarded = i, ov_X = x, ov_Y = y, ov_Tiles = 1\<rparr> conf0"
      using step by (auto simp: paint_tile_def pos_def Let_def)
    have o0: "tile_owner width ws pos = tiles0 ! pos" using IH(2) i(2) by (simp add: pos_def)
    have "tiles ! p = tile_owner width (ws @ [w]) p" if "p < n" for p
      using that IH(2) False o0 by (auto simp: t w owner_snoc[OF nz] pos_def)
    moreover have "recorded (tile_hits width (ws @ [w])) conf"
      unfolding t(2) by (rule recorded_bump[OF IH(3)]) (use o0 False in \<open>auto simp: w hits_snoc pos_def\<close>)
    ultimately show ?thesis using IH(1) t by simp
  qed
qed

text \<open>When no write occurs twice, the disputes are between different members.\<close>

lemma hits_distinct:
  assumes "distinct ws" "\<forall>(i, x, y) \<in> set ws. \<forall>(i', x', y') \<in> set ws. row_idx width x y = row_idx width x' y' \<longrightarrow> (x, y) = (x', y')"
    and "\<forall>(i, _) \<in> set ws. i \<noteq> 0"
  shows "tile_hits width ws k d =
    (if k = 0 \<or> k = d then [] else map snd (filter (\<lambda>(i, x, y). i = d \<and> tile_owner width ws (row_idx width x y) = k) ws))"
  using assms
proof (induction ws rule: rev_induct)
  case (snoc w ws)
  obtain i x y where w: "w = (i, x, y)" by (cases w)
  have nz: "\<forall>(i, _) \<in> set ws. i \<noteq> 0" "i \<noteq> 0" using snoc.prems(3) w by auto
  have pre: "distinct ws" "\<forall>(i, x, y) \<in> set ws. \<forall>(i', x', y') \<in> set ws. row_idx width x y = row_idx width x' y' \<longrightarrow> (x, y) = (x', y')"
    using snoc.prems(1,2) by auto
  have new: "tile_owner width ws (row_idx width x y) \<noteq> i"
  proof
    assume "tile_owner width ws (row_idx width x y) = i"
    then obtain z where "find (\<lambda>(ident, x', y'). row_idx width x' y' = row_idx width x y) ws = Some z" "fst z = i"
      using nz(2) by (auto simp: tile_owner_def split: option.splits prod.splits)
    then have "z \<in> set ws" "row_idx width (fst (snd z)) (snd (snd z)) = row_idx width x y" "fst z = i"
      by (auto dest!: find_SomeD)
    with snoc.prems(2) w have "z = (i, x, y)" by (cases z) fastforce
    with \<open>z \<in> set ws\<close> snoc.prems(1) w show False by simp
  qed
  have stay: "tile_owner width (ws @ [w]) (row_idx width x' y') = tile_owner width ws (row_idx width x' y')" if "(j, x', y') \<in> set ws" for j x' y'
  proof -
    have "tile_owner width ws (row_idx width x' y') \<noteq> 0"
    proof -
      have "find (\<lambda>(ident, x, y). row_idx width x y = row_idx width x' y') ws \<noteq> None"
        using that by (auto simp: find_None_iff)
      then show ?thesis using nz(1) by (auto simp: tile_owner_def dest!: find_SomeD split: option.splits)
    qed
    then show ?thesis by (simp add: w owner_snoc[OF nz(1)])
  qed
  have f: "filter (\<lambda>(i, x, y). i = d \<and> tile_owner width (ws @ [w]) (row_idx width x y) = k) ws =
      filter (\<lambda>(i, x, y). i = d \<and> tile_owner width ws (row_idx width x y) = k) ws"
    by (rule filter_cong) (use stay in auto)
  have last: "tile_owner width (ws @ [w]) (row_idx width x y) =
      (if tile_owner width ws (row_idx width x y) \<noteq> 0 then tile_owner width ws (row_idx width x y) else i)"
    by (simp add: w owner_snoc[OF nz(1)])
  show ?case
    using snoc.IH[OF pre nz(1)] f last new
    by (auto simp: w hits_snoc)
qed simp

subsection \<open>The interface of a painted index\<close>

locale painted_index =
  fixes built :: "'idx \<Rightarrow> bool"
    and at :: "'idx \<Rightarrow> int \<Rightarrow> int \<Rightarrow> 'z option"
    and members :: "'idx \<Rightarrow> 'z list"
    and covers :: "'idx \<Rightarrow> 'z \<Rightarrow> int \<Rightarrow> int \<Rightarrow> bool"
    and ident :: "'z \<Rightarrow> int"
  assumes at_first: "built i \<Longrightarrow> at i x y = find (\<lambda>z. covers i z x y) (members i)"
    and ascending: "built i \<Longrightarrow> sorted_wrt (\<lambda>a b. ident a < ident b) (members i)"
begin

lemma at_least_id:
  assumes "built i"
  shows "at i x y = Some z \<longleftrightarrow> z \<in> set (members i) \<and> covers i z x y \<and>
    (\<forall>z' \<in> set (members i). covers i z' x y \<longrightarrow> ident z \<le> ident z')"
proof
  assume "at i x y = Some z"
  then obtain k where k: "k < length (members i)" "members i ! k = z" "covers i z x y"
    "\<forall>j < k. \<not> covers i (members i ! j) x y" by (auto simp: at_first[OF assms] find_Some_iff)
  have "ident z \<le> ident z'" if z': "z' \<in> set (members i)" "covers i z' x y" for z'
  proof -
    obtain j where j: "j < length (members i)" "members i ! j = z'" using z'(1) by (metis in_set_conv_nth)
    with k(4) z'(2) have "k \<le> j" by (meson not_le)
    then show ?thesis using sorted_wrt_nth_less[OF ascending[OF assms], of k j] j k by (cases "k = j") auto
  qed
  with k show "z \<in> set (members i) \<and> covers i z x y \<and>
      (\<forall>z' \<in> set (members i). covers i z' x y \<longrightarrow> ident z \<le> ident z')" by auto
next
  assume z: "z \<in> set (members i) \<and> covers i z x y \<and> (\<forall>z' \<in> set (members i). covers i z' x y \<longrightarrow> ident z \<le> ident z')"
  then obtain k where k: "k < length (members i)" "members i ! k = z" by (auto simp: in_set_conv_nth)
  have "\<not> covers i (members i ! j) x y" if "j < k" for j
  proof
    assume "covers i (members i ! j) x y"
    with z k that have "ident z \<le> ident (members i ! j)" by auto
    moreover have "ident (members i ! j) < ident z" using ascending[OF assms] that k by (auto simp: sorted_wrt_iff_nth_less)
    ultimately show False by simp
  qed
  with k z show "at i x y = Some z" by (auto simp: at_first[OF assms] find_Some_iff)
qed

lemma at_None: "built i \<Longrightarrow> at i x y = None \<longleftrightarrow> (\<forall>z \<in> set (members i). \<not> covers i z x y)"
  by (auto simp: at_first find_None_iff)

end

end
