(* ===== verification/Territory.thy ===== *)
theory Territory
  imports Painting City
begin

section \<open>Territories\<close>

text \<open>
  Models internal/domain/territory/territory.go: the index that resolves a tile to its territory,
  the overlaps it reports, the chunks a territory touches and the control of a territory.
  Proved: TerritoryAt gives the territory of least id that contains the tile; the reported
  overlaps are exactly the pairs of which the one keeps tiles of the rectangle of the other, so that
  nothing is reported exactly when no tile is shared; and the footprint of a territory is the set of
  the chunks of its tiles.
\<close>

definition MaxTerritories :: int where "MaxTerritories = 65535"

datatype territory_error =
  ErrDimensiones | ErrChunkSize | ErrRectanguloInvalido | ErrIDFueraDeRango | ErrControlInconsistente
| ErrLado | ErrDemasiados | PanicMakeSlice | ErrOwnTerritory | ErrCapital | ErrNotClaimable

datatype owner_type = OwnerNone | OwnerPlayer | OwnerClan | OwnerFaction | OwnerOther string

definition Valid_owner_type :: "owner_type \<Rightarrow> bool" where
  "Valid_owner_type o' = (case o' of OwnerOther _ \<Rightarrow> False | _ \<Rightarrow> True)"

record territory =
  r_ID :: int64
  r_Name :: string
  r_MinX :: int32
  r_MinY :: int32
  r_MaxX :: int32
  r_MaxY :: int32

definition Contains :: "territory \<Rightarrow> int32 \<Rightarrow> int32 \<Rightarrow> bool" where
  "Contains t x y \<longleftrightarrow> r_MinX t \<le> x \<and> x \<le> r_MaxX t \<and> r_MinY t \<le> y \<and> y \<le> r_MaxY t"

record control =
  ct_TerritoryID :: int64
  ct_OwnerType :: owner_type
  ct_OwnerID :: "string option"
  ct_ControlPoints :: int32
  ct_Contested :: bool
  ct_CapturedAt :: "instant option"
  ct_Version :: int32

definition Validate_control :: "control \<Rightarrow> territory_error option" where
  "Validate_control c =
     (if \<not> Valid_owner_type (ct_OwnerType c) then Some ErrControlInconsistente
      else let sinDueno = (ct_OwnerType c = OwnerNone); sinID = (ct_OwnerID c = None)
      in if sinDueno \<noteq> sinID then Some ErrControlInconsistente
      else if \<not> sinDueno \<and> ct_CapturedAt c = None then Some ErrControlInconsistente
      else if ct_ControlPoints c < 0 then Some ErrControlInconsistente
      else None)"

subsection \<open>The set and its index\<close>

record terr_set =
  ts_width :: int32
  ts_height :: int32
  ts_chunkSize :: int32
  ts_tiles :: "int list"
  ts_ordered :: "territory list"
  ts_byID :: "int64 \<rightharpoonup> territory"
  ts_footprints :: "int64 \<rightharpoonup> chunk_coord list"

definition ChunkFootprint :: "territory \<Rightarrow> int32 \<Rightarrow> chunk_coord list" where
  "ChunkFootprint t chunkSize =
     (if chunkSize \<le> 0 then []
      else map (\<lambda>(cx, cy). \<lparr>CX = cx, CY = cy\<rparr>)
        (scan (go_div (r_MinX t) chunkSize) (go_div (r_MinY t) chunkSize)
              (go_div (r_MaxX t) chunkSize) (go_div (r_MaxY t) chunkSize)))"

definition validarRectangulo :: "territory \<Rightarrow> int32 \<Rightarrow> int32 \<Rightarrow> territory_error option" where
  "validarRectangulo t width height =
     (if r_ID t < 1 \<or> MaxTerritories < r_ID t then Some ErrIDFueraDeRango
      else if r_MaxX t < r_MinX t \<or> r_MaxY t < r_MinY t then Some ErrRectanguloInvalido
      else if r_MinX t < 0 \<or> r_MinY t < 0 \<or> width \<le> r_MaxX t \<or> height \<le> r_MaxY t then Some ErrRectanguloInvalido
      else None)"

fun register_all :: "territory list \<Rightarrow> terr_set \<Rightarrow> territory_error + terr_set" where
  "register_all [] s = Ok s"
| "register_all (t # ts) s =
     (case validarRectangulo t (ts_width s) (ts_height s) of
        Some e \<Rightarrow> Err e
      | None \<Rightarrow>
          if ts_byID s (r_ID t) \<noteq> None then Err ErrRectanguloInvalido
          else register_all ts (s\<lparr>ts_ordered := ts_ordered s @ [t], ts_byID := (ts_byID s)(r_ID t \<mapsto> t),
                 ts_footprints := (ts_footprints s)(r_ID t \<mapsto> ChunkFootprint t (ts_chunkSize s))\<rparr>))"

definition territory_writes :: "territory \<Rightarrow> (int64 \<times> int \<times> int) list" where
  "territory_writes t = map (\<lambda>(x, y). (u16 (r_ID t), x, y)) (scan (r_MinX t) (r_MinY t) (r_MaxX t) (r_MaxY t))"

definition BuildSet ::
  "territory list \<Rightarrow> int32 \<Rightarrow> int32 \<Rightarrow> int32 \<Rightarrow> territory_error + terr_set \<times> overlap list" where
  "BuildSet territories width height chunkSize =
     (if width \<le> 0 \<or> height \<le> 0 then Err ErrDimensiones
      else if chunkSize \<le> 0 then Err ErrChunkSize
      else let s0 = \<lparr>ts_width = width, ts_height = height, ts_chunkSize = chunkSize,
                     ts_tiles = replicate (nat (width * height)) 0, ts_ordered = [],
                     ts_byID = (\<lambda>_. None), ts_footprints = (\<lambda>_. None)\<rparr>;
               orden = sort_key r_ID territories
           in case register_all orden s0 of
                Err e \<Rightarrow> Err e
              | Ok s \<Rightarrow>
                  let (tiles, conflictos) =
                        fold (\<lambda>t st. fold (paint_tile width) (territory_writes t) st) (ts_ordered s) (ts_tiles s, [])
                  in Ok (s\<lparr>ts_tiles := tiles\<rparr>, ordenarSolapamientos conflictos))"

definition TerritoryAt :: "terr_set \<Rightarrow> int32 \<Rightarrow> int32 \<Rightarrow> territory option" where
  "TerritoryAt s x y =
     (if x < 0 \<or> y < 0 \<or> ts_width s \<le> x \<or> ts_height s \<le> y then None
      else let ident = ts_tiles s ! row_idx (ts_width s) x y
           in if ident = 0 then None else ts_byID s ident)"

definition ByID :: "terr_set \<Rightarrow> int64 \<Rightarrow> territory option" where
  "ByID s ident = ts_byID s ident"

definition All_territories :: "terr_set \<Rightarrow> territory list" where
  "All_territories s = ts_ordered s"

definition Len_territories :: "terr_set \<Rightarrow> nat" where
  "Len_territories s = length (ts_ordered s)"

definition FootprintOf :: "terr_set \<Rightarrow> int64 \<Rightarrow> chunk_coord list" where
  "FootprintOf s ident = (case ts_footprints s ident of None \<Rightarrow> [] | Some f \<Rightarrow> f)"

definition InChunks :: "terr_set \<Rightarrow> chunk_coord list \<Rightarrow> territory list" where
  "InChunks s chunks =
     (if chunks = [] then []
      else filter (\<lambda>t. list_ex (\<lambda>c. c \<in> set chunks) (FootprintOf s (r_ID t))) (ts_ordered s))"

subsection \<open>Building succeeds exactly on a well-formed list\<close>

lemma register_all_Ok:
  "register_all ts s = Ok s' \<longleftrightarrow>
    (\<forall>t \<in> set ts. validarRectangulo t (ts_width s) (ts_height s) = None \<and> ts_byID s (r_ID t) = None) \<and>
    distinct (map r_ID ts) \<and>
    s' = s\<lparr>ts_ordered := ts_ordered s @ ts,
           ts_byID := ts_byID s ++ map_of (map (\<lambda>t. (r_ID t, t)) ts),
           ts_footprints := ts_footprints s ++ map_of (map (\<lambda>t. (r_ID t, ChunkFootprint t (ts_chunkSize s))) ts)\<rparr>"
proof (induction ts arbitrary: s)
  case Nil
  show ?case by (simp add: eq_commute)
next
  case (Cons t ts)
  show ?case
  proof (cases "validarRectangulo t (ts_width s) (ts_height s) = None \<and> ts_byID s (r_ID t) = None \<and> r_ID t \<notin> r_ID ` set ts")
    case True
    have nd: "r_ID t \<notin> dom (map_of (map (\<lambda>t. (r_ID t, f t)) ts))" for f :: "territory \<Rightarrow> 'a"
      using True by (simp add: dom_map_of_conv_image_fst image_image)
    have m: "m(r_ID t \<mapsto> v) ++ map_of (map (\<lambda>t. (r_ID t, f t)) ts) =
        m ++ (map_of (map (\<lambda>t. (r_ID t, f t)) ts))(r_ID t \<mapsto> v)" for m v and f :: "territory \<Rightarrow> 'a"
      by (simp add: map_add_upd_left[OF nd] map_add_upd del: fun_upd_apply)
    have "(\<forall>u \<in> set ts. P u \<and> ((ts_byID s)(r_ID t \<mapsto> t)) (r_ID u) = None) \<longleftrightarrow>
        (\<forall>u \<in> set ts. P u \<and> ts_byID s (r_ID u) = None)" for P
    proof (rule ball_cong[OF refl])
      fix u assume "u \<in> set ts"
      with True have "r_ID u \<noteq> r_ID t" by (metis image_eqI)
      then show "(P u \<and> ((ts_byID s)(r_ID t \<mapsto> t)) (r_ID u) = None) \<longleftrightarrow> (P u \<and> ts_byID s (r_ID u) = None)" by simp
    qed
    with True show ?thesis
      by (simp add: Cons.IH m del: fun_upd_apply)
  next
    case False
    show ?thesis
    proof (cases "validarRectangulo t (ts_width s) (ts_height s) = None \<and> ts_byID s (r_ID t) = None")
      case True
      with False obtain u where u: "u \<in> set ts" "r_ID u = r_ID t" by auto
      have "register_all (t # ts) s \<noteq> Ok s'"
      proof
        assume "register_all (t # ts) s = Ok s'"
        then have "\<forall>u \<in> set ts. ((ts_byID s)(r_ID t \<mapsto> t)) (r_ID u) = None"
          using True by (simp add: Cons.IH)
        with u show False by auto
      qed
      moreover have "\<not> distinct (map r_ID (t # ts))" using u by (simp add: image_iff) metis
      ultimately show ?thesis by blast
    next
      case False
      then show ?thesis by (cases "validarRectangulo t (ts_width s) (ts_height s)") auto
    qed
  qed
qed

definition all_writes :: "territory list \<Rightarrow> (int64 \<times> int \<times> int) list" where
  "all_writes ts = concat (map territory_writes ts)"

lemma fold_nested: "fold (\<lambda>t st. fold f (g t) st) ts st = fold f (concat (map g ts)) st"
  by (induction ts arbitrary: st) simp_all

definition fits :: "int32 \<Rightarrow> int32 \<Rightarrow> territory \<Rightarrow> bool" where
  "fits width height t \<longleftrightarrow> 1 \<le> r_ID t \<and> r_ID t \<le> MaxTerritories \<and> 0 \<le> r_MinX t \<and> r_MinX t \<le> r_MaxX t \<and>
     r_MaxX t < width \<and> 0 \<le> r_MinY t \<and> r_MinY t \<le> r_MaxY t \<and> r_MaxY t < height"

lemma validarRectangulo_None: "validarRectangulo t width height = None \<longleftrightarrow> fits width height t"
  by (auto simp: validarRectangulo_def fits_def)

lemma fits_u16 [simp]: "fits width height t \<Longrightarrow> u16 (r_ID t) = r_ID t"
  by (simp add: fits_def MaxTerritories_def u16_id)

lemma in_all_writes:
  "(i, x, y) \<in> set (all_writes ts) \<longleftrightarrow> (\<exists>t \<in> set ts. i = u16 (r_ID t) \<and> Contains t x y)"
  by (auto simp: all_writes_def territory_writes_def Contains_def image_iff)

lemma fits_Contains_bounds:
  "fits width height t \<Longrightarrow> Contains t x y \<Longrightarrow> 0 \<le> x \<and> x < width \<and> 0 \<le> y \<and> y < height"
  by (simp add: fits_def Contains_def)

lemma write_bounds:
  assumes "\<forall>t \<in> set ts. fits width height t" "(i, x, y) \<in> set (all_writes ts)"
  shows "i \<noteq> 0 \<and> 0 \<le> x \<and> x < width \<and> 0 \<le> y \<and> y < height"
proof -
  obtain t where t: "t \<in> set ts" "i = u16 (r_ID t)" "Contains t x y" using assms(2) by (auto simp: in_all_writes)
  with assms(1) have "fits width height t" by simp
  then have "u16 (r_ID t) = r_ID t" "1 \<le> r_ID t" by (simp, simp add: fits_def)
  with t fits_Contains_bounds[OF \<open>fits width height t\<close> t(3)] show ?thesis by simp
qed

lemma owner_all_writes:
  assumes "\<forall>t \<in> set ts. fits width height t" "0 \<le> x" "x < width" "0 \<le> y"
  shows "tile_owner width (all_writes ts) (row_idx width x y) =
    (case find (\<lambda>t. Contains t x y) ts of None \<Rightarrow> 0 | Some t \<Rightarrow> r_ID t)"
  unfolding all_writes_def
proof (rule owner_concat)
  fix t assume "t \<in> set ts"
  then have f: "fits width height t" using assms(1) by simp
  then show "\<forall>(i, _) \<in> set (territory_writes t). i = r_ID t" by (auto simp: territory_writes_def)
  have "row_idx width x' y' = row_idx width x y \<longleftrightarrow> x' = x \<and> y' = y" if "Contains t x' y'" for x' y'
    using fits_Contains_bounds[OF f that] row_idx_inj[of x' width x y' y] assms(2-4) by auto
  then show "(\<exists>(i, x', y') \<in> set (territory_writes t). row_idx width x' y' = row_idx width x y) = Contains t x y"
    by (auto simp: territory_writes_def Contains_def)
qed

lemma distinct_all_writes:
  assumes "\<forall>t \<in> set ts. fits width height t" "distinct (map r_ID ts)"
  shows "distinct (all_writes ts)"
  using assms
proof (induction ts)
  case (Cons t ts)
  have "distinct (territory_writes t)"
    by (auto simp: territory_writes_def distinct_map inj_on_def)
  moreover have "set (territory_writes t) \<inter> set (all_writes ts) = {}"
  proof -
    have False if z: "z \<in> set (territory_writes t)" "z \<in> set (all_writes ts)" for z
    proof -
      obtain i x y where [simp]: "z = (i, x, y)" by (cases z)
      obtain u where u: "u \<in> set ts" "i = u16 (r_ID u)" using z(2) by (auto simp: in_all_writes)
      have "i = u16 (r_ID t)" using z(1) by (auto simp: territory_writes_def)
      with u Cons.prems(1) have "r_ID u = r_ID t" using fits_u16[of width height u] fits_u16[of width height t] by simp
      with u(1) Cons.prems(2) show False by (simp add: image_iff) metis
    qed
    then show ?thesis by blast
  qed
  ultimately show ?case using Cons by (simp add: all_writes_def)
qed (simp add: all_writes_def)

subsection \<open>What BuildSet builds\<close>

lemma BuildSet_Ok:
  assumes "BuildSet ts width height chunkSize = Ok (s, ov)"
  defines "orden \<equiv> sort_key r_ID ts"
  obtains tiles conf where "0 < width" "0 < height" "0 < chunkSize"
    "s = \<lparr>ts_width = width, ts_height = height, ts_chunkSize = chunkSize, ts_tiles = tiles, ts_ordered = orden,
       ts_byID = map_of (map (\<lambda>t. (r_ID t, t)) orden),
       ts_footprints = map_of (map (\<lambda>t. (r_ID t, ChunkFootprint t chunkSize)) orden)\<rparr>"
    "\<forall>t \<in> set ts. fits width height t" "distinct (map r_ID orden)"
    "\<forall>p < nat (width * height). tiles ! p = tile_owner width (all_writes orden) p"
    "recorded (tile_hits width (all_writes orden)) conf" "ov = ordenarSolapamientos conf"
proof -
  define s0 where "s0 = \<lparr>ts_width = width, ts_height = height, ts_chunkSize = chunkSize,
    ts_tiles = replicate (nat (width * height)) 0, ts_ordered = [], ts_byID = (\<lambda>_. None), ts_footprints = (\<lambda>_. None)\<rparr>"
  have dims: "0 < width" "0 < height" "0 < chunkSize"
    using assms(1) by (simp_all add: BuildSet_def not_le split: if_splits)
  obtain s1 where s1: "register_all orden s0 = Ok s1"
    using assms(1) dims by (cases "register_all orden s0") (simp_all add: BuildSet_def orden_def s0_def)
  then have r: "\<forall>t \<in> set orden. fits width height t" "distinct (map r_ID orden)"
    "s1 = \<lparr>ts_width = width, ts_height = height, ts_chunkSize = chunkSize,
       ts_tiles = replicate (nat (width * height)) 0, ts_ordered = orden,
       ts_byID = map_of (map (\<lambda>t. (r_ID t, t)) orden),
       ts_footprints = map_of (map (\<lambda>t. (r_ID t, ChunkFootprint t chunkSize)) orden)\<rparr>"
    by (simp_all add: register_all_Ok validarRectangulo_None s0_def map_add_def split: option.splits)
  obtain tiles conf where f: "fold (paint_tile width) (all_writes orden) (replicate (nat (width * height)) 0, []) = (tiles, conf)"
    by fastforce
  have e: "s = s1\<lparr>ts_tiles := tiles\<rparr>" "ov = ordenarSolapamientos conf"
    using assms(1) dims s1 f
    by (simp_all add: BuildSet_def fold_nested r(3) all_writes_def[symmetric] flip: orden_def s0_def)
  have "\<forall>(i, x, y) \<in> set (all_writes orden). i \<noteq> 0 \<and> row_idx width x y < nat (width * height)"
    using write_bounds[OF r(1)] row_idx_less by fast
  from paint_writes[OF this f]
  have "\<forall>p < nat (width * height). tiles ! p = tile_owner width (all_writes orden) p" "recorded (tile_hits width (all_writes orden)) conf"
    by simp_all
  with that[of tiles conf] dims r e show ?thesis by (simp add: orden_def)
qed

lemma sort_key_ids:
  assumes "distinct (map f (sort_key f xs))"
  shows "sorted_wrt (\<lambda>a b. f a < f b) (sort_key f xs)"
proof -
  have "sorted_wrt (<) (map f (sort_key f xs))"
    using assms by (simp add: strict_sorted_iff)
  then show ?thesis by (simp add: sorted_wrt_map)
qed

lemma BuildSet_TerritoryAt:
  assumes "BuildSet ts width height chunkSize = Ok (s, ov)"
  shows "TerritoryAt s x y = find (\<lambda>t. Contains t x y) (ts_ordered s)"
    and "ts_ordered s = sort_key r_ID ts" and "sorted_wrt (\<lambda>a b. r_ID a < r_ID b) (ts_ordered s)"
    and "\<forall>t \<in> set (ts_ordered s). fits width height t"
proof -
  define orden where "orden = sort_key r_ID ts"
  obtain tiles conf where b: "0 < width" "0 < height" "0 < chunkSize"
    "s = \<lparr>ts_width = width, ts_height = height, ts_chunkSize = chunkSize, ts_tiles = tiles, ts_ordered = orden,
       ts_byID = map_of (map (\<lambda>t. (r_ID t, t)) orden),
       ts_footprints = map_of (map (\<lambda>t. (r_ID t, ChunkFootprint t chunkSize)) orden)\<rparr>"
    "\<forall>t \<in> set ts. fits width height t" "distinct (map r_ID orden)"
    "\<forall>p < nat (width * height). tiles ! p = tile_owner width (all_writes orden) p"
    by (rule BuildSet_Ok[OF assms, folded orden_def]) (rule that; assumption)
  have fit: "\<forall>t \<in> set orden. fits width height t" using b(5) by (simp add: orden_def)
  show "TerritoryAt s x y = find (\<lambda>t. Contains t x y) (ts_ordered s)"
  proof (cases "0 \<le> x \<and> x < width \<and> 0 \<le> y \<and> y < height")
    case True
    then have "ts_tiles s ! row_idx width x y =
        (case find (\<lambda>t. Contains t x y) orden of None \<Rightarrow> 0 | Some t \<Rightarrow> r_ID t)"
      using b(7) row_idx_less[of x width y height] owner_all_writes[OF fit] by (simp add: b(4))
    moreover have "r_ID t \<noteq> 0 \<and> ts_byID s (r_ID t) = Some t" if "find (\<lambda>t. Contains t x y) orden = Some t" for t
    proof -
      have t: "t \<in> set orden" using find_SomeD[OF that] by simp
      have "map_of (map (\<lambda>t. (r_ID t, t)) orden) (r_ID t) = Some t"
        using b(6) t by (intro map_of_is_SomeI) (auto simp: comp_def)
      moreover have "r_ID t \<noteq> 0" using fit t by (auto simp: fits_def)
      ultimately show ?thesis by (simp add: b(4))
    qed
    ultimately show ?thesis using True
      by (cases "find (\<lambda>t. Contains t x y) orden") (simp_all add: TerritoryAt_def b(4))
  next
    case False
    have "find (\<lambda>t. Contains t x y) orden = None"
      using False fit fits_Contains_bounds unfolding find_None_iff by blast
    then show ?thesis using False by (auto simp: TerritoryAt_def b(4))
  qed
  show "ts_ordered s = sort_key r_ID ts" "\<forall>t \<in> set (ts_ordered s). fits width height t"
    using fit by (simp_all add: b(4) orden_def)
  show "sorted_wrt (\<lambda>a b. r_ID a < r_ID b) (ts_ordered s)"
    using sort_key_ids[of r_ID ts] b(6) by (simp add: b(4) orden_def)
qed

interpretation terr: painted_index
  "\<lambda>s. \<exists>ts width height chunkSize ov. BuildSet ts width height chunkSize = Ok (s, ov)"
  TerritoryAt All_territories "\<lambda>s. Contains" r_ID
  by unfold_locales (auto simp: All_territories_def dest: BuildSet_TerritoryAt)

text \<open>
  C31: after BuildSet succeeds, TerritoryAt returns a territory exactly when it is, among the
  territories of the list that contain the tile, the one of least id; a tile of none, and every
  tile outside the world, gives none.
\<close>

theorem TerritoryAt_least_id:
  assumes "BuildSet ts width height chunkSize = Ok (s, ov)"
  shows "(TerritoryAt s x y = Some t \<longleftrightarrow>
      t \<in> set ts \<and> Contains t x y \<and> (\<forall>u \<in> set ts. Contains u x y \<longrightarrow> r_ID t \<le> r_ID u)) \<and>
    (TerritoryAt s x y = None \<longleftrightarrow> (\<forall>t \<in> set ts. \<not> Contains t x y))"
proof -
  have m: "set (All_territories s) = set ts"
    using BuildSet_TerritoryAt(2)[OF assms] by (simp add: All_territories_def)
  have "\<exists>ts width height chunkSize ov. BuildSet ts width height chunkSize = Ok (s, ov)"
    using assms by blast
  from terr.at_least_id[OF this] terr.at_None[OF this] show ?thesis by (simp add: m)
qed

definition terr_a :: territory where
  "terr_a = \<lparr>r_ID = 2, r_Name = ''A'', r_MinX = 0, r_MinY = 0, r_MaxX = 1, r_MaxY = 1\<rparr>"

definition terr_b :: territory where
  "terr_b = \<lparr>r_ID = 1, r_Name = ''B'', r_MinX = 1, r_MinY = 1, r_MaxX = 2, r_MaxY = 1\<rparr>"

definition sample_set :: "terr_set \<times> overlap list" where
  "sample_set = (case BuildSet [terr_a, terr_b] 4 2 2 of Inr r \<Rightarrow> r)"

lemma sample_set_Ok: "BuildSet [terr_a, terr_b] 4 2 2 = Ok (fst sample_set, snd sample_set)"
proof -
  have "\<not> isl (BuildSet [terr_a, terr_b] 4 2 2)" by code_simp
  then show ?thesis by (cases "BuildSet [terr_a, terr_b] 4 2 2") (simp_all add: sample_set_def)
qed

theorem TerritoryAt_least_id_witness:
  "TerritoryAt (fst sample_set) 1 1 = Some terr_b \<and> TerritoryAt (fst sample_set) 3 0 = None"
  using TerritoryAt_least_id[OF sample_set_Ok, of 1 1 terr_b] TerritoryAt_least_id[OF sample_set_Ok, of 3 0 terr_b]
  by (simp add: Contains_def terr_a_def terr_b_def)

subsection \<open>The overlaps that are reported\<close>

lemma filter_writes:
  assumes "\<forall>t \<in> set ts. fits width height t" "distinct (map r_ID ts)" "d \<in> set ts"
  shows "map snd (filter (\<lambda>(i, x, y). i = r_ID d \<and> P x y) (all_writes ts)) =
    filter (\<lambda>(x, y). P x y) (scan (r_MinX d) (r_MinY d) (r_MaxX d) (r_MaxY d))"
  using assms
proof (induction ts)
  case (Cons t ts)
  have one: "map snd (filter (\<lambda>(i, x, y). i = k \<and> P x y) (territory_writes u)) =
      (if r_ID u = k then filter (\<lambda>(x, y). P x y) (scan (r_MinX u) (r_MinY u) (r_MaxX u) (r_MaxY u)) else [])"
    if "fits width height u" for k u
  proof -
    have "map snd (filter (\<lambda>(i, x, y). i = k \<and> P x y) (map (\<lambda>(x, y). (r_ID u, x, y)) l)) =
        (if r_ID u = k then filter (\<lambda>(x, y). P x y) l else [])" for l
      by (induction l) auto
    then show ?thesis using fits_u16[OF that] by (simp add: territory_writes_def)
  qed
  show ?case
  proof (cases "t = d")
    case True
    have "filter (\<lambda>(i, x, y). i = r_ID d \<and> P x y) (all_writes ts) = []"
    proof -
      have "i \<noteq> r_ID d" if w: "(i, x, y) \<in> set (all_writes ts)" for i x y
      proof
        assume "i = r_ID d"
        obtain u where u: "u \<in> set ts" "i = u16 (r_ID u)" using w unfolding in_all_writes by blast
        with Cons.prems(1) have "i = r_ID u" using fits_u16[of width height u] by simp
        with \<open>i = r_ID d\<close> u(1) True Cons.prems(2) show False by (simp add: image_iff) metis
      qed
      then show ?thesis by (auto simp: filter_empty_conv)
    qed
    then show ?thesis using one[of t] True Cons.prems(1) by (simp add: all_writes_def)
  next
    case False
    with Cons.prems(3) have d: "d \<in> set ts" by simp
    with Cons.prems(2) have "r_ID t \<noteq> r_ID d" by (simp add: image_iff)
    then show ?thesis using one[of t] Cons.IH Cons.prems(1,2) d by (simp add: all_writes_def)
  qed
qed simp

text \<open>The tiles of d's rectangle that resolve to k, in scan order.\<close>

definition tiles_lost :: "terr_set \<Rightarrow> territory \<Rightarrow> territory \<Rightarrow> (int \<times> int) list" where
  "tiles_lost s k d = filter (\<lambda>(x, y). TerritoryAt s x y = Some k)
     (scan (r_MinX d) (r_MinY d) (r_MaxX d) (r_MaxY d))"

lemma hits_tiles_lost:
  assumes b: "BuildSet ts width height chunkSize = Ok (s, ov)"
  defines "orden \<equiv> sort_key r_ID ts"
  shows "k \<in> set ts \<Longrightarrow> d \<in> set ts \<Longrightarrow> tile_hits width (all_writes orden) (r_ID k) (r_ID d) =
      (if k = d then [] else tiles_lost s k d)"
    and "tile_hits width (all_writes orden) i j \<noteq> [] \<Longrightarrow> \<exists>k \<in> set ts. \<exists>d \<in> set ts. i = r_ID k \<and> j = r_ID d"
proof -
  note at = BuildSet_TerritoryAt[OF b, folded orden_def]
  have fit: "\<forall>t \<in> set orden. fits width height t" using at(2,4) by simp
  have dist: "distinct (map r_ID orden)"
  proof -
    have "sorted_wrt (<) (map r_ID orden)" using at(3) unfolding at(2) by (simp add: sorted_wrt_map)
    then show ?thesis by (simp add: strict_sorted_iff)
  qed
  have bnd: "\<And>i x y. (i, x, y) \<in> set (all_writes orden) \<Longrightarrow> i \<noteq> 0 \<and> 0 \<le> x \<and> x < width \<and> 0 \<le> y \<and> y < height"
    by (rule write_bounds[OF fit])
  have nz: "\<forall>(i, _) \<in> set (all_writes orden). i \<noteq> 0" using bnd by fast
  have inj: "\<forall>(i, x, y) \<in> set (all_writes orden). \<forall>(i', x', y') \<in> set (all_writes orden).
       row_idx width x y = row_idx width x' y' \<longrightarrow> (x, y) = (x', y')"
  proof clarify
    fix i x y i' x' y'
    assume "(i, x, y) \<in> set (all_writes orden)" "(i', x', y') \<in> set (all_writes orden)" "row_idx width x y = row_idx width x' y'"
    then show "x = x' \<and> y = y'" using bnd by (intro row_idx_inj[of x width x' y y']) blast+
  qed
  note h = hits_distinct[OF distinct_all_writes[OF fit dist] inj nz]
  have o': "tile_owner width (all_writes orden) (row_idx width x y) = r_ID k \<longleftrightarrow> TerritoryAt s x y = Some k"
    if k: "k \<in> set ts" and c: "Contains d x y" and d: "d \<in> set ts" for x y k d
  proof -
    have "fits width height d" using fit d by (simp add: orden_def)
    from fits_Contains_bounds[OF this c] have "0 \<le> x" "x < width" "0 \<le> y" by simp_all
    note ow = owner_all_writes[OF fit this]
    show ?thesis
    proof (cases "find (\<lambda>t. Contains t x y) orden")
      case None
      have "r_ID k \<noteq> 0" using fit k by (auto simp: orden_def fits_def)
      with None ow at(1)[of x y] show ?thesis by (simp add: at(2))
    next
      case (Some t)
      then have "t \<in> set orden" by (auto dest: find_SomeD)
      moreover have "k \<in> set orden" using k by (simp add: orden_def)
      ultimately have "r_ID t = r_ID k \<longleftrightarrow> t = k" using dist by (auto simp: distinct_map inj_on_def)
      with Some ow at(1)[of x y] show ?thesis by (simp add: at(2))
    qed
  qed
  show "tile_hits width (all_writes orden) (r_ID k) (r_ID d) = (if k = d then [] else tiles_lost s k d)"
    if k: "k \<in> set ts" and d: "d \<in> set ts"
  proof -
    have "k \<in> set orden" "d \<in> set orden" using k d by (simp_all add: orden_def)
    then have "r_ID k = r_ID d \<longleftrightarrow> k = d" using dist by (auto simp: distinct_map inj_on_def)
    moreover have "r_ID k \<noteq> 0" using fit \<open>k \<in> set orden\<close> by (auto simp: fits_def)
    moreover have "filter (\<lambda>(x, y). tile_owner width (all_writes orden) (row_idx width x y) = r_ID k)
        (scan (r_MinX d) (r_MinY d) (r_MaxX d) (r_MaxY d)) = tiles_lost s k d"
      unfolding tiles_lost_def by (rule filter_cong) (use o' k d in \<open>auto simp: Contains_def\<close>)
    ultimately show ?thesis
      using filter_writes[OF fit dist \<open>d \<in> set orden\<close>, of "\<lambda>x y. tile_owner width (all_writes orden) (row_idx width x y) = r_ID k"]
      by (simp add: h)
  qed
  show "\<exists>k \<in> set ts. \<exists>d \<in> set ts. i = r_ID k \<and> j = r_ID d" if ne: "tile_hits width (all_writes orden) i j \<noteq> []"
  proof -
    from ne have "i \<noteq> 0" "filter (\<lambda>(i', x, y). i' = j \<and> tile_owner width (all_writes orden) (row_idx width x y) = i) (all_writes orden) \<noteq> []"
      by (auto simp: h split: if_splits)
    then obtain x y where w: "(j, x, y) \<in> set (all_writes orden)" "tile_owner width (all_writes orden) (row_idx width x y) = i"
      by (auto simp: filter_empty_conv)
    obtain d where d: "d \<in> set ts" "j = r_ID d"
      using w(1) fit fits_u16 by (auto simp: in_all_writes orden_def)
    have "0 \<le> x" "x < width" "0 \<le> y" using write_bounds[OF fit w(1)] by simp_all
    from owner_all_writes[OF fit this] w(2) \<open>i \<noteq> 0\<close> obtain k where "find (\<lambda>t. Contains t x y) orden = Some k" "i = r_ID k"
      by (auto split: option.splits)
    then have "k \<in> set ts" "i = r_ID k" by (auto dest: find_SomeD simp: orden_def)
    with d show ?thesis by blast
  qed
qed

lemma distinct_map_sort_key: "distinct (map f (sort_key g xs)) = distinct (map f xs)"
  by (metis mset_eq_imp_distinct_iff mset_map mset_sort)

lemma ordenarSolapamientos_recorded:
  assumes "recorded h conf"
  shows "v \<in> set (ordenarSolapamientos conf) \<longleftrightarrow> (\<exists>k d x y r. h k d = (x, y) # r \<and>
      v = \<lparr>ov_Kept = k, ov_Discarded = d, ov_X = x, ov_Y = y, ov_Tiles = int (Suc (length r))\<rparr>)"
    and "sorted_wrt (\<lambda>a b. (ov_Kept a, ov_Discarded a) < (ov_Kept b, ov_Discarded b)) (ordenarSolapamientos conf)"
proof -
  have dist: "distinct (map fst conf)" using assms by (simp add: recorded_def)
  have m: "map_of conf (k, d) = Some v \<longleftrightarrow> (\<exists>x y r. h k d = (x, y) # r \<and>
      v = \<lparr>ov_Kept = k, ov_Discarded = d, ov_X = x, ov_Y = y, ov_Tiles = int (Suc (length r))\<rparr>)" for k d v
    using assms by (auto simp: recorded_def split: list.splits)
  have "v \<in> set (ordenarSolapamientos conf) \<longleftrightarrow> (\<exists>k d. map_of conf (k, d) = Some v)"
    using dist by (force simp: ordenarSolapamientos_def)
  then show "v \<in> set (ordenarSolapamientos conf) \<longleftrightarrow> (\<exists>k d x y r. h k d = (x, y) # r \<and>
      v = \<lparr>ov_Kept = k, ov_Discarded = d, ov_X = x, ov_Y = y, ov_Tiles = int (Suc (length r))\<rparr>)"
    by (simp only: m)
  have keys: "map (\<lambda>v. (ov_Kept v, ov_Discarded v)) (map snd conf) = map fst conf"
  proof -
    have "(ov_Kept (snd e), ov_Discarded (snd e)) = fst e" if "e \<in> set conf" for e
    proof -
      have "map_of conf (fst (fst e), snd (fst e)) = Some (snd e)"
        using map_of_is_SomeI[OF dist, of "fst e" "snd e"] that by simp
      then show ?thesis unfolding m by auto
    qed
    then show ?thesis by (simp add: comp_def)
  qed
  have "distinct (map (\<lambda>v. (ov_Kept v, ov_Discarded v)) (map snd conf))" unfolding keys by (rule dist)
  then have "sorted_wrt (<) (map (\<lambda>v. (ov_Kept v, ov_Discarded v)) (ordenarSolapamientos conf))"
    unfolding ordenarSolapamientos_def strict_sorted_iff by (simp add: distinct_map_sort_key)
  then show "sorted_wrt (\<lambda>a b. (ov_Kept a, ov_Discarded a) < (ov_Kept b, ov_Discarded b)) (ordenarSolapamientos conf)"
    by (simp add: sorted_wrt_map)
qed

lemma BuildSet_overlaps_iff:
  assumes "BuildSet ts width height chunkSize = Ok (s, ov)"
  shows "v \<in> set ov \<longleftrightarrow> (\<exists>k \<in> set ts. \<exists>d \<in> set ts. \<exists>x y r. k \<noteq> d \<and> tiles_lost s k d = (x, y) # r \<and>
      v = \<lparr>ov_Kept = r_ID k, ov_Discarded = r_ID d, ov_X = x, ov_Y = y, ov_Tiles = int (Suc (length r))\<rparr>)"
    (is "_ \<longleftrightarrow> ?r")
    and "sorted_wrt (\<lambda>a b. (ov_Kept a, ov_Discarded a) < (ov_Kept b, ov_Discarded b)) ov"
proof -
  define h where "h = tile_hits width (all_writes (sort_key r_ID ts))"
  obtain conf where c: "recorded h conf" "ov = ordenarSolapamientos conf"
    by (rule BuildSet_Ok[OF assms]) (auto simp: h_def)
  note hk = hits_tiles_lost[OF assms, folded h_def]
  have "(\<exists>i j x y r. h i j = (x, y) # r \<and>
      v = \<lparr>ov_Kept = i, ov_Discarded = j, ov_X = x, ov_Y = y, ov_Tiles = int (Suc (length r))\<rparr>) \<longleftrightarrow> ?r"
    (is "?l \<longleftrightarrow> _")
  proof
    assume ?l
    then obtain i j x y r where l: "h i j = (x, y) # r"
      "v = \<lparr>ov_Kept = i, ov_Discarded = j, ov_X = x, ov_Y = y, ov_Tiles = int (Suc (length r))\<rparr>" by blast
    then obtain k d where kd: "k \<in> set ts" "d \<in> set ts" "i = r_ID k" "j = r_ID d" using hk(2)[of i j] by auto
    with hk(1)[OF kd(1,2)] l have "k \<noteq> d \<and> tiles_lost s k d = (x, y) # r" by (simp split: if_splits)
    with kd l(2) show ?r by blast
  next
    assume ?r
    then obtain k d x y r where "k \<in> set ts" "d \<in> set ts" "k \<noteq> d" "tiles_lost s k d = (x, y) # r"
      "v = \<lparr>ov_Kept = r_ID k, ov_Discarded = r_ID d, ov_X = x, ov_Y = y, ov_Tiles = int (Suc (length r))\<rparr>" by blast
    with hk(1) show ?l by metis
  qed
  with ordenarSolapamientos_recorded[OF c(1)] c(2) show "v \<in> set ov \<longleftrightarrow> ?r"
    and "sorted_wrt (\<lambda>a b. (ov_Kept a, ov_Discarded a) < (ov_Kept b, ov_Discarded b)) ov" by simp_all
qed

lemma in_tiles_lost: "(x, y) \<in> set (tiles_lost s k d) \<longleftrightarrow> TerritoryAt s x y = Some k \<and> Contains d x y"
  by (auto simp: tiles_lost_def Contains_def)

text \<open>Two territories share a tile exactly when some territory keeps a tile of another one.\<close>

lemma shared_tile_lost:
  assumes "BuildSet ts width height chunkSize = Ok (s, ov)"
  shows "(\<exists>a \<in> set ts. \<exists>b \<in> set ts. a \<noteq> b \<and> Contains a x y \<and> Contains b x y) \<longleftrightarrow>
    (\<exists>k \<in> set ts. \<exists>d \<in> set ts. k \<noteq> d \<and> (x, y) \<in> set (tiles_lost s k d))"
proof -
  have m: "set (All_territories s) = set ts"
    using BuildSet_TerritoryAt(2)[OF assms] by (simp add: All_territories_def)
  have ex: "\<exists>ts width height chunkSize ov. BuildSet ts width height chunkSize = Ok (s, ov)" using assms by blast
  have at: "TerritoryAt s x y = Some k \<Longrightarrow> k \<in> set ts \<and> Contains k x y"
    "Contains a x y \<Longrightarrow> a \<in> set ts \<Longrightarrow> \<exists>k. TerritoryAt s x y = Some k" for k a
    using terr.at_least_id[OF ex, of x y k] terr.at_None[OF ex, of x y]
    by (simp_all add: m) (metis option.exhaust)
  show ?thesis unfolding in_tiles_lost using at by metis
qed

text \<open>
  C30: the overlaps that BuildSet reports are exactly the pairs of territories of which the one
  keeps tiles of the other's rectangle (it has the least id of all that contain them): each pair
  once, with the first such tile in scan order and the number of all of them, and the report is in
  ascending order of (Kept, Discarded). Nothing is reported exactly when no two territories share a
  tile. A pair whose shared tiles are all kept by a third territory is not reported itself: that
  third one is reported with each of them.
\<close>

theorem BuildSet_overlaps:
  assumes "BuildSet ts width height chunkSize = Ok (s, ov)"
  shows "(v \<in> set ov \<longleftrightarrow> (\<exists>k \<in> set ts. \<exists>d \<in> set ts. \<exists>x y r. k \<noteq> d \<and> tiles_lost s k d = (x, y) # r \<and>
      v = \<lparr>ov_Kept = r_ID k, ov_Discarded = r_ID d, ov_X = x, ov_Y = y, ov_Tiles = int (Suc (length r))\<rparr>)) \<and>
    sorted_wrt (\<lambda>a b. (ov_Kept a, ov_Discarded a) < (ov_Kept b, ov_Discarded b)) ov \<and>
    (ov = [] \<longleftrightarrow> (\<forall>a \<in> set ts. \<forall>b \<in> set ts. \<forall>x y. Contains a x y \<and> Contains b x y \<longrightarrow> a = b))"
proof -
  note iff = BuildSet_overlaps_iff(1)[OF assms]
  have "ov \<noteq> [] \<longleftrightarrow> (\<exists>v. v \<in> set ov)" by (cases ov) auto
  also have "\<dots> \<longleftrightarrow> (\<exists>k \<in> set ts. \<exists>d \<in> set ts. \<exists>x y r. k \<noteq> d \<and> tiles_lost s k d = (x, y) # r)"
    unfolding iff by blast
  also have "\<dots> \<longleftrightarrow> (\<exists>k \<in> set ts. \<exists>d \<in> set ts. k \<noteq> d \<and> (\<exists>x y. (x, y) \<in> set (tiles_lost s k d)))"
  proof -
    have "(\<exists>x y r. l = (x, y) # r) \<longleftrightarrow> (\<exists>x y. (x, y) \<in> set l)" for l :: "(int \<times> int) list" by (cases l) auto
    then show ?thesis by simp
  qed
  also have "\<dots> \<longleftrightarrow> (\<exists>x y. \<exists>k \<in> set ts. \<exists>d \<in> set ts. k \<noteq> d \<and> (x, y) \<in> set (tiles_lost s k d))" by blast
  also have "\<dots> \<longleftrightarrow> (\<exists>x y. \<exists>a \<in> set ts. \<exists>b \<in> set ts. a \<noteq> b \<and> Contains a x y \<and> Contains b x y)"
    by (simp only: shared_tile_lost[OF assms])
  finally have "ov = [] \<longleftrightarrow> (\<forall>a \<in> set ts. \<forall>b \<in> set ts. \<forall>x y. Contains a x y \<and> Contains b x y \<longrightarrow> a = b)"
    by (metis (no_types))
  with BuildSet_overlaps_iff[OF assms] show ?thesis by blast
qed

text \<open>
  Three territories on one tile: the two that lose it share it and are not reported as a pair,
  against the comment of Overlap.
\<close>

lemma overlap_of_two_losers:
  "(case BuildSet (map (\<lambda>i. \<lparr>r_ID = i, r_Name = ''T'', r_MinX = 0, r_MinY = 0, r_MaxX = 0, r_MaxY = 0\<rparr>) [1, 2, 3]) 1 1 1 of
      Err _ \<Rightarrow> [] | Ok (_, ov) \<Rightarrow> map (\<lambda>v. (ov_Kept v, ov_Discarded v)) ov) = [(1, 2), (1, 3)]"
  by code_simp

theorem BuildSet_overlaps_witness:
  "\<lparr>ov_Kept = 1, ov_Discarded = 2, ov_X = 1, ov_Y = 1, ov_Tiles = 1\<rparr> \<in> set (snd sample_set)"
proof -
  have "tiles_lost (fst sample_set) terr_b terr_a = [(1, 1)]" by code_simp
  moreover have "terr_b \<noteq> terr_a" by (simp add: terr_a_def terr_b_def)
  ultimately show ?thesis
    unfolding BuildSet_overlaps[OF sample_set_Ok, THEN conjunct1]
    by (intro bexI[of _ terr_b] bexI[of _ terr_a] exI[of _ 1] exI[of _ "[]"] conjI) (simp_all add: terr_a_def terr_b_def)
qed

lemma BuildSet_succeeds:
  assumes "0 < width" "0 < height" "0 < chunkSize" "\<forall>t \<in> set ts. fits width height t" "distinct (map r_ID ts)"
  obtains s ov where "BuildSet ts width height chunkSize = Ok (s, ov)"
proof -
  have "distinct (map r_ID (sort_key r_ID ts))" using assms(5) by (simp add: distinct_map_sort_key)
  with assms have "\<exists>s ov. BuildSet ts width height chunkSize = Ok (s, ov)"
    by (auto simp: BuildSet_def Let_def validarRectangulo_None register_all_Ok[THEN iffD2, OF conjI[OF _ conjI[OF _ refl]]]
        split: sum.splits prod.splits)
  with that show ?thesis by blast
qed

subsection \<open>Footprints\<close>

lemma in_ChunkFootprint:
  assumes "fits width height t" "0 < w_chunkSize w"
  shows "c \<in> set (ChunkFootprint t (w_chunkSize w)) \<longleftrightarrow> (\<exists>x y. Contains t x y \<and> ChunkOf w x y = (CX c, CY c))"
proof -
  let ?k = "w_chunkSize w"
  have f: "0 \<le> r_MinX t" "r_MinX t \<le> r_MaxX t" "0 \<le> r_MinY t" "r_MinY t \<le> r_MaxY t"
    using assms(1) by (simp_all add: fits_def)
  have "c \<in> set (ChunkFootprint t ?k) \<longleftrightarrow>
      (r_MinX t div ?k \<le> CX c \<and> CX c \<le> r_MaxX t div ?k) \<and> (r_MinY t div ?k \<le> CY c \<and> CY c \<le> r_MaxY t div ?k)"
    using f assms(2) by (cases c) (auto simp: ChunkFootprint_def go_arith image_iff)
  also have "\<dots> \<longleftrightarrow> (\<exists>x. r_MinX t \<le> x \<and> x \<le> r_MaxX t \<and> x div ?k = CX c) \<and>
      (\<exists>y. r_MinY t \<le> y \<and> y \<le> r_MaxY t \<and> y div ?k = CY c)"
    by (simp only: div_range_iff[OF assms(2) f(2)] div_range_iff[OF assms(2) f(4)])
  also have "\<dots> \<longleftrightarrow> (\<exists>x y. Contains t x y \<and> x div ?k = CX c \<and> y div ?k = CY c)"
    by (auto simp: Contains_def)
  also have "\<dots> \<longleftrightarrow> (\<exists>x y. Contains t x y \<and> ChunkOf w x y = (CX c, CY c))"
    using f assms(2) by (intro ex_cong1 conj_cong refl) (simp add: ChunkOf_def Contains_def go_arith)
  finally show ?thesis .
qed

lemma BuildSet_FootprintOf:
  assumes "BuildSet ts width height chunkSize = Ok (s, ov)" "t \<in> set ts"
  shows "FootprintOf s (r_ID t) = ChunkFootprint t chunkSize"
proof -
  obtain tiles where b: "s = \<lparr>ts_width = width, ts_height = height, ts_chunkSize = chunkSize, ts_tiles = tiles,
       ts_ordered = sort_key r_ID ts, ts_byID = map_of (map (\<lambda>t. (r_ID t, t)) (sort_key r_ID ts)),
       ts_footprints = map_of (map (\<lambda>t. (r_ID t, ChunkFootprint t chunkSize)) (sort_key r_ID ts))\<rparr>"
    "distinct (map r_ID (sort_key r_ID ts))"
    by (rule BuildSet_Ok[OF assms(1)]) blast
  have "map_of (map (\<lambda>t. (r_ID t, ChunkFootprint t chunkSize)) (sort_key r_ID ts)) (r_ID t) = Some (ChunkFootprint t chunkSize)"
    using b(2) assms(2) by (intro map_of_is_SomeI) (auto simp: comp_def)
  then show ?thesis by (simp add: FootprintOf_def b(1))
qed

text \<open>
  InChunks lists, in ascending order of id, exactly the territories of which some tile lies
  in one of the asked chunks.
\<close>

theorem InChunks_exact:
  assumes "BuildSet ts width height (w_chunkSize w) = Ok (s, ov)"
  shows "set (InChunks s chunks) =
      {t \<in> set ts. \<exists>x y c. Contains t x y \<and> c \<in> set chunks \<and> ChunkOf w x y = (CX c, CY c)} \<and>
    sorted_wrt (\<lambda>a b. r_ID a < r_ID b) (InChunks s chunks)"
proof -
  note at = BuildSet_TerritoryAt(2-4)[OF assms]
  have pos: "0 < w_chunkSize w" using assms by (simp add: BuildSet_def split: if_splits)
  have foot: "(c \<in> set (FootprintOf s (r_ID t))) \<longleftrightarrow> (\<exists>x y. Contains t x y \<and> ChunkOf w x y = (CX c, CY c))"
    if "t \<in> set ts" for t c
    using in_ChunkFootprint[OF _ pos] at(1,3) that by (simp add: BuildSet_FootprintOf[OF assms that]) blast
  have "set (InChunks s chunks) = {t \<in> set ts. \<exists>c \<in> set chunks. c \<in> set (FootprintOf s (r_ID t))}"
    using at(1) by (auto simp: InChunks_def list_ex_iff)
  then have "set (InChunks s chunks) =
      {t \<in> set ts. \<exists>x y c. Contains t x y \<and> c \<in> set chunks \<and> ChunkOf w x y = (CX c, CY c)}"
    using foot by fastforce
  moreover have "sorted_wrt (\<lambda>a b. r_ID a < r_ID b) (InChunks s chunks)"
    using at(2) by (simp add: InChunks_def sorted_wrt_filter)
  ultimately show ?thesis by simp
qed

definition sample_plain :: world where
  "sample_plain = \<lparr>w_width = 4, w_height = 2, w_chunkSize = 2, w_seed = 0, w_terrain = replicate 8 Grassland,
     w_blocked = replicate 8 False\<rparr>"

theorem InChunks_exact_witness:
  "InChunks (fst sample_set) [\<lparr>CX = 1, CY = 0\<rparr>] = [terr_b] \<and>
   terr_a \<notin> set (InChunks (fst sample_set) [\<lparr>CX = 1, CY = 0\<rparr>])"
proof -
  have "w_chunkSize sample_plain = 2" by (simp add: sample_plain_def)
  with sample_set_Ok have b: "BuildSet [terr_a, terr_b] 4 2 (w_chunkSize sample_plain) = Ok (fst sample_set, snd sample_set)" by simp
  have "terr_a \<notin> set (InChunks (fst sample_set) [\<lparr>CX = 1, CY = 0\<rparr>])"
    unfolding conjunct1[OF InChunks_exact[OF b]]
    by (auto simp: ChunkOf_def sample_plain_def Contains_def terr_a_def go_arith)
  moreover have "InChunks (fst sample_set) [\<lparr>CX = 1, CY = 0\<rparr>] = [terr_b]" by code_simp
  ultimately show ?thesis by simp
qed

end
