(* ===== verification/Claims.thy ===== *)
theory Claims
  imports Territory
begin

section \<open>The seeded grid and the claims of territories\<close>

text \<open>
  Models internal/domain/territory/seed.go and claim.go: the grid that the world is seeded with,
  and the part of a claim that depends only on the territory: who owns it, what a capital is,
  who may claim it and what a conquest adds to the population limit. uuid.Parse (google/uuid) is
  the parameter parse. Proved: the seeded grid cuts the world into territories without gaps or
  overlaps, whatever ids the database gives them; what CheckClaimable accepts; and a capture
  changes the bonus of the conquered territories by exactly CaptureBonus.
\<close>

subsection \<open>seed.go\<close>

fun dec_nat :: "nat \<Rightarrow> string" where
  "dec_nat n = (if n < 10 then [char_of (48 + n)] else dec_nat (n div 10) @ [char_of (48 + n mod 10)])"

declare dec_nat.simps [simp del]

definition dec :: "int \<Rightarrow> string" where
  "dec i = (if i < 0 then ''-'' @ dec_nat (nat (- i)) else dec_nat (nat i))"

definition min32 :: "int32 \<Rightarrow> int32 \<Rightarrow> int32" where
  "min32 a b = (if a < b then a else b)"

definition grid_cell :: "int32 \<Rightarrow> int32 \<Rightarrow> int32 \<Rightarrow> int32 \<times> int32 \<Rightarrow> territory" where
  "grid_cell width height tileSize f =
     (let (fx, fy) = f; minX = i32 (fx * tileSize); minY = i32 (fy * tileSize)
      in \<lparr>r_ID = 0,
          r_Name = ''Regi'' @ [CHR 0xC3, CHR 0xB3] @ ''n '' @ dec fx @ ''-'' @ dec fy,
          r_MinX = minX, r_MinY = minY,
          r_MaxX = min32 (i32 (i32 (minX + tileSize) - 1)) (width - 1),
          r_MaxY = min32 (i32 (i32 (minY + tileSize) - 1)) (height - 1)\<rparr>)"

definition SeedGrid :: "int32 \<Rightarrow> int32 \<Rightarrow> int32 \<Rightarrow> territory_error + territory list" where
  "SeedGrid width height tileSize =
     (if width \<le> 0 \<or> height \<le> 0 then Err ErrDimensiones
      else if tileSize \<le> 0 then Err ErrLado
      else let columnas = go_div (i32 (i32 (width + tileSize) - 1)) tileSize;
               filas = go_div (i32 (i32 (height + tileSize) - 1)) tileSize;
               total = i64 (columnas * filas)
           in if MaxTerritories < total then Err ErrDemasiados
              else if total < 0 then Err PanicMakeSlice
              else Ok (map (grid_cell width height tileSize) (scan 0 0 (columnas - 1) (filas - 1))))"

lemma cells_range:
  fixes S :: int
  assumes "0 < S" "0 < w"
  shows "0 \<le> f \<and> f \<le> (w + S - 1) div S - 1 \<longleftrightarrow> 0 \<le> f \<and> f * S < w"
proof -
  have "(w + S - 1) div S - 1 = (w - 1) div S"
    using div_add_self2[of S "w - 1"] assms(1) by (simp add: algebra_simps)
  with le_div_iff[OF assms(1), of f "w - 1"] show ?thesis by auto
qed

lemma i32_wrap_dec: "i32 (i32 a - 1) = i32 (a - 1)"
  by (simp add: i32_def mod_simps algebra_simps)

lemma cell_of:
  fixes S :: int
  assumes "0 < S"
  shows "f * S \<le> x \<and> x \<le> f * S + S - 1 \<longleftrightarrow> x div S = f"
  using div_eq_iff[OF assms, of x f] by (auto simp: distrib_right)

lemma le_min32: "x \<le> min32 a (b - 1) \<longleftrightarrow> x \<le> a \<and> x < b"
  by (auto simp: min32_def)

lemma grid_cell_Contains:
  assumes dims: "0 < S" "0 < w" "0 < h" "w + S \<le> 2147483648" "h + S \<le> 2147483648"
    and f: "0 \<le> fx" "fx * S < w" "0 \<le> fy" "fy * S < h"
  shows "Contains (grid_cell w h S (fx, fy)) x y \<longleftrightarrow> x div S = fx \<and> x < w \<and> y div S = fy \<and> y < h"
    and "r_MinX (grid_cell w h S (fx, fy)) = fx * S" "r_MinY (grid_cell w h S (fx, fy)) = fy * S"
    and "0 < i \<Longrightarrow> i \<le> MaxTerritories \<Longrightarrow> fits w h ((grid_cell w h S (fx, fy))\<lparr>r_ID := i\<rparr>)"
proof -
  have nn: "0 \<le> fx * S" "0 \<le> fy * S" using f dims(1) by simp_all
  have c: "i32 (fx * S) = fx * S" "i32 (fy * S) = fy * S"
    "i32 (i32 (fx * S + S) - 1) = fx * S + S - 1" "i32 (i32 (fy * S + S) - 1) = fy * S + S - 1"
    unfolding i32_wrap_dec using nn dims f by (intro i32_id; linarith)+
  show "Contains (grid_cell w h S (fx, fy)) x y \<longleftrightarrow> x div S = fx \<and> x < w \<and> y div S = fy \<and> y < h"
    using cell_of[OF dims(1), of fx x] cell_of[OF dims(1), of fy y]
    by (simp add: grid_cell_def Contains_def c le_min32 Let_def) blast
  show "r_MinX (grid_cell w h S (fx, fy)) = fx * S" "r_MinY (grid_cell w h S (fx, fy)) = fy * S"
    by (simp_all add: grid_cell_def c Let_def)
  show "fits w h ((grid_cell w h S (fx, fy))\<lparr>r_ID := i\<rparr>)" if "0 < i" "i \<le> MaxTerritories"
    using that f dims nn by (simp add: grid_cell_def fits_def c min32_def Let_def)
qed

definition grid_points :: "int32 \<Rightarrow> int32 \<Rightarrow> int32 \<Rightarrow> (int32 \<times> int32) set" where
  "grid_points w h S = {(fx, fy). 0 \<le> fx \<and> fx * S < w \<and> 0 \<le> fy \<and> fy * S < h}"

lemma SeedGrid_Ok:
  assumes "SeedGrid w h S = Ok seeds" "w + S \<le> 2147483648" "h + S \<le> 2147483648"
  shows "0 < S" "0 < w" "0 < h" "distinct seeds" "set seeds = grid_cell w h S ` grid_points w h S"
proof -
  show dims: "0 < S" "0 < w" "0 < h"
    using assms(1) by (simp_all add: SeedGrid_def not_le split: if_splits)
  let ?l = "scan 0 0 ((w + S - 1) div S - 1) ((h + S - 1) div S - 1)"
  have "i32 (w + S - 1) = w + S - 1" "i32 (h + S - 1) = h + S - 1"
    using assms(2,3) dims by (intro i32_id; linarith)+
  then have seeds: "seeds = map (grid_cell w h S) ?l"
    using assms(1) dims by (simp add: SeedGrid_def Let_def i32_wrap_dec go_div_nonneg split: if_splits)
  have l: "set ?l = grid_points w h S"
    unfolding set_scan grid_points_def using cells_range[OF dims(1,2)] cells_range[OF dims(1,3)] by auto
  then show "set seeds = grid_cell w h S ` grid_points w h S" by (simp add: seeds)
  have "inj_on (grid_cell w h S) (grid_points w h S)"
  proof (rule inj_onI, clarify)
    fix a b a' b'
    assume ab: "(a, b) \<in> grid_points w h S" "(a', b') \<in> grid_points w h S"
      and eq: "grid_cell w h S (a, b) = grid_cell w h S (a', b')"
    note gc = grid_cell_Contains(2,3)[OF dims assms(2,3)]
    have "r_MinX (grid_cell w h S (a, b)) = a * S" "r_MinY (grid_cell w h S (a, b)) = b * S"
      "r_MinX (grid_cell w h S (a', b')) = a' * S" "r_MinY (grid_cell w h S (a', b')) = b' * S"
      using ab by (simp_all add: gc grid_points_def)
    with eq have "a * S = a' * S" "b * S = b' * S" by (auto simp only:)
    then show "a = a' \<and> b = b'" using dims(1) by simp
  qed
  then show "distinct seeds" unfolding seeds distinct_map l by simp
qed

lemma seeded_row:
  assumes "SeedGrid w h S = Ok seeds" "w + S \<le> 2147483648" "h + S \<le> 2147483648"
    and "t\<lparr>r_ID := 0\<rparr> \<in> set seeds"
  shows "Contains t x y \<Longrightarrow> t\<lparr>r_ID := 0\<rparr> = grid_cell w h S (x div S, y div S) \<and>
      r_MinX t = x div S * S \<and> r_MinY t = y div S * S"
    and "0 < r_ID t \<Longrightarrow> r_ID t \<le> MaxTerritories \<Longrightarrow> fits w h t"
proof -
  note sg = SeedGrid_Ok[OF assms(1-3)]
  note gc = grid_cell_Contains[OF sg(1-3) assms(2,3)]
  obtain fx fy where f: "t\<lparr>r_ID := 0\<rparr> = grid_cell w h S (fx, fy)" "(fx, fy) \<in> grid_points w h S"
    using assms(4) by (auto simp: sg)
  show "t\<lparr>r_ID := 0\<rparr> = grid_cell w h S (x div S, y div S) \<and> r_MinX t = x div S * S \<and> r_MinY t = y div S * S"
    if "Contains t x y"
  proof -
    have "Contains (t\<lparr>r_ID := 0\<rparr>) x y" using that by (simp add: Contains_def)
    then have "x div S = fx" "y div S = fy" using gc(1) f by (auto simp: grid_points_def)
    moreover have "r_MinX (t\<lparr>r_ID := 0\<rparr>) = fx * S" "r_MinY (t\<lparr>r_ID := 0\<rparr>) = fy * S"
      unfolding f(1) using gc(2,3) f(2) by (simp_all add: grid_points_def)
    moreover have "r_MinX (t\<lparr>r_ID := 0\<rparr>) = r_MinX t" "r_MinY (t\<lparr>r_ID := 0\<rparr>) = r_MinY t" by simp_all
    ultimately show ?thesis using f(1) by (simp only:)
  qed
  show "fits w h t" if "0 < r_ID t" "r_ID t \<le> MaxTerritories"
  proof -
    have "fits w h ((t\<lparr>r_ID := 0\<rparr>)\<lparr>r_ID := r_ID t\<rparr>)"
      unfolding f(1) using gc(4) f(2) that by (simp add: grid_points_def)
    then show ?thesis by simp
  qed
qed

text \<open>
  C32: SeedGrid cuts the world without gaps or overlaps: whatever different ids in range the
  database gives to the rows it inserts, BuildSet accepts them and reports no overlap, and every
  tile of the world belongs to the territory whose corner is the grid point below it.
\<close>

theorem SeedGrid_partition:
  assumes "SeedGrid width height S = Ok seeds" "width + S \<le> 2147483648" "height + S \<le> 2147483648" "0 < chunkSize"
    and "map (\<lambda>t. t\<lparr>r_ID := 0\<rparr>) rows = seeds" "distinct (map r_ID rows)"
    and "\<forall>t \<in> set rows. 0 < r_ID t \<and> r_ID t \<le> MaxTerritories"
  shows "\<exists>s. BuildSet rows width height chunkSize = Ok (s, []) \<and>
    (\<forall>x y. 0 \<le> x \<and> x < width \<and> 0 \<le> y \<and> y < height \<longrightarrow>
      (\<exists>t. TerritoryAt s x y = Some t \<and> r_MinX t = x div S * S \<and> r_MinY t = y div S * S))"
proof -
  note sg = SeedGrid_Ok[OF assms(1-3)]
  have row: "t\<lparr>r_ID := 0\<rparr> \<in> set seeds" if "t \<in> set rows" for t using that assms(5) by auto
  note cell = seeded_row(1)[OF assms(1-3) row]
  have inj: "inj_on (\<lambda>t. t\<lparr>r_ID := 0\<rparr>) (set rows)"
    using sg(4) unfolding assms(5)[symmetric] distinct_map by blast
  have "\<forall>t \<in> set rows. fits width height t" using seeded_row(2)[OF assms(1-3) row] assms(7) by blast
  then obtain s ov where b: "BuildSet rows width height chunkSize = Ok (s, ov)"
    using BuildSet_succeeds[OF sg(2,3) assms(4) _ assms(6)] by metis
  note at = BuildSet_TerritoryAt(1,2)[OF b]
  have "v \<notin> set ov" for v
  proof
    assume "v \<in> set ov"
    then obtain k d x y r where kd: "k \<in> set rows" "d \<in> set rows" "k \<noteq> d" "tiles_lost s k d = (x, y) # r"
      unfolding BuildSet_overlaps_iff(1)[OF b] by blast
    then have "(x, y) \<in> set (tiles_lost s k d)" by simp
    then have "TerritoryAt s x y = Some k" and d: "Contains d x y" by (simp_all add: tiles_lost_def Contains_def)
    then have k: "Contains k x y" unfolding at by (auto dest: find_SomeD)
    have "k\<lparr>r_ID := 0\<rparr> = d\<lparr>r_ID := 0\<rparr>" using cell[OF kd(1) k] cell[OF kd(2) d] by simp
    with inj kd(1-3) show False by (blast dest: inj_onD)
  qed
  then have "ov = []" by (cases ov) auto
  moreover have "\<exists>t. TerritoryAt s x y = Some t \<and> r_MinX t = x div S * S \<and> r_MinY t = y div S * S"
    if xy: "0 \<le> x" "x < width" "0 \<le> y" "y < height" for x y
  proof -
    have c: "0 \<le> x div S \<and> x div S * S < width \<and> 0 \<le> y div S \<and> y div S * S < height"
      using xy sg(1) div_mult_bounds(1)[OF sg(1), of x] div_mult_bounds(1)[OF sg(1), of y]
      by (simp add: pos_imp_zdiv_nonneg_iff)
    then have "grid_cell width height S (x div S, y div S) \<in> set seeds" unfolding sg(5) grid_points_def by blast
    then obtain t where t: "t \<in> set rows" "t\<lparr>r_ID := 0\<rparr> = grid_cell width height S (x div S, y div S)"
      unfolding assms(5)[symmetric] by auto
    have "Contains (t\<lparr>r_ID := 0\<rparr>) x y"
      unfolding t(2) using grid_cell_Contains(1)[OF sg(1-3) assms(2,3)] c xy by simp
    then have "Contains t x y" by (simp add: Contains_def)
    then have "find (\<lambda>t. Contains t x y) (ts_ordered s) \<noteq> None" using t(1) at(2) by (auto simp: find_None_iff)
    then obtain u where u: "TerritoryAt s x y = Some u" by (auto simp: at)
    then have "u \<in> set rows" "Contains u x y" using at by (auto dest: find_SomeD)
    with cell u show ?thesis by blast
  qed
  ultimately show ?thesis using b by blast
qed

definition seed_rows :: "territory list" where
  "seed_rows = [(grid_cell 3 2 2 (0, 0))\<lparr>r_ID := 7\<rparr>, (grid_cell 3 2 2 (1, 0))\<lparr>r_ID := 4\<rparr>]"

theorem SeedGrid_partition_witness:
  "\<exists>s. BuildSet seed_rows 3 2 1 = Ok (s, []) \<and> (\<exists>t. TerritoryAt s 2 1 = Some t \<and> r_MinX t = 2 \<and> r_MinY t = 0)"
proof -
  have g: "SeedGrid 3 2 2 = Ok [grid_cell 3 2 2 (0, 0), grid_cell 3 2 2 (1, 0)]" by code_simp
  have r: "map (\<lambda>t. t\<lparr>r_ID := 0\<rparr>) seed_rows = [grid_cell 3 2 2 (0, 0), grid_cell 3 2 2 (1, 0)]"
    by (simp add: seed_rows_def grid_cell_def Let_def)
  have i: "distinct (map r_ID seed_rows)" "\<forall>t \<in> set seed_rows. 0 < r_ID t \<and> r_ID t \<le> MaxTerritories"
    by (simp_all add: seed_rows_def MaxTerritories_def)
  obtain s where s: "BuildSet seed_rows 3 2 1 = Ok (s, [])" "\<forall>x y. 0 \<le> x \<and> x < 3 \<and> 0 \<le> y \<and> y < 2 \<longrightarrow>
      (\<exists>t. TerritoryAt s x y = Some t \<and> r_MinX t = x div 2 * 2 \<and> r_MinY t = y div 2 * 2)"
    using SeedGrid_partition[OF g _ _ _ r i, of 1] by auto
  from s(2)[rule_format, of 2 1] s(1) show ?thesis by auto
qed

subsection \<open>claim.go\<close>

record claim =
  cl_ID :: int64
  cl_TerritoryID :: int64
  cl_UnitID :: int64
  cl_PlayerID :: uuid
  cl_CityID :: int64
  cl_OwnerPlayerID :: "uuid option"
  cl_X :: int32
  cl_Y :: int32
  cl_StartedAtMs :: int64
  cl_CompletesAtMs :: int64
  cl_RequestID :: string

definition Tile_claim :: "claim \<Rightarrow> tile" where "Tile_claim c = mk_tile (cl_X c) (cl_Y c)"

definition Due_claim :: "claim \<Rightarrow> int64 \<Rightarrow> bool" where "Due_claim c nowMs \<longleftrightarrow> cl_CompletesAtMs c \<le> nowMs"

definition PlayerOwner :: "(string \<Rightarrow> uuid option) \<Rightarrow> control \<Rightarrow> uuid option" where
  "PlayerOwner parse c =
     (if ct_OwnerType c \<noteq> OwnerPlayer then None
      else case ct_OwnerID c of None \<Rightarrow> None | Some t \<Rightarrow> parse t)"

definition IsCapital :: "territory \<Rightarrow> tile list \<Rightarrow> bool" where
  "IsCapital t ownerCityCenters = list_ex (\<lambda>c. Contains t (tX c) (tY c)) ownerCityCenters"

definition CheckClaimable ::
  "(string \<Rightarrow> uuid option) \<Rightarrow> territory \<Rightarrow> control \<Rightarrow> uuid \<Rightarrow> tile list \<Rightarrow> territory_error option" where
  "CheckClaimable parse t c claimer ownerCityCenters =
     (let owned = (case PlayerOwner parse c of
          None \<Rightarrow> Some ErrNotClaimable
        | Some own \<Rightarrow>
            if own = claimer then Some ErrOwnTerritory
            else if IsCapital t ownerCityCenters then Some ErrCapital
            else None)
      in case ct_OwnerType c of
          OwnerNone \<Rightarrow> None
        | OwnerPlayer \<Rightarrow> owned
        | OwnerOther n \<Rightarrow> if n = '''' then None else Some ErrNotClaimable
        | _ \<Rightarrow> Some ErrNotClaimable)"

definition TerritoryBonus :: int32 where "TerritoryBonus = 5"

definition ConqueredBonus :: "int \<Rightarrow> int32" where
  "ConqueredBonus n = i32 (TerritoryBonus * i32 n)"

fun CountConquered ::
  "(string \<Rightarrow> uuid option) \<Rightarrow> territory list \<Rightarrow> (int64 \<rightharpoonup> control) \<Rightarrow> uuid \<Rightarrow> tile \<Rightarrow> int" where
  "CountConquered parse [] controls playerID cityCenter = 0"
| "CountConquered parse (t # ts) controls playerID cityCenter =
     (let rest = CountConquered parse ts controls playerID cityCenter
      in case controls (r_ID t) of
           None \<Rightarrow> rest
         | Some c \<Rightarrow>
             if PlayerOwner parse c \<noteq> Some playerID then rest
             else if Contains t (tX cityCenter) (tY cityCenter) then rest
             else 1 + rest)"

definition CaptureBonus :: "territory \<Rightarrow> tile \<Rightarrow> int32" where
  "CaptureBonus t cityCenter = (if Contains t (tX cityCenter) (tY cityCenter) then 0 else TerritoryBonus)"

text \<open>
  a territory can be claimed exactly when it
  has no owner, or its owner is a player other than the claimer none of whose cities has its
  centre in it; a clan, a faction or an owner whose id cannot be read is refused.
\<close>

theorem CheckClaimable_iff:
  "CheckClaimable parse t c claimer centers = None \<longleftrightarrow>
    ct_OwnerType c = OwnerNone \<or> ct_OwnerType c = OwnerOther '''' \<or>
    (\<exists>own. PlayerOwner parse c = Some own \<and> own \<noteq> claimer \<and>
      (\<forall>center \<in> set centers. \<not> Contains t (tX center) (tY center)))"
  by (cases "ct_OwnerType c"; cases "ct_OwnerID c")
     (auto simp: CheckClaimable_def PlayerOwner_def IsCapital_def list_ex_iff split: option.splits)

theorem CheckClaimable_iff_witness:
  "CheckClaimable (\<lambda>_. Some 9) terr_a
     \<lparr>ct_TerritoryID = 2, ct_OwnerType = OwnerPlayer, ct_OwnerID = Some ''p'', ct_ControlPoints = 0,
      ct_Contested = False, ct_CapturedAt = Some 1, ct_Version = 1\<rparr> 7 [mk_tile 5 5] = None"
  unfolding CheckClaimable_iff by (simp add: PlayerOwner_def Contains_def terr_a_def)

lemma CountConquered_bounds:
  "0 \<le> CountConquered parse ts controls p center \<and> CountConquered parse ts controls p center \<le> int (length ts)"
  by (induction ts) (auto simp: Let_def split: option.splits)

lemma CountConquered_cong:
  "(\<And>t. t \<in> set ts \<Longrightarrow> controls (r_ID t) = controls' (r_ID t)) \<Longrightarrow>
    CountConquered parse ts controls p center = CountConquered parse ts controls' p center"
  by (induction ts) (simp_all add: Let_def split: option.split)

lemma CountConquered_capture:
  assumes "distinct (map r_ID ts)" "t \<in> set ts" "PlayerOwner parse c' = Some p"
    and "\<forall>c. controls (r_ID t) = Some c \<longrightarrow> PlayerOwner parse c \<noteq> Some p"
  shows "CountConquered parse ts (controls(r_ID t \<mapsto> c')) p center =
    CountConquered parse ts controls p center + (if Contains t (tX center) (tY center) then 0 else 1)"
  using assms(1,2)
proof (induction ts)
  case (Cons u ts)
  show ?case
  proof (cases "u = t")
    case True
    have "CountConquered parse ts (controls(r_ID t \<mapsto> c')) p center = CountConquered parse ts controls p center"
      using Cons.prems(1) True by (intro CountConquered_cong) (auto simp: image_iff)
    then show ?thesis using True assms(3,4)
      by (cases "controls (r_ID t)") (simp_all add: Let_def del: fun_upd_apply add: fun_upd_same)
  next
    case False
    then have "t \<in> set ts" "r_ID u \<noteq> r_ID t" using Cons.prems by (auto simp: image_iff)
    then show ?thesis using Cons
      by (cases "controls (r_ID u)") (simp_all add: Let_def del: fun_upd_apply add: fun_upd_other)
  qed
qed simp

text \<open>
  writing on the map that a player takes a territory that was not his changes the bonus
  counted over the whole map by exactly CaptureBonus: the increment that a capture applies and
  the sum that a restart recomputes agree.
\<close>

theorem CaptureBonus_is_difference:
  assumes "distinct (map r_ID ts)" "t \<in> set ts" "int (length ts) \<le> MaxTerritories"
    and "PlayerOwner parse c' = Some p" "\<forall>c. controls (r_ID t) = Some c \<longrightarrow> PlayerOwner parse c \<noteq> Some p"
  shows "ConqueredBonus (CountConquered parse ts (controls(r_ID t \<mapsto> c')) p center) =
    ConqueredBonus (CountConquered parse ts controls p center) + CaptureBonus t center"
proof -
  have "ConqueredBonus n = 5 * n" if "0 \<le> n" "n \<le> 65536" for n
    using that by (simp add: ConqueredBonus_def TerritoryBonus_def i32_id)
  then show ?thesis
    using CountConquered_bounds[of parse ts controls p center] assms(3)
    by (simp add: CountConquered_capture[where controls = controls, OF assms(1,2,4,5)] CaptureBonus_def TerritoryBonus_def MaxTerritories_def)
qed

definition sample_control :: control where
  "sample_control = \<lparr>ct_TerritoryID = 4, ct_OwnerType = OwnerPlayer, ct_OwnerID = Some ''p'', ct_ControlPoints = 0,
     ct_Contested = False, ct_CapturedAt = Some 1, ct_Version = 1\<rparr>"

theorem CaptureBonus_is_difference_witness:
  "ConqueredBonus (CountConquered (\<lambda>_. Some 9) seed_rows (Map.empty(4 \<mapsto> sample_control)) 9 (mk_tile 0 0)) = 5"
proof -
  have t: "(grid_cell 3 2 2 (1, 0))\<lparr>r_ID := 4\<rparr> \<in> set seed_rows" by (simp add: seed_rows_def)
  have "distinct (map r_ID seed_rows)" "int (length seed_rows) \<le> MaxTerritories"
    "PlayerOwner (\<lambda>_. Some 9) sample_control = Some 9"
    by (simp_all add: seed_rows_def MaxTerritories_def PlayerOwner_def sample_control_def)
  from CaptureBonus_is_difference[OF this(1) t this(2,3), of Map.empty "mk_tile 0 0"]
  have "ConqueredBonus (CountConquered (\<lambda>_. Some 9) seed_rows (Map.empty(4 \<mapsto> sample_control)) 9 (mk_tile 0 0)) =
    ConqueredBonus (CountConquered (\<lambda>_. Some 9) seed_rows Map.empty 9 (mk_tile 0 0)) +
    CaptureBonus ((grid_cell 3 2 2 (1, 0))\<lparr>r_ID := 4\<rparr>) (mk_tile 0 0)" by simp
  also have "\<dots> = 5" by code_simp
  finally show ?thesis .
qed

text \<open>
  The count of columns is an int32: a side near its limit wraps it, and SeedGrid panics or seeds
  nothing.
\<close>

lemma SeedGrid_overflow:
  "SeedGrid 2 1 2147483647 = Err PanicMakeSlice" "SeedGrid 2 2 2147483647 = Ok []"
  by (simp_all add: SeedGrid_def i32_def i64_def go_div_def scan_def MaxTerritories_def)

end
