(* ===== verification/Safezone.thy ===== *)
theory Safezone
  imports Painting Units
begin

section \<open>Safe zones\<close>

text \<open>
  Models internal/domain/safezone/safezone.go: the membership predicate of a tile, the dense index
  built from the zones and the world (the Grid interface, whose implementation is world.World),
  its report, the removal of a rectangle when a city is founded, and the rule that hides and
  shows units. Where two zones carry the same id (the table forbids it) the code keeps the one
  that an unstable sort puts first; the model takes the stable sort. Proved: ZoneAt gives the
  zone of least id that claims the tile by its box, its terrain and its vacancy; every tile of a
  zone is walkable; Exclude clears exactly its rectangle and counts what each zone lost.
\<close>

datatype zone_type = DenseForest | Cavern | ZoneOther string

definition Valid_zone_type :: "zone_type \<Rightarrow> bool" where
  "Valid_zone_type t \<longleftrightarrow> t = DenseForest \<or> t = Cavern"

definition MaxZoneID :: int where "MaxZoneID = 4294967295"

record zone =
  z_ID :: int64
  z_Name :: string
  z_Type :: zone_type
  z_MinX :: int32
  z_MinY :: int32
  z_MaxX :: int32
  z_MaxY :: int32

definition Contains_zone :: "zone \<Rightarrow> int32 \<Rightarrow> int32 \<Rightarrow> bool" where
  "Contains_zone z x y \<longleftrightarrow> z_MinX z \<le> x \<and> x \<le> z_MaxX z \<and> z_MinY z \<le> y \<and> y \<le> z_MaxY z"

definition satisfiesTerrain :: "world \<Rightarrow> zone_type \<Rightarrow> int32 \<Rightarrow> int32 \<Rightarrow> bool" where
  "satisfiesTerrain g t x y =
     (let terrain = TerrainAt g x y
      in case t of
           DenseForest \<Rightarrow> terrain = Forest
         | Cavern \<Rightarrow> Walkable terrain \<and>
             list_ex (\<lambda>(dx, dy). \<not> (dx = 0 \<and> dy = 0) \<and> TerrainAt g (i32 (x + dx)) (i32 (y + dy)) = Mountain)
               (scan (- 1) (- 1) 1 1)
         | ZoneOther _ \<Rightarrow> False)"

definition Member :: "world \<Rightarrow> zone_type \<Rightarrow> int32 \<Rightarrow> int32 \<Rightarrow> bool" where
  "Member g t x y \<longleftrightarrow> satisfiesTerrain g t x y \<and> \<not> IsBlocked g x y"

subsection \<open>The index and its report\<close>

datatype zone_reason = BadID | BadType | BadBounds | OutsideWorld | DuplicateID

record rejection =
  rj_ZoneID :: int64
  rj_Reason :: zone_reason

record urban_overlap =
  uo_ZoneID :: int64
  uo_X :: int32
  uo_Y :: int32
  uo_Tiles :: int

record zone_report =
  rp_Overlaps :: "overlap list"
  rp_Rejected :: "rejection list"
  rp_Urban :: "urban_overlap list"

record zone_index =
  zi_width :: int32
  zi_height :: int32
  zi_tiles :: "int list"
  zi_byID :: "int64 \<rightharpoonup> zone"
  zi_ordered :: "zone list"

definition validate_zone :: "zone \<Rightarrow> int32 \<Rightarrow> int32 \<Rightarrow> zone_reason option" where
  "validate_zone z width height =
     (if z_ID z < 1 \<or> MaxZoneID < z_ID z then Some BadID
      else if \<not> Valid_zone_type (z_Type z) then Some BadType
      else if z_MaxX z < z_MinX z \<or> z_MaxY z < z_MinY z then Some BadBounds
      else if z_MinX z < 0 \<or> z_MinY z < 0 \<or> width \<le> z_MaxX z \<or> height \<le> z_MaxY z then Some OutsideWorld
      else None)"

definition zone_tile ::
  "world \<Rightarrow> zone \<Rightarrow> int32 \<times> int32 \<Rightarrow> (int list \<times> conflicts) \<times> urban_overlap option \<Rightarrow>
    (int list \<times> conflicts) \<times> urban_overlap option" where
  "zone_tile g z p st =
     (let (x, y) = p; (painted, urban) = st
      in if \<not> satisfiesTerrain g (z_Type z) x y then st
         else if IsBlocked g x y then
           (painted, Some (case urban of
              None \<Rightarrow> \<lparr>uo_ZoneID = z_ID z, uo_X = x, uo_Y = y, uo_Tiles = 1\<rparr>
            | Some u \<Rightarrow> u\<lparr>uo_Tiles := uo_Tiles u + 1\<rparr>))
         else (paint_tile (w_width g) (u32 (z_ID z), x, y) painted, urban))"

type_synonym zone_build = "zone_index \<times> conflicts \<times> rejection list \<times> urban_overlap list"

definition add_zone :: "world \<Rightarrow> zone \<Rightarrow> zone_build \<Rightarrow> zone_build" where
  "add_zone g z st =
     (let (idx, conf, rejected, urban) = st
      in case validate_zone z (w_width g) (w_height g) of
           Some reason \<Rightarrow> (idx, conf, rejected @ [\<lparr>rj_ZoneID = z_ID z, rj_Reason = reason\<rparr>], urban)
         | None \<Rightarrow>
             if zi_byID idx (z_ID z) \<noteq> None
             then (idx, conf, rejected @ [\<lparr>rj_ZoneID = z_ID z, rj_Reason = DuplicateID\<rparr>], urban)
             else let ((tiles, conf'), u) =
                    fold (zone_tile g z) (scan (z_MinX z) (z_MinY z) (z_MaxX z) (z_MaxY z)) ((zi_tiles idx, conf), None)
                  in (idx\<lparr>zi_byID := (zi_byID idx)(z_ID z \<mapsto> z), zi_ordered := zi_ordered idx @ [z], zi_tiles := tiles\<rparr>,
                      conf', rejected, urban @ (case u of None \<Rightarrow> [] | Some u' \<Rightarrow> [u'])))"

definition BuildIndex :: "zone list \<Rightarrow> world \<Rightarrow> (zone_index \<times> zone_report) option" where
  "BuildIndex zones g =
     (if w_width g \<le> 0 \<or> w_height g \<le> 0 then None
      else let idx0 = \<lparr>zi_width = w_width g, zi_height = w_height g,
                       zi_tiles = replicate (nat (w_width g * w_height g)) 0,
                       zi_byID = Map.empty, zi_ordered = []\<rparr>;
               (idx, conf, rejected, urban) = fold (add_zone g) (sort_key z_ID zones) (idx0, [], [], [])
           in Some (idx, \<lparr>rp_Overlaps = ordenarSolapamientos conf, rp_Rejected = rejected, rp_Urban = urban\<rparr>))"

definition ZoneAt :: "zone_index option \<Rightarrow> int32 \<Rightarrow> int32 \<Rightarrow> zone option" where
  "ZoneAt i x y =
     (case i of None \<Rightarrow> None
      | Some i \<Rightarrow>
          if x < 0 \<or> y < 0 \<or> zi_width i \<le> x \<or> zi_height i \<le> y then None
          else let ident = zi_tiles i ! row_idx (zi_width i) x y
               in if ident = 0 then None else zi_byID i ident)"

definition Len_zones :: "zone_index option \<Rightarrow> nat" where
  "Len_zones i = (case i of None \<Rightarrow> 0 | Some i \<Rightarrow> length (zi_ordered i))"

definition TileCount :: "zone_index option \<Rightarrow> int64 \<Rightarrow> nat" where
  "TileCount i ident = (case i of None \<Rightarrow> 0 | Some i \<Rightarrow> length (filter (\<lambda>v. v = ident) (zi_tiles i)))"

definition Tiles_zones :: "zone_index option \<Rightarrow> int list" where
  "Tiles_zones i = (case i of None \<Rightarrow> [] | Some i \<Rightarrow> zi_tiles i)"

fun lose :: "int64 \<Rightarrow> int32 \<Rightarrow> int32 \<Rightarrow> urban_overlap list \<Rightarrow> urban_overlap list" where
  "lose ident x y [] = [\<lparr>uo_ZoneID = ident, uo_X = x, uo_Y = y, uo_Tiles = 1\<rparr>]"
| "lose ident x y (p # ps) =
     (if uo_ZoneID p = ident then p\<lparr>uo_Tiles := uo_Tiles p + 1\<rparr> # ps else p # lose ident x y ps)"

definition exclude_tile :: "int32 \<times> int32 \<Rightarrow> zone_index \<times> urban_overlap list \<Rightarrow> zone_index \<times> urban_overlap list" where
  "exclude_tile p st =
     (let (x, y) = p; (i, perdidos) = st
      in if x < 0 \<or> y < 0 \<or> zi_width i \<le> x \<or> zi_height i \<le> y then st
         else let pos = row_idx (zi_width i) x y; ident = zi_tiles i ! pos
              in if ident = 0 then st
                 else (i\<lparr>zi_tiles := (zi_tiles i)[pos := 0]\<rparr>, lose ident x y perdidos))"

definition Exclude :: "int32 \<Rightarrow> int32 \<Rightarrow> int32 \<Rightarrow> int32 \<Rightarrow> zone_index option \<Rightarrow> zone_index option \<times> urban_overlap list" where
  "Exclude minX minY maxX maxY i =
     (case i of None \<Rightarrow> (None, [])
      | Some i \<Rightarrow>
          let (i', perdidos) = fold exclude_tile (scan minX minY maxX maxY) (i, [])
          in (Some i', sort_key uo_ZoneID perdidos))"

definition NextStatus :: "unit_status \<Rightarrow> int32 \<Rightarrow> bool \<Rightarrow> bool \<Rightarrow> unit_status" where
  "NextStatus status hp moving inZone =
     (case status of
        StatusIdle \<Rightarrow> if 0 < hp \<and> \<not> moving \<and> inZone then StatusHidden else status
      | StatusHidden \<Rightarrow>
          if moving then StatusMoving else if \<not> inZone \<or> hp \<le> 0 then StatusIdle else status
      | _ \<Rightarrow> status)"

subsection \<open>What BuildIndex builds\<close>

definition zfits :: "world \<Rightarrow> zone \<Rightarrow> bool" where
  "zfits g z \<longleftrightarrow> validate_zone z (w_width g) (w_height g) = None"

lemma zfits_iff: "zfits g z \<longleftrightarrow> 1 \<le> z_ID z \<and> z_ID z \<le> MaxZoneID \<and> Valid_zone_type (z_Type z) \<and>
    0 \<le> z_MinX z \<and> z_MinX z \<le> z_MaxX z \<and> z_MaxX z < w_width g \<and>
    0 \<le> z_MinY z \<and> z_MinY z \<le> z_MaxY z \<and> z_MaxY z < w_height g"
  by (auto simp: zfits_def validate_zone_def)

definition zone_claims :: "world \<Rightarrow> zone \<Rightarrow> int32 \<Rightarrow> int32 \<Rightarrow> bool" where
  "zone_claims g z x y \<longleftrightarrow> Contains_zone z x y \<and> Member g (z_Type z) x y"

definition zone_writes :: "world \<Rightarrow> zone \<Rightarrow> (int64 \<times> int \<times> int) list" where
  "zone_writes g z = map (\<lambda>(x, y). (u32 (z_ID z), x, y))
     (filter (\<lambda>(x, y). Member g (z_Type z) x y) (scan (z_MinX z) (z_MinY z) (z_MaxX z) (z_MaxY z)))"

definition urban_of :: "world \<Rightarrow> zone \<Rightarrow> urban_overlap list" where
  "urban_of g z =
     (case filter (\<lambda>(x, y). satisfiesTerrain g (z_Type z) x y \<and> IsBlocked g x y)
        (scan (z_MinX z) (z_MinY z) (z_MaxX z) (z_MaxY z)) of
        [] \<Rightarrow> []
      | (x, y) # r \<Rightarrow> [\<lparr>uo_ZoneID = z_ID z, uo_X = x, uo_Y = y, uo_Tiles = int (Suc (length r))\<rparr>])"

lemma zone_tile_apply:
  "zone_tile g z (x, y) (painted, urban) =
    (if \<not> satisfiesTerrain g (z_Type z) x y then (painted, urban)
     else if IsBlocked g x y then
       (painted, Some (case urban of
          None \<Rightarrow> \<lparr>uo_ZoneID = z_ID z, uo_X = x, uo_Y = y, uo_Tiles = 1\<rparr>
        | Some u \<Rightarrow> u\<lparr>uo_Tiles := uo_Tiles u + 1\<rparr>))
     else (paint_tile (w_width g) (u32 (z_ID z), x, y) painted, urban))"
  by (simp add: zone_tile_def)

lemma zone_tiles_painted:
  "fst (fold (zone_tile g z) ps st) =
    fold (paint_tile (w_width g)) (map (\<lambda>(x, y). (u32 (z_ID z), x, y)) (filter (\<lambda>(x, y). Member g (z_Type z) x y) ps)) (fst st)"
  by (induction ps arbitrary: st) (auto simp: zone_tile_def Member_def split: prod.splits)

lemma zone_tiles_urban:
  "snd (fold (zone_tile g z) ps (st, None)) =
    (case filter (\<lambda>(x, y). satisfiesTerrain g (z_Type z) x y \<and> IsBlocked g x y) ps of
       [] \<Rightarrow> None
     | (x, y) # r \<Rightarrow> Some \<lparr>uo_ZoneID = z_ID z, uo_X = x, uo_Y = y, uo_Tiles = int (Suc (length r))\<rparr>)"
proof (induction ps rule: rev_induct)
  case (snoc p ps)
  then show ?case
    by (cases p; cases "fold (zone_tile g z) ps (st, None)";
        cases "filter (\<lambda>(x, y). satisfiesTerrain g (z_Type z) x y \<and> IsBlocked g x y) ps")
       (auto simp: zone_tile_apply)
qed simp

definition built_zones :: "world \<Rightarrow> zone_build \<Rightarrow> bool" where
  "built_zones g st \<longleftrightarrow> (case st of (idx, conf, rejected, urban) \<Rightarrow>
     zi_width idx = w_width g \<and> zi_height idx = w_height g \<and>
     (zi_tiles idx, conf) = fold (paint_tile (w_width g)) (concat (map (zone_writes g) (zi_ordered idx)))
       (replicate (nat (w_width g * w_height g)) 0, []) \<and>
     zi_byID idx = map_of (map (\<lambda>z. (z_ID z, z)) (zi_ordered idx)) \<and>
     distinct (map z_ID (zi_ordered idx)) \<and> (\<forall>z \<in> set (zi_ordered idx). zfits g z) \<and>
     urban = concat (map (urban_of g) (zi_ordered idx)))"

lemma add_zone_ordered:
  "zi_ordered (fst (add_zone g z (idx, r))) =
    zi_ordered idx @ (if zfits g z \<and> zi_byID idx (z_ID z) = None then [z] else [])"
  by (cases r) (auto simp: add_zone_def zfits_def split: option.splits prod.splits)

lemma map_of_ids_snoc:
  assumes "z_ID z \<notin> z_ID ` set zs"
  shows "map_of (map (\<lambda>z. (z_ID z, z)) (zs @ [z])) = (map_of (map (\<lambda>z. (z_ID z, z)) zs))(z_ID z \<mapsto> z)"
proof -
  have n: "z_ID z \<notin> dom (map_of (map (\<lambda>z. (z_ID z, z)) zs))"
    using assms by (simp add: dom_map_of_conv_image_fst image_image)
  then show ?thesis by (simp add: map_add_upd_left[OF n, of Map.empty, simplified])
qed

lemma add_zone_built:
  assumes "built_zones g st"
  shows "built_zones g (add_zone g z st)"
proof -
  obtain idx conf rej urb where st: "st = (idx, conf, rej, urb)" by (cases st)
  show ?thesis
  proof (cases "validate_zone z (w_width g) (w_height g) = None \<and> zi_byID idx (z_ID z) = None")
    case False
    then have "\<exists>rej'. add_zone g z st = (idx, conf, rej', urb)"
      by (cases "validate_zone z (w_width g) (w_height g)") (auto simp: add_zone_def st)
    with assms show ?thesis by (auto simp: built_zones_def st)
  next
    case True
    let ?f = "fold (zone_tile g z) (scan (z_MinX z) (z_MinY z) (z_MaxX z) (z_MaxY z)) ((zi_tiles idx, conf), None)"
    obtain tiles conf' u where f: "?f = ((tiles, conf'), u)" by (metis prod.exhaust)
    have a: "add_zone g z st = (idx\<lparr>zi_byID := (zi_byID idx)(z_ID z \<mapsto> z), zi_ordered := zi_ordered idx @ [z], zi_tiles := tiles\<rparr>,
        conf', rej, urb @ (case u of None \<Rightarrow> [] | Some u' \<Rightarrow> [u']))"
      using True f by (simp add: add_zone_def st)
    have p: "(tiles, conf') = fold (paint_tile (w_width g)) (zone_writes g z) (zi_tiles idx, conf)"
      using zone_tiles_painted[of g z _ "((zi_tiles idx, conf), None)"] f by (simp add: zone_writes_def) (metis fst_conv)
    have u: "(case u of None \<Rightarrow> [] | Some u' \<Rightarrow> [u']) = urban_of g z"
      using zone_tiles_urban[of g z "scan (z_MinX z) (z_MinY z) (z_MaxX z) (z_MaxY z)" "(zi_tiles idx, conf)"] f
      by (cases "filter (\<lambda>(x, y). satisfiesTerrain g (z_Type z) x y \<and> IsBlocked g x y)
          (scan (z_MinX z) (z_MinY z) (z_MaxX z) (z_MaxY z))") (auto simp: urban_of_def)
    have b: "zi_byID idx = map_of (map (\<lambda>z. (z_ID z, z)) (zi_ordered idx))"
      "(zi_tiles idx, conf) = fold (paint_tile (w_width g)) (concat (map (zone_writes g) (zi_ordered idx)))
         (replicate (nat (w_width g * w_height g)) 0, [])"
      using assms by (simp_all add: built_zones_def st)
    have new: "z_ID z \<notin> z_ID ` set (zi_ordered idx)"
      using True unfolding b(1) by (auto simp: map_of_eq_None_iff image_image)
    have c: "concat (map (zone_writes g) (zi_ordered idx @ [z])) = concat (map (zone_writes g) (zi_ordered idx)) @ zone_writes g z"
      "concat (map (urban_of g) (zi_ordered idx @ [z])) = concat (map (urban_of g) (zi_ordered idx)) @ urban_of g z"
      "distinct (map z_ID (zi_ordered idx @ [z])) \<longleftrightarrow> distinct (map z_ID (zi_ordered idx))"
      using new by simp_all
    show ?thesis
      unfolding a built_zones_def
      using assms True p u b(2) map_of_ids_snoc[OF new]
      by (simp add: built_zones_def st zfits_def b(1)[symmetric] c del: fun_upd_apply map_append)
  qed
qed

lemma fold_built:
  "built_zones g st \<Longrightarrow> built_zones g (fold (add_zone g) zs st)"
  by (induction zs arbitrary: st) (simp_all add: add_zone_built)

lemma fold_ordered:
  assumes "built_zones g st"
  shows "\<exists>kept. zi_ordered (fst (fold (add_zone g) zs st)) = zi_ordered (fst st) @ kept \<and> set kept \<subseteq> set zs \<and>
    (sorted_wrt (\<lambda>a b. z_ID a \<le> z_ID b) zs \<longrightarrow> sorted_wrt (\<lambda>a b. z_ID a \<le> z_ID b) kept) \<and>
    (distinct (map z_ID zs) \<and> z_ID ` set zs \<inter> z_ID ` set (zi_ordered (fst st)) = {} \<longrightarrow> kept = filter (zfits g) zs)"
  using assms
proof (induction zs arbitrary: st)
  case (Cons z zs)
  let ?st = "add_zone g z st"
  obtain kept where k: "zi_ordered (fst (fold (add_zone g) zs ?st)) = zi_ordered (fst ?st) @ kept" "set kept \<subseteq> set zs"
    "sorted_wrt (\<lambda>a b. z_ID a \<le> z_ID b) zs \<longrightarrow> sorted_wrt (\<lambda>a b. z_ID a \<le> z_ID b) kept"
    "distinct (map z_ID zs) \<and> z_ID ` set zs \<inter> z_ID ` set (zi_ordered (fst ?st)) = {} \<longrightarrow> kept = filter (zfits g) zs"
    using Cons.IH[OF add_zone_built[OF Cons.prems]] by blast
  define new where "new = (if zfits g z \<and> zi_byID (fst st) (z_ID z) = None then [z] else [])"
  have o': "zi_ordered (fst ?st) = zi_ordered (fst st) @ new"
    using add_zone_ordered[of g z "fst st" "snd st"] by (simp add: new_def)
  have byn: "zi_byID (fst st) (z_ID z) = None \<longleftrightarrow> z_ID z \<notin> z_ID ` set (zi_ordered (fst st))"
    using Cons.prems by (cases st) (auto simp: built_zones_def map_of_eq_None_iff image_image)
  show ?case
  proof (intro exI[of _ "new @ kept"] conjI impI)
    show "zi_ordered (fst (fold (add_zone g) (z # zs) st)) = zi_ordered (fst st) @ new @ kept" using k(1) o' by simp
    show "set (new @ kept) \<subseteq> set (z # zs)" using k(2) by (auto simp: new_def)
    assume "sorted_wrt (\<lambda>a b. z_ID a \<le> z_ID b) (z # zs)"
    with k(2,3) show "sorted_wrt (\<lambda>a b. z_ID a \<le> z_ID b) (new @ kept)" by (auto simp: new_def)
  next
    assume d: "distinct (map z_ID (z # zs)) \<and> z_ID ` set (z # zs) \<inter> z_ID ` set (zi_ordered (fst st)) = {}"
    then have "new = filter (zfits g) [z]" unfolding new_def byn by auto
    moreover have "z_ID ` set zs \<inter> z_ID ` set (zi_ordered (fst ?st)) = {}"
      using d by (auto simp: o' new_def image_iff)
    ultimately show "new @ kept = filter (zfits g) (z # zs)" using k(4) d by simp
  qed
qed simp

lemma BuildIndex_Some:
  assumes "BuildIndex zones g = Some (idx, rep)"
  obtains conf where "0 < w_width g" "0 < w_height g" "built_zones g (idx, conf, rp_Rejected rep, rp_Urban rep)"
    "rp_Overlaps rep = ordenarSolapamientos conf"
    "set (zi_ordered idx) \<subseteq> set zones" "sorted_wrt (\<lambda>a b. z_ID a < z_ID b) (zi_ordered idx)"
    "distinct (map z_ID zones) \<Longrightarrow> zi_ordered idx = filter (zfits g) (sort_key z_ID zones)"
proof -
  define st0 :: zone_build where "st0 = (\<lparr>zi_width = w_width g, zi_height = w_height g,
    zi_tiles = replicate (nat (w_width g * w_height g)) 0, zi_byID = Map.empty, zi_ordered = []\<rparr>, [], [], [])"
  have dims: "0 < w_width g" "0 < w_height g" using assms by (simp_all add: BuildIndex_def not_le split: if_splits)
  obtain conf rej urb where f: "fold (add_zone g) (sort_key z_ID zones) st0 = (idx, conf, rej, urb)"
    "rep = \<lparr>rp_Overlaps = ordenarSolapamientos conf, rp_Rejected = rej, rp_Urban = urb\<rparr>"
    using assms dims by (auto simp: BuildIndex_def Let_def not_le simp flip: st0_def split: prod.splits)
  have b0: "built_zones g st0" by (simp add: st0_def built_zones_def)
  have b: "built_zones g (idx, conf, rej, urb)" using fold_built[OF b0, of "sort_key z_ID zones"] f(1) by simp
  have "sorted_wrt (\<lambda>a b. z_ID a \<le> z_ID b) (sort_key z_ID zones)" by (simp flip: sorted_wrt_map)
  with fold_ordered[OF b0, of "sort_key z_ID zones"] f(1)
  have o': "set (zi_ordered idx) \<subseteq> set zones" "sorted_wrt (\<lambda>a b. z_ID a \<le> z_ID b) (zi_ordered idx)"
    "distinct (map z_ID (sort_key z_ID zones)) \<longrightarrow> zi_ordered idx = filter (zfits g) (sort_key z_ID zones)"
    by (auto simp: st0_def)
  have "sorted_wrt (<) (map z_ID (zi_ordered idx))"
    unfolding strict_sorted_iff using o'(2) b by (simp add: sorted_wrt_map built_zones_def)
  then have "sorted_wrt (\<lambda>a b. z_ID a < z_ID b) (zi_ordered idx)" by (simp add: sorted_wrt_map)
  moreover have "distinct (map z_ID (sort_key z_ID zones)) = distinct (map z_ID zones)"
    by (metis mset_eq_imp_distinct_iff mset_map mset_sort)
  ultimately show ?thesis using that[of conf] dims b o' f(2) by simp
qed

lemma zone_writes_iff:
  assumes "zfits g z"
  shows "(i, x, y) \<in> set (zone_writes g z) \<longleftrightarrow> i = z_ID z \<and> zone_claims g z x y"
proof -
  have "u32 (z_ID z) = z_ID z" using assms by (simp add: zfits_iff MaxZoneID_def u32_id)
  then show ?thesis by (auto simp: zone_writes_def zone_claims_def Contains_zone_def)
qed

lemma zfits_claims_bounds:
  "zfits g z \<Longrightarrow> zone_claims g z x y \<Longrightarrow> 0 \<le> x \<and> x < w_width g \<and> 0 \<le> y \<and> y < w_height g"
  by (simp add: zfits_iff zone_claims_def Contains_zone_def)

lemma BuildIndex_tiles:
  assumes "BuildIndex zones g = Some (idx, rep)"
  shows "length (zi_tiles idx) = nat (w_width g * w_height g)"
    and "0 \<le> x \<Longrightarrow> x < w_width g \<Longrightarrow> 0 \<le> y \<Longrightarrow> y < w_height g \<Longrightarrow>
      zi_tiles idx ! row_idx (w_width g) x y = (case find (\<lambda>z. zone_claims g z x y) (zi_ordered idx) of None \<Rightarrow> 0 | Some z \<Rightarrow> z_ID z)"
proof -
  obtain conf where b: "built_zones g (idx, conf, rp_Rejected rep, rp_Urban rep)"
    by (rule BuildIndex_Some[OF assms]) blast
  let ?ws = "concat (map (zone_writes g) (zi_ordered idx))"
  have fit: "z \<in> set (zi_ordered idx) \<Longrightarrow> zfits g z" for z using b by (simp add: built_zones_def)
  have bnd: "\<forall>(i, x, y) \<in> set ?ws. i \<noteq> 0 \<and> row_idx (w_width g) x y < nat (w_width g * w_height g)"
  proof clarify
    fix i x y assume "(i, x, y) \<in> set ?ws"
    then obtain z where z: "z \<in> set (zi_ordered idx)" "(i, x, y) \<in> set (zone_writes g z)" by auto
    with fit have f: "zfits g z" by simp
    with z(2) have "i = z_ID z" "zone_claims g z x y" by (simp_all add: zone_writes_iff)
    with zfits_claims_bounds[OF f, of x y] row_idx_less[of x "w_width g" y "w_height g"] f
    show "i \<noteq> 0 \<and> row_idx (w_width g) x y < nat (w_width g * w_height g)" by (auto simp: zfits_iff)
  qed
  have "fold (paint_tile (w_width g)) ?ws (replicate (nat (w_width g * w_height g)) 0, []) = (zi_tiles idx, conf)"
    using b by (simp add: built_zones_def)
  note pw = paint_writes[OF bnd this]
  then show "length (zi_tiles idx) = nat (w_width g * w_height g)" by simp
  assume xy: "0 \<le> x" "x < w_width g" "0 \<le> y" "y < w_height g"
  have "tile_owner (w_width g) ?ws (row_idx (w_width g) x y) =
      (case find (\<lambda>z. zone_claims g z x y) (zi_ordered idx) of None \<Rightarrow> 0 | Some z \<Rightarrow> z_ID z)"
  proof (rule owner_concat)
    fix z assume "z \<in> set (zi_ordered idx)"
    then have f: "zfits g z" by (rule fit)
    then show "\<forall>(i, _) \<in> set (zone_writes g z). i = z_ID z" by (auto simp: zone_writes_iff)
    have "row_idx (w_width g) x' y' = row_idx (w_width g) x y \<longleftrightarrow> x' = x \<and> y' = y" if "zone_claims g z x' y'" for x' y'
      using zfits_claims_bounds[OF f that] row_idx_inj[of x' "w_width g" x y' y] xy by auto
    then show "(\<exists>(i, x', y') \<in> set (zone_writes g z). row_idx (w_width g) x' y' = row_idx (w_width g) x y) = zone_claims g z x y"
      by (auto simp: zone_writes_iff[OF f] intro!: bexI[of _ "(z_ID z, x, y)"])
  qed
  with pw xy row_idx_less[of x "w_width g" y "w_height g"]
  show "zi_tiles idx ! row_idx (w_width g) x y = (case find (\<lambda>z. zone_claims g z x y) (zi_ordered idx) of None \<Rightarrow> 0 | Some z \<Rightarrow> z_ID z)"
    by simp
qed

lemma BuildIndex_ZoneAt:
  assumes "BuildIndex zones g = Some (idx, rep)"
  shows "ZoneAt (Some idx) x y = find (\<lambda>z. zone_claims g z x y) (zi_ordered idx)"
    and "sorted_wrt (\<lambda>a b. z_ID a < z_ID b) (zi_ordered idx)" and "\<forall>z \<in> set (zi_ordered idx). zfits g z"
    and "distinct (map z_ID zones) \<Longrightarrow> zi_ordered idx = filter (zfits g) (sort_key z_ID zones)"
proof -
  obtain conf where b: "built_zones g (idx, conf, rp_Rejected rep, rp_Urban rep)"
    "sorted_wrt (\<lambda>a b. z_ID a < z_ID b) (zi_ordered idx)"
    "distinct (map z_ID zones) \<Longrightarrow> zi_ordered idx = filter (zfits g) (sort_key z_ID zones)"
    by (rule BuildIndex_Some[OF assms]) (rule that; blast)
  show "sorted_wrt (\<lambda>a b. z_ID a < z_ID b) (zi_ordered idx)" by (rule b(2))
  show "distinct (map z_ID zones) \<Longrightarrow> zi_ordered idx = filter (zfits g) (sort_key z_ID zones)" by (rule b(3))
  show fit: "\<forall>z \<in> set (zi_ordered idx). zfits g z" using b(1) by (simp add: built_zones_def)
  have idx: "zi_width idx = w_width g" "zi_height idx = w_height g"
    "zi_byID idx = map_of (map (\<lambda>z. (z_ID z, z)) (zi_ordered idx))" "distinct (map z_ID (zi_ordered idx))"
    using b(1) by (simp_all add: built_zones_def)
  show "ZoneAt (Some idx) x y = find (\<lambda>z. zone_claims g z x y) (zi_ordered idx)"
  proof (cases "0 \<le> x \<and> x < w_width g \<and> 0 \<le> y \<and> y < w_height g")
    case True
    have "z_ID z \<noteq> 0 \<and> zi_byID idx (z_ID z) = Some z" if "find (\<lambda>z. zone_claims g z x y) (zi_ordered idx) = Some z" for z
    proof -
      have z: "z \<in> set (zi_ordered idx)" using find_SomeD[OF that] by simp
      have "map_of (map (\<lambda>z. (z_ID z, z)) (zi_ordered idx)) (z_ID z) = Some z"
        using idx(4) z by (intro map_of_is_SomeI) (auto simp: comp_def)
      moreover have "z_ID z \<noteq> 0" using fit z by (auto simp: zfits_iff)
      ultimately show ?thesis by (simp add: idx(3))
    qed
    with True show ?thesis
      by (cases "find (\<lambda>z. zone_claims g z x y) (zi_ordered idx)")
         (simp_all add: ZoneAt_def idx(1,2) BuildIndex_tiles(2)[OF assms])
  next
    case False
    have "find (\<lambda>z. zone_claims g z x y) (zi_ordered idx) = None"
      using False fit zfits_claims_bounds unfolding find_None_iff by blast
    then show ?thesis using False by (auto simp: ZoneAt_def idx(1,2))
  qed
qed

interpretation safe: painted_index
  "\<lambda>(g, idx). \<exists>zones rep. BuildIndex zones g = Some (idx, rep)"
  "\<lambda>(g, idx). ZoneAt (Some idx)" "\<lambda>(g, idx). zi_ordered idx" "\<lambda>(g, idx). zone_claims g" z_ID
  by unfold_locales (auto dest: BuildIndex_ZoneAt)

lemma Member_IsWalkable: "Member g t x y \<Longrightarrow> IsWalkable g x y"
  by (cases t)
     (auto simp: Member_def satisfiesTerrain_def Let_def IsWalkable_def IsBlocked_def TerrainAt_def split: if_splits)

text \<open>
  C33: when the zones have different ids (a primary key), ZoneAt gives a zone exactly when it is the
  one of least id among the acceptable zones whose box holds the tile, whose terrain the tile has
  and where nothing is built; every tile of a zone can be walked on.
\<close>

theorem ZoneAt_least_id:
  assumes "BuildIndex zones g = Some (idx, rep)" "distinct (map z_ID zones)"
  shows "(ZoneAt (Some idx) x y = Some z \<longleftrightarrow>
      z \<in> set zones \<and> validate_zone z (w_width g) (w_height g) = None \<and> Contains_zone z x y \<and> Member g (z_Type z) x y \<and>
      (\<forall>u \<in> set zones. validate_zone u (w_width g) (w_height g) = None \<and> Contains_zone u x y \<and> Member g (z_Type u) x y \<longrightarrow>
        z_ID z \<le> z_ID u)) \<and>
    (ZoneAt (Some idx) x y \<noteq> None \<longrightarrow> IsWalkable g x y)"
proof -
  have o': "set (zi_ordered idx) = {z \<in> set zones. zfits g z}"
    using BuildIndex_ZoneAt(4)[OF assms] by simp
  have b: "case (g, idx) of (g, idx) \<Rightarrow> \<exists>zones rep. BuildIndex zones g = Some (idx, rep)"
    using assms(1) by auto
  have at: "ZoneAt (Some idx) x y = Some z \<longleftrightarrow> z \<in> set (zi_ordered idx) \<and> zone_claims g z x y \<and>
      (\<forall>u \<in> set (zi_ordered idx). zone_claims g u x y \<longrightarrow> z_ID z \<le> z_ID u)" for z
    using safe.at_least_id[OF b] by simp
  have "ZoneAt (Some idx) x y = Some u \<Longrightarrow> IsWalkable g x y" for u
    unfolding at zone_claims_def using Member_IsWalkable by blast
  then have "ZoneAt (Some idx) x y \<noteq> None \<longrightarrow> IsWalkable g x y" by blast
  then show ?thesis unfolding at o' zone_claims_def zfits_def by blast
qed

definition sample_woods :: world where
  "sample_woods = \<lparr>w_width = 2, w_height = 2, w_chunkSize = 1, w_seed = 0,
     w_terrain = [Forest, Forest, Grassland, Mountain], w_blocked = [False, True, False, False]\<rparr>"

definition zone_wood :: zone where
  "zone_wood = \<lparr>z_ID = 2, z_Name = ''W'', z_Type = DenseForest, z_MinX = 0, z_MinY = 0, z_MaxX = 1, z_MaxY = 1\<rparr>"

definition zone_cave :: zone where
  "zone_cave = \<lparr>z_ID = 5, z_Name = ''C'', z_Type = Cavern, z_MinX = 0, z_MinY = 0, z_MaxX = 1, z_MaxY = 1\<rparr>"

definition sample_zones :: "zone_index \<times> zone_report" where
  "sample_zones = (case BuildIndex [zone_cave, zone_wood] sample_woods of Some r \<Rightarrow> r)"

lemma sample_zones_Some:
  "BuildIndex [zone_cave, zone_wood] sample_woods = Some (fst sample_zones, snd sample_zones)"
proof -
  have "\<not> Option.is_none (BuildIndex [zone_cave, zone_wood] sample_woods)" by code_simp
  then show ?thesis by (cases "BuildIndex [zone_cave, zone_wood] sample_woods") (simp_all add: sample_zones_def)
qed

theorem ZoneAt_least_id_witness:
  "ZoneAt (Some (fst sample_zones)) 0 0 = Some zone_wood \<and> IsWalkable sample_woods 0 1"
proof -
  have d: "distinct (map z_ID [zone_cave, zone_wood])" by (simp add: zone_cave_def zone_wood_def)
  have "validate_zone zone_wood (w_width sample_woods) (w_height sample_woods) = None"
    "Contains_zone zone_wood 0 0" "Member sample_woods (z_Type zone_wood) 0 0" by code_simp+
  then have "ZoneAt (Some (fst sample_zones)) 0 0 = Some zone_wood"
    using ZoneAt_least_id[OF sample_zones_Some d, of 0 0 zone_wood] by (simp add: zone_wood_def zone_cave_def)
  moreover have "ZoneAt (Some (fst sample_zones)) 0 1 \<noteq> None" by code_simp
  ultimately show ?thesis using ZoneAt_least_id[OF sample_zones_Some d, of 0 1 zone_wood] by simp
qed

subsection \<open>Exclusion\<close>

definition id_at :: "zone_index \<Rightarrow> int32 \<times> int32 \<Rightarrow> int64" where
  "id_at i p = (if fst p < 0 \<or> snd p < 0 \<or> zi_width i \<le> fst p \<or> zi_height i \<le> snd p then 0
     else zi_tiles i ! row_idx (zi_width i) (fst p) (snd p))"

definition wf_zones :: "zone_index \<Rightarrow> bool" where
  "wf_zones i \<longleftrightarrow> length (zi_tiles i) = nat (zi_width i * zi_height i) \<and>
     (\<forall>v \<in> set (zi_tiles i). v = 0 \<or> (\<exists>z. zi_byID i v = Some z \<and> z_ID z = v))"

lemma ZoneAt_id_at: "ZoneAt (Some i) x y = (if id_at i (x, y) = 0 then None else zi_byID i (id_at i (x, y)))"
  by (simp add: ZoneAt_def id_at_def Let_def)

lemma lose_find:
  "find (\<lambda>u. uo_ZoneID u = k) (lose ident x y l) =
    (if k = ident then Some (case find (\<lambda>u. uo_ZoneID u = ident) l of
        None \<Rightarrow> \<lparr>uo_ZoneID = ident, uo_X = x, uo_Y = y, uo_Tiles = 1\<rparr> | Some u \<Rightarrow> u\<lparr>uo_Tiles := uo_Tiles u + 1\<rparr>)
     else find (\<lambda>u. uo_ZoneID u = k) l)"
  by (induction l) auto

lemma lose_ids: "set (map uo_ZoneID (lose ident x y l)) = insert ident (set (map uo_ZoneID l))"
  by (induction ident x y l rule: lose.induct) auto

lemma lose_distinct: "distinct (map uo_ZoneID l) \<Longrightarrow> distinct (map uo_ZoneID (lose ident x y l))"
proof (induction ident x y l rule: lose.induct)
  case (2 ident x y p ps)
  then show ?case using lose_ids[of ident x y ps] by auto
qed simp

lemma exclude_fold:
  assumes "length (zi_tiles i) = nat (zi_width i * zi_height i)" "distinct ps"
    and "fold exclude_tile ps (i, []) = (i', l)"
  shows "zi_width i' = zi_width i \<and> zi_height i' = zi_height i \<and> zi_byID i' = zi_byID i \<and>
    length (zi_tiles i') = length (zi_tiles i) \<and> set (zi_tiles i') \<subseteq> insert 0 (set (zi_tiles i)) \<and>
    (\<forall>p. id_at i' p = (if p \<in> set ps then 0 else id_at i p)) \<and> distinct (map uo_ZoneID l) \<and>
    (\<forall>k. find (\<lambda>u. uo_ZoneID u = k) l = (if k = 0 then None else case filter (\<lambda>p. id_at i p = k) ps of
       [] \<Rightarrow> None | (x, y) # r \<Rightarrow> Some \<lparr>uo_ZoneID = k, uo_X = x, uo_Y = y, uo_Tiles = int (Suc (length r))\<rparr>))"
  using assms(2,3)
proof (induction ps arbitrary: i' l rule: rev_induct)
  case (snoc p ps)
  obtain i1 l1 where f: "fold exclude_tile ps (i, []) = (i1, l1)" by fastforce
  obtain x y where p: "p = (x, y)" by (cases p)
  have IH: "zi_width i1 = zi_width i" "zi_height i1 = zi_height i" "zi_byID i1 = zi_byID i"
    "length (zi_tiles i1) = length (zi_tiles i)" "set (zi_tiles i1) \<subseteq> insert 0 (set (zi_tiles i))"
    "\<forall>p. id_at i1 p = (if p \<in> set ps then 0 else id_at i p)" "distinct (map uo_ZoneID l1)"
    "\<forall>k. find (\<lambda>u. uo_ZoneID u = k) l1 = (if k = 0 then None else case filter (\<lambda>p. id_at i p = k) ps of
       [] \<Rightarrow> None | (x, y) # r \<Rightarrow> Some \<lparr>uo_ZoneID = k, uo_X = x, uo_Y = y, uo_Tiles = int (Suc (length r))\<rparr>)"
    using snoc.IH[OF _ f] snoc.prems(1) by simp_all
  have step: "exclude_tile p (i1, l1) = (i', l)" using snoc.prems(2) f by simp
  have at: "id_at i1 p = id_at i p" using IH(6)[rule_format, of p] snoc.prems(1) by simp
  show ?case
  proof (cases "id_at i p = 0")
    case True
    then have "i' = i1" "l = l1"
      using step at by (auto simp: exclude_tile_def p id_at_def Let_def split: if_splits)
    moreover have "(if k = 0 then None else case filter (\<lambda>p. id_at i p = k) (ps @ [p]) of
        [] \<Rightarrow> None | (x, y) # r \<Rightarrow> Some \<lparr>uo_ZoneID = k, uo_X = x, uo_Y = y, uo_Tiles = int (Suc (length r))\<rparr>) =
      (if k = 0 then None else case filter (\<lambda>p. id_at i p = k) ps of
        [] \<Rightarrow> None | (x, y) # r \<Rightarrow> Some \<lparr>uo_ZoneID = k, uo_X = x, uo_Y = y, uo_Tiles = int (Suc (length r))\<rparr>)" for k
      using True by simp
    ultimately show ?thesis using IH True by simp
  next
    case False
    then have inw: "0 \<le> x" "x < zi_width i" "0 \<le> y" "y < zi_height i"
      by (auto simp: id_at_def p split: if_splits)
    let ?pos = "row_idx (zi_width i) x y"
    have pos: "?pos < length (zi_tiles i1)" using row_idx_less[OF inw] assms(1) IH(4) by simp
    have e: "i' = i1\<lparr>zi_tiles := (zi_tiles i1)[?pos := 0]\<rparr>" "l = lose (id_at i p) x y l1"
      using step False at[symmetric] inw IH(1,2) by (auto simp: exclude_tile_def p id_at_def Let_def)
    have "id_at i' q = (if q \<in> set (ps @ [p]) then 0 else id_at i q)" for q
    proof -
      have "id_at i' q = (if q = p then 0 else id_at i1 q)"
      proof (cases "fst q < 0 \<or> snd q < 0 \<or> zi_width i \<le> fst q \<or> zi_height i \<le> snd q")
        case True
        then show ?thesis by (simp add: id_at_def e(1) IH(1,2))
      next
        case False
        then have q: "row_idx (zi_width i) (fst q) (snd q) < length (zi_tiles i1)"
          using row_idx_less[of "fst q" "zi_width i" "snd q" "zi_height i"] assms(1) IH(4) by simp
        have "row_idx (zi_width i) (fst q) (snd q) = ?pos \<longleftrightarrow> q = p"
          using False inw row_idx_inj[of "fst q" "zi_width i" x "snd q" y] by (cases q) (auto simp: p)
        with False pos show ?thesis
          by (cases "q = p") (simp_all add: id_at_def e(1) IH(1,2) nth_list_update_if[OF q] p)
      qed
      then show ?thesis using IH(6)[rule_format, of q] by simp
    qed
    moreover have "set (zi_tiles i') \<subseteq> insert 0 (set (zi_tiles i))"
      using IH(5) set_update_subset_insert[of "zi_tiles i1" ?pos 0] by (auto simp: e(1))
    moreover have "find (\<lambda>u. uo_ZoneID u = k) l = (if k = 0 then None else case filter (\<lambda>p. id_at i p = k) (ps @ [p]) of
        [] \<Rightarrow> None | (x, y) # r \<Rightarrow> Some \<lparr>uo_ZoneID = k, uo_X = x, uo_Y = y, uo_Tiles = int (Suc (length r))\<rparr>)" for k
    proof (cases "k = id_at i p")
      case True
      with False show ?thesis unfolding e(2) lose_find
        by (cases "filter (\<lambda>q. id_at i q = k) ps") (auto simp: IH(8) p)
    next
      case ne: False
      then show ?thesis unfolding e(2) lose_find by (auto simp: IH(8))
    qed
    ultimately show ?thesis using IH(1-4) lose_distinct[OF IH(7)] e by simp
  qed
qed auto

lemma find_distinct_ids:
  "distinct (map uo_ZoneID l) \<Longrightarrow> u \<in> set l \<longleftrightarrow> find (\<lambda>v. uo_ZoneID v = uo_ZoneID u) l = Some u"
  by (induction l) (auto dest: find_SomeD)

lemma lost_shape:
  "(case f (uo_ZoneID u) of [] \<Rightarrow> False
      | (x, y) # r \<Rightarrow> u = \<lparr>uo_ZoneID = uo_ZoneID u, uo_X = x, uo_Y = y, uo_Tiles = int (Suc (length r))\<rparr>) \<longleftrightarrow>
    (\<exists>k x y r. f k = (x, y) # r \<and> u = \<lparr>uo_ZoneID = k, uo_X = x, uo_Y = y, uo_Tiles = int (Suc (length r))\<rparr>)"
  (is "?l \<longleftrightarrow> ?r")
proof
  assume l: ?l
  then obtain x y r where "f (uo_ZoneID u) = (x, y) # r" by (cases "f (uo_ZoneID u)") (simp, fastforce)
  with l show ?r by fastforce
next
  assume ?r
  then obtain k x y r where k: "f k = (x, y) # r"
    "u = \<lparr>uo_ZoneID = k, uo_X = x, uo_Y = y, uo_Tiles = int (Suc (length r))\<rparr>" by blast
  then have "uo_ZoneID u = k" by simp
  with k show ?l by simp
qed

text \<open>
  C34: excluding a rectangle takes exactly its tiles out of their zones and leaves every other
  tile as it was; the report names each zone that lost tiles once, in ascending order of id,
  with the first tile it lost in scan order and how many they were. The index stays well formed.
\<close>

theorem Exclude_exact:
  assumes "wf_zones i" "Exclude minX minY maxX maxY (Some i) = (Some i', lost)"
  defines "mine k \<equiv> filter (\<lambda>(x, y). \<exists>z. ZoneAt (Some i) x y = Some z \<and> z_ID z = k) (scan minX minY maxX maxY)"
  shows "wf_zones i' \<and>
    (\<forall>x y. ZoneAt (Some i') x y =
      (if minX \<le> x \<and> x \<le> maxX \<and> minY \<le> y \<and> y \<le> maxY then None else ZoneAt (Some i) x y)) \<and>
    (\<forall>u. u \<in> set lost \<longleftrightarrow> (\<exists>k x y r. mine k = (x, y) # r \<and>
      u = \<lparr>uo_ZoneID = k, uo_X = x, uo_Y = y, uo_Tiles = int (Suc (length r))\<rparr>)) \<and>
    sorted_wrt (\<lambda>a b. uo_ZoneID a < uo_ZoneID b) lost"
proof -
  obtain l where f: "fold exclude_tile (scan minX minY maxX maxY) (i, []) = (i', l)" "lost = sort_key uo_ZoneID l"
    using assms(2) by (auto simp: Exclude_def split: prod.splits)
  have len: "length (zi_tiles i) = nat (zi_width i * zi_height i)" using assms(1) by (simp add: wf_zones_def)
  note e = exclude_fold[OF len distinct_scan f(1)]
  have ids: "id_at i (x, y) = k \<longleftrightarrow> (\<exists>z. ZoneAt (Some i) x y = Some z \<and> z_ID z = k)" if "k \<noteq> 0" for x y k
  proof (cases "id_at i (x, y) = 0")
    case True
    with that show ?thesis by (simp add: ZoneAt_id_at)
  next
    case False
    then have "0 \<le> x" "x < zi_width i" "0 \<le> y" "y < zi_height i" by (auto simp: id_at_def split: if_splits)
    from row_idx_less[OF this] False len have "id_at i (x, y) \<in> set (zi_tiles i)" by (auto simp: id_at_def split: if_splits)
    with assms(1) False obtain z where "zi_byID i (id_at i (x, y)) = Some z" "z_ID z = id_at i (x, y)"
      by (auto simp: wf_zones_def)
    with False show ?thesis by (simp add: ZoneAt_id_at)
  qed
  have zero: "mine 0 = []"
  proof -
    have "z_ID z \<noteq> 0" if "ZoneAt (Some i) x y = Some z" for x y z
    proof
      assume "z_ID z = 0"
      have n: "id_at i (x, y) \<noteq> 0" using that by (simp add: ZoneAt_id_at split: if_splits)
      with ids[OF n, of x y] that \<open>z_ID z = 0\<close> show False by auto
    qed
    then show ?thesis by (auto simp: mine_def filter_empty_conv)
  qed
  have mine: "filter (\<lambda>p. id_at i p = k) (scan minX minY maxX maxY) = mine k" if "k \<noteq> 0" for k
    unfolding mine_def by (rule filter_cong) (use ids[OF that] in auto)
  have m: "u \<in> set l \<longleftrightarrow> (\<exists>k x y r. mine k = (x, y) # r \<and>
      u = \<lparr>uo_ZoneID = k, uo_X = x, uo_Y = y, uo_Tiles = int (Suc (length r))\<rparr>)" for u
  proof -
    have d: "distinct (map uo_ZoneID l)" using e by blast
    have "find (\<lambda>u. uo_ZoneID u = k) l = (case mine k of [] \<Rightarrow> None
      | (x, y) # r \<Rightarrow> Some \<lparr>uo_ZoneID = k, uo_X = x, uo_Y = y, uo_Tiles = int (Suc (length r))\<rparr>)" for k
      using e mine zero by (cases "k = 0") simp_all
    then show ?thesis unfolding find_distinct_ids[OF d] lost_shape[symmetric] by (auto split: list.splits)
  qed
  have "sorted_wrt (<) (map uo_ZoneID (sort_key uo_ZoneID l))"
    using e unfolding strict_sorted_iff by (metis mset_eq_imp_distinct_iff mset_map mset_sort sorted_sort_key)
  then have "sorted_wrt (\<lambda>a b. uo_ZoneID a < uo_ZoneID b) lost" by (simp add: sorted_wrt_map f(2))
  moreover have "wf_zones i'" using e assms(1) unfolding wf_zones_def by auto
  moreover have "ZoneAt (Some i') x y =
      (if minX \<le> x \<and> x \<le> maxX \<and> minY \<le> y \<and> y \<le> maxY then None else ZoneAt (Some i) x y)" for x y
    using e by (simp add: ZoneAt_id_at)
  ultimately show ?thesis using m by (simp add: f(2))
qed

theorem Exclude_exact_witness:
  "\<exists>i' lost. Exclude 0 0 0 0 (Some (fst sample_zones)) = (Some i', lost) \<and> ZoneAt (Some i') 0 0 = None \<and>
     ZoneAt (Some i') 0 1 = ZoneAt (Some (fst sample_zones)) 0 1"
proof -
  have b: "fst (Exclude 0 0 0 0 (Some i)) \<noteq> None" for i by (simp add: Exclude_def split: prod.splits)
  then obtain i' lost where e: "Exclude 0 0 0 0 (Some (fst sample_zones)) = (Some i', lost)"
    by (metis not_None_eq prod.collapse)
  have "list_all (\<lambda>v. v = 0 \<or> v = 2 \<or> v = 5) (zi_tiles (fst sample_zones))"
    "length (zi_tiles (fst sample_zones)) = nat (zi_width (fst sample_zones) * zi_height (fst sample_zones))"
    "map_option z_ID (zi_byID (fst sample_zones) 2) = Some 2" "map_option z_ID (zi_byID (fst sample_zones) 5) = Some 5"
    by code_simp+
  then have "wf_zones (fst sample_zones)" by (auto simp: wf_zones_def list_all_iff)
  from Exclude_exact[OF this e] e show ?thesis by auto
qed

subsection \<open>Hiding\<close>

text \<open>
  the tick hides exactly the living units, idle or already hidden, that do not move and stand
  in a zone; it touches no unit that is neither idle nor hidden, and evaluating twice changes
  nothing more.
\<close>

theorem NextStatus_hides:
  "(NextStatus status hp moving inZone = StatusHidden \<longleftrightarrow>
      (status = StatusIdle \<or> status = StatusHidden) \<and> 0 < hp \<and> \<not> moving \<and> inZone) \<and>
   (NextStatus status hp moving inZone = status \<or> status = StatusIdle \<or> status = StatusHidden) \<and>
   NextStatus (NextStatus status hp moving inZone) hp moving inZone = NextStatus status hp moving inZone"
  by (cases status) (auto simp: NextStatus_def)

end
