(* ===== verification/Player.thy ===== *)
theory Player
  imports City
begin

section \<open>Players and civilizations\<close>

text \<open>
  Models internal/domain/player/player.go: the player's row, the traits of a civilization, the
  two scalings that apply a trait to a duration and to an amount, and the rule of user names.
  A Go map is the list of its bindings in the order of an iteration. Names are the bytes of their
  UTF-8 text: the code walks runes, and a rune outside ASCII comes from bytes that the rule
  refuses too. Proved: the scalings round to the nearest value and never below 1, leave the value
  as it is for a neutral trait, and follow the order of the traits.
\<close>

record player =
  pl_ID :: uuid
  pl_Username :: string
  pl_CivilizationID :: int32
  pl_FactionID :: int32
  pl_CreatedAt :: instant
  pl_LastSeenAt :: "instant option"

record civilization =
  cv_ID :: int32
  cv_Code :: string
  cv_Name :: string
  cv_Traits :: "(string \<times> int32) list"

definition TraitMoveSpeed :: string where "TraitMoveSpeed = ''unit.move_speed''"
definition TraitProductionSpeed :: string where "TraitProductionSpeed = ''production.speed''"
definition TraitHouseHP :: string where "TraitHouseHP = ''building.house_hp''"
definition TraitLootCarry :: string where "TraitLootCarry = ''combat.loot_carry''"
definition TraitGatherSpeed :: string where "TraitGatherSpeed = ''economy.gather_speed''"

definition TraitNeutral :: int32 where "TraitNeutral = 1000"

definition TraitKeys :: "string list" where
  "TraitKeys = [TraitMoveSpeed, TraitProductionSpeed, TraitHouseHP, TraitLootCarry, TraitGatherSpeed]"

datatype player_error =
  ErrInvalidTrait | PErrNotFound | ErrUsernameTaken | ErrInvalidUsername | ErrAlreadyBootstrapped

definition Trait :: "civilization \<Rightarrow> string \<Rightarrow> int32" where
  "Trait c key = (case map_of (cv_Traits c) key of Some v \<Rightarrow> v | None \<Rightarrow> TraitNeutral)"

definition Validate_civilization :: "civilization \<Rightarrow> player_error option" where
  "Validate_civilization c =
     first_err (\<lambda>(k, v). if k \<notin> set TraitKeys then Some ErrInvalidTrait
                         else if v \<le> 0 then Some ErrInvalidTrait else None) (cv_Traits c)"

definition ScaleDuration :: "int64 \<Rightarrow> int32 \<Rightarrow> int64" where
  "ScaleDuration base perMille =
     (if perMille \<le> 0 \<or> base \<le> 0 then base
      else let r = perMille; out = go_div (i64 (i64 (base * TraitNeutral) + go_div r 2)) r
           in if out < 1 then 1 else out)"

definition ScaleAmount :: "int32 \<Rightarrow> int32 \<Rightarrow> int32" where
  "ScaleAmount base perMille =
     (if perMille \<le> 0 \<or> base \<le> 0 then base
      else let out = go_div (i64 (i64 (base * perMille) + go_div TraitNeutral 2)) TraitNeutral
           in if out < 1 then 1 else i32 out)"

definition InitialVillagers :: int where "InitialVillagers = 3"

definition valid_name_byte :: "char \<Rightarrow> bool" where
  "valid_name_byte r \<longleftrightarrow> (let n = of_char r :: nat in
     97 \<le> n \<and> n \<le> 122 \<or> 65 \<le> n \<and> n \<le> 90 \<or> 48 \<le> n \<and> n \<le> 57 \<or> r = CHR ''_'' \<or> r = CHR ''-'')"

definition ValidateUsername :: "string \<Rightarrow> player_error option" where
  "ValidateUsername name =
     (if length name < 3 \<or> 24 < length name then Some ErrInvalidUsername
      else first_err (\<lambda>r. if \<not> valid_name_byte r then Some ErrInvalidUsername else None) name)"

subsection \<open>Rounding\<close>

lemma nearest_div:
  fixes B r :: int
  assumes "0 < r"
  shows "2 * \<bar>(B + r div 2) div r * r - B\<bar> \<le> r"
proof -
  define X where "X = (B + r div 2) div r * r"
  define c where "c = r div 2"
  have h: "c * 2 \<le> r" "r \<le> c * 2 + 1" unfolding c_def by linarith+
  have q: "X \<le> B + c" "B + c < X + r"
    using div_mult_bounds[OF assms, of "B + r div 2"] by (simp_all add: distrib_right X_def c_def)
  have "2 * (X - B) \<le> r" using h(1) q(1) by arith
  moreover have "2 * (B - X) \<le> r" using h(2) q(2) by arith
  ultimately have "2 * \<bar>X - B\<bar> \<le> r" by (simp add: abs_if)
  then show ?thesis by (simp add: X_def)
qed

lemma nearest_antimono:
  fixes B r r' :: int
  assumes "0 < r" "r \<le> r'" "0 \<le> B"
  shows "(B + r' div 2) div r' \<le> (B + r div 2) div r"
proof -
  let ?q = "(B + r' div 2) div r'"
  have q: "?q * r' \<le> B + r' div 2" using div_mult_bounds(1)[of r'] assms(1,2) by simp
  have "0 \<le> ?q" using assms by (intro pos_imp_zdiv_nonneg_iff[THEN iffD2]) simp_all
  then have "?q = 0 \<or> 1 \<le> ?q" by linarith
  then have "?q * r \<le> B + r div 2"
  proof
    assume "?q = 0"
    then show ?thesis using assms by simp
  next
    assume "1 \<le> ?q"
    then have "1 * (r' - r) \<le> ?q * (r' - r)" using assms(2) by (intro mult_right_mono) simp_all
    then have "?q * r \<le> ?q * r' - (r' - r)" by (simp add: right_diff_distrib)
    moreover have "r' div 2 - (r' - r) \<le> r div 2" using assms(2) by linarith
    ultimately show ?thesis using q by linarith
  qed
  then show ?thesis using le_div_iff[OF assms(1)] by simp
qed

lemma ScaleDuration_eq:
  assumes "0 < base" "0 < p" "base * 1000 + p \<le> 9223372036854775807"
  shows "ScaleDuration base p = max 1 ((base * 1000 + p div 2) div p)"
proof -
  have "i64 (i64 (base * 1000) + p div 2) = base * 1000 + p div 2"
    using assms by (simp add: i64_id)
  then show ?thesis using assms by (simp add: ScaleDuration_def TraitNeutral_def Let_def go_div_nonneg max_def)
qed

text \<open>
  a duration scaled by a speed trait is never below 1, is otherwise the nearest integer to
  base * 1000 / trait, is the base itself for the neutral trait, and a faster trait never makes it
  longer.
\<close>

theorem ScaleDuration_nearest:
  assumes "0 < base" "0 < p" "p \<le> p'" "is_i32 p'" "base * 1000 + 2147483647 \<le> 9223372036854775807"
  shows "1 \<le> ScaleDuration base p \<and>
    (ScaleDuration base p = 1 \<or> 2 * \<bar>ScaleDuration base p * p - base * 1000\<bar> \<le> p) \<and>
    ScaleDuration base TraitNeutral = base \<and> ScaleDuration base p' \<le> ScaleDuration base p"
proof -
  have e: "ScaleDuration base p = max 1 ((base * 1000 + p div 2) div p)"
    "ScaleDuration base p' = max 1 ((base * 1000 + p' div 2) div p')"
    using assms by (simp_all add: ScaleDuration_eq is_i32_def)
  have "ScaleDuration base 1000 = base" using assms(1,5) by (simp add: ScaleDuration_eq)
  then show ?thesis
    using nearest_div[OF assms(2), of "base * 1000"] nearest_antimono[of p p' "base * 1000"] assms
    by (simp add: e TraitNeutral_def max_def)
qed

theorem ScaleDuration_nearest_witness:
  "2 * \<bar>ScaleDuration 600 1100 * 1100 - 600000\<bar> \<le> 1100 \<and> ScaleDuration 600 1100 = 545"
proof -
  have "ScaleDuration 600 1100 = 545" by (simp add: ScaleDuration_eq)
  with ScaleDuration_nearest[of 600 1100 1200] show ?thesis by (simp add: is_i32_def)
qed

text \<open>
  an amount scaled by a trait is the nearest integer to base * trait / 1000, or 1 when that is
  0, as long as the result fits; it is the base itself for the neutral trait and grows with the
  trait.
\<close>

theorem ScaleAmount_nearest:
  assumes "0 < base" "0 < p" "p \<le> p'" "is_i32 p'" "base * p' + 500 < 2147483648 * 1000"
  shows "1 \<le> ScaleAmount base p \<and>
    (ScaleAmount base p = 1 \<or> 2 * \<bar>ScaleAmount base p * 1000 - base * p\<bar> \<le> 1000) \<and>
    (base \<le> 2147483647 \<longrightarrow> ScaleAmount base TraitNeutral = base) \<and> ScaleAmount base p \<le> ScaleAmount base p'"
proof -
  have e: "ScaleAmount base q = max 1 ((base * q + 500) div 1000)" if "0 < q" "base * q + 500 < 2147483648000" for q
  proof -
    have bq: "0 \<le> base * q" using assms(1) that(1) by simp
    have "(base * q + 500) div 1000 \<le> 2147483647" using that(2) by linarith
    moreover have "0 \<le> (base * q + 500) div 1000" using bq by simp
    moreover have "i64 (base * q) = base * q" "i64 (base * q + 500) = base * q + 500"
      using bq that(2) by (intro i64_id; linarith)+
    moreover have "go_div (base * q + 500) 1000 = (base * q + 500) div 1000" using bq by (intro go_div_nonneg) linarith+
    ultimately show ?thesis using that assms(1)
      by (auto simp: ScaleAmount_def TraitNeutral_def Let_def go_div_nonneg i32_id max_def)
  qed
  have "base * p \<le> base * p'" using assms(1,3) by (intro mult_left_mono) simp_all
  then have e2: "ScaleAmount base p = max 1 ((base * p + 500) div 1000)"
    "ScaleAmount base p' = max 1 ((base * p' + 500) div 1000)"
    using e[OF assms(2)] e[of p'] assms by (linarith, simp_all)
  have "(base * p + 500) div 1000 \<le> (base * p' + 500) div 1000"
    using \<open>base * p \<le> base * p'\<close> by (intro zdiv_mono1) simp_all
  moreover have "ScaleAmount base 1000 = base" if "base \<le> 2147483647"
    using e[of 1000] assms(1) that by simp
  ultimately show ?thesis
    using nearest_div[of 1000 "base * p"] by (simp add: e2 TraitNeutral_def max_def)
qed

theorem ScaleAmount_nearest_witness:
  "2 * \<bar>ScaleAmount 20 1150 * 1000 - 23000\<bar> \<le> 1000 \<and> ScaleAmount 20 1150 = 23"
proof -
  have "ScaleAmount 20 1150 = 23" by (simp add: ScaleAmount_def TraitNeutral_def go_div_nonneg i64_id i32_id)
  with ScaleAmount_nearest[of 20 1150 1200] show ?thesis by (simp add: is_i32_def)
qed

end
