(* ===== verification/Eventlog.thy ===== *)
theory Eventlog
  imports City
begin

section \<open>The event log of a player\<close>

text \<open>
  Models internal/domain/eventlog/eventlog.go: what an event of the world tells to a player, the
  live notices, and the builder that groups rows into the entries of a page; and the paging loop
  of internal/persistence/postgres/eventlog.go (Page), whose query is the function chunk over the
  rows of the log in descending order of id (its WHERE, ORDER BY and LIMIT). A uuid.Nil is 0, a
  duration is in nanoseconds. Proved: nobody but the two players of an event is told of it, each
  from his side; a page counts every row it takes exactly once, is never over its size and tells
  where the next one starts; and the pages together deliver every row of the log once.
\<close>

datatype log_kind =
  KindUnitLost | KindEnemyKilled | KindPillaged | KindPillageDone | KindHouseLost | KindHouseDestroyed
| KindTreatyOffered | KindTreatyWithdrawn | KindTreatyAccepted | KindTreatyRejected
| KindTreatyOfferExpired | KindTreatyBreakAnnounced | KindTreatyEnded
| KindTradeOffered | KindTradeAccepted | KindTradeRejected | KindTradeWithdrawn | KindTradeOfferExpired
| KindTerritoryClaimed | KindTerritoryLost | KindTerritoryTaken

definition Kinds :: "log_kind list" where
  "Kinds = [KindUnitLost, KindEnemyKilled, KindPillaged, KindPillageDone, KindHouseLost, KindHouseDestroyed,
     KindTreatyOffered, KindTreatyWithdrawn, KindTreatyAccepted, KindTreatyRejected,
     KindTreatyOfferExpired, KindTreatyBreakAnnounced, KindTreatyEnded,
     KindTradeOffered, KindTradeAccepted, KindTradeRejected, KindTradeWithdrawn, KindTradeOfferExpired,
     KindTerritoryClaimed, KindTerritoryLost, KindTerritoryTaken]"

definition NoticeKinds :: "log_kind list" where
  "NoticeKinds = [KindUnitLost, KindEnemyKilled, KindPillageDone, KindHouseDestroyed,
     KindTerritoryClaimed, KindTerritoryLost, KindTerritoryTaken]"

datatype event_type =
  EventUnitKilled | EventCityPillaged | EventBuildingDestroyed
| EventTreatyProposed | EventTreatyWithdrawn | EventTreatyAccepted | EventTreatyRejected
| EventTreatyExpired | EventTreatyBreakAnnounced | EventTreatyBroken
| EventTradeProposed | EventTradeAccepted | EventTradeRejected | EventTradeWithdrawn | EventTradeExpired
| EventTerritoryClaimStarted | EventTerritoryControlChanged | EventOther string

definition EventTypes :: "event_type list" where
  "EventTypes = [EventUnitKilled, EventCityPillaged, EventBuildingDestroyed,
     EventTreatyProposed, EventTreatyWithdrawn, EventTreatyAccepted, EventTreatyRejected,
     EventTreatyExpired, EventTreatyBreakAnnounced, EventTreatyBroken,
     EventTradeProposed, EventTradeAccepted, EventTradeRejected, EventTradeWithdrawn, EventTradeExpired,
     EventTerritoryClaimStarted, EventTerritoryControlChanged]"

type_synonym log_line = "string \<times> int64"

record event =
  ev_ID :: int64
  ev_Type :: event_type
  ev_PlayerID :: uuid
  ev_Counterpart :: uuid
  ev_AtMs :: int64
  ev_UnitType :: string
  ev_Amount :: int64
  ev_X :: int32
  ev_Y :: int32
  ev_HasTile :: bool
  ev_TreatyType :: string
  ev_From :: string
  ev_By :: uuid
  ev_BreaksAtMs :: int64
  ev_OfferID :: int64
  ev_Give :: "log_line list"
  ev_Want :: "log_line list"
  ev_TerritoryID :: int64
  ev_TerritoryName :: string

record entry =
  en_ID :: int64
  en_Kind :: log_kind
  en_FirstAtMs :: int64
  en_LastAtMs :: int64
  en_Count :: int
  en_Other :: uuid
  en_UnitType :: string
  en_Amount :: int64
  en_TreatyType :: string
  en_ProposedByMe :: bool
  en_X :: int32
  en_Y :: int32
  en_HasTile :: bool
  en_BreaksAtMs :: int64
  en_TradeGive :: "log_line list"
  en_TradeGet :: "log_line list"
  en_TerritoryID :: int64
  en_TerritoryName :: string

subsection \<open>Classification\<close>

definition tradeKind :: "event_type \<Rightarrow> log_kind option" where
  "tradeKind t =
     (case t of
        EventTradeProposed \<Rightarrow> Some KindTradeOffered
      | EventTradeAccepted \<Rightarrow> Some KindTradeAccepted
      | EventTradeRejected \<Rightarrow> Some KindTradeRejected
      | EventTradeWithdrawn \<Rightarrow> Some KindTradeWithdrawn
      | EventTradeExpired \<Rightarrow> Some KindTradeOfferExpired
      | _ \<Rightarrow> None)"

definition isTrade :: "log_kind \<Rightarrow> bool" where
  "isTrade k \<longleftrightarrow> k \<in> {KindTradeOffered, KindTradeAccepted, KindTradeRejected, KindTradeWithdrawn, KindTradeOfferExpired}"

definition isTerritory :: "log_kind \<Rightarrow> bool" where
  "isTerritory k \<longleftrightarrow> k \<in> {KindTerritoryClaimed, KindTerritoryLost, KindTerritoryTaken}"

definition isTreaty :: "log_kind \<Rightarrow> bool" where
  "isTreaty k =
     (if k \<in> {KindUnitLost, KindEnemyKilled, KindPillaged, KindPillageDone, KindHouseLost, KindHouseDestroyed} then False
      else \<not> isTrade k \<and> \<not> isTerritory k)"

definition classify_trade :: "uuid \<Rightarrow> event \<Rightarrow> uuid \<Rightarrow> log_kind \<Rightarrow> (log_kind \<times> uuid) option" where
  "classify_trade viewer e other kind =
     (if kind = KindTradeOfferExpired then Some (kind, other)
      else let actor = (if ev_By e = 0 then
                 (if ev_Type e = EventTradeProposed \<or> ev_Type e = EventTradeWithdrawn
                  then ev_PlayerID e else ev_Counterpart e)
               else ev_By e)
      in if actor = viewer then None else Some (kind, other))"

definition classify_treaty :: "uuid \<Rightarrow> event \<Rightarrow> uuid \<Rightarrow> (log_kind \<times> uuid) option" where
  "classify_treaty viewer e other =
     (let actor = (if ev_By e = 0 then
             (case ev_Type e of
                EventTreatyProposed \<Rightarrow> ev_PlayerID e | EventTreatyWithdrawn \<Rightarrow> ev_PlayerID e
              | EventTreatyAccepted \<Rightarrow> ev_Counterpart e | EventTreatyRejected \<Rightarrow> ev_Counterpart e
              | _ \<Rightarrow> ev_By e)
           else ev_By e);
          told = (\<lambda>kind. if actor = viewer then None else Some (kind, other))
      in case ev_Type e of
           EventTreatyProposed \<Rightarrow> told KindTreatyOffered
         | EventTreatyWithdrawn \<Rightarrow> told KindTreatyWithdrawn
         | EventTreatyAccepted \<Rightarrow> told KindTreatyAccepted
         | EventTreatyRejected \<Rightarrow> told KindTreatyRejected
         | EventTreatyBreakAnnounced \<Rightarrow> if actor = 0 then None else told KindTreatyBreakAnnounced
         | EventTreatyExpired \<Rightarrow>
             if ev_From e = ''PROPOSED'' then Some (KindTreatyOfferExpired, other)
             else if ev_From e = ''ACTIVE'' then Some (KindTreatyEnded, other)
             else None
         | EventTreatyBroken \<Rightarrow> Some (KindTreatyEnded, other)
         | _ \<Rightarrow> None)"

definition Classify :: "uuid \<Rightarrow> event \<Rightarrow> (log_kind \<times> uuid) option" where
  "Classify viewer e =
     (if viewer = 0 \<or> ev_PlayerID e \<noteq> viewer \<and> ev_Counterpart e \<noteq> viewer then None
      else let other = (if ev_Counterpart e = viewer then ev_PlayerID e else ev_Counterpart e)
      in if other = 0 \<or> other = viewer then None
      else case ev_Type e of
          EventUnitKilled \<Rightarrow> Some (if ev_PlayerID e = viewer then KindUnitLost else KindEnemyKilled, other)
        | EventCityPillaged \<Rightarrow> Some (if ev_PlayerID e = viewer then KindPillaged else KindPillageDone, other)
        | EventBuildingDestroyed \<Rightarrow> Some (if ev_PlayerID e = viewer then KindHouseLost else KindHouseDestroyed, other)
        | EventTerritoryClaimStarted \<Rightarrow> if ev_PlayerID e = viewer then Some (KindTerritoryClaimed, other) else None
        | EventTerritoryControlChanged \<Rightarrow> Some (if ev_PlayerID e = viewer then KindTerritoryLost else KindTerritoryTaken, other)
        | _ \<Rightarrow> (case tradeKind (ev_Type e) of
                 Some kind \<Rightarrow> classify_trade viewer e other kind
               | None \<Rightarrow> classify_treaty viewer e other))"

record notice =
  nt_To :: uuid
  nt_Kind :: log_kind
  nt_Other :: uuid

definition isNotice :: "log_kind \<Rightarrow> bool" where
  "isNotice k = list_ex (\<lambda>n. n = k) NoticeKinds"

definition Notices :: "event \<Rightarrow> notice list" where
  "Notices e = concat (map (\<lambda>viewer.
     case Classify viewer e of
       None \<Rightarrow> []
     | Some (kind, other) \<Rightarrow>
         if \<not> isNotice kind then [] else [\<lparr>nt_To = viewer, nt_Kind = kind, nt_Other = other\<rparr>])
     [ev_PlayerID e, ev_Counterpart e])"

subsection \<open>The builder of a page\<close>

record group_key =
  gk_kind :: log_kind
  gk_other :: uuid
  gk_unitType :: string
  gk_treatyType :: string
  gk_offerID :: int64
  gk_mine :: bool
  gk_unseen :: bool

record log_builder =
  lb_viewer :: uuid
  lb_cursor :: int64
  lb_gapMs :: int64
  lb_pageSize :: int
  lb_entries :: "entry list"
  lb_open :: "group_key \<rightharpoonup> nat"
  lb_minID :: int64

definition NewBuilder :: "uuid \<Rightarrow> int64 \<Rightarrow> duration \<Rightarrow> int \<Rightarrow> log_builder" where
  "NewBuilder viewer cursor gap pageSize =
     \<lparr>lb_viewer = viewer, lb_cursor = cursor, lb_gapMs = go_div gap 1000000,
      lb_pageSize = (if pageSize < 1 then 1 else pageSize), lb_entries = [], lb_open = Map.empty, lb_minID = 0\<rparr>"

definition take_row :: "int64 \<Rightarrow> log_builder \<Rightarrow> log_builder" where
  "take_row ident b = (if lb_minID b = 0 \<or> ident < lb_minID b then b\<lparr>lb_minID := ident\<rparr> else b)"

definition group_of :: "log_builder \<Rightarrow> event \<Rightarrow> log_kind \<Rightarrow> uuid \<Rightarrow> bool \<Rightarrow> group_key" where
  "group_of b e kind other mine =
     \<lparr>gk_kind = kind, gk_other = other, gk_unitType = ev_UnitType e,
      gk_treatyType = (if isTreaty kind then ev_TreatyType e else ''''),
      gk_offerID = (if isTrade kind \<or> isTerritory kind then ev_ID e else 0),
      gk_mine = mine, gk_unseen = (lb_cursor b < ev_ID e)\<rparr>"

definition new_entry :: "log_builder \<Rightarrow> event \<Rightarrow> log_kind \<Rightarrow> uuid \<Rightarrow> bool \<Rightarrow> entry" where
  "new_entry b e kind other mine =
     (let en = \<lparr>en_ID = ev_ID e, en_Kind = kind, en_FirstAtMs = ev_AtMs e, en_LastAtMs = ev_AtMs e, en_Count = 1,
                en_Other = other, en_UnitType = '''', en_Amount = 0, en_TreatyType = '''', en_ProposedByMe = mine,
                en_X = 0, en_Y = 0, en_HasTile = False, en_BreaksAtMs = 0, en_TradeGive = [], en_TradeGet = [],
                en_TerritoryID = 0, en_TerritoryName = ''''\<rparr>;
          tile = en\<lparr>en_X := ev_X e, en_Y := ev_Y e, en_HasTile := ev_HasTile e\<rparr>
      in if kind \<in> {KindUnitLost, KindEnemyKilled} then tile\<lparr>en_UnitType := ev_UnitType e\<rparr>
         else if kind \<in> {KindPillaged, KindPillageDone} then tile\<lparr>en_Amount := ev_Amount e\<rparr>
         else if kind \<in> {KindHouseLost, KindHouseDestroyed} then tile
         else if kind = KindTreatyBreakAnnounced
         then en\<lparr>en_TreatyType := ev_TreatyType e, en_BreaksAtMs := ev_BreaksAtMs e\<rparr>
         else if isTerritory kind
         then tile\<lparr>en_TerritoryID := ev_TerritoryID e, en_TerritoryName := ev_TerritoryName e\<rparr>
         else if isTrade kind then
           (if ev_PlayerID e = lb_viewer b then en\<lparr>en_TradeGive := ev_Give e, en_TradeGet := ev_Want e\<rparr>
            else en\<lparr>en_TradeGive := ev_Want e, en_TradeGet := ev_Give e\<rparr>)
         else en\<lparr>en_TreatyType := ev_TreatyType e\<rparr>)"

definition Add_row :: "event \<Rightarrow> log_builder \<Rightarrow> bool \<times> log_builder" where
  "Add_row e b =
     (case Classify (lb_viewer b) e of
        None \<Rightarrow> (True, take_row (ev_ID e) b)
      | Some (kind, other) \<Rightarrow>
          let mine = ((kind = KindTreatyOfferExpired \<or> kind = KindTradeOfferExpired) \<and> ev_PlayerID e = lb_viewer b);
              k = group_of b e kind other mine;
              fresh = (if int (length (lb_entries b)) = lb_pageSize b then (False, b)
                else (True, take_row (ev_ID e) (b\<lparr>lb_entries := lb_entries b @ [new_entry b e kind other mine],
                        lb_open := (lb_open b)(k \<mapsto> length (lb_entries b))\<rparr>)))
          in case lb_open b k of
               None \<Rightarrow> fresh
             | Some i \<Rightarrow>
                 let g = lb_entries b ! i
                 in if i64 (en_FirstAtMs g - lb_gapMs b) \<le> ev_AtMs e
                    then (True, take_row (ev_ID e) (b\<lparr>lb_entries := (lb_entries b)[i :=
                            g\<lparr>en_Count := en_Count g + 1, en_Amount := i64 (en_Amount g + ev_Amount e),
                              en_FirstAtMs := min (en_FirstAtMs g) (ev_AtMs e),
                              en_LastAtMs := max (en_LastAtMs g) (ev_AtMs e)\<rparr>]\<rparr>))
                    else fresh)"

definition Entries_log :: "log_builder \<Rightarrow> entry list" where "Entries_log b = lb_entries b"
definition MinID :: "log_builder \<Rightarrow> int64" where "MinID b = lb_minID b"

subsection \<open>The paging loop (persistence/postgres/eventlog.go)\<close>

definition eventLogChunk :: nat where "eventLogChunk = 500"
definition eventLogMaxRows :: int where "eventLogMaxRows = 5000"

definition chunk :: "event list \<Rightarrow> int64 \<Rightarrow> event list" where
  "chunk log before = take eventLogChunk (filter (\<lambda>e. ev_ID e < before) log)"

fun add_rows :: "event list \<Rightarrow> log_builder \<Rightarrow> int64 \<Rightarrow> int \<Rightarrow> bool \<times> log_builder \<times> int64 \<times> int" where
  "add_rows [] b before rd = (False, b, before, rd)"
| "add_rows (e # es) b before rd =
     (case Add_row e b of
        (False, b') \<Rightarrow> (True, b', before, rd + 1)
      | (True, b') \<Rightarrow> add_rows es b' (ev_ID e) (rd + 1))"

lemma add_rows_rd_le: "add_rows es b before rd = (full, b', before', rd') \<Longrightarrow> rd \<le> rd'"
proof (induction es arbitrary: b before rd)
  case (Cons e es)
  show ?case
  proof (cases "Add_row e b")
    case (Pair ok b1)
    then show ?thesis using Cons.prems Cons.IH[of b1 "ev_ID e" "rd + 1"] by (cases ok) simp_all
  qed
qed simp

lemma add_rows_rd:
  assumes "(full, b', before', rd') = add_rows es b before rd" "es \<noteq> []"
  shows "rd < rd'"
proof -
  obtain e es' where es: "es = e # es'" using assms(2) by (cases es) auto
  show ?thesis
  proof (cases "Add_row e b")
    case (Pair ok b1)
    then show ?thesis using assms(1) add_rows_rd_le[of es' b1 "ev_ID e" "rd + 1" full b' before' rd']
      by (cases ok) (simp_all add: es)
  qed
qed

function page_loop :: "event list \<Rightarrow> log_builder \<Rightarrow> int64 \<Rightarrow> int \<Rightarrow> bool \<times> bool \<times> log_builder" where
  "page_loop log b before rd =
     (if \<not> rd < eventLogMaxRows then (False, False, b)
      else let rows = chunk log before
           in case add_rows rows b before rd of
                (full, b', before', rd') \<Rightarrow>
                  let exhausted = length rows < eventLogChunk
                  in if full \<or> exhausted then (full, exhausted, b') else page_loop log b' before' rd')"
  by pat_completeness auto
termination
  by (relation "measure (\<lambda>(log, b, before, rd). nat (eventLogMaxRows - rd))")
     (auto simp: eventLogChunk_def dest!: add_rows_rd)

declare page_loop.simps [simp del]

definition Page :: "uuid \<Rightarrow> int64 \<Rightarrow> duration \<Rightarrow> int \<Rightarrow> event list \<Rightarrow> int64 \<Rightarrow> entry list \<times> int64 option" where
  "Page viewer seen gap pageSize log beforeID =
     (let before = (if beforeID \<le> 0 then 9223372036854775807 else beforeID)
      in case page_loop log (NewBuilder viewer seen gap pageSize) before 0 of
           (full, exhausted, b) \<Rightarrow>
             (Entries_log b, if (\<not> exhausted \<or> full) \<and> 0 < MinID b then Some (MinID b) else None))"

subsection \<open>Who is told what\<close>

lemma Classify_sides:
  assumes "Classify viewer e = Some (kind, other)"
  shows "viewer \<noteq> 0 \<and> other \<noteq> 0 \<and> viewer \<noteq> other \<and> {viewer, other} = {ev_PlayerID e, ev_Counterpart e}"
proof -
  have p: "viewer \<noteq> 0" "ev_PlayerID e = viewer \<or> ev_Counterpart e = viewer"
    "(if ev_Counterpart e = viewer then ev_PlayerID e else ev_Counterpart e) \<noteq> 0"
    "(if ev_Counterpart e = viewer then ev_PlayerID e else ev_Counterpart e) \<noteq> viewer"
    using assms by (auto simp: Classify_def Let_def split: if_splits)
  have "other = (if ev_Counterpart e = viewer then ev_PlayerID e else ev_Counterpart e)"
    using assms p
    by (cases "ev_Type e")
       (simp_all add: Classify_def Let_def tradeKind_def classify_trade_def classify_treaty_def split: if_splits)
  with p show ?thesis by auto
qed

lemma Classify_own_orders:
  assumes "Classify viewer e = Some (kind, other)" "ev_By e = viewer"
  shows "kind \<notin> {KindTreatyOffered, KindTreatyWithdrawn, KindTreatyAccepted, KindTreatyRejected, KindTreatyBreakAnnounced,
     KindTradeOffered, KindTradeAccepted, KindTradeRejected, KindTradeWithdrawn}"
  using assms Classify_sides[OF assms(1)]
  by (cases "ev_Type e")
     (auto simp: Classify_def Let_def tradeKind_def classify_trade_def classify_treaty_def split: if_splits)

text \<open>
  an event is notified exactly to those of its two players whose log would tell them of it,
  with the kind the log gives and the other player as the other, and to each at most once. The log
  tells an event to nobody but its two players, who are different, and tells nobody of an order of
  diplomacy or trade that he gave himself.
\<close>

theorem Notices_exact:
  "set (Notices e) = {n. Classify (nt_To n) e = Some (nt_Kind n, nt_Other n) \<and> nt_Kind n \<in> set NoticeKinds}
   \<and> distinct (map nt_To (Notices e))
   \<and> (\<forall>viewer kind other. Classify viewer e = Some (kind, other) \<longrightarrow>
        viewer \<noteq> other \<and> {viewer, other} = {ev_PlayerID e, ev_Counterpart e} \<and>
        (ev_By e = viewer \<longrightarrow> kind \<notin> {KindTreatyOffered, KindTreatyWithdrawn, KindTreatyAccepted, KindTreatyRejected,
           KindTreatyBreakAnnounced, KindTradeOffered, KindTradeAccepted, KindTradeRejected, KindTradeWithdrawn}))"
proof (intro conjI allI impI)
  have n: "isNotice k \<longleftrightarrow> k \<in> set NoticeKinds" for k by (auto simp: isNotice_def list_ex_iff)
  have one: "set (case Classify v e of None \<Rightarrow> [] | Some (kind, other) \<Rightarrow>
        if \<not> isNotice kind then [] else [\<lparr>nt_To = v, nt_Kind = kind, nt_Other = other\<rparr>]) =
      {n. nt_To n = v \<and> Classify v e = Some (nt_Kind n, nt_Other n) \<and> nt_Kind n \<in> set NoticeKinds}" for v
  proof (rule set_eqI)
    fix x :: notice
    obtain t k o' where "x = \<lparr>nt_To = t, nt_Kind = k, nt_Other = o'\<rparr>" by (cases x)
    then show "x \<in> set (case Classify v e of None \<Rightarrow> [] | Some (kind, other) \<Rightarrow>
        if \<not> isNotice kind then [] else [\<lparr>nt_To = v, nt_Kind = kind, nt_Other = other\<rparr>]) \<longleftrightarrow>
      x \<in> {n. nt_To n = v \<and> Classify v e = Some (nt_Kind n, nt_Other n) \<and> nt_Kind n \<in> set NoticeKinds}"
      by (cases "Classify v e") (auto simp: n)
  qed
  have "set (Notices e) = (\<Union>v \<in> {ev_PlayerID e, ev_Counterpart e}.
      {n. nt_To n = v \<and> Classify v e = Some (nt_Kind n, nt_Other n) \<and> nt_Kind n \<in> set NoticeKinds})"
    by (simp add: Notices_def one)
  then show "set (Notices e) = {n. Classify (nt_To n) e = Some (nt_Kind n, nt_Other n) \<and> nt_Kind n \<in> set NoticeKinds}"
    using Classify_sides by fastforce
  show "distinct (map nt_To (Notices e))"
  proof (cases "ev_PlayerID e = ev_Counterpart e")
    case True
    then have "Classify v e = None" for v by (auto simp: Classify_def)
    then show ?thesis by (simp add: Notices_def)
  next
    case False
    then show ?thesis by (auto simp: Notices_def split: option.splits)
  qed
qed (use Classify_sides Classify_own_orders in blast)+

definition sample_event :: event where
  "sample_event = \<lparr>ev_ID = 9, ev_Type = EventUnitKilled, ev_PlayerID = 1, ev_Counterpart = 2, ev_AtMs = 100,
     ev_UnitType = ''VILLAGER'', ev_Amount = 0, ev_X = 3, ev_Y = 4, ev_HasTile = True, ev_TreatyType = '''',
     ev_From = '''', ev_By = 0, ev_BreaksAtMs = 0, ev_OfferID = 0, ev_Give = [], ev_Want = [],
     ev_TerritoryID = 0, ev_TerritoryName = ''''\<rparr>"

theorem Notices_exact_witness:
  "\<lparr>nt_To = 1, nt_Kind = KindUnitLost, nt_Other = 2\<rparr> \<in> set (Notices sample_event)"
  unfolding conjunct1[OF Notices_exact] by (simp add: Classify_def sample_event_def NoticeKinds_def)

subsection \<open>What a page holds\<close>

definition told :: "uuid \<Rightarrow> event list \<Rightarrow> int" where
  "told viewer es = int (length (filter (\<lambda>e. Classify viewer e \<noteq> None) es))"

definition page_inv :: "uuid \<Rightarrow> int \<Rightarrow> log_builder \<Rightarrow> event list \<Rightarrow> bool" where
  "page_inv viewer ps b taken \<longleftrightarrow> lb_viewer b = viewer \<and> lb_pageSize b = ps \<and>
     int (length (lb_entries b)) \<le> ps \<and> length (lb_entries b) \<le> length taken \<and>
     (\<forall>k i. lb_open b k = Some i \<longrightarrow> i < length (lb_entries b)) \<and>
     (\<Sum>en \<leftarrow> lb_entries b. en_Count en) = told viewer taken \<and>
     lb_minID b = (if taken = [] then 0 else ev_ID (last taken))"

lemma sum_counts_update:
  "i < length ens \<Longrightarrow> (\<Sum>en \<leftarrow> ens[i := g]. en_Count en) = (\<Sum>en \<leftarrow> ens. en_Count en) - en_Count (ens ! i) + en_Count g"
  by (induction ens arbitrary: i) (auto split: nat.split simp: nth_Cons)

lemma new_entry_Count [simp]: "en_Count (new_entry b e kind other mine) = 1"
  by (simp add: new_entry_def Let_def)

lemma take_row_sel [simp]:
  "lb_viewer (take_row i b) = lb_viewer b" "lb_pageSize (take_row i b) = lb_pageSize b"
  "lb_entries (take_row i b) = lb_entries b" "lb_open (take_row i b) = lb_open b"
  "lb_minID (take_row i b) = (if lb_minID b = 0 \<or> i < lb_minID b then i else lb_minID b)"
  by (simp_all add: take_row_def)

lemma Add_row_inv:
  assumes "page_inv viewer ps b taken" "Add_row e b = (ok, b')" "0 < ev_ID e" "taken \<noteq> [] \<Longrightarrow> ev_ID e < ev_ID (last taken)"
  shows "if ok then page_inv viewer ps b' (taken @ [e]) else b' = b \<and> int (length (lb_entries b)) = ps"
proof -
  have v: "lb_viewer b = viewer" "lb_pageSize b = ps" using assms(1) by (simp_all add: page_inv_def)
  have m: "(if lb_minID b = 0 \<or> ev_ID e < lb_minID b then ev_ID e else lb_minID b) = ev_ID e"
    using assms(1,3,4) by (auto simp: page_inv_def split: if_splits)
  show ?thesis
  proof (cases "Classify viewer e")
    case None
    then have "ok" "b' = take_row (ev_ID e) b" using assms(2) by (simp_all add: Add_row_def v)
    with None assms(1) m show ?thesis by (auto simp: page_inv_def told_def)
  next
    case (Some ko)
    obtain kind other where ko: "ko = (kind, other)" by (cases ko)
    define mine where "mine = ((kind = KindTreatyOfferExpired \<or> kind = KindTradeOfferExpired) \<and> ev_PlayerID e = viewer)"
    define k where "k = group_of b e kind other mine"
    define fresh where "fresh = (if int (length (lb_entries b)) = ps then (False, b)
      else (True, take_row (ev_ID e) (b\<lparr>lb_entries := lb_entries b @ [new_entry b e kind other mine],
              lb_open := (lb_open b)(k \<mapsto> length (lb_entries b))\<rparr>)))"
    have t: "told viewer (taken @ [e]) = told viewer taken + 1" using Some by (simp add: told_def)
    have fr: "if ok then page_inv viewer ps b' (taken @ [e]) else b' = b \<and> int (length (lb_entries b)) = ps"
      if "fresh = (ok, b')"
    proof (cases "int (length (lb_entries b)) = ps")
      case True
      then show ?thesis using that by (auto simp: fresh_def)
    next
      case False
      have "\<forall>k' i. ((lb_open b)(k \<mapsto> length (lb_entries b))) k' = Some i \<longrightarrow> i < Suc (length (lb_entries b))"
        using assms(1) by (auto simp: page_inv_def intro: less_SucI)
      then show ?thesis
        using False that assms(1) m t by (auto simp: fresh_def page_inv_def simp del: fun_upd_apply)
    qed
    show ?thesis
    proof (cases "lb_open b k")
      case None
      then have "fresh = (ok, b')"
        using assms(2) \<open>Classify viewer e = Some ko\<close> unfolding fresh_def k_def mine_def
        by (simp add: Add_row_def v ko Let_def)
      then show ?thesis by (rule fr)
    next
      case (Some i)
      then have i: "i < length (lb_entries b)" using assms(1) by (auto simp: page_inv_def)
      show ?thesis
      proof (cases "i64 (en_FirstAtMs (lb_entries b ! i) - lb_gapMs b) \<le> ev_AtMs e")
        case True
        then have "ok" "b' = take_row (ev_ID e) (b\<lparr>lb_entries := (lb_entries b)[i := (lb_entries b ! i)
            \<lparr>en_Count := en_Count (lb_entries b ! i) + 1, en_Amount := i64 (en_Amount (lb_entries b ! i) + ev_Amount e),
             en_FirstAtMs := min (en_FirstAtMs (lb_entries b ! i)) (ev_AtMs e),
             en_LastAtMs := max (en_LastAtMs (lb_entries b ! i)) (ev_AtMs e)\<rparr>]\<rparr>)"
          using assms(2) Some \<open>Classify viewer e = Some ko\<close>
          by (simp_all add: Add_row_def v ko Let_def flip: k_def mine_def)
        moreover have "lb_minID b' = ev_ID e" using m \<open>b' = _\<close> by (auto split: if_splits)
        ultimately show ?thesis using assms(1) t i
          by (auto simp: page_inv_def sum_counts_update simp del: take_row_sel(5))
      next
        case False
        then have "fresh = (ok, b')"
          using assms(2) Some \<open>Classify viewer e = Some ko\<close> unfolding fresh_def k_def mine_def
          by (simp add: Add_row_def v ko Let_def)
        then show ?thesis by (rule fr)
      qed
    qed
  qed
qed

lemma add_rows_inv:
  assumes "page_inv viewer ps b taken" "add_rows es b before rd = (full, b', before', rd')" "0 < ps"
    and "sorted_wrt (\<lambda>x y. ev_ID y < ev_ID x) (taken @ es)" "\<forall>e \<in> set es. 0 < ev_ID e"
  shows "\<exists>t r. es = t @ r \<and> page_inv viewer ps b' (taken @ t) \<and> (full \<longrightarrow> taken @ t \<noteq> []) \<and>
    (\<not> full \<longrightarrow> r = [] \<and> rd' = rd + int (length t) \<and> before' = (if t = [] then before else ev_ID (last t)))"
  using assms(1,2,4,5)
proof (induction es arbitrary: b before rd taken)
  case Nil
  then show ?case by simp
next
  case (Cons e es)
  obtain ok b1 where a: "Add_row e b = (ok, b1)" by fastforce
  have lt: "ev_ID e < ev_ID (last taken)" if "taken \<noteq> []"
    using Cons.prems(3) that by (simp add: sorted_wrt_append)
  have step: "if ok then page_inv viewer ps b1 (taken @ [e]) else b1 = b \<and> int (length (lb_entries b)) = ps"
    using Add_row_inv[OF Cons.prems(1) a _ lt] Cons.prems(4) by simp
  show ?case
  proof (cases ok)
    case True
    then have "add_rows es b1 (ev_ID e) (rd + 1) = (full, b', before', rd')" using Cons.prems(2) a by simp
    from Cons.IH[OF _ this, of "taken @ [e]"] step True Cons.prems(3,4)
    obtain t r where t: "es = t @ r" "page_inv viewer ps b' ((taken @ [e]) @ t)"
      "\<not> full \<longrightarrow> r = [] \<and> rd' = rd + 1 + int (length t) \<and> before' = (if t = [] then ev_ID e else ev_ID (last t))"
      by auto
    then show ?thesis by (intro exI[of _ "e # t"] exI[of _ r]) auto
  next
    case False
    with Cons.prems(2) a step have "full" "b' = b" by simp_all
    moreover have "taken \<noteq> []" using step False Cons.prems(1) assms(3) by (auto simp: page_inv_def)
    ultimately show ?thesis using Cons.prems(1) by (intro exI[of _ "[]"] exI[of _ "e # es"]) simp
  qed
qed

lemma below_last:
  assumes "sorted_wrt (\<lambda>x y. ev_ID y < ev_ID x) log" "filter (\<lambda>e. ev_ID e < before) log = xs @ ys" "xs \<noteq> []"
  shows "filter (\<lambda>e. ev_ID e < ev_ID (last xs)) log = ys"
proof -
  have s: "sorted_wrt (\<lambda>x y. ev_ID y < ev_ID x) (xs @ ys)"
    unfolding assms(2)[symmetric] using assms(1) by (rule sorted_wrt_filter)
  have l: "last xs \<in> set xs" using assms(3) by simp
  then have "last xs \<in> set (filter (\<lambda>e. ev_ID e < before) log)" by (simp add: assms(2))
  then have b: "ev_ID (last xs) < before" by simp
  have "filter (\<lambda>e. ev_ID e < ev_ID (last xs)) log = filter (\<lambda>e. ev_ID e < ev_ID (last xs)) (filter (\<lambda>e. ev_ID e < before) log)"
    using b by (auto simp: filter_filter intro: filter_cong)
  also have "\<dots> = filter (\<lambda>e. ev_ID e < ev_ID (last xs)) xs @ filter (\<lambda>e. ev_ID e < ev_ID (last xs)) ys"
    by (simp only: assms(2) filter_append)
  also have "filter (\<lambda>e. ev_ID e < ev_ID (last xs)) xs = []"
  proof -
    have "\<not> ev_ID x < ev_ID (last xs)" if "x \<in> set xs" for x
    proof -
      obtain zs where z: "xs = zs @ [last xs]" using assms(3) by (metis append_butlast_last_id)
      then have "x = last xs \<or> x \<in> set zs" using that by (metis Un_iff in_set_conv_decomp rotate1.simps(2) set_append set_rotate1 set_ConsD)
      moreover have "sorted_wrt (\<lambda>x y. ev_ID y < ev_ID x) (zs @ [last xs])" using s z by (metis sorted_wrt_append)
      ultimately show ?thesis by (auto simp: sorted_wrt_append)
    qed
    then show ?thesis by (auto simp: filter_empty_conv)
  qed
  also have "filter (\<lambda>e. ev_ID e < ev_ID (last xs)) ys = ys"
    using s l by (auto simp: filter_id_conv sorted_wrt_append)
  finally show ?thesis by simp
qed

lemma page_loop_inv:
  assumes "page_inv viewer ps b taken" "0 < ps" "rd = int (length taken)"
    and "sorted_wrt (\<lambda>x y. ev_ID y < ev_ID x) log" "\<forall>e \<in> set log. 0 < ev_ID e"
    and "filter (\<lambda>e. ev_ID e < before) log = rows" "sorted_wrt (\<lambda>x y. ev_ID y < ev_ID x) (taken @ rows)"
    and "page_loop log b before rd = (full, exhausted, b')"
  shows "\<exists>t r. rows = t @ r \<and> page_inv viewer ps b' (taken @ t) \<and>
    (if exhausted \<and> \<not> full then r = [] else taken @ t \<noteq> [])"
  using assms(1,3,4,5,6,7,8)
proof (induction log b before rd arbitrary: taken rows rule: page_loop.induct)
  case (1 log b before rd)
  note prems = 1(2-8)
  show ?case
  proof (cases "rd < eventLogMaxRows")
    case False
    then have "page_loop log b before rd = (False, False, b)" by (simp add: page_loop.simps)
    with prems(7) have "b' = b" "\<not> exhausted" by simp_all
    moreover have "taken \<noteq> []" using False prems(2) by (auto simp: eventLogMaxRows_def)
    ultimately show ?thesis using prems(1) by (intro exI[of _ "[]"] exI[of _ rows]) simp
  next
    case True
    obtain full1 b1 before1 rd1 where ar: "add_rows (chunk log before) b before rd = (full1, b1, before1, rd1)"
      by (metis prod_cases4)
    have ch: "rows = chunk log before @ drop eventLogChunk rows" using prems(5) by (simp add: chunk_def)
    have "sorted_wrt (\<lambda>x y. ev_ID y < ev_ID x) (taken @ chunk log before)"
      using prems(6) ch by (metis append_assoc sorted_wrt_append)
    moreover have "\<forall>e \<in> set (chunk log before). 0 < ev_ID e"
    proof
      fix e assume "e \<in> set (chunk log before)"
      then have "e \<in> set (filter (\<lambda>e. ev_ID e < before) log)" unfolding chunk_def by (rule in_set_takeD)
      with prems(4) show "0 < ev_ID e" by simp
    qed
    ultimately obtain t r where t: "chunk log before = t @ r" "page_inv viewer ps b1 (taken @ t)"
      "full1 \<longrightarrow> taken @ t \<noteq> []"
      "\<not> full1 \<longrightarrow> r = [] \<and> rd1 = rd + int (length t) \<and> before1 = (if t = [] then before else ev_ID (last t))"
      using add_rows_inv[OF prems(1) ar assms(2)] by blast
    have pl: "page_loop log b before rd =
        (if full1 \<or> length (chunk log before) < eventLogChunk then (full1, length (chunk log before) < eventLogChunk, b1)
         else page_loop log b1 before1 rd1)"
      using True ar by (simp add: page_loop.simps[of log b before rd] Let_def)
    show ?thesis
    proof (cases "full1 \<or> length (chunk log before) < eventLogChunk")
      case stop: True
      with pl prems(7) have e: "full = full1" "exhausted \<longleftrightarrow> length (chunk log before) < eventLogChunk" "b' = b1" by simp_all
      have "r @ drop eventLogChunk rows = []" if "exhausted" "\<not> full"
      proof -
        have "length rows < eventLogChunk" using that e(2) prems(5) by (auto simp: chunk_def)
        with that t(4) e(1) show ?thesis by simp
      qed
      moreover have "taken @ t \<noteq> []" if "\<not> (exhausted \<and> \<not> full)"
      proof (cases full1)
        case False
        with stop e that show ?thesis by simp
      qed (use t(3) in blast)
      ultimately show ?thesis
        using t(1,2) ch e(3) by (intro exI[of _ t] exI[of _ "r @ drop eventLogChunk rows"]) auto
    next
      case go: False
      then have tt: "r = []" "t = chunk log before" "t \<noteq> []" "rd1 = rd + int (length t)" "before1 = ev_ID (last t)"
        using t by (auto simp: eventLogChunk_def)
      have rest: "filter (\<lambda>e. ev_ID e < before1) log = drop eventLogChunk rows"
        unfolding tt(5) by (rule below_last[OF prems(3) _ tt(3)]) (use prems(5) ch tt(2) in simp)
      have srt: "sorted_wrt (\<lambda>x y. ev_ID y < ev_ID x) ((taken @ t) @ drop eventLogChunk rows)"
        using prems(6) ch tt(2) by simp
      have "page_loop log b1 before1 rd1 = (full, exhausted, b')" using pl go prems(7) by simp
      from 1(1)[OF _ refl ar[symmetric] _ _ refl _ t(2) _ prems(3,4) rest srt this] True go tt prems(2)
      obtain t' r' where "drop eventLogChunk rows = t' @ r'" "page_inv viewer ps b' ((taken @ t) @ t')"
        "if exhausted \<and> \<not> full then r' = [] else (taken @ t) @ t' \<noteq> []"
        by auto
      then show ?thesis using ch unfolding tt(2)[symmetric] append_assoc
        by (metis append_assoc)
    qed
  qed
qed

text \<open>
  A page takes a prefix of the rows below its start, in order: the counts of its entries add
  up to the taken rows that tell the viewer something, it has at most pageSize entries, and when
  it names a next page that page starts exactly after the rows taken, of which there is at least
  one; without a next page nothing is left.
\<close>

lemma Page_takes_prefix:
  assumes "sorted_wrt (\<lambda>x y. ev_ID y < ev_ID x) log" "\<forall>e \<in> set log. 0 < ev_ID e"
    and "Page viewer seen gap ps log beforeID = (ens, next)"
  defines "below b \<equiv> filter (\<lambda>e. ev_ID e < (if b \<le> 0 then 9223372036854775807 else b)) log"
  shows "\<exists>taken rest. below beforeID = taken @ rest \<and> (\<Sum>en \<leftarrow> ens. en_Count en) = told viewer taken \<and>
    int (length ens) \<le> max 1 ps \<and>
    (case next of None \<Rightarrow> rest = [] | Some m \<Rightarrow> taken \<noteq> [] \<and> 0 < m \<and> m = ev_ID (last taken) \<and> below m = rest)"
proof -
  define before where "before = (if beforeID \<le> 0 then 9223372036854775807 else beforeID)"
  define nb where "nb = NewBuilder viewer seen gap ps"
  obtain full exhausted b' where pl: "page_loop log nb before 0 = (full, exhausted, b')" by (metis prod_cases3)
  have inv0: "page_inv viewer (max 1 ps) nb []"
    by (simp add: page_inv_def nb_def NewBuilder_def told_def max_def)
  have fl: "filter (\<lambda>e. ev_ID e < before) log = below beforeID" by (simp add: below_def before_def)
  have "sorted_wrt (\<lambda>x y. ev_ID y < ev_ID x) ([] @ below beforeID)"
    using assms(1) by (simp add: below_def sorted_wrt_filter)
  have max1: "0 < max 1 ps" by (simp add: less_max_iff_disj)
  from page_loop_inv[OF inv0 max1 _ assms(1,2) fl \<open>sorted_wrt _ ([] @ _)\<close> pl] have "\<exists>t r. below beforeID = t @ r \<and>
      page_inv viewer (max 1 ps) b' t \<and> (if exhausted \<and> \<not> full then r = [] else t \<noteq> [])"
    by (simp only: append_Nil list.size(3) of_nat_0)
  then obtain t r where t: "below beforeID = t @ r" "page_inv viewer (max 1 ps) b' t"
    "if exhausted \<and> \<not> full then r = [] else t \<noteq> []" by auto
  have pg: "ens = lb_entries b'" "next = (if (\<not> exhausted \<or> full) \<and> 0 < lb_minID b' then Some (lb_minID b') else None)"
    using assms(3) pl unfolding Page_def before_def[symmetric] nb_def[symmetric]
    by (auto simp: Entries_log_def MinID_def)
  have pos: "0 < ev_ID (last t)" if "t \<noteq> []"
  proof -
    have "last t \<in> set (below beforeID)" using that by (simp add: t(1))
    then show ?thesis using assms(2) by (simp add: below_def)
  qed
  have nx: "next = None \<Longrightarrow> r = []" using t(2,3) pos unfolding pg(2) by (cases "exhausted \<and> \<not> full") (auto simp: page_inv_def)
  have "t \<noteq> [] \<and> 0 < m \<and> m = ev_ID (last t) \<and> below m = r" if m: "next = Some m" for m
  proof -
    have m': "m = lb_minID b'" "0 < m" using m unfolding pg(2) by (auto split: if_splits)
    with t(2) have ne: "t \<noteq> []" "m = ev_ID (last t)" by (auto simp: page_inv_def split: if_splits)
    have "filter (\<lambda>e. ev_ID e < ev_ID (last t)) log = r"
      by (rule below_last[OF assms(1) _ ne(1)]) (use fl t(1) in simp)
    with ne m'(2) show ?thesis by (simp add: below_def)
  qed
  with nx t pg(1) show ?thesis by (auto simp: page_inv_def split: option.split)
qed

text \<open>Reading the whole log: asking for the next page until there is none.\<close>

fun pages :: "nat \<Rightarrow> uuid \<Rightarrow> int64 \<Rightarrow> duration \<Rightarrow> int \<Rightarrow> event list \<Rightarrow> int64 \<Rightarrow> entry list list option" where
  "pages 0 viewer seen gap ps log beforeID = None"
| "pages (Suc n) viewer seen gap ps log beforeID =
     (case Page viewer seen gap ps log beforeID of
        (ens, None) \<Rightarrow> Some [ens]
      | (ens, Some m) \<Rightarrow> map_option (Cons ens) (pages n viewer seen gap ps log m))"

lemma told_append: "told viewer (xs @ ys) = told viewer xs + told viewer ys"
  by (simp add: told_def)

lemma pages_from:
  assumes "sorted_wrt (\<lambda>x y. ev_ID y < ev_ID x) log" "\<forall>e \<in> set log. 0 < ev_ID e"
  defines "below b \<equiv> filter (\<lambda>e. ev_ID e < (if b \<le> 0 then 9223372036854775807 else b)) log"
  assumes "length (below beforeID) < n"
  shows "\<exists>ps'. pages n viewer seen gap ps log beforeID = Some ps' \<and>
    (\<Sum>en \<leftarrow> concat ps'. en_Count en) = told viewer (below beforeID) \<and> (\<forall>p \<in> set ps'. int (length p) \<le> max 1 ps)"
  using assms(4)
proof (induction n arbitrary: beforeID)
  case (Suc n)
  obtain ens nxt where pg: "Page viewer seen gap ps log beforeID = (ens, nxt)" by fastforce
  obtain taken rest where t: "below beforeID = taken @ rest" "(\<Sum>en \<leftarrow> ens. en_Count en) = told viewer taken"
    "int (length ens) \<le> max 1 ps"
    "case nxt of None \<Rightarrow> rest = [] | Some m \<Rightarrow> taken \<noteq> [] \<and> 0 < m \<and> m = ev_ID (last taken) \<and> below m = rest"
    using Page_takes_prefix[OF assms(1,2) pg] unfolding below_def by blast
  show ?case
  proof (cases nxt)
    case None
    with t pg show ?thesis by simp
  next
    case (Some m)
    from t(4) have m: "taken \<noteq> []" "below m = rest" unfolding Some option.case by blast+
    then have "length (below m) < n" using Suc.prems t(1) by (cases taken) simp_all
    from Suc.IH[OF this] obtain ps' where "pages n viewer seen gap ps log m = Some ps'"
      "(\<Sum>en \<leftarrow> concat ps'. en_Count en) = told viewer rest" "\<forall>p \<in> set ps'. int (length p) \<le> max 1 ps"
      unfolding m(2) by blast
    with Some pg t(1-3) show ?thesis by (simp add: told_append)
  qed
qed simp

text \<open>
  C36: a reader who starts with the newest page and asks for the next one until there is none stops,
  after at most one page per row, and has then been told of every row of the log that concerns
  him exactly once; no page is over its size.
\<close>

theorem pages_deliver_all:
  assumes "sorted_wrt (\<lambda>x y. ev_ID y < ev_ID x) log"
    and "\<forall>e \<in> set log. 0 < ev_ID e \<and> ev_ID e < 9223372036854775807" "length log < n"
  shows "\<exists>ps'. pages n viewer seen gap ps log 0 = Some ps' \<and>
    (\<Sum>en \<leftarrow> concat ps'. en_Count en) = int (length (filter (\<lambda>e. Classify viewer e \<noteq> None) log)) \<and>
    (\<forall>p \<in> set ps'. int (length p) \<le> max 1 ps)"
proof -
  have "filter (\<lambda>e. ev_ID e < 9223372036854775807) log = log" using assms(2) by (simp add: filter_id_conv)
  with pages_from[OF assms(1), of 0 n viewer seen gap ps] assms(2,3) show ?thesis by (simp add: told_def)
qed

theorem pages_deliver_all_witness:
  "\<exists>ps'. pages 3 2 0 600000000000 1 [sample_event, sample_event\<lparr>ev_ID := 4, ev_PlayerID := 2, ev_Counterpart := 3\<rparr>] 0 = Some ps' \<and>
     (\<Sum>en \<leftarrow> concat ps'. en_Count en) = 2"
proof -
  let ?log = "[sample_event, sample_event\<lparr>ev_ID := 4, ev_PlayerID := 2, ev_Counterpart := 3\<rparr>]"
  have "sorted_wrt (\<lambda>x y. ev_ID y < ev_ID x) ?log" "\<forall>e \<in> set ?log. 0 < ev_ID e \<and> ev_ID e < 9223372036854775807"
    "length ?log < 3"
    by (simp_all add: sample_event_def)
  moreover have "filter (\<lambda>e. Classify 2 e \<noteq> None) ?log = ?log"
    by (simp add: sample_event_def Classify_def)
  ultimately show ?thesis using pages_deliver_all[of ?log 3 2 0 600000000000 1] by simp metis
qed

end
