(* ===== verification/Founding.thy ===== *)
theory Founding
  imports City Economy
begin

section \<open>Where a new city is founded\<close>

text \<open>
  Models internal/game/founding/site.go: the search of a site for a new city on rings around a
  point derived from the seed, the conditions of a site and the breadth-first search for reachable
  forest. The sides of a world are at most 65536 (EO_WORLD_WIDTH and EO_WORLD_HEIGHT in
  config.go), so the coordinates of the rings do not wrap; those of the search do as in the code.
  The array seen of the search, one cell per tile of a square, is the set of the marked tiles.
  Proved: a site that is found satisfies every condition, the search for forest finds exactly the
  tiles that can be walked to and always ends, and ErrNoSite means that no visited tile serves.
\<close>

record site =
  si_Center :: tile
  si_MinX :: int32
  si_MinY :: int32
  si_MaxX :: int32
  si_MaxY :: int32
  si_Spawns :: "tile list"

definition townCenterRadius :: int32 where "townCenterRadius = UrbanRadius"
definition clearRadius :: int32 where "clearRadius = 3"
definition minCityDistance :: int32 where "minCityDistance = 24"
definition forestRadius :: int32 where "forestRadius = 8"

datatype founding_error = NoVillagers | ErrNoSite

definition max32 :: "int32 \<Rightarrow> int32 \<Rightarrow> int32" where "max32 a b = (if b < a then a else b)"

definition chebyshev_tiles :: "tile \<Rightarrow> tile \<Rightarrow> int32" where
  "chebyshev_tiles a b =
     (let dx = abs32 (i32 (tX a - tX b)); dy = abs32 (i32 (tY a - tY b))
      in if dy < dx then dx else dy)"

definition FarEnough :: "tile \<Rightarrow> tile list \<Rightarrow> bool" where
  "FarEnough center existing = list_all (\<lambda>other. \<not> chebyshev_tiles center other < minCityDistance) existing"

subsection \<open>Reachable forest\<close>

definition fourNeighbours :: "(int32 \<times> int32) list" where
  "fourNeighbours = [(0, - 1), (- 1, 0), (1, 0), (0, 1)]"

definition has_wood :: "(tile \<Rightarrow> bool) option \<Rightarrow> tile \<Rightarrow> bool" where
  "has_wood hasWood t = (case hasWood of None \<Rightarrow> True | Some f \<Rightarrow> f t)"

definition wooded :: "world \<Rightarrow> (tile \<Rightarrow> bool) option \<Rightarrow> tile \<Rightarrow> bool" where
  "wooded w hasWood t \<longleftrightarrow> TerrainAt w (tX t) (tY t) = Forest \<and> has_wood hasWood t"

definition step_to :: "tile \<Rightarrow> int32 \<times> int32 \<Rightarrow> tile" where
  "step_to t d = mk_tile (i32 (tX t + fst d)) (i32 (tY t + snd d))"

definition enters :: "world \<Rightarrow> tile \<Rightarrow> tile \<Rightarrow> bool" where
  "enters w center n \<longleftrightarrow> \<not> (forestRadius < chebyshev_tiles center n \<or> chebyshev_tiles center n \<le> townCenterRadius \<or>
     \<not> IsWalkable w (tX n) (tY n))"

definition visit ::
  "world \<Rightarrow> tile \<Rightarrow> tile \<Rightarrow> int32 \<times> int32 \<Rightarrow> tile set \<times> tile list \<Rightarrow> tile set \<times> tile list" where
  "visit w center t d st =
     (let n = step_to t d; (seen, queue) = st
      in if \<not> enters w center n \<or> n \<in> seen then st else (insert n seen, queue @ [n]))"

definition i32_tiles :: "tile set" where
  "i32_tiles = {t. is_i32 (tX t) \<and> is_i32 (tY t)}"

lemma finite_i32_tiles [simp]: "finite i32_tiles"
proof -
  have "i32_tiles \<subseteq> (\<lambda>(x, y). mk_tile x y) ` (Collect is_i32 \<times> Collect is_i32)"
  proof
    fix t assume "t \<in> i32_tiles"
    then have "(tX t, tY t) \<in> Collect is_i32 \<times> Collect is_i32" by (simp add: i32_tiles_def)
    then show "t \<in> (\<lambda>(x, y). mk_tile x y) ` (Collect is_i32 \<times> Collect is_i32)"
      by (intro image_eqI[of _ _ "(tX t, tY t)"]) simp_all
  qed
  moreover have "finite (Collect is_i32)"
    by (rule finite_subset[OF _ finite_atLeastAtMost_int]) (auto simp only: is_i32_def mem_Collect_eq atLeastAtMost_iff)
  ultimately show ?thesis by (meson finite_SigmaI finite_imageI finite_subset)
qed

lemma step_to_i32 [simp]: "step_to t d \<in> i32_tiles"
  by (simp add: step_to_def i32_tiles_def)

lemma visit_apply: "visit w center t d (seen, queue) =
    (if \<not> enters w center (step_to t d) \<or> step_to t d \<in> seen then (seen, queue)
     else (insert (step_to t d) seen, queue @ [step_to t d]))"
  by (simp add: visit_def Let_def)

lemma visit_measure:
  "length (snd (visit w center t d st)) + card (i32_tiles - fst (visit w center t d st)) \<le>
    length (snd st) + card (i32_tiles - fst st)"
proof -
  obtain seen queue where st: "st = (seen, queue)" by (cases st)
  show ?thesis
  proof (cases "\<not> enters w center (step_to t d) \<or> step_to t d \<in> seen")
    case False
    have "i32_tiles - insert (step_to t d) seen = (i32_tiles - seen) - {step_to t d}" by blast
    with False have "card (i32_tiles - insert (step_to t d) seen) = card (i32_tiles - seen) - 1"
      by (simp add: card_Diff_singleton)
    moreover have "0 < card (i32_tiles - seen)"
      using False step_to_i32[of t d] by (metis DiffI card_gt_0_iff empty_iff finite_Diff finite_i32_tiles)
    ultimately show ?thesis using False by (simp add: visit_def st Let_def)
  qed (simp add: visit_def st)
qed

lemma fold_visit_measure:
  "length (snd (fold (visit w center t) ds st)) + card (i32_tiles - fst (fold (visit w center t) ds st)) \<le>
    length (snd st) + card (i32_tiles - fst st)"
proof (induction ds arbitrary: st)
  case (Cons d ds)
  show ?case unfolding fold_Cons comp_apply by (rule order_trans[OF Cons.IH visit_measure])
qed simp

function forest_search ::
  "world \<Rightarrow> tile \<Rightarrow> (tile \<Rightarrow> bool) option \<Rightarrow> tile list \<Rightarrow> tile set \<Rightarrow> nat \<Rightarrow> bool" where
  "forest_search w center hasWood [] seen found = False"
| "forest_search w center hasWood (t # ts) seen found =
     (let found' = (if wooded w hasWood t then found + 1 else found)
      in if wooded w hasWood t \<and> FoundingForestTiles \<le> found' then True
         else let (seen', queue) = fold (visit w center t) fourNeighbours (seen, ts)
              in forest_search w center hasWood queue seen' found')"
  by pat_completeness auto
termination
proof (relation "measure (\<lambda>(w, center, hasWood, ts, seen, found). length ts + card (i32_tiles - seen))")
  fix w :: world and center t :: tile and hasWood :: "(tile \<Rightarrow> bool) option" and ts :: "tile list"
    and seen seen' :: "tile set" and found found' :: nat and p queue
  assume "p = fold (visit w center t) fourNeighbours (seen, ts)" "(seen', queue) = p"
  then have "length queue + card (i32_tiles - seen') \<le> length ts + card (i32_tiles - seen)"
    using fold_visit_measure[of w center t fourNeighbours "(seen, ts)"] by (metis fst_conv snd_conv)
  then show "((w, center, hasWood, queue, seen', found'), w, center, hasWood, t # ts, seen, found)
      \<in> measure (\<lambda>(w, center, hasWood, ts, seen, found). length ts + card (i32_tiles - seen))"
    by simp
qed simp

declare forest_search.simps(2) [simp del]

definition start_tile :: "world \<Rightarrow> tile \<Rightarrow> tile set \<times> tile list \<Rightarrow> tile set \<times> tile list" where
  "start_tile w t st =
     (let (seen, queue) = st
      in if IsWalkable w (tX t) (tY t) \<and> t \<notin> seen then (insert t seen, queue @ [t]) else st)"

definition hasReachableForest :: "world \<Rightarrow> tile \<Rightarrow> (tile \<Rightarrow> bool) option \<Rightarrow> bool" where
  "hasReachableForest w center hasWood =
     (let (seen, queue) = fold (start_tile w) (SpawnTilesAround center) ({}, [])
      in forest_search w center hasWood queue seen 0)"

subsection \<open>Sites\<close>

definition isViable :: "world \<Rightarrow> tile \<Rightarrow> tile list \<Rightarrow> (tile \<Rightarrow> bool) option \<Rightarrow> bool" where
  "isViable w center existing hasWood =
     (if list_ex (\<lambda>(dx, dy). \<not> IsWalkable w (i32 (tX center + dx)) (i32 (tY center + dy)))
           (scan (- clearRadius) (- clearRadius) clearRadius clearRadius)
      then False
      else FarEnough center existing \<and> hasReachableForest w center hasWood)"

fun find_spawns_loop :: "world \<Rightarrow> int \<Rightarrow> tile list \<Rightarrow> tile list \<Rightarrow> tile list" where
  "find_spawns_loop w n [] out = out"
| "find_spawns_loop w n (t # ts) out =
     (if int (length out) = n then out
      else if IsWalkable w (tX t) (tY t) then find_spawns_loop w n ts (out @ [t])
      else find_spawns_loop w n ts out)"

definition findSpawns :: "world \<Rightarrow> tile \<Rightarrow> int \<Rightarrow> tile list" where
  "findSpawns w center n = find_spawns_loop w n (SpawnTilesAround center) []"

function step_range :: "int \<Rightarrow> int \<Rightarrow> int \<Rightarrow> int list" where
  "step_range a b s = (if s \<le> 0 \<or> b < a then [] else a # step_range (a + s) b s)"
  by pat_completeness auto
termination by (relation "measure (\<lambda>(a, b, s). nat (b + 1 - a))") auto

declare step_range.simps [simp del]

definition ringTiles :: "int32 \<Rightarrow> int32 \<Rightarrow> int32 \<Rightarrow> tile list" where
  "ringTiles cx cy ring =
     (if ring = 0 then [mk_tile cx cy]
      else let step = go_div ring 8 + 1
           in concat (map (\<lambda>x. [mk_tile x (cy - ring), mk_tile x (cy + ring)]) (step_range (cx - ring) (cx + ring) step)) @
              concat (map (\<lambda>y. [mk_tile (cx - ring) y, mk_tile (cx + ring) y]) (step_range (cy - ring + step) (cy + ring - 1) step)))"

definition ring_candidates :: "world \<Rightarrow> 64 word \<Rightarrow> tile list" where
  "ring_candidates w seed =
     (let startX = uint seed mod w_width w;
          startY = (uint seed div w_width w) mod w_height w;
          maxRing = max32 (w_width w) (w_height w)
      in concat (map (ringTiles startX startY) [0..maxRing]))"

definition FindSite ::
  "world \<Rightarrow> tile list \<Rightarrow> 64 word \<Rightarrow> int \<Rightarrow> (tile \<Rightarrow> bool) option \<Rightarrow> founding_error + site" where
  "FindSite w existing seed villagers hasWood =
     (if villagers \<le> 0 then Err NoVillagers
      else case find (\<lambda>candidate. isViable w candidate existing hasWood \<and>
                        \<not> int (length (findSpawns w candidate villagers)) < villagers) (ring_candidates w seed) of
             None \<Rightarrow> Err ErrNoSite
           | Some candidate \<Rightarrow>
               Ok \<lparr>si_Center = candidate,
                   si_MinX = i32 (tX candidate - townCenterRadius), si_MinY = i32 (tY candidate - townCenterRadius),
                   si_MaxX = i32 (tX candidate + townCenterRadius), si_MaxY = i32 (tY candidate + townCenterRadius),
                   si_Spawns = findSpawns w candidate villagers\<rparr>)"

subsection \<open>The search finds exactly what can be walked to\<close>

inductive forest_walk :: "world \<Rightarrow> tile \<Rightarrow> tile \<Rightarrow> bool" for w center where
  walk_start: "t \<in> set (SpawnTilesAround center) \<Longrightarrow> IsWalkable w (tX t) (tY t) \<Longrightarrow> forest_walk w center t"
| walk_step: "forest_walk w center t \<Longrightarrow> d \<in> set fourNeighbours \<Longrightarrow> enters w center (step_to t d) \<Longrightarrow>
    forest_walk w center (step_to t d)"

lemma finite_walk: "finite {t. forest_walk w center t}"
proof (rule finite_subset)
  show "{t. forest_walk w center t} \<subseteq> set (SpawnTilesAround center) \<union> i32_tiles"
    by (auto elim: forest_walk.cases)
qed simp

lemma fold_visit:
  assumes "fold (visit w center t) ds (seen, q) = (seen', q')"
  shows "\<exists>new. q' = q @ new \<and> seen' = seen \<union> set new \<and> distinct new \<and> set new \<inter> seen = {} \<and>
    (\<forall>n \<in> set new. \<exists>d \<in> set ds. n = step_to t d \<and> enters w center n) \<and>
    (\<forall>d \<in> set ds. enters w center (step_to t d) \<longrightarrow> step_to t d \<in> seen')"
  using assms
proof (induction ds arbitrary: seen q)
  case Nil
  then show ?case by (intro exI[of _ "[]"]) auto
next
  case (Cons d ds)
  let ?n = "step_to t d"
  show ?case
  proof (cases "\<not> enters w center ?n \<or> ?n \<in> seen")
    case True
    then have "fold (visit w center t) ds (seen, q) = (seen', q')" using Cons.prems by (simp add: visit_apply)
    from Cons.IH[OF this] obtain new where "q' = q @ new" "seen' = seen \<union> set new" "distinct new" "set new \<inter> seen = {}"
      "\<forall>n \<in> set new. \<exists>d \<in> set ds. n = step_to t d \<and> enters w center n"
      "\<forall>d \<in> set ds. enters w center (step_to t d) \<longrightarrow> step_to t d \<in> seen'" by blast
    with True show ?thesis by (intro exI[of _ new]) auto
  next
    case False
    then have "fold (visit w center t) ds (insert ?n seen, q @ [?n]) = (seen', q')"
      using Cons.prems by (simp add: visit_apply)
    from Cons.IH[OF this] obtain new where "q' = (q @ [?n]) @ new" "seen' = insert ?n seen \<union> set new" "distinct new"
      "set new \<inter> insert ?n seen = {}" "\<forall>n \<in> set new. \<exists>d \<in> set ds. n = step_to t d \<and> enters w center n"
      "\<forall>d \<in> set ds. enters w center (step_to t d) \<longrightarrow> step_to t d \<in> seen'" by blast
    with False show ?thesis by (intro exI[of _ "?n # new"]) auto
  qed
qed

definition search_inv ::
  "world \<Rightarrow> tile \<Rightarrow> (tile \<Rightarrow> bool) option \<Rightarrow> tile set \<Rightarrow> tile list \<Rightarrow> tile set \<Rightarrow> nat \<Rightarrow> bool" where
  "search_inv w center hasWood P ts seen found \<longleftrightarrow>
     seen = P \<union> set ts \<and> P \<inter> set ts = {} \<and> distinct ts \<and> finite P \<and> found = card {t \<in> P. wooded w hasWood t} \<and>
     found < FoundingForestTiles \<and>
     (\<forall>t \<in> P. \<forall>d \<in> set fourNeighbours. enters w center (step_to t d) \<longrightarrow> step_to t d \<in> seen) \<and>
     (\<forall>t \<in> seen. forest_walk w center t) \<and>
     (\<forall>t \<in> set (SpawnTilesAround center). IsWalkable w (tX t) (tY t) \<longrightarrow> t \<in> seen)"

lemma card_wooded_le: "(\<forall>t \<in> P. forest_walk w center t) \<Longrightarrow>
    card {t \<in> P. wooded w hasWood t} \<le> card {t. forest_walk w center t \<and> wooded w hasWood t}"
  by (rule card_mono) (auto intro: finite_subset[OF _ finite_walk])

lemma forest_search_iff:
  assumes "search_inv w center hasWood P ts seen found"
  shows "forest_search w center hasWood ts seen found \<longleftrightarrow>
    FoundingForestTiles \<le> card {t. forest_walk w center t \<and> wooded w hasWood t}"
  using assms
proof (induction w center hasWood ts seen found arbitrary: P rule: forest_search.induct)
  case (1 w center hasWood seen found)
  have sp: "seen = P" using 1 by (simp add: search_inv_def)
  from 1 have closed: "\<forall>t \<in> P. \<forall>d \<in> set fourNeighbours. enters w center (step_to t d) \<longrightarrow> step_to t d \<in> P"
    "\<forall>t \<in> set (SpawnTilesAround center). IsWalkable w (tX t) (tY t) \<longrightarrow> t \<in> P" "\<forall>t \<in> P. forest_walk w center t"
    unfolding search_inv_def sp by blast+
  have "t \<in> P" if "forest_walk w center t" for t
    using that by induction (use closed in auto)
  with closed(3) have "{t. forest_walk w center t \<and> wooded w hasWood t} = {t \<in> P. wooded w hasWood t}" by auto
  with 1 show ?case by (simp add: search_inv_def)
next
  case (2 w center hasWood t ts seen found)
  note I = 2(2)
  define found' where "found' = (if wooded w hasWood t then found + 1 else found)"
  have t: "t \<notin> P" "finite P" "found = card {t \<in> P. wooded w hasWood t}" "found < FoundingForestTiles"
    "seen = P \<union> set (t # ts)" "\<forall>t \<in> seen. forest_walk w center t" "distinct (t # ts)" "P \<inter> set (t # ts) = {}"
    using I by (auto simp: search_inv_def)
  have split: "{u \<in> insert t P. wooded w hasWood u} =
      (if wooded w hasWood t then insert t {u \<in> P. wooded w hasWood u} else {u \<in> P. wooded w hasWood u})"
    by auto
  have cnt: "found' = card {u \<in> insert t P. wooded w hasWood u}"
    unfolding split found'_def using t(1-3) by simp
  show ?case
  proof (cases "wooded w hasWood t \<and> FoundingForestTiles \<le> found'")
    case True
    then have "wooded w hasWood t" "FoundingForestTiles \<le> Suc found" by (auto simp: found'_def split: if_splits)
    then have "forest_search w center hasWood (t # ts) seen found" by (simp add: forest_search.simps Let_def)
    moreover have "found' \<le> card {t. forest_walk w center t \<and> wooded w hasWood t}"
      unfolding cnt by (rule card_wooded_le) (use t(5,6) in auto)
    ultimately show ?thesis using True by simp
  next
    case False
    obtain seen' queue where v: "fold (visit w center t) fourNeighbours (seen, ts) = (seen', queue)" by fastforce
    obtain new where n: "queue = ts @ new" "seen' = seen \<union> set new" "distinct new" "set new \<inter> seen = {}"
      "\<forall>n \<in> set new. \<exists>d \<in> set fourNeighbours. n = step_to t d \<and> enters w center n"
      "\<forall>d \<in> set fourNeighbours. enters w center (step_to t d) \<longrightarrow> step_to t d \<in> seen'"
      using fold_visit[OF v] by blast
    have fw: "forest_walk w center t" using t(5,6) by simp
    have "search_inv w center hasWood (insert t P) queue seen' found'"
      unfolding search_inv_def
    proof (intro conjI)
      show "seen' = insert t P \<union> set queue" using n(1,2) t(5) by auto
      show "insert t P \<inter> set queue = {}" "distinct queue" using n(1,3,4) t(5,7,8) by auto
      show "finite (insert t P)" "found' = card {u \<in> insert t P. wooded w hasWood u}" using t(2) cnt by simp_all
      show "found' < FoundingForestTiles" using False t(4) by (auto simp: found'_def)
      show "\<forall>u \<in> insert t P. \<forall>d \<in> set fourNeighbours. enters w center (step_to u d) \<longrightarrow> step_to u d \<in> seen'"
        using I n(2,6) by (auto simp: search_inv_def)
      show "\<forall>u \<in> seen'. forest_walk w center u" using n(2,5) t(6) walk_step[OF fw] by auto
      show "\<forall>u \<in> set (SpawnTilesAround center). IsWalkable w (tX u) (tY u) \<longrightarrow> u \<in> seen'"
        using I n(2) by (auto simp: search_inv_def)
    qed
    from 2(1)[OF found'_def _ v[symmetric] refl this] False
    show ?thesis by (auto simp: forest_search.simps(2) Let_def v simp flip: found'_def)
  qed
qed

lemma start_tile_apply: "start_tile w t (seen, queue) =
    (if IsWalkable w (tX t) (tY t) \<and> t \<notin> seen then (insert t seen, queue @ [t]) else (seen, queue))"
  by (simp add: start_tile_def)

lemma fold_start:
  assumes "fold (start_tile w) ts (seen, q) = (seen', q')" "seen = set q" "distinct q"
  shows "seen' = set q' \<and> distinct q' \<and> set q' = set q \<union> {t \<in> set ts. IsWalkable w (tX t) (tY t)}"
  using assms
proof (induction ts arbitrary: seen q)
  case (Cons t ts)
  show ?case
  proof (cases "IsWalkable w (tX t) (tY t) \<and> t \<notin> seen")
    case True
    then have "fold (start_tile w) ts (insert t seen, q @ [t]) = (seen', q')" using Cons.prems(1) by (simp add: start_tile_apply)
    from Cons.IH[OF this] Cons.prems(2,3) True show ?thesis by auto
  next
    case False
    then have "start_tile w t (seen, q) = (seen, q)" by (auto simp: start_tile_apply)
    with Cons.prems(1) have "fold (start_tile w) ts (seen, q) = (seen', q')" by simp
    from Cons.IH[OF this Cons.prems(2,3)] Cons.prems(2) False show ?thesis by auto
  qed
qed simp

lemma reachable_forest:
  "hasReachableForest w center hasWood \<longleftrightarrow>
    FoundingForestTiles \<le> card {t. forest_walk w center t \<and> wooded w hasWood t}"
proof -
  obtain seen q where f: "fold (start_tile w) (SpawnTilesAround center) ({}, []) = (seen, q)" by fastforce
  have s: "seen = set q" "distinct q" "set q = {t \<in> set (SpawnTilesAround center). IsWalkable w (tX t) (tY t)}"
    using fold_start[OF f] by simp_all
  have "search_inv w center hasWood {} q seen 0"
    unfolding search_inv_def using s by (auto simp: FoundingForestTiles_def intro: walk_start)
  from forest_search_iff[OF this] show ?thesis by (simp add: hasReachableForest_def f)
qed

text \<open>
  hasReachableForest answers yes exactly when at least ten different forest tiles with wood
  can be walked to from the ring of births by vertical and horizontal steps over walkable tiles,
  without leaving the square of radius eight nor entering the urban zone; it always answers.
\<close>

theorem hasReachableForest_iff:
  "hasReachableForest w center hasWood \<longleftrightarrow>
    FoundingForestTiles \<le> card {t. forest_walk w center t \<and> wooded w hasWood t}"
  by (rule reachable_forest)

subsection \<open>The site that is found\<close>

lemma step_range_bounds: "x \<in> set (step_range a b s) \<Longrightarrow> a \<le> x \<and> x \<le> b"
proof (induction a b s rule: step_range.induct)
  case (1 a b s)
  then show ?case by (cases "s \<le> 0 \<or> b < a") (auto simp: step_range.simps[of a b s])
qed

lemma ringTiles_bounds:
  assumes "t \<in> set (ringTiles cx cy ring)" "0 \<le> ring"
  shows "max \<bar>tX t - cx\<bar> \<bar>tY t - cy\<bar> = ring"
proof (cases "ring = 0")
  case False
  have "0 \<le> go_div ring 8" using assms(2) by (simp add: go_div_nonneg)
  with assms False show ?thesis
    by (auto simp: ringTiles_def Let_def max_def dest!: step_range_bounds)
qed (use assms in \<open>simp add: ringTiles_def\<close>)

lemma ring_candidates_bounds:
  assumes "t \<in> set (ring_candidates w seed)" "wf_world w" "w_width w \<le> 65536" "w_height w \<le> 65536"
  shows "\<bar>tX t\<bar> \<le> 131072 \<and> \<bar>tY t\<bar> \<le> 131072"
proof -
  have d: "0 < w_width w" "0 < w_height w" using wf_world_dims[OF assms(2)] by simp_all
  define sx sy where "sx = uint seed mod w_width w" "sy = (uint seed div w_width w) mod w_height w"
  have s: "0 \<le> sx" "sx < w_width w" "0 \<le> sy" "sy < w_height w" using d by (simp_all add: sx_sy_def)
  obtain ring where r: "0 \<le> ring" "ring \<le> max32 (w_width w) (w_height w)" "t \<in> set (ringTiles sx sy ring)"
    using assms(1) by (auto simp: ring_candidates_def sx_sy_def)
  have "max \<bar>tX t - sx\<bar> \<bar>tY t - sy\<bar> \<le> 65536"
    using ringTiles_bounds[OF r(3,1)] r(2) assms(3,4) by (simp add: max32_def split: if_splits)
  with s assms(3,4) show ?thesis by (auto simp: max_def split: if_splits)
qed

lemma find_spawns_loop_take:
  "int (length out) \<le> n \<Longrightarrow> find_spawns_loop w n ts out =
    out @ take (nat n - length out) (filter (\<lambda>t. IsWalkable w (tX t) (tY t)) ts)"
proof (induction ts arbitrary: out)
  case (Cons t ts)
  show ?case
  proof (cases "int (length out) = n")
    case False
    then have l: "int (length (out @ [t])) \<le> n" using Cons.prems by simp
    have "nat n - length out = Suc (nat n - length (out @ [t]))" using False Cons.prems by simp
    then show ?thesis using False Cons.IH[OF Cons.prems] Cons.IH[OF l] by simp
  qed auto
qed simp

lemma SpawnTilesAround_ring:
  assumes "\<bar>tX c\<bar> \<le> 131072" "\<bar>tY c\<bar> \<le> 131072"
  shows "distinct (SpawnTilesAround c)" and "t \<in> set (SpawnTilesAround c) \<Longrightarrow> max \<bar>tX t - tX c\<bar> \<bar>tY t - tY c\<bar> = 2"
proof -
  have "- 131072 \<le> tX c" "tX c \<le> 131072" "- 131072 \<le> tY c" "tY c \<le> 131072" using assms by linarith+
  then have e: "SpawnTilesAround c = map (\<lambda>(dx, dy). mk_tile (tX c + dx) (tY c + dy))
      [(2, 0), (- 2, 0), (0, 2), (0, - 2), (2, 2), (- 2, - 2), (2, - 2), (- 2, 2)]"
    by (simp add: SpawnTilesAround_def spawnOffsets_def SpawnRadius_def i32_id)
  show "distinct (SpawnTilesAround c)" by (simp add: e)
  show "max \<bar>tX t - tX c\<bar> \<bar>tY t - tY c\<bar> = 2" if "t \<in> set (SpawnTilesAround c)"
    using that unfolding e by auto
qed

text \<open>
  C37: a site that FindSite returns satisfies every condition of a foundation: its seven by seven
  surroundings can be walked on, every other centre is at least 24 tiles away, at least ten wooded
  tiles can be walked to, and it has as many different free tiles of the ring around the urban
  zone as villagers are born. Otherwise no tile of the visited rings is such a centre.
\<close>

theorem FindSite_conditions:
  assumes "wf_world w" "w_width w \<le> 65536" "w_height w \<le> 65536"
    and "\<forall>c \<in> set existing. InBounds w (tX c) (tY c)"
  shows "case FindSite w existing seed villagers hasWood of
      Ok s \<Rightarrow> (let c = si_Center s in
        0 < villagers \<and> c \<in> set (ring_candidates w seed) \<and>
        (\<forall>x y. \<bar>x - tX c\<bar> \<le> 3 \<and> \<bar>y - tY c\<bar> \<le> 3 \<longrightarrow> IsWalkable w x y) \<and>
        (\<forall>o' \<in> set existing. 24 \<le> max \<bar>tX c - tX o'\<bar> \<bar>tY c - tY o'\<bar>) \<and>
        10 \<le> card {t. forest_walk w c t \<and> wooded w hasWood t} \<and>
        int (length (si_Spawns s)) = villagers \<and> distinct (si_Spawns s) \<and>
        (\<forall>t \<in> set (si_Spawns s). IsWalkable w (tX t) (tY t) \<and> max \<bar>tX t - tX c\<bar> \<bar>tY t - tY c\<bar> = 2))
    | Err e \<Rightarrow> villagers \<le> 0 \<and> e = NoVillagers \<or> 0 < villagers \<and> e = ErrNoSite \<and>
        (\<forall>c \<in> set (ring_candidates w seed). \<not> isViable w c existing hasWood \<or>
           int (length (findSpawns w c villagers)) < villagers)"
proof (cases "FindSite w existing seed villagers hasWood")
  case (Inl e)
  then show ?thesis by (auto simp: FindSite_def find_None_iff split: if_splits option.splits)
next
  case (Inr s)
  then obtain c where v: "0 < villagers" and f: "find (\<lambda>c. isViable w c existing hasWood \<and>
      \<not> int (length (findSpawns w c villagers)) < villagers) (ring_candidates w seed) = Some c"
    and s: "si_Center s = c" "si_Spawns s = findSpawns w c villagers"
    by (auto simp: FindSite_def split: if_splits option.splits)
  have c: "c \<in> set (ring_candidates w seed)" "isViable w c existing hasWood" "villagers \<le> int (length (findSpawns w c villagers))"
    using find_SomeD[OF f] by simp_all
  note cb = ring_candidates_bounds[OF c(1) assms(1-3)]
  have i: "i32 (tX c + d) = tX c + d" "i32 (tY c + d) = tY c + d" if "- 3 \<le> d" "d \<le> 3" for d
    using cb that by (auto intro!: i32_id)
  have walk: "IsWalkable w (tX c + dx) (tY c + dy)" if "- 3 \<le> dx" "dx \<le> 3" "- 3 \<le> dy" "dy \<le> 3" for dx dy
  proof -
    have "IsWalkable w (i32 (tX c + dx)) (i32 (tY c + dy))"
      using c(2) that by (auto simp: isViable_def clearRadius_def list_ex_iff split: if_splits)
    then show ?thesis using i that by simp
  qed
  have "IsWalkable w x y" if "\<bar>x - tX c\<bar> \<le> 3" "\<bar>y - tY c\<bar> \<le> 3" for x y
    using walk[of "x - tX c" "y - tY c"] that by simp
  moreover have "InBounds w (tX c) (tY c)" using walk[of 0 0] by (simp add: IsWalkable_def split: if_splits)
  then have cw: "0 \<le> tX c" "tX c < 65536" "0 \<le> tY c" "tY c < 65536" using assms(2,3) by (auto simp: InBounds_def)
  have "24 \<le> max \<bar>tX c - tX o'\<bar> \<bar>tY c - tY o'\<bar>" if o': "o' \<in> set existing" for o'
  proof -
    have "0 \<le> tX o'" "tX o' < 65536" "0 \<le> tY o'" "tY o' < 65536"
      using assms(2-4) o' by (auto simp: InBounds_def)
    then have e: "i32 (tX c - tX o') = tX c - tX o'" "i32 (tY c - tY o') = tY c - tY o'"
      "i32 (- (tX c - tX o')) = - (tX c - tX o')" "i32 (- (tY c - tY o')) = - (tY c - tY o')"
      using cw by (auto intro!: i32_id)
    have "chebyshev_tiles c o' = max \<bar>tX c - tX o'\<bar> \<bar>tY c - tY o'\<bar>"
      unfolding chebyshev_tiles_def abs32_def e Let_def by (auto simp: max_def)
    moreover have "\<not> chebyshev_tiles c o' < 24"
      using c(2) o' by (auto simp: isViable_def FarEnough_def list_all_iff minCityDistance_def split: if_splits)
    ultimately show ?thesis by (simp only: not_less)
  qed
  moreover have "10 \<le> card {t. forest_walk w c t \<and> wooded w hasWood t}"
    using c(2) forest_search_iff by (auto simp: isViable_def reachable_forest FoundingForestTiles_def split: if_splits)
  moreover have sp: "findSpawns w c villagers = take (nat villagers) (filter (\<lambda>t. IsWalkable w (tX t) (tY t)) (SpawnTilesAround c))"
    using v by (simp add: findSpawns_def find_spawns_loop_take)
  then have "int (length (findSpawns w c villagers)) = villagers" using c(3) v by auto
  moreover have "distinct (findSpawns w c villagers)"
    unfolding sp using SpawnTilesAround_ring(1) cb by (simp add: distinct_take)
  moreover have "IsWalkable w (tX t) (tY t) \<and> max \<bar>tX t - tX c\<bar> \<bar>tY t - tY c\<bar> = 2" if "t \<in> set (findSpawns w c villagers)" for t
    using in_set_takeD[OF that[unfolded sp]] SpawnTilesAround_ring(2) cb by simp
  ultimately show ?thesis using Inr v c(1) by (simp add: s Let_def)
qed

definition woods :: world where
  "woods = \<lparr>w_width = 9, w_height = 9, w_chunkSize = 9, w_seed = 0,
     w_terrain = replicate 81 Forest, w_blocked = replicate 81 False\<rparr>"

lemma woods_tile: "0 \<le> x \<and> x < 9 \<and> 0 \<le> y \<and> y < 9 \<Longrightarrow> IsWalkable woods x y \<and> TerrainAt woods x y = Forest"
proof -
  assume a: "0 \<le> x \<and> x < 9 \<and> 0 \<le> y \<and> y < 9"
  then have "row_idx 9 x y < 81" using row_idx_less[of x 9 y 9] by simp
  with a show ?thesis by (simp add: woods_def IsWalkable_def TerrainAt_def InBounds_def index_def)
qed

lemma woods_spawns: "SpawnTilesAround (mk_tile 4 4) = map (\<lambda>(x, y). mk_tile x y)
    [(6, 4), (2, 4), (4, 6), (4, 2), (6, 6), (2, 2), (6, 2), (2, 6)]"
  by code_simp

lemma woods_forest: "hasReachableForest woods (mk_tile 4 4) None"
  by (simp add: hasReachableForest_def forest_search.simps woods_spawns start_tile_apply woods_tile fourNeighbours_def visit_apply
      step_to_def enters_def wooded_def has_wood_def FoundingForestTiles_def chebyshev_tiles_def abs32_def
      forestRadius_def townCenterRadius_def UrbanRadius_def Let_def i32_id)

lemma woods_viable: "isViable woods (mk_tile 4 4) [] None"
  by (auto simp: isViable_def clearRadius_def list_ex_iff i32_id woods_tile woods_forest FarEnough_def)

lemma woods_site: "\<exists>s. FindSite woods [] 40 2 None = Ok s \<and> si_Center s = mk_tile 4 4"
proof -
  have "\<exists>ts. ring_candidates woods 40 = mk_tile 4 4 # ts"
    by (simp add: ring_candidates_def woods_def max32_def upto_rec1[of 0] ringTiles_def Let_def)
  moreover have "length (findSpawns woods (mk_tile 4 4) 2) = 2"
    by (simp add: findSpawns_def woods_spawns woods_tile)
  ultimately show ?thesis by (auto simp: FindSite_def woods_viable Let_def)
qed

theorem FindSite_conditions_witness:
  "IsWalkable woods 1 1 \<and> 10 \<le> card {t. forest_walk woods (mk_tile 4 4) t \<and> wooded woods None t}"
proof -
  have "wf_world woods" "w_width woods \<le> 65536" "w_height woods \<le> 65536"
    by (simp_all add: wf_world_def woods_def numeral_eq_Suc Valid_terrain_def terrainCount_def Forest_def)
  from FindSite_conditions[where w = woods and existing = "[]" and seed = 40 and villagers = 2 and hasWood = None] woods_site show ?thesis
    using \<open>wf_world woods\<close> by (auto simp: Let_def woods_def)
qed

subsection \<open>The rings do not cover the world\<close>

text \<open>
  The doc comment of FindSite says that the search goes over the whole world if needed. From ring
  eight on, ringTiles only keeps one tile in ring / 8 + 1 of each side: a tile at distance eight
  of the start, with the other coordinate at seven, is on no ring that is visited.
\<close>

lemma step_range_mod: "x \<in> set (step_range a b s) \<Longrightarrow> s dvd x - a"
proof (induction a b s rule: step_range.induct)
  case (1 a b s)
  show ?case
  proof (cases "s \<le> 0 \<or> b < a \<or> x = a")
    case True
    then show ?thesis using 1(2) by (auto simp: step_range.simps[of a b s])
  next
    case False
    then have "s dvd x - (a + s)" using 1 by (auto simp: step_range.simps[of a b s])
    then have "s dvd x - (a + s) + s" by (rule dvd_add) simp
    then show ?thesis by simp
  qed
qed

lemma ringTiles_skips:
  assumes "0 \<le> ring"
  shows "mk_tile (sx - 7) (sy - 8) \<notin> set (ringTiles sx sy ring)"
proof
  assume t: "mk_tile (sx - 7) (sy - 8) \<in> set (ringTiles sx sy ring)"
  from ringTiles_bounds[OF t assms] have "ring = 8" by simp
  with t show False by (auto simp: ringTiles_def Let_def go_div_def dest!: step_range_mod)
qed

end
