(* ===== verification/Job_Queue.thy ===== *)
theory Job_Queue
  imports Prelude "HOL-Library.Word"
begin

unbundle bit_operations_syntax

section \<open>The queue of durable writes\<close>

text \<open>
  Models internal/persistence/queue.go and PartitionOf of internal/game/simulation/commands.go:
  the partitions of the queue, Submit with its jobs of one and of two keys, and the workers as a
  step relation, one step per action on shared state: taking an item of the channel (with the
  arrived.Done of a pair), passing the barrier of a pair, one attempt of a write with its
  outcome, and leaving a pair that is done. Submit holds the mutex, so it is one step. A write
  that is dropped hands its compensation, a value of the type 'c, to the loop. The sequence of
  submitted jobs and the list of ended ones are history variables; the number of a job is also
  the identity of its barrier. Close, Drain, the metrics and the waits between attempts are left
  out. Proved: jobs with a common key run one at a time in the order of their submission, the
  workers never wait for each other forever, and every job ends exactly once.
\<close>

record 'c job =
  jb_Name :: string
  jb_Key :: string
  jb_Key2 :: string
  jb_OnPermanentFailure :: "'c option"

definition fnv32a :: "string \<Rightarrow> 32 word" where
  "fnv32a s = fold (\<lambda>c h. (h XOR of_char c) * 16777619) s 2166136261"

definition PartitionOf :: "string \<Rightarrow> nat \<Rightarrow> nat" where
  "PartitionOf key n = (if n \<le> 1 then 0 else unat (fnv32a key mod word_of_nat n))"

datatype role = Solo | Lead | Follow

record 'c queued =
  qd_job :: "'c job"
  qd_id :: nat
  qd_role :: role

datatype 'c worker = Idle | Running "'c queued" nat | Arrived "'c queued" | Waiting "'c queued"

datatype outcome = Succeeded | AttemptsExhausted | QueueFull

record 'c queue =
  q_parts :: "'c queued list list"
  q_cap :: nat
  q_maxAttempts :: nat
  q_turno :: "64 word"
  q_workers :: "'c worker list"
  q_arrived :: "nat \<Rightarrow> nat"
  q_done :: "nat \<Rightarrow> bool"
  q_jobs :: "'c job list"
  q_ended :: "(nat \<times> outcome) list"
  q_sent :: "'c list"

definition NewQueue :: "int \<Rightarrow> int \<Rightarrow> int \<Rightarrow> 'c queue" where
  "NewQueue capacity workers maxAttempts =
     (let capacity = (if capacity \<le> 0 then 4096 else capacity);
          workers = (if workers \<le> 0 then 4 else workers);
          maxAttempts = (if maxAttempts \<le> 0 then 3 else maxAttempts);
          porParticion = go_div capacity workers
      in \<lparr>q_parts = replicate (nat workers) [], q_cap = nat (if porParticion < 1 then 1 else porParticion),
          q_maxAttempts = nat maxAttempts, q_turno = 0, q_workers = replicate (nat workers) Idle,
          q_arrived = (\<lambda>_. 0), q_done = (\<lambda>_. False), q_jobs = [], q_ended = [], q_sent = []\<rparr>)"

subsection \<open>Submit\<close>

definition full :: "nat \<Rightarrow> 'c queue \<Rightarrow> bool" where
  "full i q \<longleftrightarrow> q_cap q \<le> length (q_parts q ! i)"

definition put :: "nat \<Rightarrow> 'c queued \<Rightarrow> 'c queue \<Rightarrow> 'c queue" where
  "put i it q = q\<lparr>q_parts := (q_parts q)[i := q_parts q ! i @ [it]]\<rparr>"

definition drop_job :: "nat \<Rightarrow> 'c job \<Rightarrow> outcome \<Rightarrow> 'c queue \<Rightarrow> 'c queue" where
  "drop_job ident job why q = q\<lparr>q_ended := q_ended q @ [(ident, why)],
     q_sent := q_sent q @ (case jb_OnPermanentFailure job of None \<Rightarrow> [] | Some c \<Rightarrow> [c])\<rparr>"

definition submitPair :: "'c job \<Rightarrow> nat \<Rightarrow> nat \<Rightarrow> nat \<Rightarrow> 'c queue \<Rightarrow> 'c queue" where
  "submitPair job ident i j q =
     (if full i q then drop_job ident job QueueFull q
      else if full j q then drop_job ident job QueueFull q
      else put j \<lparr>qd_job = job, qd_id = ident, qd_role = Follow\<rparr>
             (put i \<lparr>qd_job = job, qd_id = ident, qd_role = Lead\<rparr>
               (q\<lparr>q_arrived := (q_arrived q)(ident := 2), q_done := (q_done q)(ident := False)\<rparr>)))"

definition partition_of_job :: "'c job \<Rightarrow> 'c queue \<Rightarrow> nat \<times> 64 word" where
  "partition_of_job job q =
     (if jb_Key job \<noteq> '''' then (PartitionOf (jb_Key job) (length (q_parts q)), q_turno q)
      else let t = q_turno q + 1 in (unat (t mod word_of_nat (length (q_parts q))), t))"

definition Submit :: "'c job \<Rightarrow> 'c queue \<Rightarrow> 'c queue" where
  "Submit job q0 =
     (let (i, t) = partition_of_job job q0;
          ident = length (q_jobs q0);
          q = q0\<lparr>q_turno := t, q_jobs := q_jobs q0 @ [job]\<rparr>;
          j = PartitionOf (jb_Key2 job) (length (q_parts q))
      in if jb_Key2 job \<noteq> '''' \<and> j \<noteq> i then submitPair job ident i j q
         else if full i q then drop_job ident job QueueFull q
         else put i \<lparr>qd_job = job, qd_id = ident, qd_role = Solo\<rparr> q)"

subsection \<open>Workers\<close>

datatype action = Take nat | Meet nat | Try nat bool | Leave nat

definition finish_job :: "nat \<Rightarrow> 'c queued \<Rightarrow> 'c queue \<Rightarrow> 'c queue" where
  "finish_job i it q = q\<lparr>q_workers := (q_workers q)[i := Idle],
     q_done := (if qd_role it = Lead then (q_done q)(qd_id it := True) else q_done q)\<rparr>"

fun worker_act :: "action \<Rightarrow> 'c queue \<Rightarrow> 'c queue option" where
  "worker_act (Take i) q =
     (if length (q_workers q) \<le> i then None
      else case (q_workers q ! i, q_parts q ! i) of
        (Idle, it # rest) \<Rightarrow>
          (let q' = q\<lparr>q_parts := (q_parts q)[i := rest]\<rparr>
           in if qd_role it = Solo then Some (q'\<lparr>q_workers := (q_workers q)[i := Running it 1]\<rparr>)
              else Some (q'\<lparr>q_workers := (q_workers q)[i := Arrived it],
                     q_arrived := (q_arrived q)(qd_id it := q_arrived q (qd_id it) - 1)\<rparr>))
      | _ \<Rightarrow> None)"
| "worker_act (Meet i) q =
     (if length (q_workers q) \<le> i then None
      else case q_workers q ! i of
        Arrived it \<Rightarrow>
          if q_arrived q (qd_id it) = 0
          then Some (q\<lparr>q_workers := (q_workers q)[i := if qd_role it = Lead then Running it 1 else Waiting it]\<rparr>)
          else None
      | _ \<Rightarrow> None)"
| "worker_act (Try i ok) q =
     (if length (q_workers q) \<le> i then None
      else case q_workers q ! i of
        Running it attempt \<Rightarrow>
          if ok then Some (finish_job i it (q\<lparr>q_ended := q_ended q @ [(qd_id it, Succeeded)]\<rparr>))
          else if attempt < q_maxAttempts q
          then Some (q\<lparr>q_workers := (q_workers q)[i := Running it (attempt + 1)]\<rparr>)
          else Some (finish_job i it (drop_job (qd_id it) (qd_job it) AttemptsExhausted q))
      | _ \<Rightarrow> None)"
| "worker_act (Leave i) q =
     (if length (q_workers q) \<le> i then None
      else case q_workers q ! i of
        Waiting it \<Rightarrow> if q_done q (qd_id it) then Some (q\<lparr>q_workers := (q_workers q)[i := Idle]\<rparr>) else None
      | _ \<Rightarrow> None)"

definition worker_step :: "'c queue \<Rightarrow> 'c queue \<Rightarrow> bool" where
  "worker_step q q' \<longleftrightarrow> (\<exists>a. worker_act a q = Some q')"

inductive queue_reach :: "'c queue \<Rightarrow> bool" where
  reach_new: "workers < 4294967296 \<Longrightarrow> queue_reach (NewQueue capacity workers maxAttempts)"
| reach_submit: "queue_reach q \<Longrightarrow> queue_reach (Submit job q)"
| reach_work: "queue_reach q \<Longrightarrow> worker_step q q' \<Longrightarrow> queue_reach q'"

definition quiet :: "'c queue \<Rightarrow> bool" where
  "quiet q \<longleftrightarrow> (\<forall>l \<in> set (q_parts q). l = []) \<and> (\<forall>v \<in> set (q_workers q). v = Idle)"

subsection \<open>The lines: what a worker holds, then its channel\<close>

fun held :: "'c worker \<Rightarrow> 'c queued list" where
  "held Idle = []"
| "held (Running it a) = [it]"
| "held (Arrived it) = [it]"
| "held (Waiting it) = [it]"

definition line :: "'c queue \<Rightarrow> nat \<Rightarrow> 'c queued list" where
  "line q i = held (q_workers q ! i) @ q_parts q ! i"

definition keys_of :: "'c job \<Rightarrow> string set" where
  "keys_of job = {jb_Key job, jb_Key2 job} - {''''}"

definition lines_ok ::
  "nat \<Rightarrow> 'c job list \<Rightarrow> (nat \<times> outcome) list \<Rightarrow> (nat \<Rightarrow> bool) \<Rightarrow> (nat \<Rightarrow> 'c queued list) \<Rightarrow> bool" where
  "lines_ok n jobs ended dn L \<longleftrightarrow>
     (\<forall>i < n. sorted_wrt (<) (map qd_id (L i))) \<and>
     (\<forall>i < n. \<forall>it \<in> set (L i). qd_id it < length jobs \<and> qd_job it = jobs ! qd_id it) \<and>
     (\<forall>i < n. \<forall>j < n. i \<noteq> j \<longrightarrow> (\<forall>it \<in> set (L i). \<forall>it' \<in> set (L j).
        qd_id it = qd_id it' \<longrightarrow> {qd_role it, qd_role it'} = {Lead, Follow})) \<and>
     (\<forall>i < n. \<forall>it \<in> set (L i). qd_role it = Lead \<longrightarrow>
        \<not> dn (qd_id it) \<and> (\<exists>j < n. \<exists>it' \<in> set (L j). qd_id it' = qd_id it \<and> qd_role it' = Follow)) \<and>
     (\<forall>i < n. \<forall>it \<in> set (L i). qd_role it = Follow \<longrightarrow>
        dn (qd_id it) \<or> (\<exists>j < n. \<exists>it' \<in> set (L j). qd_id it' = qd_id it \<and> qd_role it' = Lead)) \<and>
     distinct (map fst ended) \<and>
     (\<forall>m. m \<in> fst ` set ended \<longleftrightarrow> m < length jobs \<and> (\<forall>i < n. \<forall>it \<in> set (L i). qd_id it = m \<longrightarrow> qd_role it = Follow)) \<and>
     (\<forall>m < length jobs. m \<notin> fst ` set ended \<longrightarrow> (\<forall>k \<in> keys_of (jobs ! m). \<exists>it \<in> set (L (PartitionOf k n)). qd_id it = m))"

named_theorems lines_okD
lemma lines_ok_sorted [lines_okD]: "lines_ok n jobs ended dn L \<Longrightarrow> i < n \<Longrightarrow> sorted_wrt (<) (map qd_id (L i))"
  by (simp add: lines_ok_def)
lemma lines_ok_item [lines_okD]: "lines_ok n jobs ended dn L \<Longrightarrow> i < n \<Longrightarrow> it \<in> set (L i) \<Longrightarrow>
    qd_id it < length jobs \<and> qd_job it = jobs ! qd_id it"
  by (simp add: lines_ok_def)
lemma lines_ok_pair [lines_okD]: "lines_ok n jobs ended dn L \<Longrightarrow> i < n \<Longrightarrow> j < n \<Longrightarrow> i \<noteq> j \<Longrightarrow> it \<in> set (L i) \<Longrightarrow>
    it' \<in> set (L j) \<Longrightarrow> qd_id it = qd_id it' \<Longrightarrow> {qd_role it, qd_role it'} = {Lead, Follow}"
  unfolding lines_ok_def by metis
lemma lines_ok_lead [lines_okD]: "lines_ok n jobs ended dn L \<Longrightarrow> i < n \<Longrightarrow> it \<in> set (L i) \<Longrightarrow> qd_role it = Lead \<Longrightarrow>
    \<not> dn (qd_id it) \<and> (\<exists>j < n. \<exists>it' \<in> set (L j). qd_id it' = qd_id it \<and> qd_role it' = Follow)"
  by (simp add: lines_ok_def)
lemma lines_ok_follow [lines_okD]: "lines_ok n jobs ended dn L \<Longrightarrow> i < n \<Longrightarrow> it \<in> set (L i) \<Longrightarrow> qd_role it = Follow \<Longrightarrow>
    dn (qd_id it) \<or> (\<exists>j < n. \<exists>it' \<in> set (L j). qd_id it' = qd_id it \<and> qd_role it' = Lead)"
  by (simp add: lines_ok_def)
lemma lines_ok_ended [lines_okD]: "lines_ok n jobs ended dn L \<Longrightarrow>
    m \<in> fst ` set ended \<longleftrightarrow> m < length jobs \<and> (\<forall>i < n. \<forall>it \<in> set (L i). qd_id it = m \<longrightarrow> qd_role it = Follow)"
  unfolding lines_ok_def by blast
lemma lines_ok_distinct [lines_okD]: "lines_ok n jobs ended dn L \<Longrightarrow> distinct (map fst ended)"
  by (simp add: lines_ok_def)
lemma lines_ok_keys [lines_okD]: "lines_ok n jobs ended dn L \<Longrightarrow> m < length jobs \<Longrightarrow> m \<notin> fst ` set ended \<Longrightarrow>
    k \<in> keys_of (jobs ! m) \<Longrightarrow> \<exists>it \<in> set (L (PartitionOf k n)). qd_id it = m"
  by (simp add: lines_ok_def)

lemma PartitionOf_less:
  assumes "0 < n" "n < 4294967296"
  shows "PartitionOf key n < n"
proof -
  have "unat (word_of_nat n :: 32 word) = n" using assms by (simp add: unat_of_nat)
  with assms show ?thesis by (auto simp: PartitionOf_def unat_mod)
qed

lemma line_unique:
  assumes "lines_ok n jobs ended dn L" "i < n" "it \<in> set (L i)" "it' \<in> set (L i)" "qd_id it = qd_id it'"
  shows "it = it'"
proof -
  have "distinct (map qd_id (L i))"
    using lines_ok_sorted[OF assms(1,2)] strict_sorted_iff by blast
  with assms(3-5) show ?thesis by (metis distinct_map inj_onD)
qed

lemma line_head_gone:
  assumes "lines_ok n jobs ended dn L" "i < n" "L i = it # rest"
  shows "x \<in> set ((L(i := rest)) j) \<Longrightarrow> x \<in> set (L j)"
    and "x \<in> set (L j) \<Longrightarrow> qd_id x \<noteq> qd_id it \<Longrightarrow> x \<in> set ((L(i := rest)) j)"
    and "x \<in> set rest \<Longrightarrow> qd_id x \<noteq> qd_id it"
    and "j < n \<Longrightarrow> sorted_wrt (<) (map qd_id ((L(i := rest)) j))"
  using assms lines_ok_sorted[OF assms(1,2)] lines_ok_sorted[OF assms(1), of j] by (auto split: if_splits)

text \<open>The head of a line goes: what it leaves behind of the same job can only be its second half.\<close>

lemma lines_ok_pop:
  assumes ok: "lines_ok n jobs ended dn L" and i: "i < n" "L i = it # rest"
    and other: "\<And>j x. j < n \<Longrightarrow> x \<in> set ((L(i := rest)) j) \<Longrightarrow> qd_id x = qd_id it \<Longrightarrow> qd_role x = Follow"
    and ended: "fst ` set ended' = insert (qd_id it) (fst ` set ended)" "distinct (map fst ended')"
    and dn: "\<And>m. m \<noteq> qd_id it \<Longrightarrow> dn' m = dn m" "qd_role it = Lead \<or> dn (qd_id it) \<Longrightarrow> dn' (qd_id it)"
  shows "lines_ok n jobs ended' dn' (L(i := rest))"
proof -
  note g = line_head_gone[OF ok i]
  have it: "it \<in> set (L i)" using i(2) by simp
  show ?thesis unfolding lines_ok_def
  proof (intro conjI allI impI ballI)
    show "sorted_wrt (<) (map qd_id ((L(i := rest)) j))" if "j < n" for j using g(4) that .
    show "distinct (map fst ended')" using ended(2) .
  next
    fix j x assume "j < n" "x \<in> set ((L(i := rest)) j)"
    then show "qd_id x < length jobs" "qd_job x = jobs ! qd_id x" using lines_ok_item[OF ok, of j x] g(1) by blast+
  next
    fix j j' x x' assume "j < n" "j' < n" "j \<noteq> j'" "x \<in> set ((L(i := rest)) j)" "x' \<in> set ((L(i := rest)) j')" "qd_id x = qd_id x'"
    then show "{qd_role x, qd_role x'} = {Lead, Follow}" using lines_ok_pair[OF ok, of j j' x x'] g(1) by blast
  next
    fix j x assume x: "j < n" "x \<in> set ((L(i := rest)) j)" "qd_role x = Lead"
    then have ne: "qd_id x \<noteq> qd_id it" using other by fastforce
    from lines_ok_lead[OF ok x(1) g(1)[OF x(2)] x(3)]
    show "\<not> dn' (qd_id x)" "\<exists>j < n. \<exists>it' \<in> set ((L(i := rest)) j). qd_id it' = qd_id x \<and> qd_role it' = Follow"
      using ne g(2) dn(1) by metis+
  next
    fix j x assume x: "j < n" "x \<in> set ((L(i := rest)) j)" "qd_role x = Follow"
    show "dn' (qd_id x) \<or> (\<exists>j < n. \<exists>it' \<in> set ((L(i := rest)) j). qd_id it' = qd_id x \<and> qd_role it' = Lead)"
    proof (cases "dn (qd_id x)")
      case False
      then obtain j' y where y: "j' < n" "y \<in> set (L j')" "qd_id y = qd_id x" "qd_role y = Lead"
        using lines_ok_follow[OF ok x(1) g(1)[OF x(2)] x(3)] by blast
      then have "y \<in> set ((L(i := rest)) j') \<or> y = it"
        using i(2) by (cases "j' = i") auto
      then show ?thesis using y dn(2) by metis
    qed (metis dn)
  next
    fix m
    have "(\<forall>j < n. \<forall>x \<in> set ((L(i := rest)) j). qd_id x = m \<longrightarrow> qd_role x = Follow) \<longleftrightarrow>
        m = qd_id it \<or> (\<forall>j < n. \<forall>x \<in> set (L j). qd_id x = m \<longrightarrow> qd_role x = Follow)"
      using other g(1,2) by metis
    then show "(m \<in> fst ` set ended') =
        (m < length jobs \<and> (\<forall>j < n. \<forall>x \<in> set ((L(i := rest)) j). qd_id x = m \<longrightarrow> qd_role x = Follow))"
      using lines_ok_ended[OF ok, of m] lines_ok_item[OF ok i(1) it] ended(1) by auto
  next
    fix m k assume m: "m < length jobs" "m \<notin> fst ` set ended'" "k \<in> keys_of (jobs ! m)"
    then have ne: "m \<noteq> qd_id it" "m \<notin> fst ` set ended" using ended(1) by simp_all
    from lines_ok_keys[OF ok m(1) ne(2) m(3)] ne(1) show "\<exists>x \<in> set ((L(i := rest)) (PartitionOf k n)). qd_id x = m"
      using g(2) by metis
  qed
qed

lemma same_job_elsewhere:
  assumes ok: "lines_ok n jobs ended dn L" and i: "i < n" "L i = it # rest"
    and x: "j < n" "x \<in> set ((L(i := rest)) j)" "qd_id x = qd_id it"
  shows "x \<in> set (L j)" "{qd_role it, qd_role x} = {Lead, Follow}"
proof -
  note g = line_head_gone[OF ok i]
  show xj: "x \<in> set (L j)" using g(1) x(2) .
  have "j \<noteq> i" using g(3) x by auto
  then show "{qd_role it, qd_role x} = {Lead, Follow}"
    using lines_ok_pair[OF ok i(1) x(1) _ _ xj, of it] x(3) i(2) by simp
qed

lemma lines_ok_finish:
  assumes ok: "lines_ok n jobs ended dn L" and i: "i < n" "L i = it # rest" and r: "qd_role it \<noteq> Follow"
  shows "lines_ok n jobs (ended @ [(qd_id it, why)]) (if qd_role it = Lead then dn(qd_id it := True) else dn) (L(i := rest))"
proof (rule lines_ok_pop[OF ok i])
  show "qd_role x = Follow" if "j < n" "x \<in> set ((L(i := rest)) j)" "qd_id x = qd_id it" for j x
    using same_job_elsewhere(2)[OF ok i that] r by (auto simp: doubleton_eq_iff)
  have "qd_id it \<notin> fst ` set ended" using lines_ok_ended[OF ok, of "qd_id it"] i r by fastforce
  then show "distinct (map fst (ended @ [(qd_id it, why)]))" using lines_ok_distinct[OF ok] by auto
qed auto

lemma lines_ok_leave:
  assumes ok: "lines_ok n jobs ended dn L" and i: "i < n" "L i = it # rest" and r: "qd_role it = Follow" "dn (qd_id it)"
  shows "lines_ok n jobs ended dn (L(i := rest))"
proof (rule lines_ok_pop[OF ok i])
  have it: "it \<in> set (L i)" using i(2) by simp
  have gone: False if x: "j < n" "x \<in> set ((L(i := rest)) j)" "qd_id x = qd_id it" for j x
  proof -
    have "qd_role x = Lead" using same_job_elsewhere(2)[OF ok i x] r(1) by (auto simp: doubleton_eq_iff)
    with lines_ok_lead[OF ok x(1) same_job_elsewhere(1)[OF ok i x]] r(2) x(3) show False by simp
  qed
  then show "qd_role x = Follow" if "j < n" "x \<in> set ((L(i := rest)) j)" "qd_id x = qd_id it" for j x using that by blast
  have "qd_role x = Follow" if "j < n" "x \<in> set (L j)" "qd_id x = qd_id it" for j x
    using gone[OF that(1) _ that(3)] that i(2) r(1) by (cases "j = i") auto
  then have "qd_id it \<in> fst ` set ended" using lines_ok_ended[OF ok] lines_ok_item[OF ok i(1) it] by blast
  then show "fst ` set ended = insert (qd_id it) (fst ` set ended)" by blast
  show "distinct (map fst ended)" using lines_ok_distinct[OF ok] .
qed (use r in auto)

text \<open>A submitted job is the last of every line it is in.\<close>

lemma lines_ok_push:
  assumes ok: "lines_ok n jobs ended dn L"
    and X: "\<And>p x. p < n \<Longrightarrow> x \<in> set (X p) \<Longrightarrow> qd_id x = length jobs \<and> qd_job x = job" "\<And>p. p < n \<Longrightarrow> length (X p) \<le> 1"
    and roles: "\<And>p p' x x'. p < n \<Longrightarrow> p' < n \<Longrightarrow> p \<noteq> p' \<Longrightarrow> x \<in> set (X p) \<Longrightarrow> x' \<in> set (X p') \<Longrightarrow> {qd_role x, qd_role x'} = {Lead, Follow}"
    and lead: "\<And>p x. p < n \<Longrightarrow> x \<in> set (X p) \<Longrightarrow> qd_role x = Lead \<Longrightarrow> \<not> dn' (length jobs) \<and> (\<exists>p' < n. \<exists>x' \<in> set (X p'). qd_role x' = Follow)"
    and follow: "\<And>p x. p < n \<Longrightarrow> x \<in> set (X p) \<Longrightarrow> qd_role x = Follow \<Longrightarrow> \<exists>p' < n. \<exists>x' \<in> set (X p'). qd_role x' = Lead"
    and keys: "\<And>k. length jobs \<notin> fst ` set ended' \<Longrightarrow> k \<in> keys_of job \<Longrightarrow> X (PartitionOf k n) \<noteq> []"
    and P: "0 < n" "n < 4294967296"
    and ended: "\<And>m. m \<in> fst ` set ended' \<longleftrightarrow> m \<in> fst ` set ended \<or> m = length jobs \<and> (\<forall>p < n. \<forall>x \<in> set (X p). qd_role x = Follow)"
      "distinct (map fst ended')"
    and dn: "\<And>m. m < length jobs \<Longrightarrow> dn' m = dn m"
    and L': "\<And>p. p < n \<Longrightarrow> L' p = L p @ X p"
  shows "lines_ok n (jobs @ [job]) ended' dn' L'"
proof -
  have old: "qd_id x < length jobs" "qd_job x = jobs ! qd_id x" if "p < n" "x \<in> set (L p)" for p x
    using lines_ok_item[OF ok that] by simp_all
  have sub: "x \<in> set (L p) \<Longrightarrow> x \<in> set (L' p)" "x \<in> set (X p) \<Longrightarrow> x \<in> set (L' p)" if "p < n" for p x
    using that by (simp_all add: L')
  note parts = PartitionOf_less[OF P]
  show ?thesis unfolding lines_ok_def
  proof (intro conjI allI impI ballI)
    fix p assume p: "p < n"
    have "sorted_wrt (<) (map qd_id (X p))" using X(2)[OF p] by (cases "X p") auto
    moreover have "qd_id x < qd_id y" if "x \<in> set (L p)" "y \<in> set (X p)" for x y using old[OF p] X(1)[OF p] that by simp
    ultimately show "sorted_wrt (<) (map qd_id (L' p))"
      using lines_ok_sorted[OF ok p] by (simp add: L'[OF p] sorted_wrt_append)
  next
    fix p x assume p: "p < n" "x \<in> set (L' p)"
    then have "x \<in> set (L p) \<or> x \<in> set (X p)" by (auto simp: L')
    then show "qd_id x < length (jobs @ [job])" "qd_job x = (jobs @ [job]) ! qd_id x"
      using old[OF p(1)] X(1)[OF p(1)] by (auto simp: nth_append less_SucI)
  next
    fix p p' x x' assume p: "p < n" "p' < n" "p \<noteq> p'" "x \<in> set (L' p)" "x' \<in> set (L' p')" "qd_id x = qd_id x'"
    then consider "x \<in> set (L p)" "x' \<in> set (L p')" | "x \<in> set (X p)" "x' \<in> set (X p')"
      using old X(1) by (fastforce simp: L')
    then show "{qd_role x, qd_role x'} = {Lead, Follow}"
      using lines_ok_pair[OF ok p(1-3)] p(6) roles[OF p(1-3)] by cases blast+
  next
    fix p x assume p: "p < n" "x \<in> set (L' p)" "qd_role x = Lead"
    then consider "x \<in> set (L p)" | "x \<in> set (X p)" by (auto simp: L')
    then have "\<not> dn' (qd_id x) \<and> (\<exists>j < n. \<exists>it' \<in> set (L' j). qd_id it' = qd_id x \<and> qd_role it' = Follow)"
    proof cases
      case 1
      from lines_ok_lead[OF ok p(1) 1 p(3)] dn[OF old(1)[OF p(1) 1]] sub(1) show ?thesis by metis
    next
      case 2
      from lead[OF p(1) 2 p(3)] X(1) p(1) 2 sub(2) show ?thesis by metis
    qed
    then show "\<not> dn' (qd_id x)" "\<exists>j < n. \<exists>it' \<in> set (L' j). qd_id it' = qd_id x \<and> qd_role it' = Follow" by simp_all
  next
    fix p x assume p: "p < n" "x \<in> set (L' p)" "qd_role x = Follow"
    then consider "x \<in> set (L p)" | "x \<in> set (X p)" by (auto simp: L')
    then show "dn' (qd_id x) \<or> (\<exists>j < n. \<exists>it' \<in> set (L' j). qd_id it' = qd_id x \<and> qd_role it' = Lead)"
    proof cases
      case 1
      from lines_ok_follow[OF ok p(1) 1 p(3)] dn[OF old(1)[OF p(1) 1]] sub(1) show ?thesis by metis
    next
      case 2
      from follow[OF p(1) 2 p(3)] X(1) p(1) 2 sub(2) show ?thesis by metis
    qed
  next
    show "distinct (map fst ended')" using ended(2) .
  next
    fix m
    show "(m \<in> fst ` set ended') = (m < length (jobs @ [job]) \<and> (\<forall>p < n. \<forall>x \<in> set (L' p). qd_id x = m \<longrightarrow> qd_role x = Follow))"
    proof (cases "m < length jobs")
      case True
      then have "(\<forall>x \<in> set (L' p). qd_id x = m \<longrightarrow> qd_role x = Follow) = (\<forall>x \<in> set (L p). qd_id x = m \<longrightarrow> qd_role x = Follow)" if "p < n" for p
        using X(1)[OF that] by (auto simp: L'[OF that])
      with lines_ok_ended[OF ok, of m] True show ?thesis by (auto simp: ended(1))
    next
      case False
      then have "(\<forall>x \<in> set (L' p). qd_id x = m \<longrightarrow> qd_role x = Follow) = (m = length jobs \<longrightarrow> (\<forall>x \<in> set (X p). qd_role x = Follow))" if "p < n" for p
        using X(1)[OF that] old[OF that] by (auto simp: L'[OF that])
      with lines_ok_ended[OF ok, of m] False show ?thesis by (auto simp: ended(1) not_less_less_Suc_eq)
    qed
  next
    fix m k assume m: "m < length (jobs @ [job])" "m \<notin> fst ` set ended'" "k \<in> keys_of ((jobs @ [job]) ! m)"
    show "\<exists>x \<in> set (L' (PartitionOf k n)). qd_id x = m"
    proof (cases "m < length jobs")
      case True
      then have "m \<notin> fst ` set ended" "k \<in> keys_of (jobs ! m)" using m ended(1) by (auto simp: nth_append)
      from lines_ok_keys[OF ok True this] show ?thesis by (auto simp: L'[OF parts])
    next
      case False
      then have "m = length jobs" "k \<in> keys_of job" using m by (auto simp: nth_append less_Suc_eq)
      with keys[of k] m(2) have "X (PartitionOf k n) \<noteq> []" by simp
      then obtain x where "x \<in> set (X (PartitionOf k n))" by (cases "X (PartitionOf k n)") auto
      with X(1)[OF parts] show ?thesis using \<open>m = length jobs\<close> by (auto simp: L'[OF parts])
    qed
  qed
qed

subsection \<open>The invariant of the queue\<close>

definition halves :: "nat \<Rightarrow> 'c queued list \<Rightarrow> nat" where
  "halves m l = length (filter (\<lambda>it. qd_id it = m \<and> qd_role it \<noteq> Solo) l)"

fun worker_ok :: "'c queue \<Rightarrow> 'c worker \<Rightarrow> bool" where
  "worker_ok q Idle = True"
| "worker_ok q (Running it a) \<longleftrightarrow> qd_role it \<noteq> Follow \<and> 1 \<le> a \<and> a \<le> q_maxAttempts q \<and> (qd_role it = Lead \<longrightarrow> q_arrived q (qd_id it) = 0)"
| "worker_ok q (Arrived it) \<longleftrightarrow> qd_role it \<noteq> Solo"
| "worker_ok q (Waiting it) \<longleftrightarrow> qd_role it = Follow \<and> q_arrived q (qd_id it) = 0"

definition queue_ok :: "'c queue \<Rightarrow> bool" where
  "queue_ok q \<longleftrightarrow> length (q_workers q) = length (q_parts q) \<and> 0 < length (q_parts q) \<and> length (q_parts q) < 4294967296 \<and>
     0 < q_maxAttempts q \<and>
     lines_ok (length (q_parts q)) (q_jobs q) (q_ended q) (q_done q) (line q) \<and>
     (\<forall>i < length (q_parts q). worker_ok q (q_workers q ! i)) \<and>
     (\<forall>m. q_arrived q m = sum_list (map (halves m) (q_parts q)))"

lemma queue_okI:
  assumes "length (q_workers q) = length (q_parts q)" "0 < length (q_parts q)" "length (q_parts q) < 4294967296" "0 < q_maxAttempts q"
    and "lines_ok (length (q_parts q)) (q_jobs q) (q_ended q) (q_done q) (line q)"
    and "\<And>i. i < length (q_parts q) \<Longrightarrow> worker_ok q (q_workers q ! i)"
    and "\<And>m. q_arrived q m = sum_list (map (halves m) (q_parts q))"
  shows "queue_ok q"
  using assms unfolding queue_ok_def by blast

lemma queue_okD:
  assumes "queue_ok q"
  shows "length (q_workers q) = length (q_parts q)" "0 < length (q_parts q)" "length (q_parts q) < 4294967296" "0 < q_maxAttempts q"
    and "lines_ok (length (q_parts q)) (q_jobs q) (q_ended q) (q_done q) (line q)"
    and "\<And>i. i < length (q_parts q) \<Longrightarrow> worker_ok q (q_workers q ! i)"
    and "\<And>m. q_arrived q m = sum_list (map (halves m) (q_parts q))"
  using assms unfolding queue_ok_def by blast+

lemma drop_job_sel [simp]:
  "q_parts (drop_job m job why q) = q_parts q" "q_workers (drop_job m job why q) = q_workers q"
  "q_arrived (drop_job m job why q) = q_arrived q" "q_done (drop_job m job why q) = q_done q"
  "q_jobs (drop_job m job why q) = q_jobs q" "q_maxAttempts (drop_job m job why q) = q_maxAttempts q"
  "q_ended (drop_job m job why q) = q_ended q @ [(m, why)]" "line (drop_job m job why q) = line q"
  by (simp_all add: drop_job_def line_def fun_eq_iff)

lemma put_sel [simp]:
  "q_workers (put i it q) = q_workers q" "q_arrived (put i it q) = q_arrived q" "q_done (put i it q) = q_done q"
  "q_jobs (put i it q) = q_jobs q" "q_maxAttempts (put i it q) = q_maxAttempts q" "q_ended (put i it q) = q_ended q"
  "length (q_parts (put i it q)) = length (q_parts q)"
  by (simp_all add: put_def)

lemma halves_simps [simp]: "halves m [] = 0"
  "halves m (it # l) = (if qd_id it = m \<and> qd_role it \<noteq> Solo then 1 else 0) + halves m l"
  "halves m (l @ l') = halves m l + halves m l'"
  by (simp_all add: halves_def)

lemma halves_pos: "it \<in> set l \<Longrightarrow> qd_id it = m \<Longrightarrow> qd_role it \<noteq> Solo \<Longrightarrow> 0 < halves m l"
  by (auto simp: halves_def length_greater_0_conv filter_empty_conv simp del: length_greater_0_conv intro!: Nat.gr0I)

lemma halves_in_parts:
  assumes "queue_ok q" "i < length (q_parts q)" "it \<in> set (q_parts q ! i)" "qd_role it \<noteq> Solo"
  shows "0 < q_arrived q (qd_id it)"
proof -
  have "halves (qd_id it) (q_parts q ! i) \<le> sum_list (map (halves (qd_id it)) (q_parts q))"
    using assms(2) by (intro member_le_sum_list) simp_all
  then show ?thesis using assms halves_pos[OF assms(3) refl assms(4)] by (simp add: queue_ok_def)
qed

lemma line_upd:
  assumes "i < length (q_workers q)" "i < length (q_parts q)"
  shows "line (q\<lparr>q_workers := (q_workers q)[i := v]\<rparr>) = (line q)(i := held v @ q_parts q ! i)"
    and "line (q\<lparr>q_parts := (q_parts q)[i := l]\<rparr>) = (line q)(i := held (q_workers q ! i) @ l)"
  using assms by (auto simp: line_def fun_eq_iff nth_list_update)

lemma line_eqI: "q_workers q' = q_workers q \<Longrightarrow> q_parts q' = q_parts q \<Longrightarrow> line q' = line q"
  by (simp add: line_def fun_eq_iff)

lemma queue_ok_New: "workers < 4294967296 \<Longrightarrow> queue_ok (NewQueue capacity workers maxAttempts)"
  by (auto simp: queue_ok_def NewQueue_def Let_def lines_ok_def line_def sum_list_replicate)

lemma sum_halves_update:
  assumes "i < length ls"
  shows "sum_list (map (halves m) (ls[i := l])) + halves m (ls ! i) = sum_list (map (halves m) ls) + halves m l"
proof -
  have "halves m (ls ! i) \<le> sum_list (map (halves m) ls)" using assms by (intro member_le_sum_list) simp_all
  then show ?thesis using assms by (simp add: map_update sum_list_update)
qed

lemma sum_halves_fresh:
  assumes "queue_ok q" "length (q_jobs q) \<le> m"
  shows "sum_list (map (halves m) (q_parts q)) = 0"
proof -
  have "halves m l = 0" if l: "l \<in> set (q_parts q)" for l
  proof (rule ccontr)
    assume "halves m l \<noteq> 0"
    then obtain it where it: "it \<in> set l" "qd_id it = m" by (auto simp: halves_def filter_empty_conv)
    obtain i where i: "i < length (q_parts q)" "l = q_parts q ! i" using l by (metis in_set_conv_nth)
    then have "it \<in> set (line q i)" using it by (simp add: line_def)
    from lines_ok_item[OF queue_okD(5)[OF assms(1)] i(1) this] assms(2) it(2) show False by simp
  qed
  then show ?thesis by simp
qed

lemma worker_ok_cong:
  assumes "worker_ok q v" "q_maxAttempts q' = q_maxAttempts q"
    and "\<And>it. it \<in> set (held v) \<Longrightarrow> q_arrived q' (qd_id it) \<le> q_arrived q (qd_id it)"
  shows "worker_ok q' v"
  using assms by (cases v) auto

lemma held_old:
  assumes "queue_ok q" "i < length (q_parts q)" "it \<in> set (held (q_workers q ! i))"
  shows "qd_id it < length (q_jobs q)"
proof -
  have "it \<in> set (line q i)" using assms(3) by (simp add: line_def)
  from lines_ok_item[OF queue_okD(5)[OF assms(1)] assms(2) this] show ?thesis by simp
qed

lemma partition_of_job_less:
  assumes "0 < length (q_parts q)" "length (q_parts q) < 4294967296"
  shows "fst (partition_of_job job q) < length (q_parts q)"
proof -
  have "unat (word_of_nat (length (q_parts q)) :: 64 word) = length (q_parts q)" using assms by (simp add: unat_of_nat)
  with assms PartitionOf_less[OF assms] show ?thesis by (auto simp: partition_of_job_def Let_def unat_mod)
qed

text \<open>A job that is not accepted leaves the lines as they are.\<close>

lemma queue_ok_dropped:
  assumes ok: "queue_ok q"
  shows "queue_ok (drop_job (length (q_jobs q)) job why (q\<lparr>q_turno := t, q_jobs := q_jobs q @ [job]\<rparr>))" (is "queue_ok ?q")
proof -
  let ?n = "length (q_parts q)"
  note o = queue_okD(5,2,3)[OF ok]
  have L: "line (q\<lparr>q_turno := t, q_jobs := q_jobs q @ [job]\<rparr>) = line q" by (rule line_eqI) simp_all
  have "lines_ok ?n (q_jobs q @ [job]) (q_ended q @ [(length (q_jobs q), why)]) (q_done q) (line q)"
  proof (rule lines_ok_push[OF o(1), where X = "\<lambda>_. []"])
    have "length (q_jobs q) \<notin> fst ` set (q_ended q)" using lines_ok_ended[OF o(1)] by blast
    then show "distinct (map fst (q_ended q @ [(length (q_jobs q), why)]))" using lines_ok_distinct[OF o(1)] by auto
  qed (use o(2,3) in auto)
  moreover have "worker_ok ?q (q_workers q ! i)" if "i < ?n" for i
    by (rule worker_ok_cong[OF queue_okD(6)[OF ok that]]) simp_all
  ultimately show ?thesis using queue_okD(1-4,7)[OF ok] by (intro queue_okI) (simp_all add: L)
qed

lemma line_put:
  assumes "i < length (q_parts q)"
  shows "line (put i it q) p = line q p @ (if p = i then [it] else [])"
  using assms by (simp add: line_def put_def nth_list_update)

lemma queue_ok_solo:
  assumes ok: "queue_ok q" and i: "i < length (q_parts q)"
    and k: "\<And>k. k \<in> keys_of job \<Longrightarrow> PartitionOf k (length (q_parts q)) = i"
  shows "queue_ok (put i \<lparr>qd_job = job, qd_id = length (q_jobs q), qd_role = Solo\<rparr>
    (q\<lparr>q_turno := t, q_jobs := q_jobs q @ [job]\<rparr>))" (is "queue_ok ?q")
proof -
  let ?it = "\<lparr>qd_job = job, qd_id = length (q_jobs q), qd_role = Solo\<rparr>"
  let ?X = "\<lambda>p. if p = i then [?it] else []"
  note o = queue_okD[OF ok]
  have L: "line (q\<lparr>q_turno := t, q_jobs := q_jobs q @ [job]\<rparr>) = line q" by (rule line_eqI) simp_all
  have "lines_ok (length (q_parts q)) (q_jobs q @ [job]) (q_ended q) (q_done q) (line ?q)"
  proof (rule lines_ok_push[OF o(5), where X = ?X])
    show "m \<in> fst ` set (q_ended q) \<longleftrightarrow> m \<in> fst ` set (q_ended q) \<or>
        m = length (q_jobs q) \<and> (\<forall>p < length (q_parts q). \<forall>x \<in> set (?X p). qd_role x = Follow)" for m
      using i by auto
    show "line ?q p = line q p @ ?X p" if "p < length (q_parts q)" for p using line_put[of i "q\<lparr>q_turno := t, q_jobs := q_jobs q @ [job]\<rparr>"] i by (simp add: L)
    show "?X (PartitionOf k (length (q_parts q))) \<noteq> []" if "k \<in> keys_of job" for k using k[OF that] by simp
    show "distinct (map fst (q_ended q))" using lines_ok_distinct[OF o(5)] .
  qed (use o(2,3) in \<open>auto split: if_splits\<close>)
  moreover have "worker_ok ?q (q_workers q ! p)" if "p < length (q_parts q)" for p
    by (rule worker_ok_cong[OF o(6)[OF that]]) simp_all
  moreover have "sum_list (map (halves m) (q_parts ?q)) = sum_list (map (halves m) (q_parts q))" for m
    using sum_halves_update[OF i, of m "q_parts q ! i @ [?it]"] by (simp add: put_def)
  ultimately show ?thesis using o(1-4,7) by (intro queue_okI) simp_all
qed

lemma queue_ok_pair:
  assumes ok: "queue_ok q" and i: "i < length (q_parts q)" "j < length (q_parts q)" "j \<noteq> i"
    and k: "\<And>k. k \<in> keys_of job \<Longrightarrow> PartitionOf k (length (q_parts q)) \<in> {i, j}"
  shows "queue_ok (put j \<lparr>qd_job = job, qd_id = length (q_jobs q), qd_role = Follow\<rparr>
    (put i \<lparr>qd_job = job, qd_id = length (q_jobs q), qd_role = Lead\<rparr>
      (q\<lparr>q_turno := t, q_jobs := q_jobs q @ [job], q_arrived := (q_arrived q)(length (q_jobs q) := 2),
         q_done := (q_done q)(length (q_jobs q) := False)\<rparr>)))" (is "queue_ok ?q")
proof -
  let ?m = "length (q_jobs q)" and ?n = "length (q_parts q)"
  let ?a = "\<lparr>qd_job = job, qd_id = ?m, qd_role = Lead\<rparr>" and ?b = "\<lparr>qd_job = job, qd_id = ?m, qd_role = Follow\<rparr>"
  let ?base = "q\<lparr>q_turno := t, q_jobs := q_jobs q @ [job], q_arrived := (q_arrived q)(?m := 2), q_done := (q_done q)(?m := False)\<rparr>"
  let ?X = "\<lambda>p. if p = i then [?a] else if p = j then [?b] else []"
  note o = queue_okD[OF ok]
  have L: "line ?base = line q" by (rule line_eqI) simp_all
  have "lines_ok ?n (q_jobs q @ [job]) (q_ended q) ((q_done q)(?m := False)) (line ?q)"
  proof (rule lines_ok_push[OF o(5), where X = ?X])
    show "m \<in> fst ` set (q_ended q) \<longleftrightarrow> m \<in> fst ` set (q_ended q) \<or> m = ?m \<and> (\<forall>p < ?n. \<forall>x \<in> set (?X p). qd_role x = Follow)" for m
      using i by auto
    show "line ?q p = line q p @ ?X p" for p
      using line_put[of i ?base ?a p] line_put[of j "put i ?a ?base" ?b p] i by (auto simp: L)
    show "?X (PartitionOf k ?n) \<noteq> []" if "k \<in> keys_of job" for k using k[OF that] by auto
    show "distinct (map fst (q_ended q))" using lines_ok_distinct[OF o(5)] .
    show "\<not> ((q_done q)(?m := False)) ?m \<and> (\<exists>p' < ?n. \<exists>x' \<in> set (?X p'). qd_role x' = Follow)" using i by auto
    show "\<exists>p' < ?n. \<exists>x' \<in> set (?X p'). qd_role x' = Lead" using i by auto
  qed (use o(2,3) i in \<open>auto split: if_splits\<close>)
  moreover have "worker_ok ?q (q_workers q ! p)" if "p < ?n" for p
    by (rule worker_ok_cong[OF o(6)[OF that]]) (auto dest: held_old[OF ok that])
  moreover have "sum_list (map (halves m) (q_parts ?q)) = (if m = ?m then 2 else 0) + sum_list (map (halves m) (q_parts q))" for m
    using sum_halves_update[OF i(1), of m "q_parts q ! i @ [?a]"]
      sum_halves_update[of j "(q_parts q)[i := q_parts q ! i @ [?a]]" m "q_parts q ! j @ [?b]"] i
    by (auto simp: put_def)
  ultimately show ?thesis using o(1-4,7) sum_halves_fresh[OF ok] by (intro queue_okI) simp_all
qed

lemma queue_ok_Submit:
  assumes "queue_ok q"
  shows "queue_ok (Submit job q)"
proof -
  obtain i t where p: "partition_of_job job q = (i, t)" by fastforce
  note o = queue_okD[OF assms]
  have i: "i < length (q_parts q)" using partition_of_job_less[OF o(2,3), of job] p by simp
  have kk: "k = jb_Key job \<and> PartitionOf k (length (q_parts q)) = i \<or> k = jb_Key2 job \<and> jb_Key2 job \<noteq> ''''" if "k \<in> keys_of job" for k
    using that p by (auto simp: keys_of_def partition_of_job_def)
  show ?thesis
  proof (cases "jb_Key2 job \<noteq> '''' \<and> PartitionOf (jb_Key2 job) (length (q_parts q)) \<noteq> i")
    case True
    have "PartitionOf k (length (q_parts q)) \<in> {i, PartitionOf (jb_Key2 job) (length (q_parts q))}" if "k \<in> keys_of job" for k
      using kk[OF that] by auto
    then have "queue_ok (put (PartitionOf (jb_Key2 job) (length (q_parts q))) \<lparr>qd_job = job, qd_id = length (q_jobs q), qd_role = Follow\<rparr>
      (put i \<lparr>qd_job = job, qd_id = length (q_jobs q), qd_role = Lead\<rparr>
        (q\<lparr>q_turno := t, q_jobs := q_jobs q @ [job], q_arrived := (q_arrived q)(length (q_jobs q) := 2),
           q_done := (q_done q)(length (q_jobs q) := False)\<rparr>)))"
      using True by (intro queue_ok_pair[OF assms i PartitionOf_less[OF o(2,3)]]) simp_all
    then show ?thesis using True queue_ok_dropped[OF assms] by (simp add: Submit_def p submitPair_def Let_def)
  next
    case False
    then have "PartitionOf k (length (q_parts q)) = i" if "k \<in> keys_of job" for k
      using kk[OF that] by auto
    then have "queue_ok (put i \<lparr>qd_job = job, qd_id = length (q_jobs q), qd_role = Solo\<rparr>
        (q\<lparr>q_turno := t, q_jobs := q_jobs q @ [job]\<rparr>))"
      by (rule queue_ok_solo[OF assms i])
    then show ?thesis using False queue_ok_dropped[OF assms] by (auto simp: Submit_def p Let_def)
  qed
qed

text \<open>A step of a worker, given what it does to the line of the worker:\<close>

lemma queue_ok_worker:
  assumes ok: "queue_ok q" and i: "i < length (q_parts q)"
    and w: "q_workers q' = (q_workers q)[i := v]" "worker_ok q' v" "q_maxAttempts q' = q_maxAttempts q"
    and l: "lines_ok (length (q_parts q)) (q_jobs q) (q_ended q') (q_done q') ((line q)(i := held v @ q_parts q' ! i))"
      "q_jobs q' = q_jobs q"
    and p: "q_parts q' = (q_parts q)[i := l]" "\<And>m. q_arrived q' m + halves m (q_parts q ! i) = q_arrived q m + halves m l"
      "\<And>m. q_arrived q' m \<le> q_arrived q m"
  shows "queue_ok q'"
proof -
  note o = queue_okD[OF ok]
  have "line q' = (line q)(i := held v @ q_parts q' ! i)"
    using i o(1) by (auto simp: line_def fun_eq_iff w p(1) nth_list_update)
  moreover have "worker_ok q' (q_workers q' ! j)" if j: "j < length (q_parts q)" for j
  proof (cases "j = i")
    case False
    then show ?thesis using worker_ok_cong[OF o(6)[OF j] w(3) p(3)] by (simp add: w(1))
  qed (use i o(1) w in simp)
  moreover have "q_arrived q' m = sum_list (map (halves m) (q_parts q'))" for m
    using sum_halves_update[OF i, of m l] p(2)[of m] o(7)[of m] by (simp add: p(1))
  ultimately show ?thesis using o(1-4) l by (intro queue_okI) (simp_all add: w p(1))
qed

lemma line_worker: "q_workers q ! i = v \<Longrightarrow> line q i = held v @ q_parts q ! i"
  by (simp add: line_def)

lemma line_same: "line q i = l \<Longrightarrow> (line q)(i := l) = line q"
  by auto

lemma queue_ok_finish:
  assumes ok: "queue_ok q" and i: "i < length (q_parts q)" and v: "q_workers q ! i = Running it a"
    and q': "q_parts q' = q_parts q" "q_workers q' = q_workers q" "q_jobs q' = q_jobs q" "q_maxAttempts q' = q_maxAttempts q"
      "q_arrived q' = q_arrived q" "q_done q' = q_done q" "q_ended q' = q_ended q @ [(qd_id it, why)]"
  shows "queue_ok (finish_job i it q')"
proof (rule queue_ok_worker[OF ok i, where v = Idle and l = "q_parts q ! i"])
  have "line q i = it # q_parts q ! i" using line_worker[OF v] by simp
  moreover have "qd_role it \<noteq> Follow" using queue_okD(6)[OF ok i] v by simp
  ultimately show "lines_ok (length (q_parts q)) (q_jobs q) (q_ended (finish_job i it q')) (q_done (finish_job i it q'))
      ((line q)(i := held Idle @ q_parts (finish_job i it q') ! i))"
    using lines_ok_finish[OF queue_okD(5)[OF ok] i, of it _ why] by (cases "qd_role it = Lead") (simp_all add: finish_job_def q')
qed (simp_all add: finish_job_def q')

lemma queue_ok_act:
  assumes ok: "queue_ok q" and act: "worker_act a q = Some q'"
  shows "queue_ok q'"
proof -
  note o = queue_okD[OF ok]

  show ?thesis
  proof (cases a)
    case (Take i)
    then obtain it rest where i: "i < length (q_parts q)" "q_workers q ! i = Idle" "q_parts q ! i = it # rest"
      using act o(1) by (auto split: if_splits worker.splits list.splits)
    have sm: "(line q)(i := it # rest) = line q" using line_worker[OF i(2)] i(3) by (intro line_same) simp
    show ?thesis
    proof (cases "qd_role it = Solo")
      case True
      with act Take i o(1) have "q' = q\<lparr>q_parts := (q_parts q)[i := rest], q_workers := (q_workers q)[i := Running it 1]\<rparr>" by simp
      then show ?thesis using o(4,5) i True
        by (intro queue_ok_worker[OF ok i(1), where v = "Running it 1" and l = rest]) (simp_all add: sm)
    next
      case False
      with act Take i o(1) have q': "q' = q\<lparr>q_parts := (q_parts q)[i := rest], q_workers := (q_workers q)[i := Arrived it],
          q_arrived := (q_arrived q)(qd_id it := q_arrived q (qd_id it) - 1)\<rparr>" by simp
      have "0 < q_arrived q (qd_id it)" using halves_in_parts[OF ok i(1) _ False] i(3) by simp
      then show ?thesis using o(5) i False
        by (intro queue_ok_worker[OF ok i(1), where v = "Arrived it" and l = rest]) (auto simp: q' sm)
    qed
  next
    case (Meet i)
    then obtain it where i: "i < length (q_parts q)" "q_workers q ! i = Arrived it" and a: "q_arrived q (qd_id it) = 0"
      and q': "q' = q\<lparr>q_workers := (q_workers q)[i := if qd_role it = Lead then Running it 1 else Waiting it]\<rparr>"
      using act o(1) by (auto split: if_splits worker.splits)
    have sm: "(line q)(i := it # q_parts q ! i) = line q" using line_worker[OF i(2)] by (intro line_same) simp
    have r: "qd_role it \<noteq> Solo" using o(6)[OF i(1)] i(2) by simp
    show ?thesis
    proof (rule queue_ok_worker[OF ok i(1), where v = "if qd_role it = Lead then Running it 1 else Waiting it" and l = "q_parts q ! i"])
      show "worker_ok q' (if qd_role it = Lead then Running it 1 else Waiting it)"
        using a r o(4) by (cases "qd_role it") (auto simp: q')
      show "lines_ok (length (q_parts q)) (q_jobs q) (q_ended q') (q_done q')
          ((line q)(i := held (if qd_role it = Lead then Running it 1 else Waiting it) @ q_parts q' ! i))"
        using o(5) by (cases "qd_role it = Lead") (simp_all add: q' sm)
    qed (simp_all add: q')
  next
    case (Try i b)
    then obtain it n where i: "i < length (q_parts q)" "q_workers q ! i = Running it n"
      using act o(1) by (auto split: if_splits worker.splits)
    have sm: "(line q)(i := it # q_parts q ! i) = line q" using line_worker[OF i(2)] by (intro line_same) simp
    consider "b" | "\<not> b" "n < q_maxAttempts q" | "\<not> b" "\<not> n < q_maxAttempts q" by blast
    then show ?thesis
    proof cases
      case 1
      with act Try i o(1) have "q' = finish_job i it (q\<lparr>q_ended := q_ended q @ [(qd_id it, Succeeded)]\<rparr>)" by simp
      then show ?thesis using queue_ok_finish[OF ok i] by simp
    next
      case 2
      with act Try i o(1) have q': "q' = q\<lparr>q_workers := (q_workers q)[i := Running it (n + 1)]\<rparr>" by simp
      show ?thesis using o(5) o(6)[OF i(1)] i 2
        by (intro queue_ok_worker[OF ok i(1), where v = "Running it (n + 1)" and l = "q_parts q ! i"])
           (simp_all add: q' sm)
    next
      case 3
      with act Try i o(1) have "q' = finish_job i it (drop_job (qd_id it) (qd_job it) AttemptsExhausted q)" by simp
      then show ?thesis using queue_ok_finish[OF ok i] by simp
    qed
  next
    case (Leave i)
    then obtain it where i: "i < length (q_parts q)" "q_workers q ! i = Waiting it" and d: "q_done q (qd_id it)"
      and q': "q' = q\<lparr>q_workers := (q_workers q)[i := Idle]\<rparr>"
      using act o(1) by (auto split: if_splits worker.splits)
    have ln: "line q i = it # q_parts q ! i" using line_worker[OF i(2)] by simp
    have "qd_role it = Follow" using o(6)[OF i(1)] i(2) by simp
    from lines_ok_leave[OF o(5) i(1) ln this d] show ?thesis
      by (intro queue_ok_worker[OF ok i(1), where v = Idle and l = "q_parts q ! i"]) (simp_all add: q')
  qed
qed

lemma queue_reach_ok: "queue_reach q \<Longrightarrow> queue_ok q"
  by (induction rule: queue_reach.induct) (auto simp: worker_step_def intro: queue_ok_New queue_ok_Submit queue_ok_act)

subsection \<open>Order\<close>

definition running :: "'c queue \<Rightarrow> nat \<Rightarrow> 'c queued \<Rightarrow> bool" where
  "running q i it \<longleftrightarrow> i < length (q_workers q) \<and> (\<exists>a. q_workers q ! i = Running it a)"

lemma head_least:
  assumes "sorted_wrt (<) (map qd_id (h # l))" "x \<in> set (h # l)"
  shows "qd_id h \<le> qd_id x" "x \<in> set l \<Longrightarrow> qd_id h < qd_id x"
  using assms by auto

text \<open>The two halves of a job that runs have been taken, so it heads every line of its keys.\<close>

lemma running_heads:
  assumes ok: "queue_ok q" and r: "running q i it" and k: "k \<in> keys_of (qd_job it)"
    and x: "x \<in> set (line q (PartitionOf k (length (q_parts q))))"
  shows "qd_id it \<le> qd_id x"
proof -
  let ?p = "PartitionOf k (length (q_parts q))"
  note o = queue_okD[OF ok]
  obtain a where i: "i < length (q_parts q)" "q_workers q ! i = Running it a" using r o(1) by (auto simp: running_def)
  have li: "line q i = it # q_parts q ! i" using line_worker[OF i(2)] by simp
  have p: "?p < length (q_parts q)" by (rule PartitionOf_less[OF o(2,3)])
  have m: "qd_id it < length (q_jobs q)" "qd_job it = q_jobs q ! qd_id it" using lines_ok_item[OF o(5) i(1), of it] li by simp_all
  have live: "qd_id it \<notin> fst ` set (q_ended q)" using lines_ok_ended[OF o(5), of "qd_id it"] i li o(6)[OF i(1)] by fastforce
  obtain y where y: "y \<in> set (line q ?p)" "qd_id y = qd_id it" using lines_ok_keys[OF o(5) m(1) live] k m(2) by metis
  have "\<exists>l. line q ?p = y # l"
  proof (cases "?p = i")
    case True
    then show ?thesis using line_unique[OF o(5) i(1), of y it] y li by simp
  next
    case False
    have "{qd_role y, qd_role it} = {Lead, Follow}" using lines_ok_pair[OF o(5) p i(1) False y(1), of it] y(2) li by simp
    then have roles: "qd_role it = Lead" "qd_role y \<noteq> Solo" using o(6)[OF i(1)] i(2) by (auto simp: doubleton_eq_iff)
    then have "q_arrived q (qd_id y) = 0" using o(6)[OF i(1)] i(2) y(2) by simp
    then have "y \<notin> set (q_parts q ! ?p)" using halves_in_parts[OF ok p _ roles(2)] by auto
    then have "y \<in> set (held (q_workers q ! ?p))" using y(1) by (simp add: line_def)
    then show ?thesis by (cases "q_workers q ! ?p") (simp_all add: line_def)
  qed
  then obtain l where l: "line q ?p = y # l" by blast
  with head_least(1)[of y l x] lines_ok_sorted[OF o(5) p] x y(2) show ?thesis by simp
qed

text \<open>
  C19: jobs that write a common entity run one at a time and in the order of their submission: while a
  job runs, every earlier job with a common key has ended, retries included, and no other worker
  runs a job with a common key, also when one of the two has a second key.
\<close>

theorem jobs_in_order:
  assumes "queue_reach q" and "running q i it"
  shows "(\<forall>m < qd_id it. keys_of (q_jobs q ! m) \<inter> keys_of (qd_job it) \<noteq> {} \<longrightarrow> m \<in> fst ` set (q_ended q)) \<and>
    (\<forall>j it'. running q j it' \<and> keys_of (qd_job it') \<inter> keys_of (qd_job it) \<noteq> {} \<longrightarrow> j = i)"
proof -
  have ok: "queue_ok q" by (rule queue_reach_ok[OF assms(1)])
  note o = queue_okD[OF ok]
  have live: "j < length (q_parts q) \<and> v \<in> set (line q j) \<and> qd_role v \<noteq> Follow \<and> qd_id v < length (q_jobs q) \<and>
      qd_job v = q_jobs q ! qd_id v \<and> qd_id v \<notin> fst ` set (q_ended q)" if r: "running q j v" for j v
  proof -
    obtain a where j: "j < length (q_parts q)" "q_workers q ! j = Running v a" using r o(1) by (auto simp: running_def)
    then have v: "v \<in> set (line q j)" by (simp add: line_def)
    then show ?thesis using j o(6)[OF j(1)] lines_ok_item[OF o(5) j(1) v] lines_ok_ended[OF o(5), of "qd_id v"] by fastforce
  qed
  have before: "m \<in> fst ` set (q_ended q)"
    if r: "running q j v" and m: "m < qd_id v" and k: "k \<in> keys_of (q_jobs q ! m)" "k \<in> keys_of (qd_job v)" for j v m k
  proof (rule ccontr)
    assume "m \<notin> fst ` set (q_ended q)"
    moreover have "m < length (q_jobs q)" using live[OF r] m by simp
    ultimately obtain x where "x \<in> set (line q (PartitionOf k (length (q_parts q))))" "qd_id x = m"
      using lines_ok_keys[OF o(5) _ _ k(1)] by blast
    with running_heads[OF ok r k(2)] m show False by fastforce
  qed
  have "j = i" if r: "running q j it'" and k: "k \<in> keys_of (qd_job it')" "k \<in> keys_of (qd_job it)" for j it' k
  proof -
    have "\<not> qd_id it' < qd_id it" using before[OF assms(2), of "qd_id it'" k] k live[OF r] by auto
    moreover have "\<not> qd_id it < qd_id it'" using before[OF r, of "qd_id it" k] k live[OF assms(2)] by auto
    ultimately show ?thesis
      using lines_ok_pair[OF o(5), of j i it' it] live[OF r] live[OF assms(2)] by (auto simp: doubleton_eq_iff)
  qed
  then show ?thesis using before[OF assms(2)] by blast
qed

subsection \<open>The workers never block each other, and every job ends\<close>

lemma line_nonempty: "worker_act a q = None \<Longrightarrow> a = Take i \<Longrightarrow> i < length (q_workers q) \<Longrightarrow> q_parts q ! i \<noteq> [] \<Longrightarrow>
    held (q_workers q ! i) \<noteq> []"
  by (cases "q_workers q ! i"; cases "q_parts q ! i") (auto simp: Let_def split: if_splits)

lemma worker_progress:
  assumes ok: "queue_ok q" and busy: "\<not> quiet q"
  shows "\<exists>q'. worker_step q q'"
proof (rule ccontr)
  assume "\<not> (\<exists>q'. worker_step q q')"
  then have stuck: "worker_act a q = None" for a by (cases "worker_act a q") (auto simp: worker_step_def)
  note o = queue_okD[OF ok]
  let ?busy = "{i. i < length (q_parts q) \<and> line q i \<noteq> []}"
  have "?busy \<noteq> {}"
  proof -
    obtain i where "i < length (q_parts q)" "q_parts q ! i \<noteq> [] \<or> q_workers q ! i \<noteq> Idle"
      using busy o(1) by (auto simp: quiet_def in_set_conv_nth)
    then have "line q i \<noteq> []" by (cases "q_workers q ! i") (auto simp: line_def)
    with \<open>i < length (q_parts q)\<close> show ?thesis by blast
  qed
  then obtain i where i: "i < length (q_parts q)" "line q i \<noteq> []"
    and least: "\<And>j. j < length (q_parts q) \<Longrightarrow> line q j \<noteq> [] \<Longrightarrow> qd_id (hd (line q i)) \<le> qd_id (hd (line q j))"
    using arg_min_if_finite[of ?busy "\<lambda>i. qd_id (hd (line q i))"] by fastforce
  have headed: "\<exists>it. held (q_workers q ! j) = [it] \<and> line q j = it # q_parts q ! j"
    if "j < length (q_parts q)" "line q j \<noteq> []" for j
    using line_nonempty[OF stuck, of _ j] that o(1) by (cases "q_workers q ! j") (auto simp: line_def)
  obtain it where it: "held (q_workers q ! i) = [it]" "line q i = it # q_parts q ! i" using headed[OF i] by blast
  have first: "held (q_workers q ! j) = [x]" if x: "j < length (q_parts q)" "x \<in> set (line q j)" "qd_id x = qd_id it" for j x
  proof -
    obtain y where y: "held (q_workers q ! j) = [y]" "line q j = y # q_parts q ! j" using headed[OF x(1)] x(2) by fastforce
    have "sorted_wrt (<) (map qd_id (y # q_parts q ! j))" using lines_ok_sorted[OF o(5) x(1)] y(2) by simp
    from head_least[OF this, of x] x(2,3) y least[OF x(1)] it(2) show ?thesis by fastforce
  qed
  have notrun: "q_workers q ! j \<noteq> Running x n" if "j < length (q_parts q)" for j x n
    using stuck[of "Try j True"] that o(1) by auto
  have unmet: "q_arrived q (qd_id x) \<noteq> 0" if "j < length (q_parts q)" "q_workers q ! j = Arrived x" for j x
    using stuck[of "Meet j"] that o(1) by (auto split: if_splits)
  have unmet': False if w: "j < length (q_parts q)" "q_workers q ! j = Arrived x" "qd_id x = qd_id it" for j x
  proof -
    have "sum_list (map (halves (qd_id it)) (q_parts q)) \<noteq> 0" using unmet[OF w(1,2)] w(3) o(7) by simp
    then obtain l where "l \<in> set (q_parts q)" "halves (qd_id it) l \<noteq> 0" by auto
    then obtain j' y where y: "j' < length (q_parts q)" "y \<in> set (q_parts q ! j')" "qd_id y = qd_id it"
      by (auto simp: in_set_conv_nth halves_def filter_empty_conv)
    then have "held (q_workers q ! j') = [y]" using first[OF y(1) _ y(3)] by (simp add: line_def)
    moreover have "sorted_wrt (<) (map qd_id (line q j'))" by (rule lines_ok_sorted[OF o(5) y(1)])
    ultimately show False using y(2) by (auto simp: line_def)
  qed
  show False
  proof (cases "q_workers q ! i")
    case (Waiting x)
    then have x: "x = it" using it by simp
    have w: "qd_role it = Follow" "q_arrived q (qd_id it) = 0" using o(6)[OF i(1)] Waiting x by simp_all
    have "\<not> q_done q (qd_id it)" using stuck[of "Leave i"] Waiting x i(1) o(1) by auto
    then obtain j y where y: "j < length (q_parts q)" "y \<in> set (line q j)" "qd_id y = qd_id it" "qd_role y = Lead"
      using lines_ok_follow[OF o(5) i(1), of it] it(2) w(1) by auto
    show False using first[OF y(1-3)] notrun[OF y(1)] unmet'[OF y(1)] y o(6)[OF y(1)]
      by (cases "q_workers q ! j") auto
  qed (use it notrun[OF i(1)] unmet'[OF i(1)] in auto)
qed

fun worker_cost :: "nat \<Rightarrow> 'c worker \<Rightarrow> nat" where
  "worker_cost k Idle = 0"
| "worker_cost k (Running it a) = k + 1 - a"
| "worker_cost k (Arrived it) = k + 2"
| "worker_cost k (Waiting it) = 1"

definition work_left :: "'c queue \<Rightarrow> nat" where
  "work_left q = sum_list (map (\<lambda>l. length l * (q_maxAttempts q + 3)) (q_parts q)) +
     sum_list (map (worker_cost (q_maxAttempts q)) (q_workers q))"

lemma sum_list_upd:
  fixes f :: "'a \<Rightarrow> nat"
  assumes "i < length xs"
  shows "sum_list (map f (xs[i := x])) + f (xs ! i) = sum_list (map f xs) + f x"
proof -
  have "f (xs ! i) \<le> sum_list (map f xs)" using assms by (intro member_le_sum_list) simp_all
  then show ?thesis using assms by (simp add: map_update sum_list_update)
qed

lemma work_left_less:
  assumes ok: "queue_ok q" and "worker_step q q'"
  shows "work_left q' < work_left q"
proof -
  obtain a where act: "worker_act a q = Some q'" using assms(2) by (auto simp: worker_step_def)
  note o = queue_okD[OF ok]
  let ?i = "case a of Take i \<Rightarrow> i | Meet i \<Rightarrow> i | Try i b \<Rightarrow> i | Leave i \<Rightarrow> i"
  have i: "?i < length (q_workers q)" "?i < length (q_parts q)" using act o(1) by (cases a; auto split: if_splits)+
  note u = sum_list_upd[OF i(1), of "worker_cost (q_maxAttempts q)"] sum_list_upd[OF i(2), of "\<lambda>l. length l * (q_maxAttempts q + 3)"]
  show ?thesis
  proof (cases a)
    case (Take i)
    then obtain it rest where "q_workers q ! i = Idle" "q_parts q ! i = it # rest"
      using act by (auto split: if_splits worker.splits list.splits)
    with act Take u(1)[of "Running it 1"] u(1)[of "Arrived it"] u(2)[of rest] i show ?thesis
      by (auto simp: work_left_def Let_def split: if_splits)
  next
    case (Meet i)
    then obtain it where "q_workers q ! i = Arrived it" using act by (auto split: if_splits worker.splits)
    with act Meet u(1)[of "Running it 1"] u(1)[of "Waiting it"] i o(4) show ?thesis
      by (auto simp: work_left_def split: if_splits)
  next
    case (Try i b)
    then obtain it n where w: "q_workers q ! i = Running it n" using act by (auto split: if_splits worker.splits)
    then have "1 \<le> n" "n \<le> q_maxAttempts q" using o(6)[OF i(2)] Try by simp_all
    with w act Try u(1)[of "Running it (n + 1)"] u(1)[of Idle] i show ?thesis
      by (auto simp: work_left_def finish_job_def drop_job_def split: if_splits)
  next
    case (Leave i)
    then show ?thesis using act u(1)[of Idle] i by (auto simp: work_left_def split: if_splits worker.splits)
  qed
qed

inductive drains :: "'c queue \<Rightarrow> bool" where
  drains: "quiet q \<or> (\<exists>q'. worker_step q q') \<Longrightarrow> (\<And>q'. worker_step q q' \<Longrightarrow> drains q') \<Longrightarrow> drains q"

lemma queue_ok_drains: "queue_ok q \<Longrightarrow> drains q"
proof (induction q rule: measure_induct_rule[of work_left])
  case (less q)
  show ?case
  proof (rule drains.drains)
    show "quiet q \<or> (\<exists>q'. worker_step q q')" using worker_progress[OF less.prems] by blast
    show "drains q'" if "worker_step q q'" for q'
      using less.IH[OF work_left_less[OF less.prems that]] that queue_ok_act[OF less.prems] by (auto simp: worker_step_def)
  qed
qed

definition handed :: "'c job list \<Rightarrow> nat \<times> outcome \<Rightarrow> 'c list" where
  "handed jobs e = (case e of (m, why) \<Rightarrow> if why = Succeeded then [] else
     (case jb_OnPermanentFailure (jobs ! m) of None \<Rightarrow> [] | Some c \<Rightarrow> [c]))"

lemma handed_append:
  assumes "\<forall>e \<in> set es. fst e < length jobs"
  shows "concat (map (handed (jobs @ js)) es) = concat (map (handed jobs) es)"
  using assms by (auto simp: handed_def nth_append intro!: arg_cong[of _ _ concat] map_cong split: prod.splits)

definition sent_ok :: "'c queue \<Rightarrow> bool" where
  "sent_ok q \<longleftrightarrow> q_sent q = concat (map (handed (q_jobs q)) (q_ended q))"

lemma sent_ok_Submit:
  assumes ok: "queue_ok q" and "sent_ok q"
  shows "sent_ok (Submit job q)"
proof -
  have "\<forall>e \<in> set (q_ended q). fst e < length (q_jobs q)"
    using lines_ok_ended[OF queue_okD(5)[OF ok]] by (metis image_eqI)
  from handed_append[OF this, of "[job]"] assms(2) show ?thesis
    by (auto simp: sent_ok_def Submit_def submitPair_def drop_job_def put_def Let_def handed_def nth_append
        split: prod.splits option.splits)
qed

lemma sent_ok_act:
  assumes ok: "queue_ok q" and "sent_ok q" and act: "worker_act a q = Some q'"
  shows "sent_ok q'"
proof -
  show ?thesis
  proof (cases a)
    case (Try i b)
    then obtain it n where w: "i < length (q_workers q)" "q_workers q ! i = Running it n"
      using act by (auto split: if_splits worker.splits)
    then have "qd_job it = q_jobs q ! qd_id it"
      using lines_ok_item[OF queue_okD(5)[OF ok], of i it] queue_okD(1)[OF ok] by (simp add: line_def)
    then show ?thesis using assms(2) act Try w
      by (auto simp: sent_ok_def finish_job_def drop_job_def handed_def split: if_splits)
  qed (use assms(2) act in \<open>auto simp: sent_ok_def Let_def split: if_splits worker.splits list.splits\<close>)
qed

lemma queue_reach_sent: "queue_reach q \<Longrightarrow> sent_ok q"
proof (induction rule: queue_reach.induct)
  case (reach_new workers capacity maxAttempts)
  then show ?case by (simp add: sent_ok_def NewQueue_def Let_def)
next
  case (reach_submit q job)
  then show ?case using sent_ok_Submit queue_reach_ok by blast
next
  case (reach_work q q')
  then show ?case using sent_ok_act queue_reach_ok by (auto simp: worker_step_def)
qed

text \<open>
  C20: however the submissions and the workers interleave, the workers do not deadlock: every run
  of their steps ends, and it ends with every channel empty and every worker idle. Then every
  submitted job has ended exactly once, and the loop has been handed exactly the compensations of
  those that were dropped, in the order in which they were dropped.
\<close>

theorem queue_drains:
  assumes "queue_reach q"
  shows "drains q \<and> q_sent q = concat (map (handed (q_jobs q)) (q_ended q)) \<and> distinct (map fst (q_ended q)) \<and>
    (quiet q \<longrightarrow> set (map fst (q_ended q)) = {0..<length (q_jobs q)})"
proof -
  have ok: "queue_ok q" by (rule queue_reach_ok[OF assms])
  note o = queue_okD[OF ok]
  have "set (map fst (q_ended q)) = {0..<length (q_jobs q)}" if "quiet q"
  proof -
    have "line q i = []" if "i < length (q_parts q)" for i
    proof -
      have "q_parts q ! i \<in> set (q_parts q)" "q_workers q ! i \<in> set (q_workers q)" using that o(1) by simp_all
      with \<open>quiet q\<close> have "q_parts q ! i = []" "q_workers q ! i = Idle" unfolding quiet_def by blast+
      then show ?thesis by (simp add: line_def)
    qed
    then have "m \<in> fst ` set (q_ended q) \<longleftrightarrow> m < length (q_jobs q)" for m using lines_ok_ended[OF o(5)] by auto
    then show ?thesis unfolding set_map by (intro set_eqI) (simp only: atLeastLessThan_iff, simp)
  qed
  then show ?thesis
    using queue_ok_drains[OF ok] queue_reach_sent[OF assms] lines_ok_distinct[OF o(5)] by (simp add: sent_ok_def)
qed

subsection \<open>A closed instance\<close>

definition a_job :: "string \<Rightarrow> string \<Rightarrow> nat job" where
  "a_job k1 k2 = \<lparr>jb_Name = ''units.flush'', jb_Key = k1, jb_Key2 = k2, jb_OnPermanentFailure = Some 7\<rparr>"

definition two_jobs :: "nat queue" where
  "two_jobs = Submit (a_job ''city:2'' '''') (Submit (a_job ''city:1'' ''city:2'') (NewQueue 8 2 3))"

lemma two_jobs_reach: "queue_reach two_jobs"
  unfolding two_jobs_def by (intro reach_submit reach_new) simp

theorem queue_drains_witness: "drains two_jobs \<and> \<not> quiet two_jobs \<and> q_sent two_jobs = []"
proof -
  have "\<not> quiet two_jobs" "q_ended two_jobs = []" by code_simp+
  with queue_drains[OF two_jobs_reach] show ?thesis by simp
qed

fun run_acts :: "action list \<Rightarrow> 'c queue \<Rightarrow> 'c queue option" where
  "run_acts [] q = Some q"
| "run_acts (a # as) q = (case worker_act a q of None \<Rightarrow> None | Some q' \<Rightarrow> run_acts as q')"

lemma run_acts_reach: "queue_reach q \<Longrightarrow> run_acts as q = Some q' \<Longrightarrow> queue_reach q'"
proof (induction as arbitrary: q)
  case (Cons a as)
  then obtain q1 where "worker_act a q = Some q1" "run_acts as q1 = Some q'" by (auto split: option.splits)
  then show ?case using Cons.IH[of q1] reach_work[OF Cons.prems(1)] by (auto simp: worker_step_def)
qed simp

definition acts :: "action list" where
  "acts = [Take 0, Take 1, Meet 1, Try 1 False, Meet 0, Try 1 True, Leave 0, Take 0]"

definition second_runs :: "nat queue" where
  "second_runs = the (run_acts acts two_jobs)"

theorem jobs_in_order_witness:
  "\<exists>it. running second_runs 0 it \<and> qd_id it = 1 \<and> 0 \<in> fst ` set (q_ended second_runs)"
proof -
  have "run_acts acts two_jobs \<noteq> None" by code_simp
  then obtain q where "run_acts acts two_jobs = Some q" by blast
  then have reach: "queue_reach second_runs"
    using run_acts_reach[OF two_jobs_reach] by (simp add: second_runs_def)
  have "q_workers second_runs ! 0 = Running \<lparr>qd_job = a_job ''city:2'' '''', qd_id = 1, qd_role = Solo\<rparr> 1"
    "0 < length (q_workers second_runs)" by code_simp+
  then have r: "running second_runs 0 \<lparr>qd_job = a_job ''city:2'' '''', qd_id = 1, qd_role = Solo\<rparr>"
    by (simp add: running_def)
  have "keys_of (q_jobs second_runs ! 0) \<inter> keys_of (a_job ''city:2'' '''') \<noteq> {}" by code_simp
  with conjunct1[OF jobs_in_order[OF reach r], rule_format, of 0] r show ?thesis by auto
qed

end
