(* ===== verification/Chunk_Index.thy ===== *)
theory Chunk_Index
  imports World
begin

unbundle bit_operations_syntax

section \<open>Indexes of things by chunk\<close>

text \<open>
  What internal/game/simulation/state.go and internal/websocket/hub.go have in common: the key of a
  chunk, its two coordinates packed in 64 bits, and maps of sets of ids from which an empty set is
  deleted. Proved: the key tells the chunks of int32 coordinates apart, and entering and leaving
  change exactly the set of their key.
\<close>

type_synonym chunk_key = "64 word"

definition makeChunkKey :: "int32 \<Rightarrow> int32 \<Rightarrow> chunk_key" where
  "makeChunkKey cx cy = push_bit 32 (word_of_int (u32 cx)) OR word_of_int (u32 cy)"

subsection \<open>Sets of things under a key\<close>

definition members :: "('k \<rightharpoonup> 'a set) \<Rightarrow> 'k \<Rightarrow> 'a set" where
  "members m k = (case m k of None \<Rightarrow> {} | Some S \<Rightarrow> S)"

definition enter :: "'a \<Rightarrow> 'k \<Rightarrow> ('k \<rightharpoonup> 'a set) \<Rightarrow> ('k \<rightharpoonup> 'a set)" where
  "enter s k m = m(k \<mapsto> insert s (members m k))"

definition leave :: "'a \<Rightarrow> 'k \<Rightarrow> ('k \<rightharpoonup> 'a set) \<Rightarrow> ('k \<rightharpoonup> 'a set)" where
  "leave s k m =
     (case m k of
        None \<Rightarrow> m
      | Some S \<Rightarrow> if S - {s} = {} then m(k := None) else m(k \<mapsto> S - {s}))"

subsection \<open>Keys of chunks\<close>

definition chunk_i32 :: "chunk_coord \<Rightarrow> bool" where
  "chunk_i32 c \<longleftrightarrow> is_i32 (CX c) \<and> is_i32 (CY c)"

definition key_of :: "chunk_coord \<Rightarrow> chunk_key" where
  "key_of c = makeChunkKey (CX c) (CY c)"

lemma u32_take_bit: "u32 x = take_bit 32 x"
  by (simp add: u32_def take_bit_eq_mod)

lemma bit_makeChunkKey: "bit (makeChunkKey cx cy) n \<longleftrightarrow> (if n < 32 then bit cy n else n < 64 \<and> bit cx (n - 32))"
  by (auto simp: makeChunkKey_def u32_take_bit bit_simps)

lemma makeChunkKey_inj:
  assumes "makeChunkKey cx cy = makeChunkKey cx' cy'" "is_i32 cx" "is_i32 cy" "is_i32 cx'" "is_i32 cy'"
  shows "cx = cx' \<and> cy = cy'"
proof -
  have b: "bit (makeChunkKey cx cy) n = bit (makeChunkKey cx' cy') n" for n using assms(1) by simp
  have "bit cy n = bit cy' n" if "n < 32" for n using b[of n] that by (simp add: bit_makeChunkKey)
  then have "take_bit 32 cy = take_bit 32 cy'" by (intro bit_eqI) (auto simp: bit_take_bit_iff)
  moreover have "bit cx n = bit cx' n" if "n < 32" for n using b[of "n + 32"] that by (simp add: bit_makeChunkKey)
  then have "take_bit 32 cx = take_bit 32 cx'" by (intro bit_eqI) (auto simp: bit_take_bit_iff)
  moreover have "x = y" if "take_bit 32 x = take_bit 32 y" "is_i32 x" "is_i32 y" for x y :: int
  proof -
    have "x mod 4294967296 = y mod 4294967296" using that(1) by (simp add: take_bit_eq_mod)
    then have "i32 x = i32 y" unfolding i32_def by (metis mod_add_left_eq)
    then show ?thesis using that by simp
  qed
  ultimately show ?thesis using assms(2-5) by blast
qed

lemma key_of_inj: "chunk_i32 c \<Longrightarrow> chunk_i32 d \<Longrightarrow> key_of c = key_of d \<longleftrightarrow> c = d"
  using makeChunkKey_inj[of "CX c" "CY c" "CX d" "CY d"] by (auto simp: chunk_i32_def key_of_def)

lemma members_enter [simp]: "members (enter s k m) k' = (if k' = k then insert s (members m k) else members m k')"
  by (simp add: members_def enter_def)

lemma members_leave [simp]: "members (leave s k m) k' = (if k' = k then members m k - {s} else members m k')"
  by (auto simp: members_def leave_def split: option.splits)

definition no_empty :: "('k \<rightharpoonup> 'a set) \<Rightarrow> bool" where
  "no_empty m \<longleftrightarrow> (\<forall>k. m k \<noteq> Some {})"

lemma no_empty_enter [simp]: "no_empty m \<Longrightarrow> no_empty (enter s k m)"
  by (simp add: no_empty_def enter_def)

lemma no_empty_leave [simp]: "no_empty m \<Longrightarrow> no_empty (leave s k m)"
  by (auto simp: no_empty_def leave_def split: option.splits)

lemma fold_enter:
  "members (fold (\<lambda>(k, c). enter s k) l m) k = (if k \<in> fst ` set l then insert s (members m k) else members m k)"
  "no_empty m \<Longrightarrow> no_empty (fold (\<lambda>(k, c). enter s k) l m)"
  by (induction l arbitrary: m) (auto split: prod.splits)

lemma fold_leave:
  "members (fold (\<lambda>(k, c). leave s k) l m) k = (if k \<in> fst ` set l then members m k - {s} else members m k)"
  "no_empty m \<Longrightarrow> no_empty (fold (\<lambda>(k, c). leave s k) l m)"
  by (induction l arbitrary: m) (auto split: prod.splits)

end
