(* ===== verification/Hub.thy ===== *)
theory Hub
  imports Chunk_Index City "HOL-Library.AList"
begin

section \<open>The hub of sessions and its subscriptions\<close>

text \<open>
  Models internal/websocket/hub.go: the registry of sessions, the chunks each one observes and the
  five deliveries of the simulation's Broadcaster. A session object is named by its id (uuid.New
  makes them distinct) and lives in the store hb_objs, which the three indexes of the hub point
  into; its map of chunks is an association list in the order of its iteration. The lock makes an
  operation one step. A delivery is, for each session, the list of messages it is sent; the
  queue of a connection and its closing are not modelled, nor the gauges and the recorder of
  replies. Proved: the indexes are exactly the registered sessions and their chunks, Subscribe
  answers what changed, and each delivery reaches exactly the sessions it names.
\<close>

record session =
  ss_ID :: uuid
  ss_PlayerID :: uuid
  ss_chunks :: "(chunk_key \<times> chunk_coord) list"

record hub =
  hb_objs :: "uuid \<rightharpoonup> session"
  hb_sessions :: "uuid set"
  hb_byPlayer :: "uuid \<rightharpoonup> uuid set"
  hb_byChunk :: "chunk_key \<rightharpoonup> uuid set"

type_synonym 'm deliveries = "uuid \<Rightarrow> 'm list"

definition NewHub :: hub where
  "NewHub = \<lparr>hb_objs = Map.empty, hb_sessions = {}, hb_byPlayer = Map.empty, hb_byChunk = Map.empty\<rparr>"

definition newSession :: "uuid \<Rightarrow> uuid \<Rightarrow> session" where
  "newSession ident player = \<lparr>ss_ID = ident, ss_PlayerID = player, ss_chunks = []\<rparr>"

subsection \<open>Operations\<close>

definition Register :: "session \<Rightarrow> hub \<Rightarrow> hub" where
  "Register s h = h\<lparr>hb_objs := (hb_objs h)(ss_ID s \<mapsto> s),
     hb_sessions := insert (ss_ID s) (hb_sessions h),
     hb_byPlayer := enter (ss_ID s) (ss_PlayerID s) (hb_byPlayer h)\<rparr>"

definition Unregister :: "session \<Rightarrow> hub \<Rightarrow> hub" where
  "Unregister s h = h\<lparr>hb_objs := (hb_objs h)(ss_ID s \<mapsto> s\<lparr>ss_chunks := []\<rparr>),
     hb_sessions := hb_sessions h - {ss_ID s},
     hb_byPlayer := leave (ss_ID s) (ss_PlayerID s) (hb_byPlayer h),
     hb_byChunk := fold (\<lambda>(k, c). leave (ss_ID s) k) (ss_chunks s) (hb_byChunk h)\<rparr>"

definition next_chunks :: "chunk_coord list \<Rightarrow> (chunk_key \<times> chunk_coord) list" where
  "next_chunks chunks = fold (\<lambda>c. AList.update (makeChunkKey (CX c) (CY c)) c) chunks []"

definition Subscribe :: "session \<Rightarrow> chunk_coord list \<Rightarrow> hub \<Rightarrow> hub \<times> chunk_coord list \<times> chunk_coord list" where
  "Subscribe s chunks h =
     (let nxt = next_chunks chunks;
          entered = filter (\<lambda>(k, c). map_of (ss_chunks s) k = None) nxt;
          left = filter (\<lambda>(k, c). map_of nxt k = None) (ss_chunks s)
      in (h\<lparr>hb_byChunk := fold (\<lambda>(k, c). leave (ss_ID s) k) left (fold (\<lambda>(k, c). enter (ss_ID s) k) entered (hb_byChunk h)),
            hb_objs := (hb_objs h)(ss_ID s \<mapsto> s\<lparr>ss_chunks := nxt\<rparr>)\<rparr>,
          map snd entered, map snd left))"

subsection \<open>Deliveries\<close>

definition deliver_to :: "uuid set \<Rightarrow> 'm \<Rightarrow> 'm deliveries" where
  "deliver_to S m = (\<lambda>s. if s \<in> S then [m] else [])"

definition owner_of :: "hub \<Rightarrow> uuid \<Rightarrow> uuid option" where
  "owner_of h s = map_option ss_PlayerID (hb_objs h s)"

definition BroadcastChunk :: "hub \<Rightarrow> int32 \<Rightarrow> int32 \<Rightarrow> 'm \<Rightarrow> 'm deliveries" where
  "BroadcastChunk h cx cy m = deliver_to (members (hb_byChunk h) (makeChunkKey cx cy)) m"

definition BroadcastChunkExcept :: "hub \<Rightarrow> int32 \<Rightarrow> int32 \<Rightarrow> uuid \<Rightarrow> 'm \<Rightarrow> 'm deliveries" where
  "BroadcastChunkExcept h cx cy except m =
     deliver_to {s \<in> members (hb_byChunk h) (makeChunkKey cx cy). owner_of h s \<noteq> Some except} m"

definition BroadcastChunks :: "hub \<Rightarrow> chunk_coord list \<Rightarrow> 'm \<Rightarrow> 'm deliveries" where
  "BroadcastChunks h chunks m = deliver_to (\<Union>c \<in> set chunks. members (hb_byChunk h) (makeChunkKey (CX c) (CY c))) m"

definition BroadcastChunkTransition ::
  "hub \<Rightarrow> chunk_coord \<Rightarrow> chunk_coord \<Rightarrow> uuid \<Rightarrow> 'm \<Rightarrow> 'm \<Rightarrow> 'm deliveries" where
  "BroadcastChunkTransition h from to onlyPlayer spawn despawn =
     (if from = to then (\<lambda>s. [])
      else let admitida = (\<lambda>s. onlyPlayer = 0 \<or> owner_of h s = Some onlyPlayer);
               fromSet = members (hb_byChunk h) (makeChunkKey (CX from) (CY from));
               toSet = members (hb_byChunk h) (makeChunkKey (CX to) (CY to));
               spawns = {s \<in> toSet. s \<notin> fromSet \<and> admitida s};
               despawns = {s \<in> fromSet. s \<notin> toSet \<and> admitida s}
           in (\<lambda>s. deliver_to spawns spawn s @ deliver_to despawns despawn s))"

definition SendToPlayer :: "hub \<Rightarrow> uuid \<Rightarrow> 'm \<Rightarrow> 'm deliveries" where
  "SendToPlayer h player m = deliver_to (members (hb_byPlayer h) player) m"

definition SessionCount_hub :: "hub \<Rightarrow> nat" where "SessionCount_hub h = card (hb_sessions h)"
definition PlayerCount :: "hub \<Rightarrow> nat" where "PlayerCount h = card (dom (hb_byPlayer h))"

subsection \<open>What Subscribe keeps of the chunks it is given\<close>

lemma next_chunks_set:
  assumes "\<forall>c \<in> set chunks. chunk_i32 c"
  shows "distinct (map fst (next_chunks chunks)) \<and> set (next_chunks chunks) = (\<lambda>c. (key_of c, c)) ` set chunks"
proof -
  have "distinct (map fst l) \<Longrightarrow> set l = (\<lambda>c. (key_of c, c)) ` S \<Longrightarrow> \<forall>c \<in> S. chunk_i32 c \<Longrightarrow>
      distinct (map fst (fold (\<lambda>c. AList.update (key_of c) c) chunks l)) \<and>
      set (fold (\<lambda>c. AList.update (key_of c) c) chunks l) = (\<lambda>c. (key_of c, c)) ` (S \<union> set chunks)" for l S
    using assms
  proof (induction chunks arbitrary: l S)
    case (Cons c chunks)
    have d: "distinct (map fst (AList.update (key_of c) c l))" using Cons.prems(1) by (simp add: distinct_update)
    have "set (AList.update (key_of c) c l) = (\<lambda>c. (key_of c, c)) ` (insert c S)"
    proof -
      have "(k, x) \<in> set (AList.update (key_of c) c l) \<longleftrightarrow> (k, x) \<in> (\<lambda>c. (key_of c, c)) ` (insert c S)" for k x
      proof -
        have "(k, x) \<in> set (AList.update (key_of c) c l) \<longleftrightarrow> map_of (AList.update (key_of c) c l) k = Some x"
          using d by simp
        also have "\<dots> \<longleftrightarrow> (if k = key_of c then x = c else (k, x) \<in> set l)"
          using Cons.prems(1) by (simp add: update_conv' eq_commute)
        also have "\<dots> \<longleftrightarrow> (k, x) \<in> (\<lambda>c. (key_of c, c)) ` (insert c S)"
          using Cons.prems(2-4) key_of_inj by auto
        finally show ?thesis .
      qed
      then show ?thesis by auto
    qed
    with Cons.IH[OF d this] Cons.prems(3,4) show ?case by simp
  qed simp
  from this[of "[]" "{}"] show ?thesis by (simp add: next_chunks_def key_of_def)
qed

subsection \<open>The indexes are exact\<close>

definition session_ok :: "uuid \<Rightarrow> session \<Rightarrow> bool" where
  "session_ok ident s \<longleftrightarrow> ss_ID s = ident \<and> distinct (map fst (ss_chunks s)) \<and>
     (\<forall>(k, c) \<in> set (ss_chunks s). k = key_of c \<and> chunk_i32 c)"

definition observes :: "hub \<Rightarrow> uuid \<Rightarrow> chunk_coord \<Rightarrow> bool" where
  "observes h s c \<longleftrightarrow> s \<in> hb_sessions h \<and> (\<exists>ob. hb_objs h s = Some ob \<and> c \<in> snd ` set (ss_chunks ob))"

definition watched_keys :: "hub \<Rightarrow> uuid \<Rightarrow> chunk_key set" where
  "watched_keys h s = (case hb_objs h s of None \<Rightarrow> {} | Some ob \<Rightarrow> fst ` set (ss_chunks ob))"

definition hub_ok :: "hub \<Rightarrow> bool" where
  "hub_ok h \<longleftrightarrow> (\<forall>s \<in> hb_sessions h. \<exists>ob. hb_objs h s = Some ob \<and> session_ok s ob) \<and>
     no_empty (hb_byChunk h) \<and> (\<forall>k. members (hb_byChunk h) k = {s \<in> hb_sessions h. k \<in> watched_keys h s}) \<and>
     no_empty (hb_byPlayer h) \<and> (\<forall>p. members (hb_byPlayer h) p = {s \<in> hb_sessions h. owner_of h s = Some p})"

inductive hub_reach :: "hub \<Rightarrow> bool" where
  hub_new: "hub_reach NewHub"
| hub_register: "hub_reach h \<Longrightarrow> hb_objs h ident = None \<Longrightarrow> hub_reach (Register (newSession ident player) h)"
| hub_subscribe: "hub_reach h \<Longrightarrow> ident \<in> hb_sessions h \<Longrightarrow> hb_objs h ident = Some s \<Longrightarrow> \<forall>c \<in> set chunks. chunk_i32 c \<Longrightarrow>
    hub_reach (fst (Subscribe s chunks h))"
| hub_unregister: "hub_reach h \<Longrightarrow> ident \<in> hb_sessions h \<Longrightarrow> hb_objs h ident = Some s \<Longrightarrow> hub_reach (Unregister s h)"

lemma hub_ok_Register:
  assumes "hub_ok h" "hb_objs h ident = None"
  shows "hub_ok (Register (newSession ident player) h)"
proof -
  have "ident \<notin> hb_sessions h" using assms by (auto simp: hub_ok_def)
  then show ?thesis using assms
    by (auto simp: hub_ok_def Register_def newSession_def session_ok_def watched_keys_def owner_of_def)
qed

lemma hub_ok_Subscribe:
  assumes ok: "hub_ok h" and s: "ident \<in> hb_sessions h" "hb_objs h ident = Some s" and c: "\<forall>c \<in> set chunks. chunk_i32 c"
  shows "hub_ok (fst (Subscribe s chunks h))"
proof -
  have so: "session_ok ident s" using ok s by (auto simp: hub_ok_def)
  then have i: "ss_ID s = ident" by (simp add: session_ok_def)
  note n = next_chunks_set[OF c]
  define entered where "entered = filter (\<lambda>(k, c). map_of (ss_chunks s) k = None) (next_chunks chunks)"
  define left where "left = filter (\<lambda>(k, c). map_of (next_chunks chunks) k = None) (ss_chunks s)"
  have e: "k \<in> fst ` set entered \<longleftrightarrow> k \<in> fst ` set (next_chunks chunks) \<and> k \<notin> fst ` set (ss_chunks s)" for k
    by (force simp: entered_def map_of_eq_None_iff)
  have l: "k \<in> fst ` set left \<longleftrightarrow> k \<in> fst ` set (ss_chunks s) \<and> k \<notin> fst ` set (next_chunks chunks)" for k
    by (force simp: left_def map_of_eq_None_iff)
  have h': "fst (Subscribe s chunks h) =
      h\<lparr>hb_byChunk := fold (\<lambda>(k, c). leave ident k) left (fold (\<lambda>(k, c). enter ident k) entered (hb_byChunk h)),
        hb_objs := (hb_objs h)(ident \<mapsto> s\<lparr>ss_chunks := next_chunks chunks\<rparr>)\<rparr>"
    by (simp add: Subscribe_def i entered_def left_def Let_def)
  have "session_ok ident (s\<lparr>ss_chunks := next_chunks chunks\<rparr>)" using n c i by (auto simp: session_ok_def)
  moreover have "members (hb_byChunk (fst (Subscribe s chunks h))) k =
      {t \<in> hb_sessions h. k \<in> watched_keys (fst (Subscribe s chunks h)) t}" for k
  proof -
    have m: "members (hb_byChunk h) k = {t \<in> hb_sessions h. k \<in> watched_keys h t}" using ok by (simp add: hub_ok_def)
    have "watched_keys (fst (Subscribe s chunks h)) t = (if t = ident then fst ` set (next_chunks chunks) else watched_keys h t)" for t
      by (simp add: h' watched_keys_def)
    moreover have "watched_keys h ident = fst ` set (ss_chunks s)" using s by (simp add: watched_keys_def)
    ultimately show ?thesis using s(1) m
      by (cases "k \<in> fst ` set (next_chunks chunks)"; cases "k \<in> fst ` set (ss_chunks s)")
         (auto simp: h' fold_enter(1) fold_leave(1) e l simp del: set_map)
  qed
  moreover have "no_empty (hb_byChunk (fst (Subscribe s chunks h)))"
    using ok by (simp add: h' fold_enter(2) fold_leave(2) hub_ok_def)
  ultimately show ?thesis using ok s unfolding hub_ok_def by (auto simp: h' owner_of_def)
qed

lemma hub_ok_Unregister:
  assumes ok: "hub_ok h" and s: "ident \<in> hb_sessions h" "hb_objs h ident = Some s"
  shows "hub_ok (Unregister s h)"
proof -
  have "session_ok ident s" using ok s by (auto simp: hub_ok_def)
  then have i: "ss_ID s = ident" by (simp add: session_ok_def)
  then show ?thesis using ok s
    by (auto simp: hub_ok_def Unregister_def fold_leave watched_keys_def owner_of_def)
qed

lemma hub_reach_ok: "hub_reach h \<Longrightarrow> hub_ok h"
  by (induction rule: hub_reach.induct)
     (simp_all add: hub_ok_Register hub_ok_Subscribe hub_ok_Unregister,
      simp add: hub_ok_def NewHub_def no_empty_def members_def)

lemma observes_members:
  assumes ok: "hub_ok h" and c: "chunk_i32 c"
  shows "members (hb_byChunk h) (key_of c) = {s. observes h s c}"
proof -
  have "key_of c \<in> watched_keys h s \<longleftrightarrow> observes h s c" if s: "s \<in> hb_sessions h" for s
  proof -
    obtain ob where ob: "hb_objs h s = Some ob" "session_ok s ob" using ok s by (auto simp: hub_ok_def)
    then have "k = key_of d \<and> chunk_i32 d" if "(k, d) \<in> set (ss_chunks ob)" for k d
      using that by (auto simp: session_ok_def)
    then have "key_of c \<in> fst ` set (ss_chunks ob) \<longleftrightarrow> c \<in> snd ` set (ss_chunks ob)"
      using c key_of_inj[OF c] by (force simp: image_iff)
    then show ?thesis using s ob by (simp add: observes_def watched_keys_def)
  qed
  then show ?thesis using ok by (auto simp: hub_ok_def observes_def)
qed

lemma member_owner: "hub_ok h \<Longrightarrow> s \<in> members (hb_byPlayer h) p \<longleftrightarrow> s \<in> hb_sessions h \<and> owner_of h s = Some p"
  by (simp add: hub_ok_def)

text \<open>
  C26: whatever the sessions do, the index of a chunk holds exactly the sessions that observe it, the
  index of a player exactly his registered sessions, and no empty set is left behind.
\<close>

theorem hub_indexes_exact:
  assumes "hub_reach h"
  shows "(\<forall>c. chunk_i32 c \<longrightarrow> members (hb_byChunk h) (makeChunkKey (CX c) (CY c)) = {s. observes h s c}) \<and>
    (\<forall>p. members (hb_byPlayer h) p = {s \<in> hb_sessions h. owner_of h s = Some p}) \<and>
    (\<forall>k. hb_byChunk h k \<noteq> Some {}) \<and> (\<forall>p. hb_byPlayer h p \<noteq> Some {})"
proof -
  have ok: "hub_ok h" by (rule hub_reach_ok[OF assms])
  then show ?thesis using observes_members[OF ok] by (auto simp: hub_ok_def no_empty_def key_of_def)
qed

definition one_session :: hub where
  "one_session = fst (Subscribe (newSession 9 3) [\<lparr>CX = 0, CY = 1\<rparr>] (Register (newSession 9 3) NewHub))"

lemma one_session_reach: "hub_reach one_session"
  unfolding one_session_def
  by (rule hub_subscribe[where ident = 9])
     (auto simp: Register_def newSession_def chunk_i32_def is_i32_def NewHub_def intro!: hub_register[OF hub_new, unfolded Register_def newSession_def NewHub_def, simplified])

text \<open>
  C27: Subscribe makes the session observe exactly the chunks it is given, answers exactly the chunks
  that come in and those that go out, each once, and changes no other session.
\<close>

theorem Subscribe_exact:
  assumes "hub_reach h" and "ident \<in> hb_sessions h" "hb_objs h ident = Some s" and "\<forall>c \<in> set chunks. chunk_i32 c"
    and "Subscribe s chunks h = (h', entered, left)"
  shows "{c. observes h' ident c} = set chunks \<and>
    set entered = {c. observes h' ident c \<and> \<not> observes h ident c} \<and> distinct entered \<and>
    set left = {c. observes h ident c \<and> \<not> observes h' ident c} \<and> distinct left \<and>
    (\<forall>t. t \<noteq> ident \<longrightarrow> observes h' t = observes h t)"
proof -
  have ok: "hub_ok h" by (rule hub_reach_ok[OF assms(1)])
  then have so: "session_ok ident s" using assms(2,3) by (auto simp: hub_ok_def)
  then have i: "ss_ID s = ident" and ds: "distinct (map fst (ss_chunks s))"
    and ks: "\<And>k d. (k, d) \<in> set (ss_chunks s) \<Longrightarrow> k = key_of d \<and> chunk_i32 d" by (auto simp: session_ok_def)
  note n = next_chunks_set[OF assms(4)]

  have snds: "distinct (map snd l)" if d: "distinct (map fst l)" and k: "\<And>k d. (k, d) \<in> set l \<Longrightarrow> k = key_of d" for l :: "(chunk_key \<times> chunk_coord) list"
  proof -
    have "inj_on snd (set l)" using k by (intro inj_onI) (metis prod.collapse)
    then show ?thesis using d by (simp add: distinct_map)
  qed
  have obs: "observes h ident c \<longleftrightarrow> c \<in> snd ` set (ss_chunks s)" for c using assms(2,3) by (simp add: observes_def)
  have obs': "observes h' ident c \<longleftrightarrow> c \<in> set chunks" for c
    using assms(2,5) n i by (auto simp: observes_def Subscribe_def Let_def image_image)
  have key_in: "map_of (ss_chunks s) (key_of c) = None \<longleftrightarrow> \<not> observes h ident c" if "chunk_i32 c" for c
    using ks key_of_inj[OF that] by (force simp: obs map_of_eq_None_iff image_iff)
  have key_nxt: "map_of (next_chunks chunks) (key_of c) = None \<longleftrightarrow> c \<notin> set chunks" if "chunk_i32 c" for c
    using n key_of_inj[OF that] assms(4) by (force simp: map_of_eq_None_iff image_iff)
  have e: "entered = map snd (filter (\<lambda>(k, c). map_of (ss_chunks s) k = None) (next_chunks chunks))"
    and l: "left = map snd (filter (\<lambda>(k, c). map_of (next_chunks chunks) k = None) (ss_chunks s))"
    using assms(5) by (auto simp: Subscribe_def Let_def)
  have "set entered = {c \<in> set chunks. \<not> observes h ident c}"
    using n key_in assms(4) by (force simp: e image_iff)
  moreover have "set left = {c. observes h ident c \<and> c \<notin> set chunks}"
  proof (intro set_eqI iffI)
    fix c assume "c \<in> set left"
    then obtain k where kc: "(k, c) \<in> set (ss_chunks s)" "map_of (next_chunks chunks) k = None" by (auto simp: l)
    then show "c \<in> {c. observes h ident c \<and> c \<notin> set chunks}" using ks[OF kc(1)] key_nxt[of c] by (force simp: obs)
  next
    fix c assume "c \<in> {c. observes h ident c \<and> c \<notin> set chunks}"
    then obtain k where kc: "(k, c) \<in> set (ss_chunks s)" "c \<notin> set chunks" by (auto simp: obs)
    then have "map_of (next_chunks chunks) k = None" using ks[OF kc(1)] key_nxt[of c] by simp
    with kc(1) show "c \<in> set left" by (force simp: l)
  qed
  moreover have "distinct entered" unfolding e using n by (intro snds distinct_map_filter) auto
  moreover have "distinct left" unfolding l using ds ks by (intro snds distinct_map_filter) auto
  moreover have "observes h' t = observes h t" if "t \<noteq> ident" for t
    using assms(5) i that by (auto simp: observes_def Subscribe_def Let_def fun_eq_iff)
  ultimately show ?thesis by (auto simp: obs')
qed

theorem hub_indexes_exact_witness:
  "members (hb_byChunk one_session) (makeChunkKey 0 1) = {s. observes one_session s \<lparr>CX = 0, CY = 1\<rparr>} \<and>
    hb_byPlayer one_session 4 \<noteq> Some {}"
proof -
  have "chunk_i32 \<lparr>CX = 0, CY = 1\<rparr>" by (simp add: chunk_i32_def is_i32_def)
  then show ?thesis using hub_indexes_exact[OF one_session_reach] by (metis chunk_coord.select_convs)
qed

theorem Subscribe_exact_witness:
  "\<exists>h' entered left. Subscribe (newSession 9 3) [\<lparr>CX = 0, CY = 1\<rparr>] (Register (newSession 9 3) NewHub) = (h', entered, left) \<and>
    set entered = {\<lparr>CX = 0, CY = 1\<rparr>} \<and> left = []"
proof -
  have r: "hub_reach (Register (newSession 9 3) NewHub)"
    by (rule hub_register[OF hub_new]) (simp add: NewHub_def)
  obtain h' entered left where s: "Subscribe (newSession 9 3) [\<lparr>CX = 0, CY = 1\<rparr>] (Register (newSession 9 3) NewHub) = (h', entered, left)"
    using prod_cases3 by blast
  have "\<not> observes (Register (newSession 9 3) NewHub) 9 c" for c
    by (auto simp: observes_def Register_def newSession_def)
  with Subscribe_exact[OF r, of 9 "newSession 9 3" "[\<lparr>CX = 0, CY = 1\<rparr>]" h' entered left] s show ?thesis
    by (auto simp: Register_def newSession_def chunk_i32_def is_i32_def)
qed

subsection \<open>What a session is sent\<close>

lemma deliver_to_apply: "deliver_to S m s = (if s \<in> S then [m] else [])"
  by (simp add: deliver_to_def)

lemma deliveries:
  assumes ok: "hub_ok h"
  shows "chunk_i32 c \<Longrightarrow> BroadcastChunk h (CX c) (CY c) m s = (if observes h s c then [m] else [])"
    and "chunk_i32 c \<Longrightarrow> BroadcastChunkExcept h (CX c) (CY c) p m s = (if observes h s c \<and> owner_of h s \<noteq> Some p then [m] else [])"
    and "\<forall>c \<in> set cs. chunk_i32 c \<Longrightarrow> BroadcastChunks h cs m s = (if \<exists>c \<in> set cs. observes h s c then [m] else [])"
    and "SendToPlayer h p m s = (if s \<in> hb_sessions h \<and> owner_of h s = Some p then [m] else [])"
    and "chunk_i32 from \<Longrightarrow> chunk_i32 to \<Longrightarrow> BroadcastChunkTransition h from to p m m' s =
      (if p \<noteq> 0 \<and> owner_of h s \<noteq> Some p then []
       else if observes h s to \<and> \<not> observes h s from then [m]
       else if observes h s from \<and> \<not> observes h s to then [m'] else [])"
proof -
  have o: "s \<in> members (hb_byChunk h) (makeChunkKey (CX c) (CY c)) \<longleftrightarrow> observes h s c" if "chunk_i32 c" for c
    using observes_members[OF ok that] by (simp add: key_of_def)
  show "chunk_i32 c \<Longrightarrow> BroadcastChunk h (CX c) (CY c) m s = (if observes h s c then [m] else [])"
    by (simp add: BroadcastChunk_def deliver_to_apply o)
  show "chunk_i32 c \<Longrightarrow> BroadcastChunkExcept h (CX c) (CY c) p m s = (if observes h s c \<and> owner_of h s \<noteq> Some p then [m] else [])"
    by (simp add: BroadcastChunkExcept_def deliver_to_apply o)
  show "\<forall>c \<in> set cs. chunk_i32 c \<Longrightarrow> BroadcastChunks h cs m s = (if \<exists>c \<in> set cs. observes h s c then [m] else [])"
    using o by (auto simp: BroadcastChunks_def deliver_to_apply)
  show "SendToPlayer h p m s = (if s \<in> hb_sessions h \<and> owner_of h s = Some p then [m] else [])"
    by (simp add: SendToPlayer_def deliver_to_apply member_owner[OF ok])
  show "chunk_i32 from \<Longrightarrow> chunk_i32 to \<Longrightarrow> BroadcastChunkTransition h from to p m m' s =
      (if p \<noteq> 0 \<and> owner_of h s \<noteq> Some p then []
       else if observes h s to \<and> \<not> observes h s from then [m]
       else if observes h s from \<and> \<not> observes h s to then [m'] else [])"
    by (auto simp: BroadcastChunkTransition_def deliver_to_apply o Let_def)
qed

text \<open>
  C25: when a thing crosses from one chunk to another, a session is sent the spawn exactly when it
  observes the new chunk and not the old one, the despawn exactly in the opposite case, and nothing
  otherwise; with a player given, only that player's sessions count.
\<close>

theorem transition_delivery:
  assumes "hub_reach h" and "chunk_i32 from" "chunk_i32 to"
  shows "BroadcastChunkTransition h from to onlyPlayer spawn despawn s =
    (if onlyPlayer \<noteq> 0 \<and> owner_of h s \<noteq> Some onlyPlayer then []
     else if observes h s to \<and> \<not> observes h s from then [spawn]
     else if observes h s from \<and> \<not> observes h s to then [despawn] else [])"
  using deliveries(5)[OF hub_reach_ok[OF assms(1)] assms(2,3)] .

theorem transition_delivery_witness:
  "BroadcastChunkTransition one_session \<lparr>CX = 0, CY = 0\<rparr> \<lparr>CX = 0, CY = 1\<rparr> 0 (1::nat) 2 9 = [1]"
proof -
  have "observes one_session 9 \<lparr>CX = 0, CY = 1\<rparr>" "\<not> observes one_session 9 \<lparr>CX = 0, CY = 0\<rparr>"
    by (auto simp: observes_def one_session_def Subscribe_def Register_def newSession_def next_chunks_def Let_def)
  then show ?thesis using transition_delivery[OF one_session_reach, of "\<lparr>CX = 0, CY = 0\<rparr>" "\<lparr>CX = 0, CY = 1\<rparr>" 0 "1 :: nat" 2 9]
    by (simp add: chunk_i32_def is_i32_def)
qed

subsection \<open>The interface the simulation relies on\<close>

text \<open>
  simulation.Broadcaster (commands.go): which sessions the simulation's deliveries reach. The
  laws are the doc comments of the interface.
\<close>

locale broadcaster =
  fixes valid :: "'h \<Rightarrow> bool" and watches :: "'h \<Rightarrow> uuid \<Rightarrow> chunk_coord \<Rightarrow> bool"
    and player_of :: "'h \<Rightarrow> uuid \<Rightarrow> uuid option"
    and chunk_msg :: "'h \<Rightarrow> int32 \<Rightarrow> int32 \<Rightarrow> 'm \<Rightarrow> 'm deliveries"
    and chunk_except :: "'h \<Rightarrow> int32 \<Rightarrow> int32 \<Rightarrow> uuid \<Rightarrow> 'm \<Rightarrow> 'm deliveries"
    and transition :: "'h \<Rightarrow> chunk_coord \<Rightarrow> chunk_coord \<Rightarrow> uuid \<Rightarrow> 'm \<Rightarrow> 'm \<Rightarrow> 'm deliveries"
  assumes chunk_msg: "valid h \<Longrightarrow> chunk_i32 c \<Longrightarrow> chunk_msg h (CX c) (CY c) m s = (if watches h s c then [m] else [])"
    and chunk_except: "valid h \<Longrightarrow> chunk_i32 c \<Longrightarrow>
      chunk_except h (CX c) (CY c) p m s = (if watches h s c \<and> player_of h s \<noteq> Some p then [m] else [])"
    and transition: "valid h \<Longrightarrow> chunk_i32 from \<Longrightarrow> chunk_i32 to \<Longrightarrow> transition h from to p m m' s =
      (if p \<noteq> 0 \<and> player_of h s \<noteq> Some p then []
       else if watches h s to \<and> \<not> watches h s from then [m]
       else if watches h s from \<and> \<not> watches h s to then [m'] else [])"

interpretation hub: broadcaster hub_ok observes owner_of BroadcastChunk BroadcastChunkExcept BroadcastChunkTransition
  by unfold_locales (simp_all add: deliveries)

end
