(* ===== verification/Go_Collections.thy ===== *)
theory Go_Collections
  imports Prelude "HOL-Library.AList"
begin

section \<open>Maps and sorted slices of Go\<close>

text \<open>
  A Go map whose keys are iterated is an association list with distinct meaning per key (map_of);
  a set map[K]struct{} has values (). The loops of the code never use the iteration order: they
  collect the keys and sort them, which is sorted_keys here. sort.Search is the binary search of
  the standard library, with which internal/game/simulation/state.go keeps its slice of ids
  sorted (insertSorted, removeSorted). Proved: inserting and removing keep the slice strictly
  sorted and change exactly the one element.
\<close>

type_synonym ('k, 'v) gomap = "('k \<times> 'v) list"

type_synonym 'k goset = "('k, unit) gomap"

abbreviation put_key :: "'k \<Rightarrow> 'v \<Rightarrow> ('k, 'v) gomap \<Rightarrow> ('k, 'v) gomap" where
  "put_key \<equiv> AList.update"

abbreviation del_key :: "'k \<Rightarrow> ('k, 'v) gomap \<Rightarrow> ('k, 'v) gomap" where
  "del_key \<equiv> AList.delete"

definition has_key :: "('k, 'v) gomap \<Rightarrow> 'k \<Rightarrow> bool" where
  "has_key m k \<longleftrightarrow> map_of m k \<noteq> None"

definition mark_key :: "'k \<Rightarrow> 'k goset \<Rightarrow> 'k goset" where
  "mark_key k m = put_key k () m"

definition sorted_keys :: "('k::linorder, 'v) gomap \<Rightarrow> 'k list" where
  "sorted_keys m = sorted_list_of_set (fst ` set m)"

declare update_conv' [simp] delete_conv' [simp]

lemma set_sorted_keys [simp]: "set (sorted_keys m) = dom (map_of m)"
  by (simp add: sorted_keys_def dom_map_of_conv_image_fst)

lemma sorted_sorted_keys [simp]: "sorted (sorted_keys m)" "distinct (sorted_keys m)"
  by (simp_all add: sorted_keys_def)

lemma sorted_keys_Nil [simp]: "sorted_keys [] = []"
  by (simp add: sorted_keys_def)

lemma has_key_put [simp]: "has_key (put_key k v m) j \<longleftrightarrow> j = k \<or> has_key m j"
  by (simp add: has_key_def)

lemma has_key_del [simp]: "has_key (del_key k m) j \<longleftrightarrow> j \<noteq> k \<and> has_key m j"
  by (simp add: has_key_def)

lemma has_key_mark [simp]: "has_key (mark_key k m) j \<longleftrightarrow> j = k \<or> has_key m j"
  by (simp add: has_key_def mark_key_def)

lemma has_key_Nil [simp]: "\<not> has_key [] j"
  by (simp add: has_key_def)

lemma in_sorted_keys [simp]: "map_of m k = Some v \<Longrightarrow> k \<in> set (sorted_keys m)"
  by (simp add: domI)

subsection \<open>sort.Search\<close>

function search_loop :: "(nat \<Rightarrow> bool) \<Rightarrow> nat \<Rightarrow> nat \<Rightarrow> nat" where
  "search_loop f i j =
     (if i < j then
        let h = (i + j) div 2
        in if \<not> f h then search_loop f (h + 1) j else search_loop f i h
      else i)"
  by pat_completeness auto
termination
  by (relation "measure (\<lambda>(f, i, j). j - i)") auto

declare search_loop.simps [simp del]

definition sort_Search :: "nat \<Rightarrow> (nat \<Rightarrow> bool) \<Rightarrow> nat" where
  "sort_Search n f = search_loop f 0 n"

lemma search_loop_bounds:
  assumes "i \<le> j" "\<forall>a < i. \<not> f a" "\<forall>a b. a \<le> b \<longrightarrow> b < n \<longrightarrow> f a \<longrightarrow> f b" "j \<le> n" "j < n \<longrightarrow> f j"
  shows "(let r = search_loop f i j in r \<le> n \<and> (\<forall>a < r. \<not> f a) \<and> (r < n \<longrightarrow> f r))"
  using assms
proof (induction f i j rule: search_loop.induct)
  case (1 f i j)
  show ?case
  proof (cases "i < j")
    case False
    with 1(3-7) show ?thesis by (simp add: search_loop.simps[of f j j] Let_def)
  next
    case True
    define h where "h = (i + j) div 2"
    have h: "i \<le> h" "h < j" using True by (auto simp: h_def)
    show ?thesis
    proof (cases "f h")
      case fh: True
      have "let r = search_loop f i h in r \<le> n \<and> (\<forall>a < r. \<not> f a) \<and> (r < n \<longrightarrow> f r)"
        using 1(2)[OF True h_def] fh h 1(4-7) by auto
      with True fh show ?thesis by (simp add: search_loop.simps[of f i j] h_def[symmetric] Let_def)
    next
      case fh: False
      have "\<not> f a" if "a < h + 1" for a using 1(5) fh h that 1(6) by (metis less_Suc_eq_le Suc_eq_plus1 le_trans less_le_trans)
      then have "let r = search_loop f (h + 1) j in r \<le> n \<and> (\<forall>a < r. \<not> f a) \<and> (r < n \<longrightarrow> f r)"
        using 1(1)[OF True h_def] fh h 1(5-7) by auto
      with True fh show ?thesis by (simp add: search_loop.simps[of f i j] h_def[symmetric] Let_def)
    qed
  qed
qed

subsection \<open>insertSorted and removeSorted (state.go)\<close>

definition insertSorted :: "int list \<Rightarrow> int \<Rightarrow> int list" where
  "insertSorted s v =
     (let i = sort_Search (length s) (\<lambda>i. v \<le> s ! i)
      in if i < length s \<and> s ! i = v then s else take i s @ [v] @ drop i s)"

definition removeSorted :: "int list \<Rightarrow> int \<Rightarrow> int list" where
  "removeSorted s v =
     (let i = sort_Search (length s) (\<lambda>i. v \<le> s ! i)
      in if i < length s \<and> s ! i = v then take i s @ drop (i + 1) s else s)"

lemma in_set_dropD: "x \<in> set (drop r s) \<Longrightarrow> \<exists>a. r + a < length s \<and> x = s ! (r + a)"
  by (force simp: in_set_conv_nth)

lemma sorted_lt_mono: "sorted_wrt (<) s \<Longrightarrow> a \<le> b \<Longrightarrow> b < length s \<Longrightarrow> s ! a \<le> (s ! b :: int)"
  using sorted_wrt_nth_less[of "(<)" s a b] by (cases "a = b") auto

lemma sorted_search:
  fixes s :: "int list"
  assumes "sorted_wrt (<) s"
  shows "(let r = sort_Search (length s) (\<lambda>i. v \<le> s ! i) in
    r \<le> length s \<and> (\<forall>x \<in> set (take r s). x < v) \<and> (\<forall>x \<in> set (drop r s). v \<le> x))"
proof -
  define r where "r = sort_Search (length s) (\<lambda>i. v \<le> s ! i)"
  have "\<forall>a b. a \<le> b \<longrightarrow> b < length s \<longrightarrow> v \<le> s ! a \<longrightarrow> v \<le> s ! b"
    using sorted_lt_mono[OF assms] order_trans by blast
  from search_loop_bounds[OF _ _ this, of 0 "length s"]
  have r: "r \<le> length s" "\<forall>a < r. \<not> v \<le> s ! a" "r < length s \<longrightarrow> v \<le> s ! r"
    by (simp_all add: r_def sort_Search_def Let_def)
  have "x < v" if x: "x \<in> set (take r s)" for x
  proof -
    from x obtain a where "a < r" "x = s ! a" by (auto simp: in_set_conv_nth)
    with r(2) have "\<not> v \<le> s ! a" by blast
    with \<open>x = s ! a\<close> show ?thesis by simp
  qed
  moreover have "v \<le> x" if x: "x \<in> set (drop r s)" for x
  proof -
    from in_set_dropD[OF x] obtain a where a: "r + a < length s" "x = s ! (r + a)" by blast
    then have "v \<le> s ! r" using r(3) by simp
    also have "s ! r \<le> s ! (r + a)" using sorted_lt_mono[OF assms _ a(1)] by simp
    finally show ?thesis using a(2) by simp
  qed
  ultimately show ?thesis using r(1) by (simp add: r_def[symmetric] Let_def)
qed

lemma insertSorted_ok:
  assumes "sorted_wrt (<) s"
  shows "sorted_wrt (<) (insertSorted s v)" "set (insertSorted s v) = insert v (set s)"
proof -
  define r where "r = sort_Search (length s) (\<lambda>i. v \<le> s ! i)"
  have r: "r \<le> length s" "\<forall>x \<in> set (take r s). x < v" "\<forall>x \<in> set (drop r s). v \<le> x"
    using sorted_search[OF assms, of v] by (simp_all add: r_def[symmetric] Let_def)
  have sp: "sorted_wrt (<) (take r s @ drop r s)" using assms by simp
  have st: "set s = set (take r s) \<union> set (drop r s)" by (metis append_take_drop_id set_append)
  have "sorted_wrt (<) (insertSorted s v) \<and> set (insertSorted s v) = insert v (set s)"
  proof (cases "r < length s \<and> s ! r = v")
    case True
    then have "v \<in> set s" by auto
    with True assms show ?thesis by (simp add: insertSorted_def r_def[symmetric] Let_def insert_absorb)
  next
    case False
    have "v \<notin> set (drop r s)"
    proof
      assume "v \<in> set (drop r s)"
      from in_set_dropD[OF this] obtain a where a: "r + a < length s" "v = s ! (r + a)" by blast
      with False have "0 < a" by (cases a) auto
      with assms a have "s ! r < v" by (simp add: sorted_wrt_nth_less)
      moreover have "v \<le> s ! r" using r(3) a(1) by (metis Cons_nth_drop_Suc add_lessD1 list.set_intros(1))
      ultimately show False by simp
    qed
    with r(3) have "\<forall>x \<in> set (drop r s). v < x" by (metis order_le_less)
    with r(2) sp have "sorted_wrt (<) (take r s @ [v] @ drop r s)" by (auto simp: sorted_wrt_append intro: less_trans)
    with False st show ?thesis by (auto simp: insertSorted_def r_def[symmetric] Let_def)
  qed
  then show "sorted_wrt (<) (insertSorted s v)" "set (insertSorted s v) = insert v (set s)" by simp_all
qed

lemma removeSorted_ok:
  assumes "sorted_wrt (<) s"
  shows "sorted_wrt (<) (removeSorted s v)" "set (removeSorted s v) = set s - {v}"
proof -
  define r where "r = sort_Search (length s) (\<lambda>i. v \<le> s ! i)"
  have r: "r \<le> length s" "\<forall>x \<in> set (take r s). x < v" "\<forall>x \<in> set (drop r s). v \<le> x"
    using sorted_search[OF assms, of v] by (simp_all add: r_def[symmetric] Let_def)
  have sp: "sorted_wrt (<) (take r s @ drop r s)" using assms by simp
  have st: "set s = set (take r s) \<union> set (drop r s)" by (metis append_take_drop_id set_append)
  have "sorted_wrt (<) (removeSorted s v) \<and> set (removeSorted s v) = set s - {v}"
  proof (cases "r < length s \<and> s ! r = v")
    case True
    then have d: "drop r s = v # drop (r + 1) s" by (metis Cons_nth_drop_Suc Suc_eq_plus1)
    have "\<forall>x \<in> set (drop (r + 1) s). v < x" using sp by (simp add: d sorted_wrt_append)
    with True sp st d r(2) show ?thesis
      by (auto simp: removeSorted_def r_def[symmetric] Let_def sorted_wrt_append)
  next
    case False
    have "v \<notin> set s"
    proof
      assume "v \<in> set s"
      with st r(2) have "v \<in> set (drop r s)" by auto
      from in_set_dropD[OF this] obtain a where a: "r + a < length s" "v = s ! (r + a)" by blast
      with False have "0 < a" by (cases a) auto
      with assms a have "s ! r < v" by (simp add: sorted_wrt_nth_less)
      moreover have "v \<le> s ! r" using r(3) a(1) by (metis Cons_nth_drop_Suc add_lessD1 list.set_intros(1))
      ultimately show False by simp
    qed
    moreover have "removeSorted s v = s" using False by (auto simp: removeSorted_def r_def[symmetric] Let_def)
    ultimately show ?thesis using assms by simp
  qed
  then show "sorted_wrt (<) (removeSorted s v)" "set (removeSorted s v) = set s - {v}" by simp_all
qed

end
