(* ===== verification/Protocol.thy ===== *)
theory Protocol
  imports Movement Orders Diplomacy Trade Claims Eventlog
begin

section \<open>The messages of the simulation\<close>

text \<open>
  Models the payloads of internal/protocol (protocol.go, codes.go) that the simulation sends, and
  the Broadcaster interface of internal/game/simulation/commands.go as data: what the simulation
  asks of it is the list of its calls. Ids, enumerations and codes travel as values, not as their
  strings; the text meant for people is left out. A pointer field that is nil is None.
\<close>

subsection \<open>Codes and views\<close>

datatype code =
  CodeUnauthorized | CodeForbidden | CodeInvalidMessage | CodeUnsupportedVersion | CodeRateLimited
| CodeMessageTooLarge | CodeUnitNotFound | CodeUnitNotOwned | CodeUnitNotMovable | CodeUnitDead
| CodeUnitGarrisoned | CodeInvalidTarget | CodeTargetOutOfBounds | CodeTargetNotWalkable
| CodePathNotFound | CodePathTooLong | CodeCityNotFound | CodeCityProtected | CodeTreatyRequired
| CodePopulationLimitReached | CodeInsufficientResources | CodeCityBusy | CodeInternalError
| CodeNotImplemented

datatype despawn_reason =
  DespawnOutOfInterest | DespawnDead | DespawnGarrisoned | DespawnHidden | DespawnRemoved

record active_movement =
  am_MovementID :: int64
  am_Path :: timed_path
  am_StartTimeMs :: int64
  am_ArrivalTimeMs :: int64
  am_Target :: tile

definition toActiveMovement :: "movement \<Rightarrow> active_movement" where
  "toActiveMovement m =
     \<lparr>am_MovementID = m_ID m, am_Path = m_Path m, am_StartTimeMs = m_StartTimeMs m,
      am_ArrivalTimeMs = m_ArrivalTimeMs m, am_Target = m_Target m\<rparr>"

record unit_view =
  uv_ID :: int64
  uv_PlayerID :: uuid
  uv_CityID :: "int64 option"
  uv_UnitType :: unit_type
  uv_X :: int32
  uv_Y :: int32
  uv_HP :: int32
  uv_MaxHP :: int32
  uv_Status :: unit_status
  uv_Movement :: "active_movement option"
  uv_GarrisonCityID :: "int64 option"
  uv_Carrying :: int32
  uv_CarryingResource :: resource

record stocks_view =
  sv_Wood :: int64
  sv_Stone :: int64

record production_view =
  pv_UnitType :: unit_type
  pv_CompletesAtMs :: int64

record advance_view =
  av_Era :: era
  av_CompletesAtMs :: int64

record building_view =
  bv_ID :: int64
  bv_CityID :: int64
  bv_Type :: building_type
  bv_X :: int32
  bv_Y :: int32
  bv_Status :: building_status
  bv_CompletesAtMs :: int64
  bv_HP :: int32
  bv_MaxHP :: int32

record treaty_view =
  tyv_ID :: int64
  tyv_OtherPlayerID :: uuid
  tyv_OtherCityID :: "int64 option"
  tyv_OtherCityName :: "string option"
  tyv_Type :: treaty_type
  tyv_Status :: treaty_status
  tyv_ProposedByMe :: bool
  tyv_BreaksAtMs :: "int64 option"

record offer_view =
  ofv_ID :: int64
  ofv_OtherPlayerID :: uuid
  ofv_OtherCityID :: "int64 option"
  ofv_OtherCityName :: "string option"
  ofv_Give :: costs
  ofv_Get :: costs
  ofv_Status :: offer_status
  ofv_ProposedByMe :: bool
  ofv_ExpiresAtMs :: int64

record notice_view =
  ntv_Kind :: log_kind
  ntv_AtMs :: int64
  ntv_OtherPlayerID :: uuid
  ntv_OtherCityID :: "int64 option"
  ntv_OtherCityName :: "string option"
  ntv_UnitType :: string
  ntv_Amount :: "int64 option"
  ntv_X :: "int32 option"
  ntv_Y :: "int32 option"
  ntv_TerritoryID :: "int64 option"
  ntv_TerritoryName :: string

record claim_view =
  clv_PlayerID :: uuid
  clv_CityID :: "int64 option"
  clv_CityName :: "string option"
  clv_StartedAtMs :: int64
  clv_EndsAtMs :: int64

record territory_view =
  tev_ID :: int64
  tev_Name :: string
  tev_MinX :: int32
  tev_MinY :: int32
  tev_MaxX :: int32
  tev_MaxY :: int32
  tev_OwnerType :: owner_type
  tev_OwnerID :: "string option"
  tev_Contested :: bool
  tev_Claim :: "claim_view option"

record deposit_view =
  dv_X :: int32
  dv_Y :: int32
  dv_Remaining :: int32
  dv_RegrowsAtMs :: "int64 option"

subsection \<open>Payloads\<close>

record entity_update =
  eu_ID :: int64
  eu_X :: "int32 option"
  eu_Y :: "int32 option"
  eu_HP :: "int32 option"
  eu_Status :: "unit_status option"
  eu_GarrisonCityID :: "int64 option option"
  eu_Carrying :: "int32 option"
  eu_CarryingResource :: resource

text \<open>The payload with only its id set; the composite literals of the code update it.\<close>

definition EntityUpdateOf :: "int64 \<Rightarrow> entity_update" where
  "EntityUpdateOf ident =
     \<lparr>eu_ID = ident, eu_X = None, eu_Y = None, eu_HP = None, eu_Status = None, eu_GarrisonCityID = None,
      eu_Carrying = None, eu_CarryingResource = ''''\<rparr>"

record city_update =
  cu_ID :: int64
  cu_Name :: "string option"
  cu_Population :: "int32 option"
  cu_PopulationLimit :: "int32 option"
  cu_PresenceState :: "presence_state option"
  cu_ProtectionUntilMs :: "int64 option"
  cu_Stocks :: "stocks_view option"
  cu_Production :: "production_view option option"
  cu_Era :: "era option"
  cu_Advance :: "advance_view option option"
  cu_PillagedAtMs :: "int64 option"
  cu_BesiegedAtMs :: "int64 option"

definition CityUpdateOf :: "int64 \<Rightarrow> city_update" where
  "CityUpdateOf ident =
     \<lparr>cu_ID = ident, cu_Name = None, cu_Population = None, cu_PopulationLimit = None,
      cu_PresenceState = None, cu_ProtectionUntilMs = None, cu_Stocks = None, cu_Production = None,
      cu_Era = None, cu_Advance = None, cu_PillagedAtMs = None, cu_BesiegedAtMs = None\<rparr>"

datatype msg =
  EntitySpawn unit_view
| EntityUpdate entity_update
| EntityDespawn int64 despawn_reason
| CityUpdate city_update
| UnitMoveAccepted int64 int64
| UnitMoveRejected int64 code
| UnitMovementStarted int64 active_movement
| UnitMovementCompleted int64 int64 tile
| UnitMovementCancelled int64 int64 tile cancel_reason
| ForestUpdate deposit_view
| HillUpdate deposit_view
| SystemError code
| BuildingSpawn building_view
| BuildingUpdate int64 building_status "int32 option"
| BuildingDestroyed int64 int64
| TreatyUpdate treaty_view
| TradeUpdate offer_view
| EventLogNotice notice_view
| TerritoryUpdate territory_view

subsection \<open>The calls of the Broadcaster\<close>

datatype sent =
  ToChunk int32 int32 msg
| ToChunks "chunk_coord list" msg
| ToChunkExcept int32 int32 uuid msg
| ChunkTransition chunk_coord chunk_coord uuid msg msg
| ToPlayer uuid string msg

end
