(* ===== verification/Live_Index.thy ===== *)
theory Live_Index
  imports Live_State
begin

section \<open>The indexes of the live world\<close>

text \<open>
  What keeps internal/game/simulation/state.go consistent: a unit is stored under its id, the
  slice of ids is strictly sorted and holds exactly the ids of the units, and the index by chunk
  holds exactly the units whose tile falls in the chunk. The invariant is a predicate of the six
  fields it is about, so that the other fields change freely. Proved for every operation of the
  file, whatever their order, with UnitsInChunk equal to a scan of all the units.
\<close>

definition unit_key :: "world \<Rightarrow> unit_rec \<Rightarrow> chunk_key" where
  "unit_key w u = (let (cx, cy) = ChunkOf w (u_X u) (u_Y u) in makeChunkKey cx cy)"

definition live_ok ::
  "world \<Rightarrow> (int64, unit_rec) gomap \<Rightarrow> int64 list \<Rightarrow> (chunk_key \<rightharpoonup> int64 set) \<Rightarrow> (int64, movement) gomap \<Rightarrow>
    (int64, city) gomap \<Rightarrow> bool" where
  "live_ok w us ids ch mv cs \<longleftrightarrow>
     0 < w_chunkSize w \<and>
     (\<forall>i u. map_of us i = Some u \<longrightarrow> u_ID u = i \<and> is_i32 (u_X u) \<and> is_i32 (u_Y u)) \<and>
     sorted_wrt (<) ids \<and> set ids = dom (map_of us) \<and> no_empty ch \<and>
     (\<forall>k i. i \<in> members ch k \<longleftrightarrow> (\<exists>u. map_of us i = Some u \<and> unit_key w u = k)) \<and>
     (\<forall>i m. map_of mv i = Some m \<longrightarrow> m_UnitID m = i) \<and>
     (\<forall>i c. map_of cs i = Some c \<longrightarrow> c_ID c = i)"

definition wf_live :: "'a state_scheme \<Rightarrow> bool" where
  "wf_live s \<longleftrightarrow> live_ok (st_world s) (st_units s) (st_unitIDs s) (st_unitsByChunk s) (st_movements s) (st_cities s)"

lemma live_okD:
  assumes "live_ok w us ids ch mv cs"
  shows "0 < w_chunkSize w"
    and "map_of us i = Some u \<Longrightarrow> u_ID u = i"
    and "map_of us i = Some u \<Longrightarrow> is_i32 (u_X u) \<and> is_i32 (u_Y u)"
    and "sorted_wrt (<) ids" and "set ids = dom (map_of us)" and "no_empty ch"
    and "i \<in> members ch k \<longleftrightarrow> (\<exists>u. map_of us i = Some u \<and> unit_key w u = k)"
    and "map_of mv i = Some m \<Longrightarrow> m_UnitID m = i"
    and "map_of cs i = Some c \<Longrightarrow> c_ID c = i"
  using assms by (simp_all add: live_ok_def)

lemma wf_live_unit:
  "wf_live s \<Longrightarrow> map_of (st_units s) i = Some u \<Longrightarrow> u_ID u = i \<and> is_i32 (u_X u) \<and> is_i32 (u_Y u)"
  by (simp add: wf_live_def live_okD(2,3))

lemma wf_live_movement: "wf_live s \<Longrightarrow> map_of (st_movements s) i = Some m \<Longrightarrow> m_UnitID m = i"
  by (simp add: wf_live_def live_okD(8))

lemma wf_live_city: "wf_live s \<Longrightarrow> map_of (st_cities s) i = Some c \<Longrightarrow> c_ID c = i"
  by (simp add: wf_live_def live_okD(9))

lemma unit_at_Some [simp]: "map_of (st_units s) i = Some u \<Longrightarrow> unit_at s i = u"
  by (simp add: unit_at_def)

subsection \<open>Operations on one unit\<close>

lemma live_ok_move_inside:
  assumes ok: "live_ok w us ids ch mv cs" and u: "map_of us i = Some u"
    and v: "u_ID v = i" "is_i32 (u_X v)" "is_i32 (u_Y v)" "unit_key w v = unit_key w u"
  shows "live_ok w (put_key i v us) ids ch mv cs"
proof -
  have "(j \<in> members ch k) = (\<exists>x. ((map_of us)(i \<mapsto> v)) j = Some x \<and> unit_key w x = k)" for j k
    using live_okD(7)[OF ok] u v(4) by (cases "j = i") auto
  moreover have "dom ((map_of us)(i \<mapsto> v)) = dom (map_of us)" using u by auto
  ultimately show ?thesis
    using live_okD(1,2,3,4,5,6,8,9)[OF ok] v(1-3) unfolding live_ok_def by auto
qed

lemma live_ok_upd:
  assumes ok: "live_ok w us ids ch mv cs" and i: "map_of us i = Some u"
    and f: "u_ID v = u_ID u" "u_X v = u_X u" "u_Y v = u_Y u"
  shows "live_ok w (put_key i v us) ids ch mv cs"
  by (rule live_ok_move_inside[OF ok i]) (use f live_okD(2,3)[OF ok i] in \<open>simp_all add: unit_key_def\<close>)

lemma wf_live_upd_unit:
  assumes "wf_live s" "\<And>u. u_ID (f u) = u_ID u" "\<And>u. u_X (f u) = u_X u" "\<And>u. u_Y (f u) = u_Y u"
  shows "wf_live (upd_unit i f s)"
  using assms live_ok_upd by (auto simp: upd_unit_def wf_live_def split: option.split)

lemma upd_unit_sel [simp]:
  "st_world (upd_unit i f s) = st_world s" "st_unitIDs (upd_unit i f s) = st_unitIDs s"
  "st_unitsByChunk (upd_unit i f s) = st_unitsByChunk s" "st_movements (upd_unit i f s) = st_movements s"
  "st_cities (upd_unit i f s) = st_cities s" "st_tasks (upd_unit i f s) = st_tasks s"
  "map_of (st_units (upd_unit i f s)) j = (if j = i then map_option f (map_of (st_units s) i) else map_of (st_units s) j)"
  by (simp_all add: upd_unit_def split: option.split)

lemma live_ok_add:
  assumes ok: "live_ok w us ids ch mv cs" and new: "map_of us (u_ID u) = None"
    and i32: "is_i32 (u_X u)" "is_i32 (u_Y u)"
  shows "live_ok w (put_key (u_ID u) u us) (insertSorted ids (u_ID u)) (enter (u_ID u) (unit_key w u) ch) mv cs"
proof -
  have "u_ID u \<notin> members ch k" for k using live_okD(7)[OF ok] new by simp
  then have "(j \<in> members (enter (u_ID u) (unit_key w u) ch) k) =
    (\<exists>x. ((map_of us)(u_ID u \<mapsto> u)) j = Some x \<and> unit_key w x = k)" for j k
    using live_okD(7)[OF ok] by auto
  moreover have "set (insertSorted ids (u_ID u)) = dom ((map_of us)(u_ID u \<mapsto> u))"
    using live_okD(4,5)[OF ok] by (simp add: insertSorted_ok)
  moreover have "no_empty (enter (u_ID u) (unit_key w u) ch)" using live_okD(6)[OF ok] by simp
  ultimately show ?thesis
    using live_okD(1,2,3,4,8,9)[OF ok] i32 unfolding live_ok_def by (auto simp: insertSorted_ok)
qed

lemma AddUnit_fields:
  "st_world (AddUnit u s) = st_world s" "st_units (AddUnit u s) = put_key (u_ID u) u (st_units s)"
  "st_unitIDs (AddUnit u s) = (if has_key (st_units s) (u_ID u) then st_unitIDs s else insertSorted (st_unitIDs s) (u_ID u))"
  "st_unitsByChunk (AddUnit u s) = enter (u_ID u) (unit_key (st_world s) u) (st_unitsByChunk s)"
  "st_movements (AddUnit u s) = st_movements s" "st_cities (AddUnit u s) = st_cities s"
  "st_tasks (AddUnit u s) = st_tasks s"
  by (simp_all add: AddUnit_def indexUnit_def addToChunk_def unit_key_def Let_def split: prod.split)

lemma wf_live_AddUnit:
  "wf_live s \<Longrightarrow> \<not> has_key (st_units s) (u_ID u) \<Longrightarrow> is_i32 (u_X u) \<Longrightarrow> is_i32 (u_Y u) \<Longrightarrow> wf_live (AddUnit u s)"
  by (simp add: wf_live_def AddUnit_fields live_ok_add has_key_def)

lemma live_ok_remove:
  assumes ok: "live_ok w us ids ch mv cs" and u: "map_of us i = Some u"
  shows "live_ok w (del_key i us) (removeSorted ids i) (leave i (unit_key w u) ch) (del_key i mv) cs"
proof -
  have "i \<in> members ch k \<longleftrightarrow> k = unit_key w u" for k using live_okD(7)[OF ok, of i k] u by auto
  then have "(j \<in> members (leave i (unit_key w u) ch) k) =
    (\<exists>x. ((map_of us)(i := None)) j = Some x \<and> unit_key w x = k)" for j k
    using live_okD(7)[OF ok] by auto
  moreover have "set (removeSorted ids i) = dom ((map_of us)(i := None))"
    using live_okD(4,5)[OF ok] by (simp add: removeSorted_ok)
  moreover have "no_empty (leave i (unit_key w u) ch)" using live_okD(6)[OF ok] by simp
  ultimately show ?thesis
    using live_okD(1,2,3,4,8,9)[OF ok] unfolding live_ok_def by (auto simp: removeSorted_ok)
qed

lemma RemoveUnit_fields:
  assumes "map_of (st_units s) i = Some u" "u_ID u = i"
  shows "st_world (RemoveUnit i s) = st_world s" "st_units (RemoveUnit i s) = del_key i (st_units s)"
    "st_unitIDs (RemoveUnit i s) = removeSorted (st_unitIDs s) i"
    "st_unitsByChunk (RemoveUnit i s) = leave i (unit_key (st_world s) u) (st_unitsByChunk s)"
    "st_movements (RemoveUnit i s) = del_key i (st_movements s)" "st_cities (RemoveUnit i s) = st_cities s"
    "st_tasks (RemoveUnit i s) = del_key i (st_tasks s)"
  using assms by (simp_all add: RemoveUnit_def unindexUnit_def removeFromChunk_def unit_key_def Let_def split: prod.split)

lemma wf_live_RemoveUnit: "wf_live s \<Longrightarrow> wf_live (RemoveUnit i s)"
proof (cases "map_of (st_units s) i")
  case None
  then show "wf_live s \<Longrightarrow> ?thesis" by (simp add: RemoveUnit_def)
next
  case (Some u)
  assume ok: "wf_live s"
  then have "u_ID u = i" using Some wf_live_unit by blast
  with ok Some show ?thesis by (simp add: wf_live_def RemoveUnit_fields live_ok_remove)
qed

subsection \<open>MoveUnitTo\<close>

lemma live_ok_move:
  assumes ok: "live_ok w us ids ch mv cs" and u: "map_of us i = Some u"
    and v: "u_ID v = i" "is_i32 (u_X v)" "is_i32 (u_Y v)"
  shows "live_ok w (put_key i v us) ids (enter i (unit_key w v) (leave i (unit_key w u) ch)) mv cs"
proof -
  have "i \<in> members ch k \<longleftrightarrow> k = unit_key w u" for k using live_okD(7)[OF ok, of i k] u by auto
  then have "(j \<in> members (enter i (unit_key w v) (leave i (unit_key w u) ch)) k) =
    (\<exists>x. ((map_of us)(i \<mapsto> v)) j = Some x \<and> unit_key w x = k)" for j k
    using live_okD(7)[OF ok] by (cases "j = i") auto
  moreover have "dom ((map_of us)(i \<mapsto> v)) = dom (map_of us)" using u by auto
  moreover have "no_empty (enter i (unit_key w v) (leave i (unit_key w u) ch))" using live_okD(6)[OF ok] by simp
  ultimately show ?thesis
    using live_okD(1,2,3,4,5,8,9)[OF ok] v unfolding live_ok_def by auto
qed

lemma SetTile_sel [simp]:
  "u_ID (SetTile t u) = u_ID u" "u_X (SetTile t u) = tX t" "u_Y (SetTile t u) = tY t"
  "u_PlayerID (SetTile t u) = u_PlayerID u" "u_Status (SetTile t u) = u_Status u" "u_HP (SetTile t u) = u_HP u"
  by (simp_all add: SetTile_def)

lemma MoveUnitTo_fields:
  assumes "map_of (st_units s) i = Some u" "MoveUnitTo i t s = (b, s')"
  shows "st_world s' = st_world s" "st_units s' = put_key i (SetTile t u) (st_units s)" "st_unitIDs s' = st_unitIDs s"
    "st_movements s' = st_movements s" "st_cities s' = st_cities s" "st_tasks s' = st_tasks s"
    "b \<longleftrightarrow> ChunkOf (st_world s) (u_X u) (u_Y u) \<noteq> ChunkOf (st_world s) (tX t) (tY t)"
    "st_unitsByChunk s' = (if b then enter i (unit_key (st_world s) (SetTile t u))
       (leave i (unit_key (st_world s) u) (st_unitsByChunk s)) else st_unitsByChunk s)"
  using assms
  by (auto simp: MoveUnitTo_def upd_unit_def addToChunk_def removeFromChunk_def unit_key_def Let_def
      split: prod.splits if_splits)

lemma MoveUnitTo_missing: "map_of (st_units s) i = None \<Longrightarrow> snd (MoveUnitTo i t s) = s \<or> fst (MoveUnitTo i t s)"
  by (auto simp: MoveUnitTo_def upd_unit_def Let_def split: prod.splits if_splits)

lemma wf_live_MoveUnitTo:
  assumes ok: "wf_live s" and u: "map_of (st_units s) i = Some u" and t: "is_i32 (tX t)" "is_i32 (tY t)"
  shows "wf_live (snd (MoveUnitTo i t s))"
proof -
  obtain b s' where m: "MoveUnitTo i t s = (b, s')" by fastforce
  note f = MoveUnitTo_fields[OF u m]
  have v: "u_ID (SetTile t u) = i" "is_i32 (u_X (SetTile t u))" "is_i32 (u_Y (SetTile t u))"
    using wf_live_unit[OF ok u] t by simp_all
  have l: "live_ok (st_world s) (st_units s) (st_unitIDs s) (st_unitsByChunk s) (st_movements s) (st_cities s)"
    using ok by (simp add: wf_live_def)
  show ?thesis
  proof (cases b)
    case True
    with live_ok_move[OF l u v] show ?thesis by (simp add: m wf_live_def f(1-6,8))
  next
    case False
    then have "unit_key (st_world s) (SetTile t u) = unit_key (st_world s) u" using f(7) by (simp add: unit_key_def)
    with live_ok_move_inside[OF l u v] False show ?thesis by (simp add: m wf_live_def f(1-6,8))
  qed
qed

subsection \<open>Movements and cities\<close>

lemma wf_live_SetMovement: "wf_live s \<Longrightarrow> wf_live (SetMovement m s)"
  by (auto simp: wf_live_def live_ok_def SetMovement_def)

lemma wf_live_ClearMovement: "wf_live s \<Longrightarrow> wf_live (ClearMovement i s)"
  by (auto simp: wf_live_def live_ok_def ClearMovement_def)

lemma wf_live_AddCity: "wf_live s \<Longrightarrow> wf_live (AddCity c s)"
  by (auto simp: wf_live_def live_ok_def AddCity_def)

lemma wf_live_upd_city:
  assumes "wf_live s" "\<And>c. c_ID (f c) = c_ID c"
  shows "wf_live (upd_city i f s)"
  using assms by (auto simp: wf_live_def live_ok_def upd_city_def split: option.split)

lemma wf_live_NewState: "0 < w_chunkSize w \<Longrightarrow> wf_live (NewState w)"
  by (simp add: wf_live_def live_ok_def NewState_def members_def no_empty_def)

subsection \<open>UnitsInChunk is a scan of the world\<close>

lemma go_div_i32: "is_i32 x \<Longrightarrow> 0 < c \<Longrightarrow> is_i32 (go_div x c)"
proof -
  assume x: "is_i32 x" and c: "0 < c"
  have "\<bar>x\<bar> div c \<le> \<bar>x\<bar>" using c zdiv_mono2[of "\<bar>x\<bar>" 1 c] by simp
  moreover have "0 \<le> \<bar>x\<bar> div c" using c by (simp add: pos_imp_zdiv_nonneg_iff)
  ultimately show "is_i32 (go_div x c)" using x c by (auto simp: go_div_def is_i32_def sgn_if)
qed

lemma ChunkOf_i32:
  "is_i32 x \<Longrightarrow> is_i32 y \<Longrightarrow> 0 < w_chunkSize w \<Longrightarrow> is_i32 (fst (ChunkOf w x y)) \<and> is_i32 (snd (ChunkOf w x y))"
  by (simp add: ChunkOf_def go_div_i32)

lemma unit_key_eq_iff:
  assumes "0 < w_chunkSize w" "is_i32 (u_X u)" "is_i32 (u_Y u)" "is_i32 cx" "is_i32 cy"
  shows "unit_key w u = makeChunkKey cx cy \<longleftrightarrow> ChunkOf w (u_X u) (u_Y u) = (cx, cy)"
proof -
  have "is_i32 (fst (ChunkOf w (u_X u) (u_Y u)))" "is_i32 (snd (ChunkOf w (u_X u) (u_Y u)))"
    using ChunkOf_i32 assms by simp_all
  then show ?thesis
    using makeChunkKey_inj[of "fst (ChunkOf w (u_X u) (u_Y u))" "snd (ChunkOf w (u_X u) (u_Y u))" cx cy] assms(4,5)
    by (auto simp: unit_key_def split: prod.splits)
qed

lemma unitIDs_eq: "live_ok w us ids ch mv cs \<Longrightarrow> ids = sorted_list_of_set (dom (map_of us))"
  using live_okD(4,5)[of w us ids ch mv cs] strict_sorted_iff[of ids]
  by (metis List.finite_set sorted_list_of_set.idem_if_sorted_distinct)

lemma sorted_list_of_set_filter: "finite A \<Longrightarrow> sorted_list_of_set {x \<in> A. P x} = filter P (sorted_list_of_set A)"
  by (rule sorted_distinct_set_unique) (auto intro: sorted_wrt_filter)

lemma map_filter_filter:
  "(\<And>x y. x \<in> set xs \<Longrightarrow> f x = Some y \<Longrightarrow> Q y \<longleftrightarrow> P x) \<Longrightarrow>
    List.map_filter f (filter P xs) = filter Q (List.map_filter f xs)"
  by (induction xs) (auto simp: List.map_filter_simps split: option.splits)

lemma UnitsInChunk_scan:
  assumes ok: "wf_live s" and c: "is_i32 cx" "is_i32 cy"
  shows "UnitsInChunk s cx cy = filter (\<lambda>u. ChunkOf (st_world s) (u_X u) (u_Y u) = (cx, cy)) (EachUnit s)"
proof -
  have l: "live_ok (st_world s) (st_units s) (st_unitIDs s) (st_unitsByChunk s) (st_movements s) (st_cities s)"
    using ok by (simp add: wf_live_def)
  let ?us = "map_of (st_units s)"
  let ?P = "\<lambda>i. \<exists>u. ?us i = Some u \<and> unit_key (st_world s) u = makeChunkKey cx cy"
  have m: "members (st_unitsByChunk s) (makeChunkKey cx cy) = {i \<in> dom ?us. ?P i}"
    using live_okD(7)[OF l, of _ "makeChunkKey cx cy"] by auto
  have "UnitsInChunk s cx cy = List.map_filter ?us (sorted_list_of_set (members (st_unitsByChunk s) (makeChunkKey cx cy)))"
    by (simp add: UnitsInChunk_def members_def List.map_filter_def split: option.split)
  also have "sorted_list_of_set (members (st_unitsByChunk s) (makeChunkKey cx cy)) = filter ?P (sorted_list_of_set (dom ?us))"
    unfolding m by (rule sorted_list_of_set_filter) (simp add: finite_dom_map_of)
  also have "sorted_list_of_set (dom ?us) = st_unitIDs s" using unitIDs_eq[OF l] by simp
  also have "List.map_filter ?us (filter ?P (st_unitIDs s)) =
    filter (\<lambda>u. ChunkOf (st_world s) (u_X u) (u_Y u) = (cx, cy)) (List.map_filter ?us (st_unitIDs s))"
  proof (rule map_filter_filter)
    fix i u assume u: "?us i = Some u"
    with live_okD(1,3)[OF l] unit_key_eq_iff[of "st_world s" u cx cy] c
    show "(ChunkOf (st_world s) (u_X u) (u_Y u) = (cx, cy)) = ?P i" by auto
  qed
  finally show ?thesis by (simp add: EachUnit_def)
qed

subsection \<open>Any sequence of operations\<close>

text \<open>
  What the callers guarantee: a unit joins the world under an id that is not in it, its tiles are
  int32 values, and what is written through its pointer leaves its id and its tile as they are. The
  callers write health, loot and status; kill (combat.go) also writes the tile with SetTile just
  before RemoveUnit, the tile of the position at that instant, which is the one that the advance of
  the movements of the same tick has already given to the unit through MoveUnitTo: live_write admits
  it when it is that tile.
\<close>

inductive live_reach :: "state \<Rightarrow> bool" where
  live_new: "0 < w_chunkSize w \<Longrightarrow> live_reach (NewState w)"
| live_add: "live_reach s \<Longrightarrow> \<not> has_key (st_units s) (u_ID u) \<Longrightarrow> is_i32 (u_X u) \<Longrightarrow> is_i32 (u_Y u) \<Longrightarrow>
    live_reach (AddUnit u s)"
| live_remove: "live_reach s \<Longrightarrow> live_reach (RemoveUnit i s)"
| live_move: "live_reach s \<Longrightarrow> has_key (st_units s) i \<Longrightarrow> is_i32 (tX t) \<Longrightarrow> is_i32 (tY t) \<Longrightarrow>
    live_reach (snd (MoveUnitTo i t s))"
| live_status: "live_reach s \<Longrightarrow> live_reach (set_status i st s)"
| live_write: "live_reach s \<Longrightarrow>
    (\<And>u. map_of (st_units s) i = Some u \<Longrightarrow> u_ID (f u) = u_ID u \<and> u_X (f u) = u_X u \<and> u_Y (f u) = u_Y u) \<Longrightarrow>
    live_reach (upd_unit i f s)"
| live_dirty: "live_reach s \<Longrightarrow> live_reach (MarkDirty i s)"
| live_keep: "live_reach s \<Longrightarrow> live_reach (keepDirty i s)"
| live_drain: "live_reach s \<Longrightarrow> live_reach (snd (DrainDirty s))"
| live_set_mv: "live_reach s \<Longrightarrow> live_reach (SetMovement m s)"
| live_clear_mv: "live_reach s \<Longrightarrow> live_reach (ClearMovement i s)"
| live_city: "live_reach s \<Longrightarrow> live_reach (AddCity c s)"

lemma wf_live_set_status: "wf_live s \<Longrightarrow> wf_live (set_status i st s)"
  unfolding set_status_def by (rule wf_live_upd_unit) simp_all

lemma wf_live_write:
  assumes "wf_live s" and f: "\<And>u. map_of (st_units s) i = Some u \<Longrightarrow> u_ID (f u) = u_ID u \<and> u_X (f u) = u_X u \<and> u_Y (f u) = u_Y u"
  shows "wf_live (upd_unit i f s)"
proof (cases "map_of (st_units s) i")
  case None with assms(1) show ?thesis by (simp add: upd_unit_def)
next
  case (Some u)
  let ?g = "\<lambda>v. if v = u then f u else v"
  have "upd_unit i f s = upd_unit i ?g s" using Some by (simp add: upd_unit_def)
  moreover have "wf_live (upd_unit i ?g s)" using assms(1) f [OF Some] by (intro wf_live_upd_unit) auto
  ultimately show ?thesis by simp
qed

lemma wf_live_dirty:
  "wf_live s \<Longrightarrow> wf_live (MarkDirty i s)" "wf_live s \<Longrightarrow> wf_live (keepDirty i s)"
  "wf_live s \<Longrightarrow> wf_live (snd (DrainDirty s))"
  by (simp_all add: wf_live_def MarkDirty_def keepDirty_def DrainDirty_def)

lemma live_reach_wf: "live_reach s \<Longrightarrow> wf_live s"
proof (induction rule: live_reach.induct)
  case (live_move s i t)
  then show ?case by (auto simp: has_key_def intro: wf_live_MoveUnitTo)
next
  case (live_write s i f)
  then show ?case by (intro wf_live_write) auto
qed (simp_all add: wf_live_NewState wf_live_AddUnit wf_live_RemoveUnit wf_live_set_status wf_live_dirty
    wf_live_SetMovement wf_live_ClearMovement wf_live_AddCity)

lemma EachUnit_ids:
  assumes "wf_live s"
  shows "map u_ID (EachUnit s) = st_unitIDs s"
proof -
  have l: "live_ok (st_world s) (st_units s) (st_unitIDs s) (st_unitsByChunk s) (st_movements s) (st_cities s)"
    using assms by (simp add: wf_live_def)
  have "map u_ID (List.map_filter (map_of (st_units s)) ids) = ids" if "set ids \<subseteq> dom (map_of (st_units s))" for ids
    using that by (induction ids) (auto simp: List.map_filter_simps live_okD(2)[OF l] split: option.split)
  from this[of "st_unitIDs s"] live_okD(5)[OF l] show ?thesis by (simp add: EachUnit_def)
qed

text \<open>
  C21: after any sequence of operations on the world, a walk over the units gives each of them once,
  in the order of their ids, and the units of a chunk that its index answers are exactly those a
  scan of all the units finds in it, in the same order.
\<close>

theorem UnitsInChunk_exact:
  assumes "live_reach s"
  shows "sorted_wrt (<) (map u_ID (EachUnit s)) \<and> set (EachUnit s) = ran (map_of (st_units s)) \<and>
    (is_i32 cx \<and> is_i32 cy \<longrightarrow>
      UnitsInChunk s cx cy = filter (\<lambda>u. ChunkOf (st_world s) (u_X u) (u_Y u) = (cx, cy)) (EachUnit s))"
proof (intro conjI impI)
  have ok: "wf_live s" by (rule live_reach_wf) fact
  then have l: "live_ok (st_world s) (st_units s) (st_unitIDs s) (st_unitsByChunk s) (st_movements s) (st_cities s)"
    by (simp add: wf_live_def)
  show "sorted_wrt (<) (map u_ID (EachUnit s))" using EachUnit_ids[OF ok] live_okD(4)[OF l] by simp
  show "set (EachUnit s) = ran (map_of (st_units s))"
    using live_okD(5)[OF l] by (force simp: EachUnit_def List.map_filter_def ran_def image_iff)
  show "UnitsInChunk s cx cy = filter (\<lambda>u. ChunkOf (st_world s) (u_X u) (u_Y u) = (cx, cy)) (EachUnit s)"
    if "is_i32 cx \<and> is_i32 cy" using UnitsInChunk_scan[OF ok] that by simp
qed

definition sample_unit :: "int64 \<Rightarrow> int32 \<Rightarrow> int32 \<Rightarrow> unit_rec" where
  "sample_unit ident x y = zero_unit\<lparr>u_ID := ident, u_X := x, u_Y := y, u_Type := TypeVillager, u_HP := 40, u_MaxHP := 40,
     u_Status := StatusIdle\<rparr>"

definition two_units :: state where
  "two_units = snd (MoveUnitTo 7 (mk_tile 2 1) (AddUnit (sample_unit 3 2 0) (AddUnit (sample_unit 7 0 0)
    (NewState (meadow\<lparr>w_chunkSize := 2\<rparr>)))))"

lemma two_units_reach: "live_reach two_units"
  unfolding two_units_def by (intro live_move live_add live_new; code_simp)

theorem UnitsInChunk_exact_witness:
  "map u_ID (UnitsInChunk two_units 1 0) = [3, 7] \<and> UnitsInChunk two_units 0 0 = []"
proof -
  have "map u_ID (filter (\<lambda>u. ChunkOf (st_world two_units) (u_X u) (u_Y u) = (1, 0)) (EachUnit two_units)) = [3, 7]"
    "filter (\<lambda>u. ChunkOf (st_world two_units) (u_X u) (u_Y u) = (0, 0)) (EachUnit two_units) = []" by code_simp+
  with UnitsInChunk_exact[OF two_units_reach, of 1 0] UnitsInChunk_exact[OF two_units_reach, of 0 0]
  show ?thesis by (simp add: is_i32_def)
qed

end
