(* ===== verification/Presence.thy ===== *)
theory Presence
  imports Live_Index
begin

section \<open>Presence of the players and protection of their cities\<close>

text \<open>
  Models the presence part of internal/game/simulation/simulation.go: the commands that open and
  close a session, the steps 1 and 3 of ProcessTimers, applyPresence with its durable write and
  its broadcast, AfterBoot, and the compensation of a write that was lost. A clock reading is the
  sm_now of the step. Proved: whatever the order and the repetition of the openings and closings,
  a session counts exactly between the two; a player with a session is never degraded; a player
  who is gone ends up protected; and the last write submitted for a city carries its presence.
\<close>

subsection \<open>applyPresence\<close>

definition presenceMark :: "city \<Rightarrow> instant \<Rightarrow> instant" where
  "presenceMark c fallback =
     (case (if c_PresenceState c = PresenceOnline then c_LastOnlineAt c else c_LastOfflineAt c) of
        Some t \<Rightarrow> t
      | None \<Rightarrow> fallback)"

definition submitPresence :: "city \<Rightarrow> instant \<Rightarrow> sim \<Rightarrow> sim" where
  "submitPresence c now =
     submit_job ''city.presence'' (CityKey (c_ID c))
       (PersistCityPresence (c_ID c) (c_PresenceState c) (presenceMark c now))
       (Some [CityPresencePersistFailed (c_ID c)])"

definition enter_presence :: "deps \<Rightarrow> presence_state \<Rightarrow> instant \<Rightarrow> city \<Rightarrow> city" where
  "enter_presence D st now c =
     (let c = c\<lparr>c_PresenceState := st\<rparr>
      in if st = PresenceOnline then c\<lparr>c_LastOnlineAt := Some now, c_ProtectionUntil := None\<rparr>
         else if st = PresenceOfflinePending then c\<lparr>c_LastOfflineAt := Some now\<rparr>
         else if st = PresenceProtected
         then c\<lparr>c_ProtectionUntil := ProtectionEndsAt (c_LastOfflineAt c) (dp_ProtectionCooldown D) (dp_ProtectionMax D)\<rparr>
         else c)"

definition presence_update :: "city \<Rightarrow> city_update" where
  "presence_update c =
     (CityUpdateOf (c_ID c))\<lparr>cu_PresenceState := Some (c_PresenceState c),
        cu_ProtectionUntilMs := (if c_PresenceState c = PresenceProtected
          then map_option (\<lambda>t. t div 1000000) (c_ProtectionUntil c) else None)\<rparr>"

definition broadcastCity :: "city \<Rightarrow> city_update \<Rightarrow> sim \<Rightarrow> sim" where
  "broadcastCity c payload s =
     (let (cx, cy) = ChunkOf (st_world s) (c_CenterX c) (c_CenterY c)
      in send (ToChunk cx cy (CityUpdate (payload\<lparr>cu_ID := c_ID c\<rparr>))) s)"

definition applyPresence :: "deps \<Rightarrow> int64 \<Rightarrow> presence_state \<Rightarrow> instant \<Rightarrow> sim \<Rightarrow> sim" where
  "applyPresence D i st now s =
     (case map_of (st_cities s) i of
        None \<Rightarrow> s
      | Some c0 \<Rightarrow>
          if c_PresenceState c0 = st then s
          else if \<not> CanTransition (c_PresenceState c0) st then s
          else let c = enter_presence D st now c0;
                   s = upd_city i (enter_presence D st now) s;
                   s = s\<lparr>st_presenceDirty := del_key (c_ID c) (st_presenceDirty s)\<rparr>
               in broadcastCity c (presence_update c) (submitPresence c now s))"

definition setPresence :: "deps \<Rightarrow> uuid \<Rightarrow> presence_state \<Rightarrow> sim \<Rightarrow> sim" where
  "setPresence D playerID st s =
     (case CityOf s playerID of None \<Rightarrow> s | Some c \<Rightarrow> applyPresence D (c_ID c) st (sm_now s) s)"

subsection \<open>Commands\<close>

definition handlePlayerConnected :: "deps \<Rightarrow> uuid \<Rightarrow> uuid \<Rightarrow> sim \<Rightarrow> sim" where
  "handlePlayerConnected D playerID sessionID s =
     (if has_key (sm_earlyDisconnects s) sessionID
      then s\<lparr>sm_earlyDisconnects := del_key sessionID (sm_earlyDisconnects s)\<rparr>
      else setPresence D playerID PresenceOnline
             (s\<lparr>sm_sessions := enter sessionID playerID (sm_sessions s),
                sm_disconnectedAt := del_key playerID (sm_disconnectedAt s)\<rparr>))"

definition handlePlayerDisconnected :: "uuid \<Rightarrow> uuid \<Rightarrow> sim \<Rightarrow> sim" where
  "handlePlayerDisconnected playerID sessionID s =
     (if sessionID \<notin> members (sm_sessions s) playerID
      then s\<lparr>sm_earlyDisconnects := mark_key sessionID (sm_earlyDisconnects s)\<rparr>
      else let s' = s\<lparr>sm_sessions := leave sessionID playerID (sm_sessions s)\<rparr>
           in if members (sm_sessions s') playerID \<noteq> {} then s'
              else s'\<lparr>sm_disconnectedAt := put_key playerID (sm_now s) (sm_disconnectedAt s)\<rparr>)"

definition handleCityPresencePersistFailed :: "int64 \<Rightarrow> sim \<Rightarrow> sim" where
  "handleCityPresencePersistFailed cityID s =
     (if has_key (st_cities s) cityID then s\<lparr>st_presenceDirty := mark_key cityID (st_presenceDirty s)\<rparr> else s)"

subsection \<open>Timers\<close>

text \<open>
  Step 1 of ProcessTimers walks the map of the players without session in its own order, and
  only then degrades the cities found, sorted by id.
\<close>

definition grace_step :: "deps \<Rightarrow> instant \<Rightarrow> uuid \<times> instant \<Rightarrow> sim \<times> city list \<Rightarrow> sim \<times> city list" where
  "grace_step D now e st =
     (let (playerID, since) = e; (s, degradan) = st
      in if members (sm_sessions s) playerID \<noteq> {}
         then (s\<lparr>sm_disconnectedAt := del_key playerID (sm_disconnectedAt s)\<rparr>, degradan)
         else if now - since < dp_DisconnectGrace D then (s, degradan)
         else (s\<lparr>sm_disconnectedAt := del_key playerID (sm_disconnectedAt s)\<rparr>,
               case CityOf s playerID of None \<Rightarrow> degradan | Some c \<Rightarrow> degradan @ [c]))"

definition degradeAbsent :: "deps \<Rightarrow> instant \<Rightarrow> sim \<Rightarrow> sim" where
  "degradeAbsent D now s =
     (let (s', degradan) = fold (grace_step D now) (AList.clearjunk (sm_disconnectedAt s)) (s, [])
      in fold (\<lambda>c. applyPresence D (c_ID c) PresenceOfflinePending now) (sort_key c_ID degradan) s')"

definition engage_city :: "deps \<Rightarrow> instant \<Rightarrow> int64 \<Rightarrow> sim \<Rightarrow> sim" where
  "engage_city D now i s =
     (case map_of (st_cities s) i of
        None \<Rightarrow> s
      | Some c \<Rightarrow>
          if ShouldEngageProtection (c_PresenceState c) (c_LastOfflineAt c) (dp_ProtectionCooldown D) now
          then applyPresence D i PresenceProtected now s else s)"

definition engageProtection :: "deps \<Rightarrow> instant \<Rightarrow> sim \<Rightarrow> sim" where
  "engageProtection D now s = fold (engage_city D now) (sorted_keys (st_cities s)) s"

subsection \<open>Boot and periodic flush\<close>

definition boot_city :: "deps \<Rightarrow> int64 \<Rightarrow> sim \<times> int64 list \<Rightarrow> sim \<times> int64 list" where
  "boot_city D i st =
     (let (s, huerfanas) = st
      in case map_of (st_cities s) i of
           None \<Rightarrow> st
         | Some c \<Rightarrow>
             if c_PresenceState c = PresenceProtected
             then (upd_city i (\<lambda>c. c\<lparr>c_ProtectionUntil :=
                     ProtectionEndsAt (c_LastOfflineAt c) (dp_ProtectionCooldown D) (dp_ProtectionMax D)\<rparr>) s, huerfanas)
             else if c_PresenceState c = PresenceOnline \<and> members (sm_sessions s) (c_OwnerPlayerID c) = {}
             then (s, huerfanas @ [c_ID c])
             else st)"

definition AfterBoot :: "deps \<Rightarrow> instant \<Rightarrow> sim \<Rightarrow> sim" where
  "AfterBoot D now s =
     (let (s', huerfanas) = fold (boot_city D) (sorted_keys (st_cities s)) (s, [])
      in fold (\<lambda>i. applyPresence D i PresenceOfflinePending now) (sort huerfanas) s')"

definition flushPresence :: "sim \<Rightarrow> sim" where
  "flushPresence s =
     (if st_presenceDirty s = [] then s
      else fold (\<lambda>i s. case map_of (st_cities s) i of None \<Rightarrow> s | Some c \<Rightarrow> submitPresence c (sm_now s) s)
             (sorted_keys (st_presenceDirty s)) (s\<lparr>st_presenceDirty := []\<rparr>))"

subsection \<open>What a transition changes\<close>

definition become :: "deps \<Rightarrow> presence_state \<Rightarrow> instant \<Rightarrow> city \<Rightarrow> city" where
  "become D st now c =
     (if c_PresenceState c \<noteq> st \<and> CanTransition (c_PresenceState c) st then enter_presence D st now c else c)"

lemma enter_presence_sel [simp]:
  "c_PresenceState (enter_presence D st now c) = st" "c_ID (enter_presence D st now c) = c_ID c"
  "c_OwnerPlayerID (enter_presence D st now c) = c_OwnerPlayerID c"
  by (simp_all add: enter_presence_def Let_def)

lemma become_sel [simp]: "c_ID (become D st now c) = c_ID c" "c_OwnerPlayerID (become D st now c) = c_OwnerPlayerID c"
  by (simp_all add: become_def)

lemma become_idem [simp]: "become D st now (become D st now' c) = become D st now' c"
  by (auto simp: become_def)

lemma upd_city_sel [simp]:
  "st_world (upd_city i f s) = st_world s" "st_cityByOwner (upd_city i f s) = st_cityByOwner s"
  "st_units (upd_city i f s) = st_units s" "st_unitIDs (upd_city i f s) = st_unitIDs s"
  "st_presenceDirty (upd_city i f s) = st_presenceDirty s"
  "map_of (st_cities (upd_city i f s)) j = (if j = i then map_option f (map_of (st_cities s) i) else map_of (st_cities s) j)"
  by (simp_all add: upd_city_def split: option.split)

lemma upd_city_sim [simp]:
  fixes s :: sim
  shows "sm_sessions (upd_city i f s) = sm_sessions s" "sm_disconnectedAt (upd_city i f s) = sm_disconnectedAt s"
    "sm_earlyDisconnects (upd_city i f s) = sm_earlyDisconnects s" "sm_now (upd_city i f s) = sm_now s"
    "sm_jobs (upd_city i f s) = sm_jobs s"
  by (simp_all add: upd_city_def split: option.split)

lemma keys_upd_city [simp]: "has_key (st_cities (upd_city i f s)) j = has_key (st_cities s) j"
  by (simp add: has_key_def)

text \<open>The writes of presence among the jobs submitted, oldest first.\<close>

definition presence_write :: "int64 \<Rightarrow> sim_job \<Rightarrow> (presence_state \<times> instant) option" where
  "presence_write i j =
     (case jb_Run j of PersistCityPresence k st at \<Rightarrow> if k = i then Some (st, at) else None | _ \<Rightarrow> None)"

definition writes_of :: "sim \<Rightarrow> int64 \<Rightarrow> (presence_state \<times> instant) list" where
  "writes_of s i = List.map_filter (presence_write i) (sm_jobs s)"

lemma map_filter_append: "List.map_filter f (xs @ ys) = List.map_filter f xs @ List.map_filter f ys"
  by (simp add: List.map_filter_def)

lemma submitPresence_sel [simp]:
  "sm_sessions (submitPresence c now s) = sm_sessions s" "sm_disconnectedAt (submitPresence c now s) = sm_disconnectedAt s"
  "sm_earlyDisconnects (submitPresence c now s) = sm_earlyDisconnects s" "st_cities (submitPresence c now s) = st_cities s"
  "st_cityByOwner (submitPresence c now s) = st_cityByOwner s" "st_world (submitPresence c now s) = st_world s"
  "sm_now (submitPresence c now s) = sm_now s" "st_presenceDirty (submitPresence c now s) = st_presenceDirty s"
  "writes_of (submitPresence c now s) i =
     writes_of s i @ (if i = c_ID c then [(c_PresenceState c, presenceMark c now)] else [])"
  by (simp_all add: submitPresence_def submit_job_def writes_of_def map_filter_append presence_write_def
      List.map_filter_simps)

lemma broadcastCity_sel [simp]:
  "sm_sessions (broadcastCity c p s) = sm_sessions s" "sm_disconnectedAt (broadcastCity c p s) = sm_disconnectedAt s"
  "sm_earlyDisconnects (broadcastCity c p s) = sm_earlyDisconnects s" "st_cities (broadcastCity c p s) = st_cities s"
  "st_cityByOwner (broadcastCity c p s) = st_cityByOwner s" "sm_now (broadcastCity c p s) = sm_now s"
  "writes_of (broadcastCity c p s) i = writes_of s i"
  by (simp_all add: broadcastCity_def send_def writes_of_def split: prod.split)

lemma applyPresence_sel [simp]:
  "sm_sessions (applyPresence D i st now s) = sm_sessions s"
  "sm_disconnectedAt (applyPresence D i st now s) = sm_disconnectedAt s"
  "sm_earlyDisconnects (applyPresence D i st now s) = sm_earlyDisconnects s"
  "st_cityByOwner (applyPresence D i st now s) = st_cityByOwner s" "sm_now (applyPresence D i st now s) = sm_now s"
  "map_of (st_cities (applyPresence D i st now s)) j =
     (if j = i then map_option (become D st now) (map_of (st_cities s) i) else map_of (st_cities s) j)"
  by (auto simp: applyPresence_def become_def Let_def split: option.split)

lemma fold_applyPresence:
  "map_of (st_cities (fold (\<lambda>i. applyPresence D i st now) is s)) j =
     (if j \<in> set is then map_option (become D st now) (map_of (st_cities s) j) else map_of (st_cities s) j)"
  "sm_sessions (fold (\<lambda>i. applyPresence D i st now) is s) = sm_sessions s"
  "sm_disconnectedAt (fold (\<lambda>i. applyPresence D i st now) is s) = sm_disconnectedAt s"
  "sm_earlyDisconnects (fold (\<lambda>i. applyPresence D i st now) is s) = sm_earlyDisconnects s"
  "st_cityByOwner (fold (\<lambda>i. applyPresence D i st now) is s) = st_cityByOwner s"
  by (induction "is" arbitrary: s) (auto simp: option.map_comp comp_def)

subsection \<open>What the timers change\<close>

lemma CityOf_cong: "st_cities s1 = st_cities s \<Longrightarrow> st_cityByOwner s1 = st_cityByOwner s \<Longrightarrow> CityOf s1 p = CityOf s p"
  by (simp add: CityOf_def split: option.split)

text \<open>The grace of a player without session that is over, and the same for what is left of the map.\<close>

definition grace_over :: "deps \<Rightarrow> instant \<Rightarrow> sim \<Rightarrow> uuid \<times> instant \<Rightarrow> bool" where
  "grace_over D now s e \<longleftrightarrow> members (sm_sessions s) (fst e) = {} \<and> dp_DisconnectGrace D \<le> now - snd e"

definition grace_result :: "deps \<Rightarrow> instant \<Rightarrow> (uuid \<times> instant) list \<Rightarrow> sim \<times> city list \<Rightarrow> sim \<times> city list \<Rightarrow> bool" where
  "grace_result D now es st st' \<longleftrightarrow>
     (let (s, ds) = st; (s', ds') = st' in
        (\<exists>d. s' = s\<lparr>sm_disconnectedAt := d\<rparr>) \<and>
        set ds' = set ds \<union> {c. \<exists>e \<in> set es. grace_over D now s e \<and> CityOf s (fst e) = Some c} \<and>
        (\<forall>p. map_of (sm_disconnectedAt s') p =
           (if \<exists>e \<in> set es. fst e = p \<and> (members (sm_sessions s) p \<noteq> {} \<or> grace_over D now s e)
            then None else map_of (sm_disconnectedAt s) p)))"

lemma fold_grace: "grace_result D now es (s, ds) (fold (grace_step D now) es (s, ds))"
proof (induction es arbitrary: s ds)
  case Nil
  show ?case by (auto simp: grace_result_def intro: exI[of _ "sm_disconnectedAt s"])
next
  case (Cons e es)
  obtain p t where e: "e = (p, t)" by fastforce
  obtain s1 ds1 where g: "grace_step D now e (s, ds) = (s1, ds1)" by fastforce
  obtain s2 ds2 where r: "fold (grace_step D now) es (s1, ds1) = (s2, ds2)" by fastforce
  have d1: "\<exists>d. s1 = s\<lparr>sm_disconnectedAt := d\<rparr>"
    using g by (auto simp: grace_step_def e split: if_splits intro: exI[of _ "sm_disconnectedAt s"])
  then have f: "sm_sessions s1 = sm_sessions s" "CityOf s1 q = CityOf s q" "grace_over D now s1 x = grace_over D now s x" for q x
    by (auto simp: grace_over_def intro!: CityOf_cong)
  have d: "set ds1 = set ds \<union> {c. grace_over D now s e \<and> CityOf s p = Some c}"
    using g by (auto simp: grace_step_def grace_over_def e split: if_splits option.splits)
  have a: "map_of (sm_disconnectedAt s1) q =
    (if q = p \<and> (members (sm_sessions s) p \<noteq> {} \<or> grace_over D now s e) then None else map_of (sm_disconnectedAt s) q)" for q
    using g by (auto simp: grace_step_def grace_over_def e split: if_splits)
  from Cons.IH[of s1 ds1] d1 have ih: "\<exists>d. s2 = s\<lparr>sm_disconnectedAt := d\<rparr>"
    "set ds2 = set ds1 \<union> {c. \<exists>e \<in> set es. grace_over D now s e \<and> CityOf s (fst e) = Some c}"
    "\<And>q. map_of (sm_disconnectedAt s2) q = (if \<exists>e \<in> set es. fst e = q \<and> (members (sm_sessions s) q \<noteq> {} \<or> grace_over D now s e)
       then None else map_of (sm_disconnectedAt s1) q)"
    unfolding r grace_result_def by (auto simp: f)
  have "set ds2 = set ds \<union> {c. \<exists>x \<in> set (e # es). grace_over D now s x \<and> CityOf s (fst x) = Some c}"
    using ih(2) d by (auto simp: e)
  moreover have "map_of (sm_disconnectedAt s2) q = (if \<exists>x \<in> set (e # es). fst x = q \<and>
     (members (sm_sessions s) q \<noteq> {} \<or> grace_over D now s x) then None else map_of (sm_disconnectedAt s) q)" for q
    using ih(3)[of q] a[of q] by (auto simp: e)
  ultimately show ?case using ih(1) by (simp add: g r grace_result_def)
qed

lemma degradeAbsent_eq:
  fixes s :: sim
  obtains d "is" where "degradeAbsent D now s = fold (\<lambda>i. applyPresence D i PresenceOfflinePending now) is (s\<lparr>sm_disconnectedAt := d\<rparr>)"
    and "set is = {c_ID c |c. \<exists>e \<in> set (AList.clearjunk (sm_disconnectedAt s)). grace_over D now s e \<and> CityOf s (fst e) = Some c}"
    and "\<And>p. map_of d p = (if \<exists>e \<in> set (AList.clearjunk (sm_disconnectedAt s)). fst e = p \<and>
       (members (sm_sessions s) p \<noteq> {} \<or> grace_over D now s e) then None else map_of (sm_disconnectedAt s) p)"
proof -
  obtain s1 ds where g: "fold (grace_step D now) (AList.clearjunk (sm_disconnectedAt s)) (s, []) = (s1, ds)" by fastforce
  from fold_grace[of D now "AList.clearjunk (sm_disconnectedAt s)" s "[]"]
  obtain d where r: "s1 = s\<lparr>sm_disconnectedAt := d\<rparr>"
    "set ds = {c. \<exists>e \<in> set (AList.clearjunk (sm_disconnectedAt s)). grace_over D now s e \<and> CityOf s (fst e) = Some c}"
    "\<And>p. map_of d p = (if \<exists>e \<in> set (AList.clearjunk (sm_disconnectedAt s)). fst e = p \<and>
       (members (sm_sessions s) p \<noteq> {} \<or> grace_over D now s e) then None else map_of (sm_disconnectedAt s) p)"
    unfolding g grace_result_def by auto
  have "degradeAbsent D now s = fold (\<lambda>i. applyPresence D i PresenceOfflinePending now) (map c_ID (sort_key c_ID ds)) s1"
    by (simp add: degradeAbsent_def g fold_map comp_def)
  moreover have "set (map c_ID (sort_key c_ID ds)) =
    {c_ID c |c. \<exists>e \<in> set (AList.clearjunk (sm_disconnectedAt s)). grace_over D now s e \<and> CityOf s (fst e) = Some c}"
    using r(2) by auto
  ultimately show thesis using that[of "map c_ID (sort_key c_ID ds)" d] r(1,3) by blast
qed

lemma fold_engage:
  "map_of (st_cities (fold (engage_city D now) is s)) j =
     (if j \<in> set is then map_option (\<lambda>c. if ShouldEngageProtection (c_PresenceState c) (c_LastOfflineAt c) (dp_ProtectionCooldown D) now
         then become D PresenceProtected now c else c) (map_of (st_cities s) j) else map_of (st_cities s) j)"
  "sm_sessions (fold (engage_city D now) is s) = sm_sessions s"
  "sm_disconnectedAt (fold (engage_city D now) is s) = sm_disconnectedAt s"
  "sm_earlyDisconnects (fold (engage_city D now) is s) = sm_earlyDisconnects s"
  "st_cityByOwner (fold (engage_city D now) is s) = st_cityByOwner s"
proof (induction "is" arbitrary: s)
  case (Cons i "is")
  have no: "\<not> ShouldEngageProtection PresenceProtected t x y" for t x y
    by (simp add: ShouldEngageProtection_def split: option.split)
  { case 1
    show ?case using Cons(1)[of "engage_city D now i s"] CanTransition_engage
      by (auto simp: engage_city_def become_def no option.map_comp comp_def split: option.splits)
  next
    case 2 show ?case using Cons(2)[of "engage_city D now i s"] by (simp add: engage_city_def split: option.split)
  next
    case 3 show ?case using Cons(3)[of "engage_city D now i s"] by (simp add: engage_city_def split: option.split)
  next
    case 4 show ?case using Cons(4)[of "engage_city D now i s"] by (simp add: engage_city_def split: option.split)
  next
    case 5 show ?case using Cons(5)[of "engage_city D now i s"] by (simp add: engage_city_def split: option.split)
  }
qed simp_all

subsection \<open>Histories of presence\<close>

text \<open>
  The openings and closings of sessions as the loop applies them, newest first, in any order and
  with any repetition of the closings; between them the clock runs, the timers fire, the world
  boots, and writes get lost and are flushed again.
\<close>

datatype pevent = Up uuid uuid | Down uuid uuid

definition cities_ok :: "'a state_scheme \<Rightarrow> bool" where
  "cities_ok s \<longleftrightarrow>
     (\<forall>i c. map_of (st_cities s) i = Some c \<longrightarrow> c_ID c = i \<and> Valid_presence (c_PresenceState c)) \<and>
     (\<forall>p i. map_of (st_cityByOwner s) p = Some i \<longrightarrow> (\<exists>c. map_of (st_cities s) i = Some c \<and> c_OwnerPlayerID c = p))"

inductive presence_run :: "deps \<Rightarrow> sim \<Rightarrow> pevent list \<Rightarrow> sim \<Rightarrow> bool" for D s\<^sub>0 where
  pr_start: "cities_ok s\<^sub>0 \<Longrightarrow> sm_sessions s\<^sub>0 = Map.empty \<Longrightarrow> sm_earlyDisconnects s\<^sub>0 = [] \<Longrightarrow>
    sm_disconnectedAt s\<^sub>0 = [] \<Longrightarrow> sm_jobs s\<^sub>0 = [] \<Longrightarrow> presence_run D s\<^sub>0 [] s\<^sub>0"
| pr_up: "presence_run D s\<^sub>0 es s \<Longrightarrow> presence_run D s\<^sub>0 (Up p sid # es) (handlePlayerConnected D p sid s)"
| pr_down: "presence_run D s\<^sub>0 es s \<Longrightarrow> presence_run D s\<^sub>0 (Down p sid # es) (handlePlayerDisconnected p sid s)"
| pr_clock: "presence_run D s\<^sub>0 es s \<Longrightarrow> presence_run D s\<^sub>0 es (s\<lparr>sm_now := t\<rparr>)"
| pr_grace: "presence_run D s\<^sub>0 es s \<Longrightarrow> presence_run D s\<^sub>0 es (degradeAbsent D now s)"
| pr_protect: "presence_run D s\<^sub>0 es s \<Longrightarrow> presence_run D s\<^sub>0 es (engageProtection D now s)"
| pr_boot: "presence_run D s\<^sub>0 es s \<Longrightarrow> presence_run D s\<^sub>0 es (AfterBoot D now s)"
| pr_lost: "presence_run D s\<^sub>0 es s \<Longrightarrow> presence_run D s\<^sub>0 es (handleCityPresencePersistFailed i s)"
| pr_flush: "presence_run D s\<^sub>0 es s \<Longrightarrow> presence_run D s\<^sub>0 es (flushPresence s)"

text \<open>A session belongs to one player and opens once (its id is fresh).\<close>

fun sessions_fresh :: "pevent list \<Rightarrow> bool" where
  "sessions_fresh [] \<longleftrightarrow> True"
| "sessions_fresh (Up p sid # es) \<longleftrightarrow> (\<forall>q. Up q sid \<notin> set es) \<and> (\<forall>q. Down q sid \<in> set es \<longrightarrow> q = p) \<and> sessions_fresh es"
| "sessions_fresh (Down p sid # es) \<longleftrightarrow> (\<forall>q. Up q sid \<in> set es \<or> Down q sid \<in> set es \<longrightarrow> q = p) \<and> sessions_fresh es"

lemma setPresence_sel [simp]:
  "sm_sessions (setPresence D p st s) = sm_sessions s" "sm_earlyDisconnects (setPresence D p st s) = sm_earlyDisconnects s"
  "sm_disconnectedAt (setPresence D p st s) = sm_disconnectedAt s" "st_cityByOwner (setPresence D p st s) = st_cityByOwner s"
  by (simp_all add: setPresence_def split: option.split)

lemma timers_sel [simp]:
  "sm_sessions (degradeAbsent D now s) = sm_sessions s" "sm_earlyDisconnects (degradeAbsent D now s) = sm_earlyDisconnects s"
  "st_cityByOwner (degradeAbsent D now s) = st_cityByOwner s"
  "sm_sessions (engageProtection D now s) = sm_sessions s" "sm_earlyDisconnects (engageProtection D now s) = sm_earlyDisconnects s"
  "st_cityByOwner (engageProtection D now s) = st_cityByOwner s" "sm_disconnectedAt (engageProtection D now s) = sm_disconnectedAt s"
proof -
  obtain d "is" where e: "degradeAbsent D now s = fold (\<lambda>i. applyPresence D i PresenceOfflinePending now) is (s\<lparr>sm_disconnectedAt := d\<rparr>)"
    by (rule degradeAbsent_eq)
  show "sm_sessions (degradeAbsent D now s) = sm_sessions s"
    "sm_earlyDisconnects (degradeAbsent D now s) = sm_earlyDisconnects s"
    "st_cityByOwner (degradeAbsent D now s) = st_cityByOwner s" unfolding e by (simp_all add: fold_applyPresence)
qed (simp_all add: engageProtection_def fold_engage)

text \<open>The boot only sets the ends of the protections before it degrades the orphans.\<close>

definition city_core :: "city \<Rightarrow> city" where
  "city_core c = c\<lparr>c_ProtectionUntil := None\<rparr>"

definition same_presence :: "sim \<Rightarrow> sim \<Rightarrow> bool" where
  "same_presence s s' \<longleftrightarrow> sm_sessions s' = sm_sessions s \<and> sm_earlyDisconnects s' = sm_earlyDisconnects s \<and>
     sm_disconnectedAt s' = sm_disconnectedAt s \<and> st_cityByOwner s' = st_cityByOwner s \<and> sm_jobs s' = sm_jobs s \<and>
     (\<forall>j. map_option city_core (map_of (st_cities s') j) = map_option city_core (map_of (st_cities s) j))"

lemma city_core_eqD:
  assumes "city_core c = city_core d"
  shows "c_ID c = c_ID d" "c_OwnerPlayerID c = c_OwnerPlayerID d" "c_PresenceState c = c_PresenceState d"
    "c_LastOnlineAt c = c_LastOnlineAt d" "c_LastOfflineAt c = c_LastOfflineAt d"
proof -
  have "c_ID (city_core c) = c_ID (city_core d)" "c_OwnerPlayerID (city_core c) = c_OwnerPlayerID (city_core d)"
    "c_PresenceState (city_core c) = c_PresenceState (city_core d)"
    "c_LastOnlineAt (city_core c) = c_LastOnlineAt (city_core d)"
    "c_LastOfflineAt (city_core c) = c_LastOfflineAt (city_core d)" using assms by simp_all
  then show "c_ID c = c_ID d" "c_OwnerPlayerID c = c_OwnerPlayerID d" "c_PresenceState c = c_PresenceState d"
    "c_LastOnlineAt c = c_LastOnlineAt d" "c_LastOfflineAt c = c_LastOfflineAt d" by (simp_all add: city_core_def)
qed

lemma boot_city_same: "boot_city D i (s, hs) = (s', hs') \<Longrightarrow> same_presence s s'"
  by (auto simp: boot_city_def same_presence_def city_core_def split: option.splits if_splits)

lemma same_presence_city:
  assumes "same_presence s s'" "map_of (st_cities s') j = Some c"
  obtains d where "map_of (st_cities s) j = Some d" "city_core c = city_core d"
  using assms unfolding same_presence_def by (metis (no_types, lifting) map_option_eq_Some)

lemma fold_boot:
  assumes "fold (boot_city D) is (s, hs) = (s', hs')"
  shows "same_presence s s' \<and>
    (\<forall>i \<in> set hs'. i \<in> set hs \<or> (\<exists>k c. map_of (st_cities s) k = Some c \<and> c_ID c = i \<and> members (sm_sessions s) (c_OwnerPlayerID c) = {}))"
  using assms
proof (induction "is" arbitrary: s hs)
  case Nil
  then show ?case by (simp add: same_presence_def)
next
  case (Cons i "is")
  obtain s1 hs1 where b: "boot_city D i (s, hs) = (s1, hs1)" by fastforce
  from boot_city_same[OF b] have s1: "same_presence s s1" .
  from Cons.IH[of s1 hs1] Cons.prems b
  have ih: "same_presence s1 s'" "\<forall>i \<in> set hs'. i \<in> set hs1 \<or>
    (\<exists>k c. map_of (st_cities s1) k = Some c \<and> c_ID c = i \<and> members (sm_sessions s1) (c_OwnerPlayerID c) = {})" by simp_all
  have "same_presence s s'" using s1 ih(1) by (simp add: same_presence_def)
  moreover have "k \<in> set hs \<or> (\<exists>j c. map_of (st_cities s) j = Some c \<and> c_ID c = k \<and> members (sm_sessions s) (c_OwnerPlayerID c) = {})"
    if "k \<in> set hs1" for k
    using b that by (auto simp: boot_city_def split: option.splits if_splits)
  moreover have "\<exists>j c. map_of (st_cities s) j = Some c \<and> c_ID c = k \<and> members (sm_sessions s) (c_OwnerPlayerID c) = {}"
    if c: "map_of (st_cities s1) j = Some c" "c_ID c = k" "members (sm_sessions s1) (c_OwnerPlayerID c) = {}" for k j c
  proof -
    from same_presence_city[OF s1 c(1)] obtain d where "map_of (st_cities s) j = Some d" "city_core c = city_core d" .
    with city_core_eqD[OF this(2)] c(2,3) s1 show ?thesis by (auto simp: same_presence_def)
  qed
  ultimately show ?case using ih(2) by blast
qed

lemma AfterBoot_eq:
  obtains s1 "is" where "AfterBoot D now s = fold (\<lambda>i. applyPresence D i PresenceOfflinePending now) is s1"
    and "same_presence s s1"
    and "\<forall>i \<in> set is. \<exists>k c. map_of (st_cities s) k = Some c \<and> c_ID c = i \<and> members (sm_sessions s) (c_OwnerPlayerID c) = {}"
proof -
  obtain s1 hs where f: "fold (boot_city D) (sorted_keys (st_cities s)) (s, []) = (s1, hs)" by fastforce
  from fold_boot[OF f] that[of "sort hs" s1] show thesis by (simp add: AfterBoot_def f)
qed

lemma AfterBoot_sel [simp]:
  "sm_sessions (AfterBoot D now s) = sm_sessions s" "sm_earlyDisconnects (AfterBoot D now s) = sm_earlyDisconnects s"
  "st_cityByOwner (AfterBoot D now s) = st_cityByOwner s"
proof -
  obtain s1 "is" where e: "AfterBoot D now s = fold (\<lambda>i. applyPresence D i PresenceOfflinePending now) is s1"
    "same_presence s s1" by (rule AfterBoot_eq)
  from e(2) show "sm_sessions (AfterBoot D now s) = sm_sessions s"
    "sm_earlyDisconnects (AfterBoot D now s) = sm_earlyDisconnects s"
    "st_cityByOwner (AfterBoot D now s) = st_cityByOwner s"
    unfolding e(1) by (simp_all add: fold_applyPresence same_presence_def)
qed

lemma fold_flush:
  "st_cities (fold (\<lambda>i s. case map_of (st_cities s) i of None \<Rightarrow> s | Some c \<Rightarrow> submitPresence c (sm_now s) s) is s) = st_cities s"
  "sm_sessions (fold (\<lambda>i s. case map_of (st_cities s) i of None \<Rightarrow> s | Some c \<Rightarrow> submitPresence c (sm_now s) s) is s) = sm_sessions s"
  "sm_earlyDisconnects (fold (\<lambda>i s. case map_of (st_cities s) i of None \<Rightarrow> s | Some c \<Rightarrow> submitPresence c (sm_now s) s) is s) = sm_earlyDisconnects s"
  "st_cityByOwner (fold (\<lambda>i s. case map_of (st_cities s) i of None \<Rightarrow> s | Some c \<Rightarrow> submitPresence c (sm_now s) s) is s) = st_cityByOwner s"
  by (induction "is" arbitrary: s) (simp_all split: option.split)

lemma flush_sel [simp]:
  "sm_sessions (flushPresence s) = sm_sessions s" "sm_earlyDisconnects (flushPresence s) = sm_earlyDisconnects s"
  "st_cityByOwner (flushPresence s) = st_cityByOwner s" "st_cities (flushPresence s) = st_cities s"
  "sm_sessions (handleCityPresencePersistFailed i s) = sm_sessions s"
  "sm_earlyDisconnects (handleCityPresencePersistFailed i s) = sm_earlyDisconnects s"
  "st_cityByOwner (handleCityPresencePersistFailed i s) = st_cityByOwner s"
  "st_cities (handleCityPresencePersistFailed i s) = st_cities s"
  by (simp_all add: flushPresence_def fold_flush handleCityPresencePersistFailed_def)

subsection \<open>A session counts exactly between its opening and its closing\<close>

lemma sessions_inv:
  assumes "presence_run D s\<^sub>0 es s" "sessions_fresh es"
  shows "(\<forall>p sid. sid \<in> members (sm_sessions s) p \<longleftrightarrow> Up p sid \<in> set es \<and> Down p sid \<notin> set es) \<and>
    (\<forall>sid. has_key (sm_earlyDisconnects s) sid \<longrightarrow> (\<exists>p. Down p sid \<in> set es)) \<and>
    (\<forall>p sid. Down p sid \<in> set es \<and> Up p sid \<notin> set es \<longrightarrow> has_key (sm_earlyDisconnects s) sid)"
  using assms
proof (induction rule: presence_run.induct)
  case (pr_up es s p sid)
  from pr_up.prems have f: "Up q sid \<notin> set es" "Down q sid \<in> set es \<Longrightarrow> q = p" "sessions_fresh es" for q by simp_all
  note ih = pr_up.IH[OF f(3)]
  then have m: "t \<in> members (sm_sessions s) q \<longleftrightarrow> Up q t \<in> set es \<and> Down q t \<notin> set es" for q t by blast
  have e: "has_key (sm_earlyDisconnects s) t \<Longrightarrow> \<exists>q. Down q t \<in> set es"
    "Down q t \<in> set es \<Longrightarrow> Up q t \<notin> set es \<Longrightarrow> has_key (sm_earlyDisconnects s) t" for q t using ih by blast+
  show ?case
  proof (cases "has_key (sm_earlyDisconnects s) sid")
    case True
    then have d: "Down p sid \<in> set es" using e(1) f(2) by blast
    have s': "handlePlayerConnected D p sid s = s\<lparr>sm_earlyDisconnects := del_key sid (sm_earlyDisconnects s)\<rparr>"
      using True by (simp add: handlePlayerConnected_def)
    have "t \<in> members (sm_sessions s) q \<longleftrightarrow> (Up q t = Up p sid \<or> Up q t \<in> set es) \<and> Down q t \<notin> set es" for q t
      using m[of t q] d by auto
    moreover have "has_key (sm_earlyDisconnects s) t" if "Down q t \<in> set es" "Up q t \<noteq> Up p sid" "Up q t \<notin> set es" for q t
      using e(2) that by blast
    moreover have "t \<noteq> sid" if "Down q t \<in> set es" "Up q t \<noteq> Up p sid" for q t using that f(2) by auto
    ultimately show ?thesis using e(1) unfolding s' by simp blast
  next
    case False
    then have d: "Down q sid \<notin> set es" for q using e(2) f(1) by blast
    have s': "sm_sessions (handlePlayerConnected D p sid s) = enter sid p (sm_sessions s)"
      "sm_earlyDisconnects (handlePlayerConnected D p sid s) = sm_earlyDisconnects s"
      using False by (simp_all add: handlePlayerConnected_def)
    have "t \<in> members (enter sid p (sm_sessions s)) q \<longleftrightarrow> (Up q t = Up p sid \<or> Up q t \<in> set es) \<and> Down q t \<notin> set es" for q t
      using m[of t q] d by auto
    then show ?thesis using e unfolding s' by simp blast
  qed
next
  case (pr_down es s p sid)
  from pr_down.prems have f: "Up q sid \<in> set es \<or> Down q sid \<in> set es \<Longrightarrow> q = p" "sessions_fresh es" for q by auto
  note ih = pr_down.IH[OF f(2)]
  then have m: "t \<in> members (sm_sessions s) q \<longleftrightarrow> Up q t \<in> set es \<and> Down q t \<notin> set es" for q t by blast
  have e: "has_key (sm_earlyDisconnects s) t \<Longrightarrow> \<exists>q. Down q t \<in> set es"
    "Down q t \<in> set es \<Longrightarrow> Up q t \<notin> set es \<Longrightarrow> has_key (sm_earlyDisconnects s) t" for q t using ih by blast+
  show ?case
  proof (cases "sid \<in> members (sm_sessions s) p")
    case True
    let ?s = "handlePlayerDisconnected p sid s"
    have "sm_sessions ?s = leave sid p (sm_sessions s)" "sm_earlyDisconnects ?s = sm_earlyDisconnects s"
      using True by (simp_all add: handlePlayerDisconnected_def Let_def)
    moreover have u: "Up p sid \<in> set es" using True m by blast
    moreover have "t \<in> members (leave sid p (sm_sessions s)) q \<longleftrightarrow> Up q t \<in> set es \<and> \<not> (Down q t = Down p sid \<or> Down q t \<in> set es)" for q t
      using m[of t q] by auto
    moreover have "has_key (sm_earlyDisconnects s) t" if "Down q t = Down p sid \<or> Down q t \<in> set es" "Up q t \<notin> set es" for q t
      using e(2) that u by auto
    ultimately show ?thesis using e(1) by (intro conjI allI impI) (simp, force, force)
  next
    case False
    then have "handlePlayerDisconnected p sid s = s\<lparr>sm_earlyDisconnects := mark_key sid (sm_earlyDisconnects s)\<rparr>"
      by (simp add: handlePlayerDisconnected_def)
    moreover have "t \<in> members (sm_sessions s) q \<longleftrightarrow> Up q t \<in> set es \<and> \<not> (Down q t = Down p sid \<or> Down q t \<in> set es)" for q t
      using m[of t q] False by auto
    moreover have "has_key (mark_key sid (sm_earlyDisconnects s)) t" if "Down q t = Down p sid \<or> Down q t \<in> set es" "Up q t \<notin> set es" for q t
      using e(2) that by auto
    moreover have "\<exists>q. Down q t = Down p sid \<or> Down q t \<in> set es" if "has_key (mark_key sid (sm_earlyDisconnects s)) t" for t
      using e(1)[of t] that by auto
    ultimately show ?thesis by (intro conjI allI impI) (simp, simp, force)
  qed
qed (simp_all add: members_def)

subsection \<open>The city of a present player, and the last write of a city\<close>

definition present_online :: "sim \<Rightarrow> bool" where
  "present_online s \<longleftrightarrow> (\<forall>p c. members (sm_sessions s) p \<noteq> {} \<longrightarrow> CityOf s p = Some c \<longrightarrow> c_PresenceState c = PresenceOnline)"

definition written :: "sim \<Rightarrow> int64 \<Rightarrow> city \<Rightarrow> (presence_state \<times> instant) list \<Rightarrow> bool" where
  "written s\<^sub>0 i c ws \<longleftrightarrow>
     (if ws = [] then map_option c_PresenceState (map_of (st_cities s\<^sub>0) i) = Some (c_PresenceState c)
      else \<exists>now. last ws = (c_PresenceState c, presenceMark c now))"

definition presence_inv :: "sim \<Rightarrow> sim \<Rightarrow> bool" where
  "presence_inv s\<^sub>0 s \<longleftrightarrow> cities_ok s \<and> (\<forall>i c. map_of (st_cities s) i = Some c \<longrightarrow> written s\<^sub>0 i c (writes_of s i))"

lemma cities_okD:
  assumes "cities_ok s"
  shows "map_of (st_cities s) i = Some c \<Longrightarrow> c_ID c = i"
    and "map_of (st_cities s) i = Some c \<Longrightarrow> Valid_presence (c_PresenceState c)"
    and "CityOf s p = Some c \<Longrightarrow> map_of (st_cities s) (c_ID c) = Some c \<and> c_OwnerPlayerID c = p"
  using assms unfolding cities_ok_def CityOf_def by (simp_all split: option.splits) (metis option.inject)

lemma cities_ok_map:
  assumes "cities_ok s" "st_cityByOwner s' = st_cityByOwner s"
    and "\<And>j c'. map_of (st_cities s') j = Some c' \<Longrightarrow> \<exists>c. map_of (st_cities s) j = Some c \<and> c_ID c' = c_ID c \<and>
      c_OwnerPlayerID c' = c_OwnerPlayerID c \<and> (Valid_presence (c_PresenceState c) \<longrightarrow> Valid_presence (c_PresenceState c'))"
    and "\<And>j. map_of (st_cities s) j \<noteq> None \<Longrightarrow> map_of (st_cities s') j \<noteq> None"
  shows "cities_ok s'"
  unfolding cities_ok_def
proof (intro conjI allI impI)
  fix i c' assume "map_of (st_cities s') i = Some c'"
  from assms(3)[OF this] cities_okD(1,2)[OF assms(1)] show "c_ID c' = i" "Valid_presence (c_PresenceState c')" by auto
next
  fix p i assume "map_of (st_cityByOwner s') p = Some i"
  then obtain c where c: "map_of (st_cities s) i = Some c" "c_OwnerPlayerID c = p"
    using assms(1,2) unfolding cities_ok_def by metis
  with assms(4)[of i] obtain c' where c': "map_of (st_cities s') i = Some c'" by auto
  with assms(3)[OF this] c show "\<exists>c. map_of (st_cities s') i = Some c \<and> c_OwnerPlayerID c = p" by auto
qed

lemma become_valid: "Valid_presence (c_PresenceState c) \<Longrightarrow> Valid_presence (c_PresenceState (become D st now c))"
  by (simp add: become_def CanTransition_def split: if_splits)

lemma writes_applyPresence:
  assumes "cities_ok s" "map_of (st_cities s) j = Some c"
  shows "writes_of (applyPresence D i st now s) j = writes_of s j @
    (if j = i \<and> c_PresenceState c \<noteq> st \<and> CanTransition (c_PresenceState c) st
     then [(st, presenceMark (enter_presence D st now c) now)] else [])"
proof (cases "map_of (st_cities s) i")
  case (Some d)
  have dirty: "writes_of (s\<lparr>st_presenceDirty := x\<rparr>) k = writes_of s k" for s :: sim and x k by (simp add: writes_of_def)
  have upd: "writes_of (upd_city i f s) k = writes_of s k" for f k by (simp add: writes_of_def)
  from Some cities_okD(1)[OF assms(1)] assms(2) show ?thesis
    by (auto simp: applyPresence_def Let_def dirty upd)
qed (use assms(2) in \<open>auto simp: applyPresence_def\<close>)

lemma presence_inv_apply:
  assumes "presence_inv s\<^sub>0 s"
  shows "presence_inv s\<^sub>0 (applyPresence D i st now s)"
proof -
  have ok: "cities_ok s" using assms by (simp add: presence_inv_def)
  have "cities_ok (applyPresence D i st now s)"
    by (rule cities_ok_map[OF ok]) (auto split: if_splits intro: become_valid)
  moreover have "written s\<^sub>0 j c' (writes_of (applyPresence D i st now s) j)"
    if "map_of (st_cities (applyPresence D i st now s)) j = Some c'" for j c'
  proof -
    from that obtain c where c: "map_of (st_cities s) j = Some c" "c' = (if j = i then become D st now c else c)"
      by (auto split: if_splits)
    with assms have "written s\<^sub>0 j c (writes_of s j)" by (simp add: presence_inv_def)
    with c(2) show ?thesis
      by (auto simp: writes_applyPresence[OF ok c(1)] written_def become_def split: if_splits)
  qed
  ultimately show ?thesis by (simp add: presence_inv_def)
qed

lemma presence_inv_fold: "presence_inv s\<^sub>0 s \<Longrightarrow> presence_inv s\<^sub>0 (fold (\<lambda>i. applyPresence D i st now) is s)"
  by (induction "is" arbitrary: s) (simp_all add: presence_inv_apply)

lemma presence_inv_cong:
  assumes "presence_inv s\<^sub>0 s" "st_cities s' = st_cities s" "st_cityByOwner s' = st_cityByOwner s" "sm_jobs s' = sm_jobs s"
  shows "presence_inv s\<^sub>0 s'"
  using assms by (simp add: presence_inv_def cities_ok_def writes_of_def)

lemma presence_inv_engage: "presence_inv s\<^sub>0 s \<Longrightarrow> presence_inv s\<^sub>0 (engageProtection D now s)"
proof -
  have "presence_inv s\<^sub>0 s \<Longrightarrow> presence_inv s\<^sub>0 (fold (engage_city D now) is s)" for "is"
    by (induction "is" arbitrary: s) (simp_all add: engage_city_def presence_inv_apply split: option.split)
  then show "presence_inv s\<^sub>0 s \<Longrightarrow> ?thesis" by (simp add: engageProtection_def)
qed

lemma presence_inv_same:
  assumes inv: "presence_inv s\<^sub>0 s" and same: "same_presence s s'"
  shows "presence_inv s\<^sub>0 s'"
proof -
  have ok: "cities_ok s" using inv by (simp add: presence_inv_def)
  have "cities_ok s'"
  proof (rule cities_ok_map[OF ok])
    fix j c' assume "map_of (st_cities s') j = Some c'"
    from same_presence_city[OF same this] obtain d where d: "map_of (st_cities s) j = Some d" "city_core c' = city_core d" .
    from city_core_eqD[OF d(2)] d(1) show "\<exists>c. map_of (st_cities s) j = Some c \<and> c_ID c' = c_ID c \<and>
      c_OwnerPlayerID c' = c_OwnerPlayerID c \<and> (Valid_presence (c_PresenceState c) \<longrightarrow> Valid_presence (c_PresenceState c'))"
      by auto
  qed (use same in \<open>auto simp: same_presence_def map_option_case split: option.splits\<close>)
  moreover have "written s\<^sub>0 j c' (writes_of s' j)" if "map_of (st_cities s') j = Some c'" for j c'
  proof -
    from same_presence_city[OF same that] obtain d where d: "map_of (st_cities s) j = Some d" "city_core c' = city_core d" .
    note e = city_core_eqD[OF d(2)]
    have "presenceMark c' now = presenceMark d now" for now by (simp add: presenceMark_def e)
    moreover have "writes_of s' j = writes_of s j" using same by (simp add: same_presence_def writes_of_def)
    moreover have "written s\<^sub>0 j d (writes_of s j)" using inv d(1) by (simp add: presence_inv_def)
    ultimately show ?thesis by (simp add: written_def e)
  qed
  ultimately show ?thesis by (simp add: presence_inv_def)
qed

lemma presence_inv_submit:
  assumes inv: "presence_inv s\<^sub>0 s" and i: "map_of (st_cities s) i = Some c"
  shows "presence_inv s\<^sub>0 (submitPresence c now s)"
proof -
  have ok: "cities_ok s" using inv by (simp add: presence_inv_def)
  then have "cities_ok (submitPresence c now s)" by (simp add: cities_ok_def)
  moreover have "written s\<^sub>0 j d (writes_of (submitPresence c now s) j)" if "map_of (st_cities s) j = Some d" for j d
    using inv that i cities_okD(1)[OF ok] by (auto simp: presence_inv_def written_def)
  ultimately show ?thesis by (simp add: presence_inv_def)
qed

lemma presence_inv_flush: "presence_inv s\<^sub>0 s \<Longrightarrow> presence_inv s\<^sub>0 (flushPresence s)"
proof -
  have f: "presence_inv s\<^sub>0 s \<Longrightarrow> presence_inv s\<^sub>0
    (fold (\<lambda>i s. case map_of (st_cities s) i of None \<Rightarrow> s | Some c \<Rightarrow> submitPresence c (sm_now s) s) is s)" for s "is"
    by (induction "is" arbitrary: s) (simp_all add: presence_inv_submit split: option.split)
  assume "presence_inv s\<^sub>0 s"
  then show ?thesis unfolding flushPresence_def by (auto intro!: f intro: presence_inv_cong)
qed

lemma run_presence_inv: "presence_run D s\<^sub>0 es s \<Longrightarrow> presence_inv s\<^sub>0 s"
proof (induction rule: presence_run.induct)
  case pr_start
  then show ?case by (simp add: presence_inv_def writes_of_def written_def List.map_filter_simps)
next
  case (pr_up es s p sid)
  then show ?case
    by (auto simp: handlePlayerConnected_def setPresence_def split: option.split
        intro!: presence_inv_apply intro: presence_inv_cong)
next
  case (pr_down es s p sid)
  then show ?case by (auto simp: handlePlayerDisconnected_def Let_def intro: presence_inv_cong)
next
  case (pr_grace es s now)
  obtain d "is" where e: "degradeAbsent D now s = fold (\<lambda>i. applyPresence D i PresenceOfflinePending now) is (s\<lparr>sm_disconnectedAt := d\<rparr>)"
    by (rule degradeAbsent_eq)
  show ?case unfolding e by (rule presence_inv_fold, rule presence_inv_cong[OF pr_grace(2)]) simp_all
next
  case (pr_boot es s now)
  obtain s1 "is" where e: "AfterBoot D now s = fold (\<lambda>i. applyPresence D i PresenceOfflinePending now) is s1"
    "same_presence s s1" by (rule AfterBoot_eq)
  show ?case unfolding e(1) by (rule presence_inv_fold, rule presence_inv_same[OF pr_boot(2) e(2)])
next
  case (pr_lost es s i)
  then show ?case by (auto simp: handleCityPresencePersistFailed_def intro: presence_inv_cong)
qed (auto intro: presence_inv_engage presence_inv_flush presence_inv_cong)

lemma CityOf_fold:
  assumes "cities_ok s"
  shows "CityOf (fold (\<lambda>i. applyPresence D i st now) is s) p =
    map_option (\<lambda>c. if c_ID c \<in> set is then become D st now c else c) (CityOf s p)"
  using cities_okD(1)[OF assms]
  by (auto simp: CityOf_def fold_applyPresence map_option_case split: option.split)

lemma CityOf_apply:
  assumes "cities_ok s"
  shows "CityOf (applyPresence D i st now s) p = map_option (\<lambda>c. if c_ID c = i then become D st now c else c) (CityOf s p)"
  using CityOf_fold[OF assms, of D st now "[i]" p] by simp

lemma CityOf_engage:
  "CityOf (engageProtection D now s) p = map_option (\<lambda>c. if ShouldEngageProtection (c_PresenceState c) (c_LastOfflineAt c) (dp_ProtectionCooldown D) now
     then become D PresenceProtected now c else c) (CityOf s p)"
  by (auto simp: CityOf_def engageProtection_def fold_engage option.map_ident split: option.split)

lemma present_online_fold:
  assumes "cities_ok s" "present_online s"
    and "\<And>p c. CityOf s p = Some c \<Longrightarrow> c_ID c \<in> set is \<Longrightarrow> members (sm_sessions s) p = {}"
  shows "present_online (fold (\<lambda>i. applyPresence D i st now) is s)"
  using assms(2,3) unfolding present_online_def CityOf_fold[OF assms(1)] by (auto simp: fold_applyPresence)

lemma present_online_cong:
  "present_online s \<Longrightarrow> sm_sessions s' = sm_sessions s \<Longrightarrow> st_cities s' = st_cities s \<Longrightarrow> st_cityByOwner s' = st_cityByOwner s \<Longrightarrow>
    present_online s'"
  unfolding present_online_def using CityOf_cong[of s' s] by simp

lemma become_online: "Valid_presence (c_PresenceState c) \<Longrightarrow> c_PresenceState (become D PresenceOnline now c) = PresenceOnline"
  by (cases "c_PresenceState c") (auto simp: become_def CanTransition_def Valid_presence_def)

lemma run_present_online: "presence_run D s\<^sub>0 es s \<Longrightarrow> present_online s"
proof (induction rule: presence_run.induct)
  case pr_start
  then show ?case by (simp add: present_online_def members_def)
next
  case (pr_up es s p sid)
  have ok: "cities_ok s" using run_presence_inv[OF pr_up(1)] by (simp add: presence_inv_def)
  show ?case
  proof (cases "has_key (sm_earlyDisconnects s) sid")
    case True
    with pr_up(2) show ?thesis by (auto simp: handlePlayerConnected_def intro: present_online_cong)
  next
    case False
    define s1 where "s1 = s\<lparr>sm_sessions := enter sid p (sm_sessions s), sm_disconnectedAt := del_key p (sm_disconnectedAt s)\<rparr>"
    have ok1: "cities_ok s1" using ok by (simp add: s1_def cities_ok_def)
    have c1: "CityOf s1 q = CityOf s q" for q by (rule CityOf_cong) (simp_all add: s1_def)
    have h: "handlePlayerConnected D p sid s = setPresence D p PresenceOnline s1"
      using False by (simp add: handlePlayerConnected_def s1_def)
    show ?thesis unfolding h present_online_def
    proof (intro allI impI)
      fix q c assume m: "members (sm_sessions (setPresence D p PresenceOnline s1)) q \<noteq> {}"
        and c: "CityOf (setPresence D p PresenceOnline s1) q = Some c"
      show "c_PresenceState c = PresenceOnline"
      proof (cases "CityOf s p")
        case None
        with m c pr_up(2) show ?thesis
          by (auto simp: setPresence_def c1 s1_def[symmetric] present_online_def) (auto simp: s1_def present_online_def split: if_splits)
      next
        case (Some d)
        from c Some obtain e where e: "CityOf s q = Some e"
          "c = (if c_ID e = c_ID d then become D PresenceOnline (sm_now s1) e else e)"
          by (auto simp: setPresence_def c1 CityOf_apply[OF ok1])
        have v: "Valid_presence (c_PresenceState e)" using cities_okD(2,3)[OF ok] e(1) by blast
        show ?thesis
        proof (cases "c_ID e = c_ID d")
          case True
          with e(2) become_online[OF v] show ?thesis by simp
        next
          case False
          then have "q \<noteq> p" using Some e(1) by auto
          then have "members (sm_sessions s) q \<noteq> {}" using m by (simp add: s1_def)
          with pr_up(2) e(1) have "c_PresenceState e = PresenceOnline" by (simp add: present_online_def)
          with e(2) False show ?thesis by simp
        qed
      qed
    qed
  qed
next
  case (pr_down es s p sid)
  have c1: "CityOf (handlePlayerDisconnected p sid s) q = CityOf s q" for q
    by (rule CityOf_cong) (simp_all add: handlePlayerDisconnected_def Let_def)
  have "members (sm_sessions (handlePlayerDisconnected p sid s)) q \<subseteq> members (sm_sessions s) q" for q
    by (auto simp: handlePlayerDisconnected_def Let_def split: if_splits)
  then have "members (sm_sessions s) q \<noteq> {}" if "members (sm_sessions (handlePlayerDisconnected p sid s)) q \<noteq> {}" for q
    using that by (metis subset_empty)
  with pr_down(2) show ?case unfolding present_online_def c1 by blast
next
  case (pr_grace es s now)
  have ok: "cities_ok s" using run_presence_inv[OF pr_grace(1)] by (simp add: presence_inv_def)
  obtain d "is" where e: "degradeAbsent D now s = fold (\<lambda>i. applyPresence D i PresenceOfflinePending now) is (s\<lparr>sm_disconnectedAt := d\<rparr>)"
    "set is = {c_ID c |c. \<exists>e \<in> set (AList.clearjunk (sm_disconnectedAt s)). grace_over D now s e \<and> CityOf s (fst e) = Some c}"
    by (rule degradeAbsent_eq)
  let ?s = "s\<lparr>sm_disconnectedAt := d\<rparr>"
  have c1: "CityOf ?s q = CityOf s q" for q by (rule CityOf_cong) simp_all
  show ?case unfolding e(1)
  proof (rule present_online_fold)
    show "cities_ok ?s" using ok by (simp add: cities_ok_def)
    show "present_online ?s" using pr_grace(2) by (rule present_online_cong) simp_all
    fix q c assume "CityOf ?s q = Some c" "c_ID c \<in> set is"
    then obtain x b where x: "CityOf s q = Some c" "grace_over D now s x" "CityOf s (fst x) = Some b" "c_ID b = c_ID c"
      unfolding e(2) c1 by auto
    from cities_okD(3)[OF ok x(1)] cities_okD(3)[OF ok x(3)] x(4) have "fst x = q" by simp
    with x(2) show "members (sm_sessions ?s) q = {}" by (auto simp: grace_over_def)
  qed
next
  case (pr_protect es s now)
  show ?case unfolding present_online_def CityOf_engage
  proof (intro allI impI)
    fix q c assume m: "members (sm_sessions (engageProtection D now s)) q \<noteq> {}"
      and c: "map_option (\<lambda>c. if ShouldEngageProtection (c_PresenceState c) (c_LastOfflineAt c) (dp_ProtectionCooldown D) now
        then become D PresenceProtected now c else c) (CityOf s q) = Some c"
    from c obtain b where b: "CityOf s q = Some b" by auto
    have "members (sm_sessions s) q \<noteq> {}" using m by simp
    with pr_protect(2) b have "c_PresenceState b = PresenceOnline" by (simp add: present_online_def)
    with b c show "c_PresenceState c = PresenceOnline" by (simp add: ShouldEngageProtection_def split: option.splits)
  qed
next
  case (pr_boot es s now)
  have inv: "presence_inv s\<^sub>0 s" by (rule run_presence_inv[OF pr_boot(1)])
  obtain s1 "is" where e: "AfterBoot D now s = fold (\<lambda>i. applyPresence D i PresenceOfflinePending now) is s1"
    "same_presence s s1"
    "\<forall>i \<in> set is. \<exists>k c. map_of (st_cities s) k = Some c \<and> c_ID c = i \<and> members (sm_sessions s) (c_OwnerPlayerID c) = {}"
    by (rule AfterBoot_eq)
  have ok: "cities_ok s" "cities_ok s1" using inv presence_inv_same[OF inv e(2)] by (simp_all add: presence_inv_def)
  have c1: "\<exists>b. CityOf s q = Some b \<and> city_core c = city_core b" if "CityOf s1 q = Some c" for q c
  proof -
    from that e(2) obtain i where "map_of (st_cityByOwner s) q = Some i" "map_of (st_cities s1) i = Some c"
      by (auto simp: CityOf_def same_presence_def split: option.splits)
    with same_presence_city[OF e(2) this(2)] show ?thesis by (metis CityOf_def option.simps(5))
  qed
  show ?case unfolding e(1)
  proof (rule present_online_fold[OF ok(2)])
    show "present_online s1" unfolding present_online_def
    proof (intro allI impI)
      fix q c assume m: "members (sm_sessions s1) q \<noteq> {}" and c: "CityOf s1 q = Some c"
      from c1[OF c] obtain b where b: "CityOf s q = Some b" "city_core c = city_core b" by blast
      have "members (sm_sessions s) q \<noteq> {}" using m e(2) by (simp add: same_presence_def)
      with pr_boot(2) b(1) have "c_PresenceState b = PresenceOnline" by (simp add: present_online_def)
      with city_core_eqD(3)[OF b(2)] show "c_PresenceState c = PresenceOnline" by simp
    qed
    fix q c assume c: "CityOf s1 q = Some c" "c_ID c \<in> set is"
    from e(3) c(2) obtain k b where b: "map_of (st_cities s) k = Some b" "c_ID b = c_ID c"
      "members (sm_sessions s) (c_OwnerPlayerID b) = {}" by blast
    from c1[OF c(1)] obtain a where a: "CityOf s q = Some a" "city_core c = city_core a" by blast
    from cities_okD(3)[OF ok(1) a(1)] cities_okD(1)[OF ok(1) b(1)] b(1,2) city_core_eqD(1)[OF a(2)]
    have "c_OwnerPlayerID b = q" by auto
    with b(3) e(2) show "members (sm_sessions s1) q = {}" by (simp add: same_presence_def)
  qed
qed (auto intro: present_online_cong)

text \<open>
  C22: whatever the order and the repetition in which the loop applies the openings and closings of
  sessions, with a closing even before its opening, a player's sessions are exactly those opened
  and not closed, and while he has one his city is ONLINE: no timer degrades it.
\<close>

theorem presence_sessions_exact:
  assumes "presence_run D s\<^sub>0 es s" "sessions_fresh es"
  shows "members (sm_sessions s) p = {sid. Up p sid \<in> set es \<and> Down p sid \<notin> set es} \<and>
    (members (sm_sessions s) p \<noteq> {} \<longrightarrow> CityOf s p = Some c \<longrightarrow> c_PresenceState c = PresenceOnline)"
  using sessions_inv[OF assms] run_present_online[OF assms(1)] by (auto simp: present_online_def)

text \<open>
  C23: the last write of presence submitted for a city carries the presence it has now, with its
  mark, and a city without any write still has the presence it was loaded with, whatever
  transitions, lost writes and flushes there have been.
\<close>

theorem presence_last_write:
  assumes "presence_run D s\<^sub>0 es s" "map_of (st_cities s) i = Some c"
  shows "if writes_of s i = [] then map_option c_PresenceState (map_of (st_cities s\<^sub>0) i) = Some (c_PresenceState c)
    else \<exists>now. last (writes_of s i) = (c_PresenceState c, presenceMark c now)"
  using run_presence_inv[OF assms(1)] assms(2) by (simp add: presence_inv_def written_def)

text \<open>A city whose write was lost is written again by the next flush, with what it has then.\<close>

lemma count_list_distinct: "distinct xs \<Longrightarrow> count_list xs x = (if x \<in> set xs then 1 else 0)"
  by (induction xs) auto

lemma writes_flush:
  assumes "cities_ok t" "map_of (st_cities t) i = Some c"
  shows "writes_of (fold (\<lambda>i s. case map_of (st_cities s) i of None \<Rightarrow> s | Some c \<Rightarrow> submitPresence c (sm_now s) s) is t) i =
    writes_of t i @ replicate (count_list is i) (c_PresenceState c, presenceMark c (sm_now t))"
  using assms
proof (induction "is" arbitrary: t)
  case (Cons k "is")
  let ?t = "case map_of (st_cities t) k of None \<Rightarrow> t | Some c \<Rightarrow> submitPresence c (sm_now t) t"
  have e: "st_cities ?t = st_cities t" "sm_now ?t = sm_now t" "cities_ok ?t"
    using Cons.prems(1) by (auto simp: cities_ok_def split: option.split)
  have w: "writes_of ?t i = writes_of t i @ (if k = i then [(c_PresenceState c, presenceMark c (sm_now t))] else [])"
    using Cons.prems cities_okD(1)[OF Cons.prems(1)] by (auto split: option.split)
  from Cons.IH[of ?t] e Cons.prems(2) show ?case by (simp add: w)
qed simp

lemma flush_rewrites_lost:
  assumes "cities_ok s" "map_of (st_cities s) i = Some c"
  shows "writes_of (flushPresence (handleCityPresencePersistFailed i s)) i =
    writes_of s i @ [(c_PresenceState c, presenceMark c (sm_now s))]"
proof -
  let ?d = "mark_key i (st_presenceDirty s)"
  let ?s = "s\<lparr>st_presenceDirty := []\<rparr>"
  have "i \<in> set (sorted_keys ?d)" by (simp add: mark_key_def)
  then have "count_list (sorted_keys ?d) i = 1" by (simp add: count_list_distinct)
  moreover have "?d \<noteq> []" by (metis has_key_Nil has_key_mark)
  moreover have "cities_ok ?s" "map_of (st_cities ?s) i = Some c" "writes_of ?s i = writes_of s i"
    using assms by (simp_all add: cities_ok_def writes_of_def)
  ultimately show ?thesis
    using assms writes_flush[of ?s i c "sorted_keys ?d"]
    by (simp add: flushPresence_def handleCityPresencePersistFailed_def has_key_def)
qed

subsection \<open>A player who is gone ends up protected\<close>

definition presence_tick :: "deps \<Rightarrow> instant \<Rightarrow> sim \<Rightarrow> sim" where
  "presence_tick D now s = engageProtection D now (degradeAbsent D now s)"

lemma degradeAbsent_city:
  assumes ok: "cities_ok s" and gone: "members (sm_sessions s) p = {}"
  shows "CityOf (degradeAbsent D now s) p =
      map_option (\<lambda>c. if \<exists>t. map_of (sm_disconnectedAt s) p = Some t \<and> dp_DisconnectGrace D \<le> now - t
        then become D PresenceOfflinePending now c else c) (CityOf s p)"
    and "map_of (sm_disconnectedAt (degradeAbsent D now s)) p =
      (if \<exists>t. map_of (sm_disconnectedAt s) p = Some t \<and> dp_DisconnectGrace D \<le> now - t then None
       else map_of (sm_disconnectedAt s) p)"
    and "cities_ok (degradeAbsent D now s)"
proof -
  obtain d "is" where e: "degradeAbsent D now s = fold (\<lambda>i. applyPresence D i PresenceOfflinePending now) is (s\<lparr>sm_disconnectedAt := d\<rparr>)"
    "set is = {c_ID c |c. \<exists>e \<in> set (AList.clearjunk (sm_disconnectedAt s)). grace_over D now s e \<and> CityOf s (fst e) = Some c}"
    "\<And>p. map_of d p = (if \<exists>e \<in> set (AList.clearjunk (sm_disconnectedAt s)). fst e = p \<and>
       (members (sm_sessions s) p \<noteq> {} \<or> grace_over D now s e) then None else map_of (sm_disconnectedAt s) p)"
    by (rule degradeAbsent_eq[of D now s]) blast
  have j: "(q, t) \<in> set (AList.clearjunk (sm_disconnectedAt s)) \<longleftrightarrow> map_of (sm_disconnectedAt s) q = Some t" for q t
    using map_of_eq_Some_iff[OF distinct_clearjunk, of "sm_disconnectedAt s" q t] by (simp add: map_of_clearjunk)
  have over: "(\<exists>e \<in> set (AList.clearjunk (sm_disconnectedAt s)). fst e = p \<and> grace_over D now s e) \<longleftrightarrow>
    (\<exists>t. map_of (sm_disconnectedAt s) p = Some t \<and> dp_DisconnectGrace D \<le> now - t)"
  proof
    assume "\<exists>e \<in> set (AList.clearjunk (sm_disconnectedAt s)). fst e = p \<and> grace_over D now s e"
    then obtain q t where "(q, t) \<in> set (AList.clearjunk (sm_disconnectedAt s))" "q = p" "grace_over D now s (q, t)" by auto
    then show "\<exists>t. map_of (sm_disconnectedAt s) p = Some t \<and> dp_DisconnectGrace D \<le> now - t"
      unfolding j by (simp add: grace_over_def)
  next
    assume "\<exists>t. map_of (sm_disconnectedAt s) p = Some t \<and> dp_DisconnectGrace D \<le> now - t"
    then obtain t where t: "map_of (sm_disconnectedAt s) p = Some t" "dp_DisconnectGrace D \<le> now - t" by blast
    show "\<exists>e \<in> set (AList.clearjunk (sm_disconnectedAt s)). fst e = p \<and> grace_over D now s e"
      by (rule bexI[where x = "(p, t)"]) (use t gone j in \<open>simp_all add: grace_over_def\<close>)
  qed
  let ?s = "s\<lparr>sm_disconnectedAt := d\<rparr>"
  have ok1: "cities_ok ?s" using ok by (simp add: cities_ok_def)
  have c1: "CityOf ?s q = CityOf s q" for q by (rule CityOf_cong) simp_all
  have "c_ID c \<in> set is \<longleftrightarrow> (\<exists>e \<in> set (AList.clearjunk (sm_disconnectedAt s)). fst e = p \<and> grace_over D now s e)"
    if c: "CityOf s p = Some c" for c
  proof
    assume "c_ID c \<in> set is"
    then obtain x b where x: "x \<in> set (AList.clearjunk (sm_disconnectedAt s))" "grace_over D now s x"
      "CityOf s (fst x) = Some b" "c_ID b = c_ID c" unfolding e(2) by auto
    from cities_okD(3)[OF ok c] cities_okD(3)[OF ok x(3)] x(4) have "fst x = p" by simp
    with x show "\<exists>e \<in> set (AList.clearjunk (sm_disconnectedAt s)). fst e = p \<and> grace_over D now s e" by blast
  qed (use c e(2) in blast)
  then show "CityOf (degradeAbsent D now s) p =
      map_option (\<lambda>c. if \<exists>t. map_of (sm_disconnectedAt s) p = Some t \<and> dp_DisconnectGrace D \<le> now - t
        then become D PresenceOfflinePending now c else c) (CityOf s p)"
    unfolding e(1) CityOf_fold[OF ok1] c1 by (cases "CityOf s p") (simp_all add: over)
  show "map_of (sm_disconnectedAt (degradeAbsent D now s)) p =
      (if \<exists>t. map_of (sm_disconnectedAt s) p = Some t \<and> dp_DisconnectGrace D \<le> now - t then None
       else map_of (sm_disconnectedAt s) p)"
    unfolding e(1) fold_applyPresence using over gone by (simp add: e(3))
  show "cities_ok (degradeAbsent D now s)"
    by (rule cities_ok_map[OF ok]) (auto simp: e(1) fold_applyPresence split: if_splits intro: become_valid)
qed

lemma engage_cities_ok: "cities_ok s \<Longrightarrow> cities_ok (engageProtection D now s)"
  by (rule cities_ok_map) (auto simp: engageProtection_def fold_engage split: if_splits intro: become_valid)

lemma tick_city:
  assumes ok: "cities_ok s" and gone: "members (sm_sessions s) p = {}" and c: "CityOf s p = Some c"
  shows "cities_ok (presence_tick D now s)" "members (sm_sessions (presence_tick D now s)) p = {}"
    and "\<lbrakk>c_PresenceState c = PresenceOnline; map_of (sm_disconnectedAt s) p = Some t; now - t < dp_DisconnectGrace D\<rbrakk> \<Longrightarrow>
      CityOf (presence_tick D now s) p = Some c \<and> map_of (sm_disconnectedAt (presence_tick D now s)) p = Some t"
    and "\<lbrakk>c_PresenceState c = PresenceOnline; map_of (sm_disconnectedAt s) p = Some t; dp_DisconnectGrace D \<le> now - t\<rbrakk> \<Longrightarrow>
      map_of (sm_disconnectedAt (presence_tick D now s)) p = None \<and>
      CityOf (presence_tick D now s) p = Some (let c' = enter_presence D PresenceOfflinePending now c
        in if now + dp_ProtectionCooldown D \<le> now then enter_presence D PresenceProtected now c' else c')"
    and "\<lbrakk>map_of (sm_disconnectedAt s) p = None; c_PresenceState c = PresenceOfflinePending; c_LastOfflineAt c = Some t\<rbrakk> \<Longrightarrow>
      map_of (sm_disconnectedAt (presence_tick D now s)) p = None \<and>
      CityOf (presence_tick D now s) p = Some (if t + dp_ProtectionCooldown D \<le> now
        then enter_presence D PresenceProtected now c else c)"
    and "\<lbrakk>map_of (sm_disconnectedAt s) p = None; c_PresenceState c = PresenceProtected\<rbrakk> \<Longrightarrow>
      map_of (sm_disconnectedAt (presence_tick D now s)) p = None \<and> CityOf (presence_tick D now s) p = Some c"
  using degradeAbsent_city[OF ok gone] c gone
  by (auto simp: presence_tick_def CityOf_engage engage_cities_ok become_def ShouldEngageProtection_def
      CanTransition_def Valid_presence_def enter_presence_def Let_def)

text \<open>
  C24: a player who has lost his last session and does not come back: as soon as a tick finds the
  grace over, his city is OFFLINE_PENDING with the instant of that tick as its mark, and as soon
  as one finds the cooldown over it is PROTECTED, until the cooldown plus the cap from that mark.
\<close>

theorem absent_gets_protected:
  assumes "cities_ok s" "members (sm_sessions s) p = {}" "map_of (sm_disconnectedAt s) p = Some t"
    and "CityOf s p = Some c" "c_PresenceState c = PresenceOnline"
    and "\<forall>n \<in> set as. n - t < dp_DisconnectGrace D" "dp_DisconnectGrace D \<le> n - t"
    and "m \<in> set (n # bs)" "n + dp_ProtectionCooldown D \<le> m"
  shows "\<exists>c'. CityOf (fold (presence_tick D) (as @ n # bs) s) p = Some c' \<and> c_PresenceState c' = PresenceProtected \<and>
    c_LastOfflineAt c' = Some n \<and>
    c_ProtectionUntil c' = ProtectionEndsAt (Some n) (dp_ProtectionCooldown D) (dp_ProtectionMax D)"
proof -
  let ?P = "\<lambda>c'. c_PresenceState c' = PresenceProtected \<and> c_LastOfflineAt c' = Some n \<and>
    c_ProtectionUntil c' = ProtectionEndsAt (Some n) (dp_ProtectionCooldown D) (dp_ProtectionMax D)"
  define gone where "gone = (\<lambda>s :: sim. cities_ok s \<and> members (sm_sessions s) p = {})"
  have w: "gone (fold (presence_tick D) as s) \<and> map_of (sm_disconnectedAt (fold (presence_tick D) as s)) p = Some t \<and>
    CityOf (fold (presence_tick D) as s) p = Some c"
    using assms(1-4,6)
  proof (induction as arbitrary: s)
    case (Cons a as)
    have lt: "a - t < dp_DisconnectGrace D" using Cons.prems(5) by simp
    note tk = tick_city[OF Cons.prems(1,2,4), where D = D and now = a]
    from tk(3)[OF assms(5) Cons.prems(3) lt] Cons.IH[of "presence_tick D a s"] tk(1,2) Cons.prems(5) show ?case by simp
  qed (simp add: gone_def)
  have r: "gone s \<Longrightarrow> map_of (sm_disconnectedAt s) p = None \<Longrightarrow> CityOf s p = Some d \<Longrightarrow>
    ?P d \<or> c_PresenceState d = PresenceOfflinePending \<and> c_LastOfflineAt d = Some n \<and> (\<exists>m \<in> set bs. n + dp_ProtectionCooldown D \<le> m) \<Longrightarrow>
    \<exists>c'. CityOf (fold (presence_tick D) bs s) p = Some c' \<and> ?P c'" for s d bs
  proof (induction bs arbitrary: s d)
    case (Cons b bs)
    have g: "cities_ok s" "members (sm_sessions s) p = {}" using Cons.prems(1) by (simp_all add: gone_def)
    note tk = tick_city[OF g Cons.prems(3), where D = D and now = b]
    have g': "gone (presence_tick D b s)" using tk(1,2) by (simp add: gone_def)
    show ?case
    proof (cases "?P d")
      case True
      with tk(6)[OF Cons.prems(2)] Cons.IH[OF g', of d] show ?thesis by simp
    next
      case False
      with Cons.prems(4) have d: "c_PresenceState d = PresenceOfflinePending" "c_LastOfflineAt d = Some n"
        "\<exists>m \<in> set (b # bs). n + dp_ProtectionCooldown D \<le> m" by blast+
      show ?thesis
      proof (cases "n + dp_ProtectionCooldown D \<le> b")
        case True
        let ?d = "enter_presence D PresenceProtected b d"
        have "?P ?d" using d(2) by (simp add: enter_presence_def Let_def)
        with tk(5)[OF Cons.prems(2) d(1,2)] True Cons.IH[OF g', of ?d] show ?thesis by simp
      next
        case False
        with tk(5)[OF Cons.prems(2) d(1,2)] Cons.IH[OF g', of d] d show ?thesis by simp
      qed
    qed
  qed simp
  let ?s = "fold (presence_tick D) as s"
  let ?c = "enter_presence D PresenceOfflinePending n c"
  let ?d = "if n + dp_ProtectionCooldown D \<le> n then enter_presence D PresenceProtected n ?c else ?c"
  from w have g: "cities_ok ?s" "members (sm_sessions ?s) p = {}" "map_of (sm_disconnectedAt ?s) p = Some t"
    "CityOf ?s p = Some c" by (simp_all add: gone_def)
  note tk = tick_city[OF g(1,2,4), where D = D and now = n]
  from tk(4)[OF assms(5) g(3) assms(7)] have t: "map_of (sm_disconnectedAt (presence_tick D n ?s)) p = None"
    "CityOf (presence_tick D n ?s) p = Some ?d" by (simp_all add: Let_def)
  have "gone (presence_tick D n ?s)" using tk(1,2) by (simp add: gone_def)
  moreover have "?P ?d \<or> c_PresenceState ?d = PresenceOfflinePending \<and> c_LastOfflineAt ?d = Some n \<and>
    (\<exists>m \<in> set bs. n + dp_ProtectionCooldown D \<le> m)"
  proof (cases "n + dp_ProtectionCooldown D \<le> n")
    case True
    then show ?thesis by (simp add: enter_presence_def Let_def)
  next
    case False
    with assms(8,9) have "\<exists>m \<in> set bs. n + dp_ProtectionCooldown D \<le> m" by auto
    with False show ?thesis by (simp add: enter_presence_def Let_def)
  qed
  ultimately have "\<exists>c'. CityOf (fold (presence_tick D) bs (presence_tick D n ?s)) p = Some c' \<and> ?P c'"
    using t by (intro r)
  then show ?thesis by simp
qed

subsection \<open>Examples\<close>

text \<open>
  The path search is not used by presence; its place is taken by the straight answer. Player 7
  owns the city 1, opens the session 5, and the closing of session 6 arrives before its opening.
\<close>

definition sample_deps :: deps where
  "sample_deps = \<lparr>dp_FindPath = (\<lambda>w a b opts. Ok [a, b]), dp_UuidString = (\<lambda>u. FormatInt (uint u)), dp_ParseUuid = (\<lambda>t. None),
     dp_Partitions = 1, dp_Garrisons = True, dp_Economy = True,
     dp_Combat = True, dp_Treaties = True, dp_Trade = True, dp_Conquest = True,
     dp_ProtectionCooldown = 50, dp_ProtectionMax = 1000, dp_DisconnectGrace = 10,
     dp_PathMaxNodes = 1000, dp_PathMaxDistance = 100, dp_CombatRepathTicks = 5, dp_CombatMaxChaseTiles = 20,
     dp_CombatGuardRadiusTiles = 4, dp_CombatLeashTiles = 10, dp_PillageWoodPerHit = 5, dp_PillageStockFloor = 50,
     dp_SiegeDamageReset = 0, dp_TreatyOfferTTL = 0, dp_TreatyBreakNotice = 0, dp_TreatyRetry = 0, dp_TradeOfferTTL = 0,
     dp_TerritoryClaimFree = 0, dp_TerritoryClaimHeld = 0\<rparr>"

definition town :: sim where
  "town = New_simulation (AddCity (sample_city\<lparr>c_PresenceState := PresenceOfflinePending\<rparr>) (NewState meadow)) 0"

lemma town_sel [simp]: "sm_sessions town = Map.empty" "sm_earlyDisconnects town = []" "sm_disconnectedAt town = []"
  "sm_jobs town = []" "st_cityByOwner town = [(7, 1)]"
  "st_cities town = [(1, sample_city\<lparr>c_PresenceState := PresenceOfflinePending\<rparr>)]"
  "st_world town = meadow"
  by (simp_all add: town_def New_simulation_def AddCity_def NewState_def state.extend_def sample_city_def)

lemma town_cities_ok: "cities_ok town"
  by (simp add: cities_ok_def sample_city_def Valid_presence_def)

definition town_events :: "pevent list" where
  "town_events = [Up 7 6, Up 7 5, Down 7 6]"

definition town_played :: sim where
  "town_played = handlePlayerConnected sample_deps 7 6 (handlePlayerConnected sample_deps 7 5 (handlePlayerDisconnected 7 6 town))"

lemma town_run: "presence_run sample_deps town town_events town_played"
  unfolding town_events_def town_played_def by (intro pr_up pr_down pr_start) (simp_all add: town_cities_ok)

theorem presence_sessions_exact_witness:
  "members (sm_sessions town_played) 7 = {5} \<and> map_option c_PresenceState (CityOf town_played 7) = Some PresenceOnline"
proof -
  have f: "sessions_fresh town_events" by (simp add: town_events_def)
  have "{sid. Up 7 sid \<in> set town_events \<and> Down 7 sid \<notin> set town_events} = {5}" by (auto simp: town_events_def)
  moreover have "CityOf town_played 7 \<noteq> None" by code_simp
  then obtain c where "CityOf town_played 7 = Some c" by blast
  ultimately show ?thesis using presence_sessions_exact[OF town_run f, of 7 c] by simp
qed

theorem presence_last_write_witness:
  "\<exists>c now. map_of (st_cities town_played) 1 = Some c \<and> last (writes_of town_played 1) = (c_PresenceState c, presenceMark c now)"
proof -
  have "map_of (st_cities town_played) 1 \<noteq> None" by code_simp
  then obtain c where c: "map_of (st_cities town_played) 1 = Some c" by blast
  have "writes_of town_played 1 \<noteq> []" by code_simp
  with presence_last_write[OF town_run c] c show ?thesis by auto
qed

definition deserted :: sim where
  "deserted = handlePlayerDisconnected 7 5 (handlePlayerConnected sample_deps 7 5 town)"

theorem absent_gets_protected_witness:
  "\<exists>c. CityOf (fold (presence_tick sample_deps) ([5] @ 12 # [40, 62]) deserted) 7 = Some c \<and>
     c_PresenceState c = PresenceProtected \<and> c_ProtectionUntil c = Some 1062"
proof -
  have ok: "cities_ok deserted"
  proof -
    have "presence_run sample_deps town [Down 7 5, Up 7 5] deserted"
      unfolding deserted_def by (intro pr_down pr_up pr_start) (simp_all add: town_cities_ok)
    from run_presence_inv[OF this] show ?thesis by (simp add: presence_inv_def)
  qed
  have "CityOf deserted 7 = Some (sample_city\<lparr>c_PresenceState := PresenceOnline, c_LastOnlineAt := Some 0, c_ProtectionUntil := None\<rparr>)"
    "members (sm_sessions deserted) 7 = {}" "map_of (sm_disconnectedAt deserted) 7 = Some 0"
    by code_simp+
  from absent_gets_protected[OF ok this(2,3,1), of "[5]" sample_deps 12 62 "[40, 62]"]
  show ?thesis by (auto simp: sample_deps_def ProtectionEndsAt_def)
qed

end
