(* ===== verification/Marching.thy ===== *)
theory Marching
  imports Live_Index
begin

section \<open>Marching orders\<close>

text \<open>
  Models the movement part of internal/game/simulation: transition.go (moveUnit), the projection of
  a unit (snapshot.go, UnitView and VisibleTo), the orders unit.move and unit.cancel with
  beginMovement, cancelActiveMovement, submitFinish and the compensations of simulation.go, and
  what these orders call to stop what the unit was doing: dropTask and stopWorking (gather.go),
  endEngagement, stopEngagementByPlayer and returnToPost (combat.go), abandonClaim (conquest.go).
  A pointer to a unit is its id, and the path finder is the parameter dp_FindPath.
\<close>

subsection \<open>Views\<close>

definition visibleToThirdParties :: "unit_status \<Rightarrow> bool" where
  "visibleToThirdParties st \<longleftrightarrow> st \<noteq> StatusHidden \<and> st \<noteq> StatusGarrisoned"

definition VisibleTo :: "unit_rec \<Rightarrow> uuid \<Rightarrow> bool" where
  "VisibleTo u viewer \<longleftrightarrow> u_PlayerID u = viewer \<or> visibleToThirdParties (u_Status u)"

definition taskResource :: "gtask \<Rightarrow> resource" where
  "taskResource t = (case Layer_of_kind (t_Kind t) of None \<Rightarrow> ResourceWood | Some l \<Rightarrow> l_Resource l)"

definition UnitView :: "'a state_scheme \<Rightarrow> int64 \<Rightarrow> int64 \<Rightarrow> unit_view" where
  "UnitView s i nowMs =
     (let u = unit_at s i;
          view = \<lparr>uv_ID = u_ID u, uv_PlayerID = u_PlayerID u, uv_CityID = u_CityID u, uv_UnitType = u_Type u,
                  uv_X = u_X u, uv_Y = u_Y u, uv_HP = u_HP u, uv_MaxHP = u_MaxHP u, uv_Status = u_Status u,
                  uv_Movement = None, uv_GarrisonCityID = map_of (st_garrisonedIn s) i,
                  uv_Carrying = 0, uv_CarryingResource = ''''\<rparr>;
          view = (case map_of (st_tasks s) i of
                    Some e \<Rightarrow> view\<lparr>uv_Carrying := t_Carrying (te_Task e),
                      uv_CarryingResource := (if 0 < t_Carrying (te_Task e) then taskResource (te_Task e) else '''')\<rparr>
                  | None \<Rightarrow> if 0 < carrying s u then view\<lparr>uv_Carrying := carrying s u\<rparr> else view)
      in case map_of (st_movements s) i of
           None \<Rightarrow> view
         | Some m \<Rightarrow> let pos = movement_PositionAt m nowMs
                     in view\<lparr>uv_X := tX pos, uv_Y := tY pos, uv_Movement := Some (toActiveMovement m)\<rparr>)"

subsection \<open>Announcements\<close>

definition to_chunk_of :: "int32 \<Rightarrow> int32 \<Rightarrow> msg \<Rightarrow> sim \<Rightarrow> sim" where
  "to_chunk_of x y m s = (let (cx, cy) = ChunkOf (st_world s) x y in send (ToChunk cx cy m) s)"

definition to_others_of :: "int32 \<Rightarrow> int32 \<Rightarrow> uuid \<Rightarrow> msg \<Rightarrow> sim \<Rightarrow> sim" where
  "to_others_of x y except m s = (let (cx, cy) = ChunkOf (st_world s) x y in send (ToChunkExcept cx cy except m) s)"

definition broadcastStatus :: "int64 \<Rightarrow> sim \<Rightarrow> sim" where
  "broadcastStatus i s =
     (let u = unit_at s i
      in to_chunk_of (u_X u) (u_Y u) (EntityUpdate ((EntityUpdateOf i)\<lparr>eu_Status := Some (u_Status u)\<rparr>)) s)"

definition moveUnit :: "int64 \<Rightarrow> tile \<Rightarrow> unit_status \<Rightarrow> int64 \<Rightarrow> sim \<Rightarrow> sim" where
  "moveUnit i t prev nowMs s0 =
     (let (fromCX, fromCY) = ChunkOf (st_world s0) (u_X (unit_at s0 i)) (u_Y (unit_at s0 i));
          (crossed, s) = MoveUnitTo i t s0
      in if \<not> crossed then s
         else let u = unit_at s i;
                  (toCX, toCY) = ChunkOf (st_world s) (u_X u) (u_Y u);
                  onlyPlayer = (if \<not> visibleToThirdParties prev \<or> \<not> visibleToThirdParties (u_Status u)
                                then u_PlayerID u else 0)
              in send (ChunkTransition \<lparr>CX = fromCX, CY = fromCY\<rparr> \<lparr>CX = toCX, CY = toCY\<rparr> onlyPlayer
                   (EntitySpawn (UnitView s i nowMs)) (EntityDespawn i DespawnOutOfInterest)) s)"

subsection \<open>Stopping what the unit does\<close>

definition submitFinish :: "finish \<Rightarrow> int64 \<Rightarrow> sim \<Rightarrow> sim" where
  "submitFinish f unitID =
     submit_job (if mf_Status f \<noteq> Some MoveCompleted then ''movement.cancel'' else ''movement.complete'')
       (if unitID \<noteq> 0 then UnitKey unitID else '''')
       (PersistMovementFinish f)
       (Some [MovementFinishPersistFailed \<lparr>ff_MovementID = mf_MovementID f, ff_Status = mf_Status f, ff_UnitID = unitID\<rparr>])"

definition dropTask :: "int64 \<Rightarrow> sim \<Rightarrow> sim" where
  "dropTask i s =
     (case map_of (st_tasks s) i of
        None \<Rightarrow> s
      | Some e \<Rightarrow>
          let s = s\<lparr>st_tasks := del_key i (st_tasks s)\<rparr>
          in if 0 < t_Carrying (te_Task e)
             then to_chunk_of (u_X (unit_at s i)) (u_Y (unit_at s i))
                    (EntityUpdate ((EntityUpdateOf i)\<lparr>eu_Carrying := Some 0\<rparr>)) s
             else s)"

definition stopWorking :: "int64 \<Rightarrow> sim \<Rightarrow> sim" where
  "stopWorking i s0 =
     (if u_Status (unit_at s0 i) \<noteq> StatusWorking then s0
      else let s = MarkDirty i (set_status i StatusIdle (dropTask i s0));
               s = submitFinish \<lparr>mf_MovementID = 0, mf_Status = None, mf_UnitID = i, mf_At = unit_Tile (unit_at s i)\<rparr> i s
           in broadcastStatus i s)"

definition cancelActiveMovement :: "int64 \<Rightarrow> cancel_reason \<Rightarrow> int64 \<Rightarrow> sim \<Rightarrow> sim" where
  "cancelActiveMovement i reason nowMs s0 =
     (case map_of (st_movements s0) i of
        None \<Rightarrow> s0
      | Some m \<Rightarrow>
          let stoppedAt = movement_PositionAt m nowMs;
              prev = u_Status (unit_at s0 i);
              s = set_status i StatusIdle (ClearMovement i (dropTask i s0));
              s = MarkDirty i (moveUnit i stoppedAt prev nowMs s);
              s = submitFinish \<lparr>mf_MovementID = m_ID m, mf_Status = Some MoveCancelled, mf_UnitID = i, mf_At = stoppedAt\<rparr> i s
          in to_chunk_of (tX stoppedAt) (tY stoppedAt) (UnitMovementCancelled i (m_ID m) stoppedAt reason) s)"

definition authoritativePosition :: "'a state_scheme \<Rightarrow> int64 \<Rightarrow> int64 \<Rightarrow> tile" where
  "authoritativePosition s i nowMs =
     (case map_of (st_movements s) i of
        Some m \<Rightarrow> movement_PositionAt m nowMs
      | None \<Rightarrow> unit_Tile (unit_at s i))"

definition abandonClaim :: "int64 \<Rightarrow> sim \<Rightarrow> sim" where
  "abandonClaim i s =
     (if u_Status (unit_at s i) \<noteq> StatusClaiming then s
      else broadcastStatus i (MarkDirty i (set_status i StatusIdle s)))"

subsection \<open>Setting off\<close>

text \<open>The acknowledgement is the option that beginMovement receives as a callback.\<close>

definition beginMovement ::
  "int64 \<Rightarrow> tile \<Rightarrow> tile \<Rightarrow> timed_path \<Rightarrow> int64 \<Rightarrow> (uuid \<times> string) option \<Rightarrow> sim \<Rightarrow> int64 \<times> sim" where
  "beginMovement i origin target path nowMs accepted s0 =
     (let s = cancelActiveMovement i ReasonReplaced nowMs (dropTask i s0);
          wasHidden = (u_Status (unit_at s i) = StatusHidden);
          (ident, s) = NewMovementID s;
          m = (New_movement i path target nowMs)\<lparr>m_ID := ident\<rparr>;
          s = MarkDirty i (set_status i StatusMoving (SetMovement m s));
          s = submit_job ''movement.start'' (UnitKey i) (PersistMovementStart m origin)
                (Some [MovementPersistFailed i ident]) s;
          s = (case accepted of
                 None \<Rightarrow> s
               | Some (playerID, requestID) \<Rightarrow> send (ToPlayer playerID requestID (UnitMoveAccepted i ident)) s);
          s = (if wasHidden
               then to_others_of (tX origin) (tY origin) (u_PlayerID (unit_at s i)) (EntitySpawn (UnitView s i nowMs)) s
               else s)
      in (ident, to_chunk_of (tX origin) (tY origin) (UnitMovementStarted i (toActiveMovement m)) s))"

datatype leg_error = LegPath path_error | LegBuild movement_error

definition legPath :: "deps \<Rightarrow> sim \<Rightarrow> int64 \<Rightarrow> tile \<Rightarrow> tile \<Rightarrow> unit_def \<Rightarrow> leg_error + timed_path" where
  "legPath D s i from0 to d =
     (case dp_FindPath D (st_world s) from0 to \<lparr>po_MaxNodes = dp_PathMaxNodes D, po_MaxDistance = dp_PathMaxDistance D\<rparr> of
        Err e \<Rightarrow> Err (LegPath e)
      | Ok tiles \<Rightarrow>
          (case BuildTimedPath tiles (IsWalkable (st_world s)) (MoveCostUnits (st_world s)) (msPerTile s (unit_at s i) d) of
             Err e \<Rightarrow> Err (LegBuild e)
           | Ok path \<Rightarrow> Ok path))"

definition chasePath :: "deps \<Rightarrow> sim \<Rightarrow> int64 \<Rightarrow> tile \<Rightarrow> tile \<Rightarrow> unit_def \<Rightarrow> leg_error + timed_path" where
  "chasePath D s i from0 to d =
     (case dp_FindPath D (st_world s) from0 to \<lparr>po_MaxNodes = dp_PathMaxNodes D, po_MaxDistance = dp_PathMaxDistance D\<rparr> of
        Err e \<Rightarrow> Err (LegPath e)
      | Ok tiles \<Rightarrow>
          (case BuildTimedPath tiles (IsWalkable (st_world s)) (MoveCostUnits (st_world s)) (msPerTile s (unit_at s i) d) of
             Err e \<Rightarrow> Err (LegBuild e)
           | Ok path \<Rightarrow> Ok path))"

definition returnToPost :: "deps \<Rightarrow> int64 \<Rightarrow> tile \<Rightarrow> int64 \<Rightarrow> sim \<Rightarrow> sim" where
  "returnToPost D i post nowMs s =
     (let pos = authoritativePosition s i nowMs
      in if pos = post then s
         else case Lookup_unit (u_Type (unit_at s i)) of
                Err _ \<Rightarrow> s
              | Ok d \<Rightarrow>
                  (case chasePath D s i pos post d of
                     Err _ \<Rightarrow> s
                   | Ok path \<Rightarrow>
                       let (ident, s) = beginMovement i pos post path nowMs None s
                       in s\<lparr>st_returning := put_key i \<lparr>rl_movementID = ident, rl_post = post\<rparr> (st_returning s)\<rparr>))"

definition endEngagement :: "deps \<Rightarrow> int64 \<Rightarrow> bool \<Rightarrow> sim \<Rightarrow> sim" where
  "endEngagement D i stop s0 =
     (case map_of (st_engagements s0) i of
        None \<Rightarrow> s0
      | Some e \<Rightarrow>
          let s = s0\<lparr>st_engagements := del_key i (st_engagements s0)\<rparr>
          in if \<not> stop then s
             else let nowMs = NowMs s;
                      s = (if has_key (st_movements s) i then cancelActiveMovement i ReasonServer nowMs s else s);
                      s = (if u_Status (unit_at s i) = StatusAttacking
                           then broadcastStatus i (MarkDirty i (set_status i StatusIdle s)) else s)
                  in if en_auto e \<and> IsAlive (unit_at s i) then returnToPost D i (en_post e) nowMs s else s)"

definition stopEngagementByPlayer :: "deps \<Rightarrow> int64 \<Rightarrow> sim \<Rightarrow> sim" where
  "stopEngagementByPlayer D i s =
     endEngagement D i True
       (case map_of (st_engagements s) i of
          None \<Rightarrow> s
        | Some e \<Rightarrow> s\<lparr>st_engagements := put_key i (e\<lparr>en_auto := False\<rparr>) (st_engagements s)\<rparr>)"

subsection \<open>The orders of the player\<close>

definition rejectMove :: "uuid \<Rightarrow> string \<Rightarrow> int64 \<Rightarrow> code \<Rightarrow> sim \<Rightarrow> sim" where
  "rejectMove playerID requestID unitID c = send (ToPlayer playerID requestID (UnitMoveRejected unitID c))"

definition moveErrorCode :: "unit_error \<Rightarrow> code" where
  "moveErrorCode e =
     (if e = ErrDead then CodeUnitDead else if e = ErrGarrisoned then CodeUnitGarrisoned else CodeUnitNotMovable)"

fun pathErrorCode :: "leg_error \<Rightarrow> code" where
  "pathErrorCode (LegPath ErrTargetOutOfBounds) = CodeTargetOutOfBounds"
| "pathErrorCode (LegPath ErrTargetNotWalkable) = CodeTargetNotWalkable"
| "pathErrorCode (LegPath ErrPathTooLong) = CodePathTooLong"
| "pathErrorCode (LegPath ErrPathNotFound) = CodePathNotFound"
| "pathErrorCode _ = CodeInternalError"

definition handleMoveUnit :: "deps \<Rightarrow> uuid \<Rightarrow> string \<Rightarrow> int64 \<Rightarrow> tile \<Rightarrow> sim \<Rightarrow> sim" where
  "handleMoveUnit D playerID requestID i target s =
     (let nowMs = NowMs s; reject = (\<lambda>c. rejectMove playerID requestID i c s) in
      case map_of (st_units s) i of
        None \<Rightarrow> reject CodeUnitNotFound
      | Some u \<Rightarrow>
        if EnsureOwnedBy u playerID \<noteq> None then reject CodeUnitNotOwned
        else (case EnsureCanMove u of
          Some e \<Rightarrow> reject (moveErrorCode e)
        | None \<Rightarrow>
          if IsEntering s i then reject CodeUnitNotMovable
          else if \<not> TileInBounds (st_world s) target then reject CodeTargetOutOfBounds
          else if \<not> IsWalkable (st_world s) (tX target) (tY target) then reject CodeTargetNotWalkable
          else
            let origin = authoritativePosition s i nowMs in
            if origin = target
            then send (ToPlayer playerID requestID (UnitMoveAccepted i 0))
                   (cancelActiveMovement i ReasonCancelledByPlayer nowMs
                     (stopEngagementByPlayer D i (stopWorking i s)))
            else (case Lookup_unit (u_Type u) of
              Err _ \<Rightarrow> reject CodeInternalError
            | Ok d \<Rightarrow>
              (case legPath D s i origin target d of
                 Err e \<Rightarrow> reject (pathErrorCode e)
               | Ok path \<Rightarrow>
                   snd (beginMovement i origin target path nowMs (Some (playerID, requestID))
                     (endEngagement D i False s))))))"

definition handleCancelMovement :: "deps \<Rightarrow> uuid \<Rightarrow> string \<Rightarrow> int64 \<Rightarrow> sim \<Rightarrow> sim" where
  "handleCancelMovement D playerID requestID i s =
     (let nowMs = NowMs s in
      case map_of (st_units s) i of
        None \<Rightarrow> send (ToPlayer playerID requestID (SystemError CodeUnitNotFound)) s
      | Some u \<Rightarrow>
        if EnsureOwnedBy u playerID \<noteq> None then send (ToPlayer playerID requestID (SystemError CodeUnitNotOwned)) s
        else cancelActiveMovement i ReasonCancelledByPlayer nowMs
               (abandonClaim i (stopEngagementByPlayer D i (stopWorking i s))))"

subsection \<open>Compensations\<close>

definition handleMovementPersistFailed :: "int64 \<Rightarrow> int64 \<Rightarrow> sim \<Rightarrow> sim" where
  "handleMovementPersistFailed unitID movementID s =
     (case map_of (st_movements s) unitID of
        None \<Rightarrow> s
      | Some m \<Rightarrow>
          if m_ID m \<noteq> movementID \<or> \<not> has_key (st_units s) unitID then s
          else cancelActiveMovement unitID ReasonServer (NowMs s) s)"

definition handleMovementFinishPersistFailed :: "finish_failed \<Rightarrow> 'a state_scheme \<Rightarrow> 'a state_scheme" where
  "handleMovementFinishPersistFailed f s0 =
     (let s = (if ff_UnitID f \<noteq> 0 \<and> has_key (st_units s0) (ff_UnitID f) then keepDirty (ff_UnitID f) s0 else s0)
      in if ff_MovementID f \<noteq> 0
         then s\<lparr>st_pendingFinishes := put_key (ff_MovementID f) f (st_pendingFinishes s)\<rparr> else s)"

definition handleUnitsFlushPersistFailed :: "int64 list \<Rightarrow> 'a state_scheme \<Rightarrow> 'a state_scheme" where
  "handleUnitsFlushPersistFailed ids s = fold (\<lambda>i s. if has_key (st_units s) i then keepDirty i s else s) ids s"

end
