(* ===== verification/Stockpile.thy ===== *)
theory Stockpile
  imports Marching Presence
begin

section \<open>The stock of the cities\<close>

text \<open>
  Models the deposits of internal/game/simulation/economy.go: the stock of each resource of a city
  with what has not been written yet, deposit, the periodic flushStocks and the compensation of
  a flush that was lost. The rows these flushes write are in Economy_Store.
\<close>

subsection \<open>The stock in memory\<close>

definition newCityEconomy :: city_economy where
  "newCityEconomy = \<lparr>ce_stocks = map (\<lambda>r. (r, \<lparr>rs_stock = NewStock r, rs_unflushed = 0\<rparr>)) Resources,
     ce_production = None, ce_advance = None\<rparr>"

text \<open>
  economyOf and of create what is missing; reading gives what they would create, and writing
  through the pointers they return stores it.
\<close>

definition economyOf :: "'a state_scheme \<Rightarrow> int64 \<Rightarrow> city_economy" where
  "economyOf s cityID = (case map_of (st_economies s) cityID of Some e \<Rightarrow> e | None \<Rightarrow> newCityEconomy)"

definition stock_of :: "city_economy \<Rightarrow> resource \<Rightarrow> resource_stock" where
  "stock_of e r = (case map_of (ce_stocks e) r of Some rs \<Rightarrow> rs | None \<Rightarrow> \<lparr>rs_stock = NewStock r, rs_unflushed = 0\<rparr>)"

definition put_stock :: "int64 \<Rightarrow> resource \<Rightarrow> resource_stock \<Rightarrow> 'a state_scheme \<Rightarrow> 'a state_scheme" where
  "put_stock cityID r rs s =
     s\<lparr>st_economies := put_key cityID
         ((economyOf s cityID)\<lparr>ce_stocks := put_key r rs (ce_stocks (economyOf s cityID))\<rparr>) (st_economies s)\<rparr>"

definition StockOf :: "'a state_scheme \<Rightarrow> int64 \<Rightarrow> resource \<Rightarrow> stock" where
  "StockOf s cityID r =
     (case map_of (st_economies s) cityID of Some e \<Rightarrow> rs_stock (stock_of e r) | None \<Rightarrow> NewStock r)"

definition UnflushedOf :: "'a state_scheme \<Rightarrow> int64 \<Rightarrow> resource \<Rightarrow> int64" where
  "UnflushedOf s cityID r =
     (case map_of (st_economies s) cityID of Some e \<Rightarrow> rs_unflushed (stock_of e r) | None \<Rightarrow> 0)"

definition stocksView :: "'a state_scheme \<Rightarrow> int64 \<Rightarrow> stocks_view" where
  "stocksView s cityID =
     \<lparr>sv_Wood = s_Amount (StockOf s cityID ResourceWood), sv_Stone = s_Amount (StockOf s cityID ResourceStone)\<rparr>"

definition broadcastStocks :: "city \<Rightarrow> sim \<Rightarrow> sim" where
  "broadcastStocks c s =
     broadcastCity c ((CityUpdateOf 0)\<lparr>cu_Stocks := Some (stocksView s (c_ID c))\<rparr>) s"

definition deposit_stock :: "city \<Rightarrow> resource \<Rightarrow> int32 \<Rightarrow> sim \<Rightarrow> sim" where
  "deposit_stock c r amount s =
     (if amount \<le> 0 then s
      else let rs = stock_of (economyOf s (c_ID c)) r;
               rs = (case Credit (rs_stock rs) amount of Err _ \<Rightarrow> rs | Ok st \<Rightarrow> rs\<lparr>rs_stock := st\<rparr>);
               s = put_stock (c_ID c) r (rs\<lparr>rs_unflushed := i64 (rs_unflushed rs + amount)\<rparr>) s;
               s = s\<lparr>st_stockDirty := mark_key (c_ID c) (st_stockDirty s)\<rparr>
           in broadcastStocks c s)"

subsection \<open>Flush and compensation\<close>

text \<open>The deltas of one city: what each resource has not written, which is then zero.\<close>

definition collect_delta ::
  "int64 \<Rightarrow> resource \<Rightarrow> sim \<times> (int64 \<times> resource \<times> int64 \<times> int64) list \<Rightarrow>
     sim \<times> (int64 \<times> resource \<times> int64 \<times> int64) list" where
  "collect_delta cityID r st =
     (let (s, deltas) = st; rs = stock_of (economyOf s cityID) r
      in if rs_unflushed rs = 0 then st
         else (put_stock cityID r (rs\<lparr>rs_unflushed := 0\<rparr>) s,
               deltas @ [(cityID, r, rs_unflushed rs, s_Version (rs_stock rs))]))"

definition flush_city :: "int64 \<Rightarrow> sim \<Rightarrow> sim" where
  "flush_city cityID s =
     (if \<not> has_key (st_economies s) cityID then s
      else let (s, deltas) = fold (collect_delta cityID) Resources (s, [])
           in if deltas = [] then s
              else submit_job ''stocks.flush'' (CityKey cityID) (FlushStocks deltas)
                     (Some (map (\<lambda>(c, r, delta, version). StocksFlushFailed c r delta) deltas)) s)"

definition flushStocks :: "deps \<Rightarrow> sim \<Rightarrow> sim" where
  "flushStocks D s =
     (if st_stockDirty s = [] then s
      else let ids = sorted_keys (st_stockDirty s); s = s\<lparr>st_stockDirty := []\<rparr>
           in if \<not> dp_Economy D then s else fold flush_city ids s)"

definition handleStocksFlushFailed :: "int64 \<Rightarrow> resource \<Rightarrow> int64 \<Rightarrow> 'a state_scheme \<Rightarrow> 'a state_scheme" where
  "handleStocksFlushFailed cityID resource delta s =
     (if \<not> has_key (st_cities s) cityID then s
      else let r = (if resource = '''' then ResourceWood else resource);
               rs = stock_of (economyOf s cityID) r;
               rs = rs\<lparr>rs_unflushed := i64 (rs_unflushed rs + delta),
                       rs_stock := (rs_stock rs)\<lparr>s_Version := i64 (s_Version (rs_stock rs) + 1)\<rparr>\<rparr>;
               s = put_stock cityID r rs s
           in s\<lparr>st_stockDirty := mark_key cityID (st_stockDirty s)\<rparr>)"

end
