(* ===== verification/Tile_Deposits.thy ===== *)
theory Tile_Deposits
  imports Marching
begin

section \<open>The resources of the tiles in the live world\<close>

text \<open>
  Models internal/game/simulation/deposit.go: the two layers of tiles that someone touched (the
  wood of the forest, the stone of the hills), reading what a tile has left, loading a unit that
  ends its work, the search of the next tile and the sweep of the tiles that have regrown.
\<close>

datatype layer_id = Forest_id | Hill_id

fun get_layer :: "layer_id \<Rightarrow> 'a state_scheme \<Rightarrow> layer_state" where
  "get_layer Forest_id s = st_forest s"
| "get_layer Hill_id s = st_hill s"

fun upd_layer :: "layer_id \<Rightarrow> (layer_state \<Rightarrow> layer_state) \<Rightarrow> 'a state_scheme \<Rightarrow> 'a state_scheme" where
  "upd_layer Forest_id f s = s\<lparr>st_forest := f (st_forest s)\<rparr>"
| "upd_layer Hill_id f s = s\<lparr>st_hill := f (st_hill s)\<rparr>"

fun layer_msg :: "layer_id \<Rightarrow> deposit_view \<Rightarrow> msg" where
  "layer_msg Forest_id v = ForestUpdate v"
| "layer_msg Hill_id v = HillUpdate v"

definition layerFor :: "'a state_scheme \<Rightarrow> byte \<Rightarrow> layer_id option" where
  "layerFor s t = find (\<lambda>i. l_Terrain (ly_layer (get_layer i s)) = t) [Forest_id, Hill_id]"

subsection \<open>Loading and reading\<close>

text \<open>The rows come from the database; the violations reported are the tiles of the rows dropped.\<close>

fun setLayer :: "layer_id \<Rightarrow> (tile \<times> dep_state) list \<Rightarrow> int64 \<Rightarrow> 'a state_scheme \<Rightarrow> int \<times> tile list \<times> 'a state_scheme" where
  "setLayer i [] nowMs s = (0, [], s)"
| "setLayer i ((t, st) # rows) nowMs s =
     (let l = ly_layer (get_layer i s) in
      if \<not> Validate_deposit l st \<or> \<not> InBounds (st_world s) (tX t) (tY t) \<or> TerrainAt (st_world s) (tX t) (tY t) \<noteq> l_Terrain l
      then let (n, bad, s') = setLayer i rows nowMs s in (n, t # bad, s')
      else if Regrown st nowMs then setLayer i rows nowMs s
      else let (n, bad, s') = setLayer i rows nowMs (upd_layer i (\<lambda>ly. ly\<lparr>ly_tiles := put_key t st (ly_tiles ly)\<rparr>) s)
           in (n + 1, bad, s'))"

definition remainingIn :: "'a state_scheme \<Rightarrow> layer_id \<Rightarrow> tile \<Rightarrow> int64 \<Rightarrow> int32" where
  "remainingIn s i t nowMs =
     (let l = get_layer i s in
      if \<not> InBounds (st_world s) (tX t) (tY t) \<or> TerrainAt (st_world s) (tX t) (tY t) \<noteq> l_Terrain (ly_layer l) then 0
      else case map_of (ly_tiles l) t of
             None \<Rightarrow> l_Capacity (ly_layer l)
           | Some e \<Rightarrow> RemainingAt (ly_layer l) e nowMs)"

definition ResourceAt :: "'a state_scheme \<Rightarrow> tile \<Rightarrow> int64 \<Rightarrow> int32" where
  "ResourceAt s t nowMs =
     (if \<not> InBounds (st_world s) (tX t) (tY t) then 0
      else case layerFor s (TerrainAt (st_world s) (tX t) (tY t)) of
             None \<Rightarrow> 0
           | Some i \<Rightarrow> remainingIn s i t nowMs)"

definition sortTiles :: "tile list \<Rightarrow> tile list" where
  "sortTiles ts = sort_key (\<lambda>t. (tY t, tX t)) ts"

definition rowsOf :: "layer_state \<Rightarrow> int64 \<Rightarrow> (tile \<times> dep_state) list" where
  "rowsOf l nowMs =
     (let m = AList.clearjunk (ly_tiles l)
      in List.map_filter (\<lambda>t. map_option (Pair t) (map_of m t))
           (sortTiles (map fst (filter (\<lambda>(t, st). \<not> Regrown st nowMs) m))))"

definition depositView :: "tile \<Rightarrow> dep_state \<Rightarrow> deposit_view" where
  "depositView t st = \<lparr>dv_X = tX t, dv_Y = tY t, dv_Remaining = d_Remaining st, dv_RegrowsAtMs = Some (d_RegrowsAtMs st)\<rparr>"

definition layerInChunk :: "'a state_scheme \<Rightarrow> layer_id \<Rightarrow> int32 \<Rightarrow> int32 \<Rightarrow> int64 \<Rightarrow> deposit_view list" where
  "layerInChunk s i cx cy nowMs =
     map (\<lambda>(t, st). depositView t st)
       (filter (\<lambda>(t, st). ChunkOf (st_world s) (tX t) (tY t) = (cx, cy)) (rowsOf (get_layer i s) nowMs))"

subsection \<open>The layer of a task\<close>

definition taskLayer :: "'a state_scheme \<Rightarrow> gtask \<Rightarrow> layer_id option" where
  "taskLayer s t = (case Layer_of_kind (t_Kind t) of None \<Rightarrow> None | Some l \<Rightarrow> layerFor s (l_Terrain l))"

definition taskRemaining :: "'a state_scheme \<Rightarrow> gtask \<Rightarrow> tile \<Rightarrow> int64 \<Rightarrow> int32" where
  "taskRemaining s t tile0 nowMs = (case taskLayer s t of None \<Rightarrow> 0 | Some i \<Rightarrow> remainingIn s i tile0 nowMs)"

definition broadcastDeposit :: "layer_id \<Rightarrow> tile \<Rightarrow> dep_state \<Rightarrow> sim \<Rightarrow> sim" where
  "broadcastDeposit i t st s = to_chunk_of (tX t) (tY t) (layer_msg i (depositView t st)) s"

definition takeDeposit :: "int64 \<Rightarrow> gtask \<Rightarrow> int32 \<Rightarrow> int64 \<Rightarrow> sim \<Rightarrow> int32 \<times> sim" where
  "takeDeposit ui t carry atMs s =
     (case taskLayer s t of
        None \<Rightarrow> (0, s)
      | Some i \<Rightarrow>
          let tile0 = t_Target t; l = ly_layer (get_layer i s);
              (taken, after) = Economy.Take l (remainingIn s i tile0 atMs) carry atMs
          in if taken = 0 then (0, s)
             else let u = unit_at s ui;
                      s = upd_layer i (\<lambda>ly. ly\<lparr>ly_tiles := put_key tile0 after (ly_tiles ly)\<rparr>) s;
                      load = \<lparr>dl_Layer = l, dl_Tile = tile0, dl_Amount = taken, dl_AtMs = atMs,
                        dl_RegrowsAtMs = d_RegrowsAtMs after, dl_UnitID = ui, dl_FromTrips = t_TripsDone t,
                        dl_FromUntilMs = t_PhaseUntilMs t, dl_Depleted = (d_Remaining after = 0),
                        dl_PlayerID = u_PlayerID u, dl_CityID = u_CityID u, dl_Tick = st_tick s\<rparr>
                  in (taken, broadcastDeposit i tile0 after (s\<lparr>st_pendingLoad := Some load\<rparr>)))"

subsection \<open>The search of the next tile\<close>

definition chebyshevTiles :: "tile \<Rightarrow> tile \<Rightarrow> int32" where
  "chebyshevTiles a b =
     (let dx = i32 (tX a - tX b); dy = i32 (tY a - tY b);
          dx = (if dx < 0 then i32 (- dx) else dx); dy = (if dy < 0 then i32 (- dy) else dy)
      in if dy < dx then dx else dy)"

definition deposit_candidates :: "sim \<Rightarrow> layer_id \<Rightarrow> tile \<Rightarrow> int64 \<Rightarrow> tile list" where
  "deposit_candidates s i from0 nowMs =
     (let r = l_SearchRadius (ly_layer (get_layer i s));
          cands = filter (\<lambda>c. \<not> (c = from0 \<or> remainingIn s i c nowMs = 0))
            (map (\<lambda>(dx, dy). mk_tile (i32 (tX from0 + dx)) (i32 (tY from0 + dy))) (scan (- r) (- r) r r))
      in sort_key (\<lambda>c. (chebyshevTiles from0 c, tY c, tX c)) cands)"

fun first_reachable ::
  "(tile \<Rightarrow> leg_error + timed_path) \<Rightarrow> tile \<Rightarrow> tile list \<Rightarrow> (tile \<times> timed_path option) option" where
  "first_reachable leg origin [] = None"
| "first_reachable leg origin (c # cs) =
     (if c = origin then Some (c, None)
      else case leg c of Ok path \<Rightarrow> Some (c, Some path) | Err _ \<Rightarrow> first_reachable leg origin cs)"

definition findDeposit ::
  "deps \<Rightarrow> sim \<Rightarrow> int64 \<Rightarrow> gtask \<Rightarrow> tile \<Rightarrow> unit_def \<Rightarrow> int64 \<Rightarrow> (tile \<times> timed_path option) option" where
  "findDeposit D s ui t from0 d nowMs =
     (case taskLayer s t of
        None \<Rightarrow> None
      | Some i \<Rightarrow>
          let origin = unit_Tile (unit_at s ui)
          in first_reachable (\<lambda>c. legPath D s ui origin c d) origin
               (take (nat (l_SearchAttempts (ly_layer (get_layer i s)))) (deposit_candidates s i from0 nowMs)))"

subsection \<open>Regrowth\<close>

definition depositSweepMs :: int64 where "depositSweepMs = 1000"

definition regrow_tile :: "layer_id \<Rightarrow> tile \<Rightarrow> sim \<Rightarrow> sim" where
  "regrow_tile i t s =
     to_chunk_of (tX t) (tY t)
       (layer_msg i \<lparr>dv_X = tX t, dv_Y = tY t, dv_Remaining = l_Capacity (ly_layer (get_layer i s)), dv_RegrowsAtMs = None\<rparr>)
       (upd_layer i (\<lambda>ly. ly\<lparr>ly_tiles := del_key t (ly_tiles ly)\<rparr>) s)"

definition regrow_layer :: "int64 \<Rightarrow> layer_id \<Rightarrow> sim \<Rightarrow> sim" where
  "regrow_layer nowMs i s =
     (let l = get_layer i s in
      if ly_tiles l = [] \<or> i64 (nowMs - ly_lastSweep l) < depositSweepMs then s
      else let s = upd_layer i (\<lambda>ly. ly\<lparr>ly_lastSweep := nowMs\<rparr>) s
           in fold (regrow_tile i)
                (sortTiles (map fst (filter (\<lambda>(t, st). Regrown st nowMs) (AList.clearjunk (ly_tiles l))))) s)"

definition regrowDeposits :: "int64 \<Rightarrow> sim \<Rightarrow> sim" where
  "regrowDeposits nowMs s = fold (regrow_layer nowMs) [Forest_id, Hill_id] s"

end
