(* ===== verification/Gathering.thy ===== *)
theory Gathering
  imports Stockpile Tile_Deposits
begin

section \<open>Gathering in the live world\<close>

text \<open>
  Models internal/game/simulation/gather.go: the order unit.gather, the legs and the work of a
  task, the delivery at the deposit, what happens on a depleted tile, the phase of the tick that
  wakes the units that have finished working, the durable write of each transition and its
  compensation; and AdvanceMovements of simulation.go with the loot of combat.go it delivers.
  Arriving at a resource, leaving a depleted tile and arriving at the deposit call each other: they
  run on fuel, and four calls are always enough (gather_fuel).
\<close>

definition ownerPresent :: "city \<Rightarrow> sim \<Rightarrow> bool" where
  "ownerPresent c s \<longleftrightarrow>
     c_PresenceState c = PresenceOnline \<and>
     (members (sm_sessions s) (c_OwnerPlayerID c) \<noteq> {} \<or> has_key (sm_disconnectedAt s) (c_OwnerPlayerID c))"

definition cityOfUnit :: "'a state_scheme \<Rightarrow> unit_rec \<Rightarrow> city option" where
  "cityOfUnit s u = (case u_CityID u of None \<Rightarrow> None | Some c \<Rightarrow> map_of (st_cities s) c)"

definition depositTile :: "'a state_scheme \<Rightarrow> city \<Rightarrow> tile option" where
  "depositTile s c = FirstSpawnTile c (IsWalkable (st_world s))"

definition depletedReason :: "gtask \<Rightarrow> end_reason" where
  "depletedReason t = (case Layer_of_kind (t_Kind t) of None \<Rightarrow> EndForestDepleted | Some l \<Rightarrow> EndDepleted l)"

definition economyError :: "uuid \<Rightarrow> string \<Rightarrow> code \<Rightarrow> sim \<Rightarrow> sim" where
  "economyError playerID requestID c = send (ToPlayer playerID requestID (SystemError c))"

fun gatherErrorCode :: "task_error \<Rightarrow> code" where
  "gatherErrorCode ErrNotOwned_task = CodeUnitNotOwned"
| "gatherErrorCode (ErrUnit ErrDead) = CodeUnitDead"
| "gatherErrorCode (ErrUnit ErrGarrisoned) = CodeUnitGarrisoned"
| "gatherErrorCode ErrOutOfBounds_task = CodeTargetOutOfBounds"
| "gatherErrorCode ErrNotResource = CodeInvalidTarget"
| "gatherErrorCode _ = CodeUnitNotMovable"

subsection \<open>Transitions of a task\<close>

definition submitTask :: "deps \<Rightarrow> task_write \<Rightarrow> 64 word \<Rightarrow> sim \<Rightarrow> sim" where
  "submitTask D w0 rv s0 =
     (let (w, s) = (case st_pendingLoad s0 of
                      None \<Rightarrow> (w0, s0)
                    | Some p \<Rightarrow> (w0\<lparr>tw_Load := Some p\<rparr>, s0\<lparr>st_pendingLoad := None\<rparr>))
      in if \<not> dp_Economy D then s
         else submit_job ''task.write'' (UnitKey (tw_UnitID w)) (PersistTask w)
                (Some [TaskPersistFailed (tw_UnitID w) rv]) s)"

text \<open>The literal of a TaskWrite, with the fields the code leaves at their zero value.\<close>

definition TaskWriteOf :: "int64 \<Rightarrow> finish option \<Rightarrow> unit_status \<Rightarrow> tile \<Rightarrow> task_write" where
  "TaskWriteOf i finish st at =
     \<lparr>tw_UnitID = i, tw_Finish = finish, tw_Start = None, tw_Status = st, tw_At = at, tw_Task = None,
      tw_Load = None, tw_KeepUnit = False\<rparr>"

definition startLeg ::
  "deps \<Rightarrow> int64 \<Rightarrow> gtask \<Rightarrow> timed_path \<Rightarrow> tile \<Rightarrow> tile \<Rightarrow> int64 \<Rightarrow> finish option \<Rightarrow> bool \<Rightarrow> sim \<Rightarrow> sim" where
  "startLeg D i t path target origin startMs finish wasHidden s0 =
     (let nowMs = NowMs s0;
          (ident, s) = NewMovementID s0;
          m = (New_movement i path target startMs)\<lparr>m_ID := ident\<rparr>;
          s = MarkDirty i (set_status i StatusMoving (SetMovement m s));
          (rv, s) = setTask t s;
          s = submitTask D ((TaskWriteOf i finish StatusMoving origin)\<lparr>tw_Start := Some m, tw_Task := Some t\<rparr>) rv s;
          s = (if wasHidden
               then to_others_of (tX origin) (tY origin) (u_PlayerID (unit_at s i)) (EntitySpawn (UnitView s i nowMs)) s
               else s)
      in to_chunk_of (tX origin) (tY origin) (UnitMovementStarted i (toActiveMovement m)) s)"

definition endTask :: "deps \<Rightarrow> int64 \<Rightarrow> end_reason \<Rightarrow> finish option \<Rightarrow> sim \<Rightarrow> sim" where
  "endTask D i reason finish s0 =
     (let s = s0\<lparr>st_tasks := del_key i (st_tasks s0)\<rparr>;
          prev = u_Status (unit_at s i);
          s = MarkDirty i (set_status i StatusIdle s);
          s = submitTask D (TaskWriteOf i finish StatusIdle (unit_Tile (unit_at s i))) 0 s
      in if prev \<noteq> StatusIdle \<and> prev \<noteq> StatusMoving then broadcastStatus i s else s)"

definition startWork :: "deps \<Rightarrow> int64 \<Rightarrow> gtask \<Rightarrow> finish option \<Rightarrow> bool \<Rightarrow> sim \<Rightarrow> sim" where
  "startWork D i next finish wasHidden s0 =
     (let nowMs = NowMs s0;
          s = MarkDirty i (set_status i StatusWorking s0);
          (rv, s) = setTask next s;
          s = submitTask D ((TaskWriteOf i finish StatusWorking (unit_Tile (unit_at s i)))\<lparr>tw_Task := Some next\<rparr>) rv s;
          u = unit_at s i;
          s = (if wasHidden then to_others_of (u_X u) (u_Y u) (u_PlayerID u) (EntitySpawn (UnitView s i nowMs)) s else s)
      in broadcastStatus i s)"

text \<open>
  One call of each of the three handlers; the handlers they call in turn are arguments, which the
  recursion on fuel below supplies.
\<close>

type_synonym arrive = "deps \<Rightarrow> int64 \<Rightarrow> gtask \<Rightarrow> int64 \<Rightarrow> finish option \<Rightarrow> bool \<Rightarrow> sim \<Rightarrow> sim option"

type_synonym arrive_deposit = "deps \<Rightarrow> int64 \<Rightarrow> gtask \<Rightarrow> int64 \<Rightarrow> finish option \<Rightarrow> sim \<Rightarrow> sim option"

definition at_resource :: "arrive \<Rightarrow> arrive" where
  "at_resource onEmpty D i t arrivedAtMs finish wasHidden s =
     (if taskRemaining s t (t_Target t) arrivedAtMs = 0 then onEmpty D i t arrivedAtMs finish wasHidden s
      else Some (case Lookup_unit (u_Type (unit_at s i)) of
             Err _ \<Rightarrow> endTask D i EndCancelled finish s
           | Ok d \<Rightarrow>
               (case StartWork arrivedAtMs (gatherWorkMs s (unit_at s i) d) t of
                  Err _ \<Rightarrow> endTask D i EndCancelled finish s
                | Ok next \<Rightarrow> startWork D i next finish wasHidden s)))"

definition go_next :: "arrive \<Rightarrow> deps \<Rightarrow> int64 \<Rightarrow> gtask \<Rightarrow> tile \<times> timed_path option \<Rightarrow> int64 \<Rightarrow> finish option \<Rightarrow>
    bool \<Rightarrow> sim \<Rightarrow> sim option" where
  "go_next again D i t to atMs finish wasHidden s =
     (case Retarget (fst to) t of
        Err _ \<Rightarrow> Some (endTask D i EndCancelled finish s)
      | Ok next \<Rightarrow>
          (case snd to of
             None \<Rightarrow> again D i next atMs finish wasHidden s
           | Some path \<Rightarrow>
               Some (startLeg D i next path (fst to) (unit_Tile (unit_at s i)) atMs finish wasHidden s)))"

definition leave_depleted :: "arrive \<Rightarrow> arrive_deposit \<Rightarrow> arrive" where
  "leave_depleted again home D i t atMs finish wasHidden s =
     (case Lookup_unit (u_Type (unit_at s i)) of
        Err _ \<Rightarrow> Some (endTask D i EndCancelled finish s)
      | Ok d \<Rightarrow>
          let origin = unit_Tile (unit_at s i) in
          (case findDeposit D s i t (t_Target t) d atMs of
             Some to \<Rightarrow> go_next again D i t to atMs finish wasHidden s
           | None \<Rightarrow>
               (case ReturnToDeposit t of
                  Err _ \<Rightarrow> Some (endTask D i EndCancelled finish s)
                | Ok next \<Rightarrow>
                    (case cityOfUnit s (unit_at s i) of
                       None \<Rightarrow> Some (endTask D i (depletedReason t) finish s)
                     | Some c \<Rightarrow>
                         (case depositTile s c of
                            None \<Rightarrow> Some (endTask D i (depletedReason t) finish s)
                          | Some depot \<Rightarrow>
                              if origin = depot then home D i next atMs finish s
                              else Some (case legPath D s i origin depot d of
                                     Err _ \<Rightarrow> endTask D i EndNoPath finish s
                                   | Ok path \<Rightarrow> startLeg D i next path depot origin atMs finish wasHidden s))))))"

definition at_deposit :: "arrive \<Rightarrow> arrive_deposit" where
  "at_deposit again D i t arrivedAtMs finish s0 =
     (case Deposit t of
        Err _ \<Rightarrow> Some (endTask D i EndCancelled finish s0)
      | Ok (next, delivered) \<Rightarrow>
          (case cityOfUnit s0 (unit_at s0 i) of
             None \<Rightarrow> Some (endTask D i EndCancelled finish s0)
           | Some c \<Rightarrow>
               let s = deposit_stock c (taskResource t) delivered s0;
                   u = unit_at s i;
                   s = to_chunk_of (u_X u) (u_Y u) (EntityUpdate ((EntityUpdateOf i)\<lparr>eu_Carrying := Some 0\<rparr>)) s
               in if \<not> ownerPresent c s then Some (endTask D i EndOwnerAbsent finish s)
                  else (case Lookup_unit (u_Type u) of
                    Err _ \<Rightarrow> Some (endTask D i EndCancelled finish s)
                  | Ok d \<Rightarrow>
                      let origin = unit_Tile u in
                      if taskRemaining s next (t_Target next) arrivedAtMs = 0
                      then (case findDeposit D s i next (t_Target next) d arrivedAtMs of
                              None \<Rightarrow> Some (endTask D i (depletedReason next) finish s)
                            | Some to \<Rightarrow> go_next again D i next to arrivedAtMs finish False s)
                      else if origin = t_Target next then again D i next arrivedAtMs finish False s
                      else Some (case legPath D s i origin (t_Target next) d of
                             Err _ \<Rightarrow> endTask D i EndNoPath finish s
                           | Ok path \<Rightarrow>
                               startLeg D i next path (t_Target next) origin arrivedAtMs finish False s))))"

fun arriveAtResource :: "nat \<Rightarrow> arrive" and leaveDepleted :: "nat \<Rightarrow> arrive" and arriveAtDeposit :: "nat \<Rightarrow> arrive_deposit" where
  "arriveAtResource 0 = (\<lambda>D i t at finish wasHidden s. None)"
| "arriveAtResource (Suc n) = at_resource (leaveDepleted n)"
| "leaveDepleted 0 = (\<lambda>D i t at finish wasHidden s. None)"
| "leaveDepleted (Suc n) = leave_depleted (arriveAtResource n) (arriveAtDeposit n)"
| "arriveAtDeposit 0 = (\<lambda>D i t at finish s. None)"
| "arriveAtDeposit (Suc n) = at_deposit (arriveAtResource n)"

text \<open>The calls the rest of the code makes; the fuel never runs out (lemma gather_fuel).\<close>

definition run_gather :: "(sim \<Rightarrow> sim option) \<Rightarrow> sim \<Rightarrow> sim" where
  "run_gather f s = (case f s of Some s' \<Rightarrow> s' | None \<Rightarrow> s)"

definition onLegArrived :: "deps \<Rightarrow> int64 \<Rightarrow> gtask \<Rightarrow> int64 \<Rightarrow> tile \<Rightarrow> int64 \<Rightarrow> sim \<Rightarrow> sim" where
  "onLegArrived D i t movementID at arrivedAtMs s0 =
     (let s = to_chunk_of (tX at) (tY at) (UnitMovementCompleted i movementID at) s0;
          finish = \<lparr>mf_MovementID = movementID, mf_Status = Some MoveCompleted, mf_UnitID = i, mf_At = at\<rparr>
      in if t_Phase t = PhaseToResource \<and> at = t_Target t
         then run_gather (arriveAtResource 4 D i t arrivedAtMs (Some finish) False) s
         else if t_Phase t = PhaseToDeposit
         then run_gather (arriveAtDeposit 4 D i t arrivedAtMs (Some finish)) s
         else endTask D i EndCancelled (Some finish) s)"

definition leaveResource :: "deps \<Rightarrow> int64 \<Rightarrow> gtask \<Rightarrow> sim \<Rightarrow> sim" where
  "leaveResource D i t s0 =
     (case Lookup_unit (u_Type (unit_at s0 i)) of
        Err _ \<Rightarrow> endTask D i EndCancelled None s0
      | Ok d \<Rightarrow>
      (case cityOfUnit s0 (unit_at s0 i) of
        None \<Rightarrow> endTask D i EndNoPath None s0
      | Some c \<Rightarrow>
      (case depositTile s0 c of
        None \<Rightarrow> endTask D i EndNoPath None s0
      | Some depot \<Rightarrow>
          let leftAtMs = t_PhaseUntilMs t;
              (carry, s) = takeDeposit i t (ud_GatherCarry d) leftAtMs s0
          in if carry = 0 then run_gather (leaveDepleted 4 D i t leftAtMs None False) s
             else (case FinishWork carry t of
               Err _ \<Rightarrow> endTask D i EndCancelled None s
             | Ok next \<Rightarrow>
                 let origin = unit_Tile (unit_at s i)
                 in if origin = depot then run_gather (arriveAtDeposit 4 D i next leftAtMs None) s
                    else (case legPath D s i origin depot d of
                      Err _ \<Rightarrow> endTask D i EndNoPath None s
                    | Ok path \<Rightarrow>
                        to_chunk_of (tX origin) (tY origin)
                          (EntityUpdate ((EntityUpdateOf i)\<lparr>eu_Carrying := Some (t_Carrying next),
                             eu_CarryingResource := taskResource next\<rparr>))
                          (startLeg D i next path depot origin leftAtMs None False s))))))"

subsection \<open>The order of the player\<close>

text \<open>The way back is checked only for a city whose deposit tile exists and is not the target.\<close>

definition way_back :: "deps \<Rightarrow> sim \<Rightarrow> int64 \<Rightarrow> tile \<Rightarrow> unit_def \<Rightarrow> code option" where
  "way_back D s i target d =
     (case Option.bind (cityOfUnit s (unit_at s i)) (depositTile s) of
        None \<Rightarrow> None
      | Some depot \<Rightarrow>
          if depot = target then None
          else if 0 < dp_PathMaxDistance D \<and> dp_PathMaxDistance D < chebyshevTiles depot target then Some CodePathTooLong
          else (case legPath D s i target depot d of Err e \<Rightarrow> Some (pathErrorCode e) | Ok _ \<Rightarrow> None))"

definition handleGather :: "deps \<Rightarrow> uuid \<Rightarrow> string \<Rightarrow> int64 \<Rightarrow> tile \<Rightarrow> sim \<Rightarrow> sim" where
  "handleGather D playerID requestID i target s =
     (let nowMs = NowMs s; reject = (\<lambda>c. economyError playerID requestID c s); w = st_world s in
      case map_of (st_units s) i of
        None \<Rightarrow> reject CodeUnitNotFound
      | Some u \<Rightarrow>
      (case CanGather u playerID of
        Some e \<Rightarrow> reject (gatherErrorCode e)
      | None \<Rightarrow>
        if IsEntering s i then reject CodeUnitNotMovable
        else (case ValidTarget (InBounds w) (TerrainAt w) target of
          Err e \<Rightarrow> reject (gatherErrorCode e)
        | Ok layer \<Rightarrow>
          if ResourceAt s target nowMs = 0 then reject CodeInvalidTarget
          else if \<not> dp_Economy D then reject CodeInternalError
          else (case Lookup_unit (u_Type u) of
            Err _ \<Rightarrow> reject CodeInternalError
          | Ok d \<Rightarrow>
          (case way_back D s i target d of
            Some c \<Rightarrow> reject c
          | None \<Rightarrow>
            let origin = authoritativePosition s i nowMs;
                go = (\<lambda>path.
                  let s = cancelActiveMovement i ReasonReplaced nowMs (dropTask i s);
                      wasHidden = (u_Status (unit_at s i) = StatusHidden);
                      t = NewGatherOf i (KindFor layer) target
                  in case path of
                       None \<Rightarrow> run_gather (arriveAtResource 4 D i t nowMs None wasHidden) s
                     | Some p \<Rightarrow> startLeg D i t p target origin nowMs None wasHidden s)
            in if origin = target then go None
               else (case legPath D s i origin target d of
                 Err e \<Rightarrow> reject (pathErrorCode e)
               | Ok p \<Rightarrow> go (Some p)))))))"

subsection \<open>Phases of the tick\<close>

definition advance_task :: "deps \<Rightarrow> int64 \<Rightarrow> int64 \<Rightarrow> sim \<Rightarrow> sim" where
  "advance_task D nowMs i s =
     (case map_of (st_tasks s) i of
        None \<Rightarrow> s
      | Some e \<Rightarrow>
          if \<not> Due_task (te_Task e) nowMs then s
          else if \<not> has_key (st_units s) i then s\<lparr>st_tasks := del_key i (st_tasks s)\<rparr>
          else if u_Status (unit_at s i) \<noteq> StatusWorking then s\<lparr>st_tasks := del_key i (st_tasks s)\<rparr>
          else leaveResource D i (te_Task e) s)"

definition advanceTasks :: "deps \<Rightarrow> int64 \<Rightarrow> sim \<Rightarrow> sim" where
  "advanceTasks D nowMs s =
     (if st_tasks s = [] then s
      else fold (advance_task D nowMs)
             (filter (\<lambda>i. case map_of (st_tasks s) i of Some e \<Rightarrow> Due_task (te_Task e) nowMs | None \<Rightarrow> False)
               (sorted_keys (st_tasks s))) s)"

definition handleTaskPersistFailed :: "int64 \<Rightarrow> 64 word \<Rightarrow> sim \<Rightarrow> sim" where
  "handleTaskPersistFailed i rv s =
     (if \<not> has_key (st_units s) i then s
      else if rv = 0
      then (if has_key (st_tasks s) i then s
            else submitFinish \<lparr>mf_MovementID = 0, mf_Status = None, mf_UnitID = i, mf_At = unit_Tile (unit_at s i)\<rparr> i s)
      else case map_of (st_tasks s) i of
             None \<Rightarrow> s
           | Some e \<Rightarrow>
               if te_rev e \<noteq> rv then s
               else if u_Status (unit_at s i) = StatusWorking then stopWorking i s
               else cancelActiveMovement i ReasonServer (NowMs s) s)"

definition depositLoot :: "int64 \<Rightarrow> tile \<Rightarrow> sim \<Rightarrow> sim" where
  "depositLoot i at s =
     (let u = unit_at s i in
      if u_Loot u \<le> 0 then s
      else case cityOfUnit s u of
             None \<Rightarrow> s
           | Some c \<Rightarrow>
               if depositTile s c \<noteq> Some at then s
               else let s = MarkDirty i (upd_unit i (\<lambda>u. u\<lparr>u_Loot := 0\<rparr>) s);
                        s = deposit_stock c ResourceWood (u_Loot u) s;
                        left = carrying s (unit_at s i)
                    in to_chunk_of (u_X u) (u_Y u) (EntityUpdate ((EntityUpdateOf i)\<lparr>eu_Carrying := Some left\<rparr>)) s)"

record arrival =
  ar_unitID :: int64
  ar_movementID :: int64
  ar_at :: tile
  ar_arrivedAtMs :: int64

definition advance_unit :: "int64 \<Rightarrow> int64 \<Rightarrow> sim \<times> arrival list \<Rightarrow> sim \<times> arrival list" where
  "advance_unit nowMs i st =
     (let (s, arrivals) = st in
      case map_of (st_movements s) i of
        None \<Rightarrow> st
      | Some m \<Rightarrow>
          if \<not> has_key (st_units s) i
          then (s, arrivals @ [\<lparr>ar_unitID = i, ar_movementID = m_ID m, ar_at = mk_tile 0 0, ar_arrivedAtMs = 0\<rparr>])
          else let pos = movement_PositionAt m nowMs;
                   s = (if pos \<noteq> unit_Tile (unit_at s i)
                        then to_chunk_of (tX pos) (tY pos)
                               (EntityUpdate ((EntityUpdateOf i)\<lparr>eu_X := Some (tX pos), eu_Y := Some (tY pos)\<rparr>))
                               (moveUnit i pos (u_Status (unit_at s i)) nowMs s)
                        else s)
               in (s, if HasArrived m nowMs
                      then arrivals @ [\<lparr>ar_unitID = i, ar_movementID = m_ID m, ar_at = pos,
                             ar_arrivedAtMs = m_ArrivalTimeMs m\<rparr>]
                      else arrivals))"

definition stop_at :: "arrival \<Rightarrow> sim \<Rightarrow> sim" where
  "stop_at a s =
     (let i = ar_unitID a; s = depositLoot i (ar_at a) (MarkDirty i (set_status i StatusIdle s))
      in submitFinish \<lparr>mf_MovementID = ar_movementID a, mf_Status = Some MoveCompleted, mf_UnitID = i, mf_At = ar_at a\<rparr> i
           (to_chunk_of (tX (ar_at a)) (tY (ar_at a)) (UnitMovementCompleted i (ar_movementID a) (ar_at a)) s))"

definition finish_arrival :: "deps \<Rightarrow> arrival \<Rightarrow> sim \<Rightarrow> sim" where
  "finish_arrival D a s0 =
     (let i = ar_unitID a; s = ClearMovement i s0 in
      if \<not> has_key (st_units s) i
      then submitFinish \<lparr>mf_MovementID = ar_movementID a, mf_Status = Some MoveCompleted, mf_UnitID = 0, mf_At = mk_tile 0 0\<rparr> i s
      else case map_of (st_tasks s) i of
             Some e \<Rightarrow>
               if IsLeg (t_Phase (te_Task e))
               then onLegArrived D i (te_Task e) (ar_movementID a) (ar_at a) (ar_arrivedAtMs a) s
               else stop_at a s
           | None \<Rightarrow> stop_at a s)"

text \<open>A movement is stored under the id of its unit (SetMovement), so the walk is over those ids.\<close>

definition AdvanceMovements :: "deps \<Rightarrow> int64 \<Rightarrow> sim \<Rightarrow> sim" where
  "AdvanceMovements D nowMs s0 =
     (let (s, arrivals) = fold (advance_unit nowMs) (sorted_keys (st_movements s0)) (s0, [])
      in fold (finish_arrival D) arrivals s)"

end
