(* ===== verification/Garrisoning.thy ===== *)
theory Garrisoning
  imports Marching
begin

section \<open>Garrisons in the live world\<close>

text \<open>
  Models internal/game/simulation/garrison.go: the orders unit.garrison and unit.ungarrison, the
  answer of the transaction that writes an entry, the exit and its retries while no tile is free,
  and the compensation of an exit that was lost. The treaties are checked by the transaction.
\<close>

definition garrisonError :: "uuid \<Rightarrow> string \<Rightarrow> code \<Rightarrow> sim \<Rightarrow> sim" where
  "garrisonError playerID requestID c = send (ToPlayer playerID requestID (SystemError c))"

fun garrisonErrorCode :: "garrison_error \<Rightarrow> code" where
  "garrisonErrorCode GErrNotOwned = CodeUnitNotOwned"
| "garrisonErrorCode GErrDead = CodeUnitDead"
| "garrisonErrorCode GErrAlreadyGarrisoned = CodeUnitGarrisoned"
| "garrisonErrorCode GErrNotIdle = CodeUnitNotMovable"
| "garrisonErrorCode GErrCityNotFound = CodeCityNotFound"
| "garrisonErrorCode GErrNotAdjacent = CodeInvalidTarget"
| "garrisonErrorCode GErrTreatyRequired = CodeTreatyRequired"
| "garrisonErrorCode _ = CodeInternalError"

definition SetGarrisons :: "(int64, int64) gomap \<Rightarrow> 'a state_scheme \<Rightarrow> 'a state_scheme" where
  "SetGarrisons rows s = s\<lparr>st_garrisonedIn := rows\<rparr>"

subsection \<open>Entry\<close>

text \<open>
  CanEnter rejects a nil city before it could authorise it, so past the guards the city exists.
\<close>

definition handleGarrisonUnit :: "deps \<Rightarrow> uuid \<Rightarrow> string \<Rightarrow> int64 \<Rightarrow> int64 \<Rightarrow> sim \<Rightarrow> sim" where
  "handleGarrisonUnit D playerID requestID i cityID s =
     (let reject = (\<lambda>c. garrisonError playerID requestID c s) in
      case map_of (st_units s) i of
        None \<Rightarrow> reject CodeUnitNotFound
      | Some u \<Rightarrow>
        if EnsureOwnedBy u playerID \<noteq> None then reject CodeUnitNotOwned
        else if IsEntering s i then reject CodeUnitNotMovable
        else let co = map_of (st_cities s) cityID; e = CanEnter (dp_UuidString D) (Some u) co playerID [] in
          if e \<noteq> None \<and> e \<noteq> Some GErrTreatyRequired then reject (garrisonErrorCode (the e))
          else if \<not> dp_Garrisons D then reject CodeInternalError
          else case co of
            None \<Rightarrow> s
          | Some c \<Rightarrow>
              submit_job ''garrison.enter'' (UnitKey i) (EnterGarrison u c playerID (st_tick s) requestID)
                (Some [GarrisonEntryResolved playerID requestID i (c_ID c) (Some CodeInternalError)])
                (s\<lparr>st_entering := mark_key i (st_entering s)\<rparr>))"

definition handleGarrisonEntryResolved :: "uuid \<Rightarrow> string \<Rightarrow> int64 \<Rightarrow> int64 \<Rightarrow> code option \<Rightarrow> sim \<Rightarrow> sim" where
  "handleGarrisonEntryResolved playerID requestID i cityID c s0 =
     (let s = s0\<lparr>st_entering := del_key i (st_entering s0)\<rparr> in
      case c of
        Some c \<Rightarrow> garrisonError playerID requestID c s
      | None \<Rightarrow>
          if \<not> has_key (st_units s) i then s
          else let s = set_status i StatusGarrisoned s;
                   s = s\<lparr>st_garrisonedIn := put_key i cityID (st_garrisonedIn s)\<rparr>;
                   u = unit_at s i;
                   s = send (ToPlayer (u_PlayerID u) requestID (EntityUpdate ((EntityUpdateOf i)\<lparr>
                         eu_Status := Some StatusGarrisoned, eu_GarrisonCityID := Some (Some cityID)\<rparr>))) s
               in to_others_of (u_X u) (u_Y u) (u_PlayerID u) (EntityDespawn i DespawnGarrisoned) s)"

subsection \<open>Exit\<close>

definition exit_garrison :: "deps \<Rightarrow> int64 \<Rightarrow> city \<Rightarrow> exit_request \<Rightarrow> sim \<Rightarrow> garrison_error + sim" where
  "exit_garrison D i c req s0 =
     (case ReentryTile (Some (st_world s0)) (Some c) None of
        Err e \<Rightarrow> Err e
      | Ok t \<Rightarrow>
          let from0 = unit_Tile (unit_at s0 i);
              nowMs = NowMs s0;
              prev = u_Status (unit_at s0 i);
              s = set_status i StatusIdle s0;
              s = s\<lparr>st_garrisonedIn := del_key i (st_garrisonedIn s)\<rparr>;
              s = MarkDirty i (moveUnit i t prev nowMs s);
              u = unit_at s i;
              s = send (ToPlayer (u_PlayerID u) (ex_RequestID req) (EntityUpdate ((EntityUpdateOf i)\<lparr>
                    eu_X := Some (tX t), eu_Y := Some (tY t), eu_Status := Some (u_Status u),
                    eu_GarrisonCityID := Some None\<rparr>))) s;
              s = to_others_of (tX t) (tY t) (u_PlayerID u) (EntitySpawn (UnitView s i nowMs)) s
          in Ok (if \<not> dp_Garrisons D then s
                 else let (cx, cy) = ChunkOf (st_world s) (tX t) (tY t)
                      in submit_job ''garrison.leave'' (UnitKey i)
                           (LeaveGarrison u (tX t) (tY t) cx cy (st_tick s))
                           (Some [GarrisonExitFailed i (c_ID c) from0]) s))"

definition handleUngarrisonUnit :: "deps \<Rightarrow> uuid \<Rightarrow> string \<Rightarrow> int64 \<Rightarrow> sim \<Rightarrow> sim" where
  "handleUngarrisonUnit D playerID requestID i s =
     (let reject = (\<lambda>c. garrisonError playerID requestID c s) in
      case map_of (st_units s) i of
        None \<Rightarrow> reject CodeUnitNotFound
      | Some u \<Rightarrow>
        if EnsureOwnedBy u playerID \<noteq> None then reject CodeUnitNotOwned
        else if IsEntering s i then reject CodeUnitNotMovable
        else if has_key (st_pendingExits s) i then reject CodeUnitNotMovable
        else if CanLeave (Some u) playerID \<noteq> None then reject CodeUnitNotMovable
        else case Option.bind (map_of (st_garrisonedIn s) i) (map_of (st_cities s)) of
          None \<Rightarrow> reject CodeInternalError
        | Some c \<Rightarrow>
            let req = \<lparr>ex_PlayerID = playerID, ex_RequestID = requestID, ex_CityID = c_ID c\<rparr>
            in (case exit_garrison D i c req s of
                  Ok s' \<Rightarrow> s'
                | Err e \<Rightarrow> if e = GErrNoReentryTile
                            then s\<lparr>st_pendingExits := put_key i req (st_pendingExits s)\<rparr> else s))"

definition handleGarrisonExitFailed :: "int64 \<Rightarrow> int64 \<Rightarrow> tile \<Rightarrow> sim \<Rightarrow> sim" where
  "handleGarrisonExitFailed i cityID from0 s0 =
     (if \<not> has_key (st_units s0) i \<or> u_Status (unit_at s0 i) = StatusGarrisoned then s0
      else let nowMs = NowMs s0;
               s = cancelActiveMovement i ReasonServer nowMs s0;
               u = unit_at s i;
               s = to_others_of (u_X u) (u_Y u) (u_PlayerID u) (EntityDespawn i DespawnGarrisoned) s;
               prev = u_Status u;
               s = set_status i StatusGarrisoned s;
               s = s\<lparr>st_garrisonedIn := put_key i cityID (st_garrisonedIn s)\<rparr>;
               s = MarkDirty i (moveUnit i from0 prev nowMs s)
           in send (ToPlayer (u_PlayerID u) '''' (EntityUpdate ((EntityUpdateOf i)\<lparr>
                eu_X := Some (tX from0), eu_Y := Some (tY from0), eu_Status := Some StatusGarrisoned,
                eu_GarrisonCityID := Some (Some cityID)\<rparr>))) s)"

definition retry_exit :: "deps \<Rightarrow> int64 \<Rightarrow> sim \<Rightarrow> sim" where
  "retry_exit D i s =
     (case map_of (st_pendingExits s) i of
        None \<Rightarrow> s
      | Some req \<Rightarrow>
          let drop = (\<lambda>s :: sim. s\<lparr>st_pendingExits := del_key i (st_pendingExits s)\<rparr>) in
          case map_of (st_cities s) (ex_CityID req) of
            None \<Rightarrow> drop s
          | Some c \<Rightarrow>
              if \<not> has_key (st_units s) i \<or> u_Status (unit_at s i) \<noteq> StatusGarrisoned then drop s
              else (case exit_garrison D i c req s of Ok s' \<Rightarrow> drop s' | Err _ \<Rightarrow> s))"

definition retryPendingExits :: "deps \<Rightarrow> sim \<Rightarrow> sim" where
  "retryPendingExits D s = fold (retry_exit D) (sorted_keys (st_pendingExits s)) s"

end
