(* ===== verification/Concealment.thy ===== *)
theory Concealment
  imports Marching
begin

section \<open>Concealment in the safe zones\<close>

text \<open>
  Models internal/game/simulation/safezones.go: the phase of the tick that hides the units that
  stand still in a safe zone and shows those that leave it, with what their owner and the other
  players receive, and the walls of a new city taken out of the zones.
\<close>

definition drainConcealCandidates :: "'a state_scheme \<Rightarrow> int64 list \<times> 'a state_scheme" where
  "drainConcealCandidates s =
     (if st_concealCandidates s = [] then ([], s)
      else (sorted_keys (st_concealCandidates s), s\<lparr>st_concealCandidates := []\<rparr>))"

definition emitConcealment :: "int64 \<Rightarrow> unit_status \<Rightarrow> int64 \<Rightarrow> sim \<Rightarrow> sim" where
  "emitConcealment i prev nowMs s0 =
     (let u = unit_at s0 i;
          s = send (ToPlayer (u_PlayerID u) '''' (EntityUpdate ((EntityUpdateOf i)\<lparr>eu_Status := Some (u_Status u)\<rparr>))) s0
      in if u_Status u = StatusHidden
         then to_others_of (u_X u) (u_Y u) (u_PlayerID u) (EntityDespawn i DespawnHidden) s
         else if prev = StatusHidden
         then to_others_of (u_X u) (u_Y u) (u_PlayerID u) (EntitySpawn (UnitView s i nowMs)) s
         else s)"

definition conceal_unit :: "int64 \<Rightarrow> int64 \<Rightarrow> sim \<Rightarrow> sim" where
  "conceal_unit nowMs i s =
     (case map_of (st_units s) i of
        None \<Rightarrow> s
      | Some u \<Rightarrow>
          let moving = has_key (st_movements s) i;
              inZone = (SafeZoneAt s (u_X u) (u_Y u) \<noteq> None);
              prev = u_Status u;
              next = NextStatus prev (u_HP u) moving inZone
          in if next = prev then s
             else emitConcealment i prev nowMs (MarkDirty i (set_status i next s)))"

definition evaluateConcealment :: "sim \<Rightarrow> sim" where
  "evaluateConcealment s0 =
     (let (ids, s) = drainConcealCandidates s0
      in if ids = [] then s else fold (conceal_unit (NowMs s)) ids s)"

definition mark_inside :: "int32 \<Rightarrow> int32 \<Rightarrow> int32 \<Rightarrow> int32 \<Rightarrow> int32 \<Rightarrow> int32 \<Rightarrow> 'a state_scheme \<Rightarrow> 'a state_scheme" where
  "mark_inside minX minY maxX maxY cx cy s =
     fold (\<lambda>u s. if minX \<le> u_X u \<and> u_X u \<le> maxX \<and> minY \<le> u_Y u \<and> u_Y u \<le> maxY
                  then s\<lparr>st_concealCandidates := mark_key (u_ID u) (st_concealCandidates s)\<rparr> else s)
       (UnitsInChunk s cx cy) s"

definition excludeFromSafeZones :: "int32 \<Rightarrow> int32 \<Rightarrow> int32 \<Rightarrow> int32 \<Rightarrow> 'a state_scheme \<Rightarrow> 'a state_scheme" where
  "excludeFromSafeZones minX minY maxX maxY s0 =
     (let s = s0\<lparr>st_safeZones := fst (Exclude minX minY maxX maxY (st_safeZones s0))\<rparr>;
          w = st_world s;
          (minCX, minCY) = ChunkOf w (max minX 0) (max minY 0);
          (maxCX, maxCY) = ChunkOf w (min maxX (i32 (w_width w - 1))) (min maxY (i32 (w_height w - 1)))
      in fold (\<lambda>(cx, cy). mark_inside minX minY maxX maxY cx cy) (scan minCX minCY maxCX maxCY) s)"

end
