(* ===== verification/Flushing.thy ===== *)
theory Flushing
  imports Stockpile
begin

section \<open>The periodic flush\<close>

text \<open>
  Models flushFinishes and the end of FlushDirty of internal/game/simulation/simulation.go: the units
  marked dirty that stand still are written in one job per partition of the queue, and the closings
  of movements that the queue lost are submitted again. The whole FlushDirty is in Game_Loop.
\<close>

definition flushFinishes :: "sim \<Rightarrow> sim" where
  "flushFinishes s0 =
     (if st_pendingFinishes s0 = [] then s0
      else fold (\<lambda>i s. case map_of (st_pendingFinishes s0) i of
                   None \<Rightarrow> s
                 | Some p \<Rightarrow> submitFinish \<lparr>mf_MovementID = ff_MovementID p, mf_Status = ff_Status p, mf_UnitID = 0,
                     mf_At = mk_tile 0 0\<rparr> (ff_UnitID p) s)
             (sorted_keys (st_pendingFinishes s0)) (s0\<lparr>st_pendingFinishes := []\<rparr>))"

definition flushed :: "unit_rec \<Rightarrow> unit_rec" where
  "flushed u = (if u_Status u = StatusAttacking \<or> u_Status u = StatusClaiming then u\<lparr>u_Status := StatusIdle\<rparr> else u)"

text \<open>One unit of the dirty set, added to the batch of its partition.\<close>

definition flush_unit :: "nat \<Rightarrow> unit_rec \<Rightarrow> sim \<times> unit_rec list list \<Rightarrow> sim \<times> unit_rec list list" where
  "flush_unit n u st =
     (let (s, lotes) = st in
      if has_key (st_movements s) (u_ID u) then st
      else if IsEntering s (u_ID u) then (keepDirty (u_ID u) s, lotes)
      else let p = PartitionOf (UnitKey (u_ID u)) n
           in (s, lotes[p := lotes ! p @ [flushed u]]))"

definition submit_lote :: "unit_rec list \<Rightarrow> sim \<Rightarrow> sim" where
  "submit_lote lote s =
     (case lote of
        [] \<Rightarrow> s
      | u # _ \<Rightarrow>
          submit_job ''units.flush'' (UnitKey (u_ID u)) (PersistUnitPositions lote)
            (Some [UnitsFlushPersistFailed (map u_ID lote)]) s)"

definition flushUnits :: "deps \<Rightarrow> sim \<Rightarrow> int \<times> sim" where
  "flushUnits D s0 =
     (let (dirty, s) = DrainDirty s0 in
      if dirty = [] then (0, s)
      else let n = (if dp_Partitions D < 1 then 1 else nat (dp_Partitions D));
               (s, lotes) = fold (flush_unit n) dirty (s, replicate n [])
           in (int (length (concat lotes)), fold submit_lote lotes s))"

end
