(* ===== verification/Recovery.thy ===== *)
theory Recovery
  imports Gathering Concealment
begin

section \<open>Recovery and footprints\<close>

text \<open>
  Models internal/game/simulation/recovery.go (Hydrate, which rebuilds the world from the rows
  read at boot, and ReconcileTasks) and footprint.go (the units that the walls of a city leave
  inside, in a tick and at boot).
\<close>

subsection \<open>Footprints\<close>

record footprint =
  fp_minX :: int32
  fp_minY :: int32
  fp_maxX :: int32
  fp_maxY :: int32

definition urbanFootprint :: "city \<Rightarrow> footprint" where
  "urbanFootprint c = (let (a, b, x, y) = UrbanBounds c in \<lparr>fp_minX = a, fp_minY = b, fp_maxX = x, fp_maxY = y\<rparr>)"

definition fp_contains :: "footprint \<Rightarrow> tile \<Rightarrow> bool" where
  "fp_contains f t \<longleftrightarrow> fp_minX f \<le> tX t \<and> tX t \<le> fp_maxX f \<and> fp_minY f \<le> tY t \<and> tY t \<le> fp_maxY f"

definition abs32 :: "int32 \<Rightarrow> int32" where
  "abs32 v = (if v < 0 then i32 (- v) else v)"

definition chebyshev :: "tile \<Rightarrow> tile \<Rightarrow> int32" where
  "chebyshev a b = max (abs32 (i32 (tX a - tX b))) (abs32 (i32 (tY a - tY b)))"

definition evictionSearchRings :: int32 where "evictionSearchRings = 8"

text \<open>The tiles of one ring in (y, x) order, and the nearest of them, the first at equal distance.\<close>

definition ring_tiles :: "world \<Rightarrow> footprint \<Rightarrow> int32 \<Rightarrow> tile list" where
  "ring_tiles w f ring =
     (let loX = i32 (fp_minX f - ring); hiX = i32 (fp_maxX f + ring); loY = i32 (fp_minY f - ring); hiY = i32 (fp_maxY f + ring)
      in map (\<lambda>(x, y). mk_tile x y)
           (filter (\<lambda>(x, y). \<not> (loX < x \<and> x < hiX \<and> loY < y \<and> y < hiY) \<and> IsWalkable w x y) (scan loX loY hiX hiY)))"

definition nearer :: "tile \<Rightarrow> tile \<Rightarrow> tile option \<Rightarrow> tile option" where
  "nearer from0 t best = (case best of None \<Rightarrow> Some t | Some b \<Rightarrow> if chebyshev t from0 < chebyshev b from0 then Some t else best)"

fun eviction_rings :: "world \<Rightarrow> footprint \<Rightarrow> tile \<Rightarrow> int32 list \<Rightarrow> tile option" where
  "eviction_rings w f from0 [] = None"
| "eviction_rings w f from0 (r # rs) =
     (case fold (nearer from0) (ring_tiles w f r) None of Some t \<Rightarrow> Some t | None \<Rightarrow> eviction_rings w f from0 rs)"

definition evictionTile :: "world \<Rightarrow> footprint \<Rightarrow> tile \<Rightarrow> tile option" where
  "evictionTile w f from0 = eviction_rings w f from0 [1..evictionSearchRings]"

definition occupiesWorld :: "unit_rec \<Rightarrow> bool" where
  "occupiesWorld u \<longleftrightarrow> u_Status u \<noteq> StatusGarrisoned \<and> u_Status u \<noteq> StatusDead"

definition blockedRoutes :: "'a state_scheme \<Rightarrow> int64 \<Rightarrow> int64 list" where
  "blockedRoutes s nowMs =
     filter (\<lambda>i. case (map_of (st_movements s) i, map_of (st_units s) i) of
         (Some m, Some u) \<Rightarrow> occupiesWorld u \<and>
           ValidateFrom (m_Path m) (IndexAt (m_Path m) (i64 (nowMs - m_StartTimeMs m))) (IsWalkable (st_world s)) \<noteq> None
       | _ \<Rightarrow> False) (sorted_keys (st_movements s))"

definition unitsInside :: "'a state_scheme \<Rightarrow> footprint \<Rightarrow> int64 list" where
  "unitsInside s f =
     (let w = st_world s;
          (minCX, minCY) = ChunkOf w (max (fp_minX f) 0) (max (fp_minY f) 0);
          (maxCX, maxCY) = ChunkOf w (min (fp_maxX f) (i32 (w_width w - 1))) (min (fp_maxY f) (i32 (w_height w - 1)))
      in concat (map (\<lambda>(cx, cy). map u_ID (filter (\<lambda>u. occupiesWorld u \<and> fp_contains f (unit_Tile u)) (UnitsInChunk s cx cy)))
           (scan minCX minCY maxCX maxCY)))"

definition evict_unit :: "footprint \<Rightarrow> int64 \<Rightarrow> int64 \<Rightarrow> sim \<Rightarrow> sim" where
  "evict_unit f nowMs i s0 =
     (let s = stopWorking i s0 in
      case evictionTile (st_world s) f (unit_Tile (unit_at s i)) of
        None \<Rightarrow> s
      | Some to \<Rightarrow>
          let s = MarkDirty i (moveUnit i to (u_Status (unit_at s i)) nowMs s);
              u = unit_at s i;
              update = EntityUpdate ((EntityUpdateOf i)\<lparr>eu_X := Some (tX to), eu_Y := Some (tY to)\<rparr>)
          in if u_Status u = StatusHidden then send (ToPlayer (u_PlayerID u) '''' update) s
             else to_chunk_of (tX to) (tY to) update s)"

definition clearFootprint :: "footprint \<Rightarrow> int64 \<Rightarrow> sim \<Rightarrow> sim" where
  "clearFootprint f nowMs s0 =
     (let s = fold (\<lambda>i. cancelActiveMovement i ReasonPathBlocked nowMs) (blockedRoutes s0 nowMs) s0
      in fold (evict_unit f nowMs) (unitsInside s f) s)"

subsection \<open>Footprints at boot\<close>

definition stop_blocked :: "int64 \<Rightarrow> int64 \<Rightarrow> 'a state_scheme \<Rightarrow> 'a state_scheme" where
  "stop_blocked nowMs i s0 =
     (case map_of (st_movements s0) i of
        None \<Rightarrow> s0
      | Some m \<Rightarrow> MarkDirty i (set_status i StatusIdle (ClearMovement i (snd (MoveUnitTo i (movement_PositionAt m nowMs) s0)))))"

definition evict_boot :: "footprint \<Rightarrow> int64 \<Rightarrow> 'a state_scheme \<Rightarrow> 'a state_scheme" where
  "evict_boot f i s =
     (case evictionTile (st_world s) f (unit_Tile (unit_at s i)) of
        None \<Rightarrow> s
      | Some to \<Rightarrow> MarkDirty i (snd (MoveUnitTo i to s)))"

definition ClearFootprints :: "city list \<Rightarrow> int64 \<Rightarrow> 'a state_scheme \<Rightarrow> finish list \<times> 'a state_scheme" where
  "ClearFootprints cities nowMs s0 =
     (let blocked = blockedRoutes s0 nowMs;
          s1 = fold (stop_blocked nowMs) blocked s0;
          s = fold (\<lambda>c s. fold (evict_boot (urbanFootprint c)) (unitsInside s (urbanFootprint c)) s) cities s1
      in (List.map_filter (\<lambda>u. if u_ID u \<in> set blocked
             then map_option (\<lambda>m. \<lparr>mf_MovementID = m_ID m, mf_Status = Some MoveCancelled, mf_UnitID = u_ID u, mf_At = unit_Tile u\<rparr>)
                    (map_of (st_movements s0) (u_ID u))
             else None) (EachUnit s), s))"

subsection \<open>Hydrate\<close>

definition failed_row :: "movement \<Rightarrow> finish" where
  "failed_row m = \<lparr>mf_MovementID = m_ID m, mf_Status = Some MoveFailed, mf_UnitID = 0, mf_At = mk_tile 0 0\<rparr>"

text \<open>Arrival and target of the row are taken from the polyline when they disagree with it.\<close>

definition repaired :: "movement \<Rightarrow> movement" where
  "repaired m = m\<lparr>m_ArrivalTimeMs := i64 (m_StartTimeMs m + DurationMs (m_Path m)),
     m_Target := the (movement_Destination m)\<rparr>"

definition hydrate_movement :: "int64 \<Rightarrow> movement \<Rightarrow> 'a state_scheme \<times> finish list \<Rightarrow> 'a state_scheme \<times> finish list" where
  "hydrate_movement nowMs m0 st =
     (let (s, fin) = st; i = m_UnitID m0 in
      if \<not> has_key (st_units s) i then (s, fin @ [failed_row m0])
      else
        let s = SetMovementIDFloor (m_ID m0) s in
        if u_Status (unit_at s i) = StatusGarrisoned then (s, fin @ [failed_row m0])
        else if Validate_path (m_Path m0) (Some (IsWalkable (st_world s))) \<noteq> None
        then let s = MarkDirty i (set_status i StatusIdle s)
             in (s, fin @ [\<lparr>mf_MovementID = m_ID m0, mf_Status = Some MoveFailed, mf_UnitID = i, mf_At = unit_Tile (unit_at s i)\<rparr>])
        else
          let m = repaired m0; dest = the (movement_Destination m) in
          if HasArrived m nowMs
          then if (case map_of (st_tasks s) i of Some e \<Rightarrow> IsLeg (t_Phase (te_Task e)) | None \<Rightarrow> False)
               then (SetMovement m (set_status i StatusMoving (snd (MoveUnitTo i dest s))), fin)
               else (MarkDirty i (set_status i StatusIdle (snd (MoveUnitTo i dest s))),
                     fin @ [\<lparr>mf_MovementID = m_ID m, mf_Status = Some MoveCompleted, mf_UnitID = i, mf_At = dest\<rparr>])
          else (SetMovement m (set_status i StatusMoving (snd (MoveUnitTo i (movement_PositionAt m nowMs) s))), fin))"

definition reconcile_unit :: "int64 \<Rightarrow> 'a state_scheme \<Rightarrow> 'a state_scheme" where
  "reconcile_unit i s =
     (if u_Status (unit_at s i) \<noteq> StatusMoving \<or> has_key (st_movements s) i then s
      else MarkDirty i (set_status i StatusIdle s))"

definition Hydrate ::
  "'a state_scheme \<Rightarrow> unit_rec list \<Rightarrow> city list \<Rightarrow> movement list \<Rightarrow> int64 \<Rightarrow> 'a state_scheme \<times> finish list" where
  "Hydrate s units cities movements nowMs =
     (let s = fold AddUnit units (fold AddCity cities s);
          (s, fin) = fold (hydrate_movement nowMs) movements (s, [])
      in (fold reconcile_unit (st_unitIDs s) s, fin))"

subsection \<open>Tasks that cannot go on\<close>

definition reconcile_task :: "int64 \<Rightarrow> 'a state_scheme \<times> task_write list \<Rightarrow> 'a state_scheme \<times> task_write list" where
  "reconcile_task i st =
     (let (s, writes) = st in
      case map_of (st_tasks s) i of
        None \<Rightarrow> st
      | Some e \<Rightarrow>
          if \<not> has_key (st_units s) i then (s\<lparr>st_tasks := del_key i (st_tasks s)\<rparr>, writes)
          else
            let u = unit_at s i; moving = has_key (st_movements s) i; t = te_Task e in
            if \<not> (IsLeg (t_Phase t) \<and> \<not> moving) \<and>
               \<not> (t_Phase t = PhaseWorking \<and> (u_Status u \<noteq> StatusWorking \<or> unit_Tile u \<noteq> t_Target t))
            then st
            else
              let s = s\<lparr>st_tasks := del_key i (st_tasks s)\<rparr> in
              if moving then (s, writes @ [(TaskWriteOf i None (StatusOther '''') (mk_tile 0 0))\<lparr>tw_KeepUnit := True\<rparr>])
              else let s = MarkDirty i (set_status i StatusIdle s)
                   in (s, writes @ [TaskWriteOf i None StatusIdle (unit_Tile (unit_at s i))]))"

definition ReconcileTasks :: "'a state_scheme \<Rightarrow> task_write list \<times> 'a state_scheme" where
  "ReconcileTasks s = (let (s', writes) = fold reconcile_task (sorted_keys (st_tasks s)) (s, []) in (writes, s'))"

end
