(* ===== verification/Unit_Modes.thy ===== *)
theory Unit_Modes
  imports Recovery Garrisoning Flushing
begin

section \<open>What a unit is doing, in memory and on disk\<close>

text \<open>
  The durable store as internal/persistence/gamestore.go, economystore.go and the repositories it
  calls (movements.go, units.go, economy.go, diplomacy.go of persistence/postgres) write it: the
  row of a unit, its active movement and its task. And the abstraction of the live world that the
  following theories reason with: for each unit, what the memory says of it next to what the disk
  will say once the jobs submitted so far have been written, in their order. Proved: what each
  operation of the simulation changes of the abstraction.
\<close>

subsection \<open>The durable store\<close>

record disk =
  dk_rows :: "int64 \<rightharpoonup> unit_status \<times> tile"
  dk_legs :: "int64 \<rightharpoonup> movement"
  dk_tasks :: "int64 \<rightharpoonup> gtask"

text \<open>FlushPositions updates the rows that exist and are not DEAD.\<close>

definition FlushPosition :: "int64 \<Rightarrow> unit_status \<Rightarrow> tile \<Rightarrow> disk \<Rightarrow> disk" where
  "FlushPosition i st t d =
     (case dk_rows d i of
        None \<Rightarrow> d
      | Some (old, _) \<Rightarrow> if old = StatusDead then d else d\<lparr>dk_rows := (dk_rows d)(i \<mapsto> (st, t))\<rparr>)"

definition DeleteTask :: "int64 \<Rightarrow> disk \<Rightarrow> disk" where
  "DeleteTask i d = d\<lparr>dk_tasks := (dk_tasks d)(i := None)\<rparr>"

definition upsertTask :: "gtask \<Rightarrow> disk \<Rightarrow> disk" where
  "upsertTask t d = d\<lparr>dk_tasks := (dk_tasks d)(t_UnitID t \<mapsto> t)\<rparr>"

text \<open>Start cancels the active movement of the unit and inserts the new one; its id is the key.\<close>

definition Start_movement :: "movement \<Rightarrow> disk \<Rightarrow> disk" where
  "Start_movement m d = d\<lparr>dk_legs := (dk_legs d)(m_UnitID m \<mapsto> m)\<rparr>"

definition drop_leg :: "int64 \<Rightarrow> movement option \<Rightarrow> movement option" where
  "drop_leg mid l = (case l of None \<Rightarrow> None | Some m \<Rightarrow> if m_ID m = mid then None else Some m)"

definition Finish_movement :: "int64 \<Rightarrow> disk \<Rightarrow> disk" where
  "Finish_movement mid d = (if mid = 0 then d else d\<lparr>dk_legs := (\<lambda>i. drop_leg mid (dk_legs d i))\<rparr>)"

definition DiskMovementStart :: "movement \<Rightarrow> tile \<Rightarrow> disk \<Rightarrow> disk" where
  "DiskMovementStart m origin d = FlushPosition (m_UnitID m) StatusMoving origin (DeleteTask (m_UnitID m) (Start_movement m d))"

definition DiskMovementFinish :: "finish \<Rightarrow> disk \<Rightarrow> disk" where
  "DiskMovementFinish f d =
     (let d = Finish_movement (mf_MovementID f) d
      in if mf_UnitID f = 0 then d
         else FlushPosition (mf_UnitID f) StatusIdle (mf_At f) (DeleteTask (mf_UnitID f) d))"

definition DiskTask :: "task_write \<Rightarrow> disk \<Rightarrow> disk" where
  "DiskTask w d =
     (let d = (case tw_Finish w of None \<Rightarrow> d | Some f \<Rightarrow> Finish_movement (mf_MovementID f) d);
          d = (case tw_Start w of None \<Rightarrow> d | Some m \<Rightarrow> Start_movement m d);
          d = (if tw_KeepUnit w then d else FlushPosition (tw_UnitID w) (tw_Status w) (tw_At w) d)
      in case tw_Task w of None \<Rightarrow> DeleteTask (tw_UnitID w) d | Some t \<Rightarrow> upsertTask t d)"

definition DiskPositions :: "unit_rec list \<Rightarrow> disk \<Rightarrow> disk" where
  "DiskPositions us d = fold (\<lambda>u. FlushPosition (u_ID u) (u_Status u) (unit_Tile u)) us d"

definition DiskLeave :: "unit_rec \<Rightarrow> int32 \<Rightarrow> int32 \<Rightarrow> disk \<Rightarrow> disk" where
  "DiskLeave u x y d =
     (if dk_rows d (u_ID u) = None then d else d\<lparr>dk_rows := (dk_rows d)(u_ID u \<mapsto> (StatusIdle, mk_tile x y))\<rparr>)"

text \<open>
  An entry in a garrison is decided by its transaction, with the treaties of that moment: what it
  writes when it succeeds is DiskEnter, applied when its answer arrives.
\<close>

definition DiskEnter :: "int64 \<Rightarrow> disk \<Rightarrow> disk" where
  "DiskEnter i d =
     (let d = DeleteTask i (d\<lparr>dk_legs := (dk_legs d)(i := None)\<rparr>)
      in case dk_rows d i of None \<Rightarrow> d | Some (_, t) \<Rightarrow> d\<lparr>dk_rows := (dk_rows d)(i \<mapsto> (StatusGarrisoned, t))\<rparr>)"

text \<open>
  What a job writes of these three tables. EnterGarrison and PersistBirth write nothing here: their
  transactions are applied with their answers (Entry_done and Birth_done of World_Run). The deaths and
  the claims write them too, and are not among the histories that use this function.
\<close>

fun apply_durable :: "durable \<Rightarrow> disk \<Rightarrow> disk" where
  "apply_durable (PersistMovementStart m origin) d = DiskMovementStart m origin d"
| "apply_durable (PersistMovementFinish f) d = DiskMovementFinish f d"
| "apply_durable (PersistUnitPositions us) d = DiskPositions us d"
| "apply_durable (LeaveGarrison u x y cx cy tick) d = DiskLeave u x y d"
| "apply_durable (PersistTask w) d = DiskTask w d"
| "apply_durable _ d = d"

definition disk_of :: "disk \<Rightarrow> sim \<Rightarrow> disk" where
  "disk_of d s = fold apply_durable (map jb_Run (sm_jobs s)) d"

subsection \<open>The abstraction\<close>

text \<open>
  A movement is compared up to the repair of Hydrate (Recovery.thy), which reads its arrival and its
  target off its polyline: a row that disagrees with its polyline is repaired in memory and left as
  it is on disk.
\<close>

record unit_mode =
  md_id :: "int64 option"
  md_unit :: "(unit_status \<times> tile) option"
  md_move :: "movement option"
  md_task :: "gtask option"
  md_host :: "int64 option"
  md_dirty :: bool
  md_entering :: bool
  md_row :: "(unit_status \<times> tile) option"
  md_leg :: "movement option"
  md_job :: "gtask option"

definition modes :: "disk \<Rightarrow> sim \<Rightarrow> int64 \<Rightarrow> unit_mode" where
  "modes d s i =
     \<lparr>md_id = map_option u_ID (map_of (st_units s) i),
      md_unit = map_option (\<lambda>u. (u_Status u, unit_Tile u)) (map_of (st_units s) i),
      md_move = map_option repaired (map_of (st_movements s) i), md_task = map_option te_Task (map_of (st_tasks s) i),
      md_host = map_of (st_garrisonedIn s) i, md_dirty = has_key (st_unitDirty s) i,
      md_entering = has_key (st_entering s) i, md_row = dk_rows (disk_of d s) i,
      md_leg = map_option repaired (dk_legs (disk_of d s) i), md_job = dk_tasks (disk_of d s) i\<rparr>"

lemma repaired_sel [simp]:
  "m_ID (repaired m) = m_ID m" "m_UnitID (repaired m) = m_UnitID m" "m_Path (repaired m) = m_Path m"
  "m_StartTimeMs (repaired m) = m_StartTimeMs m" "repaired (repaired m) = repaired m"
  "movement_PositionAt (repaired m) = movement_PositionAt m" "movement_Destination (repaired m) = movement_Destination m"
  by (simp_all add: repaired_def movement_PositionAt_def movement_Destination_def fun_eq_iff)

lemma drop_leg_repaired [simp]: "map_option repaired (drop_leg mid l) = drop_leg mid (map_option repaired l)"
  by (simp add: drop_leg_def split: option.split)

text \<open>The row of a unit after a write of its position.\<close>

definition new_row :: "unit_status \<Rightarrow> tile \<Rightarrow> unit_mode \<Rightarrow> unit_mode" where
  "new_row st t md =
     (case md_row md of
        None \<Rightarrow> md
      | Some (old, _) \<Rightarrow> if old = StatusDead then md else md\<lparr>md_row := Some (st, t)\<rparr>)"

lemma disk_of_submit [simp]: "disk_of d (submit_job n k w f s) = apply_durable w (disk_of d s)"
  by (simp add: disk_of_def submit_job_def)

lemma disk_of_cong: "sm_jobs s = sm_jobs s' \<Longrightarrow> disk_of d s = disk_of d s'"
  by (simp add: disk_of_def)

subsection \<open>Operations that leave it as it is\<close>

named_theorems mode_simps

lemma modes_send [simp]: "modes d (send m s) = modes d s"
  by (rule ext) (simp add: modes_def disk_of_def send_def)

lemma modes_to_chunk_of [simp]: "modes d (to_chunk_of x y m s) = modes d s"
  "modes d (to_others_of x y p m s) = modes d s"
  by (simp_all add: to_chunk_of_def to_others_of_def split: prod.split)

lemma modes_broadcastStatus [simp]: "modes d (broadcastStatus i s) = modes d s"
  by (simp add: broadcastStatus_def Let_def)

lemma modes_cong:
  assumes "st_units s' = st_units s" "st_movements s' = st_movements s" "st_tasks s' = st_tasks s"
    "st_garrisonedIn s' = st_garrisonedIn s" "st_unitDirty s' = st_unitDirty s" "st_entering s' = st_entering s"
    "sm_jobs s' = sm_jobs s"
  shows "modes d s' = modes d s"
  by (rule ext) (simp add: modes_def assms disk_of_def)

subsection \<open>Operations on one unit\<close>

lemma modes_MarkDirty [simp]: "modes d (MarkDirty i s) = (modes d s)(i := (modes d s i)\<lparr>md_dirty := True\<rparr>)"
  by (rule ext) (simp add: modes_def MarkDirty_def disk_of_def)

lemma modes_keepDirty [simp]: "modes d (keepDirty i s) = (modes d s)(i := (modes d s i)\<lparr>md_dirty := True\<rparr>)"
  by (rule ext) (simp add: modes_def keepDirty_def disk_of_def)

lemma upd_unit_sim [simp]:
  "st_tasks (upd_unit i f s) = st_tasks s" "st_garrisonedIn (upd_unit i f s) = st_garrisonedIn s"
  "st_unitDirty (upd_unit i f s) = st_unitDirty s" "st_entering (upd_unit i f s) = st_entering s"
  "st_lastMovementID (upd_unit i f s) = st_lastMovementID s"
  by (simp_all add: upd_unit_def split: option.split)

lemma upd_unit_jobs [simp]: "sm_jobs (upd_unit i f s) = sm_jobs s" "sm_now (upd_unit i f s) = sm_now s" for s :: sim
  by (simp_all add: upd_unit_def split: option.split)

lemma disk_of_upd_unit [simp]: "disk_of d (upd_unit i f s) = disk_of d s"
  by (rule disk_of_cong) simp

lemma modes_set_status [simp]:
  "modes d (set_status i st s) = (modes d s)(i := (modes d s i)\<lparr>md_unit := map_option (\<lambda>(_, t). (st, t)) (md_unit (modes d s i))\<rparr>)"
  by (rule ext) (simp add: modes_def set_status_def option.map_comp comp_def unit_Tile_def split_def)

lemma modes_ClearMovement [simp]:
  "modes d (ClearMovement i s) = (modes d s)(i := (modes d s i)\<lparr>md_move := None\<rparr>)"
  by (rule ext) (simp add: modes_def ClearMovement_def disk_of_def)

lemma modes_SetMovement [simp]:
  "modes d (SetMovement m s) = (modes d s)(m_UnitID m := (modes d s (m_UnitID m))\<lparr>md_move := Some (repaired m)\<rparr>)"
  by (rule ext) (simp add: modes_def SetMovement_def disk_of_def)

lemma modes_NewMovementID [simp]: "modes d (snd (NewMovementID s)) = modes d s"
  by (rule modes_cong) (simp_all add: NewMovementID_def Let_def)

lemma modes_dropTask [simp]: "modes d (dropTask i s) = (modes d s)(i := (modes d s i)\<lparr>md_task := None\<rparr>)"
proof -
  have "modes d (s\<lparr>st_tasks := del_key i (st_tasks s)\<rparr>) = (modes d s)(i := (modes d s i)\<lparr>md_task := None\<rparr>)"
    by (rule ext) (simp add: modes_def disk_of_def)
  moreover have "map_of (st_tasks s) i = None \<Longrightarrow> modes d s = (modes d s)(i := (modes d s i)\<lparr>md_task := None\<rparr>)"
    by (rule ext) (simp add: modes_def)
  ultimately show ?thesis by (simp add: dropTask_def Let_def split: option.split)
qed

lemma modes_setTask [simp]:
  "modes d (snd (setTask t s)) = (modes d s)(t_UnitID t := (modes d s (t_UnitID t))\<lparr>md_task := Some t\<rparr>)"
  by (rule ext) (simp add: modes_def setTask_def Let_def disk_of_def)

lemma MoveUnitTo_sim:
  "snd (MoveUnitTo i t s) = upd_unit i (SetTile t) s\<lparr>st_unitsByChunk := st_unitsByChunk (snd (MoveUnitTo i t s))\<rparr>"
  by (simp add: MoveUnitTo_def Let_def addToChunk_def removeFromChunk_def upd_unit_def split: prod.split option.split)

lemma modes_MoveUnitTo [simp]:
  "modes d (snd (MoveUnitTo i t s)) =
     (modes d s)(i := (modes d s i)\<lparr>md_unit := map_option (\<lambda>(st, _). (st, t)) (md_unit (modes d s i))\<rparr>)"
proof -
  have "modes d (snd (MoveUnitTo i t s)) = modes d (upd_unit i (SetTile t) s)"
    by (subst MoveUnitTo_sim) (rule modes_cong, simp_all)
  then show ?thesis
    by (simp add: fun_eq_iff modes_def option.map_comp comp_def SetTile_def unit_Tile_def split_def)
qed

lemma modes_moveUnit [simp]: "modes d (moveUnit i t prev now s) = modes d (snd (MoveUnitTo i t s))"
proof (cases "MoveUnitTo i t s")
  case (Pair b s')
  then have "modes d s' = modes d (snd (MoveUnitTo i t s))" by simp
  with Pair show ?thesis by (simp add: moveUnit_def Let_def del: modes_MoveUnitTo split: prod.split)
qed

subsection \<open>The durable writes, unit by unit\<close>

lemma FlushPosition_sel [simp]:
  "dk_legs (FlushPosition i st t d) = dk_legs d" "dk_tasks (FlushPosition i st t d) = dk_tasks d"
  "dk_rows (FlushPosition i st t d) j =
     (if j = i then (case dk_rows d i of None \<Rightarrow> None | Some (old, p) \<Rightarrow> if old = StatusDead then Some (old, p) else Some (st, t))
      else dk_rows d j)"
  by (auto simp: FlushPosition_def split: option.split prod.split)

lemma disk_ops_sel [simp]:
  "dk_rows (DeleteTask i d) = dk_rows d" "dk_legs (DeleteTask i d) = dk_legs d"
  "dk_tasks (DeleteTask i d) = (dk_tasks d)(i := None)"
  "dk_rows (upsertTask t d) = dk_rows d" "dk_legs (upsertTask t d) = dk_legs d"
  "dk_tasks (upsertTask t d) = (dk_tasks d)(t_UnitID t \<mapsto> t)"
  "dk_rows (Start_movement m d) = dk_rows d" "dk_tasks (Start_movement m d) = dk_tasks d"
  "dk_legs (Start_movement m d) = (dk_legs d)(m_UnitID m \<mapsto> m)"
  "dk_rows (Finish_movement mid d) = dk_rows d" "dk_tasks (Finish_movement mid d) = dk_tasks d"
  "dk_legs (Finish_movement mid d) j = (if mid = 0 then dk_legs d j else drop_leg mid (dk_legs d j))"
  by (simp_all add: DeleteTask_def upsertTask_def Start_movement_def Finish_movement_def)

definition flush_row :: "unit_status \<Rightarrow> tile \<Rightarrow> (unit_status \<times> tile) option \<Rightarrow> (unit_status \<times> tile) option" where
  "flush_row st t r = (case r of None \<Rightarrow> None | Some (old, p) \<Rightarrow> if old = StatusDead then Some (old, p) else Some (st, t))"

lemma flush_row_alive [simp]: "old \<noteq> StatusDead \<Longrightarrow> flush_row st t (Some (old, p)) = Some (st, t)"
  by (simp add: flush_row_def)

lemma modes_submit_start [simp]:
  "modes d (submit_job n k (PersistMovementStart m origin) f s) =
     (modes d s)(m_UnitID m := (modes d s (m_UnitID m))\<lparr>md_row := flush_row StatusMoving origin (md_row (modes d s (m_UnitID m))),
        md_leg := Some (repaired m), md_job := None\<rparr>)"
  by (rule ext) (simp add: modes_def DiskMovementStart_def flush_row_def, simp add: submit_job_def)

text \<open>A closing removes the active movement with its id, of whatever unit.\<close>

definition close_leg :: "int64 \<Rightarrow> unit_mode \<Rightarrow> unit_mode" where
  "close_leg mid md = (if mid = 0 then md else md\<lparr>md_leg := drop_leg mid (md_leg md)\<rparr>)"

lemma modes_submitFinish [simp]:
  "modes d (submitFinish f u s) =
     (\<lambda>j. if j = mf_UnitID f \<and> j \<noteq> 0
          then (close_leg (mf_MovementID f) (modes d s j))\<lparr>md_row := flush_row StatusIdle (mf_At f) (md_row (modes d s j)), md_job := None\<rparr>
          else close_leg (mf_MovementID f) (modes d s j))"
  by (rule ext)
    (simp add: modes_def submitFinish_def DiskMovementFinish_def flush_row_def close_leg_def Let_def, simp add: submit_job_def)

lemma DiskTask_sel [simp]:
  "dk_rows (DiskTask w d) j =
     (if j = tw_UnitID w \<and> \<not> tw_KeepUnit w then flush_row (tw_Status w) (tw_At w) (dk_rows d j) else dk_rows d j)"
  "dk_legs (DiskTask w d) j =
     (let l = (case tw_Finish w of None \<Rightarrow> dk_legs d j
               | Some f \<Rightarrow> if mf_MovementID f = 0 then dk_legs d j else drop_leg (mf_MovementID f) (dk_legs d j))
      in case tw_Start w of None \<Rightarrow> l | Some m \<Rightarrow> if j = m_UnitID m then Some m else l)"
  "dk_tasks (DiskTask w d) j =
     (case tw_Task w of None \<Rightarrow> if j = tw_UnitID w then None else dk_tasks d j
      | Some t \<Rightarrow> if j = t_UnitID t then Some t else dk_tasks d j)"
  by (cases "tw_Finish w"; cases "tw_Start w"; cases "tw_Task w"; simp add: DiskTask_def flush_row_def Let_def)+

lemma DiskTask_load [simp]: "DiskTask (w\<lparr>tw_Load := l\<rparr>) d = DiskTask w d"
  by (simp add: DiskTask_def Let_def split: option.split)

lemma disk_of_pendingLoad: "disk_of d (s\<lparr>st_pendingLoad := l\<rparr>) = disk_of d s"
  by (rule disk_of_cong) simp

lemma submitTask_sel [simp]:
  "st_units (submitTask D w rv s) = st_units s" "st_movements (submitTask D w rv s) = st_movements s"
  "st_tasks (submitTask D w rv s) = st_tasks s" "st_garrisonedIn (submitTask D w rv s) = st_garrisonedIn s"
  "st_unitDirty (submitTask D w rv s) = st_unitDirty s" "st_entering (submitTask D w rv s) = st_entering s"
  "st_lastMovementID (submitTask D w rv s) = st_lastMovementID s" "sm_now (submitTask D w rv s) = sm_now s"
  by (simp_all add: submitTask_def submit_job_def split: option.split)

lemma modes_submitTask:
  assumes "dp_Economy D"
  shows "modes d (submitTask D w rv s) =
     (\<lambda>j. let md = (case tw_Finish w of None \<Rightarrow> modes d s j | Some f \<Rightarrow> close_leg (mf_MovementID f) (modes d s j));
              md = (case tw_Start w of None \<Rightarrow> md | Some m \<Rightarrow> if j = m_UnitID m then md\<lparr>md_leg := Some (repaired m)\<rparr> else md);
              md = (if j = tw_UnitID w \<and> \<not> tw_KeepUnit w then md\<lparr>md_row := flush_row (tw_Status w) (tw_At w) (md_row md)\<rparr> else md)
          in case tw_Task w of
               None \<Rightarrow> if j = tw_UnitID w then md\<lparr>md_job := None\<rparr> else md
             | Some t \<Rightarrow> if j = t_UnitID t then md\<lparr>md_job := Some t\<rparr> else md)"
proof -
  have "disk_of d (submitTask D w rv s) = DiskTask w (disk_of d s)"
    using assms by (simp add: submitTask_def disk_of_pendingLoad del: DiskTask_sel split: option.split)
  then show ?thesis
    by (cases "tw_Finish w"; cases "tw_Start w"; cases "tw_Task w")
      (simp_all add: fun_eq_iff modes_def close_leg_def Let_def)
qed

end
