(* ===== verification/Sim_Invariant.thy ===== *)
theory Sim_Invariant
  imports Unit_Modes
begin

section \<open>The invariant of the live world and its disk\<close>

text \<open>
  What every peaceful order, every phase of the tick other than combat and every flush keeps, for each
  unit: it is MOVING exactly while it has an active movement, it has a task exactly while it works or
  walks a leg of it, it is GARRISONED exactly while a city hosts it; and the disk, once the jobs
  submitted so far are written, has the same active movement (up to the repair of Hydrate) and the same task, and the same status and tile unless the
  unit is marked dirty or moving (a moving unit is where its polyline says). Proved here: the
  invariant of one unit under the operations on it, and that they leave the other units alone.
\<close>

subsection \<open>The invariant\<close>

text \<open>Fighting and claiming are not written in the row of the unit.\<close>

definition settled :: "unit_status \<Rightarrow> unit_status" where
  "settled st = (if st = StatusAttacking \<or> st = StatusClaiming then StatusIdle else st)"

definition task_ok :: "int64 \<Rightarrow> unit_status \<Rightarrow> gtask option \<Rightarrow> bool" where
  "task_ok i st k \<longleftrightarrow>
     (case k of
        None \<Rightarrow> st \<noteq> StatusWorking
      | Some t \<Rightarrow> t_UnitID t = i \<and>
          (IsLeg (t_Phase t) \<and> st = StatusMoving \<or> t_Phase t = PhaseWorking \<and> st = StatusWorking))"

text \<open>What the row of a unit says fits the other tables of the disk, even when the row is out of date.\<close>

definition row_fits :: "unit_mode \<Rightarrow> unit_status \<Rightarrow> bool" where
  "row_fits md old \<longleftrightarrow>
     old \<noteq> StatusDead \<and> settled old = old \<and> (old = StatusMoving \<longleftrightarrow> md_leg md \<noteq> None) \<and>
     (old = StatusWorking \<longleftrightarrow> (\<exists>t. md_job md = Some t \<and> t_Phase t = PhaseWorking)) \<and>
     (old = StatusGarrisoned \<longleftrightarrow> md_host md \<noteq> None)"

lemma row_fits_upd [simp]:
  "row_fits (md\<lparr>md_unit := u\<rparr>) old = row_fits md old" "row_fits (md\<lparr>md_dirty := b\<rparr>) old = row_fits md old"
  "row_fits (md\<lparr>md_entering := b\<rparr>) old = row_fits md old" "row_fits (md\<lparr>md_move := m\<rparr>) old = row_fits md old"
  "row_fits (md\<lparr>md_task := k\<rparr>) old = row_fits md old"
  by (simp_all add: row_fits_def)

definition row_ok :: "unit_mode \<Rightarrow> unit_status \<Rightarrow> tile \<Rightarrow> bool" where
  "row_ok md st t \<longleftrightarrow>
     (\<exists>old p. md_row md = Some (old, p) \<and> row_fits md old \<and>
       (\<not> md_dirty md \<and> st \<noteq> StatusMoving \<longrightarrow> old = settled st \<and> p = t))"

definition mode_ok :: "int64 \<Rightarrow> unit_mode \<Rightarrow> bool" where
  "mode_ok i md \<longleftrightarrow>
     (case md_unit md of
        None \<Rightarrow> md_move md = None \<and> md_task md = None \<and> md_leg md = None \<and> md_job md = None \<and> \<not> md_entering md \<and>
          (\<forall>st t. md_row md = Some (st, t) \<longrightarrow> st = StatusDead)
      | Some (st, t) \<Rightarrow>
          i \<noteq> 0 \<and> md_id md = Some i \<and> st \<noteq> StatusDead \<and>
          (st = StatusMoving \<longleftrightarrow> md_move md \<noteq> None) \<and> (\<forall>m. md_move md = Some m \<longrightarrow> m_UnitID m = i) \<and>
          task_ok i st (md_task md) \<and>
          (st = StatusGarrisoned \<longleftrightarrow> md_host md \<noteq> None) \<and>
          (md_entering md \<longrightarrow> st = StatusIdle \<or> st = StatusHidden) \<and>
          row_ok md st t \<and> md_leg md = md_move md \<and> md_job md = md_task md)"

text \<open>The ids of the active movements are distinct and below the next one.\<close>

definition legs :: "(int64 \<Rightarrow> unit_mode) \<Rightarrow> int64 \<rightharpoonup> movement" where
  "legs M = (\<lambda>i. md_leg (M i))"

definition legs_ok :: "(int64 \<rightharpoonup> movement) \<Rightarrow> int64 \<Rightarrow> bool" where
  "legs_ok L hi \<longleftrightarrow>
     (\<forall>i m. L i = Some m \<longrightarrow> 0 < m_ID m \<and> m_ID m \<le> hi) \<and>
     (\<forall>i j m n. L i = Some m \<longrightarrow> L j = Some n \<longrightarrow> m_ID m = m_ID n \<longrightarrow> i = j)"

definition sim_ok :: "disk \<Rightarrow> sim \<Rightarrow> bool" where
  "sim_ok d s \<longleftrightarrow>
     (\<forall>i. mode_ok i (modes d s i)) \<and> legs_ok (legs (modes d s)) (st_lastMovementID s) \<and> 0 \<le> st_lastMovementID s"

text \<open>
  A unit in the middle of an order: the others are as they should, its active movement is over in
  memory, and the disk still has the one that the closing to come names, or none.
\<close>

definition mid_order :: "int64 \<Rightarrow> finish option \<Rightarrow> disk \<Rightarrow> sim \<Rightarrow> bool" where
  "mid_order i fin d s \<longleftrightarrow>
     (\<forall>j. j \<noteq> i \<longrightarrow> mode_ok j (modes d s j)) \<and> legs_ok (legs (modes d s)) (st_lastMovementID s) \<and> 0 \<le> st_lastMovementID s \<and>
     i \<noteq> 0 \<and> md_id (modes d s i) = Some i \<and>
     (\<exists>st t. md_unit (modes d s i) = Some (st, t) \<and> st \<noteq> StatusDead \<and> st \<noteq> StatusGarrisoned) \<and>
     md_move (modes d s i) = None \<and> md_host (modes d s i) = None \<and> \<not> md_entering (modes d s i) \<and>
     (\<exists>old p. md_row (modes d s i) = Some (old, p) \<and> old \<noteq> StatusDead) \<and>
     (case fin of
        None \<Rightarrow> md_leg (modes d s i) = None
      | Some f \<Rightarrow> mf_MovementID f \<noteq> 0 \<and> (\<exists>m. md_leg (modes d s i) = Some m \<and> m_ID m = mf_MovementID f))"

definition same_elsewhere :: "int64 \<Rightarrow> disk \<Rightarrow> sim \<Rightarrow> sim \<Rightarrow> bool" where
  "same_elsewhere i d s s' \<longleftrightarrow> (\<forall>j. j \<noteq> i \<longrightarrow> modes d s' j = modes d s j)"

definition few_ids :: "int \<Rightarrow> sim \<Rightarrow> sim \<Rightarrow> bool" where
  "few_ids k s s' \<longleftrightarrow> st_lastMovementID s \<le> st_lastMovementID s' \<and> st_lastMovementID s' \<le> st_lastMovementID s + k"

lemma legs_upd [simp]: "legs (M(i := md)) = (legs M)(i := md_leg md)"
  by (rule ext) (simp add: legs_def)

lemma legs_okD:
  assumes "legs_ok L hi"
  shows "L i = Some m \<Longrightarrow> 0 < m_ID m" "L i = Some m \<Longrightarrow> m_ID m \<le> hi"
    "L i = Some m \<Longrightarrow> L j = Some n \<Longrightarrow> m_ID m = m_ID n \<Longrightarrow> i = j"
  using assms unfolding legs_ok_def by blast+

lemma close_leg_other:
  assumes "legs_ok (legs M) hi" "md_leg (M i) = Some m" "j \<noteq> i"
  shows "close_leg (m_ID m) (M j) = M j"
proof (cases "md_leg (M j)")
  case (Some n)
  with legs_okD(3)[OF assms(1), of i m j n] assms(2,3) have "m_ID n \<noteq> m_ID m" by (auto simp: legs_def)
  with Some show ?thesis by (simp add: close_leg_def drop_leg_def)
qed (simp add: close_leg_def drop_leg_def)

lemma close_leg_0 [simp]: "close_leg 0 md = md"
  by (simp add: close_leg_def)

lemma close_leg_sel [simp]:
  "md_unit (close_leg k md) = md_unit md" "md_move (close_leg k md) = md_move md" "md_task (close_leg k md) = md_task md"
  "md_host (close_leg k md) = md_host md" "md_dirty (close_leg k md) = md_dirty md" "md_id (close_leg k md) = md_id md"
  "md_entering (close_leg k md) = md_entering md" "md_row (close_leg k md) = md_row md" "md_job (close_leg k md) = md_job md"
  by (simp_all add: close_leg_def)

lemma close_leg_own: "md_leg md = Some m \<Longrightarrow> m_ID m \<noteq> 0 \<Longrightarrow> md_leg (close_leg (m_ID m) md) = None"
  by (simp add: close_leg_def drop_leg_def)

lemma close_leg_none: "md_leg md = None \<Longrightarrow> close_leg k md = md"
  by (simp add: close_leg_def drop_leg_def)

lemma legs_ok_none: "legs_ok L hi \<Longrightarrow> legs_ok (L(i := None)) hi"
  unfolding legs_ok_def by (metis fun_upd_apply option.distinct(1))

lemma legs_ok_new:
  assumes "legs_ok L hi" "m_ID m = hi + 1" "0 \<le> hi"
  shows "legs_ok (L(i \<mapsto> m)) (hi + 1)"
proof -
  have old: "L j = Some n \<Longrightarrow> 0 < m_ID n \<and> m_ID n < hi + 1" for j n
    using legs_okD(1,2)[OF assms(1), of j n] by auto
  have "0 < m_ID n \<and> m_ID n \<le> hi + 1" if "(L(i \<mapsto> m)) j = Some n" for j n
    using that assms(2,3) old[of j n] by (cases "j = i") auto
  moreover have "j = k" if jk: "(L(i \<mapsto> m)) j = Some n" "(L(i \<mapsto> m)) k = Some n'" and eq: "m_ID n = m_ID n'" for j k n n'
  proof (cases "j = i")
    case True
    with jk(1) have "n = m" by simp
    show ?thesis
    proof (rule ccontr)
      assume "j \<noteq> k"
      with True jk(2) have "L k = Some n'" by simp
      from old[OF this] eq \<open>n = m\<close> assms(2) show False by simp
    qed
  next
    case False
    with jk(1) have j: "L j = Some n" by simp
    have "k \<noteq> i"
    proof
      assume "k = i"
      with jk(2) have "n' = m" by simp
      with old[OF j] eq assms(2) show False by simp
    qed
    with jk(2) have "L k = Some n'" by simp
    from legs_okD(3)[OF assms(1) j this eq] show ?thesis .
  qed
  ultimately show ?thesis unfolding legs_ok_def by blast
qed

subsection \<open>Operations that change neither the units nor what is written of them\<close>

lemma sim_okD: "sim_ok d s \<Longrightarrow> mode_ok i (modes d s i)" "sim_ok d s \<Longrightarrow> legs_ok (legs (modes d s)) (st_lastMovementID s)"
  "sim_ok d s \<Longrightarrow> 0 \<le> st_lastMovementID s"
  by (simp_all add: sim_ok_def)

lemma sim_ok_same: "sim_ok d s \<Longrightarrow> modes d s' = modes d s \<Longrightarrow> st_lastMovementID s' = st_lastMovementID s \<Longrightarrow> sim_ok d s'"
  by (simp add: sim_ok_def)

lemma mid_order_same:
  "mid_order i fin d s \<Longrightarrow> modes d s' = modes d s \<Longrightarrow> st_lastMovementID s' = st_lastMovementID s \<Longrightarrow> mid_order i fin d s'"
  by (cases fin) (simp_all add: mid_order_def)

lemma sim_ok_at:
  assumes "sim_ok d s" "modes d s' = (modes d s)(i := md)" "mode_ok i md"
    and "md_leg md = None \<or> md_leg md = md_leg (modes d s i)" "st_lastMovementID s' = st_lastMovementID s"
  shows "sim_ok d s'"
proof -
  have "legs_ok ((legs (modes d s))(i := md_leg md)) (st_lastMovementID s)"
    using assms(4) sim_okD(2)[OF assms(1)] legs_ok_none by (auto simp: legs_def fun_upd_idem)
  with assms(1-3,5) show ?thesis by (simp add: sim_ok_def)
qed

lemma last_id [simp]:
  "st_lastMovementID (send m s) = st_lastMovementID s" "st_lastMovementID (submit_job n k w onf s) = st_lastMovementID s"
  "st_lastMovementID (MarkDirty i s) = st_lastMovementID s" "st_lastMovementID (keepDirty i s) = st_lastMovementID s"
  "st_lastMovementID (set_status i st s) = st_lastMovementID s" "st_lastMovementID (ClearMovement i s) = st_lastMovementID s"
  "st_lastMovementID (SetMovement mv s) = st_lastMovementID s" "st_lastMovementID (to_chunk_of x y c s) = st_lastMovementID s"
  "st_lastMovementID (to_others_of x y p c s) = st_lastMovementID s" "st_lastMovementID (broadcastStatus i s) = st_lastMovementID s"
  "st_lastMovementID (snd (setTask t s)) = st_lastMovementID s" "st_lastMovementID (submitFinish f u s) = st_lastMovementID s"
  by (simp_all add: send_def submit_job_def MarkDirty_def keepDirty_def set_status_def ClearMovement_def SetMovement_def
      to_chunk_of_def to_others_of_def broadcastStatus_def setTask_def submitFinish_def Let_def split: prod.split)

lemma last_id_dropTask [simp]: "st_lastMovementID (dropTask i s) = st_lastMovementID s"
  by (simp add: dropTask_def Let_def split: option.split)

lemma last_id_MoveUnitTo [simp]: "st_lastMovementID (snd (MoveUnitTo i t s)) = st_lastMovementID s"
  by (subst MoveUnitTo_sim) simp

lemma last_id_moveUnit [simp]: "st_lastMovementID (moveUnit i t prev now s) = st_lastMovementID s"
proof (cases "MoveUnitTo i t s")
  case (Pair b s')
  then have "st_lastMovementID s' = st_lastMovementID s" using last_id_MoveUnitTo[of i t s] by simp
  with Pair show ?thesis by (simp add: moveUnit_def Let_def split: prod.split)
qed

subsection \<open>Reading a unit\<close>

lemma unit_at_mode:
  assumes "md_unit (modes d s i) = Some (st, t)"
  shows "has_key (st_units s) i" "u_Status (unit_at s i) = st" "unit_Tile (unit_at s i) = t"
  using assms by (auto simp: modes_def has_key_def unit_at_def)

lemma mode_fields:
  "md_move (modes d s i) = map_option repaired (map_of (st_movements s) i)" "md_task (modes d s i) = map_option te_Task (map_of (st_tasks s) i)"
  "md_host (modes d s i) = map_of (st_garrisonedIn s) i" "md_entering (modes d s i) = has_key (st_entering s) i"
  "md_id (modes d s i) = map_option u_ID (map_of (st_units s) i)"
  by (simp_all add: modes_def)

lemma unit_Some_mode: "map_of (st_units s) i = Some u \<Longrightarrow> md_unit (modes d s i) = Some (u_Status u, unit_Tile u)"
  by (simp add: modes_def)

lemma mode_okD:
  assumes "mode_ok i md" "md_unit md = Some (st, t)"
  shows "i \<noteq> 0" "md_id md = Some i" "st \<noteq> StatusDead" "st = StatusMoving \<longleftrightarrow> md_move md \<noteq> None"
    "md_move md = Some m \<Longrightarrow> m_UnitID m = i" "task_ok i st (md_task md)" "st = StatusGarrisoned \<longleftrightarrow> md_host md \<noteq> None"
    "md_entering md \<Longrightarrow> st = StatusIdle \<or> st = StatusHidden" "row_ok md st t" "md_leg md = md_move md" "md_job md = md_task md"
  using assms unfolding mode_ok_def by auto

lemma mode_ok_row: "mode_ok i md \<Longrightarrow> md_unit md = Some (st, t) \<Longrightarrow> \<exists>old p. md_row md = Some (old, p) \<and> old \<noteq> StatusDead"
  by (drule mode_okD(9), assumption) (auto simp: row_ok_def row_fits_def settled_def)

subsection \<open>Stopping\<close>

lemma cancel_none: "map_of (st_movements s) i = None \<Longrightarrow> cancelActiveMovement i r now s = s"
  by (simp add: cancelActiveMovement_def)

lemma cancel_modes:
  assumes legs: "legs_ok (legs (modes d s)) hi" and i: "i \<noteq> 0"
    and m: "md_move (modes d s i) = Some m" "md_leg (modes d s i) = Some m"
    and u: "md_unit (modes d s i) = Some (st, t)"
  shows "modes d (cancelActiveMovement i r now s) = (modes d s)(i := (modes d s i)
     \<lparr>md_unit := Some (StatusIdle, movement_PositionAt m now), md_move := None, md_task := None, md_dirty := True,
      md_row := flush_row StatusIdle (movement_PositionAt m now) (md_row (modes d s i)), md_leg := None, md_job := None\<rparr>)"
    and "st_lastMovementID (cancelActiveMovement i r now s) = st_lastMovementID s"
proof -
  obtain m0 where e: "map_of (st_movements s) i = Some m0" and m0: "m = repaired m0" using m(1) by (auto simp: mode_fields)
  have same: "m_ID m0 = m_ID m" "movement_PositionAt m0 = movement_PositionAt m" by (simp_all add: m0)
  have id: "0 < m_ID m" using legs_okD(1)[OF legs, of i m] m(2) by (simp add: legs_def)
  have other: "j \<noteq> i \<Longrightarrow> close_leg (m_ID m) (modes d s j) = modes d s j" for j
    by (rule close_leg_other[OF legs m(2)])
  show "modes d (cancelActiveMovement i r now s) = (modes d s)(i := (modes d s i)
     \<lparr>md_unit := Some (StatusIdle, movement_PositionAt m now), md_move := None, md_task := None, md_dirty := True,
      md_row := flush_row StatusIdle (movement_PositionAt m now) (md_row (modes d s i)), md_leg := None, md_job := None\<rparr>)"
    using id i other m u
    by (intro ext) (simp add: cancelActiveMovement_def e same Let_def close_leg_def drop_leg_def)
  show "st_lastMovementID (cancelActiveMovement i r now s) = st_lastMovementID s"
    by (simp add: cancelActiveMovement_def e Let_def)
qed

text \<open>What an order on one unit keeps, and how many movement ids it takes.\<close>

definition order_step :: "disk \<Rightarrow> int64 \<Rightarrow> int \<Rightarrow> sim \<Rightarrow> sim \<Rightarrow> bool" where
  "order_step d i k s s' \<longleftrightarrow> sim_ok d s' \<and> few_ids k s s' \<and> same_elsewhere i d s s'"

lemma order_step_same:
  "sim_ok d s \<Longrightarrow> 0 \<le> k \<Longrightarrow> modes d s' = modes d s \<Longrightarrow> st_lastMovementID s' = st_lastMovementID s \<Longrightarrow> order_step d i k s s'"
  by (simp add: order_step_def sim_ok_same few_ids_def same_elsewhere_def)

lemma order_step_trans:
  "order_step d i k s s1 \<Longrightarrow> order_step d i k' s1 s2 \<Longrightarrow> order_step d i (k + k') s s2"
  by (auto simp: order_step_def few_ids_def same_elsewhere_def)

lemma order_step_mono: "order_step d i k s s' \<Longrightarrow> k \<le> k' \<Longrightarrow> order_step d i k' s s'"
  by (auto simp: order_step_def few_ids_def)

text \<open>The unit no longer moves and keeps the rest of its state.\<close>

definition halted :: "disk \<Rightarrow> int64 \<Rightarrow> sim \<Rightarrow> sim \<Rightarrow> bool" where
  "halted d i s s' \<longleftrightarrow>
     (\<exists>st t t'. md_unit (modes d s i) = Some (st, t) \<and>
       md_unit (modes d s' i) = Some (if st = StatusMoving then StatusIdle else st, t')) \<and>
     md_host (modes d s' i) = md_host (modes d s i) \<and> md_entering (modes d s' i) = md_entering (modes d s i) \<and>
     md_move (modes d s' i) = None"

lemma cancel_ok:
  assumes ok: "sim_ok d s" and u: "md_unit (modes d s i) = Some (st, t)"
  shows "order_step d i 0 s (cancelActiveMovement i r now s)" "halted d i s (cancelActiveMovement i r now s)"
proof -
  note md = mode_okD[OF sim_okD(1)[OF ok, of i] u]
  obtain old p where row: "md_row (modes d s i) = Some (old, p)" "old \<noteq> StatusDead"
    using mode_ok_row[OF sim_okD(1)[OF ok, of i] u] by blast
  have "order_step d i 0 s (cancelActiveMovement i r now s) \<and> halted d i s (cancelActiveMovement i r now s)"
  proof (cases "md_move (modes d s i)")
    case None
    then have "cancelActiveMovement i r now s = s" by (simp add: cancel_none mode_fields)
    with ok u None md(4) show ?thesis by (simp add: order_step_same halted_def)
  next
    case (Some m)
    then have st: "st = StatusMoving" and leg: "md_leg (modes d s i) = Some m" using md(4,10) by simp_all
    note c = cancel_modes[OF sim_okD(2)[OF ok] md(1) Some leg u, of r now]
    have "mode_ok i (modes d (cancelActiveMovement i r now s) i)"
      using md row st by (auto simp: c(1) mode_ok_def task_ok_def row_ok_def row_fits_def settled_def)
    with ok c have "sim_ok d (cancelActiveMovement i r now s)"
      by (intro sim_ok_at[OF ok c(1)]) simp_all
    with c u st show ?thesis by (simp add: order_step_def few_ids_def same_elsewhere_def halted_def)
  qed
  then show "order_step d i 0 s (cancelActiveMovement i r now s)" "halted d i s (cancelActiveMovement i r now s)"
    by blast+
qed

text \<open>A new order drops the task and the movement: the unit is ready for what follows.\<close>

lemma halt_mid:
  assumes ok: "sim_ok d s" and u: "md_unit (modes d s i) = Some (st, t)"
    and free: "st \<noteq> StatusGarrisoned" "\<not> md_entering (modes d s i)"
  shows "mid_order i None d (cancelActiveMovement i r now (dropTask i s))"
    "st_lastMovementID (cancelActiveMovement i r now (dropTask i s)) = st_lastMovementID s"
    "same_elsewhere i d s (cancelActiveMovement i r now (dropTask i s))"
    "md_task (modes d (cancelActiveMovement i r now (dropTask i s)) i) = None"
proof -
  let ?s = "dropTask i s"
  note md = mode_okD[OF sim_okD(1)[OF ok, of i] u]
  obtain old p where row: "md_row (modes d s i) = Some (old, p)" "old \<noteq> StatusDead"
    using mode_ok_row[OF sim_okD(1)[OF ok, of i] u] by blast
  have legs: "legs (modes d ?s) = legs (modes d s)" by (rule ext) (simp add: legs_def)
  note lok = sim_okD(2)[OF ok, folded legs]
  have oth: "j \<noteq> i \<Longrightarrow> mode_ok j (modes d s j)" for j by (rule sim_okD(1)[OF ok])
  have "mid_order i None d (cancelActiveMovement i r now ?s) \<and>
    st_lastMovementID (cancelActiveMovement i r now ?s) = st_lastMovementID s \<and>
    same_elsewhere i d s (cancelActiveMovement i r now ?s) \<and> md_task (modes d (cancelActiveMovement i r now ?s) i) = None"
  proof (cases "md_move (modes d s i)")
    case None
    then have "map_of (st_movements ?s) i = None" using mode_fields(1)[of d ?s i] by simp
    then have e: "cancelActiveMovement i r now ?s = ?s" by (rule cancel_none)
    show ?thesis unfolding e
      using md row free oth None u lok sim_okD(3)[OF ok] by (auto simp: mid_order_def same_elsewhere_def)
  next
    case (Some m)
    have p: "md_move (modes d ?s i) = Some m" "md_leg (modes d ?s i) = Some m" "md_unit (modes d ?s i) = Some (st, t)"
      using md(10) Some u by simp_all
    note c = cancel_modes[OF lok md(1) p, of r now]
    have "legs_ok ((legs (modes d s))(i := None)) (st_lastMovementID s)" by (rule legs_ok_none[OF sim_okD(2)[OF ok]])
    with c md row free oth sim_okD(3)[OF ok] show ?thesis
      by (auto simp: mid_order_def same_elsewhere_def)
  qed
  then show "mid_order i None d (cancelActiveMovement i r now ?s)"
    "st_lastMovementID (cancelActiveMovement i r now ?s) = st_lastMovementID s"
    "same_elsewhere i d s (cancelActiveMovement i r now ?s)"
    "md_task (modes d (cancelActiveMovement i r now ?s) i) = None" by blast+
qed

subsection \<open>Setting off\<close>

definition id_room :: "int \<Rightarrow> sim \<Rightarrow> bool" where
  "id_room k s \<longleftrightarrow> st_lastMovementID s + k \<le> 9223372036854775807"

lemma NewMovementID_room:
  assumes "id_room 1 s" "0 \<le> st_lastMovementID s"
  shows "NewMovementID s = (st_lastMovementID s + 1, s\<lparr>st_lastMovementID := st_lastMovementID s + 1\<rparr>)"
  using assms by (simp add: NewMovementID_def Let_def id_room_def i64_id is_i64_def)

lemma modes_last [simp]: "modes d (s\<lparr>st_lastMovementID := n\<rparr>) = modes d s"
  by (rule modes_cong) simp_all

lemma mid_orderD:
  assumes "mid_order i fin d s"
  shows "j \<noteq> i \<Longrightarrow> mode_ok j (modes d s j)" "legs_ok (legs (modes d s)) (st_lastMovementID s)" "0 \<le> st_lastMovementID s"
    "i \<noteq> 0" "md_id (modes d s i) = Some i" "md_move (modes d s i) = None" "md_host (modes d s i) = None"
    "\<not> md_entering (modes d s i)"
  using assms by (simp_all add: mid_order_def)

text \<open>The end of an order: the new mode of the unit, with a new active movement or none.\<close>

lemma mid_order_end:
  assumes mid: "mid_order i fin d s" and e: "\<And>j. j \<noteq> i \<Longrightarrow> modes d s' j = modes d s j" and ok: "mode_ok i (modes d s' i)"
    and leg: "md_leg (modes d s' i) = None \<and> st_lastMovementID s' = st_lastMovementID s \<or>
      (\<exists>m. md_leg (modes d s' i) = Some m \<and> m_ID m = st_lastMovementID s + 1 \<and> st_lastMovementID s' = st_lastMovementID s + 1)"
  shows "order_step d i 1 s s'"
proof -
  have "legs (modes d s') = (legs (modes d s))(i := md_leg (modes d s' i))"
    using e by (intro ext) (simp add: legs_def)
  then have "legs_ok (legs (modes d s')) (st_lastMovementID s')"
    using leg legs_ok_none[OF mid_orderD(2)[OF mid]] legs_ok_new[OF mid_orderD(2)[OF mid] _ mid_orderD(3)[OF mid]] by auto
  moreover have "mode_ok j (modes d s' j)" for j using e[of j] ok mid_orderD(1)[OF mid, of j] by (cases "j = i") auto
  ultimately show ?thesis
    using leg e mid_orderD(3)[OF mid] by (auto simp: order_step_def sim_ok_def few_ids_def same_elsewhere_def)
qed

lemma begin_ok:
  assumes ok: "sim_ok d s" and u: "md_unit (modes d s i) = Some (st, t)"
    and free: "st \<noteq> StatusGarrisoned" "\<not> md_entering (modes d s i)" and room: "id_room 1 s"
  shows "order_step d i 1 s (snd (beginMovement i origin target path now acc s))"
proof -
  let ?s = "cancelActiveMovement i ReasonReplaced now (dropTask i s)"
  let ?s' = "snd (beginMovement i origin target path now acc s)"
  note h = halt_mid[OF ok u free, of ReasonReplaced now]
  define m where "m = (New_movement i path target now)\<lparr>m_ID := st_lastMovementID s + 1\<rparr>"
  have mu: "m_UnitID m = i" "m_ID m = st_lastMovementID s + 1" by (simp_all add: m_def New_movement_def)
  have room': "id_room 1 ?s" using room h(2) by (simp add: id_room_def)
  obtain st' t' where u': "md_unit (modes d ?s i) = Some (st', t')" using h(1) by (auto simp: mid_order_def)
  obtain old p where row: "md_row (modes d ?s i) = Some (old, p)" "old \<noteq> StatusDead" using h(1) by (auto simp: mid_order_def)
  have M: "modes d ?s' = (modes d ?s)(i := (modes d ?s i)\<lparr>md_unit := Some (StatusMoving, t'), md_move := Some (repaired m), md_dirty := True,
      md_row := Some (StatusMoving, origin), md_leg := Some (repaired m), md_job := None\<rparr>)"
    and last': "st_lastMovementID ?s' = st_lastMovementID s + 1"
    using h(2) mu row u'
    by (simp_all add: beginMovement_def Let_def NewMovementID_room[OF room' mid_orderD(3)[OF h(1)]] m_def[symmetric] fun_eq_iff
        split: option.split)
  have "order_step d i 1 ?s ?s'"
    using M mu last' h(2,4) mid_orderD(4-8)[OF h(1)]
    by (intro mid_order_end[OF h(1)]) (auto simp: mode_ok_def task_ok_def row_ok_def row_fits_def settled_def)
  then show ?thesis using h(2,3) by (simp add: order_step_def few_ids_def same_elsewhere_def)
qed

end
