(* ===== verification/Order_Invariant.thy ===== *)
theory Order_Invariant
  imports Sim_Invariant
begin

section \<open>The orders keep the invariant\<close>

text \<open>
  The orders of simulation.go, gather.go and garrison.go and the transitions of a gathering task
  keep the invariant of Sim_Invariant and leave the other units alone, whatever they answer. A
  handler takes at most one movement id. And the mutual recursion of the arrivals of a task ends
  within the fuel it is given.
\<close>

subsection \<open>Standing units\<close>

lemma order_step_refl: "sim_ok d s \<Longrightarrow> order_step d i 0 s s"
  by (rule order_step_same) simp_all

lemma order_step_ok: "order_step d i k s s' \<Longrightarrow> sim_ok d s'"
  by (simp add: order_step_def)

lemma order_step_0_trans: "order_step d i 0 s s1 \<Longrightarrow> order_step d i k s1 s2 \<Longrightarrow> order_step d i k s s2"
  using order_step_trans[of d i 0 s s1 k s2] by simp

lemma order_step_cong:
  assumes "order_step d i k s s1" "modes d s2 = modes d s1" "st_lastMovementID s2 = st_lastMovementID s1"
  shows "order_step d i k s s2"
  using assms by (simp add: order_step_def sim_ok_def few_ids_def same_elsewhere_def)

lemma order_step_from:
  assumes "order_step d i k s1 s2" "modes d s1 = modes d s" "st_lastMovementID s1 = st_lastMovementID s"
  shows "order_step d i k s s2"
  using assms by (simp add: order_step_def few_ids_def same_elsewhere_def)

lemma order_step_mode:
  assumes "sim_ok d s" "modes d s' = (modes d s)(i := md)" "mode_ok i md"
    "md_leg md = md_leg (modes d s i)" "st_lastMovementID s' = st_lastMovementID s"
  shows "order_step d i 0 s s'"
  using sim_ok_at[OF assms(1-3) disjI2[OF assms(4)] assms(5)] assms
  by (simp add: order_step_def few_ids_def same_elsewhere_def)

lemma status_none: "md_unit (modes d s i) = None \<Longrightarrow> unit_at s i = zero_unit"
  by (simp add: modes_def unit_at_def)

lemma absent_status [simp]: "u_Status zero_unit = StatusOther ''''" "u_Type zero_unit = ''''"
  by (simp_all add: zero_unit_def)

lemma status_cases:
  assumes "u_Status (unit_at s i) = st" "st \<noteq> StatusOther ''''"
  obtains t where "md_unit (modes d s i) = Some (st, t)" "unit_Tile (unit_at s i) = t"
  using assms by (cases "map_of (st_units s) i") (auto simp: unit_at_def modes_def zero_unit_def)

text \<open>A unit that stands still gets another status in which it stands still.\<close>

lemma rest_ok:
  assumes ok: "sim_ok d s" and u: "md_unit (modes d s i) = Some (st, t)"
    and st: "st \<notin> {StatusMoving, StatusWorking, StatusGarrisoned}" and st': "st' = StatusIdle \<or> st' = StatusHidden"
  shows "order_step d i 0 s (MarkDirty i (set_status i st' s))"
proof -
  note md = mode_okD[OF sim_okD(1)[OF ok, of i] u]
  have t: "md_task (modes d s i) = None" using md(6) st by (auto simp: task_ok_def split: option.splits)
  obtain old p where row: "md_row (modes d s i) = Some (old, p)" "old \<noteq> StatusDead"
    using mode_ok_row[OF sim_okD(1)[OF ok, of i] u] by blast
  let ?md = "(modes d s i)\<lparr>md_unit := Some (st', t), md_dirty := True\<rparr>"
  have "modes d (MarkDirty i (set_status i st' s)) = (modes d s)(i := ?md)" using u by (simp add: fun_eq_iff)
  moreover have "mode_ok i ?md" using md st st' t row by (auto simp: mode_ok_def task_ok_def row_ok_def row_fits_def settled_def)
  ultimately show ?thesis by (rule order_step_mode[OF ok]) simp_all
qed

lemma stopWorking_ok: "sim_ok d s \<Longrightarrow> order_step d i 0 s (stopWorking i s)"
proof (cases "u_Status (unit_at s i) = StatusWorking")
  case False
  then show "sim_ok d s \<Longrightarrow> ?thesis" by (simp add: stopWorking_def order_step_refl)
next
  case True
  assume ok: "sim_ok d s"
  from True obtain t where u: "md_unit (modes d s i) = Some (StatusWorking, t)" using status_cases by blast
  note md = mode_okD[OF sim_okD(1)[OF ok, of i] u]
  obtain old p where row: "md_row (modes d s i) = Some (old, p)" "old \<noteq> StatusDead"
    using mode_ok_row[OF sim_okD(1)[OF ok, of i] u] by blast
  let ?s = "MarkDirty i (set_status i StatusIdle (dropTask i s))"
  have tile: "unit_Tile (unit_at ?s i) = t" by (rule unit_at_mode(3)[of d _ _ StatusIdle]) (simp add: u)
  let ?md = "(modes d s i)\<lparr>md_unit := Some (StatusIdle, t), md_task := None, md_dirty := True,
    md_row := Some (StatusIdle, t), md_job := None\<rparr>"
  have "modes d (stopWorking i s) = (modes d s)(i := ?md)"
    using True u row md(1) tile by (simp add: stopWorking_def Let_def fun_eq_iff)
  moreover have "mode_ok i ?md" using md by (auto simp: mode_ok_def task_ok_def row_ok_def row_fits_def settled_def)
  ultimately show ?thesis
    by (rule order_step_mode[OF ok]) (use True in \<open>simp_all add: stopWorking_def Let_def\<close>)
qed

lemma cancel_step: "sim_ok d s \<Longrightarrow> order_step d i 0 s (cancelActiveMovement i r now s)"
proof (cases "md_unit (modes d s i)")
  case None
  assume ok: "sim_ok d s"
  with None sim_okD(1)[OF ok, of i] have "md_move (modes d s i) = None" by (simp add: mode_ok_def)
  then have "cancelActiveMovement i r now s = s" by (simp add: cancel_none mode_fields)
  with ok show ?thesis by (simp add: order_step_refl)
next
  case (Some p)
  assume ok: "sim_ok d s"
  with Some show ?thesis by (cases p) (simp add: cancel_ok(1))
qed

lemma abandonClaim_ok: "sim_ok d s \<Longrightarrow> order_step d i 0 s (abandonClaim i s)"
proof (cases "u_Status (unit_at s i) = StatusClaiming")
  case False
  then show "sim_ok d s \<Longrightarrow> ?thesis" by (simp add: abandonClaim_def order_step_refl)
next
  case True
  assume ok: "sim_ok d s"
  from True obtain t where "md_unit (modes d s i) = Some (StatusClaiming, t)" using status_cases by blast
  from rest_ok[OF ok this, of StatusIdle] True show ?thesis
    by (simp add: abandonClaim_def order_step_cong)
qed

lemma modes_engagements [simp]: "modes d (s\<lparr>st_engagements := e\<rparr>) = modes d s"
  by (rule modes_cong) simp_all

text \<open>An order of the player ends the engagement without walking back to the post.\<close>

lemma endEngagement_ok:
  assumes ok: "sim_ok d s" and e: "\<And>e. map_of (st_engagements s) i = Some e \<Longrightarrow> stop \<Longrightarrow> \<not> en_auto e"
  shows "order_step d i 0 s (endEngagement D i stop s)"
proof (cases "map_of (st_engagements s) i")
  case None
  with ok show ?thesis by (simp add: endEngagement_def order_step_refl)
next
  case (Some en)
  let ?s = "s\<lparr>st_engagements := del_key i (st_engagements s)\<rparr>"
  have r: "order_step d i 0 s ?s" using ok by (simp add: order_step_same)
  show ?thesis
  proof (cases stop)
    case False
    with Some r show ?thesis by (simp add: endEngagement_def Let_def)
  next
    case True
    define c where "c = (if has_key (st_movements ?s) i then cancelActiveMovement i ReasonServer (NowMs ?s) ?s else ?s)"
    have c: "order_step d i 0 ?s c"
      using cancel_step[OF order_step_ok[OF r]] order_step_refl[OF order_step_ok[OF r]] by (simp add: c_def)
    have b: "order_step d i 0 c (broadcastStatus i (MarkDirty i (set_status i StatusIdle c)))"
      if "u_Status (unit_at c i) = StatusAttacking"
    proof -
      from that obtain t where "md_unit (modes d c i) = Some (StatusAttacking, t)"
        by (rule status_cases[where d = d and s = c]) simp_all
      from order_step_cong[OF rest_ok[OF order_step_ok[OF c] this, of StatusIdle]] show ?thesis by simp
    qed
    have end_eq: "endEngagement D i stop s =
        (if u_Status (unit_at c i) = StatusAttacking then broadcastStatus i (MarkDirty i (set_status i StatusIdle c)) else c)"
      unfolding endEngagement_def Some option.case Let_def c_def
      by (simp only: True not_True_eq_False if_False e[OF Some True] simp_thms)
    show ?thesis
    proof (cases "u_Status (unit_at c i) = StatusAttacking")
      case True
      show ?thesis unfolding end_eq if_P[OF True] by (rule order_step_0_trans[OF r order_step_0_trans[OF c b[OF True]]])
    next
      case False
      show ?thesis unfolding end_eq if_not_P[OF False] by (rule order_step_0_trans[OF r c])
    qed
  qed
qed

lemma stopEngagementByPlayer_ok: "sim_ok d s \<Longrightarrow> order_step d i 0 s (stopEngagementByPlayer D i s)"
  unfolding stopEngagementByPlayer_def
  by (rule order_step_from[OF endEngagement_ok]) (auto simp: sim_ok_same split: option.splits)

subsection \<open>The end of a transition of a task\<close>

text \<open>The closing that a transition carries removes the leg of its own unit and no other.\<close>

definition closed :: "finish option \<Rightarrow> unit_mode \<Rightarrow> unit_mode" where
  "closed fin md = (case fin of None \<Rightarrow> md | Some f \<Rightarrow> close_leg (mf_MovementID f) md)"

lemma closed_sel [simp]:
  "md_unit (closed f md) = md_unit md" "md_move (closed f md) = md_move md" "md_task (closed f md) = md_task md"
  "md_host (closed f md) = md_host md" "md_dirty (closed f md) = md_dirty md" "md_id (closed f md) = md_id md"
  "md_entering (closed f md) = md_entering md" "md_row (closed f md) = md_row md" "md_job (closed f md) = md_job md"
  by (simp_all add: closed_def split: option.split)

lemma mid_closed:
  assumes "mid_order i fin d s"
  shows "j \<noteq> i \<Longrightarrow> closed fin (modes d s j) = modes d s j" "md_leg (closed fin (modes d s i)) = None"
proof -
  note legs = mid_orderD(2)[OF assms]
  have "(\<forall>j. j \<noteq> i \<longrightarrow> closed fin (modes d s j) = modes d s j) \<and> md_leg (closed fin (modes d s i)) = None"
  proof (cases fin)
    case None
    with assms show ?thesis by (simp add: closed_def mid_order_def)
  next
    case (Some f)
    with assms obtain m where m: "md_leg (modes d s i) = Some m" "m_ID m = mf_MovementID f" "mf_MovementID f \<noteq> 0"
      by (auto simp: mid_order_def)
    with Some close_leg_other[OF legs m(1)] close_leg_own[OF m(1)] show ?thesis by (auto simp: closed_def)
  qed
  then show "j \<noteq> i \<Longrightarrow> closed fin (modes d s j) = modes d s j" "md_leg (closed fin (modes d s i)) = None" by blast+
qed

lemma mid_unit:
  assumes "mid_order i fin d s"
  obtains st t old p where "md_unit (modes d s i) = Some (st, t)" "st \<noteq> StatusDead" "st \<noteq> StatusGarrisoned"
    "md_row (modes d s i) = Some (old, p)" "old \<noteq> StatusDead" "unit_Tile (unit_at s i) = t" "u_Status (unit_at s i) = st"
proof -
  obtain st t old p where "md_unit (modes d s i) = Some (st, t)" "st \<noteq> StatusDead" "st \<noteq> StatusGarrisoned"
    "md_row (modes d s i) = Some (old, p)" "old \<noteq> StatusDead"
    using assms by (auto simp: mid_order_def)
  with unit_at_mode(2,3)[OF this(1)] that show thesis by blast
qed

lemma modes_submit_transition:
  assumes "dp_Economy D"
  shows "modes d (submitTask D ((TaskWriteOf i fin st at)\<lparr>tw_Task := Some t\<rparr>) rv s) = (\<lambda>j.
      let md = closed fin (modes d s j); md = (if j = i then md\<lparr>md_row := flush_row st at (md_row md)\<rparr> else md)
      in if j = t_UnitID t then md\<lparr>md_job := Some t\<rparr> else md)"
    and "modes d (submitTask D (TaskWriteOf i fin st at) rv s) = (\<lambda>j.
      let md = closed fin (modes d s j) in if j = i then md\<lparr>md_row := flush_row st at (md_row md), md_job := None\<rparr> else md)"
    and "modes d (submitTask D ((TaskWriteOf i fin st at)\<lparr>tw_Start := Some m, tw_Task := Some t\<rparr>) rv s) = (\<lambda>j.
      let md = closed fin (modes d s j); md = (if j = m_UnitID m then md\<lparr>md_leg := Some (repaired m)\<rparr> else md);
        md = (if j = i then md\<lparr>md_row := flush_row st at (md_row md)\<rparr> else md)
      in if j = t_UnitID t then md\<lparr>md_job := Some t\<rparr> else md)"
  by (simp_all add: modes_submitTask[OF assms] TaskWriteOf_def closed_def Let_def fun_eq_iff)

lemma closed_leg [simp]: "(closed fin md)\<lparr>md_leg := l\<rparr> = md\<lparr>md_leg := l\<rparr>"
  by (cases fin) (simp_all add: closed_def close_leg_def)

text \<open>The state before the transition is submitted has the new mode of the unit in memory.\<close>

lemma submitted:
  assumes mid: "mid_order i fin d s" and econ: "dp_Economy D" and pre: "modes d s1 = (modes d s)(i := md)"
    and same: "md_leg md = md_leg (modes d s i)" "md_row md = md_row (modes d s i)"
  shows "t_UnitID t = i \<Longrightarrow> modes d (submitTask D ((TaskWriteOf i fin st at)\<lparr>tw_Task := Some t\<rparr>) rv s1) =
      (modes d s)(i := md\<lparr>md_row := Some (st, at), md_leg := None, md_job := Some t\<rparr>)"
    and "modes d (submitTask D (TaskWriteOf i fin st at) rv s1) =
      (modes d s)(i := md\<lparr>md_row := Some (st, at), md_leg := None, md_job := None\<rparr>)"
    and "t_UnitID t = i \<Longrightarrow> m_UnitID m = i \<Longrightarrow>
      modes d (submitTask D ((TaskWriteOf i fin st at)\<lparr>tw_Start := Some m, tw_Task := Some t\<rparr>) rv s1) =
      (modes d s)(i := md\<lparr>md_row := Some (st, at), md_leg := Some (repaired m), md_job := Some t\<rparr>)"
proof -
  obtain old p where row: "md_row (modes d s i) = Some (old, p)" "old \<noteq> StatusDead" using mid_unit[OF mid] by metis
  note cl = mid_closed[OF mid]
  have leg: "md_leg (closed fin md) = None" using cl(2) same(1) by (cases fin) (simp_all add: closed_def close_leg_def split: if_splits)
  have eq: "closed fin md = md\<lparr>md_leg := None\<rparr>"
    using closed_leg[where fin = fin and md = md and l = None] leg by (metis unit_mode.surjective unit_mode.update_convs(9) unit_mode.select_convs(9))
  show "t_UnitID t = i \<Longrightarrow> modes d (submitTask D ((TaskWriteOf i fin st at)\<lparr>tw_Task := Some t\<rparr>) rv s1) =
      (modes d s)(i := md\<lparr>md_row := Some (st, at), md_leg := None, md_job := Some t\<rparr>)"
    by (rule ext) (use cl(1) row same(2) in \<open>simp add: modes_submit_transition(1)[OF econ] pre eq Let_def\<close>)
  show "modes d (submitTask D (TaskWriteOf i fin st at) rv s1) =
      (modes d s)(i := md\<lparr>md_row := Some (st, at), md_leg := None, md_job := None\<rparr>)"
    by (rule ext) (use cl(1) row same(2) in \<open>simp add: modes_submit_transition(2)[OF econ] pre eq Let_def\<close>)
  show "t_UnitID t = i \<Longrightarrow> m_UnitID m = i \<Longrightarrow>
      modes d (submitTask D ((TaskWriteOf i fin st at)\<lparr>tw_Start := Some m, tw_Task := Some t\<rparr>) rv s1) =
      (modes d s)(i := md\<lparr>md_row := Some (st, at), md_leg := Some (repaired m), md_job := Some t\<rparr>)"
    by (rule ext) (use cl(1) row same(2) in \<open>simp add: modes_submit_transition(3)[OF econ] pre eq Let_def\<close>)
qed

lemma startLeg_ok:
  assumes mid: "mid_order i fin d s" and econ: "dp_Economy D" and room: "id_room 1 s"
    and t: "t_UnitID t = i" "IsLeg (t_Phase t)"
  shows "order_step d i 1 s (startLeg D i t path target origin startMs fin h s)"
proof -
  let ?s' = "startLeg D i t path target origin startMs fin h s"
  define m where "m = (New_movement i path target startMs)\<lparr>m_ID := st_lastMovementID s + 1\<rparr>"
  have mu: "m_UnitID m = i" "m_ID m = st_lastMovementID s + 1" by (simp_all add: m_def New_movement_def)
  obtain st tt where u: "md_unit (modes d s i) = Some (st, tt)" using mid_unit[OF mid] by metis
  define r where "r = setTask t (MarkDirty i (set_status i StatusMoving (SetMovement m (s\<lparr>st_lastMovementID := st_lastMovementID s + 1\<rparr>))))"
  let ?md = "(modes d s i)\<lparr>md_move := Some (repaired m), md_unit := Some (StatusMoving, tt), md_dirty := True, md_task := Some t\<rparr>"
  have pre: "modes d (snd r) = (modes d s)(i := ?md)" by (simp add: r_def mu t(1) u)
  have last': "st_lastMovementID (snd r) = st_lastMovementID s + 1" by (simp add: r_def)
  define w where "w = (TaskWriteOf i fin StatusMoving origin)\<lparr>tw_Start := Some m, tw_Task := Some t\<rparr>"
  have w: "modes d (submitTask D w rv (snd r)) =
      (modes d s)(i := ?md\<lparr>md_row := Some (StatusMoving, origin), md_leg := Some (repaired m), md_job := Some t\<rparr>)" for rv
    unfolding w_def by (rule submitted(3)[OF mid econ pre]) (simp_all add: t mu)
  have s': "modes d ?s' = modes d (submitTask D w (fst r) (snd r))" "st_lastMovementID ?s' = st_lastMovementID (snd r)"
    by (simp_all add: startLeg_def Let_def NewMovementID_room[OF room mid_orderD(3)[OF mid]] m_def[symmetric]
        r_def[symmetric] w_def[symmetric] split_def)
  show ?thesis
    using s' w[of "fst r"] mu last' t mid_orderD(4-8)[OF mid]
    by (intro mid_order_end[OF mid]) (auto simp: mode_ok_def task_ok_def row_ok_def row_fits_def settled_def IsLeg_def)
qed

lemma startWork_ok:
  assumes mid: "mid_order i fin d s" and econ: "dp_Economy D" and t: "t_UnitID t = i" "t_Phase t = PhaseWorking"
  shows "order_step d i 1 s (startWork D i t fin h s)"
proof -
  let ?s' = "startWork D i t fin h s"
  obtain st tt where u: "md_unit (modes d s i) = Some (st, tt)" using mid_unit[OF mid] by metis
  define r where "r = setTask t (MarkDirty i (set_status i StatusWorking s))"
  let ?md = "(modes d s i)\<lparr>md_unit := Some (StatusWorking, tt), md_dirty := True, md_task := Some t\<rparr>"
  have pre: "modes d (snd r) = (modes d s)(i := ?md)" by (simp add: r_def t(1) u)
  have tile: "unit_Tile (unit_at (snd r) i) = tt" by (rule unit_at_mode(3)[of d _ _ StatusWorking]) (simp add: pre)
  have w: "modes d (submitTask D ((TaskWriteOf i fin StatusWorking tt)\<lparr>tw_Task := Some t\<rparr>) rv (snd r)) =
      (modes d s)(i := ?md\<lparr>md_row := Some (StatusWorking, tt), md_leg := None, md_job := Some t\<rparr>)" for rv
    by (rule submitted(1)[OF mid econ pre]) (simp_all add: t)
  have s': "modes d ?s' = modes d (submitTask D ((TaskWriteOf i fin StatusWorking tt)\<lparr>tw_Task := Some t\<rparr>) (fst r) (snd r))"
    "st_lastMovementID ?s' = st_lastMovementID s"
    using tile by (simp_all add: startWork_def Let_def r_def split_def)
  show ?thesis
    using s' w[of "fst r"] t mid_orderD(4-8)[OF mid]
    by (intro mid_order_end[OF mid]) (auto simp: mode_ok_def task_ok_def row_ok_def row_fits_def settled_def IsLeg_def)
qed

lemma modes_del_task [simp]:
  "modes d (s\<lparr>st_tasks := del_key i (st_tasks s)\<rparr>) = (modes d s)(i := (modes d s i)\<lparr>md_task := None\<rparr>)"
  by (rule ext) (simp add: modes_def disk_of_def)

lemma endTask_ok:
  assumes mid: "mid_order i fin d s" and econ: "dp_Economy D"
  shows "order_step d i 1 s (endTask D i reason fin s)"
proof -
  let ?s' = "endTask D i reason fin s"
  obtain st tt where u: "md_unit (modes d s i) = Some (st, tt)" using mid_unit[OF mid] by metis
  define r where "r = MarkDirty i (set_status i StatusIdle (s\<lparr>st_tasks := del_key i (st_tasks s)\<rparr>))"
  let ?md = "(modes d s i)\<lparr>md_task := None, md_unit := Some (StatusIdle, tt), md_dirty := True\<rparr>"
  have pre: "modes d r = (modes d s)(i := ?md)" by (simp add: r_def u)
  have tile: "unit_Tile (unit_at r i) = tt" by (rule unit_at_mode(3)[of d _ _ StatusIdle]) (simp add: pre)
  have w: "modes d (submitTask D (TaskWriteOf i fin StatusIdle tt) 0 r) =
      (modes d s)(i := ?md\<lparr>md_row := Some (StatusIdle, tt), md_leg := None, md_job := None\<rparr>)"
    by (rule submitted(2)[OF mid econ pre]) simp_all
  have s': "modes d ?s' = modes d (submitTask D (TaskWriteOf i fin StatusIdle tt) 0 r)"
    "st_lastMovementID ?s' = st_lastMovementID s"
    using tile by (simp_all add: endTask_def Let_def r_def)
  show ?thesis
    using s' w mid_orderD(4-8)[OF mid]
    by (intro mid_order_end[OF mid]) (auto simp: mode_ok_def task_ok_def row_ok_def row_fits_def settled_def)
qed

subsection \<open>The arrivals of a task\<close>

lemma modes_deposit_stock [simp]: "modes d (deposit_stock c r amount s) = modes d s"
  by (rule modes_cong) (simp_all add: deposit_stock_def broadcastStocks_def broadcastCity_def put_stock_def send_def Let_def split: prod.split)

lemma last_id_deposit_stock [simp]: "st_lastMovementID (deposit_stock c r amount s) = st_lastMovementID s"
  by (simp add: deposit_stock_def broadcastStocks_def broadcastCity_def put_stock_def send_def Let_def split: prod.split)

lemma upd_layer_sel [simp]:
  "st_units (upd_layer l f s) = st_units s" "st_movements (upd_layer l f s) = st_movements s" "st_tasks (upd_layer l f s) = st_tasks s"
  "st_garrisonedIn (upd_layer l f s) = st_garrisonedIn s" "st_unitDirty (upd_layer l f s) = st_unitDirty s"
  "st_entering (upd_layer l f s) = st_entering s" "st_lastMovementID (upd_layer l f s) = st_lastMovementID s"
  by (cases l; simp)+

lemma upd_layer_jobs [simp]: "sm_jobs (upd_layer l f s) = sm_jobs s" for s :: sim
  by (cases l) simp_all

lemma modes_upd_layer [simp]: "modes d (upd_layer l f s) = modes d s"
  by (rule modes_cong) simp_all

lemma modes_pendingLoad [simp]: "modes d (s\<lparr>st_pendingLoad := l\<rparr>) = modes d s"
  by (rule modes_cong) simp_all

lemma modes_takeDeposit [simp]: "modes d (snd (takeDeposit i t carry at s)) = modes d s"
  by (simp add: takeDeposit_def broadcastDeposit_def Let_def split_def split: option.split)

lemma last_id_takeDeposit [simp]: "st_lastMovementID (snd (takeDeposit i t carry at s)) = st_lastMovementID s"
  by (simp add: takeDeposit_def broadcastDeposit_def Let_def split_def split: option.split)

definition arrive_ok :: "disk \<Rightarrow> deps \<Rightarrow> arrive \<Rightarrow> bool" where
  "arrive_ok d D f \<longleftrightarrow> (\<forall>i t at fin h s s'. f D i t at fin h s = Some s' \<longrightarrow> mid_order i fin d s \<longrightarrow> id_room 1 s \<longrightarrow>
     t_UnitID t = i \<longrightarrow> order_step d i 1 s s')"

definition arrive_deposit_ok :: "disk \<Rightarrow> deps \<Rightarrow> arrive_deposit \<Rightarrow> bool" where
  "arrive_deposit_ok d D f \<longleftrightarrow> (\<forall>i t at fin s s'. f D i t at fin s = Some s' \<longrightarrow> mid_order i fin d s \<longrightarrow> id_room 1 s \<longrightarrow>
     t_UnitID t = i \<longrightarrow> order_step d i 1 s s')"

lemma arrive_okD:
  "arrive_ok d D f \<Longrightarrow> f D i t at fin h s = Some s' \<Longrightarrow> mid_order i fin d s \<Longrightarrow> id_room 1 s \<Longrightarrow> t_UnitID t = i \<Longrightarrow>
     order_step d i 1 s s'"
  "arrive_deposit_ok d D g \<Longrightarrow> g D i t at fin s = Some s' \<Longrightarrow> mid_order i fin d s \<Longrightarrow> id_room 1 s \<Longrightarrow> t_UnitID t = i \<Longrightarrow>
     order_step d i 1 s s'"
  unfolding arrive_ok_def arrive_deposit_ok_def by blast+

lemma task_steps:
  "StartWork a w t = Ok t' \<Longrightarrow> t_UnitID t' = t_UnitID t \<and> t_Phase t' = PhaseWorking"
  "Retarget to t = Ok t' \<Longrightarrow> t_UnitID t' = t_UnitID t \<and> IsLeg (t_Phase t') \<and> t_Target t' = to \<and> t_Kind t' = t_Kind t"
  "ReturnToDeposit t = Ok t' \<Longrightarrow> t_UnitID t' = t_UnitID t \<and> IsLeg (t_Phase t')"
  "Deposit t = Ok (t', n) \<Longrightarrow> t_UnitID t' = t_UnitID t \<and> IsLeg (t_Phase t')"
  "FinishWork c t = Ok t' \<Longrightarrow> t_UnitID t' = t_UnitID t \<and> IsLeg (t_Phase t')"
  by (auto simp: StartWork_def Retarget_def ReturnToDeposit_def Deposit_def FinishWork_def IsLeg_def split: if_splits)

lemma at_resource_ok:
  assumes econ: "dp_Economy D" and f: "arrive_ok d D f"
  shows "arrive_ok d D (at_resource f)"
  unfolding arrive_ok_def
proof (intro allI impI)
  fix i t at fin h s s'
  assume e: "at_resource f D i t at fin h s = Some s'" and c: "mid_order i fin d s" "id_room 1 s" "t_UnitID t = i"
  show "order_step d i 1 s s'"
  proof (cases "taskRemaining s t (t_Target t) at = 0")
    case True
    with e have "f D i t at fin h s = Some s'" by (simp add: at_resource_def)
    from arrive_okD(1)[OF f this c] show ?thesis .
  next
    case False
    with e endTask_ok[OF c(1) econ] startWork_ok[OF c(1) econ] task_steps(1) c(3) show ?thesis
      by (auto simp: at_resource_def split: sum.splits)
  qed
qed

lemma go_next_ok:
  assumes econ: "dp_Economy D" and f: "arrive_ok d D f" and c: "mid_order i fin d s" "id_room 1 s" "t_UnitID t = i"
    and e: "go_next f D i t to at fin h s = Some s'"
  shows "order_step d i 1 s s'"
proof (cases "Retarget (fst to) t")
  case (Inl x)
  with e endTask_ok[OF c(1) econ] show ?thesis by (auto simp: go_next_def)
next
  case (Inr n)
  then have n: "t_UnitID n = i" "IsLeg (t_Phase n)" using task_steps(2)[of "fst to" t n] c(3) by simp_all
  show ?thesis
  proof (cases "snd to")
    case None
    with e Inr have "f D i n at fin h s = Some s'" by (simp add: go_next_def)
    from arrive_okD(1)[OF f this c(1,2) n(1)] show ?thesis .
  next
    case (Some path)
    with e Inr have "s' = startLeg D i n path (fst to) (unit_Tile (unit_at s i)) at fin h s" by (simp add: go_next_def)
    with startLeg_ok[OF c(1) econ c(2) n] show ?thesis by simp
  qed
qed

lemma leave_depleted_ok:
  assumes econ: "dp_Economy D" and f: "arrive_ok d D f" and g: "arrive_deposit_ok d D g"
  shows "arrive_ok d D (leave_depleted f g)"
  unfolding arrive_ok_def
proof (intro allI impI)
  fix i t at fin h s s'
  assume e: "leave_depleted f g D i t at fin h s = Some s'" and c: "mid_order i fin d s" "id_room 1 s" "t_UnitID t = i"
  note ends = endTask_ok[OF c(1) econ]
  show "order_step d i 1 s s'"
  proof (cases "Lookup_unit (u_Type (unit_at s i))")
    case (Inl x)
    with e ends show ?thesis by (auto simp: leave_depleted_def)
  next
    case (Inr def)
    note L = Inr
    show ?thesis
    proof (cases "findDeposit D s i t (t_Target t) def at")
      case (Some to)
      with e L have "go_next f D i t to at fin h s = Some s'" by (simp add: leave_depleted_def)
      from go_next_ok[OF econ f c this] show ?thesis .
    next
      case None
      note N = None
      show ?thesis
      proof (cases "ReturnToDeposit t")
        case (Inl x)
        with e L N ends show ?thesis by (auto simp: leave_depleted_def)
      next
        case (Inr n)
        then have n: "t_UnitID n = i" "IsLeg (t_Phase n)" using task_steps(3)[of t n] c(3) by simp_all
        have "s' = endTask D i (depletedReason t) fin s \<or> s' = endTask D i EndNoPath fin s \<or>
            g D i n at fin s = Some s' \<or> (\<exists>path to. s' = startLeg D i n path to (unit_Tile (unit_at s i)) at fin h s)"
          using e L N Inr by (auto simp: leave_depleted_def Let_def split: sum.splits option.splits if_splits)
        with ends startLeg_ok[OF c(1) econ c(2) n] arrive_okD(2)[OF g _ c(1,2) n(1)] show ?thesis by blast
      qed
    qed
  qed
qed

lemma at_deposit_ok:
  assumes econ: "dp_Economy D" and f: "arrive_ok d D f"
  shows "arrive_deposit_ok d D (at_deposit f)"
  unfolding arrive_deposit_ok_def
proof (intro allI impI)
  fix i t at fin s s'
  assume e: "at_deposit f D i t at fin s = Some s'" and c: "mid_order i fin d s" "id_room 1 s" "t_UnitID t = i"
  show "order_step d i 1 s s'"
  proof (cases "\<exists>next n c. Deposit t = Ok (next, n) \<and> cityOfUnit s (unit_at s i) = Some c")
    case False
    with e endTask_ok[OF c(1) econ] show ?thesis by (auto simp: at_deposit_def split: sum.splits option.splits)
  next
    case True
    then obtain "next" n cc where dep: "Deposit t = Ok (next, n)" and cc: "cityOfUnit s (unit_at s i) = Some cc" by blast
    define s1 where "s1 = deposit_stock cc (taskResource t) n s"
    define u where "u = unit_at s1 i"
    define s2 where "s2 = to_chunk_of (u_X u) (u_Y u) (EntityUpdate ((EntityUpdateOf i)\<lparr>eu_Carrying := Some 0\<rparr>)) s1"
    have same: "modes d s2 = modes d s" "st_lastMovementID s2 = st_lastMovementID s" by (simp_all add: s2_def s1_def)
    have n: "t_UnitID next = i" "IsLeg (t_Phase next)" using task_steps(4)[OF dep] c(3) by simp_all
    have c2: "mid_order i fin d s2" "id_room 1 s2" using mid_order_same[OF c(1) same] c(2) same(2) by (simp_all add: id_room_def)
    have "(\<exists>r. s' = endTask D i r fin s2) \<or> (\<exists>path. s' = startLeg D i next path (t_Target next) (unit_Tile u) at fin False s2) \<or>
        f D i next at fin False s2 = Some s' \<or> (\<exists>to. go_next f D i next to at fin False s2 = Some s')"
      using e dep cc by (auto simp: at_deposit_def Let_def s1_def u_def s2_def split: sum.splits option.splits if_splits)
    with endTask_ok[OF c2(1) econ] startLeg_ok[OF c2(1) econ c2(2) n] arrive_okD(1)[OF f _ c2 n(1)] go_next_ok[OF econ f c2 n(1)]
    have "order_step d i 1 s2 s'" by blast
    from order_step_from[OF this same] show ?thesis .
  qed
qed

lemma gather_ok:
  assumes "dp_Economy D"
  shows "arrive_ok d D (arriveAtResource n) \<and> arrive_ok d D (leaveDepleted n) \<and> arrive_deposit_ok d D (arriveAtDeposit n)"
proof (induction n)
  case 0
  then show ?case by (simp add: arrive_ok_def arrive_deposit_ok_def)
next
  case (Suc n)
  then show ?case by (simp add: at_resource_ok leave_depleted_ok at_deposit_ok assms)
qed

subsection \<open>The fuel of the arrivals\<close>

lemma first_reachable_in: "first_reachable leg origin cs = Some to \<Longrightarrow> fst to \<in> set cs"
  by (induction cs) (auto split: if_splits sum.splits)

lemma findDeposit_remaining: "findDeposit D s i t from0 def at = Some to \<Longrightarrow> taskRemaining s t (fst to) at \<noteq> 0"
  by (auto simp: findDeposit_def taskRemaining_def deposit_candidates_def Let_def
      split: option.splits dest!: first_reachable_in in_set_takeD)

lemma taskRemaining_kind: "t_Kind t' = t_Kind t \<Longrightarrow> taskRemaining s t' x at = taskRemaining s t x at"
  by (simp add: taskRemaining_def taskLayer_def)

lemma at_resource_some: "taskRemaining s t (t_Target t) at \<noteq> 0 \<Longrightarrow> at_resource f D i t at fin h s \<noteq> None"
  by (simp add: at_resource_def)

lemma go_next_some:
  assumes "taskRemaining s t (fst to) at \<noteq> 0"
  shows "go_next (at_resource f) D i t to at fin h s \<noteq> None"
proof (cases "Retarget (fst to) t")
  case (Inl x)
  then show ?thesis by (simp add: go_next_def)
next
  case (Inr n)
  then have "taskRemaining s n (t_Target n) at \<noteq> 0"
    using assms task_steps(2)[OF Inr] taskRemaining_kind[of n t s "fst to" at] by simp
  from at_resource_some[OF this] Inr show ?thesis by (cases "snd to") (simp_all add: go_next_def)
qed

lemma go_next_found:
  "findDeposit D s i t from0 def at = Some to \<Longrightarrow> \<exists>s'. go_next (at_resource f) D i t to at fin h s = Some s'"
  using go_next_some[OF findDeposit_remaining] by fastforce

lemma at_deposit_some: "at_deposit (at_resource f) D i t at fin s \<noteq> None"
proof (cases "\<exists>next n c. Deposit t = Ok (next, n) \<and> cityOfUnit s (unit_at s i) = Some c")
  case False
  then show ?thesis by (auto simp: at_deposit_def split: sum.splits option.splits)
next
  case True
  then obtain "next" n c where dep: "Deposit t = Ok (next, n)" and c: "cityOfUnit s (unit_at s i) = Some c" by blast
  show ?thesis
  proof
    assume "at_deposit (at_resource f) D i t at fin s = None"
    then show False
      using dep c
      by (auto simp: at_deposit_def Let_def at_resource_some
          dest: go_next_found[where f = f and fin = fin and h = False] split: sum.splits option.splits if_splits)
  qed
qed

lemma leave_depleted_some:
  assumes home: "\<And>D i t at fin s. g D i t at fin s \<noteq> None"
  shows "leave_depleted (at_resource f) g D i t at fin h s \<noteq> None"
proof
  assume "leave_depleted (at_resource f) g D i t at fin h s = None"
  then show False
    by (auto simp: leave_depleted_def Let_def home dest: go_next_found[where f = f and fin = fin and h = h]
        split: sum.splits option.splits if_splits)
qed

lemma gather_enough:
  "arriveAtDeposit (Suc (Suc n)) D i t at fin s \<noteq> None"
  "leaveDepleted (Suc (Suc (Suc n))) D i t at fin h s \<noteq> None"
  "arriveAtResource (Suc (Suc (Suc (Suc n)))) D i t at fin h s \<noteq> None"
proof -
  have dep: "arriveAtDeposit (Suc (Suc n)) D i t at fin s \<noteq> None" for D i t at fin s n by (simp add: at_deposit_some)
  have leave: "leaveDepleted (Suc (Suc (Suc n))) D i t at fin h s \<noteq> None" for D i t at fin h s n
    using leave_depleted_some[of "arriveAtDeposit (Suc (Suc n))"] dep by simp
  show "arriveAtDeposit (Suc (Suc n)) D i t at fin s \<noteq> None" "leaveDepleted (Suc (Suc (Suc n))) D i t at fin h s \<noteq> None"
    by (fact dep leave)+
  show "arriveAtResource (Suc (Suc (Suc (Suc n)))) D i t at fin h s \<noteq> None"
    using leave[of n D i t at fin h s] by (simp add: at_resource_def)
qed

text \<open>More fuel does not change an answer.\<close>

definition answers_more :: "arrive \<Rightarrow> arrive \<Rightarrow> bool" where
  "answers_more f g \<longleftrightarrow> (\<forall>D i t at fin h s s'. f D i t at fin h s = Some s' \<longrightarrow> g D i t at fin h s = Some s')"

definition delivers_more :: "arrive_deposit \<Rightarrow> arrive_deposit \<Rightarrow> bool" where
  "delivers_more f g \<longleftrightarrow> (\<forall>D i t at fin s s'. f D i t at fin s = Some s' \<longrightarrow> g D i t at fin s = Some s')"

lemma go_next_more: "answers_more f g \<Longrightarrow> go_next f D i t to at fin h s = Some s' \<Longrightarrow> go_next g D i t to at fin h s = Some s'"
  by (auto simp: go_next_def answers_more_def split: sum.splits option.splits)

lemma gather_more:
  "answers_more (arriveAtResource n) (arriveAtResource (Suc n)) \<and> answers_more (leaveDepleted n) (leaveDepleted (Suc n)) \<and>
   delivers_more (arriveAtDeposit n) (arriveAtDeposit (Suc n))"
proof (induction n)
  case 0
  then show ?case by (simp add: answers_more_def delivers_more_def)
next
  case (Suc n)
  let ?f = "arriveAtResource n" and ?f' = "arriveAtResource (Suc n)"
  let ?l = "leaveDepleted n" and ?l' = "leaveDepleted (Suc n)"
  let ?g = "arriveAtDeposit n" and ?g' = "arriveAtDeposit (Suc n)"
  have f: "answers_more ?f ?f'" and l: "answers_more ?l ?l'" and g: "delivers_more ?g ?g'" using Suc by blast+
  have "answers_more (at_resource ?l) (at_resource ?l')"
    using l by (auto simp: answers_more_def at_resource_def simp del: leaveDepleted.simps)
  moreover have "answers_more (leave_depleted ?f ?g) (leave_depleted ?f' ?g')"
    unfolding answers_more_def
  proof (intro allI impI)
    fix D i t at fin h s s'
    assume "leave_depleted ?f ?g D i t at fin h s = Some s'"
    then show "leave_depleted ?f' ?g' D i t at fin h s = Some s'"
      using g go_next_more[OF f, of D i t _ at fin h s s']
      by (auto simp: leave_depleted_def delivers_more_def Let_def simp del: arriveAtResource.simps arriveAtDeposit.simps
          split: sum.splits option.splits if_splits)
  qed
  moreover have "delivers_more (at_deposit ?f) (at_deposit ?f')"
    unfolding delivers_more_def
  proof (intro allI impI)
    fix D i t at fin s s'
    assume "at_deposit ?f D i t at fin s = Some s'"
    then show "at_deposit ?f' D i t at fin s = Some s'"
      using f go_next_more[OF f]
      by (auto simp: at_deposit_def answers_more_def Let_def simp del: arriveAtResource.simps
          split: sum.splits option.splits if_splits)
  qed
  ultimately show ?case by simp
qed

lemma gather_plus:
  "arriveAtResource n D i t at fin h s = Some s' \<Longrightarrow> arriveAtResource (n + k) D i t at fin h s = Some s'"
  "leaveDepleted n D i t at fin h s = Some s' \<Longrightarrow> leaveDepleted (n + k) D i t at fin h s = Some s'"
  "arriveAtDeposit n D i t at fin s = Some s' \<Longrightarrow> arriveAtDeposit (n + k) D i t at fin s = Some s'"
proof (induction k)
  case (Suc k)
  { case 1 with Suc gather_more[of "n + k"] show ?case unfolding answers_more_def by simp }
  { case 2 with Suc gather_more[of "n + k"] show ?case unfolding answers_more_def by simp }
  { case 3 with Suc gather_more[of "n + k"] show ?case unfolding delivers_more_def by simp }
qed simp_all

lemma gather_fuel_4:
  "arriveAtResource 4 D i t at fin h s \<noteq> None" "leaveDepleted 4 D i t at fin h s \<noteq> None" "arriveAtDeposit 4 D i t at fin s \<noteq> None"
  using gather_enough(1)[of "Suc (Suc 0)"] gather_enough(2)[of "Suc 0"] gather_enough(3)[of 0]
  by (simp_all only: numeral_eq_Suc pred_numeral_simps BitM.simps arith_simps) auto

text \<open>
  C18: An arrival of a gathering task always ends: the handlers that call each other return within
  the fuel of the model, and any larger fuel gives the same world.
\<close>

theorem gather_fuel:
  "\<exists>r l p. \<forall>k. arriveAtResource (4 + k) D i t at fin h s = Some r \<and> leaveDepleted (4 + k) D i t at fin h s = Some l \<and>
     arriveAtDeposit (4 + k) D i t at fin s = Some p"
proof -
  obtain r l p where "arriveAtResource 4 D i t at fin h s = Some r" "leaveDepleted 4 D i t at fin h s = Some l"
    "arriveAtDeposit 4 D i t at fin s = Some p"
    using gather_fuel_4 by (metis option.exhaust)
  then show ?thesis by (intro exI[of _ r] exI[of _ l] exI[of _ p] allI conjI) (rule gather_plus, assumption)+
qed

subsection \<open>The orders\<close>

lemma run_gather_ok:
  assumes "\<And>s'. f s = Some s' \<Longrightarrow> order_step d i 1 s s'" "f s \<noteq> None"
  shows "order_step d i 1 s (run_gather f s)"
  using assms by (auto simp: run_gather_def)

lemma arriveAtResource_ok:
  assumes "dp_Economy D" "mid_order i fin d s" "id_room 1 s" "t_UnitID t = i"
  shows "order_step d i 1 s (run_gather (arriveAtResource 4 D i t at fin h) s)"
  using gather_ok[OF assms(1), of d 4] arrive_okD(1)[OF _ _ assms(2-4)] gather_fuel_4
  by (intro run_gather_ok) blast+

lemma arriveAtDeposit_ok:
  assumes "dp_Economy D" "mid_order i fin d s" "id_room 1 s" "t_UnitID t = i"
  shows "order_step d i 1 s (run_gather (arriveAtDeposit 4 D i t at fin) s)"
  using gather_ok[OF assms(1), of d 4] arrive_okD(2)[OF _ _ assms(2-4)] gather_fuel_4
  by (intro run_gather_ok) blast+

lemma leaveDepleted_ok:
  assumes "dp_Economy D" "mid_order i fin d s" "id_room 1 s" "t_UnitID t = i"
  shows "order_step d i 1 s (run_gather (leaveDepleted 4 D i t at fin h) s)"
  using gather_ok[OF assms(1), of d 4] arrive_okD(1)[OF _ _ assms(2-4)] gather_fuel_4
  by (intro run_gather_ok) blast+

text \<open>A unit that stands still is ready for the transitions of its task.\<close>

lemma stand_mid:
  assumes ok: "sim_ok d s" and u: "md_unit (modes d s i) = Some (st, t)" and st: "st \<noteq> StatusMoving" "st \<noteq> StatusGarrisoned"
    and free: "\<not> md_entering (modes d s i)"
  shows "mid_order i None d s"
  using mode_okD[OF sim_okD(1)[OF ok, of i] u] mode_ok_row[OF sim_okD(1)[OF ok, of i] u] sim_okD[OF ok] u st free
  by (auto simp: mid_order_def)

lemma leaveResource_ok:
  assumes econ: "dp_Economy D" and ok: "sim_ok d s" and room: "id_room 1 s" and t: "t_UnitID t = i"
    and u: "u_Status (unit_at s i) = StatusWorking"
  shows "order_step d i 1 s (leaveResource D i t s)"
proof -
  obtain p where p: "md_unit (modes d s i) = Some (StatusWorking, p)" using u status_cases by blast
  have "\<not> md_entering (modes d s i)" using mode_okD(8)[OF sim_okD(1)[OF ok, of i] p] by auto
  then have mid: "mid_order i None d s" by (intro stand_mid[OF ok p]) simp_all
  note ends = endTask_ok[OF mid econ]
  show ?thesis
  proof (cases "\<exists>def c depot. Lookup_unit (u_Type (unit_at s i)) = Ok def \<and> cityOfUnit s (unit_at s i) = Some c \<and> depositTile s c = Some depot")
    case False
    with ends show ?thesis by (auto simp: leaveResource_def split: sum.splits option.splits)
  next
    case True
    then obtain def c depot where L: "Lookup_unit (u_Type (unit_at s i)) = Ok def" "cityOfUnit s (unit_at s i) = Some c"
      "depositTile s c = Some depot" by blast
    define r where "r = takeDeposit i t (ud_GatherCarry def) (t_PhaseUntilMs t) s"
    define s1 where "s1 = snd r"
    have same: "modes d s1 = modes d s" "st_lastMovementID s1 = st_lastMovementID s" by (simp_all add: s1_def r_def)
    have c1: "mid_order i None d s1" "id_room 1 s1" using mid_order_same[OF mid same] room same(2) by (simp_all add: id_room_def)
    have eq: "leaveResource D i t s =
       (if fst r = 0 then run_gather (leaveDepleted 4 D i t (t_PhaseUntilMs t) None False) s1
        else (case FinishWork (fst r) t of
               Err _ \<Rightarrow> endTask D i EndCancelled None s1
             | Ok next \<Rightarrow>
                 let origin = unit_Tile (unit_at s1 i)
                 in if origin = depot then run_gather (arriveAtDeposit 4 D i next (t_PhaseUntilMs t) None) s1
                    else (case legPath D s1 i origin depot def of
                      Err _ \<Rightarrow> endTask D i EndNoPath None s1
                    | Ok path \<Rightarrow>
                        to_chunk_of (tX origin) (tY origin)
                          (EntityUpdate ((EntityUpdateOf i)\<lparr>eu_Carrying := Some (t_Carrying next),
                             eu_CarryingResource := taskResource next\<rparr>))
                          (startLeg D i next path depot origin (t_PhaseUntilMs t) None False s1))))"
      using L by (simp add: leaveResource_def Let_def s1_def r_def split_def split: sum.split)
    have "order_step d i 1 s1 (leaveResource D i t s)"
    proof (cases "FinishWork (fst r) t")
      case (Inl e)
      with leaveDepleted_ok[OF econ c1 t] endTask_ok[OF c1(1) econ] show ?thesis by (simp add: eq)
    next
      case (Inr n)
      then have n: "t_UnitID n = i" "IsLeg (t_Phase n)" using task_steps(5) t by simp_all
      from Inr leaveDepleted_ok[OF econ c1 t] endTask_ok[OF c1(1) econ] arriveAtDeposit_ok[OF econ c1 n(1)]
        order_step_cong[OF startLeg_ok[OF c1(1) econ c1(2) n]]
      show ?thesis by (auto simp: eq Let_def split: sum.splits)
    qed
    from order_step_from[OF this same] show ?thesis .
  qed
qed

end
