(* ===== verification/Handler_Invariant.thy ===== *)
theory Handler_Invariant
  imports Order_Invariant
begin

section \<open>The handlers of the orders keep the invariant\<close>

text \<open>
  Each handler of an order of a player (move, cancel, gather, garrison, ungarrison), the answer of
  an entry in a garrison and the retries of the exits keep the invariant of the live world and its
  disk, whatever the order asks for and whatever it is answered.
\<close>

lemma modes_rejects [simp]:
  "modes d (rejectMove p r i c s) = modes d s" "modes d (economyError p r c s) = modes d s" "modes d (garrisonError p r c s) = modes d s"
  "st_lastMovementID (rejectMove p r i c s) = st_lastMovementID s" "st_lastMovementID (economyError p r c s) = st_lastMovementID s"
  "st_lastMovementID (garrisonError p r c s) = st_lastMovementID s"
  by (simp_all add: rejectMove_def economyError_def garrisonError_def)

lemma rejected_ok [intro]:
  "sim_ok d s \<Longrightarrow> 0 \<le> k \<Longrightarrow> order_step d i k s (rejectMove p r u c s)"
  "sim_ok d s \<Longrightarrow> 0 \<le> k \<Longrightarrow> order_step d i k s (economyError p r c s)"
  "sim_ok d s \<Longrightarrow> 0 \<le> k \<Longrightarrow> order_step d i k s (garrisonError p r c s)"
  "sim_ok d s \<Longrightarrow> 0 \<le> k \<Longrightarrow> order_step d i k s (send m s)"
  by (rule order_step_same; simp)+

lemma can_move:
  "EnsureCanMove u = None \<Longrightarrow> u_Status u \<noteq> StatusGarrisoned"
  by (auto simp: EnsureCanMove_def split: unit_status.splits)

lemma id_room_same: "few_ids 0 s s' \<Longrightarrow> id_room k s \<Longrightarrow> id_room k s'"
  by (simp add: few_ids_def id_room_def)

lemma endEngagement_off:
  "md_unit (modes d (endEngagement D i False s) j) = md_unit (modes d s j)"
  "st_entering (endEngagement D i False s) = st_entering s"
  by (simp_all add: endEngagement_def Let_def split: option.split)

lemma handleMoveUnit_ok:
  assumes ok: "sim_ok d s" and room: "id_room 1 s"
  shows "order_step d i 1 s (handleMoveUnit D p r i target s)"
proof (cases "map_of (st_units s) i")
  case None
  with ok show ?thesis by (auto simp: handleMoveUnit_def Let_def)
next
  case (Some u)
  define stop where "stop = cancelActiveMovement i ReasonCancelledByPlayer (NowMs s) (stopEngagementByPlayer D i (stopWorking i s))"
  have stop: "order_step d i 0 s stop"
  proof -
    note a = stopWorking_ok[OF ok, of i]
    note b = order_step_0_trans[OF a stopEngagementByPlayer_ok[OF order_step_ok[OF a], of i D]]
    from order_step_0_trans[OF b cancel_step[OF order_step_ok[OF b]]] show ?thesis unfolding stop_def .
  qed
  have r: "order_step d i 1 s (rejectMove p r i c s)" for c using ok by auto
  have sent: "order_step d i 1 s (send m stop)" for m
    using order_step_cong[OF order_step_mono[OF stop]] by simp
  have go: "order_step d i 1 s (snd (beginMovement i origin target path now acc (endEngagement D i False s)))"
    if "EnsureCanMove u = None" "\<not> IsEntering s i" for origin path now acc
  proof -
    let ?s = "endEngagement D i False s"
    have e: "order_step d i 0 s ?s" by (rule endEngagement_ok[OF ok]) simp
    have "md_unit (modes d ?s i) = Some (u_Status u, unit_Tile u)" "\<not> md_entering (modes d ?s i)"
      using Some that(2) by (simp_all add: endEngagement_off unit_Some_mode mode_fields IsEntering_def)
    moreover have "id_room 1 ?s" using e room id_room_same by (auto simp: order_step_def)
    ultimately have "order_step d i 1 ?s (snd (beginMovement i origin target path now acc ?s))"
      by (intro begin_ok[OF order_step_ok[OF e] _ can_move[OF that(1)]])
    from order_step_0_trans[OF e this] show ?thesis .
  qed
  from Some r sent go show ?thesis
    by (auto simp: handleMoveUnit_def Let_def stop_def split: option.split sum.split)
qed

lemma handleCancelMovement_ok:
  assumes ok: "sim_ok d s"
  shows "order_step d i 0 s (handleCancelMovement D p r i s)"
proof -
  note a = stopWorking_ok[OF ok, of i]
  note b = order_step_0_trans[OF a stopEngagementByPlayer_ok[OF order_step_ok[OF a], of i D]]
  note c = order_step_0_trans[OF b abandonClaim_ok[OF order_step_ok[OF b]]]
  note e = order_step_0_trans[OF c cancel_step[OF order_step_ok[OF c]]]
  with ok show ?thesis by (auto simp: handleCancelMovement_def Let_def split: option.split)
qed

lemma handleGather_ok:
  assumes ok: "sim_ok d s" and room: "id_room 1 s"
  shows "order_step d i 1 s (handleGather D p r i target s)"
proof (cases "\<exists>u. map_of (st_units s) i = Some u \<and> CanGather u p = None \<and> \<not> IsEntering s i \<and> dp_Economy D")
  case False
  with ok show ?thesis
    by (auto simp: handleGather_def Let_def split: option.split sum.split)
next
  case True
  then obtain u where u: "map_of (st_units s) i = Some u" and can: "CanGather u p = None" and e: "\<not> IsEntering s i"
    and econ: "dp_Economy D" by blast
  have "u_Status u \<noteq> StatusGarrisoned"
    using can can_move[of u] by (auto simp: CanGather_def split: if_splits sum.splits)
  note h = halt_mid[OF ok unit_Some_mode[OF u] this, of ReasonReplaced "NowMs s"]
  let ?s = "cancelActiveMovement i ReasonReplaced (NowMs s) (dropTask i s)"
  have en: "\<not> md_entering (modes d s i)" using e by (simp add: mode_fields IsEntering_def)
  have room': "id_room 1 ?s" using room h(2)[OF en] by (simp add: id_room_def)
  have keep: "order_step d i 1 ?s s' \<Longrightarrow> order_step d i 1 s s'" for s'
    using h(2,3)[OF en] by (simp add: order_step_def few_ids_def same_elsewhere_def)
  have leg: "order_step d i 1 s (startLeg D i (NewGatherOf i k target) path target origin now None hid ?s)" for k path origin now hid
    by (rule keep[OF startLeg_ok[OF h(1)[OF en] econ room']]) (simp_all add: NewGatherOf_def IsLeg_def)
  have work: "order_step d i 1 s (run_gather (arriveAtResource 4 D i (NewGatherOf i k target) now None hid) ?s)" for k now hid
    by (rule keep[OF arriveAtResource_ok[OF econ h(1)[OF en] room']]) (simp add: NewGatherOf_def)
  have r: "order_step d i 1 s (economyError p r c s)" for c using ok by auto
  from u can e econ r leg work show ?thesis
    by (auto simp: handleGather_def Let_def split: option.split sum.split)
qed

subsection \<open>Garrisons\<close>

lemma can_enter:
  "CanEnter f (Some u) co p ts = None \<Longrightarrow> u_Status u = StatusIdle"
  "CanEnter f (Some u) co p ts = Some GErrTreatyRequired \<Longrightarrow> u_Status u = StatusIdle"
  by (auto simp: CanEnter_def split: if_splits unit_status.splits option.splits)

lemma modes_entering [simp]:
  "modes d (s\<lparr>st_entering := mark_key i (st_entering s)\<rparr>) = (modes d s)(i := (modes d s i)\<lparr>md_entering := True\<rparr>)"
  "modes d (s\<lparr>st_entering := del_key i (st_entering s)\<rparr>) = (modes d s)(i := (modes d s i)\<lparr>md_entering := False\<rparr>)"
  by (rule ext, simp add: modes_def disk_of_def)+

lemma modes_enter_job [simp]: "modes d (submit_job n k (EnterGarrison u c p tick r) f s) = modes d s"
  by (rule ext) (simp add: modes_def, simp add: submit_job_def)

lemma handleGarrisonUnit_ok:
  assumes ok: "sim_ok d s"
  shows "order_step d i 0 s (handleGarrisonUnit D p r i cityID s)"
proof (cases "\<exists>u. map_of (st_units s) i = Some u \<and> u_Status u = StatusIdle")
  case False
  with ok show ?thesis
    by (auto simp: handleGarrisonUnit_def Let_def dest: can_enter split: option.splits intro: order_step_refl)
next
  case True
  then obtain u where u: "map_of (st_units s) i = Some u" "u_Status u = StatusIdle" by blast
  have m: "md_unit (modes d s i) = Some (StatusIdle, unit_Tile u)" using u by (simp add: modes_def)
  have "mode_ok i ((modes d s i)\<lparr>md_entering := True\<rparr>)"
    using mode_okD[OF sim_okD(1)[OF ok, of i] m] m by (simp add: mode_ok_def row_ok_def row_fits_def settled_def)
  then have "order_step d i 0 s (submit_job n k (EnterGarrison u c p tick r) f (s\<lparr>st_entering := mark_key i (st_entering s)\<rparr>))"
    for n k c tick f
    by (intro order_step_mode[OF ok, where md = "(modes d s i)\<lparr>md_entering := True\<rparr>"]) simp_all
  with ok u show ?thesis
    by (auto simp: handleGarrisonUnit_def Let_def split: option.splits intro: order_step_refl)
qed

lemma modes_pendingExits [simp]: "modes d (s\<lparr>st_pendingExits := l\<rparr>) = modes d s"
  by (rule modes_cong) simp_all

lemma modes_host [simp]:
  "modes d (s\<lparr>st_garrisonedIn := del_key i (st_garrisonedIn s)\<rparr>) = (modes d s)(i := (modes d s i)\<lparr>md_host := None\<rparr>)"
  "modes d (s\<lparr>st_garrisonedIn := put_key i c (st_garrisonedIn s)\<rparr>) = (modes d s)(i := (modes d s i)\<lparr>md_host := Some c\<rparr>)"
  by (rule ext, simp add: modes_def disk_of_def)+

text \<open>The exit writes the tile it puts the unit on; a unit that is inside stands still and has no task.\<close>

lemma modes_submit_leave [simp]:
  "modes d (submit_job n k (LeaveGarrison u x y cx cy tick) f s) = (\<lambda>j. if j = u_ID u
     then (modes d s j)\<lparr>md_row := map_option (\<lambda>_. (StatusIdle, mk_tile x y)) (md_row (modes d s j))\<rparr> else modes d s j)"
  by (rule ext) (simp add: modes_def DiskLeave_def, auto simp: submit_job_def)

lemma exit_garrison_ok:
  assumes ok: "sim_ok d s" and st: "u_Status (unit_at s i) = StatusGarrisoned" and g: "dp_Garrisons D"
    and e: "exit_garrison D i c req s = Ok s'"
  shows "order_step d i 0 s s'"
proof -
  obtain t0 where u: "md_unit (modes d s i) = Some (StatusGarrisoned, t0)" using st status_cases by blast
  note md = mode_okD[OF sim_okD(1)[OF ok, of i] u]
  obtain old p where row: "md_row (modes d s i) = Some (old, p)" using mode_ok_row[OF sim_okD(1)[OF ok, of i] u] by blast
  obtain t where t: "ReentryTile (Some (st_world s)) (Some c) None = Ok t"
    using e by (cases "ReentryTile (Some (st_world s)) (Some c) None") (simp_all add: exit_garrison_def)
  define s1 where "s1 = MarkDirty i (moveUnit i t StatusGarrisoned (NowMs s)
     ((set_status i StatusIdle s)\<lparr>st_garrisonedIn := del_key i (st_garrisonedIn (set_status i StatusIdle s))\<rparr>))"
  let ?md = "(modes d s i)\<lparr>md_host := None, md_unit := Some (StatusIdle, t), md_dirty := True\<rparr>"
  have m1: "modes d s1 = (modes d s)(i := ?md)" by (simp add: s1_def u)
  have id: "u_ID (unit_at s1 i) = i" using m1 md(2) mode_fields(5)[of d s1 i] by (cases "map_of (st_units s1) i") auto
  have last1: "st_lastMovementID s1 = st_lastMovementID s" by (simp add: s1_def)
  have s': "modes d s' = (modes d s)(i := ?md\<lparr>md_row := Some (StatusIdle, mk_tile (tX t) (tY t))\<rparr>)"
    using e t g st id m1 row
    by (simp add: exit_garrison_def Let_def s1_def[symmetric] split_def fun_eq_iff, auto)
  have last': "st_lastMovementID s' = st_lastMovementID s"
    using e t g st last1 by (auto simp: exit_garrison_def Let_def s1_def[symmetric] split_def)
  show ?thesis
    by (rule order_step_mode[OF ok s']) (use md last' in \<open>auto simp: mode_ok_def task_ok_def row_ok_def row_fits_def settled_def split: option.splits\<close>)
qed

lemma handleUngarrisonUnit_ok:
  assumes ok: "sim_ok d s" and g: "dp_Garrisons D"
  shows "order_step d i 0 s (handleUngarrisonUnit D p r i s)"
proof (cases "\<exists>u. map_of (st_units s) i = Some u \<and> u_Status u = StatusGarrisoned")
  case False
  with ok show ?thesis by (auto simp: handleUngarrisonUnit_def Let_def CanLeave_def split: option.splits)
next
  case True
  then have st: "u_Status (unit_at s i) = StatusGarrisoned" by auto
  have pend: "order_step d i 0 s (s\<lparr>st_pendingExits := l\<rparr>)" for l by (rule order_step_same[OF ok]) simp_all
  have r: "order_step d i 0 s (garrisonError p r c s)" for c using ok by auto
  from exit_garrison_ok[OF ok st g] pend r order_step_refl[OF ok] show ?thesis
    by (auto simp: handleUngarrisonUnit_def Let_def split: option.splits sum.splits)
qed

lemma retry_exit_ok:
  assumes ok: "sim_ok d s" and g: "dp_Garrisons D"
  shows "order_step d i 0 s (retry_exit D i s)"
proof -
  have drop: "order_step d i 0 s s' \<Longrightarrow> order_step d i 0 s (s'\<lparr>st_pendingExits := l\<rparr>)" for s' l
    by (erule order_step_cong) simp_all
  show ?thesis
    using exit_garrison_ok[OF ok _ g, of i] drop order_step_refl[OF ok]
    by (auto simp: retry_exit_def Let_def split: option.splits sum.splits)
qed

end
