(* ===== verification/Tick_Invariant.thy ===== *)
theory Tick_Invariant
  imports Handler_Invariant
begin

section \<open>The phases of the tick keep the invariant\<close>

text \<open>
  The advance of the movements with the arrivals, the units that end their work, the concealment,
  the retries of the exits, the footprint of a new city, the answer of an entry in a garrison and
  the periodic flush keep the invariant of the live world and its disk. A phase takes at most one
  movement id for each unit it touches.
\<close>

subsection \<open>Folds over units\<close>

definition keeps :: "disk \<Rightarrow> int \<Rightarrow> sim \<Rightarrow> sim \<Rightarrow> bool" where
  "keeps d k s s' \<longleftrightarrow> sim_ok d s' \<and> few_ids k s s'"

lemma order_keeps: "order_step d i k s s' \<Longrightarrow> keeps d k s s'"
  by (simp add: order_step_def keeps_def)

lemma keeps_refl: "sim_ok d s \<Longrightarrow> 0 \<le> k \<Longrightarrow> keeps d k s s"
  by (simp add: keeps_def few_ids_def)

lemma keeps_trans: "keeps d k s s1 \<Longrightarrow> keeps d k' s1 s2 \<Longrightarrow> keeps d (k + k') s s2"
  by (auto simp: keeps_def few_ids_def)

lemma keeps_same:
  "sim_ok d s \<Longrightarrow> 0 \<le> k \<Longrightarrow> modes d s' = modes d s \<Longrightarrow> st_lastMovementID s' = st_lastMovementID s \<Longrightarrow> keeps d k s s'"
  by (simp add: keeps_def sim_ok_same few_ids_def)

lemma keeps_ok: "keeps d k s s' \<Longrightarrow> sim_ok d s'"
  by (simp add: keeps_def)

lemma id_room_keeps: "keeps d k s s' \<Longrightarrow> id_room (k + n) s \<Longrightarrow> id_room n s'"
  by (simp add: keeps_def few_ids_def id_room_def)

lemma keeps_mono: "keeps d k s s' \<Longrightarrow> k \<le> k' \<Longrightarrow> keeps d k' s s'"
  by (auto simp: keeps_def few_ids_def)

lemma fold_keeps0:
  assumes "\<And>x s. x \<in> set xs \<Longrightarrow> sim_ok d s \<Longrightarrow> keeps d 0 s (f x s)" "sim_ok d s"
  shows "keeps d 0 s (fold f xs s)"
  using assms
proof (induction xs arbitrary: s)
  case (Cons x xs)
  then have 1: "keeps d 0 s (f x s)" by simp
  have "keeps d 0 (f x s) (fold f xs (f x s))" by (rule Cons.IH[OF Cons.prems(1) keeps_ok[OF 1]]) simp_all
  from keeps_trans[OF 1 this] show ?case by simp
qed (simp add: keeps_refl)

lemma fold_keeps1:
  assumes "\<And>x s. x \<in> set xs \<Longrightarrow> sim_ok d s \<Longrightarrow> id_room 1 s \<Longrightarrow> keeps d 1 s (f x s)" "sim_ok d s" "id_room (int (length xs)) s"
  shows "keeps d (int (length xs)) s (fold f xs s)"
  using assms
proof (induction xs arbitrary: s)
  case (Cons x xs)
  have room: "id_room 1 s" using Cons.prems(3) by (simp add: id_room_def)
  with Cons.prems have 1: "keeps d 1 s (f x s)" by simp
  have "id_room (int (length xs)) (f x s)" using id_room_keeps[OF 1, of "int (length xs)"] Cons.prems(3) by simp
  then have "keeps d (int (length xs)) (f x s) (fold f xs (f x s))"
    by (intro Cons.IH[OF Cons.prems(1) keeps_ok[OF 1]]) simp_all
  from keeps_trans[OF 1 this] show ?case by (simp add: add.commute)
qed (simp add: keeps_refl)

subsection \<open>Movements\<close>

lemma modes_upd_unit:
  assumes "\<And>u. u_ID (f u) = u_ID u" "\<And>u. u_Status (f u) = u_Status u" "\<And>u. u_X (f u) = u_X u" "\<And>u. u_Y (f u) = u_Y u"
  shows "modes d (upd_unit i f s) = modes d s"
  by (rule ext) (simp add: modes_def option.map_comp comp_def assms unit_Tile_def)

lemma modes_depositLoot:
  assumes "md_dirty (modes d s i)"
  shows "modes d (depositLoot i at s) = modes d s"
proof -
  have "(modes d s)(i := (modes d s i)\<lparr>md_dirty := True\<rparr>) = modes d s" using assms by (auto simp: fun_eq_iff)
  then show ?thesis by (simp add: depositLoot_def Let_def modes_upd_unit split: option.split)
qed

lemma last_id_depositLoot [simp]: "st_lastMovementID (depositLoot i at s) = st_lastMovementID s"
  by (simp add: depositLoot_def Let_def split: option.split)

text \<open>A unit that moves may be anywhere.\<close>

lemma walk_ok:
  assumes ok: "sim_ok d s" and m: "map_of (st_movements s) i = Some m"
  shows "order_step d i 0 s (moveUnit i t prev now s)"
proof (cases "md_unit (modes d s i)")
  case None
  with sim_okD(1)[OF ok, of i] m show ?thesis by (simp add: mode_ok_def mode_fields)
next
  case (Some p)
  then obtain st p' where u: "md_unit (modes d s i) = Some (st, p')" by (cases p) auto
  have mv: "md_move (modes d s i) = Some (repaired m)" using m by (simp add: mode_fields)
  note md = mode_okD[OF sim_okD(1)[OF ok, of i] u]
  have "mode_ok i ((modes d s i)\<lparr>md_unit := Some (st, t)\<rparr>)" using md mv by (auto simp: mode_ok_def row_ok_def)
  then show ?thesis by (intro order_step_mode[OF ok, where md = "(modes d s i)\<lparr>md_unit := Some (st, t)\<rparr>"]) (simp_all add: u)
qed

lemma moveUnit_movements [simp]: "st_movements (moveUnit i t prev now s) = st_movements s"
proof (cases "MoveUnitTo i t s")
  case (Pair b s')
  have "st_movements s' = st_movements s"
    using Pair MoveUnitTo_sim[of i t s] by (metis snd_conv state.select_convs(8) upd_unit_sel(4) state.surjective state.update_convs(12))
  with Pair show ?thesis by (simp add: moveUnit_def Let_def send_def split: prod.split)
qed

definition due_arrivals :: "(int64, movement) gomap \<Rightarrow> arrival list \<Rightarrow> bool" where
  "due_arrivals mv as \<longleftrightarrow> distinct (map ar_unitID as) \<and>
     (\<forall>a\<in>set as. \<exists>m. map_of mv (ar_unitID a) = Some m \<and> m_ID m = ar_movementID a)"

lemma send_movements [simp]: "st_movements (send m s) = st_movements s" "st_movements (to_chunk_of x y c s) = st_movements s"
  by (simp_all add: send_def to_chunk_of_def split: prod.split)

lemma advance_unit_ok:
  assumes ok: "sim_ok d s" and as: "due_arrivals (st_movements s) as" and new: "i \<notin> ar_unitID ` set as"
    and e: "advance_unit now i (s, as) = (s', as')"
  shows "keeps d 0 s s'" "st_movements s' = st_movements s" "due_arrivals (st_movements s') as'"
    "ar_unitID ` set as' \<subseteq> insert i (ar_unitID ` set as)"
proof -
  have "keeps d 0 s s' \<and> st_movements s' = st_movements s \<and> due_arrivals (st_movements s') as' \<and>
    ar_unitID ` set as' \<subseteq> insert i (ar_unitID ` set as)"
  proof (cases "map_of (st_movements s) i")
    case None
    with e ok as show ?thesis by (auto simp: advance_unit_def keeps_refl)
  next
    case (Some m)
    have "has_key (st_units s) i"
      using sim_okD(1)[OF ok, of i] Some by (auto simp: mode_ok_def mode_fields modes_def has_key_def split: option.splits)
    then have s': "s' = (if movement_PositionAt m now \<noteq> unit_Tile (unit_at s i)
        then to_chunk_of (tX (movement_PositionAt m now)) (tY (movement_PositionAt m now))
               (EntityUpdate ((EntityUpdateOf i)\<lparr>eu_X := Some (tX (movement_PositionAt m now)), eu_Y := Some (tY (movement_PositionAt m now))\<rparr>))
               (moveUnit i (movement_PositionAt m now) (u_Status (unit_at s i)) now s)
        else s)"
      and as': "as' = (if HasArrived m now then as @ [\<lparr>ar_unitID = i, ar_movementID = m_ID m, ar_at = movement_PositionAt m now,
          ar_arrivedAtMs = m_ArrivalTimeMs m\<rparr>] else as)"
      using e Some by (simp_all add: advance_unit_def Let_def)
    have "keeps d 0 s s'"
      using keeps_refl[OF ok] order_keeps[OF order_step_cong[OF walk_ok[OF ok Some]]] by (simp add: s')
    moreover have "st_movements s' = st_movements s" by (simp add: s')
    moreover have "due_arrivals (st_movements s) as'"
      using as new Some by (auto simp: as' due_arrivals_def)
    ultimately show ?thesis by (auto simp: as')
  qed
  then show "keeps d 0 s s'" "st_movements s' = st_movements s" "due_arrivals (st_movements s') as'"
    "ar_unitID ` set as' \<subseteq> insert i (ar_unitID ` set as)" by blast+
qed

lemma advance_units_ok:
  assumes "sim_ok d s" "due_arrivals (st_movements s) as" "distinct is" "set is \<inter> ar_unitID ` set as = {}"
    "fold (advance_unit now) is (s, as) = (s', as')"
  shows "keeps d 0 s s' \<and> due_arrivals (st_movements s') as' \<and> ar_unitID ` set as' \<subseteq> set is \<union> ar_unitID ` set as"
  using assms
proof (induction "is" arbitrary: s as)
  case (Cons i "is")
  obtain s1 as1 where e: "advance_unit now i (s, as) = (s1, as1)" by fastforce
  have new: "i \<notin> ar_unitID ` set as" using Cons.prems(4) by auto
  note a = advance_unit_ok[OF Cons.prems(1,2) new e]
  have r: "keeps d 0 s1 s' \<and> due_arrivals (st_movements s') as' \<and> ar_unitID ` set as' \<subseteq> set is \<union> ar_unitID ` set as1"
    by (rule Cons.IH[OF keeps_ok[OF a(1)] a(3)]) (use Cons.prems a(4) e in auto)
  then have "ar_unitID ` set as' \<subseteq> set (i # is) \<union> ar_unitID ` set as" using a(4) by (simp, blast)
  with r keeps_trans[OF a(1), of 0 s'] show ?case by simp
qed (auto simp: keeps_refl)

subsection \<open>Arrivals\<close>

text \<open>A unit whose movement has just been cleared waits for its closing.\<close>

lemma arrived_mid:
  assumes ok: "sim_ok d s" and m: "map_of (st_movements s) i = Some m"
  shows "mid_order i (Some \<lparr>mf_MovementID = m_ID m, mf_Status = st', mf_UnitID = i, mf_At = at\<rparr>) d (ClearMovement i s)"
    "md_task (modes d s i) = None \<or> (\<exists>t. md_task (modes d s i) = Some t \<and> t_UnitID t = i \<and> IsLeg (t_Phase t))"
proof -
  obtain st p where u: "md_unit (modes d s i) = Some (st, p)"
    using sim_okD(1)[OF ok, of i] m by (cases "md_unit (modes d s i)") (auto simp: mode_ok_def mode_fields)
  have mv: "md_move (modes d s i) = Some (repaired m)" using m by (simp add: mode_fields)
  note md = mode_okD[OF sim_okD(1)[OF ok, of i] u]
  have leg: "md_leg (modes d s i) = Some (repaired m)" and st: "st = StatusMoving" using md(4,10) mv by simp_all
  have legs: "legs (modes d (ClearMovement i s)) = legs (modes d s)" by (rule ext) (simp add: legs_def)
  have "m_ID m \<noteq> 0" using legs_okD(1)[OF sim_okD(2)[OF ok], of i "repaired m"] leg by (simp add: legs_def)
  then show "mid_order i (Some \<lparr>mf_MovementID = m_ID m, mf_Status = st', mf_UnitID = i, mf_At = at\<rparr>) d (ClearMovement i s)"
    using md st u leg mode_ok_row[OF sim_okD(1)[OF ok, of i] u] sim_okD[OF ok] legs by (auto simp: mid_order_def)
  show "md_task (modes d s i) = None \<or> (\<exists>t. md_task (modes d s i) = Some t \<and> t_UnitID t = i \<and> IsLeg (t_Phase t))"
    using md(6) st by (auto simp: task_ok_def split: option.splits)
qed

lemma stop_at_ok:
  assumes mid: "mid_order (ar_unitID a) (Some \<lparr>mf_MovementID = ar_movementID a, mf_Status = Some MoveCompleted,
      mf_UnitID = ar_unitID a, mf_At = ar_at a\<rparr>) d s" and t: "md_task (modes d s (ar_unitID a)) = None"
  shows "order_step d (ar_unitID a) 1 s (stop_at a s)"
proof -
  let ?i = "ar_unitID a"
  obtain st p old q where u: "md_unit (modes d s ?i) = Some (st, p)" "md_row (modes d s ?i) = Some (old, q)" "old \<noteq> StatusDead"
    using mid_unit[OF mid] by metis
  define s1 where "s1 = MarkDirty ?i (set_status ?i StatusIdle s)"
  have m1: "modes d (depositLoot ?i (ar_at a) s1) = (modes d s)(?i := (modes d s ?i)\<lparr>md_unit := Some (StatusIdle, p), md_dirty := True\<rparr>)"
    by (subst modes_depositLoot) (simp_all add: s1_def u)
  note cl = mid_closed[OF mid]
  have M: "modes d (stop_at a s) = (modes d s)(?i := (closed (Some \<lparr>mf_MovementID = ar_movementID a, mf_Status = Some MoveCompleted,
      mf_UnitID = ?i, mf_At = ar_at a\<rparr>) (modes d s ?i))\<lparr>md_unit := Some (StatusIdle, p), md_dirty := True,
      md_row := Some (StatusIdle, ar_at a), md_job := None\<rparr>)"
    using cl(1) mid_orderD(4)[OF mid] u
    by (intro ext) (simp add: stop_at_def Let_def s1_def[symmetric] m1 closed_def close_leg_def)
  have last': "st_lastMovementID (stop_at a s) = st_lastMovementID s" by (simp add: stop_at_def Let_def)
  show ?thesis
    using M last' t mid_orderD(4-8)[OF mid] cl(2)
    by (intro mid_order_end[OF mid]) (auto simp: mode_ok_def task_ok_def row_ok_def row_fits_def settled_def)
qed

lemma onLegArrived_ok:
  assumes econ: "dp_Economy D" and mid: "mid_order i (Some \<lparr>mf_MovementID = mv, mf_Status = Some MoveCompleted, mf_UnitID = i, mf_At = at\<rparr>) d s"
    and room: "id_room 1 s" and t: "t_UnitID t = i"
  shows "order_step d i 1 s (onLegArrived D i t mv at ms s)"
proof -
  define s1 where "s1 = to_chunk_of (tX at) (tY at) (UnitMovementCompleted i mv at) s"
  have same: "modes d s1 = modes d s" "st_lastMovementID s1 = st_lastMovementID s" by (simp_all add: s1_def)
  have c: "mid_order i (Some \<lparr>mf_MovementID = mv, mf_Status = Some MoveCompleted, mf_UnitID = i, mf_At = at\<rparr>) d s1" "id_room 1 s1"
    using mid_order_same[OF mid same] room same(2) by (simp_all add: id_room_def)
  have "order_step d i 1 s1 (onLegArrived D i t mv at ms s)"
    using arriveAtResource_ok[OF econ c t] arriveAtDeposit_ok[OF econ c t] endTask_ok[OF c(1) econ]
    by (auto simp: onLegArrived_def Let_def s1_def[symmetric])
  from order_step_from[OF this same] show ?thesis .
qed

lemma finish_arrival_ok:
  assumes econ: "dp_Economy D" and ok: "sim_ok d s" and m: "map_of (st_movements s) (ar_unitID a) = Some m"
    and id: "m_ID m = ar_movementID a" and room: "id_room 1 s"
  shows "order_step d (ar_unitID a) 1 s (finish_arrival D a s)"
proof -
  let ?i = "ar_unitID a" and ?s = "ClearMovement (ar_unitID a) s"
  note mid = arrived_mid(1)[OF ok m, where at = "ar_at a" and st' = "Some MoveCompleted", unfolded id] arrived_mid(2)[OF ok m]
  have room': "id_room 1 ?s" using room by (simp add: id_room_def)
  have unit: "has_key (st_units ?s) ?i" using mid(1) unit_at_mode(1) by (auto simp: mid_order_def)
  have lift: "order_step d ?i 1 ?s s' \<Longrightarrow> order_step d ?i 1 s s'" for s'
    by (simp add: order_step_def few_ids_def same_elsewhere_def)
  have tasks: "map_option te_Task (map_of (st_tasks ?s) ?i) = md_task (modes d s ?i)" using mode_fields(2)[of d ?s ?i] by simp
  have "order_step d ?i 1 ?s (finish_arrival D a s)"
  proof (cases "map_of (st_tasks ?s) ?i")
    case None
    with unit tasks stop_at_ok[OF mid(1)] show ?thesis by (simp add: finish_arrival_def Let_def)
  next
    case (Some e)
    with mid(2) tasks have t: "t_UnitID (te_Task e) = ?i" "IsLeg (t_Phase (te_Task e))" by auto
    from onLegArrived_ok[OF econ mid(1) room' t(1)] t(2) Some unit show ?thesis by (simp add: finish_arrival_def Let_def)
  qed
  from lift[OF this] show ?thesis .
qed

lemma arrivals_elsewhere:
  assumes "due_arrivals (st_movements s) as" "same_elsewhere i d s s'" "i \<notin> ar_unitID ` set as"
  shows "due_arrivals (st_movements s') as"
proof -
  have "\<exists>m'. map_of (st_movements s') (ar_unitID a) = Some m' \<and> m_ID m' = m_ID m"
    if "a \<in> set as" "map_of (st_movements s) (ar_unitID a) = Some m" for a m
  proof -
    have "ar_unitID a \<noteq> i" using assms(3) that(1) by auto
    with assms(2) have "md_move (modes d s' (ar_unitID a)) = md_move (modes d s (ar_unitID a))" by (simp add: same_elsewhere_def)
    with that(2) have "map_option repaired (map_of (st_movements s') (ar_unitID a)) = Some (repaired m)" by (simp add: mode_fields)
    then obtain m' where "map_of (st_movements s') (ar_unitID a) = Some m'" "repaired m' = repaired m" by auto
    then show ?thesis by (metis repaired_sel(1))
  qed
  with assms(1) show ?thesis unfolding due_arrivals_def by metis
qed

lemma finish_arrivals_ok:
  assumes "dp_Economy D" "sim_ok d s" "due_arrivals (st_movements s) as" "id_room (int (length as)) s"
  shows "keeps d (int (length as)) s (fold (finish_arrival D) as s)"
  using assms(2-)
proof (induction as arbitrary: s)
  case (Cons a as)
  obtain m where m: "map_of (st_movements s) (ar_unitID a) = Some m" "m_ID m = ar_movementID a"
    using Cons.prems(2) by (auto simp: due_arrivals_def)
  have room: "id_room 1 s" using Cons.prems(3) by (simp add: id_room_def)
  note step = finish_arrival_ok[OF assms(1) Cons.prems(1) m room]
  have rest: "due_arrivals (st_movements s) as" "ar_unitID a \<notin> ar_unitID ` set as"
    using Cons.prems(2) by (auto simp: due_arrivals_def)
  have "due_arrivals (st_movements (finish_arrival D a s)) as"
    using arrivals_elsewhere[OF rest(1) _ rest(2), where d = d] step by (simp add: order_step_def)
  moreover have "id_room (int (length as)) (finish_arrival D a s)"
    using id_room_keeps[OF order_keeps[OF step], of "int (length as)"] Cons.prems(3) by simp
  ultimately have "keeps d (int (length as)) (finish_arrival D a s) (fold (finish_arrival D) as (finish_arrival D a s))"
    by (intro Cons.IH[OF order_step_ok[OF step]])
  from keeps_trans[OF order_keeps[OF step] this] show ?case by (simp add: add.commute)
qed (simp add: keeps_refl)

lemma AdvanceMovements_ok:
  assumes econ: "dp_Economy D" and ok: "sim_ok d s" and room: "id_room (int (card (dom (map_of (st_movements s))))) s"
  shows "keeps d (int (card (dom (map_of (st_movements s))))) s (AdvanceMovements D now s)"
proof -
  obtain s1 as where e: "fold (advance_unit now) (sorted_keys (st_movements s)) (s, []) = (s1, as)" by fastforce
  have keys: "distinct (sorted_keys (st_movements s))" "set (sorted_keys (st_movements s)) = dom (map_of (st_movements s))"
    by simp_all
  have a: "keeps d 0 s s1 \<and> due_arrivals (st_movements s1) as \<and> ar_unitID ` set as \<subseteq> set (sorted_keys (st_movements s)) \<union> ar_unitID ` set ([] :: arrival list)"
    by (rule advance_units_ok[OF ok _ keys(1) _ e]) (simp_all add: due_arrivals_def)
  have "length as = card (ar_unitID ` set as)" using a by (metis due_arrivals_def distinct_card length_map set_map)
  also have "\<dots> \<le> card (dom (map_of (st_movements s)))" using a keys(2) by (intro card_mono) (simp_all add: finite_dom_map_of)
  finally have le: "int (length as) \<le> int (card (dom (map_of (st_movements s))))" by simp
  then have "id_room (0 + int (length as)) s" using room by (simp add: id_room_def)
  then have "keeps d (int (length as)) s1 (fold (finish_arrival D) as s1)"
    using a id_room_keeps by (intro finish_arrivals_ok[OF econ]) (auto simp: keeps_def)
  from keeps_mono[OF keeps_trans[OF conjunct1[OF a] this]] le show ?thesis by (simp add: AdvanceMovements_def e)
qed

subsection \<open>Work, concealment, exits, regrowth and walls\<close>

lemma advance_task_ok:
  assumes econ: "dp_Economy D" and ok: "sim_ok d s" and room: "id_room 1 s"
  shows "keeps d 1 s (advance_task D now i s)"
proof (cases "\<exists>e. map_of (st_tasks s) i = Some e \<and> Due_task (te_Task e) now")
  case False
  with ok show ?thesis by (auto simp: advance_task_def keeps_refl split: option.splits)
next
  case True
  then obtain e where e: "map_of (st_tasks s) i = Some e" "Due_task (te_Task e) now" by blast
  have t: "md_task (modes d s i) = Some (te_Task e)" using e by (simp add: mode_fields)
  obtain st p where u: "md_unit (modes d s i) = Some (st, p)"
    using sim_okD(1)[OF ok, of i] t by (cases "md_unit (modes d s i)") (auto simp: mode_ok_def)
  have "t_UnitID (te_Task e) = i" "st = StatusWorking"
    using mode_okD(6)[OF sim_okD(1)[OF ok, of i] u] t e(2) by (auto simp: task_ok_def Due_task_def IsLeg_def)
  with unit_at_mode[OF u] leaveResource_ok[OF econ ok room, of "te_Task e" i] e show ?thesis
    by (simp add: advance_task_def order_keeps)
qed

lemma advanceTasks_ok:
  assumes econ: "dp_Economy D" and ok: "sim_ok d s" and room: "id_room (int (card (dom (map_of (st_tasks s))))) s"
  shows "keeps d (int (card (dom (map_of (st_tasks s))))) s (advanceTasks D now s)"
proof (cases "st_tasks s = []")
  case True
  with ok show ?thesis by (simp add: advanceTasks_def keeps_refl)
next
  case False
  define ids where "ids = filter (\<lambda>i. case map_of (st_tasks s) i of Some e \<Rightarrow> Due_task (te_Task e) now | None \<Rightarrow> False)
    (sorted_keys (st_tasks s))"
  have "length ids \<le> length (sorted_keys (st_tasks s))" by (simp add: ids_def)
  also have "\<dots> = card (dom (map_of (st_tasks s)))" by (metis distinct_card set_sorted_keys sorted_sorted_keys(2))
  finally have le: "int (length ids) \<le> int (card (dom (map_of (st_tasks s))))" by simp
  then have "id_room (int (length ids)) s" using room by (simp add: id_room_def)
  from keeps_mono[OF fold_keeps1[OF advance_task_ok[OF econ] ok this] le] False show ?thesis
    by (simp add: advanceTasks_def ids_def)
qed

lemma modes_conceal [simp]: "modes d (s\<lparr>st_concealCandidates := l\<rparr>) = modes d s"
  by (rule modes_cong) simp_all

lemma modes_emitConcealment [simp]:
  "modes d (emitConcealment i prev now s) = modes d s" "st_lastMovementID (emitConcealment i prev now s) = st_lastMovementID s"
  by (simp_all add: emitConcealment_def Let_def)

lemma conceal_unit_ok:
  assumes ok: "sim_ok d s"
  shows "order_step d i 0 s (conceal_unit now i s)"
proof (cases "map_of (st_units s) i")
  case None
  with ok show ?thesis by (simp add: conceal_unit_def order_step_refl)
next
  case (Some u)
  let ?next = "NextStatus (u_Status u) (u_HP u) (has_key (st_movements s) i) (SafeZoneAt s (u_X u) (u_Y u) \<noteq> None)"
  have m: "md_unit (modes d s i) = Some (u_Status u, unit_Tile u)" using Some by (simp add: modes_def)
  have mv: "has_key (st_movements s) i \<longleftrightarrow> u_Status u = StatusMoving"
    using mode_okD(4)[OF sim_okD(1)[OF ok, of i] m] by (auto simp: mode_fields has_key_def)
  show ?thesis
  proof (cases "?next = u_Status u")
    case True
    with Some ok show ?thesis by (simp add: conceal_unit_def Let_def order_step_refl)
  next
    case False
    then have "u_Status u \<in> {StatusIdle, StatusHidden}" "?next = StatusIdle \<or> ?next = StatusHidden"
      using mv by (auto simp: NextStatus_def split: unit_status.splits if_splits)
    then have "order_step d i 0 s (MarkDirty i (set_status i ?next s))" by (intro rest_ok[OF ok m]) auto
    from order_step_cong[OF this] False Some show ?thesis by (simp add: conceal_unit_def Let_def)
  qed
qed

lemma evaluateConcealment_ok: "sim_ok d s \<Longrightarrow> keeps d 0 s (evaluateConcealment s)"
proof -
  assume ok: "sim_ok d s"
  obtain ids s1 where e: "drainConcealCandidates s = (ids, s1)" by fastforce
  have s1: "modes d s1 = modes d s" "st_lastMovementID s1 = st_lastMovementID s"
    using e by (auto simp: drainConcealCandidates_def split: if_splits)
  have "keeps d 0 s1 (fold (conceal_unit (NowMs s1)) ids s1)"
    by (rule fold_keeps0[OF order_keeps[OF conceal_unit_ok] sim_ok_same[OF ok s1]])
  from keeps_trans[OF keeps_same[OF ok order_refl s1] this] keeps_same[OF ok order_refl s1] show ?thesis
    by (simp add: evaluateConcealment_def e)
qed

lemma retryPendingExits_ok: "dp_Garrisons D \<Longrightarrow> sim_ok d s \<Longrightarrow> keeps d 0 s (retryPendingExits D s)"
  unfolding retryPendingExits_def by (rule fold_keeps0[OF order_keeps[OF retry_exit_ok]])

lemma regrow_layer_ok: "sim_ok d s \<Longrightarrow> keeps d 0 s (regrow_layer now l s)"
proof -
  assume ok: "sim_ok d s"
  have tile: "keeps d 0 s (regrow_tile l t s)" if "sim_ok d s" for t s
    using that by (intro keeps_same) (simp_all add: regrow_tile_def)
  have "keeps d 0 s' (fold (regrow_tile l) ts s')" if "sim_ok d s'" for ts s' using that by (intro fold_keeps0 tile)
  moreover have "sim_ok d (upd_layer l f s)" for f using ok by (rule sim_ok_same) simp_all
  ultimately have "keeps d 0 (upd_layer l f s) (fold (regrow_tile l) ts (upd_layer l f s))" for f ts by blast
  then have "keeps d 0 s (fold (regrow_tile l) ts (upd_layer l f s))" for f ts by (simp add: keeps_def few_ids_def)
  with ok show ?thesis by (simp add: regrow_layer_def Let_def keeps_refl)
qed

lemma regrowDeposits_ok: "sim_ok d s \<Longrightarrow> keeps d 0 s (regrowDeposits now s)"
  unfolding regrowDeposits_def by (intro fold_keeps0 regrow_layer_ok)

lemma order_step_sent:
  assumes "order_step d i k s s'"
  shows "order_step d i k s (send m s')" "order_step d i k s (to_chunk_of x y c s')"
  by (rule order_step_cong[OF assms]; simp)+

lemma evict_unit_ok:
  assumes ok: "sim_ok d s"
  shows "order_step d i 0 s (evict_unit f now i s)"
proof -
  note w = stopWorking_ok[OF ok, of i]
  let ?s = "stopWorking i s"
  have "order_step d i 0 ?s (MarkDirty i (moveUnit i to prev now ?s))" for to prev
  proof (cases "md_unit (modes d ?s i)")
    case None
    let ?md = "(modes d ?s i)\<lparr>md_unit := None, md_dirty := True\<rparr>"
    have "mode_ok i ?md" using sim_okD(1)[OF order_step_ok[OF w], of i] None by (simp add: mode_ok_def)
    then show ?thesis by (intro order_step_mode[OF order_step_ok[OF w], where md = ?md]) (simp_all add: None)
  next
    case (Some q)
    then obtain st p where u: "md_unit (modes d ?s i) = Some (st, p)" by (cases q) auto
    let ?md = "(modes d ?s i)\<lparr>md_unit := Some (st, to), md_dirty := True\<rparr>"
    have "mode_ok i ?md"
      using mode_okD[OF sim_okD(1)[OF order_step_ok[OF w], of i] u] mode_ok_row[OF sim_okD(1)[OF order_step_ok[OF w], of i] u]
      by (auto simp: mode_ok_def row_ok_def)
    then show ?thesis by (intro order_step_mode[OF order_step_ok[OF w], where md = ?md]) (simp_all add: u)
  qed
  then have "order_step d i 0 s (MarkDirty i (moveUnit i to prev now ?s))" for to prev by (rule order_step_0_trans[OF w])
  with w show ?thesis by (auto simp: evict_unit_def Let_def intro!: order_step_sent split: option.split)
qed

lemma clearFootprint_ok: "sim_ok d s \<Longrightarrow> keeps d 0 s (clearFootprint f now s)"
proof -
  assume ok: "sim_ok d s"
  let ?s = "fold (\<lambda>i. cancelActiveMovement i ReasonPathBlocked now) (blockedRoutes s now) s"
  have a: "keeps d 0 s ?s" by (rule fold_keeps0[OF order_keeps[OF cancel_step] ok])
  have "keeps d 0 ?s (fold (evict_unit f now) (unitsInside ?s f) ?s)"
    by (rule fold_keeps0[OF order_keeps[OF evict_unit_ok] keeps_ok[OF a]])
  from keeps_trans[OF a this] show ?thesis by (simp add: clearFootprint_def Let_def)
qed

subsection \<open>The answer of an entry\<close>

text \<open>The queue writes what it holds: the disk moves on and the abstraction stays.\<close>

lemma modes_written: "modes (disk_of d s) (s\<lparr>sm_jobs := []\<rparr>) = modes d s"
  by (rule ext) (simp add: modes_def disk_of_def)

lemma sim_ok_written: "sim_ok (disk_of d s) (s\<lparr>sm_jobs := []\<rparr>) \<longleftrightarrow> sim_ok d s"
  by (simp add: sim_ok_def modes_written)

lemma entry_refused_ok:
  assumes ok: "sim_ok d s"
  shows "order_step d i 0 s (handleGarrisonEntryResolved p r i c (Some e) s)"
proof -
  have "mode_ok i ((modes d s i)\<lparr>md_entering := False\<rparr>)"
    using sim_okD(1)[OF ok, of i] by (auto simp: mode_ok_def row_ok_def split: option.splits)
  then have "order_step d i 0 s (s\<lparr>st_entering := del_key i (st_entering s)\<rparr>)"
    by (intro order_step_mode[OF ok, where md = "(modes d s i)\<lparr>md_entering := False\<rparr>"]) simp_all
  from order_step_cong[OF this] show ?thesis by (simp add: handleGarrisonEntryResolved_def Let_def)
qed

lemma entry_done_ok:
  assumes ok: "sim_ok d s" and jobs: "sm_jobs s = []" and e: "md_entering (modes d s i)"
  shows "keeps (DiskEnter i d) 0 s (handleGarrisonEntryResolved p r i c None s)"
proof -
  let ?d = "DiskEnter i d" and ?s = "handleGarrisonEntryResolved p r i c None s"
  have dk: "disk_of d s = d" "disk_of ?d s = ?d" using jobs by (simp_all add: disk_of_def)
  define md where "md = (modes d s i)\<lparr>md_row := map_option (\<lambda>(_, t). (StatusGarrisoned, t)) (md_row (modes d s i)),
    md_leg := None, md_job := None\<rparr>"
  have base: "modes ?d s = (modes d s)(i := md)"
    by (rule ext) (simp add: modes_def md_def dk, auto simp: DiskEnter_def DeleteTask_def Let_def split: option.split)
  have last': "st_lastMovementID ?s = st_lastMovementID s"
    by (simp add: handleGarrisonEntryResolved_def Let_def set_status_def)
  have "\<exists>md'. modes ?d ?s = (modes d s)(i := md') \<and> mode_ok i md' \<and> md_leg md' = None"
  proof (cases "md_unit (modes d s i)")
    case None
    with sim_okD(1)[OF ok, of i] e show ?thesis by (simp add: mode_ok_def)
  next
    case (Some q)
    then obtain st t where u: "md_unit (modes d s i) = Some (st, t)" by (cases q) auto
    note m = mode_okD[OF sim_okD(1)[OF ok, of i] u]
    obtain old p where row: "md_row (modes d s i) = Some (old, p)" "old \<noteq> StatusDead"
      using mode_ok_row[OF sim_okD(1)[OF ok, of i] u] by blast
    have st: "st = StatusIdle \<or> st = StatusHidden" by (rule m(8)[OF e])
    let ?md = "md\<lparr>md_entering := False, md_unit := Some (StatusGarrisoned, t), md_host := Some c\<rparr>"
    have "modes ?d ?s = (modes d s)(i := ?md)"
      using unit_at_mode(1)[OF u] u by (simp add: handleGarrisonEntryResolved_def Let_def base md_def)
    moreover have "mode_ok i ?md"
      using m st row by (auto simp: mode_ok_def md_def task_ok_def row_ok_def row_fits_def settled_def split: option.splits)
    ultimately show ?thesis by (intro exI[of _ ?md]) (simp add: md_def)
  qed
  then obtain md' where md': "modes ?d ?s = (modes d s)(i := md')" "mode_ok i md'" "md_leg md' = None" by blast
  have "legs_ok ((legs (modes d s))(i := None)) (st_lastMovementID s)" by (rule legs_ok_none[OF sim_okD(2)[OF ok]])
  then have "sim_ok ?d ?s" using md' sim_okD[OF ok] last' by (simp add: sim_ok_def)
  with last' show ?thesis by (simp add: keeps_def few_ids_def)
qed

subsection \<open>The flush of the units\<close>

lemma flush_row_twice [simp]: "flush_row st t (flush_row st t r) = flush_row st t r"
  by (auto simp: flush_row_def split: option.split prod.split)

lemma DiskPositions_other [simp]:
  "dk_legs (DiskPositions us d) = dk_legs d" "dk_tasks (DiskPositions us d) = dk_tasks d"
  unfolding DiskPositions_def by (induction us arbitrary: d) simp_all

lemma DiskPositions_row:
  assumes "\<And>u. u \<in> set us \<Longrightarrow> u_ID u = j \<Longrightarrow> u_Status u = st \<and> unit_Tile u = t"
  shows "dk_rows (DiskPositions us d) j = (if j \<in> u_ID ` set us then flush_row st t (dk_rows d j) else dk_rows d j)"
  using assms
proof (induction us arbitrary: d)
  case (Cons u us)
  have "dk_rows (DiskPositions us (FlushPosition (u_ID u) (u_Status u) (unit_Tile u) d)) j =
      (if j \<in> u_ID ` set us then flush_row st t (dk_rows (FlushPosition (u_ID u) (u_Status u) (unit_Tile u) d) j)
       else dk_rows (FlushPosition (u_ID u) (u_Status u) (unit_Tile u) d) j)"
    by (rule Cons.IH) (use Cons.prems in simp)
  with Cons.prems[of u] show ?case by (auto simp: DiskPositions_def flush_row_def[symmetric])
qed (simp add: DiskPositions_def)

lemma disk_of_lotes: "disk_of d (fold submit_lote lotes s) = DiskPositions (concat lotes) (disk_of d s)"
proof (induction lotes arbitrary: s)
  case (Cons l lotes)
  have "disk_of d (submit_lote l s) = DiskPositions l (disk_of d s)"
    by (cases l) (simp_all add: submit_lote_def DiskPositions_def)
  then show ?case by (simp add: Cons.IH, simp add: DiskPositions_def)
qed (simp add: DiskPositions_def)

lemma disk_of_dirty [simp]: "disk_of d (s\<lparr>st_unitDirty := l\<rparr>) = disk_of d s"
  by (rule disk_of_cong) simp

lemma lotes_sel [simp]:
  "st_units (fold submit_lote lotes s) = st_units s" "st_movements (fold submit_lote lotes s) = st_movements s"
  "st_tasks (fold submit_lote lotes s) = st_tasks s" "st_garrisonedIn (fold submit_lote lotes s) = st_garrisonedIn s"
  "st_unitDirty (fold submit_lote lotes s) = st_unitDirty s" "st_entering (fold submit_lote lotes s) = st_entering s"
  "st_lastMovementID (fold submit_lote lotes s) = st_lastMovementID s"
  by (induction lotes arbitrary: s) (simp_all add: submit_lote_def submit_job_def split: list.split)

definition flushable :: "sim \<Rightarrow> unit_rec \<Rightarrow> bool" where
  "flushable s u \<longleftrightarrow> \<not> has_key (st_movements s) (u_ID u) \<and> \<not> has_key (st_entering s) (u_ID u)"

text \<open>The batches hold exactly the units to flush; what stays dirty are the units entering a city.\<close>

lemma flush_units_fold:
  assumes "fold (flush_unit n) us (s, lotes) = (s', lotes')" "length lotes = n" "0 < n" "n < 4294967296"
  shows "set (concat lotes') = set (concat lotes) \<union> flushed ` {u \<in> set us. flushable s u} \<and>
    (\<exists>l. s' = s\<lparr>st_unitDirty := l\<rparr> \<and> (\<forall>j. has_key l j \<longleftrightarrow> has_key (st_unitDirty s) j \<or>
       (\<exists>u\<in>set us. u_ID u = j \<and> \<not> has_key (st_movements s) j \<and> has_key (st_entering s) j)))"
  using assms(1,2)
proof (induction us arbitrary: s lotes)
  case Nil
  then show ?case by (auto intro: exI[of _ "st_unitDirty s"])
next
  case (Cons u us)
  obtain s1 lotes1 where e: "flush_unit n u (s, lotes) = (s1, lotes1)" by fastforce
  have rest: "fold (flush_unit n) us (s1, lotes1) = (s', lotes')" using Cons.prems(1) e by simp
  let ?p = "PartitionOf (UnitKey (u_ID u)) n"
  have p: "?p < length lotes" using Cons.prems(2) assms(3,4) by (simp add: PartitionOf_less)
  have upd: "set (concat (ls[k := ls ! k @ [x]])) = insert x (set (concat ls))" if "k < length ls" for ls :: "unit_rec list list" and k x
    using that by (induction ls arbitrary: k) (auto simp: nth_Cons split: nat.splits)
  have eq: "lotes1 = (if flushable s u then lotes[?p := lotes ! ?p @ [flushed u]] else lotes)"
    using e by (auto simp: flush_unit_def flushable_def IsEntering_def Let_def split: if_splits)
  then have l1: "length lotes1 = n" using Cons.prems(2) by simp
  have "{v \<in> {u}. flushable s v} = (if flushable s u then {u} else {})" by auto
  with eq upd[OF p, of "flushed u"]
  have c1: "set (concat lotes1) = set (concat lotes) \<union> flushed ` {v \<in> {u}. flushable s v}" by (simp del: set_concat)
  have "\<exists>l. s1 = s\<lparr>st_unitDirty := l\<rparr> \<and> (\<forall>j. has_key l j \<longleftrightarrow> has_key (st_unitDirty s) j \<or>
       u_ID u = j \<and> \<not> has_key (st_movements s) j \<and> has_key (st_entering s) j)"
    using e by (auto simp: flush_unit_def keepDirty_def IsEntering_def Let_def split: if_splits
        intro: exI[of _ "st_unitDirty s"])
  then obtain l where l: "s1 = s\<lparr>st_unitDirty := l\<rparr>" "\<forall>j. has_key l j \<longleftrightarrow> has_key (st_unitDirty s) j \<or>
       u_ID u = j \<and> \<not> has_key (st_movements s) j \<and> has_key (st_entering s) j" by blast
  have fl: "flushable s1 = flushable s" using l(1) by (simp add: fun_eq_iff flushable_def)
  note ih = Cons.IH[OF rest l1]
  from conjunct2[OF ih] obtain k where k: "s' = s1\<lparr>st_unitDirty := k\<rparr>"
      "\<forall>j. has_key k j \<longleftrightarrow> has_key (st_unitDirty s1) j \<or>
         (\<exists>u\<in>set us. u_ID u = j \<and> \<not> has_key (st_movements s1) j \<and> has_key (st_entering s1) j)" by blast
  have "set (concat lotes') = set (concat lotes) \<union> flushed ` {v \<in> set (u # us). flushable s v}"
    using conjunct1[OF ih] c1 fl by auto
  moreover have "s' = s\<lparr>st_unitDirty := k\<rparr>" using k(1) l(1) by simp
  moreover have "has_key k j \<longleftrightarrow> has_key (st_unitDirty s) j \<or>
       (\<exists>u\<in>set (u # us). u_ID u = j \<and> \<not> has_key (st_movements s) j \<and> has_key (st_entering s) j)" for j
    using k(2) l by auto
  ultimately show ?case by blast
qed

lemma flushUnits_ok:
  assumes ok: "sim_ok d s" and parts: "dp_Partitions D < 4294967296"
  shows "keeps d 0 s (snd (flushUnits D s))"
proof (cases "fst (DrainDirty s) = []")
  case True
  show ?thesis
  proof (cases "st_unitDirty s = []")
    case True
    with ok show ?thesis by (simp add: flushUnits_def DrainDirty_def keeps_refl)
  next
    case False
    have "md_unit (modes d s j) = None" if "has_key (st_unitDirty s) j" for j
      using that True False
      by (auto simp: DrainDirty_def modes_def has_key_def List.map_filter_def filter_empty_conv dest!: in_sorted_keys)
    then have "mode_ok j ((modes d s j)\<lparr>md_dirty := False\<rparr>)" for j
      using sim_okD(1)[OF ok, of j] by (cases "md_dirty (modes d s j)")
        (auto simp: mode_ok_def row_ok_def modes_def[of d s] split: option.splits)
    moreover have "modes d (s\<lparr>st_unitDirty := []\<rparr>) = (\<lambda>j. (modes d s j)\<lparr>md_dirty := False\<rparr>)"
      by (rule ext) (simp add: modes_def disk_of_def has_key_def)
    ultimately have "sim_ok d (s\<lparr>st_unitDirty := []\<rparr>)" using sim_okD[OF ok] by (simp add: sim_ok_def legs_def)
    with True False show ?thesis by (simp add: flushUnits_def DrainDirty_def keeps_def few_ids_def Let_def)
  qed
next
  case False
  define us where "us = List.map_filter (\<lambda>i. map_of (st_units s) i) (sorted_keys (st_unitDirty s))"
  define n where "n = (if dp_Partitions D < 1 then 1 else nat (dp_Partitions D))"
  let ?s = "s\<lparr>st_unitDirty := []\<rparr>"
  have n: "0 < n" "n < 4294967296" using parts by (auto simp: n_def)
  have drain: "DrainDirty s = (us, ?s)" "us \<noteq> []" using False by (auto simp: DrainDirty_def us_def split: if_splits)
  obtain s1 lotes where e: "fold (flush_unit n) us (?s, replicate n []) = (s1, lotes)" by fastforce
  note fl = flush_units_fold[OF e _ n, simplified]
  obtain l where l: "s1 = ?s\<lparr>st_unitDirty := l\<rparr>" "\<forall>j. has_key l j \<longleftrightarrow>
      (\<exists>u\<in>set us. u_ID u = j \<and> \<not> has_key (st_movements s) j \<and> has_key (st_entering s) j)"
    using conjunct2[OF fl] by (auto simp: has_key_def)
  have res: "snd (flushUnits D s) = fold submit_lote lotes s1"
    using drain e by (simp add: flushUnits_def Let_def n_def[symmetric])
  have batch: "set (concat lotes) = flushed ` {u \<in> set us. flushable s u}"
    using conjunct1[OF fl] by (simp add: flushable_def)
  have own: "u_ID u = i \<and> map_of (st_units s) i = Some u"
    if "u \<in> set us" "u_ID u = i \<or> map_of (st_units s) i = Some u" for u i
  proof -
    from that(1) obtain k where k: "map_of (st_units s) k = Some u" by (auto simp: us_def List.map_filter_def)
    have idk: "u_ID v = m" if "map_of (st_units s) m = Some v" for m v
      using mode_okD(2)[OF sim_okD(1)[OF ok, of m] unit_Some_mode[OF that]] mode_fields(5)[of d s m] that by simp
    from idk[OF k] k that(2) idk show ?thesis by blast
  qed
  have mem: "v \<in> set us \<longleftrightarrow> (\<exists>i. has_key (st_unitDirty s) i \<and> map_of (st_units s) i = Some v)" for v
    by (force simp: us_def List.map_filter_def has_key_def)
  have "mode_ok j (modes d (fold submit_lote lotes s1) j)" for j
  proof (cases "map_of (st_units s) j")
    case None
    have "j \<notin> u_ID ` set (concat lotes)"
    proof
      assume "j \<in> u_ID ` set (concat lotes)"
      then obtain v where "v \<in> set us" "u_ID v = j" by (auto simp: batch flushed_def simp del: set_concat split: if_splits)
      with own[of v j] None show False by simp
    qed
    then have "dk_rows (DiskPositions (concat lotes) (disk_of d s)) j = dk_rows (disk_of d s) j"
      using DiskPositions_row[of "concat lotes" j] by (metis image_eqI)
    with None sim_okD(1)[OF ok, of j] show ?thesis by (simp add: mode_ok_def modes_def l(1) disk_of_lotes)
  next
    case (Some u)
    note md = mode_okD[OF sim_okD(1)[OF ok, of j] unit_Some_mode[OF Some]]
    obtain old p where row: "md_row (modes d s j) = Some (old, p)" "old \<noteq> StatusDead"
      using mode_ok_row[OF sim_okD(1)[OF ok, of j] unit_Some_mode[OF Some]] by blast
    have id: "u_ID u = j" using md(2) Some by (simp add: mode_fields)
    have inus: "u \<in> set us \<longleftrightarrow> has_key (st_unitDirty s) j" using mem[of u] own[of u] Some id by blast
    have only: "v = u" if "v \<in> set us" "u_ID v = j" for v using own[OF that(1), of j] that(2) Some by simp
    define hit where "hit \<longleftrightarrow> u \<in> set us \<and> flushable s u"
    have "u_ID (flushed v) = u_ID v" for v by (simp add: flushed_def)
    then have "j \<in> u_ID ` set (concat lotes) \<longleftrightarrow> j \<in> u_ID ` {v \<in> set us. flushable s v}"
      unfolding batch by (simp add: image_image)
    then have "j \<in> u_ID ` set (concat lotes) \<longleftrightarrow> hit" using only id by (auto simp: hit_def)
    moreover have "v \<in> set (concat lotes) \<Longrightarrow> u_ID v = j \<Longrightarrow> u_Status v = settled (u_Status u) \<and> unit_Tile v = unit_Tile u" for v
      using only by (auto simp: batch flushed_def settled_def unit_Tile_def simp del: set_concat split: if_splits)
    ultimately have row': "md_row (modes d (fold submit_lote lotes s1) j) =
        (if hit then Some (settled (u_Status u), unit_Tile u) else Some (old, p))"
      using row DiskPositions_row[of "concat lotes" j "settled (u_Status u)" "unit_Tile u"]
      by (simp add: modes_def l(1) disk_of_lotes)
    have dirty': "md_dirty (modes d (fold submit_lote lotes s1) j) \<longleftrightarrow>
        u \<in> set us \<and> \<not> has_key (st_movements s) j \<and> has_key (st_entering s) j"
      using l only id by (auto simp: modes_def)
    have same: "md_unit (modes d (fold submit_lote lotes s1) j) = Some (u_Status u, unit_Tile u)"
      "md_id (modes d (fold submit_lote lotes s1) j) = Some j"
      "md_move (modes d (fold submit_lote lotes s1) j) = md_move (modes d s j)"
      "md_task (modes d (fold submit_lote lotes s1) j) = md_task (modes d s j)"
      "md_host (modes d (fold submit_lote lotes s1) j) = md_host (modes d s j)"
      "md_entering (modes d (fold submit_lote lotes s1) j) = md_entering (modes d s j)"
      "md_leg (modes d (fold submit_lote lotes s1) j) = md_leg (modes d s j)"
      "md_job (modes d (fold submit_lote lotes s1) j) = md_job (modes d s j)"
      using Some id by (simp_all add: modes_def l(1) disk_of_lotes)
    have moving: "has_key (st_movements s) j \<longleftrightarrow> u_Status u = StatusMoving"
      using md(4) by (auto simp: mode_fields has_key_def)
    have fits: "row_fits (modes d (fold submit_lote lotes s1) j) x \<longleftrightarrow> row_fits (modes d s j) x" for x
      by (simp add: row_fits_def same)
    have old: "row_fits (modes d s j) old" "\<not> md_dirty (modes d s j) \<Longrightarrow> u_Status u \<noteq> StatusMoving \<Longrightarrow>
        old = settled (u_Status u) \<and> p = unit_Tile u"
      using md(9) row by (auto simp: row_ok_def)
    have dirty: "md_dirty (modes d s j) \<longleftrightarrow> u \<in> set us" using inus by (simp add: modes_def)
    have "row_ok (modes d (fold submit_lote lotes s1) j) (u_Status u) (unit_Tile u)"
    proof (cases hit)
      case True
      then have "u_Status u \<noteq> StatusMoving" using moving id by (simp add: hit_def flushable_def)
      then have "md_leg (modes d s j) = None" using md(4,10) by simp
      then have "row_fits (modes d s j) (settled (u_Status u))"
        using md(3,6,7,11) \<open>u_Status u \<noteq> StatusMoving\<close>
        by (auto simp: row_fits_def settled_def task_ok_def split: option.splits)
      with True row' fits show ?thesis by (simp add: row_ok_def)
    next
      case False
      then have "\<not> md_dirty (modes d (fold submit_lote lotes s1) j) \<Longrightarrow> u_Status u \<noteq> StatusMoving \<Longrightarrow> u \<notin> set us"
        using dirty' moving id by (auto simp: hit_def flushable_def)
      with False row' fits old dirty show ?thesis by (auto simp: row_ok_def)
    qed
    then show ?thesis unfolding mode_ok_def same using md(1,3-8,10,11) by simp
  qed
  moreover have "legs (modes d (fold submit_lote lotes s1)) = legs (modes d s)"
    by (rule ext) (simp add: legs_def modes_def l(1) disk_of_lotes)
  ultimately have "sim_ok d (fold submit_lote lotes s1)" using sim_okD(2,3)[OF ok] by (simp add: sim_ok_def l(1))
  then show ?thesis by (simp add: res keeps_def few_ids_def l(1))
qed

end
