(* ===== verification/City_Economy.thy ===== *)
theory City_Economy
  imports Gathering
begin

section \<open>The economy orders in the simulation\<close>

text \<open>
  Models the orders of internal/game/simulation/economy.go and advance.go, and the views of the
  buildings in siege.go: building, training and advancing an era in two phases (the tick debits and
  lets the deposits not yet written travel with the order, the transaction writes, the answer
  confirms or gives everything back), the works, trainings and advances that fall due, and the
  repetitions of what the queue could not write.
\<close>

subsection \<open>Buildings in memory\<close>

definition addBuilding :: "building \<Rightarrow> 'a state_scheme \<Rightarrow> 'a state_scheme" where
  "addBuilding b s =
     s\<lparr>st_buildings := put_key (b_ID b) b (st_buildings s),
       st_buildingAt := put_key (building_Tile b) (b_ID b) (st_buildingAt s),
       st_buildingIDs := insertSorted (st_buildingIDs s) (b_ID b)\<rparr>"

definition BuildingAt :: "'a state_scheme \<Rightarrow> tile \<Rightarrow> building option" where
  "BuildingAt s t = Option.bind (map_of (st_buildingAt s) t) (map_of (st_buildings s))"

definition all_buildings :: "'a state_scheme \<Rightarrow> building list" where
  "all_buildings s = List.map_filter (map_of (st_buildings s)) (st_buildingIDs s)"

definition BuildingsOf :: "'a state_scheme \<Rightarrow> int64 \<Rightarrow> building list" where
  "BuildingsOf s cityID = filter (\<lambda>b. b_CityID b = cityID) (all_buildings s)"

definition buildingOccupied :: "'a state_scheme \<Rightarrow> tile \<Rightarrow> bool" where
  "buildingOccupied s t \<longleftrightarrow>
     has_key (st_buildingAt s) t \<or> has_key (st_destroying s) t \<or> has_key (st_pendingBuilds s) t"

definition buildingsInChunk :: "'a state_scheme \<Rightarrow> int32 \<Rightarrow> int32 \<Rightarrow> building list" where
  "buildingsInChunk s cx cy = filter (\<lambda>b. ChunkOf (st_world s) (b_X b) (b_Y b) = (cx, cy)) (all_buildings s)"

definition houseMaxHP :: "'a state_scheme \<Rightarrow> uuid \<Rightarrow> int32 \<Rightarrow> int32" where
  "houseMaxHP s ownerID baseHP = ScaleAmount baseHP (trait s ownerID TraitHouseHP)"

definition productionMs :: "'a state_scheme \<Rightarrow> uuid \<Rightarrow> int64 \<Rightarrow> int64" where
  "productionMs s playerID baseMs = ScaleDuration baseMs (trait s playerID TraitProductionSpeed)"

definition buildingMaxHP :: "'a state_scheme \<Rightarrow> building \<Rightarrow> int32 option" where
  "buildingMaxHP s b =
     (case Lookup_building (b_Type b) of
        Err _ \<Rightarrow> None
      | Ok d \<Rightarrow> (case map_of (st_cities s) (b_CityID b) of
                  None \<Rightarrow> Some (bd_MaxHP d)
                | Some c \<Rightarrow> Some (houseMaxHP s (c_OwnerPlayerID c) (bd_MaxHP d))))"

definition houseHP :: "'a state_scheme \<Rightarrow> building \<Rightarrow> int32 \<times> int32" where
  "houseHP s b =
     (case buildingMaxHP s b of
        None \<Rightarrow> (0, 0)
      | Some m \<Rightarrow> (case map_of (st_houseDamage s) (b_ID b) of Some d \<Rightarrow> (hd_hp d, m) | None \<Rightarrow> (m, m)))"

definition BuildingView :: "building \<Rightarrow> building_view" where
  "BuildingView b =
     \<lparr>bv_ID = b_ID b, bv_CityID = b_CityID b, bv_Type = b_Type b, bv_X = b_X b, bv_Y = b_Y b,
      bv_Status = b_Status b, bv_CompletesAtMs = b_CompletesAtMs b, bv_HP = 0, bv_MaxHP = 0\<rparr>"

definition buildingView :: "'a state_scheme \<Rightarrow> building \<Rightarrow> building_view" where
  "buildingView s b =
     (let v = BuildingView b
      in case map_of (st_buildings s) (b_ID b) of
           Some cur \<Rightarrow> v\<lparr>bv_HP := fst (houseHP s cur), bv_MaxHP := snd (houseHP s cur)\<rparr>
         | None \<Rightarrow> (case buildingMaxHP s b of Some m \<Rightarrow> v\<lparr>bv_HP := m, bv_MaxHP := m\<rparr> | None \<Rightarrow> v))"

definition removeBuilding :: "building \<Rightarrow> 'a state_scheme \<Rightarrow> 'a state_scheme" where
  "removeBuilding b s =
     s\<lparr>st_buildings := del_key (b_ID b) (st_buildings s),
       st_buildingAt := (if map_of (st_buildingAt s) (building_Tile b) = Some (b_ID b)
                         then del_key (building_Tile b) (st_buildingAt s) else st_buildingAt s),
       st_buildingIDs := removeSorted (st_buildingIDs s) (b_ID b),
       st_houseDamage := del_key (b_ID b) (st_houseDamage s),
       st_pendingCompletions := del_key (b_ID b) (st_pendingCompletions s),
       st_destroying := put_key (building_Tile b) (b_ID b) (st_destroying s)\<rparr>"

subsection \<open>The economy of a city\<close>

text \<open>Writing through the pointer to the economy of a city.\<close>

definition upd_economy :: "int64 \<Rightarrow> (city_economy \<Rightarrow> city_economy) \<Rightarrow> 'a state_scheme \<Rightarrow> 'a state_scheme" where
  "upd_economy cityID f s = s\<lparr>st_economies := put_key cityID (f (economyOf s cityID)) (st_economies s)\<rparr>"

definition set_production :: "int64 \<Rightarrow> production_state option \<Rightarrow> 'a state_scheme \<Rightarrow> 'a state_scheme" where
  "set_production cityID p = upd_economy cityID (\<lambda>e. e\<lparr>ce_production := p\<rparr>)"

definition set_advance :: "int64 \<Rightarrow> advance_state option \<Rightarrow> 'a state_scheme \<Rightarrow> 'a state_scheme" where
  "set_advance cityID a = upd_economy cityID (\<lambda>e. e\<lparr>ce_advance := a\<rparr>)"

definition pendingDeposits :: "city_economy \<Rightarrow> bool" where
  "pendingDeposits e \<longleftrightarrow> list_ex (\<lambda>r. rs_unflushed (stock_of e r) \<noteq> 0) Resources"

definition markStockDirty :: "int64 \<Rightarrow> 'a state_scheme \<Rightarrow> 'a state_scheme" where
  "markStockDirty cityID s =
     (case map_of (st_economies s) cityID of
        Some e \<Rightarrow> if pendingDeposits e then s\<lparr>st_stockDirty := mark_key cityID (st_stockDirty s)\<rparr>
                  else s\<lparr>st_stockDirty := del_key cityID (st_stockDirty s)\<rparr>
      | None \<Rightarrow> s\<lparr>st_stockDirty := del_key cityID (st_stockDirty s)\<rparr>)"

text \<open>The training in progress, and whether the database has confirmed it.\<close>

definition Production_of :: "'a state_scheme \<Rightarrow> int64 \<Rightarrow> (production \<times> bool) option" where
  "Production_of s cityID =
     (case map_of (st_economies s) cityID of
        None \<Rightarrow> None
      | Some e \<Rightarrow> map_option (\<lambda>p. (pr_Production p, \<not> pr_pending p)) (ce_production e))"

definition productionView :: "'a state_scheme \<Rightarrow> int64 \<Rightarrow> production_view option" where
  "productionView s cityID =
     (case Production_of s cityID of
        Some (p, True) \<Rightarrow> Some \<lparr>pv_UnitType = p_UnitType p, pv_CompletesAtMs = p_CompletesAtMs p\<rparr>
      | _ \<Rightarrow> None)"

definition Advance_of :: "'a state_scheme \<Rightarrow> int64 \<Rightarrow> (advance \<times> bool) option" where
  "Advance_of s cityID =
     (case map_of (st_economies s) cityID of
        None \<Rightarrow> None
      | Some e \<Rightarrow> map_option (\<lambda>a. (as_Advance a, \<not> as_pending a)) (ce_advance e))"

definition advanceView :: "'a state_scheme \<Rightarrow> int64 \<Rightarrow> advance_view option" where
  "advanceView s cityID =
     (case Advance_of s cityID of
        Some (a, True) \<Rightarrow> Some \<lparr>av_Era = a_To a, av_CompletesAtMs = a_CompletesAtMs a\<rparr>
      | _ \<Rightarrow> None)"

definition SetEras :: "era_definition list \<Rightarrow> 'a state_scheme \<Rightarrow> 'a state_scheme" where
  "SetEras defs s = s\<lparr>st_eraCaps := fold (\<lambda>d m. put_key (e_Code d) (e_PopulationCap d) m) defs []\<rparr>"

definition setAdvance :: "advance \<Rightarrow> 'a state_scheme \<Rightarrow> 'a state_scheme" where
  "setAdvance a = set_advance (a_CityID a) (Some \<lparr>as_Advance = a,
     as_costs = (case Next_step (a_From a) of Some st \<Rightarrow> es_Costs st | None \<Rightarrow> []), as_carried = [], as_pending = False\<rparr>)"

text \<open>The economy read at the boot.\<close>

definition install_stock :: "int64 \<times> stock \<Rightarrow> 'a state_scheme \<Rightarrow> 'a state_scheme" where
  "install_stock row s =
     (let (cityID, st) = row; r = s_Resource st
      in if \<not> Valid_resource r then s
         else put_stock cityID r ((stock_of (economyOf s cityID) r)\<lparr>rs_stock := st\<rparr>) s)"

definition install_production :: "production \<Rightarrow> 'a state_scheme \<Rightarrow> 'a state_scheme" where
  "install_production p s =
     (if \<not> InProgress p then s
      else let (k, pop) = (case Lookup_unit (p_UnitType p) of
                 Err _ \<Rightarrow> (\<lparr>k_Resource = '''', k_Amount = 0\<rparr>, 1)
               | Ok d \<Rightarrow> (ud_TrainCost d, ud_PopulationCost d))
           in set_production (p_CityID p) (Some \<lparr>pr_Production = p, pr_cost = k, pr_popCost = pop, pr_carried = 0,
                pr_pending = False, pr_birthing = False, pr_retryAtMs = 0\<rparr>) s)"

definition SetEconomy ::
  "(int64 \<times> stock) list \<Rightarrow> building list \<Rightarrow> production list \<Rightarrow> gtask list \<Rightarrow> advance list \<Rightarrow> 'a state_scheme \<Rightarrow> 'a state_scheme" where
  "SetEconomy stocks bs ps ts adv s =
     fold setAdvance adv (fold (\<lambda>t s. snd (setTask t s)) ts
       (fold install_production ps (fold addBuilding bs (fold install_stock stocks s))))"

subsection \<open>Reserving and giving back\<close>

text \<open>
  What the three orders share: the cost leaves the stock in memory, and the deposits of that
  resource not written yet leave with the order; an order that is refused gives both back.
\<close>

definition reserve_stock :: "int64 \<Rightarrow> cost \<Rightarrow> 'a state_scheme \<Rightarrow> economy_error + int64 \<times> int64 \<times> 'a state_scheme" where
  "reserve_stock cityID k s =
     (let rs = stock_of (economyOf s cityID) (k_Resource k)
      in case Debit (rs_stock rs) k of
           Err e \<Rightarrow> Err e
         | Ok st \<Rightarrow> Ok (rs_unflushed rs, s_Version st,
                       put_stock cityID (k_Resource k) \<lparr>rs_stock = st, rs_unflushed = 0\<rparr> s))"

definition give_back :: "int64 \<Rightarrow> cost \<Rightarrow> int64 \<Rightarrow> 'a state_scheme \<Rightarrow> 'a state_scheme" where
  "give_back cityID k carried s =
     (let rs = stock_of (economyOf s cityID) (k_Resource k);
          rs = (case Credit (rs_stock rs) (k_Amount k) of Err _ \<Rightarrow> rs | Ok st \<Rightarrow> rs\<lparr>rs_stock := st\<rparr>)
      in put_stock cityID (k_Resource k) (rs\<lparr>rs_unflushed := i64 (rs_unflushed rs + carried)\<rparr>) s)"

definition economyErrorCode :: "order_error \<Rightarrow> code" where
  "economyErrorCode e =
     (case e of
        ErrCityNotFound \<Rightarrow> CodeCityNotFound
      | ErrOfEconomy ErrInsufficientResources \<Rightarrow> CodeInsufficientResources
      | ErrCityBusy \<Rightarrow> CodeCityBusy
      | ErrUnavailable \<Rightarrow> CodeNotImplemented
      | ErrOfCity ErrPopulationLimit \<Rightarrow> CodePopulationLimitReached
      | ErrInvalidSite \<Rightarrow> CodeInvalidTarget
      | ErrUnknownType_building \<Rightarrow> CodeInvalidTarget
      | ErrOfUnit ErrUnknownType \<Rightarrow> CodeInvalidTarget
      | ErrNotTrainable \<Rightarrow> CodeInvalidTarget
      | _ \<Rightarrow> CodeInternalError)"

subsection \<open>city.build\<close>

definition handleBuildBuilding :: "deps \<Rightarrow> uuid \<Rightarrow> string \<Rightarrow> int64 \<Rightarrow> building_type \<Rightarrow> tile \<Rightarrow> sim \<Rightarrow> sim" where
  "handleBuildBuilding D playerID requestID cityID bt t s =
     (let co = map_of (st_cities s) cityID;
          r = (case Lookup_building bt of Err _ \<Rightarrow> ResourceWood | Ok d \<Rightarrow> k_Resource (bd_Cost d));
          stock = map_option (\<lambda>c. rs_stock (stock_of (economyOf s (c_ID c)) r)) co
      in case CanBuild co playerID bt t (Some (buildingOccupied s)) stock of
           Err e \<Rightarrow> economyError playerID requestID (economyErrorCode e) s
         | Ok def \<Rightarrow>
             if \<not> dp_Economy D then economyError playerID requestID CodeInternalError s
             else let cid = c_ID (the co); nowMs = NowMs s
                  in case reserve_stock cid (bd_Cost def) s of
                       Err _ \<Rightarrow> economyError playerID requestID CodeInsufficientResources s
                     | Ok (carried, version, s) \<Rightarrow>
                         let s = markStockDirty cid s;
                             b = \<lparr>b_ID = 0, b_CityID = cid, b_Type = bd_Type def, b_X = tX t, b_Y = tY t,
                                  b_Status = StatusUnderConstruction,
                                  b_CompletesAtMs = i64 (nowMs + productionMs s playerID (bd_BuildMs def))\<rparr>;
                             s = s\<lparr>st_pendingBuilds := put_key t
                                  \<lparr>pb_playerID = playerID, pb_requestID = requestID, pb_building = b,
                                   pb_cost = bd_Cost def, pb_carried = carried\<rparr> (st_pendingBuilds s)\<rparr>
                         in submit_job ''city.build'' (CityKey cid)
                              (Build \<lparr>bo_RequestID = requestID, bo_PlayerID = playerID, bo_Building = b,
                                 bo_Stock = (cid, k_Resource (bd_Cost def), i64 (carried - k_Amount (bd_Cost def)), version),
                                 bo_Tick = st_tick s\<rparr>)
                              (Some [BuildResolved playerID requestID cid t 0 (Some CodeInternalError)]) s)"

definition handleBuildResolved :: "uuid \<Rightarrow> string \<Rightarrow> int64 \<Rightarrow> tile \<Rightarrow> int64 \<Rightarrow> code option \<Rightarrow> sim \<Rightarrow> sim" where
  "handleBuildResolved playerID requestID cityID t buildingID c s0 =
     (case map_of (st_pendingBuilds s0) t of
        None \<Rightarrow> s0
      | Some pb \<Rightarrow>
          if pb_requestID pb \<noteq> requestID then s0
          else let s = s0\<lparr>st_pendingBuilds := del_key t (st_pendingBuilds s0)\<rparr>
               in case map_of (st_cities s) cityID of
                    None \<Rightarrow> s
                  | Some cy \<Rightarrow>
                      (case c of
                         Some e \<Rightarrow>
                           let s = markStockDirty (c_ID cy) (give_back (c_ID cy) (pb_cost pb) (pb_carried pb) s)
                           in broadcastStocks cy (economyError playerID requestID e s)
                       | None \<Rightarrow>
                           let b = (pb_building pb)\<lparr>b_ID := buildingID\<rparr>;
                               s = addBuilding b s;
                               (cx, ch) = ChunkOf (st_world s) (b_X b) (b_Y b);
                               s = send (ToChunk cx ch (BuildingSpawn (buildingView s b))) s
                           in broadcastStocks cy s))"

subsection \<open>city.train\<close>

definition handleTrainUnit :: "deps \<Rightarrow> uuid \<Rightarrow> string \<Rightarrow> int64 \<Rightarrow> unit_type \<Rightarrow> sim \<Rightarrow> sim" where
  "handleTrainUnit D playerID requestID cityID ut s =
     (let co = map_of (st_cities s) cityID;
          r = (case Lookup_unit ut of Err _ \<Rightarrow> ResourceWood | Ok d \<Rightarrow> k_Resource (ud_TrainCost d));
          (stock, busy) = (case co of
             None \<Rightarrow> (None, False)
           | Some c \<Rightarrow> let eco = economyOf s (c_ID c)
                       in (Some (rs_stock (stock_of eco r)), ce_production eco \<noteq> None \<or> ce_advance eco \<noteq> None))
      in case CanTrain co playerID ut busy stock of
           Err e \<Rightarrow> economyError playerID requestID (economyErrorCode e) s
         | Ok def \<Rightarrow>
             if \<not> dp_Economy D then economyError playerID requestID CodeInternalError s
             else let cid = c_ID (the co); nowMs = NowMs s
                  in case reserve_stock cid (ud_TrainCost def) s of
                       Err _ \<Rightarrow> economyError playerID requestID CodeInsufficientResources s
                     | Ok (carried, version, s) \<Rightarrow>
                         let s = markStockDirty cid s;
                             s = upd_city cid (\<lambda>c. c\<lparr>c_Population := i32 (c_Population c + ud_PopulationCost def)\<rparr>) s;
                             p = \<lparr>p_CityID = cid, p_UnitType = ud_Type def,
                                  p_CompletesAtMs = i64 (nowMs + productionMs s playerID (ud_TrainMs def)),
                                  p_RequestID = requestID, p_UnitID = 0\<rparr>;
                             s = set_production cid (Some \<lparr>pr_Production = p, pr_cost = ud_TrainCost def,
                                   pr_popCost = ud_PopulationCost def, pr_carried = carried, pr_pending = True,
                                   pr_birthing = False, pr_retryAtMs = 0\<rparr>) s
                         in submit_job ''city.train'' (CityKey cid)
                              (Train \<lparr>to_RequestID = requestID, to_PlayerID = playerID, to_Production = p,
                                 to_PopulationCost = ud_PopulationCost def,
                                 to_Stock = (cid, k_Resource (ud_TrainCost def), i64 (carried - k_Amount (ud_TrainCost def)), version),
                                 to_Tick = st_tick s\<rparr>)
                              (Some [TrainResolved playerID requestID cid (Some CodeInternalError)]) s)"

text \<open>The city a handler broadcasts is read after its changes: the pointer is the same.\<close>

definition city_at :: "'a state_scheme \<Rightarrow> city \<Rightarrow> city" where
  "city_at s c = (case map_of (st_cities s) (c_ID c) of Some c' \<Rightarrow> c' | None \<Rightarrow> c)"

definition handleTrainResolved :: "uuid \<Rightarrow> string \<Rightarrow> int64 \<Rightarrow> code option \<Rightarrow> sim \<Rightarrow> sim" where
  "handleTrainResolved playerID requestID cityID c s =
     (case map_of (st_cities s) cityID of
        None \<Rightarrow> s
      | Some cy \<Rightarrow>
        (case ce_production (economyOf s (c_ID cy)) of
           None \<Rightarrow> s
         | Some p \<Rightarrow>
             if \<not> pr_pending p \<or> p_RequestID (pr_Production p) \<noteq> requestID then s
             else case c of
               Some e \<Rightarrow>
                 let s = markStockDirty (c_ID cy) (give_back (c_ID cy) (pr_cost p) (pr_carried p) s);
                     s = upd_city (c_ID cy) (\<lambda>c. c\<lparr>c_Population := i32 (c_Population c - pr_popCost p)\<rparr>) s;
                     s = set_production (c_ID cy) None s;
                     s = economyError playerID requestID e s
                 in broadcastCity cy ((CityUpdateOf 0)\<lparr>cu_Stocks := Some (stocksView s (c_ID cy)),
                      cu_Population := Some (c_Population (city_at s cy))\<rparr>) s
             | None \<Rightarrow>
                 let s = set_production (c_ID cy) (Some (p\<lparr>pr_pending := False\<rparr>)) s
                 in broadcastCity cy ((CityUpdateOf 0)\<lparr>cu_Stocks := Some (stocksView s (c_ID cy)),
                      cu_Population := Some (c_Population cy),
                      cu_Production := Some (productionView s (c_ID cy))\<rparr>) s))"

subsection \<open>Works and trainings that fall due\<close>

definition submitBuildingComplete :: "deps \<Rightarrow> building_completion \<Rightarrow> sim \<Rightarrow> sim" where
  "submitBuildingComplete D bc s =
     (if \<not> dp_Economy D then s
      else submit_job ''building.complete'' (CityKey (bc_CityID bc)) (CompleteBuilding bc)
             (Some [BuildingCompletePersistFailed (bc_BuildingID bc)]) s)"

definition completion_of :: "sim \<Rightarrow> building \<Rightarrow> city \<Rightarrow> int32 \<Rightarrow> building_completion" where
  "completion_of s b c bonus =
     \<lparr>bc_BuildingID = b_ID b, bc_CityID = c_ID c, bc_PlayerID = c_OwnerPlayerID c, bc_Bonus = bonus, bc_Tick = st_tick s\<rparr>"

definition complete_building :: "deps \<Rightarrow> int64 \<Rightarrow> int64 \<Rightarrow> sim \<Rightarrow> sim" where
  "complete_building D nowMs i s =
     (case map_of (st_buildings s) i of
        None \<Rightarrow> s
      | Some b \<Rightarrow>
        if \<not> Due_building b nowMs then s
        else case map_of (st_cities s) (b_CityID b) of
          None \<Rightarrow> s
        | Some c \<Rightarrow> (case Lookup_building (b_Type b) of
            Err _ \<Rightarrow> s
          | Ok def \<Rightarrow> (case Complete b of
              Err _ \<Rightarrow> s
            | Ok b' \<Rightarrow>
                let s = s\<lparr>st_buildings := put_key i b' (st_buildings s)\<rparr>;
                    s = upd_city (c_ID c) (\<lambda>c. c\<lparr>c_PopulationLimit := i32 (c_PopulationLimit c + bd_PopulationBonus def)\<rparr>) s;
                    (cx, cy) = ChunkOf (st_world s) (b_X b') (b_Y b');
                    s = send (ToChunk cx cy (BuildingUpdate (b_ID b') (b_Status b') None)) s;
                    s = broadcastCity c ((CityUpdateOf 0)\<lparr>cu_PopulationLimit := Some (c_PopulationLimit (city_at s c))\<rparr>) s
                in submitBuildingComplete D (completion_of s b' c (bd_PopulationBonus def)) s)))"

definition completeBuildings :: "deps \<Rightarrow> int64 \<Rightarrow> sim \<Rightarrow> sim" where
  "completeBuildings D nowMs s = fold (complete_building D nowMs) (st_buildingIDs s) s"

definition handleBuildingCompletePersistFailed :: "int64 \<Rightarrow> 'a state_scheme \<Rightarrow> 'a state_scheme" where
  "handleBuildingCompletePersistFailed i s =
     (if has_key (st_buildings s) i then s\<lparr>st_pendingCompletions := mark_key i (st_pendingCompletions s)\<rparr> else s)"

definition flush_completion :: "deps \<Rightarrow> int64 \<Rightarrow> sim \<Rightarrow> sim" where
  "flush_completion D i s =
     (case map_of (st_buildings s) i of
        None \<Rightarrow> s
      | Some b \<Rightarrow> (case (map_of (st_cities s) (b_CityID b), Lookup_building (b_Type b)) of
          (Some c, Ok def) \<Rightarrow> submitBuildingComplete D (completion_of s b c (bd_PopulationBonus def)) s
        | _ \<Rightarrow> s))"

definition flushCompletions :: "deps \<Rightarrow> sim \<Rightarrow> sim" where
  "flushCompletions D s =
     (if st_pendingCompletions s = [] then s
      else fold (flush_completion D) (sorted_keys (st_pendingCompletions s)) (s\<lparr>st_pendingCompletions := []\<rparr>))"

definition birthRetryMs :: int64 where "birthRetryMs = 5000"

definition complete_production :: "int64 \<Rightarrow> int64 \<Rightarrow> sim \<Rightarrow> sim" where
  "complete_production nowMs i s =
     (case map_of (st_cities s) i of
        None \<Rightarrow> s
      | Some c \<Rightarrow> (case Option.bind (map_of (st_economies s) (c_ID c)) ce_production of
          None \<Rightarrow> s
        | Some p \<Rightarrow>
            if pr_pending p \<or> pr_birthing p \<or> \<not> Due_production (pr_Production p) nowMs \<or> nowMs < pr_retryAtMs p then s
            else case Lookup_unit (p_UnitType (pr_Production p)) of
              Err _ \<Rightarrow> s
            | Ok def \<Rightarrow> (case FirstSpawnTile c (IsWalkable (st_world s)) of
                None \<Rightarrow> s
              | Some t \<Rightarrow>
                  let s = set_production (c_ID c) (Some (p\<lparr>pr_birthing := True\<rparr>)) s
                  in submit_job ''production.complete'' (CityKey (c_ID c))
                       (PersistBirth \<lparr>bi_CityID = c_ID c, bi_PlayerID = c_OwnerPlayerID c,
                          bi_Type = p_UnitType (pr_Production p), bi_At = t, bi_HP = ud_MaxHP def, bi_Tick = st_tick s\<rparr>)
                       (Some [BirthResolved (c_ID c) 0 t (Some CodeInternalError)]) s)))"

definition completeProductions :: "deps \<Rightarrow> int64 \<Rightarrow> sim \<Rightarrow> sim" where
  "completeProductions D nowMs s =
     (if \<not> dp_Economy D then s else fold (complete_production nowMs) (sorted_keys (st_cities s)) s)"

definition handleBirthResolved :: "int64 \<Rightarrow> int64 \<Rightarrow> tile \<Rightarrow> code option \<Rightarrow> sim \<Rightarrow> sim" where
  "handleBirthResolved cityID unitID t c s =
     (case map_of (st_cities s) cityID of
        None \<Rightarrow> s
      | Some cy \<Rightarrow> (case ce_production (economyOf s (c_ID cy)) of
          None \<Rightarrow> s
        | Some p \<Rightarrow>
            if \<not> pr_birthing p then s
            else case c of
              Some _ \<Rightarrow> set_production (c_ID cy)
                          (Some (p\<lparr>pr_birthing := False, pr_retryAtMs := i64 (NowMs s + birthRetryMs)\<rparr>)) s
            | None \<Rightarrow>
                if has_key (st_units s) unitID then set_production (c_ID cy) None s
                else case Lookup_unit (p_UnitType (pr_Production p)) of
                  Err _ \<Rightarrow> set_production (c_ID cy) (Some (p\<lparr>pr_birthing := False\<rparr>)) s
                | Ok def \<Rightarrow>
                    let u = \<lparr>u_ID = unitID, u_PlayerID = c_OwnerPlayerID cy, u_CityID = Some (c_ID cy),
                             u_Type = p_UnitType (pr_Production p), u_X = tX t, u_Y = tY t, u_HP = ud_MaxHP def,
                             u_MaxHP = ud_MaxHP def, u_Status = StatusIdle, u_Loot = 0\<rparr>;
                        s = AddUnit u s;
                        s = set_production (c_ID cy) None s;
                        nowMs = NowMs s;
                        (cx, ch) = ChunkOf (st_world s) (u_X u) (u_Y u);
                        s = send (ToChunk cx ch (EntitySpawn (UnitView s unitID nowMs))) s
                    in broadcastCity cy ((CityUpdateOf 0)\<lparr>cu_Production := Some None\<rparr>) s))"

subsection \<open>city.advance\<close>

text \<open>
  The loop over the costs of the step: each line is reserved in turn; a line that cannot be paid
  gives back the lines before it.
\<close>

fun reserve_costs ::
  "int64 \<Rightarrow> costs \<Rightarrow> (cost \<times> int64) list \<Rightarrow> stock_delta list \<Rightarrow> 'a state_scheme
     \<Rightarrow> 'a state_scheme + (resource, int64) gomap \<times> stock_delta list \<times> 'a state_scheme" where
  "reserve_costs cid [] taken deltas s = Ok (map (\<lambda>(k, n). (k_Resource k, n)) taken, deltas, s)"
| "reserve_costs cid (k # ks) taken deltas s =
     (case reserve_stock cid k s of
        Err _ \<Rightarrow> Err (fold (\<lambda>(k, n) s. give_back cid k n s) taken s)
      | Ok (carried, version, s') \<Rightarrow>
          reserve_costs cid ks (taken @ [(k, carried)])
            (deltas @ [(cid, k_Resource k, i64 (carried - k_Amount k), version)]) s')"

text \<open>
  On the stocks of the city the loop is the debit of the cost line by line of Economy.thy: it fails
  exactly when that one fails, and leaves the same stocks.
\<close>

abbreviation city_stocks :: "int64 \<Rightarrow> 'a state_scheme \<Rightarrow> resource \<Rightarrow> stock option" where
  "city_stocks cid s \<equiv> \<lambda>r. Some (rs_stock (stock_of (economyOf s cid) r))"

lemma reserve_stock_debit:
  "reserve_stock cid k s = Err e \<Longrightarrow> Debit (rs_stock (stock_of (economyOf s cid) (k_Resource k))) k = Err e"
  "reserve_stock cid k s = Ok (c, v, s') \<Longrightarrow> \<exists>st. Debit (rs_stock (stock_of (economyOf s cid) (k_Resource k))) k = Ok st
     \<and> city_stocks cid s' = (city_stocks cid s)(k_Resource k \<mapsto> st)"
  by (auto simp: reserve_stock_def Let_def put_stock_def economyOf_def stock_of_def fun_eq_iff split: sum.splits)

lemma reserve_costs_debit_lines:
  "case reserve_costs cid ks taken deltas s of
     Err _ \<Rightarrow> \<exists>e. debit_lines ks (city_stocks cid s) = Err e
   | Ok (_, _, s') \<Rightarrow> debit_lines ks (city_stocks cid s) = Ok (city_stocks cid s')"
proof (induction ks arbitrary: taken deltas s)
  case (Cons k ks)
  show ?case
  proof (cases "reserve_stock cid k s")
    case (Inl e) then show ?thesis by (simp add: reserve_stock_debit(1))
  next
    case (Inr x)
    then obtain c v s1 where r: "reserve_stock cid k s = Ok (c, v, s1)" by (cases x) auto
    from reserve_stock_debit(2) [OF this]
    have eq: "debit_lines (k # ks) (city_stocks cid s) = debit_lines ks (city_stocks cid s1)" by auto
    show ?thesis unfolding reserve_costs.simps r sum.case prod.case eq by (rule Cons.IH)
  qed
qed simp

definition handleAdvanceEra :: "deps \<Rightarrow> uuid \<Rightarrow> string \<Rightarrow> int64 \<Rightarrow> sim \<Rightarrow> sim" where
  "handleAdvanceEra D playerID requestID cityID s =
     (let co = map_of (st_cities s) cityID;
          (busy, stock) = (case co of
             None \<Rightarrow> (False, \<lambda>_. None)
           | Some c \<Rightarrow> let eco = economyOf s (c_ID c)
                       in (ce_production eco \<noteq> None \<or> ce_advance eco \<noteq> None, \<lambda>r. Some (rs_stock (stock_of eco r))))
      in case CanAdvance co playerID busy stock of
           Err e \<Rightarrow> economyError playerID requestID (economyErrorCode e) s
         | Ok stp \<Rightarrow>
             if \<not> dp_Economy D then economyError playerID requestID CodeInternalError s
             else if \<not> has_key (st_eraCaps s) (es_From stp) \<or> \<not> has_key (st_eraCaps s) (es_To stp)
             then economyError playerID requestID CodeInternalError s
             else let cid = c_ID (the co); nowMs = NowMs s
                  in case reserve_costs cid (es_Costs stp) [] [] s of
                       Err s' \<Rightarrow> economyError playerID requestID CodeInsufficientResources (markStockDirty cid s')
                     | Ok (carried, deltas, s') \<Rightarrow>
                         let s = markStockDirty cid s';
                             a = \<lparr>a_CityID = cid, a_From = es_From stp, a_To = es_To stp,
                                  a_CompletesAtMs = i64 (nowMs + es_DurationMs stp), a_RequestID = requestID\<rparr>;
                             s = set_advance cid (Some \<lparr>as_Advance = a, as_costs = es_Costs stp, as_carried = carried,
                                   as_pending = True\<rparr>) s
                         in submit_job ''city.advance'' (CityKey cid)
                              (PersistAdvance \<lparr>ao_RequestID = requestID, ao_PlayerID = playerID, ao_Advance = a,
                                 ao_Stocks = deltas, ao_Tick = st_tick s\<rparr>)
                              (Some [AdvanceResolved playerID requestID cid (Some CodeInternalError)]) s)"

definition handleAdvanceResolved :: "uuid \<Rightarrow> string \<Rightarrow> int64 \<Rightarrow> code option \<Rightarrow> sim \<Rightarrow> sim" where
  "handleAdvanceResolved playerID requestID cityID c s =
     (case map_of (st_cities s) cityID of
        None \<Rightarrow> s
      | Some cy \<Rightarrow> (case ce_advance (economyOf s (c_ID cy)) of
          None \<Rightarrow> s
        | Some a \<Rightarrow>
            if \<not> as_pending a \<or> a_RequestID (as_Advance a) \<noteq> requestID then s
            else case c of
              Some e \<Rightarrow>
                let s = fold (\<lambda>k. give_back (c_ID cy) k
                          (case map_of (as_carried a) (k_Resource k) of Some n \<Rightarrow> n | None \<Rightarrow> 0)) (as_costs a) s;
                    s = set_advance (c_ID cy) None (markStockDirty (c_ID cy) s);
                    s = economyError playerID requestID e s
                in broadcastStocks cy s
            | None \<Rightarrow>
                let s = set_advance (c_ID cy) (Some (a\<lparr>as_pending := False\<rparr>)) s
                in broadcastCity cy ((CityUpdateOf 0)\<lparr>cu_Stocks := Some (stocksView s (c_ID cy)),
                     cu_Advance := Some (advanceView s (c_ID cy))\<rparr>) s))"

definition submitAdvanceComplete :: "deps \<Rightarrow> advance_completion \<Rightarrow> sim \<Rightarrow> sim" where
  "submitAdvanceComplete D ac s =
     (if \<not> dp_Economy D then s
      else submit_job ''advance.complete'' (CityKey (ac_CityID ac)) (CompleteAdvance ac)
             (Some [AdvanceCompletePersistFailed ac]) s)"

definition complete_advance :: "deps \<Rightarrow> int64 \<Rightarrow> int64 \<Rightarrow> sim \<Rightarrow> sim" where
  "complete_advance D nowMs i s =
     (case map_of (st_cities s) i of
        None \<Rightarrow> s
      | Some c \<Rightarrow> (case Option.bind (map_of (st_economies s) (c_ID c)) ce_advance of
          None \<Rightarrow> s
        | Some st \<Rightarrow>
            let a = as_Advance st in
            if as_pending st \<or> \<not> Due_advance a nowMs then s
            else if c_Era c \<noteq> a_From a then set_advance (c_ID c) None s
            else case (map_of (st_eraCaps s) (a_From a), map_of (st_eraCaps s) (a_To a)) of
              (Some fromCap, Some toCap) \<Rightarrow>
                let s = set_advance (c_ID c) None s;
                    s = upd_city (c_ID c) (\<lambda>c. c\<lparr>c_Era := a_To a,
                          c_PopulationLimit := i32 (c_PopulationLimit c + i32 (toCap - fromCap))\<rparr>) s;
                    s = broadcastCity c ((CityUpdateOf 0)\<lparr>cu_PopulationLimit := Some (c_PopulationLimit (city_at s c)),
                          cu_Era := Some (a_To a), cu_Advance := Some None\<rparr>) s
                in submitAdvanceComplete D \<lparr>ac_CityID = c_ID c, ac_PlayerID = c_OwnerPlayerID c, ac_From = a_From a,
                     ac_To = a_To a, ac_Tick = st_tick s\<rparr> s
            | _ \<Rightarrow> s))"

definition completeAdvances :: "deps \<Rightarrow> int64 \<Rightarrow> sim \<Rightarrow> sim" where
  "completeAdvances D nowMs s = fold (complete_advance D nowMs) (sorted_keys (st_cities s)) s"

definition handleAdvanceCompletePersistFailed :: "advance_completion \<Rightarrow> 'a state_scheme \<Rightarrow> 'a state_scheme" where
  "handleAdvanceCompletePersistFailed ac s =
     s\<lparr>st_pendingAdvances := put_key (ac_CityID ac) ac (st_pendingAdvances s)\<rparr>"

definition flushAdvanceCompletions :: "deps \<Rightarrow> sim \<Rightarrow> sim" where
  "flushAdvanceCompletions D s =
     (if st_pendingAdvances s = [] then s
      else let pend = st_pendingAdvances s
           in fold (\<lambda>i s. case map_of pend i of
                       None \<Rightarrow> s
                     | Some ac \<Rightarrow> submitAdvanceComplete D (ac\<lparr>ac_Tick := st_tick s\<rparr>) s)
                (sorted_keys pend) (s\<lparr>st_pendingAdvances := []\<rparr>))"

end
