(* ===== verification/Treaty_Orders.thy ===== *)
theory Treaty_Orders
  imports Gathering Garrisoning
begin

section \<open>Treaties in the simulation\<close>

text \<open>
  Models internal/game/simulation/treaties.go: the open treaties in memory, the orders in two
  phases (the tick reserves the pair of players, the transaction writes, the answer confirms), the
  sweep of what has expired and the garrisons a broken alliance expels. Proved: in every run of
  orders, answers and sweeps, in any order of the answers, a pair of players has at most one
  pending offer and at most one treaty in force, the offer is for a higher step of the ladder,
  and the pair is reserved exactly while one order of theirs is in the queue.
\<close>

subsection \<open>The open treaties\<close>

definition treatySweepInterval :: duration where "treatySweepInterval = 1000000000"
definition defaultTreatyOfferTTL :: duration where "defaultTreatyOfferTTL = 86400000000000"
definition defaultTreatyBreakNotice :: duration where "defaultTreatyBreakNotice = 900000000000"
definition defaultTreatyRetry :: duration where "defaultTreatyRetry = 600000000000"

definition pairKey :: "deps \<Rightarrow> uuid \<Rightarrow> uuid \<Rightarrow> uuid \<times> uuid" where
  "pairKey D x y = CanonicalPair (dp_UuidString D) x y"

definition TreatyKey :: "deps \<Rightarrow> uuid \<Rightarrow> uuid \<Rightarrow> string" where
  "TreatyKey D x y =
     (let (a, b) = CanonicalPair (dp_UuidString D) x y
      in ''treaty:'' @ dp_UuidString D a @ '':'' @ dp_UuidString D b)"

text \<open>The pointers to the proposer and to the closing are read only where they are set.\<close>

definition noteRejection :: "treaty \<Rightarrow> 'a state_scheme \<Rightarrow> 'a state_scheme" where
  "noteRejection t s =
     (case (ty_ProposedBy t, ty_ClosedAt t) of
        (Some p, Some at) \<Rightarrow>
          (let k = (p, Other t p)
           in case map_of (st_rejected s) k of
                Some prev \<Rightarrow> if prev < at then s\<lparr>st_rejected := put_key k at (st_rejected s)\<rparr> else s
              | None \<Rightarrow> s\<lparr>st_rejected := put_key k at (st_rejected s)\<rparr>)
      | _ \<Rightarrow> s)"

definition install_treaty :: "deps \<Rightarrow> treaty \<Rightarrow> 'a state_scheme \<Rightarrow> 'a state_scheme" where
  "install_treaty D t s =
     (if ty_Status t \<noteq> StatusProposed \<and> ty_Status t \<noteq> StatusActive then s
      else let (a, b) = CanonicalPair (dp_UuidString D) (ty_PlayerA t) (ty_PlayerB t)
           in s\<lparr>st_treaties := put_key (ty_ID t) (t\<lparr>ty_PlayerA := a, ty_PlayerB := b\<rparr>) (st_treaties s)\<rparr>)"

definition SetTreaties :: "deps \<Rightarrow> treaty list \<Rightarrow> treaty list \<Rightarrow> 'a state_scheme \<Rightarrow> 'a state_scheme" where
  "SetTreaties D open0 rejected s0 =
     (let s = s0\<lparr>st_treaties := [], st_treatyBusy := [], st_rejected := [], st_failedTreatyEnds := []\<rparr>;
          s = fold (install_treaty D) open0 s
      in fold (\<lambda>t s. if ty_ProposedBy t = None \<or> ty_ClosedAt t = None then s else noteRejection t s) rejected s)"

definition openOf :: "deps \<Rightarrow> 'a state_scheme \<Rightarrow> uuid \<Rightarrow> uuid \<Rightarrow> treaty list" where
  "openOf D s x y =
     (let k = pairKey D x y
      in filter (\<lambda>t. ty_PlayerA t = fst k \<and> ty_PlayerB t = snd k)
           (List.map_filter (\<lambda>i. map_of (st_treaties s) i) (sorted_keys (st_treaties s))))"

definition AtPeace :: "deps \<Rightarrow> 'a state_scheme \<Rightarrow> uuid \<Rightarrow> uuid \<Rightarrow> instant \<Rightarrow> bool" where
  "AtPeace D s x y now = list_ex (\<lambda>t. GivesPeaceAt t now) (openOf D s x y)"

definition offerTTL :: "deps \<Rightarrow> duration" where
  "offerTTL D = (if 0 < dp_TreatyOfferTTL D then dp_TreatyOfferTTL D else defaultTreatyOfferTTL)"

definition breakNotice :: "deps \<Rightarrow> duration" where
  "breakNotice D = (if 0 < dp_TreatyBreakNotice D then dp_TreatyBreakNotice D else defaultTreatyBreakNotice)"

definition treatyRetry :: "deps \<Rightarrow> duration" where
  "treatyRetry D = (if 0 < dp_TreatyRetry D then dp_TreatyRetry D else defaultTreatyRetry)"

definition treatyNow :: "sim \<Rightarrow> instant" where
  "treatyNow s = NowMs s * 1000000"

subsection \<open>Views\<close>

definition treatyView :: "sim \<Rightarrow> treaty \<Rightarrow> uuid \<Rightarrow> treaty_view" where
  "treatyView s t viewer =
     (let other = Other t viewer
      in \<lparr>tyv_ID = ty_ID t, tyv_OtherPlayerID = other,
          tyv_OtherCityID = map_option c_ID (CityOf s other), tyv_OtherCityName = map_option c_Name (CityOf s other),
          tyv_Type = ty_Type t, tyv_Status = ty_Status t, tyv_ProposedByMe = (ty_ProposedBy t = Some viewer),
          tyv_BreaksAtMs = map_option (\<lambda>b. b div 1000000) (ty_BreakEffectiveAt t)\<rparr>)"

definition broadcastTreaty :: "treaty \<Rightarrow> uuid \<Rightarrow> string \<Rightarrow> sim \<Rightarrow> sim" where
  "broadcastTreaty t orderedBy requestID =
     fold (\<lambda>p s. send (ToPlayer p (if p = orderedBy then requestID else '''') (TreatyUpdate (treatyView s t p))) s)
       [ty_PlayerA t, ty_PlayerB t]"

definition treatiesOf :: "sim \<Rightarrow> uuid \<Rightarrow> treaty_view list" where
  "treatiesOf s viewer =
     map (\<lambda>t. treatyView s t viewer)
       (filter (\<lambda>t. HasParty t viewer)
         (List.map_filter (\<lambda>i. map_of (st_treaties s) i) (sorted_keys (st_treaties s))))"

subsection \<open>Orders\<close>

definition treatyReject :: "uuid \<Rightarrow> string \<Rightarrow> sim \<Rightarrow> sim" where
  "treatyReject playerID requestID = economyError playerID requestID CodeInvalidTarget"

definition TreatyWriteOf :: "treaty \<Rightarrow> treaty_status \<Rightarrow> string \<Rightarrow> treaty_write" where
  "TreatyWriteOf t from0 event =
     \<lparr>trw_Insert = False, trw_Treaty = t, trw_From = from0, trw_Supersede = None, trw_Event = event,
      trw_Tick = 0, trw_AtMs = 0, trw_By = 0\<rparr>"

definition submitTreatyOrder :: "deps \<Rightarrow> treaty_write \<Rightarrow> uuid \<Rightarrow> string \<Rightarrow> sim \<Rightarrow> sim" where
  "submitTreatyOrder D w0 playerID requestID s0 =
     (let w = w0\<lparr>trw_Tick := st_tick s0, trw_AtMs := NowMs s0, trw_By := playerID\<rparr>;
          k = pairKey D (ty_PlayerA (trw_Treaty w)) (ty_PlayerB (trw_Treaty w));
          s = s0\<lparr>st_treatyBusy := mark_key k (st_treatyBusy s0)\<rparr>
      in submit_job ''treaty.order'' (TreatyKey D (fst k) (snd k)) (ApplyTreaty w)
           (Some [TreatyResolved playerID requestID w 0 (Some CodeInternalError)]) s)"

text \<open>What an open treaty of the pair says against a new offer of a type.\<close>

definition blocks_offer :: "treaty_type \<Rightarrow> treaty \<Rightarrow> bool" where
  "blocks_offer ty t \<longleftrightarrow> ty_Status t = StatusProposed \<or> \<not> (Supersedes ty (ty_Type t) \<and> ty_BreakEffectiveAt t = None)"

definition handleProposeTreaty :: "deps \<Rightarrow> uuid \<Rightarrow> string \<Rightarrow> uuid \<Rightarrow> treaty_type \<Rightarrow> sim \<Rightarrow> sim" where
  "handleProposeTreaty D playerID requestID target ty s =
     (if \<not> dp_Treaties D then economyError playerID requestID CodeInternalError s
      else if \<not> Proposable ty then treatyReject playerID requestID s
      else if target = playerID then treatyReject playerID requestID s
      else if CityOf s target = None then treatyReject playerID requestID s
      else
        let k = pairKey D playerID target in
        if has_key (st_treatyBusy s) k then treatyReject playerID requestID s
        else if list_ex (blocks_offer ty) (openOf D s playerID target) then treatyReject playerID requestID s
        else
          let now = treatyNow s in
          if (case map_of (st_rejected s) (playerID, target) of None \<Rightarrow> False | Some at \<Rightarrow> now < at + treatyRetry D)
          then treatyReject playerID requestID s
          else submitTreatyOrder D
            ((TreatyWriteOf
               \<lparr>ty_ID = 0, ty_PlayerA = fst k, ty_PlayerB = snd k, ty_Type = ty, ty_Status = StatusProposed,
                ty_AllowsGarrison = GrantsGarrison ty, ty_ProposedAt = now, ty_AcceptedAt = None, ty_ExpiresAt = None,
                ty_BrokenAt = None, ty_ProposedBy = Some playerID, ty_RequestID = requestID,
                ty_BreakEffectiveAt = None, ty_ClosedAt = None\<rparr> StatusProposed ''TreatyProposed'')\<lparr>trw_Insert := True\<rparr>)
            playerID requestID s)"

text \<open>The treaty in force that an accepted one replaces: the last one of the loop.\<close>

definition superseded :: "treaty \<Rightarrow> treaty list \<Rightarrow> treaty option" where
  "superseded t os = fold (\<lambda>o' w. if ty_ID o' \<noteq> ty_ID t \<and> ty_Status o' = StatusActive then Some o' else w) os None"

definition handleRespondTreaty :: "deps \<Rightarrow> uuid \<Rightarrow> string \<Rightarrow> int64 \<Rightarrow> bool \<Rightarrow> sim \<Rightarrow> sim" where
  "handleRespondTreaty D playerID requestID treatyID accept s =
     (case map_of (st_treaties s) treatyID of
        None \<Rightarrow> treatyReject playerID requestID s
      | Some t \<Rightarrow>
        if CanRespond t playerID \<noteq> None then treatyReject playerID requestID s
        else if has_key (st_treatyBusy s) (pairKey D (ty_PlayerA t) (ty_PlayerB t)) then treatyReject playerID requestID s
        else let (nxt, event) = (if accept then (StatusActive, ''TreatyAccepted'') else (StatusRejected, ''TreatyRejected''))
             in case TransitionTo t nxt (treatyNow s) of
                  Err _ \<Rightarrow> treatyReject playerID requestID s
                | Ok after \<Rightarrow>
                    submitTreatyOrder D ((TreatyWriteOf after StatusProposed event)\<lparr>trw_Supersede :=
                        (if accept then superseded t (openOf D s (ty_PlayerA t) (ty_PlayerB t)) else None)\<rparr>)
                      playerID requestID s)"

text \<open>The error of the transition of a withdrawal is not looked at; the treaty it returns is the same.\<close>

definition handleCancelTreaty :: "deps \<Rightarrow> uuid \<Rightarrow> string \<Rightarrow> int64 \<Rightarrow> sim \<Rightarrow> sim" where
  "handleCancelTreaty D playerID requestID treatyID s =
     (case map_of (st_treaties s) treatyID of
        None \<Rightarrow> treatyReject playerID requestID s
      | Some t \<Rightarrow>
        if has_key (st_treatyBusy s) (pairKey D (ty_PlayerA t) (ty_PlayerB t)) then treatyReject playerID requestID s
        else let now = treatyNow s
             in if ty_Status t = StatusProposed
                then if CanWithdraw t playerID \<noteq> None then treatyReject playerID requestID s
                     else submitTreatyOrder D
                            (TreatyWriteOf (case TransitionTo t StatusWithdrawn now of Err _ \<Rightarrow> t | Ok after \<Rightarrow> after)
                               StatusProposed ''TreatyWithdrawn'') playerID requestID s
                else if CanBreak t playerID \<noteq> None then treatyReject playerID requestID s
                else submitTreatyOrder D
                       (TreatyWriteOf (t\<lparr>ty_BreakEffectiveAt := Some (now + breakNotice D)\<rparr>) StatusActive ''TreatyBreakAnnounced'')
                       playerID requestID s)"

definition storeTreaty :: "treaty \<Rightarrow> 'a state_scheme \<Rightarrow> 'a state_scheme" where
  "storeTreaty t s =
     (if ty_Status t = StatusProposed \<or> ty_Status t = StatusActive
      then s\<lparr>st_treaties := put_key (ty_ID t) t (st_treaties s)\<rparr>
      else s\<lparr>st_treaties := del_key (ty_ID t) (st_treaties s)\<rparr>)"

definition handleTreatyResolved :: "deps \<Rightarrow> uuid \<Rightarrow> string \<Rightarrow> treaty_write \<Rightarrow> int64 \<Rightarrow> code option \<Rightarrow> sim \<Rightarrow> sim" where
  "handleTreatyResolved D playerID requestID w i c s0 =
     (let s = s0\<lparr>st_treatyBusy :=
            del_key (pairKey D (ty_PlayerA (trw_Treaty w)) (ty_PlayerB (trw_Treaty w))) (st_treatyBusy s0)\<rparr>
      in case c of
           Some c \<Rightarrow> economyError playerID requestID c s
         | None \<Rightarrow>
             let t = (if trw_Insert w then (trw_Treaty w)\<lparr>ty_ID := i\<rparr> else trw_Treaty w);
                 s = (case trw_Supersede w of
                        None \<Rightarrow> s
                      | Some o' \<Rightarrow> broadcastTreaty (o'\<lparr>ty_Status := StatusExpired\<rparr>) 0 ''''
                                   (s\<lparr>st_treaties := del_key (ty_ID o') (st_treaties s)\<rparr>));
                 s = storeTreaty t s;
                 s = (if ty_Status t = StatusRejected then noteRejection t s else s)
             in broadcastTreaty t playerID requestID s)"

subsection \<open>What expires\<close>

definition submitTreatyEnd :: "deps \<Rightarrow> treaty_write \<Rightarrow> sim \<Rightarrow> sim" where
  "submitTreatyEnd D w s =
     (if \<not> dp_Treaties D then s
      else submit_job ''treaty.end'' (TreatyKey D (ty_PlayerA (trw_Treaty w)) (ty_PlayerB (trw_Treaty w))) (ApplyTreaty w)
             (Some [TreatyEndPersistFailed w]) s)"

definition handleTreatyEndPersistFailed :: "treaty_write \<Rightarrow> 'a state_scheme \<Rightarrow> 'a state_scheme" where
  "handleTreatyEndPersistFailed w s = s\<lparr>st_failedTreatyEnds := st_failedTreatyEnds s @ [w]\<rparr>"

definition expel_unit :: "deps \<Rightarrow> uuid \<Rightarrow> uuid \<Rightarrow> int64 \<Rightarrow> sim \<Rightarrow> sim" where
  "expel_unit D a b i s =
     (case (map_of (st_units s) i, Option.bind (map_of (st_garrisonedIn s) i) (map_of (st_cities s))) of
        (Some u, Some host) \<Rightarrow>
          if \<not> (u_PlayerID u = a \<and> c_OwnerPlayerID host = b \<or> u_PlayerID u = b \<and> c_OwnerPlayerID host = a) then s
          else if has_key (st_pendingExits s) i then s
          else let req = \<lparr>ex_PlayerID = u_PlayerID u, ex_RequestID = '''', ex_CityID = c_ID host\<rparr>
               in (case exit_garrison D i host req s of
                     Ok s' \<Rightarrow> s'
                   | Err e \<Rightarrow> if e = GErrNoReentryTile then s\<lparr>st_pendingExits := put_key i req (st_pendingExits s)\<rparr> else s)
      | _ \<Rightarrow> s)"

definition expelGarrisons :: "deps \<Rightarrow> uuid \<Rightarrow> uuid \<Rightarrow> sim \<Rightarrow> sim" where
  "expelGarrisons D a b s = fold (expel_unit D a b) (sorted_keys (st_garrisonedIn s)) s"

text \<open>What the sweep decides of one open treaty: the write that ends it, if its time has come.\<close>

definition treaty_end :: "deps \<Rightarrow> instant \<Rightarrow> treaty \<Rightarrow> treaty_write option" where
  "treaty_end D now t =
     (case ty_Status t of
        StatusProposed \<Rightarrow>
          if now < ty_ProposedAt t + offerTTL D then None
          else (case TransitionTo t StatusExpired now of
                  Err _ \<Rightarrow> None
                | Ok after \<Rightarrow> Some ((TreatyWriteOf after StatusProposed ''TreatyExpired'')\<lparr>trw_AtMs := now div 1000000\<rparr>))
      | StatusActive \<Rightarrow>
          (case EndsAt t of
             None \<Rightarrow> None
           | Some (fin, st) \<Rightarrow>
               if now < fin then None
               else (case TransitionTo t st fin of
                       Err _ \<Rightarrow> None
                     | Ok after \<Rightarrow> Some ((TreatyWriteOf after StatusActive
                         (if st = StatusBroken then ''TreatyBroken'' else ''TreatyExpired''))\<lparr>trw_AtMs := fin div 1000000\<rparr>)))
      | _ \<Rightarrow> None)"

definition sweep_treaty :: "deps \<Rightarrow> instant \<Rightarrow> int64 \<Rightarrow> sim \<Rightarrow> sim" where
  "sweep_treaty D now i s =
     (case map_of (st_treaties s) i of
        None \<Rightarrow> s
      | Some t \<Rightarrow>
          if has_key (st_treatyBusy s) (pairKey D (ty_PlayerA t) (ty_PlayerB t)) then s
          else case treaty_end D now t of
                 None \<Rightarrow> s
               | Some w \<Rightarrow>
                   let s = broadcastTreaty (trw_Treaty w) 0 '''' (storeTreaty (trw_Treaty w) s);
                       s = (if ty_Status t = StatusActive \<and> ty_AllowsGarrison t
                            then expelGarrisons D (ty_PlayerA t) (ty_PlayerB t) s else s)
                   in submitTreatyEnd D (w\<lparr>trw_Tick := st_tick s\<rparr>) s)"

text \<open>The sweep of the treaties; the offers of trade are swept after it, by the same timer.\<close>

definition sweep_open_treaties :: "deps \<Rightarrow> instant \<Rightarrow> sim \<Rightarrow> sim" where
  "sweep_open_treaties D now s0 =
     (let pend = st_failedTreatyEnds s0;
          s = fold (submitTreatyEnd D) pend (s0\<lparr>st_failedTreatyEnds := []\<rparr>)
      in fold (sweep_treaty D now) (sorted_keys (st_treaties s)) s)"

subsection \<open>The orders in the queue\<close>

text \<open>An order waits for its transaction while its job is in the queue; its compensation says whose it is.\<close>

definition order_in :: "sim_job \<Rightarrow> (uuid \<times> string \<times> treaty_write) option" where
  "order_in j = (case jb_OnPermanentFailure j of Some [TreatyResolved p r w i c] \<Rightarrow> Some (p, r, w) | _ \<Rightarrow> None)"

definition flying :: "sim \<Rightarrow> treaty_write list" where
  "flying s = map (\<lambda>(p, r, w). w) (List.map_filter order_in (sm_jobs s))"

definition pair_of :: "deps \<Rightarrow> treaty_write \<Rightarrow> uuid \<times> uuid" where
  "pair_of D w = pairKey D (ty_PlayerA (trw_Treaty w)) (ty_PlayerB (trw_Treaty w))"

text \<open>The open treaties of one pair, by id.\<close>

definition pact :: "'a state_scheme \<Rightarrow> uuid \<times> uuid \<Rightarrow> int64 \<rightharpoonup> treaty" where
  "pact s k i = (case map_of (st_treaties s) i of
     None \<Rightarrow> None | Some t \<Rightarrow> if (ty_PlayerA t, ty_PlayerB t) = k then Some t else None)"

definition ladder :: "(int64 \<rightharpoonup> treaty) \<Rightarrow> bool" where
  "ladder P \<longleftrightarrow>
     (\<forall>i t. P i = Some t \<longrightarrow> ty_ID t = i \<and> (ty_Status t = StatusProposed \<or> ty_Status t = StatusActive)) \<and>
     (\<forall>i j t u. P i = Some t \<longrightarrow> P j = Some u \<longrightarrow> ty_Status t = ty_Status u \<longrightarrow> i = j) \<and>
     (\<forall>i j t u. P i = Some t \<longrightarrow> P j = Some u \<longrightarrow> ty_Status t = StatusProposed \<longrightarrow> ty_Status u = StatusActive \<longrightarrow>
        Supersedes (ty_Type t) (ty_Type u))"

text \<open>What an order in flight needs of the open treaties of its pair.\<close>

definition order_fits :: "(int64 \<rightharpoonup> treaty) \<Rightarrow> treaty_write \<Rightarrow> bool" where
  "order_fits P w \<longleftrightarrow>
     (let n = trw_Treaty w in
      if trw_Insert w
      then ty_Status n = StatusProposed \<and> trw_Supersede w = None \<and>
           (\<forall>j u. P j = Some u \<longrightarrow> ty_Status u = StatusActive \<and> Supersedes (ty_Type n) (ty_Type u))
      else (\<exists>t. P (ty_ID n) = Some t \<and> ty_Type n = ty_Type t \<and>
             (ty_Status n \<noteq> StatusProposed \<and> ty_Status n \<noteq> StatusActive \<and> trw_Supersede w = None \<or>
              ty_Status t = StatusActive \<and> ty_Status n = StatusActive \<and> trw_Supersede w = None \<or>
              ty_Status t = StatusProposed \<and> ty_Status n = StatusActive \<and>
                (\<forall>j u. P j = Some u \<longrightarrow> j \<noteq> ty_ID n \<longrightarrow> trw_Supersede w = Some u) \<and>
                (\<forall>u. trw_Supersede w = Some u \<longrightarrow> ty_ID u \<noteq> ty_ID n \<and> P (ty_ID u) = Some u))))"

definition treaties_ok :: "deps \<Rightarrow> sim \<Rightarrow> bool" where
  "treaties_ok D s \<longleftrightarrow>
     (\<forall>i t. map_of (st_treaties s) i = Some t \<longrightarrow> pairKey D (ty_PlayerA t) (ty_PlayerB t) = (ty_PlayerA t, ty_PlayerB t)) \<and>
     (\<forall>k. ladder (pact s k)) \<and>
     (\<forall>w\<in>set (flying s). order_fits (pact s (pair_of D w)) w \<and>
        (ty_PlayerA (trw_Treaty w), ty_PlayerB (trw_Treaty w)) = pair_of D w) \<and>
     distinct (map (pair_of D) (flying s)) \<and>
     (\<forall>k. has_key (st_treatyBusy s) k \<longleftrightarrow> k \<in> pair_of D ` set (flying s))"

lemma pairKey_again [simp]: "pairKey D (fst (pairKey D x y)) (snd (pairKey D x y)) = pairKey D x y"
  by (auto simp: pairKey_def CanonicalPair_def)

lemma flying_submit [simp]:
  "flying (submit_job n k w0 (Some [TreatyResolved p r w i c]) s) = flying s @ [w]"
  by (simp add: flying_def submit_job_def List.map_filter_def order_in_def)

lemma flying_other:
  assumes "order_in \<lparr>jb_Name = n, jb_Key = k, jb_Key2 = '''', jb_OnPermanentFailure = f, jb_Run = w0\<rparr> = None"
  shows "flying (submit_job n k w0 f s) = flying s"
  using assms by (simp add: flying_def submit_job_def List.map_filter_def)

lemma flying_cong: "sm_jobs s' = sm_jobs s \<Longrightarrow> flying s' = flying s"
  by (simp add: flying_def)

text \<open>What does not concern the treaties.\<close>

definition same_treaties :: "sim \<Rightarrow> sim \<Rightarrow> bool" where
  "same_treaties s s' \<longleftrightarrow> st_treaties s' = st_treaties s \<and> st_treatyBusy s' = st_treatyBusy s \<and> flying s' = flying s"

lemma same_treaties_refl [simp]: "same_treaties s s"
  by (simp add: same_treaties_def)

lemma same_treaties_trans: "same_treaties s s1 \<Longrightarrow> same_treaties s1 s2 \<Longrightarrow> same_treaties s s2"
  by (simp add: same_treaties_def)

lemma pact_cong: "st_treaties s' = st_treaties s \<Longrightarrow> pact s' = pact s"
  by (intro ext) (simp add: pact_def)

lemma same_treaties_ok: "treaties_ok D s \<Longrightarrow> same_treaties s s' \<Longrightarrow> treaties_ok D s'"
  using pact_cong[of s' s] by (simp add: treaties_ok_def same_treaties_def)

lemma same_treaties_send [simp]: "same_treaties s (send m s') = same_treaties s s'"
  by (simp add: same_treaties_def send_def flying_def)

lemma same_treaties_upd [simp]:
  "same_treaties s (s'\<lparr>st_rejected := x1\<rparr>) = same_treaties s s'" "same_treaties s (s'\<lparr>st_failedTreatyEnds := x2\<rparr>) = same_treaties s s'"
  "same_treaties s (s'\<lparr>st_pendingExits := x3\<rparr>) = same_treaties s s'" "same_treaties s (s'\<lparr>st_garrisonedIn := x4\<rparr>) = same_treaties s s'"
  "same_treaties s (MarkDirty i s') = same_treaties s s'" "same_treaties s (upd_unit i f s') = same_treaties s s'"
  "same_treaties s (economyError p r c s') = same_treaties s s'"
  "same_treaties s (treatyReject p r s') = same_treaties s s'" "same_treaties s (to_others_of x y q m s') = same_treaties s s'"
  by (simp_all add: same_treaties_def flying_def MarkDirty_def upd_unit_def economyError_def treatyReject_def
      send_def to_others_of_def split: option.split prod.split)

lemma same_treaties_status [simp]: "same_treaties s (set_status i st s') = same_treaties s s'"
  by (simp add: set_status_def)

lemma same_treaties_broadcast [simp]: "same_treaties s (broadcastTreaty t o' r s') = same_treaties s s'"
  by (simp add: broadcastTreaty_def)

lemma same_treaties_note [simp]: "same_treaties s (noteRejection t s') = same_treaties s s'"
  by (simp add: noteRejection_def Let_def split: option.split)

lemma same_treaties_moveUnit [simp]: "same_treaties s (moveUnit i t prev now s') = same_treaties s s'"
proof -
  have "same_treaties s (snd (MoveUnitTo i t s')) = same_treaties s s'"
    by (simp add: MoveUnitTo_def Let_def addToChunk_def removeFromChunk_def same_treaties_def flying_def upd_unit_def
        split: prod.split option.split)
  then show ?thesis by (cases "MoveUnitTo i t s'") (simp add: moveUnit_def Let_def split: prod.split)
qed

subsection \<open>Every order keeps the ladder\<close>

lemma pactD: "pact s k i = Some t \<Longrightarrow> map_of (st_treaties s) i = Some t \<and> (ty_PlayerA t, ty_PlayerB t) = k"
  by (auto simp: pact_def split: option.splits if_splits)

lemma pactI: "map_of (st_treaties s) i = Some t \<Longrightarrow> (ty_PlayerA t, ty_PlayerB t) = k \<Longrightarrow> pact s k i = Some t"
  by (simp add: pact_def)

lemma in_map_filter: "t \<in> set (List.map_filter f xs) \<longleftrightarrow> (\<exists>x\<in>set xs. f x = Some t)"
  by (induction xs) (auto simp: List.map_filter_simps split: option.splits)

lemma set_openOf: "t \<in> set (openOf D s x y) \<longleftrightarrow> (\<exists>i. pact s (pairKey D x y) i = Some t)"
proof -

  have "t \<in> set (openOf D s x y) \<longleftrightarrow>
      (\<exists>i. map_of (st_treaties s) i = Some t) \<and> ty_PlayerA t = fst (pairKey D x y) \<and> ty_PlayerB t = snd (pairKey D x y)"
    by (auto simp: openOf_def Let_def in_map_filter)
  also have "\<dots> \<longleftrightarrow> (\<exists>i. pact s (pairKey D x y) i = Some t)"
    by (cases "pairKey D x y") (metis pactD pactI fst_conv snd_conv Pair_inject)
  finally show ?thesis .
qed

lemma treaties_okD:
  assumes "treaties_ok D s"
  shows "map_of (st_treaties s) i = Some t \<Longrightarrow> pairKey D (ty_PlayerA t) (ty_PlayerB t) = (ty_PlayerA t, ty_PlayerB t)"
    "ladder (pact s k)" "w \<in> set (flying s) \<Longrightarrow> order_fits (pact s (pair_of D w)) w"
    "w \<in> set (flying s) \<Longrightarrow> (ty_PlayerA (trw_Treaty w), ty_PlayerB (trw_Treaty w)) = pair_of D w"
    "distinct (map (pair_of D) (flying s))" "has_key (st_treatyBusy s) k \<longleftrightarrow> k \<in> pair_of D ` set (flying s)"
proof -
  note ok = assms[unfolded treaties_ok_def]
  show "map_of (st_treaties s) i = Some t \<Longrightarrow> pairKey D (ty_PlayerA t) (ty_PlayerB t) = (ty_PlayerA t, ty_PlayerB t)"
    using ok[THEN conjunct1] by blast
  show "ladder (pact s k)" using ok[THEN conjunct2, THEN conjunct1] by (rule spec)
  note fl = ok[THEN conjunct2, THEN conjunct2, THEN conjunct1]
  show "w \<in> set (flying s) \<Longrightarrow> order_fits (pact s (pair_of D w)) w" using bspec[OF fl] by (rule conjunct1)
  show "w \<in> set (flying s) \<Longrightarrow> (ty_PlayerA (trw_Treaty w), ty_PlayerB (trw_Treaty w)) = pair_of D w"
    using bspec[OF fl] by (rule conjunct2)
  note rest = ok[THEN conjunct2, THEN conjunct2, THEN conjunct2]
  show "distinct (map (pair_of D) (flying s))" by (rule rest[THEN conjunct1])
  show "has_key (st_treatyBusy s) k \<longleftrightarrow> k \<in> pair_of D ` set (flying s)" by (rule rest[THEN conjunct2, THEN spec])
qed

lemma treaties_okI:
  assumes "\<And>i t. map_of (st_treaties s) i = Some t \<Longrightarrow> pairKey D (ty_PlayerA t) (ty_PlayerB t) = (ty_PlayerA t, ty_PlayerB t)"
    "\<And>k. ladder (pact s k)" "\<And>w. w \<in> set (flying s) \<Longrightarrow> order_fits (pact s (pair_of D w)) w"
    "\<And>w. w \<in> set (flying s) \<Longrightarrow> (ty_PlayerA (trw_Treaty w), ty_PlayerB (trw_Treaty w)) = pair_of D w"
    "distinct (map (pair_of D) (flying s))" "\<And>k. has_key (st_treatyBusy s) k \<longleftrightarrow> k \<in> pair_of D ` set (flying s)"
  shows "treaties_ok D s"
  unfolding treaties_ok_def by (intro conjI allI ballI impI) (rule assms; assumption?)+

lemma ladderD:
  assumes "ladder P" "P i = Some t"
  shows "ty_ID t = i" "ty_Status t = StatusProposed \<or> ty_Status t = StatusActive"
    "P j = Some u \<Longrightarrow> ty_Status t = ty_Status u \<Longrightarrow> i = j"
    "P j = Some u \<Longrightarrow> ty_Status t = StatusProposed \<Longrightarrow> ty_Status u = StatusActive \<Longrightarrow> Supersedes (ty_Type t) (ty_Type u)"
  using assms unfolding ladder_def by blast+

lemma submit_ok:
  assumes ok: "treaties_ok D s" and free: "\<not> has_key (st_treatyBusy s) (pair_of D w)"
    and fit: "order_fits (pact s (pair_of D w)) w" and canon: "(ty_PlayerA (trw_Treaty w), ty_PlayerB (trw_Treaty w)) = pair_of D w"
  shows "treaties_ok D (submitTreatyOrder D w p r s)"
proof -
  define w1 where "w1 = w\<lparr>trw_Tick := st_tick s, trw_AtMs := NowMs s, trw_By := p\<rparr>"
  define s1 where "s1 = submitTreatyOrder D w p r s"
  have w1: "pair_of D w1 = pair_of D w" "trw_Treaty w1 = trw_Treaty w" "order_fits P w1 = order_fits P w" for P
    by (simp_all add: w1_def pair_of_def order_fits_def)
  have fly: "flying s1 = flying s @ [w1]" by (simp add: s1_def submitTreatyOrder_def w1_def Let_def) (simp add: flying_def)
  have same: "st_treaties s1 = st_treaties s" "st_treatyBusy s1 = mark_key (pair_of D w) (st_treatyBusy s)"
    by (simp_all add: s1_def submitTreatyOrder_def submit_job_def Let_def pair_of_def)
  have pact: "pact s1 = pact s" by (rule pact_cong[OF same(1)])
  have "pair_of D w \<notin> pair_of D ` set (flying s)" using treaties_okD(6)[OF ok, of "pair_of D w"] free by simp
  then have dist: "distinct (map (pair_of D) (flying s1))" using treaties_okD(5)[OF ok] by (simp add: fly w1)
  have busy: "has_key (st_treatyBusy s1) k \<longleftrightarrow> k \<in> pair_of D ` set (flying s1)" for k
    using treaties_okD(6)[OF ok, of k] by (simp add: fly same w1)
  have fits1: "order_fits (pact s1 (pair_of D v)) v" if "v \<in> set (flying s1)" for v
  proof (cases "v = w1")
    case True then show ?thesis using fit w1 pact by simp
  next
    case False
    with that have "v \<in> set (flying s)" by (simp add: fly)
    then show ?thesis using treaties_okD(3)[OF ok] pact by simp
  qed
  have canon1: "(ty_PlayerA (trw_Treaty v), ty_PlayerB (trw_Treaty v)) = pair_of D v" if "v \<in> set (flying s1)" for v
  proof (cases "v = w1")
    case True then show ?thesis using canon w1 by simp
  next
    case False
    with that have "v \<in> set (flying s)" by (simp add: fly)
    then show ?thesis using treaties_okD(4)[OF ok] by simp
  qed
  show ?thesis unfolding s1_def[symmetric]
  proof (rule treaties_okI)
    show "pairKey D (ty_PlayerA t) (ty_PlayerB t) = (ty_PlayerA t, ty_PlayerB t)" if "map_of (st_treaties s1) i = Some t" for i t
      using that treaties_okD(1)[OF ok, of i t] by (simp only: same)
    show "ladder (pact s1 k)" for k using treaties_okD(2)[OF ok] pact by simp
  qed (rule fits1 canon1 dist busy; assumption?)+
qed

lemma superseded_Some: "superseded t os = Some u \<Longrightarrow> u \<in> set os \<and> ty_ID u \<noteq> ty_ID t \<and> ty_Status u = StatusActive"
  unfolding superseded_def by (induction os rule: rev_induct) (auto split: if_splits)

lemma superseded_None: "superseded t os = None \<Longrightarrow> v \<in> set os \<Longrightarrow> ty_ID v = ty_ID t \<or> ty_Status v \<noteq> StatusActive"
  unfolding superseded_def by (induction os rule: rev_induct) (auto split: if_splits)

lemma submit_ok_of:
  assumes ok: "treaties_ok D s" and t: "map_of (st_treaties s) i = Some t"
    and free: "\<not> has_key (st_treatyBusy s) (pairKey D (ty_PlayerA t) (ty_PlayerB t))"
    and n: "ty_PlayerA (trw_Treaty w) = ty_PlayerA t" "ty_PlayerB (trw_Treaty w) = ty_PlayerB t"
      "ty_ID (trw_Treaty w) = ty_ID t" "ty_Type (trw_Treaty w) = ty_Type t" "\<not> trw_Insert w"
    and st: "ty_Status (trw_Treaty w) \<noteq> StatusProposed \<and> ty_Status (trw_Treaty w) \<noteq> StatusActive \<and> trw_Supersede w = None \<or>
       ty_Status t = StatusActive \<and> ty_Status (trw_Treaty w) = StatusActive \<and> trw_Supersede w = None \<or>
       ty_Status t = StatusProposed \<and> ty_Status (trw_Treaty w) = StatusActive \<and>
         trw_Supersede w = superseded t (openOf D s (ty_PlayerA t) (ty_PlayerB t))"
  shows "treaties_ok D (submitTreatyOrder D w p r s)"
proof (rule submit_ok[OF ok])
  let ?k = "pairKey D (ty_PlayerA t) (ty_PlayerB t)" and ?os = "openOf D s (ty_PlayerA t) (ty_PlayerB t)"
  have k: "pair_of D w = ?k" using n by (simp add: pair_of_def)
  have canon: "?k = (ty_PlayerA t, ty_PlayerB t)" using treaties_okD(1)[OF ok t] .
  then have P: "pact s ?k i = Some t" using pactI[OF t] by simp
  note lad = ladderD[OF treaties_okD(2)[OF ok] P]
  show "\<not> has_key (st_treatyBusy s) (pair_of D w)" using free k by simp
  show "(ty_PlayerA (trw_Treaty w), ty_PlayerB (trw_Treaty w)) = pair_of D w" using n canon k by simp

  have all: "superseded t ?os = Some u"
    if "ty_Status t = StatusProposed" "pact s ?k j = Some u" "j \<noteq> ty_ID t" for j u
  proof -
    note ne = \<open>j \<noteq> ty_ID t\<close>
    have u: "ty_ID u = j" by (rule ladderD(1)[OF treaties_okD(2)[OF ok] that(2)])
    have "ty_Status u \<noteq> StatusProposed" using lad(3)[OF that(2)] that(1,3) lad(1) by metis
    then have act: "ty_Status u = StatusActive" using ladderD(2)[OF treaties_okD(2)[OF ok] that(2)] by simp
    have "u \<in> set ?os" using set_openOf that(2) by blast
    then obtain v where v: "superseded t ?os = Some v"
      using superseded_None[of t ?os u] u act ne by (cases "superseded t ?os") auto
    from superseded_Some[OF v] have vv: "v \<in> set ?os" "ty_Status v = StatusActive" by simp_all
    then obtain j' where j': "pact s ?k j' = Some v" "ty_Status v = StatusActive" using set_openOf by blast
    have "j' = j" using ladderD(3)[OF treaties_okD(2)[OF ok] j'(1) that(2)] j'(2) act by simp
    with j'(1) that(2) v show ?thesis by simp
  qed
  have revd: "ty_ID u \<noteq> ty_ID t \<and> pact s ?k (ty_ID u) = Some u" if "superseded t ?os = Some u" for u
  proof -
    have su: "u \<in> set ?os" "ty_ID u \<noteq> ty_ID t" using superseded_Some[OF that] by simp_all
    from su(1) set_openOf obtain j where j: "pact s ?k j = Some u" by blast
    have "ty_ID u = j" by (rule ladderD(1)[OF treaties_okD(2)[OF ok] j])
    with su(2) j show ?thesis by simp
  qed
  show "order_fits (pact s (pair_of D w)) w"
    unfolding order_fits_def Let_def k
  proof (simp only: n(5) if_False, intro exI conjI)
    show "pact s ?k (ty_ID (trw_Treaty w)) = Some t" using P lad(1) n(3) by simp
    show "ty_Type (trw_Treaty w) = ty_Type t" by (rule n(4))
    show "ty_Status (trw_Treaty w) \<noteq> StatusProposed \<and> ty_Status (trw_Treaty w) \<noteq> StatusActive \<and> trw_Supersede w = None \<or>
       ty_Status t = StatusActive \<and> ty_Status (trw_Treaty w) = StatusActive \<and> trw_Supersede w = None \<or>
       ty_Status t = StatusProposed \<and> ty_Status (trw_Treaty w) = StatusActive \<and>
         (\<forall>j u. pact s ?k j = Some u \<longrightarrow> j \<noteq> ty_ID (trw_Treaty w) \<longrightarrow> trw_Supersede w = Some u) \<and>
         (\<forall>u. trw_Supersede w = Some u \<longrightarrow> ty_ID u \<noteq> ty_ID (trw_Treaty w) \<and> pact s ?k (ty_ID u) = Some u)"
      using st n(3) all revd by metis
  qed
qed

subsection \<open>Answers on the ladder of a pair\<close>

lemma pact_put:
  assumes k: "(ty_PlayerA t, ty_PlayerB t) = k" and own: "\<And>u. map_of (st_treaties s) (ty_ID t) = Some u \<Longrightarrow> pact s k (ty_ID t) = Some u"
  shows "pact (s\<lparr>st_treaties := put_key (ty_ID t) t (st_treaties s)\<rparr>) k' = (if k' = k then (pact s k)(ty_ID t \<mapsto> t) else pact s k')"
  using k own by (intro ext) (auto simp: pact_def split: option.splits if_splits)

lemma pact_del:
  assumes own: "\<And>u. map_of (st_treaties s) i = Some u \<Longrightarrow> pact s k i = Some u"
  shows "pact (s\<lparr>st_treaties := del_key i (st_treaties s)\<rparr>) k' = (if k' = k then (pact s k)(i := None) else pact s k')"
  using own by (intro ext) (auto simp: pact_def split: option.splits if_splits)

lemma ladder_del: "ladder P \<Longrightarrow> ladder (P(i := None))"
  unfolding ladder_def fun_upd_def by (auto split: if_splits)

text \<open>The state of one pair after a confirmed answer.\<close>

definition answered :: "(int64 \<rightharpoonup> treaty) \<Rightarrow> treaty_write \<Rightarrow> treaty \<Rightarrow> int64 \<rightharpoonup> treaty" where
  "answered P w t =
     (case trw_Supersede w of None \<Rightarrow> P | Some o' \<Rightarrow> P(ty_ID o' := None))
       (ty_ID t := (if ty_Status t = StatusProposed \<or> ty_Status t = StatusActive then Some t else None))"

lemma ladder_one: "ty_ID t = i \<Longrightarrow> ty_Status t = StatusProposed \<or> ty_Status t = StatusActive \<Longrightarrow> ladder [i \<mapsto> t]"
  by (auto simp: ladder_def)

lemma ladder_offer:
  assumes "ladder P" "P (ty_ID n) = None" "ty_Status n = StatusProposed"
    "\<And>j u. P j = Some u \<Longrightarrow> ty_Status u = StatusActive \<and> Supersedes (ty_Type n) (ty_Type u)"
  shows "ladder (P(ty_ID n \<mapsto> n))"
proof -
  note lad = ladderD[OF assms(1)]
  show ?thesis unfolding ladder_def
  proof (intro conjI allI impI)
    fix i t assume "(P(ty_ID n \<mapsto> n)) i = Some t"
    then show "ty_ID t = i" "ty_Status t = StatusProposed \<or> ty_Status t = StatusActive"
      using lad(1,2)[of i t] assms(3) by (auto split: if_splits)
  next
    fix i j t u assume "(P(ty_ID n \<mapsto> n)) i = Some t" "(P(ty_ID n \<mapsto> n)) j = Some u" "ty_Status t = ty_Status u"
    then show "i = j" using lad(3)[of i t j u] assms(3) assms(4)[of i t] assms(4)[of j u] by (auto split: if_splits)
  next
    fix i j t u assume "(P(ty_ID n \<mapsto> n)) i = Some t" "(P(ty_ID n \<mapsto> n)) j = Some u"
      "ty_Status t = StatusProposed" "ty_Status u = StatusActive"
    then show "Supersedes (ty_Type t) (ty_Type u)"
      using lad(4)[of i t j u] assms(3) assms(4)[of j u] assms(4)[of i t] by (auto split: if_splits)
  qed
qed

lemma ladder_same_step:
  assumes "ladder P" "P (ty_ID n) = Some t" "ty_Type n = ty_Type t" "ty_Status n = ty_Status t"
  shows "ladder (P(ty_ID n \<mapsto> n))"
proof -
  note lad = ladderD[OF assms(1)]
  show ?thesis unfolding ladder_def
  proof (intro conjI allI impI)
    fix i u assume h: "(P(ty_ID n \<mapsto> n)) i = Some u"
    have "ty_ID u = i \<and> (ty_Status u = StatusProposed \<or> ty_Status u = StatusActive)"
    proof (cases "i = ty_ID n")
      case True with h lad(2)[OF assms(2)] assms(4) show ?thesis by auto
    next
      case False
      with h have "P i = Some u" by simp
      from lad(1)[OF this] lad(2)[OF this] show ?thesis by simp
    qed
    then show "ty_ID u = i" "ty_Status u = StatusProposed \<or> ty_Status u = StatusActive" by simp_all
  next
    fix i j v u assume "(P(ty_ID n \<mapsto> n)) i = Some v" "(P(ty_ID n \<mapsto> n)) j = Some u" "ty_Status v = ty_Status u"
    note h = this
    define v' where "v' = (if i = ty_ID n then t else v)"
    define u' where "u' = (if j = ty_ID n then t else u)"
    have "P i = Some v'" "P j = Some u'" "ty_Status v' = ty_Status u'"
      using h assms(2,4) by (auto simp: v'_def u'_def split: if_splits)
    then show "i = j" by (rule lad(3))
  next
    fix i j v u assume "(P(ty_ID n \<mapsto> n)) i = Some v" "(P(ty_ID n \<mapsto> n)) j = Some u"
      "ty_Status v = StatusProposed" "ty_Status u = StatusActive"
    note h = this
    define v' where "v' = (if i = ty_ID n then t else v)"
    define u' where "u' = (if j = ty_ID n then t else u)"
    have "P i = Some v'" "P j = Some u'" "ty_Status v' = StatusProposed" "ty_Status u' = StatusActive"
      "ty_Type v' = ty_Type v" "ty_Type u' = ty_Type u"
      using h assms(2,3,4) by (auto simp: v'_def u'_def split: if_splits)
    then show "Supersedes (ty_Type v) (ty_Type u)" using lad(4)[of i v' j u'] by simp
  qed
qed

lemma ladder_answered:
  assumes lad: "ladder P" and fit: "order_fits P w"
    and t: "t = (if trw_Insert w then (trw_Treaty w)\<lparr>ty_ID := i\<rparr> else trw_Treaty w)"
    and fresh: "trw_Insert w \<Longrightarrow> P i = None"
  shows "ladder (answered P w t)"
proof (cases "trw_Insert w")
  case True
  with fit have f: "ty_Status (trw_Treaty w) = StatusProposed" "trw_Supersede w = None"
    "\<And>j u. P j = Some u \<Longrightarrow> ty_Status u = StatusActive \<and> Supersedes (ty_Type (trw_Treaty w)) (ty_Type u)"
    by (simp_all add: order_fits_def Let_def)
  have "ladder (P(ty_ID t \<mapsto> t))" by (rule ladder_offer[OF lad]) (use True t fresh f in simp_all)
  with f True t show ?thesis by (simp add: answered_def)
next
  case False
  with t have t: "t = trw_Treaty w" by simp
  from False fit[unfolded order_fits_def Let_def] obtain u where u: "P (ty_ID t) = Some u" "ty_Type t = ty_Type u"
    and st: "ty_Status t \<noteq> StatusProposed \<and> ty_Status t \<noteq> StatusActive \<and> trw_Supersede w = None \<or>
      ty_Status u = StatusActive \<and> ty_Status t = StatusActive \<and> trw_Supersede w = None \<or>
      ty_Status u = StatusProposed \<and> ty_Status t = StatusActive \<and>
        (\<forall>j v. P j = Some v \<longrightarrow> j \<noteq> ty_ID t \<longrightarrow> trw_Supersede w = Some v) \<and>
        (\<forall>v. trw_Supersede w = Some v \<longrightarrow> ty_ID v \<noteq> ty_ID t \<and> P (ty_ID v) = Some v)"
    unfolding t by (simp only: if_False) blast
  from st show ?thesis
  proof (elim disjE conjE)
    assume "ty_Status t \<noteq> StatusProposed" "ty_Status t \<noteq> StatusActive" "trw_Supersede w = None"
    with ladder_del[OF lad] show ?thesis by (simp add: answered_def)
  next
    assume "ty_Status u = StatusActive" "ty_Status t = StatusActive" "trw_Supersede w = None"
    with ladder_same_step[OF lad u] show ?thesis by (simp add: answered_def)
  next
    assume act: "ty_Status t = StatusActive" and
      all: "\<forall>j v. P j = Some v \<longrightarrow> j \<noteq> ty_ID t \<longrightarrow> trw_Supersede w = Some v" and
      sup: "\<forall>v. trw_Supersede w = Some v \<longrightarrow> ty_ID v \<noteq> ty_ID t \<and> P (ty_ID v) = Some v"
    have "answered P w t j = [ty_ID t \<mapsto> t] j" for j
      using act all[rule_format, of j] sup ladderD(1)[OF lad, of j]
      by (cases "P j"; cases "trw_Supersede w") (auto simp: answered_def)
    then have "answered P w t = [ty_ID t \<mapsto> t]" by blast
    with ladder_one[of t] act show ?thesis by simp
  qed
qed

subsection \<open>The orders and the answers\<close>

lemma if_splitI: "(c \<Longrightarrow> P x) \<Longrightarrow> (\<not> c \<Longrightarrow> P y) \<Longrightarrow> P (if c then x else y)"
  by simp

lemma TransitionTo_keeps:
  "TransitionTo t nx at = Ok t' \<Longrightarrow> ty_ID t' = ty_ID t \<and> ty_Type t' = ty_Type t \<and> ty_PlayerA t' = ty_PlayerA t \<and>
     ty_PlayerB t' = ty_PlayerB t \<and> ty_Status t' = nx"
  by (cases nx) (auto simp: TransitionTo_def Let_def split: if_splits)

lemma TreatyWriteOf_fields [simp]:
  "trw_Treaty (TreatyWriteOf t f e) = t" "trw_Insert (TreatyWriteOf t f e) = False" "trw_Supersede (TreatyWriteOf t f e) = None"
  by (simp_all add: TreatyWriteOf_def)

lemma handleProposeTreaty_ok:
  assumes ok: "treaties_ok D s"
  shows "treaties_ok D (handleProposeTreaty D p r target ty s)"
proof -
  let ?k = "pairKey D p target"
  have kk: "pairKey D (fst ?k) (snd ?k) = ?k" by simp
  have act: "ty_Status u = StatusActive \<and> Supersedes ty (ty_Type u)"
    if "\<not> list_ex (blocks_offer ty) (openOf D s p target)" "pact s ?k j = Some u" for j u
  proof -
    have "u \<in> set (openOf D s p target)" using that(2) set_openOf by blast
    with that(1) have "\<not> blocks_offer ty u" by (auto simp: list_ex_iff)
    then show ?thesis using ladderD(2)[OF treaties_okD(2)[OF ok] that(2)] by (simp add: blocks_offer_def)
  qed
  have rej: "treaties_ok D (treatyReject p r s)" "treaties_ok D (economyError p r CodeInternalError s)"
    by (rule same_treaties_ok[OF ok]; simp)+
  have sub: "treaties_ok D (submitTreatyOrder D w p r s)"
    if free: "\<not> has_key (st_treatyBusy s) ?k" and blocks: "\<not> list_ex (blocks_offer ty) (openOf D s p target)"
      and w: "ty_PlayerA (trw_Treaty w) = fst ?k" "ty_PlayerB (trw_Treaty w) = snd ?k" "trw_Insert w"
        "ty_Status (trw_Treaty w) = StatusProposed" "ty_Type (trw_Treaty w) = ty" "trw_Supersede w = None" for w
  proof -
    have k: "pair_of D w = ?k" by (simp only: pair_of_def w kk)
    show ?thesis
    proof (rule submit_ok[OF ok], unfold k)
      show "order_fits (pact s ?k) w"
        unfolding order_fits_def Let_def using w act[OF blocks] by (simp only: if_True) blast
    qed (use free w in simp_all)
  qed
  show ?thesis unfolding handleProposeTreaty_def Let_def
    by (intro if_splitI[where P="treaties_ok D"] rej sub) simp_all
qed

lemma handleRespondTreaty_ok:
  assumes ok: "treaties_ok D s"
  shows "treaties_ok D (handleRespondTreaty D p r i accept s)"
proof -
  have rej: "treaties_ok D (treatyReject p r s)" by (rule same_treaties_ok[OF ok]) simp
  show ?thesis
  proof (cases "map_of (st_treaties s) i")
    case None with rej show ?thesis by (simp add: handleRespondTreaty_def)
  next
    case (Some t)
    let ?nx = "if accept then StatusActive else StatusRejected"
    show ?thesis
    proof (cases "CanRespond t p \<noteq> None \<or> has_key (st_treatyBusy s) (pairKey D (ty_PlayerA t) (ty_PlayerB t)) \<or>
        (\<exists>e. TransitionTo t ?nx (treatyNow s) = Err e)")
      case True with Some rej show ?thesis by (cases accept) (auto simp: handleRespondTreaty_def)
    next
      case False
      then have r: "CanRespond t p = None" and free: "\<not> has_key (st_treatyBusy s) (pairKey D (ty_PlayerA t) (ty_PlayerB t))"
        by simp_all
      from False obtain after where a: "TransitionTo t ?nx (treatyNow s) = Ok after"
        by (cases "TransitionTo t ?nx (treatyNow s)") auto
      have offered: "ty_Status t = StatusProposed" using r by (simp add: CanRespond_def split: if_splits)
      note kept = TransitionTo_keeps[OF a]
      define w where "w = (TreatyWriteOf after StatusProposed (if accept then ''TreatyAccepted'' else ''TreatyRejected''))
        \<lparr>trw_Supersede := (if accept then superseded t (openOf D s (ty_PlayerA t) (ty_PlayerB t)) else None)\<rparr>"
      have "treaties_ok D (submitTreatyOrder D w p r s)"
        by (rule submit_ok_of[OF ok Some free]) (use kept offered in \<open>simp_all add: w_def\<close>)
      moreover have "handleRespondTreaty D p r i accept s = submitTreatyOrder D w p r s"
        using Some r free a by (cases accept) (simp_all add: handleRespondTreaty_def w_def)
      ultimately show ?thesis by simp
    qed
  qed
qed

lemma handleCancelTreaty_ok:
  assumes ok: "treaties_ok D s"
  shows "treaties_ok D (handleCancelTreaty D p r i s)"
proof -
  have rej: "treaties_ok D (treatyReject p r s)" by (rule same_treaties_ok[OF ok]) simp
  show ?thesis
  proof (cases "map_of (st_treaties s) i")
    case None with rej show ?thesis by (simp add: handleCancelTreaty_def)
  next
    case (Some t)
    let ?free = "\<not> has_key (st_treatyBusy s) (pairKey D (ty_PlayerA t) (ty_PlayerB t))"
    have withdrawn: "treaties_ok D (submitTreatyOrder D
        (TreatyWriteOf (case TransitionTo t StatusWithdrawn now of Err _ \<Rightarrow> t | Ok after \<Rightarrow> after) StatusProposed e) p r s)"
      if "?free" and st: "ty_Status t = StatusProposed" for now e
    proof -
      obtain after where a: "TransitionTo t StatusWithdrawn now = Ok after"
        using st by (auto simp: TransitionTo_def CanTransitionTo_def transicionesPermitidas_def Valid_treaty_status_def Let_def)
      show ?thesis using submit_ok_of[OF ok Some that(1), of "TreatyWriteOf after StatusProposed e" p r] TransitionTo_keeps[OF a]
        by (simp add: a)
    qed
    have broken: "treaties_ok D (submitTreatyOrder D (TreatyWriteOf (t\<lparr>ty_BreakEffectiveAt := b\<rparr>) StatusActive e) p r s)"
      if "?free" "CanBreak t p = None" for b e
    proof -
      from that(2) have "ty_Status t = StatusActive" by (simp add: CanBreak_def split: if_splits)
      then show ?thesis
        using submit_ok_of[OF ok Some that(1), of "TreatyWriteOf (t\<lparr>ty_BreakEffectiveAt := b\<rparr>) StatusActive e" p r] by simp
    qed
    show ?thesis unfolding handleCancelTreaty_def Some option.case Let_def
      by (intro if_splitI[where P="treaties_ok D"] rej withdrawn broken) simp_all
  qed
qed

text \<open>What an answer leaves of the table.\<close>

definition answered_table :: "(int64, treaty) gomap \<Rightarrow> treaty_write \<Rightarrow> treaty \<Rightarrow> (int64, treaty) gomap" where
  "answered_table T w t =
     (let T1 = (case trw_Supersede w of None \<Rightarrow> T | Some o' \<Rightarrow> del_key (ty_ID o') T)
      in if ty_Status t = StatusProposed \<or> ty_Status t = StatusActive then put_key (ty_ID t) t T1 else del_key (ty_ID t) T1)"

lemma broadcastTreaty_fields [simp]:
  "st_treaties (broadcastTreaty t p r s) = st_treaties s" "st_treatyBusy (broadcastTreaty t p r s) = st_treatyBusy s"
  "sm_jobs (broadcastTreaty t p r s) = sm_jobs s"
  by (simp_all add: broadcastTreaty_def send_def)

lemma noteRejection_fields [simp]:
  "st_treaties (noteRejection t s) = st_treaties s" "st_treatyBusy (noteRejection t s) = st_treatyBusy s"
  "sm_jobs (noteRejection t (z::sim)) = sm_jobs z"
  by (simp_all add: noteRejection_def Let_def split: option.split)

lemma storeTreaty_fields [simp]:
  "st_treatyBusy (storeTreaty t s) = st_treatyBusy s" "sm_jobs (storeTreaty t (z::sim)) = sm_jobs z"
  "st_treaties (storeTreaty t s) =
     (if ty_Status t = StatusProposed \<or> ty_Status t = StatusActive then put_key (ty_ID t) t (st_treaties s)
      else del_key (ty_ID t) (st_treaties s))"
  by (simp_all add: storeTreaty_def)

lemma handleTreatyResolved_fields:
  defines "t \<equiv> \<lambda>w i. if trw_Insert w then (trw_Treaty w)\<lparr>ty_ID := i\<rparr> else trw_Treaty w"
  shows "st_treatyBusy (handleTreatyResolved D p r w i c s) = del_key (pair_of D w) (st_treatyBusy s)"
    "sm_jobs (handleTreatyResolved D p r w i c s) = sm_jobs s"
    "st_treaties (handleTreatyResolved D p r w i c s) =
       (if c = None then answered_table (st_treaties s) w (t w i) else st_treaties s)"
  by (cases c; cases "trw_Supersede w";
      simp add: handleTreatyResolved_def Let_def pair_of_def economyError_def send_def answered_table_def t_def)+

lemma answered_pact:
  assumes T: "st_treaties s' = answered_table (st_treaties s) w t" and k: "(ty_PlayerA t, ty_PlayerB t) = k"
    and own: "\<And>u. map_of (st_treaties s) (ty_ID t) = Some u \<Longrightarrow> pact s k (ty_ID t) = Some u"
    and sup: "\<And>v u. trw_Supersede w = Some v \<Longrightarrow> map_of (st_treaties s) (ty_ID v) = Some u \<Longrightarrow> pact s k (ty_ID v) = Some u"
  shows "pact s' k' = (if k' = k then answered (pact s k) w t else pact s k')"
proof (rule ext)
  show "pact s' k' j = (if k' = k then answered (pact s k) w t else pact s k') j" for j
    using k own[of "the (map_of (st_treaties s) j)"] sup[of _ "the (map_of (st_treaties s) j)"]
    by (cases "trw_Supersede w"; cases "map_of (st_treaties s) j")
      (auto simp: pact_def T answered_table_def answered_def split: if_splits)
qed

lemma flying_split: "sm_jobs s = js1 @ j # js2 \<Longrightarrow> order_in j = Some (p, r, w) \<Longrightarrow>
    \<exists>f1 f2. flying s = f1 @ w # f2 \<and> flying (s\<lparr>sm_jobs := js1 @ js2\<rparr>) = f1 @ f2"
  by (auto simp: flying_def map_filter_append List.map_filter_simps)

lemma handleTreatyResolved_ok:
  assumes ok: "treaties_ok D s" and jobs: "sm_jobs s = js1 @ j # js2" "order_in j = Some (p, r, w)"
    and fresh: "c = None \<Longrightarrow> trw_Insert w \<Longrightarrow> map_of (st_treaties s) i = None"
  shows "treaties_ok D (handleTreatyResolved D p r w i c (s\<lparr>sm_jobs := js1 @ js2\<rparr>))"
proof -
  define s' where "s' = handleTreatyResolved D p r w i c (s\<lparr>sm_jobs := js1 @ js2\<rparr>)"
  define t where "t = (if trw_Insert w then (trw_Treaty w)\<lparr>ty_ID := i\<rparr> else trw_Treaty w)"
  define k where "k = pair_of D w"
  obtain f1 f2 where f: "flying s = f1 @ w # f2" "flying (s\<lparr>sm_jobs := js1 @ js2\<rparr>) = f1 @ f2"
    using flying_split[OF jobs] by blast
  have f': "flying s' = f1 @ f2"
    using flying_cong[of s' "s\<lparr>sm_jobs := js1 @ js2\<rparr>"] f(2) by (simp add: s'_def handleTreatyResolved_fields)
  have win: "w \<in> set (flying s)" by (simp add: f)
  note fit = treaties_okD(3)[OF ok win, folded k_def]
  have tk: "(ty_PlayerA t, ty_PlayerB t) = k" using treaties_okD(4)[OF ok win] by (simp add: t_def k_def)
  have ck: "pairKey D (ty_PlayerA t) (ty_PlayerB t) = (ty_PlayerA t, ty_PlayerB t)"
    using tk by (simp add: t_def k_def pair_of_def)
  have dist: "distinct (map (pair_of D) (flying s'))" "k \<notin> pair_of D ` set (flying s')"
    using treaties_okD(5)[OF ok] by (auto simp: f f' k_def)
  have busy: "has_key (st_treatyBusy s') k' \<longleftrightarrow> k' \<in> pair_of D ` set (flying s')" for k'
  proof -
    have "st_treatyBusy s' = del_key k (st_treatyBusy s)" by (simp add: s'_def handleTreatyResolved_fields k_def)
    moreover have "has_key (st_treatyBusy s) k' \<longleftrightarrow> k' = k \<or> k' \<in> pair_of D ` set (flying s')"
      using treaties_okD(6)[OF ok, of k'] by (auto simp: f f' k_def)
    ultimately show ?thesis using dist(2) by auto
  qed
  have old: "v \<in> set (flying s') \<Longrightarrow> v \<in> set (flying s) \<and> pair_of D v \<noteq> k" for v using dist(2) by (auto simp: f f')
  have P: "pact s' k' = (if c = None \<and> k' = k then answered (pact s k) w t else pact s k')" for k'
  proof (cases c)
    case (Some e)
    have "st_treaties s' = st_treaties s" by (simp add: s'_def handleTreatyResolved_fields Some)
    from pact_cong[OF this] Some show ?thesis by simp
  next
    case None
    have T: "st_treaties s' = answered_table (st_treaties s) w t"
      by (simp add: s'_def handleTreatyResolved_fields None t_def)
    have "pact s' k' = (if k' = k then answered (pact s k) w t else pact s k')"
    proof (rule answered_pact[OF T tk])
      fix u assume m: "map_of (st_treaties s) (ty_ID t) = Some u"
      then have ni: "\<not> trw_Insert w" using fresh None by (auto simp: t_def)
      with fit obtain u' where "pact s k (ty_ID t) = Some u'" by (auto simp: order_fits_def Let_def t_def)
      with m show "pact s k (ty_ID t) = Some u" using pactD by fastforce
    next
      fix v u assume "trw_Supersede w = Some v" and m: "map_of (st_treaties s) (ty_ID v) = Some u"
      with fit have "pact s k (ty_ID v) = Some v" by (auto simp: order_fits_def Let_def split: if_splits)
      with m show "pact s k (ty_ID v) = Some u" using pactD by fastforce
    qed
    then show ?thesis by (simp add: None)
  qed
  show ?thesis unfolding s'_def[symmetric]
  proof (rule treaties_okI)
    fix j u assume "map_of (st_treaties s') j = Some u"
    then have "map_of (st_treaties s) j = Some u \<or> u = t"
      by (auto simp: s'_def handleTreatyResolved_fields answered_table_def t_def Let_def split: if_splits option.splits)
    then show "pairKey D (ty_PlayerA u) (ty_PlayerB u) = (ty_PlayerA u, ty_PlayerB u)"
      using treaties_okD(1)[OF ok] ck by blast
  next
    fix k'
    have "ladder (answered (pact s k) w t)" if "c = None"
      by (rule ladder_answered[OF treaties_okD(2)[OF ok] fit t_def]) (use fresh that in \<open>simp add: pact_def\<close>)
    then show "ladder (pact s' k')" using treaties_okD(2)[OF ok, of k'] P[of k'] by (simp split: if_split)
  next
    fix v assume "v \<in> set (flying s')"
    from old[OF this] treaties_okD(3,4)[OF ok] P[of "pair_of D v"]
    show "order_fits (pact s' (pair_of D v)) v" "(ty_PlayerA (trw_Treaty v), ty_PlayerB (trw_Treaty v)) = pair_of D v"
      by simp_all
  qed (rule dist busy)+
qed

subsection \<open>The sweep\<close>

lemma order_in_other [simp]:
  "order_in \<lparr>jb_Name = n, jb_Key = k, jb_Key2 = k2, jb_OnPermanentFailure = Some [TreatyEndPersistFailed w], jb_Run = x\<rparr> = None"
  "order_in \<lparr>jb_Name = n, jb_Key = k, jb_Key2 = k2, jb_OnPermanentFailure = Some [GarrisonExitFailed i c t], jb_Run = x\<rparr> = None"
  by (simp_all add: order_in_def)

lemma same_treaties_end [simp]: "same_treaties s (submitTreatyEnd D w s') = same_treaties s s'"
  by (simp add: submitTreatyEnd_def same_treaties_def flying_other) (simp add: submit_job_def)

lemma same_treaties_exit:
  assumes "exit_garrison D i c req s = Ok s'"
  shows "same_treaties s s'"
proof -
  have sub: "same_treaties s (submit_job n k w (Some [GarrisonExitFailed i c t]) s1) = same_treaties s s1" for n k w i c t s1
    by (simp add: same_treaties_def flying_other) (simp add: submit_job_def)
  show ?thesis using assms unfolding exit_garrison_def Let_def
    by (auto simp: sub split: sum.splits if_splits prod.splits)
qed

lemma expelGarrisons_same: "same_treaties s (expelGarrisons D a b s)"
proof -
  have "same_treaties s (expel_unit D a b i s)" for i s
    unfolding expel_unit_def Let_def by (auto split: option.split sum.split dest: same_treaties_exit)
  then have "same_treaties s0 s \<Longrightarrow> same_treaties s0 (fold (expel_unit D a b) iis s)" for s0 s iis
    by (induction iis arbitrary: s) (simp_all, metis same_treaties_trans)
  then show ?thesis by (simp add: expelGarrisons_def)
qed

lemma treaty_end_closed:
  assumes "treaty_end D now t = Some w"
  shows "ty_ID (trw_Treaty w) = ty_ID t \<and> ty_Status (trw_Treaty w) \<in> {StatusExpired, StatusBroken}"
  using assms unfolding treaty_end_def
  by (auto simp: EndsAt_def Let_def split: treaty_status.splits if_splits sum.splits option.splits prod.splits dest: TransitionTo_keeps)

lemma closing_ok:
  assumes ok: "treaties_ok D s" and t: "map_of (st_treaties s) i = Some t"
    and free: "\<not> has_key (st_treatyBusy s) (pairKey D (ty_PlayerA t) (ty_PlayerB t))"
  shows "treaties_ok D (s\<lparr>st_treaties := del_key i (st_treaties s)\<rparr>)" (is "treaties_ok D ?s")
proof -
  define k where "k = (ty_PlayerA t, ty_PlayerB t)"
  note canon = treaties_okD(1)[OF ok t, folded k_def]
  have P: "pact ?s k' = (if k' = k then (pact s k)(i := None) else pact s k')" for k'
    by (rule pact_del) (use t in \<open>simp add: pact_def k_def\<close>)
  have fl: "flying ?s = flying s" by (rule flying_cong) simp
  have other: "pair_of D w \<noteq> k" if "w \<in> set (flying s)" for w
    using treaties_okD(6)[OF ok, of k] free that canon by (metis image_eqI)
  show ?thesis
  proof (rule treaties_okI)
    fix j u assume "map_of (st_treaties ?s) j = Some u"
    then have "map_of (st_treaties s) j = Some u" by (simp split: if_splits)
    then show "pairKey D (ty_PlayerA u) (ty_PlayerB u) = (ty_PlayerA u, ty_PlayerB u)" by (rule treaties_okD(1)[OF ok])
  next
    show "ladder (pact ?s k')" for k'
      using treaties_okD(2)[OF ok, of k'] ladder_del[OF treaties_okD(2)[OF ok], of k i] unfolding P by simp
  next
    fix w assume "w \<in> set (flying ?s)"
    then have w: "w \<in> set (flying s)" by (simp only: fl)
    show "order_fits (pact ?s (pair_of D w)) w" using treaties_okD(3)[OF ok w] other[OF w] unfolding P by simp
    show "(ty_PlayerA (trw_Treaty w), ty_PlayerB (trw_Treaty w)) = pair_of D w" by (rule treaties_okD(4)[OF ok w])
  next
    show "distinct (map (pair_of D) (flying ?s))" using treaties_okD(5)[OF ok] by (simp only: fl)
    show "has_key (st_treatyBusy ?s) k' \<longleftrightarrow> k' \<in> pair_of D ` set (flying ?s)" for k'
      using treaties_okD(6)[OF ok, of k'] by (simp add: fl)
  qed
qed

lemma sweep_treaty_ok:
  assumes ok: "treaties_ok D s"
  shows "treaties_ok D (sweep_treaty D now i s)"
proof (cases "map_of (st_treaties s) i")
  case None with ok show ?thesis by (simp add: sweep_treaty_def)
next
  case (Some t)
  show ?thesis
  proof (cases "has_key (st_treatyBusy s) (pairKey D (ty_PlayerA t) (ty_PlayerB t)) \<or> treaty_end D now t = None")
    case True with ok Some show ?thesis by (auto simp: sweep_treaty_def)
  next
    case False
    then obtain w where w: "treaty_end D now t = Some w" and free: "\<not> has_key (st_treatyBusy s) (pairKey D (ty_PlayerA t) (ty_PlayerB t))"
      by auto
    have "ty_ID t = i" using ladderD(1)[OF treaties_okD(2)[OF ok] pactI[OF Some refl]] .
    with treaty_end_closed[OF w] have st: "storeTreaty (trw_Treaty w) s = s\<lparr>st_treaties := del_key i (st_treaties s)\<rparr>"
      by (auto simp: storeTreaty_def)
    define s1 where "s1 = broadcastTreaty (trw_Treaty w) 0 '''' (storeTreaty (trw_Treaty w) s)"
    have s1: "treaties_ok D s1"
      using same_treaties_ok[OF closing_ok[OF ok Some free]] by (simp add: s1_def st)
    have "same_treaties s1 (sweep_treaty D now i s)"
      using Some free w expelGarrisons_same by (simp add: sweep_treaty_def s1_def[symmetric] Let_def)
    with s1 show ?thesis by (rule same_treaties_ok)
  qed
qed

lemma sweep_open_treaties_ok:
  assumes ok: "treaties_ok D s"
  shows "treaties_ok D (sweep_open_treaties D now s)"
proof -
  have "same_treaties s0 s \<Longrightarrow> same_treaties s0 (fold (submitTreatyEnd D) ws s)" for ws s0 s
    by (induction ws arbitrary: s) simp_all
  then have "treaties_ok D (fold (submitTreatyEnd D) (st_failedTreatyEnds s) (s\<lparr>st_failedTreatyEnds := []\<rparr>))"
    by (intro same_treaties_ok[OF ok]) simp
  moreover have "treaties_ok D s \<Longrightarrow> treaties_ok D (fold (sweep_treaty D now) iis s)" for s iis
    by (induction iis arbitrary: s) (simp_all add: sweep_treaty_ok)
  ultimately show ?thesis by (simp add: sweep_open_treaties_def Let_def)
qed

subsection \<open>The runs of orders, answers and sweeps\<close>

text \<open>The table as the boot loads it: one offer and one treaty in force at most by pair, nothing in flight.\<close>

definition treaties_loaded :: "deps \<Rightarrow> sim \<Rightarrow> bool" where
  "treaties_loaded D s \<longleftrightarrow>
     (\<forall>i t. map_of (st_treaties s) i = Some t \<longrightarrow> pairKey D (ty_PlayerA t) (ty_PlayerB t) = (ty_PlayerA t, ty_PlayerB t)) \<and>
     (\<forall>k. ladder (pact s k)) \<and> st_treatyBusy s = [] \<and> flying s = []"

inductive pact_run :: "deps \<Rightarrow> sim \<Rightarrow> bool" for D where
  pact_load: "treaties_loaded D s \<Longrightarrow> pact_run D s"
| pact_propose: "pact_run D s \<Longrightarrow> pact_run D (handleProposeTreaty D p r target ty s)"
| pact_respond: "pact_run D s \<Longrightarrow> pact_run D (handleRespondTreaty D p r i accept s)"
| pact_cancel: "pact_run D s \<Longrightarrow> pact_run D (handleCancelTreaty D p r i s)"
| pact_answer: "pact_run D s \<Longrightarrow> sm_jobs s = js1 @ j # js2 \<Longrightarrow> order_in j = Some (p, r, w) \<Longrightarrow>
    (c = None \<Longrightarrow> trw_Insert w \<Longrightarrow> map_of (st_treaties s) i = None) \<Longrightarrow>
    pact_run D (handleTreatyResolved D p r w i c (s\<lparr>sm_jobs := js1 @ js2\<rparr>))"
| pact_sweep: "pact_run D s \<Longrightarrow> pact_run D (sweep_open_treaties D now s)"
| pact_other: "pact_run D s \<Longrightarrow> same_treaties s s' \<Longrightarrow> pact_run D s'"

lemma pact_run_ok: "pact_run D s \<Longrightarrow> treaties_ok D s"
proof (induction rule: pact_run.induct)
  case (pact_load s) then show ?case by (simp add: treaties_loaded_def treaties_ok_def)
next
  case (pact_propose s p r target ty) from this(2) show ?case by (rule handleProposeTreaty_ok)
next
  case (pact_respond s p r i accept) from this(2) show ?case by (rule handleRespondTreaty_ok)
next
  case (pact_cancel s p r i) from this(2) show ?case by (rule handleCancelTreaty_ok)
next
  case (pact_answer s js1 j js2 p r w c i)
  show ?case by (rule handleTreatyResolved_ok[OF pact_answer.IH pact_answer.hyps(2,3) pact_answer.hyps(4)])
next
  case (pact_sweep s now) from this(2) show ?case by (rule sweep_open_treaties_ok)
next
  case (pact_other s s') from this(3,2) show ?case by (rule same_treaties_ok)
qed

lemma busy_one_order:
  assumes "treaties_ok D s"
  shows "length (filter (\<lambda>w. pair_of D w = k) (flying s)) = (if has_key (st_treatyBusy s) k then 1 else 0)"
proof -
  have "length (filter (\<lambda>x. x = k) ks) = (if k \<in> set ks then 1 else 0)" if "distinct ks" for ks
    using that by (induction ks) auto
  from this[OF treaties_okD(5)[OF assms]] treaties_okD(6)[OF assms, of k] show ?thesis
    by (simp add: filter_map comp_def)
qed

text \<open>
  C6: in every run of proposals, answers of players, withdrawals and breaks, confirmations and
  rejections of the database in any order, and sweeps, from a table loaded at the boot: two open
  treaties of a pair of players are one offer and one in force, and never two of the same kind; the
  offer is of a higher step of the ladder than the treaty it would replace; and a pair is reserved
  exactly while one order of theirs waits for its answer, never two.
\<close>

theorem one_offer_one_treaty:
  assumes "pact_run D s"
  shows "(\<forall>i j t u. map_of (st_treaties s) i = Some t \<longrightarrow> map_of (st_treaties s) j = Some u \<longrightarrow> i \<noteq> j \<longrightarrow>
           pairKey D (ty_PlayerA t) (ty_PlayerB t) = pairKey D (ty_PlayerA u) (ty_PlayerB u) \<longrightarrow>
           ty_Status t = StatusProposed \<and> ty_Status u = StatusActive \<and> Supersedes (ty_Type t) (ty_Type u) \<or>
           ty_Status u = StatusProposed \<and> ty_Status t = StatusActive \<and> Supersedes (ty_Type u) (ty_Type t))
    \<and> (\<forall>k. length (filter (\<lambda>w. pair_of D w = k) (flying s)) = (if has_key (st_treatyBusy s) k then 1 else 0))"
proof (intro conjI allI impI)
  note ok = pact_run_ok[OF assms]
  show "length (filter (\<lambda>w. pair_of D w = k) (flying s)) = (if has_key (st_treatyBusy s) k then 1 else 0)" for k
    by (rule busy_one_order[OF ok])
  fix i j t u assume t: "map_of (st_treaties s) i = Some t" and u: "map_of (st_treaties s) j = Some u" and "i \<noteq> j"
    and k: "pairKey D (ty_PlayerA t) (ty_PlayerB t) = pairKey D (ty_PlayerA u) (ty_PlayerB u)"
  let ?k = "pairKey D (ty_PlayerA t) (ty_PlayerB t)"
  have P: "pact s ?k i = Some t" "pact s ?k j = Some u"
    by (rule pactI[OF t treaties_okD(1)[OF ok t, symmetric]],
        rule pactI[OF u trans[OF treaties_okD(1)[OF ok u, symmetric] k[symmetric]]])
  note lad = treaties_okD(2)[OF ok, of ?k]
  have "ty_Status t \<noteq> ty_Status u" using ladderD(3)[OF lad P] \<open>i \<noteq> j\<close> by blast
  then consider "ty_Status t = StatusProposed" "ty_Status u = StatusActive" | "ty_Status u = StatusProposed" "ty_Status t = StatusActive"
    using ladderD(2)[OF lad P(1)] ladderD(2)[OF lad P(2)] by metis
  then show "ty_Status t = StatusProposed \<and> ty_Status u = StatusActive \<and> Supersedes (ty_Type t) (ty_Type u) \<or>
      ty_Status u = StatusProposed \<and> ty_Status t = StatusActive \<and> Supersedes (ty_Type u) (ty_Type t)"
    by cases (use ladderD(4)[OF lad P] ladderD(4)[OF lad P(2) P(1)] in simp_all)
qed

text \<open>
  Players 7 and 8 have a non aggression pact in force (row 1). Player 8 offers an alliance, the row
  5 confirms it, player 7 accepts and the confirmation replaces the pact.
\<close>

definition truce :: treaty where
  "truce = \<lparr>ty_ID = 1, ty_PlayerA = 7, ty_PlayerB = 8, ty_Type = TypeNonAggression, ty_Status = StatusActive,
     ty_AllowsGarrison = False, ty_ProposedAt = 0, ty_AcceptedAt = Some 0, ty_ExpiresAt = None, ty_BrokenAt = None,
     ty_ProposedBy = Some 7, ty_RequestID = ''r0'', ty_BreakEffectiveAt = None, ty_ClosedAt = None\<rparr>"

definition envoys :: sim where
  "envoys = (AddCity (sample_city\<lparr>c_ID := 2, c_OwnerPlayerID := 8\<rparr>) town)\<lparr>st_treaties := [(1, truce)]\<rparr>"

definition offered :: sim where "offered = handleProposeTreaty sample_deps 8 ''r1'' 7 TypeAlliance envoys"

definition order_of :: "sim \<Rightarrow> treaty_write" where
  "order_of s = (case flying s of w # _ \<Rightarrow> w | [] \<Rightarrow> undefined)"

definition confirmed :: sim where
  "confirmed = handleTreatyResolved sample_deps 8 ''r1'' (order_of offered) 5 None (offered\<lparr>sm_jobs := []\<rparr>)"

definition answering :: sim where "answering = handleRespondTreaty sample_deps 7 ''r2'' 5 True confirmed"

lemma envoys_loaded: "treaties_loaded sample_deps envoys"
proof -
  have T: "st_treaties envoys = [(1, truce)]" "st_treatyBusy envoys = []" "flying envoys = []"
    by (simp_all add: envoys_def flying_def AddCity_def List.map_filter_simps town_def New_simulation_def NewState_def
        Let_def state.extend_def)
  have t: "ty_PlayerA truce = 7" "ty_PlayerB truce = 8" "ty_ID truce = 1" "ty_Status truce = StatusActive"
    by (simp_all add: truce_def)
  have "pairKey sample_deps 7 8 = (7, 8)" by code_simp
  moreover have "ladder (pact envoys k)" for k
  proof -
    have "pact envoys k = (if k = (7, 8) then [1 \<mapsto> truce] else Map.empty)" by (intro ext) (auto simp: pact_def T(1) t)
    moreover have "ladder [1 \<mapsto> truce]" by (rule ladder_one) (use t in simp_all)
    moreover have "ladder Map.empty" by (simp add: ladder_def)
    ultimately show ?thesis by (simp only: split: if_split) blast
  qed
  ultimately show ?thesis using t T(2,3) by (simp add: treaties_loaded_def T(1))
qed

lemma answering_run: "pact_run sample_deps answering"
proof -
  have "pact_run sample_deps offered" unfolding offered_def by (intro pact_propose pact_load envoys_loaded)
  moreover have "sm_jobs offered = [] @ hd (sm_jobs offered) # []" "order_in (hd (sm_jobs offered)) = Some (8, ''r1'', order_of offered)"
    by code_simp+
  moreover have "map_of (st_treaties offered) 5 = None" by code_simp
  ultimately have "pact_run sample_deps confirmed" using pact_answer[where i=5 and c=None] unfolding confirmed_def by fastforce
  then show ?thesis unfolding answering_def by (rule pact_respond)
qed

theorem one_offer_one_treaty_witness:
  "\<exists>t u. map_of (st_treaties answering) 1 = Some t \<and> map_of (st_treaties answering) 5 = Some u \<and>
     ty_Status u = StatusProposed \<and> Supersedes (ty_Type u) (ty_Type t) \<and>
     length (filter (\<lambda>w. pair_of sample_deps w = (7, 8)) (flying answering)) = 1"
proof -
  have "map_of (st_treaties answering) 1 \<noteq> None" "map_of (st_treaties answering) 5 \<noteq> None" by code_simp+
  then obtain t u where t: "map_of (st_treaties answering) 1 = Some t" and u: "map_of (st_treaties answering) 5 = Some u" by blast
  have "map_option (\<lambda>t. (ty_PlayerA t, ty_PlayerB t, ty_Status t)) (map_of (st_treaties answering) 1) = Some (7, 8, StatusActive)"
    "map_option (\<lambda>t. (ty_PlayerA t, ty_PlayerB t)) (map_of (st_treaties answering) 5) = Some (7, 8)" by code_simp+
  with t u have f: "ty_PlayerA t = 7" "ty_PlayerB t = 8" "ty_Status t = StatusActive" "ty_PlayerA u = 7" "ty_PlayerB u = 8" by simp_all
  note th = one_offer_one_treaty[OF answering_run]
  have busy: "has_key (st_treatyBusy answering) (7, 8)" by code_simp
  from th[THEN conjunct1, rule_format, OF t u] f
  have "ty_Status u = StatusProposed" "Supersedes (ty_Type u) (ty_Type t)" by simp_all
  moreover have "length (filter (\<lambda>w. pair_of sample_deps w = (7, 8)) (flying answering)) = 1"
    using th[THEN conjunct2, rule_format, of "(7, 8)"] busy by simp
  ultimately show ?thesis using t u by blast
qed

end
