(* ===== verification/Combat.thy ===== *)
theory Combat
  imports City_Economy Treaty_Orders
begin

section \<open>Combat: orders, chase and automatic response\<close>

text \<open>
  Models notices.go, the orders and the helpers of internal/game/simulation/combat.go and
  combat_response.go: who sees and may strike whom, the engagement an order opens, standing to strike,
  the chase, and the warriors that answer a blow from their post.
\<close>

subsection \<open>Live notices (notices.go)\<close>

definition EventOf :: "event_type \<Rightarrow> uuid \<Rightarrow> uuid \<Rightarrow> int64 \<Rightarrow> tile \<Rightarrow> event" where
  "EventOf ty player counterpart atMs t =
     \<lparr>ev_ID = 0, ev_Type = ty, ev_PlayerID = player, ev_Counterpart = counterpart, ev_AtMs = atMs, ev_UnitType = '''',
      ev_Amount = 0, ev_X = tX t, ev_Y = tY t, ev_HasTile = True, ev_TreatyType = '''', ev_From = '''', ev_By = 0,
      ev_BreaksAtMs = 0, ev_OfferID = 0, ev_Give = [], ev_Want = [], ev_TerritoryID = 0, ev_TerritoryName = ''''\<rparr>"

definition notice_of :: "'a state_scheme \<Rightarrow> event \<Rightarrow> notice \<Rightarrow> notice_view" where
  "notice_of s e n =
     (let named = (case CityOf s (nt_Other n) of Some c \<Rightarrow> if c_Name c \<noteq> '''' then Some c else None | None \<Rightarrow> None)
      in \<lparr>ntv_Kind = nt_Kind n, ntv_AtMs = ev_AtMs e, ntv_OtherPlayerID = nt_Other n,
          ntv_OtherCityID = map_option c_ID named, ntv_OtherCityName = map_option c_Name named,
          ntv_UnitType = (if nt_Kind n = KindUnitLost \<or> nt_Kind n = KindEnemyKilled then ev_UnitType e else ''''),
          ntv_Amount = (if nt_Kind n = KindPillageDone then Some (ev_Amount e) else None),
          ntv_X = (if ev_HasTile e then Some (ev_X e) else None), ntv_Y = (if ev_HasTile e then Some (ev_Y e) else None),
          ntv_TerritoryID = (if ev_TerritoryID e \<noteq> 0 then Some (ev_TerritoryID e) else None),
          ntv_TerritoryName = (if ev_TerritoryID e \<noteq> 0 then ev_TerritoryName e else '''')\<rparr>)"

definition sendNotices :: "event \<Rightarrow> sim \<Rightarrow> sim" where
  "sendNotices e s = fold (\<lambda>n s. send (ToPlayer (nt_To n) '''' (EventLogNotice (notice_of s e n))) s) (Notices e) s"

subsection \<open>Configuration\<close>

definition guardRadius :: "deps \<Rightarrow> int32" where
  "guardRadius D = (if 0 < dp_CombatGuardRadiusTiles D then dp_CombatGuardRadiusTiles D else 4)"

definition leash :: "deps \<Rightarrow> int32" where
  "leash D = (if 0 < dp_CombatLeashTiles D then dp_CombatLeashTiles D else 8)"

definition maxChase :: "deps \<Rightarrow> int32" where
  "maxChase D = (if 0 < dp_CombatMaxChaseTiles D then dp_CombatMaxChaseTiles D else 32)"

definition repathTicks :: "deps \<Rightarrow> 64 word" where
  "repathTicks D = (let every = word_of_int (dp_CombatRepathTicks D) in if every = 0 then 5 else every)"

subsection \<open>Who may strike whom\<close>

definition visibleTo :: "'a state_scheme \<Rightarrow> unit_rec \<Rightarrow> uuid \<Rightarrow> bool" where
  "visibleTo s u playerID =
     (if u_PlayerID u = playerID then True
      else if u_Status u = StatusHidden \<or> u_Status u = StatusGarrisoned \<or> u_Status u = StatusDead then False
      else \<not> IsEntering s (u_ID u))"

definition protected_now :: "'a state_scheme \<Rightarrow> uuid \<Rightarrow> instant \<Rightarrow> bool" where
  "protected_now s p now = (case CityOf s p of None \<Rightarrow> False | Some c \<Rightarrow> ProtectedAt c now)"

definition attackBlocked :: "deps \<Rightarrow> 'a state_scheme \<Rightarrow> unit_rec \<Rightarrow> unit_rec \<Rightarrow> tile \<Rightarrow> tile \<Rightarrow> instant \<Rightarrow> code option" where
  "attackBlocked D s a t posA posT now =
     (if u_PlayerID t = u_PlayerID a then Some CodeInvalidTarget
      else if \<not> visibleTo s t (u_PlayerID a) then Some CodeUnitNotFound
      else if protected_now s (u_PlayerID t) now then Some CodeCityProtected
      else if protected_now s (u_PlayerID a) now then Some CodeCityProtected
      else if AtPeace D s (u_PlayerID a) (u_PlayerID t) now then Some CodeInvalidTarget
      else if SafeZoneAt s (tX posA) (tY posA) \<noteq> None then Some CodeInvalidTarget
      else if SafeZoneAt s (tX posT) (tY posT) \<noteq> None then Some CodeInvalidTarget
      else None)"

subsection \<open>Engagements\<close>

text \<open>The engagement an order opens, with the fields the literal leaves at zero.\<close>

definition engagement_of :: "sim \<Rightarrow> int64 \<Rightarrow> engagement" where
  "engagement_of s i =
     \<lparr>en_attackerID = i, en_targetID = 0, en_cityID = 0, en_buildingID = 0, en_nextHitAtMs = 0,
      en_lastRepathTick = st_tick s, en_announced = False, en_auto = False, en_post = mk_tile 0 0\<rparr>"

definition install_engagement :: "int64 \<Rightarrow> engagement \<Rightarrow> 'a state_scheme \<Rightarrow> 'a state_scheme" where
  "install_engagement i e s = s\<lparr>st_engagements := put_key i e (st_engagements s)\<rparr>"

text \<open>Writing through the pointer to the engagement of an attacker.\<close>

definition upd_engagement :: "int64 \<Rightarrow> (engagement \<Rightarrow> engagement) \<Rightarrow> 'a state_scheme \<Rightarrow> 'a state_scheme" where
  "upd_engagement i f s =
     (case map_of (st_engagements s) i of None \<Rightarrow> s | Some e \<Rightarrow> install_engagement i (f e) s)"

definition startAttacking :: "int64 \<Rightarrow> int64 \<Rightarrow> sim \<Rightarrow> sim" where
  "startAttacking i nowMs s0 =
     (let s = (if has_key (st_movements s0) i then cancelActiveMovement i ReasonReplaced nowMs s0 else s0);
          s = upd_engagement i (\<lambda>e. if en_nextHitAtMs e = 0 \<or> en_nextHitAtMs e < nowMs
                                    then e\<lparr>en_nextHitAtMs := nowMs\<rparr> else e) s
      in if u_Status (unit_at s i) = StatusAttacking then s
         else broadcastStatus i (MarkDirty i (set_status i StatusAttacking s)))"

text \<open>The guards shared by the orders of a warrior: attack, pillage, demolish and claim.\<close>

definition warrior_guard :: "'a state_scheme \<Rightarrow> uuid \<Rightarrow> int64 \<Rightarrow> code + unit_rec \<times> unit_def" where
  "warrior_guard s playerID i =
     (case map_of (st_units s) i of
        None \<Rightarrow> Err CodeUnitNotFound
      | Some a \<Rightarrow>
          if EnsureOwnedBy a playerID \<noteq> None then Err CodeUnitNotOwned
          else if u_Status a = StatusDead then Err CodeUnitDead
          else if u_Status a = StatusGarrisoned then Err CodeUnitGarrisoned
          else if IsEntering s i then Err CodeUnitNotMovable
          else case Lookup_unit (u_Type a) of
                 Err _ \<Rightarrow> Err CodeUnitNotMovable
               | Ok d \<Rightarrow> if \<not> CanAttack_def d then Err CodeUnitNotMovable else Ok (a, d))"

definition handleAttackUnit :: "deps \<Rightarrow> uuid \<Rightarrow> string \<Rightarrow> int64 \<Rightarrow> int64 \<Rightarrow> sim \<Rightarrow> sim" where
  "handleAttackUnit D playerID requestID i targetID s =
     (let nowMs = NowMs s; reject = (\<lambda>c s. economyError playerID requestID c s) in
      case warrior_guard s playerID i of
        Err c \<Rightarrow> reject c s
      | Ok (a, d) \<Rightarrow> (case map_of (st_units s) targetID of
          None \<Rightarrow> reject CodeUnitNotFound s
        | Some t \<Rightarrow>
            if \<not> visibleTo s t playerID then reject CodeUnitNotFound s
            else let posA = authoritativePosition s i nowMs; posT = authoritativePosition s targetID nowMs
                 in case attackBlocked D s a t posA posT (sm_now s) of
                      Some c \<Rightarrow> reject c s
                    | None \<Rightarrow>
                        let s = endEngagement D i False (stopWorking i s);
                            e = (engagement_of s i)\<lparr>en_targetID := targetID\<rparr>
                        in if ud_AttackRange d < chebyshevTiles posA posT
                           then (case chasePath D s i posA posT d of
                                   Err pe \<Rightarrow> reject (pathErrorCode pe) s
                                 | Ok path \<Rightarrow> snd (beginMovement i posA posT path nowMs None (install_engagement i e s)))
                           else startAttacking i nowMs (install_engagement i e s)))"

text \<open>chase: towards the target, recomputing the way only when it is needed and not too often.\<close>

definition chase :: "deps \<Rightarrow> int64 \<Rightarrow> tile \<Rightarrow> tile \<Rightarrow> unit_def \<Rightarrow> int64 \<Rightarrow> sim \<Rightarrow> sim" where
  "chase D i posA posT d nowMs s0 =
     (let s = (if u_Status (unit_at s0 i) = StatusAttacking
               then broadcastStatus i (MarkDirty i (set_status i StatusIdle s0)) else s0);
          mv = map_of (st_movements s) i;
          last = (case map_of (st_engagements s) i of Some e \<Rightarrow> en_lastRepathTick e | None \<Rightarrow> 0)
      in if (case mv of Some m \<Rightarrow> chebyshevTiles (m_Target m) posT \<le> ud_AttackRange d | None \<Rightarrow> False) then s
         else if mv \<noteq> None \<and> st_tick s - last < repathTicks D then s
         else let s = upd_engagement i (\<lambda>e. e\<lparr>en_lastRepathTick := st_tick s\<rparr>) s
              in case chasePath D s i posA posT d of
                   Err _ \<Rightarrow> endEngagement D i True s
                 | Ok path \<Rightarrow> snd (beginMovement i posA posT path nowMs None s))"

subsection \<open>The automatic response (combat_response.go)\<close>

definition guardsNear :: "deps \<Rightarrow> sim \<Rightarrow> uuid \<Rightarrow> tile \<Rightarrow> int64 list" where
  "guardsNear D s playerID at =
     (let r = guardRadius D; w = st_world s;
          minX = max (i32 (i32 (tX at - r) - 1)) 0; minY = max (i32 (i32 (tY at - r) - 1)) 0;
          maxX = min (i32 (i32 (tX at + r) + 1)) (i32 (w_width w - 1)); maxY = min (i32 (i32 (tY at + r) + 1)) (i32 (w_height w - 1));
          (cx0, cy0) = ChunkOf w minX minY; (cx1, cy1) = ChunkOf w maxX maxY; nowMs = NowMs s;
          near = (\<lambda>u. u_PlayerID u = playerID \<and> u_Type u = TypeWarrior \<and> IsAlive u \<and>
                      chebyshevTiles (authoritativePosition s (u_ID u) nowMs) at \<le> r)
      in sort (map u_ID (concat (map (\<lambda>cy. concat (map (\<lambda>cx. filter near (UnitsInChunk s cx cy)) [cx0..cx1])) [cy0..cy1]))))"

definition available :: "sim \<Rightarrow> int64 \<Rightarrow> int64 \<Rightarrow> tile option" where
  "available s i nowMs =
     (if IsEntering s i then None
      else if has_key (st_engagements s) i then None
      else if has_key (st_tasks s) i then None
      else case u_Status (unit_at s i) of
             StatusIdle \<Rightarrow> if has_key (st_movements s) i then None else Some (authoritativePosition s i nowMs)
           | StatusMoving \<Rightarrow> (case (map_of (st_returning s) i, map_of (st_movements s) i) of
                (Some r, Some m) \<Rightarrow> if m_ID m = rl_movementID r then Some (rl_post r) else None
              | _ \<Rightarrow> None)
           | _ \<Rightarrow> None)"

definition respond :: "deps \<Rightarrow> int64 \<Rightarrow> int64 \<Rightarrow> int64 \<Rightarrow> sim \<Rightarrow> sim" where
  "respond D g attacker nowMs s =
     (case Lookup_unit (u_Type (unit_at s g)) of
        Err _ \<Rightarrow> s
      | Ok d \<Rightarrow>
        if \<not> CanAttack_def d then s
        else case available s g nowMs of
          None \<Rightarrow> s
        | Some post \<Rightarrow>
            let posG = authoritativePosition s g nowMs; posA = authoritativePosition s attacker nowMs
            in if attackBlocked D s (unit_at s g) (unit_at s attacker) posG posA (sm_now s) \<noteq> None then s
               else if leash D < chebyshevTiles post posA then s
               else let e = (engagement_of s g)\<lparr>en_targetID := attacker, en_auto := True, en_post := post\<rparr>
                    in if ud_AttackRange d < chebyshevTiles posG posA
                       then (case chasePath D s g posG posA d of
                               Err _ \<Rightarrow> s
                             | Ok path \<Rightarrow> snd (beginMovement g posG posA path nowMs None (install_engagement g e s)))
                       else startAttacking g nowMs (install_engagement g e s))"

text \<open>An alarm keeps the owner of the victim, who may be dead by then.\<close>

record alert =
  al_attacker :: int64
  al_victim :: int64
  al_player :: uuid
  al_at :: tile

definition raiseAlarm :: "deps \<Rightarrow> int64 \<Rightarrow> alert \<Rightarrow> sim \<Rightarrow> sim" where
  "raiseAlarm D nowMs al s =
     (if \<not> IsAlive (unit_at s (al_attacker al)) then s
      else let s = (if IsAlive (unit_at s (al_victim al)) then respond D (al_victim al) (al_attacker al) nowMs s else s)
           in fold (\<lambda>g s. if g \<noteq> al_victim al then respond D g (al_attacker al) nowMs s else s)
                (guardsNear D s (al_player al) (al_at al)) s)"

definition raiseCityAlarm :: "deps \<Rightarrow> int64 \<Rightarrow> int64 \<Rightarrow> int64 \<Rightarrow> sim \<Rightarrow> sim" where
  "raiseCityAlarm D nowMs attacker cityID s =
     (case map_of (st_cities s) cityID of
        None \<Rightarrow> s
      | Some c \<Rightarrow>
          if \<not> IsAlive (unit_at s attacker) then s
          else fold (\<lambda>g. respond D g attacker nowMs) (guardsNear D s (c_OwnerPlayerID c) (Center c)) s)"

end
