(* ===== verification/Pillage_Siege.thy ===== *)
theory Pillage_Siege
  imports Combat
begin

section \<open>Pillage and siege\<close>

text \<open>
  Models internal/game/simulation/pillage.go and siege.go: the orders against a city and against a
  house, the approach to the wall or to the house, the step of each in the phase of combat, the blow
  of a pillage in two phases, the house that falls and the damage that is forgotten.
\<close>

subsection \<open>What the two share\<close>

definition cityAttackBlocked :: "deps \<Rightarrow> 'a state_scheme \<Rightarrow> unit_rec \<Rightarrow> city \<Rightarrow> tile \<Rightarrow> instant \<Rightarrow> code option" where
  "cityAttackBlocked D s a c posA now =
     (if c_OwnerPlayerID c = u_PlayerID a then Some CodeInvalidTarget
      else if ProtectedAt c now then Some CodeCityProtected
      else if protected_now s (u_PlayerID a) now then Some CodeCityProtected
      else if AtPeace D s (u_PlayerID a) (c_OwnerPlayerID c) now then Some CodeInvalidTarget
      else if SafeZoneAt s (tX posA) (tY posA) \<noteq> None then Some CodeInvalidTarget
      else None)"

text \<open>
  Both approaches sort the tiles they may stand on by distance, then row, then column, and take the
  first with a way. The error is the first one, or that there is no tile at all.
\<close>

datatype approach_error = NoTile | ApproachLeg leg_error

definition by_distance :: "tile \<Rightarrow> tile list \<Rightarrow> tile list" where
  "by_distance posA ts = sort_key (\<lambda>t. (chebyshevTiles posA t, tY t, tX t)) ts"

fun approach_first ::
  "deps \<Rightarrow> int64 \<Rightarrow> engagement \<Rightarrow> tile \<Rightarrow> unit_def \<Rightarrow> int64 \<Rightarrow> tile list \<Rightarrow> approach_error option \<Rightarrow> sim
     \<Rightarrow> approach_error + sim" where
  "approach_first D i e posA d nowMs [] firstErr s =
     (case firstErr of None \<Rightarrow> Ok s | Some er \<Rightarrow> Err er)"
| "approach_first D i e posA d nowMs (t # ts) firstErr s =
     (case chasePath D s i posA t d of
        Err er \<Rightarrow> approach_first D i e posA d nowMs ts
                   (case firstErr of None \<Rightarrow> Some (ApproachLeg er) | Some f \<Rightarrow> Some f) s
      | Ok path \<Rightarrow> Ok (snd (beginMovement i posA t path nowMs None (install_engagement i e s))))"

definition approach :: "deps \<Rightarrow> int64 \<Rightarrow> engagement \<Rightarrow> tile \<Rightarrow> unit_def \<Rightarrow> int64 \<Rightarrow> tile list \<Rightarrow> sim \<Rightarrow> approach_error + sim" where
  "approach D i e posA d nowMs candidates s =
     (if candidates = [] then Err NoTile
      else approach_first D i e posA d nowMs (by_distance posA candidates) None s)"

definition approachErrorCode :: "approach_error \<Rightarrow> code" where
  "approachErrorCode er = (case er of NoTile \<Rightarrow> CodeInternalError | ApproachLeg le \<Rightarrow> pathErrorCode le)"

definition wall_tiles :: "world \<Rightarrow> city \<Rightarrow> tile list" where
  "wall_tiles w c =
     (let (minX, minY, maxX, maxY) = UrbanBounds c
      in [mk_tile x y. y \<leftarrow> [i32 (minY - 1)..i32 (maxY + 1)], x \<leftarrow> [i32 (minX - 1)..i32 (maxX + 1)],
            IsAdjacent_city c x y \<and> InBounds w x y \<and> IsWalkable w x y])"

definition house_tiles :: "world \<Rightarrow> building \<Rightarrow> int32 \<Rightarrow> tile list" where
  "house_tiles w b r =
     [mk_tile x y. y \<leftarrow> [i32 (b_Y b - r)..i32 (b_Y b + r)], x \<leftarrow> [i32 (b_X b - r)..i32 (b_X b + r)],
        \<not> ((x = b_X b \<and> y = b_Y b) \<or> \<not> InBounds w x y \<or> \<not> IsWalkable w x y)]"

definition approachWall :: "deps \<Rightarrow> int64 \<Rightarrow> engagement \<Rightarrow> city \<Rightarrow> tile \<Rightarrow> unit_def \<Rightarrow> int64 \<Rightarrow> sim \<Rightarrow> approach_error + sim" where
  "approachWall D i e c posA d nowMs s = approach D i e posA d nowMs (wall_tiles (st_world s) c) s"

definition approachHouse :: "deps \<Rightarrow> int64 \<Rightarrow> engagement \<Rightarrow> building \<Rightarrow> tile \<Rightarrow> unit_def \<Rightarrow> int64 \<Rightarrow> sim \<Rightarrow> approach_error + sim" where
  "approachHouse D i e b posA d nowMs s = approach D i e posA d nowMs (house_tiles (st_world s) b (ud_AttackRange d)) s"

text \<open>To a chunk, what a unit carries; to the owner of a city, when it was attacked.\<close>

definition broadcastCarrying :: "int64 \<Rightarrow> sim \<Rightarrow> sim" where
  "broadcastCarrying i s =
     to_chunk_of (u_X (unit_at s i)) (u_Y (unit_at s i))
       (EntityUpdate ((EntityUpdateOf i)\<lparr>eu_Carrying := Some (carrying s (unit_at s i))\<rparr>)) s"

subsection \<open>Pillage (pillage.go)\<close>

definition pillagePerHit :: "deps \<Rightarrow> int32" where
  "pillagePerHit D = (if 0 < dp_PillageWoodPerHit D then dp_PillageWoodPerHit D else 5)"

definition pillageFloor :: "deps \<Rightarrow> int64" where
  "pillageFloor D = (if 0 < dp_PillageStockFloor D then dp_PillageStockFloor D else 50)"

definition handlePillageCity :: "deps \<Rightarrow> uuid \<Rightarrow> string \<Rightarrow> int64 \<Rightarrow> int64 \<Rightarrow> sim \<Rightarrow> sim" where
  "handlePillageCity D playerID requestID i cityID s =
     (let nowMs = NowMs s; reject = (\<lambda>c s. economyError playerID requestID c s) in
      case warrior_guard s playerID i of
        Err c \<Rightarrow> reject c s
      | Ok (a, d) \<Rightarrow> (case map_of (st_cities s) cityID of
          None \<Rightarrow> reject CodeCityNotFound s
        | Some c \<Rightarrow>
            let posA = authoritativePosition s i nowMs
            in case cityAttackBlocked D s a c posA (sm_now s) of
                 Some cd \<Rightarrow> reject cd s
               | None \<Rightarrow>
                   let s = endEngagement D i False (stopWorking i s);
                       e = (engagement_of s i)\<lparr>en_cityID := c_ID c\<rparr>
                   in if IsAdjacent_city c (tX posA) (tY posA) then startAttacking i nowMs (install_engagement i e s)
                      else case approachWall D i e c posA d nowMs s of
                             Err er \<Rightarrow> reject (approachErrorCode er) s
                           | Ok s' \<Rightarrow> s'))"

definition handlePillageResolved :: "int64 \<Rightarrow> int64 \<Rightarrow> int32 \<Rightarrow> int64 \<Rightarrow> bool \<Rightarrow> sim \<Rightarrow> sim" where
  "handlePillageResolved i cityID amount carried failed s0 =
     (let alive = has_key (st_units s0) i;
          s = (if \<not> alive then s0
               else let left = i32 ((case map_of (st_pendingLoot s0) i of Some n \<Rightarrow> n | None \<Rightarrow> 0) - amount)
                    in if 0 < left then s0\<lparr>st_pendingLoot := put_key i left (st_pendingLoot s0)\<rparr>
                       else s0\<lparr>st_pendingLoot := del_key i (st_pendingLoot s0)\<rparr>)
      in if failed
         then let s = (case map_of (st_cities s) cityID of
                         None \<Rightarrow> s
                       | Some c \<Rightarrow>
                           let rs = stock_of (economyOf s (c_ID c)) ResourceWood;
                               rs = (case Credit (rs_stock rs) amount of Err _ \<Rightarrow> rs | Ok st \<Rightarrow> rs\<lparr>rs_stock := st\<rparr>);
                               rs = rs\<lparr>rs_unflushed := i64 (rs_unflushed rs + carried)\<rparr>;
                               s = put_stock (c_ID c) ResourceWood rs s;
                               s = (if 0 < rs_unflushed rs then s\<lparr>st_stockDirty := mark_key (c_ID c) (st_stockDirty s)\<rparr> else s)
                           in broadcastStocks c s)
              in if alive then broadcastCarrying i s else s
         else if \<not> alive then s
         else let s = MarkDirty i (upd_unit i (\<lambda>u. u\<lparr>u_Loot := i32 (u_Loot u + amount)\<rparr>) s)
              in if \<not> has_key (st_movements s) i \<and> u_Status (unit_at s i) = StatusIdle
                 then depositLoot i (authoritativePosition s i (NowMs s)) s else s)"

definition submitPillage :: "deps \<Rightarrow> pillage \<Rightarrow> int64 \<Rightarrow> sim \<Rightarrow> sim" where
  "submitPillage D p carried s =
     (if \<not> dp_Combat D then handlePillageResolved (pi_AttackerID p) (pi_CityID p) (pi_Amount p) carried False s
      else submit_job ''city.pillage'' (CityKey (pi_CityID p)) (PersistPillage p)
             (Some [PillageResolved (pi_AttackerID p) (pi_CityID p) (pi_Amount p) carried True]) s)"

text \<open>A step of a pillage; the blow it owes is its attacker and its city.\<close>

definition stepPillage :: "deps \<Rightarrow> int64 \<Rightarrow> engagement \<Rightarrow> int64 \<Rightarrow> instant \<Rightarrow> sim \<Rightarrow> sim \<times> (int64 \<times> int64) option" where
  "stepPillage D i e nowMs now s =
     (let a = unit_at s i; fin = (endEngagement D i True s, None) in
      case map_of (st_cities s) (en_cityID e) of
        None \<Rightarrow> fin
      | Some c \<Rightarrow>
          if u_Status a = StatusGarrisoned \<or> IsEntering s i then fin
          else case Lookup_unit (u_Type a) of
            Err _ \<Rightarrow> fin
          | Ok d \<Rightarrow>
              if \<not> CanAttack_def d then fin
              else let posA = authoritativePosition s i nowMs
                   in if cityAttackBlocked D s a c posA now \<noteq> None then fin
                      else if (case CityOf s (u_PlayerID a) of None \<Rightarrow> True | Some own \<Rightarrow> \<not> ownerPresent own s) then fin
                      else if \<not> IsAdjacent_city c (tX posA) (tY posA)
                      then if has_key (st_movements s) i then (s, None)
                           else (case approachWall D i e c posA d nowMs s of
                                   Err _ \<Rightarrow> (endEngagement D i True s, None) | Ok s' \<Rightarrow> (s', None))
                      else let s = startAttacking i nowMs s;
                               due = (case map_of (st_engagements s) i of Some e \<Rightarrow> en_nextHitAtMs e | None \<Rightarrow> 0)
                           in if nowMs < due then (s, None)
                              else (upd_engagement i (\<lambda>e. e\<lparr>en_nextHitAtMs := i64 (en_nextHitAtMs e + ud_AttackIntervalMs d)\<rparr>) s,
                                    Some (i, c_ID c)))"

definition applyPillage :: "deps \<Rightarrow> int64 \<Rightarrow> int64 \<times> int64 \<Rightarrow> sim \<Rightarrow> sim \<times> bool" where
  "applyPillage D nowMs h s =
     (let (i, cityID) = h; a = unit_at s i; fin = (endEngagement D i True s, False) in
      if \<not> IsAlive a then (s, False)
      else if \<not> has_key (st_engagements s) i then (s, False)
      else case (Lookup_unit (u_Type a), map_of (st_cities s) cityID) of
        (Ok d, Some c) \<Rightarrow>
          let wood = stock_of (economyOf s (c_ID c)) ResourceWood;
              room = i32 (lootCarry s a d - carrying s a);
              amount = min (min (pillagePerHit D) room) (i64 (s_Amount (rs_stock wood) - pillageFloor D))
          in if amount \<le> 0 then fin
             else if i64 (s_Amount (rs_stock wood) - amount) < pillageFloor D then fin
             else (case reserve_stock (c_ID c) \<lparr>k_Resource = ResourceWood, k_Amount = amount\<rparr> s of
                     Err _ \<Rightarrow> fin
                   | Ok (carried, version, s1) \<Rightarrow>
                       let s = markStockDirty (c_ID c) s1;
                           had = (case map_of (st_pendingLoot s) i of Some n \<Rightarrow> n | None \<Rightarrow> 0);
                           s = s\<lparr>st_pendingLoot := put_key i (i32 (had + i32 amount)) (st_pendingLoot s)\<rparr>;
                           at = authoritativePosition s i nowMs;
                           p = \<lparr>pi_AttackerID = i, pi_AttackerPlayer = u_PlayerID a, pi_CityID = c_ID c,
                                pi_VictimPlayer = c_OwnerPlayerID c, pi_Amount = i32 amount,
                                pi_Stock = (c_ID c, ResourceWood, i64 (carried - amount), version),
                                pi_At = at, pi_Tick = st_tick s, pi_AtMs = nowMs\<rparr>;
                           s = submitPillage D p carried s;
                           s = broadcastStocks c s;
                           carry = carrying s (unit_at s i);
                           s = broadcastCarrying i s;
                           s = send (ToPlayer (c_OwnerPlayerID c) ''''
                                 (CityUpdate ((CityUpdateOf (c_ID c))\<lparr>cu_PillagedAtMs := Some nowMs\<rparr>))) s;
                           s = sendNotices ((EventOf EventCityPillaged (c_OwnerPlayerID c) (u_PlayerID a) nowMs at)
                                 \<lparr>ev_Amount := amount\<rparr>) s
                       in (if lootCarry s (unit_at s i) d \<le> carry then endEngagement D i True s else s, True))
      | (Err _, _) \<Rightarrow> fin
      | _ \<Rightarrow> (s, False))"

subsection \<open>Siege (siege.go)\<close>

definition siegeDamageResetMs :: "deps \<Rightarrow> int64" where
  "siegeDamageResetMs D = (if 0 < dp_SiegeDamageReset D then go_div (dp_SiegeDamageReset D) 1000000 else 300000)"

definition handleDemolishBuilding :: "deps \<Rightarrow> uuid \<Rightarrow> string \<Rightarrow> int64 \<Rightarrow> int64 \<Rightarrow> sim \<Rightarrow> sim" where
  "handleDemolishBuilding D playerID requestID i buildingID s =
     (let nowMs = NowMs s; reject = (\<lambda>c s. economyError playerID requestID c s) in
      case warrior_guard s playerID i of
        Err c \<Rightarrow> reject c s
      | Ok (a, d) \<Rightarrow> (case map_of (st_buildings s) buildingID of
          None \<Rightarrow> reject CodeInvalidTarget s
        | Some b \<Rightarrow> (case map_of (st_cities s) (b_CityID b) of
            None \<Rightarrow> reject CodeInvalidTarget s
          | Some c \<Rightarrow>
              let posA = authoritativePosition s i nowMs
              in case cityAttackBlocked D s a c posA (sm_now s) of
                   Some cd \<Rightarrow> reject cd s
                 | None \<Rightarrow>
                     let s = endEngagement D i False (stopWorking i s);
                         e = (engagement_of s i)\<lparr>en_buildingID := b_ID b\<rparr>
                     in if chebyshevTiles posA (building_Tile b) \<le> ud_AttackRange d
                        then startAttacking i nowMs (install_engagement i e s)
                        else case approachHouse D i e b posA d nowMs s of
                               Err er \<Rightarrow> reject (approachErrorCode er) s
                             | Ok s' \<Rightarrow> s')))"

text \<open>The blow a siege owes: its attacker, its house and the damage.\<close>

definition stepSiege ::
  "deps \<Rightarrow> int64 \<Rightarrow> engagement \<Rightarrow> int64 \<Rightarrow> instant \<Rightarrow> sim \<Rightarrow> sim \<times> (int64 \<times> int64 \<times> int64 \<times> int32) option" where
  "stepSiege D i e nowMs now s =
     (let a = unit_at s i; fin = (endEngagement D i True s, None) in
      case map_of (st_buildings s) (en_buildingID e) of
        None \<Rightarrow> fin
      | Some b \<Rightarrow>
          if u_Status a = StatusGarrisoned \<or> IsEntering s i then fin
          else case map_of (st_cities s) (b_CityID b) of
            None \<Rightarrow> fin
          | Some c \<Rightarrow> (case Lookup_unit (u_Type a) of
              Err _ \<Rightarrow> fin
            | Ok d \<Rightarrow>
                if \<not> CanAttack_def d then fin
                else let posA = authoritativePosition s i nowMs
                     in if cityAttackBlocked D s a c posA now \<noteq> None then fin
                        else if (case CityOf s (u_PlayerID a) of None \<Rightarrow> True | Some own \<Rightarrow> \<not> ownerPresent own s) then fin
                        else if ud_AttackRange d < chebyshevTiles posA (building_Tile b)
                        then if has_key (st_movements s) i then (s, None)
                             else (case approachHouse D i e b posA d nowMs s of
                                     Err _ \<Rightarrow> (endEngagement D i True s, None) | Ok s' \<Rightarrow> (s', None))
                        else let s = startAttacking i nowMs s;
                                 due = (case map_of (st_engagements s) i of Some e \<Rightarrow> en_nextHitAtMs e | None \<Rightarrow> 0)
                             in if nowMs < due then (s, None)
                                else (upd_engagement i (\<lambda>e. e\<lparr>en_nextHitAtMs := i64 (en_nextHitAtMs e + ud_AttackIntervalMs d)\<rparr>) s,
                                      Some (i, b_ID b, c_ID c, ud_AttackDamage d))))"

definition handleBuildingDestroyResolved :: "int64 \<Rightarrow> tile \<Rightarrow> 'a state_scheme \<Rightarrow> 'a state_scheme" where
  "handleBuildingDestroyResolved buildingID t s =
     (let s = (if (case map_of (st_destroying s) t of Some i \<Rightarrow> i | None \<Rightarrow> 0) = buildingID
               then s\<lparr>st_destroying := del_key t (st_destroying s)\<rparr> else s)
      in s\<lparr>st_pendingDestructions := del_key buildingID (st_pendingDestructions s)\<rparr>)"

definition submitDestruction :: "deps \<Rightarrow> destruction \<Rightarrow> sim \<Rightarrow> sim" where
  "submitDestruction D x s =
     (if \<not> dp_Economy D then handleBuildingDestroyResolved (ds_BuildingID x) (ds_At x) s
      else submit_job ''building.destroy'' (CityKey (ds_CityID x)) (DestroyBuilding x)
             (Some [BuildingDestroyPersistFailed x]) s)"

definition handleBuildingDestroyPersistFailed :: "destruction \<Rightarrow> 'a state_scheme \<Rightarrow> 'a state_scheme" where
  "handleBuildingDestroyPersistFailed x s =
     s\<lparr>st_pendingDestructions := put_key (ds_BuildingID x) x (st_pendingDestructions s)\<rparr>"

definition flushDestructions :: "deps \<Rightarrow> sim \<Rightarrow> sim" where
  "flushDestructions D s =
     (if st_pendingDestructions s = [] then s
      else let pend = st_pendingDestructions s
           in fold (\<lambda>i s. case map_of pend i of None \<Rightarrow> s | Some x \<Rightarrow> submitDestruction D x s)
                (sorted_keys pend) (s\<lparr>st_pendingDestructions := []\<rparr>))"

definition destroyHouse :: "deps \<Rightarrow> building \<Rightarrow> city \<Rightarrow> int64 \<Rightarrow> int64 \<Rightarrow> sim \<Rightarrow> sim" where
  "destroyHouse D b c i nowMs s =
     (case Lookup_building (b_Type b) of
        Err _ \<Rightarrow> s
      | Ok d \<Rightarrow> (case Destroy b of
          Err _ \<Rightarrow> s
        | Ok (b', wasComplete) \<Rightarrow>
            let s = removeBuilding b' s;
                s = (if wasComplete
                     then upd_city (c_ID c) (\<lambda>c. c\<lparr>c_PopulationLimit := i32 (c_PopulationLimit c - bd_PopulationBonus d)\<rparr>) s else s);
                (cx, cy) = ChunkOf (st_world s) (b_X b') (b_Y b');
                s = send (ToChunk cx cy (BuildingDestroyed (b_ID b') (c_ID c))) s;
                s = sendNotices (EventOf EventBuildingDestroyed (c_OwnerPlayerID c) (u_PlayerID (unit_at s i)) nowMs (building_Tile b')) s;
                s = (if wasComplete
                     then broadcastCity c ((CityUpdateOf 0)\<lparr>cu_PopulationLimit := Some (c_PopulationLimit (city_at s c))\<rparr>) s else s)
            in submitDestruction D \<lparr>ds_BuildingID = b_ID b', ds_CityID = c_ID c, ds_VictimPlayer = c_OwnerPlayerID c,
                 ds_AttackerPlayer = u_PlayerID (unit_at s i), ds_AttackerID = i, ds_Type = b_Type b', ds_At = building_Tile b',
                 ds_Bonus = bd_PopulationBonus d, ds_Tick = st_tick s, ds_AtMs = nowMs\<rparr> s))"

definition applySiege :: "deps \<Rightarrow> int64 \<Rightarrow> int64 \<times> int64 \<times> int64 \<times> int32 \<Rightarrow> sim \<Rightarrow> sim \<times> bool" where
  "applySiege D nowMs h s =
     (let (i, buildingID, cityID, damage) = h in
      if \<not> IsAlive (unit_at s i) then (s, False)
      else if (case map_of (st_engagements s) i of None \<Rightarrow> True | Some e \<Rightarrow> en_buildingID e \<noteq> buildingID) then (s, False)
      else case (map_of (st_buildings s) buildingID, map_of (st_cities s) cityID) of
        (Some b, Some c) \<Rightarrow>
          let hp = i32 (fst (houseHP s b) - damage); hp = (if hp < 0 then 0 else hp);
              s = s\<lparr>st_houseDamage := put_key (b_ID b) \<lparr>hd_hp = hp, hd_lastHitMs = nowMs\<rparr> (st_houseDamage s)\<rparr>;
              s = send (ToPlayer (c_OwnerPlayerID c) ''''
                    (CityUpdate ((CityUpdateOf (c_ID c))\<lparr>cu_BesiegedAtMs := Some nowMs\<rparr>))) s
          in if 0 < hp
             then (let (cx, cy) = ChunkOf (st_world s) (b_X b) (b_Y b)
                   in send (ToChunk cx cy (BuildingUpdate (b_ID b) (b_Status b) (Some hp))) s, True)
             else (endEngagement D i True (destroyHouse D b c i nowMs s), True)
      | (None, _) \<Rightarrow> (endEngagement D i True s, False)
      | _ \<Rightarrow> (s, False))"

definition forget_damage :: "int64 \<Rightarrow> sim \<Rightarrow> sim" where
  "forget_damage i s0 =
     (let s = s0\<lparr>st_houseDamage := del_key i (st_houseDamage s0)\<rparr>
      in case map_of (st_buildings s) i of
           None \<Rightarrow> s
         | Some b \<Rightarrow>
             let (cx, cy) = ChunkOf (st_world s) (b_X b) (b_Y b)
             in send (ToChunk cx cy (BuildingUpdate (b_ID b) (b_Status b) (Some (fst (houseHP s b))))) s)"

definition forgetSiegeDamage :: "deps \<Rightarrow> int64 \<Rightarrow> sim \<Rightarrow> sim" where
  "forgetSiegeDamage D nowMs s =
     fold forget_damage
       (filter (\<lambda>i. case map_of (st_houseDamage s) i of
                      Some d \<Rightarrow> siegeDamageResetMs D \<le> i64 (nowMs - hd_lastHitMs d) | None \<Rightarrow> False)
         (sorted_keys (st_houseDamage s))) s"

end
