(* ===== verification/Combat_Phase.thy ===== *)
theory Combat_Phase
  imports Pillage_Siege
begin

section \<open>The phase of combat of a tick\<close>

text \<open>
  Models ResolveCombat of internal/game/simulation/combat.go with what it owes: the blows are
  computed against the state at the end of the movements and applied together, the deaths come in
  order of victim with their loot, then the pillages, the sieges and the automatic responses; and the
  deaths whose writing the queue dropped.
\<close>

subsection \<open>Writing a first blow and a death\<close>

text \<open>A blow is its attacker, its target and the damage.\<close>

record hit =
  ht_attacker :: int64
  ht_target :: int64
  ht_damage :: int32

definition submitAttack :: "deps \<Rightarrow> hit \<Rightarrow> int64 \<Rightarrow> sim \<Rightarrow> sim" where
  "submitAttack D h nowMs s =
     (if \<not> dp_Combat D then s
      else let a = unit_at s (ht_attacker h); t = unit_at s (ht_target h)
           in submit_job ''unit.attacked'' (UnitKey (ht_attacker h))
                (PersistAttack \<lparr>at_AttackerID = ht_attacker h, at_AttackerPlayer = u_PlayerID a, at_TargetID = ht_target h,
                   at_TargetPlayer = u_PlayerID t, at_At = authoritativePosition s (ht_target h) nowMs, at_Tick = st_tick s,
                   at_Auto = (case map_of (st_engagements s) (ht_attacker h) of Some e \<Rightarrow> en_auto e | None \<Rightarrow> False),
                   at_AtMs = nowMs\<rparr>)
                (Some []) s)"

definition submitDeath :: "deps \<Rightarrow> death \<Rightarrow> sim \<Rightarrow> sim" where
  "submitDeath D d s =
     (if \<not> dp_Combat D then s
      else submit_job ''unit.death'' (UnitKey (de_VictimID d)) (PersistDeath d) (Some [DeathPersistFailed d]) s)"

definition handleDeathPersistFailed :: "death \<Rightarrow> 'a state_scheme \<Rightarrow> 'a state_scheme" where
  "handleDeathPersistFailed d s = s\<lparr>st_pendingDeaths := put_key (de_VictimID d) d (st_pendingDeaths s)\<rparr>"

definition flushDeaths :: "deps \<Rightarrow> sim \<Rightarrow> sim" where
  "flushDeaths D s =
     (if st_pendingDeaths s = [] then s
      else let pend = st_pendingDeaths s
           in fold (\<lambda>i s. case map_of pend i of None \<Rightarrow> s | Some d \<Rightarrow> submitDeath D d s)
                (sorted_keys pend) (s\<lparr>st_pendingDeaths := []\<rparr>))"

subsection \<open>A death\<close>

definition attackersOf :: "'a state_scheme \<Rightarrow> int64 \<Rightarrow> int64 list" where
  "attackersOf s targetID =
     filter (\<lambda>i. case map_of (st_engagements s) i of Some e \<Rightarrow> en_targetID e = targetID | None \<Rightarrow> False)
       (sorted_keys (st_engagements s))"

text \<open>What the victim carried: its loot, and the wood of its task.\<close>

definition carried_by :: "'a state_scheme \<Rightarrow> int64 \<Rightarrow> int32" where
  "carried_by s i =
     (let loot = u_Loot (unit_at s i) in
      case map_of (st_tasks s) i of
        Some e \<Rightarrow> if taskResource (te_Task e) = ResourceWood then i32 (loot + t_Carrying (te_Task e)) else loot
      | None \<Rightarrow> loot)"

definition loot_gained :: "'a state_scheme \<Rightarrow> int64 \<Rightarrow> int32 \<Rightarrow> int32" where
  "loot_gained s killer carried =
     (let k = unit_at s killer in
      if IsAlive k \<and> 0 < carried
      then case Lookup_unit (u_Type k) of
             Err _ \<Rightarrow> 0
           | Ok d \<Rightarrow> let room = i32 (lootCarry s k d - carrying s k) in if 0 < room then min carried room else 0
      else 0)"

text \<open>The stores of the victim that its death empties before the loot is shared.\<close>

definition drop_dead :: "int64 \<Rightarrow> sim \<Rightarrow> sim" where
  "drop_dead i s0 =
     (let s = ClearMovement i s0
      in s\<lparr>st_tasks := del_key i (st_tasks s), st_engagements := del_key i (st_engagements s),
           st_pendingLoot := del_key i (st_pendingLoot s)\<rparr>)"

text \<open>The killer is its id with its owner: it may have died in the same tick, just before.\<close>

definition kill :: "deps \<Rightarrow> int64 \<Rightarrow> int64 \<times> uuid \<Rightarrow> int64 \<Rightarrow> sim \<Rightarrow> sim" where
  "kill D i killer nowMs s0 =
     (let (k, killerPlayer) = killer;
          at = authoritativePosition s0 i nowMs;
          v = unit_at s0 i;
          carried = carried_by s0 i;
          s = drop_dead i s0;
          gained = loot_gained s k carried;
          s = upd_unit i (\<lambda>u. SetTile at (u\<lparr>u_HP := 0, u_Status := StatusDead, u_Loot := 0\<rparr>)) s;
          cost = (case Lookup_unit (u_Type v) of Ok d \<Rightarrow> ud_PopulationCost d | Err _ \<Rightarrow> 0);
          d = \<lparr>de_VictimID = i, de_VictimPlayer = u_PlayerID v, de_KillerID = k, de_KillerPlayer = killerPlayer,
               de_CityID = u_CityID v, de_PopulationCost = cost, de_At = at, de_Tick = st_tick s, de_VictimType = u_Type v,
               de_AtMs = nowMs, de_Loot = gained, de_Lost = i32 (carried - gained)\<rparr>;
          s = (case cityOfUnit s v of
                 None \<Rightarrow> s
               | Some c \<Rightarrow>
                   let pop = i32 (c_Population c - cost); pop = (if pop < 0 then 0 else pop)
                   in broadcastCity c ((CityUpdateOf 0)\<lparr>cu_Population := Some pop\<rparr>)
                        (upd_city (c_ID c) (\<lambda>c. c\<lparr>c_Population := pop\<rparr>) s));
          s = to_chunk_of (tX at) (tY at) (EntityDespawn i DespawnDead) s;
          s = RemoveUnit i s;
          s = sendNotices ((EventOf EventUnitKilled (u_PlayerID v) killerPlayer nowMs at)\<lparr>ev_UnitType := u_Type v\<rparr>) s;
          s = fold (\<lambda>a s. if has_key (st_units s) a then endEngagement D a True s else s) (attackersOf s i) s;
          s = (if 0 < gained
               then broadcastCarrying k (MarkDirty k (upd_unit k (\<lambda>u. u\<lparr>u_Loot := i32 (u_Loot u + gained)\<rparr>) s))
               else s)
      in submitDeath D d s)"

subsection \<open>The blows of a tick\<close>

text \<open>The state with the blows of the three kinds, each in the order of the attackers.\<close>

record blows =
  bw_hits :: "hit list"
  bw_pillages :: "(int64 \<times> int64) list"
  bw_sieges :: "(int64 \<times> int64 \<times> int64 \<times> int32) list"

text \<open>A warrior against a unit: what ends its fight, the chase, and the blow it owes.\<close>

definition step_attack :: "deps \<Rightarrow> int64 \<Rightarrow> engagement \<Rightarrow> int64 \<Rightarrow> instant \<Rightarrow> sim \<Rightarrow> sim \<times> hit option" where
  "step_attack D i e nowMs now s =
     (let fin = (endEngagement D i True s, None); a = unit_at s i in
      case map_of (st_units s) (en_targetID e) of
        None \<Rightarrow> fin
      | Some t \<Rightarrow>
          if \<not> IsAlive t then fin
          else case Lookup_unit (u_Type a) of
            Err _ \<Rightarrow> fin
          | Ok d \<Rightarrow>
              if \<not> CanAttack_def d then fin
              else let posA = authoritativePosition s i nowMs; posT = authoritativePosition s (en_targetID e) nowMs;
                       dist = chebyshevTiles posA posT
                   in if attackBlocked D s a t posA posT now \<noteq> None then fin
                      else if maxChase D < dist then fin
                      else if en_auto e \<and> leash D < chebyshevTiles (en_post e) posT then fin
                      else if ud_AttackRange d < dist then (chase D i posA posT d nowMs s, None)
                      else let s = startAttacking i nowMs s;
                               due = (case map_of (st_engagements s) i of Some e \<Rightarrow> en_nextHitAtMs e | None \<Rightarrow> 0)
                           in if nowMs < due then (s, None)
                              else (upd_engagement i (\<lambda>e. e\<lparr>en_nextHitAtMs := i64 (en_nextHitAtMs e + ud_AttackIntervalMs d)\<rparr>) s,
                                    Some \<lparr>ht_attacker = i, ht_target = en_targetID e, ht_damage = ud_AttackDamage d\<rparr>))"

definition combat_step :: "deps \<Rightarrow> int64 \<Rightarrow> instant \<Rightarrow> int64 \<Rightarrow> sim \<times> blows \<Rightarrow> sim \<times> blows" where
  "combat_step D nowMs now i st =
     (let (s, b) = st in
      case map_of (st_engagements s) i of
        None \<Rightarrow> st
      | Some e \<Rightarrow>
          if \<not> has_key (st_units s) i \<or> \<not> IsAlive (unit_at s i)
          then (s\<lparr>st_engagements := del_key i (st_engagements s)\<rparr>, b)
          else if en_cityID e \<noteq> 0
          then (case stepPillage D i e nowMs now s of
                  (s, None) \<Rightarrow> (s, b) | (s, Some h) \<Rightarrow> (s, b\<lparr>bw_pillages := bw_pillages b @ [h]\<rparr>))
          else if en_buildingID e \<noteq> 0
          then (case stepSiege D i e nowMs now s of
                  (s, None) \<Rightarrow> (s, b) | (s, Some h) \<Rightarrow> (s, b\<lparr>bw_sieges := bw_sieges b @ [h]\<rparr>))
          else (case step_attack D i e nowMs now s of
                  (s, None) \<Rightarrow> (s, b) | (s, Some h) \<Rightarrow> (s, b\<lparr>bw_hits := bw_hits b @ [h]\<rparr>)))"

text \<open>
  A blow lands: the first of its fight is written, the alarm is noted, the life goes down and the
  blow that takes it to zero names the killer. A target that an earlier blow killed takes none.
\<close>

type_synonym killers = "(int64, int64 \<times> uuid) gomap"

definition land :: "deps \<Rightarrow> int64 \<Rightarrow> hit \<Rightarrow> sim \<times> killers \<times> alert list \<Rightarrow> sim \<times> killers \<times> alert list" where
  "land D nowMs h st =
     (let (s, ks, als) = st; t = ht_target h; a = ht_attacker h in
      if u_HP (unit_at s t) \<le> 0 then st
      else let announced = (case map_of (st_engagements s) a of Some e \<Rightarrow> en_announced e | None \<Rightarrow> True);
               s = (if announced then s else submitAttack D h nowMs (upd_engagement a (\<lambda>e. e\<lparr>en_announced := True\<rparr>) s));
               al = \<lparr>al_attacker = a, al_victim = t, al_player = u_PlayerID (unit_at s t), al_at = authoritativePosition s t nowMs\<rparr>;
               hp = i32 (u_HP (unit_at s t) - ht_damage h); hp = (if hp < 0 then 0 else hp);
               s = MarkDirty t (upd_unit t (\<lambda>u. u\<lparr>u_HP := hp\<rparr>) s);
               ks = (if hp = 0 then put_key t (a, u_PlayerID (unit_at s a)) ks else ks);
               s = to_chunk_of (u_X (unit_at s t)) (u_Y (unit_at s t)) (EntityUpdate ((EntityUpdateOf t)\<lparr>eu_HP := Some hp\<rparr>)) s
           in (s, ks, als @ [al]))"

text \<open>The robberies and the sieges that landed, in their order.\<close>

definition apply_all :: "('h \<Rightarrow> sim \<Rightarrow> sim \<times> bool) \<Rightarrow> 'h list \<Rightarrow> sim \<Rightarrow> sim \<times> 'h list" where
  "apply_all f hs s =
     fold (\<lambda>h (s, landed). let (s, ok) = f h s in (s, if ok then landed @ [h] else landed)) hs (s, [])"

definition ResolveCombat :: "deps \<Rightarrow> int64 \<Rightarrow> sim \<Rightarrow> sim" where
  "ResolveCombat D nowMs s =
     (if st_engagements s = [] then s
      else let now = nowMs * 1000000;
               (s, b) = fold (combat_step D nowMs now) (sorted_keys (st_engagements s))
                          (s, \<lparr>bw_hits = [], bw_pillages = [], bw_sieges = []\<rparr>);
               (s, ks, als) = fold (land D nowMs) (bw_hits b) (s, [], []);
               s = fold (\<lambda>i s. case map_of ks i of
                                 None \<Rightarrow> s | Some k \<Rightarrow> if has_key (st_units s) i then kill D i k nowMs s else s)
                     (sorted_keys ks) s;
               (s, robbed) = apply_all (applyPillage D nowMs) (bw_pillages b) s;
               (s, besieged) = apply_all (applySiege D nowMs) (bw_sieges b) s;
               s = fold (raiseAlarm D nowMs) als s;
               s = fold (\<lambda>(i, c). raiseCityAlarm D nowMs i c) robbed s
           in fold (\<lambda>(i, bid, c, dmg). raiseCityAlarm D nowMs i c) besieged s)"

end
