(* ===== verification/Trade_Orders.thy ===== *)
theory Trade_Orders
  imports City_Economy Treaty_Orders
begin

section \<open>Trade in the simulation\<close>

text \<open>
  Models internal/game/simulation/trade.go: the pending offers in memory, the orders in two phases,
  the acceptance that reserves what both parties give in one job of two keys, its confirmation or
  release, and the sweep of the offers whose time or whose treaty has ended.
\<close>

subsection \<open>The pending offers\<close>

definition defaultTradeOfferTTL :: duration where "defaultTradeOfferTTL = 86400000000000"

definition TradeKey :: "deps \<Rightarrow> uuid \<Rightarrow> uuid \<Rightarrow> string" where
  "TradeKey D x y =
     (let (a, b) = CanonicalPair (dp_UuidString D) x y
      in ''trade:'' @ dp_UuidString D a @ '':'' @ dp_UuidString D b)"

definition SetTradeOffers :: "offer list \<Rightarrow> 'a state_scheme \<Rightarrow> 'a state_scheme" where
  "SetTradeOffers os s =
     fold (\<lambda>f s. if o_Status f \<noteq> OfferProposed then s else s\<lparr>st_offers := put_key (o_ID f) f (st_offers s)\<rparr>) os
       (s\<lparr>st_offers := [], st_tradeBusy := [], st_reserved := [], st_failedTradeEnds := []\<rparr>)"

text \<open>Only whether there is a pending offer is used; which one the iteration finds first is not.\<close>

definition has_pendingOfferOf :: "'a state_scheme \<Rightarrow> uuid \<Rightarrow> uuid \<Rightarrow> bool" where
  "has_pendingOfferOf s x y = list_ex (\<lambda>(i, f). Involves_offer f x y) (st_offers s)"

definition tradeAllowed :: "deps \<Rightarrow> 'a state_scheme \<Rightarrow> uuid \<Rightarrow> uuid \<Rightarrow> instant \<Rightarrow> bool" where
  "tradeAllowed D s x y now = list_ex (\<lambda>t. AllowsTradeAt t now) (openOf D s x y)"

definition tradeOfferTTL :: "deps \<Rightarrow> duration" where
  "tradeOfferTTL D = (if 0 < dp_TradeOfferTTL D then dp_TradeOfferTTL D else defaultTradeOfferTTL)"

subsection \<open>Views\<close>

definition tradeView :: "sim \<Rightarrow> offer \<Rightarrow> uuid \<Rightarrow> offer_view" where
  "tradeView s f viewer =
     (let other = Other_offer f viewer; (give, get) = For f viewer
      in \<lparr>ofv_ID = o_ID f, ofv_OtherPlayerID = other, ofv_OtherCityID = map_option c_ID (CityOf s other),
          ofv_OtherCityName = map_option c_Name (CityOf s other), ofv_Give = give, ofv_Get = get,
          ofv_Status = o_Status f, ofv_ProposedByMe = (o_Proposer f = viewer),
          ofv_ExpiresAtMs = o_ExpiresAt f div 1000000\<rparr>)"

definition broadcastTrade :: "offer \<Rightarrow> uuid \<Rightarrow> string \<Rightarrow> sim \<Rightarrow> sim" where
  "broadcastTrade f orderedBy requestID =
     fold (\<lambda>p s. send (ToPlayer p (if p = orderedBy then requestID else '''') (TradeUpdate (tradeView s f p))) s)
       [o_Proposer f, o_Target f]"

definition broadcastTradeStocks :: "offer \<Rightarrow> sim \<Rightarrow> sim" where
  "broadcastTradeStocks f =
     fold (\<lambda>i s. case map_of (st_cities s) i of Some c \<Rightarrow> broadcastStocks c s | None \<Rightarrow> s) [o_ProposerCity f, o_TargetCity f]"

definition tradeOffersOf :: "sim \<Rightarrow> uuid \<Rightarrow> offer_view list" where
  "tradeOffersOf s viewer =
     map (\<lambda>f. tradeView s f viewer)
       (filter (\<lambda>f. HasParty_offer f viewer)
         (List.map_filter (map_of (st_offers s)) (sorted_keys (st_offers s))))"

subsection \<open>Orders that touch no stock\<close>

definition TradeWriteOf :: "offer \<Rightarrow> string \<Rightarrow> trade_write" where
  "TradeWriteOf f event =
     \<lparr>tdw_Insert = False, tdw_Offer = f, tdw_Event = event, tdw_Tick = 0, tdw_AtMs = 0, tdw_By = 0, tdw_Reason = ''''\<rparr>"

definition submitTradeOrder :: "deps \<Rightarrow> trade_write \<Rightarrow> uuid \<Rightarrow> string \<Rightarrow> sim \<Rightarrow> sim" where
  "submitTradeOrder D w0 playerID requestID s0 =
     (let w = w0\<lparr>tdw_Tick := st_tick s0, tdw_AtMs := NowMs s0, tdw_By := playerID\<rparr>;
          k = pairKey D (o_Proposer (tdw_Offer w)) (o_Target (tdw_Offer w));
          s = s0\<lparr>st_tradeBusy := mark_key k (st_tradeBusy s0)\<rparr>
      in submit_job ''trade.order'' (TradeKey D (fst k) (snd k)) (ApplyOffer w)
           (Some [TradeResolved playerID requestID w 0 (Some CodeInternalError)]) s)"

definition handleProposeTrade :: "deps \<Rightarrow> uuid \<Rightarrow> string \<Rightarrow> uuid \<Rightarrow> costs \<Rightarrow> costs \<Rightarrow> sim \<Rightarrow> sim" where
  "handleProposeTrade D playerID requestID target give want s =
     (let reject = (\<lambda>c. economyError playerID requestID c s) in
      if \<not> dp_Trade D then reject CodeInternalError
      else if target = playerID then reject CodeInvalidTarget
      else case CityOf s playerID of
        None \<Rightarrow> reject CodeCityNotFound
      | Some own \<Rightarrow> (case CityOf s target of
          None \<Rightarrow> reject CodeInvalidTarget
        | Some other \<Rightarrow>
            if ValidateLines give want \<noteq> None then reject CodeInvalidTarget
            else if has_key (st_tradeBusy s) (pairKey D playerID target) then reject CodeInvalidTarget
            else if has_pendingOfferOf s playerID target then reject CodeInvalidTarget
            else let now = treatyNow s in
              if \<not> tradeAllowed D s playerID target now then reject CodeTreatyRequired
              else if \<not> CanAfford_costs give (\<lambda>r. Some (rs_stock (stock_of (economyOf s (c_ID own)) r)))
              then reject CodeInsufficientResources
              else submitTradeOrder D
                ((TradeWriteOf
                   \<lparr>o_ID = 0, o_Proposer = playerID, o_Target = target, o_ProposerCity = c_ID own, o_TargetCity = c_ID other,
                    o_Give = give, o_Want = want, o_Status = OfferProposed, o_RequestID = requestID,
                    o_AcceptedRequestID = '''', o_CreatedAt = now, o_ExpiresAt = now + tradeOfferTTL D, o_ClosedAt = None\<rparr>
                   ''TradeProposed'')\<lparr>tdw_Insert := True\<rparr>) playerID requestID s))"

definition handleCancelTrade :: "deps \<Rightarrow> uuid \<Rightarrow> string \<Rightarrow> int64 \<Rightarrow> sim \<Rightarrow> sim" where
  "handleCancelTrade D playerID requestID offerID s =
     (let reject = (\<lambda>c. economyError playerID requestID c s) in
      case map_of (st_offers s) offerID of
        None \<Rightarrow> reject CodeInvalidTarget
      | Some f \<Rightarrow>
          if CanWithdraw_offer f playerID \<noteq> None then reject CodeInvalidTarget
          else if has_key (st_tradeBusy s) (pairKey D (o_Proposer f) (o_Target f)) then reject CodeInvalidTarget
          else case TransitionTo_offer f OfferWithdrawn (treatyNow s) of
                 Err _ \<Rightarrow> reject CodeInvalidTarget
               | Ok after \<Rightarrow> submitTradeOrder D (TradeWriteOf after ''TradeWithdrawn'') playerID requestID s)"

definition storeTradeOffer :: "offer \<Rightarrow> 'a state_scheme \<Rightarrow> 'a state_scheme" where
  "storeTradeOffer f s =
     (if o_Status f = OfferProposed then s\<lparr>st_offers := put_key (o_ID f) f (st_offers s)\<rparr>
      else s\<lparr>st_offers := del_key (o_ID f) (st_offers s)\<rparr>)"

definition handleTradeResolved :: "deps \<Rightarrow> uuid \<Rightarrow> string \<Rightarrow> trade_write \<Rightarrow> int64 \<Rightarrow> code option \<Rightarrow> sim \<Rightarrow> sim" where
  "handleTradeResolved D playerID requestID w i c s0 =
     (let s = s0\<lparr>st_tradeBusy := del_key (pairKey D (o_Proposer (tdw_Offer w)) (o_Target (tdw_Offer w))) (st_tradeBusy s0)\<rparr>
      in case c of
           Some e \<Rightarrow> economyError playerID requestID e s
         | None \<Rightarrow> let f = (if tdw_Insert w then (tdw_Offer w)\<lparr>o_ID := i\<rparr> else tdw_Offer w)
                   in broadcastTrade f playerID requestID (storeTradeOffer f s))"

subsection \<open>The acceptance\<close>

definition release_leg :: "leg \<times> int64 \<Rightarrow> 'a state_scheme \<Rightarrow> 'a state_scheme" where
  "release_leg lc s =
     (let (l, carried) = lc; rs = stock_of (economyOf s (g_CityID l)) (g_Resource l);
          rs = (if 0 < g_Pays l then (case Credit (rs_stock rs) (g_Pays l) of Err _ \<Rightarrow> rs | Ok st \<Rightarrow> rs\<lparr>rs_stock := st\<rparr>) else rs)
      in put_stock (g_CityID l) (g_Resource l) (rs\<lparr>rs_unflushed := i64 (rs_unflushed rs + carried)\<rparr>) s)"

definition releaseTrade :: "trade_reservation \<Rightarrow> nat \<Rightarrow> 'a state_scheme \<Rightarrow> 'a state_scheme" where
  "releaseTrade r n s =
     markStockDirty (o_TargetCity (tr_offer r)) (markStockDirty (o_ProposerCity (tr_offer r))
       (fold release_leg (take n (zip (tr_legs r) (tr_carried r))) s))"

definition reserve_leg :: "leg \<Rightarrow> 'a state_scheme \<Rightarrow> economy_error + int64 \<times> stock_delta \<times> 'a state_scheme" where
  "reserve_leg l s =
     (let rs = stock_of (economyOf s (g_CityID l)) (g_Resource l)
      in case (if 0 < g_Pays l then Debit (rs_stock rs) \<lparr>k_Resource = g_Resource l, k_Amount = g_Pays l\<rparr>
               else Ok ((rs_stock rs)\<lparr>s_Version := i64 (s_Version (rs_stock rs) + 1)\<rparr>)) of
           Err e \<Rightarrow> Err e
         | Ok st \<Rightarrow>
             let carried = rs_unflushed rs
             in Ok (carried, (g_CityID l, g_Resource l, i64 (i64 (carried - g_Pays l) + g_Gets l), s_Version st),
                    put_stock (g_CityID l) (g_Resource l) \<lparr>rs_stock = st, rs_unflushed = 0\<rparr> s))"

text \<open>The loop over the legs; a leg that cannot be paid leaves what the earlier ones carried.\<close>

fun reserve_legs ::
  "leg list \<Rightarrow> int64 list \<Rightarrow> stock_delta list \<Rightarrow> 'a state_scheme
     \<Rightarrow> int64 list \<times> 'a state_scheme + int64 list \<times> stock_delta list \<times> 'a state_scheme" where
  "reserve_legs [] carried deltas s = Ok (carried, deltas, s)"
| "reserve_legs (l # ls) carried deltas s =
     (case reserve_leg l s of
        Err _ \<Rightarrow> Err (carried, s)
      | Ok (n, d, s') \<Rightarrow> reserve_legs ls (carried @ [n]) (deltas @ [d]) s')"

definition submit_pair_job :: "string \<Rightarrow> string \<Rightarrow> string \<Rightarrow> durable \<Rightarrow> command list option \<Rightarrow> sim \<Rightarrow> sim" where
  "submit_pair_job name key key2 run onFailure s =
     s\<lparr>sm_jobs := sm_jobs s @ [\<lparr>jb_Name = name, jb_Key = key, jb_Key2 = key2, jb_OnPermanentFailure = onFailure,
        jb_Run = run\<rparr>]\<rparr>"

definition acceptTrade :: "deps \<Rightarrow> uuid \<Rightarrow> string \<Rightarrow> offer \<Rightarrow> instant \<Rightarrow> sim \<Rightarrow> sim" where
  "acceptTrade D playerID requestID f now s =
     (let reject = (\<lambda>c s. economyError playerID requestID c s);
          stocks = (\<lambda>city r. Some (rs_stock (stock_of (economyOf s city) r))) in
      if \<not> dp_Trade D then reject CodeInternalError s
      else if \<not> tradeAllowed D s (o_Proposer f) (o_Target f) now then reject CodeTreatyRequired s
      else if \<not> has_key (st_cities s) (o_ProposerCity f) then reject CodeInvalidTarget s
      else if \<not> has_key (st_cities s) (o_TargetCity f) then reject CodeCityNotFound s
      else if \<not> CanAfford_costs (o_Give f) (stocks (o_ProposerCity f)) then reject CodeInsufficientResources s
      else if \<not> CanAfford_costs (o_Want f) (stocks (o_TargetCity f)) then reject CodeInsufficientResources s
      else let legs = Legs f; r = (\<lambda>carried. \<lparr>tr_offer = f, tr_legs = legs, tr_carried = carried\<rparr>)
           in case reserve_legs legs [] [] s of
                Err (carried, s') \<Rightarrow> reject CodeInsufficientResources (releaseTrade (r carried) (length carried) s')
              | Ok (carried, deltas, s') \<Rightarrow>
                  let s = markStockDirty (o_TargetCity f) (markStockDirty (o_ProposerCity f) s')
                  in case TransitionTo_offer f OfferAccepted now of
                       Err _ \<Rightarrow> reject CodeInvalidTarget (releaseTrade (r carried) (length legs) s)
                     | Ok acc \<Rightarrow>
                         let acc = acc\<lparr>o_AcceptedRequestID := requestID\<rparr>;
                             s = s\<lparr>st_tradeBusy := mark_key (pairKey D (o_Proposer f) (o_Target f)) (st_tradeBusy s),
                                   st_reserved := put_key (o_ID f) ((r carried)\<lparr>tr_offer := acc\<rparr>) (st_reserved s)\<rparr>
                         in submit_pair_job ''trade.accept'' (CityKey (o_ProposerCity f)) (CityKey (o_TargetCity f))
                              (AcceptTrade \<lparr>ta_Offer = acc, ta_Stocks = deltas, ta_Tick = st_tick s, ta_AtMs = NowMs s, ta_By = playerID\<rparr>)
                              (Some [TradeAcceptResolved playerID requestID (o_ID f) (Some CodeInternalError)]) s)"

definition handleRespondTrade :: "deps \<Rightarrow> uuid \<Rightarrow> string \<Rightarrow> int64 \<Rightarrow> bool \<Rightarrow> sim \<Rightarrow> sim" where
  "handleRespondTrade D playerID requestID offerID accept s =
     (let reject = (\<lambda>c. economyError playerID requestID c s) in
      case map_of (st_offers s) offerID of
        None \<Rightarrow> reject CodeInvalidTarget
      | Some f \<Rightarrow>
          if CanRespond_offer f playerID \<noteq> None then reject CodeInvalidTarget
          else if has_key (st_tradeBusy s) (pairKey D (o_Proposer f) (o_Target f)) then reject CodeInvalidTarget
          else let now = treatyNow s
               in if \<not> accept
                  then (case TransitionTo_offer f OfferRejected now of
                          Err _ \<Rightarrow> reject CodeInvalidTarget
                        | Ok after \<Rightarrow> submitTradeOrder D (TradeWriteOf after ''TradeRejected'') playerID requestID s)
                  else acceptTrade D playerID requestID f now s)"

definition credit_leg :: "leg \<Rightarrow> 'a state_scheme \<Rightarrow> 'a state_scheme" where
  "credit_leg l s =
     (if \<not> 0 < g_Gets l then s
      else let rs = stock_of (economyOf s (g_CityID l)) (g_Resource l)
           in put_stock (g_CityID l) (g_Resource l)
                (case Credit (rs_stock rs) (g_Gets l) of Err _ \<Rightarrow> rs | Ok st \<Rightarrow> rs\<lparr>rs_stock := st\<rparr>) s)"

definition handleTradeAcceptResolved :: "deps \<Rightarrow> uuid \<Rightarrow> string \<Rightarrow> int64 \<Rightarrow> code option \<Rightarrow> sim \<Rightarrow> sim" where
  "handleTradeAcceptResolved D playerID requestID offerID c s0 =
     (case map_of (st_reserved s0) offerID of
        None \<Rightarrow> s0
      | Some r \<Rightarrow>
          let f = tr_offer r;
              s = s0\<lparr>st_reserved := del_key offerID (st_reserved s0),
                     st_tradeBusy := del_key (pairKey D (o_Proposer f) (o_Target f)) (st_tradeBusy s0)\<rparr>
          in case c of
               Some e \<Rightarrow> broadcastTradeStocks f (economyError playerID requestID e (releaseTrade r (length (tr_legs r)) s))
             | None \<Rightarrow>
                 let s = fold credit_leg (tr_legs r) s;
                     s = s\<lparr>st_offers := del_key (o_ID f) (st_offers s)\<rparr>
                 in broadcastTradeStocks f (broadcastTrade f playerID requestID s))"

subsection \<open>What expires\<close>

definition submitTradeEnd :: "deps \<Rightarrow> trade_write \<Rightarrow> sim \<Rightarrow> sim" where
  "submitTradeEnd D w s =
     (if \<not> dp_Trade D then s
      else submit_job ''trade.end'' (TradeKey D (o_Proposer (tdw_Offer w)) (o_Target (tdw_Offer w))) (ApplyOffer w)
             (Some [TradeEndPersistFailed w]) s)"

definition handleTradeEndPersistFailed :: "trade_write \<Rightarrow> 'a state_scheme \<Rightarrow> 'a state_scheme" where
  "handleTradeEndPersistFailed w s = s\<lparr>st_failedTradeEnds := st_failedTradeEnds s @ [w]\<rparr>"

definition expiry_reason :: "deps \<Rightarrow> instant \<Rightarrow> sim \<Rightarrow> offer \<Rightarrow> string option" where
  "expiry_reason D now s f =
     (if ExpiredAt f now then Some ''TIMEOUT''
      else if \<not> tradeAllowed D s (o_Proposer f) (o_Target f) now then Some ''TREATY_ENDED''
      else None)"

definition sweep_trade :: "deps \<Rightarrow> instant \<Rightarrow> int64 \<Rightarrow> sim \<Rightarrow> sim" where
  "sweep_trade D now i s =
     (case map_of (st_offers s) i of
        None \<Rightarrow> s
      | Some f \<Rightarrow>
          if has_key (st_tradeBusy s) (pairKey D (o_Proposer f) (o_Target f)) then s
          else case expiry_reason D now s f of
                 None \<Rightarrow> s
               | Some reason \<Rightarrow>
                   (case TransitionTo_offer f OfferExpired now of
                      Err _ \<Rightarrow> s
                    | Ok after \<Rightarrow>
                        let s = broadcastTrade after 0 '''' (storeTradeOffer after s)
                        in submitTradeEnd D ((TradeWriteOf after ''TradeExpired'')
                             \<lparr>tdw_Tick := st_tick s, tdw_AtMs := now div 1000000, tdw_Reason := reason\<rparr>) s))"

definition sweepTrades :: "deps \<Rightarrow> instant \<Rightarrow> sim \<Rightarrow> sim" where
  "sweepTrades D now s0 =
     (let pend = st_failedTradeEnds s0;
          s = fold (submitTradeEnd D) pend (s0\<lparr>st_failedTradeEnds := []\<rparr>)
      in fold (sweep_trade D now) (sorted_keys (st_offers s)) s)"

text \<open>The sweep of the tick: once a second, the treaties and then the offers, to the millisecond.\<close>

definition sweepTreaties :: "deps \<Rightarrow> instant \<Rightarrow> sim \<Rightarrow> sim" where
  "sweepTreaties D now s =
     (if now - sm_lastTreatySweep s < treatySweepInterval then s
      else let s = s\<lparr>sm_lastTreatySweep := now\<rparr>; now = now div 1000000 * 1000000
           in sweepTrades D now (sweep_open_treaties D now s))"

end
