(* ===== verification/Conquest.thy ===== *)
theory Conquest
  imports Combat_Phase Trade_Orders Recovery Concealment
begin

section \<open>Conquest of territories and new players\<close>

text \<open>
  Models internal/game/simulation/conquest.go, territory.go and introduce.go: the claim a warrior
  opens on the territory it stands on, its confirmation, the sweep that breaks or captures it, the
  capture in two phases with the limits of both cities, the control of the territories in memory and
  its announcement, and the player that joins the live world with its city, its wall and its control.
\<close>

subsection \<open>Territories in the live world (territory.go)\<close>

text \<open>The zero Control, which the code reads for a territory without one.\<close>

definition zero_control :: control where
  "zero_control = \<lparr>ct_TerritoryID = 0, ct_OwnerType = OwnerOther '''', ct_OwnerID = None, ct_ControlPoints = 0,
     ct_Contested = False, ct_CapturedAt = None, ct_Version = 0\<rparr>"

definition SetTerritories :: "terr_set \<Rightarrow> control list \<Rightarrow> 'a state_scheme \<Rightarrow> 'a state_scheme" where
  "SetTerritories ts controls s =
     s\<lparr>st_territories := Some ts, st_control := fold (\<lambda>c m. put_key (ct_TerritoryID c) c m) controls []\<rparr>"

definition TerritoryAt_state :: "'a state_scheme \<Rightarrow> int32 \<Rightarrow> int32 \<Rightarrow> territory option" where
  "TerritoryAt_state s x y = (case st_territories s of None \<Rightarrow> None | Some ts \<Rightarrow> TerritoryAt ts x y)"

definition territory_by_id :: "'a state_scheme \<Rightarrow> int64 \<Rightarrow> territory option" where
  "territory_by_id s i = (case st_territories s of None \<Rightarrow> None | Some ts \<Rightarrow> ByID ts i)"

definition TerritoryControl :: "'a state_scheme \<Rightarrow> int64 \<Rightarrow> control" where
  "TerritoryControl s i = (case map_of (st_control s) i of None \<Rightarrow> zero_control | Some c \<Rightarrow> c)"

definition ApplyTerritoryControl :: "control \<Rightarrow> 'a state_scheme \<Rightarrow> 'a state_scheme" where
  "ApplyTerritoryControl c s = s\<lparr>st_control := put_key (ct_TerritoryID c) c (st_control s)\<rparr>"

definition TerritoryFootprint :: "'a state_scheme \<Rightarrow> int64 \<Rightarrow> chunk_coord list" where
  "TerritoryFootprint s i = (case st_territories s of None \<Rightarrow> [] | Some ts \<Rightarrow> FootprintOf ts i)"

definition claimView :: "'a state_scheme \<Rightarrow> int64 \<Rightarrow> claim_view option" where
  "claimView s i =
     (case map_of (st_claims s) i of
        None \<Rightarrow> None
      | Some cs \<Rightarrow>
          if cs_pending cs then None
          else let cl = cs_Claim cs;
                   named = (case map_of (st_cities s) (cl_CityID cl) of
                              Some c \<Rightarrow> if c_Name c \<noteq> '''' then Some c else None | None \<Rightarrow> None)
               in Some \<lparr>clv_PlayerID = cl_PlayerID cl, clv_CityID = map_option c_ID named,
                    clv_CityName = map_option c_Name named, clv_StartedAtMs = cl_StartedAtMs cl,
                    clv_EndsAtMs = cl_CompletesAtMs cl\<rparr>)"

definition TerritoryView :: "'a state_scheme \<Rightarrow> territory \<Rightarrow> territory_view" where
  "TerritoryView s t =
     (let c = map_of (st_control s) (r_ID t); cl = claimView s (r_ID t)
      in \<lparr>tev_ID = r_ID t, tev_Name = r_Name t, tev_MinX = r_MinX t, tev_MinY = r_MinY t, tev_MaxX = r_MaxX t,
          tev_MaxY = r_MaxY t, tev_OwnerType = (case c of None \<Rightarrow> OwnerNone | Some c \<Rightarrow> ct_OwnerType c),
          tev_OwnerID = (case c of None \<Rightarrow> None | Some c \<Rightarrow> ct_OwnerID c), tev_Contested = (cl \<noteq> None), tev_Claim = cl\<rparr>)"

definition TerritoryViews :: "'a state_scheme \<Rightarrow> chunk_coord list \<Rightarrow> territory_view list" where
  "TerritoryViews s chunks =
     (case st_territories s of None \<Rightarrow> [] | Some ts \<Rightarrow> map (TerritoryView s) (InChunks ts chunks))"

definition announce_territory :: "territory \<Rightarrow> int64 \<Rightarrow> sim \<Rightarrow> sim" where
  "announce_territory t i s = send (ToChunks (TerritoryFootprint s i) (TerritoryUpdate (TerritoryView s t))) s"

definition broadcastTerritory :: "int64 \<Rightarrow> sim \<Rightarrow> sim" where
  "broadcastTerritory i s = (case territory_by_id s i of None \<Rightarrow> s | Some t \<Rightarrow> announce_territory t i s)"

text \<open>Control changes and is announced in one function (INV-TERR-009).\<close>

definition applyTerritoryControl :: "control \<Rightarrow> sim \<Rightarrow> sim" where
  "applyTerritoryControl c s =
     (case territory_by_id s (ct_TerritoryID c) of
        None \<Rightarrow> s
      | Some t \<Rightarrow> announce_territory t (ct_TerritoryID c) (ApplyTerritoryControl c s))"

subsection \<open>Claims (conquest.go)\<close>

definition defaultClaimFree :: duration where "defaultClaimFree = 300000000000"
definition defaultClaimHeld :: duration where "defaultClaimHeld = 600000000000"

definition ClaimEndUnit :: string where "ClaimEndUnit = ''UNIT''"
definition ClaimEndBlocked :: string where "ClaimEndBlocked = ''BLOCKED''"
definition ClaimEndTarget :: string where "ClaimEndTarget = ''TARGET''"
definition ClaimEndConflict :: string where "ClaimEndConflict = ''CONFLICT''"

definition no_capture :: "claim \<Rightarrow> bool \<Rightarrow> claim_state" where
  "no_capture c pend = \<lparr>cs_Claim = c, cs_pending = pend, cs_capturing = False, cs_capture = None\<rparr>"

definition install_claim :: "claim_state \<Rightarrow> 'a state_scheme \<Rightarrow> 'a state_scheme" where
  "install_claim cs s = s\<lparr>st_claims := put_key (cl_TerritoryID (cs_Claim cs)) cs (st_claims s)\<rparr>"

definition set_claim :: "claim \<Rightarrow> 'a state_scheme \<Rightarrow> 'a state_scheme" where
  "set_claim c s0 =
     (let s = install_claim (no_capture c False) s0;
          s = s\<lparr>st_claimByUnit := put_key (cl_UnitID c) (cl_TerritoryID c) (st_claimByUnit s)\<rparr>
      in case map_of (st_units s) (cl_UnitID c) of
           None \<Rightarrow> s
         | Some u \<Rightarrow>
             if \<not> IsAlive u \<or> u_Status u \<noteq> StatusIdle \<or> unit_Tile u \<noteq> Tile_claim c then s
             else if has_key (st_movements s) (u_ID u) then s
             else set_status (cl_UnitID c) StatusClaiming s)"

definition SetClaims :: "claim list \<Rightarrow> 'a state_scheme \<Rightarrow> 'a state_scheme" where
  "SetClaims claims s = fold set_claim claims s"

definition ActiveClaim :: "'a state_scheme \<Rightarrow> int64 \<Rightarrow> (claim \<times> bool) option" where
  "ActiveClaim s i =
     (case map_of (st_claims s) i of None \<Rightarrow> None | Some cs \<Rightarrow> Some (cs_Claim cs, \<not> cs_pending cs))"

definition claimDuration :: "deps \<Rightarrow> bool \<Rightarrow> duration" where
  "claimDuration D owned =
     (if owned then (if 0 < dp_TerritoryClaimHeld D then dp_TerritoryClaimHeld D else defaultClaimHeld)
      else if 0 < dp_TerritoryClaimFree D then dp_TerritoryClaimFree D else defaultClaimFree)"

definition all_cities :: "'a state_scheme \<Rightarrow> city list" where
  "all_cities s = List.map_filter (\<lambda>i. map_of (st_cities s) i) (sorted_keys (st_cities s))"

definition urbanAt :: "'a state_scheme \<Rightarrow> tile \<Rightarrow> bool" where
  "urbanAt s t = list_ex (\<lambda>c. Occupies c (tX t) (tY t)) (all_cities s)"

definition claimBlocked :: "deps \<Rightarrow> 'a state_scheme \<Rightarrow> uuid \<Rightarrow> territory \<Rightarrow> instant \<Rightarrow> code option" where
  "claimBlocked D s claimer t now =
     (let control = TerritoryControl s (r_ID t);
          owner = PlayerOwner (dp_ParseUuid D) control;
          centers = (case owner of None \<Rightarrow> [] | Some o' \<Rightarrow> (case CityOf s o' of None \<Rightarrow> [] | Some c \<Rightarrow> [Center c]))
      in if CheckClaimable (dp_ParseUuid D) t control claimer centers \<noteq> None then Some CodeInvalidTarget
         else if protected_now s claimer now then Some CodeCityProtected
         else case owner of
                None \<Rightarrow> None
              | Some o' \<Rightarrow>
                  if AtPeace D s claimer o' now then Some CodeInvalidTarget
                  else if protected_now s o' now then Some CodeCityProtected
                  else None)"

definition handleClaimTerritory :: "deps \<Rightarrow> uuid \<Rightarrow> string \<Rightarrow> int64 \<Rightarrow> sim \<Rightarrow> sim" where
  "handleClaimTerritory D playerID requestID i s =
     (let nowMs = NowMs s; now = sm_now s; reject = (\<lambda>c s. economyError playerID requestID c s) in
      case warrior_guard s playerID i of
        Err c \<Rightarrow> reject c s
      | Ok (u, d) \<Rightarrow>
        if \<not> dp_Conquest D then reject CodeInternalError s
        else (case CityOf s playerID of
          None \<Rightarrow> reject CodeInvalidTarget s
        | Some own \<Rightarrow>
          let pos = authoritativePosition s i nowMs in
          (case TerritoryAt_state s (tX pos) (tY pos) of
            None \<Rightarrow> reject CodeInvalidTarget s
          | Some t \<Rightarrow>
            if SafeZoneAt s (tX pos) (tY pos) \<noteq> None then reject CodeInvalidTarget s
            else if urbanAt s pos then reject CodeInvalidTarget s
            else if has_key (st_claims s) (r_ID t) then reject CodeInvalidTarget s
            else case claimBlocked D s playerID t now of
                   Some c \<Rightarrow> reject c s
                 | None \<Rightarrow>
                     let s = cancelActiveMovement i ReasonReplaced nowMs (endEngagement D i False (stopWorking i s));
                         s = MarkDirty i (set_status i StatusClaiming s);
                         owner = PlayerOwner (dp_ParseUuid D) (TerritoryControl s (r_ID t));
                         c = \<lparr>cl_ID = 0, cl_TerritoryID = r_ID t, cl_UnitID = i, cl_PlayerID = playerID, cl_CityID = c_ID own,
                              cl_OwnerPlayerID = owner, cl_X = tX pos, cl_Y = tY pos, cl_StartedAtMs = nowMs,
                              cl_CompletesAtMs = i64 (nowMs + go_div (claimDuration D (owner \<noteq> None)) 1000000),
                              cl_RequestID = requestID\<rparr>;
                         s = install_claim (no_capture c True) s;
                         s = s\<lparr>st_claimByUnit := put_key i (r_ID t) (st_claimByUnit s)\<rparr>
                     in submit_job ''territory.claim'' (CityKey (c_ID own))
                          (StartClaim \<lparr>clst_Claim = c, clst_TerritoryName = r_Name t, clst_Tick = st_tick s\<rparr>)
                          (Some [ClaimResolved (r_ID t) playerID requestID 0 (Some CodeInternalError)]) s)))"

definition dropClaim :: "claim \<Rightarrow> 'a state_scheme \<Rightarrow> 'a state_scheme" where
  "dropClaim c s0 =
     (let s = s0\<lparr>st_claims := del_key (cl_TerritoryID c) (st_claims s0)\<rparr>
      in if (case map_of (st_claimByUnit s) (cl_UnitID c) of None \<Rightarrow> 0 | Some t \<Rightarrow> t) = cl_TerritoryID c
         then s\<lparr>st_claimByUnit := del_key (cl_UnitID c) (st_claimByUnit s)\<rparr> else s)"

definition submitClaimEnd :: "deps \<Rightarrow> claim_end \<Rightarrow> sim \<Rightarrow> sim" where
  "submitClaimEnd D e s =
     (if \<not> dp_Conquest D then s
      else submit_job ''territory.claim_end'' (CityKey (ced_CityID e)) (EndClaim e) (Some [ClaimEndPersistFailed e]) s)"

text \<open>A warrior that is still claiming is freed; the caller says whether it is announced.\<close>

definition free_claimer :: "int64 \<Rightarrow> bool \<Rightarrow> sim \<Rightarrow> sim" where
  "free_claimer i announce s =
     (if has_key (st_units s) i \<and> u_Status (unit_at s i) = StatusClaiming
      then let s = MarkDirty i (set_status i StatusIdle s) in if announce then broadcastStatus i s else s
      else s)"

definition endClaim :: "deps \<Rightarrow> claim_state \<Rightarrow> string \<Rightarrow> int64 \<Rightarrow> sim \<Rightarrow> sim" where
  "endClaim D cs reason nowMs s0 =
     (let c = cs_Claim cs;
          s = free_claimer (cl_UnitID c) True (dropClaim c s0);
          s = (if cs_pending cs then s else broadcastTerritory (cl_TerritoryID c) s)
      in if cl_ID c = 0 then s
         else submitClaimEnd D \<lparr>ced_ClaimID = cl_ID c, ced_TerritoryID = cl_TerritoryID c, ced_CityID = cl_CityID c,
                ced_Reason = reason, ced_Tick = st_tick s, ced_AtMs = nowMs\<rparr> s)"

definition territory_event :: "event_type \<Rightarrow> uuid \<Rightarrow> uuid \<Rightarrow> int64 \<Rightarrow> tile \<Rightarrow> int64 \<Rightarrow> string \<Rightarrow> event" where
  "territory_event ty player counterpart atMs t i name =
     (EventOf ty player counterpart atMs t)\<lparr>ev_TerritoryID := i, ev_TerritoryName := name\<rparr>"

definition handleClaimResolved :: "deps \<Rightarrow> int64 \<Rightarrow> uuid \<Rightarrow> string \<Rightarrow> int64 \<Rightarrow> code option \<Rightarrow> sim \<Rightarrow> sim" where
  "handleClaimResolved D terr playerID requestID claimID cd s =
     (case map_of (st_claims s) terr of
        None \<Rightarrow> s
      | Some cs0 \<Rightarrow>
          let c = cs_Claim cs0; nowMs = NowMs s in
          if \<not> cs_pending cs0 \<or> cl_RequestID c \<noteq> requestID \<or> cl_PlayerID c \<noteq> playerID then s
          else case cd of
            Some code \<Rightarrow> economyError playerID requestID code (free_claimer (cl_UnitID c) False (dropClaim c s))
          | None \<Rightarrow>
              let c = c\<lparr>cl_ID := claimID\<rparr>; cs = cs0\<lparr>cs_Claim := c, cs_pending := False\<rparr>; s = install_claim cs s in
              if \<not> has_key (st_units s) (cl_UnitID c) \<or> \<not> IsAlive (unit_at s (cl_UnitID c))
                 \<or> u_Status (unit_at s (cl_UnitID c)) \<noteq> StatusClaiming
              then endClaim D cs ClaimEndUnit nowMs s
              else let s = broadcastTerritory (cl_TerritoryID c) (broadcastStatus (cl_UnitID c) s)
                   in case cl_OwnerPlayerID c of
                        None \<Rightarrow> s
                      | Some owner \<Rightarrow>
                          let (tid, name) = (case territory_by_id s (cl_TerritoryID c) of
                                               None \<Rightarrow> (0, '''') | Some t \<Rightarrow> (r_ID t, r_Name t));
                              s = sendNotices (territory_event EventTerritoryClaimStarted owner (cl_PlayerID c)
                                    (cl_StartedAtMs c) (Tile_claim c) tid name) s
                          in fold (\<lambda>g. respond D g (cl_UnitID c) nowMs) (guardsNear D s owner (Tile_claim c)) s)"

definition handleClaimEndPersistFailed :: "claim_end \<Rightarrow> 'a state_scheme \<Rightarrow> 'a state_scheme" where
  "handleClaimEndPersistFailed e s = s\<lparr>st_pendingClaimEnds := put_key (ced_ClaimID e) e (st_pendingClaimEnds s)\<rparr>"

subsection \<open>Breaking and capturing\<close>

definition claimBroken :: "deps \<Rightarrow> 'a state_scheme \<Rightarrow> claim \<Rightarrow> instant \<Rightarrow> string option" where
  "claimBroken D s c now =
     (let u = unit_at s (cl_UnitID c) in
      if \<not> has_key (st_units s) (cl_UnitID c) \<or> \<not> IsAlive u \<or> u_Status u \<noteq> StatusClaiming \<or> unit_Tile u \<noteq> Tile_claim c
      then Some ClaimEndUnit
      else case territory_by_id s (cl_TerritoryID c) of
             None \<Rightarrow> Some ClaimEndTarget
           | Some t \<Rightarrow> (case claimBlocked D s (cl_PlayerID c) t now of
                None \<Rightarrow> None
              | Some CodeInvalidTarget \<Rightarrow>
                  (case PlayerOwner (dp_ParseUuid D) (TerritoryControl s (r_ID t)) of
                     Some o' \<Rightarrow> if AtPeace D s (cl_PlayerID c) o' now then Some ClaimEndBlocked else Some ClaimEndTarget
                   | None \<Rightarrow> Some ClaimEndTarget)
              | Some _ \<Rightarrow> Some ClaimEndBlocked))"

definition submitCapture :: "deps \<Rightarrow> capture \<Rightarrow> sim \<Rightarrow> sim" where
  "submitCapture D c s =
     (if \<not> dp_Conquest D then s
      else submit_pair_job ''territory.capture'' (CityKey (ca_NewCityID c))
             (if ca_PrevCityID c \<noteq> 0 \<and> ca_PrevCityID c \<noteq> ca_NewCityID c then CityKey (ca_PrevCityID c) else '''')
             (CaptureTerritory c) (Some [CaptureResolved (ca_TerritoryID c) None False True]) s)"

text \<open>The capture of a claim: the bonus each of the two cities wins or loses, and the version expected.\<close>

definition capture_of :: "deps \<Rightarrow> 'a state_scheme \<Rightarrow> claim \<Rightarrow> territory \<Rightarrow> city \<Rightarrow> instant \<Rightarrow> capture" where
  "capture_of D s c t newCity now =
     (let control = TerritoryControl s (r_ID t);
          prev = PlayerOwner (dp_ParseUuid D) control;
          pc = (case prev of None \<Rightarrow> None | Some p \<Rightarrow> CityOf s p)
      in \<lparr>ca_ClaimID = cl_ID c, ca_TerritoryID = r_ID t, ca_TerritoryName = r_Name t, ca_NewOwner = cl_PlayerID c,
          ca_NewCityID = c_ID newCity, ca_NewBonus = CaptureBonus t (Center newCity),
          ca_PrevOwner = (case prev of None \<Rightarrow> 0 | Some p \<Rightarrow> p),
          ca_PrevCityID = (case pc of None \<Rightarrow> 0 | Some x \<Rightarrow> c_ID x),
          ca_PrevBonus = (case pc of None \<Rightarrow> 0 | Some x \<Rightarrow> CaptureBonus t (Center x)),
          ca_ExpectedVersion = ct_Version control, ca_CapturedAt = now, ca_Tick = st_tick s, ca_AtMs = now div 1000000,
          ca_X = cl_X c, ca_Y = cl_Y c\<rparr>)"

definition startCapture :: "deps \<Rightarrow> claim_state \<Rightarrow> instant \<Rightarrow> sim \<Rightarrow> sim" where
  "startCapture D cs now s =
     (let c = cs_Claim cs in
      case (territory_by_id s (cl_TerritoryID c), map_of (st_cities s) (cl_CityID c)) of
        (Some t, Some newCity) \<Rightarrow>
          let ca = capture_of D s c t newCity now
          in submitCapture D ca (install_claim (cs\<lparr>cs_capturing := True, cs_capture := Some ca\<rparr>) s)
      | _ \<Rightarrow> endClaim D cs ClaimEndTarget (now div 1000000) s)"

definition sweep_claim :: "deps \<Rightarrow> instant \<Rightarrow> int64 \<Rightarrow> sim \<Rightarrow> sim" where
  "sweep_claim D now i s =
     (case map_of (st_claims s) i of
        None \<Rightarrow> s
      | Some cs \<Rightarrow>
          if cs_pending cs \<or> cs_capturing cs then s
          else case claimBroken D s (cs_Claim cs) now of
                 Some reason \<Rightarrow> endClaim D cs reason (now div 1000000) s
               | None \<Rightarrow> if Due_claim (cs_Claim cs) (now div 1000000) then startCapture D cs now s else s)"

definition sweepClaims :: "deps \<Rightarrow> instant \<Rightarrow> sim \<Rightarrow> sim" where
  "sweepClaims D now s = fold (sweep_claim D now) (sorted_keys (st_claims s)) s"

text \<open>A change of the population limit of a city, announced.\<close>

definition add_limit :: "int64 \<Rightarrow> int32 \<Rightarrow> sim \<Rightarrow> sim" where
  "add_limit city bonus s =
     (case map_of (st_cities s) city of
        None \<Rightarrow> s
      | Some c \<Rightarrow>
          if bonus = 0 then s
          else let limit = i32 (c_PopulationLimit c + bonus)
               in broadcastCity c ((CityUpdateOf 0)\<lparr>cu_PopulationLimit := Some limit\<rparr>)
                    (upd_city city (\<lambda>c. c\<lparr>c_PopulationLimit := limit\<rparr>) s))"

definition handleCaptureResolved :: "deps \<Rightarrow> int64 \<Rightarrow> control option \<Rightarrow> bool \<Rightarrow> bool \<Rightarrow> sim \<Rightarrow> sim" where
  "handleCaptureResolved D terr ctrl conflict failed s =
     (case map_of (st_claims s) terr of
        None \<Rightarrow> s
      | Some cs \<Rightarrow>
          if \<not> cs_capturing cs then s
          else case cs_capture cs of
            None \<Rightarrow> s
          | Some ca \<Rightarrow>
              if failed then s\<lparr>st_pendingCaptures := put_key terr ca (st_pendingCaptures s)\<rparr>
              else if conflict then endClaim D (cs\<lparr>cs_capturing := False\<rparr>) ClaimEndConflict (NowMs s) s
              else let s = free_claimer (cl_UnitID (cs_Claim cs)) True (dropClaim (cs_Claim cs) s);
                       s = add_limit (ca_NewCityID ca) (ca_NewBonus ca) s;
                       s = add_limit (ca_PrevCityID ca) (- ca_PrevBonus ca) s;
                       s = applyTerritoryControl (case ctrl of None \<Rightarrow> zero_control | Some c \<Rightarrow> c) s
                   in if ca_PrevOwner ca = 0 then s
                      else sendNotices (territory_event EventTerritoryControlChanged (ca_PrevOwner ca) (ca_NewOwner ca)
                             (ca_AtMs ca) (mk_tile (ca_X ca) (ca_Y ca)) (ca_TerritoryID ca) (ca_TerritoryName ca)) s)"

definition flushClaimEnds :: "deps \<Rightarrow> sim \<Rightarrow> sim" where
  "flushClaimEnds D s =
     (if st_pendingClaimEnds s = [] then s
      else let pend = st_pendingClaimEnds s
           in fold (\<lambda>i s. case map_of pend i of None \<Rightarrow> s | Some e \<Rightarrow> submitClaimEnd D e s)
                (sorted_keys pend) (s\<lparr>st_pendingClaimEnds := []\<rparr>))"

definition flushClaims :: "deps \<Rightarrow> sim \<Rightarrow> sim" where
  "flushClaims D s0 =
     (let s = flushClaimEnds D s0 in
      if st_pendingCaptures s = [] then s
      else let pend = st_pendingCaptures s
           in fold (\<lambda>i s. case map_of pend i of None \<Rightarrow> s | Some c \<Rightarrow> submitCapture D c s)
                (sorted_keys pend) (s\<lparr>st_pendingCaptures := []\<rparr>))"

subsection \<open>A new player (introduce.go)\<close>

definition introduce_city :: "introduction \<Rightarrow> city \<Rightarrow> sim \<Rightarrow> sim" where
  "introduce_city x c s0 =
     (let s = AddCity c s0;
          s = s\<lparr>st_world := SetBlocked (st_world s) (in_BlockedMinX x) (in_BlockedMinY x) (in_BlockedMaxX x) (in_BlockedMaxY x) True\<rparr>;
          s = excludeFromSafeZones (in_BlockedMinX x) (in_BlockedMinY x) (in_BlockedMaxX x) (in_BlockedMaxY x) s;
          s = clearFootprint \<lparr>fp_minX = in_BlockedMinX x, fp_minY = in_BlockedMinY x, fp_maxX = in_BlockedMaxX x,
                fp_maxY = in_BlockedMaxY x\<rparr> (NowMs s0) s
      in to_chunk_of (c_CenterX c) (c_CenterY c)
           (CityUpdate ((CityUpdateOf (c_ID c))\<lparr>cu_Name := Some (c_Name c), cu_Population := Some (c_Population c),
              cu_PopulationLimit := Some (c_PopulationLimit c)\<rparr>)) s)"

definition introduce_unit :: "int64 \<Rightarrow> unit_rec \<Rightarrow> sim \<Rightarrow> sim" where
  "introduce_unit nowMs u s0 =
     (let s = AddUnit u s0 in to_chunk_of (u_X u) (u_Y u) (EntitySpawn (UnitView s (u_ID u) nowMs)) s)"

definition handleIntroducePlayer :: "introduction \<Rightarrow> sim \<Rightarrow> sim" where
  "handleIntroducePlayer x s0 =
     (let s = (case in_City x of None \<Rightarrow> s0 | Some c \<Rightarrow> introduce_city x c s0);
          s = fold (introduce_unit (NowMs s0)) (in_Units x) s
      in case in_TerritoryControl x of None \<Rightarrow> s | Some c \<Rightarrow> applyTerritoryControl c s)"

definition CityCenters :: "'a state_scheme \<Rightarrow> (int32 \<times> int32) list" where
  "CityCenters s = map (\<lambda>c. (c_CenterX c, c_CenterY c)) (all_cities s)"

end
