(* ===== verification/Other_Orders.thy ===== *)
theory Other_Orders
  imports Tick_Invariant Conquest
begin

section \<open>Orders that leave the units alone, and units that join the world\<close>

text \<open>
  The orders of a city (build, train, advance), their answers and their phases of the tick change
  neither what a unit is doing nor what is written of it (modes of Unit_Modes); a city that joins the
  world stops and moves away what its walls leave inside; and a unit that joins the world, with its
  row already on disk, keeps the invariant of Sim_Invariant.
\<close>

definition bystands :: "disk \<Rightarrow> sim \<Rightarrow> sim \<Rightarrow> bool" where
  "bystands d s s' \<longleftrightarrow> modes d s' = modes d s \<and> st_lastMovementID s' = st_lastMovementID s"

lemma bystands_refl [simp]: "bystands d s s" by (simp add: bystands_def)

lemma bystands_trans: "bystands d s s1 \<Longrightarrow> bystands d s1 s2 \<Longrightarrow> bystands d s s2" by (simp add: bystands_def)

lemma bystands_ok: "bystands d s s' \<Longrightarrow> sim_ok d s \<Longrightarrow> sim_ok d s'"
  using sim_ok_same by (simp add: bystands_def)

lemma bystands_fold: "(\<And>x s. bystands d s (f x s)) \<Longrightarrow> bystands d s (fold f xs s)"
  by (induction xs arbitrary: s) (auto intro: bystands_trans)

subsection \<open>What these orders touch\<close>

lemma modes_submit_noop:
  "(\<And>k. apply_durable w k = k) \<Longrightarrow> modes d (submit_job n k w f s) = modes d s"
  by (rule ext) (simp add: modes_def, simp add: submit_job_def)

lemma modes_economy [simp]:
  "modes d (s\<lparr>st_economies := e\<rparr>) = modes d s" "modes d (s\<lparr>st_pendingBuilds := pb\<rparr>) = modes d s"
  "modes d (s\<lparr>st_buildings := b\<rparr>) = modes d s" "modes d (s\<lparr>st_stockDirty := l\<rparr>) = modes d s"
  "modes d (upd_city i f s) = modes d s" "modes d (put_stock c r rs s) = modes d s"
  "modes d (addBuilding bd s) = modes d s" "modes d (markStockDirty c s) = modes d s"
  by (rule modes_cong; simp add: upd_city_def put_stock_def addBuilding_def markStockDirty_def split: option.split)+

lemma last_economy [simp]:
  "st_lastMovementID (upd_city i f s) = st_lastMovementID s" "st_lastMovementID (put_stock c r rs s) = st_lastMovementID s"
  "st_lastMovementID (addBuilding bd s) = st_lastMovementID s" "st_lastMovementID (markStockDirty c s) = st_lastMovementID s"
  by (simp_all add: upd_city_def put_stock_def addBuilding_def markStockDirty_def split: option.split)

lemma produced_same [simp]:
  "modes d (set_production c p s) = modes d s" "modes d (set_advance c a s) = modes d s"
  "modes d (give_back c k n s) = modes d s" "modes d (broadcastCity ct u s) = modes d s" "modes d (broadcastStocks ct s) = modes d s"
  "st_lastMovementID (set_production c p s) = st_lastMovementID s" "st_lastMovementID (set_advance c a s) = st_lastMovementID s"
  "st_lastMovementID (give_back c k n s) = st_lastMovementID s" "st_lastMovementID (broadcastCity ct u s) = st_lastMovementID s"
  "st_lastMovementID (broadcastStocks ct s) = st_lastMovementID s"
  by (simp_all add: set_production_def set_advance_def upd_economy_def give_back_def broadcastStocks_def broadcastCity_def Let_def
      split: prod.split)



lemma reserved_same:
  "reserve_stock c k s = Ok (n, v, s') \<Longrightarrow> bystands d s s'"
  by (auto simp: reserve_stock_def bystands_def Let_def split: sum.splits)

lemma given_back_same: "bystands d s (fold (\<lambda>(k, n) s. give_back c k n s) taken s)"
  by (rule bystands_fold) (simp add: bystands_def split: prod.split)

lemma reserved_costs_same:
  "(case reserve_costs c ks taken deltas s of Err s' \<Rightarrow> bystands d s s' | Ok (_, _, s') \<Rightarrow> bystands d s s')"
proof (induction ks arbitrary: taken deltas s)
  case (Cons k ks)
  show ?case
  proof (cases "reserve_stock c k s")
    case (Inl e) then show ?thesis by (simp add: given_back_same)
  next
    case (Inr x)
    obtain n v s1 where x: "x = (n, v, s1)" by (cases x) auto
    have s1: "bystands d s s1" using reserved_same Inr x by blast
    have "case reserve_costs c ks (taken @ [(k, n)]) (deltas @ [(c, k_Resource k, i64 (n - k_Amount k), v)]) s1 of
        Err s' \<Rightarrow> bystands d s1 s' | Ok (_, _, s') \<Rightarrow> bystands d s1 s'" by (rule Cons.IH)
    then show ?thesis using s1 bystands_trans by (auto simp: Inr x split: sum.splits)
  qed
qed simp

subsection \<open>The orders of a city\<close>

lemma handleBuildBuilding_same: "bystands d s (handleBuildBuilding D p r c bt t s)"
  by (auto simp: handleBuildBuilding_def Let_def bystands_def modes_submit_noop split: sum.split prod.split
      dest!: reserved_same [where d = d])

lemma handleBuildResolved_same: "bystands d s (handleBuildResolved p r c t i e s)"
  by (auto simp: handleBuildResolved_def Let_def bystands_def split: option.split prod.split)

lemma handleTrainUnit_same: "bystands d s (handleTrainUnit D p r c ut s)"
  by (auto simp: handleTrainUnit_def Let_def bystands_def modes_submit_noop split: sum.split prod.split option.split
      dest!: reserved_same [where d = d])

lemma handleTrainResolved_same: "bystands d s (handleTrainResolved p r c e s)"
  by (auto simp: handleTrainResolved_def Let_def bystands_def split: option.split prod.split)

lemma handleAdvanceEra_same: "bystands d s (handleAdvanceEra D p r c s)"
proof -
  have c: "reserve_costs cid ks [] [] s = Err s' \<Longrightarrow> bystands d s s'"
    "reserve_costs cid ks [] [] s = Ok (x, y, s') \<Longrightarrow> bystands d s s'" for cid ks s' x y
    using reserved_costs_same [of d s cid ks "[]" "[]"] by simp_all
  show ?thesis
    by (auto simp: handleAdvanceEra_def Let_def bystands_def modes_submit_noop split: sum.split prod.split option.split
        dest!: c)
qed

lemma handleAdvanceResolved_same: "bystands d s (handleAdvanceResolved p r c e s)"
proof -
  have g: "bystands d s (fold (\<lambda>k. give_back c k (f k)) ks s)" for c f ks
    by (rule bystands_fold) (simp add: bystands_def)
  show ?thesis using g
    by (auto simp: handleAdvanceResolved_def Let_def bystands_def split: option.split prod.split)
qed

lemma completeBuildings_same: "bystands d s (completeBuildings D now s)"
  unfolding completeBuildings_def
  by (rule bystands_fold)
    (simp add: complete_building_def submitBuildingComplete_def Let_def bystands_def modes_submit_noop split: option.split sum.split prod.split)

lemma completeProductions_same: "bystands d s (completeProductions D now s)"
  unfolding completeProductions_def
  by (simp, intro impI bystands_fold)
    (simp add: complete_production_def Let_def bystands_def modes_submit_noop split: option.split sum.split)

lemma completeAdvances_same: "bystands d s (completeAdvances D now s)"
  unfolding completeAdvances_def
  by (rule bystands_fold)
    (simp add: complete_advance_def submitAdvanceComplete_def Let_def bystands_def modes_submit_noop split: option.split prod.split)

lemma birth_refused_same: "bystands d s (handleBirthResolved c i t (Some e) s)"
  by (simp add: handleBirthResolved_def bystands_def split: option.split)

subsection \<open>A city joins the world\<close>

lemma modes_ground_state [simp]:
  "modes d (s\<lparr>st_concealCandidates := l\<rparr>) = modes d s" "modes d (s\<lparr>st_safeZones := z\<rparr>) = modes d s"
  "modes d (s\<lparr>st_world := w\<rparr>) = modes d s" "modes d (AddCity c s) = modes d s"
  by (rule modes_cong; simp add: AddCity_def)+

lemma last_AddCity [simp]: "st_lastMovementID (AddCity c s) = st_lastMovementID s"
  by (simp add: AddCity_def)

lemma excludeFromSafeZones_same: "bystands d s (excludeFromSafeZones a b x y s)"
proof -
  have m: "bystands d s (mark_inside a b x y cx cy s)" for cx cy s
    unfolding mark_inside_def by (rule bystands_fold) (simp add: bystands_def)
  have "bystands d (s\<lparr>st_safeZones := z\<rparr>) (fold (\<lambda>(cx, cy). mark_inside a b x y cx cy) cs (s\<lparr>st_safeZones := z\<rparr>))" for cs z
    by (rule bystands_fold) (simp add: m split: prod.split)
  then show ?thesis by (simp add: excludeFromSafeZones_def Let_def bystands_def split: prod.split)
qed

lemma introduce_city_ok:
  assumes "sim_ok d s"
  shows "keeps d 0 s (introduce_city x c s)"
proof -
  define w where "w = SetBlocked (st_world (AddCity c s)) (in_BlockedMinX x) (in_BlockedMinY x) (in_BlockedMaxX x) (in_BlockedMaxY x) True"
  define s1 where "s1 = excludeFromSafeZones (in_BlockedMinX x) (in_BlockedMinY x) (in_BlockedMaxX x) (in_BlockedMaxY x)
    ((AddCity c s)\<lparr>st_world := w\<rparr>)"
  have s1: "modes d s1 = modes d s" "st_lastMovementID s1 = st_lastMovementID s"
    using excludeFromSafeZones_same [of d "(AddCity c s)\<lparr>st_world := w\<rparr>"] by (simp_all add: s1_def bystands_def)
  from clearFootprint_ok [OF sim_ok_same [OF assms s1]] s1
  show ?thesis by (auto simp: introduce_city_def Let_def s1_def w_def keeps_def few_ids_def sim_ok_def)
qed

lemma applyTerritoryControl_same: "bystands d s (applyTerritoryControl c s)"
proof -
  have "modes d (ApplyTerritoryControl c s) = modes d s"
    by (rule modes_cong) (simp_all add: ApplyTerritoryControl_def)
  then show ?thesis
    by (simp add: applyTerritoryControl_def announce_territory_def bystands_def ApplyTerritoryControl_def split: option.split)
qed

subsection \<open>A unit joins the world\<close>

text \<open>The row that the transaction of a birth or of a foundation inserts.\<close>

definition DiskBorn :: "int64 \<Rightarrow> tile \<Rightarrow> disk \<Rightarrow> disk" where
  "DiskBorn i t d = d\<lparr>dk_rows := (dk_rows d)(i \<mapsto> (StatusIdle, t))\<rparr>"

text \<open>The database gives a new unit an id that no row, unit or guest ever had.\<close>

definition fresh :: "int64 \<Rightarrow> disk \<Rightarrow> sim \<Rightarrow> bool" where
  "fresh i d s \<longleftrightarrow> i \<noteq> 0 \<and> \<not> has_key (st_units s) i \<and> \<not> has_key (st_garrisonedIn s) i \<and> dk_rows (disk_of d s) i = None"

lemma AddUnit_sel [simp]:
  "st_units (AddUnit u s) = put_key (u_ID u) u (st_units s)" "st_movements (AddUnit u s) = st_movements s"
  "st_tasks (AddUnit u s) = st_tasks s" "st_garrisonedIn (AddUnit u s) = st_garrisonedIn s"
  "st_unitDirty (AddUnit u s) = st_unitDirty s" "st_entering (AddUnit u s) = st_entering s"
  "st_lastMovementID (AddUnit u s) = st_lastMovementID s"
  by (simp_all add: AddUnit_def indexUnit_def addToChunk_def Let_def split: prod.split)

lemma AddUnit_jobs [simp]: "sm_jobs (AddUnit u s) = sm_jobs s" for s :: sim
  by (simp add: AddUnit_def indexUnit_def addToChunk_def Let_def split: prod.split)

lemma AddUnit_ok:
  assumes ok: "sim_ok d s" and new: "fresh (u_ID u) d s" and idle: "u_Status u = StatusIdle"
  shows "sim_ok (DiskBorn (u_ID u) (unit_Tile u) (disk_of d s)) (AddUnit u (s\<lparr>sm_jobs := []\<rparr>))"
proof -
  let ?i = "u_ID u" and ?t = "unit_Tile u"
  let ?md = "(modes d s ?i)\<lparr>md_id := Some ?i, md_unit := Some (StatusIdle, ?t), md_row := Some (StatusIdle, ?t)\<rparr>"
  have none: "md_unit (modes d s ?i) = None" "md_host (modes d s ?i) = None"
    using new by (simp_all add: fresh_def modes_def has_key_def)
  have M: "modes (DiskBorn ?i ?t (disk_of d s)) (AddUnit u (s\<lparr>sm_jobs := []\<rparr>)) = (modes d s)(?i := ?md)"
    using idle by (intro ext) (simp add: modes_def disk_of_def DiskBorn_def)
  have "mode_ok ?i ?md"
    using sim_okD(1) [OF ok, of ?i] none new
    by (simp add: mode_ok_def task_ok_def row_ok_def row_fits_def settled_def fresh_def)
  moreover have "legs ((modes d s)(?i := ?md)) = legs (modes d s)" by (rule ext) (simp add: legs_def)
  ultimately show ?thesis using ok by (simp add: sim_ok_def M)
qed

text \<open>The birth answered is one that a city is waiting for.\<close>

definition IsBirthing :: "'a state_scheme \<Rightarrow> int64 \<Rightarrow> bool" where
  "IsBirthing s c =
     (case map_of (st_cities s) c of
        None \<Rightarrow> False
      | Some cy \<Rightarrow> (case ce_production (economyOf s (c_ID cy)) of
          None \<Rightarrow> False
        | Some p \<Rightarrow> pr_birthing p \<and> \<not> isl (Lookup_unit (p_UnitType (pr_Production p)))))"

lemma birth_done_ok:
  assumes ok: "sim_ok d s" and new: "fresh i d s" and b: "IsBirthing s c"
  shows "sim_ok (DiskBorn i t (disk_of d s)) (handleBirthResolved c i t None (s\<lparr>sm_jobs := []\<rparr>))"
proof -
  obtain cy p def where c: "map_of (st_cities s) c = Some cy" "ce_production (economyOf s (c_ID cy)) = Some p" "pr_birthing p"
    "Lookup_unit (p_UnitType (pr_Production p)) = Ok def"
    using b by (auto simp: IsBirthing_def isl_def split: option.splits) (metis sum.exhaust)
  define u where "u = \<lparr>u_ID = i, u_PlayerID = c_OwnerPlayerID cy, u_CityID = Some (c_ID cy),
    u_Type = p_UnitType (pr_Production p), u_X = tX t, u_Y = tY t, u_HP = ud_MaxHP def,
    u_MaxHP = ud_MaxHP def, u_Status = StatusIdle, u_Loot = 0\<rparr>"
  have u: "u_ID u = i" "unit_Tile u = t" "u_Status u = StatusIdle" by (simp_all add: u_def unit_Tile_def)
  have "economyOf (s\<lparr>sm_jobs := []\<rparr>) = economyOf s" by (simp add: economyOf_def fun_eq_iff)
  moreover have "\<not> has_key (st_units s) i" using new by (simp add: fresh_def)
  ultimately have "bystands (DiskBorn i t (disk_of d s)) (AddUnit u (s\<lparr>sm_jobs := []\<rparr>))
      (handleBirthResolved c i t None (s\<lparr>sm_jobs := []\<rparr>))"
    using c by (simp add: handleBirthResolved_def Let_def u_def [symmetric] bystands_def split: prod.split)
  moreover have "sim_ok (DiskBorn i t (disk_of d s)) (AddUnit u (s\<lparr>sm_jobs := []\<rparr>))"
    using AddUnit_ok [OF ok, of u] new u by simp
  ultimately show ?thesis by (rule bystands_ok)
qed

lemma introduce_unit_ok:
  assumes "sim_ok d s" and "fresh (u_ID u) d s" and "u_Status u = StatusIdle"
  shows "sim_ok (DiskBorn (u_ID u) (unit_Tile u) (disk_of d s)) (introduce_unit now u (s\<lparr>sm_jobs := []\<rparr>))"
  by (rule bystands_ok [OF _ AddUnit_ok [OF assms]]) (simp add: introduce_unit_def bystands_def Let_def)

end
