(* ===== verification/World_Run.thy ===== *)
theory World_Run
  imports Other_Orders
begin

section \<open>Runs of the live world\<close>

text \<open>
  The game loop as a sequence of events: the peaceful orders of the players (move, cancel, gather,
  garrison, ungarrison, build, train, advance) and their answers, the births and the new players,
  the phases of the tick that are not of combat, the presence, the walls of a new city, the flush,
  the clock, and the queue that writes what it holds. Proved for every such run: what a unit is doing
  in memory agrees with its movement, its task and its host, and what the disk holds once the queue is
  written agrees with the memory.

  Not among the events: the orders and the phase of combat, the claims of territory, and the losses of
  a write with the orders that compensate them (MovementPersistFailed, TaskPersistFailed,
  GarrisonExitFailed, UnitsFlushPersistFailed); a flush happens only while no closing that was lost
  waits to be written again. These are left out because the invariant does not hold through all of
  them: handleGarrisonExitFailed leaves the task of a unit that it puts back in the garrison,
  handleTaskPersistFailed may write IDLE over a later state, and the attack branch of ResolveCombat
  lets a unit whose entry in a garrison was asked for after its engagement go on fighting.
\<close>

subsection \<open>Events that do not concern the units\<close>

lemma modes_submit_other [simp]:
  "modes d (submit_job n k (PersistCityPresence c st at) f s) = modes d s"
  "modes d (submit_job n k (FlushStocks ds) f s) = modes d s"
  by (rule ext; simp add: modes_def; simp add: submit_job_def)+

lemma fold_same:
  assumes "\<And>x s. modes d (f x s) = modes d s \<and> st_lastMovementID (f x s) = st_lastMovementID s"
  shows "modes d (fold f xs s) = modes d s \<and> st_lastMovementID (fold f xs s) = st_lastMovementID s"
  using assms by (induction xs arbitrary: s) simp_all

lemma modes_cities [simp]:
  "modes d (s\<lparr>st_presenceDirty := l\<rparr>) = modes d s"
  "modes d (s\<lparr>sm_sessions := ss\<rparr>) = modes d s" "modes d (s\<lparr>sm_earlyDisconnects := e\<rparr>) = modes d s"
  "modes d (s\<lparr>sm_disconnectedAt := m\<rparr>) = modes d s" "modes d (s\<lparr>sm_now := n\<rparr>) = modes d s"
  "modes d (s\<lparr>st_tick := tk\<rparr>) = modes d s"
  by (rule modes_cong; simp)+

lemma applyPresence_same: "modes d (applyPresence D i st now s) = modes d s \<and>
   st_lastMovementID (applyPresence D i st now s) = st_lastMovementID s"
  by (simp add: applyPresence_def broadcastCity_def submitPresence_def Let_def split: option.split prod.split)

lemma setPresence_same: "modes d (setPresence D p st s) = modes d s \<and>
   st_lastMovementID (setPresence D p st s) = st_lastMovementID s"
  by (simp add: setPresence_def applyPresence_same split: option.split)

lemma presence_same:
  "modes d (handlePlayerConnected D p sid s) = modes d s \<and> st_lastMovementID (handlePlayerConnected D p sid s) = st_lastMovementID s"
  "modes d (handlePlayerDisconnected p sid s) = modes d s \<and> st_lastMovementID (handlePlayerDisconnected p sid s) = st_lastMovementID s"
  "modes d (engageProtection D now s) = modes d s \<and> st_lastMovementID (engageProtection D now s) = st_lastMovementID s"
proof -
  show "modes d (handlePlayerConnected D p sid s) = modes d s \<and> st_lastMovementID (handlePlayerConnected D p sid s) = st_lastMovementID s"
    by (simp add: handlePlayerConnected_def setPresence_same)
  show "modes d (handlePlayerDisconnected p sid s) = modes d s \<and> st_lastMovementID (handlePlayerDisconnected p sid s) = st_lastMovementID s"
    by (simp add: handlePlayerDisconnected_def Let_def)
  show "modes d (engageProtection D now s) = modes d s \<and> st_lastMovementID (engageProtection D now s) = st_lastMovementID s"
    unfolding engageProtection_def by (rule fold_same) (simp add: engage_city_def applyPresence_same split: option.split)
qed

lemma fold_grace_same: "modes d (fst (fold (grace_step D now) es (s, cs))) = modes d s \<and>
    st_lastMovementID (fst (fold (grace_step D now) es (s, cs))) = st_lastMovementID s"
proof (induction es arbitrary: s cs)
  case (Cons e es)
  obtain s1 cs1 where e: "grace_step D now e (s, cs) = (s1, cs1)" by fastforce
  then have "modes d s1 = modes d s \<and> st_lastMovementID s1 = st_lastMovementID s"
    by (auto simp: grace_step_def split: prod.splits if_splits)
  with Cons.IH[of s1 cs1] e show ?case by simp
qed simp

lemma degradeAbsent_same: "modes d (degradeAbsent D now s) = modes d s \<and>
    st_lastMovementID (degradeAbsent D now s) = st_lastMovementID s"
proof (cases "fold (grace_step D now) (AList.clearjunk (sm_disconnectedAt s)) (s, [])")
  case (Pair s1 cs)
  have "modes d s1 = modes d s \<and> st_lastMovementID s1 = st_lastMovementID s"
    using fold_grace_same[of d D now "AList.clearjunk (sm_disconnectedAt s)" s "[]"] Pair by simp
  with fold_same[of d "\<lambda>c. applyPresence D (c_ID c) PresenceOfflinePending now" "sort_key c_ID cs" s1] applyPresence_same
  show ?thesis by (simp add: degradeAbsent_def Pair)
qed

lemma flushPresence_same: "modes d (flushPresence s) = modes d s \<and> st_lastMovementID (flushPresence s) = st_lastMovementID s"
proof -
  let ?f = "\<lambda>i s. case map_of (st_cities s) i of None \<Rightarrow> s | Some c \<Rightarrow> submitPresence c (sm_now s) s"
  have "modes d (fold ?f xs s1) = modes d s1 \<and> st_lastMovementID (fold ?f xs s1) = st_lastMovementID s1" for xs s1
    by (rule fold_same) (simp add: submitPresence_def split: option.split)
  then show ?thesis by (simp add: flushPresence_def)
qed

lemma collect_delta_same:
  "modes d (fst (fold (collect_delta c) rs (s, ds))) = modes d s \<and>
   st_lastMovementID (fst (fold (collect_delta c) rs (s, ds))) = st_lastMovementID s"
proof (induction rs arbitrary: s ds)
  case (Cons r rs)
  obtain s1 ds1 where e: "collect_delta c r (s, ds) = (s1, ds1)" by fastforce
  then have "modes d s1 = modes d s \<and> st_lastMovementID s1 = st_lastMovementID s"
    by (auto simp: collect_delta_def Let_def split: if_splits)
  with Cons.IH[of s1 ds1] e show ?case by simp
qed simp

lemma flush_city_same: "modes d (flush_city c s) = modes d s \<and> st_lastMovementID (flush_city c s) = st_lastMovementID s"
proof (cases "fold (collect_delta c) Resources (s, [])")
  case (Pair s1 ds)
  with collect_delta_same[of d c Resources s "[]"] show ?thesis by (simp add: flush_city_def Pair)
qed

lemma flushStocks_same: "modes d (flushStocks D s) = modes d s \<and> st_lastMovementID (flushStocks D s) = st_lastMovementID s"
  using fold_same[of d flush_city, OF flush_city_same] by (simp add: flushStocks_def Let_def)

text \<open>The part of a flush that writes presence, closings, stocks and units.\<close>

definition flush_world :: "deps \<Rightarrow> sim \<Rightarrow> int \<times> sim" where
  "flush_world D s = flushUnits D (flushStocks D (flushFinishes (flushPresence s)))"

lemma flush_world_ok:
  assumes ok: "sim_ok d s" and none: "st_pendingFinishes s = []" and parts: "dp_Partitions D < 4294967296"
  shows "keeps d 0 s (snd (flush_world D s))"
proof -
  have "st_pendingFinishes (fold (\<lambda>i s. case map_of (st_cities s) i of None \<Rightarrow> s | Some c \<Rightarrow> submitPresence c (sm_now s) s) xs s1)
      = st_pendingFinishes s1" for xs and s1 :: sim
    by (induction xs arbitrary: s1) (simp_all add: submitPresence_def submit_job_def split: option.split)
  then have "flushFinishes (flushPresence s) = flushPresence s" using none by (simp add: flushFinishes_def flushPresence_def)
  then have e: "snd (flush_world D s) = snd (flushUnits D (flushStocks D (flushPresence s)))" by (simp add: flush_world_def)
  have same: "modes d (flushStocks D (flushPresence s)) = modes d s"
    "st_lastMovementID (flushStocks D (flushPresence s)) = st_lastMovementID s"
    using flushStocks_same flushPresence_same by simp_all
  have "keeps d 0 (flushStocks D (flushPresence s)) (snd (flush_world D s))"
    unfolding e by (rule flushUnits_ok[OF sim_ok_same[OF ok same] parts])
  from keeps_trans[OF keeps_same[OF ok order_refl same] this] show ?thesis by simp
qed

subsection \<open>Events\<close>

datatype world_event =
  Move_order uuid string int64 tile
| Cancel_order uuid string int64
| Gather_order uuid string int64 tile
| Garrison_order uuid string int64 int64
| Ungarrison_order uuid string int64
| Entry_done uuid string int64 int64
| Entry_refused uuid string int64 int64 code
| Build_order uuid string int64 building_type tile
| Build_answer uuid string int64 tile int64 "code option"
| Train_order uuid string int64 unit_type
| Train_answer uuid string int64 "code option"
| Advance_order uuid string int64
| Advance_answer uuid string int64 "code option"
| Birth_done int64 int64 tile
| Birth_refused int64 int64 tile code
| New_city introduction city
| New_unit int64 unit_rec
| New_control control
| Buildings_phase int64
| Productions_phase int64
| Advances_phase int64
| Connect uuid uuid
| Disconnect uuid uuid
| Movements_phase int64
| Tasks_phase int64
| Concealment_phase
| Exits_phase
| Regrowth_phase int64
| Absent_phase instant
| Protection_phase instant
| Walls_raised world footprint int64
| Flush_phase
| Clock_reads instant
| Queue_writes

text \<open>
  An entry in a garrison and a birth are written by their transaction, after what the queue held: the
  job in the queue writes nothing by itself (apply_durable), and its answer brings the row (DiskEnter,
  DiskBorn). A new player is its handler cut in its parts, handleIntroducePlayer being the city
  (New_city), the units (New_unit), whose rows the foundation has written before, and the control of
  its territory (New_control).
\<close>

fun happen :: "deps \<Rightarrow> world_event \<Rightarrow> disk \<times> sim \<Rightarrow> disk \<times> sim" where
  "happen D (Move_order p r i t) (d, s) = (d, handleMoveUnit D p r i t s)"
| "happen D (Cancel_order p r i) (d, s) = (d, handleCancelMovement D p r i s)"
| "happen D (Gather_order p r i t) (d, s) = (d, handleGather D p r i t s)"
| "happen D (Garrison_order p r i c) (d, s) = (d, handleGarrisonUnit D p r i c s)"
| "happen D (Ungarrison_order p r i) (d, s) = (d, handleUngarrisonUnit D p r i s)"
| "happen D (Entry_done p r i c) (d, s) =
     (DiskEnter i (disk_of d s), handleGarrisonEntryResolved p r i c None (s\<lparr>sm_jobs := []\<rparr>))"
| "happen D (Entry_refused p r i c e) (d, s) = (d, handleGarrisonEntryResolved p r i c (Some e) s)"
| "happen D (Build_order p r c bt t) (d, s) = (d, handleBuildBuilding D p r c bt t s)"
| "happen D (Build_answer p r c t b e) (d, s) = (d, handleBuildResolved p r c t b e s)"
| "happen D (Train_order p r c ut) (d, s) = (d, handleTrainUnit D p r c ut s)"
| "happen D (Train_answer p r c e) (d, s) = (d, handleTrainResolved p r c e s)"
| "happen D (Advance_order p r c) (d, s) = (d, handleAdvanceEra D p r c s)"
| "happen D (Advance_answer p r c e) (d, s) = (d, handleAdvanceResolved p r c e s)"
| "happen D (Birth_done c i t) (d, s) =
     (DiskBorn i t (disk_of d s), handleBirthResolved c i t None (s\<lparr>sm_jobs := []\<rparr>))"
| "happen D (Birth_refused c i t e) (d, s) = (d, handleBirthResolved c i t (Some e) s)"
| "happen D (New_city x c) (d, s) = (d, introduce_city x c s)"
| "happen D (New_unit now u) (d, s) =
     (DiskBorn (u_ID u) (unit_Tile u) (disk_of d s), introduce_unit now u (s\<lparr>sm_jobs := []\<rparr>))"
| "happen D (New_control c) (d, s) = (d, applyTerritoryControl c s)"
| "happen D (Buildings_phase now) (d, s) = (d, completeBuildings D now s)"
| "happen D (Productions_phase now) (d, s) = (d, completeProductions D now s)"
| "happen D (Advances_phase now) (d, s) = (d, completeAdvances D now s)"
| "happen D (Connect p sid) (d, s) = (d, handlePlayerConnected D p sid s)"
| "happen D (Disconnect p sid) (d, s) = (d, handlePlayerDisconnected p sid s)"
| "happen D (Movements_phase now) (d, s) = (d, AdvanceMovements D now s)"
| "happen D (Tasks_phase now) (d, s) = (d, advanceTasks D now s)"
| "happen D Concealment_phase (d, s) = (d, evaluateConcealment s)"
| "happen D Exits_phase (d, s) = (d, retryPendingExits D s)"
| "happen D (Regrowth_phase now) (d, s) = (d, regrowDeposits now s)"
| "happen D (Absent_phase now) (d, s) = (d, degradeAbsent D now s)"
| "happen D (Protection_phase now) (d, s) = (d, engageProtection D now s)"
| "happen D (Walls_raised w f now) (d, s) = (d, clearFootprint f now (s\<lparr>st_world := w\<rparr>))"
| "happen D Flush_phase (d, s) = (d, snd (flush_world D s))"
| "happen D (Clock_reads now) (d, s) = (d, s\<lparr>sm_now := now\<rparr>)"
| "happen D Queue_writes (d, s) = (disk_of d s, s\<lparr>sm_jobs := []\<rparr>)"

text \<open>
  When an event may happen: the entry answered is one that was asked for, the birth answered is one
  that a city waits for, a new unit is idle, under an id that the database never gave before, no
  closing has been lost, and the 64 bits of the movement ids are not used up.
\<close>

fun may_happen :: "world_event \<Rightarrow> disk \<Rightarrow> sim \<Rightarrow> bool" where
  "may_happen (Entry_done p r i c) d s = IsEntering s i"
| "may_happen (Birth_done c i t) d s = (fresh i d s \<and> IsBirthing s c)"
| "may_happen (New_unit now u) d s = (fresh (u_ID u) d s \<and> u_Status u = StatusIdle)"
| "may_happen Flush_phase d s = (st_pendingFinishes s = [])"
| "may_happen _ d s = id_room (1 + int (card (dom (map_of (st_movements s)))) + int (card (dom (map_of (st_tasks s))))) s"

inductive world_run :: "deps \<Rightarrow> disk \<times> sim \<Rightarrow> disk \<times> sim \<Rightarrow> bool" for D st\<^sub>0 where
  run_start: "world_run D st\<^sub>0 st\<^sub>0"
| run_event: "world_run D st\<^sub>0 (d, s) \<Longrightarrow> may_happen e d s \<Longrightarrow> world_run D st\<^sub>0 (happen D e (d, s))"

definition configured :: "deps \<Rightarrow> bool" where
  "configured D \<longleftrightarrow> dp_Economy D \<and> dp_Garrisons D \<and> dp_Partitions D < 4294967296"

lemma id_room_less: "id_room k s \<Longrightarrow> n \<le> k \<Longrightarrow> id_room n s"
  by (simp add: id_room_def)

lemma happen_ok:
  assumes D: "configured D" and ok: "sim_ok d s" and may: "may_happen e d s" and e: "happen D e (d, s) = (d', s')"
  shows "sim_ok d' s'"
proof -
  have c: "dp_Economy D" "dp_Garrisons D" "dp_Partitions D < 4294967296" using D by (simp_all add: configured_def)
  let ?m = "int (card (dom (map_of (st_movements s))))" and ?t = "int (card (dom (map_of (st_tasks s))))"
  have room: "id_room 1 s" "id_room ?m s" "id_room ?t s" if "id_room (1 + ?m + ?t) s"
    using that by (auto intro: id_room_less)
  have world: "sim_ok d (s\<lparr>st_world := w\<rparr>)" for w by (rule sim_ok_same[OF ok]) simp_all
  show ?thesis
  proof (cases e)
    case (Entry_done p r i c)
    have "md_entering (modes (disk_of d s) (s\<lparr>sm_jobs := []\<rparr>) i)"
      using may Entry_done by (simp add: modes_written mode_fields IsEntering_def)
    from keeps_ok[OF entry_done_ok[OF sim_ok_written[THEN iffD2, OF ok] _ this]] e Entry_done show ?thesis by auto
  next
    case (Birth_done c i t)
    with e may birth_done_ok[OF ok, of i c t] show ?thesis by auto
  next
    case (New_unit now u)
    with e may introduce_unit_ok[OF ok, of u now] show ?thesis by auto
  next
    case (New_city x c)
    with e keeps_ok[OF introduce_city_ok[OF ok]] show ?thesis by auto
  next
    case Flush_phase
    with e may keeps_ok[OF flush_world_ok[OF ok _ c(3)]] show ?thesis by auto
  next
    case Queue_writes
    with e ok show ?thesis by (auto simp: sim_ok_written)
  next
    case (Walls_raised w f now)
    with e keeps_ok[OF clearFootprint_ok[OF world]] show ?thesis by auto
  next
    case (Move_order p r i t)
    with e may room order_step_ok[OF handleMoveUnit_ok[OF ok]] show ?thesis by auto
  next
    case (Gather_order p r i t)
    with e may room order_step_ok[OF handleGather_ok[OF ok]] show ?thesis by auto
  next
    case (Movements_phase now)
    with e may room keeps_ok[OF AdvanceMovements_ok[OF c(1) ok]] show ?thesis by auto
  next
    case (Tasks_phase now)
    with e may room keeps_ok[OF advanceTasks_ok[OF c(1) ok]] show ?thesis by auto
  qed (use e ok c order_step_ok[OF handleCancelMovement_ok[OF ok]] order_step_ok[OF handleGarrisonUnit_ok[OF ok]]
        order_step_ok[OF handleUngarrisonUnit_ok[OF ok]] order_step_ok[OF entry_refused_ok[OF ok]]
        keeps_ok[OF evaluateConcealment_ok[OF ok]] keeps_ok[OF retryPendingExits_ok[OF _ ok]] keeps_ok[OF regrowDeposits_ok[OF ok]]
        sim_ok_same[OF ok conjunct1 conjunct2, OF presence_same(1) presence_same(1)]
        sim_ok_same[OF ok conjunct1 conjunct2, OF presence_same(2) presence_same(2)]
        sim_ok_same[OF ok conjunct1 conjunct2, OF presence_same(3) presence_same(3)]
        sim_ok_same[OF ok conjunct1 conjunct2, OF degradeAbsent_same degradeAbsent_same]
        sim_ok_same[OF ok, of "s\<lparr>sm_now := _\<rparr>"]
        bystands_ok[OF handleBuildBuilding_same ok] bystands_ok[OF handleBuildResolved_same ok]
        bystands_ok[OF handleTrainUnit_same ok] bystands_ok[OF handleTrainResolved_same ok]
        bystands_ok[OF handleAdvanceEra_same ok] bystands_ok[OF handleAdvanceResolved_same ok]
        bystands_ok[OF birth_refused_same ok] bystands_ok[OF completeBuildings_same ok]
        bystands_ok[OF applyTerritoryControl_same ok] bystands_ok[OF completeProductions_same ok] bystands_ok[OF completeAdvances_same ok] in \<open>auto\<close>)
qed

lemma world_run_ok:
  assumes "configured D" "world_run D (d\<^sub>0, s\<^sub>0) (d, s)" "sim_ok d\<^sub>0 s\<^sub>0"
  shows "sim_ok d s"
proof -
  have "sim_ok (fst st) (snd st)" if "world_run D (d\<^sub>0, s\<^sub>0) st" for st
    using that
  proof (induction rule: world_run.induct)
    case run_start
    with assms(3) show ?case by simp
  next
    case (run_event d s e)
    then show ?case using happen_ok[OF assms(1), of d s e] by (cases "happen D e (d, s)") simp
  qed
  from this[OF assms(2)] show ?thesis by simp
qed

end
