(* ===== verification/Boot.thy ===== *)
theory Boot
  imports World_Run
begin

section \<open>Restarting from the disk\<close>

text \<open>
  The recovery part of cmd/server/main.go: the world is rebuilt from the rows of the database
  (SetMovementIDFloor, SetGarrisons, the tasks of SetEconomy, Hydrate), the walls block their tiles
  again, ClearFootprints stops and moves away what they leave inside, ReconcileTasks ends the tasks
  that cannot go on, and FinishRecoveredMovements and FinishRecoveredTasks write what was decided.
  Proved: from the rows that a run of World_Run leaves, the rebuilt world satisfies the invariant of
  Sim_Invariant with the disk so written. A row whose arrival or target disagrees with its polyline is
  repaired in memory (repaired of Recovery), and nothing is asked of the rows in that respect.
\<close>

record boot_rows =
  br_units :: "unit_rec list"
  br_cities :: "city list"
  br_moves :: "movement list"
  br_tasks :: "gtask list"
  br_hosts :: "(int64, int64) gomap"
  br_maxID :: int64

definition raise_walls :: "city list \<Rightarrow> world \<Rightarrow> world" where
  "raise_walls cs w = fold (\<lambda>c w. let (a, b, x, y) = UrbanBounds c in SetBlocked w a b x y True) cs w"

definition FinishRecoveredMovements :: "finish list \<Rightarrow> disk \<Rightarrow> disk" where
  "FinishRecoveredMovements fs d = fold DiskMovementFinish fs d"

definition FinishRecoveredTasks :: "task_write list \<Rightarrow> disk \<Rightarrow> disk" where
  "FinishRecoveredTasks ws d = fold DiskTask ws d"

text \<open>The clock is read before Hydrate, before ClearFootprints and when the simulation starts.\<close>

definition boot_state :: "world \<Rightarrow> boot_rows \<Rightarrow> instant \<Rightarrow> sim" where
  "boot_state w b now =
     fold (\<lambda>t s. snd (setTask t s)) (br_tasks b)
       (SetGarrisons (br_hosts b) (SetMovementIDFloor (br_maxID b) (New_simulation (NewState w) now)))"

definition boot :: "world \<Rightarrow> boot_rows \<Rightarrow> int64 \<Rightarrow> int64 \<Rightarrow> instant \<Rightarrow> disk \<Rightarrow> disk \<times> sim" where
  "boot w b ms1 ms2 now d =
     (let (s1, fin) = Hydrate (boot_state w b now) (br_units b) (br_cities b) (br_moves b) ms1;
          s1 = s1\<lparr>st_world := raise_walls (br_cities b) (st_world s1)\<rparr>;
          (fin', s2) = ClearFootprints (br_cities b) ms2 s1;
          (writes, s3) = ReconcileTasks s2
      in (FinishRecoveredTasks writes (FinishRecoveredMovements (fin @ fin') d), s3))"

subsection \<open>The rows of a run\<close>

text \<open>What the tables of the units, the movements and the tasks say together.\<close>

definition disk_ok :: "disk \<Rightarrow> int64 \<Rightarrow> bool" where
  "disk_ok d hi \<longleftrightarrow> legs_ok (dk_legs d) hi \<and>
     (\<forall>i m. dk_legs d i = Some m \<longrightarrow> m_UnitID m = i) \<and>
     (\<forall>i. case dk_rows d i of
        None \<Rightarrow> dk_legs d i = None \<and> dk_tasks d i = None
      | Some (st, t) \<Rightarrow>
          if st = StatusDead then dk_legs d i = None \<and> dk_tasks d i = None
          else i \<noteq> 0 \<and> settled st = st \<and> (st = StatusMoving \<longleftrightarrow> dk_legs d i \<noteq> None) \<and> task_ok i st (dk_tasks d i))"

text \<open>The rows that the queries read, with the ids of the units distinct, and the hosts of the garrisoned ones.\<close>

definition reads :: "disk \<Rightarrow> boot_rows \<Rightarrow> bool" where
  "reads d b \<longleftrightarrow>
     distinct (map u_ID (br_units b)) \<and>
     (\<forall>i st t. (\<exists>u\<in>set (br_units b). u_ID u = i \<and> u_Status u = st \<and> unit_Tile u = t) \<longleftrightarrow>
        dk_rows d i = Some (st, t) \<and> st \<noteq> StatusDead) \<and>
     distinct (map m_UnitID (br_moves b)) \<and>
     (\<forall>i m. dk_legs d i = Some m \<longleftrightarrow> m \<in> set (br_moves b) \<and> m_UnitID m = i) \<and>
     (\<forall>m\<in>set (br_moves b). m_ID m \<le> br_maxID b) \<and> 0 \<le> br_maxID b \<and>
     distinct (map t_UnitID (br_tasks b)) \<and>
     (\<forall>i t. dk_tasks d i = Some t \<longleftrightarrow> t \<in> set (br_tasks b) \<and> t_UnitID t = i) \<and>
     (\<forall>i. has_key (br_hosts b) i \<longleftrightarrow> (\<exists>t. dk_rows d i = Some (StatusGarrisoned, t)))"

lemma legs_ok_repaired: "legs_ok (\<lambda>i. map_option repaired (L i)) hi = legs_ok L hi"
proof
  assume l: "legs_ok (\<lambda>i. map_option repaired (L i)) hi"
  show "legs_ok L hi"
    unfolding legs_ok_def
  proof (intro conjI allI impI)
    fix i m assume "L i = Some m"
    then have "map_option repaired (L i) = Some (repaired m)" by simp
    from legs_okD(1,2)[OF l this] show "0 < m_ID m" "m_ID m \<le> hi" by simp_all
  next
    fix i j m n assume "L i = Some m" "L j = Some n" "m_ID m = m_ID n"
    then have "map_option repaired (L i) = Some (repaired m)" "map_option repaired (L j) = Some (repaired n)"
      "m_ID (repaired m) = m_ID (repaired n)" by simp_all
    from legs_okD(3)[OF l this] show "i = j" .
  qed
qed (auto simp: legs_ok_def)

lemma sim_ok_disk:
  assumes "sim_ok d s"
  shows "disk_ok (disk_of d s) (st_lastMovementID s)"
proof -
  have sel: "dk_rows (disk_of d s) i = md_row (modes d s i)" "dk_legs (disk_of d s) i = None \<longleftrightarrow> md_leg (modes d s i) = None"
    "dk_tasks (disk_of d s) i = md_job (modes d s i)" for i
    by (simp_all add: modes_def)
  have "legs (modes d s) = (\<lambda>i. map_option repaired (dk_legs (disk_of d s) i))" by (rule ext) (simp add: legs_def modes_def)
  with sim_okD(2)[OF assms] have legs: "legs_ok (dk_legs (disk_of d s)) (st_lastMovementID s)" by (simp add: legs_ok_repaired)
  have "m_UnitID m = i \<and> i \<noteq> 0" if "dk_legs (disk_of d s) i = Some m" for i m
  proof -
    have "md_leg (modes d s i) = Some (repaired m)" using that by (simp add: modes_def)
    with sim_okD(1)[OF assms, of i] have "m_UnitID (repaired m) = i \<and> i \<noteq> 0" by (auto simp: mode_ok_def split: option.splits)
    then show ?thesis by simp
  qed
  moreover have "case dk_rows (disk_of d s) i of
        None \<Rightarrow> dk_legs (disk_of d s) i = None \<and> dk_tasks (disk_of d s) i = None
      | Some (st, t) \<Rightarrow>
          if st = StatusDead then dk_legs (disk_of d s) i = None \<and> dk_tasks (disk_of d s) i = None
          else i \<noteq> 0 \<and> settled st = st \<and> (st = StatusMoving \<longleftrightarrow> dk_legs (disk_of d s) i \<noteq> None) \<and>
            task_ok i st (dk_tasks (disk_of d s) i)" for i
  proof (cases "md_unit (modes d s i)")
    case None
    with sim_okD(1)[OF assms, of i] show ?thesis
      by (auto simp: mode_ok_def sel split: option.split)
  next
    case (Some q)
    then obtain st t where u: "md_unit (modes d s i) = Some (st, t)" by (cases q) auto
    note md = mode_okD[OF sim_okD(1)[OF assms, of i] u]
    obtain old p where row: "md_row (modes d s i) = Some (old, p)" "row_fits (modes d s i) old"
      using md(9) by (auto simp: row_ok_def)
    have "task_ok i old (md_job (modes d s i))"
      using md(4,6,10,11) row(2) by (auto simp: task_ok_def row_fits_def IsLeg_def split: option.splits)
    with row md(1) show ?thesis by (auto simp: sel row_fits_def)
  qed
  ultimately show ?thesis using legs by (simp add: disk_ok_def)
qed

subsection \<open>Modes while the world is rebuilt\<close>

text \<open>
  A rebuilt unit is as in a run, but a task may be left on a leg that has ended: its row in the
  table of tasks is gone and ReconcileTasks will drop it.
\<close>

definition boot_task :: "int64 \<Rightarrow> unit_status \<Rightarrow> gtask option \<Rightarrow> gtask option \<Rightarrow> bool" where
  "boot_task i st k job \<longleftrightarrow>
     task_ok i st k \<and> job = k \<or>
     (\<exists>t. k = Some t \<and> t_UnitID t = i \<and> IsLeg (t_Phase t) \<and> st = StatusIdle \<and> job = None)"

definition boot_mode :: "int64 \<Rightarrow> unit_mode \<Rightarrow> bool" where
  "boot_mode i md \<longleftrightarrow>
     (case md_unit md of
        None \<Rightarrow> md_move md = None \<and> md_task md = None \<and> md_leg md = None \<and> md_job md = None \<and> \<not> md_entering md \<and>
          (\<forall>st t. md_row md = Some (st, t) \<longrightarrow> st = StatusDead)
      | Some (st, t) \<Rightarrow>
          i \<noteq> 0 \<and> md_id md = Some i \<and> st \<noteq> StatusDead \<and>
          (st = StatusMoving \<longleftrightarrow> md_move md \<noteq> None) \<and> (\<forall>m. md_move md = Some m \<longrightarrow> m_UnitID m = i) \<and>
          boot_task i st (md_task md) (md_job md) \<and>
          (st = StatusGarrisoned \<longleftrightarrow> md_host md \<noteq> None) \<and> \<not> md_entering md \<and>
          row_ok md st t \<and> md_leg md = md_move md)"

text \<open>A unit whose active movement has not been taken up yet.\<close>

definition raw_mode :: "movement \<Rightarrow> int64 \<Rightarrow> unit_mode \<Rightarrow> bool" where
  "raw_mode m i md \<longleftrightarrow>
     (\<exists>t p. md_unit md = Some (StatusMoving, t) \<and> i \<noteq> 0 \<and> md_id md = Some i \<and> m_UnitID m = i \<and> md_move md = None \<and>
        task_ok i StatusMoving (md_task md) \<and> md_job md = md_task md \<and> md_host md = None \<and> \<not> md_entering md \<and>
        md_row md = Some (StatusMoving, p) \<and> md_leg md = Some (repaired m))"

definition boot_ok :: "movement list \<Rightarrow> (int64 \<Rightarrow> unit_mode) \<Rightarrow> int64 \<Rightarrow> bool" where
  "boot_ok ms M hi \<longleftrightarrow>
     legs_ok (legs M) hi \<and> 0 \<le> hi \<and> distinct (map m_UnitID ms) \<and>
     (\<forall>i. if i \<in> m_UnitID ` set ms then \<exists>m\<in>set ms. raw_mode m i (M i) else boot_mode i (M i))"

lemma boot_okD:
  assumes "boot_ok ms M hi"
  shows "legs_ok (legs M) hi" "0 \<le> hi" "distinct (map m_UnitID ms)" "m \<in> set ms \<Longrightarrow> raw_mode m (m_UnitID m) (M (m_UnitID m))"
    "i \<notin> m_UnitID ` set ms \<Longrightarrow> boot_mode i (M i)"
proof -
  show "legs_ok (legs M) hi" "0 \<le> hi" "distinct (map m_UnitID ms)" using assms by (simp_all add: boot_ok_def)
  show "boot_mode i (M i)" if "i \<notin> m_UnitID ` set ms" using assms that by (simp add: boot_ok_def)
  show "raw_mode m (m_UnitID m) (M (m_UnitID m))" if "m \<in> set ms"
  proof -
    have "m_UnitID m \<in> m_UnitID ` set ms" using that by simp
    with assms obtain n where n: "n \<in> set ms" "raw_mode n (m_UnitID m) (M (m_UnitID m))" unfolding boot_ok_def by metis
    then have "m_UnitID n = m_UnitID m" by (auto simp: raw_mode_def)
    then have "n = m" using assms n(1) that by (simp add: boot_ok_def distinct_map inj_on_def)
    with n(2) show ?thesis by simp
  qed
qed

text \<open>Taking up the first movement of the list.\<close>

lemma boot_ok_step:
  assumes ok: "boot_ok (m # ms) M hi" and e: "\<And>j. j \<noteq> m_UnitID m \<Longrightarrow> M' j = M j" and b: "boot_mode (m_UnitID m) (M' (m_UnitID m))"
    and leg: "md_leg (M' (m_UnitID m)) = None \<or> md_leg (M' (m_UnitID m)) = md_leg (M (m_UnitID m))"
  shows "boot_ok ms M' hi"
proof -
  have l: "legs M' = (legs M)(m_UnitID m := md_leg (M' (m_UnitID m)))" using e by (intro ext) (simp add: legs_def)
  have "legs_ok ((legs M)(m_UnitID m := md_leg (M' (m_UnitID m)))) hi"
    using leg boot_okD(1)[OF ok] legs_ok_none[OF boot_okD(1)[OF ok]] by (auto simp: legs_def fun_upd_idem)
  moreover have "if i \<in> m_UnitID ` set ms then \<exists>m\<in>set ms. raw_mode m i (M' i) else boot_mode i (M' i)" for i
  proof (cases "i = m_UnitID m")
    case True
    then have "i \<notin> m_UnitID ` set ms" using boot_okD(3)[OF ok] by simp
    with b True show ?thesis by simp
  next
    case False
    with boot_okD(4)[OF ok] boot_okD(5)[OF ok, of i] e[OF False] show ?thesis by auto
  qed
  ultimately show ?thesis using boot_okD(2,3)[OF ok] l by (simp add: boot_ok_def)
qed

lemma modes_FloorID [simp]: "modes d (SetMovementIDFloor n s) = modes d s"
  by (rule modes_cong) (simp_all add: SetMovementIDFloor_def)

lemma modes_recovered_finish:
  assumes "sm_jobs s = []"
  shows "modes (DiskMovementFinish f d) s =
     (\<lambda>j. if j = mf_UnitID f \<and> j \<noteq> 0
          then (close_leg (mf_MovementID f) (modes d s j))\<lparr>md_row := flush_row StatusIdle (mf_At f) (md_row (modes d s j)), md_job := None\<rparr>
          else close_leg (mf_MovementID f) (modes d s j))"
  by (rule ext) (simp add: modes_def disk_of_def assms DiskMovementFinish_def flush_row_def close_leg_def Let_def)

subsection \<open>Hydrate\<close>

lemma FinishRecovered_snoc [simp]:
  "FinishRecoveredMovements (fs @ [f]) d = DiskMovementFinish f (FinishRecoveredMovements fs d)"
  "FinishRecoveredTasks (ws @ [w]) d = DiskTask w (FinishRecoveredTasks ws d)"
  by (simp_all add: FinishRecoveredMovements_def FinishRecoveredTasks_def)

definition same_ids :: "sim \<Rightarrow> sim \<Rightarrow> bool" where
  "same_ids s s' \<longleftrightarrow> st_unitIDs s' = st_unitIDs s \<and> dom (map_of (st_units s')) = dom (map_of (st_units s)) \<and>
     sm_jobs s' = sm_jobs s \<and> st_lastMovementID s' = st_lastMovementID s \<and> st_world s' = st_world s"

lemma same_ids_refl [simp]: "same_ids s s"
  by (simp add: same_ids_def)

lemma same_ids_trans: "same_ids s s1 \<Longrightarrow> same_ids s1 s2 \<Longrightarrow> same_ids s s2"
  by (simp add: same_ids_def)

lemma dom_upd_unit [simp]: "dom (map_of (st_units (upd_unit i f s))) = dom (map_of (st_units s))"
  by (auto simp: upd_unit_def split: option.split)

lemma same_ids_set_status: "same_ids s (set_status i st s)"
  by (simp add: same_ids_def set_status_def)

lemma same_ids_MoveUnitTo: "same_ids s (snd (MoveUnitTo i t s))"
  by (subst MoveUnitTo_sim) (simp add: same_ids_def)

lemma same_ids_other [simp]:
  "same_ids s (MarkDirty i s') = same_ids s s'" "same_ids s (SetMovement m s') = same_ids s s'"
  "same_ids s (ClearMovement i s') = same_ids s s'"
  by (simp_all add: same_ids_def MarkDirty_def SetMovement_def ClearMovement_def)

lemma same_ids_status [simp]: "same_ids s (set_status i st s') = same_ids s s'"
  using same_ids_set_status[of s' i st] by (simp add: same_ids_def)

lemma same_ids_moved [simp]: "same_ids s (snd (MoveUnitTo i t s')) = same_ids s s'"
  using same_ids_MoveUnitTo[of s' i t] by (simp add: same_ids_def)

lemma hydrate_step:
  assumes jobs: "sm_jobs s = []"
    and ok: "boot_ok (m # ms) (modes (FinishRecoveredMovements fin d) s) (st_lastMovementID s)"
    and rep: "m_ID m \<le> st_lastMovementID s"
    and e: "hydrate_movement now m (s, fin) = (s', fin')"
  shows "boot_ok ms (modes (FinishRecoveredMovements fin' d) s') (st_lastMovementID s)" "same_ids s s'"
proof -
  let ?i = "m_UnitID m" and ?D = "FinishRecoveredMovements fin d"
  let ?M = "modes ?D s"
  obtain t p where raw: "md_unit (?M ?i) = Some (StatusMoving, t)" "?i \<noteq> 0" "md_id (?M ?i) = Some ?i" "md_move (?M ?i) = None"
    "task_ok ?i StatusMoving (md_task (?M ?i))" "md_job (?M ?i) = md_task (?M ?i)" "md_host (?M ?i) = None"
    "\<not> md_entering (?M ?i)" "md_row (?M ?i) = Some (StatusMoving, p)" "md_leg (?M ?i) = Some (repaired m)"
    using boot_okD(4)[OF ok, of m] by (auto simp: raw_mode_def)
  have unit: "has_key (st_units s) ?i" "u_Status (unit_at s ?i) = StatusMoving" using unit_at_mode[OF raw(1)] by simp_all
  have floor: "SetMovementIDFloor (m_ID m) s = s" using rep by (simp add: SetMovementIDFloor_def)
  have id: "m_ID m \<noteq> 0" using legs_okD(1)[OF boot_okD(1)[OF ok], of ?i "repaired m"] raw(10) by (simp add: legs_def)
  have other: "j \<noteq> ?i \<Longrightarrow> close_leg (m_ID m) (?M j) = ?M j" for j
    using close_leg_other[OF boot_okD(1)[OF ok] raw(10), of j] by simp
  have task: "(case map_of (st_tasks s) ?i of Some e \<Rightarrow> IsLeg (t_Phase (te_Task e)) | None \<Rightarrow> False) \<longleftrightarrow> md_task (?M ?i) \<noteq> None"
    using raw(5) mode_fields(2)[of ?D s ?i] by (auto simp: task_ok_def split: option.splits)
  have "boot_ok ms (modes (FinishRecoveredMovements fin' d) s') (st_lastMovementID s) \<and> same_ids s s'"
  proof -
    consider (bad) "Validate_path (m_Path m) (Some (IsWalkable (st_world s))) \<noteq> None"
      | (leg) "Validate_path (m_Path m) (Some (IsWalkable (st_world s))) = None" "HasArrived (repaired m) now" "md_task (?M ?i) \<noteq> None"
      | (arrived) "Validate_path (m_Path m) (Some (IsWalkable (st_world s))) = None" "HasArrived (repaired m) now" "md_task (?M ?i) = None"
      | (go) "Validate_path (m_Path m) (Some (IsWalkable (st_world s))) = None" "\<not> HasArrived (repaired m) now" by blast
    then show ?thesis
    proof cases
      case bad
      define s1 where "s1 = MarkDirty ?i (set_status ?i StatusIdle s)"
      define f where "f = \<lparr>mf_MovementID = m_ID m, mf_Status = Some MoveFailed, mf_UnitID = ?i, mf_At = unit_Tile (unit_at s1 ?i)\<rparr>"
      have s': "s' = s1" "fin' = fin @ [f]"
        using e bad unit by (auto simp: hydrate_movement_def Let_def floor s1_def f_def)
      have ids: "same_ids s s1" by (simp add: s1_def)
      have tile: "unit_Tile (unit_at s1 ?i) = t" by (rule unit_at_mode(3)[of ?D _ _ StatusIdle]) (simp add: s1_def raw(1))
      have M1: "modes ?D s1 = ?M(?i := (?M ?i)\<lparr>md_unit := Some (StatusIdle, t), md_dirty := True\<rparr>)" by (simp add: s1_def raw(1))
      have M: "modes (FinishRecoveredMovements fin' d) s' = ?M(?i := (?M ?i)\<lparr>md_unit := Some (StatusIdle, t), md_dirty := True,
          md_row := Some (StatusIdle, t), md_leg := None, md_job := None\<rparr>)"
        using jobs ids id other raw(2,9,10) tile
        by (intro ext) (simp add: s' modes_recovered_finish same_ids_def M1 f_def close_leg_def drop_leg_def)
      have "boot_ok ms (modes (FinishRecoveredMovements fin' d) s') (st_lastMovementID s)"
        using raw by (intro boot_ok_step[OF ok]) (auto simp: M boot_mode_def boot_task_def task_ok_def row_ok_def row_fits_def settled_def split: option.splits)
      with ids s' show ?thesis by simp
    next
      case leg
      let ?to = "the (movement_Destination m)"
      have s': "s' = SetMovement (repaired m) (set_status ?i StatusMoving (snd (MoveUnitTo ?i ?to s)))" "fin' = fin"
        using e leg unit task by (simp_all add: hydrate_movement_def Let_def floor)
      have M: "modes (FinishRecoveredMovements fin' d) s' = ?M(?i := (?M ?i)\<lparr>md_unit := Some (StatusMoving, ?to), md_move := Some (repaired m)\<rparr>)"
        by (simp add: s' raw(1))
      have "boot_ok ms (modes (FinishRecoveredMovements fin' d) s') (st_lastMovementID s)"
        using raw by (intro boot_ok_step[OF ok]) (auto simp: M boot_mode_def boot_task_def task_ok_def row_ok_def row_fits_def settled_def IsLeg_def split: option.splits)
      with s' show ?thesis by simp
    next
      case arrived
      let ?to = "the (movement_Destination m)"
      define s1 where "s1 = MarkDirty ?i (set_status ?i StatusIdle (snd (MoveUnitTo ?i ?to s)))"
      define f where "f = \<lparr>mf_MovementID = m_ID m, mf_Status = Some MoveCompleted, mf_UnitID = ?i, mf_At = ?to\<rparr>"
      have s': "s' = s1" "fin' = fin @ [f]"
        using e arrived unit task by (simp_all add: hydrate_movement_def Let_def floor s1_def f_def)
      have ids: "same_ids s s1" by (simp add: s1_def)
      have M1: "modes ?D s1 = ?M(?i := (?M ?i)\<lparr>md_unit := Some (StatusIdle, ?to), md_dirty := True\<rparr>)" by (simp add: s1_def raw(1))
      have M: "modes (FinishRecoveredMovements fin' d) s' = ?M(?i := (?M ?i)\<lparr>md_unit := Some (StatusIdle, ?to), md_dirty := True,
          md_row := Some (StatusIdle, ?to), md_leg := None, md_job := None\<rparr>)"
        using jobs ids id other raw(2,9,10)
        by (intro ext) (simp add: s' modes_recovered_finish same_ids_def M1 f_def close_leg_def drop_leg_def)
      have "boot_ok ms (modes (FinishRecoveredMovements fin' d) s') (st_lastMovementID s)"
        using raw arrived by (intro boot_ok_step[OF ok]) (auto simp: M boot_mode_def boot_task_def task_ok_def row_ok_def row_fits_def settled_def)
      with ids s' show ?thesis by simp
    next
      case go
      let ?at = "movement_PositionAt m now"
      have s': "s' = SetMovement (repaired m) (set_status ?i StatusMoving (snd (MoveUnitTo ?i ?at s)))" "fin' = fin"
        using e go unit task by (simp_all add: hydrate_movement_def Let_def floor)
      have M: "modes (FinishRecoveredMovements fin' d) s' = ?M(?i := (?M ?i)\<lparr>md_unit := Some (StatusMoving, ?at), md_move := Some (repaired m)\<rparr>)"
        by (simp add: s' raw(1))
      have "boot_ok ms (modes (FinishRecoveredMovements fin' d) s') (st_lastMovementID s)"
        using raw by (intro boot_ok_step[OF ok]) (auto simp: M boot_mode_def boot_task_def task_ok_def row_ok_def row_fits_def settled_def IsLeg_def split: option.splits)
      with s' show ?thesis by simp
    qed
  qed
  then show "boot_ok ms (modes (FinishRecoveredMovements fin' d) s') (st_lastMovementID s)" "same_ids s s'" by blast+
qed

lemma hydrate_fold:
  assumes "sm_jobs s = []" "boot_ok ms (modes (FinishRecoveredMovements fin d) s) (st_lastMovementID s)"
    "\<forall>m\<in>set ms. m_ID m \<le> st_lastMovementID s" "fold (hydrate_movement now) ms (s, fin) = (s', fin')"
  shows "boot_ok [] (modes (FinishRecoveredMovements fin' d) s') (st_lastMovementID s) \<and> same_ids s s'"
  using assms
proof (induction ms arbitrary: s fin)
  case (Cons m ms)
  obtain s1 fin1 where e: "hydrate_movement now m (s, fin) = (s1, fin1)" by fastforce
  note h = hydrate_step[OF Cons.prems(1,2) _ e]
  have h1: "boot_ok ms (modes (FinishRecoveredMovements fin1 d) s1) (st_lastMovementID s)" "same_ids s s1"
    using h Cons.prems(3) by simp_all
  then have "boot_ok [] (modes (FinishRecoveredMovements fin' d) s') (st_lastMovementID s1) \<and> same_ids s1 s'"
    using Cons.prems e by (intro Cons.IH) (auto simp: same_ids_def)
  with h1(2) show ?case using same_ids_trans by (auto simp: same_ids_def)
qed simp

subsection \<open>What is loaded before the movements\<close>

definition only_units :: "sim \<Rightarrow> sim \<Rightarrow> bool" where
  "only_units s s' \<longleftrightarrow> st_movements s' = st_movements s \<and> st_tasks s' = st_tasks s \<and> st_garrisonedIn s' = st_garrisonedIn s \<and>
     st_unitDirty s' = st_unitDirty s \<and> st_entering s' = st_entering s \<and> st_lastMovementID s' = st_lastMovementID s \<and>
     sm_jobs s' = sm_jobs s \<and> st_world s' = st_world s"

definition ids_ok :: "sim \<Rightarrow> bool" where
  "ids_ok s \<longleftrightarrow> sorted_wrt (<) (st_unitIDs s) \<and> set (st_unitIDs s) = dom (map_of (st_units s))"

lemma AddUnits:
  assumes "distinct (map u_ID us)" "ids_ok s"
  shows "only_units s (fold AddUnit us s) \<and> ids_ok (fold AddUnit us s) \<and>
    (\<forall>u\<in>set us. map_of (st_units (fold AddUnit us s)) (u_ID u) = Some u) \<and>
    (\<forall>i. i \<notin> u_ID ` set us \<longrightarrow> map_of (st_units (fold AddUnit us s)) i = map_of (st_units s) i)"
  using assms
proof (induction us arbitrary: s)
  case (Cons u us)
  have a: "only_units s (AddUnit u s)" by (simp add: only_units_def AddUnit_fields)
  have "ids_ok (AddUnit u s)"
    using Cons.prems(2) by (auto simp: ids_ok_def AddUnit_fields insertSorted_ok has_key_def)
  with Cons have ih: "only_units (AddUnit u s) (fold AddUnit us (AddUnit u s)) \<and> ids_ok (fold AddUnit us (AddUnit u s)) \<and>
    (\<forall>v\<in>set us. map_of (st_units (fold AddUnit us (AddUnit u s))) (u_ID v) = Some v) \<and>
    (\<forall>i. i \<notin> u_ID ` set us \<longrightarrow> map_of (st_units (fold AddUnit us (AddUnit u s))) i = map_of (st_units (AddUnit u s)) i)"
    by simp
  moreover have "u_ID u \<notin> u_ID ` set us" using Cons.prems(1) by simp
  ultimately show ?case using a by (auto simp: AddUnit_fields only_units_def)
qed (simp add: only_units_def)

lemma AddCities: "only_units s (fold AddCity cs s) \<and> st_units (fold AddCity cs s) = st_units s \<and>
    st_unitIDs (fold AddCity cs s) = st_unitIDs s"
  by (induction cs arbitrary: s) (simp_all add: only_units_def AddCity_def)

lemma setTasks:
  assumes "distinct (map t_UnitID ts)"
  shows "st_units (fold (\<lambda>t s. snd (setTask t s)) ts s) = st_units s"
    "st_unitIDs (fold (\<lambda>t s. snd (setTask t s)) ts s) = st_unitIDs s"
    "st_movements (fold (\<lambda>t s. snd (setTask t s)) ts s) = st_movements s"
    "st_garrisonedIn (fold (\<lambda>t s. snd (setTask t s)) ts s) = st_garrisonedIn s"
    "st_unitDirty (fold (\<lambda>t s. snd (setTask t s)) ts s) = st_unitDirty s"
    "st_entering (fold (\<lambda>t s. snd (setTask t s)) ts s) = st_entering s"
    "st_lastMovementID (fold (\<lambda>t s. snd (setTask t s)) ts s) = st_lastMovementID s"
    "\<forall>t\<in>set ts. map_option te_Task (map_of (st_tasks (fold (\<lambda>t s. snd (setTask t s)) ts s)) (t_UnitID t)) = Some t"
    "\<forall>i. i \<notin> t_UnitID ` set ts \<longrightarrow> map_of (st_tasks (fold (\<lambda>t s. snd (setTask t s)) ts s)) i = map_of (st_tasks s) i"
  using assms by (induction ts arbitrary: s) (auto simp: setTask_def Let_def)

lemma setTasks_jobs: "sm_jobs (fold (\<lambda>t s. snd (setTask t s)) ts s) = sm_jobs s"
  by (induction ts arbitrary: s) (simp_all add: setTask_def Let_def)

lemma setTasks_world: "st_world (fold (\<lambda>t s. snd (setTask t s)) ts s) = st_world s"
  by (induction ts arbitrary: s) (simp_all add: setTask_def Let_def)

lemma boot_state_world: "st_world (boot_state w b now) = w"
  by (simp add: boot_state_def setTasks_world SetGarrisons_def SetMovementIDFloor_def New_simulation_def NewState_def state.defs)

lemma boot_state_fields:
  assumes "distinct (map t_UnitID (br_tasks b))" "0 \<le> br_maxID b"
  shows "st_units (boot_state w b now) = []" "st_unitIDs (boot_state w b now) = []" "st_movements (boot_state w b now) = []"
    "st_garrisonedIn (boot_state w b now) = br_hosts b" "st_unitDirty (boot_state w b now) = []"
    "st_entering (boot_state w b now) = []" "st_lastMovementID (boot_state w b now) = br_maxID b" "sm_jobs (boot_state w b now) = []"
    "map_option te_Task (map_of (st_tasks (boot_state w b now)) i) = (case filter (\<lambda>t. t_UnitID t = i) (br_tasks b) of [] \<Rightarrow> None | t # _ \<Rightarrow> Some t)"
proof -
  let ?s = "SetGarrisons (br_hosts b) (SetMovementIDFloor (br_maxID b) (New_simulation (NewState w) now))"
  have base: "st_units ?s = []" "st_unitIDs ?s = []" "st_movements ?s = []" "st_garrisonedIn ?s = br_hosts b" "st_unitDirty ?s = []"
    "st_entering ?s = []" "st_lastMovementID ?s = br_maxID b" "sm_jobs ?s = []" "st_tasks ?s = []"
    using assms(2) by (simp_all add: SetGarrisons_def SetMovementIDFloor_def New_simulation_def NewState_def state.defs)
  note t = setTasks[OF assms(1), of ?s]
  show "st_units (boot_state w b now) = []" "st_unitIDs (boot_state w b now) = []" "st_movements (boot_state w b now) = []"
    "st_garrisonedIn (boot_state w b now) = br_hosts b" "st_unitDirty (boot_state w b now) = []"
    "st_entering (boot_state w b now) = []" "st_lastMovementID (boot_state w b now) = br_maxID b" "sm_jobs (boot_state w b now) = []"
    by (simp_all add: boot_state_def t base setTasks_jobs)
  show "map_option te_Task (map_of (st_tasks (boot_state w b now)) i) =
      (case filter (\<lambda>t. t_UnitID t = i) (br_tasks b) of [] \<Rightarrow> None | t # _ \<Rightarrow> Some t)"
  proof (cases "filter (\<lambda>t. t_UnitID t = i) (br_tasks b)")
    case Nil
    then have "i \<notin> t_UnitID ` set (br_tasks b)" by (auto simp: filter_empty_conv)
    with t(9) Nil base(9) show ?thesis by (simp add: boot_state_def)
  next
    case (Cons k ks)
    then have "k \<in> set (filter (\<lambda>t. t_UnitID t = i) (br_tasks b))" by simp
    then have "k \<in> set (br_tasks b)" "t_UnitID k = i" by simp_all
    with t(8) Cons show ?thesis by (auto simp: boot_state_def)
  qed
qed

lemma boot_ok_start:
  assumes disk: "disk_ok d hi" and reads: "reads d b"
  shows "boot_ok (br_moves b) (modes d (fold AddUnit (br_units b) (fold AddCity (br_cities b) (boot_state w b now)))) (br_maxID b)"
    "ids_ok (fold AddUnit (br_units b) (fold AddCity (br_cities b) (boot_state w b now)))"
    "sm_jobs (fold AddUnit (br_units b) (fold AddCity (br_cities b) (boot_state w b now))) = []"
    "st_lastMovementID (fold AddUnit (br_units b) (fold AddCity (br_cities b) (boot_state w b now))) = br_maxID b"
    "st_world (fold AddUnit (br_units b) (fold AddCity (br_cities b) (boot_state w b now))) = w"
proof -
  have r: "distinct (map u_ID (br_units b))"
    "\<And>i st t. (\<exists>u\<in>set (br_units b). u_ID u = i \<and> u_Status u = st \<and> unit_Tile u = t) \<longleftrightarrow> dk_rows d i = Some (st, t) \<and> st \<noteq> StatusDead"
    "distinct (map m_UnitID (br_moves b))" "\<And>i m. dk_legs d i = Some m \<longleftrightarrow> m \<in> set (br_moves b) \<and> m_UnitID m = i"
    "\<And>m. m \<in> set (br_moves b) \<Longrightarrow> m_ID m \<le> br_maxID b" "0 \<le> br_maxID b" "distinct (map t_UnitID (br_tasks b))"
    "\<And>i t. dk_tasks d i = Some t \<longleftrightarrow> t \<in> set (br_tasks b) \<and> t_UnitID t = i"
    "\<And>i. has_key (br_hosts b) i \<longleftrightarrow> (\<exists>t. dk_rows d i = Some (StatusGarrisoned, t))"
    using reads unfolding reads_def by blast+
  let ?c = "fold AddCity (br_cities b) (boot_state w b now)"
  let ?s = "fold AddUnit (br_units b) ?c"
  note bs = boot_state_fields[OF r(7,6), of w now]
  have ids0: "ids_ok ?c" using AddCities[of "boot_state w b now" "br_cities b"] bs by (simp add: ids_ok_def)
  note add = AddUnits[OF r(1) ids0]
  have fields: "st_movements ?s = []" "st_garrisonedIn ?s = br_hosts b" "st_unitDirty ?s = []" "st_entering ?s = []"
    "st_tasks ?s = st_tasks (boot_state w b now)" "st_lastMovementID ?s = br_maxID b" "sm_jobs ?s = []"
    using conjunct1[OF add] AddCities[of "boot_state w b now" "br_cities b"] bs by (simp_all add: only_units_def)
  have none: "map_of (st_units ?s) i = None" if "i \<notin> u_ID ` set (br_units b)" for i
    using add that AddCities[of "boot_state w b now" "br_cities b"] bs by simp
  have task: "map_option te_Task (map_of (st_tasks ?s) i) = dk_tasks d i" for i
  proof (cases "dk_tasks d i")
    case None
    then have "filter (\<lambda>t. t_UnitID t = i) (br_tasks b) = []" using r(8)[of i] by (auto simp: filter_empty_conv)
    with None bs(9)[of i] fields(5) show ?thesis by simp
  next
    case (Some t)
    then have "t \<in> set (filter (\<lambda>t. t_UnitID t = i) (br_tasks b))" using r(8)[of i] by auto
    then obtain k ks where k: "filter (\<lambda>t. t_UnitID t = i) (br_tasks b) = k # ks"
      by (cases "filter (\<lambda>t. t_UnitID t = i) (br_tasks b)") auto
    then have "k \<in> set (filter (\<lambda>t. t_UnitID t = i) (br_tasks b))" by simp
    then have "k = t" using r(7) r(8)[of i t] Some by (auto simp: distinct_map inj_on_def)
    with k Some bs(9)[of i] fields(5) show ?thesis by simp
  qed
  have legs: "legs (modes d ?s) = (\<lambda>i. map_option repaired (dk_legs d i))"
    by (rule ext) (simp add: legs_def modes_def disk_of_def fields)
  have dk: "legs_ok (dk_legs d) hi" "\<And>i. case dk_rows d i of
        None \<Rightarrow> dk_legs d i = None \<and> dk_tasks d i = None
      | Some (st, t) \<Rightarrow>
          if st = StatusDead then dk_legs d i = None \<and> dk_tasks d i = None
          else i \<noteq> 0 \<and> settled st = st \<and> (st = StatusMoving \<longleftrightarrow> dk_legs d i \<noteq> None) \<and> task_ok i st (dk_tasks d i)"
    using disk unfolding disk_ok_def by blast+
  have "legs_ok (dk_legs d) (br_maxID b)" using dk(1) r(4,5) unfolding legs_ok_def by meson
  moreover have "if i \<in> m_UnitID ` set (br_moves b) then \<exists>m\<in>set (br_moves b). raw_mode m i (modes d ?s i)
      else boot_mode i (modes d ?s i)" for i
  proof (cases "i \<in> u_ID ` set (br_units b)")
    case False
    then have dead: "\<And>st t. dk_rows d i = Some (st, t) \<Longrightarrow> st = StatusDead" using r(2)[of i] by blast
    with dk(2)[of i] have "dk_legs d i = None \<and> dk_tasks d i = None" by (auto split: option.splits)
    moreover from this r(4)[of i] have "i \<notin> m_UnitID ` set (br_moves b)" by auto
    ultimately show ?thesis
      using none[OF False] task[of i] dead by (simp add: boot_mode_def modes_def disk_of_def fields)
  next
    case True
    then obtain u where u: "u \<in> set (br_units b)" "u_ID u = i" by blast
    then have row: "dk_rows d i = Some (u_Status u, unit_Tile u)" "u_Status u \<noteq> StatusDead" using r(2)[of i] by blast+
    have mem: "map_of (st_units ?s) i = Some u" using add u by blast
    have ok: "i \<noteq> 0" "settled (u_Status u) = u_Status u" "u_Status u = StatusMoving \<longleftrightarrow> dk_legs d i \<noteq> None"
      "task_ok i (u_Status u) (dk_tasks d i)"
      using dk(2)[of i] row by simp_all
    have host: "map_of (br_hosts b) i \<noteq> None \<longleftrightarrow> u_Status u = StatusGarrisoned" using r(9)[of i] row(1) by (auto simp: has_key_def)
    have m: "modes d ?s i = \<lparr>md_id = Some i, md_unit = Some (u_Status u, unit_Tile u), md_move = None, md_task = dk_tasks d i,
        md_host = map_of (br_hosts b) i, md_dirty = False, md_entering = False, md_row = Some (u_Status u, unit_Tile u),
        md_leg = map_option repaired (dk_legs d i), md_job = dk_tasks d i\<rparr>"
      using mem u(2) row(1) task[of i] by (simp add: modes_def disk_of_def fields has_key_def)
    show ?thesis
    proof (cases "dk_legs d i")
      case None
      with r(4)[of i] have "i \<notin> m_UnitID ` set (br_moves b)" by auto
      with None ok row(2) host show ?thesis
        by (auto simp: m boot_mode_def boot_task_def row_ok_def row_fits_def task_ok_def IsLeg_def split: option.splits)
    next
      case (Some mv)
      with r(4)[of i mv] have "mv \<in> set (br_moves b)" "m_UnitID mv = i" by simp_all
      moreover have "raw_mode mv i (modes d ?s i)" using Some ok host \<open>m_UnitID mv = i\<close> by (auto simp: m raw_mode_def)
      ultimately show ?thesis by auto
    qed
  qed
  ultimately show "boot_ok (br_moves b) (modes d ?s) (br_maxID b)" using r(3,6) legs by (simp add: boot_ok_def legs_ok_repaired)
  show "ids_ok ?s" "sm_jobs ?s = []" "st_lastMovementID ?s = br_maxID b" using add fields by blast+
  show "st_world ?s = w"
    using conjunct1[OF add] AddCities[of "boot_state w b now" "br_cities b"] boot_state_world by (simp add: only_units_def)
qed

subsection \<open>Footprints at boot\<close>

text \<open>A unit that a wall has stopped, whose closing has still to be written.\<close>

definition stopped_mode :: "movement \<Rightarrow> int64 \<Rightarrow> unit_mode \<Rightarrow> bool" where
  "stopped_mode m i md \<longleftrightarrow>
     (\<exists>t old p. md_unit md = Some (StatusIdle, t) \<and> i \<noteq> 0 \<and> md_id md = Some i \<and> m_UnitID m = i \<and> md_move md = None \<and>
        task_ok i StatusMoving (md_task md) \<and> md_host md = None \<and> \<not> md_entering md \<and> md_dirty md \<and>
        md_row md = Some (old, p) \<and> old \<noteq> StatusDead \<and> md_leg md = Some (repaired m))"

definition walls_ok :: "(int64, movement) gomap \<Rightarrow> int64 set \<Rightarrow> (int64 \<Rightarrow> unit_mode) \<Rightarrow> int64 \<Rightarrow> bool" where
  "walls_ok mv C M hi \<longleftrightarrow> legs_ok (legs M) hi \<and>
     (\<forall>i. if i \<in> C then \<exists>m. map_of mv i = Some m \<and> stopped_mode m i (M i) else boot_mode i (M i))"

lemma boot_mode_none: "md_unit md = None \<Longrightarrow> boot_mode i md \<Longrightarrow> boot_mode i (md\<lparr>md_dirty := b\<rparr>)"
  by (simp add: boot_mode_def)

lemma walls_move:
  assumes ok: "walls_ok mv C (modes d s) hi"
  shows "walls_ok mv C (modes d (MarkDirty i (snd (MoveUnitTo i t s)))) hi"
proof -
  let ?M = "modes d s" and ?M' = "modes d (MarkDirty i (snd (MoveUnitTo i t s)))"
  have e: "?M' = ?M(i := (?M i)\<lparr>md_unit := map_option (\<lambda>(st, _). (st, t)) (md_unit (?M i)), md_dirty := True\<rparr>)" by simp
  have "legs ?M' = legs ?M" by (rule ext) (simp add: legs_def)
  then have "legs_ok (legs ?M') hi" using ok unfolding walls_ok_def by simp
  moreover have "if j \<in> C then \<exists>m. map_of mv j = Some m \<and> stopped_mode m j (?M' j) else boot_mode j (?M' j)" for j
  proof (cases "j = i")
    case False
    with ok show ?thesis unfolding walls_ok_def e by simp
  next
    case True
    show ?thesis
    proof (cases "i \<in> C")
      case True
      with ok obtain m where m: "map_of mv i = Some m" "stopped_mode m i (?M i)" unfolding walls_ok_def by metis
      then have "stopped_mode m i (?M' i)" unfolding e by (auto simp: stopped_mode_def)
      with m(1) True \<open>j = i\<close> show ?thesis by auto
    next
      case False
      with ok have b: "boot_mode i (?M i)" unfolding walls_ok_def by metis
      have "boot_mode i (?M' i)"
      proof (cases "md_unit (?M i)")
        case None
        with b show ?thesis unfolding e by (simp add: boot_mode_def)
      next
        case (Some q)
        with b show ?thesis unfolding e by (cases q) (auto simp: boot_mode_def row_ok_def)
      qed
      with False \<open>j = i\<close> show ?thesis by simp
    qed
  qed
  ultimately show ?thesis unfolding walls_ok_def by blast
qed

lemma stop_blocked_ok:
  assumes ok: "walls_ok mv C (modes d s) hi" and i: "i \<notin> C" "map_of (st_movements s) i = Some m" "map_of mv i = Some m"
  shows "walls_ok mv (insert i C) (modes d (stop_blocked now i s)) hi"
    "st_movements (stop_blocked now i s) = del_key i (st_movements s)" "same_ids s (stop_blocked now i s)"
proof -
  let ?M = "modes d s" and ?M' = "modes d (stop_blocked now i s)"
  let ?at = "movement_PositionAt m now"
  have b: "boot_mode i (?M i)" using ok i(1) unfolding walls_ok_def by metis
  have mv: "md_move (?M i) = Some (repaired m)" using i(2) by (simp add: mode_fields)
  then obtain st t where u: "md_unit (?M i) = Some (st, t)" using b by (cases "md_unit (?M i)") (auto simp: boot_mode_def)
  have e: "?M' = ?M(i := (?M i)\<lparr>md_move := None, md_unit := Some (StatusIdle, ?at), md_dirty := True\<rparr>)"
    using i(2) by (simp add: stop_blocked_def u)
  have "st = StatusMoving" using b u mv by (simp add: boot_mode_def)
  then have "stopped_mode m i (?M' i)"
    using b u mv unfolding e by (auto simp: boot_mode_def boot_task_def stopped_mode_def row_ok_def row_fits_def)
  then have "if j \<in> insert i C then \<exists>m. map_of mv j = Some m \<and> stopped_mode m j (?M' j) else boot_mode j (?M' j)" for j
    using ok i(3) unfolding walls_ok_def by (cases "j = i") (auto simp: e)
  moreover have "legs ?M' = legs ?M" unfolding e by (rule ext) (simp add: legs_def)
  ultimately show "walls_ok mv (insert i C) ?M' hi" using ok unfolding walls_ok_def by simp
  have "st_movements (snd (MoveUnitTo i ?at s)) = st_movements s" by (subst MoveUnitTo_sim) simp
  then show "st_movements (stop_blocked now i s) = del_key i (st_movements s)"
    using i(2) by (simp add: stop_blocked_def MarkDirty_def set_status_def ClearMovement_def)
  show "same_ids s (stop_blocked now i s)" using i(2) by (simp add: stop_blocked_def)
qed

lemma stop_blocked_fold:
  assumes "walls_ok mv C (modes d s) hi" "distinct is" "set is \<inter> C = {}"
    "\<forall>i\<in>set is. \<exists>m. map_of (st_movements s) i = Some m \<and> map_of mv i = Some m"
  shows "walls_ok mv (C \<union> set is) (modes d (fold (stop_blocked now) is s)) hi \<and> same_ids s (fold (stop_blocked now) is s)"
  using assms
proof (induction "is" arbitrary: s C)
  case (Cons i "is")
  obtain m where m: "map_of (st_movements s) i = Some m" "map_of mv i = Some m" using Cons.prems(4) by auto
  have i: "i \<notin> C" using Cons.prems(3) by simp
  note a = stop_blocked_ok[OF Cons.prems(1) i m, of now]
  have "walls_ok mv (insert i C \<union> set is) (modes d (fold (stop_blocked now) is (stop_blocked now i s))) hi \<and>
      same_ids (stop_blocked now i s) (fold (stop_blocked now) is (stop_blocked now i s))"
    using Cons.prems(2-4) a(2) by (intro Cons.IH[OF a(1)]) auto
  with a(3) same_ids_trans show ?case by auto
qed simp

lemma evict_boot_ok:
  assumes "walls_ok mv C (modes d s) hi"
  shows "walls_ok mv C (modes d (evict_boot f i s)) hi \<and> same_ids s (evict_boot f i s)"
  using assms walls_move by (simp add: evict_boot_def split: option.split)

lemma evict_boot_fold:
  assumes "walls_ok mv C (modes d s) hi"
  shows "walls_ok mv C (modes d (fold (evict_boot f) is s)) hi \<and> same_ids s (fold (evict_boot f) is s)"
  using assms
proof (induction "is" arbitrary: s)
  case (Cons i "is")
  from evict_boot_ok[OF Cons.prems, of f i] Cons.IH[of "evict_boot f i s"] same_ids_trans show ?case by auto
qed simp

lemma evict_cities_fold:
  assumes "walls_ok mv C (modes d s) hi"
  shows "walls_ok mv C (modes d (fold (\<lambda>c s. fold (evict_boot (g c)) (h c s) s) cs s)) hi \<and>
    same_ids s (fold (\<lambda>c s. fold (evict_boot (g c)) (h c s) s) cs s)"
  using assms
proof (induction cs arbitrary: s)
  case (Cons c cs)
  from evict_boot_fold[OF Cons.prems, of "g c" "h c s"] Cons.IH[of "fold (evict_boot (g c)) (h c s) s"] same_ids_trans
  show ?case by auto
qed simp

text \<open>The closings that ClearFootprints returns, one for each unit stopped.\<close>

lemma boot_closing:
  assumes jobs: "sm_jobs s = []" and ok: "walls_ok mv C (modes d s) hi" and i: "i \<in> C"
    and f: "mf_UnitID f = i" "mf_At f = unit_Tile (unit_at s i)" "map_of mv i = Some m" "mf_MovementID f = m_ID m"
  shows "walls_ok mv (C - {i}) (modes (DiskMovementFinish f d) s) hi"
proof -
  let ?M = "modes d s" and ?M' = "modes (DiskMovementFinish f d) s"
  obtain n where "map_of mv i = Some n" "stopped_mode n i (?M i)" using ok i unfolding walls_ok_def by metis
  then have st: "stopped_mode m i (?M i)" using f(3) by simp
  then obtain t old p where s: "md_unit (?M i) = Some (StatusIdle, t)" "md_leg (?M i) = Some (repaired m)" "i \<noteq> 0"
    "md_row (?M i) = Some (old, p)" "old \<noteq> StatusDead"
    by (auto simp: stopped_mode_def)
  have legs: "legs_ok (legs ?M) hi" using ok unfolding walls_ok_def by blast
  have id: "m_ID m \<noteq> 0" using legs_okD(1)[OF legs, of i "repaired m"] s(2) by (simp add: legs_def)
  have other: "j \<noteq> i \<Longrightarrow> close_leg (m_ID m) (?M j) = ?M j" for j using close_leg_other[OF legs s(2), of j] by simp
  have tile: "unit_Tile (unit_at s i) = t" by (rule unit_at_mode(3)[OF s(1)])
  have e: "?M' = ?M(i := (?M i)\<lparr>md_row := Some (StatusIdle, t), md_leg := None, md_job := None\<rparr>)"
    using s other id f tile
    by (intro ext) (simp add: modes_recovered_finish[OF jobs] close_leg_def drop_leg_def)
  have "boot_mode i (?M' i)"
    using st unfolding e by (auto simp: stopped_mode_def boot_mode_def boot_task_def row_ok_def row_fits_def settled_def task_ok_def split: option.splits)
  then have "if j \<in> C - {i} then \<exists>m. map_of mv j = Some m \<and> stopped_mode m j (?M' j) else boot_mode j (?M' j)" for j
    using ok unfolding walls_ok_def by (cases "j = i") (auto simp: e)
  moreover have "legs_ok (legs ?M') hi" using legs_ok_none[OF legs, of i] by (simp add: e)
  ultimately show ?thesis unfolding walls_ok_def by blast
qed

lemma boot_closings:
  assumes "sm_jobs s = []" "walls_ok mv C (modes d s) hi" "C = mf_UnitID ` set fs" "distinct (map mf_UnitID fs)"
    "\<forall>f\<in>set fs. mf_At f = unit_Tile (unit_at s (mf_UnitID f)) \<and> (\<exists>m. map_of mv (mf_UnitID f) = Some m \<and> mf_MovementID f = m_ID m)"
  shows "walls_ok mv {} (modes (FinishRecoveredMovements fs d) s) hi"
  using assms(2-)
proof (induction fs arbitrary: d C)
  case (Cons f fs)
  obtain m where m: "map_of mv (mf_UnitID f) = Some m" "mf_MovementID f = m_ID m" "mf_At f = unit_Tile (unit_at s (mf_UnitID f))"
    using Cons.prems(4) by auto
  have "walls_ok mv (C - {mf_UnitID f}) (modes (DiskMovementFinish f d) s) hi"
    using Cons.prems(2) m by (intro boot_closing[OF assms(1) Cons.prems(1)]) auto
  from Cons.IH[OF this] Cons.prems show ?case by (auto simp: FinishRecoveredMovements_def)
qed (simp add: FinishRecoveredMovements_def)

lemma EachUnit_map_ids:
  assumes "set ids \<subseteq> dom (map_of us)" "\<And>i u. map_of us i = Some u \<Longrightarrow> u_ID u = i"
  shows "map u_ID (List.map_filter (\<lambda>i. map_of us i) ids) = ids"
  using assms(1) by (induction ids) (auto simp: List.map_filter_simps assms(2))

lemma map_filter_ids:
  assumes "\<And>u. u \<in> set us \<Longrightarrow> u_ID u \<in> B \<Longrightarrow> \<exists>f. h u = Some f \<and> mf_UnitID f = u_ID u"
  shows "map mf_UnitID (List.map_filter (\<lambda>u. if u_ID u \<in> B then h u else None) us) = filter (\<lambda>i. i \<in> B) (map u_ID us)"
  using assms by (induction us) (fastforce simp: List.map_filter_simps split: option.split)+

lemma ClearFootprints_ok:
  assumes jobs: "sm_jobs s = []" and ids: "ids_ok s" and ok: "boot_ok [] (modes d s) (st_lastMovementID s)"
    and e: "ClearFootprints cs now s = (fs, s')"
  shows "boot_ok [] (modes (FinishRecoveredMovements fs d) s') (st_lastMovementID s') \<and> same_ids s s'"
proof -
  let ?mv = "st_movements s" and ?hi = "st_lastMovementID s"
  define B where "B = blockedRoutes s now"
  define s1 where "s1 = fold (stop_blocked now) B s"
  define s2 where "s2 = fold (\<lambda>c s. fold (evict_boot (urbanFootprint c)) (unitsInside s (urbanFootprint c)) s) cs s1"
  have w0: "walls_ok ?mv {} (modes d s) ?hi" using ok by (simp add: boot_ok_def walls_ok_def)
  have B: "distinct B" "\<forall>i\<in>set B. \<exists>m. map_of ?mv i = Some m"
    by (auto simp: B_def blockedRoutes_def split: option.splits)
  have s1: "walls_ok ?mv (set B) (modes d s1) ?hi" "same_ids s s1"
    using stop_blocked_fold[OF w0 B(1), where now = now] B(2) by (auto simp: s1_def)
  have s2: "walls_ok ?mv (set B) (modes d s2) ?hi" "same_ids s s2"
    using evict_cities_fold[OF s1(1), where g = urbanFootprint and h = "\<lambda>c s. unitsInside s (urbanFootprint c)" and cs = cs] same_ids_trans[OF s1(2)]
    by (simp_all add: s2_def)
  have fs: "s' = s2" "fs = List.map_filter (\<lambda>u. if u_ID u \<in> set B
      then map_option (\<lambda>m. \<lparr>mf_MovementID = m_ID m, mf_Status = Some MoveCancelled, mf_UnitID = u_ID u, mf_At = unit_Tile u\<rparr>)
             (map_of ?mv (u_ID u)) else None) (EachUnit s2)"
    using e by (auto simp: ClearFootprints_def Let_def B_def s1_def s2_def)
  have id: "u_ID u = i" if "map_of (st_units s2) i = Some u" for i u
  proof -
    have "(\<exists>m. stopped_mode m i (modes d s2 i)) \<or> boot_mode i (modes d s2 i)"
      using s2(1) unfolding walls_ok_def by metis
    then have "md_id (modes d s2 i) = Some i"
      using unit_Some_mode[OF that, of d] by (auto simp: stopped_mode_def boot_mode_def)
    with that show ?thesis by (simp add: mode_fields)
  qed
  have dom2: "set (st_unitIDs s2) = dom (map_of (st_units s2))" "distinct (st_unitIDs s2)"
    using ids s2(2) by (auto simp: ids_ok_def same_ids_def strict_sorted_iff)
  have each: "map u_ID (EachUnit s2) = st_unitIDs s2"
    unfolding EachUnit_def using dom2(1) id by (intro EachUnit_map_ids) auto
  have mem: "map_of (st_units s2) (u_ID u) = Some u" if "u \<in> set (EachUnit s2)" for u
    using that id by (auto simp: EachUnit_def List.map_filter_def)
  have "map mf_UnitID fs = filter (\<lambda>i. i \<in> set B) (st_unitIDs s2)"
    unfolding fs(2) each[symmetric] using B(2) by (intro map_filter_ids) auto
  moreover have "set B \<subseteq> set (st_unitIDs s2)"
  proof
    fix i assume "i \<in> set B"
    with s2(1) obtain m where "stopped_mode m i (modes d s2 i)" unfolding walls_ok_def by metis
    then have "map_of (st_units s2) i \<noteq> None" by (auto simp: stopped_mode_def modes_def)
    with dom2(1) show "i \<in> set (st_unitIDs s2)" by auto
  qed
  ultimately have l: "set B = mf_UnitID ` set fs" "distinct (map mf_UnitID fs)"
    using dom2(2) by (auto simp flip: set_map)
  have each_f: "mf_At f = unit_Tile (unit_at s2 (mf_UnitID f)) \<and> (\<exists>m. map_of ?mv (mf_UnitID f) = Some m \<and> mf_MovementID f = m_ID m)"
    if "f \<in> set fs" for f
    using that mem by (auto simp: fs(2) List.map_filter_def split: if_splits)
  have "sm_jobs s2 = []" using jobs s2(2) by (simp add: same_ids_def)
  from boot_closings[OF this s2(1) l] each_f have "walls_ok ?mv {} (modes (FinishRecoveredMovements fs d) s2) ?hi" by blast
  then show ?thesis using ok s2(2) fs(1) by (simp add: walls_ok_def boot_ok_def same_ids_def)
qed

subsection \<open>Tasks at boot\<close>

lemma boot_mode_done: "boot_mode i md \<Longrightarrow> md_task md = None \<or> md_job md = md_task md \<Longrightarrow> mode_ok i md"
  by (auto simp: boot_mode_def mode_ok_def boot_task_def split: option.splits)

definition tasks_left :: "int64 set \<Rightarrow> (int64 \<Rightarrow> unit_mode) \<Rightarrow> int64 \<Rightarrow> bool" where
  "tasks_left K M hi \<longleftrightarrow> legs_ok (legs M) hi \<and> (\<forall>i. boot_mode i (M i) \<and> (i \<notin> K \<longrightarrow> mode_ok i (M i)))"

lemma modes_recovered_task:
  assumes "sm_jobs s = []"
  shows "modes (DiskTask (TaskWriteOf i None st at) d) s = (\<lambda>j. if j = i
     then (modes d s j)\<lparr>md_row := flush_row st at (md_row (modes d s j)), md_job := None\<rparr> else modes d s j)"
  by (rule ext) (simp add: modes_def disk_of_def assms TaskWriteOf_def)

lemma reconcile_step:
  assumes jobs: "sm_jobs s = []" and ok: "tasks_left (insert i K) (modes (FinishRecoveredTasks ws d) s) hi"
    and e: "reconcile_task i (s, ws) = (s', ws')"
  shows "tasks_left K (modes (FinishRecoveredTasks ws' d) s') hi \<and> same_ids s s'"
proof -
  let ?D = "FinishRecoveredTasks ws d"
  let ?M = "modes ?D s"
  have b: "boot_mode i (?M i)" and legs: "legs_ok (legs ?M) hi"
    and rest: "\<And>j. boot_mode j (?M j)" "\<And>j. j \<noteq> i \<Longrightarrow> j \<notin> K \<Longrightarrow> mode_ok j (?M j)"
    using ok by (auto simp: tasks_left_def)
  have same: "tasks_left K ?M hi" if "mode_ok i (?M i)" using that legs rest unfolding tasks_left_def by metis
  show ?thesis
  proof (cases "map_of (st_tasks s) i")
    case None
    then have "md_task (?M i) = None" by (simp add: mode_fields)
    with same boot_mode_done[OF b] e None show ?thesis by (simp add: reconcile_task_def)
  next
    case (Some k)
    then have t: "md_task (?M i) = Some (te_Task k)" by (simp add: mode_fields)
    obtain st p where u: "md_unit (?M i) = Some (st, p)" using b t by (cases "md_unit (?M i)") (auto simp: boot_mode_def)
    note un = unit_at_mode[OF u]
    have bt: "boot_task i st (Some (te_Task k)) (md_job (?M i))" "st = StatusMoving \<longleftrightarrow> md_move (?M i) \<noteq> None"
      using b u t by (simp_all add: boot_mode_def)
    have mv: "has_key (st_movements s) i \<longleftrightarrow> md_move (?M i) \<noteq> None" by (simp add: mode_fields has_key_def)
    show ?thesis
    proof (cases "IsLeg (t_Phase (te_Task k)) \<and> \<not> has_key (st_movements s) i \<or>
        t_Phase (te_Task k) = PhaseWorking \<and> (st \<noteq> StatusWorking \<or> p \<noteq> t_Target (te_Task k))")
      case False
      then have "s' = s" "ws' = ws" using e Some un by (auto simp: reconcile_task_def Let_def)
      moreover have "md_job (?M i) = md_task (?M i)"
        using bt False mv by (auto simp: boot_task_def t task_ok_def)
      ultimately show ?thesis using same boot_mode_done[OF b] by simp
    next
      case True
      then have stand: "\<not> has_key (st_movements s) i" using bt mv by (auto simp: boot_task_def task_ok_def IsLeg_def)
      define s1 where "s1 = MarkDirty i (set_status i StatusIdle (s\<lparr>st_tasks := del_key i (st_tasks s)\<rparr>))"
      have s': "s' = s1" "ws' = ws @ [TaskWriteOf i None StatusIdle (unit_Tile (unit_at s1 i))]"
        using e Some un stand True by (auto simp: reconcile_task_def Let_def s1_def)
      have M1: "modes ?D s1 = ?M(i := (?M i)\<lparr>md_task := None, md_unit := Some (StatusIdle, p), md_dirty := True\<rparr>)"
        by (simp add: s1_def u)
      have tile: "unit_Tile (unit_at s1 i) = p" by (rule unit_at_mode(3)[of ?D _ _ StatusIdle]) (simp add: M1)
      have j1: "sm_jobs s1 = []" using jobs by (simp add: s1_def MarkDirty_def set_status_def)
      obtain old q where row: "md_row (?M i) = Some (old, q)" "old \<noteq> StatusDead"
        using b u by (auto simp: boot_mode_def row_ok_def row_fits_def)
      let ?md = "(?M i)\<lparr>md_task := None, md_unit := Some (StatusIdle, p), md_dirty := True, md_row := Some (StatusIdle, p), md_job := None\<rparr>"
      have M: "modes (FinishRecoveredTasks ws' d) s' = ?M(i := ?md)"
        using row by (intro ext) (simp add: s' modes_recovered_task[OF j1] M1 tile)
      have "md_move (?M i) = None" using stand mv by simp
      then have "mode_ok i ?md"
        using b u bt True stand mv by (auto simp: boot_mode_def mode_ok_def task_ok_def row_ok_def row_fits_def settled_def
            boot_task_def IsLeg_def split: option.splits)
      moreover from this have "boot_mode i ?md"
        using b u by (auto simp: mode_ok_def boot_mode_def boot_task_def)
      moreover have "legs (?M(i := ?md)) = legs ?M" by (rule ext) (simp add: legs_def)
      ultimately have "tasks_left K (?M(i := ?md)) hi" using legs rest unfolding tasks_left_def by (metis fun_upd_apply)
      moreover have "same_ids s s1" by (simp add: s1_def same_ids_def MarkDirty_def set_status_def)
      ultimately show ?thesis using M s'(1) by simp
    qed
  qed
qed

lemma reconcile_fold:
  assumes "sm_jobs s = []" "tasks_left (set is) (modes (FinishRecoveredTasks ws d) s) hi" "fold reconcile_task is (s, ws) = (s', ws')"
  shows "tasks_left {} (modes (FinishRecoveredTasks ws' d) s') hi \<and> same_ids s s'"
  using assms
proof (induction "is" arbitrary: s ws)
  case (Cons i "is")
  obtain s1 ws1 where e: "reconcile_task i (s, ws) = (s1, ws1)" by fastforce
  have a: "tasks_left (set is) (modes (FinishRecoveredTasks ws1 d) s1) hi \<and> same_ids s s1"
    using Cons.prems by (intro reconcile_step[OF _ _ e]) simp_all
  then have "tasks_left {} (modes (FinishRecoveredTasks ws' d) s') hi \<and> same_ids s1 s'"
    using Cons.prems e by (intro Cons.IH) (auto simp: same_ids_def)
  with a same_ids_trans show ?case by auto
qed simp

subsection \<open>The boot\<close>

lemma reconcile_units_idle:
  assumes "\<And>i. boot_mode i (modes d s i)"
  shows "fold reconcile_unit is s = s"
proof -
  have "reconcile_unit i s = s" for i
  proof (cases "u_Status (unit_at s i) = StatusMoving")
    case True
    then obtain t where "md_unit (modes d s i) = Some (StatusMoving, t)" using status_cases by blast
    with assms[of i] have "has_key (st_movements s) i" by (simp add: boot_mode_def mode_fields has_key_def)
    then show ?thesis by (simp add: reconcile_unit_def)
  qed (simp add: reconcile_unit_def)
  then show ?thesis by (induction "is") simp_all
qed

lemma boot_ok:
  assumes disk: "disk_ok d hi" and reads: "reads d b" and e: "boot w b ms1 ms2 now d = (d', s')"
  shows "sim_ok d' s' \<and> sm_jobs s' = []"
proof -
  let ?b = "fold AddUnit (br_units b) (fold AddCity (br_cities b) (boot_state w b now))"
  note st = boot_ok_start[OF disk reads, of w now]
  obtain s1 fin where h: "fold (hydrate_movement ms1) (br_moves b) (?b, []) = (s1, fin)" by fastforce
  have moves: "\<forall>m\<in>set (br_moves b). m_ID m \<le> st_lastMovementID ?b"
    using reads st(4) unfolding reads_def by auto
  have a: "boot_ok [] (modes (FinishRecoveredMovements fin d) s1) (br_maxID b) \<and> same_ids ?b s1"
    using hydrate_fold[OF st(3) _ moves h, of d] st(1,4) by (simp add: FinishRecoveredMovements_def)
  let ?D = "FinishRecoveredMovements fin d"
  have "fold reconcile_unit (st_unitIDs s1) s1 = s1"
    using a by (intro reconcile_units_idle[of ?D]) (simp add: boot_ok_def)
  then have hyd: "Hydrate (boot_state w b now) (br_units b) (br_cities b) (br_moves b) ms1 = (s1, fin)"
    by (simp add: Hydrate_def Let_def h)
  let ?s = "s1\<lparr>st_world := raise_walls (br_cities b) (st_world s1)\<rparr>"
  have s: "sm_jobs ?s = []" "ids_ok ?s" "st_lastMovementID ?s = br_maxID b"
    using a st by (auto simp: same_ids_def ids_ok_def)
  obtain fin' s2 where f: "ClearFootprints (br_cities b) ms2 ?s = (fin', s2)" by fastforce
  have "boot_ok [] (modes ?D ?s) (st_lastMovementID ?s)" using a s(3) by simp
  note c = ClearFootprints_ok[OF s(1,2) this f]
  let ?D' = "FinishRecoveredMovements fin' ?D"
  obtain s3 ws where r: "fold reconcile_task (sorted_keys (st_tasks s2)) (s2, []) = (s3, ws)" by fastforce
  have modes2: "\<And>i. boot_mode i (modes ?D' s2 i)" "legs_ok (legs (modes ?D' s2)) (br_maxID b)"
    using c s(3) by (auto simp: boot_ok_def same_ids_def)
  have "mode_ok i (modes ?D' s2 i)" if "i \<notin> set (sorted_keys (st_tasks s2))" for i
    using that by (intro boot_mode_done[OF modes2(1)]) (simp add: mode_fields domIff)
  then have "tasks_left (set (sorted_keys (st_tasks s2))) (modes (FinishRecoveredTasks [] ?D') s2) (br_maxID b)"
    using modes2 unfolding tasks_left_def by (simp add: FinishRecoveredTasks_def)
  moreover have "sm_jobs s2 = []" using c s(1) by (simp add: same_ids_def)
  ultimately have t: "tasks_left {} (modes (FinishRecoveredTasks ws ?D') s3) (br_maxID b) \<and> same_ids s2 s3"
    using reconcile_fold[OF _ _ r] by blast
  have app: "FinishRecoveredMovements (fin @ fin') d = ?D'" by (simp add: FinishRecoveredMovements_def)
  have res: "d' = FinishRecoveredTasks ws ?D'" "s' = s3"
    using e by (auto simp: boot_def hyd f ReconcileTasks_def r app Let_def)
  have "st_lastMovementID s3 = br_maxID b" "sm_jobs s3 = []" using t c s by (auto simp: same_ids_def)
  with t reads show ?thesis unfolding res sim_ok_def tasks_left_def reads_def by auto
qed

end
