(* ===== verification/Server_Life.thy ===== *)
theory Server_Life
  imports Boot
begin

section \<open>Lives of the server\<close>

text \<open>
  A peaceful life of the server: it boots from rows that fit together, its world runs through the
  events of World_Run, and any number of times it is stopped after an event, its queue is drained to
  the disk (the orderly stop of cmd/server/main.go) and it boots again from the rows it finds. Proved
  for every such life: what each unit is doing (its movement, its task, its host), that the disk repeats
  the memory, and that a unit under way is still under way after the restart, while its way is open.

  The histories have neither combat nor claims of territory, no write is lost, and a restart always
  finds the queue drained: World_Run lists the events and says why the others are left out. The rows
  may disagree with their polylines: the repair of Hydrate is part of every boot.
\<close>

inductive server_life :: "deps \<Rightarrow> disk \<times> sim \<Rightarrow> bool" for D where
  life_start: "disk_ok d hi \<Longrightarrow> reads d b \<Longrightarrow> server_life D (boot w b ms1 ms2 now d)"
| life_event: "server_life D (d, s) \<Longrightarrow> may_happen e d s \<Longrightarrow> server_life D (happen D e (d, s))"
| life_restart: "server_life D (d, s) \<Longrightarrow> reads (disk_of d s) b \<Longrightarrow> server_life D (boot w b ms1 ms2 now (disk_of d s))"

lemma life_ok_pair:
  assumes "configured D" "server_life D st"
  shows "sim_ok (fst st) (snd st)"
  using assms(2)
proof (induction rule: server_life.induct)
  case (life_start d hi b w ms1 ms2 now)
  then show ?case using boot_ok[of d hi b w ms1 ms2 now] by (cases "boot w b ms1 ms2 now d") auto
next
  case (life_event d s e)
  then show ?case using happen_ok[OF assms(1), of d s e] by (cases "happen D e (d, s)") auto
next
  case (life_restart d s b w ms1 ms2 now)
  then show ?case using boot_ok[OF sim_ok_disk, of d s b w ms1 ms2 now]
    by (cases "boot w b ms1 ms2 now (disk_of d s)") auto
qed

lemma life_ok: "configured D \<Longrightarrow> server_life D (d, s) \<Longrightarrow> sim_ok d s"
  using life_ok_pair[of D "(d, s)"] by simp


subsection \<open>The properties of every life\<close>



subsection \<open>Resuming after a restart\<close>

text \<open>What a unit is doing, without its tile: status, movement and task.\<close>

definition way :: "int64 \<Rightarrow> 'a state_scheme \<Rightarrow> unit_status option \<times> movement option \<times> gtask option" where
  "way i s = (map_option u_Status (map_of (st_units s) i), map_of (st_movements s) i, map_option te_Task (map_of (st_tasks s) i))"

lemma way_ops [simp]:
  "way i (MarkDirty j s) = way i s"
  "way i (SetMovement m s) = (fst (way i s), if m_UnitID m = i then Some m else fst (snd (way i s)), snd (snd (way i s)))"
  "way i (ClearMovement j s) = (fst (way i s), if j = i then None else fst (snd (way i s)), snd (snd (way i s)))"
  "way i (SetMovementIDFloor n s) = way i s" "way i (s\<lparr>st_world := w\<rparr>) = way i s"
  "way i (s\<lparr>st_tasks := del_key j (st_tasks s)\<rparr>) = (fst (way i s), fst (snd (way i s)), if j = i then None else snd (snd (way i s)))"
  by (simp_all add: way_def MarkDirty_def SetMovement_def ClearMovement_def SetMovementIDFloor_def)

lemma way_upd_unit:
  "way i (upd_unit j f s) = (if j = i then (map_option (\<lambda>u. u_Status (f u)) (map_of (st_units s) i), snd (way i s)) else way i s)"
  by (simp add: way_def option.map_comp comp_def)

lemma way_set_status [simp]:
  "way i (set_status j st s) = (if j = i then (map_option (\<lambda>_. st) (fst (way i s)), snd (way i s)) else way i s)"
  by (simp add: set_status_def way_upd_unit) (simp add: way_def option.map_comp comp_def)

lemma way_moved [simp]: "way i (snd (MoveUnitTo j t s)) = way i s"
proof -
  have "way i (snd (MoveUnitTo j t s)) = way i (upd_unit j (SetTile t) s)"
    by (subst MoveUnitTo_sim) (simp add: way_def)
  then show ?thesis by (auto simp: way_upd_unit SetTile_def) (simp add: way_def)
qed

lemma world_ops [simp]:
  "st_world (MarkDirty j s) = st_world s" "st_world (SetMovement m s) = st_world s" "st_world (ClearMovement j s) = st_world s"
  "st_world (set_status j st s) = st_world s" "st_world (snd (MoveUnitTo j t s)) = st_world s"
  "st_world (SetMovementIDFloor n s) = st_world s"
proof -
  show "st_world (snd (MoveUnitTo j t s)) = st_world s" by (subst MoveUnitTo_sim) (simp add: upd_unit_def split: option.split)
qed (simp_all add: MarkDirty_def SetMovement_def ClearMovement_def SetMovementIDFloor_def set_status_def upd_unit_def split: option.split)

lemma hydrate_way:
  "m_UnitID m \<noteq> i \<Longrightarrow> way i (fst (hydrate_movement now m (s, fin))) = way i s"
  "st_world (fst (hydrate_movement now m (s, fin))) = st_world s"
  by (auto simp: hydrate_movement_def Let_def)

lemma hydrate_ways:
  "i \<notin> m_UnitID ` set ms \<Longrightarrow> way i (fst (fold (hydrate_movement now) ms st)) = way i (fst st)"
  "st_world (fst (fold (hydrate_movement now) ms st)) = st_world (fst st)"
proof (induction ms arbitrary: st)
  case (Cons m ms)
  { case 1 with Cons hydrate_way(1)[of m i now "fst st" "snd st"] show ?case by auto }
  { case 2 from Cons hydrate_way(2)[of now m "fst st" "snd st"] show ?case by auto }
qed simp_all

lemma hydrate_own:
  assumes "way i s = (Some StatusMoving, q, k)" "m_UnitID m = i"
    "Validate_path (m_Path m) (Some (IsWalkable (st_world s))) = None" "\<not> HasArrived (repaired m) now"
  shows "way i (fst (hydrate_movement now m (s, fin))) = (Some StatusMoving, Some (repaired m), k)"
proof -
  have "has_key (st_units s) i" "u_Status (unit_at s i) = StatusMoving"
    using assms(1) by (auto simp: way_def has_key_def unit_at_def)
  moreover have "unit_at (SetMovementIDFloor (m_ID m) s) i = unit_at s i" by (simp add: SetMovementIDFloor_def unit_at_def)
  ultimately show ?thesis using assms by (simp add: hydrate_movement_def Let_def)
qed

lemma fold_way:
  assumes "\<And>x s. x \<in> set xs \<Longrightarrow> way i (f x s) = way i s"
  shows "way i (fold f xs s) = way i s"
  using assms by (induction xs arbitrary: s) simp_all

lemma ClearFootprints_way:
  assumes "i \<notin> set (blockedRoutes s now)"
  shows "way i (snd (ClearFootprints cs now s)) = way i s"
proof -
  have stop: "j \<noteq> i \<Longrightarrow> way i (stop_blocked now j s') = way i s'" for j and s' :: "'a state_scheme"
    by (simp add: stop_blocked_def split: option.split)
  have evict: "way i (evict_boot f j s') = way i s'" for f j and s' :: "'a state_scheme"
    by (simp add: evict_boot_def split: option.split)
  have "way i (fold (\<lambda>c s. fold (evict_boot (urbanFootprint c)) (unitsInside s (urbanFootprint c)) s) cs s') = way i s'"
    for s' :: "'a state_scheme"
    by (intro fold_way evict)
  moreover have "way i (fold (stop_blocked now) (blockedRoutes s now) s) = way i s"
    by (rule fold_way, rule stop) (use assms in auto)
  ultimately show ?thesis by (simp add: ClearFootprints_def Let_def)
qed

lemma reconcile_way:
  assumes "way i s = (Some StatusMoving, Some m, k)" "\<And>t. k = Some t \<Longrightarrow> IsLeg (t_Phase t)"
  shows "way i (reconcile_unit j s) = way i s" "way i (fst (reconcile_task j (s, ws))) = way i s"
proof -
  have "j = i \<Longrightarrow> has_key (st_movements s) j" using assms(1) by (auto simp: way_def has_key_def)
  then show "way i (reconcile_unit j s) = way i s" by (auto simp: reconcile_unit_def)
  show "way i (fst (reconcile_task j (s, ws))) = way i s"
  proof (cases "j = i")
    case True
    have m: "has_key (st_movements s) i" "has_key (st_units s) i" using assms(1) by (auto simp: way_def has_key_def)
    show ?thesis
    proof (cases "map_of (st_tasks s) i")
      case (Some e)
      with assms have "IsLeg (t_Phase (te_Task e))" by (auto simp: way_def)
      with True m Some show ?thesis by (auto simp: reconcile_task_def Let_def IsLeg_def)
    qed (simp add: True reconcile_task_def)
  next
    case False
    then show ?thesis by (auto simp: reconcile_task_def Let_def split: option.split)
  qed
qed

lemma reconcile_ways:
  assumes "way i s = (Some StatusMoving, Some m, k)" "\<And>t. k = Some t \<Longrightarrow> IsLeg (t_Phase t)"
  shows "way i (fold reconcile_unit js s) = way i s" "way i (fst (fold reconcile_task js (s, ws))) = way i s"
proof -
  show "way i (fold reconcile_unit js s) = way i s"
    using assms(1)
  proof (induction js arbitrary: s)
    case (Cons j js)
    from Cons.IH[of "reconcile_unit j s"] reconcile_way(1)[OF Cons.prems assms(2)] Cons.prems show ?case by simp
  qed simp
  show "way i (fst (fold reconcile_task js (s, ws))) = way i s"
    using assms(1)
  proof (induction js arbitrary: s ws)
    case (Cons j js)
    from Cons.IH[of "fst (reconcile_task j (s, ws))" "snd (reconcile_task j (s, ws))"]
      reconcile_way(2)[OF Cons.prems assms(2), of j ws] Cons.prems show ?case by simp
  qed simp
qed

lemma boot_resumes:
  assumes disk: "disk_ok d hi" and reads: "reads d b" and leg: "dk_legs d i = Some m" and e: "boot w b ms1 ms2 now d = (d', s')"
    and valid: "Validate_path (m_Path m) (Some (IsWalkable w)) = None" "\<not> HasArrived (repaired m) ms1"
      "ValidateFrom (m_Path m) (IndexAt (m_Path m) (i64 (ms2 - m_StartTimeMs m))) (IsWalkable (raise_walls (br_cities b) w)) = None"
  shows "way i s' = (Some StatusMoving, Some (repaired m), dk_tasks d i)"
proof -
  let ?b = "fold AddUnit (br_units b) (fold AddCity (br_cities b) (boot_state w b now))"
  note st = boot_ok_start[OF disk reads, of w now]
  have m: "m \<in> set (br_moves b)" "m_UnitID m = i" "distinct (map m_UnitID (br_moves b))"
    using reads leg unfolding reads_def by blast+
  obtain xs ys where split: "br_moves b = xs @ m # ys" using split_list[OF m(1)] by blast
  with m(2,3) have out: "i \<notin> m_UnitID ` set xs" "i \<notin> m_UnitID ` set ys" by auto
  have raw: "raw_mode m i (modes d ?b i)" using boot_okD(4)[OF st(1) m(1)] m(2) by simp
  have k: "task_ok i StatusMoving (dk_tasks d i)" "way i ?b = (Some StatusMoving, None, dk_tasks d i)"
    using raw st(3) by (auto simp: raw_mode_def modes_def way_def disk_of_def)
  have task: "IsLeg (t_Phase t)" if "dk_tasks d i = Some t" for t using k(1) that by (auto simp: task_ok_def)
  obtain s1 fin where h: "fold (hydrate_movement ms1) (br_moves b) (?b, []) = (s1, fin)" by fastforce
  let ?x = "fold (hydrate_movement ms1) xs (?b, [])"
  have x: "way i (fst ?x) = way i ?b" "st_world (fst ?x) = w" using hydrate_ways(1)[of i xs ms1 "(?b, [])"] hydrate_ways(2)[where now = ms1 and ms = xs and st = "(?b, [])"] out(1) st(5)
    by simp_all
  have "way i (fst (hydrate_movement ms1 m ?x)) = (Some StatusMoving, Some (repaired m), dk_tasks d i)"
    using hydrate_own[of i "fst ?x" None "dk_tasks d i" m ms1 "snd ?x"] x k(2) m(2) valid(1,2) by simp
  then have s1: "way i s1 = (Some StatusMoving, Some (repaired m), dk_tasks d i)"
    using hydrate_ways(1)[of i ys ms1 "hydrate_movement ms1 m ?x"] out(2) h by (simp add: split)
  let ?h = "fold reconcile_unit (st_unitIDs s1) s1"
  have hyd: "Hydrate (boot_state w b now) (br_units b) (br_cities b) (br_moves b) ms1 = (?h, fin)"
    by (simp add: Hydrate_def Let_def h)
  let ?s = "?h\<lparr>st_world := raise_walls (br_cities b) (st_world ?h)\<rparr>"
  have "st_world (reconcile_unit j s') = st_world s'" for j and s' :: sim by (simp add: reconcile_unit_def)
  then have "st_world (fold reconcile_unit js s') = st_world s'" for js and s' :: sim by (induction js arbitrary: s') simp_all
  moreover have "st_world s1 = w" using hydrate_ways(2)[where now = ms1 and ms = "br_moves b" and st = "(?b, [])"] h st(5) by simp
  ultimately have w: "st_world ?s = raise_walls (br_cities b) w" by simp
  have way: "way i ?s = (Some StatusMoving, Some (repaired m), dk_tasks d i)" using reconcile_ways(1)[OF s1 task] s1 by simp
  then have "map_of (st_movements ?s) i = Some (repaired m)" by (simp add: way_def)
  then have "i \<notin> set (blockedRoutes ?s ms2)" using valid(3) w by (auto simp: blockedRoutes_def split: option.splits)
  note c = ClearFootprints_way[OF this, of "br_cities b"]
  obtain fin' s2 where f: "ClearFootprints (br_cities b) ms2 ?s = (fin', s2)" by fastforce
  with c way have s2: "way i s2 = (Some StatusMoving, Some (repaired m), dk_tasks d i)" by simp
  obtain s3 ws where r: "fold reconcile_task (sorted_keys (st_tasks s2)) (s2, []) = (s3, ws)" by fastforce
  have "way i s3 = (Some StatusMoving, Some (repaired m), dk_tasks d i)"
    using reconcile_ways(2)[OF s2 task, of "sorted_keys (st_tasks s2)" "[]"] r s2 by simp
  moreover have "s' = s3" using e by (auto simp: boot_def hyd f ReconcileTasks_def r Let_def)
  ultimately show ?thesis by simp
qed

text \<open>
  C5: in the same lives (no combat, no claims, no lost writes), a unit that walks when the server stops
  with its queue drained still walks after the restart, by the same movement (its arrival and target
  read off its polyline, as Hydrate repairs them) and with the same task, in memory and on disk, under
  three conditions: the movement is not over when Hydrate runs, its polyline is valid on the terrain as
  it is generated, and what remains of it when ClearFootprints runs is valid with the walls of the
  cities raised. When one fails, Hydrate or ClearFootprints closes the movement.
\<close>

theorem restart_resumes:
  assumes "configured D" "server_life D (d, s)" "reads (disk_of d s) b" "map_of (st_movements s) i = Some m"
    and "Validate_path (m_Path m) (Some (IsWalkable w)) = None" "\<not> HasArrived (repaired m) ms1"
      "ValidateFrom (m_Path m) (IndexAt (m_Path m) (i64 (ms2 - m_StartTimeMs m))) (IsWalkable (raise_walls (br_cities b) w)) = None"
    and "boot w b ms1 ms2 now (disk_of d s) = (d', s')"
  shows "map_option u_Status (map_of (st_units s') i) = Some StatusMoving \<and>
     map_of (st_movements s') i = Some (repaired m) \<and> map_option repaired (dk_legs d' i) = Some (repaired m) \<and>
     map_option te_Task (map_of (st_tasks s') i) = map_option te_Task (map_of (st_tasks s) i) \<and>
     dk_tasks d' i = map_option te_Task (map_of (st_tasks s) i)"
proof -
  note ok = life_ok[OF assms(1,2)]
  have md: "md_move (modes d s i) = Some (repaired m)" using assms(4) by (simp add: mode_fields)
  obtain st t where u: "md_unit (modes d s i) = Some (st, t)"
    using sim_okD(1)[OF ok, of i] md by (auto simp: mode_ok_def split: option.splits)
  note old = mode_okD(10,11)[OF sim_okD(1)[OF ok, of i] u]
  obtain m0 where leg: "dk_legs (disk_of d s) i = Some m0" and m0: "repaired m0 = repaired m"
    using old(1) md by (auto simp: modes_def)
  have tasks: "dk_tasks (disk_of d s) i = map_option te_Task (map_of (st_tasks s) i)" using old(2) by (simp add: modes_def)
  have same: "m_Path m0 = m_Path m" "m_StartTimeMs m0 = m_StartTimeMs m"
    using arg_cong[OF m0, of m_Path] arg_cong[OF m0, of m_StartTimeMs] by simp_all
  have way: "way i s' = (Some StatusMoving, Some (repaired m), map_option te_Task (map_of (st_tasks s) i))"
    using boot_resumes[OF sim_ok_disk[OF ok] assms(3) leg assms(8)] assms(5-7) tasks by (simp add: same m0)
  from boot_ok[OF sim_ok_disk[OF ok] assms(3,8)] have ok': "sim_ok d' s'" "sm_jobs s' = []" by simp_all
  obtain st' t' where u': "md_unit (modes d' s' i) = Some (st', t')" using way by (auto simp: way_def modes_def)
  from mode_okD(10,11)[OF sim_okD(1)[OF ok'(1), of i] u'] way ok'(2) show ?thesis by (simp add: way_def modes_def disk_of_def)
qed

subsection \<open>A life, step by step\<close>

definition walk :: movement where
  "walk = \<lparr>m_ID = 3, m_UnitID = 7, m_Path = [\<lparr>wX = 0, wY = 0, wTMs = 0\<rparr>, \<lparr>wX = 1, wY = 0, wTMs = 1000\<rparr>, \<lparr>wX = 2, wY = 0, wTMs = 2000\<rparr>],
     m_Target = mk_tile 2 0, m_StartTimeMs = 0, m_ArrivalTimeMs = 2000, m_Status = MoveActive\<rparr>"

definition walker :: unit_rec where
  "walker = \<lparr>u_ID = 7, u_PlayerID = 5, u_CityID = None, u_Type = TypeVillager, u_X = 0, u_Y = 0, u_HP = 10, u_MaxHP = 10,
     u_Status = StatusMoving, u_Loot = 0\<rparr>"

definition resting :: unit_rec where
  "resting = walker\<lparr>u_ID := 8, u_Y := 1, u_Status := StatusIdle\<rparr>"

definition first_rows :: boot_rows where
  "first_rows = \<lparr>br_units = [walker, resting], br_cities = [], br_moves = [walk], br_tasks = [], br_hosts = [], br_maxID = 3\<rparr>"

definition first_disk :: disk where
  "first_disk = \<lparr>dk_rows = [7 \<mapsto> (StatusMoving, mk_tile 0 0), 8 \<mapsto> (StatusIdle, mk_tile 0 1)], dk_legs = [7 \<mapsto> walk],
     dk_tasks = Map.empty\<rparr>"

lemma first_disk_ok: "disk_ok first_disk 3"
  by (auto simp: disk_ok_def first_disk_def legs_ok_def walk_def settled_def task_ok_def split: option.splits)

lemma walk_repaired: "repaired walk = walk"
  by code_simp

lemma first_reads: "reads first_disk first_rows"
  by (auto simp: reads_def first_disk_def first_rows_def walker_def resting_def walk_def unit_Tile_def has_key_def)

definition first_life :: "disk \<times> sim" where
  "first_life = boot meadow first_rows 500 500 0 first_disk"

lemma first_life_runs: "server_life sample_deps first_life"
  unfolding first_life_def by (rule life_start[OF first_disk_ok first_reads])

lemma sample_configured: "configured sample_deps"
  by code_simp


lemma first_life_fields: "sm_jobs (snd first_life) = [] \<and> disk_of (fst first_life) (snd first_life) = fst first_life \<and>
   st_lastMovementID (snd first_life) = 3 \<and> st_tasks (snd first_life) = [] \<and> st_movements (snd first_life) = [(7, walk)]"
proof -
  have "sm_jobs (snd first_life) = []" by code_simp
  moreover have "st_lastMovementID (snd first_life) = 3" "st_tasks (snd first_life) = []" "st_movements (snd first_life) = [(7, walk)]"
    by code_simp+
  ultimately show ?thesis by (simp add: disk_of_def)
qed


lemma first_life_disk: "fst first_life = first_disk"
proof -
  let ?h = "Hydrate (boot_state meadow first_rows 0) (br_units first_rows) (br_cities first_rows) (br_moves first_rows) 500"
  let ?s = "fst ?h\<lparr>st_world := raise_walls (br_cities first_rows) (st_world (fst ?h))\<rparr>"
  let ?c = "ClearFootprints (br_cities first_rows) 500 ?s"
  have "snd ?h = []" "fst ?c = []" "fst (ReconcileTasks (snd ?c)) = []" by code_simp+
  then show ?thesis
    by (simp add: first_life_def boot_def Let_def split_def FinishRecoveredMovements_def FinishRecoveredTasks_def)
qed



theorem restart_resumes_witness:
  "map_of (st_movements (snd (boot meadow first_rows 1200 1200 0 (fst first_life)))) 7 = Some walk"
proof -
  have r: "reads (disk_of (fst first_life) (snd first_life)) first_rows"
    using first_reads first_life_fields first_life_disk by simp
  have m: "map_of (st_movements (snd first_life)) 7 = Some walk" using first_life_fields by simp
  have v: "Validate_path (m_Path walk) (Some (IsWalkable meadow)) = None" "\<not> HasArrived (repaired walk) 1200"
    "ValidateFrom (m_Path walk) (IndexAt (m_Path walk) (i64 (1200 - m_StartTimeMs walk)))
       (IsWalkable (raise_walls (br_cities first_rows) meadow)) = None"
    by code_simp+
  have e: "boot meadow first_rows 1200 1200 0 (disk_of (fst first_life) (snd first_life)) =
      (fst (boot meadow first_rows 1200 1200 0 (fst first_life)), snd (boot meadow first_rows 1200 1200 0 (fst first_life)))"
    using first_life_fields by simp
  have l: "server_life sample_deps (fst first_life, snd first_life)" using first_life_runs by simp
  from restart_resumes[OF sample_configured l r m v e] show ?thesis by (simp add: walk_repaired)
qed

end
