(* ===== verification/Snapshots.thy ===== *)
theory Snapshots
  imports Conquest
begin

section \<open>Snapshots of the world\<close>

text \<open>
  Models internal/game/simulation/snapshot.go and interest.go, cityViewOf of economy.go, and the
  payload world.snapshot of internal/protocol/protocol.go: what a player is shown of a set of chunks.
  The terrain of a chunk stays as its bytes, which the code encodes in base 64, and the answer is the
  value that the code sends to the channel of the command.
\<close>

record city_view =
  cvw_ID :: int64
  cvw_OwnerPlayerID :: uuid
  cvw_Name :: string
  cvw_CenterX :: int32
  cvw_CenterY :: int32
  cvw_Era :: era
  cvw_Civilization :: string
  cvw_Population :: int32
  cvw_PopulationLimit :: int32
  cvw_PresenceState :: presence_state
  cvw_ProtectionUntilMs :: "int64 option"
  cvw_Stocks :: stocks_view
  cvw_Production :: "production_view option"
  cvw_Advance :: "advance_view option"

record chunk_terrain =
  cht_CX :: int32
  cht_CY :: int32
  cht_Size :: int32
  cht_Terrain :: "byte list"

record snapshot =
  wsn_ServerTimeMs :: int64
  wsn_Tick :: "64 word"
  wsn_Chunks :: "chunk_coord list"
  wsn_Terrain :: "chunk_terrain list"
  wsn_Units :: "unit_view list"
  wsn_Cities :: "city_view list"
  wsn_Territories :: "territory_view list"
  wsn_Buildings :: "building_view list"
  wsn_Forests :: "deposit_view list"
  wsn_Hills :: "deposit_view list"
  wsn_Treaties :: "treaty_view list"
  wsn_TradeOffers :: "offer_view list"

text \<open>CityView leaves the stocks at zero and the orders in progress out; cityViewOf fills them.\<close>

definition CityView :: "city \<Rightarrow> city_view" where
  "CityView c =
     \<lparr>cvw_ID = c_ID c, cvw_OwnerPlayerID = c_OwnerPlayerID c, cvw_Name = c_Name c, cvw_CenterX = c_CenterX c,
      cvw_CenterY = c_CenterY c, cvw_Era = c_Era c, cvw_Civilization = c_Civilization c, cvw_Population = c_Population c,
      cvw_PopulationLimit = c_PopulationLimit c, cvw_PresenceState = c_PresenceState c,
      cvw_ProtectionUntilMs = map_option (\<lambda>t. t div 1000000) (c_ProtectionUntil c),
      cvw_Stocks = \<lparr>sv_Wood = 0, sv_Stone = 0\<rparr>, cvw_Production = None, cvw_Advance = None\<rparr>"

definition cityViewOf :: "'a state_scheme \<Rightarrow> city \<Rightarrow> city_view" where
  "cityViewOf s c =
     (CityView c)\<lparr>cvw_Stocks := stocksView s (c_ID c), cvw_Production := productionView s (c_ID c),
       cvw_Advance := advanceView s (c_ID c)\<rparr>"

definition terrain_of :: "world \<Rightarrow> chunk_coord \<Rightarrow> chunk_terrain option" where
  "terrain_of w ch =
     (case ChunkTerrain w (CX ch) (CY ch) of
        Err _ \<Rightarrow> None
      | Ok bs \<Rightarrow> Some \<lparr>cht_CX = CX ch, cht_CY = CY ch, cht_Size = w_chunkSize w, cht_Terrain = bs\<rparr>)"

definition units_shown :: "sim \<Rightarrow> uuid \<Rightarrow> int64 \<Rightarrow> chunk_coord \<Rightarrow> unit_view list" where
  "units_shown s viewer nowMs ch =
     map (\<lambda>u. UnitView s (u_ID u) nowMs) (filter (\<lambda>u. VisibleTo u viewer) (UnitsInChunk s (CX ch) (CY ch)))"

definition BuildSnapshot :: "sim \<Rightarrow> uuid \<Rightarrow> chunk_coord list \<Rightarrow> int64 \<Rightarrow> bool \<Rightarrow> snapshot" where
  "BuildSnapshot s viewer chunks nowMs includeTerrain =
     \<lparr>wsn_ServerTimeMs = nowMs, wsn_Tick = st_tick s, wsn_Chunks = chunks,
      wsn_Terrain = (if includeTerrain then List.map_filter (terrain_of (st_world s)) chunks else []),
      wsn_Units = concat (map (units_shown s viewer nowMs) chunks),
      wsn_Cities = concat (map (\<lambda>ch. map (cityViewOf s) (CitiesInChunk s (CX ch) (CY ch))) chunks),
      wsn_Territories = TerritoryViews s chunks,
      wsn_Buildings = concat (map (\<lambda>ch. map (buildingView s) (buildingsInChunk s (CX ch) (CY ch))) chunks),
      wsn_Forests = concat (map (\<lambda>ch. layerInChunk s Forest_id (CX ch) (CY ch) nowMs) chunks),
      wsn_Hills = concat (map (\<lambda>ch. layerInChunk s Hill_id (CX ch) (CY ch) nowMs) chunks),
      wsn_Treaties = treatiesOf s viewer, wsn_TradeOffers = tradeOffersOf s viewer\<rparr>"

record snapshot_result =
  ssr_Payload :: snapshot
  ssr_Chunks :: "chunk_coord list"
  ssr_Found :: bool

definition handleRequestSnapshot :: "uuid \<Rightarrow> tile option \<Rightarrow> bool \<Rightarrow> int32 \<Rightarrow> sim \<Rightarrow> snapshot_result" where
  "handleRequestSnapshot playerID center includeTerrain radius s =
     (let w = st_world s;
          (center, found) =
            (case center of
               Some t \<Rightarrow> (t, True)
             | None \<Rightarrow> (case CityOf s playerID of
                 Some c \<Rightarrow> (Center c, True)
               | None \<Rightarrow> (mk_tile (go_div (w_width w) 2) (go_div (w_height w) 2), False)));
          chunks = ChunksInRadius w center radius
      in \<lparr>ssr_Payload = BuildSnapshot s playerID chunks (NowMs s) includeTerrain, ssr_Chunks = chunks, ssr_Found = found\<rparr>)"

end
