(* ===== verification/Game_Loop.thy ===== *)
theory Game_Loop
  imports Conquest Garrisoning Flushing
begin

section \<open>The game loop\<close>

text \<open>
  Models Apply, ProcessTimers and FlushDirty of internal/game/simulation/simulation.go, and
  internal/game/loop: the dispatch of the commands, the order of the phases of a tick, the inbox that
  the loop drains before the commands of the players within one budget, and the calendar of the
  ticks. A tick reads one clock value, which its handlers see as the time; what another goroutine
  hands to the channels during a tick counts as there at its start or at its end. The command that
  asks for a snapshot changes nothing and is the matter of the theory Snapshots.
\<close>

subsection \<open>Commands (Apply)\<close>

fun Apply :: "deps \<Rightarrow> command \<Rightarrow> sim \<Rightarrow> sim" where
  "Apply D (MoveUnit p r i t) s = handleMoveUnit D p r i t s"
| "Apply D (CancelMovement p r i) s = handleCancelMovement D p r i s"
| "Apply D (PlayerConnected p sid) s = handlePlayerConnected D p sid s"
| "Apply D (PlayerDisconnected p sid) s = handlePlayerDisconnected p sid s"
| "Apply D (IntroducePlayer x) s = handleIntroducePlayer x s"
| "Apply D (MovementPersistFailed u m) s = handleMovementPersistFailed u m s"
| "Apply D (MovementFinishPersistFailed f) s = handleMovementFinishPersistFailed f s"
| "Apply D (CityPresencePersistFailed c) s = handleCityPresencePersistFailed c s"
| "Apply D (UnitsFlushPersistFailed us) s = handleUnitsFlushPersistFailed us s"
| "Apply D (GarrisonUnit p r i c) s = handleGarrisonUnit D p r i c s"
| "Apply D (UngarrisonUnit p r i) s = handleUngarrisonUnit D p r i s"
| "Apply D (GarrisonEntryResolved p r i c e) s = handleGarrisonEntryResolved p r i c e s"
| "Apply D (GarrisonExitFailed i c t) s = handleGarrisonExitFailed i c t s"
| "Apply D (Gather p r i t) s = handleGather D p r i t s"
| "Apply D (BuildBuilding p r c ty t) s = handleBuildBuilding D p r c ty t s"
| "Apply D (TrainUnit p r c ty) s = handleTrainUnit D p r c ty s"
| "Apply D (BuildResolved p r c t b e) s = handleBuildResolved p r c t b e s"
| "Apply D (AdvanceEra p r c) s = handleAdvanceEra D p r c s"
| "Apply D (AdvanceResolved p r c e) s = handleAdvanceResolved p r c e s"
| "Apply D (AdvanceCompletePersistFailed x) s = handleAdvanceCompletePersistFailed x s"
| "Apply D (TrainResolved p r c e) s = handleTrainResolved p r c e s"
| "Apply D (BirthResolved c u t e) s = handleBirthResolved c u t e s"
| "Apply D (TaskPersistFailed i rv) s = handleTaskPersistFailed i rv s"
| "Apply D (StocksFlushFailed c rs d) s = handleStocksFlushFailed c rs d s"
| "Apply D (BuildingCompletePersistFailed b) s = handleBuildingCompletePersistFailed b s"
| "Apply D (AttackUnit p r i t) s = handleAttackUnit D p r i t s"
| "Apply D (DeathPersistFailed x) s = handleDeathPersistFailed x s"
| "Apply D (PillageCity p r i c) s = handlePillageCity D p r i c s"
| "Apply D (PillageResolved i c a n f) s = handlePillageResolved i c a n f s"
| "Apply D (DemolishBuilding p r i b) s = handleDemolishBuilding D p r i b s"
| "Apply D (BuildingDestroyResolved b t) s = handleBuildingDestroyResolved b t s"
| "Apply D (BuildingDestroyPersistFailed x) s = handleBuildingDestroyPersistFailed x s"
| "Apply D (ProposeTreaty p r o' ty) s = handleProposeTreaty D p r o' ty s"
| "Apply D (RespondTreaty p r i a) s = handleRespondTreaty D p r i a s"
| "Apply D (CancelTreaty p r i) s = handleCancelTreaty D p r i s"
| "Apply D (TreatyResolved p r w i e) s = handleTreatyResolved D p r w i e s"
| "Apply D (TreatyEndPersistFailed w) s = handleTreatyEndPersistFailed w s"
| "Apply D (ProposeTrade p r o' g w) s = handleProposeTrade D p r o' g w s"
| "Apply D (RespondTrade p r i a) s = handleRespondTrade D p r i a s"
| "Apply D (CancelTrade p r i) s = handleCancelTrade D p r i s"
| "Apply D (TradeResolved p r w i e) s = handleTradeResolved D p r w i e s"
| "Apply D (TradeAcceptResolved p r i e) s = handleTradeAcceptResolved D p r i e s"
| "Apply D (TradeEndPersistFailed w) s = handleTradeEndPersistFailed w s"
| "Apply D (ClaimTerritory p r i) s = handleClaimTerritory D p r i s"
| "Apply D (ClaimResolved t p r i e) s = handleClaimResolved D t p r i e s"
| "Apply D (ClaimEndPersistFailed e) s = handleClaimEndPersistFailed e s"
| "Apply D (CaptureResolved t c k f) s = handleCaptureResolved D t c k f s"

subsection \<open>Timers and flush\<close>

definition ProcessTimers :: "deps \<Rightarrow> instant \<Rightarrow> sim \<Rightarrow> sim" where
  "ProcessTimers D now s =
     (let nowMs = now div 1000000;
          s = engageProtection D now (sweepTreaties D now (degradeAbsent D now s));
          s = advanceTasks D nowMs (retryPendingExits D s);
          s = forgetSiegeDamage D nowMs (completeBuildings D nowMs s);
          s = completeAdvances D nowMs (completeProductions D nowMs s);
          s = regrowDeposits nowMs (sweepClaims D now s)
      in evaluateConcealment s)"

definition FlushDirty :: "deps \<Rightarrow> sim \<Rightarrow> int \<times> sim" where
  "FlushDirty D s =
     (let s = flushStocks D (flushFinishes (flushPresence s));
          s = flushAdvanceCompletions D (flushCompletions D s);
          s = flushDeaths D (flushDestructions D s)
      in flushUnits D (flushClaims D s))"

subsection \<open>The loop (loop.go, inbox.go)\<close>

record loop_config =
  lc_TickDuration :: duration
  lc_FlushIntervalTicks :: int
  lc_MaxCommandsPerTick :: int
  lc_EpochMs :: int64
  lc_StartTick :: "64 word"

record inbox =
  ib_ch :: "command list"
  ib_capacity :: nat

record loop =
  lp_sim :: sim
  lp_commands :: "command list"
  lp_inbox :: "inbox option"
  lp_cfg :: loop_config
  lp_tick :: "64 word"

definition NewInbox :: "int \<Rightarrow> inbox" where
  "NewInbox capacity = \<lparr>ib_ch = [], ib_capacity = nat (if capacity \<le> 0 then 1 else capacity)\<rparr>"

definition Offer_command :: "command \<Rightarrow> inbox \<Rightarrow> bool \<times> inbox" where
  "Offer_command c b =
     (if length (ib_ch b) < ib_capacity b then (True, b\<lparr>ib_ch := ib_ch b @ [c]\<rparr>) else (False, b))"

definition SetTick :: "64 word \<Rightarrow> 'a state_scheme \<Rightarrow> 'a state_scheme" where
  "SetTick t s = s\<lparr>st_tick := t\<rparr>"

definition New_loop :: "sim \<Rightarrow> command list \<Rightarrow> inbox option \<Rightarrow> loop_config \<Rightarrow> loop" where
  "New_loop s commands b cfg0 =
     (let cfg = (if lc_MaxCommandsPerTick cfg0 \<le> 0 then cfg0\<lparr>lc_MaxCommandsPerTick := 1024\<rparr> else cfg0);
          cfg = (if lc_FlushIntervalTicks cfg \<le> 0 then cfg\<lparr>lc_FlushIntervalTicks := 50\<rparr> else cfg)
      in \<lparr>lp_sim = SetTick (lc_StartTick cfg) s, lp_commands = commands, lp_inbox = b, lp_cfg = cfg, lp_tick = lc_StartTick cfg\<rparr>)"

text \<open>Up to so many commands of a channel: how many, what is left of it, and the world after them.\<close>

fun drain :: "deps \<Rightarrow> nat \<Rightarrow> command list \<Rightarrow> sim \<Rightarrow> nat \<times> command list \<times> sim" where
  "drain D 0 ch s = (0, ch, s)"
| "drain D (Suc n) [] s = (0, [], s)"
| "drain D (Suc n) (c # ch) s = (let (k, rest, s') = drain D n ch (Apply D c s) in (Suc k, rest, s'))"

definition drainCommands :: "deps \<Rightarrow> loop \<Rightarrow> loop" where
  "drainCommands D l =
     (let budget = lc_MaxCommandsPerTick (lp_cfg l);
          (budget, l) = (case lp_inbox l of
             None \<Rightarrow> (budget, l)
           | Some b \<Rightarrow> (let (k, rest, s) = drain D (nat budget) (ib_ch b) (lp_sim l)
                        in (budget - int k, l\<lparr>lp_inbox := Some (b\<lparr>ib_ch := rest\<rparr>), lp_sim := s\<rparr>)));
          (k, rest, s) = drain D (nat budget) (lp_commands l) (lp_sim l)
      in l\<lparr>lp_commands := rest, lp_sim := s\<rparr>)"

text \<open>One tick at a reading of the clock.\<close>

definition Step :: "deps \<Rightarrow> instant \<Rightarrow> loop \<Rightarrow> loop" where
  "Step D now l0 =
     (let nowMs = now div 1000000; t = lp_tick l0 + 1;
          l = l0\<lparr>lp_tick := t, lp_sim := SetTick t ((lp_sim l0)\<lparr>sm_now := now\<rparr>)\<rparr>;
          l = drainCommands D l;
          s = ProcessTimers D (nowMs * 1000000) (ResolveCombat D nowMs (AdvanceMovements D nowMs (lp_sim l)));
          every = lc_FlushIntervalTicks (lp_cfg l)
      in l\<lparr>lp_sim := if 0 < every \<and> t mod word_of_int every = 0 then snd (FlushDirty D s) else s\<rparr>)"

subsection \<open>The calendar of the ticks\<close>

text \<open>After a step, at this time since the start: the number of the next due and how long to wait for it.\<close>

definition next_due :: "duration \<Rightarrow> duration \<Rightarrow> int64 \<Rightarrow> int64 \<times> duration" where
  "next_due period elapsed scheduled0 =
     (let scheduled = i64 (scheduled0 + 1); due = i64 (scheduled * period) in
      if due \<le> elapsed
      then let missed = i64 (i64 (go_div elapsed period - scheduled) + 1);
               scheduled = (if 0 < missed then i64 (scheduled + missed) else scheduled);
               due = i64 (scheduled * period);
               due = (if due \<le> elapsed then i64 (elapsed + period) else due)
           in (scheduled, i64 (due - elapsed))
      else (scheduled, i64 (due - elapsed)))"

definition ResumeTick :: "64 word \<Rightarrow> int64 \<Rightarrow> int64 \<Rightarrow> duration \<Rightarrow> 64 word \<times> bool" where
  "ResumeTick saved epochMs nowMs period =
     (let p = go_div period 1000000;
          derived = (if 0 < p \<and> epochMs < nowMs then word_of_int (go_div (i64 (nowMs - epochMs)) p) else 0)
      in if derived < saved then (saved, True) else (derived, False))"

end
