(* ===== verification/Economy_Store.thy ===== *)
theory Economy_Store
  imports City_Economy Trade_Orders
begin

section \<open>The rows of the economy\<close>

text \<open>
  Models the transactions of persistence/postgres/economy.go, advance.go and trade.go (Accept) that
  write the economy: the stocks by deltas guarded by a version, the orders to build, train and
  advance with what they pay, what completes, what is destroyed, the births and the accepted
  offers. A transaction that fails changes nothing. The tables are maps, the identities counters;
  the events of the log and the constraints on the population columns of a city other than NOT NULL
  are left out.
\<close>

subsection \<open>Tables\<close>

record building_row =
  br_CityID :: int64
  br_Type :: building_type
  br_Tile :: tile
  br_Status :: building_status
  br_CompletesAtMs :: int64
  br_RequestID :: string

record production_row =
  pw_UnitType :: unit_type
  pw_CompletesAtMs :: int64
  pw_RequestID :: string
  pw_UnitID :: "int64 option"

record advance_row =
  aw_From :: era
  aw_To :: era
  aw_CompletesAtMs :: int64
  aw_RequestID :: string

record city_row =
  cr_Population :: int32
  cr_PopulationLimit :: int32
  cr_Era :: era

record econ_rows =
  er_stocks :: "int64 \<times> resource \<rightharpoonup> int64 \<times> int64"
  er_buildings :: "(int64, building_row) gomap"
  er_lastBuilding :: int64
  er_productions :: "int64 \<rightharpoonup> production_row"
  er_advances :: "int64 \<rightharpoonup> advance_row"
  er_cities :: "int64 \<rightharpoonup> city_row"
  er_eraCap :: "era \<rightharpoonup> int32"
  er_offers :: "int64 \<rightharpoonup> offer_status \<times> string option"
  er_units :: "int64 \<rightharpoonup> unit_rec"
  er_lastUnit :: int64

datatype store_error =
  StoreInsufficient | StoreStale | StoreInvalidSite | StoreCityBusy | StorePopulationLimit
| StoreAdvanceUnavailable | StoreCityNotFound | StoreVersionConflict | StoreNoProduction | StoreNotFound
| StoreNullColumn

text \<open>What economyErrorCode answers for each; a stale stock is answered, not retried.\<close>

definition store_code :: "store_error \<Rightarrow> code" where
  "store_code e =
     (case e of
        StoreInsufficient \<Rightarrow> CodeInsufficientResources
      | StoreInvalidSite \<Rightarrow> CodeInvalidTarget
      | StoreCityBusy \<Rightarrow> CodeCityBusy
      | StorePopulationLimit \<Rightarrow> CodePopulationLimitReached
      | StoreAdvanceUnavailable \<Rightarrow> CodeNotImplemented
      | StoreCityNotFound \<Rightarrow> CodeCityNotFound
      | StoreVersionConflict \<Rightarrow> CodeInvalidTarget
      | _ \<Rightarrow> CodeInternalError)"

subsection \<open>Stocks\<close>

text \<open>Whether the delta was applied: not when the row already has that version.\<close>

definition applyStock :: "stock_delta \<Rightarrow> econ_rows \<Rightarrow> store_error + bool \<times> econ_rows" where
  "applyStock sd w =
     (let (c, r, delta, version) = sd in
      case er_stocks w (c, r) of
        Some (amount, v) \<Rightarrow>
          if v < version
          then if amount + delta < 0 then Err StoreInsufficient
               else Ok (True, w\<lparr>er_stocks := (er_stocks w)((c, r) \<mapsto> (amount + delta, version))\<rparr>)
          else Ok (False, w)
      | None \<Rightarrow>
          if delta < 0 then Err StoreInsufficient
          else Ok (True, w\<lparr>er_stocks := (er_stocks w)((c, r) \<mapsto> (delta, version))\<rparr>))"

fun FlushStocks_rows :: "stock_delta list \<Rightarrow> econ_rows \<Rightarrow> store_error + econ_rows" where
  "FlushStocks_rows [] w = Ok w"
| "FlushStocks_rows (d # ds) w = (case applyStock d w of Err e \<Rightarrow> Err e | Ok (_, w') \<Rightarrow> FlushStocks_rows ds w')"

text \<open>The loop of the orders: a delta that is not applied makes the order stale.\<close>

fun apply_all_stocks :: "stock_delta list \<Rightarrow> econ_rows \<Rightarrow> store_error + econ_rows" where
  "apply_all_stocks [] w = Ok w"
| "apply_all_stocks (d # ds) w =
     (case applyStock d w of
        Err e \<Rightarrow> Err e
      | Ok (False, _) \<Rightarrow> Err StoreStale
      | Ok (True, w') \<Rightarrow> apply_all_stocks ds w')"

subsection \<open>Orders\<close>

definition Build_row :: "build_order \<Rightarrow> econ_rows \<Rightarrow> store_error + int64 \<times> econ_rows" where
  "Build_row bo w =
     (let b = bo_Building bo in
      case find (\<lambda>(i, row). br_CityID row = b_CityID b \<and> br_RequestID row = bo_RequestID bo) (er_buildings w) of
        Some (i, _) \<Rightarrow> Ok (i, w)
      | None \<Rightarrow> (case apply_all_stocks [bo_Stock bo] w of
          Err e \<Rightarrow> Err e
        | Ok w' \<Rightarrow>
            if list_ex (\<lambda>(i, row). br_Tile row = building_Tile b \<and> br_Status row \<noteq> StatusDestroyed) (er_buildings w')
            then Err StoreInvalidSite
            else let i = er_lastBuilding w' + 1
                 in Ok (i, w'\<lparr>er_lastBuilding := i,
                      er_buildings := put_key i \<lparr>br_CityID = b_CityID b, br_Type = b_Type b, br_Tile = building_Tile b,
                        br_Status = StatusUnderConstruction, br_CompletesAtMs = b_CompletesAtMs b,
                        br_RequestID = bo_RequestID bo\<rparr> (er_buildings w')\<rparr>)))"

text \<open>A population may not be raised over the limit.\<close>

definition raise_population :: "int64 \<Rightarrow> int32 \<Rightarrow> econ_rows \<Rightarrow> store_error + econ_rows" where
  "raise_population c n w =
     (case er_cities w c of
        None \<Rightarrow> Ok w
      | Some row \<Rightarrow>
          if cr_PopulationLimit row < cr_Population row + n \<and> 0 < n then Err StorePopulationLimit
          else Ok (w\<lparr>er_cities := (er_cities w)(c \<mapsto> row\<lparr>cr_Population := cr_Population row + n\<rparr>)\<rparr>))"

definition Train_row :: "train_order \<Rightarrow> econ_rows \<Rightarrow> store_error + econ_rows" where
  "Train_row o' w =
     (let p = to_Production o'; c = p_CityID p;
          insert = (\<lambda>w. if er_advances w c \<noteq> None then Err StoreCityBusy
             else case apply_all_stocks [to_Stock o'] w of
               Err e \<Rightarrow> Err e
             | Ok w \<Rightarrow> (case raise_population c (to_PopulationCost o') w of
                 Err e \<Rightarrow> Err e
               | Ok w \<Rightarrow> Ok (w\<lparr>er_productions := (er_productions w)(c \<mapsto>
                   \<lparr>pw_UnitType = p_UnitType p, pw_CompletesAtMs = p_CompletesAtMs p,
                    pw_RequestID = to_RequestID o', pw_UnitID = None\<rparr>)\<rparr>)))
      in case er_productions w c of
           None \<Rightarrow> insert w
         | Some row \<Rightarrow>
             if pw_RequestID row = to_RequestID o' then Ok w
             else if pw_UnitID row = None then Err StoreCityBusy
             else insert (w\<lparr>er_productions := (er_productions w)(c := None)\<rparr>))"

definition Advance_rows :: "advance_order \<Rightarrow> econ_rows \<Rightarrow> store_error + econ_rows" where
  "Advance_rows o' w =
     (let a = ao_Advance o'; c = a_CityID a in
      case er_advances w c of
        Some row \<Rightarrow> if aw_RequestID row = ao_RequestID o' then Ok w else Err StoreCityBusy
      | None \<Rightarrow> (case er_cities w c of
          None \<Rightarrow> Err StoreCityNotFound
        | Some cr \<Rightarrow>
            if cr_Era cr \<noteq> a_From a then Err StoreAdvanceUnavailable
            else if (case er_productions w c of Some row \<Rightarrow> pw_UnitID row = None | None \<Rightarrow> False) then Err StoreCityBusy
            else case apply_all_stocks (ao_Stocks o') w of
                   Err e \<Rightarrow> Err e
                 | Ok w \<Rightarrow> Ok (w\<lparr>er_advances := (er_advances w)(c \<mapsto>
                     \<lparr>aw_From = a_From a, aw_To = a_To a, aw_CompletesAtMs = a_CompletesAtMs a,
                      aw_RequestID = ao_RequestID o'\<rparr>)\<rparr>)))"

definition Accept_row :: "trade_acceptance \<Rightarrow> econ_rows \<Rightarrow> store_error + econ_rows" where
  "Accept_row a w =
     (let f = ta_Offer a in
      case er_offers w (o_ID f) of
        None \<Rightarrow> Err StoreVersionConflict
      | Some (st, by) \<Rightarrow>
          if st = OfferAccepted \<and> by = Some (o_AcceptedRequestID f) then Ok w
          else if st \<noteq> OfferProposed then Err StoreVersionConflict
          else case apply_all_stocks (ta_Stocks a) w of
                 Err e \<Rightarrow> Err e
               | Ok w \<Rightarrow> Ok (w\<lparr>er_offers := (er_offers w)(o_ID f \<mapsto> (OfferAccepted, Some (o_AcceptedRequestID f)))\<rparr>))"

text \<open>A pillage whose version is already there counts as written.\<close>

definition Pillaged_row :: "pillage \<Rightarrow> econ_rows \<Rightarrow> store_error + econ_rows" where
  "Pillaged_row p w = (case applyStock (pi_Stock p) w of Err e \<Rightarrow> Err e | Ok (_, w') \<Rightarrow> Ok w')"

subsection \<open>What completes, falls and is born\<close>

definition add_limit_row :: "int64 \<Rightarrow> int32 \<Rightarrow> econ_rows \<Rightarrow> econ_rows" where
  "add_limit_row c n w =
     (case er_cities w c of
        None \<Rightarrow> w
      | Some row \<Rightarrow> w\<lparr>er_cities := (er_cities w)(c \<mapsto> row\<lparr>cr_PopulationLimit := cr_PopulationLimit row + n\<rparr>)\<rparr>)"

definition CompleteBuilding_row :: "building_completion \<Rightarrow> econ_rows \<Rightarrow> econ_rows" where
  "CompleteBuilding_row bc w =
     (case map_of (er_buildings w) (bc_BuildingID bc) of
        None \<Rightarrow> w
      | Some row \<Rightarrow>
          if br_Status row \<noteq> StatusUnderConstruction then w
          else add_limit_row (bc_CityID bc) (bc_Bonus bc)
                 (w\<lparr>er_buildings := put_key (bc_BuildingID bc) (row\<lparr>br_Status := StatusComplete\<rparr>) (er_buildings w)\<rparr>))"

text \<open>The adapter persistence/economystore.go takes a building without row as written.\<close>

definition DestroyBuilding_row :: "destruction \<Rightarrow> econ_rows \<Rightarrow> econ_rows" where
  "DestroyBuilding_row x w =
     (case map_of (er_buildings w) (ds_BuildingID x) of
        None \<Rightarrow> w
      | Some row \<Rightarrow>
          if br_Status row = StatusDestroyed then w
          else let w' = w\<lparr>er_buildings := put_key (ds_BuildingID x) (row\<lparr>br_Status := StatusDestroyed\<rparr>) (er_buildings w)\<rparr>
               in if br_Status row = StatusComplete \<and> 0 < ds_Bonus x then add_limit_row (ds_CityID x) (- ds_Bonus x) w' else w')"

definition BirthUnit_row :: "birth \<Rightarrow> econ_rows \<Rightarrow> store_error + int64 \<times> econ_rows" where
  "BirthUnit_row b w =
     (case er_productions w (bi_CityID b) of
        None \<Rightarrow> Err StoreNoProduction
      | Some row \<Rightarrow> (case pw_UnitID row of
          Some i \<Rightarrow> Ok (i, w)
        | None \<Rightarrow>
            let i = er_lastUnit w + 1;
                u = \<lparr>u_ID = i, u_PlayerID = bi_PlayerID b, u_CityID = Some (bi_CityID b), u_Type = bi_Type b,
                     u_X = tX (bi_At b), u_Y = tY (bi_At b), u_HP = bi_HP b, u_MaxHP = bi_HP b, u_Status = StatusIdle, u_Loot = 0\<rparr>
            in Ok (i, w\<lparr>er_lastUnit := i, er_units := (er_units w)(i \<mapsto> u),
                 er_productions := (er_productions w)(bi_CityID b \<mapsto> row\<lparr>pw_UnitID := Some i\<rparr>)\<rparr>)))"

text \<open>An era without a row makes the new limit NULL, which the column refuses.\<close>

definition CompleteAdvance_row :: "advance_completion \<Rightarrow> econ_rows \<Rightarrow> store_error + econ_rows" where
  "CompleteAdvance_row ac w =
     (case er_cities w (ac_CityID ac) of
        None \<Rightarrow> Ok w
      | Some row \<Rightarrow>
          if cr_Era row \<noteq> ac_From ac then Ok w
          else (case (er_eraCap w (ac_From ac), er_eraCap w (ac_To ac)) of
                  (Some from0, Some to0) \<Rightarrow>
                    Ok (w\<lparr>er_cities := (er_cities w)(ac_CityID ac \<mapsto>
                        row\<lparr>cr_Era := ac_To ac, cr_PopulationLimit := cr_PopulationLimit row + to0 - from0\<rparr>),
                      er_advances := (er_advances w)(ac_CityID ac := None)\<rparr>)
                | _ \<Rightarrow> Err StoreNullColumn))"

subsection \<open>A write of the queue\<close>

text \<open>
  The methods of EconomyStore, TradeStore and CombatStore that touch these rows, by the request
  that the job of the queue carries; the other requests leave the economy alone.
\<close>

definition run_economy :: "durable \<Rightarrow> econ_rows \<Rightarrow> store_error + econ_rows" where
  "run_economy x w =
     (case x of
        FlushStocks ds \<Rightarrow> FlushStocks_rows ds w
      | Build o' \<Rightarrow> (case Build_row o' w of Err e \<Rightarrow> Err e | Ok (_, w') \<Rightarrow> Ok w')
      | Train o' \<Rightarrow> Train_row o' w
      | PersistAdvance o' \<Rightarrow> Advance_rows o' w
      | AcceptTrade a \<Rightarrow> Accept_row a w
      | PersistPillage p \<Rightarrow> Pillaged_row p w
      | CompleteBuilding c \<Rightarrow> Ok (CompleteBuilding_row c w)
      | DestroyBuilding d \<Rightarrow> Ok (DestroyBuilding_row d w)
      | PersistBirth b \<Rightarrow> (case BirthUnit_row b w of Err e \<Rightarrow> Err e | Ok (_, w') \<Rightarrow> Ok w')
      | CompleteAdvance a \<Rightarrow> CompleteAdvance_row a w
      | _ \<Rightarrow> Ok w)"

subsection \<open>Stocks only grow in version and never go below zero\<close>

definition newer :: "econ_rows \<Rightarrow> econ_rows \<Rightarrow> bool" where
  "newer w w' \<longleftrightarrow>
     (\<forall>k a v. er_stocks w k = Some (a, v) \<longrightarrow> (\<exists>a' v'. er_stocks w' k = Some (a', v') \<and> v \<le> v'))"

definition written :: "stock_delta \<Rightarrow> econ_rows \<Rightarrow> bool" where
  "written sd w = (case sd of (c, r, _, v) \<Rightarrow> (case er_stocks w (c, r) of Some (_, v') \<Rightarrow> v \<le> v' | None \<Rightarrow> False))"

definition no_debt :: "econ_rows \<Rightarrow> bool" where
  "no_debt w \<longleftrightarrow> (\<forall>k a v. er_stocks w k = Some (a, v) \<longrightarrow> 0 \<le> a)"

lemma newer_refl [simp]: "newer w w" by (simp add: newer_def)

lemma newer_trans: "newer a b \<Longrightarrow> newer b c \<Longrightarrow> newer a c"
  unfolding newer_def by (meson order_trans)

lemma newer_stocks: "er_stocks w' = er_stocks w \<Longrightarrow> newer w w'" by (simp add: newer_def)

lemma newer_cong: "er_stocks w' = er_stocks u' \<Longrightarrow> newer w w' = newer w u'" by (simp add: newer_def)

lemma written_newer: "written d w \<Longrightarrow> newer w w' \<Longrightarrow> written d w'"
  unfolding written_def newer_def by (fastforce split: prod.splits option.splits)

lemma written_cong: "er_stocks w' = er_stocks w \<Longrightarrow> written d w' = written d w" by (simp add: written_def)

lemma no_debt_cong: "er_stocks w' = er_stocks w \<Longrightarrow> no_debt w' = no_debt w" by (simp add: no_debt_def)

lemma applyStock_cases:
  assumes "applyStock (c, r, n, v) w = Ok (b, w')"
  obtains (skip) a v' where "er_stocks w (c, r) = Some (a, v')" "v \<le> v'" "\<not> b" "w' = w"
  | (add) a v' where "er_stocks w (c, r) = Some (a, v')" "v' < v" "0 \<le> a + n" "b"
      "w' = w\<lparr>er_stocks := (er_stocks w)((c, r) \<mapsto> (a + n, v))\<rparr>"
  | (new) "er_stocks w (c, r) = None" "0 \<le> n" "b" "w' = w\<lparr>er_stocks := (er_stocks w)((c, r) \<mapsto> (n, v))\<rparr>"
  using assms unfolding applyStock_def by (fastforce split: option.splits if_splits prod.splits)

lemma applyStock_newer: "applyStock d w = Ok (b, w') \<Longrightarrow> newer w w'"
  by (cases d rule: prod_cases4) (auto elim!: applyStock_cases simp: newer_def)

lemma applyStock_written: "applyStock d w = Ok (b, w') \<Longrightarrow> written d w'"
  by (cases d rule: prod_cases4) (auto elim!: applyStock_cases simp: written_def)

lemma no_debtD: "no_debt w \<Longrightarrow> er_stocks w k = Some (a, v) \<Longrightarrow> 0 \<le> a" by (cases k) (auto simp: no_debt_def)

lemma applyStock_no_debt:
  assumes "applyStock d w = Ok (b, w')" and "no_debt w" shows "no_debt w'"
  unfolding no_debt_def
proof (intro allI impI)
  fix k a v assume "er_stocks w' k = Some (a, v)"
  with assms show "0 \<le> a"
    by (cases d rule: prod_cases4) (auto elim!: applyStock_cases split: if_splits dest: no_debtD)
qed

lemma written_applyStock: "written d w \<Longrightarrow> applyStock d w = Ok (False, w)"
  by (cases d rule: prod_cases4) (auto simp: written_def applyStock_def split: option.splits)

lemma applyStock_same_version:
  "er_stocks w (c, r) = Some (a, v) \<Longrightarrow> applyStock (c, r, n, v) w = Ok (False, w)"
  by (simp add: applyStock_def)

lemma FlushStocks_newer:
  "FlushStocks_rows ds w = Ok w' \<Longrightarrow> newer w w' \<and> (\<forall>d\<in>set ds. written d w') \<and> (no_debt w \<longrightarrow> no_debt w')"
proof (induction ds arbitrary: w)
  case (Cons d ds)
  then obtain b u where u: "applyStock d w = Ok (b, u)" "FlushStocks_rows ds u = Ok w'"
    by (auto split: sum.splits)
  note ih = Cons.IH [OF u(2)] and st = applyStock_newer [OF u(1)] applyStock_written [OF u(1)] applyStock_no_debt [OF u(1)]
  show ?case using ih st newer_trans written_newer by (auto; blast)
qed simp

lemma FlushStocks_written: "\<forall>d\<in>set ds. written d w \<Longrightarrow> FlushStocks_rows ds w = Ok w"
  by (induction ds) (auto simp: written_applyStock)

lemma apply_all_flush: "apply_all_stocks ds w = Ok w' \<Longrightarrow> FlushStocks_rows ds w = Ok w'"
  by (induction ds w rule: apply_all_stocks.induct) (auto split: sum.splits bool.splits prod.splits)

lemmas apply_all_newer = FlushStocks_newer [OF apply_all_flush]

lemma applyStock_rest:
  "applyStock d w = Ok (b, w') \<Longrightarrow> \<exists>m. w' = w\<lparr>er_stocks := m\<rparr>"
  by (cases d rule: prod_cases4) (auto elim!: applyStock_cases intro: exI [of _ "er_stocks w"])

lemma FlushStocks_rest: "FlushStocks_rows ds w = Ok w' \<Longrightarrow> \<exists>m. w' = w\<lparr>er_stocks := m\<rparr>"
proof (induction ds arbitrary: w)
  case Nil then show ?case by (auto intro: exI [of _ "er_stocks w"])
next
  case (Cons d ds)
  then obtain b u where u: "applyStock d w = Ok (b, u)" "FlushStocks_rows ds u = Ok w'"
    by (auto split: sum.splits)
  from applyStock_rest [OF u(1)] obtain m where "u = w\<lparr>er_stocks := m\<rparr>" ..
  with Cons.IH [OF u(2)] show ?case by auto
qed

lemmas apply_all_rest = FlushStocks_rest [OF apply_all_flush]

subsection \<open>A retried write\<close>

lemma find_put_key: "find P m = None \<Longrightarrow> P (k, v) \<Longrightarrow> find P (put_key k v m) = Some (k, v)"
  by (induction m) (auto split: if_splits)

lemma Build_row_cases:
  assumes "Build_row o' w = Ok (i, w')"
  obtains (again) row where
    "find (\<lambda>(i, row). br_CityID row = b_CityID (bo_Building o') \<and> br_RequestID row = bo_RequestID o') (er_buildings w) = Some (i, row)"
    "w' = w"
  | (written) u row where
    "find (\<lambda>(i, row). br_CityID row = b_CityID (bo_Building o') \<and> br_RequestID row = bo_RequestID o') (er_buildings w) = None"
    "apply_all_stocks [bo_Stock o'] w = Ok u" "i = er_lastBuilding u + 1"
    "\<not> list_ex (\<lambda>(i, row). br_Tile row = building_Tile (bo_Building o') \<and> br_Status row \<noteq> StatusDestroyed) (er_buildings u)"
    "br_CityID row = b_CityID (bo_Building o')" "br_RequestID row = bo_RequestID o'"
    "w' = u\<lparr>er_lastBuilding := i, er_buildings := put_key i row (er_buildings u)\<rparr>"
proof (cases "find (\<lambda>(i, row). br_CityID row = b_CityID (bo_Building o') \<and> br_RequestID row = bo_RequestID o') (er_buildings w)")
  case None
  with assms obtain u where u: "apply_all_stocks [bo_Stock o'] w = Ok u"
    unfolding Build_row_def Let_def by (auto simp del: apply_all_stocks.simps split: sum.splits)
  have free: "\<not> list_ex (\<lambda>(i, row). br_Tile row = building_Tile (bo_Building o') \<and> br_Status row \<noteq> StatusDestroyed) (er_buildings u)"
    and i: "i = er_lastBuilding u + 1"
    using assms None u unfolding Build_row_def Let_def by (simp_all del: apply_all_stocks.simps split: if_splits)
  have "w' = u\<lparr>er_lastBuilding := i, er_buildings := put_key i \<lparr>br_CityID = b_CityID (bo_Building o'),
      br_Type = b_Type (bo_Building o'), br_Tile = building_Tile (bo_Building o'), br_Status = StatusUnderConstruction,
      br_CompletesAtMs = b_CompletesAtMs (bo_Building o'), br_RequestID = bo_RequestID o'\<rparr> (er_buildings u)\<rparr>"
    using assms None u free i unfolding Build_row_def Let_def by (simp del: apply_all_stocks.simps)
  with free i show ?thesis by (intro written [OF None u]) simp_all
next
  case (Some a)
  with assms have "a = (i, snd a)" "w' = w" unfolding Build_row_def Let_def by (cases a; simp)+
  with Some show ?thesis by (intro again [of "snd a"]) simp_all
qed

lemma Build_retry: assumes "Build_row o' w = Ok (i, w')" shows "Build_row o' w' = Ok (i, w')"
  using assms
proof (cases rule: Build_row_cases)
  case again with assms show ?thesis by simp
next
  case (written u row)
  from apply_all_rest [OF written(2)] have "er_buildings u = er_buildings w" by auto
  with written show ?thesis by (simp add: Build_row_def find_put_key)
qed

lemma newer_via:
  assumes "apply_all_stocks ds w0 = Ok u" and "er_stocks w0 = er_stocks w" and "er_stocks w' = er_stocks u"
  shows "newer w w' \<and> (no_debt w \<longrightarrow> no_debt w')"
  using apply_all_newer [OF assms(1)] assms(2,3) by (simp add: newer_def no_debt_def)

lemma Build_newer: assumes "Build_row o' w = Ok (i, w')" shows "newer w w' \<and> (no_debt w \<longrightarrow> no_debt w')"
  using assms
proof (cases rule: Build_row_cases)
  case (written u row) from written(7) show ?thesis by (intro newer_via [OF written(2)]) simp_all
qed simp

lemma raise_population_rest: "raise_population c n w = Ok w' \<Longrightarrow> \<exists>m. w' = w\<lparr>er_cities := m\<rparr>"
  unfolding raise_population_def by (auto split: option.splits if_splits intro: exI [of _ "er_cities w"])

lemma Train_row_cases:
  assumes "Train_row o' w = Ok w'"
  obtains (again) row where "er_productions w (p_CityID (to_Production o')) = Some row" "pw_RequestID row = to_RequestID o'" "w' = w"
  | (written) w0 u v m row where
    "w0 = w \<or> w0 = w\<lparr>er_productions := (er_productions w)(p_CityID (to_Production o') := None)\<rparr>"
    "apply_all_stocks [to_Stock o'] w0 = Ok u" "v = u\<lparr>er_cities := m\<rparr>" "pw_RequestID row = to_RequestID o'"
    "w' = v\<lparr>er_productions := (er_productions v)(p_CityID (to_Production o') \<mapsto> row)\<rparr>"
proof -
  have ins: thesis if "apply_all_stocks [to_Stock o'] w0 = Ok u" "raise_population (p_CityID (to_Production o')) (to_PopulationCost o') u = Ok v"
      "w' = v\<lparr>er_productions := (er_productions v)(p_CityID (to_Production o') \<mapsto> row)\<rparr>" "pw_RequestID row = to_RequestID o'"
      "w0 = w \<or> w0 = w\<lparr>er_productions := (er_productions w)(p_CityID (to_Production o') := None)\<rparr>" for w0 u v row
    using raise_population_rest [OF that(2)] written [OF that(5,1) _ that(4,3)] by blast
  show thesis
  proof (cases "er_productions w (p_CityID (to_Production o'))")
    case None
    with assms show thesis unfolding Train_row_def Let_def
      by (auto simp del: apply_all_stocks.simps split: if_splits sum.splits intro: ins)
  next
    case (Some row)
    show thesis
    proof (cases "pw_RequestID row = to_RequestID o'")
      case True with assms Some have "w' = w" unfolding Train_row_def Let_def by simp
      with True show thesis by (intro again [OF Some]) simp_all
    next
      case False with assms Some show thesis unfolding Train_row_def Let_def
        by (auto simp del: apply_all_stocks.simps split: if_splits sum.splits intro: ins)
    qed
  qed
qed

lemma Train_retry: assumes "Train_row o' w = Ok w'" shows "Train_row o' w' = Ok w'"
  using assms by (cases rule: Train_row_cases) (auto simp: Train_row_def Let_def)

lemma Train_newer: assumes "Train_row o' w = Ok w'" shows "newer w w' \<and> (no_debt w \<longrightarrow> no_debt w')"
  using assms
proof (cases rule: Train_row_cases)
  case (written w0 u v m row)
  from written(1) have "er_stocks w0 = er_stocks w" by auto
  with written(3,5) show ?thesis by (intro newer_via [OF written(2)]) simp_all
qed simp

lemma Advance_rows_cases:
  assumes "Advance_rows o' w = Ok w'"
  obtains (again) row where "er_advances w (a_CityID (ao_Advance o')) = Some row" "aw_RequestID row = ao_RequestID o'" "w' = w"
  | (written) u row where "apply_all_stocks (ao_Stocks o') w = Ok u" "aw_RequestID row = ao_RequestID o'"
    "w' = u\<lparr>er_advances := (er_advances u)(a_CityID (ao_Advance o') \<mapsto> row)\<rparr>"
proof (cases "er_advances w (a_CityID (ao_Advance o'))")
  case None
  from assms None obtain u where u: "apply_all_stocks (ao_Stocks o') w = Ok u"
    unfolding Advance_rows_def Let_def by (auto split: option.splits if_splits sum.splits)
  with assms None have "w' = u\<lparr>er_advances := (er_advances u)(a_CityID (ao_Advance o') \<mapsto>
      \<lparr>aw_From = a_From (ao_Advance o'), aw_To = a_To (ao_Advance o'),
       aw_CompletesAtMs = a_CompletesAtMs (ao_Advance o'), aw_RequestID = ao_RequestID o'\<rparr>)\<rparr>"
    unfolding Advance_rows_def Let_def by (auto split: option.splits if_splits)
  then show ?thesis by (intro written [OF u]) simp_all
next
  case (Some row)
  with assms have "aw_RequestID row = ao_RequestID o'" "w' = w"
    unfolding Advance_rows_def Let_def by (auto split: if_splits)
  then show ?thesis by (rule again [OF Some])
qed

lemma Advance_retry: assumes "Advance_rows o' w = Ok w'" shows "Advance_rows o' w' = Ok w'"
  using assms by (cases rule: Advance_rows_cases) (auto simp: Advance_rows_def Let_def)

lemma Advance_newer: assumes "Advance_rows o' w = Ok w'" shows "newer w w' \<and> (no_debt w \<longrightarrow> no_debt w')"
  using assms
proof (cases rule: Advance_rows_cases)
  case (written u row) from written(3) show ?thesis by (intro newer_via [OF written(1)]) simp_all
qed simp

lemma Accept_row_cases:
  assumes "Accept_row a w = Ok w'"
  obtains (again) "er_offers w (o_ID (ta_Offer a)) = Some (OfferAccepted, Some (o_AcceptedRequestID (ta_Offer a)))" "w' = w"
  | (written) u where "apply_all_stocks (ta_Stocks a) w = Ok u"
    "w' = u\<lparr>er_offers := (er_offers u)(o_ID (ta_Offer a) \<mapsto> (OfferAccepted, Some (o_AcceptedRequestID (ta_Offer a))))\<rparr>"
proof (cases "er_offers w (o_ID (ta_Offer a)) = Some (OfferAccepted, Some (o_AcceptedRequestID (ta_Offer a)))")
  case True
  with assms have "w' = w" unfolding Accept_row_def Let_def by simp
  with True show ?thesis by (rule again)
next
  case False
  from assms False obtain u where u: "apply_all_stocks (ta_Stocks a) w = Ok u"
    unfolding Accept_row_def Let_def by (auto split: option.splits if_splits sum.splits)
  with assms False have "w' = u\<lparr>er_offers := (er_offers u)(o_ID (ta_Offer a) \<mapsto> (OfferAccepted, Some (o_AcceptedRequestID (ta_Offer a))))\<rparr>"
    unfolding Accept_row_def Let_def by (auto split: option.splits if_splits)
  then show ?thesis by (rule written [OF u])
qed

lemma Accept_retry: assumes "Accept_row a w = Ok w'" shows "Accept_row a w' = Ok w'"
  using assms by (cases rule: Accept_row_cases) (auto simp: Accept_row_def Let_def)

lemma Accept_newer: assumes "Accept_row a w = Ok w'" shows "newer w w' \<and> (no_debt w \<longrightarrow> no_debt w')"
  using assms
proof (cases rule: Accept_row_cases)
  case (written u) from written(2) show ?thesis by (intro newer_via [OF written(1)]) simp_all
qed simp

lemma Pillaged_retry: "Pillaged_row p w = Ok w' \<Longrightarrow> Pillaged_row p w' = Ok w'"
  using written_applyStock [OF applyStock_written] unfolding Pillaged_row_def
  by (auto split: sum.splits prod.splits)

lemma Pillaged_newer: "Pillaged_row p w = Ok w' \<Longrightarrow> newer w w' \<and> (no_debt w \<longrightarrow> no_debt w')"
  unfolding Pillaged_row_def by (auto split: sum.splits intro: applyStock_newer applyStock_no_debt)

lemma add_limit_row_stocks [simp]:
  "er_stocks (add_limit_row c n w) = er_stocks w" "er_buildings (add_limit_row c n w) = er_buildings w"
  by (simp_all add: add_limit_row_def split: option.splits)

lemma CompleteBuilding_stocks [simp]: "er_stocks (CompleteBuilding_row c w) = er_stocks w"
  by (simp add: CompleteBuilding_row_def split: option.splits)

lemma CompleteBuilding_retry: "CompleteBuilding_row c (CompleteBuilding_row c w) = CompleteBuilding_row c w"
proof (cases "map_of (er_buildings w) (bc_BuildingID c)")
  case None then show ?thesis by (simp add: CompleteBuilding_row_def)
next
  case (Some row) then show ?thesis
    by (cases "br_Status row = StatusUnderConstruction") (simp_all add: CompleteBuilding_row_def update_conv)
qed

lemma DestroyBuilding_stocks [simp]: "er_stocks (DestroyBuilding_row d w) = er_stocks w"
  by (simp add: DestroyBuilding_row_def Let_def split: option.splits)

lemma DestroyBuilding_retry: "DestroyBuilding_row d (DestroyBuilding_row d w) = DestroyBuilding_row d w"
proof (cases "map_of (er_buildings w) (ds_BuildingID d)")
  case None then show ?thesis by (simp add: DestroyBuilding_row_def)
next
  case (Some row) then show ?thesis
    by (cases "br_Status row = StatusDestroyed") (simp_all add: DestroyBuilding_row_def update_conv Let_def)
qed

lemma BirthUnit_retry: "BirthUnit_row b w = Ok (i, w') \<Longrightarrow> BirthUnit_row b w' = Ok (i, w')"
  by (auto simp: BirthUnit_row_def Let_def split: option.splits)

lemma BirthUnit_stocks: "BirthUnit_row b w = Ok (i, w') \<Longrightarrow> er_stocks w' = er_stocks w"
  by (auto simp: BirthUnit_row_def Let_def split: option.splits)

lemma CompleteAdvance_stocks: "CompleteAdvance_row a w = Ok w' \<Longrightarrow> er_stocks w' = er_stocks w"
  by (auto simp: CompleteAdvance_row_def split: option.splits if_splits)

lemma CompleteAdvance_retry:
  assumes "CompleteAdvance_row a w = Ok w'" and "ac_From a \<noteq> ac_To a"
  shows "CompleteAdvance_row a w' = Ok w'"
  using assms by (auto simp: CompleteAdvance_row_def split: option.splits if_splits)

lemma same_stocks: "er_stocks w' = er_stocks w \<Longrightarrow> newer w w' \<and> (no_debt w \<longrightarrow> no_debt w')"
  by (simp add: newer_def no_debt_def)

lemma run_economy_newer:
  assumes "run_economy x w = Ok w'" shows "newer w w' \<and> (no_debt w \<longrightarrow> no_debt w')"
proof (cases x)
  case (FlushStocks ds) with assms show ?thesis by (auto simp: run_economy_def dest: FlushStocks_newer)
next
  case (Build o') with assms show ?thesis by (auto simp: run_economy_def split: sum.splits dest: Build_newer)
next
  case (Train o') with assms show ?thesis by (auto simp: run_economy_def dest: Train_newer)
next
  case (PersistAdvance o') with assms show ?thesis by (auto simp: run_economy_def dest: Advance_newer)
next
  case (AcceptTrade a) with assms show ?thesis by (auto simp: run_economy_def dest: Accept_newer)
next
  case (PersistPillage p) with assms show ?thesis by (auto simp: run_economy_def dest: Pillaged_newer)
next
  case (PersistBirth b)
  with assms have "er_stocks w' = er_stocks w" by (auto simp: run_economy_def split: sum.splits dest: BirthUnit_stocks)
  then show ?thesis by (rule same_stocks)
next
  case (CompleteBuilding c)
  with assms show ?thesis by (intro same_stocks) (auto simp: run_economy_def)
next
  case (DestroyBuilding c)
  with assms show ?thesis by (intro same_stocks) (auto simp: run_economy_def)
next
  case (CompleteAdvance c)
  with assms show ?thesis by (intro same_stocks) (auto simp: run_economy_def CompleteAdvance_stocks)
qed (use assms in \<open>simp_all add: run_economy_def\<close>)

lemma run_economy_retry:
  assumes "run_economy x w = Ok w'" and "\<And>a. x = CompleteAdvance a \<Longrightarrow> ac_From a \<noteq> ac_To a"
  shows "run_economy x w' = Ok w'"
proof (cases x)
  case (FlushStocks ds)
  with assms have "FlushStocks_rows ds w = Ok w'" by (simp add: run_economy_def)
  then have "\<forall>d\<in>set ds. written d w'" by (simp add: FlushStocks_newer)
  with FlushStocks show ?thesis by (simp add: run_economy_def FlushStocks_written)
next
  case (Build o') with assms show ?thesis by (auto simp: run_economy_def split: sum.splits dest: Build_retry)
next
  case (Train o') with assms show ?thesis by (auto simp: run_economy_def dest: Train_retry)
next
  case (PersistAdvance o') with assms show ?thesis by (auto simp: run_economy_def dest: Advance_retry)
next
  case (AcceptTrade a) with assms show ?thesis by (auto simp: run_economy_def dest: Accept_retry)
next
  case (PersistPillage p) with assms show ?thesis by (auto simp: run_economy_def dest: Pillaged_retry)
next
  case (PersistBirth b) with assms show ?thesis by (auto simp: run_economy_def split: sum.splits dest: BirthUnit_retry)
next
  case (CompleteBuilding c) with assms show ?thesis by (auto simp: run_economy_def CompleteBuilding_retry)
next
  case (DestroyBuilding c) with assms show ?thesis by (auto simp: run_economy_def DestroyBuilding_retry)
next
  case (CompleteAdvance c) with assms show ?thesis by (simp add: run_economy_def CompleteAdvance_retry)
qed (use assms in \<open>simp_all add: run_economy_def\<close>)

subsection \<open>Properties\<close>

text \<open>
  C11: A write of the economy that the queue repeats after it was committed changes nothing more:
  nothing is debited, born, completed or destroyed twice.
\<close>
theorem retried_write_changes_nothing:
  assumes "run_economy x w = Ok w'" and "\<And>a. x = CompleteAdvance a \<Longrightarrow> ac_From a \<noteq> ac_To a"
  shows "run_economy x w' = Ok w'"
  using assms by (rule run_economy_retry)

definition sample_rows :: econ_rows where
  "sample_rows = \<lparr>er_stocks = [(7, ResourceWood) \<mapsto> (100, 3)], er_buildings = [], er_lastBuilding = 0,
     er_productions = Map.empty, er_advances = Map.empty, er_cities = [7 \<mapsto> \<lparr>cr_Population = 4, cr_PopulationLimit = 10, cr_Era = EraStone\<rparr>],
     er_eraCap = Map.empty, er_offers = Map.empty, er_units = Map.empty, er_lastUnit = 0\<rparr>"

text \<open>
  C12: Through every write of the economy, whatever its outcome, no stock of the database goes below
  zero and the version of a stock never goes back.
\<close>
theorem stock_rows_never_negative:
  assumes "run_economy x w = Ok w'" and "no_debt w"
  shows "no_debt w' \<and> newer w w'"
  using run_economy_newer [OF assms(1)] assms(2) by simp

definition sample_order :: build_order where
  "sample_order = \<lparr>bo_RequestID = ''r1'', bo_PlayerID = 9,
     bo_Building = \<lparr>b_ID = 0, b_CityID = 7, b_Type = TypeHouse, b_X = 5, b_Y = 6, b_Status = StatusUnderConstruction, b_CompletesAtMs = 900\<rparr>,
     bo_Stock = (7, ResourceWood, -30, 4), bo_Tick = 1\<rparr>"

lemma sample_write:
  obtains w where "run_economy (Build sample_order) sample_rows = Ok w" "er_stocks w (7, ResourceWood) = Some (70, 4)"
    "no_debt sample_rows"
  by (simp add: run_economy_def Build_row_def sample_rows_def sample_order_def Let_def applyStock_def building_Tile_def
      no_debt_def split: if_splits)

theorem retried_write_changes_nothing_witness:
  "\<exists>w. er_stocks w (7, ResourceWood) = Some (70, 4) \<and> run_economy (Build sample_order) w = Ok w"
proof -
  obtain w where w: "run_economy (Build sample_order) sample_rows = Ok w" "er_stocks w (7, ResourceWood) = Some (70, 4)"
    by (rule sample_write)
  from retried_write_changes_nothing [OF w(1)] w(2) show ?thesis by auto
qed

theorem stock_rows_never_negative_witness:
  "\<exists>w. er_stocks w (7, ResourceWood) = Some (70, 4) \<and> no_debt w \<and> newer sample_rows w"
proof -
  obtain w where w: "run_economy (Build sample_order) sample_rows = Ok w" "er_stocks w (7, ResourceWood) = Some (70, 4)"
      "no_debt sample_rows"
    by (rule sample_write)
  from stock_rows_never_negative [OF w(1,3)] w(2) show ?thesis by auto
qed

end
