(* ===== verification/Combat_Laws.thy ===== *)
theory Combat_Laws
  imports Combat_Phase
begin

section \<open>What a fight may do\<close>

text \<open>
  Laws of the phase of combat: nobody is harmed but by an enemy in range of the rules (not at peace,
  neither protected), a death moves the load of the victim without creating wood, and a pillage
  leaves the floor of the stock. They rest on what the steps of a fight (marching, standing to
  strike, answering, giving up) leave as it was: the realm, which is cities, treaties and stocks,
  and the lives of the units.
\<close>

subsection \<open>What marching and answering leave alone\<close>

definition life_of :: "unit_rec \<Rightarrow> uuid \<times> unit_type \<times> int32 \<times> int32 \<times> int64 option" where
  "life_of u = (u_PlayerID u, u_Type u, u_HP u, u_Loot u, u_CityID u)"

definition lives :: "sim \<Rightarrow> int64 \<Rightarrow> (uuid \<times> unit_type \<times> int32 \<times> int32 \<times> int64 option) option" where
  "lives s i = map_option life_of (map_of (st_units s) i)"

definition realm where
  "realm (s :: sim) =
     (st_cities s, st_cityByOwner s, st_treaties s, st_economies s, st_buildings s, st_pendingLoot s, st_civilizations s)"

lemma lives_keep:
  "st_units s' = st_units s \<Longrightarrow> lives s' = lives s" by (simp add: lives_def fun_eq_iff)

lemma lives_upd_unit:
  "lives (upd_unit i f s) = (if map_of (st_units s) i = None then lives s
     else (lives s)(i := Some (life_of (f (unit_at s i)))))"
  by (auto simp: lives_def upd_unit_def unit_at_def fun_eq_iff split: option.splits)

lemma lives_upd_same [simp]: "(\<And>u. life_of (f u) = life_of u) \<Longrightarrow> lives (upd_unit i f s) = lives s"
  by (auto simp: lives_upd_unit lives_def unit_at_def fun_eq_iff split: option.splits)

lemma realm_upd_unit [simp]: "realm (upd_unit i f s) = realm s"
  by (simp add: realm_def upd_unit_def split: option.splits)

lemma keep_plain [simp]:
  "lives (send m s) = lives s" "realm (send m s) = realm s"
  "lives (submit_job n k x c s) = lives s" "realm (submit_job n k x c s) = realm s"
  "lives (MarkDirty i s) = lives s" "realm (MarkDirty i s) = realm s"
  "lives (ClearMovement i s) = lives s" "realm (ClearMovement i s) = realm s"
  "lives (SetMovement mv s) = lives s" "realm (SetMovement mv s) = realm s"
  "lives (snd (NewMovementID s)) = lives s" "realm (snd (NewMovementID s)) = realm s"
  "lives (s\<lparr>st_engagements := es\<rparr>) = lives s" "realm (s\<lparr>st_engagements := es\<rparr>) = realm s"
  "lives (s\<lparr>st_tasks := ts\<rparr>) = lives s" "realm (s\<lparr>st_tasks := ts\<rparr>) = realm s"
  "lives (s\<lparr>st_returning := rs\<rparr>) = lives s" "realm (s\<lparr>st_returning := rs\<rparr>) = realm s"
  "lives (addToChunk cx cy i s) = lives s" "realm (addToChunk cx cy i s) = realm s"
  "lives (removeFromChunk cx cy i s) = lives s" "realm (removeFromChunk cx cy i s) = realm s"
  by (auto simp: realm_def send_def submit_job_def MarkDirty_def ClearMovement_def SetMovement_def NewMovementID_def Let_def
      addToChunk_def removeFromChunk_def intro!: lives_keep)

lemma keep_units [simp]:
  "lives (set_status i st s) = lives s" "realm (set_status i st s) = realm s"
  "lives (snd (MoveUnitTo i t s)) = lives s" "realm (snd (MoveUnitTo i t s)) = realm s"
  by (auto simp: set_status_def life_of_def MoveUnitTo_def Let_def SetTile_def split: prod.splits)

lemma keep_announce [simp]:
  "lives (to_chunk_of x y m s) = lives s" "realm (to_chunk_of x y m s) = realm s"
  "lives (to_others_of x y p m s) = lives s" "realm (to_others_of x y p m s) = realm s"
  "lives (broadcastStatus i s) = lives s" "realm (broadcastStatus i s) = realm s"
  "lives (submitFinish f j s) = lives s" "realm (submitFinish f j s) = realm s"
  "lives (dropTask i s) = lives s" "realm (dropTask i s) = realm s"
  by (simp_all add: to_chunk_of_def to_others_of_def broadcastStatus_def submitFinish_def dropTask_def Let_def
      split: prod.splits option.splits)

lemma keep_moveUnit [simp]: "lives (moveUnit i t p n s) = lives s" "realm (moveUnit i t p n s) = realm s"
proof -
  obtain b s1 where m: "MoveUnitTo i t s = (b, s1)" by (cases "MoveUnitTo i t s")
  from m keep_units(3,4) [of i t s] have "lives s1 = lives s" "realm s1 = realm s" by simp_all
  then show "lives (moveUnit i t p n s) = lives s" "realm (moveUnit i t p n s) = realm s"
    by (simp_all add: moveUnit_def m Let_def split: prod.splits)
qed

lemma keep_cancel [simp]:
  "lives (cancelActiveMovement i r n s) = lives s" "realm (cancelActiveMovement i r n s) = realm s"
  by (simp_all add: cancelActiveMovement_def Let_def split: option.splits)

lemma keep_begin [simp]:
  "lives (snd (beginMovement i o' t path n acc s)) = lives s" "realm (snd (beginMovement i o' t path n acc s)) = realm s"
proof -
  let ?c = "cancelActiveMovement i ReasonReplaced n (dropTask i s)"
  obtain k s1 where m: "NewMovementID ?c = (k, s1)" by (cases "NewMovementID ?c")
  from m keep_plain(11,12) [of ?c] have "lives s1 = lives s" "realm s1 = realm s" by simp_all
  then show "lives (snd (beginMovement i o' t path n acc s)) = lives s" "realm (snd (beginMovement i o' t path n acc s)) = realm s"
    by (simp_all add: beginMovement_def m Let_def split: option.splits)
qed

lemma keep_return [simp]: "lives (returnToPost D i p n s) = lives s" "realm (returnToPost D i p n s) = realm s"
proof -
  have "lives s' = lives s \<and> realm s' = realm s" if "beginMovement i q p path n None s = (k, s')" for q path k s'
    using keep_begin [of i q p path n None s] that by simp
  then show "lives (returnToPost D i p n s) = lives s" "realm (returnToPost D i p n s) = realm s"
    by (simp_all add: returnToPost_def Let_def split: sum.splits prod.splits)
qed

lemma keep_end [simp]: "lives (endEngagement D i b s) = lives s" "realm (endEngagement D i b s) = realm s"
  unfolding endEngagement_def Let_def
  by (simp_all add: if_distrib [of lives] if_distrib [of realm] split: option.split split del: if_split cong: if_cong)

lemma keep_engage [simp]:
  "lives (install_engagement i e s) = lives s" "realm (install_engagement i e s) = realm s"
  "lives (upd_engagement i f s) = lives s" "realm (upd_engagement i f s) = realm s"
  by (simp_all add: install_engagement_def upd_engagement_def split: option.splits)

lemma keep_stand [simp]: "lives (startAttacking i n s) = lives s" "realm (startAttacking i n s) = realm s"
  by (simp_all add: startAttacking_def Let_def)

lemma keep_chase [simp]: "lives (chase D i a t d n s) = lives s" "realm (chase D i a t d n s) = realm s"
  by (simp_all add: chase_def Let_def split: option.splits sum.splits)

lemma keep_respond [simp]: "lives (respond D g a n s) = lives s" "realm (respond D g a n s) = realm s"
  by (simp_all add: respond_def Let_def split: option.splits sum.splits)

lemma keep_fold:
  assumes "\<And>x s. lives (f x s) = lives s" and "\<And>x s. realm (f x s) = realm s"
  shows "lives (fold f xs s) = lives s \<and> realm (fold f xs s) = realm s"
  by (induction xs arbitrary: s) (simp_all add: assms)

lemma keep_alarm [simp]:
  "lives (raiseAlarm D n al s) = lives s" "realm (raiseAlarm D n al s) = realm s"
  "lives (raiseCityAlarm D n a c s) = lives s" "realm (raiseCityAlarm D n a c s) = realm s"
  by (auto simp: raiseAlarm_def raiseCityAlarm_def Let_def keep_fold split: option.splits)

subsection \<open>The engagements of the others\<close>

definition fight :: "sim \<Rightarrow> int64 \<Rightarrow> engagement option" where
  "fight s i = map_of (st_engagements s) i"

lemma fight_keep: "st_engagements s' = st_engagements s \<Longrightarrow> fight s' = fight s" by (simp add: fight_def fun_eq_iff)

lemma fight_plain [simp]:
  "fight (send m s) = fight s" "fight (submit_job n k x c s) = fight s" "fight (MarkDirty i s) = fight s"
  "fight (ClearMovement i s) = fight s" "fight (SetMovement mv s) = fight s" "fight (snd (NewMovementID s)) = fight s"
  "fight (s\<lparr>st_tasks := ts\<rparr>) = fight s" "fight (s\<lparr>st_returning := rs\<rparr>) = fight s"
  "fight (addToChunk cx cy i s) = fight s" "fight (removeFromChunk cx cy i s) = fight s"
  "fight (upd_unit i f s) = fight s"
  by (auto simp: send_def submit_job_def MarkDirty_def ClearMovement_def SetMovement_def NewMovementID_def Let_def
      addToChunk_def removeFromChunk_def upd_unit_def intro!: fight_keep split: option.splits)

lemma fight_units [simp]:
  "fight (set_status i st s) = fight s" "fight (snd (MoveUnitTo i t s)) = fight s"
  by (auto simp: set_status_def MoveUnitTo_def Let_def split: prod.splits)

lemma fight_announce [simp]:
  "fight (to_chunk_of x y m s) = fight s" "fight (to_others_of x y p m s) = fight s" "fight (broadcastStatus i s) = fight s"
  "fight (submitFinish f j s) = fight s" "fight (dropTask i s) = fight s"
  by (simp_all add: to_chunk_of_def to_others_of_def broadcastStatus_def submitFinish_def dropTask_def Let_def
      split: prod.splits option.splits)

lemma fight_moveUnit [simp]: "fight (moveUnit i t p n s) = fight s"
proof -
  obtain b s1 where m: "MoveUnitTo i t s = (b, s1)" by (cases "MoveUnitTo i t s")
  from m fight_units(2) [of i t s] have "fight s1 = fight s" by simp
  then show ?thesis by (simp add: moveUnit_def m Let_def split: prod.splits)
qed

lemma fight_cancel [simp]: "fight (cancelActiveMovement i r n s) = fight s"
  by (simp add: cancelActiveMovement_def Let_def split: option.splits)

lemma fight_begin [simp]: "fight (snd (beginMovement i o' t path n acc s)) = fight s"
proof -
  let ?c = "cancelActiveMovement i ReasonReplaced n (dropTask i s)"
  obtain k s1 where m: "NewMovementID ?c = (k, s1)" by (cases "NewMovementID ?c")
  from m fight_plain(6) [of ?c] have "fight s1 = fight s" by simp
  then show ?thesis by (simp add: beginMovement_def m Let_def split: option.splits)
qed

lemma fight_return [simp]: "fight (returnToPost D i p n s) = fight s"
proof -
  have "fight s' = fight s" if "beginMovement i q p path n None s = (k, s')" for q path k s'
    using fight_begin [of i q p path n None s] that by simp
  then show ?thesis by (simp add: returnToPost_def Let_def split: sum.splits prod.splits)
qed

lemma fight_engage [simp]:
  "fight (install_engagement i e s) = (fight s)(i \<mapsto> e)"
  "i \<noteq> j \<Longrightarrow> fight (upd_engagement i f s) j = fight s j"
  by (auto simp: fight_def install_engagement_def upd_engagement_def fun_eq_iff split: option.splits)

lemma fight_del [simp]: "fight (s\<lparr>st_engagements := del_key i es\<rparr>) j = (if j = i then None else map_of es j)"
  by (simp add: fight_def delete_conv')

lemma fight_end [simp]: "fight (endEngagement D i b s) = (fight s)(i := None)"
proof -
  have "fight (s\<lparr>st_engagements := del_key i (st_engagements s)\<rparr>) = (fight s)(i := None)"
    by (auto simp: fight_def)
  moreover have "fight s i = None \<Longrightarrow> fight s = (fight s)(i := None)" by (auto simp: fun_eq_iff)
  ultimately show ?thesis unfolding endEngagement_def Let_def
    by (simp add: if_distrib [of fight] fight_def [symmetric] split: option.split split del: if_split cong: if_cong)
qed

lemma fight_stand [simp]: "i \<noteq> j \<Longrightarrow> fight (startAttacking i n s) j = fight s j"
  by (simp add: startAttacking_def Let_def)

lemma fight_chase [simp]: "i \<noteq> j \<Longrightarrow> fight (chase D i a t d n s) j = fight s j"
  by (simp add: chase_def Let_def split: option.splits sum.splits)

subsection \<open>The steps of a fight\<close>

lemma approach_first_keep:
  "approach_first D i e a d n ts er s = Ok s' \<Longrightarrow>
     lives s' = lives s \<and> realm s' = realm s \<and> (\<forall>j. j \<noteq> i \<longrightarrow> fight s' j = fight s j)"
  by (induction D i e a d n ts er s rule: approach_first.induct) (auto split: sum.splits option.splits)

lemma approach_keep:
  "approach D i e a d n ts s = Ok s' \<Longrightarrow>
     lives s' = lives s \<and> realm s' = realm s \<and> (\<forall>j. j \<noteq> i \<longrightarrow> fight s' j = fight s j)"
  unfolding approach_def by (auto split: if_splits dest: approach_first_keep)

definition quiet :: "int64 \<Rightarrow> sim \<Rightarrow> sim \<Rightarrow> bool" where
  "quiet i s s' \<longleftrightarrow> lives s' = lives s \<and> realm s' = realm s \<and> (\<forall>j. j \<noteq> i \<longrightarrow> fight s' j = fight s j)"

lemma quietI [intro]:
  "lives s' = lives s \<Longrightarrow> realm s' = realm s \<Longrightarrow> (\<And>j. j \<noteq> i \<Longrightarrow> fight s' j = fight s j) \<Longrightarrow> quiet i s s'"
  by (simp add: quiet_def)

lemma quiet_refl [simp]: "quiet i s s" by (simp add: quiet_def)

lemma quiet_trans: "quiet i s s1 \<Longrightarrow> quiet i s1 s2 \<Longrightarrow> quiet i s s2" by (simp add: quiet_def)

lemma quiet_ops [simp]:
  "quiet i s (endEngagement D i b s)" "quiet i s (startAttacking i n s)" "quiet i s (chase D i a t d n s)"
  "quiet i s (upd_engagement i f s)" "quiet i s (upd_engagement i f (startAttacking i n s))"
  by (auto intro!: quietI)

lemma quiet_approach: "approachWall D i e c a d n s = Ok s' \<Longrightarrow> quiet i s s'" "approachHouse D i e b a d n s = Ok s' \<Longrightarrow> quiet i s s'"
  by (auto simp: approachWall_def approachHouse_def dest!: approach_keep intro!: quietI)

lemma quiet_pillage: "stepPillage D i e n now s = (s', h) \<Longrightarrow> quiet i s s'"
  unfolding stepPillage_def Let_def by (auto split: option.splits sum.splits if_splits prod.splits dest: quiet_approach)

lemma quiet_siege: "stepSiege D i e n now s = (s', h) \<Longrightarrow> quiet i s s'"
  unfolding stepSiege_def Let_def by (auto split: option.splits sum.splits if_splits prod.splits dest: quiet_approach)

lemma quiet_attack: "step_attack D i e n now s = (s', h) \<Longrightarrow> quiet i s s'"
  unfolding step_attack_def Let_def by (auto split: option.splits sum.splits if_splits prod.splits)

text \<open>A blow against a unit is owed only when the rules allow it.\<close>

lemma step_attack_hit:
  assumes "step_attack D i e n now s = (s', Some h)"
  obtains t d where "ht_attacker h = i" "ht_target h = en_targetID e" "map_of (st_units s) (en_targetID e) = Some t" "IsAlive t"
    "Lookup_unit (u_Type (unit_at s i)) = Ok d" "ht_damage h = ud_AttackDamage d"
    "attackBlocked D s (unit_at s i) t (authoritativePosition s i n) (authoritativePosition s (en_targetID e) n) now = None"
    "chebyshevTiles (authoritativePosition s i n) (authoritativePosition s (en_targetID e) n) \<le> ud_AttackRange d"
  using assms unfolding step_attack_def Let_def by (auto split: option.splits sum.splits if_splits)

subsection \<open>Who may be harmed\<close>

definition may_harm :: "deps \<Rightarrow> sim \<Rightarrow> instant \<Rightarrow> int64 \<Rightarrow> int64 \<Rightarrow> bool" where
  "may_harm D s now i j \<longleftrightarrow>
     (\<exists>e a t. map_of (st_engagements s) i = Some e \<and> en_targetID e = j \<and> en_cityID e = 0 \<and> en_buildingID e = 0
        \<and> map_of (st_units s) i = Some a \<and> map_of (st_units s) j = Some t
        \<and> u_PlayerID a \<noteq> u_PlayerID t \<and> \<not> AtPeace D s (u_PlayerID a) (u_PlayerID t) now
        \<and> \<not> protected_now s (u_PlayerID a) now \<and> \<not> protected_now s (u_PlayerID t) now)"

lemma same_realm:
  assumes "realm s' = realm s"
  shows "protected_now s' p now = protected_now s p now" "AtPeace D s' p q now = AtPeace D s p q now"
proof -
  have eq: "st_cities s' = st_cities s" "st_cityByOwner s' = st_cityByOwner s" "st_treaties s' = st_treaties s"
    using assms by (simp_all add: realm_def)
  show "protected_now s' p now = protected_now s p now" unfolding protected_now_def CityOf_def eq ..
  show "AtPeace D s' p q now = AtPeace D s p q now" unfolding AtPeace_def openOf_def eq ..
qed

lemma same_lives:
  assumes "lives s' = lives s" and "map_of (st_units s') i = Some u'"
  obtains u where "map_of (st_units s) i = Some u" "life_of u = life_of u'"
proof -
  have "lives s i = Some (life_of u')" using assms(2) fun_cong [OF assms(1), of i] by (simp add: lives_def)
  then show thesis using that by (auto simp: lives_def)
qed

lemma life_player: "life_of u = life_of v \<Longrightarrow> u_PlayerID u = u_PlayerID v" by (simp add: life_of_def)

definition fair :: "deps \<Rightarrow> sim \<Rightarrow> instant \<Rightarrow> int64 list \<Rightarrow> sim \<times> blows \<Rightarrow> bool" where
  "fair D s0 now todo st \<longleftrightarrow>
     lives (fst st) = lives s0 \<and> realm (fst st) = realm s0 \<and> (\<forall>i\<in>set todo. fight (fst st) i = fight s0 i)
     \<and> (\<forall>h\<in>set (bw_hits (snd st)). may_harm D s0 now (ht_attacker h) (ht_target h))"

lemma fair_quiet:
  assumes "fair D s0 now (i # is) (s, b)" and "quiet i s s'" and "i \<notin> set is"
    and "\<And>h. h \<in> set (bw_hits b') \<Longrightarrow> h \<in> set (bw_hits b) \<or> may_harm D s0 now (ht_attacker h) (ht_target h)"
  shows "fair D s0 now is (s', b')"
  using assms unfolding fair_def quiet_def by (auto, metis)

lemma fair_step:
  assumes f: "fair D s0 now (i # is) (s, b)" and i: "i \<notin> set is"
  shows "fair D s0 now is (combat_step D nowMs now i (s, b))"
proof (cases "map_of (st_engagements s) i")
  case None
  then show ?thesis using fair_quiet [OF f quiet_refl i] by (simp add: combat_step_def)
next
  case (Some e)
  have fe: "fight s0 i = Some e" using f Some unfolding fair_def fight_def by auto
  consider (dead) "\<not> has_key (st_units s) i \<or> \<not> IsAlive (unit_at s i)"
    | (pil) "has_key (st_units s) i" "IsAlive (unit_at s i)" "en_cityID e \<noteq> 0"
    | (sg) "has_key (st_units s) i" "IsAlive (unit_at s i)" "en_cityID e = 0" "en_buildingID e \<noteq> 0"
    | (hit) "has_key (st_units s) i" "IsAlive (unit_at s i)" "en_cityID e = 0" "en_buildingID e = 0"
    by blast
  then show ?thesis
  proof cases
    case dead
    have q: "quiet i s (s\<lparr>st_engagements := del_key i (st_engagements s)\<rparr>)" by (intro quietI) (auto simp: fight_def)
    from dead Some show ?thesis using fair_quiet [OF f q i] by (auto simp: combat_step_def)
  next
    case pil
    obtain s1 h where p: "stepPillage D i e nowMs now s = (s1, h)" by (cases "stepPillage D i e nowMs now s")
    show ?thesis using pil Some by (auto simp: combat_step_def p split: option.splits intro!: fair_quiet [OF f quiet_pillage [OF p] i])
  next
    case sg
    obtain s1 h where p: "stepSiege D i e nowMs now s = (s1, h)" by (cases "stepSiege D i e nowMs now s")
    show ?thesis using sg Some by (auto simp: combat_step_def p split: option.splits intro!: fair_quiet [OF f quiet_siege [OF p] i])
  next
    case hit
    obtain s1 h where p: "step_attack D i e nowMs now s = (s1, h)" by (cases "step_attack D i e nowMs now s")
    have harm: "may_harm D s0 now (ht_attacker hh) (ht_target hh)" if "h = Some hh" for hh
    proof -
      from p that have ph: "step_attack D i e nowMs now s = (s1, Some hh)" by simp
      from step_attack_hit [OF ph] obtain t where t: "ht_attacker hh = i" "ht_target hh = en_targetID e"
          "map_of (st_units s) (en_targetID e) = Some t"
          "attackBlocked D s (unit_at s i) t (authoritativePosition s i nowMs) (authoritativePosition s (en_targetID e) nowMs) now = None"
        by metis
      obtain a where a: "map_of (st_units s) i = Some a" using hit(1) by (auto simp: has_key_def)
      have l: "lives s = lives s0" "realm s = realm s0" using f by (simp_all add: fair_def)
      obtain a0 t0 where a0: "map_of (st_units s0) i = Some a0" "life_of a0 = life_of a"
          and t0: "map_of (st_units s0) (en_targetID e) = Some t0" "life_of t0 = life_of t"
        using same_lives [OF l(1) a] same_lives [OF l(1) t(3)] by metis
      have "unit_at s i = a" using a by (simp add: unit_at_def)
      with t(4) have "u_PlayerID t \<noteq> u_PlayerID a" "\<not> protected_now s (u_PlayerID t) now"
          "\<not> protected_now s (u_PlayerID a) now" "\<not> AtPeace D s (u_PlayerID a) (u_PlayerID t) now"
        by (auto simp: attackBlocked_def split: if_splits)
      then show ?thesis unfolding may_harm_def t(1,2)
        using fe hit(3,4) a0 t0 life_player [OF a0(2)] life_player [OF t0(2)] same_realm [OF l(2)]
        by (auto simp: fight_def)
    qed
    show ?thesis using hit Some harm
      by (auto simp: combat_step_def p split: option.splits intro!: fair_quiet [OF f quiet_attack [OF p] i])
  qed
qed

lemma fair_fold:
  assumes "fair D s0 now is st" and "distinct is"
  shows "fair D s0 now [] (fold (combat_step D nowMs now) is st)"
  using assms
proof (induction "is" arbitrary: st)
  case (Cons i "is")
  obtain s b where st: "st = (s, b)" by (cases st)
  have "fair D s0 now is (combat_step D nowMs now i (s, b))" using Cons.prems st by (intro fair_step) auto
  with Cons st show ?case by simp
qed simp

subsection \<open>The life of the units through a tick\<close>

definition hp :: "sim \<Rightarrow> int64 \<Rightarrow> int32 option" where
  "hp s j = map_option u_HP (map_of (st_units s) j)"

lemma hp_lives: "lives s' = lives s \<Longrightarrow> hp s' = hp s"
proof (rule ext)
  fix j assume "lives s' = lives s"
  then have "lives s' j = lives s j" by simp
  then have "map_option (\<lambda>(_, _, h, _). h) (lives s' j) = map_option (\<lambda>(_, _, h, _). h) (lives s j)" by simp
  moreover have "map_option (\<lambda>(_, _, h, _). h) (lives t j) = hp t j" for t
    by (cases "map_of (st_units t) j") (simp_all add: lives_def hp_def life_of_def)
  ultimately show "hp s' j = hp s j" by simp
qed

lemma hp_keep: "st_units s' = st_units s \<Longrightarrow> hp s' = hp s" by (simp add: hp_def fun_eq_iff)

lemma hp_upd [simp]: "(\<And>u. u_HP (f u) = u_HP u) \<Longrightarrow> hp (upd_unit i f s) = hp s"
  by (auto simp: hp_def upd_unit_def fun_eq_iff split: option.splits)

lemma hp_upd_other: "j \<noteq> i \<Longrightarrow> hp (upd_unit i f s) j = hp s j"
  by (simp add: hp_def upd_unit_def split: option.splits)

lemma hp_base [simp]:
  "hp (send m s) = hp s" "hp (submit_job n k x c s) = hp s" "hp (MarkDirty i s) = hp s" "hp (ClearMovement i s) = hp s"
  "hp (to_chunk_of px py mm s) = hp s" "hp (endEngagement D i b s) = hp s" "hp (upd_engagement i f s) = hp s"
  "hp (raiseAlarm D nm al s) = hp s" "hp (raiseCityAlarm D nm a cc s) = hp s"
  by (auto intro: hp_lives)

lemma hp_fold: "(\<And>x s. hp (f x s) j = hp s j) \<Longrightarrow> hp (fold f xs s) j = hp s j"
  by (induction xs arbitrary: s) simp_all

lemma hp_state [simp]:
  "hp (upd_city i f s) = hp s" "hp (put_stock i r rs s) = hp s" "hp (markStockDirty i s) = hp s"
  "hp (removeBuilding b s) = hp s" "hp (broadcastCity c p s) = hp s" "hp (broadcastStocks c s) = hp s"
  "hp (sendNotices e s) = hp s" "hp (broadcastCarrying i s) = hp s"
proof -
  show "hp (sendNotices e s) = hp s" unfolding sendNotices_def by (intro ext hp_fold) simp
qed (auto simp: upd_city_def put_stock_def markStockDirty_def removeBuilding_def broadcastCity_def broadcastStocks_def
      broadcastCarrying_def intro!: hp_keep split: option.splits prod.splits)

lemma hp_remove: "j \<noteq> i \<Longrightarrow> hp (RemoveUnit i s) j = hp s j"
  by (auto simp: RemoveUnit_def Let_def hp_def unindexUnit_def removeFromChunk_def delete_conv' split: option.splits prod.splits)

lemma land_hp:
  assumes "land D n h (s, ks, als) = (s', ks', als')"
  shows "j \<noteq> ht_target h \<Longrightarrow> hp s' j = hp s j" "dom (map_of ks') \<subseteq> insert (ht_target h) (dom (map_of ks))"
proof -
  have sa: "hp (submitAttack D h n t) = hp t" for t by (simp add: submitAttack_def Let_def)
  show "j \<noteq> ht_target h \<Longrightarrow> hp s' j = hp s j"
  proof -
    assume "j \<noteq> ht_target h"
    then have "hp (fst (land D n h (s, ks, als))) j = hp s j"
      by (simp add: land_def Let_def hp_upd_other sa if_distrib [of hp] if_distrib [of fst] if_distrib [of "\<lambda>f. f j"]
          split del: if_split cong: if_cong)
    then show "hp s' j = hp s j" using assms by simp
  qed
  show "dom (map_of ks') \<subseteq> insert (ht_target h) (dom (map_of ks))"
  proof -
    have "dom (map_of (fst (snd (land D n h (s, ks, als))))) \<subseteq> insert (ht_target h) (dom (map_of ks))"
      unfolding land_def Let_def by (auto simp: if_distrib [of fst] if_distrib [of snd] split: if_splits)
    then show ?thesis using assms by simp
  qed
qed

lemma lands_hp:
  assumes "fold (land D n) hs (s, ks, als) = (s', ks', als')"
  shows "(j \<notin> ht_target ` set hs \<longrightarrow> hp s' j = hp s j) \<and> dom (map_of ks') \<subseteq> ht_target ` set hs \<union> dom (map_of ks)"
  using assms
proof (induction hs arbitrary: s ks als)
  case (Cons h hs)
  obtain s1 ks1 als1 where l: "land D n h (s, ks, als) = (s1, ks1, als1)" by (cases "land D n h (s, ks, als)")
  with Cons.prems have f: "fold (land D n) hs (s1, ks1, als1) = (s', ks', als')" by simp
  have "dom (map_of ks') \<subseteq> ht_target ` set hs \<union> dom (map_of ks1)" using Cons.IH [OF f] by (rule conjunct2)
  also have "\<dots> \<subseteq> ht_target ` set (h # hs) \<union> dom (map_of ks)" using land_hp(2) [OF l] by (simp only: list.set image_insert) blast
  finally have "dom (map_of ks') \<subseteq> ht_target ` set (h # hs) \<union> dom (map_of ks)" .
  moreover have "hp s' j = hp s j" if "j \<notin> ht_target ` set (h # hs)"
  proof -
    have "j \<notin> ht_target ` set hs" "j \<noteq> ht_target h" using that by simp_all
    with conjunct1 [OF Cons.IH [OF f]] land_hp(1) [OF l, where j = j] show ?thesis by simp
  qed
  ultimately show ?case by blast
qed simp

lemma hp_drop [simp]: "hp (drop_dead i s) = hp s"
  by (simp add: drop_dead_def Let_def ClearMovement_def hp_def fun_eq_iff)

lemma kill_hp: "j \<noteq> i \<Longrightarrow> hp (kill D i kp n s) j = hp s j"
  unfolding kill_def Let_def submitDeath_def
  by (simp add: hp_upd_other hp_remove hp_fold split: prod.splits option.splits)

lemma kills_hp:
  assumes "j \<notin> set is"
  shows "hp (fold (\<lambda>i s. case map_of ks i of None \<Rightarrow> s | Some k \<Rightarrow> if has_key (st_units s) i then kill D i k n s else s) is s) j = hp s j"
  using assms by (induction "is" arbitrary: s) (auto simp: kill_hp split: option.splits)

lemma hp_deposit [simp]: "hp (deposit_stock c r a s) = hp s"
  unfolding deposit_stock_def Let_def by (auto intro!: hp_keep [symmetric, THEN sym] split: sum.splits) (simp_all add: hp_def put_stock_def fun_eq_iff)

lemma hp_depositLoot [simp]: "hp (depositLoot i at s) = hp s"
  by (simp add: depositLoot_def Let_def split: option.splits)

lemma hp_with [simp]:
  "hp (s\<lparr>st_pendingLoot := x\<rparr>) = hp s" "hp (s\<lparr>st_houseDamage := y\<rparr>) = hp s" "hp (s\<lparr>st_stockDirty := z\<rparr>) = hp s"
  by (simp_all add: hp_def fun_eq_iff)

lemma hp_pillageResolved [simp]: "hp (handlePillageResolved i c a k f s) = hp s"
  unfolding handlePillageResolved_def Let_def by (auto split: option.splits sum.splits)

lemma hp_reserve: "reserve_stock c k s = Ok (x, v, s') \<Longrightarrow> hp s' = hp s"
  by (auto simp: reserve_stock_def Let_def split: sum.splits)

lemma hp_submitPillage [simp]: "hp (submitPillage D p k s) = hp s"
  by (simp add: submitPillage_def)

text \<open>A blow of pillage either gives up or reserves the wood and sends it.\<close>

lemma applyPillage_cases:
  assumes "applyPillage D n (i, c) s = (s', ok)"
  obtains (kept) "\<not> ok" "s' = s \<or> s' = endEngagement D i True s"
  | (robbed) d ct amount k v s1 x p ev m s2 b where "ok" "Lookup_unit (u_Type (unit_at s i)) = Ok d" "map_of (st_cities s) c = Some ct"
    "amount = min (min (pillagePerHit D) (i32 (lootCarry s (unit_at s i) d - carrying s (unit_at s i))))
       (i64 (s_Amount (rs_stock (stock_of (economyOf s (c_ID ct)) ResourceWood)) - pillageFloor D))"
    "0 < amount" "pillageFloor D \<le> i64 (s_Amount (rs_stock (stock_of (economyOf s (c_ID ct)) ResourceWood)) - amount)"
    "reserve_stock (c_ID ct) \<lparr>k_Resource = ResourceWood, k_Amount = amount\<rparr> s = Ok (k, v, s1)"
    "s2 = sendNotices ev (send m (broadcastCarrying i (broadcastStocks ct
       (submitPillage D p k ((markStockDirty (c_ID ct) s1)\<lparr>st_pendingLoot := x\<rparr>)))))"
    "s' = (if b then endEngagement D i True s2 else s2)"
proof (cases "\<not> IsAlive (unit_at s i) \<or> \<not> has_key (st_engagements s) i")
  case True
  then have "applyPillage D n (i, c) s = (s, False)"
    by (cases "IsAlive (unit_at s i)") (simp_all add: applyPillage_def)
  with assms show thesis by (intro kept) simp_all
next
  case False
  note a = assms [unfolded applyPillage_def]
  have fin: thesis if "(endEngagement D i True s, False) = (s', ok)" using that by (intro kept) auto
  show thesis
  proof (cases "Lookup_unit (u_Type (unit_at s i))")
    case (Inl e) with a False fin show thesis by (simp add: Let_def del: Pair_inject)
  next
    case (Inr d)
    show thesis
    proof (cases "map_of (st_cities s) c")
      case None
      with a False Inr have "(s, False) = (s', ok)" by (simp add: Let_def del: Pair_inject)
      then show thesis by (intro kept) auto
    next
      case (Some ct)
      define amount where "amount = min (min (pillagePerHit D) (i32 (lootCarry s (unit_at s i) d - carrying s (unit_at s i))))
        (i64 (s_Amount (rs_stock (stock_of (economyOf s (c_ID ct)) ResourceWood)) - pillageFloor D))"
      let ?r = "reserve_stock (c_ID ct) \<lparr>k_Resource = ResourceWood, k_Amount = amount\<rparr> s"
      show thesis
      proof (cases "amount \<le> 0 \<or> i64 (s_Amount (rs_stock (stock_of (economyOf s (c_ID ct)) ResourceWood)) - amount) < pillageFloor D
          \<or> (\<exists>e. ?r = Err e)")
        case True
        with a False Inr Some fin show thesis
          by (auto simp add: Let_def simp del: Pair_inject simp flip: amount_def split: if_splits)
      next
        case g: False
        then obtain k v s1 where r: "?r = Ok (k, v, s1)" by (cases ?r) auto
        from a False Inr Some g r have "ok" by (simp add: Let_def flip: amount_def)
        from a False Inr Some g r show thesis
          by (simp add: Let_def flip: amount_def)
            (rule robbed [OF \<open>ok\<close> Inr Some amount_def _ _ r refl], linarith, linarith, elim conjE, erule sym)
      qed
    qed
  qed
qed

lemma hp_applyPillage: assumes "applyPillage D n h s = (s', ok)" shows "hp s' = hp s"
proof -
  obtain i c where h: "h = (i, c)" by (cases h)
  from assms [unfolded h] show ?thesis by (cases rule: applyPillage_cases) (auto simp: hp_reserve)
qed

lemma hp_destroyHouse [simp]: "hp (destroyHouse D b c i n s) = hp s"
proof -
  have *: "hp (submitDestruction D x t) = hp t" for x t
    unfolding submitDestruction_def handleBuildingDestroyResolved_def Let_def by (auto intro!: hp_keep)
  show ?thesis unfolding destroyHouse_def Let_def by (auto simp: * split: sum.splits prod.splits)
qed

lemma hp_applySiege: "applySiege D n h s = (s', ok) \<Longrightarrow> hp s' = hp s"
  unfolding applySiege_def Let_def by (auto split: prod.splits if_splits option.splits)

lemma hp_apply_all:
  assumes "\<And>h s s' ok. f h s = (s', ok) \<Longrightarrow> hp s' = hp s" and "apply_all f hs s = (s', l)"
  shows "hp s' = hp s"
proof -
  have "hp (fst (fold (\<lambda>h (s, landed). case f h s of (s, ok) \<Rightarrow> (s, if ok then landed @ [h] else landed)) hs st)) = hp (fst st)" for st
  proof (induction hs arbitrary: st)
    case (Cons h hs)
    obtain s1 l1 where st: "st = (s1, l1)" by (cases st)
    obtain s2 ok where f: "f h s1 = (s2, ok)" by (cases "f h s1")
    show ?case using assms(1) [OF f] by (simp add: st f Cons.IH)
  qed simp
  from this [of "(s, [])"] show ?thesis using assms(2) by (simp add: apply_all_def Let_def)
qed

lemma ResolveCombat_hp:
  assumes "hp (ResolveCombat D nowMs s) j \<noteq> hp s j"
  shows "\<exists>i. may_harm D s (nowMs * 1000000) i j"
proof -
  let ?now = "nowMs * 1000000"
  let ?st0 = "(s, \<lparr>bw_hits = [], bw_pillages = [], bw_sieges = []\<rparr>)"
  have ne: "st_engagements s \<noteq> []"
  proof
    assume "st_engagements s = []"
    then have "ResolveCombat D nowMs s = s" by (simp add: ResolveCombat_def)
    with assms show False by simp
  qed
  obtain s1 b where c: "fold (combat_step D nowMs ?now) (sorted_keys (st_engagements s)) ?st0 = (s1, b)"
    by (rule prod.exhaust)
  have "fair D s ?now (sorted_keys (st_engagements s)) ?st0" by (simp add: fair_def)
  from fair_fold [OF this, of nowMs] have fr: "fair D s ?now [] (s1, b)" by (simp add: c)
  then have h1: "hp s1 = hp s" by (intro hp_lives) (simp add: fair_def)
  obtain s2 ks als where l: "fold (land D nowMs) (bw_hits b) (s1, [], []) = (s2, ks, als)" by (rule prod_cases3)
  define s3 where "s3 = fold (\<lambda>i s. case map_of ks i of None \<Rightarrow> s
      | Some k \<Rightarrow> if has_key (st_units s) i then kill D i k nowMs s else s) (sorted_keys ks) s2"
  obtain s4 robbed where p: "apply_all (applyPillage D nowMs) (bw_pillages b) s3 = (s4, robbed)" by (rule prod.exhaust)
  obtain s5 besieged where g: "apply_all (applySiege D nowMs) (bw_sieges b) s4 = (s5, besieged)" by (rule prod.exhaust)
  have r: "ResolveCombat D nowMs s = fold (\<lambda>(i, bid, c, dmg). raiseCityAlarm D nowMs i c) besieged
      (fold (\<lambda>(i, c). raiseCityAlarm D nowMs i c) robbed (fold (raiseAlarm D nowMs) als s5))"
    unfolding ResolveCombat_def Let_def if_not_P [OF ne] by (simp only: c l s3_def [symmetric] p g prod.case)
  have "hp (ResolveCombat D nowMs s) j = hp s5 j"
  proof -
    have "hp (fold (\<lambda>(i, bid, c, dmg). raiseCityAlarm D nowMs i c) besieged t) j = hp t j" for t
      by (rule hp_fold) (simp split: prod.split)
    moreover have "hp (fold (\<lambda>(i, c). raiseCityAlarm D nowMs i c) robbed t) j = hp t j" for t
      by (rule hp_fold) (simp split: prod.split)
    moreover have "hp (fold (raiseAlarm D nowMs) als t) j = hp t j" for t by (rule hp_fold) simp
    ultimately show ?thesis unfolding r by simp
  qed
  also have "\<dots> = hp s3 j"
    using hp_apply_all [OF hp_applySiege g] hp_apply_all [OF hp_applyPillage p] by simp
  finally have e: "hp s3 j \<noteq> hp s1 j" using assms h1 by simp
  have "j \<in> ht_target ` set (bw_hits b)"
  proof (rule ccontr)
    assume n: "j \<notin> ht_target ` set (bw_hits b)"
    with lands_hp [OF l, where j = j] have "hp s2 j = hp s1 j" "j \<notin> set (sorted_keys ks)" by auto
    with kills_hp [where j = j and ?is = "sorted_keys ks" and ks = ks and D = D and n = nowMs and s = s2] e show False by (simp add: s3_def)
  qed
  with fr show ?thesis by (auto simp: fair_def)
qed

text \<open>
  C7: In a tick a unit keeps its life when every engagement against it comes from its own player,
  from a player at peace with its own, or when one of the two players is protected: only an enemy
  that the rules allow to strike can harm.
\<close>
theorem only_enemies_harm:
  assumes "map_of (st_units s) j = Some u"
    and "\<And>i e a. map_of (st_engagements s) i = Some e \<Longrightarrow> en_targetID e = j \<Longrightarrow> map_of (st_units s) i = Some a
      \<Longrightarrow> u_PlayerID a = u_PlayerID u \<or> AtPeace D s (u_PlayerID a) (u_PlayerID u) (nowMs * 1000000)
        \<or> protected_now s (u_PlayerID a) (nowMs * 1000000) \<or> protected_now s (u_PlayerID u) (nowMs * 1000000)"
  shows "\<exists>u'. map_of (st_units (ResolveCombat D nowMs s)) j = Some u' \<and> u_HP u' = u_HP u"
proof -
  have "hp (ResolveCombat D nowMs s) j = hp s j"
  proof (rule ccontr)
    assume "hp (ResolveCombat D nowMs s) j \<noteq> hp s j"
    from ResolveCombat_hp [OF this] obtain i where "may_harm D s (nowMs * 1000000) i j" ..
    with assms show False unfolding may_harm_def by fastforce
  qed
  with assms(1) show ?thesis by (simp add: hp_def)
qed

definition sample_fighter :: "int64 \<Rightarrow> uuid \<Rightarrow> unit_rec" where
  "sample_fighter i p = \<lparr>u_ID = i, u_PlayerID = p, u_CityID = None, u_Type = TypeWarrior, u_X = i, u_Y = 1,
     u_HP = 40, u_MaxHP = 40, u_Status = StatusIdle, u_Loot = 0\<rparr>"

definition sample_siege :: sim where
  "sample_siege = town\<lparr>st_cities := [(1, sample_city\<lparr>c_PresenceState := PresenceProtected, c_ProtectionUntil := None\<rparr>)],
     st_units := [(1, sample_fighter 1 7), (2, sample_fighter 2 8)],
     st_engagements := [(2, (engagement_of town 2)\<lparr>en_targetID := 1\<rparr>)]\<rparr>"

theorem only_enemies_harm_witness:
  "\<exists>u'. map_of (st_units (ResolveCombat sample_deps 5 sample_siege)) 1 = Some u' \<and> u_HP u' = 40"
proof -
  have p: "protected_now sample_siege 7 5000000"
    by (simp add: protected_now_def CityOf_def sample_siege_def ProtectedAt_def IsProtected_def)
  have "\<exists>u'. map_of (st_units (ResolveCombat sample_deps 5 sample_siege)) 1 = Some u' \<and> u_HP u' = u_HP (sample_fighter 1 7)"
    by (rule only_enemies_harm) (use p in \<open>auto simp: sample_siege_def sample_fighter_def\<close>)
  then show ?thesis by (simp add: sample_fighter_def)
qed

subsection \<open>The load of the dead\<close>

lemma keep_death [simp]:
  "lives (upd_city i f s) = lives s" "lives (broadcastCity c p s) = lives s" "lives (sendNotices e s) = lives s"
  "lives (broadcastCarrying i s) = lives s" "lives (drop_dead i s) = lives s"
proof -
  show "lives (sendNotices e s) = lives s" unfolding sendNotices_def
    by (rule keep_fold [THEN conjunct1]) simp_all
qed (auto simp: upd_city_def broadcastCity_def broadcastCarrying_def drop_dead_def ClearMovement_def Let_def
    intro!: lives_keep split: option.splits prod.splits)

lemma lives_remove: "lives (RemoveUnit i s) = (lives s)(i := None)"
proof (cases "map_of (st_units s) i")
  case None then show ?thesis by (auto simp: RemoveUnit_def lives_def fun_eq_iff)
next
  case (Some u) then show ?thesis
    by (auto simp: RemoveUnit_def lives_def fun_eq_iff Let_def unindexUnit_def removeFromChunk_def split: prod.splits)
qed

lemma loot_gained_bounds:
  "0 \<le> loot_gained s k carried" "0 \<le> carried \<Longrightarrow> loot_gained s k carried \<le> carried"
  by (simp_all add: loot_gained_def Let_def split: sum.split)

lemma drop_dead_room [simp]:
  "lootCarry (drop_dead i s) u d = lootCarry s u d" "u_ID u \<noteq> i \<Longrightarrow> carrying (drop_dead i s) u = carrying s u"
  by (simp_all add: drop_dead_def Let_def ClearMovement_def lootCarry_def carrying_def trait_def civilizationOf_def CityOf_def
      cong: option.case_cong)

definition killed :: "int64 \<Rightarrow> int64 \<Rightarrow> sim \<Rightarrow> int32" where
  "killed i k s = loot_gained (drop_dead i s) k (carried_by s i)"

text \<open>What a death leaves of the others before the killer takes its share.\<close>

lemma kill_shape:
  "\<exists>s1 d. kill D i (k, p) n s = submitDeath D d
     (if 0 < killed i k s
      then broadcastCarrying k (MarkDirty k (upd_unit k (\<lambda>u. u\<lparr>u_Loot := i32 (u_Loot u + killed i k s)\<rparr>) s1)) else s1)
   \<and> lives s1 = (lives s)(i := None)
   \<and> de_VictimID d = i \<and> de_KillerID d = k \<and> de_Loot d = killed i k s \<and> de_Lost d = i32 (carried_by s i - killed i k s)"
proof -
  define s0 where "s0 = upd_unit i (\<lambda>u. SetTile (authoritativePosition s i n) (u\<lparr>u_HP := 0, u_Status := StatusDead, u_Loot := 0\<rparr>)) (drop_dead i s)"
  have l0: "(lives s0)(i := None) = (lives s)(i := None)" unfolding s0_def by (simp add: lives_upd_unit)
  define cost where "cost = (case Lookup_unit (u_Type (unit_at s i)) of Ok d \<Rightarrow> ud_PopulationCost d | Err _ \<Rightarrow> 0)"
  define s2 where "s2 = (case cityOfUnit s0 (unit_at s i) of None \<Rightarrow> s0
     | Some c \<Rightarrow> let pop = i32 (c_Population c - cost); pop = (if pop < 0 then 0 else pop)
          in broadcastCity c ((CityUpdateOf 0)\<lparr>cu_Population := Some pop\<rparr>)
               (upd_city (c_ID c) (\<lambda>c. c\<lparr>c_Population := pop\<rparr>) s0))"
  have l2: "lives s2 = lives s0" unfolding s2_def by (simp add: Let_def split: option.split)
  define s3 where "s3 = sendNotices ((EventOf EventUnitKilled (u_PlayerID (unit_at s i)) p n (authoritativePosition s i n))
      \<lparr>ev_UnitType := u_Type (unit_at s i)\<rparr>)
     (RemoveUnit i (to_chunk_of (tX (authoritativePosition s i n)) (tY (authoritativePosition s i n)) (EntityDespawn i DespawnDead) s2))"
  have l3: "lives s3 = (lives s)(i := None)" unfolding s3_def by (simp add: lives_remove l2 l0)
  define s1 where "s1 = fold (\<lambda>a s. if has_key (st_units s) a then endEngagement D a True s else s) (attackersOf s3 i) s3"
  have "lives s1 = lives s3" unfolding s1_def by (rule keep_fold [THEN conjunct1]) simp_all
  with l3 have l1: "lives s1 = (lives s)(i := None)" by simp
  define d where "d = \<lparr>de_VictimID = i, de_VictimPlayer = u_PlayerID (unit_at s i), de_KillerID = k, de_KillerPlayer = p,
     de_CityID = u_CityID (unit_at s i), de_PopulationCost = cost, de_At = authoritativePosition s i n, de_Tick = st_tick s0,
     de_VictimType = u_Type (unit_at s i), de_AtMs = n, de_Loot = killed i k s, de_Lost = i32 (carried_by s i - killed i k s)\<rparr>"
  have "kill D i (k, p) n s = submitDeath D d
     (if 0 < killed i k s
      then broadcastCarrying k (MarkDirty k (upd_unit k (\<lambda>u. u\<lparr>u_Loot := i32 (u_Loot u + killed i k s)\<rparr>) s1)) else s1)"
    unfolding kill_def Let_def prod.case killed_def s1_def s3_def s2_def d_def cost_def s0_def by (rule refl)
  then show ?thesis using l1 by (intro exI [of _ s1] exI [of _ d]) (simp add: d_def)
qed

lemma lives_Some: "lives s i = Some l \<longleftrightarrow> (\<exists>u. map_of (st_units s) i = Some u \<and> life_of u = l)"
  by (auto simp: lives_def)

lemma killed_room:
  assumes "map_of (st_units s) k = Some u" and "u_ID u \<noteq> i" and "0 \<le> carried_by s i"
  shows "killed i k s =
    (if IsAlive u
     then case Lookup_unit (u_Type u) of
            Err _ \<Rightarrow> 0
          | Ok def \<Rightarrow> max 0 (min (carried_by s i) (i32 (lootCarry s u def - carrying s u)))
     else 0)"
proof -
  have "unit_at (drop_dead i s) k = u"
    using assms(1) by (simp add: unit_at_def drop_dead_def Let_def ClearMovement_def)
  with assms(2,3) show ?thesis
    by (auto simp: killed_def loot_gained_def Let_def split: sum.split)
qed

text \<open>
  C8: A death shares the load of the victim between the killer and what is lost. A living killer
  gains exactly the smaller of that load and its room, the loot its kind and its civilization let it
  carry less what it already carries and what its pending pillages will add; a dead one, or one
  without room, gains nothing. The written death says that gain and, as lost, the rest; no other unit
  gains or loses anything, and no load is created. The units are kept under their own id, and the
  load of the two fits in 32 bits.
\<close>
theorem kill_moves_the_load:
  assumes "map_of (st_units s) k = Some u" and "u_ID u = k" and "k \<noteq> i" and "dp_Combat D"
    and "0 \<le> carried_by s i" and "0 \<le> u_Loot u" and "u_Loot u + carried_by s i \<le> 2147483647"
  shows "\<exists>d u'. PersistDeath d \<in> jb_Run ` set (sm_jobs (kill D i (k, p) n s)) \<and> de_VictimID d = i
    \<and> de_Loot d =
        (if IsAlive u
         then case Lookup_unit (u_Type u) of
                Err _ \<Rightarrow> 0
              | Ok def \<Rightarrow> max 0 (min (carried_by s i) (i32 (lootCarry s u def - carrying s u)))
         else 0)
    \<and> de_Loot d + de_Lost d = carried_by s i \<and> 0 \<le> de_Loot d \<and> 0 \<le> de_Lost d
    \<and> map_of (st_units (kill D i (k, p) n s)) k = Some u' \<and> u_Loot u' = u_Loot u + de_Loot d
    \<and> map_of (st_units (kill D i (k, p) n s)) i = None
    \<and> (\<forall>j. j \<noteq> i \<longrightarrow> j \<noteq> k \<longrightarrow> lives (kill D i (k, p) n s) j = lives s j)"
proof -
  let ?g = "killed i k s"
  obtain s1 d where kl: "kill D i (k, p) n s = submitDeath D d
       (if 0 < ?g then broadcastCarrying k (MarkDirty k (upd_unit k (\<lambda>u. u\<lparr>u_Loot := i32 (u_Loot u + ?g)\<rparr>) s1)) else s1)"
    and l1: "lives s1 = (lives s)(i := None)" and d: "de_VictimID d = i" "de_Loot d = ?g" "de_Lost d = i32 (carried_by s i - ?g)"
    using kill_shape [of D i k p n s] by blast
  have g: "0 \<le> ?g" "?g \<le> carried_by s i" using loot_gained_bounds assms(5) by (auto simp: killed_def)
  have room: "de_Loot d = (if IsAlive u then case Lookup_unit (u_Type u) of Err _ \<Rightarrow> 0
      | Ok def \<Rightarrow> max 0 (min (carried_by s i) (i32 (lootCarry s u def - carrying s u))) else 0)"
    unfolding d(2) using killed_room [OF assms(1)] assms(2,3,5) by simp
  have lost: "de_Lost d = carried_by s i - ?g" unfolding d(3) using g assms(5-7) by (intro i32_id) auto
  have "lives s1 k = Some (life_of u)" using l1 assms(1,3) by (simp add: lives_def)
  then obtain u1 where u1: "map_of (st_units s1) k = Some u1" "life_of u1 = life_of u" by (auto simp: lives_Some)
  then have u1_loot: "u_Loot u1 = u_Loot u" "life_of (u1\<lparr>u_Loot := x\<rparr>) = life_of (u\<lparr>u_Loot := x\<rparr>)" for x
    by (simp_all add: life_of_def)
  have w: "i32 (u_Loot u + ?g) = u_Loot u + ?g" using g assms(6,7) by (intro i32_id) auto
  have L: "lives (kill D i (k, p) n s) = (lives s)(i := None, k := Some (life_of (u\<lparr>u_Loot := u_Loot u + ?g\<rparr>)))"
  proof (cases "0 < ?g")
    case True
    then show ?thesis using u1 u1_loot w assms(3,4)
      by (simp add: kl submitDeath_def lives_upd_unit unit_at_def l1)
  next
    case False
    with g have "?g = 0" by simp
    then show ?thesis using \<open>lives s1 k = _\<close> assms(3,4) l1 by (auto simp: kl submitDeath_def fun_eq_iff)
  qed
  then have "lives (kill D i (k, p) n s) k = Some (life_of (u\<lparr>u_Loot := u_Loot u + ?g\<rparr>))" by simp
  then obtain u' where u': "map_of (st_units (kill D i (k, p) n s)) k = Some u'" "u_Loot u' = u_Loot u + ?g"
    by (auto simp: lives_Some life_of_def)
  have "lives (kill D i (k, p) n s) i = None" using L assms(3) by simp
  then have "map_of (st_units (kill D i (k, p) n s)) i = None" by (simp add: lives_def)
  moreover have "PersistDeath d \<in> jb_Run ` set (sm_jobs (kill D i (k, p) n s))"
    using assms(4) by (simp add: kl submitDeath_def submit_job_def)
  ultimately show ?thesis using u' L g lost d(1,2)
    by (intro exI [of _ d] exI [of _ u'] conjI room) auto
qed

definition sample_loaded :: sim where
  "sample_loaded = upd_unit 1 (\<lambda>u. u\<lparr>u_Loot := 23\<rparr>) sample_siege"

text \<open>The victim carries 23 and the killer has room for 20: it takes 20 and 3 are lost.\<close>

theorem kill_moves_the_load_witness:
  "\<exists>d u'. PersistDeath d \<in> jb_Run ` set (sm_jobs (kill sample_deps 1 (2, 8) 5 sample_loaded))
    \<and> de_Loot d = 20 \<and> de_Lost d = 3
    \<and> map_of (st_units (kill sample_deps 1 (2, 8) 5 sample_loaded)) 2 = Some u' \<and> u_Loot u' = 20
    \<and> map_of (st_units (kill sample_deps 1 (2, 8) 5 sample_loaded)) 1 = None"
proof -
  have u: "map_of (st_units sample_loaded) 2 = Some (sample_fighter 2 8)"
    by (simp add: sample_loaded_def sample_siege_def upd_unit_def)
  have c: "carried_by sample_loaded 1 = 23"
    by (simp add: carried_by_def unit_at_def sample_loaded_def sample_siege_def upd_unit_def sample_fighter_def town_def
        New_simulation_def AddCity_def NewState_def state.extend_def)
  have f: "u_ID (sample_fighter 2 8) = 2" "u_Loot (sample_fighter 2 8) = 0" "IsAlive (sample_fighter 2 8)" "dp_Combat sample_deps"
    by (simp_all add: sample_fighter_def IsAlive_def sample_deps_def)
  obtain def where def: "Lookup_unit (u_Type (sample_fighter 2 8)) = Ok def" "ud_LootCarry def = 20"
    by (simp add: Lookup_unit_def unit_catalog_def sample_fighter_def TypeWarrior_def TypeVillager_def)
  have "trait sample_loaded 8 TraitLootCarry = 1000"
    by (simp add: trait_def civilizationOf_def CityOf_def sample_loaded_def sample_siege_def upd_unit_def TraitNeutral_def)
  then have "lootCarry sample_loaded (sample_fighter 2 8) def = 20"
    by (simp add: lootCarry_def def sample_fighter_def ScaleAmount_def Let_def TraitNeutral_def go_arith)
  moreover have "carrying sample_loaded (sample_fighter 2 8) = 0"
    by (simp add: carrying_def sample_fighter_def sample_loaded_def sample_siege_def upd_unit_def town_def New_simulation_def
        AddCity_def NewState_def state.extend_def i32_id)
  ultimately have r: "i32 (lootCarry sample_loaded (sample_fighter 2 8) def - carrying sample_loaded (sample_fighter 2 8)) = 20"
    by (simp add: i32_id)
  from kill_moves_the_load [OF u, of 1 sample_deps 8 5] c f def(1) r show ?thesis by auto
qed

subsection \<open>The floor of a pillage\<close>

abbreviation wood_of :: "sim \<Rightarrow> int64 \<Rightarrow> resource_stock" where
  "wood_of s c \<equiv> stock_of (economyOf s c) ResourceWood"

lemma economies_keep [simp]:
  "st_economies (send m s) = st_economies s" "st_economies (broadcastStocks ct s) = st_economies s"
  "st_economies (broadcastCarrying i s) = st_economies s" "st_economies (markStockDirty c s) = st_economies s"
  "st_economies (submit_job n k x cs s) = st_economies s"
  by (simp_all add: send_def broadcastStocks_def broadcastCity_def broadcastCarrying_def to_chunk_of_def markStockDirty_def
      submit_job_def split: prod.split option.split)

lemma economies_realm: "realm s' = realm s \<Longrightarrow> st_economies s' = st_economies s" by (simp add: realm_def)

lemma economies_more [simp]:
  "st_economies (endEngagement D i b s) = st_economies s" "st_economies (sendNotices e s) = st_economies s"
proof -
  show "st_economies (endEngagement D i b s) = st_economies s" by (rule economies_realm) simp
  show "st_economies (sendNotices e s) = st_economies s" unfolding sendNotices_def
    by (rule economies_realm) (rule keep_fold [THEN conjunct2], simp_all)
qed

lemma wood_put:
  "stock_of (economyOf (put_stock c r rs s) c') r' = (if c' = c \<and> r' = r then rs else stock_of (economyOf s c') r')"
  by (auto simp: put_stock_def economyOf_def stock_of_def split: option.splits)

lemma economy_cong: "st_economies s' = st_economies s \<Longrightarrow> economyOf s' = economyOf s"
  by (simp add: economyOf_def fun_eq_iff)

text \<open>
  C9: A blow of pillage that lands takes from the wood of the city, and from no other stock, at most
  what the configuration allows per blow and never leaves it under the floor; one that does not land
  takes nothing.
\<close>
theorem pillage_leaves_the_floor:
  assumes "applyPillage D n (i, c) s = (s', ok)" and "map_of (st_cities s) c = Some ct" and "dp_Combat D"
    and "wf_stock (rs_stock (wood_of s (c_ID ct)))"
  shows "if ok
    then \<exists>amount. 0 < amount \<and> amount \<le> pillagePerHit D
      \<and> s_Amount (rs_stock (wood_of s' (c_ID ct))) = s_Amount (rs_stock (wood_of s (c_ID ct))) - amount
      \<and> pillageFloor D \<le> s_Amount (rs_stock (wood_of s' (c_ID ct)))
      \<and> (\<forall>k r. (k, r) \<noteq> (c_ID ct, ResourceWood) \<longrightarrow> stock_of (economyOf s' k) r = stock_of (economyOf s k) r)
    else st_economies s' = st_economies s"
proof -
  from assms(1) show ?thesis
  proof (cases rule: applyPillage_cases)
    case kept then show ?thesis by auto
  next
    case (robbed d ct' amount k v s1 x p ev m s2 b)
    then have ct: "ct' = ct" using assms(2) by simp
    let ?st = "rs_stock (wood_of s (c_ID ct))"
    have afford: "amount \<le> s_Amount ?st" "s1 = put_stock (c_ID ct) ResourceWood
        \<lparr>rs_stock = ?st\<lparr>s_Amount := i64 (s_Amount ?st - amount), s_Version := i64 (s_Version ?st + 1)\<rparr>, rs_unflushed = 0\<rparr> s"
      using robbed(7) by (auto simp: ct reserve_stock_def Let_def Debit_def split: sum.splits if_splits)
    have w: "i64 (s_Amount ?st - amount) = s_Amount ?st - amount"
      using assms(4) afford(1) robbed(5) by (intro i64_id) (auto simp: wf_stock_def)
    have "st_economies s' = st_economies s1" using assms(3) by (simp add: robbed(8,9) submitPillage_def)
    then have e: "stock_of (economyOf s' x) y = stock_of (economyOf s1 x) y" for x y by (simp add: economyOf_def)
    have "amount \<le> pillagePerHit D" by (simp add: robbed(4))
    with robbed(1,5,6) w show ?thesis by (auto simp: e ct afford(2) wood_put)
  qed
qed

definition sample_store :: sim where
  "sample_store = sample_siege\<lparr>st_economies := [(1, \<lparr>ce_stocks = [(ResourceWood,
     \<lparr>rs_stock = \<lparr>s_Resource = ResourceWood, s_Amount = 100, s_Version = 3\<rparr>, rs_unflushed = 0\<rparr>)],
     ce_production = None, ce_advance = None\<rparr>)]\<rparr>"

lemma sample_store_sel:
  "wood_of sample_store 1 = \<lparr>rs_stock = \<lparr>s_Resource = ResourceWood, s_Amount = 100, s_Version = 3\<rparr>, rs_unflushed = 0\<rparr>"
  "unit_at sample_store 2 = sample_fighter 2 8" "IsAlive (sample_fighter 2 8)" "has_key (st_engagements sample_store) 2"
  "map_of (st_cities sample_store) 1 = Some (sample_city\<lparr>c_PresenceState := PresenceProtected, c_ProtectionUntil := None\<rparr>)"
  "pillageFloor sample_deps = 50" "pillagePerHit sample_deps = 5"
  by (simp_all add: sample_store_def sample_siege_def economyOf_def stock_of_def unit_at_def sample_fighter_def IsAlive_def
      has_key_def pillageFloor_def pillagePerHit_def sample_deps_def)

lemma sample_room:
  assumes "Lookup_unit (u_Type (sample_fighter 2 8)) = Ok d"
  shows "i32 (lootCarry sample_store (sample_fighter 2 8) d - carrying sample_store (sample_fighter 2 8)) = 20"
proof -
  have d: "ud_LootCarry d = 20"
    using assms by (auto simp: Lookup_unit_def unit_catalog_def sample_fighter_def TypeWarrior_def TypeVillager_def)
  have "trait sample_store 8 TraitLootCarry = 1000"
    by (simp add: trait_def civilizationOf_def CityOf_def sample_store_def sample_siege_def TraitNeutral_def)
  then have "lootCarry sample_store (sample_fighter 2 8) d = 20"
    by (simp add: lootCarry_def d sample_fighter_def ScaleAmount_def Let_def TraitNeutral_def go_arith)
  moreover have "carrying sample_store (sample_fighter 2 8) = 0"
    by (simp add: carrying_def sample_fighter_def sample_store_def sample_siege_def town_def New_simulation_def AddCity_def
        NewState_def state.extend_def i32_id)
  ultimately show ?thesis by (simp add: i32_id)
qed

lemma sample_deps_stores: "dp_Combat sample_deps" by (simp add: sample_deps_def)

lemma sample_blow: "snd (applyPillage sample_deps 5 (2, 1) sample_store)"
proof (rule ccontr)
  assume "\<not> snd (applyPillage sample_deps 5 (2, 1) sample_store)"
  moreover obtain d where d: "Lookup_unit (u_Type (sample_fighter 2 8)) = Ok d"
    by (simp add: Lookup_unit_def unit_catalog_def sample_fighter_def TypeWarrior_def TypeVillager_def)
  ultimately show False
    by (simp add: applyPillage_def sample_store_sel sample_room [OF d] d Let_def reserve_stock_def Debit_def sample_city_def i64_def)
qed

theorem pillage_leaves_the_floor_witness:
  "\<exists>s' amount. applyPillage sample_deps 5 (2, 1) sample_store = (s', True) \<and> 0 < amount \<and> amount \<le> 5
    \<and> s_Amount (rs_stock (wood_of s' 1)) = 100 - amount \<and> 50 \<le> s_Amount (rs_stock (wood_of s' 1))"
proof -
  obtain s' where s': "applyPillage sample_deps 5 (2, 1) sample_store = (s', True)"
    using sample_blow by (cases "applyPillage sample_deps 5 (2, 1) sample_store") simp
  have c: "c_ID (sample_city\<lparr>c_PresenceState := PresenceProtected, c_ProtectionUntil := None\<rparr>) = 1" by (simp add: sample_city_def)
  from pillage_leaves_the_floor [OF s' sample_store_sel(5)]
  have "\<exists>amount. 0 < amount \<and> amount \<le> 5 \<and> s_Amount (rs_stock (wood_of s' 1)) = 100 - amount
      \<and> 50 \<le> s_Amount (rs_stock (wood_of s' 1))"
    unfolding c using sample_deps_stores by (auto simp: sample_store_sel wf_stock_def)
  with s' show ?thesis by blast
qed

end
