(* ===== verification/Loop_Order.thy ===== *)
theory Loop_Order
  imports Game_Loop
begin

section \<open>Order of the commands and numbers of the ticks\<close>

text \<open>
  What the game loop promises: the commands of a tick run in the order of their channels, the answers
  of the persistence before those of the players, within one budget and without losing any; the
  next tick is due within a period; and the number of a tick is never used twice, whichever way
  the process ended before (crash or orderly stop), as long as the clock does not go back.
\<close>

subsection \<open>The commands of a tick\<close>

definition apply_commands :: "deps \<Rightarrow> command list \<Rightarrow> sim \<Rightarrow> sim" where
  "apply_commands D cs s = foldl (\<lambda>s c. Apply D c s) s cs"

lemma drain_take:
  "drain D n ch s = (min n (length ch), drop n ch, apply_commands D (take n ch) s)"
  by (induction D n ch s rule: drain.induct) (auto simp: apply_commands_def split: prod.splits)

lemma apply_commands_append: "apply_commands D (cs @ ds) s = apply_commands D ds (apply_commands D cs s)"
  by (simp add: apply_commands_def)

definition waiting :: "loop \<Rightarrow> command list" where
  "waiting l = (case lp_inbox l of None \<Rightarrow> [] | Some b \<Rightarrow> ib_ch b)"

definition budget :: "loop \<Rightarrow> nat" where
  "budget l = nat (lc_MaxCommandsPerTick (lp_cfg l))"

text \<open>
  C13: A tick applies, in order, the first commands of the inbox and then the first of the players
  up to one budget for both, and leaves the others in their channels in the same order: no command is
  lost, repeated or overtaken by another of its channel.
\<close>
theorem drainCommands_in_order:
  "lp_sim (drainCommands D l) =
     apply_commands D (take (budget l) (waiting l @ lp_commands l)) (lp_sim l)
   \<and> waiting (drainCommands D l) = drop (budget l) (waiting l)
   \<and> lp_commands (drainCommands D l) = drop (budget l - length (waiting l)) (lp_commands l)"
proof (cases "lp_inbox l")
  case None
  then show ?thesis by (simp add: drainCommands_def drain_take waiting_def budget_def Let_def)
next
  case (Some b)
  define n where "n = nat (lc_MaxCommandsPerTick (lp_cfg l))"
  have "nat (lc_MaxCommandsPerTick (lp_cfg l) - int (min n (length (ib_ch b)))) = n - length (ib_ch b)"
    unfolding n_def by linarith
  with Some show ?thesis
    by (simp add: drainCommands_def drain_take waiting_def budget_def Let_def apply_commands_append flip: n_def)
qed

subsection \<open>The calendar\<close>

lemma next_due_calendar:
  assumes "0 < period" and "1 \<le> n" and "n * period \<le> elapsed" and "elapsed + period < 2 ^ 63"
  shows "\<exists>n'. next_due period elapsed n = (n', n' * period - elapsed) \<and> n + 1 \<le> n'
    \<and> elapsed < n' * period \<and> n' * period \<le> elapsed + period"
proof -
  have le: "k \<le> k * period" if "0 \<le> k" for k :: int
    using mult_left_mono [of 1 period k] assms(1) that by simp
  have n0: "n \<le> elapsed" using le [of n] assms by linarith
  have r: "i64 k = k" if "0 \<le> k" "k \<le> elapsed + period" for k :: int
    using that assms by (intro i64_id) auto
  have n1: "(n + 1) * period \<le> elapsed + period" using assms by (simp add: algebra_simps)
  have r1: "i64 (n + 1) = n + 1" "i64 ((n + 1) * period) = (n + 1) * period"
    using n0 n1 assms by (auto intro!: r)
  show ?thesis
  proof (cases "(n + 1) * period \<le> elapsed")
    case False
    then have "i64 ((n + 1) * period - elapsed) = (n + 1) * period - elapsed" using n1 assms n0 by (intro r) auto
    with False show ?thesis using r1 n1 by (simp add: next_due_def Let_def)
  next
    case True
    define q where "q = elapsed div period"
    have q: "go_div elapsed period = q" using assms n0 unfolding q_def by (simp add: go_div_nonneg)
    have q2: "q * period \<le> elapsed" "elapsed < (1 + q) * period"
      using div_mult_bounds [of period elapsed] assms(1) unfolding q_def by (auto simp: algebra_simps)
    have qn: "n + 1 \<le> q" using True assms(1) unfolding q_def by (simp add: le_div_iff)
    have q3: "(1 + q) * period \<le> elapsed + period" using q2 by (simp add: algebra_simps)
    have "q \<le> elapsed" using le [of q] qn assms(2) q2 by linarith
    then have "i64 (q - (n + 1)) = q - (n + 1)" "i64 (q - n) = q - n" "i64 (1 + q) = 1 + q"
      "i64 ((1 + q) * period) = (1 + q) * period" "i64 ((1 + q) * period - elapsed) = (1 + q) * period - elapsed"
      using q2 q3 qn assms n0 by (intro r; linarith)+
    with True qn q q2 q3 r1 show ?thesis by (simp add: next_due_def Let_def)
  qed
qed

text \<open>
  C14: A tick that ran at or after its time leaves the next one due after the present and within one
  period, at a multiple of the period since the start: the ticks that were missed are skipped, never
  run in a burst, and the calendar does not drift.
\<close>
theorem next_tick_within_a_period:
  assumes "0 < period" and "1 \<le> n" and "n * period \<le> elapsed" and "elapsed + period < 2 ^ 63"
  shows "\<exists>n' wait. next_due period elapsed n = (n', wait) \<and> n < n' \<and> elapsed + wait = n' * period
    \<and> 0 < wait \<and> wait \<le> period"
  using next_due_calendar [OF assms] by fastforce

theorem next_tick_within_a_period_witness:
  "\<exists>n' wait. next_due 200000000 650000007 1 = (n', wait) \<and> 1 < n' \<and> 650000007 + wait = n' * 200000000
    \<and> 0 < wait \<and> wait \<le> 200000000"
  by (rule next_tick_within_a_period) simp_all

subsection \<open>The numbers of the ticks over the lives of the server\<close>

text \<open>
  The process, from outside: the clock, the tick saved by the last orderly stop, the numbers used so
  far, and while it runs its loop with the calendar of Run (the start, the number of the next due
  and its time). A start resumes the tick, then hydrates the world and only later runs the loop; a
  tick takes as long as it takes; a crash can come at any time.
\<close>

record clockwork =
  cw_now :: instant
  cw_saved :: "64 word"
  cw_emitted :: "64 word list"
  cw_life :: "(loop \<times> instant \<times> int64 \<times> instant) option"

inductive ticking :: "deps \<Rightarrow> int64 \<Rightarrow> duration \<Rightarrow> clockwork \<Rightarrow> clockwork \<Rightarrow> bool"
  for D :: deps and epochMs :: int64 and period :: duration where
  start: "cw_life c = None \<Longrightarrow> cw_now c \<le> t \<Longrightarrow> t \<le> t' \<Longrightarrow> t' + period < 2 ^ 63
    \<Longrightarrow> lc_StartTick cfg = fst (ResumeTick (cw_saved c) epochMs (t div 1000000) period)
    \<Longrightarrow> ticking D epochMs period c
          (c\<lparr>cw_now := t', cw_life := Some (New_loop s commands ib cfg, t', 1, t' + period)\<rparr>)"
| tick: "cw_life c = Some (l, t0, n, due) \<Longrightarrow> due \<le> t \<Longrightarrow> t \<le> t' \<Longrightarrow> t' + period < 2 ^ 63
    \<Longrightarrow> l' = Step D t (l\<lparr>lp_commands := commands, lp_inbox := ib\<rparr>) \<Longrightarrow> next_due period (t' - t0) n = (n', wait)
    \<Longrightarrow> ticking D epochMs period c
          (c\<lparr>cw_now := t', cw_emitted := lp_tick l' # cw_emitted c, cw_life := Some (l', t0, n', t' + wait)\<rparr>)"
| crash: "cw_now c \<le> t \<Longrightarrow> ticking D epochMs period c (c\<lparr>cw_now := t, cw_life := None\<rparr>)"
| stop: "cw_life c = Some (l, t0, n, due) \<Longrightarrow> cw_now c \<le> t
    \<Longrightarrow> ticking D epochMs period c (c\<lparr>cw_now := t, cw_saved := lp_tick l, cw_life := None\<rparr>)"

text \<open>The bound of the numbers at a time: the whole periods, in milliseconds, since the epoch.\<close>

definition ticks_until :: "int64 \<Rightarrow> duration \<Rightarrow> instant \<Rightarrow> int" where
  "ticks_until epochMs period t = (t div 1000000 - epochMs) div (period div 1000000)"

definition timely :: "int64 \<Rightarrow> duration \<Rightarrow> clockwork \<Rightarrow> bool" where
  "timely epochMs period c \<longleftrightarrow>
     epochMs \<le> cw_now c div 1000000
     \<and> int (unat (cw_saved c)) \<le> ticks_until epochMs period (cw_now c)
     \<and> (\<forall>x\<in>set (cw_emitted c). int (unat x) \<le> ticks_until epochMs period (cw_now c))
     \<and> sorted_wrt (>) (cw_emitted c)
     \<and> (case cw_life c of None \<Rightarrow> True
        | Some (l, t0, n, due) \<Rightarrow>
            epochMs \<le> t0 div 1000000 \<and> 1 \<le> n \<and> due = t0 + n * period \<and> t0 \<le> cw_now c \<and> cw_now c \<le> due
            \<and> int (unat (lp_tick l)) < ticks_until epochMs period t0 + n
            \<and> int (unat (lp_tick l)) \<le> ticks_until epochMs period (cw_now c)
            \<and> (\<forall>x\<in>set (cw_emitted c). x \<le> lp_tick l))"

lemma ticks_until_mono:
  assumes "1000000 \<le> period" and "t \<le> t'" shows "ticks_until e period t \<le> ticks_until e period t'"
proof -
  have "t div 1000000 \<le> t' div 1000000" using assms(2) by (rule zdiv_mono1) simp
  then show ?thesis unfolding ticks_until_def using assms(1) by (intro zdiv_mono1) (auto simp: pos_imp_zdiv_pos_iff)
qed

lemma ticks_until_periods:
  assumes "1000000 \<le> period" and "t + n * period \<le> t'" and "0 \<le> n"
  shows "ticks_until e period t + n \<le> ticks_until e period t'"
proof -
  define p where "p = period div 1000000"
  have p: "1 \<le> p" using assms(1) unfolding p_def by (simp add: le_div_iff)
  have "p * 1000000 \<le> period" unfolding p_def using div_mult_bounds(1) [of 1000000 period] by simp
  then have "n * (p * 1000000) \<le> n * period" using assms(3) by (rule mult_left_mono)
  then have "t + (n * p) * 1000000 \<le> t'" using assms(2) by (simp add: mult.assoc)
  then have "(t + (n * p) * 1000000) div 1000000 \<le> t' div 1000000" by (rule zdiv_mono1) simp
  then have "t div 1000000 + n * p \<le> t' div 1000000" by simp
  then have "(t div 1000000 - e + n * p) div p \<le> (t' div 1000000 - e) div p" using p by (intro zdiv_mono1) auto
  then show ?thesis using p unfolding ticks_until_def p_def [symmetric] by simp
qed

lemma ticks_until_nonneg: "1000000 \<le> period \<Longrightarrow> e \<le> t div 1000000 \<Longrightarrow> 0 \<le> ticks_until e period t"
proof -
  assume p: "1000000 \<le> period" and e: "e \<le> t div 1000000"
  from p have "0 < period div 1000000" by (simp add: pos_imp_zdiv_pos_iff)
  from pos_imp_zdiv_nonneg_iff [OF this] e show ?thesis unfolding ticks_until_def by auto
qed

lemma div_le_self:
  fixes a b :: int assumes "0 \<le> a" and "1 \<le> b" shows "a div b \<le> a"
proof -
  have "0 \<le> a div b" using assms by (simp add: pos_imp_zdiv_nonneg_iff)
  then have "a div b * 1 \<le> a div b * b" using assms(2) by (intro mult_left_mono) auto
  also have "\<dots> \<le> a" using div_mult_bounds(1) [of b a] assms(2) by simp
  finally show ?thesis by simp
qed

lemma ticks_until_word:
  assumes "1000000 \<le> period" and "0 \<le> e" and "e \<le> t div 1000000" and "t < 2 ^ 63"
  shows "ticks_until e period t < 2 ^ 63"
proof -
  have t: "0 \<le> t" using assms(2,3) by (simp add: le_div_iff)
  have "ticks_until e period t \<le> t div 1000000 - e" unfolding ticks_until_def
    using assms by (intro div_le_self) (auto simp: le_div_iff)
  also have "\<dots> \<le> t" using div_le_self [OF t, of 1000000] assms(2) by simp
  finally show ?thesis using assms(4) by simp
qed

lemma ResumeTick_derived:
  assumes "1000000 \<le> period" and "0 \<le> e" and "e \<le> t div 1000000" and "t < 2 ^ 63"
    and "int (unat saved) \<le> ticks_until e period t"
  shows "int (unat (fst (ResumeTick saved e (t div 1000000) period))) = ticks_until e period t"
proof -
  define p where "p = period div 1000000"
  define b where "b = ticks_until e period t"
  have p: "1 \<le> p" using assms(1) unfolding p_def by (simp add: le_div_iff)
  have gp: "go_div period 1000000 = p" unfolding p_def using assms(1) by (simp add: go_div_nonneg)
  have b: "0 \<le> b" "b < 2 ^ 63" unfolding b_def
    using ticks_until_nonneg [OF assms(1,3)] ticks_until_word [OF assms(1-4)] by auto
  have t: "0 \<le> t" using assms(2,3) by (simp add: le_div_iff)
  have "t div 1000000 \<le> t" using div_le_self [OF t, of 1000000] by simp
  then have i: "i64 (t div 1000000 - e) = t div 1000000 - e" using assms(2-4) by (intro i64_id) auto
  have g: "go_div (t div 1000000 - e) p = b"
    unfolding b_def ticks_until_def p_def [symmetric] using assms(3) p by (simp add: go_div_nonneg)
  have z: "b = 0" if "\<not> e < t div 1000000"
    using that assms(3) unfolding b_def ticks_until_def by simp
  have d: "(if 0 < p \<and> e < t div 1000000 then word_of_int (go_div (i64 (t div 1000000 - e)) p) else 0) = (word_of_int b :: 64 word)"
    using p i g z by auto
  have u: "int (unat (word_of_int b :: 64 word)) = b" using b by (simp add: unsigned_of_int take_bit_int_eq_self)
  have "\<not> (word_of_int b :: 64 word) < saved" using u assms(5) unfolding b_def [symmetric] word_less_nat_alt by linarith
  with d u show ?thesis unfolding ResumeTick_def Let_def gp b_def [symmetric] by simp
qed

lemma Step_tick [simp]: "lp_tick (Step D t l) = lp_tick l + 1"
  by (simp add: Step_def Let_def drainCommands_def split: option.splits prod.splits)

lemma New_loop_tick [simp]: "lp_tick (New_loop s cs ib cfg) = lc_StartTick cfg"
  by (simp add: New_loop_def Let_def)

lemma div_mono: "a \<le> b \<Longrightarrow> a div 1000000 \<le> b div (1000000 :: int)" by (rule zdiv_mono1) simp_all

lemma timely_start:
  assumes c: "timely e period c" and e: "0 \<le> e" and p: "1000000 \<le> period"
    and "cw_now c \<le> t" "t \<le> t'" "t' + period < 2 ^ 63"
    and st: "lc_StartTick cfg = fst (ResumeTick (cw_saved c) e (t div 1000000) period)"
  shows "timely e period (c\<lparr>cw_now := t', cw_life := Some (New_loop s commands ib cfg, t', 1, t' + period)\<rparr>)"
proof -
  have m: "ticks_until e period (cw_now c) \<le> ticks_until e period t" "ticks_until e period t \<le> ticks_until e period t'"
    using assms by (auto intro: ticks_until_mono)
  have t: "e \<le> t div 1000000" "e \<le> t' div 1000000"
    using c div_mono [OF assms(4)] div_mono [OF assms(5)] unfolding timely_def by auto
  have sv: "int (unat (cw_saved c)) \<le> ticks_until e period t" using c m unfolding timely_def by auto
  have tick: "int (unat (lc_StartTick cfg)) = ticks_until e period t"
    unfolding st using assms t sv by (intro ResumeTick_derived) auto
  have "x \<le> lc_StartTick cfg" if "x \<in> set (cw_emitted c)" for x
  proof -
    have "int (unat x) \<le> ticks_until e period (cw_now c)" using c that unfolding timely_def by blast
    with m(1) tick show ?thesis unfolding word_le_nat_alt by linarith
  qed
  then show ?thesis using c m t sv tick p unfolding timely_def by fastforce
qed

lemma timely_tick:
  assumes c: "timely e period c" and e: "0 \<le> e" and p: "1000000 \<le> period"
    and life: "cw_life c = Some (l, t0, n, due)" and t: "due \<le> t" "t \<le> t'" "t' + period < 2 ^ 63"
    and l': "lp_tick l' = lp_tick l + 1" and nd: "next_due period (t' - t0) n = (n', wait)"
  shows "timely e period (c\<lparr>cw_now := t', cw_emitted := lp_tick l' # cw_emitted c, cw_life := Some (l', t0, n', t' + wait)\<rparr>)"
proof -
  from c life have i: "e \<le> t0 div 1000000" "1 \<le> n" "due = t0 + n * period" "t0 \<le> cw_now c" "cw_now c \<le> due"
    "int (unat (lp_tick l)) < ticks_until e period t0 + n" "\<forall>x\<in>set (cw_emitted c). x \<le> lp_tick l"
    and i0: "int (unat (cw_saved c)) \<le> ticks_until e period (cw_now c)" "e \<le> cw_now c div 1000000"
    "\<forall>x\<in>set (cw_emitted c). int (unat x) \<le> ticks_until e period (cw_now c)" "sorted_wrt (>) (cw_emitted c)"
    unfolding timely_def by auto
  have t0: "0 \<le> t0" using i(1) e by (simp add: le_div_iff)
  obtain n'' where "next_due period (t' - t0) n = (n'', n'' * period - (t' - t0))" "n + 1 \<le> n''"
      "t' - t0 < n'' * period"
    using next_due_calendar [of period n "t' - t0"] p i(2,3) t t0 by auto
  with nd have n': "n + 1 \<le> n'" "t' + wait = t0 + n' * period" "t' < t0 + n' * period" by auto
  have m: "ticks_until e period (cw_now c) \<le> ticks_until e period t'" using p i(5) t by (intro ticks_until_mono) auto
  have up: "ticks_until e period t0 + n \<le> ticks_until e period t'" using p i(2,3) t by (intro ticks_until_periods) auto
  have "e \<le> t' div 1000000" using div_mono [of "cw_now c" t'] i(5) i0(2) t by linarith
  then have "ticks_until e period t' < 2 ^ 63" using p e t by (intro ticks_until_word) auto
  then have "unat (lp_tick l) + unat (1 :: 64 word) < 2 ^ LENGTH(64)" using i(6) up by (simp, linarith)
  then have u: "unat (lp_tick l') = unat (lp_tick l) + 1"
    unfolding l' by (simp add: unat_add_lem [THEN iffD1])
  then have lt: "lp_tick l < lp_tick l'" by (simp add: word_less_nat_alt)
  then have new: "\<forall>x\<in>set (cw_emitted c). x < lp_tick l'" using i(7) by (auto intro: le_less_trans)
  have tk: "int (unat (lp_tick l')) \<le> ticks_until e period t'" using u i(6) up by linarith
  have tk': "int (unat (lp_tick l')) < ticks_until e period t0 + n'" using u i(6) n'(1) by linarith
  show ?thesis unfolding timely_def
    using i i0 m up n' new tk tk' \<open>e \<le> t' div 1000000\<close> t by (auto intro: order_trans less_imp_le)
qed

lemma timely_step:
  assumes "ticking D e period c c'" and "timely e period c" and "0 \<le> e" and "1000000 \<le> period"
  shows "timely e period c'"
  using assms(1)
proof cases
  case (start t t' cfg s commands ib)
  with timely_start [OF assms(2-4)] show ?thesis by blast
next
  case (tick l t0 n due t t' l' commands ib n' wait)
  show ?thesis unfolding tick(1)
    by (rule timely_tick [OF assms(2-4) tick(2-5) _ tick(7)]) (simp add: tick(6))
next
  case (crash t)
  have m: "ticks_until e period (cw_now c) \<le> ticks_until e period t" using crash assms(4) by (intro ticks_until_mono)
  show ?thesis using assms(2) m div_mono [OF crash(2)] unfolding crash(1) timely_def by fastforce
next
  case (stop l t0 n due t)
  have m: "ticks_until e period (cw_now c) \<le> ticks_until e period t" using stop assms(4) by (intro ticks_until_mono)
  show ?thesis using assms(2) stop(2) m div_mono [OF stop(3)] unfolding stop(1) timely_def by fastforce
qed

lemma timely_history:
  assumes "(ticking D e period)\<^sup>*\<^sup>* c c'" and "timely e period c" and "0 \<le> e" and "1000000 \<le> period"
  shows "timely e period c'"
  using assms by (induction rule: rtranclp_induct) (auto intro: timely_step)

text \<open>
  C10: Over any history of starts, ticks, crashes and orderly stops, with a clock that does not go
  back, the numbers of the executed ticks only grow: none is used twice, and none is beyond the
  whole periods elapsed since the epoch of the world.
\<close>
theorem tick_numbers_never_repeat:
  assumes "(ticking D e period)\<^sup>*\<^sup>* c c'" and "cw_life c = None" and "cw_emitted c = []" and "cw_saved c = 0"
    and "0 \<le> e" and "e \<le> cw_now c div 1000000" and "1000000 \<le> period"
  shows "sorted_wrt (>) (cw_emitted c') \<and> distinct (cw_emitted c')
    \<and> (\<forall>x\<in>set (cw_emitted c'). int (unat x) \<le> ticks_until e period (cw_now c'))"
proof -
  have "timely e period c" unfolding timely_def assms(2-4) option.case sorted_wrt.simps list.set
    using ticks_until_nonneg [OF assms(7,6)] by (intro conjI TrueI assms(6)) simp_all
  then have c': "timely e period c'" using assms(5,7) by (rule timely_history [OF assms(1)])
  then have s: "sorted_wrt (>) (cw_emitted c')" by (simp add: timely_def)
  have "distinct xs" if "sorted_wrt (>) xs" for xs :: "64 word list" using that by (induction xs) auto
  with s c' show ?thesis by (auto simp: timely_def)
qed

definition sample_loop_config :: "64 word \<Rightarrow> loop_config" where
  "sample_loop_config t = \<lparr>lc_TickDuration = 200000000, lc_FlushIntervalTicks = 50, lc_MaxCommandsPerTick = 1024,
     lc_EpochMs = 1000, lc_StartTick = t\<rparr>"

definition sample_clockwork :: clockwork where
  "sample_clockwork = \<lparr>cw_now = 1000000000, cw_saved = 0, cw_emitted = [], cw_life = None\<rparr>"

lemma two_lives:
  obtains c where "(ticking sample_deps 1000 200000000)\<^sup>*\<^sup>* sample_clockwork c" "cw_emitted c = [8, 1]"
proof -
  let ?T = "ticking sample_deps 1000 200000000"
  define l1 where "l1 = New_loop town [] None (sample_loop_config 0)"
  define c1 where "c1 = sample_clockwork\<lparr>cw_now := 1000000000, cw_life := Some (l1, 1000000000, 1, 1000000000 + 200000000)\<rparr>"
  define l2 where "l2 = Step sample_deps 1200000000 (l1\<lparr>lp_commands := [], lp_inbox := None\<rparr>)"
  define c2 where "c2 = c1\<lparr>cw_now := 1250000000, cw_emitted := lp_tick l2 # cw_emitted c1,
      cw_life := Some (l2, 1000000000, 2, 1250000000 + 150000000)\<rparr>"
  define c3 where "c3 = c2\<lparr>cw_now := 1300000000, cw_life := None\<rparr>"
  define l4 where "l4 = New_loop town [] None (sample_loop_config 7)"
  define c4 where "c4 = c3\<lparr>cw_now := 2500000000, cw_life := Some (l4, 2500000000, 1, 2500000000 + 200000000)\<rparr>"
  define l5 where "l5 = Step sample_deps 2700000000 (l4\<lparr>lp_commands := [], lp_inbox := None\<rparr>)"
  define c5 where "c5 = c4\<lparr>cw_now := 2700000000, cw_emitted := lp_tick l5 # cw_emitted c4,
      cw_life := Some (l5, 2500000000, 2, 2700000000 + 200000000)\<rparr>"
  note defs = c1_def c2_def c3_def c4_def c5_def sample_clockwork_def
  have ticks: "lp_tick l2 = 1" "lp_tick l5 = 8" by (simp_all add: l1_def l2_def l4_def l5_def sample_loop_config_def)
  have r: "fst (ResumeTick 0 1000 1000 200000000) = 0" "fst (ResumeTick 0 1000 2400 200000000) = 7"
    by (simp_all add: ResumeTick_def go_div_nonneg i64_id Let_def)
  have n: "next_due 200000000 250000000 1 = (2, 150000000)" "next_due 200000000 200000000 1 = (2, 200000000)"
    by (simp_all add: next_due_def Let_def i64_id go_div_nonneg)
  have s1: "?T sample_clockwork c1" unfolding c1_def l1_def
    by (rule ticking.start [where t = 1000000000]) (simp_all add: sample_clockwork_def sample_loop_config_def r)
  have s2: "?T c1 c2" unfolding c2_def
    by (rule ticking.tick [where t = 1200000000 and ?t0.0 = 1000000000 and due = "1000000000 + 200000000" and l = l1 and n = 1 and commands = "[]" and ib = None])
      (simp_all add: c1_def l2_def n)
  have s3: "?T c2 c3" unfolding c3_def by (rule ticking.crash) (simp add: c2_def)
  have s4: "?T c3 c4" unfolding c4_def l4_def
    by (rule ticking.start [where t = 2400000000]) (simp_all add: defs sample_loop_config_def r)
  have s5: "?T c4 c5" unfolding c5_def
    by (rule ticking.tick [where t = 2700000000 and ?t0.0 = 2500000000 and due = "2500000000 + 200000000" and l = l4 and n = 1 and commands = "[]" and ib = None])
      (simp_all add: c4_def l5_def n)
  from s1 s2 have "?T\<^sup>*\<^sup>* sample_clockwork c2" by (rule converse_rtranclp_into_rtranclp [OF _ r_into_rtranclp])
  from this s3 have "?T\<^sup>*\<^sup>* sample_clockwork c3" by (rule rtranclp.rtrancl_into_rtrancl)
  from this s4 have "?T\<^sup>*\<^sup>* sample_clockwork c4" by (rule rtranclp.rtrancl_into_rtrancl)
  from this s5 have "?T\<^sup>*\<^sup>* sample_clockwork c5" by (rule rtranclp.rtrancl_into_rtrancl)
  moreover have "cw_emitted c5 = [8, 1]" using ticks by (simp add: defs)
  ultimately show thesis by (rule that)
qed

theorem tick_numbers_never_repeat_witness:
  "\<exists>c :: clockwork. cw_emitted c = [8, 1] \<and> sorted_wrt (>) (cw_emitted c) \<and> distinct (cw_emitted c)"
proof -
  obtain c where c: "(ticking sample_deps 1000 200000000)\<^sup>*\<^sup>* sample_clockwork c" "cw_emitted c = [8, 1]" by (rule two_lives)
  have "sorted_wrt (>) (cw_emitted c) \<and> distinct (cw_emitted c)
      \<and> (\<forall>x\<in>set (cw_emitted c). int (unat x) \<le> ticks_until 1000 200000000 (cw_now c))"
    by (rule tick_numbers_never_repeat [OF c(1)]) (simp_all add: sample_clockwork_def)
  with c(2) show ?thesis by blast
qed

end
