(* ===== verification/Spec2Isabelle.thy ===== *)
theory Spec2Isabelle
  imports Prelude World Generator Movement Node_Heap Pathfinding Path_Optimal Economy City Units Orders
    Diplomacy Trade Painting Territory Claims Safezone Player Eventlog Founding
    Job_Queue Chunk_Index Hub Go_Collections Protocol Live_State
    Live_Index Presence Marching Stockpile Tile_Deposits Gathering Garrisoning Concealment Flushing
    Recovery Unit_Modes Sim_Invariant
    Order_Invariant Handler_Invariant Tick_Invariant Other_Orders World_Run Boot Server_Life
    Treaty_Orders City_Economy Trade_Orders Combat Pillage_Siege Combat_Phase Conquest Snapshots Game_Loop Economy_Store
    Combat_Laws Loop_Order
begin

text \<open>
  A development of the game server of Empires Online (services/game-server, in Go): an
  authoritative simulation of a grid world with cities, units, gathering, buildings, treaties,
  trade, combat and territories, which a single game loop owns, whose writes go to PostgreSQL
  through an asynchronous queue and whose changes go to the sessions of the players.

  How the parts work together. A command of a player, or the answer of a finished write, waits in
  a channel (internal/game/loop). At each tick the loop applies commands to the state
  (internal/game/simulation, Apply), advances the movements, resolves the combat, runs the timers
  and, every so many ticks, hands what is dirty to the queue (internal/persistence/queue.go). A
  handler checks an order with the rules of internal/domain, asks the path finder for a route,
  changes the state, sends messages through the hub of sessions (internal/websocket/hub.go) and
  submits jobs; a job that is lost for good comes back as a command that compensates it. At a
  start the world is rebuilt from the rows (cmd/server/main.go and recovery.go).

  The theories, from the bottom up, with the files they model under
  src/services/game-server/internal unless it says otherwise:

    Prelude, Go_Collections: fixed-width integers of Go with their wrap-around, truncating
      division, loops over rectangles, maps and sorted slices.
    World, Generator: game/world. The terrain, the occupation layer, the chunks, the generator.
    Movement, Node_Heap, Pathfinding, Path_Optimal: domain/movement and pathfinding. Timed
      polylines, the array heap and A* with its reused workspace.
    Economy, City, Units, Orders, Player: domain/economy, deposit, city, unit, task, building,
      production, advance, player. The rules of resources, presence, units, tasks and orders.
    Diplomacy, Trade, Painting, Territory, Claims, Safezone, Eventlog: domain/diplomacy, garrison,
      trade, territory, safezone, eventlog. Founding: game/founding/site.go.
    Job_Queue, Chunk_Index, Hub: persistence/queue.go, websocket/hub.go. The concurrent queue as a
      step relation and the registry of sessions with its deliveries.
    Protocol, Live_State, Live_Index: protocol, game/simulation/state.go. The payloads, the state
      of the live world as one record (state, extended to sim by what the Simulation holds: the
      sessions, the time of the step, the messages sent and the jobs submitted) and its indexes.
    Presence, Marching, Stockpile, Tile_Deposits, Gathering, Garrisoning, Concealment, Flushing,
      Recovery, Treaty_Orders, City_Economy, Trade_Orders, Combat, Pillage_Siege, Combat_Phase,
      Conquest, Snapshots: game/simulation, one theory per concern, one definition per handler or
      helper under the name it has in the code (simulation.go, transition.go, gather.go,
      deposit.go, garrison.go, safezones.go, footprint.go, recovery.go, treaties.go, economy.go,
      advance.go, trade.go, combat.go, combat_response.go, pillage.go, siege.go, conquest.go,
      territory.go, introduce.go, snapshot.go, interest.go, notices.go).
    Game_Loop: game/loop and the dispatch of simulation.go. Boot: the recovery of cmd/server/main.go.
    Unit_Modes: the transactions of persistence/postgres that write units, movements and tasks.
    Economy_Store: those that write the economy (postgres/economy.go, advance.go, trade.go,
      combat.go), with the rows as maps.

  How the code is translated. int32 and int64 are integers with the wrap-around written out (i32,
  i64); uint64 and the identifiers are words. A pointer to a unit, a city or an engagement is its
  id, read and written through the store that holds it. A nil pointer is None; an error is a value
  of a sum type or of an option. A Go map that is iterated is an association list, and its loops
  sort their keys, as the code does. An instant and a duration are nanoseconds. A message is
  appended to sm_sent and a job to sm_jobs, with the request its closure runs (jb_Run) and the
  commands it hands back when it is lost. What the code takes from outside is a parameter: the path
  finder of the simulation (dp_FindPath), the text of a uuid and its parsing.

  What the lemmas show, by group.
    The rules of internal/domain: decisions, bounds, round trips and invariants of each package,
      over locales for the indexes that are painted first come, first served (painted_index).
    Path finding: soundness, completeness and optimality of the routes and consistency of the
      pooled workspace, over the locale of a priority queue that the array heap interprets.
    The queue and the hub: order of the jobs with a common key, absence of deadlock with jobs of two
      keys, exactness of the indexes and of the deliveries.
    Live_Index: the chunk index and the sorted ids answer what a scan of the units would.
    Sim_Invariant, Order_Invariant, Handler_Invariant, Tick_Invariant, Other_Orders, World_Run, Boot and
      Server_Life: one invariant of the live world and its disk (what each unit is doing, and that
      the rows repeat it) for every history made of boots, the peaceful orders (movement, gathering,
      garrison, building, training, advance) and their answers, births and new players, the phases of
      the tick other than combat, presence, flushes, writes of the queue and restarts with the queue
      drained. Combat, claims and lost writes are not events of these histories; World_Run says why.
    Treaty_Orders: at most one offer and one treaty in force between two players, whatever order the
      answers of the queue take.
    Combat_Laws: who can be harmed in a tick of combat, where the load of the dead goes and the
      floor of a pillage; it rests on what the steps of a fight leave untouched (lives and realm).
    Economy_Store: a write repeated after its commit changes nothing; stocks stay non-negative.
    Loop_Order: order of the commands within the budget, the calendar of the ticks and the numbers
      of the ticks over crashes and stops.

  Fuel and bounds. The arrivals of a gathering task call each other; they run on fuel, and
  gather_fuel proves that four calls are enough for any larger amount to give the same world. A*
  recurs on the expansions left and the size of its heap, a proper termination order. Statements
  on int32 and int64 values carry the bounds that keep them from wrapping, or the wrap itself. The
  numbers of the ticks are shown up to 2 ^ 63 nanoseconds after 1970.

  Not modelled. The transport of websocket/server.go and session.go (decoding of frames, limits,
  writers), the JSON schema of protocol/schema.go and the HTTP API are input and output. Of
  persistence, the reads at start, the events of the log and the transactions of treaties, offers and
  claims are left out, as are the adapters that copy fields between packages; redis, tickets,
  configuration, metrics, logs, the load generator and the seed of development data hold no rule of the
  game. The histories of the invariant of the live world leave out the orders and the phase of combat,
  the claims of territory, trade and treaties, and the loss of a write with the orders that compensate
  it; the orders of trade, treaties, combat and conquest are modelled whole, with the laws above, and the
  compensations are modelled, with the cases found where they break that invariant, but none of them is
  an event there. A panic recovered by the loop, the timers of
  the runtime and the goroutines of the process are outside.
\<close>

end
